(* ===== verification/Conminer_Prelude.thy ===== *)
theory Conminer_Prelude
  imports Main "HOL-Library.Word" "HOL-Library.Sublist"
begin

text \<open>
  Shared vocabulary of the development: machine types, the named collections of
  simplification rules the component proofs draw on, list operations of the Rust
  standard library that several components use (\<open>slice::split\<close>, \<open>slice::chunks\<close>,
  \<open>Vec::dedup\<close>), and the interface of a machine that is fed one element at a time
  and reports through an output buffer.
\<close>

type_synonym byte = "8 word"
type_synonym u32 = "32 word"
type_synonym u64 = "64 word"

named_theorems model_defs \<open>defining equations of the model's non-recursive operations\<close>
named_theorems frame_simps \<open>fields an operation leaves unchanged\<close>

section \<open>Rust slices\<close>

text \<open>\<^verbatim>\<open>slice.split(|x| x == sep)\<close>: the segments between separators, always at least one.\<close>

fun split_on :: "'a \<Rightarrow> 'a list \<Rightarrow> 'a list list" where
  "split_on sep [] = [[]]"
| "split_on sep (x # xs) =
     (if x = sep then [] # split_on sep xs
      else (case split_on sep xs of [] \<Rightarrow> [[x]] | s # ss \<Rightarrow> (x # s) # ss))"

text \<open>The inverse: segments joined by the separator (\<^verbatim>\<open>[_]::join\<close>).\<close>

fun join_with :: "'a list \<Rightarrow> 'a list list \<Rightarrow> 'a list" where
  "join_with sep [] = []"
| "join_with sep [s] = s"
| "join_with sep (s # t # ss) = s @ sep @ join_with sep (t # ss)"

lemma split_on_nonempty [simp]: "split_on sep xs \<noteq> []"
  by (induction xs) (auto split: list.splits)

lemma join_with_Cons:
  "join_with sep (s # ss) = (if ss = [] then s else s @ sep @ join_with sep ss)"
  by (cases ss) auto

lemma split_on_append: "sep \<notin> set l \<Longrightarrow> split_on sep (l @ sep # s) = l # split_on sep s"
  by (induction l) auto

lemma join_split_on [simp]: "join_with [sep] (split_on sep xs) = xs"
proof (induction xs)
  case (Cons x xs)
  obtain s ss where "split_on sep xs = s # ss"
    by (cases "split_on sep xs") auto
  with Cons show ?case
    by (auto simp: join_with_Cons)
qed simp

lemma split_on_segments: "s \<in> set (split_on sep xs) \<Longrightarrow> sep \<notin> set s"
  by (induction xs arbitrary: s) (force split: list.splits if_splits)+

lemma split_on_length: "s \<in> set (split_on sep xs) \<Longrightarrow> length s \<le> length xs"
proof (induction xs arbitrary: s)
  case (Cons x xs)
  obtain t ts where "split_on sep xs = t # ts"
    by (cases "split_on sep xs") auto
  with Cons show ?case
    by (force split: if_splits)
qed simp

lemma split_on_no_sep: "sep \<notin> set xs \<Longrightarrow> split_on sep xs = [xs]"
  by (induction xs) auto

text \<open>\<^verbatim>\<open>slice.chunks(n)\<close>: consecutive pieces of \<open>n\<close> elements, the last one shorter.
  Rust panics at \<open>n = 0\<close>; every caller in the sources passes a positive constant.\<close>

function chunks :: "nat \<Rightarrow> 'a list \<Rightarrow> 'a list list" where
  "chunks n xs = (if xs = [] \<or> n = 0 then [] else take n xs # chunks n (drop n xs))"
  by pat_completeness auto
termination
  by (relation "measure (\<lambda>(n, xs). length xs)") auto

declare chunks.simps [simp del]

lemma concat_chunks: "0 < n \<Longrightarrow> concat (chunks n xs) = xs"
proof (induction n xs rule: chunks.induct)
  case (1 n xs)
  then show ?case
    by (cases "xs = []") (simp_all add: chunks.simps [of n])
qed

lemma chunks_bound: "c \<in> set (chunks n xs) \<Longrightarrow> c \<noteq> [] \<and> length c \<le> n"
proof (induction n xs rule: chunks.induct)
  case (1 n xs)
  from 1 show ?case
    by (subst (asm) (2) chunks.simps) (auto split: if_splits)
qed

section \<open>Machines fed one element at a time\<close>

text \<open>
  A reader that consumes a stream in chunks: \<open>feed\<close> consumes one element, \<open>emitted\<close> is
  the output buffer, \<open>set_emitted\<close> overwrites it (the source's \<open>std::mem::take\<close> sets it
  to the empty one) and \<open>account\<close> books the size of a chunk. The laws say that feeding
  only appends to the output buffer and otherwise ignores it, and that the accounting
  does not interact with feeding. A client may then cut the stream anywhere.
\<close>

locale chunked_reader =
  fixes feed :: "'s \<Rightarrow> 'a \<Rightarrow> 's"
    and emitted :: "'s \<Rightarrow> 'o list"
    and set_emitted :: "'s \<Rightarrow> 'o list \<Rightarrow> 's"
    and account :: "nat \<Rightarrow> 's \<Rightarrow> 's"
  assumes emitted_set: "emitted (set_emitted s out) = out"
    and set_id: "set_emitted s (emitted s) = s"
    and set_set: "set_emitted (set_emitted s out) out' = set_emitted s out'"
    and feed_frame: "feed (set_emitted s out) x =
          set_emitted (feed (set_emitted s []) x) (out @ emitted (feed (set_emitted s []) x))"
    and account_frame: "account n (set_emitted s out) = set_emitted (account n s) out"
    and account_feed: "account n (feed s x) = feed (account n s) x"
    and account_add: "account m (account n s) = account (n + m) s"
begin

definition feed_all :: "'s \<Rightarrow> 'a list \<Rightarrow> 's" where
  "feed_all s xs = foldl feed s xs"

definition push :: "'s \<Rightarrow> 'a list \<Rightarrow> 'o list \<times> 's" where
  "push s xs = (let t = feed_all (account (length xs) s) xs in (emitted t, set_emitted t []))"

lemma feed_all_append: "feed_all s (xs @ ys) = feed_all (feed_all s xs) ys"
  by (simp add: feed_all_def)

lemma feed_all_frame:
  "feed_all (set_emitted s out) xs =
     set_emitted (feed_all (set_emitted s []) xs) (out @ emitted (feed_all (set_emitted s []) xs))"
proof (induction xs arbitrary: s out)
  case Nil
  then show ?case by (simp add: feed_all_def emitted_set set_set)
next
  case (Cons x xs)
  let ?t = "feed (set_emitted s []) x"
  have step: "feed_all (set_emitted s o') (x # xs) =
      set_emitted (feed_all (set_emitted ?t []) xs)
        (o' @ emitted ?t @ emitted (feed_all (set_emitted ?t []) xs))" for o'
  proof -
    have "feed_all (set_emitted s o') (x # xs) = feed_all (set_emitted ?t (o' @ emitted ?t)) xs"
      by (simp add: feed_all_def feed_frame [of s o' x])
    then show ?thesis by (simp add: Cons.IH [of ?t "o' @ emitted ?t"])
  qed
  have "feed_all (set_emitted s []) (x # xs) =
      set_emitted (feed_all (set_emitted ?t []) xs)
        (emitted ?t @ emitted (feed_all (set_emitted ?t []) xs))"
    using step [of "[]"] by simp
  then show ?case
    by (simp add: step [of out] emitted_set set_set)
qed

lemma account_feed_all: "account n (feed_all s xs) = feed_all (account n s) xs"
  by (induction xs arbitrary: s) (simp_all add: feed_all_def account_feed)

text \<open>Cutting the stream into two chunks changes neither the output nor the final state.\<close>

lemma push_append:
  assumes "push s xs = (o1, s1)" and "push s1 ys = (o2, s2)"
  shows "push s (xs @ ys) = (o1 @ o2, s2)"
proof -
  let ?t = "feed_all (account (length xs) s) xs"
  let ?m = "account (length ys) ?t"
  let ?u = "feed_all (set_emitted ?m []) ys"
  have s1: "o1 = emitted ?t" "s1 = set_emitted ?t []"
    using assms(1) by (auto simp: push_def Let_def)
  have o2: "o2 = emitted ?u" "s2 = set_emitted ?u []"
    using assms(2) by (auto simp: push_def Let_def s1 account_frame)
  have "?m = set_emitted ?m (emitted ?t)"
    by (metis account_frame set_id)
  then have "feed_all ?m ys = set_emitted ?u (emitted ?t @ emitted ?u)"
    by (metis feed_all_frame)
  moreover have "feed_all (account (length (xs @ ys)) s) (xs @ ys) = feed_all ?m ys"
    by (simp add: feed_all_append account_feed_all flip: account_add)
  ultimately show ?thesis
    by (simp add: push_def Let_def s1 o2 emitted_set set_set del: length_append)
qed

lemma push_Nil: "emitted s = [] \<Longrightarrow> push s [] = ([], account 0 s)"
  by (metis account_frame emitted_set feed_all_def foldl_Nil list.size(3) push_def set_id)

text \<open>Any chunking of a stream gives the output of the whole stream.\<close>

fun push_chunks :: "'s \<Rightarrow> 'a list list \<Rightarrow> 'o list \<times> 's" where
  "push_chunks s [] = ([], s)"
| "push_chunks s (c # cs) =
     (let (o1, s1) = push s c; (o2, s2) = push_chunks s1 cs in (o1 @ o2, s2))"

lemma push_emptied: "push s xs = (o1, s1) \<Longrightarrow> emitted s1 = []"
  by (auto simp: push_def Let_def emitted_set)

lemma push_chunks_concat:
  assumes "emitted s = []" and "account 0 s = s"
  shows "push_chunks s cs = push s (concat cs)"
  using assms
proof (induction cs arbitrary: s)
  case Nil
  then show ?case by (simp add: push_Nil)
next
  case (Cons c cs)
  obtain o1 s1 where p: "push s c = (o1, s1)" by fastforce
  obtain o2 s2 where q: "push s1 (concat cs) = (o2, s2)" by fastforce
  have "s1 = set_emitted (feed_all (account (length c) s) c) []"
    using p by (auto simp: push_def Let_def)
  moreover have "account 0 (account (length c) s) = account (length c) s"
    by (simp add: account_add)
  ultimately have "account 0 s1 = s1"
    by (simp add: account_frame account_feed_all)
  with p q Cons.IH [of s1] push_emptied [OF p] show ?case
    by (simp add: push_append [OF p q])
qed

end

end
