(* ===== verification/Linesplit.thy ===== *)
theory Linesplit
  imports Conminer_Prelude
begin

text \<open>
  The first stage of the pipeline (\<^verbatim>\<open>crates/conminer-core/src/linesplit.rs\<close>): bytes into
  lines. The splitter decides only where the boundaries are; the theorems show that the
  bytes come back out unchanged, that the boundaries do not depend on how the stream was
  chopped into reads, that the truncation flags chain consecutive pieces of a long line,
  and that no piece exceeds the configured bound.
\<close>

section \<open>Data\<close>

datatype LineEndingMode = Auto | Lf_mode | Crlf_mode | Cr_mode

datatype Terminator = Lf | CrLf | Cr | No_term

fun Terminator_raw :: "Terminator \<Rightarrow> byte list" where
  "Terminator_raw Lf = [10]"
| "Terminator_raw CrLf = [13, 10]"
| "Terminator_raw Cr = [13]"
| "Terminator_raw No_term = []"

fun Terminator_as_str :: "Terminator \<Rightarrow> string" where
  "Terminator_as_str Lf = ''lf''"
| "Terminator_as_str CrLf = ''crlf''"
| "Terminator_as_str Cr = ''cr''"
| "Terminator_as_str No_term = ''none''"

definition Terminator_from_label :: "string \<Rightarrow> Terminator" where
  "Terminator_from_label label =
     (if label = ''lf'' then Lf
      else if label = ''crlf'' then CrLf
      else if label = ''cr'' then Cr
      else No_term)"

record Line =
  line_bytes :: "byte list"
  line_terminator :: Terminator
  line_truncated :: bool
  line_continuation :: bool

definition Line_consumed :: "Line \<Rightarrow> nat" where
  "Line_consumed l = length (line_bytes l) + length (Terminator_raw (line_terminator l))"

text \<open>
  \<^verbatim>\<open>render_overwrites\<close>: carriage return moves the cursor to column 0, backspace one
  column left (\<^verbatim>\<open>saturating_sub\<close>); any other character overwrites or extends.
\<close>

definition render_char :: "char list \<times> nat \<Rightarrow> char \<Rightarrow> char list \<times> nat" where
  "render_char = (\<lambda>(out, col) c.
     if c = CHR 0x0D then (out, 0)
     else if c = CHR 0x08 then (out, col - 1)
     else if col < length out then (out[col := c], col + 1)
     else (out @ [c], col + 1))"

definition render_overwrites :: "string \<Rightarrow> string" where
  "render_overwrites s = fst (foldl render_char ([], 0) s)"

text \<open>The display view goes through \<^verbatim>\<open>String::from_utf8_lossy\<close>, here the argument \<open>decode\<close>.\<close>

definition Line_rendered :: "(byte list \<Rightarrow> string) \<Rightarrow> Line \<Rightarrow> string" where
  "Line_rendered decode l = render_overwrites (decode (line_bytes l))"

section \<open>The splitter\<close>

record LineSplitter =
  ls_mode :: LineEndingMode
  ls_probing :: bool
  ls_probe_budget :: nat
  ls_probe_consumed :: nat
  ls_max_line_bytes :: nat
  ls_buf :: "byte list"
  ls_pending_cr :: bool
  ls_next_is_continuation :: bool
  ls_out :: "Line list"
  ls_bytes_in :: nat

definition LineSplitter_new :: "LineEndingMode \<Rightarrow> nat \<Rightarrow> nat \<Rightarrow> LineSplitter" where
  "LineSplitter_new mode max_line_bytes probe_bytes =
     \<lparr> ls_mode = mode,
       ls_probing = (mode = Auto),
       ls_probe_budget = max probe_bytes 1,
       ls_probe_consumed = 0,
       ls_max_line_bytes = max max_line_bytes 64,
       ls_buf = [],
       ls_pending_cr = False,
       ls_next_is_continuation = False,
       ls_out = [],
       ls_bytes_in = 0 \<rparr>"

definition LineSplitter_mode :: "LineSplitter \<Rightarrow> LineEndingMode" where
  "LineSplitter_mode s = (if ls_probing s then Auto else ls_mode s)"

definition LineSplitter_pending_bytes :: "LineSplitter \<Rightarrow> nat" where
  "LineSplitter_pending_bytes s = length (ls_buf s) + (if ls_pending_cr s then 1 else 0)"

definition LineSplitter_pending_text :: "(byte list \<Rightarrow> string) \<Rightarrow> LineSplitter \<Rightarrow> string" where
  "LineSplitter_pending_text decode s = decode (ls_buf s)"

definition cr_terminates :: "LineSplitter \<Rightarrow> bool" where
  "cr_terminates s \<longleftrightarrow> ls_mode s = Cr_mode \<and> \<not> ls_probing s"

definition emit_flagged :: "LineSplitter \<Rightarrow> Terminator \<Rightarrow> bool \<Rightarrow> LineSplitter" where
  "emit_flagged s t truncated =
     s\<lparr> ls_buf := [],
        ls_next_is_continuation := truncated,
        ls_out := ls_out s @
          [\<lparr> line_bytes = ls_buf s, line_terminator = t, line_truncated = truncated,
             line_continuation = ls_next_is_continuation s \<rparr>] \<rparr>"

definition emit :: "LineSplitter \<Rightarrow> Terminator \<Rightarrow> LineSplitter" where
  "emit s t = emit_flagged s t False"

definition push_content :: "LineSplitter \<Rightarrow> byte \<Rightarrow> LineSplitter" where
  "push_content s b =
     (let s = s\<lparr> ls_buf := ls_buf s @ [b] \<rparr>
      in if length (ls_buf s) \<ge> ls_max_line_bytes s then emit_flagged s No_term True else s)"

definition lock_lf :: "LineSplitter \<Rightarrow> LineSplitter" where
  "lock_lf s =
     (if ls_probing s
      then s\<lparr> ls_probing := False, ls_mode := (if ls_mode s = Auto then Lf_mode else ls_mode s) \<rparr>
      else s)"

text \<open>The loop of \<^verbatim>\<open>resplit_buffered_crs\<close> over the peekable segments: every segment but the
  last becomes a line, the last one stays buffered.\<close>

fun resplit_segments :: "LineSplitter \<Rightarrow> byte list list \<Rightarrow> LineSplitter" where
  "resplit_segments s [] = s"
| "resplit_segments s [seg] = s\<lparr> ls_buf := seg \<rparr>"
| "resplit_segments s (seg # next # rest) =
     resplit_segments (emit (s\<lparr> ls_buf := seg \<rparr>) Cr) (next # rest)"

definition resplit_buffered_crs :: "LineSplitter \<Rightarrow> LineSplitter" where
  "resplit_buffered_crs s =
     (if 13 \<notin> set (ls_buf s) then s
      else resplit_segments (s\<lparr> ls_buf := [] \<rparr>) (split_on 13 (ls_buf s)))"

definition maybe_end_probe :: "LineSplitter \<Rightarrow> bool \<Rightarrow> LineSplitter" where
  "maybe_end_probe s saw_cr =
     (if \<not> ls_probing s then s
      else if \<not> ls_probe_consumed s \<ge> ls_probe_budget s then s
      else if saw_cr \<or> 13 \<in> set (ls_buf s)
      then resplit_buffered_crs (s\<lparr> ls_probing := False, ls_mode := Cr_mode \<rparr>)
      else s\<lparr> ls_probing := False, ls_mode := Lf_mode \<rparr>)"

text \<open>The \<^verbatim>\<open>match b\<close> at the end of \<^verbatim>\<open>LineSplitter::byte\<close>.\<close>

definition byte_match :: "LineSplitter \<Rightarrow> byte \<Rightarrow> LineSplitter" where
  "byte_match s b =
     (if b = 13 then maybe_end_probe (s\<lparr> ls_pending_cr := True \<rparr>) True
      else if b = 10 then emit (lock_lf s) Lf
      else maybe_end_probe (push_content s b) False)"

text \<open>The branch of \<^verbatim>\<open>LineSplitter::byte\<close> taken when a carriage return is pending.\<close>

definition byte_after_cr :: "LineSplitter \<Rightarrow> byte \<Rightarrow> LineSplitter" where
  "byte_after_cr s b =
     (let s = s\<lparr> ls_pending_cr := False \<rparr>
      in if b = 10 then emit (lock_lf s) CrLf
         else byte_match (if cr_terminates s then emit s Cr else push_content s 13) b)"

definition probe_tick :: "LineSplitter \<Rightarrow> LineSplitter" where
  "probe_tick s =
     (if ls_probing s then s\<lparr> ls_probe_consumed := ls_probe_consumed s + 1 \<rparr> else s)"

definition LineSplitter_byte :: "LineSplitter \<Rightarrow> byte \<Rightarrow> LineSplitter" where
  "LineSplitter_byte s b =
     (let s = probe_tick s in if ls_pending_cr s then byte_after_cr s b else byte_match s b)"

definition LineSplitter_push :: "LineSplitter \<Rightarrow> byte list \<Rightarrow> Line list \<times> LineSplitter" where
  "LineSplitter_push s chunk =
     (let s = foldl LineSplitter_byte (s\<lparr> ls_bytes_in := ls_bytes_in s + length chunk \<rparr>) chunk
      in (ls_out s, s\<lparr> ls_out := [] \<rparr>))"

definition LineSplitter_flush :: "LineSplitter \<Rightarrow> Line list \<times> LineSplitter" where
  "LineSplitter_flush s =
     (let s = (if ls_pending_cr s
               then (let s = s\<lparr> ls_pending_cr := False \<rparr>
                     in if cr_terminates s then emit s Cr else s\<lparr> ls_buf := ls_buf s @ [13] \<rparr>)
               else s);
          s = (if ls_buf s \<noteq> [] then emit s No_term else s)
      in (ls_out s, s\<lparr> ls_out := [] \<rparr>))"

definition split_all :: "byte list \<Rightarrow> LineEndingMode \<Rightarrow> nat \<Rightarrow> Line list" where
  "split_all data mode max_line_bytes =
     (let (lines, s) = LineSplitter_push (LineSplitter_new mode max_line_bytes 4096) data;
          (tail, s) = LineSplitter_flush s
      in lines @ tail)"

fun reassemble :: "Line list \<Rightarrow> byte list" where
  "reassemble [] = []"
| "reassemble (l # ls) = line_bytes l @ Terminator_raw (line_terminator l) @ reassemble ls"

lemmas splitter_defs =
  emit_flagged_def emit_def push_content_def lock_lf_def cr_terminates_def Let_def


section \<open>Feeding and the output buffer\<close>

text \<open>An operation is framed when it only appends to the output buffer without reading it,
  and neither reads nor writes the byte counter.\<close>

definition framed :: "(LineSplitter \<Rightarrow> LineSplitter) \<Rightarrow> bool" where
  "framed f \<longleftrightarrow>
     (\<forall>s out. f (s\<lparr> ls_out := out \<rparr>) =
        (f (s\<lparr> ls_out := [] \<rparr>))\<lparr> ls_out := out @ ls_out (f (s\<lparr> ls_out := [] \<rparr>)) \<rparr>) \<and>
     (\<forall>s n. f (s\<lparr> ls_bytes_in := n \<rparr>) = (f s)\<lparr> ls_bytes_in := n \<rparr>)"

lemma framedD:
  assumes "framed f"
  shows "f (s\<lparr> ls_out := out \<rparr>) =
     (f (s\<lparr> ls_out := [] \<rparr>))\<lparr> ls_out := out @ ls_out (f (s\<lparr> ls_out := [] \<rparr>)) \<rparr>"
    and "f (s\<lparr> ls_bytes_in := n \<rparr>) = (f s)\<lparr> ls_bytes_in := n \<rparr>"
  using assms unfolding framed_def by blast+

lemma framed_bytes_in: "framed f \<Longrightarrow> ls_bytes_in (f s) = ls_bytes_in s"
  using framedD(2) [of f "ls_bytes_in s" s] by (cases s; cases "f s") simp

lemma framed_comp:
  assumes "framed f" and "framed g"
  shows "framed (\<lambda>s. g (f s))"
proof -
  have "g (f (s\<lparr> ls_out := out \<rparr>)) =
      (g (f (s\<lparr> ls_out := [] \<rparr>)))\<lparr> ls_out := out @ ls_out (g (f (s\<lparr> ls_out := [] \<rparr>))) \<rparr>" for s out
  proof -
    let ?t = "f (s\<lparr> ls_out := [] \<rparr>)"
    have g: "g (?t\<lparr> ls_out := o' \<rparr>) =
        (g (?t\<lparr> ls_out := [] \<rparr>))\<lparr> ls_out := o' @ ls_out (g (?t\<lparr> ls_out := [] \<rparr>)) \<rparr>" for o'
      by (rule framedD [OF assms(2)])
    have "g (f (s\<lparr> ls_out := out \<rparr>)) = g (?t\<lparr> ls_out := out @ ls_out ?t \<rparr>)"
      by (rule arg_cong [OF framedD(1) [OF assms(1)]])
    also have "\<dots> = (g (?t\<lparr> ls_out := [] \<rparr>))
        \<lparr> ls_out := (out @ ls_out ?t) @ ls_out (g (?t\<lparr> ls_out := [] \<rparr>)) \<rparr>"
      by (rule g)
    also have "\<dots> = (g ?t)\<lparr> ls_out := out @ ls_out (g ?t) \<rparr>"
      using g [of "ls_out ?t"] by simp
    finally show ?thesis .
  qed
  moreover have "g (f (s\<lparr> ls_bytes_in := n \<rparr>)) = (g (f s))\<lparr> ls_bytes_in := n \<rparr>" for s n
    by (simp only: framedD(2) [OF assms(1)] framedD(2) [OF assms(2)])
  ultimately show ?thesis unfolding framed_def by blast
qed

lemma framed_if:
  assumes "framed f" and "framed g"
    and "\<And>s out. P (s\<lparr> ls_out := out \<rparr>) = P s" and "\<And>s n. P (s\<lparr> ls_bytes_in := n \<rparr>) = P s"
  shows "framed (\<lambda>s. if P s then f s else g s)"
  unfolding framed_def
proof (intro conjI allI)
  fix s out n
  show "(if P (s\<lparr> ls_out := out \<rparr>) then f (s\<lparr> ls_out := out \<rparr>) else g (s\<lparr> ls_out := out \<rparr>)) =
      (if P (s\<lparr> ls_out := [] \<rparr>) then f (s\<lparr> ls_out := [] \<rparr>) else g (s\<lparr> ls_out := [] \<rparr>))
      \<lparr> ls_out := out @ ls_out (if P (s\<lparr> ls_out := [] \<rparr>) then f (s\<lparr> ls_out := [] \<rparr>)
        else g (s\<lparr> ls_out := [] \<rparr>)) \<rparr>"
    unfolding assms(3)
    by (cases "P s"; simp only: if_True if_False)
      (rule framedD(1) [OF assms(1)], rule framedD(1) [OF assms(2)])
  show "(if P (s\<lparr> ls_bytes_in := n \<rparr>) then f (s\<lparr> ls_bytes_in := n \<rparr>)
        else g (s\<lparr> ls_bytes_in := n \<rparr>)) = (if P s then f s else g s)\<lparr> ls_bytes_in := n \<rparr>"
    unfolding assms(4) using framedD(2) [OF assms(1)] framedD(2) [OF assms(2)] by simp
qed

lemma framed_cond: "framed f \<Longrightarrow> framed g \<Longrightarrow> framed (if P then f else g)"
  by simp

lemma framed_update:
  "framed (\<lambda>s. s\<lparr> ls_pending_cr := b \<rparr>)"
  "framed (\<lambda>s. s\<lparr> ls_probing := False, ls_mode := m \<rparr>)"
  "framed (\<lambda>s. s\<lparr> ls_buf := bs \<rparr>)"
  "framed (\<lambda>s. s\<lparr> ls_buf := ls_buf s @ bs \<rparr>)"
  "framed (\<lambda>s. s\<lparr> ls_probe_consumed := ls_probe_consumed s + 1 \<rparr>)"
  "framed (\<lambda>s. s)"
  by (simp_all add: framed_def)

lemma framed_emit_flagged: "framed (\<lambda>s. emit_flagged s t b)"
  by (simp add: framed_def emit_flagged_def)

lemma framed_emit: "framed (\<lambda>s. emit s t)"
  by (simp add: emit_def framed_emit_flagged)

lemma framed_push_content: "framed (\<lambda>s. push_content s b)"
  by (simp add: framed_def push_content_def emit_flagged_def Let_def)

lemma framed_lock_lf: "framed lock_lf"
  by (simp add: framed_def lock_lf_def)

lemma framed_resplit_segments: "framed (\<lambda>s. resplit_segments s segs)"
proof (induction segs rule: induct_list012)
  case (3 x y zs)
  show ?case
    unfolding resplit_segments.simps
    by (rule framed_comp [OF framed_comp [OF framed_update(3) framed_emit] 3(2)])
qed (simp_all add: framed_update)

lemma framed_resplit: "framed resplit_buffered_crs"
  unfolding framed_def
proof (intro conjI allI)
  fix s :: LineSplitter and out n
  let ?r = "\<lambda>t. resplit_segments (t\<lparr> ls_buf := [] \<rparr>) (split_on 13 (ls_buf s))"
  have "framed ?r" by (rule framed_comp [OF framed_update(3) framed_resplit_segments])
  note f = framedD [OF this, where s = s]
  show "resplit_buffered_crs (s\<lparr> ls_out := out \<rparr>) = (resplit_buffered_crs (s\<lparr> ls_out := [] \<rparr>))
      \<lparr> ls_out := out @ ls_out (resplit_buffered_crs (s\<lparr> ls_out := [] \<rparr>)) \<rparr>"
    using f(1) [of out] by (simp add: resplit_buffered_crs_def)
  show "resplit_buffered_crs (s\<lparr> ls_bytes_in := n \<rparr>) = (resplit_buffered_crs s)\<lparr> ls_bytes_in := n \<rparr>"
    using f(2) [of n] by (simp add: resplit_buffered_crs_def)
qed

lemma framed_maybe_end_probe: "framed (\<lambda>s. maybe_end_probe s saw)"
  unfolding maybe_end_probe_def
  by (intro framed_if framed_update framed_comp [OF framed_update(2) framed_resplit]) simp_all

lemma framed_byte_match: "framed (\<lambda>s. byte_match s b)"
proof -
  have "framed (\<lambda>s. maybe_end_probe (s\<lparr> ls_pending_cr := True \<rparr>) True)"
    "framed (\<lambda>s. emit (lock_lf s) Lf)"
    "framed (\<lambda>s. maybe_end_probe (push_content s b) False)"
    by (intro framed_comp [OF _ framed_maybe_end_probe] framed_update framed_push_content
        framed_comp [OF framed_lock_lf framed_emit])+
  then show ?thesis
    unfolding byte_match_def by (intro framed_if) simp_all
qed

lemma framed_byte_after_cr: "framed (\<lambda>s. byte_after_cr s b)"
proof -
  have "framed (\<lambda>s. if b = 10 then emit (lock_lf s) CrLf
      else byte_match (if cr_terminates s then emit s Cr else push_content s 13) b)"
    by (intro framed_if framed_comp [OF framed_lock_lf framed_emit]
        framed_comp [OF _ framed_byte_match] framed_emit framed_push_content)
      (simp_all add: cr_terminates_def)
  then show ?thesis
    unfolding byte_after_cr_def Let_def by (rule framed_comp [OF framed_update(1)])
qed

lemma framed_byte: "framed (\<lambda>s. LineSplitter_byte s b)"
proof -
  have tick: "framed probe_tick"
    unfolding probe_tick_def by (intro framed_if framed_update) simp_all
  have "framed (\<lambda>s. if ls_pending_cr s then byte_after_cr s b else byte_match s b)"
    by (intro framed_if framed_byte_after_cr framed_byte_match) simp_all
  then show ?thesis
    unfolding LineSplitter_byte_def Let_def by (rule framed_comp [OF tick])
qed

text \<open>The splitter is a chunked reader: boundaries never depend on how the stream was cut.\<close>

interpretation splitter: chunked_reader LineSplitter_byte ls_out
  "\<lambda>s out. s\<lparr> ls_out := out \<rparr>" "\<lambda>n s. s\<lparr> ls_bytes_in := ls_bytes_in s + n \<rparr>"
proof unfold_locales
  fix s :: LineSplitter and b out
  show "LineSplitter_byte (s\<lparr> ls_out := out \<rparr>) b =
      (LineSplitter_byte (s\<lparr> ls_out := [] \<rparr>) b)
        \<lparr> ls_out := out @ ls_out (LineSplitter_byte (s\<lparr> ls_out := [] \<rparr>) b) \<rparr>"
    by (rule framedD [OF framed_byte])
next
  fix n and s :: LineSplitter and b
  show "(LineSplitter_byte s b)\<lparr> ls_bytes_in := ls_bytes_in (LineSplitter_byte s b) + n \<rparr> =
      LineSplitter_byte (s\<lparr> ls_bytes_in := ls_bytes_in s + n \<rparr>) b"
    by (simp add: framedD(2) [OF framed_byte] framed_bytes_in [OF framed_byte])
qed (simp_all add: add.assoc)

lemma LineSplitter_push_eq: "LineSplitter_push = splitter.push"
  by (intro ext) (simp add: LineSplitter_push_def splitter.push_def splitter.feed_all_def Let_def)


section \<open>Conservation\<close>

text \<open>The bytes a splitter has consumed: what it emitted, what it buffers, and a carriage
  return it has not placed yet.\<close>

definition consumed_stream :: "LineSplitter \<Rightarrow> byte list" where
  "consumed_stream s =
     reassemble (ls_out s) @ ls_buf s @ (if ls_pending_cr s then [13] else [])"

lemma reassemble_append [simp]: "reassemble (ls @ ls') = reassemble ls @ reassemble ls'"
  by (induction ls) auto

lemma resplit_segments_fields [simp]:
  "ls_pending_cr (resplit_segments s segs) = ls_pending_cr s"
  "ls_max_line_bytes (resplit_segments s segs) = ls_max_line_bytes s"
  by (induction s segs rule: resplit_segments.induct) (simp_all add: splitter_defs)

lemma resplit_segments_stream:
  "segs \<noteq> [] \<Longrightarrow> reassemble (ls_out (resplit_segments s segs)) @ ls_buf (resplit_segments s segs)
     = reassemble (ls_out s) @ join_with [13] segs"
proof (induction s segs rule: resplit_segments.induct)
  case (3 s seg nxt rest)
  then show ?case by (simp add: splitter_defs)
qed simp_all

lemma stream_maybe_end_probe [simp]: "consumed_stream (maybe_end_probe s saw) = consumed_stream s"
proof -
  have "consumed_stream (resplit_buffered_crs t) = consumed_stream t" for t
    using resplit_segments_stream [of "split_on 13 (ls_buf t)" "t\<lparr> ls_buf := [] \<rparr>"]
    by (simp add: consumed_stream_def resplit_buffered_crs_def)
  then show ?thesis
    by (simp add: maybe_end_probe_def) (simp add: consumed_stream_def)
qed

lemma stream_byte_match:
  "\<not> ls_pending_cr s \<Longrightarrow> consumed_stream (byte_match s b) = consumed_stream s @ [b]"
  by (auto simp: byte_match_def) (auto simp: consumed_stream_def splitter_defs)

lemma stream_byte_after_cr:
  assumes "ls_pending_cr s"
  shows "consumed_stream (byte_after_cr s b) = consumed_stream s @ [b]"
proof -
  let ?t = "s\<lparr> ls_pending_cr := False \<rparr>"
  let ?u = "if cr_terminates ?t then emit ?t Cr else push_content ?t 13"
  have "consumed_stream (emit (lock_lf ?t) CrLf) = consumed_stream s @ [10]"
    using assms by (simp add: consumed_stream_def splitter_defs)
  moreover have "consumed_stream ?u = consumed_stream s" "\<not> ls_pending_cr ?u"
    using assms by (simp_all add: consumed_stream_def splitter_defs)
  moreover from this have "consumed_stream (byte_match ?u b) = consumed_stream s @ [b]"
    by (simp only: stream_byte_match not_False_eq_True)
  ultimately show ?thesis
    unfolding byte_after_cr_def Let_def by (cases "b = 10") (simp_all only: simp_thms if_True if_False)
qed

lemma stream_byte: "consumed_stream (LineSplitter_byte s b) = consumed_stream s @ [b]"
proof -
  have "consumed_stream (probe_tick s) = consumed_stream s"
    by (simp add: probe_tick_def consumed_stream_def)
  then show ?thesis
    by (simp add: LineSplitter_byte_def Let_def stream_byte_after_cr stream_byte_match)
qed

lemma stream_bytes: "consumed_stream (foldl LineSplitter_byte s chunk) = consumed_stream s @ chunk"
  by (induction chunk arbitrary: s) (simp_all add: stream_byte)

lemma stream_push:
  assumes "LineSplitter_push s chunk = (lines, s')" and "ls_out s = []"
  shows "reassemble lines @ consumed_stream s' = consumed_stream s @ chunk" and "ls_out s' = []"
  using assms stream_bytes [of "s\<lparr> ls_bytes_in := ls_bytes_in s + length chunk \<rparr>" chunk]
  by (auto simp: LineSplitter_push_def Let_def consumed_stream_def)

lemma stream_flush:
  assumes "LineSplitter_flush s = (lines, s')" and "ls_out s = []"
  shows "reassemble lines = consumed_stream s" and "consumed_stream s' = []" and "ls_out s' = []"
  using assms unfolding LineSplitter_flush_def Let_def splitter_defs
  by (auto simp: consumed_stream_def split: if_splits)


section \<open>Flags and bounds\<close>

text \<open>\<open>linked c ls c'\<close>: the continuation flag of each line is the truncation flag of its
  predecessor, starting from \<open>c\<close> and ending in \<open>c'\<close>.\<close>

fun linked :: "bool \<Rightarrow> Line list \<Rightarrow> bool \<Rightarrow> bool" where
  "linked c [] c' \<longleftrightarrow> c = c'"
| "linked c (l # ls) c' \<longleftrightarrow> line_continuation l = c \<and> linked (line_truncated l) ls c'"

lemma linked_append: "linked c (ls @ ls') c' \<longleftrightarrow> (\<exists>d. linked c ls d \<and> linked d ls' c')"
  by (induction ls arbitrary: c) auto

definition line_within :: "nat \<Rightarrow> Line \<Rightarrow> bool" where
  "line_within m l \<longleftrightarrow> length (line_bytes l) \<le> m \<and>
     (line_truncated l \<longrightarrow> length (line_bytes l) = m \<and> line_terminator l = No_term)"

definition splitter_inv :: "nat \<Rightarrow> bool \<Rightarrow> LineSplitter \<Rightarrow> bool" where
  "splitter_inv m c s \<longleftrightarrow> ls_max_line_bytes s = m \<and> length (ls_buf s) < m \<and>
     list_all (line_within m) (ls_out s) \<and> linked c (ls_out s) (ls_next_is_continuation s)"

lemma inv_emit: "splitter_inv m c s \<Longrightarrow> splitter_inv m c (emit s t)"
  by (auto simp: splitter_inv_def emit_def emit_flagged_def line_within_def linked_append)

lemma inv_push_content: "splitter_inv m c s \<Longrightarrow> splitter_inv m c (push_content s b)"
  unfolding push_content_def Let_def emit_flagged_def
  by (auto simp: splitter_inv_def line_within_def linked_append split: if_splits)

lemma inv_resplit:
  "splitter_inv m c s \<Longrightarrow> \<forall>seg \<in> set segs. length seg < m \<Longrightarrow> splitter_inv m c (resplit_segments s segs)"
proof (induction s segs rule: resplit_segments.induct)
  case (3 s seg nxt rest)
  have "splitter_inv m c (s\<lparr> ls_buf := seg \<rparr>)"
    using 3(2,3) by (simp add: splitter_inv_def)
  with 3 show ?case by (simp add: inv_emit)
qed (simp_all add: splitter_inv_def)

lemma inv_maybe_end_probe: "splitter_inv m c s \<Longrightarrow> splitter_inv m c (maybe_end_probe s saw)"
proof -
  assume inv: "splitter_inv m c s"
  let ?t = "s\<lparr> ls_probing := False, ls_mode := Cr_mode \<rparr>"
  have "splitter_inv m c (?t\<lparr> ls_buf := [] \<rparr>)"
    using inv by (auto simp: splitter_inv_def)
  moreover have "\<forall>seg \<in> set (split_on 13 (ls_buf s)). length seg < m"
    using inv by (auto simp: splitter_inv_def dest!: split_on_length)
  ultimately have "splitter_inv m c (resplit_segments (?t\<lparr> ls_buf := [] \<rparr>) (split_on 13 (ls_buf s)))"
    by (rule inv_resplit)
  with inv show ?thesis
    unfolding maybe_end_probe_def resplit_buffered_crs_def by (auto simp: splitter_inv_def)
qed

lemma inv_field_updates:
  assumes "splitter_inv m c s"
  shows "splitter_inv m c (s\<lparr> ls_pending_cr := p \<rparr>)" and "splitter_inv m c (lock_lf s)"
    and "splitter_inv m c (probe_tick s)"
  using assms by (simp_all add: splitter_inv_def lock_lf_def probe_tick_def)

lemma inv_byte: "splitter_inv m c s \<Longrightarrow> splitter_inv m c (LineSplitter_byte s b)"
proof -
  have match: "splitter_inv m c (byte_match t b)" if "splitter_inv m c t" for t
    using that by (simp add: byte_match_def inv_maybe_end_probe inv_field_updates inv_emit inv_push_content)
  have "splitter_inv m c (byte_after_cr t b)" if "splitter_inv m c t" for t
    using that by (simp add: byte_after_cr_def Let_def match inv_emit inv_push_content inv_field_updates)
  then show "splitter_inv m c s \<Longrightarrow> ?thesis"
    by (simp add: LineSplitter_byte_def Let_def match inv_field_updates)
qed

lemma inv_bytes: "splitter_inv m c s \<Longrightarrow> splitter_inv m c (foldl LineSplitter_byte s chunk)"
  by (induction chunk arbitrary: s) (simp_all add: inv_byte)

lemma inv_flush:
  assumes "splitter_inv m c s" and "LineSplitter_flush s = (lines, s')"
  shows "list_all (line_within m) lines \<and> linked c lines False \<or>
         list_all (line_within m) lines \<and> linked c lines (ls_next_is_continuation s) \<and> ls_buf s = []"
  using assms unfolding LineSplitter_flush_def Let_def splitter_defs
  by (auto simp: splitter_inv_def line_within_def linked_append split: if_splits)

section \<open>Running the splitter over a whole stream\<close>

text \<open>The callers' loop: push every read of a stream, then flush (\<^verbatim>\<open>Pipeline::feed\<close> and
  \<^verbatim>\<open>Pipeline::finish\<close>).\<close>

fun run_splitter :: "LineSplitter \<Rightarrow> byte list list \<Rightarrow> Line list" where
  "run_splitter s [] = fst (LineSplitter_flush s)"
| "run_splitter s (c # cs) = (let (lines, s') = LineSplitter_push s c in lines @ run_splitter s' cs)"

lemma flush_frame:
  "fst (LineSplitter_flush (s\<lparr> ls_out := out \<rparr>)) = out @ fst (LineSplitter_flush (s\<lparr> ls_out := [] \<rparr>))"
  unfolding LineSplitter_flush_def Let_def splitter_defs by simp

lemma run_splitter_chunks:
  assumes "splitter.push_chunks s cs = (lines, s')"
  shows "run_splitter s cs = lines @ fst (LineSplitter_flush s')"
  using assms
proof (induction cs arbitrary: s lines)
  case (Cons c cs)
  obtain o1 s1 where "splitter.push s c = (o1, s1)" by fastforce
  moreover obtain o2 s2 where "splitter.push_chunks s1 cs = (o2, s2)" by fastforce
  ultimately show ?case
    using Cons by (auto simp: LineSplitter_push_eq)
qed simp

lemma run_splitter_concat:
  "ls_out s = [] \<Longrightarrow> run_splitter s cs = run_splitter s [concat cs]"
  using run_splitter_chunks [of s cs] run_splitter_chunks [of s "[concat cs]"]
    splitter.push_chunks_concat [of s cs] splitter.push_chunks_concat [of s "[concat cs]"]
  by (cases "splitter.push s (concat cs)") simp

lemma run_splitter_single:
  assumes "ls_out s = []"
  shows "run_splitter s [data] =
    fst (LineSplitter_flush (foldl LineSplitter_byte (s\<lparr> ls_bytes_in := ls_bytes_in s + length data \<rparr>) data))"
proof -
  let ?t = "foldl LineSplitter_byte (s\<lparr> ls_bytes_in := ls_bytes_in s + length data \<rparr>) data"
  have "run_splitter s [data] = ls_out ?t @ fst (LineSplitter_flush (?t\<lparr> ls_out := [] \<rparr>))"
    by (simp add: LineSplitter_push_def Let_def)
  also have "\<dots> = fst (LineSplitter_flush (?t\<lparr> ls_out := ls_out ?t \<rparr>))"
    by (rule flush_frame [symmetric])
  finally show ?thesis by (simp only: splitter.set_id)
qed

lemma reassemble_flush: "reassemble (fst (LineSplitter_flush t)) = consumed_stream t"
  unfolding LineSplitter_flush_def Let_def splitter_defs
  by (auto simp: consumed_stream_def split: if_splits)

lemma split_all_run: "split_all data mode m = run_splitter (LineSplitter_new mode m 4096) [data]"
  by (simp add: split_all_def split: prod.splits)

lemma run_splitter_inv:
  assumes "splitter_inv m c s" and "ls_out s = []"
  shows "list_all (line_within m) (run_splitter s cs)" and "\<exists>c'. linked c (run_splitter s cs) c'"
proof -
  let ?s = "s\<lparr> ls_bytes_in := ls_bytes_in s + length (concat cs) \<rparr>"
  let ?t = "foldl LineSplitter_byte ?s (concat cs)"
  have "splitter_inv m c ?s" using assms(1) by (simp add: splitter_inv_def)
  then have inv: "splitter_inv m c ?t" by (rule inv_bytes)
  have eq: "run_splitter s cs = fst (LineSplitter_flush ?t)"
    using run_splitter_single [OF assms(2)] run_splitter_concat [OF assms(2), of cs] by simp
  obtain ls s' where "LineSplitter_flush ?t = (ls, s')" by fastforce
  then show "list_all (line_within m) (run_splitter s cs)" and "\<exists>c'. linked c (run_splitter s cs) c'"
    using inv_flush [OF inv] eq by auto
qed

lemma inv_new: "splitter_inv (max m 64) False (LineSplitter_new mode m probe)"
  by (simp add: splitter_inv_def LineSplitter_new_def)

lemma new_out: "ls_out (LineSplitter_new mode m probe) = []"
  by (simp add: LineSplitter_new_def)

section \<open>Properties\<close>

text \<open>C8. Raw bytes are never rewritten: for every line-ending mode, line bound and probe
  window, and for every way of cutting a stream into reads, putting the emitted lines and
  their terminators back together gives exactly the bytes that were fed in.\<close>

theorem split_reassemble:
  "reassemble (run_splitter (LineSplitter_new mode m probe) cs) = concat cs"
proof -
  let ?s = "LineSplitter_new mode m probe"
  let ?t = "foldl LineSplitter_byte (?s\<lparr> ls_bytes_in := ls_bytes_in ?s + length (concat cs) \<rparr>) (concat cs)"
  note o = new_out [of mode m probe]
  have t: "consumed_stream ?t = concat cs"
    unfolding stream_bytes by (simp add: consumed_stream_def LineSplitter_new_def)
  with reassemble_flush [of ?t] show ?thesis
    by (simp only: run_splitter_concat [OF o, of cs] run_splitter_single [OF o])
qed

text \<open>C11. Line boundaries never depend on how the stream was chopped up: two chunkings of the
  same bytes produce the same lines, flags and terminators included.\<close>

theorem split_chunk_independent:
  "concat cs = concat ds \<Longrightarrow>
   run_splitter (LineSplitter_new mode m probe) cs = run_splitter (LineSplitter_new mode m probe) ds"
  by (subst (1 2) run_splitter_concat [OF new_out]) (erule arg_cong)

theorem split_chunk_independent_witness:
  "run_splitter (LineSplitter_new Auto 64 4096) [[97, 13], [10, 98]] =
   run_splitter (LineSplitter_new Auto 64 4096) [[97], [13, 10], [98]]"
  by (rule split_chunk_independent) simp

text \<open>No emitted line holds more content bytes than the configured bound (at least 64); a
  line is flagged truncated only when it was cut at exactly that bound with no terminator,
  and the next line, and only the next line, is flagged as its continuation.\<close>

theorem split_bounded_and_linked:
  "list_all (line_within (max m 64)) (run_splitter (LineSplitter_new mode m probe) cs) \<and>
   (\<exists>c. linked False (run_splitter (LineSplitter_new mode m probe) cs) c)"
  using run_splitter_inv [OF inv_new new_out] by blast

end
