(* ===== verification/Rust_Str.thy ===== *)
theory Rust_Str
  imports Conminer_Prelude "HOL-Library.Char_ord" "HOL-Library.List_Lexorder"
begin

text \<open>
  The operations of Rust's \<^verbatim>\<open>str\<close> and \<^verbatim>\<open>char\<close> that the sources use, on Isabelle strings: one
  character of the model is one Rust character with code point below 256, and strings
  are compared in the lexicographic order of code points, as \<^verbatim>\<open>str: Ord\<close> does.
\<close>

section \<open>Characters\<close>

text \<open>\<^verbatim>\<open>char::is_whitespace\<close> on code points below 256.\<close>

definition is_ws :: "char \<Rightarrow> bool" where
  "is_ws c \<longleftrightarrow> of_char c \<in> {9, 10, 11, 12, 13, 32, 0x85, 0xA0::nat}"

definition is_ascii_digit :: "char \<Rightarrow> bool" where
  "is_ascii_digit c \<longleftrightarrow> 48 \<le> (of_char c::nat) \<and> (of_char c::nat) \<le> 57"

definition is_ascii_alphabetic :: "char \<Rightarrow> bool" where
  "is_ascii_alphabetic c \<longleftrightarrow>
     65 \<le> (of_char c::nat) \<and> (of_char c::nat) \<le> 90 \<or> 97 \<le> (of_char c::nat) \<and> (of_char c::nat) \<le> 122"

definition is_ascii_alphanumeric :: "char \<Rightarrow> bool" where
  "is_ascii_alphanumeric c \<longleftrightarrow> is_ascii_alphabetic c \<or> is_ascii_digit c"

text \<open>\<^verbatim>\<open>char::is_alphabetic\<close> and \<^verbatim>\<open>char::is_alphanumeric\<close> on code points below 256.\<close>

definition is_alphabetic :: "char \<Rightarrow> bool" where
  "is_alphabetic c \<longleftrightarrow> is_ascii_alphabetic c \<or> of_char c \<in> {0xAA, 0xB5, 0xBA::nat} \<or>
     (0xC0 \<le> (of_char c::nat) \<and> (of_char c::nat) \<noteq> 0xD7 \<and> (of_char c::nat) \<noteq> 0xF7)"

definition is_alphanumeric :: "char \<Rightarrow> bool" where
  "is_alphanumeric c \<longleftrightarrow> is_alphabetic c \<or> is_ascii_digit c \<or>
     of_char c \<in> {0xB2, 0xB3, 0xB9, 0xBC, 0xBD, 0xBE::nat}"

definition is_ascii_hexdigit :: "char \<Rightarrow> bool" where
  "is_ascii_hexdigit c \<longleftrightarrow> is_ascii_digit c \<or>
     65 \<le> (of_char c::nat) \<and> (of_char c::nat) \<le> 70 \<or> 97 \<le> (of_char c::nat) \<and> (of_char c::nat) \<le> 102"

definition to_ascii_lower :: "char \<Rightarrow> char" where
  "to_ascii_lower c =
     (if 65 \<le> (of_char c::nat) \<and> (of_char c::nat) \<le> 90 then char_of (of_char c + 32 :: nat) else c)"

text \<open>\<^verbatim>\<open>char::to_digit(radix)\<close> for radices up to 36.\<close>

definition digit_val :: "nat \<Rightarrow> char \<Rightarrow> nat option" where
  "digit_val radix c =
     (let n = of_char c;
          v = (if 48 \<le> n \<and> n \<le> 57 then n - 48
               else if 97 \<le> n \<and> n \<le> 122 then n - 87
               else if 65 \<le> n \<and> n \<le> 90 then n - 55
               else radix)
      in if v < radix then Some v else None)"

text \<open>The lower-case digit of a value below 36, as \<^verbatim>\<open>{:x}\<close> prints it.\<close>

definition digit_char :: "nat \<Rightarrow> char" where
  "digit_char v = (if v < 10 then char_of (48 + v) else char_of (87 + v))"

lemma digit_val_char: "v < radix \<Longrightarrow> radix \<le> 36 \<Longrightarrow> digit_val radix (digit_char v) = Some v"
  by (auto simp: digit_val_def digit_char_def Let_def)

lemma digit_val_bound: "digit_val radix c = Some v \<Longrightarrow> v < radix"
  by (auto simp: digit_val_def Let_def split: if_splits)

section \<open>Trimming and splitting\<close>

definition trim_start :: "string \<Rightarrow> string" where
  "trim_start s = dropWhile is_ws s"

definition trim_end :: "string \<Rightarrow> string" where
  "trim_end s = rev (dropWhile is_ws (rev s))"

definition trim :: "string \<Rightarrow> string" where
  "trim s = trim_end (trim_start s)"

text \<open>Splitting at every character of a class and dropping the empty pieces, as
  \<^verbatim>\<open>split_whitespace\<close>, \<^verbatim>\<open>split_ascii_whitespace\<close> and \<^verbatim>\<open>split(..).filter(non-empty)\<close> do: the
  maximal runs of characters outside the class.\<close>

fun words_acc :: "(char \<Rightarrow> bool) \<Rightarrow> string \<Rightarrow> string \<Rightarrow> string list" where
  "words_acc P acc [] = (if acc = [] then [] else [rev acc])"
| "words_acc P acc (c # cs) =
     (if P c then (if acc = [] then words_acc P [] cs else rev acc # words_acc P [] cs)
      else words_acc P (c # acc) cs)"

definition words_by :: "(char \<Rightarrow> bool) \<Rightarrow> string \<Rightarrow> string list" where
  "words_by P s = words_acc P [] s"

definition is_ascii_ws :: "char \<Rightarrow> bool" where
  "is_ascii_ws c \<longleftrightarrow> of_char c \<in> {9, 10, 12, 13, 32::nat}"

definition split_whitespace :: "string \<Rightarrow> string list" where
  "split_whitespace s = words_by is_ws s"

text \<open>\<^verbatim>\<open>str::lines\<close>: split at line feeds, one trailing carriage return of each line removed,
  and no final empty line.\<close>

definition strip_cr :: "string \<Rightarrow> string" where
  "strip_cr s = (if s \<noteq> [] \<and> last s = CHR 0x0D then butlast s else s)"

definition str_lines :: "string \<Rightarrow> string list" where
  "str_lines s =
     (let segs = split_on (CHR 0x0A) s
      in map strip_cr (butlast segs) @ (if last segs = [] then [] else [last segs]))"

text \<open>\<^verbatim>\<open>split_once\<close> and \<^verbatim>\<open>rsplit_once\<close> at a character.\<close>

definition split_once :: "char \<Rightarrow> string \<Rightarrow> (string \<times> string) option" where
  "split_once c s =
     (if c \<in> set s then Some (takeWhile (\<lambda>x. x \<noteq> c) s, tl (dropWhile (\<lambda>x. x \<noteq> c) s)) else None)"

definition rsplit_once :: "char \<Rightarrow> string \<Rightarrow> (string \<times> string) option" where
  "rsplit_once c s =
     (case split_once c (rev s) of None \<Rightarrow> None | Some (a, b) \<Rightarrow> Some (rev b, rev a))"

definition starts_with :: "string \<Rightarrow> string \<Rightarrow> bool" where
  "starts_with p s \<longleftrightarrow> take (length p) s = p"

definition strip_prefix :: "string \<Rightarrow> string \<Rightarrow> string option" where
  "strip_prefix p s = (if starts_with p s then Some (drop (length p) s) else None)"

text \<open>\<^verbatim>\<open>str::find\<close> of a substring, and \<^verbatim>\<open>str::contains\<close>.\<close>

fun str_find :: "string \<Rightarrow> string \<Rightarrow> nat option" where
  "str_find p s =
     (if starts_with p s then Some 0
      else (case s of [] \<Rightarrow> None | _ # cs \<Rightarrow> map_option Suc (str_find p cs)))"

declare str_find.simps [simp del]

definition str_contains :: "string \<Rightarrow> string \<Rightarrow> bool" where
  "str_contains p s \<longleftrightarrow> str_find p s \<noteq> None"

text \<open>\<^verbatim>\<open>str::replace\<close>: non-overlapping occurrences from the left (for a non-empty pattern).\<close>

function str_replace :: "string \<Rightarrow> string \<Rightarrow> string \<Rightarrow> string" where
  "str_replace p r s =
     (if p = [] then s
      else case s of [] \<Rightarrow> []
      | c # cs \<Rightarrow> if starts_with p s then r @ str_replace p r (drop (length p) s)
                  else c # str_replace p r cs)"
  by pat_completeness auto
termination
  by (relation "measure (\<lambda>(p, r, s). length s)") auto

declare str_replace.simps [simp del]

lemma str_find_le: "str_find p s = Some n \<Longrightarrow> n + length p \<le> length s"
proof (induction s arbitrary: n)
  case Nil
  then show ?case by (subst (asm) str_find.simps) (auto simp: starts_with_def split: if_splits)
next
  case (Cons c cs)
  show ?case
  proof (cases "starts_with p (c # cs)")
    case True
    then have "length (take (length p) (c # cs)) = length p" by (simp add: starts_with_def)
    with True Cons.prems show ?thesis by (subst (asm) str_find.simps) simp
  next
    case False
    with Cons.prems obtain m where "str_find p cs = Some m" "n = Suc m" by (subst (asm) str_find.simps) auto
    with Cons.IH show ?thesis by simp
  qed
qed

text \<open>\<^verbatim>\<open>str::split\<close> by a string: the pieces between its occurrences, left to right.\<close>

function split_str :: "string \<Rightarrow> string \<Rightarrow> string list" where
  "split_str p s =
     (if p = [] then [s]
      else case str_find p s of None \<Rightarrow> [s] | Some n \<Rightarrow> take n s # split_str p (drop (n + length p) s))"
  by pat_completeness auto

termination
proof (relation "measure (\<lambda>(p, s). length s)")
  fix p s :: string and n
  assume "p \<noteq> []" and "str_find p s = Some n"
  then have "0 < length p" "n + length p \<le> length s" by (simp_all add: str_find_le)
  then have "length s - (n + length p) < length s" by linarith
  then show "((p, drop (n + length p) s), p, s) \<in> measure (\<lambda>(p, s). length s)" by simp
qed simp

declare split_str.simps [simp del]

section \<open>Integers as text\<close>

text \<open>\<^verbatim>\<open>uN::from_str_radix\<close> with the bound of the type: an optional plus sign, then at least one
  digit, with checked multiplication and addition.\<close>

fun radix_digits :: "nat \<Rightarrow> nat \<Rightarrow> nat \<Rightarrow> string \<Rightarrow> nat option" where
  "radix_digits bound radix acc [] = Some acc"
| "radix_digits bound radix acc (c # cs) =
     (case digit_val radix c of None \<Rightarrow> None
      | Some d \<Rightarrow> if acc * radix + d < bound then radix_digits bound radix (acc * radix + d) cs
                  else None)"

definition from_str_radix :: "nat \<Rightarrow> nat \<Rightarrow> string \<Rightarrow> nat option" where
  "from_str_radix bound radix s =
     (let body = (case s of c # cs \<Rightarrow> if c = CHR ''+'' then cs else s | [] \<Rightarrow> [])
      in if body = [] then None else radix_digits bound radix 0 body)"

text \<open>Printing in a radix, most significant digit first, and left padding with zeros.\<close>

fun digits_of :: "nat \<Rightarrow> nat \<Rightarrow> string" where
  "digits_of radix n =
     (if radix \<le> 1 \<or> n < radix then [digit_char n]
      else digits_of radix (n div radix) @ [digit_char (n mod radix)])"

declare digits_of.simps [simp del]

definition pad_zeros :: "nat \<Rightarrow> string \<Rightarrow> string" where
  "pad_zeros w s = replicate (w - length s) (CHR ''0'') @ s"

text \<open>\<^verbatim>\<open>format!\<close> of an \<^verbatim>\<open>i64\<close>.\<close>

definition int_str :: "int \<Rightarrow> string" where
  "int_str i = (if i < 0 then ''-'' else []) @ digits_of 10 (nat \<bar>i\<bar>)"

section \<open>Bytes of a string\<close>

text \<open>UTF-8 of code points below 256, lengths in bytes, and slicing at a byte offset, which panics
  inside a character.\<close>

definition as_bytes :: "string \<Rightarrow> byte list" where
  "as_bytes s = concat (map (\<lambda>c. let n = of_char c :: nat
     in if n < 128 then [of_nat n] else [of_nat (192 + n div 64), of_nat (128 + n mod 64)]) s)"

definition len_utf8 :: "char \<Rightarrow> nat" where
  "len_utf8 c = (if (of_char c :: nat) < 128 then 1 else 2)"

definition str_len :: "string \<Rightarrow> nat" where
  "str_len s = sum_list (map len_utf8 s)"

fun slice_from :: "nat \<Rightarrow> string \<Rightarrow> string option" where
  "slice_from n [] = (if n = 0 then Some [] else None)"
| "slice_from n (c # cs) = (if n = 0 then Some (c # cs) else if n < len_utf8 c then None else slice_from (n - len_utf8 c) cs)"

fun slice_to :: "nat \<Rightarrow> string \<Rightarrow> string option" where
  "slice_to n [] = (if n = 0 then Some [] else None)"
| "slice_to n (c # cs) = (if n = 0 then Some [] else if n < len_utf8 c then None else map_option (Cons c) (slice_to (n - len_utf8 c) cs))"

lemma len_utf8_pos [simp]: "0 < len_utf8 c"
  by (simp add: len_utf8_def)

lemma str_len_simps [simp]: "str_len [] = 0" "str_len (c # cs) = len_utf8 c + str_len cs" "str_len (s @ t) = str_len s + str_len t"
  by (simp_all add: str_len_def)

lemma slice_from_append [simp]: "slice_from (str_len s) (s @ t) = Some t"
proof (induction s)
  case Nil
  then show ?case by (cases t) simp_all
next
  case (Cons c s)
  then show ?case using len_utf8_pos [of c] by simp
qed

lemma slice_to_len: "slice_to n s = Some t \<Longrightarrow> str_len t = n"
  by (induction n s arbitrary: t rule: slice_to.induct) (auto split: if_splits)

lemma digits_of_nonempty [simp]: "digits_of radix n \<noteq> []"
  by (subst digits_of.simps) auto

lemma radix_digits_append:
  "radix_digits bound radix acc (xs @ ys) =
     Option.bind (radix_digits bound radix acc xs) (\<lambda>a. radix_digits bound radix a ys)"
  by (induction xs arbitrary: acc) (auto split: option.splits)

lemma radix_digits_zeros:
  "0 < radix \<Longrightarrow> 0 < bound \<Longrightarrow> radix \<le> 36 \<Longrightarrow>
   radix_digits bound radix 0 (replicate n (CHR ''0'') @ s) = radix_digits bound radix 0 s"
proof (induction n)
  case (Suc n)
  have "digit_val radix (CHR ''0'') = Some 0"
    using Suc.prems by (simp add: digit_val_def Let_def)
  with Suc show ?case by simp
qed simp

lemma radix_digits_digits_of:
  "1 < radix \<Longrightarrow> radix \<le> 36 \<Longrightarrow> n < bound \<Longrightarrow> radix_digits bound radix 0 (digits_of radix n) = Some n"
proof (induction radix n rule: digits_of.induct)
  case (1 radix n)
  show ?case
  proof (cases "n < radix")
    case True
    with 1 show ?thesis
      by (subst digits_of.simps) (simp add: digit_val_char)
  next
    case False
    then have "radix_digits bound radix 0 (digits_of radix (n div radix)) = Some (n div radix)"
      using 1 by (meson div_le_dividend leD le_less_trans not_le)
    moreover have "digit_val radix (digit_char (n mod radix)) = Some (n mod radix)"
      using 1(2,3) by (intro digit_val_char) auto
    ultimately show ?thesis
      using False 1(2,4) by (subst digits_of.simps) (simp add: radix_digits_append)
  qed
qed

lemma digits_of_no_plus: "1 < radix \<Longrightarrow> radix \<le> 36 \<Longrightarrow> c \<in> set (digits_of radix n) \<Longrightarrow> digit_val radix c \<noteq> None"
proof (induction radix n rule: digits_of.induct)
  case (1 radix n)
  then show ?case
    using digits_of.simps [of radix n]
    by (auto simp: digit_val_char split: if_splits)
qed

text \<open>Reading back a padded number of the type's range.\<close>

lemma from_str_radix_padded:
  assumes "1 < radix" "radix \<le> 36" "n < bound"
  shows "from_str_radix bound radix (pad_zeros w (digits_of radix n)) = Some n"
proof -
  let ?s = "pad_zeros w (digits_of radix n)"
  have digit: "digit_val radix c \<noteq> None" if "c \<in> set ?s" for c
  proof -
    have "digit_val radix (CHR ''0'') = Some 0" using assms by (simp add: digit_val_def Let_def)
    with that digits_of_no_plus [OF assms(1,2)] show ?thesis
      by (auto simp: pad_zeros_def split: if_splits)
  qed
  obtain c cs where s: "?s = c # cs"
    by (cases ?s) (simp_all add: pad_zeros_def)
  have "digit_val radix (CHR ''+'') = None" by (simp add: digit_val_def Let_def)
  with digit [of c] s have "c \<noteq> CHR ''+''" by auto
  with s have "from_str_radix bound radix ?s = radix_digits bound radix 0 ?s"
    by (simp add: from_str_radix_def)
  also have "\<dots> = Some n"
    using assms by (simp add: pad_zeros_def radix_digits_zeros radix_digits_digits_of)
  finally show ?thesis .
qed

lemma radix_digits_bound: "radix_digits bound radix acc s = Some n \<Longrightarrow> acc < bound \<Longrightarrow> n < bound"
  by (induction s arbitrary: acc) (auto split: option.splits if_splits)

section \<open>Facts about splitting\<close>

lemma words_acc_words:
  "w \<in> set (words_acc P acc s) \<Longrightarrow> list_all (\<lambda>c. \<not> P c) acc \<Longrightarrow> w \<noteq> [] \<and> list_all (\<lambda>c. \<not> P c) w"
proof (induction s arbitrary: acc)
  case Nil
  then show ?case by (simp add: list_all_iff split: if_splits)
next
  case (Cons c s)
  from Cons.prems Cons.IH [of "[]"] Cons.IH [of "c # acc"] show ?case
    by (cases "P c"; cases "acc = []") (auto simp: list_all_iff)
qed

lemma words_by_words: "w \<in> set (words_by P s) \<Longrightarrow> w \<noteq> [] \<and> list_all (\<lambda>c. \<not> P c) w"
  using words_acc_words [of w P "[]" s] by (simp add: words_by_def)

lemma concat_words_acc: "concat (words_acc P acc s) = rev acc @ filter (\<lambda>c. \<not> P c) s"
  by (induction P acc s rule: words_acc.induct) auto

lemma concat_words_by: "concat (words_by P s) = filter (\<lambda>c. \<not> P c) s"
  by (simp add: words_by_def concat_words_acc)

lemma words_by_single: "s \<noteq> [] \<Longrightarrow> list_all (\<lambda>c. \<not> P c) s \<Longrightarrow> words_by P s = [s]"
proof -
  have "list_all (\<lambda>c. \<not> P c) s \<Longrightarrow> words_acc P acc s = (if rev acc @ s = [] then [] else [rev acc @ s])" for acc
    by (induction s arbitrary: acc) auto
  then show "s \<noteq> [] \<Longrightarrow> list_all (\<lambda>c. \<not> P c) s \<Longrightarrow> ?thesis" by (simp add: words_by_def)
qed

lemma split_once_join: "split_once c s = Some (a, b) \<Longrightarrow> s = a @ c # b \<and> c \<notin> set a"
proof -
  assume h: "split_once c s = Some (a, b)"
  then have c: "c \<in> set s" and ab: "a = takeWhile (\<lambda>x. x \<noteq> c) s" "b = tl (dropWhile (\<lambda>x. x \<noteq> c) s)"
    by (auto simp: split_once_def split: if_splits)
  from c have "dropWhile (\<lambda>x. x \<noteq> c) s \<noteq> []" by simp
  then have "dropWhile (\<lambda>x. x \<noteq> c) s = c # b"
    using hd_dropWhile [of "\<lambda>x. x \<noteq> c" s] ab by (metis list.collapse)
  then show ?thesis
    using ab takeWhile_dropWhile_id [of "\<lambda>x. x \<noteq> c" s] by (auto dest: set_takeWhileD)
qed

lemma split_once_append: "c \<notin> set a \<Longrightarrow> split_once c (a @ c # b) = Some (a, b)"
proof -
  assume c: "c \<notin> set a"
  then have "takeWhile (\<lambda>x. x \<noteq> c) (a @ c # b) = a" "dropWhile (\<lambda>x. x \<noteq> c) (a @ c # b) = c # b"
    by (induction a) auto
  then show ?thesis by (simp add: split_once_def)
qed

lemma rsplit_once_append: "c \<notin> set b \<Longrightarrow> rsplit_once c (a @ c # b) = Some (a, b)"
  using split_once_append [of c "rev b" "rev a"] by (simp add: rsplit_once_def)

lemma trim_no_leading: "trim s \<noteq> [] \<Longrightarrow> \<not> is_ws (last (trim s))"
proof -
  assume "trim s \<noteq> []"
  then have "dropWhile is_ws (rev (trim_start s)) \<noteq> []" by (simp add: trim_def trim_end_def)
  then have "\<not> is_ws (hd (dropWhile is_ws (rev (trim_start s))))" by (rule hd_dropWhile)
  then show ?thesis by (simp add: trim_def trim_end_def last_rev)
qed

lemma starts_with_append [simp]: "starts_with p (p @ s)"
  by (simp add: starts_with_def)

lemma starts_with_prefix: "starts_with p s \<longleftrightarrow> (\<exists>r. s = p @ r)"
  by (metis append_take_drop_id starts_with_append starts_with_def)

end
