(* ===== verification/Drain_Token.thy ===== *)
theory Drain_Token
  imports Rust_Str
begin

text \<open>
  The tokenizer of the template miner (first part of
  \<^verbatim>\<open>crates/conminer-core/src/drain.rs\<close>): escape sequences are dropped, the line is split at
  white space and extra delimiters, and a run of key=value tokens is split in two. The
  theorems show that tokenizing loses nothing but separators and escapes.
\<close>

definition WILDCARD :: string where
  "WILDCARD = ''<*>''"

record TokenizerRules =
  tr_split_key_value :: bool
  tr_extra_delimiters :: "char list"

definition TokenizerRules_default :: TokenizerRules where
  "TokenizerRules_default = \<lparr> tr_split_key_value = False, tr_extra_delimiters = [] \<rparr>"

definition KV_RUN_MIN :: nat where
  "KV_RUN_MIN = 3"

section \<open>Escape sequences\<close>

definition ESC :: char where
  "ESC = CHR 0x1B"

text \<open>The rest of the input after a CSI sequence, up to and including its final byte.\<close>

fun csi_skip :: "string \<Rightarrow> string" where
  "csi_skip [] = []"
| "csi_skip (f # cs) =
     (if 0x40 \<le> (of_char f::nat) \<and> (of_char f::nat) \<le> 0x7e then cs else csi_skip cs)"

text \<open>The rest of the input after an OSC sequence, which runs to BEL or ST.\<close>

fun osc_skip :: "string \<Rightarrow> string" where
  "osc_skip [] = []"
| "osc_skip (f # cs) =
     (if f = CHR 0x07 then cs
      else if f = ESC \<and> cs \<noteq> [] \<and> hd cs = CHR 0x5C then tl cs
      else osc_skip cs)"

lemma csi_skip_length [termination_simp]: "length (csi_skip s) \<le> length s"
  by (induction s) auto

lemma osc_skip_length [termination_simp]: "length (osc_skip s) \<le> length s"
  by (induction s) auto

function strip_ansi_loop :: "string \<Rightarrow> string" where
  "strip_ansi_loop [] = []"
| "strip_ansi_loop (c # cs) =
     (if c \<noteq> ESC then c # strip_ansi_loop cs
      else case cs of
             [] \<Rightarrow> []
           | d # ds \<Rightarrow>
               if d = CHR ''['' then strip_ansi_loop (csi_skip ds)
               else if d = CHR '']'' then strip_ansi_loop (osc_skip ds)
               else strip_ansi_loop ds)"
  by pat_completeness auto
termination
  by (relation "measure length") (auto simp: csi_skip_length osc_skip_length le_imp_less_Suc less_Suc_eq_le le_SucI)

definition strip_ansi :: "string \<Rightarrow> string" where
  "strip_ansi line = (if ESC \<notin> set line then line else strip_ansi_loop line)"

section \<open>Tokens\<close>

text \<open>\<^verbatim>\<open>mask_numeric\<close>: digit runs and hex literals become the wildcard, except digits that
  continue an identifier.\<close>

function mask_loop :: "bool \<Rightarrow> string \<Rightarrow> string" where
  "mask_loop prev_is_letter [] = []"
| "mask_loop prev_is_letter (c # cs) =
     (if c = CHR ''0'' \<and> 2 \<le> length cs \<and> (hd cs = CHR ''x'' \<or> hd cs = CHR ''X'')
         \<and> is_ascii_hexdigit (hd (tl cs))
      then WILDCARD @ mask_loop False (dropWhile is_ascii_hexdigit (tl cs))
      else if is_ascii_digit c
      then (if prev_is_letter then takeWhile is_ascii_digit (c # cs) else WILDCARD)
           @ mask_loop False (dropWhile is_ascii_digit cs)
      else c # mask_loop (is_alphabetic c) cs)"
  by pat_completeness auto
termination
proof (relation "measure (\<lambda>(p, s). length s)")
  fix c and cs :: string
  show "((False, dropWhile is_ascii_hexdigit (tl cs)), p, c # cs) \<in> measure (\<lambda>(p, s). length s)" for p
    using length_dropWhile_le [of is_ascii_hexdigit "tl cs"] by (simp add: le_imp_less_Suc)
  show "((False, dropWhile is_ascii_digit cs), p, c # cs) \<in> measure (\<lambda>(p, s). length s)" for p
    using length_dropWhile_le [of is_ascii_digit cs] by (simp add: le_imp_less_Suc)
qed auto

definition mask_numeric :: "string \<Rightarrow> string" where
  "mask_numeric tok = (if \<not> list_ex is_ascii_digit tok then tok else mask_loop False tok)"

text \<open>The position of the first equals sign splits a token; the key must be a non-empty
  identifier and the value non-empty.\<close>

definition is_key_value :: "string \<Rightarrow> bool" where
  "is_key_value t \<longleftrightarrow>
     (case split_once (CHR ''='') t of
        None \<Rightarrow> False
      | Some (k, v) \<Rightarrow> k \<noteq> [] \<and> v \<noteq> [] \<and>
          list_all (\<lambda>c. is_alphanumeric c \<or> c = CHR ''_'' \<or> c = CHR ''.'' \<or> c = CHR ''-'') k)"

definition split_key_value :: "(string \<Rightarrow> string) \<Rightarrow> string \<Rightarrow> string list" where
  "split_key_value keep t =
     (if is_key_value t then
        (case split_once (CHR ''='') t of
           Some (k, v) \<Rightarrow> [k @ ''='', keep v]
         | None \<Rightarrow> [keep t])
      else [keep t])"

definition separator :: "TokenizerRules \<Rightarrow> char \<Rightarrow> bool" where
  "separator r c \<longleftrightarrow> is_ascii_ws c \<or> c \<in> set (tr_extra_delimiters r)"

definition tokenize_inner :: "TokenizerRules \<Rightarrow> string \<Rightarrow> bool \<Rightarrow> string list" where
  "tokenize_inner r line masked =
     (let line = strip_ansi line;
          base = (if tr_extra_delimiters r = [] then words_by is_ascii_ws line
                  else words_by (separator r) line);
          keep = (\<lambda>t. if masked then mask_numeric t else t)
      in if \<not> tr_split_key_value r then map keep base
         else if length (filter is_key_value base) < KV_RUN_MIN then map keep base
         else concat (map (split_key_value keep) base))"

definition tokenize :: "TokenizerRules \<Rightarrow> string \<Rightarrow> string list" where
  "tokenize r line = tokenize_inner r line False"

definition tokenize_values :: "TokenizerRules \<Rightarrow> string \<Rightarrow> string list" where
  "tokenize_values r line = tokenize_inner r line False"

section \<open>Facts about the tokenizer\<close>

lemma strip_ansi_loop_no_esc: "ESC \<notin> set (strip_ansi_loop s)"
  by (induction s rule: strip_ansi_loop.induct) (auto split: list.splits)

lemma strip_ansi_no_esc: "ESC \<notin> set (strip_ansi s)"
  by (simp add: strip_ansi_def strip_ansi_loop_no_esc)

lemma strip_ansi_loop_plain: "ESC \<notin> set s \<Longrightarrow> strip_ansi_loop s = s"
  by (induction s) auto

lemma strip_ansi_loop_append: "ESC \<notin> set s \<Longrightarrow> strip_ansi_loop (s @ t) = s @ strip_ansi_loop t"
  by (induction s) auto

lemma csi_skip_final:
  assumes "list_all (\<lambda>c. \<not> (0x40 \<le> (of_char c::nat) \<and> (of_char c::nat) \<le> 0x7e)) ps"
    and "0x40 \<le> (of_char f::nat)" "(of_char f::nat) \<le> 0x7e"
  shows "csi_skip (ps @ f # cs) = cs"
  using assms by (induction ps) auto

lemma base_eq: "(if tr_extra_delimiters r = [] then words_by is_ascii_ws l else words_by (separator r) l)
    = words_by (separator r) l"
proof -
  have "tr_extra_delimiters r = [] \<Longrightarrow> separator r = is_ascii_ws"
    by (rule ext) (simp add: separator_def)
  then show ?thesis by simp
qed

lemma split_key_value_join:
  "concat (split_key_value (\<lambda>t. t) t) = t"
  "t \<noteq> [] \<Longrightarrow> u \<in> set (split_key_value (\<lambda>t. t) t) \<Longrightarrow> u \<noteq> []"
  by (auto simp: split_key_value_def is_key_value_def split: option.splits if_splits dest!: split_once_join)

lemma tokenize_cases:
  "tokenize r line = words_by (separator r) (strip_ansi line) \<or>
   tokenize r line = concat (map (split_key_value (\<lambda>t. t)) (words_by (separator r) (strip_ansi line)))"
  unfolding tokenize_def tokenize_inner_def Let_def base_eq by simp

lemma concat_split_map: "concat (concat (map (split_key_value (\<lambda>t. t)) ts)) = concat ts"
  by (induction ts) (simp_all add: split_key_value_join)

lemma concat_tokenize: "concat (tokenize r line) = filter (\<lambda>c. \<not> separator r c) (strip_ansi line)"
  using tokenize_cases [of r line] by (auto simp: concat_split_map concat_words_by)

section \<open>Properties\<close>

text \<open>Tokenizing loses nothing but separators and escape sequences: for every rule set and
  line, the tokens put together are the characters of the escape-free line that are not
  separators, no token is empty, and no token contains a separator or an escape character.\<close>

theorem tokenize_sound:
  "concat (tokenize r line) = filter (\<lambda>c. \<not> separator r c) (strip_ansi line) \<and>
   list_all (\<lambda>t. t \<noteq> [] \<and> list_all (\<lambda>c. \<not> separator r c \<and> c \<noteq> ESC) t) (tokenize r line)"
proof
  show c: "concat (tokenize r line) = filter (\<lambda>c. \<not> separator r c) (strip_ansi line)"
    by (rule concat_tokenize)
  have "t \<noteq> []" if t: "t \<in> set (tokenize r line)" for t
  proof -
    from tokenize_cases [of r line] t obtain w where w: "w \<in> set (words_by (separator r) (strip_ansi line))"
      and "t = w \<or> t \<in> set (split_key_value (\<lambda>t. t) w)" by auto
    moreover from w have "w \<noteq> []" by (simp add: words_by_words)
    ultimately show ?thesis using split_key_value_join(2) by blast
  qed
  moreover have "list_all (\<lambda>c. \<not> separator r c \<and> c \<noteq> ESC) t" if "t \<in> set (tokenize r line)" for t
  proof -
    have "set t \<subseteq> set (filter (\<lambda>c. \<not> separator r c) (strip_ansi line))"
      using that unfolding c [symmetric] by auto
    then show ?thesis using strip_ansi_no_esc [of line] by (auto simp: list_all_iff)
  qed
  ultimately show "list_all (\<lambda>t. t \<noteq> [] \<and> list_all (\<lambda>c. \<not> separator r c \<and> c \<noteq> ESC) t) (tokenize r line)"
    by (simp add: list_all_iff)
qed

text \<open>Colour and cursor sequences never change what is mined: a line with a CSI sequence
  inserted after plain text has the tokens of the line without it.\<close>

theorem tokenize_ignores_csi:
  assumes "ESC \<notin> set pre" and "ESC \<notin> set post"
    and "list_all (\<lambda>c. \<not> (0x40 \<le> (of_char c::nat) \<and> (of_char c::nat) \<le> 0x7e)) ps"
    and "0x40 \<le> (of_char f::nat)" and "(of_char f::nat) \<le> 0x7e"
  shows "tokenize r (pre @ ESC # CHR ''['' # ps @ f # post) = tokenize r (pre @ post)"
proof -
  have "strip_ansi_loop (ESC # CHR ''['' # ps @ f # post) = post"
    using csi_skip_final [OF assms(3-5)] assms(2) by (simp add: strip_ansi_loop_plain)
  then have "strip_ansi (pre @ ESC # CHR ''['' # ps @ f # post) = strip_ansi (pre @ post)"
    using assms(1,2) by (simp add: strip_ansi_def strip_ansi_loop_append)
  then show ?thesis by (simp add: tokenize_def tokenize_inner_def)
qed

theorem tokenize_ignores_csi_witness:
  "tokenize TokenizerRules_default (''a '' @ ESC # CHR ''['' # ''1;31'' @ CHR ''m'' # ''bc d'') =
   tokenize TokenizerRules_default (''a '' @ ''bc d'')"
  by (rule tokenize_ignores_csi) (simp_all add: ESC_def)

end
