(* ===== verification/Btree_Map.thy ===== *)
theory Btree_Map
  imports Rust_Str
begin

text \<open>
  Rust's \<^verbatim>\<open>BTreeMap\<close> as the sequence of its entries in key order, which is what every
  iteration in the sources observes. The interface is a locale over an arbitrary
  representation; its interpretation at the end discharges the laws for the
  association lists the model uses.
\<close>

type_synonym ('k, 'v) btree = "('k \<times> 'v) list"

fun bt_get :: "('k::linorder, 'v) btree \<Rightarrow> 'k \<Rightarrow> 'v option" where
  "bt_get [] k = None"
| "bt_get ((k', v) # m) k = (if k = k' then Some v else bt_get m k)"

fun bt_insert :: "'k::linorder \<Rightarrow> 'v \<Rightarrow> ('k, 'v) btree \<Rightarrow> ('k, 'v) btree" where
  "bt_insert k v [] = [(k, v)]"
| "bt_insert k v ((k', v') # m) =
     (if k < k' then (k, v) # (k', v') # m
      else if k = k' then (k, v) # m
      else (k', v') # bt_insert k v m)"

definition bt_contains :: "('k::linorder, 'v) btree \<Rightarrow> 'k \<Rightarrow> bool" where
  "bt_contains m k \<longleftrightarrow> bt_get m k \<noteq> None"

definition bt_keys :: "('k::linorder, 'v) btree \<Rightarrow> 'k list" where
  "bt_keys m = map fst m"

definition bt_wf :: "('k::linorder, 'v) btree \<Rightarrow> bool" where
  "bt_wf m \<longleftrightarrow> sorted_wrt (<) (bt_keys m)"

text \<open>\<^verbatim>\<open>Extend::extend\<close>: later entries win.\<close>

definition bt_extend :: "('k::linorder, 'v) btree \<Rightarrow> ('k, 'v) btree \<Rightarrow> ('k, 'v) btree" where
  "bt_extend m m' = foldl (\<lambda>acc (k, v). bt_insert k v acc) m m'"

lemma bt_get_insert [simp]: "bt_get (bt_insert k v m) k' = (if k' = k then Some v else bt_get m k')"
  by (induction k v m rule: bt_insert.induct) auto

lemma bt_keys_insert [simp]: "set (bt_keys (bt_insert k v m)) = insert k (set (bt_keys m))"
  by (induction k v m rule: bt_insert.induct) (auto simp: bt_keys_def)

lemma bt_wf_Nil [simp]: "bt_wf []"
  by (simp add: bt_wf_def bt_keys_def)

lemma bt_wf_insert [simp]: "bt_wf m \<Longrightarrow> bt_wf (bt_insert k v m)"
proof (induction k v m rule: bt_insert.induct)
  case (2 k v k' v' m)
  have "set (map fst (bt_insert k v m)) = insert k (set (map fst m))"
    using bt_keys_insert [of k v m] by (simp add: bt_keys_def)
  with 2 show ?case
    by (auto simp: bt_wf_def bt_keys_def dest: less_trans)
qed (simp add: bt_wf_def bt_keys_def)

lemma bt_get_iff_key: "bt_get m k \<noteq> None \<longleftrightarrow> k \<in> set (bt_keys m)"
  by (induction m k rule: bt_get.induct) (auto simp: bt_keys_def)

lemma bt_get_in_set: "bt_get m k = Some v \<Longrightarrow> (k, v) \<in> set m"
  by (induction m k rule: bt_get.induct) (auto split: if_splits)

lemma bt_wf_distinct: "bt_wf m \<Longrightarrow> distinct (map fst m)"
  by (simp add: bt_wf_def bt_keys_def strict_sorted_iff)

lemma bt_in_set_get: "bt_wf m \<Longrightarrow> (k, v) \<in> set m \<Longrightarrow> bt_get m k = Some v"
proof (induction m k rule: bt_get.induct)
  case (2 k' v' m k)
  then show ?case using bt_wf_distinct [OF 2(2)] by (force simp: bt_wf_def bt_keys_def)
qed simp

lemma bt_wf_extend [simp]: "bt_wf m \<Longrightarrow> bt_wf (bt_extend m m')"
  unfolding bt_extend_def by (induction m' arbitrary: m) auto

text \<open>Two sequences strictly ascending in their keys with the same entries are equal.\<close>

lemma strict_fst_unique:
  fixes xs :: "('k::linorder \<times> 'v) list"
  assumes "sorted_wrt (<) (map fst xs)" "sorted_wrt (<) (map fst ys)" "set xs = set ys"
  shows "xs = ys"
  using assms
proof (induction xs arbitrary: ys)
  case (Cons x xs)
  then obtain y ys' where ys: "ys = y # ys'" by (cases ys) auto
  have x: "\<forall>z \<in> set xs. fst x < fst z" and y: "\<forall>z \<in> set ys'. fst y < fst z"
    using Cons.prems ys by auto
  have "x \<in> set (y # ys')" "y \<in> set (x # xs)" using Cons.prems(3) ys by auto
  with x y have xy: "x = y" by (auto dest: less_asym)
  have "x \<notin> set xs" "x \<notin> set ys'" using x y xy by auto
  with Cons.prems(3) ys xy have "set xs = set ys'" by auto
  with Cons ys xy show ?case by simp
qed simp

text \<open>What a client of an ordered map may rely on.\<close>

locale ordered_map =
  fixes wf :: "'m \<Rightarrow> bool"
    and empty :: 'm
    and get :: "'m \<Rightarrow> 'k::linorder \<Rightarrow> 'v option"
    and ins :: "'k \<Rightarrow> 'v \<Rightarrow> 'm \<Rightarrow> 'm"
    and entries :: "'m \<Rightarrow> ('k \<times> 'v) list"
  assumes wf_empty: "wf empty"
    and wf_ins: "wf m \<Longrightarrow> wf (ins k v m)"
    and get_empty: "get empty k = None"
    and get_ins: "get (ins k v m) k' = (if k' = k then Some v else get m k')"
    and entries_sorted: "wf m \<Longrightarrow> sorted_wrt (<) (map fst (entries m))"
    and entries_get: "wf m \<Longrightarrow> (k, v) \<in> set (entries m) \<longleftrightarrow> get m k = Some v"
begin

definition insert_all :: "('k \<times> 'v) list \<Rightarrow> 'm \<Rightarrow> 'm" where
  "insert_all kvs m = foldl (\<lambda>acc (k, v). ins k v acc) m kvs"

lemma wf_insert_all: "wf m \<Longrightarrow> wf (insert_all kvs m)"
  unfolding insert_all_def by (induction kvs arbitrary: m) (auto simp: wf_ins)

text \<open>The last insertion for a key decides.\<close>

lemma get_insert_all: "get (insert_all kvs m) k =
    (case map_of (rev kvs) k of None \<Rightarrow> get m k | Some v \<Rightarrow> Some v)"
  unfolding insert_all_def
  by (induction kvs arbitrary: m) (auto simp: get_ins map_add_def split: option.splits)

text \<open>The order of insertion of different keys is not observable: two maps with the same
  lookups have the same entries.\<close>

lemma entries_unique:
  assumes "wf m" "wf m'" and "\<And>k. get m k = get m' k"
  shows "entries m = entries m'"
proof (rule strict_fst_unique)
  show "sorted_wrt (<) (map fst (entries m))" "sorted_wrt (<) (map fst (entries m'))"
    using entries_sorted assms(1,2) by blast+
  have "p \<in> set (entries m) \<longleftrightarrow> p \<in> set (entries m')" for p
    using entries_get [OF assms(1), of "fst p" "snd p"] entries_get [OF assms(2), of "fst p" "snd p"] assms(3)
    by simp
  then show "set (entries m) = set (entries m')" by blast
qed

end

interpretation bt: ordered_map bt_wf "[]" bt_get bt_insert "\<lambda>m. m"
proof unfold_locales
  fix m :: "('a::linorder, 'b) btree" and k v
  show "bt_wf m \<Longrightarrow> (k, v) \<in> set m \<longleftrightarrow> bt_get m k = Some v"
    using bt_get_in_set [of m k v] bt_in_set_get [of m k v] by blast
qed (simp_all, simp_all add: bt_wf_def bt_keys_def)

lemma bt_extend_insert_all: "bt_extend m m' = bt.insert_all m' m"
  by (simp add: bt_extend_def bt.insert_all_def)

lemma bt_get_extend:
  "bt_get (bt_extend m m') k = (case map_of (rev m') k of None \<Rightarrow> bt_get m k | Some v \<Rightarrow> Some v)"
  by (simp add: bt_extend_insert_all bt.get_insert_all)

end
