(* ===== verification/Drain.thy ===== *)
theory Drain
  imports Drain_Token Btree_Map Complex_Main "HOL-Library.Product_Lexorder"
begin

text \<open>
  The template miner (second part of \<^verbatim>\<open>crates/conminer-core/src/drain.rs\<close>): a fixed-depth
  prefix tree keyed on token count and leading tokens, similarity matching at the leaf, and
  generalisation by disagreement. Similarities and thresholds are exact rationals where
  the source computes with \<^verbatim>\<open>f64\<close>. Vector indexing (\<^verbatim>\<open>templates[idx]\<close>) is list indexing, and
  the invariant shows every index in range.
\<close>

section \<open>Data\<close>

record DrainConfig =
  dc_similarity :: rat
  dc_depth :: nat
  dc_max_children :: nat
  dc_max_line_tokens :: nat

definition DrainConfig_default :: DrainConfig where
  "DrainConfig_default =
     \<lparr> dc_similarity = 2/5, dc_depth = 4, dc_max_children = 100, dc_max_line_tokens = 128 \<rparr>"

record Template =
  tpl_id :: nat
  tpl_tokens :: "string list"
  tpl_count :: nat
  tpl_head_only :: bool

definition Template_text :: "Template \<Rightarrow> string" where
  "Template_text t = join_with '' '' (tpl_tokens t)"

definition wildcard_count :: "Template \<Rightarrow> nat" where
  "wildcard_count t = length (filter (\<lambda>x. x = WILDCARD) (tpl_tokens t))"

definition skeleton :: "Template \<Rightarrow> string list" where
  "skeleton t = filter (\<lambda>x. x \<noteq> WILDCARD) (tpl_tokens t)"

record DrainMatch =
  dm_template_id :: nat
  dm_created :: bool
  dm_generalized :: bool

datatype MergeReason = SameSkeleton | PrefixExtension | NearThreshold

record MergeSuggestion =
  ms_a :: nat
  ms_b :: nat
  ms_reason :: MergeReason
  ms_confidence :: rat

datatype node = Node (children: "(string \<times> node) list") (clusters: "nat list")

definition Node_default :: node where
  "Node_default = Node [] []"

record Drain =
  dr_cfg :: DrainConfig
  dr_rules :: TokenizerRules
  dr_roots :: "(nat, node) btree"
  dr_templates :: "Template list"
  dr_next_id :: nat

definition with_rules :: "DrainConfig \<Rightarrow> TokenizerRules \<Rightarrow> Drain" where
  "with_rules cfg rules =
     \<lparr> dr_cfg = cfg, dr_rules = rules, dr_roots = [], dr_templates = [], dr_next_id = 1 \<rparr>"

definition Drain_new :: "DrainConfig \<Rightarrow> Drain" where
  "Drain_new cfg = with_rules cfg TokenizerRules_default"

definition Drain_template :: "Drain \<Rightarrow> nat \<Rightarrow> Template option" where
  "Drain_template d i = find (\<lambda>t. tpl_id t = i) (dr_templates d)"

section \<open>The prefix tree\<close>

definition max_prefix :: "DrainConfig \<Rightarrow> nat" where
  "max_prefix cfg = dc_depth cfg - 2"

text \<open>The child a token descends to when the path is created: its own if there is one, else a
  new one while the node has room (one place is kept for the wildcard child), else the
  shared wildcard child.\<close>

definition child_key :: "nat \<Rightarrow> string \<Rightarrow> (string, node) btree \<Rightarrow> string" where
  "child_key max_children token ch =
     (if bt_contains ch token then token
      else if bt_contains ch WILDCARD
      then (if length ch < max_children then token else WILDCARD)
      else if length ch + 1 < max_children then token else WILDCARD)"

fun entry_or_default :: "(string, node) btree \<Rightarrow> string \<Rightarrow> node" where
  "entry_or_default ch key = (case bt_get ch key of Some n \<Rightarrow> n | None \<Rightarrow> Node_default)"

text \<open>\<^verbatim>\<open>leaf_for(tokens, true)\<close> below a root, followed by the callers' \<^verbatim>\<open>clusters.push(idx)\<close>.\<close>

fun leaf_push :: "nat \<Rightarrow> string list \<Rightarrow> nat \<Rightarrow> node \<Rightarrow> node" where
  "leaf_push mc [] idx n = Node (children n) (clusters n @ [idx])"
| "leaf_push mc (token # ts) idx n =
     (let key = child_key mc token (children n)
      in Node (bt_insert key (leaf_push mc ts idx (entry_or_default (children n) key)) (children n))
           (clusters n))"

text \<open>\<^verbatim>\<open>leaf_for(tokens, false)\<close> below a root.\<close>

fun leaf_find :: "string list \<Rightarrow> node \<Rightarrow> node option" where
  "leaf_find [] n = Some n"
| "leaf_find (token # ts) n =
     (case bt_get (children n) token of
        Some c \<Rightarrow> leaf_find ts c
      | None \<Rightarrow> bt_get (children n) WILDCARD)"

definition routing :: "DrainConfig \<Rightarrow> string list \<Rightarrow> string list" where
  "routing cfg tokens = take (min (max_prefix cfg) (length tokens)) tokens"

definition place :: "Drain \<Rightarrow> string list \<Rightarrow> nat \<Rightarrow> Drain" where
  "place d tokens idx =
     (let n = length tokens;
          node = (case bt_get (dr_roots d) n of Some r \<Rightarrow> r | None \<Rightarrow> Node_default)
      in d\<lparr> dr_roots := bt_insert n
              (leaf_push (dc_max_children (dr_cfg d)) (routing (dr_cfg d) tokens) idx node) (dr_roots d) \<rparr>)"

definition MAX_SCAN :: nat where
  "MAX_SCAN = 512"

text \<open>\<^verbatim>\<open>subtree_clusters\<close>: the stack is a list whose head is the top, so children are popped in
  descending key order.\<close>

fun node_count :: "node \<Rightarrow> nat" where
  "node_count (Node ch cl) = Suc (sum_list (map (\<lambda>(k, c). node_count c) ch))"

function subtree_loop :: "nat list \<Rightarrow> node list \<Rightarrow> nat list" where
  "subtree_loop out [] = out"
| "subtree_loop out (n # stack) =
     (let out = out @ clusters n
      in if length out > MAX_SCAN then take MAX_SCAN out
         else subtree_loop out (rev (map snd (children n)) @ stack))"
  by pat_completeness auto

lemma node_count_children: "sum_list (map node_count (rev (map snd (children n)))) < node_count n"
proof -
  have "sum_list (map node_count (rev (map snd ch))) = sum_list (map (\<lambda>(k, c). node_count c) ch)"
    for ch :: "(string \<times> node) list"
    by (induction ch) auto
  then show ?thesis by (cases n) (simp only: node.sel node_count.simps lessI)
qed

termination subtree_loop
proof (relation "measure (\<lambda>(out, stack). sum_list (map node_count stack))")
  fix out n stack and x :: "nat list"
  show "((x, rev (map snd (children n)) @ stack), out, n # stack) \<in>
      measure (\<lambda>(out, stack). sum_list (map node_count stack))"
    using node_count_children [of n] by simp
qed simp

definition subtree_clusters :: "node \<Rightarrow> nat list" where
  "subtree_clusters n = subtree_loop [] [n]"

definition sort_dedup :: "nat list \<Rightarrow> nat list" where
  "sort_dedup xs = remdups_adj (sort xs)"

text \<open>The descent of \<^verbatim>\<open>candidates_for\<close>.\<close>

fun candidates_walk :: "node \<Rightarrow> string list \<Rightarrow> nat list \<Rightarrow> nat list \<times> bool" where
  "candidates_walk cur [] also = (sort_dedup (clusters cur @ also), also \<noteq> [])"
| "candidates_walk cur (token # ts) also =
     (let also = (case bt_get (children cur) WILDCARD of
                    Some w \<Rightarrow> if token \<noteq> WILDCARD then also @ subtree_clusters w else also
                  | None \<Rightarrow> also)
      in case bt_get (children cur) token of
           Some nxt \<Rightarrow> candidates_walk nxt ts also
         | None \<Rightarrow>
             (case bt_get (children cur) WILDCARD of
                Some nxt \<Rightarrow> candidates_walk nxt ts also
              | None \<Rightarrow> (sort_dedup (subtree_clusters cur @ also), True)))"

definition candidates_for :: "Drain \<Rightarrow> string list \<Rightarrow> nat list \<times> bool" where
  "candidates_for d tokens =
     (case bt_get (dr_roots d) (length tokens) of
        None \<Rightarrow> ([], False)
      | Some node \<Rightarrow> candidates_walk node (routing (dr_cfg d) tokens) [])"

section \<open>Matching\<close>

definition seq_params :: "string list \<Rightarrow> nat" where
  "seq_params template = length (filter (\<lambda>a. a = WILDCARD) template)"

text \<open>\<^verbatim>\<open>seq_distance\<close>: the loop counts wildcards of the template and equal literals.\<close>

fun seq_counts :: "string list \<Rightarrow> string list \<Rightarrow> nat \<times> nat" where
  "seq_counts (a # as) (b # bs) =
     (let (sim, params) = seq_counts as bs
      in if a = WILDCARD then (sim, params + 1)
         else if a = b then (sim + 1, params) else (sim, params))"
| "seq_counts _ _ = (0, 0)"

definition seq_distance :: "string list \<Rightarrow> string list \<Rightarrow> rat \<times> nat" where
  "seq_distance template tokens =
     (if template = [] then (1, 0)
      else let (sim, params) = seq_counts template tokens
           in (of_nat (sim + params) / of_nat (length template), params))"

definition WIDE_SIMILARITY :: rat where "WIDE_SIMILARITY = 3/5"
definition WIDE_MIN_AGREEING_LITERALS :: nat where "WIDE_MIN_AGREEING_LITERALS = 3"
definition MAX_WILDCARD_FRACTION :: rat where "MAX_WILDCARD_FRACTION = 1/2"

text \<open>The guard of a widened comparison (the \<^verbatim>\<open>continue\<close>s of the loop).\<close>

definition widened_ok :: "DrainConfig \<Rightarrow> string list \<Rightarrow> string list \<Rightarrow> bool" where
  "widened_ok cfg template tokens =
     (let wild = length (filter (\<lambda>x. x = WILDCARD) template);
          agreeing_literals = length (filter (\<lambda>(a, b). a = b \<and> a \<noteq> WILDCARD) (zip template tokens));
          mp = min (max_prefix cfg) (length tokens);
          prefix_agrees = (mp > 0 \<and>
            list_all (\<lambda>(a, b). a = b \<or> a = WILDCARD) (zip (take mp template) (take mp tokens)))
      in \<not> (of_nat wild / of_nat (length template) > MAX_WILDCARD_FRACTION) \<and>
         \<not> (agreeing_literals < WIDE_MIN_AGREEING_LITERALS \<and> \<not> prefix_agrees))"

definition eligible :: "Drain \<Rightarrow> string list \<Rightarrow> bool \<Rightarrow> nat \<Rightarrow> bool" where
  "eligible d tokens widened idx =
     (let t = tpl_tokens (dr_templates d ! idx)
      in length t = length tokens \<and> (widened \<and> t \<noteq> [] \<longrightarrow> widened_ok (dr_cfg d) t tokens))"

text \<open>One turn of the loop: keep the better of the best so far and this candidate.\<close>

definition better_match ::
  "Drain \<Rightarrow> string list \<Rightarrow> bool \<Rightarrow> (nat \<times> rat \<times> nat) option \<Rightarrow> nat \<Rightarrow> (nat \<times> rat \<times> nat) option" where
  "better_match d tokens widened best idx =
     (if \<not> eligible d tokens widened idx then best
      else let (sim, params) = seq_distance (tpl_tokens (dr_templates d ! idx)) tokens
           in case best of
                None \<Rightarrow> Some (idx, sim, params)
              | Some (_, bs, bp) \<Rightarrow>
                  if sim > bs \<or> (sim = bs \<and> params > bp) then Some (idx, sim, params) else best)"

definition best_match :: "Drain \<Rightarrow> nat list \<Rightarrow> string list \<Rightarrow> bool \<Rightarrow> nat option" where
  "best_match d candidates tokens widened =
     (let floor = (if widened then max (dc_similarity (dr_cfg d)) WIDE_SIMILARITY
                   else dc_similarity (dr_cfg d))
      in case foldl (better_match d tokens widened) None candidates of
           None \<Rightarrow> None
         | Some (idx, sim, _) \<Rightarrow> if sim \<ge> floor then Some idx else None)"

section \<open>Mining\<close>

definition generalize :: "string list \<Rightarrow> string list \<Rightarrow> string list" where
  "generalize template mined =
     map2 (\<lambda>a tok. if a \<noteq> WILDCARD \<and> a \<noteq> tok then WILDCARD else a) template mined"

definition mined_tokens :: "DrainConfig \<Rightarrow> string list \<Rightarrow> string list" where
  "mined_tokens cfg tokens =
     (if length tokens > dc_max_line_tokens cfg then take (dc_max_line_tokens cfg) tokens else tokens)"

definition add_tokens :: "Drain \<Rightarrow> string list \<Rightarrow> DrainMatch \<times> Drain" where
  "add_tokens d tokens =
     (let head_only = length tokens > dc_max_line_tokens (dr_cfg d);
          mined = mined_tokens (dr_cfg d) tokens;
          (candidates, widened) = candidates_for d mined
      in case best_match d candidates mined widened of
           Some idx \<Rightarrow>
             let t = dr_templates d ! idx;
                 t' = t\<lparr> tpl_tokens := generalize (tpl_tokens t) mined,
                         tpl_count := tpl_count t + 1,
                         tpl_head_only := tpl_head_only t \<or> head_only \<rparr>
             in (\<lparr> dm_template_id = tpl_id t, dm_created = False,
                   dm_generalized = (generalize (tpl_tokens t) mined \<noteq> tpl_tokens t) \<rparr>,
                 d\<lparr> dr_templates := (dr_templates d)[idx := t'] \<rparr>)
         | None \<Rightarrow>
             let i = dr_next_id d;
                 idx = length (dr_templates d);
                 t = \<lparr> tpl_id = i, tpl_tokens = mined, tpl_count = 1, tpl_head_only = head_only \<rparr>
             in (\<lparr> dm_template_id = i, dm_created = True, dm_generalized = False \<rparr>,
                 place (d\<lparr> dr_next_id := i + 1, dr_templates := dr_templates d @ [t] \<rparr>) mined idx))"

definition add_line :: "Drain \<Rightarrow> string \<Rightarrow> DrainMatch option \<times> Drain" where
  "add_line d line =
     (let tokens = tokenize (dr_rules d) line
      in if tokens = [] then (None, d)
         else let (m, d') = add_tokens d tokens in (Some m, d'))"

definition mine_all :: "DrainConfig \<Rightarrow> TokenizerRules \<Rightarrow> string list \<Rightarrow> Drain" where
  "mine_all cfg rules lines = foldl (\<lambda>d l. snd (add_line d l)) (with_rules cfg rules) lines"

definition from_templates :: "DrainConfig \<Rightarrow> TokenizerRules \<Rightarrow> Template list \<Rightarrow> Drain" where
  "from_templates cfg rules stored =
     foldl (\<lambda>d t. place (d\<lparr> dr_next_id := max (dr_next_id d) (tpl_id t + 1),
                           dr_templates := dr_templates d @ [t] \<rparr>)
                    (tpl_tokens t) (length (dr_templates d)))
       (with_rules cfg rules) (sort_key tpl_id stored)"

section \<open>Fragmentation\<close>

definition FAMILY_TOKENS :: nat where
  "FAMILY_TOKENS = 3"

definition family_key :: "Template \<Rightarrow> string" where
  "family_key t = join_with [CHR 0x01] (take FAMILY_TOKENS (skeleton t))"

definition fragmentation_ratio :: "Drain \<Rightarrow> rat" where
  "fragmentation_ratio d =
     (if dr_templates d = [] then 1
      else of_nat (length (dr_templates d)) /
           of_nat (max (card (set (map family_key (dr_templates d)))) 1))"

definition add_to_family :: "(string, Template list) btree \<Rightarrow> Template \<Rightarrow> (string, Template list) btree" where
  "add_to_family fams t =
     (if skeleton t = [] then fams
      else bt_insert (family_key t)
             ((case bt_get fams (family_key t) of Some g \<Rightarrow> g | None \<Rightarrow> []) @ [t]) fams)"

definition suggest :: "DrainConfig \<Rightarrow> Template \<Rightarrow> Template \<Rightarrow> MergeSuggestion list" where
  "suggest cfg a b =
     (let sa = skeleton a; sb = skeleton b;
          floor = max (dc_similarity cfg * (3/5)) (1/10);
          suggestion =
            (if length (tpl_tokens a) \<noteq> length (tpl_tokens b) then
               (if sa = sb then Some (SameSkeleton, 1)
                else let (short, long) = (if length sa \<le> length sb then (sa, sb) else (sb, sa))
                     in if short \<noteq> [] \<and> take (length short) long = short
                        then Some (PrefixExtension, of_nat (length short) / of_nat (length long))
                        else None)
             else let (sim, _) = seq_distance (tpl_tokens a) (tpl_tokens b)
                  in if sim \<ge> floor \<and> sim < dc_similarity cfg then Some (NearThreshold, sim) else None)
      in case suggestion of
           Some (reason, confidence) \<Rightarrow>
             [\<lparr> ms_a = min (tpl_id a) (tpl_id b), ms_b = max (tpl_id a) (tpl_id b),
                ms_reason = reason, ms_confidence = confidence \<rparr>]
         | None \<Rightarrow> [])"

fun suggest_group :: "DrainConfig \<Rightarrow> Template list \<Rightarrow> MergeSuggestion list" where
  "suggest_group cfg [] = []"
| "suggest_group cfg (a # rest) = concat (map (suggest cfg a) rest) @ suggest_group cfg rest"

fun dedup_by_ids :: "MergeSuggestion list \<Rightarrow> MergeSuggestion list" where
  "dedup_by_ids (x # y # rest) =
     (if ms_a x = ms_a y \<and> ms_b x = ms_b y then dedup_by_ids (x # rest)
      else x # dedup_by_ids (y # rest))"
| "dedup_by_ids xs = xs"

definition merge_suggestions :: "Drain \<Rightarrow> MergeSuggestion list" where
  "merge_suggestions d =
     (let families = foldl add_to_family [] (dr_templates d);
          out = concat (map (suggest_group (dr_cfg d) \<circ> snd) families)
      in dedup_by_ids (sort_key (\<lambda>s. ((ms_a s, ms_b s), - ms_confidence s)) out))"

end
