(* ===== verification/Drain_Mining.thy ===== *)
theory Drain_Mining
  imports Drain
begin

text \<open>
  Correctness of the template miner of theory \<open>Drain\<close>: every cluster index of the tree is in
  range, a template is exactly the agreement of the lines assigned to it, every mined line
  stays covered by its template, and a freshly minted template is found again by the line
  that minted it.
\<close>

section \<open>Covering and generalising\<close>

definition covers :: "string list \<Rightarrow> string list \<Rightarrow> bool" where
  "covers template line \<longleftrightarrow> list_all2 (\<lambda>a b. a = WILDCARD \<or> a = b) template line"

text \<open>What a set of lines of one length has in common: the token where they all agree, the
  wildcard where two of them disagree.\<close>

definition agreement :: "string list list \<Rightarrow> string list" where
  "agreement L = map (\<lambda>i. if list_all (\<lambda>l. l ! i = hd L ! i) L then hd L ! i else WILDCARD) [0..<length (hd L)]"

lemma length_generalize: "length t = length m \<Longrightarrow> length (generalize t m) = length t"
  by (simp add: generalize_def)

lemma generalize_nth:
  "length t = length m \<Longrightarrow> i < length t \<Longrightarrow>
   generalize t m ! i = (if t ! i \<noteq> WILDCARD \<and> t ! i \<noteq> m ! i then WILDCARD else t ! i)"
  by (simp add: generalize_def)

lemma agreement_single: "agreement [l] = l"
  by (simp add: agreement_def map_nth)

lemma agreement_snoc:
  assumes "L \<noteq> []" and "length m = length (hd L)"
  shows "agreement (L @ [m]) = generalize (agreement L) m"
  using assms by (intro nth_equalityI) (auto simp: agreement_def generalize_def)

lemma covers_agreement: "\<forall>l \<in> set L. length l = length (hd L) \<Longrightarrow> l \<in> set L \<Longrightarrow> covers (agreement L) l"
  by (auto simp: covers_def agreement_def list_all2_conv_all_nth list_all_iff)

section \<open>Indices of the tree\<close>

fun node_set :: "node \<Rightarrow> nat set" where
  "node_set (Node ch cl) = set cl \<union> (\<Union> (set (map (\<lambda>(k, c). node_set c) ch)))"

lemma node_set_child: "bt_get (children n) k = Some c \<Longrightarrow> node_set c \<subseteq> node_set n"
  by (cases n) (force dest: bt_get_in_set)

lemma node_set_clusters: "set (clusters n) \<subseteq> node_set n"
  by (cases n) auto

lemma node_set_children: "(\<Union>c \<in> set (map snd (children n)). node_set c) \<subseteq> node_set n"
  by (cases n) auto

lemma bt_insert_subset: "set (bt_insert k v m) \<subseteq> insert (k, v) (set m)"
  by (induction k v m rule: bt_insert.induct) auto

lemma node_set_default [simp]: "node_set Node_default = {}"
  by (simp add: Node_default_def)

lemma node_set_entry: "node_set (entry_or_default (children n) k) \<subseteq> node_set n"
  using node_set_child [of n k] by (simp split: option.splits)

lemma node_set_leaf_push: "node_set (leaf_push mc ts idx n) \<subseteq> insert idx (node_set n)"
proof (induction mc ts idx n rule: leaf_push.induct)
  case (1 mc idx n)
  then show ?case by (cases n) auto
next
  case (2 mc token ts idx n)
  let ?k = "child_key mc token (children n)"
  let ?c = "leaf_push mc ts idx (entry_or_default (children n) ?k)"
  have "node_set ?c \<subseteq> insert idx (node_set n)"
    using 2 [OF refl] node_set_entry [of n ?k] by blast
  moreover have "node_set (leaf_push mc (token # ts) idx n) \<subseteq>
      set (clusters n) \<union> node_set ?c \<union> (\<Union>c \<in> set (map snd (children n)). node_set c)"
    using bt_insert_subset [of ?k ?c "children n"] by (auto simp: Let_def)
  ultimately show ?case
    using node_set_clusters [of n] node_set_children [of n] by blast
qed

lemma subtree_loop_subset: "set (subtree_loop out stack) \<subseteq> set out \<union> (\<Union>n \<in> set stack. node_set n)"
proof (induction out stack rule: subtree_loop.induct)
  case (2 out n stack)
  let ?o = "out @ clusters n"
  have "set (subtree_loop out (n # stack)) \<subseteq> set ?o \<union> (\<Union>m \<in> set (rev (map snd (children n)) @ stack). node_set m)"
  proof (cases "length ?o > MAX_SCAN")
    case True
    then show ?thesis using set_take_subset [of MAX_SCAN ?o] by (auto simp: Let_def)
  next
    case False
    then show ?thesis using 2 [OF refl False] by (simp add: Let_def)
  qed
  then show ?case using node_set_clusters [of n] node_set_children [of n] by auto
qed simp

lemma subtree_clusters_subset: "set (subtree_clusters n) \<subseteq> node_set n"
  using subtree_loop_subset [of "[]" "[n]"] by (simp add: subtree_clusters_def)

lemma set_sort_dedup [simp]: "set (sort_dedup xs) = set xs"
  by (simp add: sort_dedup_def)

lemma candidates_walk_subset: "set (fst (candidates_walk cur ts also)) \<subseteq> node_set cur \<union> set also"
proof (induction cur ts "also" rule: candidates_walk.induct)
  case (1 cur as)
  then show ?case using node_set_clusters [of cur] by auto
next
  case (2 cur token ts as)
  let ?also = "case bt_get (children cur) WILDCARD of
      Some w \<Rightarrow> if token \<noteq> WILDCARD then as @ subtree_clusters w else as | None \<Rightarrow> as"
  have al: "set ?also \<subseteq> node_set cur \<union> set as"
    using subset_trans [OF subtree_clusters_subset node_set_child [of cur WILDCARD]]
    by (cases "bt_get (children cur) WILDCARD") auto
  show ?case
  proof (cases "bt_get (children cur) token")
    case (Some c)
    with 2(2) [OF refl Some] al node_set_child [OF Some] show ?thesis by (simp add: Let_def) blast
  next
    case None
    note t = this
    show ?thesis
    proof (cases "bt_get (children cur) WILDCARD")
      case (Some c)
      have "set (fst (candidates_walk cur (token # ts) as)) \<subseteq> node_set c \<union> set ?also"
        using 2(1) [OF refl t Some] t Some by (simp add: Let_def)
      with al node_set_child [OF Some] show ?thesis by blast
    next
      case None
      with t al subtree_clusters_subset [of cur] show ?thesis by (auto simp: Let_def)
    qed
  qed
qed

section \<open>The invariant\<close>

definition tree_inv :: "Drain \<Rightarrow> bool" where
  "tree_inv d \<longleftrightarrow> (\<forall>n r. bt_get (dr_roots d) n = Some r \<longrightarrow>
     (\<forall>i \<in> node_set r. i < length (dr_templates d) \<and> length (tpl_tokens (dr_templates d ! i)) = n))"

definition ids_inv :: "Drain \<Rightarrow> bool" where
  "ids_inv d \<longleftrightarrow> sorted_wrt (<) (map tpl_id (dr_templates d)) \<and>
     list_all (\<lambda>t. tpl_id t < dr_next_id d) (dr_templates d)"

lemma candidates_in_range:
  assumes "tree_inv d" and "candidates_for d mined = (cs, w)" and "i \<in> set cs"
  shows "i < length (dr_templates d)"
proof (cases "bt_get (dr_roots d) (length mined)")
  case None
  with assms show ?thesis by (simp add: candidates_for_def)
next
  case (Some r)
  with assms(2,3) have "i \<in> node_set r"
    using candidates_walk_subset [of r "routing (dr_cfg d) mined" "[]"]
    by (auto simp: candidates_for_def)
  with Some assms(1) show ?thesis by (simp add: tree_inv_def)
qed

lemma better_fold:
  assumes "foldl (better_match d toks w) best cs = Some (i, s, p)"
  shows "best = Some (i, s, p) \<or>
    i \<in> set cs \<and> eligible d toks w i \<and> seq_distance (tpl_tokens (dr_templates d ! i)) toks = (s, p)"
  using assms
proof (induction cs arbitrary: best)
  case (Cons c cs)
  have "better_match d toks w best c = best \<or> better_match d toks w best c =
      (let (s, p) = seq_distance (tpl_tokens (dr_templates d ! c)) toks in Some (c, s, p)) \<and> eligible d toks w c"
    by (auto simp: better_match_def split: option.splits prod.splits)
  with Cons show ?case
    by (fastforce split: prod.splits)
qed simp

lemma best_match_sound:
  assumes "best_match d cs mined w = Some i"
  shows "i \<in> set cs \<and> length (tpl_tokens (dr_templates d ! i)) = length mined"
  using assms better_fold [of d mined w None cs]
  by (auto simp: best_match_def eligible_def Let_def split: option.splits if_splits)

text \<open>The two outcomes of mining a tokenized line.\<close>

lemma add_tokens_cases:
  assumes "tree_inv d"
  obtains (joined) i where "i < length (dr_templates d)"
      "length (tpl_tokens (dr_templates d ! i)) = length (mined_tokens (dr_cfg d) tokens)"
      "dm_template_id (fst (add_tokens d tokens)) = tpl_id (dr_templates d ! i)"
      "\<not> dm_created (fst (add_tokens d tokens))"
      "snd (add_tokens d tokens) = d\<lparr> dr_templates := (dr_templates d)[i := (dr_templates d ! i)
         \<lparr> tpl_tokens := generalize (tpl_tokens (dr_templates d ! i)) (mined_tokens (dr_cfg d) tokens),
           tpl_count := tpl_count (dr_templates d ! i) + 1,
           tpl_head_only := tpl_head_only (dr_templates d ! i) \<or> length tokens > dc_max_line_tokens (dr_cfg d) \<rparr>] \<rparr>"
      "dm_generalized (fst (add_tokens d tokens)) \<longleftrightarrow>
         generalize (tpl_tokens (dr_templates d ! i)) (mined_tokens (dr_cfg d) tokens) \<noteq> tpl_tokens (dr_templates d ! i)"
  | (minted) "dm_template_id (fst (add_tokens d tokens)) = dr_next_id d"
      "dm_created (fst (add_tokens d tokens))"
      "snd (add_tokens d tokens) = place (d\<lparr> dr_next_id := dr_next_id d + 1, dr_templates := dr_templates d @
         [\<lparr> tpl_id = dr_next_id d, tpl_tokens = mined_tokens (dr_cfg d) tokens, tpl_count = 1,
            tpl_head_only = (length tokens > dc_max_line_tokens (dr_cfg d)) \<rparr>] \<rparr>)
         (mined_tokens (dr_cfg d) tokens) (length (dr_templates d))"
proof -
  let ?m = "mined_tokens (dr_cfg d) tokens"
  obtain cs w where c: "candidates_for d ?m = (cs, w)" by fastforce
  show ?thesis
  proof (cases "best_match d cs ?m w")
    case None
    with c show ?thesis by (intro minted) (simp_all add: add_tokens_def Let_def)
  next
    case (Some i)
    with c best_match_sound [OF Some] candidates_in_range [OF assms c] show ?thesis
      by (intro joined [of i]) (simp_all add: add_tokens_def Let_def)
  qed
qed

lemma place_frame [simp]:
  "dr_cfg (place d ts i) = dr_cfg d" "dr_rules (place d ts i) = dr_rules d"
  "dr_templates (place d ts i) = dr_templates d" "dr_next_id (place d ts i) = dr_next_id d"
  by (simp_all add: place_def Let_def)

lemma tree_inv_place:
  assumes "tree_inv d" and "dr_cfg d' = dr_cfg d" and "dr_roots d' = dr_roots d"
    and "dr_templates d' = dr_templates d @ [t]"
  shows "tree_inv (place d' (tpl_tokens t) (length (dr_templates d)))"
proof -
  let ?n = "length (tpl_tokens t)" and ?i = "length (dr_templates d)"
  let ?r = "case bt_get (dr_roots d) ?n of Some r \<Rightarrow> r | None \<Rightarrow> Node_default"
  have old: "j < ?i \<and> length (tpl_tokens (dr_templates d ! j)) = n" if "bt_get (dr_roots d) n = Some r" "j \<in> node_set r" for n r j
    using assms(1) that by (simp add: tree_inv_def)
  have "j = ?i \<or> j < ?i \<and> length (tpl_tokens (dr_templates d ! j)) = ?n"
    if "j \<in> node_set (leaf_push mc ts ?i ?r)" for mc ts j
    using node_set_leaf_push [of mc ts ?i ?r] that old by (auto split: option.splits)
  with old assms(2-4) show ?thesis
    by (fastforce simp: tree_inv_def place_def Let_def nth_append split: if_splits)
qed

lemma tree_inv_add: "tree_inv d \<Longrightarrow> tree_inv (snd (add_tokens d tokens))"
proof -
  assume inv: "tree_inv d"
  then show ?thesis
  proof (cases rule: add_tokens_cases [where tokens = tokens])
    case (joined i)
    with inv show ?thesis
      by (auto simp: tree_inv_def length_generalize nth_list_update)
  next
    case minted
    show ?thesis unfolding minted(3)
      using tree_inv_place [OF inv, where t = "\<lparr> tpl_id = dr_next_id d, tpl_tokens = mined_tokens (dr_cfg d) tokens,
        tpl_count = 1, tpl_head_only = (length tokens > dc_max_line_tokens (dr_cfg d)) \<rparr>"] by simp
  qed
qed

lemma ids_inv_add: "tree_inv d \<Longrightarrow> ids_inv d \<Longrightarrow> ids_inv (snd (add_tokens d tokens))"
proof -
  assume inv: "tree_inv d" and ids: "ids_inv d"
  from inv show ?thesis
  proof (cases rule: add_tokens_cases [where tokens = tokens])
    case (joined i)
    have "map tpl_id ((dr_templates d)[i := t]) = map tpl_id (dr_templates d)"
      if "tpl_id t = tpl_id (dr_templates d ! i)" for t
      using that joined(1) by (intro nth_equalityI) (auto simp: nth_list_update)
    with ids joined show ?thesis
      by (auto simp: ids_inv_def list_all_length nth_list_update)
  next
    case minted
    with ids show ?thesis
      by (auto simp: ids_inv_def sorted_wrt_append list_all_iff)
  qed
qed

lemma cfg_add: "tree_inv d \<Longrightarrow> dr_cfg (snd (add_tokens d tokens)) = dr_cfg d \<and> dr_rules (snd (add_tokens d tokens)) = dr_rules d"
  by (rule add_tokens_cases [where d = d and tokens = tokens]) simp_all

section \<open>Histories\<close>

text \<open>Mining a sequence of tokenized lines, collecting the verdicts.\<close>

fun run_tokens :: "Drain \<Rightarrow> string list list \<Rightarrow> DrainMatch list \<times> Drain" where
  "run_tokens d [] = ([], d)"
| "run_tokens d (l # ls) =
     (let (m, d1) = add_tokens d l; (ms, d2) = run_tokens d1 ls in (m # ms, d2))"

text \<open>The lines a history of (line, template id) pairs assigns to a template.\<close>

definition lines_of :: "(string list \<times> nat) list \<Rightarrow> nat \<Rightarrow> string list list" where
  "lines_of H i = map fst (filter (\<lambda>h. snd h = i) H)"

definition template_ok :: "DrainConfig \<Rightarrow> (string list \<times> nat) list \<Rightarrow> Template \<Rightarrow> bool" where
  "template_ok cfg H t \<longleftrightarrow> (let L = map (mined_tokens cfg) (lines_of H (tpl_id t)) in
     L \<noteq> [] \<and> (\<forall>l \<in> set L. length l = length (hd L)) \<and> tpl_tokens t = agreement L \<and>
     tpl_count t = length L \<and>
     tpl_head_only t = list_ex (\<lambda>l. length l > dc_max_line_tokens cfg) (lines_of H (tpl_id t)))"

definition mined_inv :: "(string list \<times> nat) list \<Rightarrow> Drain \<Rightarrow> bool" where
  "mined_inv H d \<longleftrightarrow> tree_inv d \<and> ids_inv d \<and> (\<forall>t \<in> set (dr_templates d). template_ok (dr_cfg d) H t) \<and>
     (\<forall>h \<in> set H. snd h \<in> tpl_id ` set (dr_templates d)) \<and>
     sum_list (map tpl_count (dr_templates d)) = length H"

lemma lines_of_snoc: "lines_of (H @ [(l, j)]) i = lines_of H i @ (if j = i then [l] else [])"
  by (simp add: lines_of_def)

lemma template_ok_other: "tpl_id t \<noteq> j \<Longrightarrow> template_ok cfg (H @ [(l, j)]) t = template_ok cfg H t"
  by (simp add: template_ok_def lines_of_snoc)

lemma length_agreement [simp]: "length (agreement L) = length (hd L)"
  by (simp add: agreement_def)

lemma template_ok_join:
  assumes "template_ok cfg H t" and "length (tpl_tokens t) = length (mined_tokens cfg l)"
  shows "template_ok cfg (H @ [(l, tpl_id t)])
    (t\<lparr> tpl_tokens := generalize (tpl_tokens t) (mined_tokens cfg l), tpl_count := tpl_count t + 1,
        tpl_head_only := tpl_head_only t \<or> length l > dc_max_line_tokens cfg \<rparr>)"
  using assms by (auto simp: template_ok_def Let_def lines_of_snoc agreement_snoc)

lemma template_ok_mint:
  assumes "\<forall>h \<in> set H. snd h \<noteq> i"
  shows "template_ok cfg (H @ [(l, i)]) \<lparr> tpl_id = i, tpl_tokens = mined_tokens cfg l, tpl_count = 1,
    tpl_head_only = (length l > dc_max_line_tokens cfg) \<rparr>"
proof -
  have "lines_of H i = []" using assms by (simp add: lines_of_def filter_empty_conv)
  then show ?thesis by (simp add: template_ok_def lines_of_snoc agreement_single)
qed

lemma sum_list_update_Suc:
  "i < length xs \<Longrightarrow> f y = f (xs ! i) + (1::nat) \<Longrightarrow> sum_list (map f (xs[i := y])) = Suc (sum_list (map f xs))"
proof (induction xs arbitrary: i)
  case (Cons x xs)
  then show ?case by (cases i) auto
qed simp

lemma distinct_ids: "ids_inv d \<Longrightarrow> distinct (map tpl_id (dr_templates d))"
  by (simp add: ids_inv_def strict_sorted_iff)

lemma mined_inv_add:
  assumes "mined_inv H d"
  shows "mined_inv (H @ [(l, dm_template_id (fst (add_tokens d l)))]) (snd (add_tokens d l))"
proof -
  let ?i = "dm_template_id (fst (add_tokens d l))" and ?d = "snd (add_tokens d l)"
  have inv: "tree_inv d" and ids: "ids_inv d" and ok: "\<forall>t \<in> set (dr_templates d). template_ok (dr_cfg d) H t"
    and known: "\<forall>h \<in> set H. snd h \<in> tpl_id ` set (dr_templates d)"
    and sum: "sum_list (map tpl_count (dr_templates d)) = length H"
    using assms by (simp_all add: mined_inv_def)
  have base: "tree_inv ?d" "ids_inv ?d" "dr_cfg ?d = dr_cfg d"
    using inv ids by (simp_all add: tree_inv_add ids_inv_add cfg_add)
  from inv have "(\<forall>t \<in> set (dr_templates ?d). template_ok (dr_cfg d) (H @ [(l, ?i)]) t) \<and>
      (\<forall>h \<in> set (H @ [(l, ?i)]). snd h \<in> tpl_id ` set (dr_templates ?d)) \<and>
      sum_list (map tpl_count (dr_templates ?d)) = Suc (length H)"
  proof (cases rule: add_tokens_cases [where tokens = l])
    case (joined k)
    let ?t = "dr_templates d ! k"
    let ?t' = "?t\<lparr> tpl_tokens := generalize (tpl_tokens ?t) (mined_tokens (dr_cfg d) l),
      tpl_count := tpl_count ?t + 1, tpl_head_only := tpl_head_only ?t \<or> length l > dc_max_line_tokens (dr_cfg d) \<rparr>"
    have d': "dr_templates ?d = (dr_templates d)[k := ?t']" using joined(5) by simp
    have dist: "tpl_id (dr_templates d ! j) \<noteq> tpl_id ?t" if "j < length (dr_templates d)" "j \<noteq> k" for j
      using distinct_ids [OF ids] that joined(1) nth_eq_iff_index_eq [of "map tpl_id (dr_templates d)" j k] by simp
    have "template_ok (dr_cfg d) (H @ [(l, ?i)]) (dr_templates ?d ! j)" if "j < length (dr_templates d)" for j
    proof (cases "j = k")
      case True
      then show ?thesis using d' joined(1-3) ok template_ok_join [of "dr_cfg d" H ?t l] by simp
    next
      case False
      then show ?thesis using that d' joined(3) dist ok by (simp add: template_ok_other)
    qed
    then have "\<forall>t \<in> set (dr_templates ?d). template_ok (dr_cfg d) (H @ [(l, ?i)]) t"
      by (auto simp: d' in_set_conv_nth)
    moreover have "tpl_id ` set (dr_templates ?d) = tpl_id ` set (dr_templates d)"
    proof -
      have "map tpl_id (dr_templates ?d) = map tpl_id (dr_templates d)"
        using joined(1) by (intro nth_equalityI) (auto simp: d' nth_list_update)
      then show ?thesis by (metis list.set_map)
    qed
    moreover have "?i \<in> tpl_id ` set (dr_templates d)" using joined(1,3) by simp
    moreover have "sum_list (map tpl_count (dr_templates ?d)) = Suc (length H)"
      using sum_list_update_Suc [of k "dr_templates d" tpl_count ?t'] joined(1) sum by (simp add: d')
    ultimately show ?thesis using known by auto
  next
    case minted
    have fresh: "tpl_id t \<noteq> dr_next_id d" if "t \<in> set (dr_templates d)" for t
      using ids that by (auto simp: ids_inv_def list_all_iff)
    then have "\<forall>h \<in> set H. snd h \<noteq> dr_next_id d" using known by force
    from template_ok_mint [OF this, of "dr_cfg d" l] minted fresh ok known sum show ?thesis
      by (auto simp: template_ok_other)
  qed
  with base show ?thesis by (simp add: mined_inv_def)
qed

lemma mined_inv_run:
  assumes "mined_inv H d"
  shows "mined_inv (H @ zip ls (map dm_template_id (fst (run_tokens d ls)))) (snd (run_tokens d ls))"
  using assms
proof (induction ls arbitrary: H d)
  case (Cons l ls)
  from Cons.IH [OF mined_inv_add [OF Cons.prems, of l]] show ?case
    by (simp add: split_beta Let_def)
qed simp

lemma mined_inv_new: "mined_inv [] (with_rules cfg rules)"
  by (simp add: mined_inv_def with_rules_def tree_inv_def ids_inv_def)

lemma run_tokens_cfg: "tree_inv d \<Longrightarrow> dr_cfg (snd (run_tokens d ls)) = dr_cfg d \<and> dr_rules (snd (run_tokens d ls)) = dr_rules d"
proof (induction ls arbitrary: d)
  case (Cons l ls)
  then show ?case using cfg_add [OF Cons.prems, of l] tree_inv_add [OF Cons.prems, of l]
    by (simp add: split_beta Let_def)
qed simp

lemma length_run_tokens [simp]: "length (fst (run_tokens d ls)) = length ls"
  by (induction ls arbitrary: d) (simp_all add: split_beta Let_def)

text \<open>Mining text lines is mining the token lists of the non-blank ones.\<close>

lemma mine_lines_run:
  assumes "tree_inv d"
  shows "foldl (\<lambda>d l. snd (add_line d l)) d lines =
    snd (run_tokens d (filter (\<lambda>ts. ts \<noteq> []) (map (tokenize (dr_rules d)) lines)))"
  using assms
proof (induction lines arbitrary: d)
  case (Cons l lines)
  then show ?case
    using cfg_add [OF Cons.prems] tree_inv_add [OF Cons.prems]
    by (simp add: add_line_def Let_def split_beta)
qed simp

section \<open>A minted line is found again\<close>

lemma child_key_cases:
  "child_key mc token ch = token \<or> child_key mc token ch = WILDCARD \<and> bt_get ch token = None"
  by (simp add: child_key_def bt_contains_def)

lemma walk_finds_pushed:
  "idx \<in> set (fst (candidates_walk (leaf_push mc ts idx n) ts as)) \<and>
   (snd (candidates_walk (leaf_push mc ts idx n) ts as) \<longrightarrow> ts \<noteq> [] \<or> as \<noteq> [])"
proof (induction mc ts idx n arbitrary: as rule: leaf_push.induct)
  case (2 mc token ts idx n)
  let ?k = "child_key mc token (children n)"
  let ?c = "leaf_push mc ts idx (entry_or_default (children n) ?k)"
  have "idx \<in> set (fst (candidates_walk ?c ts as'))" for as'
    using 2 [OF refl] by blast
  moreover from child_key_cases [of mc token "children n"]
  have "\<exists>as'. candidates_walk (leaf_push mc (token # ts) idx n) (token # ts) as = candidates_walk ?c ts as'"
    by (auto simp: Let_def)
  ultimately show ?case by (metis list.distinct(1))
qed simp

text \<open>The similarity of the best candidate so far, if there is one.\<close>

definition at_least :: "rat \<Rightarrow> (nat \<times> rat \<times> nat) option \<Rightarrow> bool" where
  "at_least x best \<longleftrightarrow> (case best of None \<Rightarrow> False | Some (_, s, _) \<Rightarrow> x \<le> s)"

lemma better_match_keeps: "at_least x best \<Longrightarrow> at_least x (better_match d toks w best c)"
  by (auto simp: at_least_def better_match_def split: option.splits prod.splits)

lemma better_match_takes:
  "eligible d toks w c \<Longrightarrow> x \<le> fst (seq_distance (tpl_tokens (dr_templates d ! c)) toks) \<Longrightarrow>
   at_least x (better_match d toks w best c)"
  by (auto simp: at_least_def better_match_def split: option.splits prod.splits)

lemma better_fold_keeps: "at_least x best \<Longrightarrow> at_least x (foldl (better_match d toks w) best cs)"
  by (induction cs arbitrary: best) (simp_all add: better_match_keeps)

lemma better_fold_takes:
  "c \<in> set cs \<Longrightarrow> eligible d toks w c \<Longrightarrow> x \<le> fst (seq_distance (tpl_tokens (dr_templates d ! c)) toks) \<Longrightarrow>
   at_least x (foldl (better_match d toks w) best cs)"
proof (induction cs arbitrary: best)
  case (Cons b cs)
  then show ?case
    by (cases "b = c") (simp_all add: better_match_takes better_fold_keeps)
qed simp

lemma seq_counts_refl: "fst (seq_counts ts ts) + snd (seq_counts ts ts) = length ts"
  by (induction ts) (auto simp: split_beta Let_def)

lemma seq_distance_refl: "fst (seq_distance ts ts) = 1"
  using seq_counts_refl [of ts] by (simp add: seq_distance_def split_beta Let_def flip: of_nat_add)

lemma widened_ok_refl:
  assumes "0 < min (max_prefix cfg) (length ts)" and "2 * length (filter (\<lambda>x. x = WILDCARD) ts) \<le> length ts"
  shows "widened_ok cfg ts ts"
proof -
  have "of_nat (2 * length (filter (\<lambda>x. x = WILDCARD) ts)) \<le> (of_nat (length ts) :: rat)"
    using assms(2) by (simp only: of_nat_le_iff)
  then have "(of_nat (length (filter (\<lambda>x. x = WILDCARD) ts)) :: rat) / of_nat (length ts) \<le> 1/2"
    by (simp add: divide_le_eq)
  moreover have "list_all (\<lambda>(a, b). a = b \<or> a = WILDCARD) (zip us us)" for us
    by (induction us) simp_all
  ultimately show ?thesis
    using assms(1) by (simp add: widened_ok_def Let_def MAX_WILDCARD_FRACTION_def not_less)
qed

lemma joined_not_created:
  "candidates_for d (mined_tokens (dr_cfg d) l) = (cs, w) \<Longrightarrow>
   best_match d cs (mined_tokens (dr_cfg d) l) w \<noteq> None \<Longrightarrow> \<not> dm_created (fst (add_tokens d l))"
  by (auto simp: add_tokens_def Let_def)

lemma routing_nonempty: "routing cfg ts \<noteq> [] \<Longrightarrow> 0 < min (max_prefix cfg) (length ts)"
  by (auto simp: routing_def)

section \<open>Bounded nodes\<close>

fun node_bounded :: "nat \<Rightarrow> node \<Rightarrow> bool" where
  "node_bounded mc (Node ch cl) \<longleftrightarrow> bt_wf ch \<and> length ch \<le> max 1 mc \<and>
     (\<not> bt_contains ch WILDCARD \<longrightarrow> length ch \<le> mc - 1) \<and> list_all (\<lambda>(k, c). node_bounded mc c) ch"

lemma length_bt_insert: "bt_wf m \<Longrightarrow> length (bt_insert k v m) = length m + (if bt_contains m k then 0 else 1)"
proof (induction k v m rule: bt_insert.induct)
  case (2 k v k' v' m)
  then have wf: "bt_wf m" and lt: "\<forall>x \<in> fst ` set m. k' < x"
    by (auto simp: bt_wf_def bt_keys_def)
  have "bt_get m k = None" if "k < k'"
    using lt that bt_get_in_set by (metis (no_types, lifting) fst_conv image_eqI less_asym not_None_eq)
  with 2 wf show ?case by (auto simp: bt_contains_def)
qed (simp add: bt_contains_def)

lemma node_bounded_default: "node_bounded mc Node_default"
  by (simp add: Node_default_def)

lemma node_bounded_push: "node_bounded mc n \<Longrightarrow> node_bounded mc (leaf_push mc ts idx n)"
proof (induction mc ts idx n rule: leaf_push.induct)
  case (1 mc idx n)
  then show ?case by (cases n) simp
next
  case (2 mc token ts idx n)
  obtain ch cl where n: "n = Node ch cl" by (cases n)
  let ?k = "child_key mc token ch"
  let ?c = "leaf_push mc ts idx (entry_or_default ch ?k)"
  have wf: "bt_wf ch" and len: "length ch \<le> max 1 mc" and nw: "\<not> bt_contains ch WILDCARD \<Longrightarrow> length ch \<le> mc - 1"
    and all: "\<forall>kc \<in> set ch. node_bounded mc (snd kc)"
    using 2(2) by (auto simp: n list_all_iff)
  have "node_bounded mc (entry_or_default ch ?k)"
    using all by (auto simp: node_bounded_default split: option.splits dest!: bt_get_in_set)
  then have c: "node_bounded mc ?c" using 2(1) by (simp add: n)
  have "bt_contains (bt_insert ?k ?c ch) WILDCARD \<longleftrightarrow> ?k = WILDCARD \<or> bt_contains ch WILDCARD"
    by (auto simp: bt_contains_def)
  moreover have "length (bt_insert ?k ?c ch) \<le> max 1 mc"
    using len nw by (auto simp: length_bt_insert [OF wf] child_key_def)
  moreover have "length (bt_insert ?k ?c ch) \<le> mc - 1" if "?k \<noteq> WILDCARD" "\<not> bt_contains ch WILDCARD"
    using that nw by (auto simp: length_bt_insert [OF wf] child_key_def split: if_splits)
  moreover have "\<forall>kc \<in> set (bt_insert ?k ?c ch). node_bounded mc (snd kc)"
    using c all bt_insert_subset [of ?k ?c ch] by auto
  ultimately show ?case
    using wf by (auto simp: n Let_def list_all_iff)
qed

definition tree_bounded :: "Drain \<Rightarrow> bool" where
  "tree_bounded d \<longleftrightarrow> list_all (\<lambda>(n, r). node_bounded (dc_max_children (dr_cfg d)) r) (dr_roots d)"

lemma tree_bounded_place: "tree_bounded d \<Longrightarrow> tree_bounded (place d ts i)"
proof -
  assume b: "tree_bounded d"
  let ?r = "case bt_get (dr_roots d) (length ts) of Some r \<Rightarrow> r | None \<Rightarrow> Node_default"
  have "node_bounded (dc_max_children (dr_cfg d)) ?r"
    using b by (auto simp: tree_bounded_def list_all_iff node_bounded_default split: option.splits dest!: bt_get_in_set)
  then have "node_bounded (dc_max_children (dr_cfg d)) (leaf_push (dc_max_children (dr_cfg d)) p i ?r)" for p
    by (rule node_bounded_push)
  with b bt_insert_subset show ?thesis
    unfolding tree_bounded_def place_def Let_def list_all_iff by fastforce
qed

lemma tree_bounded_run: "tree_inv d \<Longrightarrow> tree_bounded d \<Longrightarrow> tree_bounded (snd (run_tokens d ls))"
proof (induction ls arbitrary: d)
  case (Cons l ls)
  from Cons.prems(1) have "tree_bounded (snd (add_tokens d l))"
  proof (cases rule: add_tokens_cases [where tokens = l])
    case (joined i)
    with Cons.prems(2) show ?thesis by (simp add: tree_bounded_def)
  next
    case minted
    show ?thesis unfolding minted(3)
      by (rule tree_bounded_place) (use Cons.prems(2) in \<open>simp add: tree_bounded_def\<close>)
  qed
  with Cons.IH [OF tree_inv_add [OF Cons.prems(1)]] show ?case by (simp add: split_beta Let_def)
qed simp

section \<open>Restoring from stored templates\<close>

definition restore_one :: "Drain \<Rightarrow> Template \<Rightarrow> Drain" where
  "restore_one d t = place (d\<lparr> dr_next_id := max (dr_next_id d) (tpl_id t + 1),
     dr_templates := dr_templates d @ [t] \<rparr>) (tpl_tokens t) (length (dr_templates d))"

lemma from_templates_fold:
  "from_templates cfg rules stored = foldl restore_one (with_rules cfg rules) (sort_key tpl_id stored)"
  unfolding from_templates_def restore_one_def ..

lemma restore_fields:
  "dr_templates (foldl restore_one d ts) = dr_templates d @ ts"
  "dr_cfg (foldl restore_one d ts) = dr_cfg d"
  "dr_next_id (foldl restore_one d ts) = foldl (\<lambda>n t. max n (tpl_id t + 1)) (dr_next_id d) ts"
  by (induction ts arbitrary: d) (simp_all add: restore_one_def)

lemma restore_inv: "tree_inv d \<Longrightarrow> tree_bounded d \<Longrightarrow> tree_inv (foldl restore_one d ts) \<and> tree_bounded (foldl restore_one d ts)"
proof (induction ts arbitrary: d)
  case (Cons t ts)
  have "tree_inv (restore_one d t)"
    unfolding restore_one_def by (rule tree_inv_place [OF Cons.prems(1)]) simp_all
  moreover have "tree_bounded (restore_one d t)"
    unfolding restore_one_def by (rule tree_bounded_place) (use Cons.prems(2) in \<open>simp add: tree_bounded_def\<close>)
  ultimately show ?case using Cons.IH by simp
qed simp

lemma next_id_ascending:
  "sorted (map tpl_id ts) \<Longrightarrow> list_all (\<lambda>t. n \<le> tpl_id t + 1) ts \<Longrightarrow>
   foldl (\<lambda>n t. max n (tpl_id t + 1)) n ts = (if ts = [] then n else tpl_id (last ts) + 1)"
proof (induction ts arbitrary: n)
  case (Cons t ts)
  then show ?case by (auto simp: list_all_iff max_def)
qed simp

text \<open>The ids handed out are consecutive from one.\<close>

definition ids_exact :: "Drain \<Rightarrow> bool" where
  "ids_exact d \<longleftrightarrow> map tpl_id (dr_templates d) = [1..<dr_next_id d] \<and> 1 \<le> dr_next_id d"

lemma ids_exact_run: "tree_inv d \<Longrightarrow> ids_exact d \<Longrightarrow> ids_exact (snd (run_tokens d ls))"
proof (induction ls arbitrary: d)
  case (Cons l ls)
  from Cons.prems(1) have "ids_exact (snd (add_tokens d l))"
  proof (cases rule: add_tokens_cases [where tokens = l])
    case (joined i)
    have "map tpl_id ((dr_templates d)[i := t]) = map tpl_id (dr_templates d)"
      if "tpl_id t = tpl_id (dr_templates d ! i)" for t
      using that joined(1) by (intro nth_equalityI) (auto simp: nth_list_update)
    with Cons.prems(2) joined(5) show ?thesis by (simp add: ids_exact_def)
  next
    case minted
    with Cons.prems(2) show ?thesis by (simp add: ids_exact_def)
  qed
  with Cons.IH [OF tree_inv_add [OF Cons.prems(1)]] show ?case by (simp add: split_beta Let_def)
qed simp

lemma new_inv: "tree_inv (with_rules cfg rules)" "tree_bounded (with_rules cfg rules)"
  "ids_exact (with_rules cfg rules)"
  by (simp_all add: with_rules_def tree_inv_def tree_bounded_def ids_exact_def)

lemma mine_all_run:
  "mine_all cfg rules lines = snd (run_tokens (with_rules cfg rules) (filter (\<lambda>ts. ts \<noteq> []) (map (tokenize rules) lines)))"
  using mine_lines_run [OF new_inv(1), of cfg rules lines] by (simp add: mine_all_def with_rules_def)

lemma with_rules_fields [simp]:
  "dr_cfg (with_rules cfg rules) = cfg" "dr_rules (with_rules cfg rules) = rules"
  "dr_templates (with_rules cfg rules) = []" "dr_next_id (with_rules cfg rules) = 1"
  by (simp_all add: with_rules_def)

section \<open>Merge suggestions\<close>

lemma dedup_subset: "set (dedup_by_ids xs) \<subseteq> set xs"
  by (induction xs rule: dedup_by_ids.induct) auto

lemma dedup_strict:
  "sorted (map (\<lambda>s. (ms_a s, ms_b s)) xs) \<Longrightarrow> sorted_wrt (<) (map (\<lambda>s. (ms_a s, ms_b s)) (dedup_by_ids xs))"
proof (induction xs rule: dedup_by_ids.induct)
  case (1 x y rest)
  show ?case
  proof (cases "ms_a x = ms_a y \<and> ms_b x = ms_b y")
    case True
    with 1 show ?thesis by simp
  next
    case False
    with 1(3) have "\<forall>s \<in> set (y # rest). (ms_a x, ms_b x) < (ms_a s, ms_b s)"
      by (auto simp: less_le_not_le)
    with dedup_subset [of "y # rest"] False 1 show ?thesis by auto
  qed
qed simp_all

lemma seq_counts_le: "fst (seq_counts as bs) + snd (seq_counts as bs) \<le> length as"
  by (induction as bs rule: seq_counts.induct) (auto simp: split_beta Let_def)

lemma seq_distance_le: "fst (seq_distance as bs) \<le> 1"
  using seq_counts_le [of as bs]
  by (simp add: seq_distance_def split_beta Let_def divide_le_eq flip: of_nat_add)

lemma suggest_ok:
  assumes "s \<in> set (suggest cfg a b)" and "tpl_id a \<noteq> tpl_id b"
  shows "ms_a s < ms_b s \<and> {ms_a s, ms_b s} = {tpl_id a, tpl_id b} \<and> 0 < ms_confidence s \<and> ms_confidence s \<le> 1"
proof -
  have prefix: "0 < (of_nat (length sh) / of_nat (length lo) :: rat) \<and> (of_nat (length sh) / of_nat (length lo) :: rat) \<le> 1"
    if "sh \<noteq> []" "length sh \<le> length lo" for sh lo :: "string list"
    using that by (cases lo) auto
  have dist: "fst (seq_distance (tpl_tokens a) (tpl_tokens b)) \<le> 1" by (rule seq_distance_le)
  show ?thesis
    using assms prefix dist by (auto simp: suggest_def Let_def split: if_splits prod.splits)
qed

lemma suggest_group_ok:
  assumes "s \<in> set (suggest_group cfg g)" and "distinct (map tpl_id g)"
  shows "ms_a s < ms_b s \<and> {ms_a s, ms_b s} \<subseteq> tpl_id ` set g \<and> 0 < ms_confidence s \<and> ms_confidence s \<le> 1"
  using assms
proof (induction cfg g rule: suggest_group.induct)
  case (2 cfg a rest)
  show ?case
  proof (cases "s \<in> set (suggest_group cfg rest)")
    case True
    with 2 show ?thesis by auto
  next
    case False
    with 2(2) obtain b where b: "b \<in> set rest" "s \<in> set (suggest cfg a b)" by auto
    with 2(3) have "tpl_id a \<noteq> tpl_id b" by (metis distinct.simps(2) image_eqI list.set_map list.simps(9))
    from suggest_ok [OF b(2) this] b(1) show ?thesis by auto
  qed
qed simp

definition families_ok :: "Template list \<Rightarrow> (string, Template list) btree \<Rightarrow> bool" where
  "families_ok ts fams \<longleftrightarrow> (\<forall>kg \<in> set fams. set (snd kg) \<subseteq> set ts \<and> distinct (map tpl_id (snd kg)))"

lemma families_ok_insert:
  "families_ok ts fams \<Longrightarrow> set g \<subseteq> set ts \<and> distinct (map tpl_id g) \<Longrightarrow> families_ok ts (bt_insert k g fams)"
  using bt_insert_subset [of k g fams] by (fastforce simp: families_ok_def)

lemma families_ok_add:
  assumes "families_ok ts fams" and "distinct (map tpl_id (ts @ [t]))"
  shows "families_ok (ts @ [t]) (add_to_family fams t)"
proof -
  let ?g = "(case bt_get fams (family_key t) of Some g \<Rightarrow> g | None \<Rightarrow> []) @ [t]"
  let ?o = "case bt_get fams (family_key t) of Some g \<Rightarrow> g | None \<Rightarrow> []"
  have "set ?o \<subseteq> set ts \<and> distinct (map tpl_id ?o)"
    using assms(1) by (force simp: families_ok_def split: option.splits dest!: bt_get_in_set)
  with assms(2) have "set ?g \<subseteq> set (ts @ [t]) \<and> distinct (map tpl_id ?g)" by auto
  moreover have "families_ok (ts @ [t]) fams" using assms(1) by (auto simp: families_ok_def)
  ultimately show ?thesis
    by (simp add: add_to_family_def families_ok_insert del: set_append map_append)
qed

lemma families_ok_fold:
  "families_ok ts fams \<Longrightarrow> distinct (map tpl_id (ts @ us)) \<Longrightarrow> families_ok (ts @ us) (foldl add_to_family fams us)"
proof (induction us arbitrary: ts fams)
  case (Cons u us)
  have "families_ok (ts @ [u]) (add_to_family fams u)"
    by (rule families_ok_add) (use Cons.prems in auto)
  from Cons.IH [OF this] Cons.prems(2) show ?case by simp
qed simp

section \<open>Properties\<close>

text \<open>The token lists of a text, and the history of a mining run: every mined line with the
  id of the template it was assigned to.\<close>

definition token_lines :: "TokenizerRules \<Rightarrow> string list \<Rightarrow> string list list" where
  "token_lines rules lines = filter (\<lambda>ts. ts \<noteq> []) (map (tokenize rules) lines)"

definition history :: "DrainConfig \<Rightarrow> TokenizerRules \<Rightarrow> string list \<Rightarrow> (string list \<times> nat) list" where
  "history cfg rules lines = zip (token_lines rules lines)
     (map dm_template_id (fst (run_tokens (with_rules cfg rules) (token_lines rules lines))))"

lemma mine_all_inv:
  "mined_inv (history cfg rules lines) (mine_all cfg rules lines)" "dr_cfg (mine_all cfg rules lines) = cfg"
  using mined_inv_run [OF mined_inv_new, of "token_lines rules lines" cfg rules]
    run_tokens_cfg [OF new_inv(1)] by (simp_all add: history_def mine_all_run token_lines_def)

text \<open>C7. Templates are exactly the agreement of their lines: after mining any text, every
  template has at least one line, keeps a token exactly where all lines assigned to it have
  that token and shows the wildcard exactly where two of them disagreed (or all carry it
  literally), counts them, and is flagged head-only exactly when one of them was cut.\<close>

theorem templates_are_agreements:
  "list_all (template_ok cfg (history cfg rules lines)) (dr_templates (mine_all cfg rules lines))"
  using mine_all_inv [of cfg rules lines] by (simp add: mined_inv_def list_all_iff)

text \<open>No line is ever lost to the miner: every mined line is covered, position by position,
  by the template whose id it was given, however many lines were mined after it.\<close>

theorem mined_lines_stay_covered:
  "list_all (\<lambda>(l, i). list_ex (\<lambda>t. tpl_id t = i \<and> covers (tpl_tokens t) (mined_tokens cfg l))
       (dr_templates (mine_all cfg rules lines)))
     (history cfg rules lines)"
proof -
  have "list_ex (\<lambda>t. tpl_id t = i \<and> covers (tpl_tokens t) (mined_tokens cfg l)) (dr_templates (mine_all cfg rules lines))"
    if h: "(l, i) \<in> set (history cfg rules lines)" for l i
  proof -
    from h mine_all_inv [of cfg rules lines] obtain t where t: "t \<in> set (dr_templates (mine_all cfg rules lines))"
      "tpl_id t = i" and ok: "template_ok cfg (history cfg rules lines) t"
      by (force simp: mined_inv_def)
    have "l \<in> set (lines_of (history cfg rules lines) i)"
      using h by (force simp: lines_of_def)
    with ok t(2) covers_agreement have "covers (tpl_tokens t) (mined_tokens cfg l)"
      by (simp add: template_ok_def Let_def)
    with t show ?thesis by (auto simp: list_ex_iff)
  qed
  then show ?thesis by (auto simp: list_all_iff)
qed

text \<open>The bookkeeping is exact: template ids are the consecutive numbers from one, the next
  id is fresh, and the counts add up to the number of non-blank lines.\<close>

theorem mining_accounts_for_every_line:
  "map tpl_id (dr_templates (mine_all cfg rules lines)) = [1..<dr_next_id (mine_all cfg rules lines)] \<and>
   sum_list (map tpl_count (dr_templates (mine_all cfg rules lines))) = length (token_lines rules lines)"
  using mine_all_inv(1) [of cfg rules lines]
    ids_exact_run [OF new_inv(1,3), of cfg rules "token_lines rules lines"]
  by (simp add: mined_inv_def ids_exact_def mine_all_run history_def token_lines_def)

text \<open>A freshly minted template is found by its own line: when mining a line created a
  template, mining the same line next joins an existing one, provided the similarity
  threshold is at most one and at most half of its tokens are literally the wildcard.\<close>

theorem minted_line_is_recognised:
  assumes "tree_inv d" and "dc_similarity (dr_cfg d) \<le> 1"
    and "2 * length (filter (\<lambda>x. x = WILDCARD) (mined_tokens (dr_cfg d) l)) \<le> length (mined_tokens (dr_cfg d) l)"
    and "dm_created (fst (add_tokens d l))"
  shows "\<not> dm_created (fst (add_tokens (snd (add_tokens d l)) l))"
  using assms(1)
proof (cases rule: add_tokens_cases [where tokens = l])
  case minted
  let ?m = "mined_tokens (dr_cfg d) l" and ?d = "snd (add_tokens d l)" and ?i = "length (dr_templates d)"
  have cfg: "dr_cfg ?d = dr_cfg d" and tpl: "tpl_tokens (dr_templates ?d ! ?i) = ?m"
    by (simp_all add: minted(3))
  have "\<exists>n. bt_get (dr_roots ?d) (length ?m) =
      Some (leaf_push (dc_max_children (dr_cfg d)) (routing (dr_cfg d) ?m) ?i n)"
    by (simp add: minted(3) place_def Let_def) blast
  then obtain n where "candidates_for ?d ?m = candidates_walk
      (leaf_push (dc_max_children (dr_cfg d)) (routing (dr_cfg d) ?m) ?i n) (routing (dr_cfg d) ?m) []"
    by (auto simp: candidates_for_def cfg)
  with walk_finds_pushed [where as = "[]"] obtain cs w where c: "candidates_for ?d ?m = (cs, w)"
    and i: "?i \<in> set cs" and w: "w \<Longrightarrow> routing (dr_cfg d) ?m \<noteq> []"
    by (metis prod.collapse)
  have "eligible ?d ?m w ?i"
    using widened_ok_refl [OF routing_nonempty [OF w] assms(3)] by (simp add: eligible_def Let_def tpl cfg)
  then have "at_least 1 (foldl (better_match ?d ?m w) None cs)"
    by (rule better_fold_takes [OF i]) (simp add: tpl seq_distance_refl)
  then obtain j x p where "foldl (better_match ?d ?m w) None cs = Some (j, x, p)" "1 \<le> x"
    by (auto simp: at_least_def split: option.splits)
  moreover have "(if w then max (dc_similarity (dr_cfg d)) WIDE_SIMILARITY else dc_similarity (dr_cfg d)) \<le> 1"
    using assms(2) by (simp add: WIDE_SIMILARITY_def)
  ultimately have "best_match ?d cs ?m w \<noteq> None"
    unfolding best_match_def Let_def cfg by simp
  with c show ?thesis using joined_not_created [of ?d l] cfg by metis
qed (use assms(4) in simp)

theorem minted_line_is_recognised_witness:
  "\<not> dm_created (fst (add_tokens (snd (add_tokens (with_rules DrainConfig_default TokenizerRules_default)
      [''usb'', ''device'', ''found''])) [''usb'', ''device'', ''found'']))"
  by (rule minted_line_is_recognised)
    (simp_all add: new_inv, simp_all add: DrainConfig_default_def mined_tokens_def WILDCARD_def add_tokens_def
      candidates_for_def best_match_def with_rules_def Let_def)

text \<open>The tree stays small: every node of the prefix tree, after mining any text, has at
  most \<open>max_children\<close> children (one if that is zero), and keeps a place for the wildcard
  child while it has none; every cluster index it stores is in range and of the right
  length.\<close>

theorem tree_stays_bounded:
  "tree_bounded (mine_all cfg rules lines) \<and> tree_inv (mine_all cfg rules lines)"
  using tree_bounded_run [OF new_inv(1,2), of cfg rules "token_lines rules lines"] mine_all_inv(1) [of cfg rules lines]
  by (simp add: mine_all_run token_lines_def mined_inv_def)

text \<open>A restart keeps every identity: restoring a miner from the templates another one
  stored gives the same templates with the same ids, counts and tokens, the same next id,
  and a tree whose indices are in range and whose nodes are bounded.\<close>

theorem restart_keeps_templates:
  "let d = mine_all cfg rules lines; r = from_templates cfg rules (dr_templates d) in
   dr_templates r = dr_templates d \<and> dr_next_id r = dr_next_id d \<and> tree_inv r \<and> tree_bounded r"
proof -
  let ?d = "mine_all cfg rules lines"
  let ?ts = "dr_templates ?d"
  have ids: "map tpl_id ?ts = [1..<dr_next_id ?d]" "1 \<le> dr_next_id ?d"
    using ids_exact_run [OF new_inv(1,3), of cfg rules "token_lines rules lines"]
    by (simp_all add: ids_exact_def mine_all_run token_lines_def)
  then have sorted: "sorted (map tpl_id ?ts)" by simp
  have len: "length ?ts = dr_next_id ?d - 1" using arg_cong [OF ids(1), of length] by simp
  have "foldl (\<lambda>n t. max n (tpl_id t + 1)) 1 ?ts = (if ?ts = [] then 1 else tpl_id (last ?ts) + 1)"
    by (rule next_id_ascending [OF sorted]) (simp add: list_all_iff)
  also have "\<dots> = dr_next_id ?d"
  proof (cases "?ts = []")
    case False
    then have "tpl_id (last ?ts) = last [1..<dr_next_id ?d]" using ids(1) by (metis last_map)
    moreover have "1 < dr_next_id ?d" using False ids len by (cases ?ts) auto
    ultimately show ?thesis using False by simp
  next
    case True
    then show ?thesis using ids(2) len by simp
  qed
  finally have "foldl (\<lambda>n t. max n (tpl_id t + 1)) 1 ?ts = dr_next_id ?d" .
  then show ?thesis
    using restore_inv [OF new_inv(1,2), of cfg rules ?ts] sort_key_id_if_sorted [OF sorted]
    by (simp add: from_templates_fold restore_fields Let_def)
qed

text \<open>Merge suggestions are well formed: for a miner with distinct ids every suggestion names
  two different existing templates, the smaller id first, with a confidence above zero and
  at most one, and the list is strictly ascending in the pair of ids, so no pair is
  suggested twice.\<close>

theorem merge_suggestions_well_formed:
  "sorted_wrt (<) (map (\<lambda>s. (ms_a s, ms_b s)) (merge_suggestions (mine_all cfg rules lines))) \<and>
   list_all (\<lambda>s. ms_a s < ms_b s \<and> ms_a s \<in> tpl_id ` set (dr_templates (mine_all cfg rules lines)) \<and>
       ms_b s \<in> tpl_id ` set (dr_templates (mine_all cfg rules lines)) \<and>
       0 < ms_confidence s \<and> ms_confidence s \<le> 1)
     (merge_suggestions (mine_all cfg rules lines))"
proof
  let ?d = "mine_all cfg rules lines"
  let ?fams = "foldl add_to_family [] (dr_templates ?d)"
  let ?out = "concat (map (suggest_group (dr_cfg ?d) \<circ> snd) ?fams)"
  let ?key = "\<lambda>s. ((ms_a s, ms_b s), - ms_confidence s)"
  have m: "merge_suggestions ?d = dedup_by_ids (sort_key ?key ?out)"
    by (simp add: merge_suggestions_def Let_def)
  have "sorted_wrt (\<lambda>x y. ?key x \<le> ?key y) (sort_key ?key ?out)"
    using sorted_sort_key [of ?key ?out] by (simp only: sorted_map)
  then have "sorted_wrt (\<lambda>x y. (ms_a x, ms_b x) \<le> (ms_a y, ms_b y)) (sort_key ?key ?out)"
    by (rule sorted_wrt_mono_rel [rotated]) auto
  then show "sorted_wrt (<) (map (\<lambda>s. (ms_a s, ms_b s)) (merge_suggestions ?d))"
    unfolding m by (intro dedup_strict) (simp only: sorted_map)
  have "ids_inv ?d" using mine_all_inv(1) by (simp add: mined_inv_def)
  then have fams: "families_ok (dr_templates ?d) ?fams"
    using families_ok_fold [of "[]" "[]" "dr_templates ?d"] distinct_ids by (simp add: families_ok_def)
  have "ms_a s < ms_b s \<and> {ms_a s, ms_b s} \<subseteq> tpl_id ` set (dr_templates ?d) \<and> 0 < ms_confidence s \<and> ms_confidence s \<le> 1"
    if "s \<in> set (merge_suggestions ?d)" for s
  proof -
    from that dedup_subset [of "sort_key ?key ?out"] obtain kg where "kg \<in> set ?fams"
      and "s \<in> set (suggest_group (dr_cfg ?d) (snd kg))" unfolding m by auto
    with fams suggest_group_ok [of s "dr_cfg ?d" "snd kg"] show ?thesis
      unfolding families_ok_def by (meson image_mono subset_trans)
  qed
  then show "list_all (\<lambda>s. ms_a s < ms_b s \<and> ms_a s \<in> tpl_id ` set (dr_templates ?d) \<and>
       ms_b s \<in> tpl_id ` set (dr_templates ?d) \<and> 0 < ms_confidence s \<and> ms_confidence s \<le> 1)
     (merge_suggestions ?d)"
    by (simp add: list_all_iff)
qed

text \<open>Restoring does not reproduce the live tree: after two lines that differ in their
  second token have been merged, the live tree still routes the template through the first
  line's token, while the restored tree routes it through the wildcard.\<close>

lemma restored_tree_differs:
  "let d = mine_all DrainConfig_default TokenizerRules_default [''a x c d e'', ''a y c d e'']
   in map tpl_tokens (dr_templates d) = [[''a'', ''<*>'', ''c'', ''d'', ''e'']] \<and>
      dr_roots (from_templates DrainConfig_default TokenizerRules_default (dr_templates d)) \<noteq> dr_roots d"
  by code_simp

end
