(* ===== verification/Store_Types.thy ===== *)
theory Store_Types
  imports Btree_Map
begin

text \<open>
  The vocabulary the components share: the error taxonomy
  (\<^verbatim>\<open>crates/conminer-core/src/error.rs\<close>), severities and record kinds
  (\<^verbatim>\<open>store/mod.rs\<close>, \<^verbatim>\<open>store/device.rs\<close>), the JSON values attached to records, and the
  stream cursors handed to clients. Fallible operations of the model return
  \<open>ErrorCode + 'a\<close>: the code is what clients branch on, messages are not modelled.
\<close>

section \<open>Error codes\<close>

datatype (plugins only: code) ErrorCode =
    UnknownDevice
  | AmbiguousDevice
  | GroupSelectorNotAllowed
  | DeviceGone
  | NicknameTaken
  | UnknownSession
  | SessionActive
  | UnknownBoot
  | UnknownTemplate
  | UnknownRecord
  | UnknownLine
  | UnknownWatch
  | UnknownBaseline
  | UnknownBisect
  | UnknownArgument
  | CursorExpired
  | InvalidCursor
  | ResultCapped
  | IngestTooLarge
  | Pruned
  | IngestFailed
  | NoSuchPath
  | PermissionDenied
  | NoPrompt
  | UnknownPrompt
  | LoginRequired
  | EchoMismatch
  | Hung
  | LeaseRequired
  | LeaseHeld
  | ExclusiveClaimed
  | ActuationInFlight
  | AwayInEdl
  | NormalBootAborted
  | SendDisabled
  | HookNotConfigured
  | HookFailed
  | HookTimeout
  | PeerUnreachable
  | UnknownPeer
  | AmbiguousPeer
  | InvalidConfig
  | InvalidArgument
  | Unsupported
  | StorageFull
  | Internal

primrec default_hint :: "ErrorCode \<Rightarrow> string" where
    "default_hint UnknownDevice =
      ''call list_devices() to see valid selectors''"
  | "default_hint AmbiguousDevice =
      ''pick one of the candidates, or use its canonical id''"
  | "default_hint GroupSelectorNotAllowed =
      ''this tool acts on one device; narrow the selector''"
  | "default_hint DeviceGone =
      ''check list_devices(); the device may have been unplugged''"
  | "default_hint NicknameTaken =
      ''choose another nickname, or re-point it with force''"
  | "default_hint UnknownSession =
      ''call list_sessions(device) for valid session ids''"
  | "default_hint SessionActive =
      ''call end_session() first, or pass force''"
  | "default_hint UnknownBoot =
      ''call list_boots(device) for valid boot ids''"
  | "default_hint UnknownTemplate =
      ''call list_templates() for valid template ids''"
  | "default_hint UnknownRecord =
      ''call list_templates() then get_records() for valid ids''"
  | "default_hint UnknownLine =
      ''use an anchor returned by search() or get_records()''"
  | "default_hint UnknownWatch =
      ''call list_watches() for valid names''"
  | "default_hint UnknownBaseline =
      ''call list_baselines(), or set one with set_baseline()''"
  | "default_hint UnknownBisect =
      ''call list_bisects() for valid names, or start one with bisect_start()''"
  | "default_hint UnknownArgument =
      ''the referenced object does not exist on this device''"
  | "default_hint CursorExpired =
      ''re-anchor: call the tool without a cursor to get a fresh one''"
  | "default_hint InvalidCursor =
      ''cursors are opaque; pass back exactly what a tool returned''"
  | "default_hint ResultCapped =
      ''pass the returned cursor to fetch the next page''"
  | "default_hint IngestTooLarge =
      ''split the file, or raise ingest.max_gb''"
  | "default_hint Pruned =
      ''the verbatim bytes for this range have been pruned; templates, epochs, stages and metrics derived from them remain''"
  | "default_hint IngestFailed =
      ''check the ingest job error detail''"
  | "default_hint NoSuchPath =
      ''the path must be visible inside the minerd container''"
  | "default_hint PermissionDenied =
      ''check file ownership and the container's mounts''"
  | "default_hint NoPrompt =
      ''the console is not at a prompt; inspect the attached tail''"
  | "default_hint UnknownPrompt =
      ''inspect the tail, then teach it via classify_prompt()''"
  | "default_hint LoginRequired =
      ''the console is at a login prompt: put credentials for it in the file named by credentials.file in conminer.toml (a 0600 file, never the registry), then retry''"
  | "default_hint EchoMismatch =
      ''the line may be lossy; raise runner.char_delay_ms or set echo=off''"
  | "default_hint Hung =
      ''the recovery ladder was exhausted; consider recover=power''"
  | "default_hint LeaseRequired =
      ''call acquire(device) before mutating tools''"
  | "default_hint LeaseHeld =
      ''wait for expiry, or call acquire(steal=true)''"
  | "default_hint ExclusiveClaimed =
      ''clear a claim whose holder is gone with claim_exclusive(device, release: true), or release(device), which drops the lease and the claim together''"
  | "default_hint ActuationInFlight =
      ''wait for the running actuation to finish (its `since_ms` and action are in detail), then poll console_state or list_boots for the outcome''"
  | "default_hint AwayInEdl =
      ''the board is in EDL/flash mode; wait for it to leave recovery (poll console_state until capture_state is not away_in_edl), then retry''"
  | "default_hint NormalBootAborted =
      ''power was NOT cycled. detail.step says whether the clear or its readback failed; read boot_overrides to see what the controller holds now''"
  | "default_hint SendDisabled =
      ''set runner.allow_raw_send=true to enable the passthrough''"
  | "default_hint HookNotConfigured =
      ''define the hook in conminer.toml under [devices.<id>.hooks]''"
  | "default_hint HookFailed =
      ''inspect the hook's exit code and stderr in the attached detail''"
  | "default_hint HookTimeout =
      ''raise hooks.*_timeout_s, or fix the hook''"
  | "default_hint PeerUnreachable =
      ''the owning node is not answering; its data is not cached here''"
  | "default_hint UnknownPeer =
      ''call peers() to see the live fleet''"
  | "default_hint AmbiguousPeer =
      ''two nodes are answering to one name; give each its own CONMINER_PEERS_NAME, or address the node by instance id''"
  | "default_hint InvalidConfig =
      ''run `conminer check-config` for the offending key''"
  | "default_hint InvalidArgument =
      ''check the tool's schema in tools/list''"
  | "default_hint Unsupported =
      ''this build or profile does not support that operation''"
  | "default_hint StorageFull =
      ''free space on the conminer data volume; capture has stopped''"
  | "default_hint Internal =
      ''this is a bug; the detail field carries the context''"

definition ErrorCode_all :: "ErrorCode list" where
  "ErrorCode_all =
     [UnknownDevice,
      AmbiguousDevice,
      GroupSelectorNotAllowed,
      DeviceGone,
      NicknameTaken,
      UnknownSession,
      SessionActive,
      UnknownBoot,
      UnknownTemplate,
      UnknownRecord,
      UnknownLine,
      UnknownWatch,
      UnknownBaseline,
      UnknownBisect,
      UnknownArgument,
      CursorExpired,
      InvalidCursor,
      ResultCapped,
      IngestTooLarge,
      IngestFailed,
      NoSuchPath,
      PermissionDenied,
      NoPrompt,
      UnknownPrompt,
      LoginRequired,
      EchoMismatch,
      Hung,
      LeaseRequired,
      LeaseHeld,
      ExclusiveClaimed,
      ActuationInFlight,
      AwayInEdl,
      NormalBootAborted,
      SendDisabled,
      HookNotConfigured,
      HookFailed,
      HookTimeout,
      InvalidConfig,
      InvalidArgument,
      Unsupported,
      StorageFull,
      Internal]"

primrec ErrorCode_as_str :: "ErrorCode \<Rightarrow> string" where
    "ErrorCode_as_str UnknownDevice = ''UNKNOWN_DEVICE''"
  | "ErrorCode_as_str AmbiguousDevice = ''AMBIGUOUS_DEVICE''"
  | "ErrorCode_as_str GroupSelectorNotAllowed = ''GROUP_SELECTOR_NOT_ALLOWED''"
  | "ErrorCode_as_str DeviceGone = ''DEVICE_GONE''"
  | "ErrorCode_as_str NicknameTaken = ''NICKNAME_TAKEN''"
  | "ErrorCode_as_str UnknownSession = ''UNKNOWN_SESSION''"
  | "ErrorCode_as_str SessionActive = ''SESSION_ACTIVE''"
  | "ErrorCode_as_str UnknownBoot = ''UNKNOWN_BOOT''"
  | "ErrorCode_as_str UnknownTemplate = ''UNKNOWN_TEMPLATE''"
  | "ErrorCode_as_str UnknownRecord = ''UNKNOWN_RECORD''"
  | "ErrorCode_as_str UnknownLine = ''UNKNOWN_LINE''"
  | "ErrorCode_as_str UnknownWatch = ''UNKNOWN_WATCH''"
  | "ErrorCode_as_str UnknownBaseline = ''UNKNOWN_BASELINE''"
  | "ErrorCode_as_str UnknownBisect = ''UNKNOWN_BISECT''"
  | "ErrorCode_as_str UnknownArgument = ''UNKNOWN_ARGUMENT''"
  | "ErrorCode_as_str CursorExpired = ''CURSOR_EXPIRED''"
  | "ErrorCode_as_str InvalidCursor = ''INVALID_CURSOR''"
  | "ErrorCode_as_str ResultCapped = ''RESULT_CAPPED''"
  | "ErrorCode_as_str IngestTooLarge = ''INGEST_TOO_LARGE''"
  | "ErrorCode_as_str Pruned = ''PRUNED''"
  | "ErrorCode_as_str IngestFailed = ''INGEST_FAILED''"
  | "ErrorCode_as_str NoSuchPath = ''NO_SUCH_PATH''"
  | "ErrorCode_as_str PermissionDenied = ''PERMISSION_DENIED''"
  | "ErrorCode_as_str NoPrompt = ''NO_PROMPT''"
  | "ErrorCode_as_str UnknownPrompt = ''UNKNOWN_PROMPT''"
  | "ErrorCode_as_str LoginRequired = ''LOGIN_REQUIRED''"
  | "ErrorCode_as_str EchoMismatch = ''ECHO_MISMATCH''"
  | "ErrorCode_as_str Hung = ''HUNG''"
  | "ErrorCode_as_str LeaseRequired = ''LEASE_REQUIRED''"
  | "ErrorCode_as_str LeaseHeld = ''LEASE_HELD''"
  | "ErrorCode_as_str ExclusiveClaimed = ''EXCLUSIVE_CLAIMED''"
  | "ErrorCode_as_str ActuationInFlight = ''ACTUATION_IN_FLIGHT''"
  | "ErrorCode_as_str AwayInEdl = ''AWAY_IN_EDL''"
  | "ErrorCode_as_str NormalBootAborted = ''NORMAL_BOOT_ABORTED''"
  | "ErrorCode_as_str SendDisabled = ''SEND_DISABLED''"
  | "ErrorCode_as_str HookNotConfigured = ''HOOK_NOT_CONFIGURED''"
  | "ErrorCode_as_str HookFailed = ''HOOK_FAILED''"
  | "ErrorCode_as_str HookTimeout = ''HOOK_TIMEOUT''"
  | "ErrorCode_as_str PeerUnreachable = ''PEER_UNREACHABLE''"
  | "ErrorCode_as_str UnknownPeer = ''UNKNOWN_PEER''"
  | "ErrorCode_as_str AmbiguousPeer = ''AMBIGUOUS_PEER''"
  | "ErrorCode_as_str InvalidConfig = ''INVALID_CONFIG''"
  | "ErrorCode_as_str InvalidArgument = ''INVALID_ARGUMENT''"
  | "ErrorCode_as_str Unsupported = ''UNSUPPORTED''"
  | "ErrorCode_as_str StorageFull = ''STORAGE_FULL''"
  | "ErrorCode_as_str Internal = ''INTERNAL''"

section \<open>Values and tool errors\<close>

text \<open>\<^verbatim>\<open>serde_json::Value\<close>; the workspace builds it with \<^verbatim>\<open>preserve_order\<close>, so an object is the
  sequence of its entries in insertion order.\<close>

datatype json = JNull | JBool bool | JInt int | JStr string | JArr "json list"
  | JObj "(string \<times> json) list"

type_synonym json_map = "(string \<times> json) list"

text \<open>\<^verbatim>\<open>serde_json::Map::insert\<close>: a key that is present keeps its place and takes the new value.\<close>

fun jm_insert :: "string \<Rightarrow> json \<Rightarrow> json_map \<Rightarrow> json_map" where
  "jm_insert k v [] = [(k, v)]"
| "jm_insert k v ((k', v') # m) = (if k = k' then (k, v) # m else (k', v') # jm_insert k v m)"

definition jm_extend :: "json_map \<Rightarrow> json_map \<Rightarrow> json_map" where
  "jm_extend m m' = foldl (\<lambda>acc (k, v). jm_insert k v acc) m m'"

lemma map_of_jm_insert [simp]: "map_of (jm_insert k v m) = (map_of m)(k \<mapsto> v)"
  by (induction k v m rule: jm_insert.induct) (auto simp: fun_eq_iff)

lemma jm_insert_keys: "map fst (jm_insert k v m) = (if k \<in> fst ` set m then map fst m else map fst m @ [k])"
  by (induction k v m rule: jm_insert.induct) auto

record ToolError =
  te_code :: ErrorCode
  te_message :: string
  te_hint :: string
  te_detail :: "json option"

definition ToolError_new :: "ErrorCode \<Rightarrow> string \<Rightarrow> ToolError" where
  "ToolError_new code message =
     \<lparr> te_code = code, te_message = message, te_hint = default_hint code, te_detail = None \<rparr>"

definition with_hint :: "ToolError \<Rightarrow> string \<Rightarrow> ToolError" where
  "with_hint e hint = e\<lparr> te_hint := hint \<rparr>"

definition with_detail :: "ToolError \<Rightarrow> json \<Rightarrow> ToolError" where
  "with_detail e detail = e\<lparr> te_detail := Some detail \<rparr>"

definition ToolError_internal :: "string \<Rightarrow> ToolError" where
  "ToolError_internal e = ToolError_new Internal e"

definition ToolError_invalid_arg :: "string \<Rightarrow> ToolError" where
  "ToolError_invalid_arg msg = ToolError_new InvalidArgument msg"

definition ToolError_display :: "ToolError \<Rightarrow> string" where
  "ToolError_display e = ErrorCode_as_str (te_code e) @ '': '' @ te_message e"

text \<open>\<^verbatim>\<open>From<rusqlite::Error>\<close>: the rendered message of the database error decides.\<close>

definition from_rusqlite :: "string \<Rightarrow> ToolError" where
  "from_rusqlite msg =
     (if str_contains ''disk is full'' msg \<or> str_contains ''database or disk is full'' msg
      then ToolError_new StorageFull msg else ToolError_new Internal msg)"

datatype IoErrorKind = NotFound | Io_PermissionDenied | Io_other

definition from_io :: "IoErrorKind \<Rightarrow> string \<Rightarrow> ToolError" where
  "from_io kind msg =
     ToolError_new (case kind of NotFound \<Rightarrow> NoSuchPath
                    | Io_PermissionDenied \<Rightarrow> PermissionDenied
                    | Io_other \<Rightarrow> Internal) msg"

section \<open>Severities and record kinds\<close>

datatype Severity = Emerg | Alert | Crit | Err | Warn | Notice | Info | Debug | Unknown

fun Severity_as_i64 :: "Severity \<Rightarrow> int" where
  "Severity_as_i64 Emerg = 0"
| "Severity_as_i64 Alert = 1"
| "Severity_as_i64 Crit = 2"
| "Severity_as_i64 Err = 3"
| "Severity_as_i64 Warn = 4"
| "Severity_as_i64 Notice = 5"
| "Severity_as_i64 Info = 6"
| "Severity_as_i64 Debug = 7"
| "Severity_as_i64 Unknown = 8"

definition Severity_from_i64 :: "int \<Rightarrow> Severity" where
  "Severity_from_i64 v =
     (if v = 0 then Emerg else if v = 1 then Alert else if v = 2 then Crit
      else if v = 3 then Err else if v = 4 then Warn else if v = 5 then Notice
      else if v = 6 then Info else if v = 7 then Debug else Unknown)"

definition Severity_is_error :: "Severity \<Rightarrow> bool" where
  "Severity_is_error s \<longleftrightarrow> Severity_as_i64 s \<le> Severity_as_i64 Err"

lemma Severity_as_i64_inject [simp]: "Severity_as_i64 s = Severity_as_i64 t \<longleftrightarrow> s = t"
  by (cases s; cases t; simp)

text \<open>The derived \<^verbatim>\<open>Ord\<close> compares discriminants: smaller is more severe.\<close>

instantiation Severity :: linorder
begin

definition less_eq_Severity :: "Severity \<Rightarrow> Severity \<Rightarrow> bool" where
  "less_eq_Severity s t \<longleftrightarrow> Severity_as_i64 s \<le> Severity_as_i64 t"

definition less_Severity :: "Severity \<Rightarrow> Severity \<Rightarrow> bool" where
  "less_Severity s t \<longleftrightarrow> Severity_as_i64 s < Severity_as_i64 t"

instance
  by standard (auto simp: less_eq_Severity_def less_Severity_def)

end

lemma Severity_from_as [simp]: "Severity_from_i64 (Severity_as_i64 s) = s"
  by (cases s) (simp_all add: Severity_from_i64_def)

lemma Severity_most_severe: "min s t = s \<or> min s t = (t::Severity)"
  by (simp add: min_def)

datatype RecordKind = Line_kind | Crash | Garbage | Binary

fun RecordKind_as_str :: "RecordKind \<Rightarrow> string" where
  "RecordKind_as_str Line_kind = ''line''"
| "RecordKind_as_str Crash = ''crash''"
| "RecordKind_as_str Garbage = ''garbage''"
| "RecordKind_as_str Binary = ''binary''"

definition RecordKind_parse :: "string \<Rightarrow> RecordKind" where
  "RecordKind_parse s =
     (if s = ''crash'' then Crash else if s = ''garbage'' then Garbage
      else if s = ''binary'' then Binary else Line_kind)"

fun is_minable :: "RecordKind \<Rightarrow> bool" where
  "is_minable Line_kind = True"
| "is_minable Crash = True"
| "is_minable Garbage = False"
| "is_minable Binary = False"

lemma RecordKind_parse_as_str: "RecordKind_parse (RecordKind_as_str k) = k"
  by (cases k) (simp_all add: RecordKind_parse_def)

section \<open>Cursors\<close>

record Cursor =
  cur_token :: string
  cur_offset :: u64

definition Cursor_new :: "string \<Rightarrow> u64 \<Rightarrow> Cursor" where
  "Cursor_new token offset = \<lparr> cur_token = token, cur_offset = offset \<rparr>"

text \<open>\<^verbatim>\<open>format!("{}:{:016x}", token, offset)\<close>\<close>

definition Cursor_encode :: "Cursor \<Rightarrow> string" where
  "Cursor_encode c = cur_token c @ '':'' @ pad_zeros 16 (digits_of 16 (unat (cur_offset c)))"

definition Cursor_decode :: "string \<Rightarrow> ErrorCode + Cursor" where
  "Cursor_decode s =
     (case rsplit_once (CHR '':'') s of
        None \<Rightarrow> Inl InvalidCursor
      | Some (token, off) \<Rightarrow>
          (case from_str_radix (2 ^ 64) 16 off of
             None \<Rightarrow> Inl InvalidCursor
           | Some offset \<Rightarrow>
               if token = [] then Inl InvalidCursor
               else Inr (Cursor_new token (of_nat offset))))"

section \<open>Properties\<close>

lemma hex_no_colon: "CHR '':'' \<notin> set (pad_zeros 16 (digits_of 16 n))"
proof
  assume "CHR '':'' \<in> set (pad_zeros 16 (digits_of 16 n))"
  then have "CHR '':'' \<in> set (digits_of 16 n)" by (auto simp: pad_zeros_def split: if_splits)
  then have "digit_val 16 (CHR '':'') \<noteq> None" by (intro digits_of_no_plus) auto
  then show False by (simp add: digit_val_def Let_def)
qed

text \<open>A cursor handed to a client comes back as the same cursor: for every non-empty
  database token (which may itself contain a colon) and every 64-bit offset, decoding the
  printed form gives the original pair.\<close>

theorem cursor_round_trip:
  "cur_token c \<noteq> [] \<Longrightarrow> Cursor_decode (Cursor_encode c) = Inr c"
proof -
  assume token: "cur_token c \<noteq> []"
  let ?hex = "pad_zeros 16 (digits_of 16 (unat (cur_offset c)))"
  have "rsplit_once (CHR '':'') (Cursor_encode c) = Some (cur_token c, ?hex)"
    using rsplit_once_append [OF hex_no_colon, of "cur_token c"] by (simp add: Cursor_encode_def)
  moreover have "unat (cur_offset c) < 2 ^ 64"
    using unsigned_less [of "cur_offset c", where 'a = nat] by simp
  then have "from_str_radix (2 ^ 64) 16 ?hex = Some (unat (cur_offset c))"
    by (intro from_str_radix_padded) auto
  ultimately show ?thesis
    using token by (simp add: Cursor_decode_def Cursor_new_def)
qed

theorem cursor_round_trip_witness:
  "Cursor_decode (Cursor_encode \<lparr> cur_token = ''a:b'', cur_offset = 4096 \<rparr>) =
     Inr \<lparr> cur_token = ''a:b'', cur_offset = 4096 \<rparr>"
  by (rule cursor_round_trip) simp

text \<open>Four codes are missing from the list that is meant to hold every error code: the
  list has no duplicates, and the codes outside it are exactly these.\<close>

theorem error_codes_missing_from_all:
  "distinct ErrorCode_all \<and>
   {c. c \<notin> set ErrorCode_all} = {Pruned, PeerUnreachable, UnknownPeer, AmbiguousPeer}"
proof
  show "distinct ErrorCode_all" by (simp add: ErrorCode_all_def)
  have "c \<notin> set ErrorCode_all \<longleftrightarrow> c \<in> {Pruned, PeerUnreachable, UnknownPeer, AmbiguousPeer}" for c
    by (cases c) (simp_all add: ErrorCode_all_def)
  then show "{c. c \<notin> set ErrorCode_all} = {Pruned, PeerUnreachable, UnknownPeer, AmbiguousPeer}"
    by blast
qed

end
