(* ===== verification/Generic.thy ===== *)
theory Generic
  imports Store_Types Complex_Main
begin

text \<open>
  The project-independent pattern classes and the garbage detector
  (\<^verbatim>\<open>crates/conminer-core/src/framer/generic.rs\<close>). The regular-expression engine is an
  external crate: a compiled expression is a value of the record \<open>Regex\<close> that holds its
  observable behaviour, and the table of the module's static expressions is the record
  \<open>GenericRe\<close> the classifiers take as an argument. The detector's ratio is an exact
  rational number where the source divides two \<^verbatim>\<open>f64\<close> values.
\<close>

section \<open>Compiled regular expressions\<close>

record Captures =
  cap_get :: "nat \<Rightarrow> string option"
  cap_name :: "string \<Rightarrow> string option"

record Regex =
  re_is_match :: "string \<Rightarrow> bool"
  re_find :: "string \<Rightarrow> (nat \<times> nat) option"
  re_count :: "string \<Rightarrow> nat"
  re_captures :: "string \<Rightarrow> Captures option"
  re_capture_names :: "string option list"
  re_replace_all :: "string \<Rightarrow> string \<Rightarrow> string"

record GenericRe =
  SEVERITY_FATAL :: Regex
  SEVERITY_ERROR :: Regex
  SEVERITY_WARN :: Regex
  SEVERITY_NOTICE :: Regex
  SEVERITY_INFO :: Regex
  SEVERITY_DEBUG :: Regex
  REGISTER_PAIR :: Regex
  BACKTRACE_HDR :: Regex
  BACKTRACE_FRAME :: Regex
  RESET_MARKER :: Regex
  WATCHDOG :: Regex
  KEY_VALUE_RUN :: Regex
  EXPLICIT_PRIORITY :: Regex
  ANSI :: Regex

section \<open>Line classes\<close>

text \<open>\<^verbatim>\<open>str::parse::<i64>\<close>: an optional sign, then decimal digits within the type's range.\<close>

definition parse_i64 :: "string \<Rightarrow> int option" where
  "parse_i64 s =
     (case s of
        c # cs \<Rightarrow>
          if c = CHR ''-'' then
            (if cs = [] then None
             else map_option (\<lambda>n. - int n) (radix_digits (2 ^ 63 + 1) 10 0 cs))
          else map_option int (from_str_radix (2 ^ 63) 10 s)
      | [] \<Rightarrow> None)"

definition explicit_priority :: "GenericRe \<Rightarrow> string \<Rightarrow> Severity option" where
  "explicit_priority G text =
     Option.bind (re_captures (EXPLICIT_PRIORITY G) text) (\<lambda>c.
     Option.bind (cap_get c 1) (\<lambda>m.
     Option.bind (parse_i64 m) (\<lambda>n. Some (Severity_from_i64 n))))"

definition generic_severity :: "GenericRe \<Rightarrow> string \<Rightarrow> Severity" where
  "generic_severity G text =
     (case explicit_priority G text of
        Some sev \<Rightarrow> sev
      | None \<Rightarrow>
          if re_is_match (SEVERITY_FATAL G) text then Crit
          else if re_is_match (SEVERITY_ERROR G) text then Err
          else if re_is_match (SEVERITY_WARN G) text then Warn
          else if re_is_match (SEVERITY_NOTICE G) text then Notice
          else if re_is_match (SEVERITY_INFO G) text then Info
          else if re_is_match (SEVERITY_DEBUG G) text then Debug
          else Unknown)"

definition is_register_line :: "GenericRe \<Rightarrow> string \<Rightarrow> bool" where
  "is_register_line G text \<longleftrightarrow> re_count (REGISTER_PAIR G) text \<ge> 2"

definition generic_is_backtrace_header :: "GenericRe \<Rightarrow> string \<Rightarrow> bool" where
  "generic_is_backtrace_header G text \<longleftrightarrow> re_is_match (BACKTRACE_HDR G) text"

definition generic_is_backtrace_frame :: "GenericRe \<Rightarrow> string \<Rightarrow> bool" where
  "generic_is_backtrace_frame G text \<longleftrightarrow> re_is_match (BACKTRACE_FRAME G) text"

definition generic_is_reset_marker :: "GenericRe \<Rightarrow> string \<Rightarrow> bool" where
  "generic_is_reset_marker G text \<longleftrightarrow> re_is_match (RESET_MARKER G) text"

definition is_watchdog :: "GenericRe \<Rightarrow> string \<Rightarrow> bool" where
  "is_watchdog G text \<longleftrightarrow> re_is_match (WATCHDOG G) text"

definition has_key_value_run :: "GenericRe \<Rightarrow> string \<Rightarrow> bool" where
  "has_key_value_run G text \<longleftrightarrow> re_is_match (KEY_VALUE_RUN G) text"

section \<open>The garbage detector\<close>

record GarbageDetector =
  gd_window_bytes :: nat
  gd_threshold :: rat
  gd_window :: "bool list"
  gd_nonprintable :: nat
  gd_active :: bool
  gd_pending :: "byte list"

definition GarbageDetector_new :: "nat \<Rightarrow> rat \<Rightarrow> GarbageDetector" where
  "GarbageDetector_new window_bytes threshold =
     \<lparr> gd_window_bytes = max window_bytes 1, gd_threshold = threshold, gd_window = [],
       gd_nonprintable = 0, gd_active = False, gd_pending = [] \<rparr>"

record FramerConfig =
  fc_lookback_lines :: nat
  fc_max_record_lines :: nat
  fc_record_timeout_s :: nat
  fc_garbage_threshold :: rat
  fc_garbage_window_bytes :: nat

definition FramerConfig_default :: FramerConfig where
  "FramerConfig_default = \<lparr> fc_lookback_lines = 64, fc_max_record_lines = 2000,
     fc_record_timeout_s = 10, fc_garbage_threshold = 3/10, fc_garbage_window_bytes = 512 \<rparr>"

definition GarbageDetector_from_config :: "FramerConfig \<Rightarrow> GarbageDetector" where
  "GarbageDetector_from_config c = GarbageDetector_new (fc_garbage_window_bytes c) (fc_garbage_threshold c)"

definition utf8_len :: "byte \<Rightarrow> nat option" where
  "utf8_len b =
     (if b \<le> 0x7f then Some 1
      else if 0xc2 \<le> b \<and> b \<le> 0xdf then Some 2
      else if 0xe0 \<le> b \<and> b \<le> 0xef then Some 3
      else if 0xf0 \<le> b \<and> b \<le> 0xf4 then Some 4
      else None)"

definition ascii_ok :: "byte \<Rightarrow> bool" where
  "ascii_ok b \<longleftrightarrow> 0x20 \<le> b \<and> b \<le> 0x7e \<or> b = 10 \<or> b = 13 \<or> b = 9 \<or> b = 8 \<or> b = 7 \<or> b = 0x1b"

text \<open>One turn of the loop of \<^verbatim>\<open>commit\<close>: push the verdict, count it, and drop the oldest one
  when the window is over-full (\<^verbatim>\<open>&&\<close> pops only then).\<close>

definition commit_one :: "bool \<Rightarrow> GarbageDetector \<Rightarrow> GarbageDetector" where
  "commit_one bad g =
     (let w = gd_window g @ [bad];
          n = gd_nonprintable g + (if bad then 1 else 0)
      in if length w > gd_window_bytes g
         then g\<lparr> gd_window := tl w, gd_nonprintable := (if hd w then n - 1 else n) \<rparr>
         else g\<lparr> gd_window := w, gd_nonprintable := n \<rparr>)"

definition commit :: "GarbageDetector \<Rightarrow> bool \<Rightarrow> nat \<Rightarrow> GarbageDetector" where
  "commit g bad n = (commit_one bad ^^ n) g"

definition continuation_byte :: "byte \<Rightarrow> bool" where
  "continuation_byte c \<longleftrightarrow> 0x80 \<le> c \<and> c \<le> 0xBF"

text \<open>\<^verbatim>\<open>feed_byte\<close> with its self-calls on the bytes left over after a complete sequence: those
  bytes are handled before anything else, so they go to the front of the work list.\<close>

function feed_work :: "GarbageDetector \<Rightarrow> byte list \<Rightarrow> GarbageDetector" where
  "feed_work g [] = g"
| "feed_work g (b # bs) =
     (let p = gd_pending g @ [b]; lead = hd p
      in case utf8_len lead of
           None \<Rightarrow> feed_work ((commit g True 1)\<lparr> gd_pending := [] \<rparr>) bs
         | Some n \<Rightarrow>
             if n = 1 then feed_work ((commit g (\<not> ascii_ok lead) 1)\<lparr> gd_pending := [] \<rparr>) bs
             else if length p \<ge> n then
               let well_formed = list_all continuation_byte (tl (take n p))
               in feed_work ((commit g (\<not> well_formed) n)\<lparr> gd_pending := [] \<rparr>) (drop n p @ bs)
             else feed_work (g\<lparr> gd_pending := p \<rparr>) bs)"
  by pat_completeness auto

lemma utf8_len_pos: "utf8_len b = Some n \<Longrightarrow> 1 \<le> n \<and> n \<le> 4"
  by (auto simp: utf8_len_def split: if_splits)

termination feed_work
  by (relation "measures [\<lambda>(g, bs). length (gd_pending g) + length bs, \<lambda>(g, bs). length bs]")
    (auto dest!: utf8_len_pos)

definition feed_byte :: "GarbageDetector \<Rightarrow> byte \<Rightarrow> GarbageDetector" where
  "feed_byte g b = feed_work g [b]"

definition GarbageDetector_push :: "GarbageDetector \<Rightarrow> byte list \<Rightarrow> bool \<times> GarbageDetector" where
  "GarbageDetector_push g bytes =
     (let g = foldl feed_byte g bytes;
          g = (if length (gd_window g) \<ge> gd_window_bytes g then
                 g\<lparr> gd_active := of_nat (gd_nonprintable g) / of_nat (length (gd_window g)) \<ge> gd_threshold g \<rparr>
               else if gd_window g = [] then g\<lparr> gd_active := False \<rparr>
               else g)
      in (gd_active g, g))"

definition GarbageDetector_ratio :: "GarbageDetector \<Rightarrow> rat" where
  "GarbageDetector_ratio g =
     (if gd_window g = [] then 0 else of_nat (gd_nonprintable g) / of_nat (length (gd_window g)))"

definition GarbageDetector_reset :: "GarbageDetector \<Rightarrow> GarbageDetector" where
  "GarbageDetector_reset g =
     g\<lparr> gd_window := [], gd_nonprintable := 0, gd_active := False, gd_pending := [] \<rparr>"

definition is_console_printable :: "byte \<Rightarrow> bool" where
  "is_console_printable b \<longleftrightarrow>
     0x20 \<le> b \<and> b \<le> 0x7e \<or> b = 10 \<or> b = 13 \<or> b = 9 \<or> b = 8 \<or> b = 7 \<or> b = 0x1b"

section \<open>What the detector computes\<close>

text \<open>The verdict on every byte of a stream, independently of reads and windows: a byte that
  cannot start a sequence is bad, an ASCII byte is judged alone, and a multi-byte sequence is
  judged as a whole once it is complete. The second component is the unfinished sequence.\<close>

function verdicts :: "byte list \<Rightarrow> bool list \<times> byte list" where
  "verdicts [] = ([], [])"
| "verdicts (b # bs) =
     (case utf8_len b of
        None \<Rightarrow> apfst ((#) True) (verdicts bs)
      | Some n \<Rightarrow>
          if n = 1 then apfst ((#) (\<not> ascii_ok b)) (verdicts bs)
          else if length (b # bs) < n then ([], b # bs)
          else apfst ((@) (replicate n (\<not> list_all continuation_byte (tl (take n (b # bs))))))
                 (verdicts (drop n (b # bs))))"
  by pat_completeness auto
termination
  by (relation "measure length") (auto dest!: utf8_len_pos)

definition last_n :: "nat \<Rightarrow> 'a list \<Rightarrow> 'a list" where
  "last_n n xs = drop (length xs - n) xs"

lemma last_n_append: "last_n n (last_n n xs @ ys) = last_n n (xs @ ys)"
  by (cases "n \<le> length xs") (simp_all add: last_n_def add.commute)

lemma length_last_n [simp]: "length (last_n n xs) = min (length xs) n"
  by (simp add: last_n_def)

lemma set_last_n: "set (last_n n xs) \<subseteq> set xs"
  by (simp add: last_n_def set_drop_subset)

lemma verdicts_append:
  "verdicts (xs @ ys) =
     (fst (verdicts xs) @ fst (verdicts (snd (verdicts xs) @ ys)), snd (verdicts (snd (verdicts xs) @ ys)))"
proof (induction xs rule: verdicts.induct)
  case (2 b bs)
  show ?case
  proof (cases "utf8_len b")
    case None
    with 2 show ?thesis by (simp add: apfst_def map_prod_def split_beta)
  next
    case (Some n)
    consider "n = 1" | "n \<noteq> 1" "length (b # bs) < n" | "n \<noteq> 1" "n \<le> length (b # bs)" by linarith
    then show ?thesis
    proof cases
      case 1
      with Some 2 show ?thesis by (simp add: apfst_def map_prod_def split_beta)
    next
      case 2
      with Some show ?thesis by simp
    next
      case 3
      then have "take n ((b # bs) @ ys) = take n (b # bs)" "drop n ((b # bs) @ ys) = drop n (b # bs) @ ys"
        by (cases n; simp)+
      with 3 Some 2(3) [OF Some] show ?thesis
        by (simp add: apfst_def map_prod_def split_beta)
    qed
  qed
qed simp

text \<open>An unfinished sequence is shorter than its lead byte promises.\<close>

lemma verdicts_pending:
  "snd (verdicts xs) \<noteq> [] \<Longrightarrow>
   \<exists>n. utf8_len (hd (snd (verdicts xs))) = Some n \<and> length (snd (verdicts xs)) < n \<and> n \<noteq> 1"
  by (induction xs rule: verdicts.induct) (auto split: option.splits if_splits simp: Let_def)

lemma verdicts_incomplete:
  "p \<noteq> [] \<Longrightarrow> utf8_len (hd p) = Some n \<Longrightarrow> length p < n \<Longrightarrow> n \<noteq> 1 \<Longrightarrow> verdicts p = ([], p)"
  by (cases p) auto

section \<open>The detector implements it\<close>

definition gd_inv :: "byte list \<Rightarrow> GarbageDetector \<Rightarrow> bool" where
  "gd_inv xs g \<longleftrightarrow> gd_window g = last_n (gd_window_bytes g) (fst (verdicts xs)) \<and>
     gd_nonprintable g = length (filter (\<lambda>v. v) (gd_window g)) \<and> gd_pending g = snd (verdicts xs)"

lemma commit_one_window:
  assumes "length (gd_window g) \<le> gd_window_bytes g" and "gd_nonprintable g = length (filter (\<lambda>v. v) (gd_window g))"
  shows "gd_window (commit_one bad g) = last_n (gd_window_bytes g) (gd_window g @ [bad])"
    and "gd_nonprintable (commit_one bad g) = length (filter (\<lambda>v. v) (gd_window (commit_one bad g)))"
proof -
  show "gd_window (commit_one bad g) = last_n (gd_window_bytes g) (gd_window g @ [bad])"
  proof (cases "length (gd_window g) < gd_window_bytes g")
    case False
    then have "gd_window_bytes g = length (gd_window g)" using assms(1) by simp
    then show ?thesis by (cases "gd_window g") (simp_all add: commit_one_def last_n_def Let_def)
  qed (simp add: commit_one_def last_n_def Let_def)
  show "gd_nonprintable (commit_one bad g) = length (filter (\<lambda>v. v) (gd_window (commit_one bad g)))"
    using assms unfolding commit_one_def Let_def
    by (cases "gd_window g") auto
qed

lemma commit_one_frame [simp]:
  "gd_window_bytes (commit_one bad g) = gd_window_bytes g"
  "gd_threshold (commit_one bad g) = gd_threshold g"
  "gd_active (commit_one bad g) = gd_active g"
  "gd_pending (commit_one bad g) = gd_pending g"
  by (simp_all add: commit_one_def Let_def)

lemma commit_frame [simp]:
  "gd_window_bytes (commit g bad n) = gd_window_bytes g"
  "gd_threshold (commit g bad n) = gd_threshold g"
  "gd_active (commit g bad n) = gd_active g"
  "gd_pending (commit g bad n) = gd_pending g"
  unfolding commit_def by (induction n) auto

lemma commit_window:
  assumes "length (gd_window g) \<le> gd_window_bytes g" and "gd_nonprintable g = length (filter (\<lambda>v. v) (gd_window g))"
  shows "gd_window (commit g bad n) = last_n (gd_window_bytes g) (gd_window g @ replicate n bad) \<and>
    gd_nonprintable (commit g bad n) = length (filter (\<lambda>v. v) (gd_window (commit g bad n)))"
proof (induction n)
  case 0
  then show ?case using assms by (simp add: commit_def last_n_def)
next
  case (Suc n)
  let ?h = "commit g bad n"
  have "commit g bad (Suc n) = commit_one bad ?h" by (simp add: commit_def)
  moreover have "length (gd_window ?h) \<le> gd_window_bytes ?h"
    using Suc by simp
  moreover have "replicate (Suc n) bad = replicate n bad @ [bad]"
    by (simp add: replicate_append_same)
  ultimately show ?case
    using Suc commit_one_window [of ?h bad]
    by (simp add: last_n_append flip: append_assoc del: replicate_Suc)
qed

lemma verdicts_bounded: "length (last_n n (fst (verdicts xs))) \<le> n"
  by simp

lemma feed_byte_cases:
  assumes "gd_inv xs g"
  shows "feed_byte g b =
    (case verdicts (gd_pending g @ [b]) of
       ([], p) \<Rightarrow> g\<lparr> gd_pending := p \<rparr>
     | (v # vs, p) \<Rightarrow> (commit g v (Suc (length vs)))\<lparr> gd_pending := [] \<rparr>)"
    and "\<exists>v. set (fst (verdicts (gd_pending g @ [b]))) \<subseteq> {v}"
    and "fst (verdicts (gd_pending g @ [b])) \<noteq> [] \<longrightarrow> snd (verdicts (gd_pending g @ [b])) = []"
proof -
  let ?p = "gd_pending g @ [b]"
  have pend: "gd_pending g \<noteq> [] \<Longrightarrow>
      \<exists>n. utf8_len (hd (gd_pending g)) = Some n \<and> length (gd_pending g) < n \<and> n \<noteq> 1"
    using verdicts_pending [of xs] assms by (auto simp: gd_inv_def)
  obtain c cs where p: "?p = c # cs" by (cases ?p) auto
  consider (bad) "utf8_len c = None" "cs = []" | (ascii) "utf8_len c = Some 1" "cs = []"
    | (part) n where "utf8_len c = Some n" "n \<noteq> 1" "length (c # cs) < n"
    | (full) m where "utf8_len c = Some (Suc m)" "m \<noteq> 0" "length cs = m"
  proof (cases "utf8_len c")
    case None
    with pend p that(1) show ?thesis by (cases "gd_pending g") auto
  next
    case (Some n)
    with utf8_len_pos [OF Some] pend p that(2-4) show ?thesis
      by (cases "gd_pending g"; cases n) (auto, linarith+)
  qed
  note cases = this
  show "feed_byte g b =
    (case verdicts ?p of ([], p) \<Rightarrow> g\<lparr> gd_pending := p \<rparr>
     | (v # vs, p) \<Rightarrow> (commit g v (Suc (length vs)))\<lparr> gd_pending := [] \<rparr>)"
    unfolding feed_byte_def feed_work.simps Let_def p by (rule cases) simp_all
  show "\<exists>v. set (fst (verdicts ?p)) \<subseteq> {v}"
    unfolding p by (rule cases) (auto intro: exI [where x = True])
  show "fst (verdicts ?p) \<noteq> [] \<longrightarrow> snd (verdicts ?p) = []"
    unfolding p by (rule cases) simp_all
qed

lemma feed_byte_inv:
  assumes "gd_inv xs g"
  shows "gd_inv (xs @ [b]) (feed_byte g b)"
proof -
  let ?p = "gd_pending g @ [b]"
  note c = feed_byte_cases [OF assms, of b]
  have vs: "verdicts (xs @ [b]) = (fst (verdicts xs) @ fst (verdicts ?p), snd (verdicts ?p))"
    using assms verdicts_append [of xs "[b]"] by (simp add: gd_inv_def)
  have len: "length (gd_window g) \<le> gd_window_bytes g" using assms by (simp add: gd_inv_def)
  have np: "gd_nonprintable g = length (filter (\<lambda>v. v) (gd_window g))"
    using assms by (simp add: gd_inv_def)
  show ?thesis
  proof (cases "fst (verdicts ?p)")
    case Nil
    then obtain q where vp: "verdicts ?p = ([], q)" by (cases "verdicts ?p") simp
    from c(1) [unfolded vp] have "feed_byte g b = g\<lparr> gd_pending := snd (verdicts ?p) \<rparr>"
      by (simp add: vp)
    with Nil vs assms show ?thesis by (simp add: gd_inv_def)
  next
    case (Cons v ws)
    then have e: "snd (verdicts ?p) = []" using c(3) by simp
    have vp: "verdicts ?p = (v # ws, [])" using Cons e by (simp add: prod_eq_iff)
    from c(1) [unfolded vp] have f: "feed_byte g b = (commit g v (Suc (length ws)))\<lparr> gd_pending := [] \<rparr>"
      by simp
    have "v # ws = replicate (Suc (length ws)) v"
    proof -
      obtain u where "set (v # ws) \<subseteq> {u}" using c(2) unfolding Cons by blast
      then have "\<forall>y \<in> set (v # ws). y = v" by auto
      then show ?thesis using replicate_length_same [of "v # ws" v] by simp
    qed
    then have "gd_window (feed_byte g b) = last_n (gd_window_bytes g) (gd_window g @ v # ws)"
      "gd_nonprintable (feed_byte g b) = length (filter (\<lambda>v. v) (gd_window (feed_byte g b)))"
      using f np commit_window [OF len, of v "Suc (length ws)"] by simp_all
    moreover have "gd_window g @ v # ws = last_n (gd_window_bytes g) (fst (verdicts xs)) @ v # ws"
      using assms by (simp add: gd_inv_def)
    ultimately show ?thesis
      using f e vs Cons by (simp add: gd_inv_def last_n_append)
  qed
qed

lemma feed_bytes_inv: "gd_inv xs g \<Longrightarrow> gd_inv (xs @ ys) (foldl feed_byte g ys)"
proof (induction ys arbitrary: xs g)
  case (Cons y ys)
  from Cons.IH [OF feed_byte_inv [OF Cons.prems]] show ?case by simp
qed simp

text \<open>The settings of a detector never change while it runs.\<close>

lemma feed_work_frame:
  "gd_window_bytes (feed_work g bs) = gd_window_bytes g \<and> gd_threshold (feed_work g bs) = gd_threshold g \<and>
   gd_active (feed_work g bs) = gd_active g"
  by (induction g bs rule: feed_work.induct) (simp_all add: Let_def split: option.splits)

lemma feed_bytes_frame [simp]:
  "gd_window_bytes (foldl feed_byte g bs) = gd_window_bytes g"
  "gd_threshold (foldl feed_byte g bs) = gd_threshold g"
  "gd_active (foldl feed_byte g bs) = gd_active g"
  by (induction bs arbitrary: g) (simp_all add: feed_byte_def feed_work_frame del: feed_work.simps)

text \<open>The verdict of a detector with window \<open>w\<close> and threshold \<open>t\<close> that has seen a stream.\<close>

definition burst :: "nat \<Rightarrow> rat \<Rightarrow> byte list \<Rightarrow> bool" where
  "burst w t xs \<longleftrightarrow> (let vs = last_n w (fst (verdicts xs))
     in length vs = w \<and> of_nat (length (filter (\<lambda>v. v) vs)) \<ge> t * of_nat w)"

definition gd_run_inv :: "byte list \<Rightarrow> GarbageDetector \<Rightarrow> bool" where
  "gd_run_inv xs g \<longleftrightarrow> gd_inv xs g \<and> 0 < gd_window_bytes g \<and>
     gd_active g = burst (gd_window_bytes g) (gd_threshold g) xs"

lemma window_grows: "length (fst (verdicts xs)) \<le> length (fst (verdicts (xs @ ys)))"
  by (simp add: verdicts_append [of xs ys])

lemma gd_push_inv:
  assumes "gd_run_inv xs g"
  shows "gd_run_inv (xs @ ys) (snd (GarbageDetector_push g ys))"
proof -
  let ?h = "foldl feed_byte g ys"
  have inv: "gd_inv (xs @ ys) ?h" using assms by (simp add: gd_run_inv_def feed_bytes_inv)
  then have w: "gd_window ?h = last_n (gd_window_bytes g) (fst (verdicts (xs @ ys)))"
    and n: "gd_nonprintable ?h = length (filter (\<lambda>v. v) (gd_window ?h))"
    and p: "gd_pending ?h = snd (verdicts (xs @ ys))" by (simp_all add: gd_inv_def)
  have pos: "0 < gd_window_bytes g" using assms by (simp add: gd_run_inv_def)
  show ?thesis
  proof (cases "length (gd_window ?h) \<ge> gd_window_bytes g")
    case True
    with w have "length (gd_window ?h) = gd_window_bytes g" by simp
    with True w n p pos show ?thesis
      by (simp add: GarbageDetector_push_def Let_def gd_run_inv_def gd_inv_def burst_def
          pos_le_divide_eq)
  next
    case False
    with w have "length (fst (verdicts (xs @ ys))) < gd_window_bytes g" by simp
    with window_grows [of xs ys] have "\<not> burst (gd_window_bytes g) (gd_threshold g) xs"
      "\<not> burst (gd_window_bytes g) (gd_threshold g) (xs @ ys)"
      by (simp_all add: burst_def Let_def)
    with False w n p assms show ?thesis
      by (simp add: GarbageDetector_push_def Let_def gd_run_inv_def gd_inv_def)
  qed
qed

fun gd_run :: "GarbageDetector \<Rightarrow> byte list list \<Rightarrow> GarbageDetector" where
  "gd_run g [] = g"
| "gd_run g (c # cs) = gd_run (snd (GarbageDetector_push g c)) cs"

lemma gd_run_inv: "gd_run_inv xs g \<Longrightarrow> gd_run_inv (xs @ concat cs) (gd_run g cs)"
proof (induction cs arbitrary: xs g)
  case (Cons c cs)
  from Cons.IH [OF gd_push_inv [OF Cons.prems, of c]] show ?case by simp
qed simp

lemma gd_run_frame [simp]:
  "gd_window_bytes (gd_run g cs) = gd_window_bytes g" "gd_threshold (gd_run g cs) = gd_threshold g"
  by (induction cs arbitrary: g) (simp_all add: GarbageDetector_push_def Let_def)

lemma gd_new_inv: "gd_run_inv [] (GarbageDetector_new w t)"
  by (simp add: gd_run_inv_def gd_inv_def GarbageDetector_new_def last_n_def burst_def)

lemma gd_window_bytes_new [simp]: "gd_window_bytes (GarbageDetector_new w t) = max w 1"
  "gd_threshold (GarbageDetector_new w t) = t"
  by (simp_all add: GarbageDetector_new_def)

section \<open>Properties\<close>

text \<open>C10. The detector implements its specification on every stream and every chunking: after
  any sequence of reads the window holds the verdicts of the last bytes that have one, the
  counter is the number of bad ones among them, the pending bytes are the unfinished
  sequence, and a burst is claimed exactly when the window is full and the bad fraction
  reaches the threshold.\<close>

theorem garbage_detector_refines:
  "let g = gd_run (GarbageDetector_new w t) cs; vs = fst (verdicts (concat cs)) in
   gd_window g = last_n (max w 1) vs \<and>
   gd_nonprintable g = length (filter (\<lambda>v. v) (gd_window g)) \<and>
   gd_pending g = snd (verdicts (concat cs)) \<and>
   gd_active g = burst (max w 1) t (concat cs)"
  using gd_run_inv [OF gd_new_inv [of w t], of cs] by (simp add: gd_run_inv_def gd_inv_def)

lemma verdicts_ascii:
  "list_all ascii_ok xs \<Longrightarrow> list_all (\<lambda>b. b \<le> 0x7f) xs \<Longrightarrow> fst (verdicts xs) = replicate (length xs) False"
  by (induction xs) (auto simp: utf8_len_def)

lemma ascii_ok_low: "ascii_ok b \<Longrightarrow> b \<le> 0x7f"
  unfolding ascii_ok_def by (auto intro: order_trans)

text \<open>Ordinary console text never trips the detector: a stream of printable ASCII and the
  usual control characters, read in any chunks, is never a burst for a positive threshold.\<close>

theorem plain_text_is_not_garbage:
  assumes "list_all is_console_printable (concat cs)" and "0 < t"
  shows "\<not> gd_active (gd_run (GarbageDetector_new w t) cs)"
proof -
  have ok: "list_all ascii_ok (concat cs)"
    using assms(1) by (simp add: list_all_iff is_console_printable_def ascii_ok_def)
  then have "list_all (\<lambda>b. b \<le> 0x7f) (concat cs)"
    unfolding list_all_iff using ascii_ok_low by blast
  with ok have v: "fst (verdicts (concat cs)) = replicate (length (concat cs)) False"
    by (rule verdicts_ascii)
  then have "filter (\<lambda>v. v) (last_n n (fst (verdicts (concat cs)))) = []" for n
    using set_last_n [of n "fst (verdicts (concat cs))"] by (auto simp: filter_empty_conv)
  then have "\<not> burst (max w 1) t (concat cs)"
    using assms(2) by (simp add: burst_def Let_def not_le)
  then show ?thesis
    using gd_run_inv [OF gd_new_inv [of w t], of cs] by (simp add: gd_run_inv_def)
qed

theorem plain_text_is_not_garbage_witness:
  "\<not> gd_active (gd_run (GarbageDetector_new 4 (3/10)) [[104, 105], [13, 10, 27, 91]])"
  by (rule plain_text_is_not_garbage) (simp_all add: is_console_printable_def)

end
