(* ===== verification/Framer_Types.thy ===== *)
theory Framer_Types
  imports Generic
begin

text \<open>
  The framer's inputs, outputs and the conservation check
  (\<^verbatim>\<open>crates/conminer-core/src/framer/mod.rs\<close>). Line ids and timestamps are unbounded
  integers; the error messages of the check are replaced by one constructor per message.
\<close>

section \<open>Data\<close>

record FramerInput =
  fi_line_id :: int
  fi_text :: string
  fi_raw_len :: nat
  fi_ts_wall :: int
  fi_ts_mono :: int
  fi_garbage :: bool
  fi_binary :: bool

definition FramerInput_new :: "int \<Rightarrow> string \<Rightarrow> int \<Rightarrow> FramerInput" where
  "FramerInput_new line_id text ts_wall =
     \<lparr> fi_line_id = line_id, fi_text = text, fi_raw_len = length text, fi_ts_wall = ts_wall,
       fi_ts_mono = ts_wall * 1000000, fi_garbage = False, fi_binary = False \<rparr>"

record FramedRecord =
  fr_first_line_id :: int
  fr_last_line_id :: int
  fr_line_count :: int
  fr_kind :: RecordKind
  fr_severity :: Severity
  fr_profile :: string
  fr_stage :: "string option"
  fr_truncated :: bool
  fr_fields :: json_map
  fr_mine_key :: "string option"
  fr_text :: string

definition is_crash :: "FramedRecord \<Rightarrow> bool" where
  "is_crash r \<longleftrightarrow> fr_kind r = Crash"

record StageTransition =
  st_name :: string
  st_profile :: string
  st_banner_line_id :: int
  st_at :: int
  st_is_reset :: bool
  st_stage_changed :: bool

datatype FramerEvent = Record FramedRecord | Stage StageTransition

fun as_record :: "FramerEvent \<Rightarrow> FramedRecord option" where
  "as_record (Record r) = Some r"
| "as_record (Stage s) = None"

fun as_stage :: "FramerEvent \<Rightarrow> StageTransition option" where
  "as_stage (Stage s) = Some s"
| "as_stage (Record r) = None"

section \<open>The conservation check\<close>

datatype ConservationError =
    SpansBackwards | StartsAtUnknownLine | EndsAtUnknownLine | DoesNotTile | CoversTooMuch

text \<open>The hash map from ids to positions; for a repeated id the last position stays.\<close>

definition line_index :: "int list \<Rightarrow> int \<Rightarrow> nat option" where
  "line_index ids i =
     (let js = filter (\<lambda>j. ids ! j = i) [0..<length ids]
      in if js = [] then None else Some (last js))"

fun check_events :: "int list \<Rightarrow> nat \<Rightarrow> FramerEvent list \<Rightarrow> ConservationError + unit" where
  "check_events ids nxt [] = (if nxt > length ids then Inl CoversTooMuch else Inr ())"
| "check_events ids nxt (Stage s # es) = check_events ids nxt es"
| "check_events ids nxt (Record r # es) =
     (if fr_first_line_id r > fr_last_line_id r then Inl SpansBackwards
      else case line_index ids (fr_first_line_id r) of
             None \<Rightarrow> Inl StartsAtUnknownLine
           | Some start \<Rightarrow>
               (case line_index ids (fr_last_line_id r) of
                  None \<Rightarrow> Inl EndsAtUnknownLine
                | Some stop \<Rightarrow>
                    if start \<noteq> nxt then Inl DoesNotTile else check_events ids (stop + 1) es))"

definition check_conservation :: "int list \<Rightarrow> FramerEvent list \<Rightarrow> ConservationError + unit" where
  "check_conservation line_ids events = check_events line_ids 0 events"

section \<open>Tiling\<close>

text \<open>\<open>tiles ids es rest\<close>: the records among the events, in order, cover consecutive non-empty
  runs of the line ids, each with the right count, leaving \<open>rest\<close>.\<close>

definition record_covers :: "FramedRecord \<Rightarrow> int list \<Rightarrow> bool" where
  "record_covers r ids \<longleftrightarrow> ids \<noteq> [] \<and> fr_first_line_id r = hd ids \<and> fr_last_line_id r = last ids \<and>
     fr_line_count r = int (length ids)"

inductive tiles :: "int list \<Rightarrow> FramerEvent list \<Rightarrow> int list \<Rightarrow> bool" where
  tiles_Nil: "tiles rest [] rest"
| tiles_Stage: "tiles ids es rest \<Longrightarrow> tiles ids (Stage s # es) rest"
| tiles_Record: "record_covers r seg \<Longrightarrow> tiles ids es rest \<Longrightarrow> tiles (seg @ ids) (Record r # es) rest"

inductive_simps tiles_Nil_iff [simp]: "tiles ids [] rest"
inductive_simps tiles_Stage_iff [simp]: "tiles ids (Stage s # es) rest"
inductive_cases tiles_RecordE: "tiles ids (Record r # es) rest"

lemma tiles_append: "tiles ids es mid \<Longrightarrow> tiles mid es' rest \<Longrightarrow> tiles ids (es @ es') rest"
  by (induction rule: tiles.induct) (auto intro: tiles.intros)

lemma tiles_extend: "tiles ids es rest \<Longrightarrow> tiles (ids @ ext) es (rest @ ext)"
  by (induction rule: tiles.induct) (auto intro: tiles.intros)

lemma tiles_one: "record_covers r seg \<Longrightarrow> tiles seg [Record r] []"
  using tiles_Record [OF _ tiles_Nil, of r seg "[]"] by simp

lemma line_index_distinct:
  assumes "distinct ids" and "j < length ids"
  shows "line_index ids (ids ! j) = Some j"
proof -
  have "filter (\<lambda>k. ids ! k = ids ! j) [0..<length ids] = filter (\<lambda>k. k = j) [0..<length ids]"
    using assms by (intro filter_cong) (auto simp: nth_eq_iff_index_eq)
  also have "\<dots> = [j]"
    using assms(2) by (induction ids rule: rev_induct) (auto simp: less_Suc_eq)
  finally show ?thesis by (simp add: line_index_def Let_def)
qed

text \<open>Tiling is what the live assertion checks: events that tile an ascending sequence of ids
  pass it.\<close>

lemma tiles_check:
  assumes "tiles ids es rest" and "sorted_wrt (<) (pre @ ids)"
  shows "check_events (pre @ ids) (length pre) es = Inr ()"
  using assms
proof (induction arbitrary: pre rule: tiles.induct)
  case (tiles_Record r seg ids es rest)
  let ?all = "pre @ seg @ ids"
  have d: "distinct ?all" and s: "sorted_wrt (<) seg"
    using tiles_Record.prems strict_sorted_iff [of ?all] by (auto simp: sorted_wrt_append)
  have seg: "seg \<noteq> []" "fr_first_line_id r = hd seg" "fr_last_line_id r = last seg"
    using tiles_Record.hyps(1) by (simp_all add: record_covers_def)
  have fst_at: "hd seg = ?all ! length pre" and lst_at: "last seg = ?all ! (length pre + length seg - 1)"
    using seg(1) by (cases seg rule: rev_cases; simp add: nth_append hd_conv_nth)+
  have i1: "line_index ?all (hd seg) = Some (length pre)"
    unfolding fst_at using seg(1) by (intro line_index_distinct [OF d]) simp
  have i2: "line_index ?all (last seg) = Some (length pre + length seg - 1)"
    unfolding lst_at using seg(1) by (intro line_index_distinct [OF d]) (cases seg; simp)
  have "hd seg \<le> last seg"
    using s seg(1) by (cases seg) (auto simp: order.strict_implies_order)
  with seg i1 i2 tiles_Record.IH [of "pre @ seg"] tiles_Record.prems show ?case
    by (cases seg) simp_all
qed auto

lemma tiles_count:
  "tiles ids es rest \<Longrightarrow>
   int (length ids) = sum_list (map (\<lambda>e. case e of Record r \<Rightarrow> fr_line_count r | Stage s \<Rightarrow> 0) es) + int (length rest)"
  by (induction rule: tiles.induct) (auto simp: record_covers_def)

end
