(* ===== verification/Profile.thy ===== *)
theory Profile
  imports Framer_Types Drain_Token "HOL-Library.Product_Lexorder" "HOL-Library.Multiset"
begin

text \<open>
  Declarative framer profiles (\<^verbatim>\<open>crates/conminer-core/src/framer/profile.rs\<close>, first part): the
  schema, compilation, the matchers, the mining key, and the set of profiles kept in boot
  order. Compiling an expression is the crate function \<^verbatim>\<open>Regex::new\<close>, the argument
  \<open>regex_new\<close>; parsing TOML is the argument \<open>toml_parse\<close>. A byte order mark (code point
  U+FEFF) is outside the model's alphabet, so the step that strips one from the mining key
  is the identity here.
\<close>

section \<open>Schema\<close>

record SeverityRuleDef =
  srd_pattern :: string
  srd_level :: Severity

record TriggerDef =
  td_pattern :: string
  td_severity :: Severity
  td_kind :: RecordKind
  td_lookback :: bool

record StructuredLineDef =
  sld_pattern :: string
  sld_rewrite :: string

record VersionBannerDef =
  vbd_pattern :: string
  vbd_component :: string

record BannerDef =
  bd_pattern :: string
  bd_stage :: "string option"
  bd_rank :: "int option"

datatype PromptKind = Shell | Bootloader | RtosShell | Monitor | CredentialGate | Ignore

fun PromptKind_as_str :: "PromptKind \<Rightarrow> string" where
  "PromptKind_as_str Shell = ''shell''"
| "PromptKind_as_str Bootloader = ''bootloader''"
| "PromptKind_as_str RtosShell = ''rtos_shell''"
| "PromptKind_as_str Monitor = ''monitor''"
| "PromptKind_as_str CredentialGate = ''credential_gate''"
| "PromptKind_as_str Ignore = ''ignore''"

definition PromptKind_parse :: "string \<Rightarrow> PromptKind option" where
  "PromptKind_parse s =
     (if s = ''shell'' then Some Shell
      else if s = ''bootloader'' then Some Bootloader
      else if s = ''rtos_shell'' then Some RtosShell
      else if s = ''monitor'' then Some Monitor
      else if s = ''credential_gate'' then Some CredentialGate
      else if s = ''ignore'' then Some Ignore
      else None)"

fun is_commandable :: "PromptKind \<Rightarrow> bool" where
  "is_commandable CredentialGate = False"
| "is_commandable Ignore = False"
| "is_commandable _ = True"

record PromptDef =
  pd_pattern :: string
  pd_kind :: PromptKind

record ProfileDef =
  def_name :: string
  def_stage :: "string option"
  def_stage_rank :: int
  def_overlay :: bool
  def_overlay_match :: "string list"
  def_banners :: "BannerDef list"
  def_version_banners :: "VersionBannerDef list"
  def_structured_lines :: "StructuredLineDef list"
  def_reset_markers :: "string list"
  def_severity :: "SeverityRuleDef list"
  def_triggers :: "TriggerDef list"
  def_context :: "string list"
  def_backtrace_headers :: "string list"
  def_backtrace_frames :: "string list"
  def_terminators :: "string list"
  def_continuations :: "string list"
  def_lookback :: "string list"
  def_extract :: "(string, string) btree"
  def_mine_strip :: "string list"
  def_mine_resync :: "string option"
  def_prompts :: "PromptDef list"
  def_tokenizer :: TokenizerRules
  def_record_timeout_s :: "nat option"
  def_ansi_strip :: bool
  def_use_generic :: bool

section \<open>Compiled profiles\<close>

record StructuredLine =
  sl_re :: Regex
  sl_rewrite :: string

record VersionBanner =
  vb_re :: Regex
  vb_component :: string

record Banner =
  bn_re :: Regex
  bn_stage :: string
  bn_rank :: int

record Trigger =
  tg_re :: Regex
  tg_severity :: Severity
  tg_kind :: RecordKind
  tg_lookback :: bool

record SeverityRule =
  sr_re :: Regex
  sr_level :: Severity

record PromptPattern =
  pp_re :: Regex
  pp_raw :: string
  pp_kind :: PromptKind

record Profile =
  pf_name :: string
  pf_stage :: string
  pf_stage_rank :: int
  pf_overlay :: bool
  pf_banners :: "Banner list"
  pf_version_banners :: "VersionBanner list"
  pf_structured_lines :: "StructuredLine list"
  pf_overlay_match :: "Regex list"
  pf_reset_markers :: "Regex list"
  pf_severity :: "SeverityRule list"
  pf_triggers :: "Trigger list"
  pf_context :: "Regex list"
  pf_backtrace_headers :: "Regex list"
  pf_backtrace_frames :: "Regex list"
  pf_terminators :: "Regex list"
  pf_continuations :: "Regex list"
  pf_lookback :: "Regex list"
  pf_extract :: "(string \<times> Regex) list"
  pf_mine_strip :: "Regex list"
  pf_mine_resync :: "Regex option"
  pf_prompts :: "PromptPattern list"
  pf_tokenizer :: TokenizerRules
  pf_record_timeout_s :: "nat option"
  pf_ansi_strip :: bool
  pf_use_generic :: bool

text \<open>\<^verbatim>\<open>collect::<Result<_>>()\<close> and the question mark operator.\<close>

fun traverse :: "('a \<Rightarrow> 'e + 'b) \<Rightarrow> 'a list \<Rightarrow> 'e + 'b list" where
  "traverse f [] = Inr []"
| "traverse f (x # xs) =
     (case f x of Inl e \<Rightarrow> Inl e
      | Inr y \<Rightarrow> (case traverse f xs of Inl e \<Rightarrow> Inl e | Inr ys \<Rightarrow> Inr (y # ys)))"

fun try_bind :: "'e + 'a \<Rightarrow> ('a \<Rightarrow> 'e + 'b) \<Rightarrow> 'e + 'b" where
  "try_bind (Inl e) f = Inl e"
| "try_bind (Inr x) f = f x"

definition compile_one :: "(string \<Rightarrow> Regex option) \<Rightarrow> string \<Rightarrow> ErrorCode + Regex" where
  "compile_one regex_new p = (case regex_new p of Some re \<Rightarrow> Inr re | None \<Rightarrow> Inl InvalidConfig)"

definition compile_all :: "(string \<Rightarrow> Regex option) \<Rightarrow> string list \<Rightarrow> ErrorCode + Regex list" where
  "compile_all regex_new pats = traverse (compile_one regex_new) pats"

definition map_ok :: "('a \<Rightarrow> 'b) \<Rightarrow> 'e + 'a \<Rightarrow> 'e + 'b" where
  "map_ok f r = try_bind r (\<lambda>x. Inr (f x))"

definition Profile_compile :: "(string \<Rightarrow> Regex option) \<Rightarrow> ProfileDef \<Rightarrow> ErrorCode + Profile" where
  "Profile_compile regex_new def =
     (let name = def_name def;
          stage = (case def_stage def of Some s \<Rightarrow> s | None \<Rightarrow> name);
          one = compile_one regex_new; all = compile_all regex_new
      in
      try_bind (traverse (\<lambda>v. map_ok (\<lambda>re. \<lparr> sl_re = re, sl_rewrite = sld_rewrite v \<rparr>) (one (sld_pattern v)))
        (def_structured_lines def)) (\<lambda>structured.
      try_bind (traverse (\<lambda>v. map_ok (\<lambda>re. \<lparr> vb_re = re, vb_component = vbd_component v \<rparr>) (one (vbd_pattern v)))
        (def_version_banners def)) (\<lambda>versions.
      try_bind (traverse (\<lambda>b. map_ok (\<lambda>re. \<lparr> bn_re = re,
           bn_stage = (case bd_stage b of Some s \<Rightarrow> s | None \<Rightarrow> stage),
           bn_rank = (case bd_rank b of Some r \<Rightarrow> r | None \<Rightarrow> def_stage_rank def) \<rparr>) (one (bd_pattern b)))
        (def_banners def)) (\<lambda>banners.
      try_bind (all (def_overlay_match def)) (\<lambda>overlay_match.
      try_bind (all (def_reset_markers def)) (\<lambda>reset_markers.
      try_bind (traverse (\<lambda>s. map_ok (\<lambda>re. \<lparr> sr_re = re, sr_level = srd_level s \<rparr>) (one (srd_pattern s)))
        (def_severity def)) (\<lambda>severity.
      try_bind (traverse (\<lambda>t. map_ok (\<lambda>re. \<lparr> tg_re = re, tg_severity = td_severity t, tg_kind = td_kind t,
           tg_lookback = td_lookback t \<rparr>) (one (td_pattern t)))
        (def_triggers def)) (\<lambda>triggers.
      try_bind (all (def_context def)) (\<lambda>context.
      try_bind (all (def_backtrace_headers def)) (\<lambda>headers.
      try_bind (all (def_backtrace_frames def)) (\<lambda>frames.
      try_bind (all (def_terminators def)) (\<lambda>terminators.
      try_bind (all (def_continuations def)) (\<lambda>continuations.
      try_bind (all (def_lookback def)) (\<lambda>lookback.
      try_bind (traverse (\<lambda>(k, v). map_ok (\<lambda>re. (k, re)) (one v)) (def_extract def)) (\<lambda>extract.
      try_bind (all (def_mine_strip def)) (\<lambda>mine_strip.
      try_bind (case def_mine_resync def of
                  Some p \<Rightarrow> map_ok (\<lambda>rs. case rs of r # _ \<Rightarrow> Some r | [] \<Rightarrow> None) (all [p])
                | None \<Rightarrow> Inr None) (\<lambda>mine_resync.
      try_bind (traverse (\<lambda>p. map_ok (\<lambda>re. \<lparr> pp_re = re, pp_raw = pd_pattern p, pp_kind = pd_kind p \<rparr>)
          (one (pd_pattern p)))
        (def_prompts def)) (\<lambda>prompts.
      Inr \<lparr> pf_name = name, pf_stage = stage, pf_stage_rank = def_stage_rank def,
            pf_overlay = def_overlay def, pf_banners = banners, pf_version_banners = versions,
            pf_structured_lines = structured, pf_overlay_match = overlay_match,
            pf_reset_markers = reset_markers, pf_severity = severity, pf_triggers = triggers,
            pf_context = context, pf_backtrace_headers = headers, pf_backtrace_frames = frames,
            pf_terminators = terminators, pf_continuations = continuations, pf_lookback = lookback,
            pf_extract = extract, pf_mine_strip = mine_strip, pf_mine_resync = mine_resync,
            pf_prompts = prompts, pf_tokenizer = def_tokenizer def,
            pf_record_timeout_s = def_record_timeout_s def, pf_ansi_strip = def_ansi_strip def,
            pf_use_generic = def_use_generic def \<rparr>))))))))))))))))))"

definition Profile_from_toml ::
  "(string \<Rightarrow> Regex option) \<Rightarrow> (string \<Rightarrow> ProfileDef option) \<Rightarrow> string \<Rightarrow> ErrorCode + Profile" where
  "Profile_from_toml regex_new toml_parse s =
     (case toml_parse s of None \<Rightarrow> Inl InvalidConfig | Some def \<Rightarrow> Profile_compile regex_new def)"

section \<open>Rewriting and version banners\<close>

text \<open>\<^verbatim>\<open>StructuredLine::apply\<close>: every named group of the expression is substituted, in order.\<close>

definition StructuredLine_apply :: "StructuredLine \<Rightarrow> string \<Rightarrow> string option" where
  "StructuredLine_apply sl line =
     (case re_captures (sl_re sl) line of
        None \<Rightarrow> None
      | Some c \<Rightarrow>
          Some (foldl (\<lambda>out name. str_replace (''{'' @ name @ ''}'')
                   (trim (case cap_name c name of Some v \<Rightarrow> v | None \<Rightarrow> [])) out)
                 (sl_rewrite sl) (List.map_filter (\<lambda>n. n) (re_capture_names (sl_re sl)))))"

definition VersionBanner_extract :: "VersionBanner \<Rightarrow> string \<Rightarrow> (string \<times> json) option" where
  "VersionBanner_extract vb line =
     (case re_captures (vb_re vb) line of
        None \<Rightarrow> None
      | Some c \<Rightarrow>
          (case cap_name c ''version'' of
             None \<Rightarrow> None
           | Some raw \<Rightarrow>
               let version = trim raw
               in if version = [] then None
                  else Some (version,
                    JObj (foldl (\<lambda>detail key. case cap_name c key of
                                   Some m \<Rightarrow> jm_insert key (JStr (trim m)) detail
                                 | None \<Rightarrow> detail)
                           [] [''build_date'', ''builder'', ''build'', ''model'', ''name'']))))"

section \<open>Matchers\<close>

definition any_match :: "Regex list \<Rightarrow> string \<Rightarrow> bool" where
  "any_match rs text \<longleftrightarrow> list_ex (\<lambda>r. re_is_match r text) rs"

definition banner_stage :: "Profile \<Rightarrow> string \<Rightarrow> string option" where
  "banner_stage p text = map_option bn_stage (find (\<lambda>b. re_is_match (bn_re b) text) (pf_banners p))"

definition claims :: "Profile \<Rightarrow> string \<Rightarrow> bool" where
  "claims p text =
     (if pf_overlay_match p \<noteq> [] then any_match (pf_overlay_match p) text
      else banner_stage p text \<noteq> None)"

definition is_reset_marker :: "GenericRe \<Rightarrow> Profile \<Rightarrow> string \<Rightarrow> bool" where
  "is_reset_marker G p text \<longleftrightarrow>
     any_match (pf_reset_markers p) text \<or> pf_use_generic p \<and> generic_is_reset_marker G text"

definition trigger :: "Profile \<Rightarrow> string \<Rightarrow> Trigger option" where
  "trigger p text = find (\<lambda>t. re_is_match (tg_re t) text) (pf_triggers p)"

definition severity_of :: "GenericRe \<Rightarrow> Profile \<Rightarrow> string \<Rightarrow> Severity" where
  "severity_of G p text =
     (case find (\<lambda>r. re_is_match (sr_re r) text) (pf_severity p) of
        Some r \<Rightarrow> sr_level r
      | None \<Rightarrow> if pf_use_generic p then generic_severity G text else Unknown)"

definition is_context :: "GenericRe \<Rightarrow> Profile \<Rightarrow> string \<Rightarrow> bool" where
  "is_context G p text \<longleftrightarrow>
     any_match (pf_context p) text \<or> pf_use_generic p \<and> is_register_line G text"

definition is_backtrace_header :: "GenericRe \<Rightarrow> Profile \<Rightarrow> string \<Rightarrow> bool" where
  "is_backtrace_header G p text \<longleftrightarrow>
     any_match (pf_backtrace_headers p) text \<or> pf_use_generic p \<and> generic_is_backtrace_header G text"

definition is_backtrace_frame :: "GenericRe \<Rightarrow> Profile \<Rightarrow> string \<Rightarrow> bool" where
  "is_backtrace_frame G p text \<longleftrightarrow>
     any_match (pf_backtrace_frames p) text \<or> pf_use_generic p \<and> generic_is_backtrace_frame G text"

definition is_terminator :: "Profile \<Rightarrow> string \<Rightarrow> bool" where
  "is_terminator p text \<longleftrightarrow> any_match (pf_terminators p) text"

definition is_continuation :: "Profile \<Rightarrow> string \<Rightarrow> bool" where
  "is_continuation p text \<longleftrightarrow> any_match (pf_continuations p) text"

definition is_lookback :: "Profile \<Rightarrow> string \<Rightarrow> bool" where
  "is_lookback p text \<longleftrightarrow> any_match (pf_lookback p) text"

definition prompt_match :: "Profile \<Rightarrow> string \<Rightarrow> PromptPattern option" where
  "prompt_match p text = find (\<lambda>pp. re_is_match (pp_re pp) text) (pf_prompts p)"

definition first_some :: "'a option list \<Rightarrow> 'a option" where
  "first_some xs = (case find (\<lambda>x. x \<noteq> None) xs of Some v \<Rightarrow> v | None \<Rightarrow> None)"

definition extract_fields :: "Profile \<Rightarrow> string \<Rightarrow> json_map" where
  "extract_fields p text =
     foldl (\<lambda>out (field, re).
        case re_captures re text of
          None \<Rightarrow> out
        | Some c \<Rightarrow>
            (case first_some [cap_name c field, cap_get c 1, cap_get c 0] of
               Some v \<Rightarrow> jm_insert field (JStr v) out
             | None \<Rightarrow> out))
       [] (pf_extract p)"

section \<open>The mining key\<close>

definition profile_strip_ansi :: "GenericRe \<Rightarrow> string \<Rightarrow> string" where
  "profile_strip_ansi G s = re_replace_all (ANSI G) s []"

definition structured_key :: "Profile \<Rightarrow> string \<Rightarrow> string option" where
  "structured_key p s = first_some (map (\<lambda>r. StructuredLine_apply r s) (pf_structured_lines p))"

definition mine_key :: "GenericRe \<Rightarrow> Profile \<Rightarrow> string \<Rightarrow> string" where
  "mine_key G p text =
     (let s = (if pf_ansi_strip p then profile_strip_ansi G text else text);
          s = (case pf_mine_resync p of
                 None \<Rightarrow> s
               | Some re \<Rightarrow>
                   (case re_find re s of
                      None \<Rightarrow> s
                    | Some (start, stop) \<Rightarrow> if start > 0 then drop start s else s));
          s = foldl (\<lambda>s re. re_replace_all re s []) s (pf_mine_strip p);
          s = trim s
      in case structured_key p s of Some k \<Rightarrow> k | None \<Rightarrow> s)"

section \<open>Profile sets\<close>

type_synonym ProfileSet = "Profile list"

text \<open>Boot order: by rank, then by name.\<close>

definition boot_order :: "Profile \<Rightarrow> int \<times> string" where
  "boot_order p = (pf_stage_rank p, pf_name p)"

fun replace_or_push :: "Profile \<Rightarrow> ProfileSet \<Rightarrow> ProfileSet" where
  "replace_or_push p [] = [p]"
| "replace_or_push p (x # xs) = (if pf_name x = pf_name p then p # xs else x # replace_or_push p xs)"

definition ProfileSet_insert :: "Profile \<Rightarrow> ProfileSet \<Rightarrow> ProfileSet" where
  "ProfileSet_insert p ps = sort_key boot_order (replace_or_push p ps)"

definition ProfileSet_get :: "ProfileSet \<Rightarrow> string \<Rightarrow> Profile option" where
  "ProfileSet_get ps name = find (\<lambda>p. pf_name p = name) ps"

definition ProfileSet_require :: "ProfileSet \<Rightarrow> string \<Rightarrow> ErrorCode + Profile" where
  "ProfileSet_require ps name =
     (case ProfileSet_get ps name of Some p \<Rightarrow> Inr p | None \<Rightarrow> Inl InvalidArgument)"

definition ProfileSet_names :: "ProfileSet \<Rightarrow> string list" where
  "ProfileSet_names ps = map pf_name ps"

definition ProfileSet_detectors :: "ProfileSet \<Rightarrow> Profile list" where
  "ProfileSet_detectors ps = filter (\<lambda>p. pf_name p \<noteq> ''raw'') ps"

text \<open>Loading the embedded profiles: a broken one is an internal error.\<close>

fun insert_parsed :: "ErrorCode \<Rightarrow> (ErrorCode + Profile) list \<Rightarrow> ProfileSet \<Rightarrow> ErrorCode + ProfileSet" where
  "insert_parsed code [] ps = Inr ps"
| "insert_parsed code (r # rs) ps =
     (case r of Inl e \<Rightarrow> Inl code | Inr p \<Rightarrow> insert_parsed code rs (ProfileSet_insert p ps))"

definition ProfileSet_builtin ::
  "(string \<Rightarrow> ErrorCode + Profile) \<Rightarrow> (string \<times> string) list \<Rightarrow> ErrorCode + ProfileSet" where
  "ProfileSet_builtin from_toml builtins = insert_parsed Internal (map (from_toml \<circ> snd) builtins) []"

text \<open>Loading a directory on top: the \<^verbatim>\<open>.toml\<close> files in path order, given with their contents,
  or no directory.\<close>

fun insert_files ::
  "(string \<Rightarrow> ErrorCode + Profile) \<Rightarrow> (string \<times> (ErrorCode + string)) list \<Rightarrow> ProfileSet \<Rightarrow> ErrorCode + ProfileSet" where
  "insert_files from_toml [] ps = Inr ps"
| "insert_files from_toml ((path, content) # fs) ps =
     (case content of
        Inl e \<Rightarrow> Inl e
      | Inr text \<Rightarrow>
          (case from_toml text of
             Inl e \<Rightarrow> Inl InvalidConfig
           | Inr p \<Rightarrow> insert_files from_toml fs (ProfileSet_insert p ps)))"

definition ProfileSet_load ::
  "(string \<Rightarrow> ErrorCode + Profile) \<Rightarrow> (string \<times> string) list \<Rightarrow>
   (string \<times> (ErrorCode + string)) list option \<Rightarrow> ErrorCode + ProfileSet" where
  "ProfileSet_load from_toml builtins dir =
     try_bind (ProfileSet_builtin from_toml builtins) (\<lambda>ps.
       case dir of None \<Rightarrow> Inr ps | Some entries \<Rightarrow> insert_files from_toml (sort_key fst entries) ps)"

section \<open>Registries by name\<close>

text \<open>What a client of a set of named values relies on: insertion replaces the value of the
  same name and leaves every other name alone.\<close>

locale named_registry =
  fixes name :: "'p \<Rightarrow> 'k"
    and wf :: "'s \<Rightarrow> bool"
    and empty :: 's
    and get :: "'s \<Rightarrow> 'k \<Rightarrow> 'p option"
    and ins :: "'p \<Rightarrow> 's \<Rightarrow> 's"
  assumes wf_empty: "wf empty"
    and wf_ins: "wf s \<Longrightarrow> wf (ins p s)"
    and get_empty: "get empty k = None"
    and get_ins: "wf s \<Longrightarrow> get (ins p s) k = (if k = name p then Some p else get s k)"
begin

definition ins_all :: "'p list \<Rightarrow> 's \<Rightarrow> 's" where
  "ins_all ps s = foldl (\<lambda>s p. ins p s) s ps"

lemma wf_ins_all: "wf s \<Longrightarrow> wf (ins_all ps s)"
  unfolding ins_all_def by (induction ps arbitrary: s) (simp_all add: wf_ins)

text \<open>The last value inserted under a name is the one that is found.\<close>

lemma get_ins_all:
  "wf s \<Longrightarrow> get (ins_all ps s) k = (case find (\<lambda>p. name p = k) (rev ps) of Some p \<Rightarrow> Some p | None \<Rightarrow> get s k)"
proof (induction ps arbitrary: s)
  case (Cons p ps)
  have "find Q (xs @ ys) = (case find Q xs of Some x \<Rightarrow> Some x | None \<Rightarrow> find Q ys)" for Q and xs ys :: "'p list"
    by (induction xs) auto
  with Cons.IH [OF wf_ins [OF Cons.prems]] show ?case
    using Cons.prems by (auto simp: ins_all_def get_ins split: option.splits)
qed (simp add: ins_all_def)

end

definition set_wf :: "ProfileSet \<Rightarrow> bool" where
  "set_wf ps \<longleftrightarrow> distinct (map pf_name ps) \<and> sorted (map boot_order ps)"

lemma names_replace: "set (map pf_name (replace_or_push p ps)) = insert (pf_name p) (set (map pf_name ps))"
  by (induction ps) auto

lemma distinct_replace: "distinct (map pf_name ps) \<Longrightarrow> distinct (map pf_name (replace_or_push p ps))"
proof (induction ps)
  case (Cons x xs)
  then show ?case using names_replace [of p xs] by auto
qed simp

lemma find_name_unique:
  "distinct (map pf_name ps) \<Longrightarrow> find (\<lambda>q. pf_name q = n) ps = Some q \<longleftrightarrow> q \<in> set ps \<and> pf_name q = n"
  by (induction ps) auto

lemma find_same_set:
  assumes "distinct (map pf_name ps)" "distinct (map pf_name qs)" "set ps = set qs"
  shows "find (\<lambda>q. pf_name q = n) ps = find (\<lambda>q. pf_name q = n) qs"
  using find_name_unique [OF assms(1), of n] find_name_unique [OF assms(2), of n] assms(3)
  by (cases "find (\<lambda>q. pf_name q = n) ps"; cases "find (\<lambda>q. pf_name q = n) qs") auto

lemma find_replace:
  "find (\<lambda>q. pf_name q = n) (replace_or_push p ps) = (if n = pf_name p then Some p else find (\<lambda>q. pf_name q = n) ps)"
  by (induction ps) auto

lemma distinct_map_sort: "distinct (map pf_name (sort_key f ps)) = distinct (map pf_name ps)"
proof -
  have "mset (map pf_name (sort_key f ps)) = mset (map pf_name ps)" by simp
  then show ?thesis by (rule mset_eq_imp_distinct_iff)
qed

lemma ProfileSet_insert_wf: "distinct (map pf_name ps) \<Longrightarrow> set_wf (ProfileSet_insert p ps)"
  by (simp add: set_wf_def ProfileSet_insert_def distinct_map_sort distinct_replace)

interpretation profiles: named_registry pf_name set_wf "[]" ProfileSet_get ProfileSet_insert
proof unfold_locales
  fix ps :: ProfileSet and p n
  assume wf: "set_wf ps"
  then show "set_wf (ProfileSet_insert p ps)" by (simp add: set_wf_def [of ps] ProfileSet_insert_wf)
  have d: "distinct (map pf_name (replace_or_push p ps))"
    using wf by (simp add: set_wf_def distinct_replace)
  have "ProfileSet_get (ProfileSet_insert p ps) n = find (\<lambda>q. pf_name q = n) (replace_or_push p ps)"
    unfolding ProfileSet_get_def ProfileSet_insert_def
    by (rule find_same_set) (use d in \<open>simp_all add: distinct_map_sort\<close>)
  then show "ProfileSet_get (ProfileSet_insert p ps) n = (if n = pf_name p then Some p else ProfileSet_get ps n)"
    by (simp add: find_replace ProfileSet_get_def)
qed (simp_all add: set_wf_def ProfileSet_get_def)

lemma insert_parsed_all:
  "insert_parsed code rs ps = Inr qs \<Longrightarrow> list_all (\<lambda>r. \<not> isl r) rs \<and> qs = profiles.ins_all (map projr rs) ps"
  by (induction code rs ps rule: insert_parsed.induct) (auto simp: profiles.ins_all_def split: sum.splits)

lemma insert_files_all:
  "insert_files from_toml fs ps = Inr qs \<Longrightarrow>
   qs = profiles.ins_all (map (projr \<circ> from_toml \<circ> projr \<circ> snd) fs) ps"
  by (induction from_toml fs ps rule: insert_files.induct) (auto simp: profiles.ins_all_def split: sum.splits)

lemma ins_all_append: "profiles.ins_all (ps @ qs) s = profiles.ins_all qs (profiles.ins_all ps s)"
  by (simp add: profiles.ins_all_def)

section \<open>Compilation errors\<close>

lemma isl_try_bind: "isl (try_bind r f) \<longleftrightarrow> isl r \<or> isl (f (projr r))"
  by (cases r) auto

lemma isl_traverse: "isl (traverse f xs) \<longleftrightarrow> list_ex (\<lambda>x. isl (f x)) xs"
  by (induction xs) (auto split: sum.splits)

lemma isl_map_ok: "isl (map_ok f r) \<longleftrightarrow> isl r"
  by (cases r) (auto simp: map_ok_def)

lemma isl_compile_one: "isl (compile_one rn p) \<longleftrightarrow> rn p = None"
  by (auto simp: compile_one_def split: option.splits)

definition only_config_error :: "ErrorCode + 'a \<Rightarrow> bool" where
  "only_config_error r \<longleftrightarrow> (case r of Inl e \<Rightarrow> e = InvalidConfig | Inr _ \<Rightarrow> True)"

lemma only_config_error_traverse: "(\<And>x. only_config_error (g x)) \<Longrightarrow> only_config_error (traverse g xs)"
proof (induction xs)
  case (Cons x xs)
  from Cons.IH [OF Cons.prems] Cons.prems [of x] show ?case
    by (auto simp: only_config_error_def split: sum.splits)
qed (simp add: only_config_error_def)

lemma only_config_error_one: "only_config_error (compile_one rn p)"
  by (simp add: only_config_error_def compile_one_def split: option.splits)

lemma only_config_error_all: "only_config_error (compile_all rn pats)"
  unfolding compile_all_def by (rule only_config_error_traverse) (rule only_config_error_one)

lemma only_config_error_bind:
  "only_config_error r \<Longrightarrow> (\<And>x. only_config_error (f x)) \<Longrightarrow> only_config_error (try_bind r f)"
  by (cases r) (simp_all add: only_config_error_def)

lemma only_config_error_map: "only_config_error q \<Longrightarrow> only_config_error (map_ok h q)"
  by (cases q) (simp_all add: only_config_error_def map_ok_def)

lemma only_config_error_ok: "only_config_error (Inr x)"
  by (simp add: only_config_error_def)

lemmas only_config_error_intros = only_config_error_traverse only_config_error_one only_config_error_all
  only_config_error_bind only_config_error_map only_config_error_ok

text \<open>Every expression a profile definition carries.\<close>

definition def_patterns :: "ProfileDef \<Rightarrow> string list" where
  "def_patterns def = map sld_pattern (def_structured_lines def) @ map vbd_pattern (def_version_banners def) @
     map bd_pattern (def_banners def) @ def_overlay_match def @ def_reset_markers def @
     map srd_pattern (def_severity def) @ map td_pattern (def_triggers def) @ def_context def @
     def_backtrace_headers def @ def_backtrace_frames def @ def_terminators def @ def_continuations def @
     def_lookback def @ map snd (def_extract def) @ def_mine_strip def @
     (case def_mine_resync def of Some p \<Rightarrow> [p] | None \<Rightarrow> []) @ map pd_pattern (def_prompts def)"

lemma list_ex_map: "list_ex P (map f xs) = list_ex (\<lambda>x. P (f x)) xs"
  by (induction xs) simp_all

lemma list_ex_snd: "list_ex (\<lambda>(k, v). P v) xs = list_ex (\<lambda>x. P (snd x)) xs"
  by (induction xs) auto

section \<open>Properties\<close>

text \<open>A profile compiles exactly when every expression in it does, and the only error is
  an invalid configuration.\<close>

lemma profile_compile_errors:
  "isl (Profile_compile regex_new def) = list_ex (\<lambda>p. regex_new p = None) (def_patterns def) \<and>
   only_config_error (Profile_compile regex_new def)"
proof
  show "isl (Profile_compile regex_new def) = list_ex (\<lambda>p. regex_new p = None) (def_patterns def)"
    unfolding Profile_compile_def Let_def def_patterns_def isl_try_bind
    by (simp add: isl_traverse isl_map_ok isl_compile_one compile_all_def list_ex_map case_prod_unfold
        split: option.splits del: traverse.simps)
  show "only_config_error (Profile_compile regex_new def)"
    unfolding Profile_compile_def Let_def
    by (intro only_config_error_intros) (auto intro!: only_config_error_intros split: option.splits)
qed

text \<open>A file may replace a built-in by using its name: after a successful load the profile
  found under a name is the last one loaded with that name, names are unique, and the
  profiles are in boot order.\<close>

theorem profile_load_last_wins:
  assumes "ProfileSet_load from_toml builtins (Some entries) = Inr ps"
  shows "ProfileSet_get ps n = find (\<lambda>p. pf_name p = n)
      (rev (map (projr \<circ> from_toml \<circ> snd) builtins @ map (projr \<circ> from_toml \<circ> projr \<circ> snd) (sort_key fst entries)))
    \<and> distinct (ProfileSet_names ps) \<and> sorted (map boot_order ps)"
proof -
  let ?P = "map (projr \<circ> from_toml \<circ> snd) builtins" and ?Q = "map (projr \<circ> from_toml \<circ> projr \<circ> snd) (sort_key fst entries)"
  from assms obtain qs where b: "ProfileSet_builtin from_toml builtins = Inr qs"
    and f: "insert_files from_toml (sort_key fst entries) qs = Inr ps"
    by (cases "ProfileSet_builtin from_toml builtins") (auto simp: ProfileSet_load_def)
  from b have "qs = profiles.ins_all ?P []"
    using insert_parsed_all [of Internal "map (from_toml \<circ> snd) builtins" "[]" qs]
    by (simp add: ProfileSet_builtin_def comp_def)
  with insert_files_all [OF f] have ps: "ps = profiles.ins_all (?P @ ?Q) []"
    by (simp add: ins_all_append)
  have "set_wf ps" unfolding ps by (rule profiles.wf_ins_all [OF profiles.wf_empty])
  moreover have "ProfileSet_get ps n = find (\<lambda>p. pf_name p = n) (rev (?P @ ?Q))"
    unfolding ps profiles.get_ins_all [OF profiles.wf_empty]
    by (simp add: ProfileSet_get_def [of "[]"] split: option.splits)
  ultimately show ?thesis by (simp add: set_wf_def ProfileSet_names_def)
qed

text \<open>A small definition with one trigger expression, for evaluation.\<close>

definition sample_regex :: "string \<Rightarrow> Regex" where
  "sample_regex pat = \<lparr> re_is_match = str_contains pat, re_find = (\<lambda>s. None),
     re_count = (\<lambda>s. if str_contains pat s then 1 else 0), re_captures = (\<lambda>s. None),
     re_capture_names = [], re_replace_all = (\<lambda>s r. str_replace pat r s) \<rparr>"

definition sample_def :: "string \<Rightarrow> int \<Rightarrow> string list \<Rightarrow> ProfileDef" where
  "sample_def name rank trigs = \<lparr> def_name = name, def_stage = None, def_stage_rank = rank, def_overlay = False,
     def_overlay_match = [], def_banners = [], def_version_banners = [], def_structured_lines = [],
     def_reset_markers = [], def_severity = [],
     def_triggers = map (\<lambda>t. \<lparr> td_pattern = t, td_severity = Crit, td_kind = Crash, td_lookback = False \<rparr>) trigs,
     def_context = [], def_backtrace_headers = [], def_backtrace_frames = [], def_terminators = [],
     def_continuations = [], def_lookback = [], def_extract = [], def_mine_strip = [], def_mine_resync = None,
     def_prompts = [], def_tokenizer = TokenizerRules_default, def_record_timeout_s = None,
     def_ansi_strip = False, def_use_generic = False \<rparr>"

definition sample_profile :: "string \<Rightarrow> int \<Rightarrow> string list \<Rightarrow> Profile" where
  "sample_profile name rank trigs = projr (Profile_compile (Some \<circ> sample_regex) (sample_def name rank trigs))"

theorem profile_load_last_wins_witness:
  "ProfileSet_get [sample_profile ''raw'' 5 [''panic'']] ''raw'' = Some (sample_profile ''raw'' 5 [''panic''])"
  using profile_load_last_wins [of "\<lambda>t. Inr (sample_profile ''raw'' (int (length t)) [''panic''])"
      "[(''raw'', ''abc'')]" "[(''raw.toml'', Inr ''hello'')]" "[sample_profile ''raw'' 5 [''panic'']]" "''raw''"]
  by (simp add: ProfileSet_load_def ProfileSet_builtin_def ProfileSet_insert_def sample_profile_def
      Profile_compile_def sample_def_def compile_one_def compile_all_def Let_def map_ok_def)

end
