(* ===== verification/Stage.thy ===== *)
theory Stage
  imports Profile
begin

text \<open>
  Boot-stage tracking (\<^verbatim>\<open>crates/conminer-core/src/framer/stage.rs\<close>): banners switch the active
  profile, and a banner that goes back in boot order, or repeats at the start of an epoch, is
  a reset. The set of fired banners is a list without repetitions, used only for membership.
\<close>

section \<open>The machine\<close>

record StageMachine =
  sm_set :: ProfileSet
  sm_pinned :: "Profile option"
  sm_active :: Profile
  sm_stage :: string
  sm_min_rank_seen :: "int option"
  sm_current_rank :: "int option"
  sm_seen_banners :: "(string \<times> nat) list"
  sm_visited :: "string list"

definition StageMachine_new :: "ProfileSet \<Rightarrow> string option \<Rightarrow> ErrorCode + StageMachine" where
  "StageMachine_new ps pinned =
     try_bind (case pinned of Some name \<Rightarrow> map_ok Some (ProfileSet_require ps name) | None \<Rightarrow> Inr None) (\<lambda>pin.
     try_bind (case pin of Some p \<Rightarrow> Inr p | None \<Rightarrow> ProfileSet_require ps ''raw'') (\<lambda>active.
     Inr \<lparr> sm_set = ps, sm_pinned = pin, sm_active = active, sm_stage = pf_stage active,
           sm_min_rank_seen = None, sm_current_rank = None, sm_seen_banners = [], sm_visited = [] \<rparr>))"

definition begin_epoch :: "StageMachine \<Rightarrow> int \<Rightarrow> string \<Rightarrow> StageMachine" where
  "begin_epoch m rank stage =
     m\<lparr> sm_min_rank_seen := Some rank, sm_current_rank := Some rank, sm_seen_banners := [],
        sm_visited := [stage] \<rparr>"

text \<open>The first banner of a profile that matches, with its position.\<close>

fun banner_position :: "nat \<Rightarrow> Banner list \<Rightarrow> string \<Rightarrow> (nat \<times> Banner) option" where
  "banner_position i [] text = None"
| "banner_position i (b # bs) text =
     (if re_is_match (bn_re b) text then Some (i, b) else banner_position (Suc i) bs text)"

fun find_banner :: "Profile list \<Rightarrow> string \<Rightarrow> (Profile \<times> nat \<times> Banner) option" where
  "find_banner [] text = None"
| "find_banner (p # ps) text =
     (case banner_position 0 (pf_banners p) text of
        Some (i, b) \<Rightarrow> Some (p, i, b)
      | None \<Rightarrow> find_banner ps text)"

definition banner_hit :: "StageMachine \<Rightarrow> string \<Rightarrow> (Profile \<times> nat \<times> Banner) option" where
  "banner_hit m text = find_banner (filter (\<lambda>p. \<not> pf_overlay p) (ProfileSet_detectors (sm_set m))) text"

text \<open>The body of the banner branch: whether the banner means a reset, and the machine after it.\<close>

definition banner_is_reset :: "StageMachine \<Rightarrow> string \<times> nat \<Rightarrow> int \<Rightarrow> bool" where
  "banner_is_reset m key rank =
     (let went_backwards = (case sm_current_rank m of Some cur \<Rightarrow> rank < cur | None \<Rightarrow> False);
          repeated = ((case sm_min_rank_seen m of Some mn \<Rightarrow> rank \<le> mn | None \<Rightarrow> False)
                      \<and> key \<in> set (sm_seen_banners m))
      in went_backwards \<or> repeated)"

definition enter_banner :: "StageMachine \<Rightarrow> Profile \<Rightarrow> nat \<Rightarrow> Banner \<Rightarrow> StageMachine" where
  "enter_banner m profile i b =
     (let key = (pf_name profile, i); stage = bn_stage b; rank = bn_rank b;
          m = (if banner_is_reset m key rank then begin_epoch m rank stage
               else m\<lparr> sm_min_rank_seen := Some (case sm_min_rank_seen m of Some mn \<Rightarrow> min mn rank | None \<Rightarrow> rank),
                       sm_visited := (if stage \<in> set (sm_visited m) then sm_visited m
                                      else sm_visited m @ [stage]) \<rparr>)
      in m\<lparr> sm_seen_banners := List.insert key (sm_seen_banners m), sm_active := profile,
            sm_stage := stage, sm_current_rank := Some rank \<rparr>)"

definition observe ::
  "GenericRe \<Rightarrow> StageMachine \<Rightarrow> string \<Rightarrow> int \<Rightarrow> int \<Rightarrow> StageTransition option \<times> StageMachine" where
  "observe G m text line_id ts =
     (case sm_pinned m of
        Some p \<Rightarrow>
          if is_reset_marker G p text
          then (Some \<lparr> st_name = sm_stage m, st_profile = pf_name p, st_banner_line_id = line_id,
                       st_at = ts, st_is_reset = True, st_stage_changed = False \<rparr>,
                begin_epoch m (pf_stage_rank p) (pf_stage p))
          else (None, m)
      | None \<Rightarrow>
          (case banner_hit m text of
             Some (profile, i, b) \<Rightarrow>
               let is_reset = banner_is_reset m (pf_name profile, i) (bn_rank b);
                   stage_changed = (bn_stage b \<noteq> sm_stage m);
                   m' = enter_banner m profile i b
               in if \<not> is_reset \<and> \<not> stage_changed then (None, m')
                  else (Some \<lparr> st_name = bn_stage b, st_profile = pf_name profile,
                               st_banner_line_id = line_id, st_at = ts, st_is_reset = is_reset,
                               st_stage_changed = stage_changed \<rparr>, m')
           | None \<Rightarrow>
               if is_reset_marker G (sm_active m) text
               then let rank = (case sm_current_rank m of Some r \<Rightarrow> r | None \<Rightarrow> pf_stage_rank (sm_active m))
                    in (Some \<lparr> st_name = sm_stage m, st_profile = pf_name (sm_active m),
                               st_banner_line_id = line_id, st_at = ts, st_is_reset = True,
                               st_stage_changed = False \<rparr>,
                        begin_epoch m rank (pf_stage (sm_active m)))
               else (None, m)))"

section \<open>Reachable machines\<close>

text \<open>A machine that has observed a sequence of lines since it was created.\<close>

inductive stage_reach :: "GenericRe \<Rightarrow> StageMachine \<Rightarrow> StageMachine \<Rightarrow> bool" for G m0 where
  start: "stage_reach G m0 m0"
| step: "stage_reach G m0 m \<Longrightarrow> stage_reach G m0 (snd (observe G m text i ts))"

definition rank_inv :: "StageMachine \<Rightarrow> bool" where
  "rank_inv m \<longleftrightarrow> (case (sm_min_rank_seen m, sm_current_rank m) of
     (None, None) \<Rightarrow> sm_seen_banners m = [] \<and> sm_visited m = []
   | (Some mn, Some cur) \<Rightarrow> mn \<le> cur \<and> sm_visited m \<noteq> []
   | _ \<Rightarrow> False) \<and> distinct (sm_visited m) \<and> distinct (sm_seen_banners m)"

lemma begin_epoch_inv: "rank_inv (begin_epoch m rank stage)"
  by (simp add: rank_inv_def begin_epoch_def)

lemma enter_banner_inv: "rank_inv m \<Longrightarrow> rank_inv (enter_banner m p i b)"
  by (auto simp: rank_inv_def enter_banner_def Let_def begin_epoch_def split: option.splits)

lemma observe_inv: "rank_inv m \<Longrightarrow> rank_inv (snd (observe G m text i ts))"
  by (auto simp: observe_def Let_def begin_epoch_inv enter_banner_inv split: option.splits)

lemma reach_rank_inv: "stage_reach G m0 m \<Longrightarrow> rank_inv m0 \<Longrightarrow> rank_inv m"
  by (induction rule: stage_reach.induct) (simp_all add: observe_inv)

lemma new_rank_inv: "StageMachine_new ps pin = Inr m \<Longrightarrow> rank_inv m"
  by (auto simp: StageMachine_new_def ProfileSet_require_def map_ok_def rank_inv_def split: option.splits)

lemma observe_set [simp]: "sm_set (snd (observe G m text i ts)) = sm_set m" "sm_pinned (snd (observe G m text i ts)) = sm_pinned m"
  by (auto simp: observe_def Let_def begin_epoch_def enter_banner_def split: option.splits)

lemma reach_pinned:
  "stage_reach G m0 m \<Longrightarrow> sm_pinned m0 = Some p \<Longrightarrow>
   sm_pinned m = Some p \<and> sm_active m = sm_active m0 \<and> sm_stage m = sm_stage m0"
proof (induction rule: stage_reach.induct)
  case (step m l i ts)
  then show ?case by (simp add: observe_def begin_epoch_def)
qed simp

section \<open>A small concrete machine\<close>

definition sample_generic :: GenericRe where
  "sample_generic = (let r = sample_regex ''rebooting'' in
     \<lparr> SEVERITY_FATAL = sample_regex ''panic'', SEVERITY_ERROR = sample_regex ''error'',
       SEVERITY_WARN = sample_regex ''warn'', SEVERITY_NOTICE = sample_regex ''NOTICE:'',
       SEVERITY_INFO = sample_regex ''INFO:'', SEVERITY_DEBUG = sample_regex ''DEBUG:'',
       REGISTER_PAIR = sample_regex ''pc='', BACKTRACE_HDR = sample_regex ''Backtrace:'',
       BACKTRACE_FRAME = sample_regex ''+0x'', RESET_MARKER = r, WATCHDOG = sample_regex ''watchdog'',
       KEY_VALUE_RUN = sample_regex ''='', EXPLICIT_PRIORITY = sample_regex ''<'', ANSI = sample_regex [ESC] \<rparr>)"

definition sample_boot :: Profile where
  "sample_boot = (sample_profile ''uboot'' 20 [''panic''])
     \<lparr> pf_banners := [\<lparr> bn_re = sample_regex ''U-Boot'', bn_stage = ''uboot'', bn_rank = 20 \<rparr>] \<rparr>"

definition sample_set :: ProfileSet where
  "sample_set = [sample_boot, sample_profile ''raw'' 100 []]"

definition sample_machine :: "string option \<Rightarrow> StageMachine" where
  "sample_machine pin = projr (StageMachine_new sample_set pin)"

lemmas sample_defs = sample_machine_def sample_set_def sample_boot_def sample_profile_def sample_def_def
  sample_regex_def sample_generic_def StageMachine_new_def ProfileSet_require_def ProfileSet_get_def map_ok_def
  Profile_compile_def compile_one_def compile_all_def ProfileSet_detectors_def banner_hit_def Let_def

lemma sample_machine_new: "StageMachine_new sample_set None = Inr (sample_machine None)"
  "StageMachine_new sample_set (Some ''uboot'') = Inr (sample_machine (Some ''uboot''))"
  by (simp_all add: sample_defs)

section \<open>Properties\<close>

text \<open>The rank bookkeeping is consistent in every reachable machine: the earliest rank of
  the epoch is at most the current rank, both are set together, no stage is listed twice as
  visited, and a machine with no rank yet has fired no banner.\<close>

theorem stage_ranks_consistent:
  "StageMachine_new ps pin = Inr m0 \<Longrightarrow> stage_reach G m0 m \<Longrightarrow> rank_inv m"
  using new_rank_inv reach_rank_inv by blast

theorem stage_ranks_consistent_witness:
  "rank_inv (snd (observe sample_generic (sample_machine None) ''U-Boot 2024.01'' 1 0))"
  by (rule stage_ranks_consistent [OF sample_machine_new(1) stage_reach.step [OF stage_reach.start]])

text \<open>Pinning switches detection off: a machine created with a pinned profile keeps that
  profile and its stage for ever, and everything it reports is a reset without a change of
  stage.\<close>

theorem pinned_machine_never_moves:
  "StageMachine_new ps (Some name) = Inr m0 \<Longrightarrow> stage_reach G m0 m \<Longrightarrow>
   pf_name (sm_active m) = name \<and> sm_stage m = pf_stage (sm_active m) \<and>
   (case fst (observe G m text i ts) of None \<Rightarrow> True
    | Some t \<Rightarrow> st_is_reset t \<and> \<not> st_stage_changed t \<and> st_name t = sm_stage m)"
proof -
  assume new: "StageMachine_new ps (Some name) = Inr m0" and r: "stage_reach G m0 m"
  from new obtain p where p: "ProfileSet_get ps name = Some p" "sm_pinned m0 = Some p" "sm_active m0 = p"
    "sm_stage m0 = pf_stage p"
    by (auto simp: StageMachine_new_def ProfileSet_require_def map_ok_def split: option.splits)
  then have "pf_name p = name" by (auto simp: ProfileSet_get_def find_Some_iff)
  with reach_pinned [OF r p(2)] p show ?thesis by (simp add: observe_def)
qed

theorem pinned_machine_never_moves_witness:
  "pf_name (sm_active (snd (observe sample_generic (sample_machine (Some ''uboot'')) ''rebooting'' 1 0))) = ''uboot''"
  using pinned_machine_never_moves [OF sample_machine_new(2)
      stage_reach.step [OF stage_reach.start, of sample_generic _ "''rebooting''" 1 0]] by blast

text \<open>A banner is never a reset on first sight in boot order: without a pinned profile, a
  banner at or above the current rank that has not fired in this epoch is not reported as a
  reset, while one below the current rank always is.\<close>

theorem banner_reset_iff:
  assumes "sm_pinned m = None" and "banner_hit m text = Some (p, k, b)"
  shows "(\<exists>t. fst (observe G m text i ts) = Some t \<and> st_is_reset t) \<longleftrightarrow>
     (\<exists>cur. sm_current_rank m = Some cur \<and> bn_rank b < cur) \<or>
     (\<exists>mn. sm_min_rank_seen m = Some mn \<and> bn_rank b \<le> mn) \<and> (pf_name p, k) \<in> set (sm_seen_banners m)"
  using assms by (auto simp: observe_def banner_is_reset_def Let_def split: option.splits)

theorem banner_reset_iff_witness:
  "\<not> (\<exists>t. fst (observe sample_generic (sample_machine None) ''U-Boot 2024.01'' 1 0) = Some t \<and> st_is_reset t)"
proof -
  let ?m = "sample_machine None"
  have "sm_pinned ?m = None" "banner_hit ?m ''U-Boot 2024.01'' = Some (sample_boot, 0, hd (pf_banners sample_boot))"
    by (simp_all add: sample_defs str_contains_def str_find.simps starts_with_def)
  from banner_reset_iff [OF this] show ?thesis by (simp add: sample_defs)
qed

text \<open>A bootloader looping in place is seen as one: if a banner has just opened an epoch, the
  same banner on the very next line is a reset again and leaves the machine unchanged.\<close>

theorem loop_in_place_is_reset:
  assumes "sm_pinned m = None" and "banner_hit m text = Some (p, k, b)"
    and "banner_is_reset m (pf_name p, k) (bn_rank b)"
    and m'_def: "m' = snd (observe G m text i ts)"
  shows "snd (observe G m' text j ts') = m' \<and> (\<exists>t. fst (observe G m' text j ts') = Some t \<and> st_is_reset t)"
proof -
  have m': "m' = enter_banner m p k b"
    using assms(1-3) by (simp add: m'_def observe_def Let_def)
  have hit: "banner_hit m' text = Some (p, k, b)" and pin: "sm_pinned m' = None"
    using assms(1,2) by (simp_all add: m'_def banner_hit_def)
  have reset: "banner_is_reset m' (pf_name p, k) (bn_rank b)"
    unfolding m' enter_banner_def Let_def using assms(3) by (simp add: begin_epoch_def) (simp add: banner_is_reset_def)
  have "enter_banner m' p k b = m'"
    using assms(3) reset unfolding m' by (simp add: enter_banner_def Let_def begin_epoch_def)
  with hit pin reset show ?thesis by (simp add: observe_def Let_def)
qed

theorem loop_in_place_is_reset_witness:
  "let m = (sample_machine None)\<lparr> sm_current_rank := Some 30, sm_min_rank_seen := Some 30 \<rparr>;
       m' = snd (observe sample_generic m ''U-Boot 2024.01'' 7 0)
   in snd (observe sample_generic m' ''U-Boot 2024.01'' 8 0) = m'"
proof -
  let ?m = "(sample_machine None)\<lparr> sm_current_rank := Some 30, sm_min_rank_seen := Some 30 \<rparr>"
  have "sm_pinned ?m = None" "banner_hit ?m ''U-Boot 2024.01'' = Some (sample_boot, 0, hd (pf_banners sample_boot))"
    by (simp_all add: sample_defs str_contains_def str_find.simps starts_with_def)
  moreover have "banner_is_reset ?m (pf_name sample_boot, 0) (bn_rank (hd (pf_banners sample_boot)))"
    by (simp add: banner_is_reset_def sample_boot_def)
  ultimately show ?thesis
    using loop_in_place_is_reset [where m = ?m and G = sample_generic] unfolding Let_def by blast
qed

end
