(* ===== verification/Profile_Framer.thy ===== *)
theory Profile_Framer
  imports Stage
begin

text \<open>
  The framer driven by a compiled profile and the stage machine
  (\<^verbatim>\<open>crates/conminer-core/src/framer/profile.rs\<close>, second part, and the trait \<^verbatim>\<open>Framer\<close> of
  \<^verbatim>\<open>framer/mod.rs\<close>). The trait's contract is the locale \<open>framer_contract\<close>: records tile the
  line sequence. Its interpretation at the end shows the contract for the profile framer.
\<close>

section \<open>Data\<close>

datatype State = Idle | Context | Backtrace

record Held =
  held_line_id :: int
  held_text :: string
  held_ts :: int

record Open =
  op_owner :: Profile
  op_first_line_id :: int
  op_last_line_id :: int
  op_lines :: "string list"
  op_kind :: RecordKind
  op_severity :: Severity
  op_stage :: "string option"
  op_fields :: json_map
  op_mine_key :: string
  op_opened_at :: int
  op_last_at :: int
  op_truncated :: bool
  op_retro_attached :: nat
  op_interleave_suspected :: bool
  op_preamble :: bool

record TrigInfo =
  ti_severity :: Severity
  ti_kind :: RecordKind
  ti_lookback :: bool

record ProfileFramer =
  pfr_set :: ProfileSet
  pfr_stages :: StageMachine
  pfr_active :: Profile
  pfr_state :: State
  pfr_open :: "Open option"
  pfr_lookback :: "Held list"
  pfr_lookback_depth :: nat
  pfr_max_record_lines :: nat
  pfr_record_timeout_ms :: int
  pfr_garbage_run :: "Open option"

section \<open>Operations\<close>

definition finish :: "Open \<Rightarrow> string \<Rightarrow> FramedRecord" where
  "finish o1 closed_by =
     (let f = jm_insert ''closed_by'' (JStr closed_by) (op_fields o1);
          f = (if op_retro_attached o1 > 0
               then jm_insert ''retro_attached'' (JInt (int (op_retro_attached o1))) f else f);
          f = (if op_interleave_suspected o1 then jm_insert ''interleave_suspected'' (JBool True) f else f);
          f = jm_insert ''duration_ms'' (JInt (op_last_at o1 - op_opened_at o1)) f
      in \<lparr> fr_first_line_id = op_first_line_id o1, fr_last_line_id = op_last_line_id o1,
           fr_line_count = int (length (op_lines o1)), fr_kind = op_kind o1,
           fr_severity = op_severity o1, fr_profile = pf_name (op_owner o1), fr_stage = op_stage o1,
           fr_truncated = op_truncated o1, fr_fields = f,
           fr_mine_key = (if is_minable (op_kind o1) then Some (op_mine_key o1) else None),
           fr_text = join_with [CHR 0x0A] (op_lines o1) \<rparr>)"

definition ProfileFramer_new ::
  "ProfileSet \<Rightarrow> FramerConfig \<Rightarrow> string option \<Rightarrow> ErrorCode + ProfileFramer" where
  "ProfileFramer_new ps cfg pinned =
     map_ok (\<lambda>stages.
       \<lparr> pfr_set = ps, pfr_stages = stages, pfr_active = sm_active stages, pfr_state = Idle,
         pfr_open = None, pfr_lookback = [], pfr_lookback_depth = fc_lookback_lines cfg,
         pfr_max_record_lines = fc_max_record_lines cfg,
         pfr_record_timeout_ms = int (fc_record_timeout_s cfg) * 1000, pfr_garbage_run = None \<rparr>)
       (StageMachine_new ps pinned)"

definition timeout_ms :: "ProfileFramer \<Rightarrow> int" where
  "timeout_ms f = (case pf_record_timeout_s (pfr_active f) of
     Some s \<Rightarrow> int s * 1000 | None \<Rightarrow> pfr_record_timeout_ms f)"

definition close :: "ProfileFramer \<Rightarrow> string \<Rightarrow> FramerEvent list \<times> ProfileFramer" where
  "close f closed_by =
     ((case pfr_open f of Some o1 \<Rightarrow> [Record (finish o1 closed_by)] | None \<Rightarrow> []),
      f\<lparr> pfr_open := None, pfr_state := Idle \<rparr>)"

definition single :: "GenericRe \<Rightarrow> ProfileFramer \<Rightarrow> Profile \<Rightarrow> int \<Rightarrow> string \<Rightarrow> FramerEvent" where
  "single G f owner line_id view =
     Record \<lparr> fr_first_line_id = line_id, fr_last_line_id = line_id, fr_line_count = 1,
              fr_kind = Line_kind, fr_severity = severity_of G owner view, fr_profile = pf_name owner,
              fr_stage = Some (sm_stage (pfr_stages f)), fr_truncated = False,
              fr_fields = extract_fields owner view, fr_mine_key = Some (mine_key G owner view),
              fr_text = view \<rparr>"

definition release_lookback :: "GenericRe \<Rightarrow> ProfileFramer \<Rightarrow> FramerEvent list \<times> ProfileFramer" where
  "release_lookback G f =
     (map (\<lambda>h. Record \<lparr> fr_first_line_id = held_line_id h, fr_last_line_id = held_line_id h,
              fr_line_count = 1, fr_kind = Line_kind, fr_severity = severity_of G (pfr_active f) (held_text h),
              fr_profile = pf_name (pfr_active f), fr_stage = Some (sm_stage (pfr_stages f)),
              fr_truncated = False, fr_fields = extract_fields (pfr_active f) (held_text h),
              fr_mine_key = Some (mine_key G (pfr_active f) (held_text h)), fr_text = held_text h \<rparr>)
        (pfr_lookback f),
      f\<lparr> pfr_lookback := [] \<rparr>)"

definition close_garbage :: "ProfileFramer \<Rightarrow> FramerEvent list \<times> ProfileFramer" where
  "close_garbage f =
     ((case pfr_garbage_run f of Some o1 \<Rightarrow> [Record (finish o1 ''run_ended'')] | None \<Rightarrow> []),
      f\<lparr> pfr_garbage_run := None \<rparr>)"

definition framer_view :: "GenericRe \<Rightarrow> ProfileFramer \<Rightarrow> string \<Rightarrow> string" where
  "framer_view G f txt = (if pf_ansi_strip (pfr_active f) then profile_strip_ansi G txt else txt)"

definition open_record ::
  "ProfileFramer \<Rightarrow> Profile \<Rightarrow> FramerInput \<Rightarrow> string \<Rightarrow> string \<Rightarrow> TrigInfo \<Rightarrow> ProfileFramer" where
  "open_record f owner line view key trig =
     (let held = (if ti_lookback trig then pfr_lookback f else []);
          first = (case held of h # _ \<Rightarrow> held_line_id h | [] \<Rightarrow> fi_line_id line)
      in f\<lparr> pfr_open := Some \<lparr> op_owner = owner, op_first_line_id = first,
              op_last_line_id = fi_line_id line, op_lines = map held_text held @ [view],
              op_kind = ti_kind trig, op_severity = ti_severity trig,
              op_stage = Some (sm_stage (pfr_stages f)), op_fields = extract_fields owner view,
              op_mine_key = key, op_opened_at = fi_ts_wall line, op_last_at = fi_ts_wall line,
              op_truncated = False, op_retro_attached = length held,
              op_interleave_suspected = False, op_preamble = is_lookback owner key \<rparr>,
            pfr_state := Context, pfr_lookback := [] \<rparr>)"

definition trig_info :: "Trigger \<Rightarrow> TrigInfo" where
  "trig_info t = \<lparr> ti_severity = tg_severity t, ti_kind = tg_kind t, ti_lookback = tg_lookback t \<rparr>"

text \<open>Appending the line to an open record (the shared three assignments).\<close>

definition join_line :: "FramerInput \<Rightarrow> string \<Rightarrow> Open \<Rightarrow> Open" where
  "join_line line view o1 =
     o1\<lparr> op_lines := op_lines o1 @ [view], op_last_line_id := fi_line_id line, op_last_at := fi_ts_wall line \<rparr>"

section \<open>Pushing a line\<close>

text \<open>Garbage and binary spans.\<close>

definition push_quarantined ::
  "GenericRe \<Rightarrow> ProfileFramer \<Rightarrow> FramerInput \<Rightarrow> FramerEvent list \<times> ProfileFramer" where
  "push_quarantined G f line =
     (let (e1, f) = close f ''garbage'';
          (e2, f) = release_lookback G f;
          kind = (if fi_binary line then Binary else Garbage);
          fresh = \<lparr> op_owner = pfr_active f, op_first_line_id = fi_line_id line,
                    op_last_line_id = fi_line_id line, op_lines = [fi_text line], op_kind = kind,
                    op_severity = Warn, op_stage = Some (sm_stage (pfr_stages f)), op_fields = [],
                    op_mine_key = [], op_opened_at = fi_ts_wall line, op_last_at = fi_ts_wall line,
                    op_truncated = False, op_retro_attached = 0, op_interleave_suspected = False,
                    op_preamble = False \<rparr>
      in case pfr_garbage_run f of
           Some g \<Rightarrow>
             if op_kind g = kind
             then (e1 @ e2, f\<lparr> pfr_garbage_run := Some (join_line line (fi_text line) g) \<rparr>)
             else let (e3, f) = close_garbage f
                  in (e1 @ e2 @ e3, f\<lparr> pfr_garbage_run := Some fresh \<rparr>)
         | None \<Rightarrow> (e1 @ e2, f\<lparr> pfr_garbage_run := Some fresh \<rparr>))"

text \<open>A line while a record is open. \<open>None\<close> means unrelated traffic: the record was closed and
  the line goes on to the idle path.\<close>

definition push_open ::
  "GenericRe \<Rightarrow> ProfileFramer \<Rightarrow> FramerInput \<Rightarrow> string \<Rightarrow> Open \<Rightarrow>
   (FramerEvent list \<times> ProfileFramer) \<times> bool" where
  "push_open G f line view o1 =
     (let owner = op_owner o1; key = mine_key G owner view
      in if is_terminator owner key then
           let (e1, f) = close (f\<lparr> pfr_open := Some (join_line line view o1) \<rparr>) ''terminator'';
               (t, m) = observe G (pfr_stages f) view (fi_line_id line) (fi_ts_wall line);
               f = f\<lparr> pfr_stages := m \<rparr>
           in case t of
                Some tr \<Rightarrow> ((e1 @ [Stage tr], f\<lparr> pfr_active := sm_active m \<rparr>), True)
              | None \<Rightarrow> ((e1, f), True)
         else case trigger owner key of
           Some t \<Rightarrow>
             if tg_lookback t \<and> op_preamble o1 then
               (([], f\<lparr> pfr_open := Some ((join_line line view o1)
                    \<lparr> op_severity := min (op_severity o1) (tg_severity t), op_kind := tg_kind t,
                      op_mine_key := key, op_preamble := False,
                      op_fields := jm_extend (op_fields o1) (extract_fields owner view) \<rparr>) \<rparr>), True)
             else let (e1, f) = close f ''nested_trigger''
                  in ((e1, open_record f owner line view key (trig_info t)), True)
         | None \<Rightarrow>
             if is_continuation owner key \<or> is_context G owner key
                \<or> is_backtrace_header G owner key \<or> is_backtrace_frame G owner key
             then
               let f = (if is_backtrace_header G owner key then f\<lparr> pfr_state := Backtrace \<rparr> else f);
                   interleaved = (pfr_state f = Backtrace \<and> \<not> is_backtrace_frame G owner key);
                   o2 = (join_line line view o1)
                     \<lparr> op_interleave_suspected := op_interleave_suspected o1 \<or> interleaved \<rparr>
               in if length (op_lines o2) \<ge> pfr_max_record_lines f
                  then (close (f\<lparr> pfr_open := Some (o2\<lparr> op_truncated := True \<rparr>) \<rparr>) ''max_record_lines'', True)
                  else (([], f\<lparr> pfr_open := Some o2 \<rparr>), True)
             else (close f ''unrelated_line'', False))"

text \<open>A line while no record is open and no stage transition: the grammar of its owner.\<close>

definition push_grammar ::
  "GenericRe \<Rightarrow> ProfileFramer \<Rightarrow> FramerInput \<Rightarrow> string \<Rightarrow> Profile \<Rightarrow> FramerEvent list \<times> ProfileFramer" where
  "push_grammar G f line view owner =
     (let key = mine_key G owner view
      in case trigger owner key of
           Some t \<Rightarrow>
             let (e1, f) = (if \<not> tg_lookback t then release_lookback G f else ([], f))
             in (e1, open_record f owner line view key (trig_info t))
         | None \<Rightarrow>
             if is_lookback owner key then
               let f = f\<lparr> pfr_lookback := pfr_lookback f @
                     [\<lparr> held_line_id = fi_line_id line, held_text = view, held_ts = fi_ts_wall line \<rparr>] \<rparr>
               in if length (pfr_lookback f) > pfr_lookback_depth f
                  then let h = hd (pfr_lookback f); f = f\<lparr> pfr_lookback := tl (pfr_lookback f) \<rparr>
                       in ([single G f (pfr_active f) (held_line_id h) (held_text h)], f)
                  else ([], f)
             else let (e1, f) = release_lookback G f
                  in (e1 @ [single G f owner (fi_line_id line) view], f))"

text \<open>A line while no record is open; \<open>over\<close> is the overlay profile that claims it, if any.\<close>

definition push_idle ::
  "GenericRe \<Rightarrow> ProfileFramer \<Rightarrow> FramerInput \<Rightarrow> string \<Rightarrow> Profile option \<Rightarrow> FramerEvent list \<times> ProfileFramer" where
  "push_idle G f line view over =
     (let (t, m) = observe G (pfr_stages f) view (fi_line_id line) (fi_ts_wall line);
          f = f\<lparr> pfr_stages := m \<rparr>
      in case t of
           Some tr \<Rightarrow>
             let (e1, f) = release_lookback G f;
                 f = f\<lparr> pfr_active := sm_active m \<rparr>
             in (e1 @ [Stage tr, single G f (pfr_active f) (fi_line_id line) view], f)
         | None \<Rightarrow> push_grammar G f line view (case over of Some p \<Rightarrow> p | None \<Rightarrow> pfr_active f))"

definition ProfileFramer_push ::
  "GenericRe \<Rightarrow> ProfileFramer \<Rightarrow> FramerInput \<Rightarrow> FramerEvent list \<times> ProfileFramer" where
  "ProfileFramer_push G f line =
     (if fi_garbage line \<or> fi_binary line then push_quarantined G f line
      else
        let (e0, f) = close_garbage f;
            view = framer_view G f (fi_text line);
            over = find (\<lambda>p. pf_overlay p \<and> pf_name p \<noteq> pf_name (pfr_active f) \<and> claims p view) (pfr_set f)
        in case pfr_open f of
             Some o1 \<Rightarrow>
               let ((e1, f), handled) = push_open G f line view o1
               in if handled then (e0 @ e1, f)
                  else let (e2, f) = push_idle G f line view over in (e0 @ e1 @ e2, f)
           | None \<Rightarrow> let (e2, f) = push_idle G f line view over in (e0 @ e2, f))"

section \<open>Ticks and the end of the stream\<close>

definition ProfileFramer_tick ::
  "GenericRe \<Rightarrow> ProfileFramer \<Rightarrow> int \<Rightarrow> FramerEvent list \<times> ProfileFramer" where
  "ProfileFramer_tick G f now_ms =
     (let timeout = timeout_ms f;
          (e1, f) = (if pfr_lookback f \<noteq> [] \<and> now_ms - held_ts (last (pfr_lookback f)) \<ge> timeout
                     then release_lookback G f else ([], f));
          (e2, f) = (case pfr_open f of
                       Some o1 \<Rightarrow> if now_ms - op_last_at o1 \<ge> timeout then close f ''dead_air'' else ([], f)
                     | None \<Rightarrow> ([], f));
          (e3, f) = (case pfr_garbage_run f of
                       Some g \<Rightarrow> if now_ms - op_last_at g \<ge> timeout then close_garbage f else ([], f)
                     | None \<Rightarrow> ([], f))
      in (e1 @ e2 @ e3, f))"

definition ProfileFramer_flush :: "GenericRe \<Rightarrow> ProfileFramer \<Rightarrow> FramerEvent list \<times> ProfileFramer" where
  "ProfileFramer_flush G f =
     (let (e1, f) = release_lookback G f;
          f = f\<lparr> pfr_open := map_option (\<lambda>o1. o1\<lparr> op_truncated := True \<rparr>) (pfr_open f) \<rparr>;
          (e2, f) = close f ''stream_end'';
          (e3, f) = close_garbage f
      in (e1 @ e2 @ e3, f))"

definition lookback_len :: "ProfileFramer \<Rightarrow> nat" where
  "lookback_len f = length (pfr_lookback f)"

definition last_seen :: "ProfileFramer \<Rightarrow> int option" where
  "last_seen f = (if pfr_lookback f = [] then None else Some (held_ts (last (pfr_lookback f))))"

section \<open>The framer contract\<close>

text \<open>The trait every framer implements: \<open>inv P f\<close> says that the lines \<open>P\<close>, oldest first, were
  offered and not yet reported. The laws say that each operation reports records that tile
  the pending lines. An input sequence mixes lines and clock ticks.\<close>

locale framer_contract =
  fixes push :: "'f \<Rightarrow> FramerInput \<Rightarrow> FramerEvent list \<times> 'f"
    and tick :: "'f \<Rightarrow> int \<Rightarrow> FramerEvent list \<times> 'f"
    and flush :: "'f \<Rightarrow> FramerEvent list \<times> 'f"
    and inv :: "int list \<Rightarrow> 'f \<Rightarrow> bool"
  assumes push_tiles: "inv P f \<Longrightarrow> \<exists>P'. inv P' (snd (push f l)) \<and> tiles (P @ [fi_line_id l]) (fst (push f l)) P'"
    and tick_tiles: "inv P f \<Longrightarrow> \<exists>P'. inv P' (snd (tick f now)) \<and> tiles P (fst (tick f now)) P'"
    and flush_tiles: "inv P f \<Longrightarrow> inv [] (snd (flush f)) \<and> tiles P (fst (flush f)) []"
begin

fun run :: "'f \<Rightarrow> (FramerInput + int) list \<Rightarrow> FramerEvent list \<times> 'f" where
  "run f [] = ([], f)"
| "run f (x # xs) =
     (let (e1, f1) = (case x of Inl l \<Rightarrow> push f l | Inr now \<Rightarrow> tick f now); (e2, f2) = run f1 xs
      in (e1 @ e2, f2))"

definition offered :: "(FramerInput + int) list \<Rightarrow> int list" where
  "offered xs = List.map_filter (\<lambda>x. case x of Inl l \<Rightarrow> Some (fi_line_id l) | Inr now \<Rightarrow> None) xs"

lemma offered_simps [simp]:
  "offered [] = []" "offered (Inl l # xs) = fi_line_id l # offered xs" "offered (Inr now # xs) = offered xs"
  by (simp_all add: offered_def List.map_filter_def)

lemma run_tiles: "inv P f \<Longrightarrow> \<exists>P'. inv P' (snd (run f xs)) \<and> tiles (P @ offered xs) (fst (run f xs)) P'"
proof (induction xs arbitrary: P f)
  case Nil
  then show ?case by (auto intro: tiles.intros)
next
  case (Cons x xs)
  have "\<exists>Q. inv Q (snd (case x of Inl l \<Rightarrow> push f l | Inr now \<Rightarrow> tick f now)) \<and>
      tiles (P @ offered [x]) (fst (case x of Inl l \<Rightarrow> push f l | Inr now \<Rightarrow> tick f now)) Q"
    using push_tiles [OF Cons.prems] tick_tiles [OF Cons.prems] by (cases x) auto
  then obtain Q where q: "inv Q (snd (case x of Inl l \<Rightarrow> push f l | Inr now \<Rightarrow> tick f now))"
    "tiles (P @ offered [x]) (fst (case x of Inl l \<Rightarrow> push f l | Inr now \<Rightarrow> tick f now)) Q" by blast
  from Cons.IH [OF q(1)] obtain R where r: "inv R (snd (run (snd (case x of Inl l \<Rightarrow> push f l | Inr now \<Rightarrow> tick f now)) xs))"
    "tiles (Q @ offered xs) (fst (run (snd (case x of Inl l \<Rightarrow> push f l | Inr now \<Rightarrow> tick f now)) xs)) R" by blast
  have "offered (x # xs) = offered [x] @ offered xs" by (cases x) simp_all
  with tiles_append [OF tiles_extend [OF q(2), of "offered xs"] r(2)] r(1) show ?case
    by (auto simp: split_beta Let_def)
qed

text \<open>At any moment the records reported so far tile a prefix of the lines offered; after a
  flush they tile all of them.\<close>

lemma run_flush_tiles:
  assumes "inv [] f"
  shows "tiles (offered xs) (fst (run f xs) @ fst (flush (snd (run f xs)))) []"
proof -
  from run_tiles [OF assms, of xs] obtain P where "inv P (snd (run f xs))" "tiles (offered xs) (fst (run f xs)) P"
    by auto
  with flush_tiles [of P] show ?thesis by (blast intro: tiles_append)
qed

lemma run_check:
  assumes "inv [] f" and "sorted_wrt (<) (offered xs)"
  shows "check_conservation (offered xs) (fst (run f xs)) = Inr ()"
    and "check_conservation (offered xs) (fst (run f xs) @ fst (flush (snd (run f xs)))) = Inr ()"
  using run_tiles [OF assms(1), of xs] run_flush_tiles [OF assms(1), of xs]
    tiles_check [where pre = "[]"] assms(2) by (auto simp: check_conservation_def)

end

section \<open>The profile framer conserves lines\<close>

definition open_covers :: "Open \<Rightarrow> int list \<Rightarrow> bool" where
  "open_covers o1 P \<longleftrightarrow> P \<noteq> [] \<and> op_first_line_id o1 = hd P \<and> op_last_line_id o1 = last P \<and>
     length (op_lines o1) = length P"

text \<open>At most one of the three buffers holds lines: an open record, a quarantined run, or
  lines held for retro-attachment.\<close>

definition framer_inv :: "int list \<Rightarrow> ProfileFramer \<Rightarrow> bool" where
  "framer_inv P f \<longleftrightarrow> (case pfr_open f of
     Some o1 \<Rightarrow> pfr_lookback f = [] \<and> pfr_garbage_run f = None \<and> open_covers o1 P
   | None \<Rightarrow> (case pfr_garbage_run f of
       Some g \<Rightarrow> pfr_lookback f = [] \<and> open_covers g P
     | None \<Rightarrow> P = map held_line_id (pfr_lookback f)))"

lemma finish_covers: "open_covers o1 P \<Longrightarrow> record_covers (finish o1 c) P"
  by (simp add: open_covers_def record_covers_def finish_def Let_def)

lemma finish_tiles: "open_covers o1 P \<Longrightarrow> tiles P [Record (finish o1 c)] []"
  by (intro tiles_one finish_covers)

lemma join_covers: "open_covers o1 P \<Longrightarrow> open_covers (join_line line view o1) (P @ [fi_line_id line])"
  by (simp add: open_covers_def join_line_def)

lemma open_covers_update [simp]:
  "open_covers (o1\<lparr> op_truncated := b \<rparr>) P = open_covers o1 P"
  "open_covers (o1\<lparr> op_interleave_suspected := b \<rparr>) P = open_covers o1 P"
  "open_covers (o1\<lparr> op_severity := sv, op_kind := k, op_mine_key := mk, op_preamble := b, op_fields := fl \<rparr>) P = open_covers o1 P"
  by (simp_all add: open_covers_def)

lemma single_tiles: "tiles [i] [single G f p i v] []"
  unfolding single_def by (rule tiles_one) (simp add: record_covers_def)

lemma release_tiles: "tiles (map held_line_id (pfr_lookback f)) (fst (release_lookback G f)) []"
proof -
  have "tiles (map held_line_id hs) (map (\<lambda>h. Record (mk h)) hs) []"
    if "\<And>h. record_covers (mk h) [held_line_id h]" for hs :: "Held list" and mk
    using that by (induction hs) (auto intro: tiles.intros tiles_Record [where seg = "[_]", simplified])
  then show ?thesis unfolding release_lookback_def by (simp add: record_covers_def)
qed

lemma release_fields [simp]: "snd (release_lookback G f) = f\<lparr> pfr_lookback := [] \<rparr>"
  by (simp add: release_lookback_def)

lemma open_record_inv:
  assumes "pfr_garbage_run f = None" and "ti_lookback t \<or> pfr_lookback f = []"
  shows "framer_inv (map held_line_id (pfr_lookback f) @ [fi_line_id line]) (open_record f p line view key t)"
  using assms by (auto simp: framer_inv_def open_record_def Let_def open_covers_def hd_append split: list.splits)

lemma tiles_release_snoc:
  "tiles [i] es rest \<Longrightarrow> tiles (map held_line_id (pfr_lookback f) @ [i]) (fst (release_lookback G f) @ es) rest"
  using tiles_append [OF tiles_extend [OF release_tiles [of f G], of "[i]"]] by simp

definition conserves :: "int list \<Rightarrow> FramerEvent list \<times> ProfileFramer \<Rightarrow> bool" where
  "conserves ids r \<longleftrightarrow> (\<exists>P'. framer_inv P' (snd r) \<and> tiles ids (fst r) P')"

lemma conservesI: "framer_inv P' (snd r) \<Longrightarrow> tiles ids (fst r) P' \<Longrightarrow> conserves ids r"
  by (auto simp: conserves_def)

lemma conserves_prepend:
  "tiles ids es mid \<Longrightarrow> conserves (mid @ ids') (es', f') \<Longrightarrow> conserves (ids @ ids') (es @ es', f')"
  unfolding conserves_def by (fastforce intro: tiles_append tiles_extend)

lemma conserves_open_record:
  assumes "pfr_open f = None" "pfr_garbage_run f = None" and "ti_lookback t \<or> pfr_lookback f = []"
  shows "conserves (map held_line_id (pfr_lookback f) @ [fi_line_id line]) ([], open_record f p line view key t)"
  using open_record_inv [OF assms(2,3)] by (auto intro!: conservesI intro: tiles.intros)

lemma conserves_released_single:
  assumes "pfr_open f = None" "pfr_garbage_run f = None"
  shows "conserves (map held_line_id (pfr_lookback f) @ [i])
     (fst (release_lookback G f) @ [single G f' p i v], f\<lparr> pfr_lookback := [], pfr_active := a \<rparr>)"
  and "conserves (map held_line_id (pfr_lookback f) @ [i])
     (fst (release_lookback G f) @ [single G f' p i v], f\<lparr> pfr_lookback := [] \<rparr>)"
  and "conserves (map held_line_id (pfr_lookback f) @ [i])
     (fst (release_lookback G f) @ [Stage t, single G f' p i v], f\<lparr> pfr_lookback := [], pfr_active := a \<rparr>)"
  using assms by (auto intro!: conservesI [where P' = "[]"] tiles_release_snoc single_tiles simp: framer_inv_def)

lemma conserves_held:
  assumes "pfr_open f = None" "pfr_garbage_run f = None" and "pfr_lookback f = h # hs"
  shows "conserves (map held_line_id (h # hs)) ([single G f' p (held_line_id h) v], f\<lparr> pfr_lookback := hs \<rparr>)"
  and "conserves (map held_line_id (h # hs)) ([], f)"
proof -
  have "tiles (held_line_id h # map held_line_id hs) [single G f' p (held_line_id h) v] (map held_line_id hs)"
    using tiles_extend [OF single_tiles, of "held_line_id h" "map held_line_id hs"] by simp
  with assms show "conserves (map held_line_id (h # hs)) ([single G f' p (held_line_id h) v], f\<lparr> pfr_lookback := hs \<rparr>)"
    by (intro conservesI) (auto simp: framer_inv_def)
  show "conserves (map held_line_id (h # hs)) ([], f)"
    using assms by (intro conservesI [where P' = "map held_line_id (h # hs)"]) (auto simp: framer_inv_def)
qed

lemma push_grammar_conserves:
  assumes "pfr_open f = None" "pfr_garbage_run f = None"
  shows "conserves (map held_line_id (pfr_lookback f) @ [fi_line_id line]) (push_grammar G f line view owner)"
proof -
  let ?key = "mine_key G owner view"
  let ?h = "\<lparr> held_line_id = fi_line_id line, held_text = view, held_ts = fi_ts_wall line \<rparr>"
  let ?ids = "map held_line_id (pfr_lookback f) @ [fi_line_id line]"
  obtain e1 where e1: "release_lookback G f = (e1, f\<lparr> pfr_lookback := [] \<rparr>)"
    by (simp add: release_lookback_def)
  show ?thesis
  proof (cases "trigger owner ?key")
    case (Some tg)
    have "conserves [fi_line_id line] ([], open_record (f\<lparr> pfr_lookback := [] \<rparr>) owner line view ?key (trig_info tg))"
      using conserves_open_record [of "f\<lparr> pfr_lookback := [] \<rparr>"] assms by simp
    then have "conserves ?ids (e1 @ [], open_record (f\<lparr> pfr_lookback := [] \<rparr>) owner line view ?key (trig_info tg))"
      using release_tiles [of f G] e1 by (intro conserves_prepend [where mid = "[]"]) simp_all
    moreover have "conserves ?ids ([], open_record f owner line view ?key (trig_info tg))" if "tg_lookback tg"
      using conserves_open_record [OF assms, where t = "trig_info tg"] that by (simp add: trig_info_def)
    ultimately show ?thesis using Some e1 by (simp add: push_grammar_def Let_def)
  next
    case nt: None
    let ?g = "f\<lparr> pfr_lookback := pfr_lookback f @ [?h] \<rparr>"
    obtain h hs where hs: "pfr_lookback f @ [?h] = h # hs" by (cases "pfr_lookback f @ [?h]") auto
    have g: "pfr_open ?g = None" "pfr_garbage_run ?g = None" "pfr_lookback ?g = h # hs" using assms hs by simp_all
    have ids: "?ids = map held_line_id (h # hs)"
      using arg_cong [OF hs, of "map held_line_id"] by simp
    have "conserves ?ids ([single G f' p (held_line_id h) (held_text h)], f\<lparr> pfr_lookback := hs \<rparr>)" for f' p
      unfolding ids using conserves_held(1) [OF g, where G = G] by simp
    moreover have "conserves ?ids ([], ?g)"
      unfolding ids by (rule conserves_held(2) [OF g])
    ultimately show ?thesis
      using conserves_released_single(2) [OF assms, of "fi_line_id line" G]
      by (simp add: push_grammar_def nt e1 hs Let_def)
  qed
qed

lemma push_idle_conserves:
  assumes "pfr_open f = None" "pfr_garbage_run f = None"
  shows "conserves (map held_line_id (pfr_lookback f) @ [fi_line_id line]) (push_idle G f line view over)"
proof -
  obtain t m where ob: "observe G (pfr_stages f) view (fi_line_id line) (fi_ts_wall line) = (t, m)" by fastforce
  let ?f = "f\<lparr> pfr_stages := m \<rparr>"
  have f: "pfr_open ?f = None" "pfr_garbage_run ?f = None" using assms by simp_all
  obtain e1 where e1: "release_lookback G ?f = (e1, ?f\<lparr> pfr_lookback := [] \<rparr>)"
    by (simp add: release_lookback_def)
  show ?thesis
    using conserves_released_single(3) [OF f, where G = G] push_grammar_conserves [OF f, of line G view]
    by (cases t) (simp_all add: push_idle_def ob e1 Let_def)
qed

lemma conserves_closed:
  assumes "open_covers o1 P" and "pfr_open f' = None" "pfr_lookback f' = []" "pfr_garbage_run f' = None"
  shows "conserves P ([Record (finish o1 c)], f')" and "conserves P ([Record (finish o1 c), Stage t], f')"
  using assms finish_tiles [OF assms(1), of c] tiles_append [OF finish_tiles [OF assms(1), of c], of "[Stage t]" "[]"]
  by (auto intro!: conservesI [where P' = "[]"] simp: framer_inv_def)

lemma conserves_joined:
  "open_covers o1 P \<Longrightarrow> pfr_lookback f = [] \<Longrightarrow> pfr_garbage_run f = None \<Longrightarrow> conserves P ([], f\<lparr> pfr_open := Some o1 \<rparr>)"
  by (intro conservesI [where P' = P]) (auto simp: framer_inv_def)

lemma conserves_nested:
  assumes "open_covers o1 P" and "pfr_open f' = None" "pfr_lookback f' = []" "pfr_garbage_run f' = None"
  shows "conserves (P @ [fi_line_id line]) ([Record (finish o1 c)], open_record f' p line view key t)"
  using conserves_prepend [OF finish_tiles [OF assms(1), of c], of "[fi_line_id line]" "[]"]
    conserves_open_record [OF assms(2,4), of t line p view key] assms(3) by simp

lemma push_open_conserves:
  assumes "pfr_lookback f = []" "pfr_garbage_run f = None" "open_covers o1 P" "pfr_open f = Some o1"
    and "push_open G f line view o1 = (r, handled)"
  shows "handled \<Longrightarrow> conserves (P @ [fi_line_id line]) r"
    and "\<not> handled \<Longrightarrow> pfr_open (snd r) = None \<and> pfr_lookback (snd r) = [] \<and> pfr_garbage_run (snd r) = None \<and>
       tiles P (fst r) []"
proof -
  let ?key = "mine_key G (op_owner o1) view" and ?i = "fi_line_id line"
  note cov = join_covers [OF assms(3), of line view]
  note r = assms(5) [unfolded push_open_def Let_def close_def, symmetric]
  have f: "pfr_lookback f = []" "pfr_garbage_run f = None" using assms by simp_all
  have "if handled then conserves (P @ [?i]) r else
      pfr_open (snd r) = None \<and> pfr_lookback (snd r) = [] \<and> pfr_garbage_run (snd r) = None \<and> tiles P (fst r) []"
  proof (cases "is_terminator (op_owner o1) ?key")
    case True
    obtain t m where ob: "observe G (pfr_stages f) view ?i (fi_ts_wall line) = (t, m)" by fastforce
    from r True ob f show ?thesis
      by (cases t) (simp_all add: conserves_closed [OF cov])
  next
    case nt: False
    show ?thesis
    proof (cases "trigger (op_owner o1) ?key")
      case (Some t)
      from r nt Some f assms(4) show ?thesis
        by (cases "tg_lookback t \<and> op_preamble o1")
          (simp_all add: conserves_joined cov conserves_nested [OF assms(3)])
    next
      case None
      from r nt None f assms(4) show ?thesis
        by (auto simp: conserves_closed conserves_joined cov finish_tiles [OF assms(3)] split: if_splits)
    qed
  qed
  then show "handled \<Longrightarrow> conserves (P @ [?i]) r" "\<not> handled \<Longrightarrow> pfr_open (snd r) = None \<and>
      pfr_lookback (snd r) = [] \<and> pfr_garbage_run (snd r) = None \<and> tiles P (fst r) []" by simp_all
qed

lemma framer_inv_cases:
  assumes "framer_inv P f"
  obtains (opened) o1 where "pfr_open f = Some o1" "pfr_lookback f = []" "pfr_garbage_run f = None" "open_covers o1 P"
  | (run) g where "pfr_open f = None" "pfr_garbage_run f = Some g" "pfr_lookback f = []" "open_covers g P"
  | (held) "pfr_open f = None" "pfr_garbage_run f = None" "P = map held_line_id (pfr_lookback f)"
  using assms by (auto simp: framer_inv_def split: option.splits)

lemma conserves_fresh:
  assumes "tiles P es []" and "open_covers g [i]" and "pfr_open f = None" "pfr_lookback f = []"
  shows "conserves (P @ [i]) (es, f\<lparr> pfr_garbage_run := Some g \<rparr>)"
  using tiles_extend [OF assms(1), of "[i]"] assms(2-4)
  by (intro conservesI [where P' = "[i]"]) (auto simp: framer_inv_def)

lemma release_empty: "pfr_lookback f = [] \<Longrightarrow> release_lookback G f = ([], f)"
  by (simp add: release_lookback_def)

lemma push_quarantined_conserves:
  assumes "framer_inv P f"
  shows "conserves (P @ [fi_line_id line]) (push_quarantined G f line)"
proof -
  let ?i = "fi_line_id line"
  have new: "open_covers \<lparr> op_owner = a, op_first_line_id = ?i, op_last_line_id = ?i, op_lines = [x], op_kind = k,
      op_severity = sv, op_stage = st, op_fields = fl, op_mine_key = mk, op_opened_at = t1, op_last_at = t2,
      op_truncated = b1, op_retro_attached = n, op_interleave_suspected = b2, op_preamble = b3 \<rparr> [?i]"
    for a x k sv st fl mk t1 t2 b1 n b2 b3 by (simp add: open_covers_def)
  from assms show ?thesis
  proof (cases rule: framer_inv_cases)
    case (opened o1)
    with new finish_tiles [OF opened(4), of "''garbage''"] show ?thesis
      by (simp add: push_quarantined_def close_def release_empty Let_def conserves_fresh)
  next
    case (run g)
    have join: "conserves (P @ [?i]) ([], f\<lparr> pfr_open := None, pfr_state := Idle, pfr_garbage_run := Some (join_line line x g) \<rparr>)" for x
      using join_covers [OF run(4), of line x] run by (intro conservesI [where P' = "P @ [?i]"]) (auto simp: framer_inv_def)
    have "conserves (P @ [?i]) ([Record (finish g c)],
        f\<lparr> pfr_open := None, pfr_state := Idle, pfr_garbage_run := Some g' \<rparr>)" if "open_covers g' [?i]" for g' c
      using conserves_fresh [OF finish_tiles [OF run(4), of c] that, of "f\<lparr> pfr_open := None, pfr_state := Idle \<rparr>"] run by simp
    with join new run show ?thesis
      by (simp add: push_quarantined_def close_def close_garbage_def release_empty Let_def)
  next
    case held
    let ?f = "f\<lparr> pfr_open := None, pfr_state := Idle \<rparr>"
    obtain e1 where e1: "release_lookback G ?f = (e1, ?f\<lparr> pfr_lookback := [] \<rparr>)"
      by (simp add: release_lookback_def)
    with release_tiles [of ?f G] held have "tiles P e1 []" by simp
    with held e1 new show ?thesis
      by (simp add: push_quarantined_def close_def Let_def conserves_fresh)
  qed
qed

lemma push_conserves:
  assumes "framer_inv P f"
  shows "conserves (P @ [fi_line_id line]) (ProfileFramer_push G f line)"
proof (cases "fi_garbage line \<or> fi_binary line")
  case True
  then show ?thesis using push_quarantined_conserves [OF assms] by (simp add: ProfileFramer_push_def)
next
  case False
  let ?i = "fi_line_id line"
  let ?f = "f\<lparr> pfr_garbage_run := None \<rparr>"
  let ?view = "framer_view G ?f (fi_text line)"
  let ?over = "find (\<lambda>p. pf_overlay p \<and> pf_name p \<noteq> pf_name (pfr_active ?f) \<and> claims p ?view) (pfr_set ?f)"
  from assms show ?thesis
  proof (cases rule: framer_inv_cases)
    case (opened o1)
    obtain e1 f1 h where po: "push_open G ?f line ?view o1 = ((e1, f1), h)"
      by (metis prod.collapse)
    have f: "pfr_lookback ?f = []" "pfr_garbage_run ?f = None" "pfr_open ?f = Some o1" using opened by simp_all
    note c = push_open_conserves [OF f(1,2) opened(4) f(3) po]
    obtain e2 f2 where pi: "push_idle G f1 line ?view ?over = (e2, f2)" by fastforce
    have "conserves (P @ [?i]) (e1 @ e2, f2)" if "\<not> h"
      using conserves_prepend [of P e1 "[]" "[?i]" e2 f2] c(2) [OF that] push_idle_conserves [of f1 line G ?view ?over] pi
      by simp
    with c(1) False opened po pi show ?thesis
      by (cases h) (simp_all add: ProfileFramer_push_def close_garbage_def Let_def)
  next
    case (run g)
    obtain e2 f2 where pi: "push_idle G ?f line ?view ?over = (e2, f2)" by fastforce
    have "conserves [?i] (e2, f2)"
      using push_idle_conserves [of ?f line G ?view ?over] run pi by simp
    then have "conserves (P @ [?i]) ([Record (finish g c)] @ e2, f2)" for c
      using conserves_prepend [OF finish_tiles [OF run(4), of c], of "[?i]"] by simp
    with False run pi show ?thesis
      by (simp add: ProfileFramer_push_def close_garbage_def Let_def)
  next
    case held
    obtain e2 f2 where pi: "push_idle G ?f line ?view ?over = (e2, f2)" by fastforce
    have "conserves (P @ [?i]) (e2, f2)"
      using push_idle_conserves [of ?f line G ?view ?over] held pi by simp
    with False held pi show ?thesis
      by (simp add: ProfileFramer_push_def close_garbage_def Let_def)
  qed
qed

lemma conserves_idle: "framer_inv P f \<Longrightarrow> conserves P ([], f)"
  by (rule conservesI [where P' = P]) (auto intro: tiles.intros)

lemma tick_conserves:
  assumes "framer_inv P f"
  shows "conserves P (ProfileFramer_tick G f now)"
  using assms
proof (cases rule: framer_inv_cases)
  case (opened o1)
  then show ?thesis
    using conserves_idle [OF assms]
    by (simp add: ProfileFramer_tick_def close_def Let_def conserves_closed)
next
  case (run g)
  then show ?thesis
    using conserves_idle [OF assms]
    by (simp add: ProfileFramer_tick_def close_garbage_def Let_def conserves_closed)
next
  case held
  have "conserves P (fst (release_lookback G f), f\<lparr> pfr_lookback := [] \<rparr>)"
    using release_tiles [of f G] held by (intro conservesI [where P' = "[]"]) (auto simp: framer_inv_def)
  moreover obtain e1 where "release_lookback G f = (e1, f\<lparr> pfr_lookback := [] \<rparr>)"
    by (simp add: release_lookback_def)
  ultimately show ?thesis
    using conserves_idle [OF assms] held by (simp add: ProfileFramer_tick_def Let_def)
qed

lemma flush_conserves:
  assumes "framer_inv P f"
  shows "framer_inv [] (snd (ProfileFramer_flush G f)) \<and> tiles P (fst (ProfileFramer_flush G f)) []"
  using assms
proof (cases rule: framer_inv_cases)
  case (opened o1)
  then show ?thesis
    using finish_tiles [of "o1\<lparr> op_truncated := True \<rparr>" P "''stream_end''"]
    by (simp add: ProfileFramer_flush_def close_def close_garbage_def release_empty Let_def framer_inv_def)
next
  case (run g)
  then show ?thesis
    using finish_tiles [OF run(4), of "''run_ended''"]
    by (simp add: ProfileFramer_flush_def close_def close_garbage_def release_empty Let_def framer_inv_def)
next
  case held
  moreover obtain e1 where "release_lookback G f = (e1, f\<lparr> pfr_lookback := [] \<rparr>)"
    by (simp add: release_lookback_def)
  ultimately show ?thesis
    using release_tiles [of f G]
    by (simp add: ProfileFramer_flush_def close_def close_garbage_def Let_def framer_inv_def)
qed

interpretation framer: framer_contract "ProfileFramer_push G" "ProfileFramer_tick G" "ProfileFramer_flush G" framer_inv
  for G
proof unfold_locales
  fix P f l now
  assume inv: "framer_inv P f"
  show "\<exists>P'. framer_inv P' (snd (ProfileFramer_push G f l)) \<and> tiles (P @ [fi_line_id l]) (fst (ProfileFramer_push G f l)) P'"
    using push_conserves [OF inv] by (simp add: conserves_def)
  show "\<exists>P'. framer_inv P' (snd (ProfileFramer_tick G f now)) \<and> tiles P (fst (ProfileFramer_tick G f now)) P'"
    using tick_conserves [OF inv] by (simp add: conserves_def)
  show "framer_inv [] (snd (ProfileFramer_flush G f)) \<and> tiles P (fst (ProfileFramer_flush G f)) []"
    using flush_conserves [OF inv] .
qed

section \<open>Running the framer\<close>

text \<open>The pipeline's use of a framer: a sequence of lines and clock ticks.\<close>

fun framer_run :: "GenericRe \<Rightarrow> ProfileFramer \<Rightarrow> (FramerInput + int) list \<Rightarrow> FramerEvent list \<times> ProfileFramer" where
  "framer_run G f [] = ([], f)"
| "framer_run G f (x # xs) =
     (let (e1, f1) = (case x of Inl l \<Rightarrow> ProfileFramer_push G f l | Inr now \<Rightarrow> ProfileFramer_tick G f now);
          (e2, f2) = framer_run G f1 xs
      in (e1 @ e2, f2))"

fun offered_ids :: "(FramerInput + int) list \<Rightarrow> int list" where
  "offered_ids [] = []"
| "offered_ids (Inl l # xs) = fi_line_id l # offered_ids xs"
| "offered_ids (Inr now # xs) = offered_ids xs"

lemma framer_run_eq: "framer_run G f xs = framer.run G f xs"
  by (induction xs arbitrary: f) (simp_all add: split_beta Let_def)

lemma offered_ids_eq: "offered_ids xs = framer.offered xs"
  by (induction xs rule: offered_ids.induct) simp_all

lemma new_framer_inv: "ProfileFramer_new ps cfg pin = Inr f \<Longrightarrow> framer_inv [] f"
  by (cases "StageMachine_new ps pin") (auto simp: ProfileFramer_new_def map_ok_def framer_inv_def)

text \<open>Whether an event respects the quarantine: a record is mined exactly when its kind may be.\<close>

definition mined_iff_minable :: "FramerEvent \<Rightarrow> bool" where
  "mined_iff_minable e = (case e of
     Record r \<Rightarrow> (fr_mine_key r \<noteq> None) = is_minable (fr_kind r) | Stage t \<Rightarrow> True)"

definition lookback_bounded :: "ProfileFramer \<Rightarrow> bool" where
  "lookback_bounded f \<longleftrightarrow> length (pfr_lookback f) \<le> pfr_lookback_depth f"

definition well_behaved :: "ProfileFramer \<Rightarrow> FramerEvent list \<times> ProfileFramer \<Rightarrow> bool" where
  "well_behaved f r \<longleftrightarrow> list_all mined_iff_minable (fst r) \<and>
     pfr_lookback_depth (snd r) = pfr_lookback_depth f \<and> (lookback_bounded f \<longrightarrow> lookback_bounded (snd r))"

lemma mined_intros [simp]:
  "mined_iff_minable (Record (finish o1 c))" "mined_iff_minable (single G f p i v)"
  "mined_iff_minable (Stage t)" "list_all mined_iff_minable (fst (release_lookback G f))"
  by (simp_all add: mined_iff_minable_def finish_def single_def release_lookback_def list_all_iff Let_def)

lemma well_behaved_parts:
  "well_behaved f (close f c)" "well_behaved f (release_lookback G f)" "well_behaved f (close_garbage f)"
  by (auto simp: well_behaved_def close_def close_garbage_def lookback_bounded_def split: option.splits)

lemma well_behaved_trans:
  "well_behaved f (e1, f1) \<Longrightarrow> well_behaved f1 (e2, f2) \<Longrightarrow> well_behaved f (e1 @ e2, f2)"
  by (auto simp: well_behaved_def)

lemma well_behaved_grammar: "well_behaved f (push_grammar G f line view owner)"
  using mined_intros(4) [of G f]
  by (auto simp: push_grammar_def Let_def well_behaved_def lookback_bounded_def open_record_def release_lookback_def
      split: option.splits)

lemma well_behaved_stages: "well_behaved (f\<lparr> pfr_stages := m \<rparr>) r \<longleftrightarrow> well_behaved f r"
  "well_behaved (f\<lparr> pfr_garbage_run := g \<rparr>) r \<longleftrightarrow> well_behaved f r"
  by (simp_all add: well_behaved_def lookback_bounded_def)

lemma well_behaved_idle: "well_behaved f (push_idle G f line view over)"
proof -
  obtain t m where ob: "observe G (pfr_stages f) view (fi_line_id line) (fi_ts_wall line) = (t, m)" by fastforce
  show ?thesis
  proof (cases t)
    case None
    then show ?thesis
      using well_behaved_grammar [of "f\<lparr> pfr_stages := m \<rparr>" G line view] by (simp add: push_idle_def ob well_behaved_stages Let_def)
  next
    case (Some tr)
    then show ?thesis using mined_intros(4) [of G "f\<lparr> pfr_stages := m \<rparr>"]
      by (simp add: push_idle_def ob well_behaved_def lookback_bounded_def release_lookback_def Let_def)
  qed
qed

lemma well_behaved_open: "well_behaved f (fst (push_open G f line view o1))"
  by (auto simp: push_open_def close_def open_record_def Let_def well_behaved_def lookback_bounded_def split_beta
      split: option.splits)

lemma well_behaved_quarantined: "well_behaved f (push_quarantined G f line)"
proof -
  obtain e1 f1 where c: "close f ''garbage'' = (e1, f1)" by fastforce
  obtain e2 f2 where r: "release_lookback G f1 = (e2, f2)" by fastforce
  obtain e3 f3 where g: "close_garbage f2 = (e3, f3)" by fastforce
  have "well_behaved f (e1 @ e2, f2)"
    using well_behaved_trans well_behaved_parts(1) [of f "''garbage''"] well_behaved_parts(2) [of f1 G] c r by metis
  moreover from this have "well_behaved f ((e1 @ e2) @ e3, f3)"
    using well_behaved_trans well_behaved_parts(3) [of f2] g by metis
  ultimately show ?thesis
    by (auto simp: push_quarantined_def c r g Let_def well_behaved_def lookback_bounded_def split: option.splits)
qed

lemma well_behaved_push: "well_behaved f (ProfileFramer_push G f line)"
proof (cases "fi_garbage line \<or> fi_binary line")
  case True
  then show ?thesis by (simp add: ProfileFramer_push_def well_behaved_quarantined)
next
  case False
  obtain e0 f0 where g: "close_garbage f = (e0, f0)" by fastforce
  have wg: "well_behaved f (e0, f0)" using well_behaved_parts(3) [of f] g by simp
  let ?view = "framer_view G f0 (fi_text line)"
  let ?over = "find (\<lambda>p. pf_overlay p \<and> pf_name p \<noteq> pf_name (pfr_active f0) \<and> claims p ?view) (pfr_set f0)"
  have idle: "well_behaved f (e @ fst (push_idle G f' line ?view ?over), snd (push_idle G f' line ?view ?over))"
    if "well_behaved f (e, f')" for e f'
    using well_behaved_trans [OF that, of "fst (push_idle G f' line ?view ?over)" "snd (push_idle G f' line ?view ?over)"]
      well_behaved_idle [of f' G line ?view ?over] by simp
  show ?thesis
  proof (cases "pfr_open f0")
    case None
    with False g idle [OF wg] show ?thesis by (simp add: ProfileFramer_push_def split_beta Let_def)
  next
    case (Some o1)
    obtain e1 f1 h where po: "push_open G f0 line ?view o1 = ((e1, f1), h)" by (metis prod.collapse)
    have "well_behaved f (e0 @ e1, f1)"
      using well_behaved_trans [OF wg] well_behaved_open [of f0 G line ?view o1] po by simp
    with idle [OF this] False g Some po show ?thesis
      by (cases h) (simp_all add: ProfileFramer_push_def split_beta Let_def)
  qed
qed

lemma well_behaved_tick: "well_behaved f (ProfileFramer_tick G f now)"
  using mined_intros(4) [of G f]
  by (auto simp: ProfileFramer_tick_def close_def close_garbage_def release_lookback_def Let_def well_behaved_def
      lookback_bounded_def split: option.splits)

lemma well_behaved_run: "well_behaved f (framer_run G f xs)"
proof (induction xs arbitrary: f)
  case Nil
  then show ?case by (simp add: well_behaved_def)
next
  case (Cons x xs)
  obtain e1 f1 where s: "(case x of Inl l \<Rightarrow> ProfileFramer_push G f l | Inr now \<Rightarrow> ProfileFramer_tick G f now) = (e1, f1)"
    by fastforce
  then have "well_behaved f (e1, f1)"
    using well_behaved_push [of f G] well_behaved_tick [of f G] by (metis sum.case_eq_if)
  with Cons.IH [of f1] s show ?case
    by (cases "framer_run G f1 xs") (simp add: well_behaved_trans)
qed

section \<open>A small concrete framer\<close>

definition sample_config :: FramerConfig where
  "sample_config = FramerConfig_default\<lparr> fc_lookback_lines := 2, fc_max_record_lines := 4 \<rparr>"

definition sample_framer :: ProfileFramer where
  "sample_framer = projr (ProfileFramer_new sample_set sample_config None)"

lemma sample_framer_new: "ProfileFramer_new sample_set sample_config None = Inr sample_framer"
  by (simp add: sample_framer_def ProfileFramer_new_def sample_machine_new map_ok_def)

section \<open>Properties\<close>

text \<open>C2. Framing is a partition, not a filter: for every profile set, configuration and pinning,
  every sequence of lines and clock ticks, the records reported by pushing, ticking and the
  final flush cover consecutive runs of the offered lines, in order, each line exactly once,
  with the right line counts.\<close>

theorem framer_conservation:
  "ProfileFramer_new ps cfg pin = Inr f \<Longrightarrow>
   tiles (offered_ids xs) (fst (framer_run G f xs) @ fst (ProfileFramer_flush G (snd (framer_run G f xs)))) []"
  unfolding framer_run_eq offered_ids_eq by (rule framer.run_flush_tiles) (rule new_framer_inv)

theorem framer_conservation_witness:
  "tiles [1, 2] (fst (framer_run sample_generic sample_framer [Inl (FramerInput_new 1 ''U-Boot 2024'' 0), Inr 5, Inl (FramerInput_new 2 ''panic'' 9)]) @
     fst (ProfileFramer_flush sample_generic (snd (framer_run sample_generic sample_framer
       [Inl (FramerInput_new 1 ''U-Boot 2024'' 0), Inr 5, Inl (FramerInput_new 2 ''panic'' 9)])))) []"
  using framer_conservation [OF sample_framer_new, of "[Inl (FramerInput_new 1 ''U-Boot 2024'' 0), Inr 5, Inl (FramerInput_new 2 ''panic'' 9)]" sample_generic]
  by (simp only: offered_ids.simps FramerInput_new_def FramerInput.simps)

text \<open>The live assertion never fires: for ascending line ids the conservation check accepts
  the events reported so far at every moment, and the events after a flush.\<close>

theorem framer_passes_conservation_check:
  assumes "ProfileFramer_new ps cfg pin = Inr f" and "sorted_wrt (<) (offered_ids xs)"
  shows "check_conservation (offered_ids xs) (fst (framer_run G f xs)) = Inr () \<and>
    check_conservation (offered_ids xs)
      (fst (framer_run G f xs) @ fst (ProfileFramer_flush G (snd (framer_run G f xs)))) = Inr ()"
  using framer.run_check [OF new_framer_inv [OF assms(1)], of xs] assms(2)
  by (simp add: framer_run_eq offered_ids_eq)

theorem framer_passes_conservation_check_witness:
  "check_conservation [1, 2] (fst (framer_run sample_generic sample_framer
     [Inl (FramerInput_new 1 ''hello'' 0), Inl (FramerInput_new 2 ''panic'' 9)])) = Inr ()"
  using framer_passes_conservation_check [OF sample_framer_new, of "[Inl (FramerInput_new 1 ''hello'' 0), Inl (FramerInput_new 2 ''panic'' 9)]" sample_generic]
  by (simp del: framer_run.simps add: FramerInput_new_def)

text \<open>Nothing quarantined is mined, and nothing else is withheld: over every run a record
  carries a mining key exactly when its kind is minable, and the number of lines held back
  for retro-attachment never exceeds the configured depth.\<close>

theorem framer_quarantine_and_bound:
  assumes "ProfileFramer_new ps cfg pin = Inr f"
  shows "list_all mined_iff_minable (fst (framer_run G f xs)) \<and>
    lookback_len (snd (framer_run G f xs)) \<le> fc_lookback_lines cfg"
proof -
  have "lookback_bounded f" "pfr_lookback_depth f = fc_lookback_lines cfg"
    using assms by (cases "StageMachine_new ps pin"; auto simp: ProfileFramer_new_def map_ok_def lookback_bounded_def)+
  with well_behaved_run [of f G xs] show ?thesis
    by (simp add: well_behaved_def lookback_bounded_def lookback_len_def)
qed

theorem framer_quarantine_and_bound_witness:
  "lookback_len (snd (framer_run sample_generic sample_framer [Inl (FramerInput_new 1 ''hello'' 0)])) \<le> 2"
  using framer_quarantine_and_bound [OF sample_framer_new, of sample_generic "[Inl (FramerInput_new 1 ''hello'' 0)]"]
  by (simp add: sample_config_def)

text \<open>Garbage never reaches the grammar: a garbage or binary line closes and releases what
  was pending, leaves the stage machine and the active profile alone, and ends up as the
  last line of a quarantined run of its kind.\<close>

theorem garbage_is_quarantined:
  assumes "fi_garbage line \<or> fi_binary line"
  shows "let f' = snd (ProfileFramer_push G f line) in
    pfr_stages f' = pfr_stages f \<and> pfr_active f' = pfr_active f \<and> pfr_open f' = None \<and> pfr_lookback f' = [] \<and>
    (\<exists>g. pfr_garbage_run f' = Some g \<and> op_last_line_id g = fi_line_id line \<and>
       last (op_lines g) = fi_text line \<and> op_kind g = (if fi_binary line then Binary else Garbage))"
  using assms
  by (auto simp: ProfileFramer_push_def push_quarantined_def close_def close_garbage_def release_lookback_def
      join_line_def Let_def split: option.splits)

theorem garbage_is_quarantined_witness:
  "pfr_lookback (snd (ProfileFramer_push sample_generic sample_framer
     ((FramerInput_new 3 ''x'' 0)\<lparr> fi_garbage := True \<rparr>))) = []"
  using garbage_is_quarantined [of "(FramerInput_new 3 ''x'' 0)\<lparr> fi_garbage := True \<rparr>" sample_generic sample_framer]
  by (simp add: Let_def)

text \<open>A crash trigger is never swallowed: a clean line that arrives while no record is open,
  causes no stage transition and matches a trigger of its owner opens a record of the
  trigger's kind and severity that ends with this line and is mined under its key.\<close>

theorem trigger_opens_record:
  assumes "\<not> fi_garbage line" "\<not> fi_binary line" "pfr_open f = None"
    and "view = framer_view G f (fi_text line)"
    and "over = find (\<lambda>p. pf_overlay p \<and> pf_name p \<noteq> pf_name (pfr_active f) \<and> claims p view) (pfr_set f)"
    and "owner = (case over of Some p \<Rightarrow> p | None \<Rightarrow> pfr_active f)"
    and "fst (observe G (pfr_stages f) view (fi_line_id line) (fi_ts_wall line)) = None"
    and "trigger owner (mine_key G owner view) = Some t"
  shows "\<exists>o1. pfr_open (snd (ProfileFramer_push G f line)) = Some o1 \<and> op_kind o1 = tg_kind t \<and>
    op_severity o1 = tg_severity t \<and> op_last_line_id o1 = fi_line_id line \<and> last (op_lines o1) = view \<and>
    op_mine_key o1 = mine_key G owner view \<and> op_owner o1 = owner"
proof -
  let ?f = "f\<lparr> pfr_garbage_run := None \<rparr>"
  have v: "framer_view G ?f (fi_text line) = view" using assms(4) by (simp add: framer_view_def)
  obtain m where ob: "observe G (pfr_stages f) view (fi_line_id line) (fi_ts_wall line) = (None, m)"
    using assms(7) by (metis prod.collapse)
  have "snd (ProfileFramer_push G f line) = snd (push_grammar G (?f\<lparr> pfr_stages := m \<rparr>) line view owner)"
    using assms(1-3,5,6) v ob
    by (simp add: ProfileFramer_push_def close_garbage_def push_idle_def split_beta Let_def cong: option.case_cong)
  also have "\<exists>o1. pfr_open \<dots> = Some o1 \<and> op_kind o1 = tg_kind t \<and>
    op_severity o1 = tg_severity t \<and> op_last_line_id o1 = fi_line_id line \<and> last (op_lines o1) = view \<and>
    op_mine_key o1 = mine_key G owner view \<and> op_owner o1 = owner"
    using assms(8) by (simp add: push_grammar_def open_record_def trig_info_def release_lookback_def Let_def)
  finally show ?thesis .
qed

theorem trigger_opens_record_witness:
  "\<exists>o1. pfr_open (snd (ProfileFramer_push sample_generic (sample_framer\<lparr> pfr_active := sample_boot \<rparr>)
     (FramerInput_new 4 ''panic'' 0))) = Some o1 \<and> op_kind o1 = Crash"
proof -
  let ?f = "sample_framer\<lparr> pfr_active := sample_boot \<rparr>" and ?l = "FramerInput_new 4 ''panic'' 0"
  have key: "mine_key sample_generic sample_boot ''panic'' = ''panic''"
    by (simp add: mine_key_def sample_defs structured_key_def first_some_def trim_def trim_end_def trim_start_def is_ws_def)
  have "\<exists>o1. pfr_open (snd (ProfileFramer_push sample_generic ?f ?l)) = Some o1 \<and>
      op_kind o1 = tg_kind (hd (pf_triggers sample_boot)) \<and> op_severity o1 = tg_severity (hd (pf_triggers sample_boot)) \<and>
      op_last_line_id o1 = fi_line_id ?l \<and> last (op_lines o1) = ''panic'' \<and>
      op_mine_key o1 = mine_key sample_generic sample_boot ''panic'' \<and> op_owner o1 = sample_boot"
    by (rule trigger_opens_record [where over = None])
      (simp_all add: key, simp_all add: FramerInput_new_def sample_framer_def ProfileFramer_new_def framer_view_def
        trigger_def observe_def is_reset_marker_def any_match_def generic_is_reset_marker_def sample_defs str_contains_def str_find.simps
        starts_with_def)
  then show ?thesis by (auto simp: sample_defs)
qed

section \<open>Two observations about attribution\<close>

text \<open>Two profiles that name the same stage: the second banner switches the stage machine's
  profile without a transition, so the framer goes on with the first profile's grammar.\<close>

definition twin_set :: ProfileSet where
  "twin_set = [(sample_profile ''alpha'' 10 [])\<lparr> pf_banners := [\<lparr> bn_re = sample_regex ''A'', bn_stage = ''boot'', bn_rank = 10 \<rparr>] \<rparr>,
     (sample_profile ''beta'' 20 [])\<lparr> pf_banners := [\<lparr> bn_re = sample_regex ''B'', bn_stage = ''boot'', bn_rank = 20 \<rparr>] \<rparr>,
     sample_profile ''raw'' 100 []]"

lemma framer_profile_can_lag:
  "let f = snd (framer_run sample_generic (projr (ProfileFramer_new twin_set sample_config None))
         [Inl (FramerInput_new 1 ''A'' 0), Inl (FramerInput_new 2 ''B'' 0)])
   in pf_name (sm_active (pfr_stages f)) = ''beta'' \<and> pf_name (pfr_active f) = ''alpha''"
  by code_simp

text \<open>A line held for retro-attachment that is released by a banner is stamped with the stage
  the banner enters, although it came before it.\<close>

lemma held_line_gets_next_stage:
  "let f = (projr (ProfileFramer_new sample_set sample_config None))
         \<lparr> pfr_active := (sample_profile ''raw'' 100 [])\<lparr> pf_lookback := [sample_regex ''fault''] \<rparr> \<rparr>
   in map (\<lambda>e. case e of Record r \<Rightarrow> (fr_first_line_id r, fr_stage r) | Stage t \<Rightarrow> (0, Some (st_name t)))
        (fst (framer_run sample_generic f [Inl (FramerInput_new 1 ''fault'' 0), Inl (FramerInput_new 2 ''U-Boot'' 0)]))
      = [(1, Some ''uboot''), (0, Some ''uboot''), (2, Some ''uboot'')]"
  by code_simp

end
