(* ===== verification/Bisect.thy ===== *)
theory Bisect
  imports Store_Types
begin

text \<open>
  Bisecting an ordered list of builds (\<^verbatim>\<open>crates/conminer-core/src/bisect.rs\<close>): which candidate
  to test next and when the first bad one is pinned. The theorems follow a whole search
  against a monotone failure, with unflashable candidates skipped.
\<close>

section \<open>Data\<close>

record BisectResult =
  br_idx :: nat
  br_verdict :: string
  br_boot_id :: "int option"
  br_at :: int
  br_note :: "string option"

record Bisect =
  bi_id :: int
  bi_name :: string
  bi_candidates :: "string list"
  bi_predicate :: json
  bi_started_at :: int
  bi_finished_at :: "int option"
  bi_culprit :: "string option"
  bi_state :: string
  bi_results :: "BisectResult list"

datatype Step =
    Test (test_index: nat) (test_candidate: string) (remaining: nat) (max_further_tests: nat)
  | Found (found_index: nat) (found_candidate: string) (last_good: "string option")
  | Inconclusive (between: "string option \<times> string option") (skipped: "string list")
  | NeedEnds (untested_ends: "nat list")

section \<open>Operations\<close>

definition nth_opt :: "'a list \<Rightarrow> nat \<Rightarrow> 'a option" where
  "nth_opt xs i = (if i < length xs then Some (xs ! i) else None)"

definition Bisect_verdict :: "Bisect \<Rightarrow> nat \<Rightarrow> string option" where
  "Bisect_verdict b idx = map_option br_verdict (find (\<lambda>r. br_idx r = idx) (bi_results b))"

definition max_opt :: "nat list \<Rightarrow> nat option" where
  "max_opt xs = (if xs = [] then None else Some (Max (set xs)))"

definition min_opt :: "nat list \<Rightarrow> nat option" where
  "min_opt xs = (if xs = [] then None else Some (Min (set xs)))"

definition indices_with :: "Bisect \<Rightarrow> string \<Rightarrow> nat list" where
  "indices_with b v = map br_idx (filter (\<lambda>r. br_verdict r = v) (bi_results b))"

definition bounds :: "Bisect \<Rightarrow> nat option \<times> nat option" where
  "bounds b = (max_opt (indices_with b ''good''), min_opt (indices_with b ''bad''))"

text \<open>Whether there is a contradiction; the code wraps the two candidates into a sentence.\<close>

definition contradiction :: "Bisect \<Rightarrow> (string \<times> string) option" where
  "contradiction b =
     (case bounds b of
        (Some g, Some d) \<Rightarrow>
          if g \<ge> d then Some (case nth_opt (bi_candidates b) g of Some c \<Rightarrow> c | None \<Rightarrow> [],
                             case nth_opt (bi_candidates b) d of Some c \<Rightarrow> c | None \<Rightarrow> [])
          else None
      | _ \<Rightarrow> None)"

fun bits :: "nat \<Rightarrow> nat" where
  "bits n = (if n > 1 then Suc (bits (n div 2)) else 0)"

declare bits.simps [simp del]

definition abs_diff :: "nat \<Rightarrow> nat \<Rightarrow> nat" where
  "abs_diff i j = (if i \<ge> j then i - j else j - i)"

definition open_between :: "Bisect \<Rightarrow> nat \<Rightarrow> nat \<Rightarrow> nat list" where
  "open_between b g d = filter (\<lambda>i. Bisect_verdict b i = None) [g + 1..<d]"

definition skipped_between :: "Bisect \<Rightarrow> nat \<Rightarrow> nat \<Rightarrow> string list" where
  "skipped_between b g d =
     List.map_filter (nth_opt (bi_candidates b)) (filter (\<lambda>i. Bisect_verdict b i = Some ''skip'') [g + 1..<d])"

text \<open>Indexing the candidates panics out of range, which is \<^const>\<open>None\<close>.\<close>

definition with_candidate :: "Bisect \<Rightarrow> nat \<Rightarrow> (string \<Rightarrow> Step) \<Rightarrow> Step option" where
  "with_candidate b i step = map_option step (nth_opt (bi_candidates b) i)"

definition next_step :: "Bisect \<Rightarrow> Step option" where
  "next_step b =
     (let n = length (bi_candidates b); cand = nth_opt (bi_candidates b)
      in case bounds b of
           (Some g, Some d) \<Rightarrow>
             if g \<ge> d then with_candidate b d (\<lambda>c. Found d c (cand g))
             else let free = open_between b g d
                  in if free = [] then
                       (if skipped_between b g d = [] then with_candidate b d (\<lambda>c. Found d c (cand g))
                        else Some (Inconclusive (cand g, cand d) (skipped_between b g d)))
                     else let mid = (g + d) div 2;
                              idx = arg_min_list (\<lambda>i. abs_diff i mid) free
                          in with_candidate b idx (\<lambda>c. Test idx c (length free) (bits (length free)))
         | (good, bad) \<Rightarrow>
             let ends = (if good = None \<and> Bisect_verdict b 0 = None then [0] else [])
                      @ (if bad = None \<and> n > 0 \<and> Bisect_verdict b (n - 1) = None then [n - 1] else [])
             in if ends \<noteq> [] then with_candidate b (hd ends) (\<lambda>c. Test (hd ends) c n (bits n + 1))
                else Some (NeedEnds ends))"

definition index_of :: "Bisect \<Rightarrow> string \<Rightarrow> ErrorCode + nat" where
  "index_of b reference =
     (case find (\<lambda>i. bi_candidates b ! i = reference) [0..<length (bi_candidates b)] of
        Some i \<Rightarrow> Inr i
      | None \<Rightarrow>
          (case from_str_radix (2 ^ 64) 10 reference of
             Some i \<Rightarrow> if i < length (bi_candidates b) then Inr i else Inl InvalidArgument
           | None \<Rightarrow> Inl InvalidArgument))"

section \<open>Searching\<close>

text \<open>The caller's loop: test the candidate the search names, record its verdict, ask again.
  \<open>fuel\<close> bounds the number of tests; \<^const>\<open>None\<close> is a panic or the fuel spent.\<close>

definition report :: "Bisect \<Rightarrow> nat \<Rightarrow> string \<Rightarrow> Bisect" where
  "report b i v = b\<lparr> bi_results := bi_results b @
     [\<lparr> br_idx = i, br_verdict = v, br_boot_id = None, br_at = 0, br_note = None \<rparr>] \<rparr>"

fun search :: "(nat \<Rightarrow> string) \<Rightarrow> nat \<Rightarrow> Bisect \<Rightarrow> Step option" where
  "search oracle fuel b =
     (case next_step b of
        Some (Test i c r m) \<Rightarrow>
          (case fuel of 0 \<Rightarrow> None | Suc k \<Rightarrow> search oracle k (report b i (oracle i)))
      | s \<Rightarrow> s)"

declare search.simps [simp del]

text \<open>A failure introduced at candidate \<open>k\<close>: everything before is good, everything from it on
  is bad, and any candidate but the two ends may be untestable.\<close>

definition introduced_at :: "nat \<Rightarrow> nat \<Rightarrow> (nat \<Rightarrow> string) \<Rightarrow> bool" where
  "introduced_at n k oracle \<longleftrightarrow> 0 < k \<and> k < n \<and> oracle 0 = ''good'' \<and> oracle (n - 1) = ''bad'' \<and>
     (\<forall>i < n. oracle i = ''skip'' \<or> oracle i = (if i < k then ''good'' else ''bad''))"

lemma introduced_at_sides:
  assumes "introduced_at n k oracle" and "i < n"
  shows "oracle i = ''good'' \<Longrightarrow> i < k" and "oracle i = ''bad'' \<Longrightarrow> k \<le> i"
    and "oracle i \<in> {''good'', ''bad'', ''skip''}"
  using assms by (auto simp: introduced_at_def dest!: spec [where x = i] split: if_splits)

text \<open>Every recorded verdict is the oracle's, each index at most once.\<close>

definition consistent :: "(nat \<Rightarrow> string) \<Rightarrow> Bisect \<Rightarrow> bool" where
  "consistent oracle b \<longleftrightarrow> distinct (map br_idx (bi_results b)) \<and>
     list_all (\<lambda>r. br_idx r < length (bi_candidates b) \<and> br_verdict r = oracle (br_idx r)) (bi_results b)"

lemma verdict_consistent:
  assumes "consistent oracle b"
  shows "Bisect_verdict b i = (if i \<in> set (map br_idx (bi_results b)) then Some (oracle i) else None)"
proof (cases "find (\<lambda>r. br_idx r = i) (bi_results b)")
  case None
  then have "i \<notin> set (map br_idx (bi_results b))" by (auto simp: find_None_iff)
  with None show ?thesis by (simp add: Bisect_verdict_def)
next
  case (Some r)
  then have "r \<in> set (bi_results b)" "br_idx r = i" by (auto simp: find_Some_iff)
  with Some assms show ?thesis by (auto simp: Bisect_verdict_def consistent_def list_all_iff)
qed

lemma indices_consistent:
  "consistent oracle b \<Longrightarrow> set (indices_with b v) = {i \<in> set (map br_idx (bi_results b)). oracle i = v}"
  by (force simp: indices_with_def consistent_def list_all_iff)

lemma report_consistent:
  "consistent oracle b \<Longrightarrow> i < length (bi_candidates b) \<Longrightarrow> Bisect_verdict b i = None \<Longrightarrow>
   consistent oracle (report b i (oracle i))"
  by (auto simp: consistent_def report_def Bisect_verdict_def find_None_iff)

lemma report_fields [simp]: "bi_candidates (report b i v) = bi_candidates b"
  "length (bi_results (report b i v)) = Suc (length (bi_results b))"
  by (simp_all add: report_def)

lemma max_opt_some: "max_opt xs = Some m \<Longrightarrow> m \<in> set xs \<and> (\<forall>x \<in> set xs. x \<le> m)"
  by (auto simp: max_opt_def split: if_splits)

lemma min_opt_some: "min_opt xs = Some m \<Longrightarrow> m \<in> set xs \<and> (\<forall>x \<in> set xs. m \<le> x)"
  by (auto simp: min_opt_def split: if_splits)

text \<open>Bounds of a consistent search lie on their side of the failure.\<close>

lemma bounds_sound:
  assumes "consistent oracle b" and "introduced_at (length (bi_candidates b)) k oracle"
    and "bounds b = (Some g, Some d)"
  shows "g < k" and "k \<le> d" and "d < length (bi_candidates b)" and "g \<in> set (map br_idx (bi_results b))"
    and "\<And>i. i \<in> set (map br_idx (bi_results b)) \<Longrightarrow> g < i \<Longrightarrow> i < d \<Longrightarrow> oracle i = ''skip''"
proof -
  have g: "g \<in> set (indices_with b ''good'')" "\<forall>x \<in> set (indices_with b ''good''). x \<le> g"
    and d: "d \<in> set (indices_with b ''bad'')" "\<forall>x \<in> set (indices_with b ''bad''). d \<le> x"
    using assms(3) max_opt_some min_opt_some by (auto simp: bounds_def)
  have range: "\<forall>i \<in> set (map br_idx (bi_results b)). i < length (bi_candidates b)"
    using assms(1) by (auto simp: consistent_def list_all_iff)
  have g': "g \<in> set (map br_idx (bi_results b))" "oracle g = ''good''"
    and d': "d \<in> set (map br_idx (bi_results b))" "oracle d = ''bad''"
    using g(1) d(1) indices_consistent [OF assms(1)] by auto
  show "g \<in> set (map br_idx (bi_results b))" by (rule g')
  show "d < length (bi_candidates b)" using d' range by blast
  show "g < k" using introduced_at_sides(1) [OF assms(2)] g' range by blast
  show "k \<le> d" using introduced_at_sides(2) [OF assms(2)] d' range by blast
  fix i assume i: "i \<in> set (map br_idx (bi_results b))" "g < i" "i < d"
  then have "i \<notin> set (indices_with b ''good'')" "i \<notin> set (indices_with b ''bad'')"
    using g(2) d(2) by force+
  then have "oracle i \<noteq> ''good''" "oracle i \<noteq> ''bad''"
    using i(1) indices_consistent [OF assms(1)] by auto
  then show "oracle i = ''skip''" using introduced_at_sides(3) [OF assms(2)] i(1) range by blast
qed

text \<open>A candidate the search asks for is in range and untested.\<close>

lemma test_is_new:
  assumes "next_step b = Some (Test i c r m)" and "bi_candidates b \<noteq> []"
    and "\<And>g d. bounds b = (Some g, Some d) \<Longrightarrow> d < length (bi_candidates b)"
  shows "i < length (bi_candidates b) \<and> Bisect_verdict b i = None"
proof (cases "\<exists>g d. bounds b = (Some g, Some d)")
  case True
  then obtain g d where gd: "bounds b = (Some g, Some d)" by blast
  with assms(1) have free: "open_between b g d \<noteq> []" and i: "i = arg_min_list (\<lambda>i. abs_diff i ((g + d) div 2)) (open_between b g d)"
    by (auto simp: next_step_def with_candidate_def Let_def split: if_splits)
  then have "i \<in> set (open_between b g d)" by (simp add: arg_min_list_in)
  with assms(3) [OF gd] show ?thesis by (auto simp: open_between_def)
next
  case False
  with assms(1,2) show ?thesis
    by (cases "bounds b"; cases "fst (bounds b)"; cases "snd (bounds b)")
      (auto simp: next_step_def with_candidate_def Let_def split: if_splits)
qed

text \<open>What a search that has stopped may say.\<close>

definition right_answer :: "nat \<Rightarrow> (nat \<Rightarrow> string) \<Rightarrow> string list \<Rightarrow> Step \<Rightarrow> bool" where
  "right_answer k oracle cs s \<longleftrightarrow> (case s of
     Found i c lg \<Rightarrow> i = k \<and> c = cs ! k \<and> lg = Some (cs ! (k - 1))
   | Inconclusive gd sk \<Rightarrow> (\<exists>g d. gd = (Some (cs ! g), Some (cs ! d)) \<and> g < k \<and> k \<le> d \<and> d < length cs \<and> sk \<noteq> [] \<and>
       (\<forall>i. g < i \<and> i < d \<longrightarrow> oracle i = ''skip''))
   | _ \<Rightarrow> False)"

lemma stop_is_right:
  assumes "consistent oracle b" and "introduced_at (length (bi_candidates b)) k oracle"
  shows "(\<exists>i c r m. next_step b = Some (Test i c r m)) \<or> (\<exists>s. next_step b = Some s \<and> right_answer k oracle (bi_candidates b) s)"
proof (cases "\<exists>g d. bounds b = (Some g, Some d)")
  case True
  then obtain g d where gd: "bounds b = (Some g, Some d)" by blast
  note s = bounds_sound [OF assms gd]
  have g: "g < length (bi_candidates b)" "\<not> g \<ge> d" using s(1-3) by simp_all
  show ?thesis
  proof (cases "open_between b g d = []")
    case False
    let ?i = "arg_min_list (\<lambda>i. abs_diff i ((g + d) div 2)) (open_between b g d)"
    have "?i \<in> set (open_between b g d)" using False by (simp add: arg_min_list_in)
    then have "?i < length (bi_candidates b)" using s(3) by (simp add: open_between_def)
    with False gd g show ?thesis by (simp add: next_step_def with_candidate_def Let_def nth_opt_def)
  next
    case True
    then have "Bisect_verdict b i \<noteq> None" if "g < i" "i < d" for i
      using that by (simp add: open_between_def filter_empty_conv)
    then have tested: "i \<in> set (map br_idx (bi_results b))" if "g < i" "i < d" for i
      using that verdict_consistent [OF assms(1), of i] by (metis (full_types))
    then have skip: "oracle i = ''skip''" if "g < i" "i < d" for i using s(5) that by blast
    have "d = Suc g" if "skipped_between b g d = []"
    proof (rule ccontr)
      assume "d \<noteq> Suc g"
      then have i: "Suc g < d" using g(2) by simp
      then have "Bisect_verdict b (Suc g) = Some ''skip''"
        using verdict_consistent [OF assms(1)] tested [of "Suc g"] skip [of "Suc g"] by simp
      then have "Suc g \<in> set (filter (\<lambda>i. Bisect_verdict b i = Some ''skip'') [g + 1..<d])" using i by simp
      moreover have "nth_opt (bi_candidates b) (Suc g) \<noteq> None" using i s(3) by (simp add: nth_opt_def)
      ultimately show False using that by (force simp: skipped_between_def List.map_filter_def filter_empty_conv)
    qed
    moreover have "k = d" if "d = Suc g" using that s(1,2) by simp
    ultimately have pin: "skipped_between b g d = [] \<Longrightarrow> d = Suc g \<and> k = d" by blast
    have ends: "nth_opt (bi_candidates b) g = Some (bi_candidates b ! g)"
      "nth_opt (bi_candidates b) d = Some (bi_candidates b ! d)" using g s(3) by (simp_all add: nth_opt_def)
    show ?thesis
    proof (cases "skipped_between b g d = []")
      case found: True
      with pin True gd g ends show ?thesis by (simp add: next_step_def with_candidate_def Let_def right_answer_def)
    next
      case False
      with True gd g ends have "next_step b = Some (Inconclusive (Some (bi_candidates b ! g), Some (bi_candidates b ! d)) (skipped_between b g d))"
        by (simp add: next_step_def with_candidate_def Let_def)
      with False s(1-3) skip show ?thesis by (simp add: right_answer_def) blast
    qed
  qed
next
  case False
  have "fst (bounds b) = None \<Longrightarrow> Bisect_verdict b 0 = None"
    using verdict_consistent [OF assms(1), of 0] indices_consistent [OF assms(1), of "''good''"] assms(2)
    by (auto simp: bounds_def max_opt_def introduced_at_def split: if_splits)
  moreover have "snd (bounds b) = None \<Longrightarrow> Bisect_verdict b (length (bi_candidates b) - 1) = None"
    using verdict_consistent [OF assms(1), of "length (bi_candidates b) - 1"]
      indices_consistent [OF assms(1), of "''bad''"] assms(2)
    by (auto simp: bounds_def min_opt_def introduced_at_def split: if_splits)
  moreover have "0 < length (bi_candidates b)" using assms(2) by (auto simp: introduced_at_def)
  ultimately show ?thesis using False
    by (cases "bounds b"; cases "fst (bounds b)"; cases "snd (bounds b)") (auto simp: next_step_def with_candidate_def Let_def nth_opt_def)
qed

lemma consistent_length: "consistent oracle b \<Longrightarrow> length (bi_results b) \<le> length (bi_candidates b)"
proof -
  assume c: "consistent oracle b"
  then have "set (map br_idx (bi_results b)) \<subseteq> {..<length (bi_candidates b)}"
    by (auto simp: consistent_def list_all_iff)
  from card_mono [OF _ this] have "card (set (map br_idx (bi_results b))) \<le> length (bi_candidates b)" by simp
  moreover have "card (set (map br_idx (bi_results b))) = length (bi_results b)"
    using c distinct_card [of "map br_idx (bi_results b)"] by (simp add: consistent_def del: set_map)
  ultimately show ?thesis by simp
qed

lemma search_step:
  assumes "consistent oracle b" and "introduced_at (length (bi_candidates b)) k oracle"
    and "next_step b = Some (Test i c r m)"
  shows "consistent oracle (report b i (oracle i))"
proof -
  have "bi_candidates b \<noteq> []" using assms(2) by (auto simp: introduced_at_def)
  from test_is_new [OF assms(3) this bounds_sound(3) [OF assms(1,2)]] report_consistent [OF assms(1), of i]
  show ?thesis by simp
qed

lemma search_right:
  assumes "consistent oracle b" and "introduced_at (length (bi_candidates b)) k oracle"
    and "length (bi_candidates b) \<le> length (bi_results b) + fuel"
  shows "\<exists>s. search oracle fuel b = Some s \<and> right_answer k oracle (bi_candidates b) s"
  using assms
proof (induction fuel arbitrary: b rule: nat.induct)
  case (zero b)
  have "\<not> (\<exists>i c r m. next_step b = Some (Test i c r m))"
    using search_step [OF zero(1,2)] consistent_length zero(3) by fastforce
  with stop_is_right [OF zero(1,2)] show ?case
    by (auto simp: search.simps [of _ _ b] split: Step.splits)
next
  case (Suc fuel b)
  show ?case
  proof (cases "\<exists>i c r m. next_step b = Some (Test i c r m)")
    case True
    then obtain i c r m where t: "next_step b = Some (Test i c r m)" by blast
    from Suc.IH [OF search_step [OF Suc.prems(1,2) t]] Suc.prems t show ?thesis
      by (simp add: search.simps [of _ _ b])
  next
    case False
    with stop_is_right [OF Suc.prems(1,2)] show ?thesis
      by (auto simp: search.simps [of _ _ b] split: Step.splits)
  qed
qed

section \<open>Properties\<close>

text \<open>A search ends with the right answer: against a failure introduced at candidate \<open>k\<close>,
  with any inner candidates untestable, at most as many tests as there are candidates are
  asked for, and the search then either names exactly \<open>k\<close> with the last good candidate
  before it, or says that everything strictly between two tested candidates around the
  culprit was skipped. It never names a wrong candidate.\<close>

theorem bisect_finds_the_culprit:
  assumes "introduced_at (length (bi_candidates b)) k oracle" and "bi_results b = []"
    and "length (bi_candidates b) \<le> fuel"
  shows "\<exists>s. search oracle fuel b = Some s \<and> right_answer k oracle (bi_candidates b) s"
  by (rule search_right) (use assms in \<open>simp_all add: consistent_def\<close>)

definition sample_bisect :: "string list \<Rightarrow> BisectResult list \<Rightarrow> Bisect" where
  "sample_bisect cs rs = \<lparr> bi_id = 1, bi_name = ''b'', bi_candidates = cs, bi_predicate = JNull, bi_started_at = 0,
     bi_finished_at = None, bi_culprit = None, bi_state = ''running'', bi_results = rs \<rparr>"

theorem bisect_finds_the_culprit_witness:
  "\<exists>s. search (\<lambda>i. if i < 2 then ''good'' else ''bad'') 4 (sample_bisect [''a'', ''b'', ''c'', ''d''] []) = Some s \<and>
     right_answer 2 (\<lambda>i. if i < 2 then ''good'' else ''bad'') [''a'', ''b'', ''c'', ''d''] s"
  using bisect_finds_the_culprit [of "sample_bisect [''a'', ''b'', ''c'', ''d''] []" 2 "\<lambda>i. if i < 2 then ''good'' else ''bad''" 4]
  by (simp add: sample_bisect_def introduced_at_def)

text \<open>The promised bound on further tests is too small: with the ends established and one
  candidate left to test, the step that asks for this test announces none.\<close>

lemma further_tests_underestimated:
  "next_step (report (report (sample_bisect [''a'', ''b'', ''c''] []) 0 ''good'') 2 ''bad'') = Some (Test 1 ''b'' 1 0)"
  by code_simp

end
