(* ===== verification/Overrides.thy ===== *)
theory Overrides
  imports Store_Types
begin

text \<open>
  Boot-mode overrides a board controller holds across boots
  (\<^verbatim>\<open>crates/conminer-core/src/overrides.rs\<close>): reading the controller's answer, what a whole
  read amounts to, and whether one boot mode is held. The theorems relate every answer to
  the lines the hook printed: released and held are only ever proven, never assumed.
\<close>

section \<open>Data\<close>

datatype Level = Released | Asserted | UnknownLevel

definition Level_parse :: "string \<Rightarrow> Level" where
  "Level_parse value =
     (if trim value = ''0'' then Released else if trim value = ''1'' then Asserted else UnknownLevel)"

fun Level_to_json :: "Level \<Rightarrow> json" where
  "Level_to_json Released = JInt 0"
| "Level_to_json Asserted = JInt 1"
| "Level_to_json UnknownLevel = JNull"

datatype Summary = Clear | Latched | UnknownSummary

fun Summary_as_str :: "Summary \<Rightarrow> string" where
  "Summary_as_str Clear = ''clear''"
| "Summary_as_str Latched = ''latched''"
| "Summary_as_str UnknownSummary = ''unknown''"

record BootOverrides =
  signals :: "(string \<times> Level) list"
  modes :: "(string \<times> string) list"

section \<open>Operations\<close>

definition is_name :: "string \<Rightarrow> bool" where
  "is_name name \<longleftrightarrow> name \<noteq> [] \<and>
     list_all (\<lambda>c. (65 \<le> (of_char c::nat) \<and> (of_char c::nat) \<le> 90) \<or> is_ascii_digit c \<or> c = CHR ''_'') name"

text \<open>The arms of the first \<^verbatim>\<open>match\<close>: whether a line is a mode declaration, and the pair it
  declares when both of its words are names.\<close>

definition is_mode_line :: "string \<Rightarrow> bool" where
  "is_mode_line line \<longleftrightarrow>
     (case split_whitespace line of [m, mode, a, held] \<Rightarrow> m = ''mode'' \<and> a = ''asserts'' | _ \<Rightarrow> False)"

definition mode_of_line :: "string \<Rightarrow> (string \<times> string) option" where
  "mode_of_line line =
     (case split_whitespace line of
        [m, mode, a, held] \<Rightarrow>
          if m = ''mode'' \<and> a = ''asserts'' \<and> is_name mode \<and> is_name held then Some (mode, held) else None
      | _ \<Rightarrow> None)"

definition signal_of_line :: "string \<Rightarrow> (string \<times> Level) option" where
  "signal_of_line line =
     (if is_mode_line line then None
      else case split_once (CHR ''='') (trim line) of
        None \<Rightarrow> None
      | Some (name, value) \<Rightarrow>
          let name = trim name in if is_name name then Some (name, Level_parse value) else None)"

fun merge_signal :: "string \<Rightarrow> Level \<Rightarrow> (string \<times> Level) list \<Rightarrow> (string \<times> Level) list" where
  "merge_signal name level [] = [(name, level)]"
| "merge_signal name level ((n, prev) # rest) =
     (if n = name then (n, if prev \<noteq> level then UnknownLevel else prev) # rest
      else (n, prev) # merge_signal name level rest)"

definition parse_line :: "BootOverrides \<Rightarrow> string \<Rightarrow> BootOverrides" where
  "parse_line o1 line =
     (if is_mode_line line then
        (case mode_of_line line of
           None \<Rightarrow> o1
         | Some pair \<Rightarrow> if pair \<in> set (modes o1) then o1 else o1\<lparr> modes := modes o1 @ [pair] \<rparr>)
      else
        (case signal_of_line line of
           None \<Rightarrow> o1
         | Some (name, level) \<Rightarrow> o1\<lparr> signals := merge_signal name level (signals o1) \<rparr>))"

definition unreadable :: BootOverrides where
  "unreadable = \<lparr> signals = [], modes = [] \<rparr>"

definition BootOverrides_parse :: "string \<Rightarrow> BootOverrides" where
  "BootOverrides_parse stdout = foldl parse_line \<lparr> signals = [], modes = [] \<rparr> (str_lines stdout)"

definition names :: "BootOverrides \<Rightarrow> Level \<Rightarrow> string list" where
  "names o1 level = map fst (filter (\<lambda>(n, l). l = level) (signals o1))"

definition asserted :: "BootOverrides \<Rightarrow> string list" where
  "asserted o1 = names o1 Asserted"

definition unknown :: "BootOverrides \<Rightarrow> string list" where
  "unknown o1 = names o1 UnknownLevel"

definition summary :: "BootOverrides \<Rightarrow> Summary" where
  "summary o1 =
     (if asserted o1 \<noteq> [] then Latched
      else if signals o1 = [] \<or> unknown o1 \<noteq> [] then UnknownSummary
      else Clear)"

definition all_released :: "BootOverrides \<Rightarrow> bool" where
  "all_released o1 \<longleftrightarrow> summary o1 = Clear"

definition mode_level :: "BootOverrides \<Rightarrow> string \<Rightarrow> Level option" where
  "mode_level o1 mode =
     (case map snd (filter (\<lambda>(m, l). m = mode) (modes o1)) of
        [] \<Rightarrow> None
      | [line] \<Rightarrow> Some (case find (\<lambda>(n, l). n = line) (signals o1) of Some (_, level) \<Rightarrow> level | None \<Rightarrow> UnknownLevel)
      | _ \<Rightarrow> Some UnknownLevel)"

definition mode_json :: "BootOverrides \<Rightarrow> string \<Rightarrow> string \<Rightarrow> json" where
  "mode_json o1 mode line =
     JObj [(''line'', if length (filter (\<lambda>(m, l). m = mode) (modes o1)) > 1 then JNull else JStr line),
           (''state'', JStr (case mode_level o1 mode of
              Some Asserted \<Rightarrow> ''held'' | Some Released \<Rightarrow> ''released'' | _ \<Rightarrow> ''unknown''))]"

definition modes_json :: "BootOverrides \<Rightarrow> json_map" where
  "modes_json o1 = foldl (\<lambda>out (mode, line). jm_insert mode (mode_json o1 mode line) out) [] (modes o1)"

definition levels_json :: "BootOverrides \<Rightarrow> json_map" where
  "levels_json o1 = foldl (\<lambda>out (n, l). jm_insert n (Level_to_json l) out) [] (signals o1)"

section \<open>What the hook printed\<close>

text \<open>The reports of a read, in order: every line \<open>NAME=value\<close> with its level, and every
  mode declaration. The specification of a signal is the level its reports agree on.\<close>

definition reports :: "string \<Rightarrow> (string \<times> Level) list" where
  "reports stdout = List.map_filter signal_of_line (str_lines stdout)"

definition declarations :: "string \<Rightarrow> (string \<times> string) list" where
  "declarations stdout = List.map_filter mode_of_line (str_lines stdout)"

definition agreed :: "Level list \<Rightarrow> Level option" where
  "agreed ls = (case ls of [] \<Rightarrow> None | l # r \<Rightarrow> Some (if list_all (\<lambda>x. x = l) r then l else UnknownLevel))"

definition reported :: "string \<Rightarrow> (string \<times> Level) list \<Rightarrow> Level list" where
  "reported n rs = map snd (filter (\<lambda>(m, l). m = n) rs)"

lemma map_filter_snoc: "List.map_filter f (xs @ [x]) = List.map_filter f xs @ (case f x of None \<Rightarrow> [] | Some y \<Rightarrow> [y])"
  by (simp add: List.map_filter_def split: option.split)

lemma merge_signal_keys:
  "map fst (merge_signal n l xs) = (if n \<in> fst ` set xs then map fst xs else map fst xs @ [n])"
  by (induction n l xs rule: merge_signal.induct) auto

lemma merge_signal_lookup:
  "map_of (merge_signal n l xs) = (map_of xs)(n \<mapsto>
     (case map_of xs n of None \<Rightarrow> l | Some p \<Rightarrow> if p \<noteq> l then UnknownLevel else p))"
  by (induction n l xs rule: merge_signal.induct) (auto simp: fun_eq_iff split: option.splits)

lemma agreed_snoc:
  "agreed (ls @ [l]) = Some (case agreed ls of None \<Rightarrow> l | Some p \<Rightarrow> if p \<noteq> l then UnknownLevel else p)"
  by (cases ls) (auto simp: agreed_def list_all_iff)

lemma mode_of_line_is_mode: "mode_of_line line = Some p \<Longrightarrow> is_mode_line line"
  by (auto simp: mode_of_line_def is_mode_line_def split: list.splits if_splits)

lemma signal_of_mode_line: "is_mode_line line \<Longrightarrow> signal_of_line line = None"
  by (simp add: signal_of_line_def)

definition parsed :: "string list \<Rightarrow> BootOverrides" where
  "parsed ls = foldl parse_line \<lparr> signals = [], modes = [] \<rparr> ls"

lemma parsed_snoc: "parsed (ls @ [l]) = parse_line (parsed ls) l"
  by (simp add: parsed_def)

lemma parsed_signals:
  "map_of (signals (parsed ls)) n = agreed (reported n (List.map_filter signal_of_line ls)) \<and>
   distinct (map fst (signals (parsed ls)))"
proof (induction ls rule: rev_induct)
  case Nil
  then show ?case by (simp add: parsed_def agreed_def reported_def List.map_filter_def)
next
  case (snoc l ls)
  show ?case
  proof (cases "signal_of_line l")
    case None
    then have "signals (parse_line (parsed ls) l) = signals (parsed ls)"
      by (simp add: parse_line_def split: option.split)
    with None snoc show ?thesis by (simp add: parsed_snoc map_filter_snoc)
  next
    case (Some r)
    then have "\<not> is_mode_line l" using signal_of_mode_line by auto
    with Some snoc show ?thesis
      by (cases r) (auto simp: parsed_snoc map_filter_snoc parse_line_def merge_signal_lookup merge_signal_keys
        reported_def agreed_snoc)
  qed
qed

lemma parsed_modes:
  "set (modes (parsed ls)) = set (List.map_filter mode_of_line ls) \<and> distinct (modes (parsed ls))"
proof (induction ls rule: rev_induct)
  case Nil
  then show ?case by (simp add: parsed_def List.map_filter_def)
next
  case (snoc l ls)
  then show ?case
    by (auto simp: parsed_snoc map_filter_snoc parse_line_def dest: mode_of_line_is_mode split: option.splits)
qed

lemma BootOverrides_parse_parsed: "BootOverrides_parse s = parsed (str_lines s)"
  by (simp add: BootOverrides_parse_def parsed_def)

lemma parse_signals:
  "map_of (signals (BootOverrides_parse s)) n = agreed (reported n (reports s))"
  "distinct (map fst (signals (BootOverrides_parse s)))"
  using parsed_signals [of "str_lines s" n] by (simp_all add: BootOverrides_parse_parsed reports_def)

lemma parse_modes:
  "set (modes (BootOverrides_parse s)) = set (declarations s)" "distinct (modes (BootOverrides_parse s))"
  using parsed_modes [of "str_lines s"] by (simp_all add: BootOverrides_parse_parsed declarations_def)

lemma agreed_Some_iff: "l \<noteq> UnknownLevel \<Longrightarrow> agreed ls = Some l \<longleftrightarrow> ls \<noteq> [] \<and> set ls \<subseteq> {l}"
  by (cases ls) (auto simp: agreed_def list_all_iff)

lemma agreed_reported:
  "l \<noteq> UnknownLevel \<Longrightarrow>
   agreed (reported n rs) = Some l \<longleftrightarrow> n \<in> fst ` set rs \<and> (\<forall>(m, l') \<in> set rs. m = n \<longrightarrow> l' = l)"
  by (force simp: agreed_Some_iff reported_def filter_empty_conv)

lemma names_iff: "distinct (map fst (signals o1)) \<Longrightarrow> n \<in> set (names o1 l) \<longleftrightarrow> map_of (signals o1) n = Some l"
  by (force simp: names_def dest: map_of_SomeD)

lemma agreed_None: "agreed ls = None \<longleftrightarrow> ls = []"
  by (simp add: agreed_def split: list.split)

lemma signal_names: "n \<in> fst ` set (signals (BootOverrides_parse s)) \<longleftrightarrow> n \<in> fst ` set (reports s)"
proof -
  have "n \<in> fst ` set (signals (BootOverrides_parse s)) \<longleftrightarrow> reported n (reports s) \<noteq> []"
    using parse_signals(1) [of s n] by (metis agreed_None map_of_eq_None_iff)
  then show ?thesis by (force simp: reported_def filter_empty_conv)
qed

lemma signal_names_set: "fst ` set (signals (BootOverrides_parse s)) = fst ` set (reports s)"
  using signal_names by blast

lemma released_iff: "l = Released \<longleftrightarrow> l \<noteq> Asserted \<and> l \<noteq> UnknownLevel"
  by (cases l) simp_all

lemma summary_clear:
  assumes "distinct (map fst (signals o1))"
  shows "summary o1 = Clear \<longleftrightarrow>
    fst ` set (signals o1) \<noteq> {} \<and> (\<forall>n \<in> fst ` set (signals o1). map_of (signals o1) n = Some Released)"
proof -
  have "summary o1 = Clear \<longleftrightarrow> signals o1 \<noteq> [] \<and> (\<forall>(n, l) \<in> set (signals o1). l = Released)"
    unfolding released_iff by (auto simp: summary_def asserted_def unknown_def names_def filter_empty_conv)
  moreover have "(\<forall>(n, l) \<in> set (signals o1). l = Released) \<longleftrightarrow>
      (\<forall>n \<in> fst ` set (signals o1). map_of (signals o1) n = Some Released)"
    using assms by (auto simp: map_of_eq_Some_iff) (metis eq_key_imp_eq_value fst_conv)
  ultimately show ?thesis by simp
qed

lemma find_is_lookup:
  "(case find (\<lambda>(n, l). n = k) xs of Some (_, v) \<Rightarrow> v | None \<Rightarrow> d) = (case map_of xs k of Some v \<Rightarrow> v | None \<Rightarrow> d)"
  by (induction xs) auto

lemma distinct_singleton: "distinct xs \<Longrightarrow> xs = [x] \<longleftrightarrow> set xs = {x}"
  by (cases xs) (auto simp: subset_singleton_iff)

definition declared_lines :: "BootOverrides \<Rightarrow> string \<Rightarrow> string list" where
  "declared_lines o1 mode = map snd (filter (\<lambda>(m, l). m = mode) (modes o1))"

lemma declared_lines_set: "set (declared_lines (BootOverrides_parse s) mode) = {h. (mode, h) \<in> set (declarations s)}"
  by (force simp: declared_lines_def parse_modes(1))

lemma declared_lines_distinct: "distinct (declared_lines (BootOverrides_parse s) mode)"
  using parse_modes(2) [of s] by (auto simp: declared_lines_def distinct_map inj_on_def)

lemma mode_level_lines:
  "l \<noteq> UnknownLevel \<Longrightarrow>
   mode_level o1 mode = Some l \<longleftrightarrow> (\<exists>line. declared_lines o1 mode = [line] \<and> map_of (signals o1) line = Some l)"
  unfolding mode_level_def declared_lines_def [symmetric] find_is_lookup
  by (auto split: list.split option.split)

section \<open>Properties\<close>

text \<open>The gate a normal boot must pass is proof, not absence of evidence: it opens exactly
  when the hook reported at least one signal and every signal line it printed, conflicting
  repetitions included, read back as 0. An empty read, an unreadable level or a level
  that changed between two reports keeps it shut.\<close>

theorem all_released_iff:
  "all_released (BootOverrides_parse s) \<longleftrightarrow> reports s \<noteq> [] \<and> list_all (\<lambda>(n, l). l = Released) (reports s)"
proof -
  let ?o = "BootOverrides_parse s"
  have "all_released ?o \<longleftrightarrow> fst ` set (reports s) \<noteq> {} \<and>
      (\<forall>n \<in> fst ` set (reports s). agreed (reported n (reports s)) = Some Released)"
    by (simp only: all_released_def summary_clear [OF parse_signals(2)] signal_names_set parse_signals(1))
  also have "\<dots> \<longleftrightarrow> reports s \<noteq> [] \<and> list_all (\<lambda>(n, l). l = Released) (reports s)"
    by (subst ball_cong [OF refl agreed_reported]) (simp, fastforce simp: list_all_iff)
  finally show ?thesis .
qed

text \<open>A boot mode is reported held (or released) exactly when the hook declared one line
  for it, and only one, and every report of that line read back as 1 (or 0). A mode the
  hook did not declare has no level, and everything else is unknown.\<close>

theorem mode_level_proven:
  assumes "l \<noteq> UnknownLevel"
  shows "mode_level (BootOverrides_parse s) mode = Some l \<longleftrightarrow>
    (\<exists>line. {h. (mode, h) \<in> set (declarations s)} = {line} \<and>
       line \<in> fst ` set (reports s) \<and> list_all (\<lambda>(n, l'). n = line \<longrightarrow> l' = l) (reports s))"
  using assms by (simp add: mode_level_lines distinct_singleton [OF declared_lines_distinct] declared_lines_set
    parse_signals(1) agreed_reported list_all_iff split_beta)

definition sample_read :: string where
  "sample_read = ''mode EDL asserts MD_EDL'' @ [CHR 0x0A] @ ''MD_EDL=1'' @ [CHR 0x0A] @ ''UEFI = 0'' @ [CHR 0x0A]"

lemma sample_read_lines: "declarations sample_read = [(''EDL'', ''MD_EDL'')]"
  "reports sample_read = [(''MD_EDL'', Asserted), (''UEFI'', Released)]"
  by code_simp+

theorem mode_level_proven_witness:
  "Asserted \<noteq> UnknownLevel \<and> mode_level (BootOverrides_parse sample_read) ''EDL'' = Some Asserted"
  using mode_level_proven [of Asserted sample_read "''EDL''"] by (auto simp: sample_read_lines)

end
