(* ===== verification/Codec.thy ===== *)
theory Codec
  imports Store_Types "HOL-Library.Word"
begin

text \<open>
  Input codecs (\<^verbatim>\<open>crates/conminer-core/src/codec.rs\<close>): LAVA job logs and kernel pstore dumps
  are unwrapped to the console text inside them. The decoder \<^verbatim>\<open>String::from_utf8_lossy\<close> is
  the argument \<open>lossy\<close>; the way back to bytes is the UTF-8 encoding of code points below 256.
\<close>

unbundle bit_operations_syntax

section \<open>Data\<close>

datatype Wrapper = NoWrapper | Lava | Pstore

fun Wrapper_as_str :: "Wrapper \<Rightarrow> string" where
  "Wrapper_as_str NoWrapper = ''none''"
| "Wrapper_as_str Lava = ''lava''"
| "Wrapper_as_str Pstore = ''pstore''"

record Unwrapped =
  uw_text :: string
  uw_stage_hint :: "string option"
  uw_level :: "string option"

definition char_bytes :: "char \<Rightarrow> byte list" where
  "char_bytes c =
     (let n = of_char c :: nat
      in if n < 128 then [of_nat n] else [of_nat (0xC0 + n div 64), of_nat (0x80 + n mod 64)])"

definition into_bytes :: "string \<Rightarrow> byte list" where
  "into_bytes s = concat (map char_bytes s)"

section \<open>Operations\<close>

definition detect :: "(byte list \<Rightarrow> string) \<Rightarrow> byte list \<Rightarrow> Wrapper" where
  "detect lossy head =
     (let t = lossy (take 4096 head);
          first = (case find (\<lambda>l. trim l \<noteq> []) (str_lines t) of Some l \<Rightarrow> l | None \<Rightarrow> [])
      in if starts_with ''- '' (trim_start first)
            \<and> (str_contains (CHR 0x22 # ''lvl'' @ [CHR 0x22]) t \<or> str_contains ''lvl:'' t)
            \<and> (str_contains (CHR 0x22 # ''msg'' @ [CHR 0x22]) t \<or> str_contains ''msg:'' t)
         then Lava
         else if starts_with ''Panic#'' first \<or> starts_with ''Oops#'' first \<or> starts_with ''===='' t
         then Pstore
         else NoWrapper)"

definition lava_action_to_stage :: "string \<Rightarrow> string option" where
  "lava_action_to_stage msg =
     (let m = map to_ascii_lower msg
      in if str_contains ''bootloader'' m \<or> str_contains ''u-boot'' m \<or> str_contains ''uboot'' m then Some ''uboot''
         else if str_contains ''boot-kernel'' m \<or> str_contains ''auto-login'' m then Some ''kernel''
         else if str_contains ''login-action'' m \<or> str_contains ''expect-shell'' m then Some ''userspace''
         else None)"

text \<open>The loop over a quoted value: up to the closing quote, escapes kept as they are.\<close>

fun quoted_value :: "string \<Rightarrow> string" where
  "quoted_value [] = []"
| "quoted_value [c] = (if c = CHR 0x22 then [] else [c])"
| "quoted_value (c # n # cs) =
     (if c = CHR 0x5C then c # n # quoted_value cs
      else if c = CHR 0x22 then []
      else c # quoted_value (n # cs))"

definition field_value :: "string \<Rightarrow> string" where
  "field_value rest =
     (case strip_prefix [CHR 0x22] rest of
        Some quoted \<Rightarrow> quoted_value quoted
      | None \<Rightarrow> trim (takeWhile (\<lambda>c. c \<notin> {CHR '','', CHR 0x7D, CHR '']''}) rest))"

definition extract_field :: "string \<Rightarrow> string \<Rightarrow> string option" where
  "extract_field body key =
     (let try = (\<lambda>form. map_option (\<lambda>i. field_value (trim_start (drop (i + length form) body))) (str_find form body))
      in case try (CHR 0x22 # key @ [CHR 0x22, CHR '':'']) of
           Some v \<Rightarrow> Some v
         | None \<Rightarrow> try (key @ [CHR '':'']))"

fun unescape_chars :: "string \<Rightarrow> string" where
  "unescape_chars [] = []"
| "unescape_chars [c] = [c]"
| "unescape_chars (c # n # cs) =
     (if c \<noteq> CHR 0x5C then c # unescape_chars (n # cs)
      else if n = CHR ''n'' then CHR 0x0A # unescape_chars cs
      else if n = CHR ''r'' then CHR 0x0D # unescape_chars cs
      else if n = CHR ''t'' then CHR 0x09 # unescape_chars cs
      else if n = CHR 0x22 then CHR 0x22 # unescape_chars cs
      else if n = CHR 0x5C then CHR 0x5C # unescape_chars cs
      else CHR 0x5C # n # unescape_chars cs)"

definition unescape :: "string \<Rightarrow> string" where
  "unescape s = trim_end (map (\<lambda>c. if c = CHR 0x0A then CHR '' '' else c) (unescape_chars s))"

definition lava_line :: "string \<Rightarrow> Unwrapped option" where
  "lava_line line =
     (case strip_prefix ''- '' (trim line) of
        None \<Rightarrow> None
      | Some body \<Rightarrow>
          (case extract_field body ''msg'' of
             None \<Rightarrow> None
           | Some msg \<Rightarrow>
               let level = extract_field body ''lvl'';
                   hint = (case level of
                             Some l \<Rightarrow>
                               if l = ''target'' then None
                               else if l = ''info'' then
                                 (case extract_field body ''msg'' of
                                    Some m \<Rightarrow> if starts_with ''start: '' m then lava_action_to_stage m else None
                                  | None \<Rightarrow> None)
                               else None
                           | None \<Rightarrow> None)
               in Some \<lparr> uw_text = unescape msg, uw_stage_hint = hint, uw_level = level \<rparr>))"

definition is_pstore_header :: "nat \<Rightarrow> string \<Rightarrow> bool" where
  "is_pstore_header skipped l \<longleftrightarrow>
     (let t = trim l
      in starts_with ''Panic#'' t \<or> starts_with ''Oops#'' t \<or> starts_with ''===='' t \<or> t = [] \<and> skipped = 0)"

fun skip_headers :: "nat \<Rightarrow> string list \<Rightarrow> string list" where
  "skip_headers skipped [] = []"
| "skip_headers skipped (l # ls) =
     (if is_pstore_header skipped l then skip_headers (skipped + 1) ls else l # ls)"

definition pstore_text :: "string \<Rightarrow> string" where
  "pstore_text t =
     (let out = join_with [CHR 0x0A] (skip_headers 0 (str_lines t))
      in if out \<noteq> [] \<and> last out = CHR 0x0A then out else out @ [CHR 0x0A])"

definition pstore_body :: "(byte list \<Rightarrow> string) \<Rightarrow> byte list \<Rightarrow> byte list" where
  "pstore_body lossy data = into_bytes (pstore_text (lossy data))"

definition lava_text :: "string \<Rightarrow> string" where
  "lava_text t =
     foldl (\<lambda>out line. case lava_line line of Some u \<Rightarrow> out @ uw_text u @ [CHR 0x0A] | None \<Rightarrow> out) [] (str_lines t)"

definition unwrap_all :: "(byte list \<Rightarrow> string) \<Rightarrow> byte list \<Rightarrow> Wrapper \<Rightarrow> ErrorCode + byte list" where
  "unwrap_all lossy data wrapper =
     (case wrapper of
        NoWrapper \<Rightarrow> Inr data
      | Lava \<Rightarrow>
          let t = lossy data; out = lava_text t
          in if out = [] \<and> trim t \<noteq> [] then Inl IngestFailed else Inr (into_bytes out)
      | Pstore \<Rightarrow> Inr (pstore_body lossy data))"

section \<open>One console line per message\<close>

lemma str_lines_concat:
  assumes "\<And>l. l \<in> set ls \<Longrightarrow> CHR 0x0A \<notin> set l \<and> strip_cr l = l"
  shows "str_lines (concat (map (\<lambda>l. l @ [CHR 0x0A]) ls)) = ls"
proof -
  have "split_on (CHR 0x0A) (concat (map (\<lambda>l. l @ [CHR 0x0A]) ls)) = ls @ [[]]"
    using assms by (induction ls) (simp_all add: split_on_append)
  then show ?thesis using assms by (simp add: str_lines_def map_idI)
qed

lemma last_trim_end: "trim_end s \<noteq> [] \<Longrightarrow> \<not> is_ws (last (trim_end s))"
  using hd_dropWhile [of is_ws "rev s"] by (simp add: trim_end_def last_rev)

lemma set_trim_end: "set (trim_end s) \<subseteq> set s"
  using set_dropWhileD [of _ is_ws "rev s"] by (auto simp: trim_end_def)

lemma unescape_is_line: "CHR 0x0A \<notin> set (unescape s) \<and> strip_cr (unescape s) = unescape s"
proof
  show "CHR 0x0A \<notin> set (unescape s)"
    using set_trim_end [of "map (\<lambda>c. if c = CHR 0x0A then CHR '' '' else c) (unescape_chars s)"]
    by (auto simp: unescape_def)
  show "strip_cr (unescape s) = unescape s"
    using last_trim_end [of "map (\<lambda>c. if c = CHR 0x0A then CHR '' '' else c) (unescape_chars s)"]
    by (auto simp: strip_cr_def unescape_def is_ws_def)
qed

lemma lava_line_text: "lava_line l = Some u \<Longrightarrow> \<exists>msg. uw_text u = unescape msg"
  by (auto simp: lava_line_def Let_def split: option.splits)

lemma lava_text_concat:
  "lava_text t = concat (map (\<lambda>l. l @ [CHR 0x0A]) (map uw_text (List.map_filter lava_line (str_lines t))))"
proof -
  have "foldl (\<lambda>out line. case lava_line line of Some u \<Rightarrow> out @ uw_text u @ [CHR 0x0A] | None \<Rightarrow> out) acc ls =
      acc @ concat (map (\<lambda>l. l @ [CHR 0x0A]) (map uw_text (List.map_filter lava_line ls)))" for acc ls
    by (induction ls arbitrary: acc) (auto simp: List.map_filter_def split: option.split)
  then show ?thesis by (simp add: lava_text_def)
qed

section \<open>Reading back what a LAVA dispatcher writes\<close>

text \<open>The dispatcher's writer, for a message of the device: quotes, backslashes, tabs and
  carriage returns are escaped.\<close>

fun escape_char :: "char \<Rightarrow> string" where
  "escape_char c =
     (if c = CHR 0x5C then [CHR 0x5C, CHR 0x5C]
      else if c = CHR 0x22 then [CHR 0x5C, CHR 0x22]
      else if c = CHR 0x09 then [CHR 0x5C, CHR ''t'']
      else if c = CHR 0x0D then [CHR 0x5C, CHR ''r'']
      else [c])"

definition escape :: "string \<Rightarrow> string" where
  "escape m = concat (map escape_char m)"

definition lava_entry :: "string \<Rightarrow> string \<Rightarrow> string" where
  "lava_entry dt m =
     ''- {'' @ [CHR 0x22] @ ''dt'' @ [CHR 0x22] @ '': '' @ [CHR 0x22] @ dt @ [CHR 0x22] @ '', '' @
     [CHR 0x22] @ ''lvl'' @ [CHR 0x22] @ '': '' @ [CHR 0x22] @ ''target'' @ [CHR 0x22] @ '', '' @
     [CHR 0x22] @ ''msg'' @ [CHR 0x22] @ '': '' @ [CHR 0x22] @ escape m @ [CHR 0x22] @ ''}''"

lemma quoted_value_Cons:
  "quoted_value (c # cs) =
     (if c = CHR 0x5C then (case cs of [] \<Rightarrow> [c] | n # ns \<Rightarrow> c # n # quoted_value ns)
      else if c = CHR 0x22 then [] else c # quoted_value cs)"
  by (cases cs) simp_all

lemma unescape_chars_Cons: "c \<noteq> CHR 0x5C \<Longrightarrow> unescape_chars (c # cs) = c # unescape_chars cs"
  by (cases cs) simp_all

lemma quoted_value_escape: "quoted_value (escape m @ CHR 0x22 # rest) = escape m"
  by (induction m) (simp_all add: escape_def quoted_value_Cons)

lemma unescape_escape: "CHR 0x0A \<notin> set m \<Longrightarrow> unescape_chars (escape m) = m"
  by (induction m) (simp_all add: escape_def unescape_chars_Cons)

lemma str_find_skip:
  "p \<noteq> [] \<Longrightarrow> hd p \<notin> set d \<Longrightarrow> str_find p (d @ s) = map_option ((+) (length d)) (str_find p s)"
proof (induction d)
  case Nil
  then show ?case by (simp add: option.map_ident)
next
  case (Cons c d)
  from Cons.prems have "\<not> starts_with p (c # d @ s)" by (cases p) (auto simp: starts_with_def)
  with Cons show ?case by (simp add: str_find.simps [of p "c # d @ s"] option.map_comp comp_def)
qed

definition timestamp :: "string \<Rightarrow> bool" where
  "timestamp dt \<longleftrightarrow> list_all (\<lambda>c. is_ascii_digit c \<or> c \<in> set ''-:.T+'') dt"

lemma starts_with_simps [simp]:
  "starts_with [] s" "\<not> starts_with (a # p) []" "starts_with (a # p) (c # s) \<longleftrightarrow> a = c \<and> starts_with p s"
  by (auto simp: starts_with_def)

lemma str_find_Cons:
  "str_find p (c # s) = (if starts_with p (c # s) then Some 0 else map_option Suc (str_find p s))"
  by (simp add: str_find.simps [of p "c # s"])

lemma timestamp_quote: "timestamp dt \<Longrightarrow> CHR 0x22 \<notin> set dt"
  by (auto simp: timestamp_def list_all_iff is_ascii_digit_def)

lemma timestamp_key:
  "timestamp dt \<Longrightarrow> a \<in> set ''ml'' \<Longrightarrow> \<not> starts_with (a # p) (dt @ CHR 0x22 # s)"
  by (cases dt) (auto simp: timestamp_def is_ascii_digit_def)

lemmas entry_find = str_find_Cons str_find_skip timestamp_quote timestamp_key

lemma entry_trim: "trim (lava_entry dt m) = lava_entry dt m"
  by (simp add: lava_entry_def trim_def trim_start_def trim_end_def is_ws_def)

lemma entry_fields:
  assumes "timestamp dt"
  shows "extract_field (drop 2 (lava_entry dt m)) ''msg'' = Some (escape m)"
    and "extract_field (drop 2 (lava_entry dt m)) ''lvl'' = Some ''target''"
  using assms
  by (simp_all add: lava_entry_def extract_field_def Let_def entry_find field_value_def strip_prefix_def
    trim_start_def is_ws_def quoted_value_escape quoted_value_Cons)

section \<open>Properties\<close>

text \<open>Unwrapping a LAVA log neither splits nor merges messages: the console text it hands to
  the pipeline has exactly one line per log entry that carries a message, in order, and
  that line is the entry's text.\<close>

theorem lava_one_line_per_message:
  "str_lines (lava_text t) = map uw_text (List.map_filter lava_line (str_lines t))"
proof -
  have "CHR 0x0A \<notin> set l \<and> strip_cr l = l"
    if "l \<in> set (map uw_text (List.map_filter lava_line (str_lines t)))" for l
    using that lava_line_text unescape_is_line by (fastforce simp: List.map_filter_def)
  from str_lines_concat [OF this] show ?thesis by (simp only: lava_text_concat)
qed

text \<open>A console line that a LAVA dispatcher logged comes back as it was: whatever characters
  it holds, quotes and backslashes included, the entry is read back as the target's own
  output with the same text, without a stage hint.\<close>

theorem lava_round_trip:
  assumes "timestamp dt" and "CHR 0x0A \<notin> set m" and "trim_end m = m"
  shows "lava_line (lava_entry dt m) =
    Some \<lparr> uw_text = m, uw_stage_hint = None, uw_level = Some ''target'' \<rparr>"
proof -
  have "strip_prefix ''- '' (trim (lava_entry dt m)) = Some (drop 2 (lava_entry dt m))"
    by (simp add: entry_trim strip_prefix_def) (simp add: lava_entry_def)
  moreover have "map (\<lambda>c. if c = CHR 0x0A then CHR '' '' else c) m = m"
    using assms(2) by (induction m) auto
  ultimately show ?thesis
    using entry_fields [OF assms(1), of m] assms(2,3) by (simp add: lava_line_def unescape_def unescape_escape)
qed

theorem lava_round_trip_witness:
  "lava_line (lava_entry ''2024-01-01T00:00:00.5'' [CHR ''a'', CHR 0x22, CHR 0x5C, CHR 0x09, CHR ''b'']) =
     Some \<lparr> uw_text = [CHR ''a'', CHR 0x22, CHR 0x5C, CHR 0x09, CHR ''b''], uw_stage_hint = None,
            uw_level = Some ''target'' \<rparr>"
  by (rule lava_round_trip) (simp_all add: timestamp_def is_ascii_digit_def trim_end_def is_ws_def)

end
