(* ===== verification/File_Transfer.thy ===== *)
theory File_Transfer
  imports Generic
begin

text \<open>
  File transfer over a console and auto-baud recovery
  (\<^verbatim>\<open>crates/conminer-core/src/transfer.rs\<close>): push and pull plans, base64, the POSIX checksum and
  the choice of a line rate. The SHA-256 of the \<^verbatim>\<open>sha2\<close> crate, printed in hexadecimal, is the
  argument \<open>sha\<close>. The zmodem bridge is process and socket handling and is left out.
\<close>

unbundle bit_operations_syntax

section \<open>Strategies\<close>

datatype Strategy = Zmodem | Base64 | Loady

fun Strategy_as_str :: "Strategy \<Rightarrow> string" where
  "Strategy_as_str Zmodem = ''zmodem''"
| "Strategy_as_str Base64 = ''base64''"
| "Strategy_as_str Loady = ''loady''"

definition Strategy_parse :: "string \<Rightarrow> ErrorCode + Strategy" where
  "Strategy_parse s =
     (if s = ''zmodem'' then Inr Zmodem
      else if s = ''base64'' then Inr Base64
      else if s = ''loady'' then Inr Loady
      else Inl InvalidArgument)"

definition needs_exclusive :: "Strategy \<Rightarrow> bool" where
  "needs_exclusive s \<longleftrightarrow> s = Zmodem \<or> s = Loady"

section \<open>Base64\<close>

definition B64 :: string where
  "B64 = ''ABCDEFGHIJKLMNOPQRSTUVWXYZabcdefghijklmnopqrstuvwxyz0123456789+/''"

definition b64_at :: "u32 \<Rightarrow> nat \<Rightarrow> char" where
  "b64_at n k = B64 ! unat (drop_bit k n AND 63)"

definition encode_chunk :: "byte list \<Rightarrow> string" where
  "encode_chunk chunk =
     (let b0 = chunk ! 0;
          b1 = (if 1 < length chunk then chunk ! 1 else 0);
          b2 = (if 2 < length chunk then chunk ! 2 else 0);
          n = push_bit 16 (ucast b0 :: u32) OR push_bit 8 (ucast b1) OR ucast b2
      in [b64_at n 18, b64_at n 12,
          if length chunk > 1 then b64_at n 6 else CHR ''='',
          if length chunk > 2 then b64_at n 0 else CHR ''=''])"

definition base64_encode :: "byte list \<Rightarrow> string" where
  "base64_encode data = concat (map encode_chunk (chunks 3 data))"

definition b64_value :: "char \<Rightarrow> u32 option" where
  "b64_value ch =
     (let c = of_char ch :: nat
      in if 65 \<le> c \<and> c \<le> 90 then Some (of_nat (c - 65))
         else if 97 \<le> c \<and> c \<le> 122 then Some (of_nat (c - 97 + 26))
         else if 48 \<le> c \<and> c \<le> 57 then Some (of_nat (c - 48 + 52))
         else if ch = CHR ''+'' then Some 62
         else if ch = CHR ''/'' then Some 63
         else None)"

fun decode_loop :: "u32 \<Rightarrow> nat \<Rightarrow> byte list \<Rightarrow> string \<Rightarrow> ErrorCode + byte list" where
  "decode_loop acc bits out [] = Inr out"
| "decode_loop acc bits out (c # cs) =
     (if c = CHR ''='' then Inr out
      else case b64_value c of
        None \<Rightarrow> Inl InvalidArgument
      | Some v \<Rightarrow>
          let acc = push_bit 6 acc OR v; bits = bits + 6
          in if bits \<ge> 8 then decode_loop acc (bits - 8) (out @ [ucast (drop_bit (bits - 8) acc)]) cs
             else decode_loop acc bits out cs)"

definition base64_decode :: "string \<Rightarrow> ErrorCode + byte list" where
  "base64_decode s = decode_loop 0 0 [] s"

section \<open>Push and pull\<close>

record PushPlan =
  pp_strategy :: Strategy
  pp_remote_path :: string
  pp_bytes :: nat
  pp_sha256 :: string
  pp_commands :: "string list"
  pp_verify_command :: string
  pp_chunks :: nat

definition CHUNK_BYTES :: nat where
  "CHUNK_BYTES = 512"

text \<open>A word between single quotes.\<close>

definition quoted :: "string \<Rightarrow> string" where
  "quoted s = CHR 0x27 # s @ [CHR 0x27]"

definition bad_path :: "string \<Rightarrow> bool" where
  "bad_path path \<longleftrightarrow> CHR 0x27 \<in> set path \<or> CHR 0x0A \<in> set path"

definition sum_command :: "string \<Rightarrow> string" where
  "sum_command path = ''sha256sum '' @ quoted path @ '' 2>/dev/null || sha256 '' @ quoted path"

definition printf_command :: "string \<Rightarrow> string \<Rightarrow> string" where
  "printf_command path c = ''printf %s '' @ quoted c @ '' >> '' @ quoted (path @ ''.b64'')"

definition plan_push ::
    "(byte list \<Rightarrow> string) \<Rightarrow> byte list \<Rightarrow> string \<Rightarrow> nat \<Rightarrow> ErrorCode + PushPlan" where
  "plan_push sha data path max_bytes =
     (if length data > max_bytes then Inl IngestTooLarge
      else if bad_path path then Inl InvalidArgument
      else
        let encoded = base64_encode data;
            cs = chunks CHUNK_BYTES encoded
        in Inr \<lparr> pp_strategy = Base64, pp_remote_path = path, pp_bytes = length data, pp_sha256 = sha data,
                 pp_commands = ('': > '' @ quoted (path @ ''.b64''))
                   # map (printf_command path) cs
                   @ [''base64 -d '' @ quoted (path @ ''.b64'') @ '' > '' @ quoted path @ '' && rm -f ''
                        @ quoted (path @ ''.b64'')],
                 pp_verify_command = sum_command path,
                 pp_chunks = length cs \<rparr>)"

definition verify_push :: "PushPlan \<Rightarrow> string \<Rightarrow> ErrorCode option" where
  "verify_push plan target_output =
     (if str_contains (pp_sha256 plan) (map to_ascii_lower target_output) then None else Some IngestFailed)"

definition plan_pull :: "string \<Rightarrow> ErrorCode + string list" where
  "plan_pull path = (if bad_path path then Inl InvalidArgument else Inr [sum_command path, ''base64 '' @ quoted path])"

definition finish_pull :: "(byte list \<Rightarrow> string) \<Rightarrow> string \<Rightarrow> string \<Rightarrow> ErrorCode + byte list" where
  "finish_pull sha checksum_output b64_output =
     (case base64_decode (filter (\<lambda>c. \<not> is_ws c) b64_output) of
        Inl e \<Rightarrow> Inl e
      | Inr data \<Rightarrow>
          if \<not> str_contains (sha data) (map to_ascii_lower checksum_output) then Inl IngestFailed else Inr data)"

section \<open>Auto-baud\<close>

record BaudProbe =
  bp_baud :: u32
  bp_printable_ratio :: rat
  bp_sample :: string

text \<open>\<^verbatim>\<open>Iterator::max_by\<close>: the last of equal maxima.\<close>

definition better :: "BaudProbe option \<Rightarrow> BaudProbe \<Rightarrow> BaudProbe option" where
  "better acc p =
     (case acc of None \<Rightarrow> Some p
      | Some a \<Rightarrow> if bp_printable_ratio a \<le> bp_printable_ratio p then Some p else Some a)"

definition best_rate :: "BaudProbe list \<Rightarrow> rat \<Rightarrow> BaudProbe option" where
  "best_rate probes min_ratio = foldl better None (filter (\<lambda>p. min_ratio \<le> bp_printable_ratio p) probes)"

definition printable_ratio :: "byte list \<Rightarrow> rat" where
  "printable_ratio bytes =
     (if bytes = [] then 0
      else 1 - GarbageDetector_ratio (snd (GarbageDetector_push (GarbageDetector_new (max (length bytes) 1) 1) bytes)))"

section \<open>The POSIX checksum\<close>

definition crc_round :: "u32 \<Rightarrow> u32" where
  "crc_round crc = (if crc AND 0x80000000 \<noteq> 0 then push_bit 1 crc XOR 0x04c11db7 else push_bit 1 crc)"

definition crc_feed :: "u32 \<Rightarrow> byte \<Rightarrow> u32" where
  "crc_feed crc b = (crc_round ^^ 8) (crc XOR push_bit 24 (ucast b))"

fun len_bytes :: "nat \<Rightarrow> byte list" where
  "len_bytes len = (if len > 0 then of_nat (len mod 256) # len_bytes (len div 256) else [])"

declare len_bytes.simps [simp del]

definition cksum :: "byte list \<Rightarrow> u32" where
  "cksum data = NOT (foldl crc_feed (foldl crc_feed 0 data) (len_bytes (length data)))"

section \<open>Base64 round trip\<close>

lemma list3_induct [case_names Nil One Two Three]:
  assumes "P []" "\<And>a. P [a]" "\<And>a b. P [a, b]" "\<And>a b c r. P r \<Longrightarrow> P (a # b # c # r)"
  shows "P xs"
  using assms by induction_schema (pat_completeness, lexicographic_order)

lemma base64_encode_simps:
  "base64_encode [] = []"
  "base64_encode [a] = encode_chunk [a]"
  "base64_encode [a, b] = encode_chunk [a, b]"
  "base64_encode (a # b # c # r) = encode_chunk [a, b, c] @ base64_encode r"
  by (simp_all add: base64_encode_def chunks.simps [of 3] chunks.simps [of 3 "[]"])

lemma sextet_range: "unat (drop_bit k (n::u32) AND 63) < 64"
  using word_and_le1 [of "drop_bit k n" 63] by (simp add: word_le_nat_alt)

lemma b64_alphabet: "list_all (\<lambda>v. B64 ! v \<noteq> CHR ''='' \<and> b64_value (B64 ! v) = Some (of_nat v)) [0..<64]"
  by code_simp

lemma b64_at_value: "b64_at n k \<noteq> CHR ''=''" "b64_value (b64_at n k) = Some (drop_bit k n AND 63)"
  using b64_alphabet sextet_range [of k n] by (auto simp: b64_at_def list_all_iff)

text \<open>One character of the decoder in terms of opaque bit operations, whose bits are then
  given one by one.\<close>

definition append6 :: "u32 \<Rightarrow> u32 \<Rightarrow> nat \<Rightarrow> u32" where
  "append6 acc n k = push_bit 6 acc OR (drop_bit k n AND 63)"

definition low_byte :: "nat \<Rightarrow> u32 \<Rightarrow> byte" where
  "low_byte k n = ucast (drop_bit k n)"

definition group :: "byte \<Rightarrow> byte \<Rightarrow> byte \<Rightarrow> u32" where
  "group b0 b1 b2 = push_bit 16 (ucast b0) OR push_bit 8 (ucast b1) OR ucast b2"

lemma decode_sextet:
  "decode_loop acc bits out (b64_at n k # cs) =
     (if bits \<ge> 2 then decode_loop (append6 acc n k) (bits - 2) (out @ [low_byte (bits - 2) (append6 acc n k)]) cs
      else decode_loop (append6 acc n k) (bits + 6) out cs)"
  by (simp add: b64_at_value append6_def low_byte_def Let_def)

lemma decode_pad: "decode_loop acc bits out (CHR ''='' # cs) = Inr out"
  by simp

declare decode_loop.simps(2) [simp del]

lemma less_8_cases: "(i::nat) < 8 \<Longrightarrow> i = 0 \<or> i = 1 \<or> i = 2 \<or> i = 3 \<or> i = 4 \<or> i = 5 \<or> i = 6 \<or> i = 7"
  by arith

lemma byte_bit_high: "8 \<le> i \<Longrightarrow> \<not> bit (b::byte) i"
  using bit_imp_le_length [of b i] by auto

lemma bit_group:
  "bit (group b0 b1 b2) i \<longleftrightarrow>
     (if i < 8 then bit b2 i else if i < 16 then bit b1 (i - 8) else i < 24 \<and> bit b0 (i - 16))"
  by (auto simp: group_def bit_simps byte_bit_high) (use bit_imp_le_length [of b0 "i - 16"] in simp)

lemma mask_63: "(63::u32) = mask 6"
  by (simp add: mask_eq_exp_minus_1)

lemma bit_append6: "bit (append6 acc n k) i \<longleftrightarrow> (if i < 6 then bit n (k + i) else i < 32 \<and> bit acc (i - 6))"
  unfolding append6_def mask_63 by (auto simp: bit_or_iff bit_push_bit_iff bit_and_iff bit_drop_bit_eq bit_mask_iff)

lemma bit_low_byte: "bit (low_byte k n) i \<longleftrightarrow> i < 8 \<and> bit n (k + i)"
  by (auto simp: low_byte_def bit_simps)

lemmas group_bits = bit_low_byte bit_append6 bit_group

lemma group_bytes:
  "low_byte 4 (append6 (append6 acc (group b0 b1 b2) 18) (group b0 b1 b2) 12) = b0"
  "low_byte 2 (append6 (append6 acc (group b0 b1 b2) 12) (group b0 b1 b2) 6) = b1"
  "low_byte 0 (append6 (append6 acc (group b0 b1 b2) 6) (group b0 b1 b2) 0) = b2"
  by (rule bit_word_eqI; auto dest!: less_8_cases simp: group_bits)+

lemmas decode_group = encode_chunk_def group_def [symmetric] decode_sextet decode_pad Let_def group_bytes

lemma decode_encode: "decode_loop acc 0 out (base64_encode data) = Inr (out @ data)"
proof (induction data arbitrary: acc out rule: list3_induct)
  case (One a)
  show ?case by (simp add: base64_encode_simps decode_group)
next
  case (Two a b)
  show ?case by (simp add: base64_encode_simps decode_group)
next
  case (Three a b c r)
  then show ?case by (simp add: base64_encode_simps decode_group)
qed (simp add: base64_encode_simps)

section \<open>What a plan sends\<close>

lemma b64_at_alphabet: "b64_at n k \<in> set B64"
proof -
  have "length B64 = 64" by (simp add: B64_def)
  then show ?thesis using sextet_range [of k n] by (simp add: b64_at_def)
qed

lemma encode_chunk_chars: "set (encode_chunk ch) \<subseteq> insert (CHR ''='') (set B64)"
  using b64_at_alphabet by (simp add: encode_chunk_def Let_def)

lemma encode_chars: "set (base64_encode data) \<subseteq> insert (CHR ''='') (set B64)"
  using encode_chunk_chars by (simp add: base64_encode_def UN_least)

definition payload_safe :: "string \<Rightarrow> bool" where
  "payload_safe c \<longleftrightarrow> list_all (\<lambda>x. x \<in> set B64 \<or> x = CHR ''='') c"

lemma payload_safe_chars: "payload_safe c \<Longrightarrow> CHR 0x27 \<notin> set c \<and> CHR 0x0A \<notin> set c"
proof -
  have "CHR 0x27 \<notin> set B64" "CHR 0x0A \<notin> set B64" by code_simp+
  moreover assume "payload_safe c"
  ultimately show ?thesis by (auto simp: payload_safe_def list_all_iff)
qed

lemma chunk_of_encoding:
  assumes "c \<in> set (chunks n (base64_encode data))"
  shows "payload_safe c"
proof -
  have "set c \<subseteq> set (concat (chunks n (base64_encode data)))" using assms by auto
  also have "\<dots> \<subseteq> set (base64_encode data)"
    by (cases "n = 0") (simp_all add: chunks.simps [of 0] concat_chunks)
  finally show ?thesis using encode_chars [of data] unfolding payload_safe_def list_all_iff by blast
qed

section \<open>The checksum\<close>

lemma crc_top_bit: "crc AND 0x80000000 \<noteq> 0 \<longleftrightarrow> bit (crc::u32) 31"
proof -
  have "(0x80000000::u32) = 2 ^ 31" by simp
  then show ?thesis by (simp only: and_exp_eq_0_iff_not_bit not_not)
qed

lemma bit_doubled: "bit (push_bit 1 (x::u32)) i \<longleftrightarrow> 1 \<le> i \<and> i < 32 \<and> bit x (i - 1)"
  by (auto simp only: bit_push_bit_iff possible_bit_word len_of_numeral_defs)

lemma crc_round_bit0: "bit (crc_round x) 0 \<longleftrightarrow> bit x 31"
proof -
  have "\<not> bit (push_bit 1 x) 0" unfolding bit_doubled by simp
  moreover have "bit (0x04c11db7::u32) 0" by simp
  ultimately show ?thesis unfolding crc_round_def crc_top_bit by (simp only: bit_xor_iff split: if_split) simp
qed

lemma shift_inj:
  assumes "push_bit 1 (x::u32) = push_bit 1 y" and "bit x 31 = bit y 31"
  shows "x = y"
proof (rule bit_word_eqI)
  fix i assume i: "i < LENGTH(32)"
  show "bit x i = bit y i"
  proof (cases "i = 31")
    case False
    from assms(1) have "bit (push_bit 1 x) (Suc i) = bit (push_bit 1 y) (Suc i)" by (simp only:)
    with False i show ?thesis unfolding bit_doubled by simp
  qed (use assms in simp)
qed

lemma crc_round_inj: "crc_round x = crc_round y \<Longrightarrow> x = y"
proof -
  assume h: "crc_round x = crc_round y"
  have top: "bit x 31 = bit y 31" using crc_round_bit0 [of x] crc_round_bit0 [of y] h by simp
  have "push_bit 1 x = push_bit 1 y"
  proof (cases "bit x 31")
    case True
    with h top have "push_bit 1 x XOR 0x04c11db7 = push_bit 1 y XOR 0x04c11db7" by (simp add: crc_round_def crc_top_bit)
    then have "(push_bit 1 x XOR 0x04c11db7) XOR 0x04c11db7 = (push_bit 1 y XOR 0x04c11db7) XOR 0x04c11db7" by simp
    then show ?thesis by (simp add: xor.assoc)
  qed (use h top in \<open>simp add: crc_round_def crc_top_bit\<close>)
  then show "x = y" using top by (rule shift_inj)
qed

lemma crc_rounds_inj: "(crc_round ^^ n) x = (crc_round ^^ n) y \<Longrightarrow> x = y"
  by (induction n) (auto dest: crc_round_inj)

lemma xor_cancel: "(a::'a::len word) XOR c = b XOR c \<Longrightarrow> a = b"
proof -
  assume "a XOR c = b XOR c"
  then have "(a XOR c) XOR c = (b XOR c) XOR c" by simp
  then show "a = b" by (simp add: xor.assoc)
qed

lemma crc_feed_inj: "crc_feed x b = crc_feed y b \<Longrightarrow> x = y"
  unfolding crc_feed_def by (rule xor_cancel, erule crc_rounds_inj)

lemma crc_feed_all_inj: "foldl crc_feed x bs = foldl crc_feed y bs \<Longrightarrow> x = y"
  by (induction bs arbitrary: x y) (auto dest: crc_feed_inj)

lemma crc_feed_byte: "crc_feed x b = crc_feed x c \<Longrightarrow> b = c"
proof -
  assume "crc_feed x b = crc_feed x c"
  then have "x XOR push_bit 24 (ucast b) = x XOR push_bit 24 (ucast c)"
    unfolding crc_feed_def by (rule crc_rounds_inj)
  then have h: "push_bit 24 (ucast b :: u32) = push_bit 24 (ucast c)"
    by (metis xor_cancel xor.commute)
  show "b = c"
  proof (rule bit_word_eqI)
    fix i assume i: "i < LENGTH(8)"
    from h have "bit (push_bit 24 (ucast b :: u32)) (24 + i) = bit (push_bit 24 (ucast c :: u32)) (24 + i)" by simp
    with i show "bit b i = bit c i" by (simp add: bit_simps)
  qed
qed

section \<open>Choosing a rate\<close>

lemma better_some:
  "\<exists>b. better acc q = Some b \<and> (b = q \<or> acc = Some b) \<and> bp_printable_ratio q \<le> bp_printable_ratio b \<and>
     (\<forall>x \<in> set_option acc. bp_printable_ratio x \<le> bp_printable_ratio b)"
  by (cases acc) (simp_all add: better_def)

lemma rate_fold:
  assumes "foldl better acc ps = r"
  shows "(r = None \<longleftrightarrow> acc = None \<and> ps = []) \<and>
    (\<forall>p. r = Some p \<longrightarrow> (p \<in> set ps \<or> acc = Some p) \<and>
       (\<forall>q \<in> set ps \<union> set_option acc. bp_printable_ratio q \<le> bp_printable_ratio p))"
  using assms
proof (induction ps arbitrary: acc)
  case (Cons q ps)
  from Cons.prems(1) have "foldl better (better acc q) ps = r" by simp
  from Cons.IH [OF this] better_some [of acc q] show ?case by fastforce
qed auto

lemma verdicts_length: "length (fst (verdicts xs)) + length (snd (verdicts xs)) = length xs"
  by (induction xs rule: verdicts.induct) (auto simp: Let_def split_beta split: option.splits)

lemma fraction_complement:
  assumes "p + q = n" and "0 < n"
  shows "(1::rat) - of_nat p / of_nat n = of_nat q / of_nat n"
proof -
  have "(of_nat q :: rat) = of_nat n - of_nat p" using assms(1) by auto
  then show ?thesis using assms(2) by (simp only: diff_divide_distrib) simp
qed

lemma last_n_all: "length xs \<le> n \<Longrightarrow> last_n n xs = xs"
  by (simp add: last_n_def)

lemma probe_counts:
  assumes "bytes \<noteq> []"
  shows "GarbageDetector_ratio (snd (GarbageDetector_push (GarbageDetector_new (max (length bytes) 1) 1) bytes)) =
    (let vs = fst (verdicts bytes)
     in if vs = [] then 0 else of_nat (length (filter (\<lambda>v. v) vs)) / of_nat (length vs))"
proof -
  let ?w = "max (length bytes) 1"
  let ?g = "snd (GarbageDetector_push (GarbageDetector_new ?w 1) bytes)"
  have "gd_run_inv bytes ?g" using gd_push_inv [OF gd_new_inv, of bytes ?w 1] by simp
  moreover have "gd_window_bytes ?g = ?w" by (simp add: GarbageDetector_push_def Let_def)
  moreover have "last_n ?w (fst (verdicts bytes)) = fst (verdicts bytes)"
    using verdicts_length [of bytes] by (intro last_n_all) simp
  ultimately have "gd_window ?g = fst (verdicts bytes)" "gd_nonprintable ?g = length (filter (\<lambda>v. v) (gd_window ?g))"
    by (simp_all add: gd_run_inv_def gd_inv_def)
  then show ?thesis by (simp add: GarbageDetector_ratio_def Let_def)
qed

section \<open>Properties\<close>

text \<open>Base64 loses nothing: decoding the encoding of any bytes gives these bytes back.\<close>

theorem base64_round_trip: "base64_decode (base64_encode data) = Inr data"
  by (simp add: base64_decode_def decode_encode)

text \<open>A push plan sends the whole file through the console's line discipline: for any file
  within the limit and any path that can be quoted there is a plan; its middle commands
  carry consecutive non-empty pieces of at most 512 characters that together decode to
  the file, no command contains a line feed, and no payload contains a quote.\<close>

theorem plan_push_carries_file:
  assumes "length data \<le> max_bytes" and "\<not> bad_path path"
  shows "\<exists>plan cs. plan_push sha data path max_bytes = Inr plan \<and>
    butlast (tl (pp_commands plan)) = map (printf_command path) cs \<and> pp_chunks plan = length cs \<and>
    base64_decode (concat cs) = Inr data \<and>
    list_all (\<lambda>c. c \<noteq> [] \<and> length c \<le> 512 \<and> CHR 0x27 \<notin> set c) cs \<and>
    list_all (\<lambda>c. CHR 0x0A \<notin> set c) (pp_commands plan)"
proof -
  let ?cs = "chunks CHUNK_BYTES (base64_encode data)"
  obtain plan where plan: "plan_push sha data path max_bytes = Inr plan"
    "pp_commands plan = ('': > '' @ quoted (path @ ''.b64'')) # map (printf_command path) ?cs
       @ [''base64 -d '' @ quoted (path @ ''.b64'') @ '' > '' @ quoted path @ '' && rm -f '' @ quoted (path @ ''.b64'')]"
    "pp_chunks plan = length ?cs"
    using assms by (simp add: plan_push_def Let_def)
  have "concat ?cs = base64_encode data" by (simp add: concat_chunks CHUNK_BYTES_def)
  moreover have "c \<noteq> [] \<and> length c \<le> 512 \<and> CHR 0x27 \<notin> set c \<and> CHR 0x0A \<notin> set c" if "c \<in> set ?cs" for c
    using that chunks_bound payload_safe_chars [OF chunk_of_encoding] by (fastforce simp: CHUNK_BYTES_def)
  moreover have "CHR 0x0A \<notin> set path" using assms(2) by (simp add: bad_path_def)
  ultimately show ?thesis using plan
    by (intro exI [of _ plan] exI [of _ ?cs])
      (auto simp: list_all_iff printf_command_def quoted_def base64_decode_def decode_encode)
qed

theorem plan_push_carries_file_witness:
  "\<exists>plan cs. plan_push (\<lambda>_. ''ab'') [1, 2] ''/tmp/f'' 10 = Inr plan \<and>
    butlast (tl (pp_commands plan)) = map (printf_command ''/tmp/f'') cs \<and> pp_chunks plan = length cs \<and>
    base64_decode (concat cs) = Inr [1, 2] \<and>
    list_all (\<lambda>c. c \<noteq> [] \<and> length c \<le> 512 \<and> CHR 0x27 \<notin> set c) cs \<and>
    list_all (\<lambda>c. CHR 0x0A \<notin> set c) (pp_commands plan)"
  by (rule plan_push_carries_file) (simp_all add: bad_path_def)

text \<open>A pull returns the file of the target and nothing else: whatever white space the
  console put into the base64 text, a target that prints the file's digest gets the file
  back, and bytes are only ever returned when the target printed their own digest.\<close>

theorem finish_pull_verified:
  assumes "filter (\<lambda>c. \<not> is_ws c) b64 = base64_encode data"
  shows "finish_pull sha chk b64 =
      (if str_contains (sha data) (map to_ascii_lower chk) then Inr data else Inl IngestFailed) \<and>
    (\<forall>out d. finish_pull sha chk out = Inr d \<longrightarrow> str_contains (sha d) (map to_ascii_lower chk))"
  using assms
  by (auto simp: finish_pull_def base64_decode_def decode_encode split: sum.splits if_splits)

theorem finish_pull_verified_witness:
  "finish_pull (\<lambda>d. ''ff'') ''FF  /tmp/f'' (''AQ'' @ [CHR 0x0D, CHR 0x0A] @ ''I='') = Inr [1, 2] \<and>
   str_contains ''ff'' (map to_ascii_lower ''FF  /tmp/f'')"
proof -
  have b64: "filter (\<lambda>c. \<not> is_ws c) (''AQ'' @ [CHR 0x0D, CHR 0x0A] @ ''I='') = base64_encode [1, 2]" by code_simp
  have "str_contains ''ff'' (map to_ascii_lower ''FF  /tmp/f'')" by code_simp
  with finish_pull_verified [OF b64, of "\<lambda>d. ''ff''" "''FF  /tmp/f''"] show ?thesis by simp
qed

text \<open>The checksum notices every change of a single byte: two files of the same length that
  differ in exactly one byte never have the same checksum.\<close>

theorem cksum_detects_byte_change:
  assumes "b \<noteq> c"
  shows "cksum (xs @ b # ys) \<noteq> cksum (xs @ c # ys)"
proof
  let ?n = "len_bytes (length (xs @ b # ys))"
  assume "cksum (xs @ b # ys) = cksum (xs @ c # ys)"
  then have "foldl crc_feed (crc_feed (foldl crc_feed 0 xs) b) (ys @ ?n) =
      foldl crc_feed (crc_feed (foldl crc_feed 0 xs) c) (ys @ ?n)"
    by (simp add: cksum_def)
  then have "crc_feed (foldl crc_feed 0 xs) b = crc_feed (foldl crc_feed 0 xs) c" by (rule crc_feed_all_inj)
  then show False using crc_feed_byte assms by blast
qed

theorem cksum_detects_byte_change_witness: "(1::byte) \<noteq> 2 \<and> cksum ([0] @ 1 # [7]) \<noteq> cksum ([0] @ 2 # [7])"
  using cksum_detects_byte_change [of 1 2 "[0]" "[7]"] by simp

text \<open>Auto-baud picks a rate whose sample reads best: it answers exactly when some probe
  reaches the required ratio, and the probe it names reaches it and is at least as good
  as every other probe.\<close>

theorem best_rate_is_best:
  "(best_rate ps r = None \<longleftrightarrow> list_all (\<lambda>p. bp_printable_ratio p < r) ps) \<and>
   (\<forall>p. best_rate ps r = Some p \<longrightarrow>
      p \<in> set ps \<and> r \<le> bp_printable_ratio p \<and> list_all (\<lambda>q. bp_printable_ratio q \<le> bp_printable_ratio p) ps)"
proof (intro conjI allI impI)
  let ?f = "filter (\<lambda>p. r \<le> bp_printable_ratio p) ps"
  note h = rate_fold [OF best_rate_def [of ps r, symmetric]]
  show "best_rate ps r = None \<longleftrightarrow> list_all (\<lambda>p. bp_printable_ratio p < r) ps"
    using h by (simp add: filter_empty_conv list_all_iff not_le)
  fix p assume "best_rate ps r = Some p"
  with h have p: "p \<in> set ?f" "\<forall>q \<in> set ?f. bp_printable_ratio q \<le> bp_printable_ratio p" by simp_all
  from p(1) show "p \<in> set ps" "r \<le> bp_printable_ratio p" by simp_all
  then have "bp_printable_ratio q \<le> bp_printable_ratio p" if "q \<in> set ps" for q
    using that p(2) by (cases "r \<le> bp_printable_ratio q") simp_all
  then show "list_all (\<lambda>q. bp_printable_ratio q \<le> bp_printable_ratio p) ps" by (simp add: list_all_iff)
qed

theorem best_rate_is_best_witness:
  "best_rate [\<lparr> bp_baud = 9600, bp_printable_ratio = 1/2, bp_sample = [] \<rparr>,
     \<lparr> bp_baud = 115200, bp_printable_ratio = 1, bp_sample = [] \<rparr>] (3/4) =
     Some \<lparr> bp_baud = 115200, bp_printable_ratio = 1, bp_sample = [] \<rparr> \<and>
   list_all (\<lambda>q. bp_printable_ratio q \<le> 1) [\<lparr> bp_baud = 9600, bp_printable_ratio = 1/2, bp_sample = [] \<rparr>,
     \<lparr> bp_baud = 115200, bp_printable_ratio = 1, bp_sample = [] \<rparr>]"
  using best_rate_is_best [of "[\<lparr> bp_baud = 9600, bp_printable_ratio = 1/2, bp_sample = [] \<rparr>,
     \<lparr> bp_baud = 115200, bp_printable_ratio = 1, bp_sample = [] \<rparr>]" "3/4"]
  by (simp add: best_rate_def better_def)

text \<open>The score of a sample is exact: the fraction of its judged bytes that read as console
  text, independently of how the detector's window works. Only a sample with no judged byte
  at all, a single unfinished character, scores full marks.\<close>

theorem printable_ratio_exact:
  assumes "bytes \<noteq> []"
  shows "printable_ratio bytes =
    (let vs = fst (verdicts bytes)
     in if vs = [] then 1 else of_nat (length (filter (\<lambda>v. \<not> v) vs)) / of_nat (length vs))"
proof -
  have "(1::rat) - of_nat (length (filter (\<lambda>v. v) vs)) / of_nat (length vs) =
      of_nat (length (filter (\<lambda>v. \<not> v) vs)) / of_nat (length vs)" if "vs \<noteq> []" for vs :: "bool list"
    using that by (intro fraction_complement) (simp_all add: sum_length_filter_compl)
  with assms probe_counts [OF assms] show ?thesis by (simp add: printable_ratio_def Let_def)
qed

theorem printable_ratio_exact_witness: "printable_ratio [65, 0, 66, 0xff] = 1/2"
proof -
  have "fst (verdicts [65, 0, 66, 0xff]) = [False, True, False, True]" by code_simp
  with printable_ratio_exact [of "[65, 0, 66, 0xff]"] show ?thesis by simp
qed

end
