(* ===== verification/Migrate.thy ===== *)
theory Migrate
  imports Store_Types
begin

text \<open>
  Schema migration (\<^verbatim>\<open>migrate\<close> of \<^verbatim>\<open>crates/conminer-core/src/store/mod.rs\<close>, the migration lists of
  \<^verbatim>\<open>store/schema.rs\<close>): several processes open the same database at once. A transaction opened
  with the immediate behaviour holds the write lock from its first read to its commit, so
  one turn of the loop is one step; steps of different openers interleave freely. What a
  batch of SQL does to the contents is the argument \<open>exec\<close> (SQLite's), \<^const>\<open>None\<close> for a failed
  batch, whose transaction is rolled back.
\<close>

section \<open>Data\<close>

record Migration =
  mi_version :: int
  mi_name :: string
  mi_sql :: string

record 'd database =
  user_version :: int
  contents :: 'd

datatype MigrateError = MigrationGap | BatchFailed | Unavailable

section \<open>One opener\<close>

text \<open>The body of the loop for one migration, \<open>current\<close> being the version last seen.\<close>

definition migrate_one ::
    "(string \<Rightarrow> 'd \<Rightarrow> 'd option) \<Rightarrow> int \<Rightarrow> Migration \<Rightarrow> 'd database \<Rightarrow> (MigrateError + int) \<times> 'd database" where
  "migrate_one exec current m db =
     (if mi_version m \<le> current then (Inr current, db)
      else if mi_version m \<noteq> current + 1 then (Inl MigrationGap, db)
      else let locked = user_version db
           in if locked \<ge> mi_version m then (Inr locked, db)
              else case exec (mi_sql m) (contents db) of
                None \<Rightarrow> (Inl BatchFailed, db)
              | Some d \<Rightarrow> (Inr (mi_version m), db\<lparr> contents := d, user_version := mi_version m \<rparr>))"

fun migrate_loop ::
    "(string \<Rightarrow> 'd \<Rightarrow> 'd option) \<Rightarrow> int \<Rightarrow> Migration list \<Rightarrow> 'd database \<Rightarrow> (MigrateError + int) \<times> 'd database" where
  "migrate_loop exec current [] db = (Inr current, db)"
| "migrate_loop exec current (m # ms) db =
     (case migrate_one exec current m db of
        (Inl e, db') \<Rightarrow> (Inl e, db')
      | (Inr c, db') \<Rightarrow> migrate_loop exec c ms db')"

definition migrate ::
    "(string \<Rightarrow> 'd \<Rightarrow> 'd option) \<Rightarrow> Migration list \<Rightarrow> 'd database \<Rightarrow> (MigrateError + int) \<times> 'd database" where
  "migrate exec ms db = migrate_loop exec (user_version db) ms db"

section \<open>The schemas\<close>

text \<open>The steps of the two databases; their SQL texts are the argument \<open>sql\<close>.\<close>

definition numbered :: "(int \<Rightarrow> string) \<Rightarrow> (int \<times> string) list \<Rightarrow> Migration list" where
  "numbered sql vs = map (\<lambda>(v, n). \<lparr> mi_version = v, mi_name = n, mi_sql = sql v \<rparr>) vs"

definition DEVICE_MIGRATIONS :: "(int \<Rightarrow> string) \<Rightarrow> Migration list" where
  "DEVICE_MIGRATIONS sql = numbered sql
     [(1, ''core store''), (2, ''boot epochs, events, prompts, images''), (3, ''FTS5 search indexes''),
      (4, ''indexes for open-epoch and open-stage lookup''), (5, ''verdicts, baselines, durable watches''),
      (6, ''bisect sessions and learned expectations''), (7, ''sibling epochs and per-epoch version banners''),
      (8, ''pinned metrics''), (9, ''watch push delivery''), (10, ''watch delivery backoff is scheduled, not slept'')]"

definition REGISTRY_MIGRATIONS :: "(int \<Rightarrow> string) \<Rightarrow> Migration list" where
  "REGISTRY_MIGRATIONS sql = numbered sql
     [(1, ''registry''), (2, ''fleet peering''), (3, ''multi-hop peer routing''), (4, ''remote controls''),
      (5, ''reverse-channel poll time''), (6, ''capture health is not presence''),
      (7, ''give presence its column back''), (8, ''agent bug reports'')]"

definition schema_version :: "Migration list \<Rightarrow> int" where
  "schema_version ms = (if ms = [] then 0 else mi_version (last ms))"

section \<open>Several openers\<close>

datatype opener = Opening | Looping int "Migration list" | Finished "MigrateError + int"

text \<open>One step of one opener. With \<open>faults\<close> any opener may also fail to get at the database
  at any moment (lock timeout, I/O), leaving it as it is.\<close>

inductive open_step ::
    "bool \<Rightarrow> (string \<Rightarrow> 'd \<Rightarrow> 'd option) \<Rightarrow> Migration list \<Rightarrow>
     'd database \<times> opener list \<Rightarrow> 'd database \<times> opener list \<Rightarrow> bool"
  for faults exec ms where
  read_version: "i < length os \<Longrightarrow> os ! i = Opening \<Longrightarrow>
     open_step faults exec ms (db, os) (db, os[i := Looping (user_version db) ms])"
| turn_ok: "i < length os \<Longrightarrow> os ! i = Looping c (m # rest) \<Longrightarrow> migrate_one exec c m db = (Inr c', db') \<Longrightarrow>
     open_step faults exec ms (db, os) (db', os[i := Looping c' rest])"
| turn_err: "i < length os \<Longrightarrow> os ! i = Looping c (m # rest) \<Longrightarrow> migrate_one exec c m db = (Inl e, db') \<Longrightarrow>
     open_step faults exec ms (db, os) (db', os[i := Finished (Inl e)])"
| return_version: "i < length os \<Longrightarrow> os ! i = Looping c [] \<Longrightarrow>
     open_step faults exec ms (db, os) (db, os[i := Finished (Inr c)])"
| fault: "faults \<Longrightarrow> i < length os \<Longrightarrow> \<not> (\<exists>r. os ! i = Finished r) \<Longrightarrow>
     open_step faults exec ms (db, os) (db, os[i := Finished (Inl Unavailable)])"

inductive_cases open_stepE: "open_step faults exec ms (db, os) (db', os')"

text \<open>Consecutive versions from 1, as both schemas have them.\<close>

definition consecutive :: "Migration list \<Rightarrow> bool" where
  "consecutive ms \<longleftrightarrow> map mi_version ms = map int [1..<length ms + 1]"

lemma schemas_consecutive: "consecutive (DEVICE_MIGRATIONS sql)" "consecutive (REGISTRY_MIGRATIONS sql)"
  by (simp_all add: consecutive_def DEVICE_MIGRATIONS_def REGISTRY_MIGRATIONS_def numbered_def upt_rec)

lemma consecutive_nth: "consecutive ms \<Longrightarrow> k < length ms \<Longrightarrow> mi_version (ms ! k) = int k + 1"
proof -
  assume h: "consecutive ms" "k < length ms"
  then have "map mi_version ms ! k = map int [1..<length ms + 1] ! k" by (simp only: consecutive_def)
  with h(2) show ?thesis by (simp add: nth_upt del: upt_Suc)
qed

text \<open>The contents a database must have at a version: the steps after the version it had,
  each applied once, in order.\<close>

fun apply_all :: "(string \<Rightarrow> 'd \<Rightarrow> 'd option) \<Rightarrow> Migration list \<Rightarrow> 'd \<Rightarrow> 'd option" where
  "apply_all exec [] d = Some d"
| "apply_all exec (m # ms) d = Option.bind (exec (mi_sql m) d) (apply_all exec ms)"

definition upgraded :: "(string \<Rightarrow> 'd \<Rightarrow> 'd option) \<Rightarrow> Migration list \<Rightarrow> 'd database \<Rightarrow> 'd database \<Rightarrow> bool" where
  "upgraded exec ms db0 db \<longleftrightarrow>
     user_version db0 \<le> user_version db \<and>
     apply_all exec (take (nat (user_version db - user_version db0)) (drop (nat (user_version db0)) ms)) (contents db0)
       = Some (contents db) \<and>
     user_version db \<le> max (user_version db0) (int (length ms))"

lemma apply_all_snoc: "apply_all exec (xs @ [m]) d = Option.bind (apply_all exec xs d) (exec (mi_sql m))"
  by (induction xs arbitrary: d) (auto simp: Option.bind_assoc split: Option.bind_splits)

text \<open>An opener inside its loop has dealt with every step before the remaining ones. An opener
  that gave up did so because a batch of SQL failed or the database could not be reached.\<close>

definition explained :: "bool \<Rightarrow> (string \<Rightarrow> 'd \<Rightarrow> 'd option) \<Rightarrow> Migration list \<Rightarrow> MigrateError \<Rightarrow> bool" where
  "explained faults exec ms e \<longleftrightarrow> (case e of
     MigrationGap \<Rightarrow> False
   | BatchFailed \<Rightarrow> (\<exists>m \<in> set ms. \<exists>d. exec (mi_sql m) d = None)
   | Unavailable \<Rightarrow> faults)"

definition opener_ok ::
    "bool \<Rightarrow> (string \<Rightarrow> 'd \<Rightarrow> 'd option) \<Rightarrow> Migration list \<Rightarrow> int \<Rightarrow> opener \<Rightarrow> bool" where
  "opener_ok faults exec ms v p \<longleftrightarrow> (case p of
     Opening \<Rightarrow> True
   | Looping c rest \<Rightarrow> c \<le> v \<and> (\<exists>k. rest = drop k ms \<and> k \<le> length ms \<and> int k \<le> c)
   | Finished (Inr c) \<Rightarrow> c \<le> v \<and> int (length ms) \<le> c
   | Finished (Inl e) \<Rightarrow> explained faults exec ms e)"

lemma opener_ok_mono:
  "opener_ok faults exec ms v p \<Longrightarrow> v \<le> v' \<Longrightarrow> opener_ok faults exec ms v' p"
  by (auto simp: opener_ok_def split: opener.splits sum.splits)

lemma upgraded_step:
  assumes "upgraded exec ms db0 db" and "0 \<le> user_version db0" and "user_version db = int k" and "k < length ms"
    and "exec (mi_sql (ms ! k)) (contents db) = Some d"
  shows "upgraded exec ms db0 (db\<lparr> contents := d, user_version := int k + 1 \<rparr>)"
proof -
  obtain j where j: "user_version db0 = int j" using assms(2) by (metis nat_0_le)
  then have jk: "j \<le> k" using assms(1,3) by (simp add: upgraded_def)
  have "take (Suc k - j) (drop j ms) = take (k - j) (drop j ms) @ [ms ! k]"
    using jk assms(4) take_Suc_conv_app_nth [of "k - j" "drop j ms"] by (simp add: Suc_diff_le)
  moreover have "nat (int k + 1 - int j) = Suc k - j" "nat (int k - int j) = k - j" using jk by simp_all
  ultimately show ?thesis
    using assms(1,3-5) j jk by (simp add: upgraded_def apply_all_snoc)
qed

lemma migrate_one_inv:
  assumes "consecutive ms" and "0 \<le> user_version db0" and "upgraded exec ms db0 db"
    and "opener_ok faults exec ms (user_version db) (Looping c (m # rest))"
    and "migrate_one exec c m db = (r, db')"
  shows "upgraded exec ms db0 db' \<and> user_version db \<le> user_version db' \<and>
    opener_ok faults exec ms (user_version db') (case r of Inr c' \<Rightarrow> Looping c' rest | Inl e \<Rightarrow> Finished (Inl e))"
proof -
  from assms(4) obtain k where k: "m # rest = drop k ms" "int k \<le> c" and c: "c \<le> user_version db"
    by (auto simp: opener_ok_def)
  then have len: "k < length ms" by (metis drop_all list.discI not_le_imp_less)
  with k(1) have m: "m = ms ! k" "rest = drop (Suc k) ms"
    by (metis Cons_nth_drop_Suc list.inject)+
  have ver: "mi_version m = int k + 1" using consecutive_nth [OF assms(1) len] m by simp
  have ok: "opener_ok faults exec ms v (Looping c' rest)" if "c' \<le> v" "int k + 1 \<le> c'" for c' v
    unfolding opener_ok_def opener.case using that m(2) len by (intro conjI exI [of _ "Suc k"]) simp_all
  consider (skip) "int k + 1 \<le> c" | (seen) "c = int k" "int k + 1 \<le> user_version db"
    | (run) "c = int k" "user_version db = int k" using k(2) c by linarith
  then show ?thesis
  proof cases
    case run
    show ?thesis
    proof (cases "exec (mi_sql m) (contents db)")
      case None
      with run ver assms(3,5) len m(1) show ?thesis
        by (force simp: migrate_one_def Let_def opener_ok_def explained_def)
    next
      case (Some d)
      with run ver assms(5) have "r = Inr (int k + 1)" "db' = db\<lparr> contents := d, user_version := int k + 1 \<rparr>"
        by (simp_all add: migrate_one_def Let_def)
      with upgraded_step [OF assms(3,2) run(2) len] Some m(1) run(2) ok [of "int k + 1" "int k + 1"]
      show ?thesis by simp
    qed
  qed (use ver assms(3,5) ok c in \<open>auto simp: migrate_one_def Let_def\<close>)
qed

definition openers_inv ::
    "bool \<Rightarrow> (string \<Rightarrow> 'd \<Rightarrow> 'd option) \<Rightarrow> Migration list \<Rightarrow> 'd database \<Rightarrow> 'd database \<times> opener list \<Rightarrow> bool" where
  "openers_inv faults exec ms db0 s \<longleftrightarrow> upgraded exec ms db0 (fst s) \<and>
     list_all (opener_ok faults exec ms (user_version (fst s))) (snd s)"

lemma inv_update:
  assumes "openers_inv faults exec ms db0 (db, os)" and "upgraded exec ms db0 db'"
    and "user_version db \<le> user_version db'" and "opener_ok faults exec ms (user_version db') p"
  shows "openers_inv faults exec ms db0 (db', os[i := p])"
proof -
  have "opener_ok faults exec ms (user_version db') q" if "q \<in> set os" for q
    using assms(1,3) that opener_ok_mono by (fastforce simp: openers_inv_def list_all_iff)
  with assms(2,4) show ?thesis
    using set_update_subset_insert [of os i p] by (auto simp: openers_inv_def list_all_iff)
qed

lemma open_step_inv:
  assumes "consecutive ms" and "0 \<le> user_version db0" and "openers_inv faults exec ms db0 s"
    and "open_step faults exec ms s s'"
  shows "openers_inv faults exec ms db0 s'"
  using assms(4,3)
proof (induction rule: open_step.induct)
  case (read_version i os db)
  then have up: "upgraded exec ms db0 db" by (simp add: openers_inv_def)
  with assms(2) have "opener_ok faults exec ms (user_version db) (Looping (user_version db) ms)"
    by (auto simp: opener_ok_def upgraded_def intro!: exI [of _ 0])
  with inv_update [OF read_version(3) up] show ?case by blast
next
  case (turn_ok i os c m rest db c' db')
  then have "upgraded exec ms db0 db" "opener_ok faults exec ms (user_version db) (Looping c (m # rest))"
    by (auto simp: openers_inv_def list_all_length)
  from migrate_one_inv [OF assms(1,2) this turn_ok(3)] turn_ok(4) show ?case by (intro inv_update) auto
next
  case (turn_err i os c m rest db e db')
  then have "upgraded exec ms db0 db" "opener_ok faults exec ms (user_version db) (Looping c (m # rest))"
    by (auto simp: openers_inv_def list_all_length)
  from migrate_one_inv [OF assms(1,2) this turn_err(3)] turn_err(4) show ?case by (intro inv_update) auto
next
  case (return_version i os c db)
  then have "opener_ok faults exec ms (user_version db) (Looping c [])"
    by (auto simp: openers_inv_def list_all_length)
  then have "opener_ok faults exec ms (user_version db) (Finished (Inr c))"
    by (auto simp: opener_ok_def)
  with return_version show ?case by (intro inv_update) (auto simp: openers_inv_def)
next
  case (fault i os db)
  then show ?case by (intro inv_update) (auto simp: openers_inv_def opener_ok_def explained_def)
qed

lemma open_run_inv:
  assumes "consecutive ms" and "0 \<le> user_version db0"
    and "(open_step faults exec ms)\<^sup>*\<^sup>* (db0, replicate n Opening) s"
  shows "openers_inv faults exec ms db0 s"
  using assms(3)
proof (induction rule: rtranclp_induct)
  case base
  show ?case using assms(2) by (auto simp: openers_inv_def upgraded_def opener_ok_def list_all_iff)
next
  case (step s s')
  then show ?case using open_step_inv [OF assms(1,2)] by blast
qed

lemma open_run_length: "(open_step faults exec ms)\<^sup>*\<^sup>* s s' \<Longrightarrow> length (snd s') = length (snd s)"
proof (induction rule: rtranclp_induct)
  case (step s s')
  from step(2,3) show ?case by (induction rule: open_step.induct) simp_all
qed simp

lemma lone_turn:
  "migrate_one exec c m db = (Inr c', db') \<Longrightarrow>
   open_step faults exec ms (db, [Looping c (m # rest)]) (db', [Looping c' rest])"
  using turn_ok [of 0 "[Looping c (m # rest)]" c m rest exec db c' db' faults ms] by simp

text \<open>A process alone: the loop of \<^const>\<open>migrate\<close> is one run of the step relation.\<close>

lemma lone_steps:
  "migrate_one exec c m db = (Inl e, db') \<Longrightarrow>
   open_step faults exec ms (db, [Looping c (m # rest)]) (db', [Finished (Inl e)])"
  "open_step faults exec ms (db, [Looping c []]) (db, [Finished (Inr c)])"
  "open_step faults exec ms (db, [Opening]) (db, [Looping (user_version db) ms])"
  using turn_err [of 0 "[Looping c (m # rest)]" c m rest exec db e db' faults ms]
    return_version [of 0 "[Looping c []]" c faults exec ms db] read_version [of 0 "[Opening]" faults exec ms db]
  by simp_all

lemma migrate_loop_run:
  "migrate_loop exec c rest db = (r, db') \<Longrightarrow>
   (open_step faults exec ms)\<^sup>*\<^sup>* (db, [Looping c rest]) (db', [Finished r])"
proof (induction exec c rest db rule: migrate_loop.induct)
  case (1 exec c db)
  then show ?case by (auto intro: lone_steps)
next
  case (2 exec c m rest db)
  show ?case
  proof (cases "migrate_one exec c m db")
    case (Pair r1 db1)
    show ?thesis
    proof (cases r1)
      case (Inl e)
      with Pair 2(2) show ?thesis by (auto intro: lone_steps)
    next
      case (Inr c1)
      with Pair 2 have "(open_step faults exec ms)\<^sup>*\<^sup>* (db1, [Looping c1 rest]) (db', [Finished r])" by simp
      moreover from Pair Inr have "open_step faults exec ms (db, [Looping c (m # rest)]) (db1, [Looping c1 rest])"
        by (simp add: lone_turn)
      ultimately show ?thesis by (rule converse_rtranclp_into_rtranclp [rotated])
    qed
  qed
qed

lemma migrate_run:
  "migrate exec ms db = (r, db') \<Longrightarrow> (open_step faults exec ms)\<^sup>*\<^sup>* (db, [Opening]) (db', [Finished r])"
  using lone_steps(3) migrate_loop_run by (metis migrate_def converse_rtranclp_into_rtranclp)

lemma migrate_upgrades:
  assumes "consecutive ms" and "0 \<le> user_version db" and "migrate exec ms db = (r, db')"
  shows "upgraded exec ms db db' \<and> opener_ok False exec ms (user_version db') (Finished r)"
  using open_run_inv [OF assms(1,2), of False exec 1] migrate_run [OF assms(3)]
  by (fastforce simp: openers_inv_def)

section \<open>Progress\<close>

text \<open>What is left to do: every step of an opener takes one unit of work.\<close>

fun opener_work :: "Migration list \<Rightarrow> opener \<Rightarrow> nat" where
  "opener_work ms Opening = length ms + 2"
| "opener_work ms (Looping c rest) = length rest + 1"
| "opener_work ms (Finished r) = 0"

definition work :: "Migration list \<Rightarrow> opener list \<Rightarrow> nat" where
  "work ms os = sum_list (map (opener_work ms) os)"

lemma work_update:
  "i < length os \<Longrightarrow> opener_work ms p < opener_work ms (os ! i) \<Longrightarrow> work ms (os[i := p]) < work ms os"
  by (induction os arbitrary: i) (auto simp: work_def split: nat.split)

lemma open_step_work: "open_step faults exec ms s s' \<Longrightarrow> work ms (snd s') < work ms (snd s)"
proof (induction rule: open_step.induct)
  case (fault i os db)
  then show ?case by (cases "os ! i") (auto intro!: work_update)
qed (auto intro!: work_update)

lemma open_run_bound: "(open_step faults exec ms ^^ k) s s' \<Longrightarrow> k + work ms (snd s') \<le> work ms (snd s)"
proof (induction k arbitrary: s')
  case (Suc k)
  then obtain s1 where "(open_step faults exec ms ^^ k) s s1" "open_step faults exec ms s1 s'" by auto
  with Suc.IH [of s1] open_step_work [of faults exec ms s1 s'] show ?case by simp
qed auto

lemma opener_can_step:
  assumes "p \<in> set os" and "\<not> (\<exists>r. p = Finished r)"
  shows "\<exists>s'. open_step faults exec ms (db, os) s'"
proof -
  from assms(1) obtain i where i: "i < length os" "os ! i = p" by (metis in_set_conv_nth)
  show ?thesis
  proof (cases p)
    case (Looping c rest)
    show ?thesis
    proof (cases rest)
      case Nil
      with Looping i show ?thesis by (metis return_version)
    next
      case (Cons m rest')
      show ?thesis
        using i Looping Cons turn_ok [of i os c m rest' exec db] turn_err [of i os c m rest' exec db]
        by (cases "migrate_one exec c m db"; cases "fst (migrate_one exec c m db)") fastforce+
    qed
  qed (use i assms(2) read_version in metis)+
qed

section \<open>Properties\<close>

text \<open>C9. Any number of processes may open a database at the same instant: in every
  interleaving, with lock timeouts, failing batches and aborted openers, the contents are
  always those of the original with each migration between the old and the new version
  applied exactly once and in order; an opener that returns does so on a fully migrated
  database; and an opener that gives up met a failed batch or an unreachable database,
  never a gap.\<close>

theorem concurrent_migration_safe:
  assumes "consecutive ms" and "0 \<le> user_version db0"
    and "(open_step faults exec ms)\<^sup>*\<^sup>* (db0, replicate n Opening) (db, os)"
  shows "upgraded exec ms db0 db \<and>
    (\<forall>c. Finished (Inr c) \<in> set os \<longrightarrow> int (length ms) \<le> c \<and> c \<le> user_version db) \<and>
    (\<forall>e. Finished (Inl e) \<in> set os \<longrightarrow> explained faults exec ms e)"
  using open_run_inv [OF assms] by (auto simp: openers_inv_def list_all_iff opener_ok_def)

text \<open>Opening always comes to an end: when no batch fails and the database stays reachable,
  every run of \<open>n\<close> openers takes at most \<open>n * (length ms + 2)\<close> steps, and a run that cannot be
  continued has every opener returned with the schema version and the database fully
  migrated from where it was.\<close>

theorem concurrent_migration_completes:
  assumes "consecutive ms" and "0 \<le> user_version db0" and "user_version db0 \<le> int (length ms)"
    and "\<And>m d. m \<in> set ms \<Longrightarrow> exec (mi_sql m) d \<noteq> None"
    and "(open_step False exec ms ^^ k) (db0, replicate n Opening) (db, os)"
  shows "k \<le> n * (length ms + 2) \<and>
    ((\<nexists>s'. open_step False exec ms (db, os) s') \<longrightarrow>
      upgraded exec ms db0 db \<and> os = replicate n (Finished (Inr (int (length ms)))) \<and>
      (n > 0 \<longrightarrow> user_version db = int (length ms)))"
proof (intro conjI impI)
  show "k \<le> n * (length ms + 2)"
    using open_run_bound [OF assms(5)] by (simp add: work_def sum_list_replicate)
  have run: "(open_step False exec ms)\<^sup>*\<^sup>* (db0, replicate n Opening) (db, os)"
    using assms(5) by (rule relpowp_imp_rtranclp)
  note inv = open_run_inv [OF assms(1,2) run]
  assume stuck: "\<nexists>s'. open_step False exec ms (db, os) s'"
  have "p = Finished (Inr (int (length ms))) \<and> user_version db = int (length ms)" if mem: "p \<in> set os" for p
  proof -
    obtain r where p: "p = Finished r" using opener_can_step [OF mem, of False exec ms db] stuck by blast
    have "opener_ok False exec ms (user_version db) p" "upgraded exec ms db0 db"
      using inv mem by (auto simp: openers_inv_def list_all_iff)
    moreover have "\<not> explained False exec ms e" for e using assms(4) by (auto simp: explained_def split: MigrateError.split)
    ultimately show ?thesis using p assms(3) by (cases r) (simp_all add: opener_ok_def upgraded_def)
  qed
  moreover have "length os = n" using open_run_length [OF run] by simp
  ultimately have all: "upgraded exec ms db0 db \<and> os = replicate n (Finished (Inr (int (length ms)))) \<and>
      (n > 0 \<longrightarrow> user_version db = int (length ms))"
    using inv by (auto simp: openers_inv_def intro: replicate_eqI) (metis length_greater_0_conv nth_mem)
  then show "upgraded exec ms db0 db" "os = replicate n (Finished (Inr (int (length ms))))" by blast+
  assume "n > 0"
  with all show "user_version db = int (length ms)" by blast
qed

text \<open>A run of one opener on an empty database of two steps.\<close>

definition sample_exec :: "string \<Rightarrow> string list \<Rightarrow> string list option" where
  "sample_exec sql d = Some (d @ [sql])"

definition sample_schema :: "Migration list" where
  "sample_schema = numbered (\<lambda>v. if v = 1 then ''a'' else ''b'') [(1, ''x''), (2, ''y'')]"

lemma relpowp_4: "P a b \<Longrightarrow> P b c \<Longrightarrow> P c d \<Longrightarrow> P d e \<Longrightarrow> (P ^^ 4) a e"
  by (simp add: numeral_eq_Suc) blast

lemma sample_run:
  "(open_step False sample_exec sample_schema ^^ 4)
     (\<lparr> user_version = 0, contents = [] \<rparr>, replicate 1 Opening)
     (\<lparr> user_version = 2, contents = [''a'', ''b''] \<rparr>, [Finished (Inr 2)])"
proof -
  let ?S = "open_step False sample_exec sample_schema"
  have "?S (\<lparr> user_version = 0, contents = [] \<rparr>, replicate 1 Opening)
      (\<lparr> user_version = 0, contents = [] \<rparr>, [Looping 0 sample_schema])"
    using read_version [of 0 "replicate 1 Opening" False sample_exec sample_schema "\<lparr> user_version = 0, contents = [] \<rparr>"] by simp
  moreover have "?S (\<lparr> user_version = 0, contents = [] \<rparr>, [Looping 0 sample_schema])
      (\<lparr> user_version = 1, contents = [''a''] \<rparr>, [Looping 1 (tl sample_schema)])"
    unfolding sample_schema_def numbered_def
    by (simp, rule lone_turn) (simp add: migrate_one_def sample_exec_def Let_def)
  moreover have "?S (\<lparr> user_version = 1, contents = [''a''] \<rparr>, [Looping 1 (tl sample_schema)])
      (\<lparr> user_version = 2, contents = [''a'', ''b''] \<rparr>, [Looping 2 []])"
    unfolding sample_schema_def numbered_def
    by (simp, rule lone_turn) (simp add: migrate_one_def sample_exec_def Let_def)
  moreover have "?S (\<lparr> user_version = 2, contents = [''a'', ''b''] \<rparr>, [Looping 2 []])
      (\<lparr> user_version = 2, contents = [''a'', ''b''] \<rparr>, [Finished (Inr 2)])"
    using return_version [of 0 "[Looping 2 []]" 2 False sample_exec sample_schema "\<lparr> user_version = 2, contents = [''a'', ''b''] \<rparr>"]
    by simp
  ultimately show ?thesis by (rule relpowp_4)
qed

lemma sample_schema_ok: "consecutive sample_schema" "length sample_schema = 2"
  by (simp_all add: consecutive_def sample_schema_def numbered_def upt_rec)

lemma sample_stuck: "\<nexists>s'. open_step False sample_exec sample_schema (db, [Finished r]) s'"
  by (auto elim: open_step.cases)

theorem concurrent_migration_safe_witness:
  "upgraded sample_exec sample_schema \<lparr> user_version = 0, contents = [] \<rparr>
     \<lparr> user_version = 2, contents = [''a'', ''b''] \<rparr> \<and> int (length sample_schema) \<le> 2"
  using concurrent_migration_safe [OF sample_schema_ok(1) _ relpowp_imp_rtranclp [OF sample_run]] by simp

theorem concurrent_migration_completes_witness:
  "4 \<le> 1 * (length sample_schema + 2) \<and>
   upgraded sample_exec sample_schema \<lparr> user_version = 0, contents = [] \<rparr>
     \<lparr> user_version = 2, contents = [''a'', ''b''] \<rparr>"
  using concurrent_migration_completes [OF sample_schema_ok(1) _ _ _ sample_run] sample_stuck
  by (simp add: sample_exec_def sample_schema_ok(2))

end
