(* ===== verification/Rust_Result.thy ===== *)
theory Rust_Result
  imports Store_Types
begin

text \<open>
  Rust's \<^verbatim>\<open>Result\<close> with the error code of \<^verbatim>\<open>ToolError\<close> on the left: the \<^verbatim>\<open>?\<close> operator, loops whose
  body may fail, and the facts that carry proofs through them. Panics are errors too.
\<close>

type_synonym 'a res = "ErrorCode + 'a"

named_theorems res_defs \<open>operations that are unfolded when a successful run is taken apart\<close>

definition and_then :: "'a res \<Rightarrow> ('a \<Rightarrow> 'b res) \<Rightarrow> 'b res" where
  "and_then r f = (case r of Inl e \<Rightarrow> Inl e | Inr x \<Rightarrow> f x)"

definition ok_or :: "ErrorCode \<Rightarrow> 'a option \<Rightarrow> 'a res" where
  "ok_or e x = (case x of None \<Rightarrow> Inl e | Some v \<Rightarrow> Inr v)"

definition require :: "ErrorCode \<Rightarrow> bool \<Rightarrow> unit res" where
  "require e b = (if b then Inr () else Inl e)"

text \<open>A loop over a list whose body threads a state and may fail.\<close>

fun for_each :: "('s \<Rightarrow> 'a \<Rightarrow> 's res) \<Rightarrow> 's \<Rightarrow> 'a list \<Rightarrow> 's res" where
  "for_each f s [] = Inr s"
| "for_each f s (x # xs) = and_then (f s x) (\<lambda>s'. for_each f s' xs)"

lemma and_then_simps [simp]: "and_then (Inl e) f = Inl e" "and_then (Inr x) f = f x"
  by (simp_all add: and_then_def)

lemma and_then_Inr [simp]: "and_then r f = Inr y \<longleftrightarrow> (\<exists>x. r = Inr x \<and> f x = Inr y)"
  by (cases r) simp_all

lemma ok_or_Inr [simp]: "ok_or e x = Inr v \<longleftrightarrow> x = Some v"
  by (simp add: ok_or_def split: option.split)

lemma ok_or_Some [simp]: "ok_or e (Some v) = Inr v" "ok_or e None = Inl e"
  by (simp_all add: ok_or_def)

lemma require_Inr [simp]: "require e b = Inr u \<longleftrightarrow> b"
  by (simp add: require_def)

lemma require_simps [simp]: "require e True = Inr ()" "require e False = Inl e"
  by (simp_all add: require_def)

lemma for_each_append: "for_each f s (xs @ ys) = and_then (for_each f s xs) (\<lambda>s'. for_each f s' ys)"
proof (induction xs arbitrary: s)
  case (Cons x xs)
  then show ?case by (cases "f s x") simp_all
qed simp

text \<open>An invariant of every successful turn is an invariant of a successful loop.\<close>

lemma for_each_inv:
  assumes "for_each f s xs = Inr s'" and "I s"
    and "\<And>x s s'. x \<in> set xs \<Longrightarrow> I s \<Longrightarrow> f s x = Inr s' \<Longrightarrow> I s'"
  shows "I s'"
  using assms by (induction xs arbitrary: s) auto

text \<open>A loop succeeds when every turn does and keeps the invariant.\<close>

lemma for_each_total:
  assumes "I s" and "\<And>x s. x \<in> set xs \<Longrightarrow> I s \<Longrightarrow> \<exists>s'. f s x = Inr s' \<and> I s'"
  shows "\<exists>s'. for_each f s xs = Inr s' \<and> I s'"
  using assms
proof (induction xs arbitrary: s)
  case (Cons x xs)
  from Cons.prems obtain s1 where "f s x = Inr s1" "I s1" by (metis list.set_intros(1))
  with Cons show ?case by simp
qed simp

end
