(* ===== verification/Device_Store.thy ===== *)
theory Device_Store
  imports Rust_Result Linesplit Drain
begin

text \<open>
  The device store (\<^verbatim>\<open>crates/conminer-core/src/store/device.rs\<close>), writing side: the tables a block
  of console input touches, the write batch, sessions, epochs and retention. A table is the
  list of its rows in insertion order; SQLite numbers the rows of a table upwards from its
  largest id, so this is also the order of ids. Every SQL statement is an operation on the
  lists, with the constraints of \<^verbatim>\<open>store/schema.rs\<close> (foreign keys, unique offsets, checks) as error
  branches; full-text indexes are left out. Ids and times are unbounded integers, offsets and
  lengths natural numbers.
\<close>

section \<open>Rows\<close>

datatype SessionSource = Live | File_source | Pstore_source | Lava_source

fun SessionSource_as_str :: "SessionSource \<Rightarrow> string" where
  "SessionSource_as_str Live = ''live''"
| "SessionSource_as_str File_source = ''file''"
| "SessionSource_as_str Pstore_source = ''pstore''"
| "SessionSource_as_str Lava_source = ''lava''"

definition SessionSource_parse :: "string \<Rightarrow> SessionSource res" where
  "SessionSource_parse s =
     (if s = ''live'' then Inr Live else if s = ''file'' then Inr File_source
      else if s = ''pstore'' then Inr Pstore_source else if s = ''lava'' then Inr Lava_source
      else Inl InvalidArgument)"

record SessionRow =
  se_id :: int
  se_source :: SessionSource
  se_started_at :: int
  se_ended_at :: "int option"
  se_label :: "string option"
  se_content_sha :: "string option"
  se_source_path :: "string option"
  se_bytes :: int
  se_lines :: int
  se_records :: int

record LineRow =
  lr_id :: int
  lr_session_id :: int
  lr_boot_id :: "int option"
  lr_stream_offset :: nat
  lr_ts_mono :: int
  lr_ts_wall :: int
  lr_stage_id :: "int option"
  lr_bytes :: "byte list"
  lr_terminator :: Terminator
  lr_truncated :: bool
  lr_continuation :: bool

definition LineRow_lossy :: "(byte list \<Rightarrow> string) \<Rightarrow> LineRow \<Rightarrow> string" where
  "LineRow_lossy lossy l = lossy (lr_bytes l)"

definition end_offset :: "LineRow \<Rightarrow> nat" where
  "end_offset l = lr_stream_offset l + length (lr_bytes l) + length (Terminator_raw (lr_terminator l))"

record RecordRow =
  rr_id :: int
  rr_session_id :: int
  rr_boot_id :: "int option"
  rr_first_line_id :: int
  rr_last_line_id :: int
  rr_line_count :: int
  rr_stage_id :: "int option"
  rr_profile :: string
  rr_severity :: Severity
  rr_kind :: RecordKind
  rr_template_id :: "int option"
  rr_truncated :: bool
  rr_fields :: json

record TemplateRow =
  tr_id :: int
  tr_stage :: "string option"
  tr_profile :: string
  tr_text :: string
  tr_tokens :: "string list"
  tr_head_only :: bool
  tr_severity :: Severity
  tr_first_seen_session :: int
  tr_first_seen_boot :: "int option"
  tr_first_seen_ts :: int
  tr_total_count :: int

record OccurrenceRow =
  oc_template_id :: int
  oc_session_id :: int
  oc_boot_id :: int
  oc_count :: int
  oc_first_ts :: int
  oc_last_ts :: int

record StageRow =
  sg_id :: int
  sg_session_id :: int
  sg_boot_id :: "int option"
  sg_name :: string
  sg_profile :: string
  sg_entered_ts :: int
  sg_banner_line_id :: "int option"
  sg_exited_ts :: "int option"

record BootRow =
  ep_id :: int
  ep_seq :: int
  ep_session_id :: "int option"
  ep_label :: "string option"
  ep_opened_by :: string
  ep_opened_at :: int
  ep_opened_offset :: nat
  ep_closed_at :: "int option"
  ep_bytes :: int
  ep_fingerprint :: "string option"
  ep_outcome :: "string option"
  ep_image_id :: "int option"
  ep_group_id :: "string option"

record VersionRow =
  ev_boot_id :: int
  ev_component :: string
  ev_version :: string
  ev_detail :: json
  ev_line_id :: "int option"
  ev_ts_wall :: int
  ev_superseded :: bool

record AnnotationRow =
  an_id :: int
  an_record_id :: int
  an_kind :: string
  an_data :: json
  an_made_at :: int

record BaselineRow =
  bl_name :: string
  bl_boot_id :: int
  bl_note :: "string option"
  bl_set_at :: int

record Tables =
  tb_sessions :: "SessionRow list"
  tb_raw_lines :: "LineRow list"
  tb_records :: "RecordRow list"
  tb_templates :: "TemplateRow list"
  tb_occurrences :: "OccurrenceRow list"
  tb_stages :: "StageRow list"
  tb_boots :: "BootRow list"
  tb_epoch_versions :: "VersionRow list"
  tb_annotations :: "AnnotationRow list"
  tb_baselines :: "BaselineRow list"
  tb_pending_tail :: "(string \<times> int) option"
  tb_canonical :: "string option"
  tb_cursor_token :: string
  tb_stream_offset :: nat
  tb_pruned_before :: nat

record DeviceStore =
  ds_db :: Tables
  ds_canonical :: string
  ds_cursor_token :: string
  ds_stream_offset :: nat
  ds_pruned_before :: nat

record PendingLine =
  pe_bytes :: "byte list"
  pe_terminator :: Terminator
  pe_truncated :: bool
  pe_continuation :: bool
  pe_ts_mono :: int
  pe_ts_wall :: int
  pe_stage_id :: "int option"

definition PendingLine_from_line :: "Line \<Rightarrow> int \<Rightarrow> int \<Rightarrow> PendingLine" where
  "PendingLine_from_line l ts_mono ts_wall =
     \<lparr> pe_bytes = line_bytes l, pe_terminator = line_terminator l, pe_truncated = line_truncated l,
       pe_continuation = line_continuation l, pe_ts_mono = ts_mono, pe_ts_wall = ts_wall, pe_stage_id = None \<rparr>"

definition PendingLine_consumed :: "PendingLine \<Rightarrow> nat" where
  "PendingLine_consumed l = length (pe_bytes l) + length (Terminator_raw (pe_terminator l))"

record LineRef =
  ref_id :: int
  ref_stream_offset :: nat

record PendingRecord =
  pr_session_id :: int
  pr_boot_id :: "int option"
  pr_first_line_id :: int
  pr_last_line_id :: int
  pr_line_count :: int
  pr_stage_id :: "int option"
  pr_profile :: string
  pr_severity :: Severity
  pr_kind :: RecordKind
  pr_template_id :: "int option"
  pr_truncated :: bool
  pr_fields :: json
  pr_text :: string

record Batch =
  ba_db :: Tables
  ba_offset :: nat
  ba_counters :: "(int, int \<times> int \<times> int) btree"
  ba_boot_bytes :: "(int, int) btree"

section \<open>SQL\<close>

text \<open>The id SQLite gives to the next row of a table.\<close>

definition next_id :: "int list \<Rightarrow> int" where
  "next_id ids = (if ids = [] then 1 else Max (set ids) + 1)"

text \<open>\<^verbatim>\<open>UPDATE .. SET .. WHERE ..\<close> of one table.\<close>

definition update_where :: "('a \<Rightarrow> bool) \<Rightarrow> ('a \<Rightarrow> 'a) \<Rightarrow> 'a list \<Rightarrow> 'a list" where
  "update_where P f rows = map (\<lambda>r. if P r then f r else r) rows"

text \<open>\<^verbatim>\<open>ORDER BY\<close> one column, ascending.\<close>

definition order_by :: "('a \<Rightarrow> 'k::linorder) \<Rightarrow> 'a list \<Rightarrow> 'a list" where
  "order_by key rows = sort_key key rows"

definition has_session :: "Tables \<Rightarrow> int \<Rightarrow> bool" where
  "has_session db i \<longleftrightarrow> i \<in> se_id ` set (tb_sessions db)"

definition has_line :: "Tables \<Rightarrow> int \<Rightarrow> bool" where
  "has_line db i \<longleftrightarrow> i \<in> lr_id ` set (tb_raw_lines db)"

definition has_template :: "Tables \<Rightarrow> int \<Rightarrow> bool" where
  "has_template db i \<longleftrightarrow> i \<in> tr_id ` set (tb_templates db)"

definition opt_all :: "('a \<Rightarrow> bool) \<Rightarrow> 'a option \<Rightarrow> bool" where
  "opt_all P x = (case x of None \<Rightarrow> True | Some v \<Rightarrow> P v)"

text \<open>\<^verbatim>\<open>*map.entry(k).or_insert(0) += n\<close>.\<close>

definition bump :: "int \<Rightarrow> int \<Rightarrow> (int, int) btree \<Rightarrow> (int, int) btree" where
  "bump k n m = bt_insert k ((case bt_get m k of Some v \<Rightarrow> v | None \<Rightarrow> 0) + n) m"

section \<open>The write batch\<close>

text \<open>\<^verbatim>\<open>begin_batch\<close>: the cached offset is advanced to the end of the last stored line.\<close>

definition stored_end :: "Tables \<Rightarrow> nat" where
  "stored_end db = (case rev (order_by lr_id (tb_raw_lines db)) of [] \<Rightarrow> 0 | l # _ \<Rightarrow> end_offset l)"

definition begin_batch :: "DeviceStore \<Rightarrow> Batch \<times> DeviceStore" where
  "begin_batch s =
     (let s = (if stored_end (ds_db s) > ds_stream_offset s
               then s\<lparr> ds_stream_offset := stored_end (ds_db s) \<rparr> else s)
      in (\<lparr> ba_db = ds_db s, ba_offset = ds_stream_offset s, ba_counters = [], ba_boot_bytes = [] \<rparr>, s))"

definition count :: "Batch \<Rightarrow> int \<Rightarrow> int \<Rightarrow> int \<Rightarrow> int \<Rightarrow> Batch" where
  "count b session_id bytes lines records =
     (let (x, y, z) = (case bt_get (ba_counters b) session_id of Some e \<Rightarrow> e | None \<Rightarrow> (0, 0, 0))
      in b\<lparr> ba_counters := bt_insert session_id (x + bytes, y + lines, z + records) (ba_counters b) \<rparr>)"

text \<open>One turn of the loop of \<^verbatim>\<open>append_lines\<close>: the row, its reference, and the offset moved on.\<close>

definition append_line ::
    "int \<Rightarrow> int option \<Rightarrow> LineRef list \<times> Batch \<Rightarrow> PendingLine \<Rightarrow> (LineRef list \<times> Batch) res" where
  "append_line session_id boot_id acc l =
     (let (refs, b) = acc; db = ba_db b; i = next_id (map lr_id (tb_raw_lines db))
      in and_then (require Internal (has_session db session_id \<and>
                     ba_offset b \<notin> lr_stream_offset ` set (tb_raw_lines db)))
           (\<lambda>_. Inr (refs @ [\<lparr> ref_id = i, ref_stream_offset = ba_offset b \<rparr>],
                b\<lparr> ba_db := db\<lparr> tb_raw_lines := tb_raw_lines db @
                     [\<lparr> lr_id = i, lr_session_id = session_id, lr_boot_id = boot_id, lr_stream_offset = ba_offset b,
                        lr_ts_mono = pe_ts_mono l, lr_ts_wall = pe_ts_wall l, lr_stage_id = pe_stage_id l,
                        lr_bytes = pe_bytes l, lr_terminator = pe_terminator l, lr_truncated = pe_truncated l,
                        lr_continuation = pe_continuation l \<rparr>] \<rparr>,
                   ba_offset := ba_offset b + PendingLine_consumed l \<rparr>)))"

definition Batch_append_lines ::
    "Batch \<Rightarrow> int \<Rightarrow> int option \<Rightarrow> PendingLine list \<Rightarrow> (LineRef list \<times> Batch) res" where
  "Batch_append_lines b session_id boot_id lines =
     (if lines = [] then Inr ([], b)
      else and_then (for_each (append_line session_id boot_id) ([], b) lines)
        (\<lambda>(refs, b).
           let bytes_added = int (sum_list (map PendingLine_consumed lines));
               b = count b session_id bytes_added (int (length lines)) 0
           in Inr (refs, case boot_id of
                Some e \<Rightarrow> b\<lparr> ba_boot_bytes := bump e bytes_added (ba_boot_bytes b) \<rparr>
              | None \<Rightarrow> b)))"

definition record_of :: "int \<Rightarrow> PendingRecord \<Rightarrow> RecordRow" where
  "record_of i r =
     \<lparr> rr_id = i, rr_session_id = pr_session_id r, rr_boot_id = pr_boot_id r,
       rr_first_line_id = pr_first_line_id r, rr_last_line_id = pr_last_line_id r,
       rr_line_count = pr_line_count r, rr_stage_id = pr_stage_id r, rr_profile = pr_profile r,
       rr_severity = pr_severity r, rr_kind = pr_kind r, rr_template_id = pr_template_id r,
       rr_truncated = pr_truncated r, rr_fields = pr_fields r \<rparr>"

definition Batch_append_record :: "Batch \<Rightarrow> PendingRecord \<Rightarrow> (int \<times> Batch) res" where
  "Batch_append_record b r =
     (let db = ba_db b; i = next_id (map rr_id (tb_records db))
      in and_then (require Internal (has_session db (pr_session_id r) \<and> has_line db (pr_first_line_id r) \<and>
                     has_line db (pr_last_line_id r) \<and> opt_all (has_template db) (pr_template_id r)))
           (\<lambda>_. Inr (i, count (b\<lparr> ba_db := db\<lparr> tb_records := tb_records db @ [record_of i r] \<rparr> \<rparr>)
                          (pr_session_id r) 0 0 1)))"

text \<open>\<^verbatim>\<open>note_version\<close>: the key is epoch, component and time; a repeated key keeps its flag and line.\<close>

definition note_version ::
    "Batch \<Rightarrow> int \<Rightarrow> string \<Rightarrow> string \<Rightarrow> json \<Rightarrow> int option \<Rightarrow> int \<Rightarrow> Batch res" where
  "note_version b boot_id component version detail line_id ts =
     (let db = ba_db b;
          vs = update_where (\<lambda>v. ev_boot_id v = boot_id \<and> ev_component v = component \<and> ev_ts_wall v < ts)
                 (\<lambda>v. v\<lparr> ev_superseded := True \<rparr>) (tb_epoch_versions db);
          same = (\<lambda>v. ev_boot_id v = boot_id \<and> ev_component v = component \<and> ev_ts_wall v = ts)
      in and_then (require Internal (boot_id \<in> ep_id ` set (tb_boots db)))
           (\<lambda>_. Inr (b\<lparr> ba_db := db\<lparr> tb_epoch_versions :=
              (if list_ex same vs then update_where same (\<lambda>v. v\<lparr> ev_version := version, ev_detail := detail \<rparr>) vs
               else vs @ [\<lparr> ev_boot_id = boot_id, ev_component = component, ev_version = version, ev_detail = detail,
                            ev_line_id = line_id, ev_ts_wall = ts, ev_superseded = False \<rparr>]) \<rparr> \<rparr>)))"

text \<open>\<^verbatim>\<open>INSERT INTO occurrences .. ON CONFLICT ..\<close>.\<close>

definition upsert_occurrence :: "int \<Rightarrow> int \<Rightarrow> int \<Rightarrow> int \<Rightarrow> OccurrenceRow list \<Rightarrow> OccurrenceRow list" where
  "upsert_occurrence t session_id boot ts os =
     (let same = (\<lambda>x. oc_template_id x = t \<and> oc_session_id x = session_id \<and> oc_boot_id x = boot)
      in if list_ex same os then update_where same (\<lambda>x. x\<lparr> oc_count := oc_count x + 1, oc_last_ts := ts \<rparr>) os
         else os @ [\<lparr> oc_template_id = t, oc_session_id = session_id, oc_boot_id = boot, oc_count = 1,
                      oc_first_ts = ts, oc_last_ts = ts \<rparr>])"

definition Batch_note_template ::
    "Batch \<Rightarrow> Template \<Rightarrow> bool \<Rightarrow> bool \<Rightarrow> int \<Rightarrow> int option \<Rightarrow> int \<Rightarrow> string option \<Rightarrow> string \<Rightarrow> Severity \<Rightarrow> Batch res" where
  "Batch_note_template b t created changed session_id boot_id ts stage profile severity =
     (let db = ba_db b; i = int (tpl_id t)
      in and_then
           (if created then
              and_then (require Internal (\<not> has_template db i \<and> has_session db session_id))
                (\<lambda>_. Inr (tb_templates db @
                   [\<lparr> tr_id = i, tr_stage = stage, tr_profile = profile, tr_text = Template_text t,
                      tr_tokens = tpl_tokens t, tr_head_only = tpl_head_only t, tr_severity = severity,
                      tr_first_seen_session = session_id, tr_first_seen_boot = boot_id, tr_first_seen_ts = ts,
                      tr_total_count = 1 \<rparr>]))
            else if changed then
              Inr (update_where (\<lambda>r. tr_id r = i)
                (\<lambda>r. r\<lparr> tr_text := Template_text t, tr_tokens := tpl_tokens t, tr_head_only := tpl_head_only t,
                        tr_severity := min (tr_severity r) severity, tr_total_count := tr_total_count r + 1 \<rparr>)
                (tb_templates db))
            else
              Inr (update_where (\<lambda>r. tr_id r = i)
                (\<lambda>r. r\<lparr> tr_severity := min (tr_severity r) severity, tr_total_count := tr_total_count r + 1 \<rparr>)
                (tb_templates db)))
           (\<lambda>ts'. let db' = db\<lparr> tb_templates := ts' \<rparr>
              in and_then (require Internal (has_template db' i \<and> has_session db' session_id))
                   (\<lambda>_. Inr (b\<lparr> ba_db := db'\<lparr> tb_occurrences :=
                      upsert_occurrence i session_id (case boot_id of Some e \<Rightarrow> e | None \<Rightarrow> 0) ts (tb_occurrences db) \<rparr> \<rparr>))))"

section \<open>Stages and epochs in a batch\<close>

definition insert_stage :: "Tables \<Rightarrow> int \<Rightarrow> int option \<Rightarrow> string \<Rightarrow> string \<Rightarrow> int \<Rightarrow> int option \<Rightarrow> (int \<times> Tables) res" where
  "insert_stage db session_id boot_id name profile entered_ts banner =
     (let i = next_id (map sg_id (tb_stages db))
      in and_then (require Internal (has_session db session_id \<and> opt_all (has_line db) banner))
           (\<lambda>_. Inr (i, db\<lparr> tb_stages := tb_stages db @
              [\<lparr> sg_id = i, sg_session_id = session_id, sg_boot_id = boot_id, sg_name = name, sg_profile = profile,
                 sg_entered_ts = entered_ts, sg_banner_line_id = banner, sg_exited_ts = None \<rparr>] \<rparr>)))"

definition append_stage_after ::
    "Batch \<Rightarrow> int \<Rightarrow> int option \<Rightarrow> string \<Rightarrow> string \<Rightarrow> int \<Rightarrow> int option \<Rightarrow> int option \<Rightarrow> (int \<times> Batch) res" where
  "append_stage_after b session_id boot_id name profile entered_ts banner close_prev =
     (let db = ba_db b;
          closing = (case close_prev of
                       Some i \<Rightarrow> (\<lambda>s. sg_id s = i)
                     | None \<Rightarrow> (\<lambda>s. sg_session_id s = session_id \<and> sg_exited_ts s = None));
          db = db\<lparr> tb_stages := update_where closing (\<lambda>s. s\<lparr> sg_exited_ts := Some entered_ts \<rparr>) (tb_stages db) \<rparr>
      in and_then (insert_stage db session_id boot_id name profile entered_ts banner)
           (\<lambda>(i, db). Inr (i, b\<lparr> ba_db := db \<rparr>)))"

definition Batch_append_stage ::
    "Batch \<Rightarrow> int \<Rightarrow> int option \<Rightarrow> string \<Rightarrow> string \<Rightarrow> int \<Rightarrow> int option \<Rightarrow> (int \<times> Batch) res" where
  "Batch_append_stage b session_id boot_id name profile entered_ts banner =
     (let db = ba_db b;
          db = db\<lparr> tb_stages := update_where (\<lambda>s. sg_session_id s = session_id \<and> sg_exited_ts s = None)
                  (\<lambda>s. s\<lparr> sg_exited_ts := Some entered_ts \<rparr>) (tb_stages db) \<rparr>
      in and_then (insert_stage db session_id boot_id name profile entered_ts banner)
           (\<lambda>(i, db). Inr (i, b\<lparr> ba_db := db \<rparr>)))"

definition next_seq :: "Tables \<Rightarrow> int" where
  "next_seq db = (if tb_boots db = [] then 0 else Max (ep_seq ` set (tb_boots db))) + 1"

definition OPENED_BY :: "string list" where
  "OPENED_BY = [''mark'', ''reset'', ''power'', ''flash'', ''session'', ''ingest'']"

definition boot_of :: "int \<Rightarrow> int \<Rightarrow> string \<Rightarrow> string option \<Rightarrow> int \<Rightarrow> int option \<Rightarrow> nat \<Rightarrow> BootRow" where
  "boot_of i seq opened_by label at1 session_id offset =
     \<lparr> ep_id = i, ep_seq = seq, ep_session_id = session_id, ep_label = label, ep_opened_by = opened_by,
       ep_opened_at = at1, ep_opened_offset = offset, ep_closed_at = None, ep_bytes = 0,
       ep_fingerprint = None, ep_outcome = None, ep_image_id = None, ep_group_id = None \<rparr>"

definition insert_boot ::
    "Tables \<Rightarrow> int \<Rightarrow> string \<Rightarrow> string option \<Rightarrow> int \<Rightarrow> int option \<Rightarrow> nat \<Rightarrow> (int \<times> Tables) res" where
  "insert_boot db seq opened_by label at1 session_id offset =
     (let i = next_id (map ep_id (tb_boots db))
      in and_then (require Internal (opened_by \<in> set OPENED_BY \<and> opt_all (has_session db) session_id))
           (\<lambda>_. Inr (i, db\<lparr> tb_boots := tb_boots db @ [boot_of i seq opened_by label at1 session_id offset] \<rparr>)))"

text \<open>The lines a back-dated epoch takes over, and what each donor loses.\<close>

definition LineRow_consumed :: "LineRow \<Rightarrow> nat" where
  "LineRow_consumed l = length (lr_bytes l) + length (Terminator_raw (lr_terminator l))"

definition claimed :: "nat \<Rightarrow> int \<Rightarrow> LineRow \<Rightarrow> bool" where
  "claimed start new_id l \<longleftrightarrow> lr_stream_offset l \<ge> start \<and> lr_boot_id l \<noteq> Some new_id"

definition debit_donors :: "LineRow list \<Rightarrow> (int, int) btree \<Rightarrow> (int, int) btree" where
  "debit_donors moved m =
     foldl (\<lambda>m l. case lr_boot_id l of Some d \<Rightarrow> bump d (- int (LineRow_consumed l)) m | None \<Rightarrow> m) m moved"

definition claim_lines :: "Batch \<Rightarrow> nat \<Rightarrow> int \<Rightarrow> Batch" where
  "claim_lines b start new_id =
     (let db = ba_db b; moved = filter (claimed start new_id) (tb_raw_lines db)
      in if moved = [] then b
         else
           let lines = update_where (claimed start new_id) (\<lambda>l. l\<lparr> lr_boot_id := Some new_id \<rparr>) (tb_raw_lines db);
               owned = lr_id ` set (filter (\<lambda>l. lr_boot_id l = Some new_id) lines)
           in b\<lparr> ba_db := db\<lparr> tb_raw_lines := lines,
                     tb_records := update_where (\<lambda>r. rr_first_line_id r \<in> owned)
                       (\<lambda>r. r\<lparr> rr_boot_id := Some new_id \<rparr>) (tb_records db),
                     tb_stages := update_where (\<lambda>s. case sg_banner_line_id s of Some i \<Rightarrow> i \<in> owned | None \<Rightarrow> False)
                       (\<lambda>s. s\<lparr> sg_boot_id := Some new_id \<rparr>) (tb_stages db) \<rparr>,
                 ba_boot_bytes := bump new_id (int (sum_list (map LineRow_consumed moved)))
                   (debit_donors moved (ba_boot_bytes b)) \<rparr>)"

definition open_boot_after ::
    "Batch \<Rightarrow> string \<Rightarrow> string option \<Rightarrow> int \<Rightarrow> int option \<Rightarrow> int option \<Rightarrow> nat option \<Rightarrow> bool \<Rightarrow> (int \<times> Batch) res" where
  "open_boot_after b opened_by label at1 session_id close_prev at_offset claim_range =
     (let db = ba_db b;
          seq = next_seq db;
          closing = (case close_prev of Some i \<Rightarrow> (\<lambda>e. ep_id e = i) | None \<Rightarrow> (\<lambda>e. ep_closed_at e = None));
          db = db\<lparr> tb_boots := update_where closing (\<lambda>e. e\<lparr> ep_closed_at := Some at1 \<rparr>) (tb_boots db) \<rparr>
      in and_then (insert_boot db seq opened_by label at1 session_id
                     (case at_offset of Some o1 \<Rightarrow> o1 | None \<Rightarrow> ba_offset b))
           (\<lambda>(new_id, db). let b = b\<lparr> ba_db := db \<rparr>
              in Inr (new_id, case at_offset of
                   Some start \<Rightarrow> if claim_range \<and> start < ba_offset b then claim_lines b start new_id else b
                 | None \<Rightarrow> b)))"

definition Batch_open_boot :: "Batch \<Rightarrow> string \<Rightarrow> string option \<Rightarrow> int \<Rightarrow> int option \<Rightarrow> (int \<times> Batch) res" where
  "Batch_open_boot b opened_by label at1 session_id =
     (let db = ba_db b;
          seq = next_seq db;
          db = db\<lparr> tb_boots := update_where (\<lambda>e. ep_closed_at e = None) (\<lambda>e. e\<lparr> ep_closed_at := Some at1 \<rparr>) (tb_boots db) \<rparr>
      in and_then (insert_boot db seq opened_by label at1 session_id (ba_offset b))
           (\<lambda>(i, db). Inr (i, b\<lparr> ba_db := db \<rparr>)))"

definition Batch_set_boot_summary :: "Batch \<Rightarrow> int \<Rightarrow> string option \<Rightarrow> string option \<Rightarrow> Batch" where
  "Batch_set_boot_summary b boot_id fingerprint outcome =
     (let db = ba_db b
      in b\<lparr> ba_db := db\<lparr> tb_boots := update_where (\<lambda>e. ep_id e = boot_id)
              (\<lambda>e. e\<lparr> ep_fingerprint := (if fingerprint = None then ep_fingerprint e else fingerprint),
                      ep_outcome := (if outcome = None then ep_outcome e else outcome) \<rparr>) (tb_boots db) \<rparr> \<rparr>)"

definition offset_of_line :: "Batch \<Rightarrow> int \<Rightarrow> nat res" where
  "offset_of_line b line_id =
     ok_or Internal (map_option lr_stream_offset (find (\<lambda>l. lr_id l = line_id) (tb_raw_lines (ba_db b))))"

definition reassign_tail_to_boot :: "Batch \<Rightarrow> int \<Rightarrow> int \<Rightarrow> int option \<Rightarrow> int \<Rightarrow> (int \<times> Batch) res" where
  "reassign_tail_to_boot b session_id from_line_id old_boot new_boot =
     and_then (offset_of_line b from_line_id)
       (\<lambda>from_offset.
          let moved = int (ba_offset b) - int from_offset;
              db = ba_db b;
              db = db\<lparr> tb_raw_lines := update_where (\<lambda>l. lr_session_id l = session_id \<and> lr_id l \<ge> from_line_id)
                      (\<lambda>l. l\<lparr> lr_boot_id := Some new_boot \<rparr>) (tb_raw_lines db) \<rparr>;
              m = (case old_boot of Some ob \<Rightarrow> bump ob (- moved) (ba_boot_bytes b) | None \<Rightarrow> ba_boot_bytes b)
          in Inr (moved, b\<lparr> ba_db := db, ba_boot_bytes := bump new_boot moved m \<rparr>))"

definition signature_of :: "Tables \<Rightarrow> int \<Rightarrow> int list \<times> string list" where
  "signature_of db boot_id =
     (List.map_filter rr_template_id (filter (\<lambda>r. rr_boot_id r = Some boot_id) (tb_records db)),
      map sg_name (filter (\<lambda>s. sg_boot_id s = Some boot_id) (tb_stages db)))"

definition Batch_boot_signature :: "Batch \<Rightarrow> int \<Rightarrow> int list \<times> string list" where
  "Batch_boot_signature b boot_id = signature_of (ba_db b) boot_id"

text \<open>\<^verbatim>\<open>commit\<close>: the accumulated counters go to their rows, byte totals never below zero.\<close>

definition commit_sessions :: "(int, int \<times> int \<times> int) btree \<Rightarrow> SessionRow list \<Rightarrow> SessionRow list" where
  "commit_sessions cs ss =
     foldl (\<lambda>ss (i, x, y, z). update_where (\<lambda>s. se_id s = i)
              (\<lambda>s. s\<lparr> se_bytes := se_bytes s + x, se_lines := se_lines s + y, se_records := se_records s + z \<rparr>) ss)
       ss cs"

definition commit_boots :: "(int, int) btree \<Rightarrow> BootRow list \<Rightarrow> BootRow list" where
  "commit_boots m es =
     foldl (\<lambda>es (i, n). update_where (\<lambda>e. ep_id e = i) (\<lambda>e. e\<lparr> ep_bytes := max 0 (ep_bytes e + n) \<rparr>) es) es m"

definition Batch_commit :: "Batch \<Rightarrow> nat \<times> Tables" where
  "Batch_commit b =
     (let db = ba_db b
      in (ba_offset b, db\<lparr> tb_sessions := commit_sessions (ba_counters b) (tb_sessions db),
                          tb_boots := commit_boots (ba_boot_bytes b) (tb_boots db),
                          tb_stream_offset := ba_offset b \<rparr>))"

text \<open>\<^verbatim>\<open>commit\<close> followed by \<^verbatim>\<open>finish_batch\<close>, as every caller does.\<close>

definition finish_batch :: "DeviceStore \<Rightarrow> Batch \<Rightarrow> DeviceStore" where
  "finish_batch s b = (let (off, db) = Batch_commit b in s\<lparr> ds_db := db, ds_stream_offset := off \<rparr>)"

section \<open>The store\<close>

text \<open>A one-shot batch around an operation. A failed operation rolls the batch back; only the
  advanced offset cache stays.\<close>

definition in_batch :: "DeviceStore \<Rightarrow> (Batch \<Rightarrow> ('a \<times> Batch) res) \<Rightarrow> 'a res \<times> DeviceStore" where
  "in_batch s f =
     (let (b, s) = begin_batch s
      in case f b of Inl e \<Rightarrow> (Inl e, s) | Inr (x, b') \<Rightarrow> (Inr x, finish_batch s b'))"

definition append_lines :: "DeviceStore \<Rightarrow> int \<Rightarrow> int option \<Rightarrow> PendingLine list \<Rightarrow> LineRef list res \<times> DeviceStore" where
  "append_lines s session_id boot_id lines = in_batch s (\<lambda>b. Batch_append_lines b session_id boot_id lines)"

definition append_record :: "DeviceStore \<Rightarrow> PendingRecord \<Rightarrow> int res \<times> DeviceStore" where
  "append_record s r = in_batch s (\<lambda>b. Batch_append_record b r)"

definition note_template ::
    "DeviceStore \<Rightarrow> Template \<Rightarrow> bool \<Rightarrow> bool \<Rightarrow> int \<Rightarrow> int option \<Rightarrow> int \<Rightarrow> string option \<Rightarrow> string \<Rightarrow> Severity \<Rightarrow>
     unit res \<times> DeviceStore" where
  "note_template s t created changed session_id boot_id ts stage profile severity =
     in_batch s (\<lambda>b. and_then (Batch_note_template b t created changed session_id boot_id ts stage profile severity)
       (\<lambda>b. Inr ((), b)))"

definition append_stage ::
    "DeviceStore \<Rightarrow> int \<Rightarrow> int option \<Rightarrow> string \<Rightarrow> string \<Rightarrow> int \<Rightarrow> int option \<Rightarrow> int res \<times> DeviceStore" where
  "append_stage s session_id boot_id name profile entered_ts banner =
     in_batch s (\<lambda>b. Batch_append_stage b session_id boot_id name profile entered_ts banner)"

definition boot :: "DeviceStore \<Rightarrow> int \<Rightarrow> BootRow res" where
  "boot s i = ok_or UnknownBoot (find (\<lambda>e. ep_id e = i) (tb_boots (ds_db s)))"

definition open_boot_at ::
    "DeviceStore \<Rightarrow> string \<Rightarrow> string option \<Rightarrow> int \<Rightarrow> int option \<Rightarrow> nat option \<Rightarrow> BootRow res \<times> DeviceStore" where
  "open_boot_at s opened_by label at1 session_id at_offset =
     (let (r, s) = in_batch s (\<lambda>b. open_boot_after b opened_by label at1 session_id None at_offset True)
      in (and_then r (boot s), s))"

definition open_boot :: "DeviceStore \<Rightarrow> string \<Rightarrow> string option \<Rightarrow> int \<Rightarrow> int option \<Rightarrow> BootRow res \<times> DeviceStore" where
  "open_boot s opened_by label at1 session_id = open_boot_at s opened_by label at1 session_id None"

definition set_boot_summary :: "DeviceStore \<Rightarrow> int \<Rightarrow> string option \<Rightarrow> string option \<Rightarrow> DeviceStore" where
  "set_boot_summary s boot_id fingerprint outcome =
     (let (b, s) = begin_batch s in finish_batch s (Batch_set_boot_summary b boot_id fingerprint outcome))"

definition set_boot_group :: "DeviceStore \<Rightarrow> int \<Rightarrow> string \<Rightarrow> DeviceStore" where
  "set_boot_group s boot_id group_id =
     (let db = ds_db s
      in s\<lparr> ds_db := db\<lparr> tb_boots := update_where (\<lambda>e. ep_id e = boot_id)
              (\<lambda>e. e\<lparr> ep_group_id := Some group_id \<rparr>) (tb_boots db) \<rparr> \<rparr>)"

definition begin_session ::
    "DeviceStore \<Rightarrow> SessionSource \<Rightarrow> int \<Rightarrow> string option \<Rightarrow> string option \<Rightarrow> string option \<Rightarrow> int \<times> DeviceStore" where
  "begin_session s source started_at label content_sha source_path =
     (let db = ds_db s; i = next_id (map se_id (tb_sessions db))
      in (i, s\<lparr> ds_db := db\<lparr> tb_sessions := tb_sessions db @
              [\<lparr> se_id = i, se_source = source, se_started_at = started_at, se_ended_at = None, se_label = label,
                 se_content_sha = content_sha, se_source_path = source_path, se_bytes = 0, se_lines = 0,
                 se_records = 0 \<rparr>] \<rparr> \<rparr>))"

definition session :: "DeviceStore \<Rightarrow> int \<Rightarrow> SessionRow res" where
  "session s i = ok_or UnknownSession (find (\<lambda>r. se_id r = i) (tb_sessions (ds_db s)))"

definition end_session :: "DeviceStore \<Rightarrow> int \<Rightarrow> int \<Rightarrow> unit res \<times> DeviceStore" where
  "end_session s i at1 =
     (let db = ds_db s; open1 = (\<lambda>r. se_id r = i \<and> se_ended_at r = None)
      in if \<not> list_ex open1 (tb_sessions db) \<and> session s i = Inl UnknownSession then (Inl UnknownSession, s)
         else (Inr (), s\<lparr> ds_db := db\<lparr> tb_sessions :=
                 update_where open1 (\<lambda>r. r\<lparr> se_ended_at := Some at1 \<rparr>) (tb_sessions db) \<rparr> \<rparr>))"

definition set_session_content_sha :: "DeviceStore \<Rightarrow> int \<Rightarrow> string \<Rightarrow> DeviceStore" where
  "set_session_content_sha s i sha =
     (let db = ds_db s
      in s\<lparr> ds_db := db\<lparr> tb_sessions := update_where (\<lambda>r. se_id r = i)
              (\<lambda>r. r\<lparr> se_content_sha := Some sha \<rparr>) (tb_sessions db) \<rparr> \<rparr>)"

definition set_pending_tail :: "DeviceStore \<Rightarrow> string \<Rightarrow> int \<Rightarrow> DeviceStore" where
  "set_pending_tail s txt ts =
     (let db = ds_db s in s\<lparr> ds_db := db\<lparr> tb_pending_tail := (if txt = [] then None else Some (txt, ts)) \<rparr> \<rparr>)"

definition record_row :: "DeviceStore \<Rightarrow> int \<Rightarrow> RecordRow res" where
  "record_row s i = ok_or UnknownRecord (find (\<lambda>r. rr_id r = i) (tb_records (ds_db s)))"

definition annotate :: "DeviceStore \<Rightarrow> int \<Rightarrow> string \<Rightarrow> json \<Rightarrow> int \<Rightarrow> int res \<times> DeviceStore" where
  "annotate s record_id kind data now =
     (case record_row s record_id of
        Inl e \<Rightarrow> (Inl e, s)
      | Inr _ \<Rightarrow>
          let db = ds_db s; i = next_id (map an_id (tb_annotations db))
          in (Inr i, s\<lparr> ds_db := db\<lparr> tb_annotations := tb_annotations db @
                 [\<lparr> an_id = i, an_record_id = record_id, an_kind = kind, an_data = data, an_made_at = now \<rparr>] \<rparr> \<rparr>))"

text \<open>\<^verbatim>\<open>set_baseline\<close>: the name is the key, a repeated name is overwritten.\<close>

definition set_baseline :: "DeviceStore \<Rightarrow> string \<Rightarrow> int \<Rightarrow> string option \<Rightarrow> int \<Rightarrow> unit res \<times> DeviceStore" where
  "set_baseline s name boot_id note now =
     (case boot s boot_id of
        Inl e \<Rightarrow> (Inl e, s)
      | Inr _ \<Rightarrow>
          let db = ds_db s;
              bs = (if name \<in> bl_name ` set (tb_baselines db)
                    then update_where (\<lambda>b. bl_name b = name)
                           (\<lambda>b. b\<lparr> bl_boot_id := boot_id, bl_note := note, bl_set_at := now \<rparr>) (tb_baselines db)
                    else tb_baselines db @ [\<lparr> bl_name = name, bl_boot_id = boot_id, bl_note = note, bl_set_at = now \<rparr>])
          in (Inr (), s\<lparr> ds_db := db\<lparr> tb_baselines := bs \<rparr> \<rparr>))"

definition baseline :: "DeviceStore \<Rightarrow> string \<Rightarrow> BaselineRow option" where
  "baseline s name = find (\<lambda>b. bl_name b = name) (tb_baselines (ds_db s))"

definition clear_baseline :: "DeviceStore \<Rightarrow> string \<Rightarrow> bool \<times> DeviceStore" where
  "clear_baseline s name =
     (let db = ds_db s
      in (name \<in> bl_name ` set (tb_baselines db),
          s\<lparr> ds_db := db\<lparr> tb_baselines := filter (\<lambda>b. bl_name b \<noteq> name) (tb_baselines db) \<rparr> \<rparr>))"

section \<open>Opening a store\<close>

definition hex_encode :: "byte list \<Rightarrow> string" where
  "hex_encode bs = concat (map (\<lambda>b. pad_zeros 2 (digits_of 16 (unat b))) bs)"

definition reload_counters :: "DeviceStore \<Rightarrow> DeviceStore" where
  "reload_counters s = s\<lparr> ds_stream_offset := tb_stream_offset (ds_db s), ds_pruned_before := tb_pruned_before (ds_db s) \<rparr>"

text \<open>\<^verbatim>\<open>open_inner\<close> after the migrations: a store belongs to one device; a fresh one is initialised.
  The digest of the \<^verbatim>\<open>sha2\<close> crate is an argument.\<close>

definition open_inner :: "(string \<Rightarrow> byte list) \<Rightarrow> Tables \<Rightarrow> string \<Rightarrow> DeviceStore res" where
  "open_inner sha256 db canonical =
     (let mk = (\<lambda>db. \<lparr> ds_db = db, ds_canonical = canonical, ds_cursor_token = tb_cursor_token db,
                       ds_stream_offset = tb_stream_offset db, ds_pruned_before = tb_pruned_before db \<rparr>)
      in case tb_canonical db of
           Some c \<Rightarrow> if c \<noteq> canonical then Inl Internal else Inr (mk db)
         | None \<Rightarrow> Inr (mk (db\<lparr> tb_canonical := Some canonical,
                               tb_cursor_token := hex_encode (take 6 (sha256 canonical)),
                               tb_stream_offset := 0, tb_pruned_before := 0 \<rparr>)))"

definition empty_tables :: Tables where
  "empty_tables = \<lparr> tb_sessions = [], tb_raw_lines = [], tb_records = [], tb_templates = [], tb_occurrences = [],
     tb_stages = [], tb_boots = [], tb_epoch_versions = [], tb_annotations = [], tb_baselines = [], tb_pending_tail = None,
     tb_canonical = None, tb_cursor_token = [], tb_stream_offset = 0, tb_pruned_before = 0 \<rparr>"

end
