(* ===== verification/Store_Queries.thy ===== *)
theory Store_Queries
  imports Device_Store
begin

text \<open>
  The device store (\<^verbatim>\<open>crates/conminer-core/src/store/device.rs\<close>), reading side and retention:
  cursors, the selects, export, pruning and the size cap, and the decision of the
  \<^verbatim>\<open>prune\<close> tool (\<^verbatim>\<open>crates/conminer-mcp/src/tools.rs\<close>). \<^verbatim>\<open>ORDER BY\<close> is an explicit sort, \<^verbatim>\<open>LIMIT\<close> a
  prefix.
\<close>

section \<open>Cursors\<close>

definition head_cursor :: "DeviceStore \<Rightarrow> Cursor" where
  "head_cursor s = Cursor_new (ds_cursor_token s) (of_nat (ds_stream_offset s))"

definition cursor_at :: "DeviceStore \<Rightarrow> nat \<Rightarrow> Cursor" where
  "cursor_at s offset = Cursor_new (ds_cursor_token s) (of_nat offset)"

definition resolve_cursor :: "DeviceStore \<Rightarrow> Cursor \<Rightarrow> nat res" where
  "resolve_cursor s c =
     (if cur_token c \<noteq> ds_cursor_token s then Inl InvalidCursor
      else if unat (cur_offset c) < ds_pruned_before s then Inl CursorExpired
      else Inr (unat (cur_offset c)))"

definition pending_tail :: "DeviceStore \<Rightarrow> (string \<times> int) option" where
  "pending_tail s = (case tb_pending_tail (ds_db s) of
     Some (t, ts) \<Rightarrow> if t = [] then None else Some (t, ts) | None \<Rightarrow> None)"

section \<open>Lines\<close>

definition line_row :: "DeviceStore \<Rightarrow> int \<Rightarrow> LineRow res" where
  "line_row s i = ok_or UnknownLine (find (\<lambda>l. lr_id l = i) (tb_raw_lines (ds_db s)))"

definition lines_by_id :: "DeviceStore \<Rightarrow> (LineRow \<Rightarrow> bool) \<Rightarrow> LineRow list" where
  "lines_by_id s P = order_by lr_id (filter P (tb_raw_lines (ds_db s)))"

definition context_lines :: "DeviceStore \<Rightarrow> int \<Rightarrow> nat \<Rightarrow> nat \<Rightarrow> LineRow list res" where
  "context_lines s line_id before after =
     and_then (line_row s line_id)
       (\<lambda>anchor. Inr (rev (take before (rev (lines_by_id s (\<lambda>l. lr_id l < line_id)))) @ [anchor] @
                     take after (lines_by_id s (\<lambda>l. lr_id l > line_id))))"

definition recent_lines :: "DeviceStore \<Rightarrow> nat \<Rightarrow> LineRow list" where
  "recent_lines s n = rev (take n (rev (lines_by_id s (\<lambda>_. True))))"

definition lines_after :: "DeviceStore \<Rightarrow> nat \<Rightarrow> nat \<Rightarrow> LineRow list" where
  "lines_after s offset limit =
     take limit (order_by lr_stream_offset (filter (\<lambda>l. lr_stream_offset l \<ge> offset) (tb_raw_lines (ds_db s))))"

definition lines_for_session :: "DeviceStore \<Rightarrow> int \<Rightarrow> LineRow list" where
  "lines_for_session s session_id = lines_by_id s (\<lambda>l. lr_session_id l = session_id)"

text \<open>\<^verbatim>\<open>search_regex\<close>: the hits and the number of lines read; reading stops at the limit.\<close>

fun scan_lines :: "(LineRow \<Rightarrow> bool) \<Rightarrow> nat \<Rightarrow> LineRow list \<Rightarrow> LineRow list \<Rightarrow> nat \<Rightarrow> LineRow list \<times> nat" where
  "scan_lines P limit [] hits scanned = (hits, scanned)"
| "scan_lines P limit (l # ls) hits scanned =
     (if P l then
        if length (hits @ [l]) \<ge> limit then (hits @ [l], scanned + 1)
        else scan_lines P limit ls (hits @ [l]) (scanned + 1)
      else scan_lines P limit ls hits (scanned + 1))"

definition search_regex ::
    "(byte list \<Rightarrow> string) \<Rightarrow> DeviceStore \<Rightarrow> (string \<Rightarrow> bool) \<Rightarrow> int option \<Rightarrow> nat \<Rightarrow> LineRow list \<times> nat" where
  "search_regex lossy s re session_id limit =
     scan_lines (\<lambda>l. re (lossy (lr_bytes l))) limit
       (lines_by_id s (\<lambda>l. case session_id of None \<Rightarrow> True | Some i \<Rightarrow> lr_session_id l = i)) [] 0"

definition lines_between :: "DeviceStore \<Rightarrow> int \<Rightarrow> int \<Rightarrow> nat \<Rightarrow> LineRow list" where
  "lines_between s from_ms to_ms limit =
     take limit (order_by lr_ts_wall (lines_by_id s (\<lambda>l. from_ms \<le> lr_ts_wall l \<and> lr_ts_wall l \<le> to_ms)))"

definition line_count :: "DeviceStore \<Rightarrow> int" where
  "line_count s = int (length (tb_raw_lines (ds_db s)))"

definition last_line_in_boot :: "DeviceStore \<Rightarrow> int \<Rightarrow> LineRow option" where
  "last_line_in_boot s boot_id =
     (case rev (lines_by_id s (\<lambda>l. lr_boot_id l = Some boot_id)) of [] \<Rightarrow> None | l # _ \<Rightarrow> Some l)"

definition boot_first_line_ts :: "DeviceStore \<Rightarrow> int \<Rightarrow> int option" where
  "boot_first_line_ts s boot_id =
     (let ts = map lr_ts_wall (filter (\<lambda>l. lr_boot_id l = Some boot_id) (tb_raw_lines (ds_db s)))
      in if ts = [] then None else Some (Min (set ts)))"

definition tail_since_boot :: "DeviceStore \<Rightarrow> int \<Rightarrow> nat \<Rightarrow> LineRow list" where
  "tail_since_boot s min_boot_id limit =
     take limit (rev (lines_by_id s (\<lambda>l. case lr_boot_id l of Some b \<Rightarrow> b \<ge> min_boot_id | None \<Rightarrow> False)))"

definition tail_of_boot :: "DeviceStore \<Rightarrow> int \<Rightarrow> nat \<Rightarrow> LineRow list" where
  "tail_of_boot s boot_id limit = take limit (rev (lines_by_id s (\<lambda>l. lr_boot_id l = Some boot_id)))"

section \<open>Records\<close>

definition records_by_id :: "DeviceStore \<Rightarrow> (RecordRow \<Rightarrow> bool) \<Rightarrow> RecordRow list" where
  "records_by_id s P = order_by rr_id (filter P (tb_records (ds_db s)))"

definition or_any :: "'a option \<Rightarrow> 'a \<Rightarrow> bool" where
  "or_any p x = (case p of None \<Rightarrow> True | Some y \<Rightarrow> x = y)"

definition records_for_template :: "DeviceStore \<Rightarrow> int \<Rightarrow> int option \<Rightarrow> int option \<Rightarrow> nat \<Rightarrow> nat \<Rightarrow> RecordRow list" where
  "records_for_template s template_id session_id boot_id limit offset =
     take limit (drop offset (records_by_id s (\<lambda>r. rr_template_id r = Some template_id \<and>
       or_any session_id (rr_session_id r) \<and> (boot_id = None \<or> rr_boot_id r = boot_id))))"

definition record_lines :: "DeviceStore \<Rightarrow> int \<Rightarrow> LineRow list res" where
  "record_lines s record_id =
     and_then (record_row s record_id)
       (\<lambda>r. Inr (lines_by_id s (\<lambda>l. rr_first_line_id r \<le> lr_id l \<and> lr_id l \<le> rr_last_line_id r)))"

definition record_text :: "(byte list \<Rightarrow> string) \<Rightarrow> DeviceStore \<Rightarrow> int \<Rightarrow> string res" where
  "record_text lossy s record_id =
     and_then (record_lines s record_id) (\<lambda>ls. Inr (join_with [CHR 0x0A] (map (LineRow_lossy lossy) ls)))"

definition records_in_boot :: "DeviceStore \<Rightarrow> int \<Rightarrow> RecordKind option \<Rightarrow> nat \<Rightarrow> RecordRow list" where
  "records_in_boot s boot_id kind limit =
     take limit (records_by_id s (\<lambda>r. rr_boot_id r = Some boot_id \<and> or_any kind (rr_kind r)))"

definition last_record_in_boot :: "DeviceStore \<Rightarrow> int \<Rightarrow> RecordKind \<Rightarrow> RecordRow option" where
  "last_record_in_boot s boot_id kind =
     (case rev (records_by_id s (\<lambda>r. rr_boot_id r = Some boot_id \<and> rr_kind r = kind)) of [] \<Rightarrow> None | r # _ \<Rightarrow> Some r)"

definition records_after_line :: "DeviceStore \<Rightarrow> int \<Rightarrow> nat \<Rightarrow> RecordRow list" where
  "records_after_line s from_line_id limit = take limit (records_by_id s (\<lambda>r. rr_first_line_id r \<ge> from_line_id))"

definition annotations :: "DeviceStore \<Rightarrow> int \<Rightarrow> (string \<times> json) list" where
  "annotations s record_id =
     map (\<lambda>a. (an_kind a, an_data a)) (order_by an_id (filter (\<lambda>a. an_record_id a = record_id) (tb_annotations (ds_db s))))"

section \<open>Templates\<close>

definition template_row :: "DeviceStore \<Rightarrow> int \<Rightarrow> TemplateRow res" where
  "template_row s i = ok_or UnknownTemplate (find (\<lambda>t. tr_id t = i) (tb_templates (ds_db s)))"

definition template_count :: "DeviceStore \<Rightarrow> int" where
  "template_count s = int (length (tb_templates (ds_db s)))"

definition load_drain :: "DeviceStore \<Rightarrow> DrainConfig \<Rightarrow> TokenizerRules \<Rightarrow> Drain" where
  "load_drain s cfg rules =
     from_templates cfg rules
       (map (\<lambda>t. \<lparr> tpl_id = nat (tr_id t), tpl_tokens = tr_tokens t, tpl_count = nat (tr_total_count t), tpl_head_only = tr_head_only t \<rparr>)
         (order_by tr_id (tb_templates (ds_db s))))"

text \<open>\<^verbatim>\<open>template_timeline\<close>: equal slots over the span of the hits, the last one closed.\<close>

definition hit_times :: "DeviceStore \<Rightarrow> int \<Rightarrow> int option \<Rightarrow> int list" where
  "hit_times s template_id session_id =
     sort (List.map_filter
       (\<lambda>r. if rr_template_id r = Some template_id \<and> or_any session_id (rr_session_id r)
            then map_option lr_ts_wall (find (\<lambda>l. lr_id l = rr_first_line_id r) (tb_raw_lines (ds_db s)))
            else None) (tb_records (ds_db s)))"

definition bucket_of :: "int \<Rightarrow> int \<Rightarrow> nat \<Rightarrow> int \<Rightarrow> nat" where
  "bucket_of lo width buckets t = min (nat ((t - lo) * int buckets div width)) (buckets - 1)"

definition template_timeline :: "DeviceStore \<Rightarrow> int \<Rightarrow> int option \<Rightarrow> nat \<Rightarrow> (int \<times> int) list" where
  "template_timeline s template_id session_id buckets =
     (let buckets = max buckets 1; times = hit_times s template_id session_id
      in if times = [] then []
         else
           let lo = hd times; hi = last times; width = max (hi - lo) 1;
               out = foldl (\<lambda>out t. let i = bucket_of lo width buckets t in out[i := out ! i + 1]) (replicate buckets 0) times
           in map (\<lambda>i. (lo + width * int i div int buckets, out ! i)) [0..<buckets])"

section \<open>Stages and epochs\<close>

definition stages :: "DeviceStore \<Rightarrow> int option \<Rightarrow> int option \<Rightarrow> StageRow list" where
  "stages s session_id boot_id =
     order_by sg_id (filter (\<lambda>g. or_any session_id (sg_session_id g) \<and> (boot_id = None \<or> sg_boot_id g = boot_id))
       (tb_stages (ds_db s)))"

definition boots_by_seq :: "DeviceStore \<Rightarrow> (BootRow \<Rightarrow> bool) \<Rightarrow> BootRow list" where
  "boots_by_seq s P = order_by ep_seq (filter P (tb_boots (ds_db s)))"

definition newest :: "'a list \<Rightarrow> 'a option" where
  "newest xs = (case rev xs of [] \<Rightarrow> None | x # _ \<Rightarrow> Some x)"

definition latest_boot :: "DeviceStore \<Rightarrow> BootRow option" where
  "latest_boot s = newest (boots_by_seq s (\<lambda>_. True))"

definition list_boots :: "DeviceStore \<Rightarrow> nat \<Rightarrow> BootRow list" where
  "list_boots s limit = take limit (rev (boots_by_seq s (\<lambda>_. True)))"

definition previous_boot :: "DeviceStore \<Rightarrow> int \<Rightarrow> BootRow option" where
  "previous_boot s boot_id =
     (case find (\<lambda>e. ep_id e = boot_id) (tb_boots (ds_db s)) of
        None \<Rightarrow> None
      | Some e \<Rightarrow> newest (boots_by_seq s (\<lambda>d. ep_seq d < ep_seq e)))"

definition boots_in_group :: "DeviceStore \<Rightarrow> string \<Rightarrow> BootRow list" where
  "boots_in_group s group_id = rev (boots_by_seq s (\<lambda>e. ep_group_id e = Some group_id))"

definition boot_in_group :: "DeviceStore \<Rightarrow> string \<Rightarrow> BootRow option" where
  "boot_in_group s group_id = newest (boots_by_seq s (\<lambda>e. ep_group_id e = Some group_id))"

definition boots_after_offset :: "DeviceStore \<Rightarrow> nat \<Rightarrow> int list" where
  "boots_after_offset s offset = map ep_id (boots_by_seq s (\<lambda>e. ep_opened_offset e \<ge> offset))"

definition boot_covering_offset :: "DeviceStore \<Rightarrow> int \<Rightarrow> BootRow option" where
  "boot_covering_offset s offset =
     newest (order_by ep_opened_offset (order_by ep_id
       (filter (\<lambda>e. ep_bytes e > 0 \<and> int (ep_opened_offset e) \<le> offset) (tb_boots (ds_db s)))))"

definition boot_signature :: "DeviceStore \<Rightarrow> int \<Rightarrow> int list \<times> string list" where
  "boot_signature s boot_id =
     (List.map_filter rr_template_id (records_by_id s (\<lambda>r. rr_boot_id r = Some boot_id)),
      map sg_name (stages s None (Some boot_id)))"

section \<open>Sessions\<close>

definition list_sessions :: "DeviceStore \<Rightarrow> nat \<Rightarrow> SessionRow list" where
  "list_sessions s limit = take limit (rev (order_by se_id (tb_sessions (ds_db s))))"

definition latest_session :: "DeviceStore \<Rightarrow> SessionRow option" where
  "latest_session s = (case list_sessions s 1 of [] \<Rightarrow> None | r # _ \<Rightarrow> Some r)"

definition session_with_sha :: "DeviceStore \<Rightarrow> string \<Rightarrow> SessionRow option" where
  "session_with_sha s sha =
     find (\<lambda>r. se_content_sha r = Some sha) (order_by se_id (tb_sessions (ds_db s)))"

definition EXPORT_MAGIC :: string where
  "EXPORT_MAGIC = ''CONMINER-EXPORT-1''"

text \<open>\<^verbatim>\<open>export_session\<close> before compression: a header line, then the bytes of the session. The text
  of the header's JSON object is the serialiser's.\<close>

definition export_session ::
    "(json \<Rightarrow> byte list) \<Rightarrow> (string \<Rightarrow> byte list) \<Rightarrow> (SessionRow \<Rightarrow> string \<Rightarrow> json) \<Rightarrow> DeviceStore \<Rightarrow> int \<Rightarrow> (byte list \<times> nat) res" where
  "export_session to_bytes ascii header s session_id =
     and_then (session s session_id)
       (\<lambda>r. let ls = lines_for_session s session_id
            in Inr (ascii EXPORT_MAGIC @ ascii '' '' @ to_bytes (header r (ds_canonical s)) @ [10] @
                    concat (map (\<lambda>l. lr_bytes l @ Terminator_raw (lr_terminator l)) ls),
                    sum_list (map LineRow_consumed ls)))"

section \<open>Retention\<close>

text \<open>\<^verbatim>\<open>prune_before\<close>. Deleting a record an annotation refers to violates the foreign key and rolls
  the transaction back.\<close>

definition doomed_lines :: "DeviceStore \<Rightarrow> nat \<Rightarrow> LineRow list" where
  "doomed_lines s offset = lines_by_id s (\<lambda>l. lr_stream_offset l < offset)"

definition prune_tables :: "Tables \<Rightarrow> nat \<Rightarrow> int \<Rightarrow> Tables" where
  "prune_tables db offset lst =
     db\<lparr> tb_stages := update_where (\<lambda>g. case sg_banner_line_id g of Some i \<Rightarrow> i \<le> lst | None \<Rightarrow> False)
           (\<lambda>g. g\<lparr> sg_banner_line_id := None \<rparr>) (tb_stages db),
         tb_records := filter (\<lambda>r. \<not> (rr_first_line_id r \<le> lst \<or> rr_last_line_id r \<le> lst)) (tb_records db),
         tb_raw_lines := filter (\<lambda>l. \<not> lr_stream_offset l < offset) (tb_raw_lines db) \<rparr>"

definition annotated :: "Tables \<Rightarrow> int \<Rightarrow> bool" where
  "annotated db lst \<longleftrightarrow> list_ex (\<lambda>r. (rr_first_line_id r \<le> lst \<or> rr_last_line_id r \<le> lst) \<and>
     rr_id r \<in> an_record_id ` set (tb_annotations db)) (tb_records db)"

definition prune_before :: "DeviceStore \<Rightarrow> nat \<Rightarrow> nat res \<times> DeviceStore" where
  "prune_before s offset =
     (if offset \<le> ds_pruned_before s then (Inr 0, s)
      else
        let ids = map lr_id (doomed_lines s offset); db = ds_db s
        in if ids \<noteq> [] \<and> annotated db (last ids) then (Inl Internal, s)
           else
             let db = (if ids = [] then db else prune_tables db offset (last ids))
             in (Inr (length ids), s\<lparr> ds_db := db\<lparr> tb_pruned_before := offset \<rparr>, ds_pruned_before := offset \<rparr>))"

definition min_of :: "'a::linorder list \<Rightarrow> 'a option" where
  "min_of xs = (if xs = [] then None else Some (Min (set xs)))"

definition protected_offset :: "DeviceStore \<Rightarrow> nat option" where
  "protected_offset s =
     (let db = ds_db s
      in min_of (map ep_opened_offset (filter (\<lambda>e. ep_id e \<in> bl_boot_id ` set (tb_baselines db)) (tb_boots db))))"

definition offset_at_ts :: "DeviceStore \<Rightarrow> int \<Rightarrow> nat option" where
  "offset_at_ts s ts_wall =
     min_of (map lr_stream_offset (filter (\<lambda>l. lr_ts_wall l \<ge> ts_wall) (tb_raw_lines (ds_db s))))"

definition raw_bytes :: "DeviceStore \<Rightarrow> nat" where
  "raw_bytes s = sum_list (map (\<lambda>l. length (lr_bytes l)) (tb_raw_lines (ds_db s)))"

definition oldest_raw_ts :: "DeviceStore \<Rightarrow> int option" where
  "oldest_raw_ts s = min_of (map lr_ts_wall (tb_raw_lines (ds_db s)))"

text \<open>The loop of \<^verbatim>\<open>enforce_size_cap\<close>: the end of the first prefix that holds the excess.\<close>

fun cut_for :: "nat \<Rightarrow> nat \<Rightarrow> nat \<Rightarrow> LineRow list \<Rightarrow> nat" where
  "cut_for excess acc pos [] = pos"
| "cut_for excess acc pos (l # ls) =
     (let acc = acc + length (lr_bytes l); pos = lr_stream_offset l + length (lr_bytes l)
      in if acc \<ge> excess then pos else cut_for excess acc pos ls)"

definition enforce_size_cap :: "DeviceStore \<Rightarrow> nat \<Rightarrow> nat res \<times> DeviceStore" where
  "enforce_size_cap s cap =
     (let live = raw_bytes s
      in if live \<le> cap then (Inr 0, s)
         else prune_before s (cut_for (live - cap) 0 (ds_pruned_before s)
                (order_by lr_stream_offset (tb_raw_lines (ds_db s)))))"

text \<open>The \<^verbatim>\<open>prune\<close> tool, without its lease check and its report: the age rule stops at the protected
  offset, then the size rule runs.\<close>

definition prune_tool ::
    "DeviceStore \<Rightarrow> int option \<Rightarrow> nat option \<Rightarrow> nat \<Rightarrow> nat \<Rightarrow> bool \<Rightarrow> int \<Rightarrow> bool \<Rightarrow> nat res \<times> DeviceStore" where
  "prune_tool s before_ts keep_bytes cfg_keep_days cfg_keep_bytes protect now dry =
     (let cutoff_ts = (case before_ts of Some t \<Rightarrow> Some t
            | None \<Rightarrow> if cfg_keep_days > 0 then Some (now - int cfg_keep_days * 86400000) else None);
          target = Option.bind cutoff_ts (offset_at_ts s);
          protected = (if protect then protected_offset s else None);
          target = (case (target, protected) of (Some t, Some p) \<Rightarrow> Some (if t > p then p else t) | _ \<Rightarrow> target)
      in if dry then (Inr 0, s)
         else
           let (r1, s1) = (case target of Some off \<Rightarrow> prune_before s off | None \<Rightarrow> (Inr 0, s));
               cap = (case keep_bytes of Some k \<Rightarrow> Some k | None \<Rightarrow> if cfg_keep_bytes > 0 then Some cfg_keep_bytes else None)
           in case r1 of
                Inl e \<Rightarrow> (Inl e, s1)
              | Inr n1 \<Rightarrow>
                  (case cap of
                     None \<Rightarrow> (Inr n1, s1)
                   | Some c \<Rightarrow> let (r2, s2) = enforce_size_cap s1 c in (and_then r2 (\<lambda>n2. Inr (n1 + n2)), s2)))"

end
