(* ===== verification/Store_Inv.thy ===== *)
theory Store_Inv
  imports Store_Queries
begin

text \<open>
  What every batch keeps of the device store: the stored lines are a contiguous stretch of the
  byte stream with ascending ids, every reference of the schema resolves, and the bytes booked
  on an epoch are the bytes of the lines attributed to it (plus what was pruned).
\<close>

section \<open>The byte stream\<close>

definition has_boot :: "Tables \<Rightarrow> int \<Rightarrow> bool" where
  "has_boot db i \<longleftrightarrow> i \<in> ep_id ` set (tb_boots db)"

definition has_record :: "Tables \<Rightarrow> int \<Rightarrow> bool" where
  "has_record db i \<longleftrightarrow> i \<in> rr_id ` set (tb_records db)"

definition LineRow_raw :: "LineRow \<Rightarrow> byte list" where
  "LineRow_raw l = lr_bytes l @ Terminator_raw (lr_terminator l)"

definition stored_stream :: "Tables \<Rightarrow> byte list" where
  "stored_stream db = concat (map LineRow_raw (tb_raw_lines db))"

definition pending_raw :: "PendingLine \<Rightarrow> byte list" where
  "pending_raw l = pe_bytes l @ Terminator_raw (pe_terminator l)"

text \<open>The rows cover the offsets from one position to another without gap or overlap.\<close>

fun contiguous :: "nat \<Rightarrow> LineRow list \<Rightarrow> nat \<Rightarrow> bool" where
  "contiguous a [] b \<longleftrightarrow> a = b"
| "contiguous a (l # ls) b \<longleftrightarrow> lr_stream_offset l = a \<and> LineRow_consumed l > 0 \<and> contiguous (end_offset l) ls b"

definition stream_ok :: "Tables \<Rightarrow> nat \<Rightarrow> bool" where
  "stream_ok db off \<longleftrightarrow> sorted_wrt (<) (map lr_id (tb_raw_lines db)) \<and> (\<exists>a. contiguous a (tb_raw_lines db) off)"

lemma end_offset_eq: "end_offset l = lr_stream_offset l + LineRow_consumed l"
  by (simp add: end_offset_def LineRow_consumed_def)

lemma length_LineRow_raw [simp]: "length (LineRow_raw l) = LineRow_consumed l"
  by (simp add: LineRow_raw_def LineRow_consumed_def)

lemma length_pending_raw [simp]: "length (pending_raw l) = PendingLine_consumed l"
  by (simp add: pending_raw_def PendingLine_consumed_def)

lemma contiguous_append: "contiguous a (xs @ ys) c \<longleftrightarrow> (\<exists>b. contiguous a xs b \<and> contiguous b ys c)"
  by (induction xs arbitrary: a) auto

lemma contiguous_sum: "contiguous a ls b \<Longrightarrow> b = a + sum_list (map LineRow_consumed ls)"
  by (induction ls arbitrary: a) (fastforce simp: end_offset_eq)+

lemma contiguous_bounds: "contiguous a ls b \<Longrightarrow> l \<in> set ls \<Longrightarrow> a \<le> lr_stream_offset l \<and> end_offset l \<le> b"
proof (induction ls arbitrary: a)
  case (Cons k ls)
  have "end_offset k \<le> b" using contiguous_sum [of "end_offset k" ls b] Cons.prems by simp
  with Cons show ?case by (fastforce simp: end_offset_eq)
qed simp

lemma contiguous_offsets: "contiguous a ls b \<Longrightarrow> sorted_wrt (<) (map lr_stream_offset ls)"
proof (induction ls arbitrary: a)
  case (Cons k ls)
  then have "\<forall>l\<in>set ls. end_offset k \<le> lr_stream_offset l" using contiguous_bounds by fastforce
  with Cons show ?case by (fastforce simp: end_offset_eq)
qed simp

lemma contiguous_map:
  assumes "\<And>l. lr_stream_offset (f l) = lr_stream_offset l \<and> LineRow_consumed (f l) = LineRow_consumed l"
  shows "contiguous a (map f ls) b = contiguous a ls b"
  by (induction ls arbitrary: a) (simp_all add: assms end_offset_eq)

text \<open>Rows from a position on: what a prune keeps and a cursor reads.\<close>

lemma contiguous_from:
  assumes "contiguous a ls b"
  shows "\<exists>c. contiguous c (filter (\<lambda>l. \<not> lr_stream_offset l < n) ls) b"
  using assms
proof (induction ls arbitrary: a)
  case (Cons k ls)
  show ?case
  proof (cases "lr_stream_offset k < n")
    case True
    with Cons show ?thesis by auto
  next
    case False
    have "filter (\<lambda>l. \<not> lr_stream_offset l < n) ls = ls"
      using contiguous_bounds [of "end_offset k" ls b] Cons.prems False
      by (force simp: filter_id_conv end_offset_eq)
    with Cons.prems False show ?thesis by (intro exI [of _ a]) simp
  qed
qed simp

lemma filter_from_suffix:
  assumes "sorted_wrt (<) (map lr_stream_offset ls)"
  shows "ls = filter (\<lambda>l. lr_stream_offset l < n) ls @ filter (\<lambda>l. \<not> lr_stream_offset l < n) ls"
  using assms
proof (induction ls)
  case (Cons k ls)
  then show ?case
  proof (cases "lr_stream_offset k < n")
    case False
    with Cons.prems have "\<forall>l\<in>set ls. \<not> lr_stream_offset l < n" by auto
    then have "filter (\<lambda>l. lr_stream_offset l < n) ls = []" "filter (\<lambda>l. \<not> lr_stream_offset l < n) ls = ls"
      by (auto simp: filter_empty_conv filter_id_conv)
    with False show ?thesis by simp
  qed simp
qed simp

section \<open>References\<close>

abbreviation session_ids :: "Tables \<Rightarrow> int set" where "session_ids db \<equiv> se_id ` set (tb_sessions db)"
abbreviation line_ids :: "Tables \<Rightarrow> int set" where "line_ids db \<equiv> lr_id ` set (tb_raw_lines db)"
abbreviation template_ids :: "Tables \<Rightarrow> int set" where "template_ids db \<equiv> tr_id ` set (tb_templates db)"
abbreviation boot_ids :: "Tables \<Rightarrow> int set" where "boot_ids db \<equiv> ep_id ` set (tb_boots db)"
abbreviation record_ids :: "Tables \<Rightarrow> int set" where "record_ids db \<equiv> rr_id ` set (tb_records db)"

text \<open>The values of a nullable column.\<close>

definition somes :: "'a option set \<Rightarrow> 'a set" where
  "somes S = {x. Some x \<in> S}"

lemma somes_simps [simp]:
  "somes {} = {}" "somes (insert x S) = set_option x \<union> somes S" "somes (S \<union> T) = somes S \<union> somes T"
  by (auto simp: somes_def)

lemma somes_mono: "S \<subseteq> T \<Longrightarrow> somes S \<subseteq> somes T"
  by (auto simp: somes_def)

text \<open>Every foreign key of \<^verbatim>\<open>store/schema.rs\<close> over these tables, and the epoch a line names.\<close>

definition refs_ok :: "Tables \<Rightarrow> bool" where
  "refs_ok db \<longleftrightarrow>
     lr_session_id ` set (tb_raw_lines db) \<subseteq> session_ids db \<and> somes (lr_boot_id ` set (tb_raw_lines db)) \<subseteq> boot_ids db \<and>
     rr_session_id ` set (tb_records db) \<subseteq> session_ids db \<and> rr_first_line_id ` set (tb_records db) \<subseteq> line_ids db \<and>
     rr_last_line_id ` set (tb_records db) \<subseteq> line_ids db \<and> somes (rr_template_id ` set (tb_records db)) \<subseteq> template_ids db \<and>
     tr_first_seen_session ` set (tb_templates db) \<subseteq> session_ids db \<and>
     oc_template_id ` set (tb_occurrences db) \<subseteq> template_ids db \<and> oc_session_id ` set (tb_occurrences db) \<subseteq> session_ids db \<and>
     sg_session_id ` set (tb_stages db) \<subseteq> session_ids db \<and> somes (sg_banner_line_id ` set (tb_stages db)) \<subseteq> line_ids db \<and>
     somes (ep_session_id ` set (tb_boots db)) \<subseteq> session_ids db \<and> ev_boot_id ` set (tb_epoch_versions db) \<subseteq> boot_ids db \<and>
     an_record_id ` set (tb_annotations db) \<subseteq> record_ids db \<and> bl_boot_id ` set (tb_baselines db) \<subseteq> boot_ids db"

text \<open>Keys: ids ascend in every table whose rows the store numbers, epochs also by sequence.\<close>

definition keys_ok :: "Tables \<Rightarrow> bool" where
  "keys_ok db \<longleftrightarrow>
     sorted_wrt (<) (map se_id (tb_sessions db)) \<and> sorted_wrt (<) (map rr_id (tb_records db)) \<and>
     sorted_wrt (<) (map sg_id (tb_stages db)) \<and> sorted_wrt (<) (map ep_id (tb_boots db)) \<and>
     sorted_wrt (<) (map ep_seq (tb_boots db)) \<and> distinct (map tr_id (tb_templates db))"

definition tables_ok :: "Tables \<Rightarrow> nat \<Rightarrow> bool" where
  "tables_ok db off \<longleftrightarrow> stream_ok db off \<and> refs_ok db \<and> keys_ok db"

text \<open>As functions of the table they read, so that updates of other tables simplify away.\<close>

lemma has_defs:
  "has_session db = (\<lambda>i. i \<in> session_ids db)" "has_line db = (\<lambda>i. i \<in> line_ids db)"
  "has_template db = (\<lambda>i. i \<in> template_ids db)" "has_boot db = (\<lambda>i. i \<in> boot_ids db)" "has_record db = (\<lambda>i. i \<in> record_ids db)"
  by (simp_all add: fun_eq_iff has_session_def has_line_def has_template_def has_boot_def has_record_def)

lemma next_id_fresh: "i \<in> set ids \<Longrightarrow> i < next_id ids"
  using Max_ge [OF finite_set, of i ids] by (auto simp: next_id_def)

lemma sorted_next_id: "sorted_wrt (<) ids \<Longrightarrow> sorted_wrt (<) (ids @ [next_id ids])"
  by (simp add: sorted_wrt_append next_id_fresh)

lemma next_seq_fresh: "e \<in> set (tb_boots db) \<Longrightarrow> ep_seq e < next_seq db"
  using Max_ge [OF finite_imageI [OF finite_set], of "ep_seq e" ep_seq "tb_boots db"] by (auto simp: next_seq_def)

lemma opt_all_simps [simp]: "opt_all P None" "opt_all P (Some x) \<longleftrightarrow> P x"
  by (simp_all add: opt_all_def)

lemma opt_all_subset: "opt_all P x \<longleftrightarrow> set_option x \<subseteq> Collect P"
  by (cases x) auto

lemma opt_all_mono: "opt_all P x \<Longrightarrow> (\<And>y. P y \<Longrightarrow> Q y) \<Longrightarrow> opt_all Q x"
  by (cases x) auto

lemma map_update_where: "(\<And>r. P r \<Longrightarrow> g (f r) = g r) \<Longrightarrow> map g (update_where P f rows) = map g rows"
  by (simp add: update_where_def)

lemma update_where_Nil [simp]: "update_where P f [] = []"
  by (simp add: update_where_def)

lemma set_update_where: "set (update_where P f rows) = (\<lambda>r. if P r then f r else r) ` set rows"
  by (simp add: update_where_def)

lemma image_update_where: "(\<And>r. P r \<Longrightarrow> g (f r) = g r) \<Longrightarrow> g ` set (update_where P f rows) = g ` set rows"
  using map_update_where [of P g f rows] by (metis set_map)

lemma order_by_sorted: "sorted (map key rows) \<Longrightarrow> order_by key rows = rows"
  by (simp add: order_by_def sort_key_id_if_sorted)

lemma order_by_strict: "sorted_wrt (<) (map key rows) \<Longrightarrow> order_by key rows = (rows :: 'a list)"
  by (simp add: order_by_sorted strict_sorted_imp_sorted)

lemma sorted_filter_key: "sorted_wrt (<) (map key rows) \<Longrightarrow> sorted_wrt (<) (map key (filter P rows))"
  by (induction rows) auto

lemma order_by_filter: "sorted_wrt (<) (map key rows) \<Longrightarrow> order_by key (filter P rows) = filter P rows"
  by (simp add: order_by_strict sorted_filter_key)

text \<open>Reading rows of consistent tables back in id order changes nothing.\<close>

lemma lines_by_id_eq: "stream_ok (ds_db s) off \<Longrightarrow> lines_by_id s P = filter P (tb_raw_lines (ds_db s))"
  by (simp add: lines_by_id_def stream_ok_def order_by_filter)

lemma records_by_id_eq: "keys_ok (ds_db s) \<Longrightarrow> records_by_id s P = filter P (tb_records (ds_db s))"
  by (simp add: records_by_id_def keys_ok_def order_by_filter)

section \<open>Appending lines\<close>

text \<open>The rows a block of lines becomes.\<close>

fun new_rows :: "int \<Rightarrow> int option \<Rightarrow> int \<Rightarrow> nat \<Rightarrow> PendingLine list \<Rightarrow> LineRow list" where
  "new_rows session_id boot_id i off [] = []"
| "new_rows session_id boot_id i off (l # ls) =
     \<lparr> lr_id = i, lr_session_id = session_id, lr_boot_id = boot_id, lr_stream_offset = off,
       lr_ts_mono = pe_ts_mono l, lr_ts_wall = pe_ts_wall l, lr_stage_id = pe_stage_id l,
       lr_bytes = pe_bytes l, lr_terminator = pe_terminator l, lr_truncated = pe_truncated l,
       lr_continuation = pe_continuation l \<rparr> # new_rows session_id boot_id (i + 1) (off + PendingLine_consumed l) ls"

definition row_ref :: "LineRow \<Rightarrow> LineRef" where
  "row_ref l = \<lparr> ref_id = lr_id l, ref_stream_offset = lr_stream_offset l \<rparr>"

lemma next_id_snoc [simp]: "next_id (ids @ [next_id ids]) = next_id ids + 1"
  by (simp add: next_id_def)

lemma new_rows_ids: "map lr_id (new_rows se e i off ls) = [i..i + int (length ls) - 1]"
  by (induction ls arbitrary: i off) (simp_all add: upto_rec1 algebra_simps)

lemma length_new_rows [simp]: "length (new_rows se e i off ls) = length ls"
  by (induction ls arbitrary: i off) simp_all

lemma new_rows_fields: "r \<in> set (new_rows se e i off ls) \<Longrightarrow> lr_session_id r = se \<and> lr_boot_id r = e \<and> i \<le> lr_id r"
  by (induction ls arbitrary: i off) fastforce+

lemma new_rows_raw: "map LineRow_raw (new_rows se e i off ls) = map pending_raw ls"
  by (induction ls arbitrary: i off) (simp_all add: LineRow_raw_def pending_raw_def)

lemma new_rows_consumed: "map LineRow_consumed (new_rows se e i off ls) = map PendingLine_consumed ls"
  by (induction ls arbitrary: i off) (simp_all add: LineRow_consumed_def PendingLine_consumed_def)

lemma new_rows_contiguous:
  "list_all (\<lambda>l. PendingLine_consumed l > 0) ls \<Longrightarrow>
   contiguous off (new_rows se e i off ls) (off + sum_list (map PendingLine_consumed ls))"
proof (induction ls arbitrary: i off)
  case (Cons l ls)
  from Cons.IH [of "off + PendingLine_consumed l" "i + 1"] Cons.prems show ?case
    by (simp add: end_offset_eq LineRow_consumed_def PendingLine_consumed_def add.assoc)
qed simp

lemma contiguous_consumes: "contiguous a ls b \<Longrightarrow> l \<in> set ls \<Longrightarrow> LineRow_consumed l > 0"
  by (induction ls arbitrary: a) auto

lemma stream_ok_fresh_offset:
  assumes "stream_ok db off" and "l \<in> set (tb_raw_lines db)"
  shows "lr_stream_offset l < off"
proof -
  from assms(1) obtain a where c: "contiguous a (tb_raw_lines db) off" by (auto simp: stream_ok_def)
  with contiguous_bounds [OF c assms(2)] contiguous_consumes [OF c assms(2)] show ?thesis
    by (simp add: end_offset_eq)
qed

text \<open>\<^verbatim>\<open>append_lines\<close> in closed form: on a consistent stream no constraint can fail, and the block is
  appended at the end of the stream.\<close>

definition add_rows :: "Batch \<Rightarrow> int \<Rightarrow> int option \<Rightarrow> PendingLine list \<Rightarrow> LineRow list" where
  "add_rows b se e ls = new_rows se e (next_id (map lr_id (tb_raw_lines (ba_db b)))) (ba_offset b) ls"

definition with_rows :: "Batch \<Rightarrow> LineRow list \<Rightarrow> Batch" where
  "with_rows b rows = b\<lparr> ba_db := (ba_db b)\<lparr> tb_raw_lines := tb_raw_lines (ba_db b) @ rows \<rparr>,
     ba_offset := ba_offset b + sum_list (map LineRow_consumed rows) \<rparr>"

lemma stream_ok_with_rows:
  assumes "stream_ok (ba_db b) (ba_offset b)" and "list_all (\<lambda>l. PendingLine_consumed l > 0) ls"
  shows "stream_ok (ba_db (with_rows b (add_rows b se e ls))) (ba_offset (with_rows b (add_rows b se e ls)))"
proof -
  let ?i = "next_id (map lr_id (tb_raw_lines (ba_db b)))"
  from assms(1) obtain a where "contiguous a (tb_raw_lines (ba_db b)) (ba_offset b)" by (auto simp: stream_ok_def)
  with new_rows_contiguous [OF assms(2)] have
    "contiguous a (tb_raw_lines (ba_db b) @ add_rows b se e ls) (ba_offset b + sum_list (map PendingLine_consumed ls))"
    unfolding contiguous_append add_rows_def by blast
  moreover have "sorted_wrt (<) (map lr_id (tb_raw_lines (ba_db b) @ add_rows b se e ls))"
    using assms(1) next_id_fresh [of _ "map lr_id (tb_raw_lines (ba_db b))"]
    by (force simp: stream_ok_def add_rows_def sorted_wrt_append new_rows_ids)
  ultimately show ?thesis
    by (auto simp: stream_ok_def with_rows_def add_rows_def new_rows_consumed)
qed

lemma append_line_eq:
  assumes "stream_ok (ba_db b) (ba_offset b)" and "has_session (ba_db b) se"
  shows "append_line se e (refs, b) l =
    Inr (refs @ map row_ref (add_rows b se e [l]), with_rows b (add_rows b se e [l]))"
proof -
  have "ba_offset b \<notin> lr_stream_offset ` set (tb_raw_lines (ba_db b))"
    using stream_ok_fresh_offset [OF assms(1)] by fastforce
  with assms(2) show ?thesis
    by (simp add: append_line_def Let_def add_rows_def with_rows_def row_ref_def LineRow_consumed_def PendingLine_consumed_def)
qed

lemma add_rows_Cons:
  "add_rows b se e (l # ls) = add_rows b se e [l] @ add_rows (with_rows b (add_rows b se e [l])) se e ls"
  by (simp add: add_rows_def with_rows_def LineRow_consumed_def PendingLine_consumed_def)

lemma with_rows_append: "with_rows b (xs @ ys) = with_rows (with_rows b xs) ys"
  by (simp add: with_rows_def)

lemma append_lines_loop:
  assumes "stream_ok (ba_db b) (ba_offset b)" and "has_session (ba_db b) se" and "list_all (\<lambda>l. PendingLine_consumed l > 0) ls"
  shows "for_each (append_line se e) (refs, b) ls =
    Inr (refs @ map row_ref (add_rows b se e ls), with_rows b (add_rows b se e ls))"
  using assms
proof (induction ls arbitrary: refs b)
  case Nil
  then show ?case by (simp add: add_rows_def with_rows_def)
next
  case (Cons l ls)
  let ?b = "with_rows b (add_rows b se e [l])"
  have "stream_ok (ba_db ?b) (ba_offset ?b)" using Cons.prems by (intro stream_ok_with_rows) simp_all
  moreover have "has_session (ba_db ?b) se" using Cons.prems by (simp add: with_rows_def has_session_def)
  ultimately show ?case
    using Cons append_line_eq [OF Cons.prems(1,2)]
    by (simp add: add_rows_Cons [of b se e l ls] with_rows_append)
qed

lemma count_fields [simp]:
  "ba_db (count b i x y z) = ba_db b" "ba_offset (count b i x y z) = ba_offset b"
  "ba_boot_bytes (count b i x y z) = ba_boot_bytes b"
  by (simp_all add: count_def split_beta Let_def)

definition pend :: "(int, int) btree \<Rightarrow> int \<Rightarrow> int" where
  "pend m e = (case bt_get m e of Some v \<Rightarrow> v | None \<Rightarrow> 0)"

lemma pend_bump [simp]: "pend (bump k n m) e = pend m e + (if e = k then n else 0)"
  by (simp add: pend_def bump_def)

lemma bump_keys [simp]: "set (bt_keys (bump k n m)) = insert k (set (bt_keys m))"
  by (simp add: bump_def)

lemma bump_wf [simp]: "bt_wf m \<Longrightarrow> bt_wf (bump k n m)"
  by (simp add: bump_def)

lemma pend_Nil [simp]: "pend [] e = 0"
  by (simp add: pend_def)

lemma Batch_append_lines_eq:
  assumes "stream_ok (ba_db b) (ba_offset b)" and "has_session (ba_db b) se" and "list_all (\<lambda>l. PendingLine_consumed l > 0) ls"
  shows "\<exists>b'. Batch_append_lines b se e ls = Inr (map row_ref (add_rows b se e ls), b') \<and>
    ba_db b' = ba_db (with_rows b (add_rows b se e ls)) \<and> ba_offset b' = ba_offset (with_rows b (add_rows b se e ls)) \<and>
    (\<forall>i. pend (ba_boot_bytes b') i = pend (ba_boot_bytes b) i +
       (if e = Some i then int (sum_list (map PendingLine_consumed ls)) else 0)) \<and>
    set (bt_keys (ba_boot_bytes b')) \<subseteq> set (bt_keys (ba_boot_bytes b)) \<union> set_option e \<and>
    (bt_wf (ba_boot_bytes b) \<longrightarrow> bt_wf (ba_boot_bytes b'))"
proof (cases "ls = []")
  case True
  then show ?thesis by (simp add: Batch_append_lines_def add_rows_def with_rows_def)
next
  case False
  with append_lines_loop [OF assms, of e "[]"] show ?thesis
    by (cases e) (auto simp: Batch_append_lines_def Let_def with_rows_def)
qed

section \<open>Epoch accounting\<close>

definition attributed :: "Tables \<Rightarrow> int \<Rightarrow> nat" where
  "attributed db e = sum_list (map LineRow_consumed (filter (\<lambda>l. lr_boot_id l = Some e) (tb_raw_lines db)))"

definition booked :: "Tables \<Rightarrow> int \<Rightarrow> int" where
  "booked db e = sum_list (map ep_bytes (filter (\<lambda>x. ep_id x = e) (tb_boots db)))"

text \<open>What an epoch is credited with beyond the lines attributed to it.\<close>

definition surplus :: "Tables \<Rightarrow> int \<Rightarrow> int" where
  "surplus db e = booked db e - int (attributed db e)"

definition balance :: "Batch \<Rightarrow> int \<Rightarrow> int" where
  "balance b e = surplus (ba_db b) e + pend (ba_boot_bytes b) e"

definition batch_ok :: "Batch \<Rightarrow> bool" where
  "batch_ok b \<longleftrightarrow> tables_ok (ba_db b) (ba_offset b) \<and> bt_wf (ba_boot_bytes b) \<and>
     (\<forall>e\<in>set (bt_keys (ba_boot_bytes b)). has_boot (ba_db b) e)"

text \<open>A line but for its attribution.\<close>

definition line_core :: "LineRow \<Rightarrow> LineRow" where
  "line_core l = l\<lparr> lr_boot_id := None \<rparr>"

text \<open>The contract of every operation of an open batch other than the appending of lines.\<close>

definition keeps :: "Batch \<Rightarrow> Batch \<Rightarrow> bool" where
  "keeps b b' \<longleftrightarrow> batch_ok b' \<and> (\<forall>e. balance b' e = balance b e) \<and>
     map line_core (tb_raw_lines (ba_db b')) = map line_core (tb_raw_lines (ba_db b)) \<and>
     ba_offset b' = ba_offset b \<and> tb_sessions (ba_db b') = tb_sessions (ba_db b) \<and>
     tb_pruned_before (ba_db b') = tb_pruned_before (ba_db b) \<and>
     (\<forall>e. has_boot (ba_db b) e \<longrightarrow> has_boot (ba_db b') e) \<and>
     (\<forall>t. has_template (ba_db b) t \<longrightarrow> has_template (ba_db b') t)"

lemma keeps_refl: "batch_ok b \<Longrightarrow> keeps b b"
  by (simp add: keeps_def)

lemma keeps_trans: "keeps b1 b2 \<Longrightarrow> keeps b2 b3 \<Longrightarrow> keeps b1 b3"
  by (simp add: keeps_def)

lemma core_fields [simp]:
  "lr_id (line_core l) = lr_id l" "lr_session_id (line_core l) = lr_session_id l"
  "lr_stream_offset (line_core l) = lr_stream_offset l" "LineRow_raw (line_core l) = LineRow_raw l"
  "LineRow_consumed (line_core l) = LineRow_consumed l" "lr_ts_wall (line_core l) = lr_ts_wall l"
  by (simp_all add: line_core_def LineRow_raw_def LineRow_consumed_def)

lemma core_map:
  assumes "map line_core xs = map line_core ys" and "\<And>l. g (line_core l) = g l"
  shows "map g xs = map g ys"
proof -
  have "map g zs = map g (map line_core zs)" for zs by (simp add: assms(2))
  then show ?thesis using assms(1) by metis
qed

lemma keeps_has_line: "keeps b b' \<Longrightarrow> has_line (ba_db b') i = has_line (ba_db b) i"
  unfolding keeps_def has_line_def using core_map [of _ _ lr_id] by (metis core_fields(1) set_map)

lemma keeps_stream: "keeps b b' \<Longrightarrow> stored_stream (ba_db b') = stored_stream (ba_db b)"
  unfolding keeps_def stored_stream_def using core_map [of _ _ LineRow_raw] by (metis core_fields(4))

lemma keeps_session: "keeps b b' \<Longrightarrow> has_session (ba_db b') = has_session (ba_db b)"
  by (simp add: keeps_def has_session_def fun_eq_iff)

text \<open>Operations that leave the lines and the epochs alone only have references and keys to keep.\<close>

lemma keeps_side_table:
  assumes "batch_ok b" and "b' = b\<lparr> ba_db := db' \<rparr>" and "refs_ok db'" "keys_ok db'"
    and "tb_raw_lines db' = tb_raw_lines (ba_db b)" "tb_boots db' = tb_boots (ba_db b)"
    and "tb_sessions db' = tb_sessions (ba_db b)" "tb_pruned_before db' = tb_pruned_before (ba_db b)"
    and "\<And>t. has_template (ba_db b) t \<Longrightarrow> has_template db' t"
  shows "keeps b b'"
  using assms
  by (simp add: keeps_def batch_ok_def tables_ok_def stream_ok_def balance_def surplus_def booked_def attributed_def has_boot_def)

lemma keeps_counters [simp]: "keeps b (count b' i x y z) = keeps b b'"
  by (simp add: keeps_def batch_ok_def balance_def)

lemma batch_refs: "batch_ok b \<Longrightarrow> refs_ok (ba_db b)" and batch_keys: "batch_ok b \<Longrightarrow> keys_ok (ba_db b)"
  and batch_stream: "batch_ok b \<Longrightarrow> stream_ok (ba_db b) (ba_offset b)"
  by (simp_all add: batch_ok_def tables_ok_def)

section \<open>Records, templates, versions and stages\<close>

lemma append_record_keeps:
  assumes "batch_ok b" and "Batch_append_record b r = Inr (i, b')"
  shows "keeps b b' \<and> tb_templates (ba_db b') = tb_templates (ba_db b) \<and> tb_raw_lines (ba_db b') = tb_raw_lines (ba_db b) \<and>
    tb_records (ba_db b') = tb_records (ba_db b) @ [record_of i r]"
proof -
  let ?db = "ba_db b" and ?row = "record_of i r"
  from assms(2) have
    ok: "has_session ?db (pr_session_id r)" "has_line ?db (pr_first_line_id r)" "has_line ?db (pr_last_line_id r)"
        "opt_all (has_template ?db) (pr_template_id r)" "i = next_id (map rr_id (tb_records ?db))"
    and b': "b' = count (b\<lparr> ba_db := ?db\<lparr> tb_records := tb_records ?db @ [?row] \<rparr> \<rparr>) (pr_session_id r) 0 0 1"
    by (auto simp: Batch_append_record_def Let_def)
  have "keeps b (b\<lparr> ba_db := ?db\<lparr> tb_records := tb_records ?db @ [?row] \<rparr> \<rparr>)"
  proof (rule keeps_side_table [OF assms(1) refl])
    show "refs_ok (?db\<lparr> tb_records := tb_records ?db @ [?row] \<rparr>)"
      using batch_refs [OF assms(1)] ok by (auto simp: refs_ok_def has_defs record_of_def opt_all_subset)
    show "keys_ok (?db\<lparr> tb_records := tb_records ?db @ [?row] \<rparr>)"
      using batch_keys [OF assms(1)] ok(5) by (simp add: keys_ok_def sorted_next_id record_of_def)
  qed (simp_all add: has_defs)
  with b' show ?thesis by simp
qed

lemma append_record_total:
  assumes "has_session (ba_db b) (pr_session_id r)" "has_line (ba_db b) (pr_first_line_id r)"
    "has_line (ba_db b) (pr_last_line_id r)" "opt_all (has_template (ba_db b)) (pr_template_id r)"
  shows "\<exists>i b'. Batch_append_record b r = Inr (i, b')"
  using assms by (simp add: Batch_append_record_def Let_def)

lemma note_version_keeps:
  assumes "batch_ok b" and "note_version b e c v d l ts = Inr b'"
  shows "keeps b b' \<and> tb_templates (ba_db b') = tb_templates (ba_db b) \<and> tb_raw_lines (ba_db b') = tb_raw_lines (ba_db b) \<and>
    tb_records (ba_db b') = tb_records (ba_db b)"
proof -
  let ?db = "ba_db b"
  let ?old = "update_where (\<lambda>v. ev_boot_id v = e \<and> ev_component v = c \<and> ev_ts_wall v < ts)
                 (\<lambda>v. v\<lparr> ev_superseded := True \<rparr>) (tb_epoch_versions ?db)"
  let ?same = "\<lambda>v. ev_boot_id v = e \<and> ev_component v = c \<and> ev_ts_wall v = ts"
  have old: "ev_boot_id ` set ?old = ev_boot_id ` set (tb_epoch_versions ?db)"
    "ev_boot_id ` set (update_where ?same (\<lambda>x. x\<lparr> ev_version := v, ev_detail := d \<rparr>) ?old) = ev_boot_id ` set ?old"
    by (rule image_update_where; simp)+
  from assms(2) obtain vs where b': "b' = b\<lparr> ba_db := ?db\<lparr> tb_epoch_versions := vs \<rparr> \<rparr>" and e: "has_boot ?db e"
    and vs: "vs = update_where ?same (\<lambda>x. x\<lparr> ev_version := v, ev_detail := d \<rparr>) ?old \<or> (\<exists>x. ev_boot_id x = e \<and> vs = ?old @ [x])"
    by (force simp: note_version_def Let_def has_boot_def split: if_splits)
  from vs have sub: "ev_boot_id ` set vs \<subseteq> insert e (ev_boot_id ` set (tb_epoch_versions ?db))"
    by (elim disjE exE conjE) (simp_all add: old subset_insertI)
  have "keeps b b'"
  proof (rule keeps_side_table [OF assms(1) b'])
    have "ev_boot_id ` set vs \<subseteq> boot_ids ?db"
      using order_trans [OF sub] e batch_refs [OF assms(1)] by (simp add: has_defs refs_ok_def)
    then show "refs_ok (?db\<lparr> tb_epoch_versions := vs \<rparr>)"
      using batch_refs [OF assms(1)] by (simp add: refs_ok_def)
    show "keys_ok (?db\<lparr> tb_epoch_versions := vs \<rparr>)"
      using batch_keys [OF assms(1)] by (simp add: keys_ok_def)
  qed (simp_all add: has_defs)
  with b' show ?thesis by simp
qed

lemma note_version_total: "has_boot (ba_db b) e \<Longrightarrow> \<exists>b'. note_version b e c v d l ts = Inr b'"
  by (simp add: note_version_def Let_def has_boot_def)

lemma append_stage_keeps:
  assumes "batch_ok b" and "append_stage_after b se e n p ts banner prev = Inr (i, b')"
  shows "keeps b b' \<and> tb_templates (ba_db b') = tb_templates (ba_db b) \<and> tb_raw_lines (ba_db b') = tb_raw_lines (ba_db b) \<and>
    tb_records (ba_db b') = tb_records (ba_db b)"
proof -
  let ?db = "ba_db b"
  define closed where "closed = update_where (case prev of Some i \<Rightarrow> (\<lambda>s. sg_id s = i)
      | None \<Rightarrow> (\<lambda>s. sg_session_id s = se \<and> sg_exited_ts s = None)) (\<lambda>s. s\<lparr> sg_exited_ts := Some ts \<rparr>) (tb_stages ?db)"
  have same [simp]: "map sg_id closed = map sg_id (tb_stages ?db)"
    "sg_session_id ` set closed = sg_session_id ` set (tb_stages ?db)"
    "sg_banner_line_id ` set closed = sg_banner_line_id ` set (tb_stages ?db)"
    unfolding closed_def by (rule map_update_where image_update_where; simp)+
  from assms(2) obtain row where b': "b' = b\<lparr> ba_db := ?db\<lparr> tb_stages := closed @ [row] \<rparr> \<rparr>"
    and row: "sg_id row = next_id (map sg_id closed)" "has_session ?db (sg_session_id row)" "opt_all (has_line ?db) (sg_banner_line_id row)"
    by (auto simp: append_stage_after_def insert_stage_def Let_def has_defs opt_all_subset simp flip: closed_def)
  have "keeps b b'"
  proof (rule keeps_side_table [OF assms(1) b'])
    show "refs_ok (?db\<lparr> tb_stages := closed @ [row] \<rparr>)"
      using batch_refs [OF assms(1)] row(2,3) by (auto simp: refs_ok_def has_defs opt_all_subset)
    show "keys_ok (?db\<lparr> tb_stages := closed @ [row] \<rparr>)"
      using batch_keys [OF assms(1)] row(1) by (simp add: keys_ok_def sorted_next_id)
  qed (simp_all add: has_defs)
  with b' show ?thesis by simp
qed

lemma append_stage_total:
  assumes "has_session (ba_db b) se" and "opt_all (has_line (ba_db b)) banner"
  shows "\<exists>i b'. append_stage_after b se e n p ts banner prev = Inr (i, b')"
  using assms by (simp add: append_stage_after_def insert_stage_def Let_def has_defs opt_all_subset)

lemma upsert_columns:
  "oc_template_id ` set (upsert_occurrence t se e ts os) \<subseteq> insert t (oc_template_id ` set os)"
  "oc_session_id ` set (upsert_occurrence t se e ts os) \<subseteq> insert se (oc_session_id ` set os)"
  by (auto simp: upsert_occurrence_def Let_def set_update_where)

text \<open>The rows of the templates after a match: the miner's view of the matched template is written
  when it was created or changed, and the count goes up by one.\<close>

definition noted :: "Template \<Rightarrow> bool \<Rightarrow> bool \<Rightarrow> TemplateRow list \<Rightarrow> TemplateRow list \<Rightarrow> bool" where
  "noted t created changed old new \<longleftrightarrow>
     (if created then (\<exists>r. new = old @ [r] \<and> tr_id r = int (tpl_id t) \<and> tr_tokens r = tpl_tokens t \<and>
        tr_head_only r = tpl_head_only t \<and> tr_total_count r = 1) \<and> int (tpl_id t) \<notin> tr_id ` set old
      else map tr_id new = map tr_id old \<and>
        (\<forall>j < length old. tr_id (old ! j) \<noteq> int (tpl_id t) \<longrightarrow> new ! j = old ! j) \<and>
        (\<forall>j < length old. tr_id (old ! j) = int (tpl_id t) \<longrightarrow> tr_total_count (new ! j) = tr_total_count (old ! j) + 1 \<and>
           tr_tokens (new ! j) = (if changed then tpl_tokens t else tr_tokens (old ! j)) \<and>
           tr_head_only (new ! j) = (if changed then tpl_head_only t else tr_head_only (old ! j))))"

lemma noted_update:
  assumes "\<And>r. tr_id (f r) = tr_id r \<and> tr_total_count (f r) = tr_total_count r + 1 \<and>
      tr_tokens (f r) = (if changed then tpl_tokens t else tr_tokens r) \<and> tr_head_only (f r) = (if changed then tpl_head_only t else tr_head_only r)"
  shows "noted t False changed old (update_where (\<lambda>r. tr_id r = int (tpl_id t)) f old)"
  using assms by (simp add: noted_def map_update_where) (simp add: update_where_def)

definition template_step :: "Template \<Rightarrow> bool \<Rightarrow> bool \<Rightarrow> int \<Rightarrow> TemplateRow list \<Rightarrow> TemplateRow list \<Rightarrow> bool" where
  "template_step t created changed se old new \<longleftrightarrow> noted t created changed old new \<and>
     tr_first_seen_session ` set new \<subseteq> insert se (tr_first_seen_session ` set old)"

lemma note_template_rows:
  assumes "Batch_note_template b t created changed se e ts stage p sev = Inr b'"
  shows "template_step t created changed se (tb_templates (ba_db b)) (tb_templates (ba_db b')) \<and>
    b' = b\<lparr> ba_db := (ba_db b)\<lparr> tb_templates := tb_templates (ba_db b'), tb_occurrences :=
        upsert_occurrence (int (tpl_id t)) se (case e of Some x \<Rightarrow> x | None \<Rightarrow> 0) ts (tb_occurrences (ba_db b)) \<rparr> \<rparr> \<and>
    int (tpl_id t) \<in> template_ids (ba_db b') \<and> se \<in> session_ids (ba_db b)"
proof -
  let ?old = "tb_templates (ba_db b)"
  from assms obtain rows where b': "b' = b\<lparr> ba_db := (ba_db b)\<lparr> tb_templates := rows, tb_occurrences :=
        upsert_occurrence (int (tpl_id t)) se (case e of Some x \<Rightarrow> x | None \<Rightarrow> 0) ts (tb_occurrences (ba_db b)) \<rparr> \<rparr>"
      "int (tpl_id t) \<in> tr_id ` set rows" "se \<in> session_ids (ba_db b)"
    and rows: "rows = (if created then ?old @
                   [\<lparr> tr_id = int (tpl_id t), tr_stage = stage, tr_profile = p, tr_text = Template_text t,
                      tr_tokens = tpl_tokens t, tr_head_only = tpl_head_only t, tr_severity = sev,
                      tr_first_seen_session = se, tr_first_seen_boot = e, tr_first_seen_ts = ts,
                      tr_total_count = 1 \<rparr>]
            else if changed then
              update_where (\<lambda>r. tr_id r = int (tpl_id t))
                (\<lambda>r. r\<lparr> tr_text := Template_text t, tr_tokens := tpl_tokens t, tr_head_only := tpl_head_only t,
                        tr_severity := min (tr_severity r) sev, tr_total_count := tr_total_count r + 1 \<rparr>) ?old
            else update_where (\<lambda>r. tr_id r = int (tpl_id t))
                (\<lambda>r. r\<lparr> tr_severity := min (tr_severity r) sev, tr_total_count := tr_total_count r + 1 \<rparr>) ?old)"
      "created \<Longrightarrow> int (tpl_id t) \<notin> tr_id ` set ?old"
    unfolding Batch_note_template_def Let_def has_defs and_then_Inr require_Inr by (simp split: if_splits)
  have "template_step t created changed se ?old rows"
    using rows(2) unfolding template_step_def rows(1)
    by (cases created) (simp add: noted_def, simp add: noted_update image_update_where subset_insertI)
  with b' show ?thesis by simp
qed

lemma note_template_keeps:
  assumes "batch_ok b" and "Batch_note_template b t created changed se e ts stage p sev = Inr b'"
  shows "keeps b b' \<and> noted t created changed (tb_templates (ba_db b)) (tb_templates (ba_db b')) \<and> has_template (ba_db b') (int (tpl_id t)) \<and>
    tb_raw_lines (ba_db b') = tb_raw_lines (ba_db b) \<and> tb_records (ba_db b') = tb_records (ba_db b)"
proof -
  let ?db = "ba_db b" and ?i = "int (tpl_id t)"
  let ?os = "upsert_occurrence ?i se (case e of Some x \<Rightarrow> x | None \<Rightarrow> 0) ts (tb_occurrences ?db)"
  let ?rows = "tb_templates (ba_db b')"
  from note_template_rows [OF assms(2)] have rows: "template_step t created changed se (tb_templates ?db) ?rows"
    and b': "b' = b\<lparr> ba_db := ?db\<lparr> tb_templates := ?rows, tb_occurrences := ?os \<rparr> \<rparr>"
    and ok: "?i \<in> tr_id ` set ?rows" "se \<in> session_ids ?db" by simp_all
  note refs = batch_refs [OF assms(1), unfolded refs_ok_def]
  have ids: "template_ids ?db \<subseteq> tr_id ` set ?rows" "distinct (map tr_id ?rows)"
    using rows batch_keys [OF assms(1)] unfolding template_step_def noted_def keys_ok_def
    by (auto split: if_splits simp flip: set_map)
  have "tr_first_seen_session ` set ?rows \<subseteq> session_ids ?db"
    using rows ok(2) refs unfolding template_step_def by (elim conjE) (rule order_trans, assumption, simp)
  moreover have "oc_template_id ` set ?os \<subseteq> tr_id ` set ?rows"
    by (rule order_trans [OF upsert_columns(1)]) (use ok(1) refs ids(1) in \<open>simp add: order_trans [OF _ ids(1)]\<close>)
  moreover have "oc_session_id ` set ?os \<subseteq> session_ids ?db"
    by (rule order_trans [OF upsert_columns(2)]) (use ok(2) refs in simp)
  moreover have "somes (rr_template_id ` set (tb_records ?db)) \<subseteq> tr_id ` set ?rows"
    using refs order_trans [OF _ ids(1)] by simp
  ultimately have cols: "refs_ok (?db\<lparr> tb_templates := ?rows, tb_occurrences := ?os \<rparr>)"
    using refs unfolding refs_ok_def by simp
  have "keeps b b'"
  proof (rule keeps_side_table [OF assms(1) b'])
    show "refs_ok (?db\<lparr> tb_templates := ?rows, tb_occurrences := ?os \<rparr>)" by (fact cols)
    show "keys_ok (?db\<lparr> tb_templates := ?rows, tb_occurrences := ?os \<rparr>)"
      using batch_keys [OF assms(1)] ids(2) by (simp add: keys_ok_def)
  qed (use ids(1) in \<open>auto simp: has_defs\<close>)
  moreover have "tb_raw_lines (ba_db b') = tb_raw_lines ?db \<and> tb_records (ba_db b') = tb_records ?db" by (subst (1 2) b') simp
  ultimately show ?thesis using rows ok(1) by (simp add: has_defs template_step_def)
qed

lemma note_template_total:
  assumes "has_session (ba_db b) se" and "created \<longleftrightarrow> \<not> has_template (ba_db b) (int (tpl_id t))"
  shows "\<exists>b'. Batch_note_template b t created changed se e ts stage p sev = Inr b'"
  using assms by (auto simp: Batch_note_template_def Let_def has_defs image_update_where)

end
