(* ===== verification/Store_Epochs.thy ===== *)
theory Store_Epochs
  imports Store_Inv
begin

text \<open>
  Epochs of the device store: opening one (with the lines a back-dated epoch takes over),
  moving the tail of a session at a reset, summaries and the commit. Every operation keeps the
  balance between the bytes booked on an epoch and the lines attributed to it.
\<close>

section \<open>Moving lines between epochs\<close>

text \<open>The bytes of the lines a predicate selects, all of them and those of one epoch.\<close>

definition total :: "(LineRow \<Rightarrow> bool) \<Rightarrow> LineRow list \<Rightarrow> nat" where
  "total P ls = sum_list (map LineRow_consumed (filter P ls))"

definition give :: "(LineRow \<Rightarrow> bool) \<Rightarrow> int \<Rightarrow> LineRow list \<Rightarrow> LineRow list" where
  "give P n ls = update_where P (\<lambda>l. l\<lparr> lr_boot_id := Some n \<rparr>) ls"

lemma consumed_boot [simp]: "LineRow_consumed (l\<lparr> lr_boot_id := x \<rparr>) = LineRow_consumed l"
  by (simp add: LineRow_consumed_def)

lemma core_boot [simp]: "line_core (l\<lparr> lr_boot_id := x \<rparr>) = line_core l"
  by (simp add: line_core_def)

lemma give_core: "map line_core (give P n ls) = map line_core ls"
  by (simp add: give_def map_update_where)

lemma give_boots: "somes (lr_boot_id ` set (give P n ls)) \<subseteq> insert n (somes (lr_boot_id ` set ls))"
  by (auto simp: give_def set_update_where somes_def split: if_splits)

lemma give_attributed:
  "int (total (\<lambda>l. lr_boot_id l = Some e) (give P n ls)) =
     int (total (\<lambda>l. lr_boot_id l = Some e) ls) - int (total (\<lambda>l. P l \<and> lr_boot_id l = Some e) ls) +
     (if e = n then int (total P ls) else 0)"
  by (induction ls) (auto simp: total_def give_def update_where_def)

lemma attributed_total: "attributed db e = total (\<lambda>l. lr_boot_id l = Some e) (tb_raw_lines db)"
  by (simp add: attributed_def total_def)

text \<open>What a change of attribution owes: the giving epochs are debited, the taking one credited.\<close>

lemma keeps_attribution:
  assumes ok: "batch_ok b" and b': "b' = b\<lparr> ba_db := db', ba_boot_bytes := m \<rparr>"
    and lines: "tb_raw_lines db' = give P n (tb_raw_lines (ba_db b))"
    and refs: "refs_ok db'" "keys_ok db'" and boots: "\<And>e. booked db' e = booked (ba_db b) e"
    and mono: "tb_sessions db' = tb_sessions (ba_db b)" "tb_pruned_before db' = tb_pruned_before (ba_db b)"
      "\<And>e. has_boot (ba_db b) e \<Longrightarrow> has_boot db' e" "tb_templates db' = tb_templates (ba_db b)"
    and m: "bt_wf m" "\<And>e. e \<in> set (bt_keys m) \<Longrightarrow> has_boot db' e"
      "\<And>e. pend m e = pend (ba_boot_bytes b) e - int (total (\<lambda>l. P l \<and> lr_boot_id l = Some e) (tb_raw_lines (ba_db b))) +
        (if e = n then int (total P (tb_raw_lines (ba_db b))) else 0)"
  shows "keeps b b'"
proof -
  have core: "map line_core (tb_raw_lines db') = map line_core (tb_raw_lines (ba_db b))"
    by (simp add: lines give_core)
  have ids: "map lr_id (tb_raw_lines db') = map lr_id (tb_raw_lines (ba_db b))"
    using core_map [OF core, of lr_id] by simp
  have "contiguous a (tb_raw_lines db') off = contiguous a (tb_raw_lines (ba_db b)) off" for a off
    unfolding lines give_def update_where_def by (rule contiguous_map) simp
  with batch_stream [OF ok] ids have "stream_ok db' (ba_offset b)" by (simp add: stream_ok_def)
  moreover have "balance b' e = balance b e" for e
    by (simp add: b' balance_def surplus_def boots m(3) attributed_total lines give_attributed)
  ultimately show ?thesis
    using refs mono m(1,2) core by (simp add: keeps_def b' batch_ok_def tables_ok_def has_template_def)
qed

section \<open>Opening an epoch\<close>

lemma booked_append_zero: "ep_bytes r = 0 \<Longrightarrow> booked (db\<lparr> tb_boots := tb_boots db @ [r] \<rparr>) e = booked db e"
  by (simp add: booked_def)

definition close_boots :: "(BootRow \<Rightarrow> bool) \<Rightarrow> int \<Rightarrow> BootRow list \<Rightarrow> BootRow list" where
  "close_boots P at1 es = update_where P (\<lambda>e. e\<lparr> ep_closed_at := Some at1 \<rparr>) es"

lemma close_boots_fields [simp]:
  "map ep_id (close_boots P at1 es) = map ep_id es" "map ep_seq (close_boots P at1 es) = map ep_seq es"
  "ep_id ` set (close_boots P at1 es) = ep_id ` set es" "ep_seq ` set (close_boots P at1 es) = ep_seq ` set es"
  "ep_session_id ` set (close_boots P at1 es) = ep_session_id ` set es"
  "(close_boots P at1 es = []) = (es = [])"
  unfolding close_boots_def
  by ((rule map_update_where image_update_where; simp), (rule map_update_where image_update_where; simp),
      (rule map_update_where image_update_where; simp), (rule map_update_where image_update_where; simp),
      (rule map_update_where image_update_where; simp), simp add: update_where_def)

lemma booked_update:
  assumes "\<And>e. ep_id (f e) = ep_id e \<and> ep_bytes (f e) = ep_bytes e"
  shows "booked (db\<lparr> tb_boots := update_where P f es \<rparr>) i = booked (db\<lparr> tb_boots := es \<rparr>) i"
  using assms by (induction es) (auto simp: booked_def update_where_def)

lemma sorted_next_seq:
  "sorted_wrt (<) (map ep_seq (tb_boots db)) \<Longrightarrow> sorted_wrt (<) (map ep_seq (tb_boots db) @ [next_seq db])"
  by (auto simp: sorted_wrt_append next_seq_fresh)

lemma keeps_new_boot:
  assumes ok: "batch_ok b" and row: "ep_id row = next_id (map ep_id (tb_boots (ba_db b)))" "ep_seq row = next_seq (ba_db b)"
      "ep_bytes row = 0" "opt_all (has_session (ba_db b)) (ep_session_id row)"
    and b': "b' = b\<lparr> ba_db := (ba_db b)\<lparr> tb_boots := close_boots P at1 (tb_boots (ba_db b)) @ [row] \<rparr> \<rparr>"
  shows "keeps b b' \<and> has_boot (ba_db b') (ep_id row)"
proof -
  let ?db = "ba_db b"
  let ?db' = "?db\<lparr> tb_boots := close_boots P at1 (tb_boots ?db) @ [row] \<rparr>"
  have "booked ?db' e = booked ?db e" for e
    using booked_update [where f = "\<lambda>e. e\<lparr> ep_closed_at := Some at1 \<rparr>" and db = ?db and P = P and es = "tb_boots ?db" and i = e] row(3)
    by (simp add: booked_def close_boots_def)
  moreover have "refs_ok ?db'"
    using batch_refs [OF ok] row(4) by (auto simp: refs_ok_def has_defs opt_all_subset)
  moreover have "keys_ok ?db'"
    using batch_keys [OF ok] row(1,2) by (simp add: keys_ok_def sorted_next_id sorted_next_seq)
  ultimately show ?thesis using ok
    by (simp add: keeps_def b' batch_ok_def tables_ok_def stream_ok_def balance_def surplus_def attributed_def has_defs)
qed

lemma pend_debit:
  "pend (debit_donors moved m) e = pend m e - int (total (\<lambda>l. lr_boot_id l = Some e) moved)"
  by (induction moved arbitrary: m) (auto simp: debit_donors_def total_def split: option.split)

lemma debit_keys: "set (bt_keys (debit_donors moved m)) = set (bt_keys m) \<union> somes (lr_boot_id ` set moved)"
  by (induction moved arbitrary: m) (auto simp: debit_donors_def split: option.split)

lemma debit_wf: "bt_wf m \<Longrightarrow> bt_wf (debit_donors moved m)"
  by (induction moved arbitrary: m) (auto simp: debit_donors_def split: option.split)

lemma total_filter: "total P (filter Q ls) = total (\<lambda>l. Q l \<and> P l) ls"
  by (simp add: total_def conj_commute)

lemma claim_lines_keeps:
  assumes ok: "batch_ok b" and new: "has_boot (ba_db b) n"
  shows "keeps b (claim_lines b start n) \<and> tb_templates (ba_db (claim_lines b start n)) = tb_templates (ba_db b)"
proof (cases "filter (claimed start n) (tb_raw_lines (ba_db b)) = []")
  case True
  then show ?thesis by (simp add: claim_lines_def Let_def keeps_refl ok)
next
  case False
  let ?db = "ba_db b" and ?P = "claimed start n"
  let ?moved = "filter ?P (tb_raw_lines ?db)"
  define owned where "owned = lr_id ` set (filter (\<lambda>l. lr_boot_id l = Some n) (give ?P n (tb_raw_lines ?db)))"
  define db' where "db' = ?db\<lparr> tb_raw_lines := give ?P n (tb_raw_lines ?db),
    tb_records := update_where (\<lambda>r. rr_first_line_id r \<in> owned) (\<lambda>r. r\<lparr> rr_boot_id := Some n \<rparr>) (tb_records ?db),
    tb_stages := update_where (\<lambda>s. case sg_banner_line_id s of Some i \<Rightarrow> i \<in> owned | None \<Rightarrow> False)
                       (\<lambda>s. s\<lparr> sg_boot_id := Some n \<rparr>) (tb_stages ?db) \<rparr>"
  define m where "m = bump n (int (total ?P (tb_raw_lines ?db))) (debit_donors ?moved (ba_boot_bytes b))"
  have eq: "claim_lines b start n = b\<lparr> ba_db := db', ba_boot_bytes := m \<rparr>"
    using False unfolding claim_lines_def Let_def db'_def m_def owned_def give_def total_def by simp
  note refs = batch_refs [OF ok, unfolded refs_ok_def]
  have ids: "lr_id ` set (give ?P n (tb_raw_lines ?db)) = line_ids ?db"
      "lr_session_id ` set (give ?P n (tb_raw_lines ?db)) = lr_session_id ` set (tb_raw_lines ?db)"
    unfolding give_def by (rule image_update_where; simp)+
  have boots: "somes (lr_boot_id ` set (give ?P n (tb_raw_lines ?db))) \<subseteq> boot_ids ?db"
    by (rule order_trans [OF give_boots]) (use new refs in \<open>simp add: has_defs\<close>)
  have none: "total (\<lambda>l. ?P l \<and> lr_boot_id l = Some n) (tb_raw_lines ?db) = 0"
    by (simp add: total_def claimed_def filter_False)
  have "keeps b (claim_lines b start n)"
  proof (rule keeps_attribution [OF ok eq, where P = ?P and n = n])
    show "refs_ok db'" using refs boots ids by (simp add: refs_ok_def db'_def image_update_where)
    show "keys_ok db'" using batch_keys [OF ok] by (simp add: keys_ok_def db'_def map_update_where)
    show "bt_wf m" using ok by (simp add: m_def batch_ok_def debit_wf)
    show "has_boot db' e" if "e \<in> set (bt_keys m)" for e
    proof -
      have "somes (lr_boot_id ` set ?moved) \<subseteq> somes (lr_boot_id ` set (tb_raw_lines ?db))" by (rule somes_mono) auto
      with that ok new refs show ?thesis by (auto simp: m_def debit_keys batch_ok_def has_defs db'_def)
    qed
    show "pend m e = pend (ba_boot_bytes b) e - int (total (\<lambda>l. ?P l \<and> lr_boot_id l = Some e) (tb_raw_lines ?db)) +
        (if e = n then int (total ?P (tb_raw_lines ?db)) else 0)" for e
      by (simp add: m_def pend_debit total_filter)
  qed (simp_all add: db'_def booked_def has_defs)
  then show ?thesis by (simp add: eq db'_def)
qed

lemma boot_of_fields [simp]:
  "ep_id (boot_of i q o1 l t se off) = i" "ep_seq (boot_of i q o1 l t se off) = q" "ep_bytes (boot_of i q o1 l t se off) = 0"
  "ep_session_id (boot_of i q o1 l t se off) = se" "ep_opened_offset (boot_of i q o1 l t se off) = off"
  by (simp_all add: boot_of_def)

lemma open_boot_after_eq:
  assumes "open_boot_after b opened_by label at1 se prev off claim = Inr (n, b')"
  obtains P b1 where
    "b1 = b\<lparr> ba_db := (ba_db b)\<lparr> tb_boots := close_boots P at1 (tb_boots (ba_db b)) @
       [boot_of n (next_seq (ba_db b)) opened_by label at1 se (case off of Some x \<Rightarrow> x | None \<Rightarrow> ba_offset b)] \<rparr> \<rparr>"
    "n = next_id (map ep_id (tb_boots (ba_db b)))" "opt_all (has_session (ba_db b)) se"
    "b' = (case off of Some start \<Rightarrow> if claim \<and> start < ba_offset b then claim_lines b1 start n else b1 | None \<Rightarrow> b1)"
proof -
  define P :: "BootRow \<Rightarrow> bool" where "P = (case prev of Some i \<Rightarrow> (\<lambda>e. ep_id e = i) | None \<Rightarrow> (\<lambda>e. ep_closed_at e = None))"
  define b1 where "b1 = b\<lparr> ba_db := (ba_db b)\<lparr> tb_boots := close_boots P at1 (tb_boots (ba_db b)) @
       [boot_of n (next_seq (ba_db b)) opened_by label at1 se (case off of Some x \<Rightarrow> x | None \<Rightarrow> ba_offset b)] \<rparr> \<rparr>"
  from assms have *: "n = next_id (map ep_id (tb_boots (ba_db b)))" "opt_all (has_session (ba_db b)) se"
    "b' = (case off of Some start \<Rightarrow> if claim \<and> start < ba_offset b1 then claim_lines b1 start n else b1 | None \<Rightarrow> b1)"
    unfolding open_boot_after_def insert_boot_def Let_def P_def [symmetric] close_boots_def [symmetric]
    by (cases off; clarsimp simp: opt_all_subset has_defs b1_def)+
  have "ba_offset b1 = ba_offset b" by (simp add: b1_def)
  with *(3) show ?thesis
    by (intro that [OF b1_def *(1,2)]) (simp split: option.split)
qed

lemma open_boot_after_keeps:
  assumes ok: "batch_ok b" and op: "open_boot_after b opened_by label at1 se prev off claim = Inr (n, b')"
  shows "keeps b b' \<and> has_boot (ba_db b') n \<and> tb_templates (ba_db b') = tb_templates (ba_db b)"
proof (rule open_boot_after_eq [OF op])
  fix P b1
  assume b1: "b1 = b\<lparr> ba_db := (ba_db b)\<lparr> tb_boots := close_boots P at1 (tb_boots (ba_db b)) @
       [boot_of n (next_seq (ba_db b)) opened_by label at1 se (case off of Some x \<Rightarrow> x | None \<Rightarrow> ba_offset b)] \<rparr> \<rparr>"
    and n: "n = next_id (map ep_id (tb_boots (ba_db b)))" "opt_all (has_session (ba_db b)) se"
    and b': "b' = (case off of Some start \<Rightarrow> if claim \<and> start < ba_offset b then claim_lines b1 start n else b1 | None \<Rightarrow> b1)"
  have k: "keeps b b1" "has_boot (ba_db b1) n" using keeps_new_boot [OF ok _ _ _ _ b1] n by simp_all
  then have "batch_ok b1" by (simp add: keeps_def)
  note c = claim_lines_keeps [OF this k(2)]
  have "tb_templates (ba_db b1) = tb_templates (ba_db b)" by (simp add: b1)
  moreover have "b' = b1 \<or> (\<exists>start. b' = claim_lines b1 start n)" by (auto simp: b' split: option.split)
  ultimately show ?thesis
    using k c keeps_trans [OF k(1)] unfolding keeps_def by metis
qed

lemma open_boot_after_unclaimed:
  assumes "open_boot_after b opened_by label at1 se prev off False = Inr (n, b')"
  shows "tb_raw_lines (ba_db b') = tb_raw_lines (ba_db b) \<and> tb_records (ba_db b') = tb_records (ba_db b)"
  by (rule open_boot_after_eq [OF assms]) (simp split: option.split)

lemma open_boot_after_total:
  assumes "opened_by \<in> set OPENED_BY" and "opt_all (has_session (ba_db b)) se"
  shows "\<exists>n b'. open_boot_after b opened_by label at1 se prev off claim = Inr (n, b')"
  using assms by (simp add: open_boot_after_def insert_boot_def Let_def opt_all_subset has_defs)

section \<open>The tail after a reset\<close>

text \<open>Offsets are contiguous, so the bytes from a line on are the distance to the end of the stream.\<close>

lemma tail_total:
  assumes "stream_ok db off" and "l \<in> set (tb_raw_lines db)"
  shows "int (total (\<lambda>k. lr_id l \<le> lr_id k) (tb_raw_lines db)) = int off - int (lr_stream_offset l)"
proof -
  from assms(2) obtain pre post where split: "tb_raw_lines db = pre @ l # post" by (auto dest: split_list)
  from assms(1) obtain a where c: "contiguous a (pre @ l # post) off" and s: "sorted_wrt (<) (map lr_id (pre @ l # post))"
    by (auto simp: stream_ok_def split)
  from c have "contiguous (lr_stream_offset l) (l # post) off" by (auto simp: contiguous_append)
  then have "off = lr_stream_offset l + sum_list (map LineRow_consumed (l # post))" by (rule contiguous_sum)
  moreover have "filter (\<lambda>k. lr_id l \<le> lr_id k) pre = []" "filter (\<lambda>k. lr_id l \<le> lr_id k) post = post"
    using s by (force simp: sorted_wrt_append filter_id_conv filter_empty_conv)+
  ultimately show ?thesis by (simp add: total_def split)
qed

lemma offset_of_line_Inr:
  assumes "offset_of_line b i = Inr o1"
  obtains l where "l \<in> set (tb_raw_lines (ba_db b))" "lr_id l = i" "lr_stream_offset l = o1"
  using assms that by (auto simp: offset_of_line_def find_Some_iff) (metis nth_mem)

lemma offset_of_line_total: "has_line (ba_db b) i \<Longrightarrow> \<exists>o1. offset_of_line b i = Inr o1"
  by (auto simp: offset_of_line_def has_defs ok_or_def find_None_iff split: option.split)

lemma reassign_keeps:
  assumes ok: "batch_ok b" and op: "reassign_tail_to_boot b se i old n = Inr (moved, b')"
    and new: "has_boot (ba_db b) n" and old: "opt_all (has_boot (ba_db b)) old"
    and tail: "\<And>l. l \<in> set (tb_raw_lines (ba_db b)) \<Longrightarrow> i \<le> lr_id l \<Longrightarrow> lr_session_id l = se \<and> lr_boot_id l = old"
  shows "keeps b b' \<and> tb_templates (ba_db b') = tb_templates (ba_db b) \<and> tb_boots (ba_db b') = tb_boots (ba_db b) \<and>
    tb_records (ba_db b') = tb_records (ba_db b) \<and> (\<forall>l\<in>set (tb_raw_lines (ba_db b')). i \<le> lr_id l \<longrightarrow> lr_boot_id l = Some n)"
proof -
  let ?db = "ba_db b" and ?P = "\<lambda>l. lr_session_id l = se \<and> i \<le> lr_id l"
  let ?ls = "tb_raw_lines ?db"
  define m where "m = bump n moved (case old of Some ob \<Rightarrow> bump ob (- moved) (ba_boot_bytes b) | None \<Rightarrow> ba_boot_bytes b)"
  from op obtain o1 where o1: "offset_of_line b i = Inr o1" and mv: "moved = int (ba_offset b) - int o1"
    and eq: "b' = b\<lparr> ba_db := ?db\<lparr> tb_raw_lines := give ?P n ?ls \<rparr>, ba_boot_bytes := m \<rparr>"
    by (auto simp: reassign_tail_to_boot_def Let_def give_def m_def)
  from o1 obtain l where l: "l \<in> set ?ls" "lr_id l = i" "lr_stream_offset l = o1" by (rule offset_of_line_Inr)
  have "filter ?P ?ls = filter (\<lambda>k. i \<le> lr_id k) ?ls" using tail by (intro filter_cong) auto
  then have tot: "int (total ?P ?ls) = moved"
    using tail_total [OF batch_stream [OF ok] l(1)] l(2,3) mv by (simp add: total_def)
  have part: "total (\<lambda>l. ?P l \<and> lr_boot_id l = Some e) ?ls = (if old = Some e then total ?P ?ls else 0)" for e
  proof -
    have "filter (\<lambda>l. ?P l \<and> lr_boot_id l = Some e) ?ls = (if old = Some e then filter ?P ?ls else [])"
      using tail by (auto simp: filter_empty_conv intro: filter_cong)
    then show ?thesis by (simp add: total_def)
  qed
  note refs = batch_refs [OF ok, unfolded refs_ok_def]
  have ids: "lr_id ` set (give ?P n ?ls) = line_ids ?db" "lr_session_id ` set (give ?P n ?ls) = lr_session_id ` set ?ls"
    unfolding give_def by (rule image_update_where; simp)+
  have boots: "somes (lr_boot_id ` set (give ?P n ?ls)) \<subseteq> boot_ids ?db"
    by (rule order_trans [OF give_boots]) (use new refs in \<open>simp add: has_defs\<close>)
  have "keeps b b'"
  proof (rule keeps_attribution [OF ok eq, where P = ?P and n = n])
    show "refs_ok (?db\<lparr> tb_raw_lines := give ?P n ?ls \<rparr>)" using refs boots ids by (simp add: refs_ok_def)
    show "keys_ok (?db\<lparr> tb_raw_lines := give ?P n ?ls \<rparr>)" using batch_keys [OF ok] by (simp add: keys_ok_def)
    show "bt_wf m" using ok by (simp add: m_def batch_ok_def split: option.split)
    show "has_boot (?db\<lparr> tb_raw_lines := give ?P n ?ls \<rparr>) e" if "e \<in> set (bt_keys m)" for e
      using that ok new old by (auto simp: m_def batch_ok_def has_defs split: option.splits)
    show "pend m e = pend (ba_boot_bytes b) e - int (total (\<lambda>l. ?P l \<and> lr_boot_id l = Some e) ?ls) +
        (if e = n then int (total ?P ?ls) else 0)" for e
      using tot part by (auto simp: m_def split: option.split)
  qed (simp_all add: booked_def has_defs)
  moreover have "lr_boot_id l = Some n" if "l \<in> set (give ?P n ?ls)" "i \<le> lr_id l" for l
  proof -
    from that(1) obtain k where k: "k \<in> set ?ls" "l = (if ?P k then k\<lparr> lr_boot_id := Some n \<rparr> else k)"
      by (auto simp: give_def set_update_where)
    with that(2) have "i \<le> lr_id k" by (simp split: if_splits)
    with tail [OF k(1)] k(2) show ?thesis by simp
  qed
  ultimately show ?thesis by (simp add: eq)
qed

section \<open>Summaries and the commit\<close>

lemma set_boot_summary_keeps:
  assumes ok: "batch_ok b"
  shows "keeps b (Batch_set_boot_summary b e fp oc) \<and> tb_templates (ba_db (Batch_set_boot_summary b e fp oc)) = tb_templates (ba_db b) \<and>
    tb_raw_lines (ba_db (Batch_set_boot_summary b e fp oc)) = tb_raw_lines (ba_db b) \<and>
    tb_records (ba_db (Batch_set_boot_summary b e fp oc)) = tb_records (ba_db b)"
proof -
  let ?f = "\<lambda>e. e\<lparr> ep_fingerprint := (if fp = None then ep_fingerprint e else fp), ep_outcome := (if oc = None then ep_outcome e else oc) \<rparr>"
  let ?es = "update_where (\<lambda>x. ep_id x = e) ?f (tb_boots (ba_db b))"
  have cols: "map ep_id ?es = map ep_id (tb_boots (ba_db b))" "map ep_seq ?es = map ep_seq (tb_boots (ba_db b))"
      "ep_id ` set ?es = boot_ids (ba_db b)" "ep_session_id ` set ?es = ep_session_id ` set (tb_boots (ba_db b))"
    by (rule map_update_where image_update_where; simp)+
  have "booked ((ba_db b)\<lparr> tb_boots := ?es \<rparr>) i = booked (ba_db b) i" for i
    using booked_update [where f = ?f and P = "\<lambda>x. ep_id x = e" and es = "tb_boots (ba_db b)" and db = "ba_db b" and i = i] by simp
  with ok cols show ?thesis
    by (simp add: Batch_set_boot_summary_def Let_def keeps_def batch_ok_def tables_ok_def stream_ok_def refs_ok_def keys_ok_def
        balance_def surplus_def attributed_def has_defs)
qed

lemma commit_boots_Cons:
  "commit_boots ((i, n) # m) es = commit_boots m (update_where (\<lambda>e. ep_id e = i) (\<lambda>e. e\<lparr> ep_bytes := max 0 (ep_bytes e + n) \<rparr>) es)"
  by (simp add: commit_boots_def)

text \<open>For ascending keys each epoch is visited at most once.\<close>

lemma commit_boots_map:
  assumes "bt_wf m"
  shows "commit_boots m es = map (\<lambda>e. case bt_get m (ep_id e) of Some n \<Rightarrow> e\<lparr> ep_bytes := max 0 (ep_bytes e + n) \<rparr> | None \<Rightarrow> e) es"
  using assms
proof (induction m arbitrary: es)
  case Nil
  then show ?case by (simp add: commit_boots_def)
next
  case (Cons kv m)
  obtain i n where kv: "kv = (i, n)" by fastforce
  have wf: "bt_wf m" and fresh: "i \<notin> set (bt_keys m)" using Cons.prems by (auto simp: kv bt_wf_def bt_keys_def)
  then have "bt_get m i = None" using bt_get_iff_key [of m i] by simp
  then show ?case unfolding kv commit_boots_Cons Cons.IH [OF wf] by (auto simp: update_where_def)
qed

text \<open>A commit books what was accumulated: nothing is cut off at zero as long as no epoch owes bytes.\<close>

lemma commit_booked:
  assumes ok: "batch_ok b" and pos: "\<And>e. 0 \<le> balance b e"
  shows "surplus (snd (Batch_commit b)) e = balance b e"
proof -
  let ?es = "tb_boots (ba_db b)" and ?m = "ba_boot_bytes b"
  have wf: "bt_wf ?m" and keys: "\<And>k. k \<in> set (bt_keys ?m) \<Longrightarrow> k \<in> boot_ids (ba_db b)"
    and d: "distinct (map ep_id ?es)"
    using ok strict_sorted_iff [of "map ep_id ?es"] by (auto simp: batch_ok_def has_defs tables_ok_def keys_ok_def)
  have one: "sum_list (map f (filter (\<lambda>x. ep_id x = e) es)) = (case find (\<lambda>x. ep_id x = e) es of Some x \<Rightarrow> f x | None \<Rightarrow> 0)"
    if "distinct (map ep_id es)" for f :: "BootRow \<Rightarrow> int" and es
    using that
  proof (induction es)
    case (Cons x es)
    then have "ep_id x = e \<Longrightarrow> filter (\<lambda>x. ep_id x = e) es = []" by (force simp: filter_empty_conv image_iff)
    with Cons show ?case by auto
  qed simp
  let ?f = "\<lambda>x. case bt_get ?m (ep_id x) of Some n \<Rightarrow> x\<lparr> ep_bytes := max 0 (ep_bytes x + n) \<rparr> | None \<Rightarrow> x"
  have idf: "ep_id (?f x) = ep_id x" for x by (simp split: option.split)
  have "filter (\<lambda>x. ep_id x = e) (map ?f ?es) = map ?f (filter (\<lambda>x. ep_id x = e) ?es)"
    by (simp add: filter_map comp_def idf)
  then have new: "booked (snd (Batch_commit b)) e = (case find (\<lambda>x. ep_id x = e) ?es of Some x \<Rightarrow> ep_bytes (?f x) | None \<Rightarrow> 0)"
    using one [OF d, of "\<lambda>x. ep_bytes (?f x)"] by (simp add: booked_def Batch_commit_def Let_def commit_boots_map [OF wf] comp_def)
  have old: "booked (ba_db b) e = (case find (\<lambda>x. ep_id x = e) ?es of Some x \<Rightarrow> ep_bytes x | None \<Rightarrow> 0)"
    using one [OF d, of ep_bytes] by (simp add: booked_def)
  have att: "attributed (snd (Batch_commit b)) e = attributed (ba_db b) e"
    by (simp add: attributed_def Batch_commit_def Let_def)
  show ?thesis
  proof (cases "find (\<lambda>x. ep_id x = e) ?es")
    case None
    then have "e \<notin> boot_ids (ba_db b)" by (auto simp: find_None_iff)
    then have "pend ?m e = 0" using keys bt_get_iff_key [of ?m e] by (auto simp: pend_def)
    with None new old att show ?thesis by (simp add: balance_def surplus_def)
  next
    case (Some x)
    then have x: "ep_id x = e" by (auto simp: find_Some_iff)
    have "0 \<le> booked (ba_db b) e + pend ?m e" using pos [of e] by (simp add: balance_def surplus_def)
    with Some new old att x show ?thesis
      by (simp add: balance_def surplus_def pend_def split: option.splits)
  qed
qed

lemma map_commit_sessions: "map se_id (commit_sessions cs ss) = map se_id ss"
proof (induction cs arbitrary: ss)
  case (Cons c cs)
  have "map se_id (update_where (\<lambda>s. se_id s = i) (\<lambda>s. s\<lparr> se_bytes := se_bytes s + x, se_lines := se_lines s + y, se_records := se_records s + z \<rparr>) ss) = map se_id ss" for i x y z
    by (rule map_update_where) simp
  with Cons show ?case by (cases c) (simp add: commit_sessions_def)
qed (simp add: commit_sessions_def)

lemma set_commit_sessions: "se_id ` set (commit_sessions cs ss) = se_id ` set ss"
  using map_commit_sessions [of cs ss] by (metis set_map)

lemma commit_boots_columns:
  assumes "bt_wf m"
  shows "map ep_id (commit_boots m es) = map ep_id es" "map ep_seq (commit_boots m es) = map ep_seq es"
    "ep_session_id ` set (commit_boots m es) = ep_session_id ` set es" "ep_id ` set (commit_boots m es) = ep_id ` set es"
  unfolding commit_boots_map [OF assms] by (auto simp: image_image split: option.split intro!: image_cong)

lemma commit_tables_ok:
  assumes "batch_ok b"
  shows "tables_ok (snd (Batch_commit b)) (ba_offset b)"
  using assms
  by (simp add: batch_ok_def tables_ok_def stream_ok_def refs_ok_def keys_ok_def Batch_commit_def Let_def map_commit_sessions
      set_commit_sessions commit_boots_columns)

section \<open>The store around a batch\<close>

text \<open>A consistent store: consistent tables up to the stream offset, no epoch owing bytes, the
  retention horizon at or before the first line.\<close>

definition store_ok :: "DeviceStore \<Rightarrow> bool" where
  "store_ok s \<longleftrightarrow> tables_ok (ds_db s) (ds_stream_offset s) \<and> (\<forall>e. 0 \<le> surplus (ds_db s) e) \<and>
     ds_pruned_before s \<le> ds_stream_offset s \<and> (\<forall>l\<in>set (tb_raw_lines (ds_db s)). ds_pruned_before s \<le> lr_stream_offset l)"

definition plain_batch :: "DeviceStore \<Rightarrow> Batch" where
  "plain_batch s = \<lparr> ba_db = ds_db s, ba_offset = ds_stream_offset s, ba_counters = [], ba_boot_bytes = [] \<rparr>"

lemma stored_end_le: "stream_ok db off \<Longrightarrow> stored_end db \<le> off"
  by (auto simp: stored_end_def stream_ok_def order_by_strict split: list.split dest!: contiguous_bounds)

lemma stored_end_eq:
  assumes "stream_ok db off" and "tb_raw_lines db \<noteq> []"
  shows "stored_end db = off"
proof -
  from assms obtain ls l where ls: "tb_raw_lines db = ls @ [l]" by (metis rev_exhaust)
  with assms(1) have "rev (order_by lr_id (tb_raw_lines db)) = l # rev ls" by (simp add: stream_ok_def order_by_strict)
  moreover from assms(1) ls have "end_offset l = off" by (auto simp: stream_ok_def contiguous_append)
  ultimately show ?thesis by (simp add: stored_end_def)
qed

lemma begin_batch_ok: "store_ok s \<Longrightarrow> begin_batch s = (plain_batch s, s)"
  using stored_end_le [of "ds_db s" "ds_stream_offset s"]
  by (simp add: begin_batch_def plain_batch_def store_ok_def tables_ok_def Let_def)

lemma plain_batch_ok: "store_ok s \<Longrightarrow> batch_ok (plain_batch s)"
  by (simp add: store_ok_def batch_ok_def plain_batch_def bt_keys_def)

lemma plain_balance: "balance (plain_batch s) e = surplus (ds_db s) e"
  by (simp add: balance_def plain_batch_def)

lemma finish_batch_db: "ds_db (finish_batch s b) = snd (Batch_commit b)" "ds_stream_offset (finish_batch s b) = ba_offset b"
    "ds_pruned_before (finish_batch s b) = ds_pruned_before s"
  by (simp_all add: finish_batch_def Batch_commit_def Let_def)

lemma commit_lines: "tb_raw_lines (snd (Batch_commit b)) = tb_raw_lines (ba_db b)"
  "tb_records (snd (Batch_commit b)) = tb_records (ba_db b)" "tb_templates (snd (Batch_commit b)) = tb_templates (ba_db b)"
  "tb_stages (snd (Batch_commit b)) = tb_stages (ba_db b)"
  by (simp_all add: Batch_commit_def Let_def)

text \<open>Finishing a batch that kept its balances gives a consistent store with the same surpluses.\<close>

lemma finish_batch_ok:
  assumes ok: "batch_ok b" and bal: "\<And>e. balance b e = surplus (ds_db s) e" and s: "store_ok s"
    and off: "ds_stream_offset s \<le> ba_offset b"
    and low: "\<And>l. l \<in> set (tb_raw_lines (ba_db b)) \<Longrightarrow> ds_pruned_before s \<le> lr_stream_offset l"
  shows "store_ok (finish_batch s b) \<and> (\<forall>e. surplus (ds_db (finish_batch s b)) e = surplus (ds_db s) e)"
proof -
  have pos: "0 \<le> balance b e" for e using s bal by (simp add: store_ok_def)
  have "surplus (snd (Batch_commit b)) e = surplus (ds_db s) e" for e
    using commit_booked [OF ok pos] bal by simp
  with s off low commit_tables_ok [OF ok] show ?thesis
    by (auto simp: store_ok_def finish_batch_db commit_lines)
qed

section \<open>Properties\<close>

lemma batch_ok_with_rows:
  assumes ok: "batch_ok b" and se: "has_session (ba_db b) se" and e: "opt_all (has_boot (ba_db b)) e"
    and ls: "list_all (\<lambda>l. PendingLine_consumed l > 0) ls" and op: "Batch_append_lines b se e ls = Inr (refs, b')"
  shows "batch_ok b' \<and> (\<forall>i. balance b' i = balance b i)"
proof -
  let ?rows = "add_rows b se e ls" and ?db = "ba_db b"
  from Batch_append_lines_eq [OF batch_stream [OF ok] se ls, of e] op have b':
    "ba_db b' = ba_db (with_rows b ?rows)" "ba_offset b' = ba_offset (with_rows b ?rows)"
    "\<And>i. pend (ba_boot_bytes b') i = pend (ba_boot_bytes b) i + (if e = Some i then int (sum_list (map PendingLine_consumed ls)) else 0)"
    "set (bt_keys (ba_boot_bytes b')) \<subseteq> set (bt_keys (ba_boot_bytes b)) \<union> set_option e" "bt_wf (ba_boot_bytes b')"
    using ok by (auto simp: batch_ok_def)
  have cols: "lr_session_id ` set ?rows \<subseteq> {se}" "somes (lr_boot_id ` set ?rows) \<subseteq> set_option e"
    using new_rows_fields [of _ se e "next_id (map lr_id (tb_raw_lines ?db))" "ba_offset b" ls]
    by (auto simp: add_rows_def somes_def)
  have "lr_session_id ` set ?rows \<subseteq> session_ids ?db" "somes (lr_boot_id ` set ?rows) \<subseteq> boot_ids ?db"
    using order_trans [OF cols(1)] order_trans [OF cols(2)] se e by (simp_all add: has_defs opt_all_subset)
  then have "refs_ok (ba_db b')"
    using batch_refs [OF ok] by (simp add: refs_ok_def b'(1) with_rows_def image_Un le_supI1)
  moreover have "keys_ok (ba_db b')" using batch_keys [OF ok] by (simp add: keys_ok_def b'(1) with_rows_def)
  moreover have "stream_ok (ba_db b') (ba_offset b')"
    using stream_ok_with_rows [OF batch_stream [OF ok] ls, of se e] b'(1,2) by simp
  moreover have "has_boot (ba_db b') i" if "i \<in> set (bt_keys (ba_boot_bytes b'))" for i
    using that b'(4) ok e by (auto simp: batch_ok_def has_defs b'(1) with_rows_def opt_all_subset)
  moreover have "balance b' i = balance b i" for i
  proof -
    have "filter (\<lambda>l. lr_boot_id l = Some i) ?rows = (if e = Some i then ?rows else [])"
      using new_rows_fields [of _ se e "next_id (map lr_id (tb_raw_lines ?db))" "ba_offset b" ls]
      by (auto simp: add_rows_def filter_id_conv filter_empty_conv)
    moreover have "sum_list (map LineRow_consumed ?rows) = sum_list (map PendingLine_consumed ls)"
      by (simp add: add_rows_def new_rows_consumed)
    ultimately show ?thesis by (auto simp: balance_def surplus_def booked_def attributed_def b'(1,3) with_rows_def)
  qed
  ultimately show ?thesis using b'(5) by (simp add: batch_ok_def tables_ok_def)
qed

text \<open>Appending a block never fails on a consistent store and loses nothing: for an existing
  session and epoch and lines that each consume at least a byte, \<^verbatim>\<open>append_lines\<close> succeeds with one
  reference per line at consecutive offsets, the stored stream grows by exactly the bytes of
  the lines, the stream offset by their number, and the store stays consistent, with every epoch's
  books unchanged relative to the lines attributed to it.\<close>

theorem append_lines_extends_stream:
  assumes "store_ok s" and "has_session (ds_db s) se" and "opt_all (has_boot (ds_db s)) e"
    and "list_all (\<lambda>l. PendingLine_consumed l > 0) ls"
  shows "\<exists>refs s'. append_lines s se e ls = (Inr refs, s') \<and> length refs = length ls \<and>
    (\<forall>j < length ls. ref_stream_offset (refs ! j) = ds_stream_offset s + sum_list (map PendingLine_consumed (take j ls))) \<and>
    stored_stream (ds_db s') = stored_stream (ds_db s) @ concat (map pending_raw ls) \<and>
    ds_stream_offset s' = ds_stream_offset s + length (concat (map pending_raw ls)) \<and>
    store_ok s' \<and> (\<forall>i. surplus (ds_db s') i = surplus (ds_db s) i)"
proof -
  let ?b = "plain_batch s"
  have ok: "batch_ok ?b" by (rule plain_batch_ok [OF assms(1)])
  have db: "ba_db ?b = ds_db s" "ba_offset ?b = ds_stream_offset s" by (simp_all add: plain_batch_def)
  let ?rows = "add_rows ?b se e ls"
  from Batch_append_lines_eq [OF batch_stream [OF ok] _ assms(4), of se e] assms(2) db obtain b' where
    b': "Batch_append_lines ?b se e ls = Inr (map row_ref ?rows, b')" "ba_db b' = ba_db (with_rows ?b ?rows)"
      "ba_offset b' = ba_offset (with_rows ?b ?rows)" by auto
  have k: "batch_ok b'" "\<And>i. balance b' i = surplus (ds_db s) i"
    using batch_ok_with_rows [OF ok _ _ assms(4) b'(1)] assms(2,3) db by (simp_all add: plain_balance)
  have sum: "sum_list (map LineRow_consumed ?rows) = length (concat (map pending_raw ls))"
    by (simp add: add_rows_def new_rows_consumed length_concat comp_def)
  have low: "ds_pruned_before s \<le> lr_stream_offset l" if "l \<in> set (tb_raw_lines (ba_db b'))" for l
  proof -
    have "lr_stream_offset l \<ge> ds_stream_offset s" if "l \<in> set ?rows"
      using contiguous_bounds [OF new_rows_contiguous [OF assms(4)]] that by (simp add: add_rows_def db)
    with that assms(1) show ?thesis by (auto simp: b'(2) with_rows_def db store_ok_def)
  qed
  have fin: "store_ok (finish_batch s b') \<and> (\<forall>e. surplus (ds_db (finish_batch s b')) e = surplus (ds_db s) e)"
    by (rule finish_batch_ok [OF k assms(1)]) (simp_all add: b'(3) with_rows_def db low)
  have offs: "lr_stream_offset (new_rows se e i off ls ! j) = off + sum_list (map PendingLine_consumed (take j ls))"
    if "j < length ls" for i off j
    using that by (induction ls arbitrary: i off j) (auto simp: nth_Cons split: nat.split)
  have "append_lines s se e ls = (Inr (map row_ref ?rows), finish_batch s b')"
    by (simp add: append_lines_def in_batch_def begin_batch_ok [OF assms(1)] b'(1))
  moreover have "stored_stream (ds_db (finish_batch s b')) = stored_stream (ds_db s) @ concat (map pending_raw ls)"
    by (simp add: finish_batch_db commit_lines stored_stream_def b'(2) with_rows_def add_rows_def db new_rows_raw)
  moreover have "length ?rows = length ls" by (simp add: add_rows_def)
  ultimately show ?thesis
    using fin sum offs by (intro exI [of _ "map row_ref ?rows"] exI [of _ "finish_batch s b'"])
      (simp add: finish_batch_db b'(3) with_rows_def db row_ref_def add_rows_def)
qed

text \<open>A store with one session, as the examples use it.\<close>

definition sample_store :: DeviceStore where
  "sample_store = snd (begin_session (projr (open_inner (\<lambda>_. []) empty_tables ''ttyUSB0'')) Live 0 None None None)"

lemma sample_store_fields:
  "tb_sessions (ds_db sample_store) =
     [\<lparr> se_id = 1, se_source = Live, se_started_at = 0, se_ended_at = None, se_label = None, se_content_sha = None,
        se_source_path = None, se_bytes = 0, se_lines = 0, se_records = 0 \<rparr>]"
  "tb_raw_lines (ds_db sample_store) = []" "tb_records (ds_db sample_store) = []" "tb_templates (ds_db sample_store) = []"
  "tb_occurrences (ds_db sample_store) = []" "tb_stages (ds_db sample_store) = []" "tb_boots (ds_db sample_store) = []"
  "tb_epoch_versions (ds_db sample_store) = []" "tb_annotations (ds_db sample_store) = []" "tb_baselines (ds_db sample_store) = []"
  "ds_stream_offset sample_store = 0" "ds_pruned_before sample_store = 0"
  by (simp_all add: sample_store_def open_inner_def empty_tables_def begin_session_def next_id_def Let_def)

lemma sample_store_ok: "store_ok sample_store"
  by (simp add: store_ok_def tables_ok_def stream_ok_def refs_ok_def keys_ok_def surplus_def booked_def attributed_def sample_store_fields)

lemma sample_has_session: "has_session (ds_db sample_store) 1"
  by (simp add: has_session_def sample_store_fields)

definition sample_lines :: "PendingLine list" where
  "sample_lines = map (\<lambda>t. \<lparr> pe_bytes = [t], pe_terminator = Lf, pe_truncated = False, pe_continuation = False,
     pe_ts_mono = 0, pe_ts_wall = 7, pe_stage_id = None \<rparr>) [65, 66]"

lemma sample_lines_consume: "list_all (\<lambda>l. PendingLine_consumed l > 0) sample_lines"
  by (simp add: sample_lines_def PendingLine_consumed_def)

theorem append_lines_extends_stream_witness:
  "\<exists>refs s'. append_lines sample_store 1 None sample_lines = (Inr refs, s') \<and> stored_stream (ds_db s') = [65, 10, 66, 10] \<and> ds_stream_offset s' = 4"
proof -
  have "stored_stream (ds_db sample_store) = []" by (simp add: stored_stream_def sample_store_fields)
  moreover have "concat (map pending_raw sample_lines) = [65, 10, 66, 10]" by (simp add: sample_lines_def pending_raw_def)
  ultimately show ?thesis
    using append_lines_extends_stream [OF sample_store_ok sample_has_session _ sample_lines_consume, of None]
    by (auto simp: sample_store_fields)
qed

lemma filter_key_unique: "distinct (map f xs) \<Longrightarrow> x \<in> set xs \<Longrightarrow> filter (\<lambda>y. f y = f x) xs = [x]"
proof (induction xs)
  case (Cons y ys)
  then have "filter (\<lambda>z. f z = f y) ys = []" by (auto simp: filter_empty_conv image_iff)
  moreover from Cons.prems have "x = y \<or> (x \<in> set ys \<and> f y \<noteq> f x)" by (auto simp: image_iff)
  ultimately show ?case using Cons by auto
qed simp

lemma find_key_unique: "distinct (map f xs) \<Longrightarrow> x \<in> set xs \<Longrightarrow> find (\<lambda>y. f y = f x) xs = Some x"
  by (induction xs) (auto simp: image_iff)

lemma distinct_boots: "keys_ok db \<Longrightarrow> distinct (map ep_id (tb_boots db))"
  using strict_sorted_iff by (auto simp: keys_ok_def)

lemma booked_row: "keys_ok db \<Longrightarrow> x \<in> set (tb_boots db) \<Longrightarrow> booked db (ep_id x) = ep_bytes x"
  by (simp add: booked_def filter_key_unique [OF distinct_boots])

lemma line_boot_known:
  assumes "refs_ok db" "l \<in> set (tb_raw_lines db)" "lr_boot_id l = Some e"
  shows "e \<in> boot_ids db"
proof -
  have "e \<in> somes (lr_boot_id ` set (tb_raw_lines db))" using assms(2,3) by (force simp: somes_def)
  moreover have "somes (lr_boot_id ` set (tb_raw_lines db)) \<subseteq> boot_ids db" using assms(1) by (simp add: refs_ok_def)
  ultimately show ?thesis by (rule rev_subsetD)
qed

lemma claim_lines_tables:
  "tb_raw_lines (ba_db (claim_lines b start n)) = give (claimed start n) n (tb_raw_lines (ba_db b))"
  "tb_boots (ba_db (claim_lines b start n)) = tb_boots (ba_db b)"
proof -
  have "give (claimed start n) n ls = ls" if "filter (claimed start n) ls = []" for ls
    using that by (auto simp: give_def update_where_def filter_empty_conv intro: map_idI)
  then show "tb_raw_lines (ba_db (claim_lines b start n)) = give (claimed start n) n (tb_raw_lines (ba_db b))"
    by (simp add: claim_lines_def Let_def give_def)
  show "tb_boots (ba_db (claim_lines b start n)) = tb_boots (ba_db b)" by (simp add: claim_lines_def Let_def)
qed

text \<open>What opening an epoch at a known offset does to the rows.\<close>

lemma open_boot_after_rows:
  assumes ok: "batch_ok b" and op: "open_boot_after b opened_by label at1 se prev (Some start) True = Inr (n, b')"
  shows "tb_raw_lines (ba_db b') = map (\<lambda>l. if start \<le> lr_stream_offset l then l\<lparr> lr_boot_id := Some n \<rparr> else l) (tb_raw_lines (ba_db b)) \<and>
    n \<notin> boot_ids (ba_db b) \<and> (\<exists>x\<in>set (tb_boots (ba_db b')). ep_id x = n \<and> ep_opened_offset x = start)"
proof -
  let ?ls = "tb_raw_lines (ba_db b)"
  obtain P b1 where b1: "b1 = b\<lparr> ba_db := (ba_db b)\<lparr> tb_boots := close_boots P at1 (tb_boots (ba_db b)) @
       [boot_of n (next_seq (ba_db b)) opened_by label at1 se start] \<rparr> \<rparr>"
    and n: "n = next_id (map ep_id (tb_boots (ba_db b)))" and b': "b' = (if start < ba_offset b then claim_lines b1 start n else b1)"
    by (rule open_boot_after_eq [OF op]) simp
  from n have fresh: "n \<notin> boot_ids (ba_db b)" using next_id_fresh [of n "map ep_id (tb_boots (ba_db b))"] by auto
  have noone: "lr_boot_id l \<noteq> Some n" if "l \<in> set ?ls" for l
    using line_boot_known [OF batch_refs [OF ok] that] fresh by auto
  have none: "\<not> start \<le> lr_stream_offset l" if "l \<in> set ?ls" "\<not> start < ba_offset b" for l
    using stream_ok_fresh_offset [OF batch_stream [OF ok] that(1)] that(2) by simp
  have given: "give (claimed start n) n ?ls = map (\<lambda>l. if start \<le> lr_stream_offset l then l\<lparr> lr_boot_id := Some n \<rparr> else l) ?ls"
    using noone by (auto simp: give_def update_where_def claimed_def)
  have "tb_raw_lines (ba_db b') = map (\<lambda>l. if start \<le> lr_stream_offset l then l\<lparr> lr_boot_id := Some n \<rparr> else l) ?ls"
    using none given by (auto simp: b' claim_lines_tables b1 intro!: map_idI [symmetric])
  moreover have "boot_of n (next_seq (ba_db b)) opened_by label at1 se start \<in> set (tb_boots (ba_db b'))"
    by (simp add: b' claim_lines_tables b1)
  ultimately show ?thesis using fresh by force
qed

text \<open>C4. A back-dated epoch owns exactly the lines from its offset on: \<^verbatim>\<open>open_boot_at\<close> with a stream
  mark returns a fresh epoch that starts at the mark, every line at or after the mark and no
  other is attributed to it, its byte count is the bytes of those lines, and every other
  epoch is debited by what it lost, so that the books still balance.\<close>

theorem backdated_epoch_owns_its_lines:
  assumes "store_ok s" and "opened_by \<in> set OPENED_BY" and "opt_all (has_session (ds_db s)) se"
  shows "\<exists>row s'. open_boot_at s opened_by label at1 se (Some start) = (Inr row, s') \<and>
    ep_id row \<notin> boot_ids (ds_db s) \<and> ep_opened_offset row = start \<and>
    tb_raw_lines (ds_db s') =
      map (\<lambda>l. if start \<le> lr_stream_offset l then l\<lparr> lr_boot_id := Some (ep_id row) \<rparr> else l) (tb_raw_lines (ds_db s)) \<and>
    ep_bytes row = int (total (\<lambda>l. start \<le> lr_stream_offset l) (tb_raw_lines (ds_db s))) \<and>
    store_ok s' \<and> (\<forall>e. surplus (ds_db s') e = surplus (ds_db s) e)"
proof -
  let ?b = "plain_batch s"
  have ok: "batch_ok ?b" by (rule plain_batch_ok [OF assms(1)])
  have db: "ba_db ?b = ds_db s" "ba_offset ?b = ds_stream_offset s" by (simp_all add: plain_batch_def)
  obtain n b' where op: "open_boot_after ?b opened_by label at1 se None (Some start) True = Inr (n, b')"
    using open_boot_after_total [of opened_by ?b se label at1 None "Some start" True] assms(2,3) db by auto
  let ?s = "finish_batch s b'"
  note k = open_boot_after_keeps [OF ok op, unfolded keeps_def]
  note rows = open_boot_after_rows [OF ok op, unfolded db]
  have low: "ds_pruned_before s \<le> lr_stream_offset l" if "l \<in> set (tb_raw_lines (ba_db b'))" for l
    using that rows assms(1) by (auto simp: store_ok_def split: if_splits)
  have fin: "store_ok ?s" "\<And>e. surplus (ds_db ?s) e = surplus (ds_db s) e"
    using finish_batch_ok [OF _ _ assms(1), of b'] k low by (simp_all add: plain_balance db)
  then have keys: "keys_ok (ds_db ?s)" by (simp add: store_ok_def tables_ok_def)
  from rows obtain x where x: "x \<in> set (tb_boots (ba_db b'))" "ep_id x = n" "ep_opened_offset x = start" by auto
  have wf: "bt_wf (ba_boot_bytes b')" using k by (simp add: batch_ok_def)
  have "\<exists>row\<in>set (tb_boots (ds_db ?s)). ep_id row = n \<and> ep_opened_offset row = start"
    using x by (auto simp: finish_batch_db Batch_commit_def Let_def commit_boots_map [OF wf] split: option.split intro!: bexI [of _ x])
  then obtain row where row: "row \<in> set (tb_boots (ds_db ?s))" "ep_id row = n" "ep_opened_offset row = start" by blast
  have found: "boot ?s n = Inr row"
    using find_key_unique [OF distinct_boots [OF keys] row(1)] row(2) by (simp add: boot_def)
  have unowned: "lr_boot_id l \<noteq> Some n" if "l \<in> set (tb_raw_lines (ds_db s))" for l
    using line_boot_known [OF batch_refs [OF ok, unfolded db] that] rows by auto
  have zero: "surplus (ds_db s) n = 0"
  proof -
    have "filter (\<lambda>x. ep_id x = n) (tb_boots (ds_db s)) = []" "filter (\<lambda>l. lr_boot_id l = Some n) (tb_raw_lines (ds_db s)) = []"
      using rows unowned by (force simp: filter_empty_conv image_iff)+
    then show ?thesis by (simp add: surplus_def booked_def attributed_def)
  qed
  have att: "attributed (ds_db ?s) n = total (\<lambda>l. start \<le> lr_stream_offset l) (tb_raw_lines (ds_db s))"
  proof -
    have "map LineRow_consumed (filter (\<lambda>l. lr_boot_id l = Some n)
        (map (\<lambda>l. if start \<le> lr_stream_offset l then l\<lparr> lr_boot_id := Some n \<rparr> else l) ls)) =
        map LineRow_consumed (filter (\<lambda>l. start \<le> lr_stream_offset l) ls)" if "set ls \<subseteq> set (tb_raw_lines (ds_db s))" for ls
      using that unowned by (induction ls) auto
    with rows show ?thesis by (simp add: attributed_def total_def finish_batch_db commit_lines)
  qed
  have bytes: "ep_bytes row = int (total (\<lambda>l. start \<le> lr_stream_offset l) (tb_raw_lines (ds_db s)))"
    using booked_row [OF keys row(1)] row(2) fin(2) [of n] zero att by (simp add: surplus_def)
  have "open_boot_at s opened_by label at1 se (Some start) = (Inr row, ?s)"
    by (simp add: open_boot_at_def in_batch_def begin_batch_ok [OF assms(1)] op found)
  with rows row fin bytes show ?thesis
    by (intro exI [of _ row] exI [of _ ?s]) (simp add: finish_batch_db commit_lines)
qed

theorem backdated_epoch_owns_its_lines_witness:
  "\<exists>row s'. open_boot_at sample_store ''power'' None 5 (Some 1) (Some 3) = (Inr row, s') \<and> ep_opened_offset row = 3 \<and> store_ok s'"
  using backdated_epoch_owns_its_lines [OF sample_store_ok, of "''power''" "Some 1" None 5 3] sample_has_session
  by (auto simp: OPENED_BY_def)

end
