(* ===== verification/Store_Retention.thy ===== *)
theory Store_Retention
  imports Store_Epochs
begin

text \<open>
  Reading and ageing out the raw stream: paging by cursor, pruning, the size cap, and what the
  retention tool protects.
\<close>

section \<open>Reading by offset\<close>

lemma lines_after_eq:
  assumes "stream_ok (ds_db s) off"
  shows "lines_after s n k = take k (filter (\<lambda>l. n \<le> lr_stream_offset l) (tb_raw_lines (ds_db s)))"
proof -
  from assms obtain a where "contiguous a (tb_raw_lines (ds_db s)) off" by (auto simp: stream_ok_def)
  then show ?thesis by (simp add: lines_after_def order_by_filter contiguous_offsets)
qed

lemma store_stream: "store_ok s \<Longrightarrow> stream_ok (ds_db s) (ds_stream_offset s)"
  by (simp add: store_ok_def tables_ok_def)

lemma stream_offsets: "stream_ok db off \<Longrightarrow> sorted_wrt (<) (map lr_stream_offset (tb_raw_lines db))"
  by (auto simp: stream_ok_def contiguous_offsets)

lemma contiguous_resume:
  assumes "contiguous a (xs @ ys) b" and "xs \<noteq> []"
  shows "filter (\<lambda>l. end_offset (last xs) \<le> lr_stream_offset l) (xs @ ys) = ys"
proof -
  from assms obtain zs x where xs: "xs = zs @ [x]" by (metis rev_exhaust)
  with assms(1) obtain c where c: "contiguous a zs c" "contiguous c [x] (end_offset x)" "contiguous (end_offset x) ys b"
    by (auto simp: contiguous_append)
  then have "LineRow_consumed x > 0" "lr_stream_offset x = c" by auto
  moreover have "\<forall>l\<in>set zs. end_offset l \<le> c \<and> LineRow_consumed l > 0" "\<forall>l\<in>set ys. end_offset x \<le> lr_stream_offset l"
    using contiguous_bounds [OF c(1)] contiguous_consumes [OF c(1)] contiguous_bounds [OF c(3)] by blast+
  ultimately show ?thesis
    by (auto simp: xs filter_empty_conv filter_id_conv end_offset_eq)
qed

lemma filter_later:
  "n \<le> m \<Longrightarrow> filter (\<lambda>l. m \<le> lr_stream_offset l) (filter (\<lambda>l. n \<le> lr_stream_offset l) ls) = filter (\<lambda>l. m \<le> lr_stream_offset l) ls"
  by (induction ls) auto

text \<open>Reading by cursor neither skips nor repeats a line: whatever page a reader gets from an
  offset, continuing from the end of its last line reads on exactly where a longer page from
  the original offset would have gone.\<close>

theorem paging_resumes:
  assumes "store_ok s" and "lines_after s n k \<noteq> []"
  shows "lines_after s n k @ lines_after s (end_offset (last (lines_after s n k))) m =
    lines_after s n (length (lines_after s n k) + m)"
proof -
  let ?ls = "tb_raw_lines (ds_db s)"
  let ?from = "filter (\<lambda>l. n \<le> lr_stream_offset l) ?ls"
  let ?page = "take k ?from"
  from assms(1) obtain a where c: "contiguous a ?ls (ds_stream_offset s)" by (auto simp: store_ok_def tables_ok_def stream_ok_def)
  obtain c' where "contiguous c' ?from (ds_stream_offset s)" using contiguous_from [OF c, of n] by (auto simp: not_less)
  then have resume: "filter (\<lambda>l. end_offset (last ?page) \<le> lr_stream_offset l) ?from = drop k ?from"
    using contiguous_resume [of c' ?page "drop k ?from"] assms(2) by (simp add: lines_after_eq [OF store_stream [OF assms(1)]])
  have "n \<le> end_offset (last ?page)"
  proof -
    have "last ?page \<in> set ?from"
      using assms(2) in_set_takeD [of "last ?page" k ?from] by (simp add: lines_after_eq [OF store_stream [OF assms(1)]])
    then show ?thesis by (simp add: end_offset_eq)
  qed
  then have "filter (\<lambda>l. end_offset (last ?page) \<le> lr_stream_offset l) ?ls = drop k ?from"
    using resume filter_later by metis
  moreover have "take k ?from @ take m (drop k ?from) = take (length (take k ?from) + m) ?from"
    by (cases "k \<le> length ?from") (simp_all add: take_add min_def)
  ultimately show ?thesis by (simp add: lines_after_eq [OF store_stream [OF assms(1)]])
qed

section \<open>Pruning\<close>

text \<open>Ids and offsets ascend together, so the rows below an offset are the rows up to an id.\<close>

lemma doomed_prefix:
  assumes "stream_ok db off" and "filter (\<lambda>l. lr_stream_offset l < n) (tb_raw_lines db) \<noteq> []"
  shows "(\<exists>l\<in>set (tb_raw_lines db). \<not> lr_stream_offset l < n \<and> lr_id l = i) \<longleftrightarrow>
    i \<in> line_ids db \<and> \<not> i \<le> lr_id (last (filter (\<lambda>l. lr_stream_offset l < n) (tb_raw_lines db)))"
proof -
  let ?dead = "filter (\<lambda>l. lr_stream_offset l < n) (tb_raw_lines db)" and ?live = "filter (\<lambda>l. \<not> lr_stream_offset l < n) (tb_raw_lines db)"
  have split: "tb_raw_lines db = ?dead @ ?live" by (rule filter_from_suffix [OF stream_offsets [OF assms(1)]])
  obtain xs x where xs: "?dead = xs @ [x]" using assms(2) by (metis rev_exhaust)
  have all: "tb_raw_lines db = xs @ x # ?live" using split xs by simp
  have srt: "sorted_wrt (<) (map lr_id (xs @ x # ?live))" using assms(1) all by (simp add: stream_ok_def)
  then have ids: "\<forall>l\<in>set (xs @ [x]). lr_id l \<le> lr_id x" "\<forall>l\<in>set ?live. lr_id x < lr_id l"
    by (auto simp: sorted_wrt_append less_imp_le simp del: set_filter)
  show ?thesis
  proof
    assume "\<exists>l\<in>set (tb_raw_lines db). \<not> lr_stream_offset l < n \<and> lr_id l = i"
    then obtain l where "l \<in> set ?live" "l \<in> set (tb_raw_lines db)" "lr_id l = i" by auto
    with ids(2) show "i \<in> line_ids db \<and> \<not> i \<le> lr_id (last ?dead)" unfolding xs by (metis image_eqI last_snoc leD)
  next
    assume "i \<in> line_ids db \<and> \<not> i \<le> lr_id (last ?dead)"
    then obtain l where l: "l \<in> set (tb_raw_lines db)" "lr_id l = i" "\<not> lr_id l \<le> lr_id x" unfolding xs by auto
    with ids(1) have "l \<notin> set (xs @ [x])" by blast
    with l(1) have "l \<in> set ?live" by (subst (asm) all) (simp del: set_filter)
    with l show "\<exists>l\<in>set (tb_raw_lines db). \<not> lr_stream_offset l < n \<and> lr_id l = i" by auto
  qed
qed

lemma doomed_lines_eq: "stream_ok (ds_db s) off \<Longrightarrow> doomed_lines s n = filter (\<lambda>l. lr_stream_offset l < n) (tb_raw_lines (ds_db s))"
  by (simp add: doomed_lines_def lines_by_id_eq)

text \<open>The tables after a prune that found something to remove.\<close>

lemma prune_tables_ok:
  assumes ok: "tables_ok db off" and dead: "filter (\<lambda>l. lr_stream_offset l < n) (tb_raw_lines db) \<noteq> []"
    and lst: "lst = lr_id (last (filter (\<lambda>l. lr_stream_offset l < n) (tb_raw_lines db)))" and ann: "\<not> annotated db lst"
  shows "tables_ok (prune_tables db n lst) off"
proof -
  have stream: "stream_ok db off" and refs: "refs_ok db" and keys: "keys_ok db" using ok by (simp_all add: tables_ok_def)
  let ?db = "prune_tables db n lst"
  let ?live = "filter (\<lambda>l. \<not> lr_stream_offset l < n) (tb_raw_lines db)"
  have tb: "tb_raw_lines ?db = ?live" "tb_sessions ?db = tb_sessions db" "tb_boots ?db = tb_boots db" "tb_templates ?db = tb_templates db"
      "tb_occurrences ?db = tb_occurrences db" "tb_epoch_versions ?db = tb_epoch_versions db" "tb_annotations ?db = tb_annotations db"
      "tb_baselines ?db = tb_baselines db"
      "tb_records ?db = filter (\<lambda>r. \<not> (rr_first_line_id r \<le> lst \<or> rr_last_line_id r \<le> lst)) (tb_records db)"
    by (simp_all add: prune_tables_def)
  have alive: "i \<in> line_ids ?db" if "i \<in> line_ids db" "\<not> i \<le> lst" for i
    using doomed_prefix [OF stream dead, of i, folded lst] that unfolding tb by (auto simp: image_iff)
  have "stream_ok ?db off"
    using stream contiguous_from sorted_filter_key [of lr_id "tb_raw_lines db"] unfolding stream_ok_def tb by blast
  moreover have "keys_ok ?db"
  proof -
    have "map sg_id (tb_stages ?db) = map sg_id (tb_stages db)"
      unfolding prune_tables_def by (simp add: map_update_where)
    with keys sorted_filter_key [of rr_id "tb_records db"] show ?thesis by (simp add: keys_ok_def tb)
  qed
  moreover have "refs_ok ?db"
  proof -
    have stg: "sg_session_id ` set (tb_stages ?db) = sg_session_id ` set (tb_stages db)"
      unfolding prune_tables_def by (simp add: image_update_where)
    have ban: "somes (sg_banner_line_id ` set (tb_stages ?db)) \<subseteq> line_ids ?db"
    proof
      fix i assume "i \<in> somes (sg_banner_line_id ` set (tb_stages ?db))"
      then have "i \<in> somes (sg_banner_line_id ` set (tb_stages db))" "\<not> i \<le> lst"
        by (auto simp: prune_tables_def set_update_where somes_def image_iff split: if_splits option.splits)
      with refs show "i \<in> line_ids ?db" by (intro alive) (auto simp: refs_ok_def)
    qed
    have col: "rr_first_line_id ` set (tb_records db) \<subseteq> line_ids db" "rr_last_line_id ` set (tb_records db) \<subseteq> line_ids db"
      using refs by (simp_all add: refs_ok_def)
    have "rr_first_line_id r \<in> line_ids ?db \<and> rr_last_line_id r \<in> line_ids ?db" if "r \<in> set (tb_records ?db)" for r
      using that col unfolding tb(9) by (intro conjI alive) auto
    then have rec: "rr_first_line_id ` set (tb_records ?db) \<subseteq> line_ids ?db" "rr_last_line_id ` set (tb_records ?db) \<subseteq> line_ids ?db"
      by blast+
    have sub: "set (tb_records ?db) \<subseteq> set (tb_records db)" "set (tb_raw_lines ?db) \<subseteq> set (tb_raw_lines db)" by (auto simp: tb)
    have an: "an_record_id ` set (tb_annotations db) \<subseteq> record_ids ?db"
    proof
      fix i assume i: "i \<in> an_record_id ` set (tb_annotations db)"
      with refs obtain r where "r \<in> set (tb_records db)" "rr_id r = i" by (auto simp: refs_ok_def)
      with i ann show "i \<in> record_ids ?db" by (force simp: annotated_def list_ex_iff tb)
    qed
    have cols: "lr_session_id ` set (tb_raw_lines ?db) \<subseteq> lr_session_id ` set (tb_raw_lines db)"
        "somes (lr_boot_id ` set (tb_raw_lines ?db)) \<subseteq> somes (lr_boot_id ` set (tb_raw_lines db))"
        "rr_session_id ` set (tb_records ?db) \<subseteq> rr_session_id ` set (tb_records db)"
        "somes (rr_template_id ` set (tb_records ?db)) \<subseteq> somes (rr_template_id ` set (tb_records db))"
      using sub by (auto intro!: somes_mono)
    then show ?thesis
      using refs stg ban rec an unfolding refs_ok_def tb(2-8) by (elim conjE) (intro conjI; (assumption | (rule order_trans, assumption, assumption) | simp))
  qed
  ultimately show ?thesis by (simp add: tables_ok_def)
qed

lemma total_mono: "(\<And>l. P l \<Longrightarrow> Q l) \<Longrightarrow> total P ls \<le> total Q ls"
  by (induction ls) (auto simp: total_def trans_le_add2)

text \<open>A prune within the stream, when no annotated record is in its way.\<close>

lemma prune_before_eq:
  assumes ok: "store_ok s" and n: "ds_pruned_before s < n" "n \<le> ds_stream_offset s"
    and ann: "\<And>l. l \<in> set (doomed_lines s n) \<Longrightarrow> \<not> annotated (ds_db s) (lr_id l)"
  shows "\<exists>s'. prune_before s n = (Inr (length (doomed_lines s n)), s') \<and> store_ok s' \<and> ds_pruned_before s' = n \<and>
    tb_raw_lines (ds_db s') = filter (\<lambda>l. n \<le> lr_stream_offset l) (tb_raw_lines (ds_db s)) \<and>
    ds_stream_offset s' = ds_stream_offset s \<and> ds_cursor_token s' = ds_cursor_token s \<and>
    tb_boots (ds_db s') = tb_boots (ds_db s) \<and> tb_templates (ds_db s') = tb_templates (ds_db s)"
proof -
  let ?db = "ds_db s" and ?dead = "filter (\<lambda>l. lr_stream_offset l < n) (tb_raw_lines (ds_db s))"
  have stream: "stream_ok ?db (ds_stream_offset s)" and tables: "tables_ok ?db (ds_stream_offset s)"
    using ok by (simp_all add: store_ok_def tables_ok_def)
  note dead = doomed_lines_eq [OF stream, of n]
  let ?lst = "lr_id (last ?dead)"
  define db' where "db' = (if ?dead = [] then ?db else prune_tables ?db n ?lst)"
  have free: "\<not> annotated ?db ?lst" if "?dead \<noteq> []"
    by (rule ann) (use last_in_set [OF that] dead in metis)
  have tok: "tables_ok db' (ds_stream_offset s)"
    using tables prune_tables_ok [OF tables _ refl, of n] free by (simp add: db'_def)
  have lines: "tb_raw_lines db' = filter (\<lambda>l. n \<le> lr_stream_offset l) (tb_raw_lines ?db)"
    by (auto simp: db'_def prune_tables_def filter_empty_conv not_less filter_id_conv)
  have boots: "tb_boots db' = tb_boots ?db" "tb_templates db' = tb_templates ?db" by (simp_all add: db'_def prune_tables_def)
  have tok': "tables_ok (db'\<lparr> tb_pruned_before := n \<rparr>) (ds_stream_offset s)"
    using tok by (simp add: tables_ok_def stream_ok_def refs_ok_def keys_ok_def)
  have "attributed (db'\<lparr> tb_pruned_before := n \<rparr>) e \<le> attributed ?db e" for e
    by (simp add: attributed_total lines total_filter) (rule total_mono, simp)
  then have "surplus ?db e \<le> surplus (db'\<lparr> tb_pruned_before := n \<rparr>) e" for e
    by (simp add: surplus_def booked_def boots)
  then have pos: "0 \<le> surplus (db'\<lparr> tb_pruned_before := n \<rparr>) e" for e
    using ok order_trans unfolding store_ok_def by blast
  let ?s = "s\<lparr> ds_db := db'\<lparr> tb_pruned_before := n \<rparr>, ds_pruned_before := n \<rparr>"
  have "prune_before s n = (Inr (length (doomed_lines s n)), ?s)"
    using n(1) free by (auto simp: prune_before_def dead Let_def db'_def last_map)
  moreover have "store_ok ?s" using tok' pos n(2) by (simp add: store_ok_def lines)
  ultimately show ?thesis using lines boots by auto
qed

text \<open>A prune that would take the lines of an annotated record fails on the foreign key and rolls back.\<close>

lemma sorted_last: "sorted xs \<Longrightarrow> x \<in> set xs \<Longrightarrow> x \<le> last xs"
  by (induction xs) auto

lemma annotated_later: "annotated db i \<Longrightarrow> i \<le> j \<Longrightarrow> annotated db j"
  unfolding annotated_def list_ex_iff using order_trans by blast

lemma prune_before_blocked:
  assumes ok: "store_ok s" and n: "ds_pruned_before s < n" and l: "l \<in> set (doomed_lines s n)" "annotated (ds_db s) (lr_id l)"
  shows "prune_before s n = (Inl Internal, s)"
proof -
  let ?ids = "map lr_id (doomed_lines s n)"
  have "sorted_wrt (<) ?ids"
    using store_stream [OF ok] by (simp add: doomed_lines_eq [OF store_stream [OF ok]] stream_ok_def sorted_wrt_map sorted_wrt_filter)
  then have "sorted ?ids" by (rule strict_sorted_imp_sorted)
  then have "lr_id l \<le> last ?ids" by (rule sorted_last) (simp add: l(1))
  with l(2) have "annotated (ds_db s) (last ?ids)" by (rule annotated_later)
  moreover have "?ids \<noteq> []" using l(1) by auto
  ultimately show ?thesis using n by (simp add: prune_before_def Let_def)
qed

text \<open>C12. A prune forgets exactly the past, or nothing: pruning within the stream removes the lines
  below the offset and reports their number, the store stays consistent, templates and epochs are
  untouched, a cursor below the offset expires, and a cursor at or above it still resolves
  and reads exactly the lines it read before - unless a record that starts or ends at or before one
  of these lines carries an annotation: then the prune fails with an internal error and leaves the
  store as it was.\<close>

theorem prune_forgets_exactly_the_past:
  assumes "store_ok s" and "ds_pruned_before s < n" and "n \<le> ds_stream_offset s" and "ds_stream_offset s < 2 ^ 64"
  shows "if \<exists>l\<in>set (doomed_lines s n). annotated (ds_db s) (lr_id l) then prune_before s n = (Inl Internal, s)
    else \<exists>s'. prune_before s n = (Inr (length (filter (\<lambda>l. lr_stream_offset l < n) (tb_raw_lines (ds_db s)))), s') \<and> store_ok s' \<and>
    tb_templates (ds_db s') = tb_templates (ds_db s) \<and> tb_boots (ds_db s') = tb_boots (ds_db s) \<and>
    (\<forall>m k. n \<le> m \<longrightarrow> lines_after s' m k = lines_after s m k) \<and>
    (\<forall>m \<le> ds_stream_offset s. resolve_cursor s' (cursor_at s m) = (if m < n then Inl CursorExpired else Inr m))"
proof (cases "\<exists>l\<in>set (doomed_lines s n). annotated (ds_db s) (lr_id l)")
  case True
  then show ?thesis using prune_before_blocked [OF assms(1,2)] by auto
next
  case False
  then have free: "\<not> annotated (ds_db s) (lr_id l)" if "l \<in> set (doomed_lines s n)" for l using that by blast
  obtain s' where s': "prune_before s n = (Inr (length (doomed_lines s n)), s')" "store_ok s'" "ds_pruned_before s' = n"
      "tb_raw_lines (ds_db s') = filter (\<lambda>l. n \<le> lr_stream_offset l) (tb_raw_lines (ds_db s))"
      "ds_cursor_token s' = ds_cursor_token s" "tb_boots (ds_db s') = tb_boots (ds_db s)" "tb_templates (ds_db s') = tb_templates (ds_db s)"
    using prune_before_eq [OF assms(1-3) free] by blast
  have "lines_after s' m k = lines_after s m k" if "n \<le> m" for m k
    by (simp only: lines_after_eq [OF store_stream [OF s'(2)]] lines_after_eq [OF store_stream [OF assms(1)]] s'(4) filter_later [OF that])
  moreover have "resolve_cursor s' (cursor_at s m) = (if m < n then Inl CursorExpired else Inr m)" if "m \<le> ds_stream_offset s" for m
    using that assms(4) by (simp add: resolve_cursor_def cursor_at_def Cursor_new_def s'(3,5) unat_of_nat)
  ultimately have "prune_before s n = (Inr (length (filter (\<lambda>l. lr_stream_offset l < n) (tb_raw_lines (ds_db s)))), s') \<and> store_ok s' \<and>
    tb_templates (ds_db s') = tb_templates (ds_db s) \<and> tb_boots (ds_db s') = tb_boots (ds_db s) \<and>
    (\<forall>m k. n \<le> m \<longrightarrow> lines_after s' m k = lines_after s m k) \<and>
    (\<forall>m \<le> ds_stream_offset s. resolve_cursor s' (cursor_at s m) = (if m < n then Inl CursorExpired else Inr m))"
    using s' by (simp add: doomed_lines_eq [OF store_stream [OF assms(1)]])
  then show ?thesis by (simp only: False if_False) blast
qed

section \<open>The size cap\<close>

definition content :: "LineRow list \<Rightarrow> nat" where
  "content ls = sum_list (map (\<lambda>l. length (lr_bytes l)) ls)"

lemma content_Cons [simp]: "content [] = 0" "content (l # ls) = length (lr_bytes l) + content ls"
  by (simp_all add: content_def)

lemma raw_bytes_content: "raw_bytes s = content (tb_raw_lines (ds_db s))"
  by (simp add: raw_bytes_def content_def)

lemma cut_for_bound:
  assumes "acc < excess" and "excess \<le> acc + content ls" and "contiguous a ls b"
  shows "a < cut_for excess acc p ls \<and> cut_for excess acc p ls \<le> b \<and>
    excess \<le> acc + content (filter (\<lambda>l. lr_stream_offset l < cut_for excess acc p ls) ls)"
  using assms
proof (induction ls arbitrary: acc p a)
  case (Cons l ls)
  let ?len = "length (lr_bytes l)"
  have l: "lr_stream_offset l = a" "contiguous (end_offset l) ls b" "a < end_offset l" "a + ?len \<le> end_offset l"
    using Cons.prems(3) by (auto simp: end_offset_eq LineRow_consumed_def)
  have b: "end_offset l \<le> b" using contiguous_sum [OF l(2)] by simp
  show ?case
  proof (cases "excess \<le> acc + ?len")
    case True
    then have "0 < ?len" using Cons.prems(1) by linarith
    with True l b show ?thesis by (simp add: Let_def)
  next
    case False
    have "excess \<le> acc + ?len + content ls" using Cons.prems(2) by simp
    with Cons.IH [OF _ this l(2), of "a + ?len"] False l show ?thesis by (simp add: Let_def)
  qed
qed simp

text \<open>The size cap holds: unless an annotated record is in the way, \<^verbatim>\<open>enforce_size_cap\<close> succeeds,
  leaves a consistent store with at most the given number of content bytes, and what it keeps
  is the newest part of the stream.\<close>

theorem size_cap_holds:
  assumes "store_ok s" and "tb_annotations (ds_db s) = []"
  shows "\<exists>n s'. enforce_size_cap s cap = (Inr n, s') \<and> store_ok s' \<and> raw_bytes s' \<le> cap \<and>
    (\<exists>m. tb_raw_lines (ds_db s') = filter (\<lambda>l. m \<le> lr_stream_offset l) (tb_raw_lines (ds_db s)))"
proof (cases "raw_bytes s \<le> cap")
  case True
  with assms(1) show ?thesis
    by (intro exI [of _ 0] exI [of _ s]) (auto simp: enforce_size_cap_def Let_def intro!: exI [of _ 0] filter_True [symmetric])
next
  case False
  let ?ls = "tb_raw_lines (ds_db s)"
  obtain a where c: "contiguous a ?ls (ds_stream_offset s)" using store_stream [OF assms(1)] by (auto simp: stream_ok_def)
  define m where "m = cut_for (raw_bytes s - cap) 0 (ds_pruned_before s) ?ls"
  have m: "a < m" "m \<le> ds_stream_offset s" "raw_bytes s - cap \<le> content (filter (\<lambda>l. lr_stream_offset l < m) ?ls)"
    using cut_for_bound [OF _ _ c, of 0 "raw_bytes s - cap" "ds_pruned_before s"] False by (simp_all add: m_def raw_bytes_content)
  have ne: "?ls \<noteq> []" using False by (auto simp: raw_bytes_content)
  then have "ds_pruned_before s \<le> a" using c assms(1) by (cases ?ls) (auto simp: store_ok_def)
  with m(1) have low: "ds_pruned_before s < m" by simp
  have free: "\<not> annotated (ds_db s) i" for i using assms(2) by (simp add: annotated_def list_ex_iff)
  obtain s' where s': "prune_before s m = (Inr (length (doomed_lines s m)), s')" "store_ok s'"
      "tb_raw_lines (ds_db s') = filter (\<lambda>l. m \<le> lr_stream_offset l) ?ls"
    using prune_before_eq [OF assms(1) low m(2) free] by blast
  have "content (filter (\<lambda>l. lr_stream_offset l < m) ls) + content (filter (\<lambda>l. m \<le> lr_stream_offset l) ls) = content ls" for ls
    by (induction ls) auto
  from this [of ?ls] m(3) False have "raw_bytes s' \<le> cap" by (simp add: raw_bytes_content s'(3))
  moreover have "order_by lr_stream_offset ?ls = ?ls" using stream_offsets [OF store_stream [OF assms(1)]] by (rule order_by_strict)
  ultimately show ?thesis
    using False s' by (auto simp: enforce_size_cap_def Let_def m_def)
qed

section \<open>A small store and the retention tool\<close>

definition sample_filled :: DeviceStore where
  "sample_filled = snd (append_lines (snd (open_boot sample_store ''power'' None 5 (Some 1))) 1 (Some 1) sample_lines)"

lemma sample_filled_fields:
  "tb_sessions (ds_db sample_filled) =
     [\<lparr> se_id = 1, se_source = Live, se_started_at = 0, se_ended_at = None, se_label = None, se_content_sha = None,
        se_source_path = None, se_bytes = 4, se_lines = 2, se_records = 0 \<rparr>]"
  "tb_raw_lines (ds_db sample_filled) =
     [\<lparr> lr_id = 1, lr_session_id = 1, lr_boot_id = Some 1, lr_stream_offset = 0, lr_ts_mono = 0, lr_ts_wall = 7, lr_stage_id = None,
        lr_bytes = [65], lr_terminator = Lf, lr_truncated = False, lr_continuation = False \<rparr>,
      \<lparr> lr_id = 2, lr_session_id = 1, lr_boot_id = Some 1, lr_stream_offset = 2, lr_ts_mono = 0, lr_ts_wall = 7, lr_stage_id = None,
        lr_bytes = [66], lr_terminator = Lf, lr_truncated = False, lr_continuation = False \<rparr>]"
  "tb_records (ds_db sample_filled) = []" "tb_templates (ds_db sample_filled) = []"
  "tb_occurrences (ds_db sample_filled) = []" "tb_stages (ds_db sample_filled) = []"
  "tb_boots (ds_db sample_filled) = [(boot_of 1 1 ''power'' None 5 (Some 1) 0)\<lparr> ep_bytes := 4 \<rparr>]"
  "tb_epoch_versions (ds_db sample_filled) = []" "tb_annotations (ds_db sample_filled) = []" "tb_baselines (ds_db sample_filled) = []"
  "ds_stream_offset sample_filled = 4" "ds_pruned_before sample_filled = 0"
  by code_simp+

lemma sample_filled_ok: "store_ok sample_filled"
  by (simp add: store_ok_def tables_ok_def stream_ok_def refs_ok_def keys_ok_def surplus_def booked_def attributed_def sample_filled_fields
      LineRow_consumed_def end_offset_def)

theorem paging_resumes_witness:
  "lines_after sample_filled 0 1 @ lines_after sample_filled 2 5 = lines_after sample_filled 0 6 \<and> length (lines_after sample_filled 0 6) = 2"
proof -
  have p: "lines_after sample_filled 0 1 = [hd (tb_raw_lines (ds_db sample_filled))]"
    by (simp add: lines_after_def order_by_def sample_filled_fields)
  have "length (lines_after sample_filled 0 6) = 2" by (simp add: lines_after_def order_by_def sample_filled_fields)
  moreover have "end_offset (hd (tb_raw_lines (ds_db sample_filled))) = 2" by (simp add: sample_filled_fields end_offset_def)
  ultimately show ?thesis using paging_resumes [OF sample_filled_ok, of 0 1 5] by (simp only: p) simp
qed

theorem prune_forgets_exactly_the_past_witness:
  "\<exists>s'. prune_before sample_filled 1 = (Inr 1, s') \<and> lines_after s' 2 9 = lines_after sample_filled 2 9 \<and>
     resolve_cursor s' (cursor_at sample_filled 0) = Inl CursorExpired"
  using prune_forgets_exactly_the_past [OF sample_filled_ok, of 1]
  by (auto simp: sample_filled_fields annotated_def)

theorem size_cap_holds_witness: "\<exists>n s'. enforce_size_cap sample_filled 1 = (Inr n, s') \<and> raw_bytes s' \<le> 1"
  using size_cap_holds [OF sample_filled_ok, of 1] by (auto simp: sample_filled_fields)

lemma prune_before_lines:
  "tb_raw_lines (ds_db (snd (prune_before s n))) = tb_raw_lines (ds_db s) \<or>
   tb_raw_lines (ds_db (snd (prune_before s n))) = filter (\<lambda>l. \<not> lr_stream_offset l < n) (tb_raw_lines (ds_db s))"
  by (simp add: prune_before_def Let_def prune_tables_def)

text \<open>The age rule of the \<^verbatim>\<open>prune\<close> tool never touches a blessed epoch: with baseline protection on
  and no size rule in force, every line at or after the start of the oldest baseline epoch is
  still there afterwards, whatever the cutoff, and whether or not the prune succeeds.\<close>

theorem age_rule_protects_baselines:
  assumes "protected_offset s = Some p" and "p \<le> lr_stream_offset l" and "l \<in> set (tb_raw_lines (ds_db s))"
  shows "l \<in> set (tb_raw_lines (ds_db (snd (prune_tool s before_ts None keep_days 0 True now dry))))"
proof -
  have "l \<in> set (tb_raw_lines (ds_db (snd (prune_before s n))))" if "n \<le> p" for n
    using prune_before_lines [of s n] assms(2,3) that by auto
  then show ?thesis
    using assms(1,3) by (auto simp: prune_tool_def Let_def split_beta split: option.splits sum.splits)
qed

theorem age_rule_protects_baselines_witness:
  "\<exists>l\<in>set (tb_raw_lines (ds_db (snd (prune_tool (snd (set_baseline sample_filled ''good'' 1 None 9)) (Some 7) None 0 0 True 200 False)))).
     lr_stream_offset l = 2"
proof -
  let ?s = "snd (set_baseline sample_filled ''good'' 1 None 9)"
  have "protected_offset ?s = Some 0" by code_simp
  moreover have "tb_raw_lines (ds_db ?s) = tb_raw_lines (ds_db sample_filled)"
    by (simp add: set_baseline_def Let_def split: sum.split)
  ultimately have "tb_raw_lines (ds_db sample_filled) ! 1 \<in> set (tb_raw_lines (ds_db (snd (prune_tool ?s (Some 7) None 0 0 True 200 False))))"
    by (intro age_rule_protects_baselines [where p = 0]) (simp_all add: sample_filled_fields)
  then show ?thesis by (rule bexI [rotated]) (simp add: sample_filled_fields)
qed

text \<open>The size rule knows no protection: the same baseline loses its lines to \<^verbatim>\<open>keep_bytes\<close>.\<close>

lemma size_rule_ignores_baselines:
  "let s = snd (set_baseline sample_filled ''good'' 1 None 9)
   in protected_offset s = Some 0 \<and> map lr_stream_offset (tb_raw_lines (ds_db (snd (prune_tool s None (Some 1) 0 0 True 200 False)))) = [2]"
  by code_simp

text \<open>A store whose newest line is older than the cutoff loses nothing at all to the age rule: no line
  is at or after the cutoff, so there is no offset to prune to.\<close>

lemma age_rule_spares_an_idle_store:
  "list_all (\<lambda>l. lr_ts_wall l < 100) (tb_raw_lines (ds_db sample_filled)) \<and>
   prune_tool sample_filled (Some 100) None 0 0 True 200 False = (Inr 0, sample_filled)"
  by (simp add: sample_filled_fields prune_tool_def offset_at_ts_def min_of_def Let_def)

text \<open>An annotated record blocks every prune that would take its lines: the foreign key fails and
  nothing is removed.\<close>

definition sample_record :: PendingRecord where
  "sample_record = \<lparr> pr_session_id = 1, pr_boot_id = Some 1, pr_first_line_id = 1, pr_last_line_id = 1, pr_line_count = 1,
     pr_stage_id = None, pr_profile = ''raw'', pr_severity = Info, pr_kind = Line_kind, pr_template_id = None, pr_truncated = False,
     pr_fields = JNull, pr_text = ''A'' \<rparr>"

lemma annotated_record_blocks_prune:
  "let s = snd (annotate (snd (append_record sample_filled sample_record)) 1 ''note'' JNull 9)
   in fst (prune_before s 2) = Inl Internal \<and> length (tb_raw_lines (ds_db (snd (prune_before s 2)))) = 2"
  by code_simp

end
