(* ===== verification/Pipeline.thy ===== *)
theory Pipeline
  imports Store_Queries Profile_Framer
begin

text \<open>
  The ingest pipeline (\<^verbatim>\<open>crates/conminer-core/src/pipeline.rs\<close>): bytes are split into lines, the
  lines stored, framed into records, the records mined, and records, templates, stages and epochs
  written in the same transaction. Every operation returns its result together with the
  pipeline as it is left, on errors too: a failed batch is rolled back in the store, while the
  splitter, the framer, the miner and the remembered epoch keep what they did. The clock is
  read once per call. The lossy decoder, the compiled generic expressions, the set matcher of
  the \<^verbatim>\<open>regex\<close> crate and the digest are fields of the environment.
\<close>

section \<open>State\<close>

record PipeEnv =
  env_generic :: GenericRe
  env_lossy :: "byte list \<Rightarrow> string"
  env_regex_set :: "Regex list \<Rightarrow> (string \<Rightarrow> nat list) option"
  env_sha256 :: "byte list \<Rightarrow> byte list"

record FeedOutcome =
  fo_bytes :: nat
  fo_lines :: nat
  fo_records :: nat
  fo_new_templates :: "int list"
  fo_stage_transitions :: "string list"
  fo_boots_opened :: "int list"
  fo_crash_records :: "int list"
  fo_garbage_lines :: nat

definition FeedOutcome_default :: FeedOutcome where
  "FeedOutcome_default = \<lparr> fo_bytes = 0, fo_lines = 0, fo_records = 0, fo_new_templates = [], fo_stage_transitions = [],
     fo_boots_opened = [], fo_crash_records = [], fo_garbage_lines = 0 \<rparr>"

definition FeedOutcome_merge :: "FeedOutcome \<Rightarrow> FeedOutcome \<Rightarrow> FeedOutcome" where
  "FeedOutcome_merge a b =
     \<lparr> fo_bytes = fo_bytes a + fo_bytes b, fo_lines = fo_lines a + fo_lines b, fo_records = fo_records a + fo_records b,
       fo_new_templates = fo_new_templates a @ fo_new_templates b,
       fo_stage_transitions = fo_stage_transitions a @ fo_stage_transitions b,
       fo_boots_opened = fo_boots_opened a @ fo_boots_opened b, fo_crash_records = fo_crash_records a @ fo_crash_records b,
       fo_garbage_lines = fo_garbage_lines a + fo_garbage_lines b \<rparr>"

record Pipeline =
  pl_store :: DeviceStore
  pl_profiles :: ProfileSet
  pl_splitter :: LineSplitter
  pl_published_tail :: string
  pl_seen_tail :: string
  pl_version_banners :: "VersionBanner list"
  pl_version_set :: "string \<Rightarrow> nat list"
  pl_saw_bytes :: bool
  pl_last_byte_at :: int
  pl_framer :: ProfileFramer
  pl_drain :: Drain
  pl_garbage :: GarbageDetector
  pl_session_id :: int
  pl_boot_id :: "int option"
  pl_last_boot :: "int option"
  pl_stage_id :: "int option"
  pl_binary :: bool
  pl_last_rx_ms :: int
  pl_sample_above :: nat
  pl_sampled_out :: nat
  pl_degraded :: bool

text \<open>\<^verbatim>\<open>new\<close>: the writer lock first (its outcome is an argument), then the counters, the miner from the
  stored templates, the framer. The configuration is passed as the parts that are read.\<close>

definition Pipeline_new ::
    "PipeEnv \<Rightarrow> unit res \<Rightarrow> DeviceStore \<Rightarrow> ProfileSet \<Rightarrow> LineEndingMode \<Rightarrow> nat \<Rightarrow> nat \<Rightarrow> DrainConfig \<Rightarrow> FramerConfig \<Rightarrow>
     string option \<Rightarrow> Pipeline res" where
  "Pipeline_new env lock store profiles mode max_line probe mine framer_cfg pinned =
     and_then lock (\<lambda>_.
       let store = reload_counters store;
           drain = load_drain store mine TokenizerRules_default;
           banners = concat (map pf_version_banners profiles)
       in and_then (ProfileFramer_new profiles framer_cfg pinned) (\<lambda>framer.
            Inr \<lparr> pl_store = store, pl_profiles = profiles, pl_splitter = LineSplitter_new mode max_line probe,
                  pl_published_tail = [], pl_seen_tail = [], pl_version_banners = banners,
                  pl_version_set = (case env_regex_set env (map vb_re banners) of Some m \<Rightarrow> m | None \<Rightarrow> (\<lambda>_. [])),
                  pl_saw_bytes = False, pl_last_byte_at = 0, pl_framer = framer, pl_drain = drain,
                  pl_garbage = GarbageDetector_from_config framer_cfg, pl_session_id = 0, pl_boot_id = None,
                  pl_last_boot = None, pl_stage_id = None, pl_binary = False, pl_last_rx_ms = 0,
                  pl_sample_above = 50000, pl_sampled_out = 0, pl_degraded = False \<rparr>))"

definition set_sample_threshold :: "Pipeline \<Rightarrow> nat \<Rightarrow> Pipeline" where
  "set_sample_threshold p n = p\<lparr> pl_sample_above := n \<rparr>"

definition set_binary :: "Pipeline \<Rightarrow> bool \<Rightarrow> Pipeline" where
  "set_binary p on1 = p\<lparr> pl_binary := on1 \<rparr>"

section \<open>Fingerprints\<close>

text \<open>The little-endian bytes of an \<^verbatim>\<open>i64\<close>.\<close>

definition to_le_bytes :: "int \<Rightarrow> byte list" where
  "to_le_bytes i = map (\<lambda>k. ucast (drop_bit (8 * k) (word_of_int i :: 64 word))) [0..<8]"

definition fingerprint_from :: "PipeEnv \<Rightarrow> int list \<times> string list \<Rightarrow> string" where
  "fingerprint_from env sg =
     (let (templates, stages) = sg
      in hex_encode (take 16 (env_sha256 env
           (concat (map to_le_bytes templates) @ [0] @ as_bytes ''stages'' @ [0] @ concat (map (\<lambda>s. as_bytes s @ [0]) stages)))))"

definition fingerprint_of :: "PipeEnv \<Rightarrow> Batch \<Rightarrow> int \<Rightarrow> string" where
  "fingerprint_of env b boot_id = fingerprint_from env (Batch_boot_signature b boot_id)"

definition fingerprint :: "PipeEnv \<Rightarrow> Pipeline \<Rightarrow> int \<Rightarrow> string" where
  "fingerprint env p boot_id = fingerprint_from env (boot_signature (pl_store p) boot_id)"

definition finalize_boot :: "PipeEnv \<Rightarrow> Pipeline \<Rightarrow> Pipeline" where
  "finalize_boot env p =
     (case pl_boot_id p of
        None \<Rightarrow> p
      | Some i \<Rightarrow> p\<lparr> pl_store := set_boot_summary (pl_store p) i (Some (fingerprint env p i)) None \<rparr>)"

definition close_epoch :: "PipeEnv \<Rightarrow> Pipeline \<Rightarrow> Pipeline" where
  "close_epoch env p = (finalize_boot env p)\<lparr> pl_boot_id := None \<rparr>"

section \<open>Sessions and epochs\<close>

definition adopt :: "Pipeline \<Rightarrow> int \<Rightarrow> Pipeline" where
  "adopt p boot_id = p\<lparr> pl_boot_id := Some boot_id, pl_last_boot := Some boot_id, pl_stage_id := None \<rparr>"

definition Pipeline_begin_session ::
    "Pipeline \<Rightarrow> int \<Rightarrow> SessionSource \<Rightarrow> string option \<Rightarrow> string option \<Rightarrow> string option \<Rightarrow> int res \<times> Pipeline" where
  "Pipeline_begin_session p now source label content_sha source_path =
     (let (i, st) = begin_session (pl_store p) source now label content_sha source_path;
          p = p\<lparr> pl_store := st, pl_session_id := i \<rparr>;
          opened_by = (if source = Live then ''session'' else ''ingest'');
          (r, st) = open_boot st opened_by label now (Some i);
          p = p\<lparr> pl_store := st \<rparr>
      in case r of Inl e \<Rightarrow> (Inl e, p) | Inr row \<Rightarrow> (Inr i, adopt p (ep_id row)))"

definition Pipeline_open_boot :: "PipeEnv \<Rightarrow> Pipeline \<Rightarrow> int \<Rightarrow> string \<Rightarrow> string option \<Rightarrow> int res \<times> Pipeline" where
  "Pipeline_open_boot env p now opened_by label =
     (let p = finalize_boot env p;
          (r, st) = open_boot (pl_store p) opened_by label now (Some (pl_session_id p));
          p = p\<lparr> pl_store := st \<rparr>
      in case r of Inl e \<Rightarrow> (Inl e, p) | Inr row \<Rightarrow> (Inr (ep_id row), adopt p (ep_id row)))"

definition adopt_external_boot :: "PipeEnv \<Rightarrow> Pipeline \<Rightarrow> bool \<times> Pipeline" where
  "adopt_external_boot env p =
     (case latest_boot (pl_store p) of
        None \<Rightarrow> (False, p)
      | Some row \<Rightarrow>
          if pl_boot_id p = Some (ep_id row) then (False, p)
          else if (case pl_boot_id p of Some cur \<Rightarrow> ep_id row \<le> cur | None \<Rightarrow> False) then (False, p)
          else (True, adopt (if pl_boot_id p \<noteq> None then finalize_boot env p else p) (ep_id row)))"

section \<open>Mining and persisting\<close>

text \<open>What \<^verbatim>\<open>apply_in\<close> works on, and its constants.\<close>

record Apply =
  ap_batch :: Batch
  ap_drain :: Drain
  ap_boot_id :: "int option"
  ap_last_boot :: "int option"
  ap_stage_id :: "int option"
  ap_out :: FeedOutcome

record ApplyCtx =
  ac_env :: PipeEnv
  ac_profiles :: ProfileSet
  ac_version_set :: "string \<Rightarrow> nat list"
  ac_version_banners :: "VersionBanner list"
  ac_session_id :: int
  ac_now :: int

text \<open>A detected reset opens its own epoch at its banner and takes the lines from there on.\<close>

definition apply_reset :: "ApplyCtx \<Rightarrow> Apply \<Rightarrow> StageTransition \<Rightarrow> Apply \<times> ErrorCode option" where
  "apply_reset c a t =
     (let previous = ap_boot_id a;
          b = (case previous of
                 Some prev \<Rightarrow> Batch_set_boot_summary (ap_batch a) prev (Some (fingerprint_of (ac_env c) (ap_batch a) prev)) None
               | None \<Rightarrow> ap_batch a);
          at_offset = (case offset_of_line b (st_banner_line_id t) of Inr o1 \<Rightarrow> Some o1 | Inl _ \<Rightarrow> None)
      in case and_then (open_boot_after b ''reset'' None (st_at t) (Some (ac_session_id c)) previous at_offset False)
                (\<lambda>(i, b). and_then (reassign_tail_to_boot b (ac_session_id c) (st_banner_line_id t) previous i)
                   (\<lambda>(_, b). Inr (i, b))) of
           Inl e \<Rightarrow> (a, Some e)
         | Inr (i, b) \<Rightarrow>
             (a\<lparr> ap_batch := b, ap_boot_id := Some i, ap_last_boot := Some i, ap_stage_id := None,
                 ap_out := (ap_out a)\<lparr> fo_boots_opened := fo_boots_opened (ap_out a) @ [i] \<rparr> \<rparr>, None))"

definition apply_stage :: "ApplyCtx \<Rightarrow> Apply \<Rightarrow> StageTransition \<Rightarrow> Apply \<times> ErrorCode option" where
  "apply_stage c a t =
     (let (a, err) = (if st_is_reset t then apply_reset c a t else (a, None))
      in if err \<noteq> None \<or> \<not> (st_stage_changed t \<or> st_is_reset t) then (a, err)
         else case append_stage_after (ap_batch a) (ac_session_id c) (ap_boot_id a) (st_name t) (st_profile t) (st_at t)
                     (Some (st_banner_line_id t)) (ap_stage_id a) of
                Inl e \<Rightarrow> (a, Some e)
              | Inr (i, b) \<Rightarrow>
                  (a\<lparr> ap_batch := b, ap_stage_id := Some i,
                      ap_out := (ap_out a)\<lparr> fo_stage_transitions := fo_stage_transitions (ap_out a) @ [st_name t] \<rparr> \<rparr>, None))"

text \<open>The version banners found in a record, line by line.\<close>

definition versions_found :: "ApplyCtx \<Rightarrow> string \<Rightarrow> (string \<times> string \<times> json) list" where
  "versions_found c txt =
     concat (map (\<lambda>line. List.map_filter
       (\<lambda>idx. if idx < length (ac_version_banners c)
              then let vb = ac_version_banners c ! idx
                   in map_option (\<lambda>(v, d). (vb_component vb, v, d)) (VersionBanner_extract vb line)
              else None) (ac_version_set c line)) (str_lines txt))"

definition note_versions :: "ApplyCtx \<Rightarrow> Apply \<Rightarrow> FramedRecord \<Rightarrow> Batch res" where
  "note_versions c a r =
     (case (case ap_boot_id a of Some x \<Rightarrow> Some x | None \<Rightarrow> ap_last_boot a) of
        None \<Rightarrow> Inr (ap_batch a)
      | Some e \<Rightarrow>
          for_each (\<lambda>b (cmp, v, d). note_version b e cmp v d (Some (fr_first_line_id r)) (ac_now c))
            (ap_batch a) (versions_found c (fr_text r)))"

text \<open>The mining of a record's key line: the template id if there is one.\<close>

definition mine_record :: "ApplyCtx \<Rightarrow> Apply \<Rightarrow> FramedRecord \<Rightarrow> int option res \<times> Apply" where
  "mine_record c a r =
     (case fr_mine_key r of
        None \<Rightarrow> (Inr None, a)
      | Some key \<Rightarrow>
          let rules = (case ProfileSet_get (ac_profiles c) (fr_profile r) of Some p \<Rightarrow> pf_tokenizer p | None \<Rightarrow> TokenizerRules_default);
              tokens = tokenize rules key
          in if tokens = [] then (Inr None, a)
             else
               let (m, d) = add_tokens (ap_drain a) tokens;
                   a = a\<lparr> ap_drain := d \<rparr>
               in case Drain_template d (dm_template_id m) of
                    None \<Rightarrow> (Inl Internal, a)
                  | Some t \<Rightarrow>
                      (case Batch_note_template (ap_batch a) t (dm_created m) (dm_generalized m) (ac_session_id c) (ap_boot_id a)
                              (ac_now c) (fr_stage r) (fr_profile r) (fr_severity r) of
                         Inl e \<Rightarrow> (Inl e, a)
                       | Inr b \<Rightarrow>
                           (Inr (Some (int (tpl_id t))),
                            a\<lparr> ap_batch := b,
                               ap_out := (if dm_created m
                                 then (ap_out a)\<lparr> fo_new_templates := fo_new_templates (ap_out a) @ [int (tpl_id t)] \<rparr>
                                 else ap_out a) \<rparr>)))"

definition pending_record :: "ApplyCtx \<Rightarrow> Apply \<Rightarrow> FramedRecord \<Rightarrow> int option \<Rightarrow> PendingRecord" where
  "pending_record c a r template_id =
     \<lparr> pr_session_id = ac_session_id c, pr_boot_id = ap_boot_id a, pr_first_line_id = fr_first_line_id r,
       pr_last_line_id = fr_last_line_id r, pr_line_count = fr_line_count r, pr_stage_id = ap_stage_id a,
       pr_profile = fr_profile r, pr_severity = fr_severity r, pr_kind = fr_kind r, pr_template_id = template_id,
       pr_truncated = fr_truncated r, pr_fields = JObj (fr_fields r), pr_text = fr_text r \<rparr>"

definition apply_record :: "ApplyCtx \<Rightarrow> Apply \<Rightarrow> FramedRecord \<Rightarrow> Apply \<times> ErrorCode option" where
  "apply_record c a r =
     (case note_versions c a r of
        Inl e \<Rightarrow> (a, Some e)
      | Inr b \<Rightarrow>
          let (mined, a) = mine_record c (a\<lparr> ap_batch := b \<rparr>) r
          in case mined of
               Inl e \<Rightarrow> (a, Some e)
             | Inr template_id \<Rightarrow>
                 (case Batch_append_record (ap_batch a) (pending_record c a r template_id) of
                    Inl e \<Rightarrow> (a, Some e)
                  | Inr (i, b) \<Rightarrow>
                      (a\<lparr> ap_batch := b,
                          ap_out := (ap_out a)\<lparr> fo_records := fo_records (ap_out a) + 1,
                            fo_crash_records := fo_crash_records (ap_out a) @ (if fr_kind r = Crash then [i] else []) \<rparr> \<rparr>, None)))"

fun apply_event :: "ApplyCtx \<Rightarrow> Apply \<Rightarrow> FramerEvent \<Rightarrow> Apply \<times> ErrorCode option" where
  "apply_event c a (Stage t) = apply_stage c a t"
| "apply_event c a (Record r) = apply_record c a r"

fun apply_in :: "ApplyCtx \<Rightarrow> Apply \<Rightarrow> FramerEvent list \<Rightarrow> Apply \<times> ErrorCode option" where
  "apply_in c a [] = (a, None)"
| "apply_in c a (e # es) =
     (case apply_event c a e of
        (a', Some err) \<Rightarrow> (a', Some err)
      | (a', None) \<Rightarrow> apply_in c a' es)"

definition apply_ctx :: "PipeEnv \<Rightarrow> Pipeline \<Rightarrow> int \<Rightarrow> ApplyCtx" where
  "apply_ctx env p now =
     \<lparr> ac_env = env, ac_profiles = pl_profiles p, ac_version_set = pl_version_set p,
       ac_version_banners = pl_version_banners p, ac_session_id = pl_session_id p, ac_now = now \<rparr>"

definition apply_state :: "Pipeline \<Rightarrow> Batch \<Rightarrow> Apply" where
  "apply_state p b =
     \<lparr> ap_batch = b, ap_drain = pl_drain p, ap_boot_id = pl_boot_id p, ap_last_boot = pl_last_boot p,
       ap_stage_id = pl_stage_id p, ap_out = FeedOutcome_default \<rparr>"

text \<open>The borrows \<^verbatim>\<open>apply_in\<close> returns to the pipeline, and the commit when it succeeded.\<close>

definition apply_done :: "Pipeline \<Rightarrow> Apply \<times> ErrorCode option \<Rightarrow> FeedOutcome res \<times> Pipeline" where
  "apply_done p r =
     (let (a, err) = r;
          p = p\<lparr> pl_drain := ap_drain a, pl_boot_id := ap_boot_id a, pl_last_boot := ap_last_boot a, pl_stage_id := ap_stage_id a \<rparr>
      in case err of
           Some e \<Rightarrow> (Inl e, p)
         | None \<Rightarrow> (Inr (ap_out a), p\<lparr> pl_store := finish_batch (pl_store p) (ap_batch a) \<rparr>))"

definition apply_events :: "PipeEnv \<Rightarrow> Pipeline \<Rightarrow> int \<Rightarrow> FramerEvent list \<Rightarrow> FeedOutcome res \<times> Pipeline" where
  "apply_events env p now events =
     (if events = [] then (Inr FeedOutcome_default, p)
      else
        let (b, st) = begin_batch (pl_store p);
            p = p\<lparr> pl_store := st \<rparr>
        in apply_done p (apply_in (apply_ctx env p now) (apply_state p b) events))"

section \<open>Feeding\<close>

text \<open>The framing loop of \<^verbatim>\<open>consume\<close>: the index decides which lines of an oversized block are framed.\<close>

record Framing =
  fg_garbage :: GarbageDetector
  fg_framer :: ProfileFramer
  fg_events :: "FramerEvent list"
  fg_garbage_lines :: nat
  fg_sampled_out :: nat

definition frame_line :: "PipeEnv \<Rightarrow> bool \<Rightarrow> bool \<Rightarrow> int \<Rightarrow> int \<Rightarrow> Framing \<Rightarrow> nat \<times> Line \<times> LineRef \<Rightarrow> Framing" where
  "frame_line env binary over ts_wall ts_mono g x =
     (let (i, l, r) = x;
          (garbage, det) = GarbageDetector_push (fg_garbage g) (line_bytes l);
          g = g\<lparr> fg_garbage := det, fg_garbage_lines := fg_garbage_lines g + (if garbage then 1 else 0) \<rparr>
      in if over \<and> i mod 16 \<noteq> 0 then g\<lparr> fg_sampled_out := fg_sampled_out g + 1 \<rparr>
         else
           let (es, f) = ProfileFramer_push (env_generic env) (fg_framer g)
                 \<lparr> fi_line_id = ref_id r, fi_text = env_lossy env (line_bytes l), fi_raw_len = length (line_bytes l),
                   fi_ts_wall = ts_wall, fi_ts_mono = ts_mono, fi_garbage = garbage, fi_binary = binary \<rparr>
           in g\<lparr> fg_framer := f, fg_events := fg_events g @ es \<rparr>)"

definition consume :: "PipeEnv \<Rightarrow> Pipeline \<Rightarrow> int \<Rightarrow> int \<Rightarrow> Line list \<Rightarrow> FeedOutcome res \<times> Pipeline" where
  "consume env p now ns lines =
     (if lines = [] then (Inr FeedOutcome_default, p)
      else
        let pending = map (\<lambda>l. (PendingLine_from_line l ns now)\<lparr> pe_stage_id := pl_stage_id p \<rparr>) lines;
            (b, st) = begin_batch (pl_store p);
            p = p\<lparr> pl_store := st \<rparr>
        in case Batch_append_lines b (pl_session_id p) (pl_boot_id p) pending of
             Inl e \<Rightarrow> (Inl e, p)
           | Inr (refs, b) \<Rightarrow>
               let over = length refs > pl_sample_above p;
                   g = foldl (frame_line env (pl_binary p) over now ns)
                         \<lparr> fg_garbage = pl_garbage p, fg_framer = pl_framer p, fg_events = [], fg_garbage_lines = 0,
                           fg_sampled_out = pl_sampled_out p \<rparr>
                         (zip [0..<length lines] (zip lines refs));
                   p = p\<lparr> pl_degraded := over, pl_garbage := fg_garbage g, pl_framer := fg_framer g,
                          pl_sampled_out := fg_sampled_out g \<rparr>;
                   out = FeedOutcome_default\<lparr> fo_lines := length refs,
                           fo_bytes := sum_list (map PendingLine_consumed pending), fo_garbage_lines := fg_garbage_lines g \<rparr>;
                   (r, p) = apply_done p (apply_in (apply_ctx env p now) (apply_state p b) (fg_events g))
               in (and_then r (\<lambda>o2. Inr (FeedOutcome_merge out o2)), p))"

definition feed :: "PipeEnv \<Rightarrow> Pipeline \<Rightarrow> int \<Rightarrow> int \<Rightarrow> byte list \<Rightarrow> FeedOutcome res \<times> Pipeline" where
  "feed env p now ns chunk =
     (let p = (if chunk \<noteq> [] then p\<lparr> pl_saw_bytes := True, pl_last_byte_at := now \<rparr> else p);
          (lines, sp) = LineSplitter_push (pl_splitter p) chunk
      in consume env (p\<lparr> pl_splitter := sp, pl_last_rx_ms := now \<rparr>) now ns lines)"

definition publish_pending_tail :: "PipeEnv \<Rightarrow> Pipeline \<Rightarrow> Pipeline" where
  "publish_pending_tail env p =
     (let txt = LineSplitter_pending_text (env_lossy env) (pl_splitter p);
          stable = (txt = pl_seen_tail p);
          p = p\<lparr> pl_seen_tail := txt \<rparr>
      in if txt = [] then
           (if pl_published_tail p \<noteq> [] \<and> pl_saw_bytes p
            then p\<lparr> pl_store := set_pending_tail (pl_store p) [] 0, pl_published_tail := [] \<rparr> else p)
         else if \<not> stable \<or> txt = pl_published_tail p then p
         else if pl_last_byte_at p = 0 then p
         else p\<lparr> pl_store := set_pending_tail (pl_store p) txt (pl_last_byte_at p), pl_published_tail := txt \<rparr>)"

definition tick :: "PipeEnv \<Rightarrow> Pipeline \<Rightarrow> int \<Rightarrow> FeedOutcome res \<times> Pipeline" where
  "tick env p now =
     (let (events, f) = ProfileFramer_tick (env_generic env) (pl_framer p) now;
          (r, p) = apply_events env (p\<lparr> pl_framer := f \<rparr>) now events
      in case r of Inl e \<Rightarrow> (Inl e, p) | Inr out \<Rightarrow> (Inr out, publish_pending_tail env p))"

definition Pipeline_finish :: "PipeEnv \<Rightarrow> Pipeline \<Rightarrow> int \<Rightarrow> int \<Rightarrow> FeedOutcome res \<times> Pipeline" where
  "Pipeline_finish env p now ns =
     (let (lines, sp) = LineSplitter_flush (pl_splitter p);
          p = p\<lparr> pl_splitter := sp, pl_store := set_pending_tail (pl_store p) [] 0, pl_published_tail := [], pl_seen_tail := [] \<rparr>;
          (r, p) = consume env p now ns lines
      in case r of
           Inl e \<Rightarrow> (Inl e, p)
         | Inr out \<Rightarrow>
             let (events, f) = ProfileFramer_flush (env_generic env) (pl_framer p);
                 (r, p) = apply_events env (p\<lparr> pl_framer := f \<rparr>) now events
             in case r of
                  Inl e \<Rightarrow> (Inl e, p)
                | Inr o2 \<Rightarrow>
                    let out = FeedOutcome_merge out o2;
                        p = finalize_boot env p
                    in if pl_session_id p \<noteq> 0
                       then let (r, st) = end_session (pl_store p) (pl_session_id p) now
                            in (and_then r (\<lambda>_. Inr out), p\<lparr> pl_store := st \<rparr>)
                       else (Inr out, p))"

end
