(* ===== verification/Pipeline_Inv.thy ===== *)
theory Pipeline_Inv
  imports Pipeline Store_Epochs Drain_Mining
begin

text \<open>
  What the pipeline keeps between calls: a consistent store, a framer that only holds stored
  lines, a miner the template table mirrors, and epochs that exist. From it follows that no
  step of \<^verbatim>\<open>feed\<close>, \<^verbatim>\<open>tick\<close> or \<^verbatim>\<open>finish\<close> can fail, and what they do to the stored stream.
\<close>

section \<open>Lines consume bytes\<close>

definition consuming :: "LineSplitter \<Rightarrow> bool" where
  "consuming s \<longleftrightarrow> list_all (\<lambda>l. Line_consumed l > 0) (ls_out s)"

lemma consuming_emit: "consuming s \<Longrightarrow> t \<noteq> No_term \<or> ls_buf s \<noteq> [] \<Longrightarrow> consuming (emit_flagged s t b)"
  by (cases t) (auto simp: consuming_def emit_flagged_def Line_consumed_def)

lemma consuming_updates [simp]:
  "consuming (s\<lparr> ls_buf := x \<rparr>) = consuming s" "consuming (s\<lparr> ls_pending_cr := c \<rparr>) = consuming s"
  "consuming (s\<lparr> ls_mode := m \<rparr>) = consuming s" "consuming (s\<lparr> ls_probing := c \<rparr>) = consuming s"
  "consuming (s\<lparr> ls_probe_consumed := n \<rparr>) = consuming s" "consuming (s\<lparr> ls_bytes_in := n \<rparr>) = consuming s"
  "consuming (lock_lf s) = consuming s" "consuming (probe_tick s) = consuming s"
  by (simp_all add: consuming_def lock_lf_def probe_tick_def)

lemma consuming_push_content: "consuming s \<Longrightarrow> consuming (push_content s b)"
  by (simp add: push_content_def Let_def consuming_emit)

lemma consuming_resplit: "consuming s \<Longrightarrow> consuming (resplit_segments s segs)"
  by (induction s segs rule: resplit_segments.induct) (simp_all add: emit_def consuming_emit)

lemma consuming_probe: "consuming s \<Longrightarrow> consuming (maybe_end_probe s saw)"
  by (simp add: maybe_end_probe_def resplit_buffered_crs_def consuming_resplit)

lemma consuming_match: "consuming s \<Longrightarrow> consuming (byte_match s b)"
  by (simp add: byte_match_def consuming_probe consuming_push_content emit_def consuming_emit)

lemma consuming_byte: "consuming s \<Longrightarrow> consuming (LineSplitter_byte s b)"
  by (simp add: LineSplitter_byte_def byte_after_cr_def Let_def consuming_match emit_def consuming_emit consuming_push_content)

lemma consuming_push:
  assumes "LineSplitter_push s chunk = (lines, s')" and "ls_out s = []"
  shows "list_all (\<lambda>l. Line_consumed l > 0) lines"
proof -
  have "consuming t \<Longrightarrow> consuming (foldl LineSplitter_byte t bs)" for t bs
    by (induction bs arbitrary: t) (simp_all add: consuming_byte)
  from this [of "s\<lparr> ls_bytes_in := ls_bytes_in s + length chunk \<rparr>" chunk] assms show ?thesis
    by (auto simp: LineSplitter_push_def Let_def consuming_def)
qed

lemma consuming_flush:
  assumes "LineSplitter_flush s = (lines, s')" and "ls_out s = []"
  shows "list_all (\<lambda>l. Line_consumed l > 0) lines"
  using assms unfolding LineSplitter_flush_def Let_def splitter_defs
  by (auto simp: Line_consumed_def split: if_splits)

section \<open>Where stage events come from\<close>

definition stage_ids :: "FramerEvent list \<Rightarrow> int list" where
  "stage_ids es = List.map_filter (\<lambda>e. case e of Stage t \<Rightarrow> Some (st_banner_line_id t) | Record r \<Rightarrow> None) es"

lemma stage_ids_simps [simp]:
  "stage_ids [] = []" "stage_ids (Stage t # es) = st_banner_line_id t # stage_ids es" "stage_ids (Record r # es) = stage_ids es"
  "stage_ids (es @ es') = stage_ids es @ stage_ids es'"
  by (simp_all add: stage_ids_def map_filter_def)

lemma stage_ids_records: "list_all (\<lambda>e. \<exists>r. e = Record r) es \<Longrightarrow> stage_ids es = []"
  by (induction es) auto

lemma observe_banner: "fst (observe G m text i ts) = Some t \<Longrightarrow> st_banner_line_id t = i"
  by (auto simp: observe_def Let_def split: option.splits if_splits prod.splits)

lemma stage_ids_parts [simp]:
  "stage_ids (fst (close f c)) = []" "stage_ids (fst (close_garbage f)) = []" "stage_ids [single G f p i v] = []"
  "stage_ids (fst (release_lookback G f)) = []"
  by (auto simp: close_def close_garbage_def single_def release_lookback_def intro!: stage_ids_records split: option.split)
     (simp add: list_all_iff)

lemma stage_ids_grammar: "stage_ids (fst (push_grammar G f line view owner)) = []"
  by (auto simp: push_grammar_def Let_def split_beta single_def split: option.split)

lemma stage_ids_idle: "set (stage_ids (fst (push_idle G f line view over))) \<subseteq> {fi_line_id line}"
proof -
  obtain t m where ob: "observe G (pfr_stages f) view (fi_line_id line) (fi_ts_wall line) = (t, m)" by fastforce
  have rel: "stage_ids (fst (release_lookback G f')) = []" for f' by simp
  show ?thesis
  proof (cases t)
    case None
    then show ?thesis by (simp add: push_idle_def ob Let_def stage_ids_grammar)
  next
    case (Some tr)
    then have "st_banner_line_id tr = fi_line_id line" using observe_banner ob by (metis fst_conv)
    with Some rel show ?thesis by (simp add: push_idle_def ob Let_def split_beta single_def)
  qed
qed

lemma stage_ids_open: "set (stage_ids (fst (fst (push_open G f line view o1)))) \<subseteq> {fi_line_id line}"
proof (cases "is_terminator (op_owner o1) (mine_key G (op_owner o1) view)")
  case True
  then show ?thesis
    by (auto simp: push_open_def Let_def split_beta close_def dest: observe_banner split: option.split)
next
  case False
  have "stage_ids (fst (fst (push_open G f line view o1))) = []"
    by (simp add: push_open_def Let_def split_beta False close_def split: option.split)
  then show ?thesis by simp
qed

lemma stage_ids_push: "set (stage_ids (fst (ProfileFramer_push G f line))) \<subseteq> {fi_line_id line}"
proof (cases "fi_garbage line \<or> fi_binary line")
  case True
  then show ?thesis
    by (auto simp: ProfileFramer_push_def push_quarantined_def Let_def split_beta split: option.split)
next
  case False
  obtain e0 f0 where g: "close_garbage f = (e0, f0)" by fastforce
  have e0: "stage_ids e0 = []" using stage_ids_parts(2) [of f] g by simp
  show ?thesis
  proof (cases "pfr_open f0")
    case None
    with False g e0 stage_ids_idle show ?thesis by (simp add: ProfileFramer_push_def Let_def split_beta)
  next
    case (Some o1)
    let ?view = "framer_view G f0 (fi_text line)"
    obtain e1 f1 h where po: "push_open G f0 line ?view o1 = ((e1, f1), h)" by (metis prod.collapse)
    then have "set (stage_ids e1) \<subseteq> {fi_line_id line}" using stage_ids_open [of G f0 line ?view o1] by simp
    with False g e0 po Some stage_ids_idle [of G f1 line ?view] show ?thesis
      by (cases h) (simp_all add: ProfileFramer_push_def Let_def split_beta)
  qed
qed

lemma stage_ids_tick: "stage_ids (fst (ProfileFramer_tick G f now)) = []"
  by (auto simp: ProfileFramer_tick_def Let_def split_beta split: option.split)

lemma stage_ids_flush: "stage_ids (fst (ProfileFramer_flush G f)) = []"
  by (simp add: ProfileFramer_flush_def Let_def split_beta)

text \<open>Over a run the banners come in the order of the lines.\<close>

lemma stage_ids_run:
  assumes "sorted_wrt (<) (map fi_line_id ls)"
  shows "sorted (stage_ids (fst (framer_run G f (map Inl ls)))) \<and>
    set (stage_ids (fst (framer_run G f (map Inl ls)))) \<subseteq> set (map fi_line_id ls)"
  using assms
proof (induction ls arbitrary: f)
  case (Cons l ls)
  obtain e1 f1 where p: "ProfileFramer_push G f l = (e1, f1)" by fastforce
  have e1: "set (stage_ids e1) \<subseteq> {fi_line_id l}" using stage_ids_push [of G f l] p by simp
  moreover have "sorted xs" if "set xs \<subseteq> {c}" for xs :: "int list" and c using that by (induction xs) auto
  ultimately have "sorted (stage_ids e1)" by blast
  moreover have "\<forall>x\<in>set (stage_ids e1). \<forall>y\<in>set (map fi_line_id ls). x \<le> y" using e1 Cons.prems by fastforce
  ultimately show ?case using Cons.IH [of f1] Cons.prems p e1 by (auto simp: split_beta Let_def sorted_append)
qed simp

text \<open>A record of a tiling starts and ends at lines that were offered, and what is left was offered too.\<close>

definition records_within :: "int set \<Rightarrow> FramerEvent list \<Rightarrow> bool" where
  "records_within L es \<longleftrightarrow> (\<forall>r. Record r \<in> set es \<longrightarrow> fr_first_line_id r \<in> L \<and> fr_last_line_id r \<in> L)"

lemma tiles_within: "tiles ids es rest \<Longrightarrow> records_within (set ids) es \<and> set rest \<subseteq> set ids"
proof (induction rule: tiles.induct)
  case (tiles_Record r seg ids es rest)
  then have "fr_first_line_id r \<in> set seg" "fr_last_line_id r \<in> set seg" by (auto simp: record_covers_def)
  with tiles_Record show ?case by (auto simp: records_within_def)
qed (auto simp: records_within_def)

lemma records_within_mono: "records_within L es \<Longrightarrow> L \<subseteq> L' \<Longrightarrow> records_within L' es"
  by (auto simp: records_within_def)

section \<open>The framing loop\<close>

definition framed_input :: "PipeEnv \<Rightarrow> bool \<Rightarrow> int \<Rightarrow> int \<Rightarrow> bool \<Rightarrow> Line \<times> LineRef \<Rightarrow> FramerInput" where
  "framed_input env binary ts_wall ts_mono garbage x =
     \<lparr> fi_line_id = ref_id (snd x), fi_text = env_lossy env (line_bytes (fst x)), fi_raw_len = length (line_bytes (fst x)),
       fi_ts_wall = ts_wall, fi_ts_mono = ts_mono, fi_garbage = garbage, fi_binary = binary \<rparr>"

text \<open>The loop offers the framer a subsequence of the lines of the block, all of them unless it is
  oversized.\<close>

lemma framing_loop:
  "\<exists>ins. map fi_line_id ins = map (\<lambda>x. ref_id (snd (snd x))) (filter (\<lambda>x. \<not> (over \<and> fst x mod 16 \<noteq> 0)) xs) \<and>
    fg_events (foldl (frame_line env binary over ts_wall ts_mono) g xs) = fg_events g @ fst (framer_run (env_generic env) (fg_framer g) (map Inl ins)) \<and>
    fg_framer (foldl (frame_line env binary over ts_wall ts_mono) g xs) = snd (framer_run (env_generic env) (fg_framer g) (map Inl ins)) \<and>
    fg_sampled_out (foldl (frame_line env binary over ts_wall ts_mono) g xs) = fg_sampled_out g + length (filter (\<lambda>x. over \<and> fst x mod 16 \<noteq> 0) xs)"
proof (induction xs arbitrary: g)
  case Nil
  then show ?case by (intro exI [of _ "[]"]) simp
next
  case (Cons x xs)
  obtain i l r where x: "x = (i, l, r)" by (cases x) auto
  obtain garbage det where gd: "GarbageDetector_push (fg_garbage g) (line_bytes l) = (garbage, det)" by fastforce
  let ?g = "frame_line env binary over ts_wall ts_mono g x"
  from Cons.IH [of ?g] obtain ins where ins:
    "map fi_line_id ins = map (\<lambda>x. ref_id (snd (snd x))) (filter (\<lambda>x. \<not> (over \<and> fst x mod 16 \<noteq> 0)) xs)"
    "fg_events (foldl (frame_line env binary over ts_wall ts_mono) ?g xs) = fg_events ?g @ fst (framer_run (env_generic env) (fg_framer ?g) (map Inl ins))"
    "fg_framer (foldl (frame_line env binary over ts_wall ts_mono) ?g xs) = snd (framer_run (env_generic env) (fg_framer ?g) (map Inl ins))"
    "fg_sampled_out (foldl (frame_line env binary over ts_wall ts_mono) ?g xs) = fg_sampled_out ?g + length (filter (\<lambda>x. over \<and> fst x mod 16 \<noteq> 0) xs)"
    by blast
  show ?case
  proof (cases "over \<and> i mod 16 \<noteq> 0")
    case True
    then have "fg_framer ?g = fg_framer g" "fg_events ?g = fg_events g" "fg_sampled_out ?g = fg_sampled_out g + 1" by (simp_all add: x frame_line_def gd Let_def)
    with True ins show ?thesis by (intro exI [of _ ins]) (simp add: x)
  next
    case False
    let ?in = "framed_input env binary ts_wall ts_mono garbage (l, r)"
    obtain e1 f1 where p: "ProfileFramer_push (env_generic env) (fg_framer g) ?in = (e1, f1)" by fastforce
    have "fg_framer ?g = f1" "fg_events ?g = fg_events g @ e1" "fg_sampled_out ?g = fg_sampled_out g"
      using False p by (auto simp: x frame_line_def gd Let_def framed_input_def)
    with False ins p show ?thesis
      by (intro exI [of _ "?in # ins"]) (auto simp: x split_beta Let_def framed_input_def)
  qed
qed

section \<open>The template table mirrors the miner\<close>

definition drain_mirror :: "Drain \<Rightarrow> TemplateRow list \<Rightarrow> bool" where
  "drain_mirror d rows \<longleftrightarrow>
     map (\<lambda>t. (int (tpl_id t), tpl_tokens t, int (tpl_count t))) (dr_templates d) = map (\<lambda>r. (tr_id r, tr_tokens r, tr_total_count r)) rows \<and>
     list_all2 (\<lambda>t r. tr_head_only r \<longrightarrow> tpl_head_only t) (dr_templates d) rows"

lemma mirror_length: "drain_mirror d rows \<Longrightarrow> length rows = length (dr_templates d)"
  by (auto simp: drain_mirror_def dest: list_all2_lengthD)

lemma mirror_nth:
  assumes "drain_mirror d rows" and "j < length (dr_templates d)"
  shows "tr_id (rows ! j) = int (tpl_id (dr_templates d ! j)) \<and> tr_tokens (rows ! j) = tpl_tokens (dr_templates d ! j) \<and>
    tr_total_count (rows ! j) = int (tpl_count (dr_templates d ! j)) \<and> (tr_head_only (rows ! j) \<longrightarrow> tpl_head_only (dr_templates d ! j))"
proof -
  have len: "length rows = length (dr_templates d)" by (rule mirror_length [OF assms(1)])
  then have "tr_head_only (rows ! j) \<longrightarrow> tpl_head_only (dr_templates d ! j)"
    using assms by (simp add: drain_mirror_def list_all2_conv_all_nth)
  with len assms(2) arg_cong [OF conjunct1 [OF assms(1) [unfolded drain_mirror_def]], of "\<lambda>xs. xs ! j"] show ?thesis by simp
qed

lemma mirror_ids: "drain_mirror d rows \<Longrightarrow> tr_id ` set rows = (\<lambda>t. int (tpl_id t)) ` set (dr_templates d)"
proof -
  assume "drain_mirror d rows"
  then have "map fst (map (\<lambda>t. (int (tpl_id t), tpl_tokens t, int (tpl_count t))) (dr_templates d)) =
      map fst (map (\<lambda>r. (tr_id r, tr_tokens r, tr_total_count r)) rows)" by (simp only: drain_mirror_def)
  then have "map (\<lambda>t. int (tpl_id t)) (dr_templates d) = map tr_id rows" by (simp add: comp_def)
  then show ?thesis by (metis set_map)
qed

lemma mirrorI:
  assumes "length rows = length (dr_templates d)"
    and "\<And>j. j < length rows \<Longrightarrow> tr_id (rows ! j) = int (tpl_id (dr_templates d ! j)) \<and> tr_tokens (rows ! j) = tpl_tokens (dr_templates d ! j) \<and>
      tr_total_count (rows ! j) = int (tpl_count (dr_templates d ! j)) \<and> (tr_head_only (rows ! j) \<longrightarrow> tpl_head_only (dr_templates d ! j))"
  shows "drain_mirror d rows"
  unfolding drain_mirror_def using assms by (intro conjI nth_equalityI list_all2_all_nthI) simp_all

lemma find_snoc: "find P (xs @ [x]) = (case find P xs of Some y \<Rightarrow> Some y | None \<Rightarrow> if P x then Some x else None)"
  by (induction xs) auto

text \<open>After a line was mined the miner knows its template, which is new exactly when the table has no
  row for it.\<close>

lemma mined_template:
  assumes inv: "tree_inv d" "ids_inv d" and mir: "drain_mirror d rows" and add: "add_tokens d toks = (m, d')"
  shows "\<exists>t. Drain_template d' (dm_template_id m) = Some t \<and> (dm_created m \<longleftrightarrow> int (tpl_id t) \<notin> tr_id ` set rows)"
  using inv(1)
proof (cases rule: add_tokens_cases [where tokens = toks])
  case (joined i)
  have "distinct (map tpl_id (dr_templates d'))" using ids_inv_add [OF inv, of toks] add by (simp add: distinct_ids)
  moreover have at_i: "dr_templates d' ! i \<in> set (dr_templates d')" "tpl_id (dr_templates d' ! i) = dm_template_id m"
    using joined(1,3,5) add by (simp_all add: set_update_memI)
  ultimately have "Drain_template d' (dm_template_id m) = Some (dr_templates d' ! i)"
    unfolding Drain_template_def using find_key_unique by metis
  moreover have "int (dm_template_id m) \<in> tr_id ` set rows" using joined add mirror_ids [OF mir] by auto
  ultimately show ?thesis using joined(4) add at_i(2) by auto
next
  case minted
  have "\<forall>t\<in>set (dr_templates d). tpl_id t \<noteq> dr_next_id d" using inv(2) by (auto simp: ids_inv_def list_all_iff)
  moreover from this have "find (\<lambda>t. tpl_id t = dr_next_id d) (dr_templates d) = None" by (simp add: find_None_iff)
  ultimately show ?thesis
    using minted add mirror_ids [OF mir] by (auto simp: Drain_template_def find_snoc)
qed

lemma mirror_step:
  assumes inv: "tree_inv d" "ids_inv d" and mir: "drain_mirror d rows" and add: "add_tokens d toks = (m, d')"
    and t: "Drain_template d' (dm_template_id m) = Some t" and noted: "noted t (dm_created m) (dm_generalized m) rows rows'"
  shows "drain_mirror d' rows'"
  using inv(1)
proof (cases rule: add_tokens_cases [where tokens = toks])
  case (joined i)
  have d': "distinct (map tpl_id (dr_templates d'))" using ids_inv_add [OF inv, of toks] add by (simp add: distinct_ids)
  have at_i: "dr_templates d' ! i \<in> set (dr_templates d')" "tpl_id (dr_templates d' ! i) = dm_template_id m"
    using joined(1,3,5) add by (simp_all add: set_update_memI)
  have ti: "t = dr_templates d' ! i" using find_key_unique [OF d' at_i(1)] at_i(2) t by (simp add: Drain_template_def)
  note nt = noted [unfolded noted_def]
  have len: "length rows' = length rows" using nt joined(4) add by (metis (full_types) fst_conv length_map)
  have tid: "int (tpl_id t) = tr_id (rows ! i)" using ti at_i(2) joined(1,3) add mirror_nth [OF mir] by simp
  show ?thesis
  proof (rule mirrorI)
    show "length rows' = length (dr_templates d')" using len mirror_length [OF mir] joined(5) add by simp
  next
    fix j assume "j < length rows'"
    then have j: "j < length (dr_templates d)" "j < length rows" using len mirror_length [OF mir] by simp_all
    have ids: "tr_id (rows' ! j) = tr_id (rows ! j)"
      using nt joined(4) add j(2) len by (metis (full_types) fst_conv nth_map)
    show "tr_id (rows' ! j) = int (tpl_id (dr_templates d' ! j)) \<and> tr_tokens (rows' ! j) = tpl_tokens (dr_templates d' ! j) \<and>
      tr_total_count (rows' ! j) = int (tpl_count (dr_templates d' ! j)) \<and> (tr_head_only (rows' ! j) \<longrightarrow> tpl_head_only (dr_templates d' ! j))"
    proof (cases "j = i")
      case True
      with nt joined add ti tid j ids mirror_nth [OF mir j(1)] show ?thesis by (auto split: if_splits)
    next
      case False
      have "tpl_id (dr_templates d ! j) \<noteq> tpl_id (dr_templates d ! i)"
        using distinct_ids [OF inv(2)] False j(1) joined(1) by (simp add: distinct_conv_nth)
      then have "tr_id (rows ! j) \<noteq> int (tpl_id t)" using tid mirror_nth [OF mir j(1)] mirror_nth [OF mir joined(1)] by simp
      then have "rows' ! j = rows ! j" using nt joined(4) add j(2) by (metis (full_types) fst_conv)
      with False joined(5) add mirror_nth [OF mir j(1)] show ?thesis by simp
    qed
  qed
next
  case minted
  have "find (\<lambda>t. tpl_id t = dr_next_id d) (dr_templates d) = None"
    using inv(2) by (auto simp: ids_inv_def list_all_iff find_None_iff)
  with minted add t have t': "t = \<lparr> tpl_id = dr_next_id d, tpl_tokens = mined_tokens (dr_cfg d) toks, tpl_count = 1,
            tpl_head_only = (length toks > dc_max_line_tokens (dr_cfg d)) \<rparr>"
    by (auto simp: Drain_template_def find_snoc)
  from noted minted(2) add obtain r where "rows' = rows @ [r]" "tr_id r = int (tpl_id t)" "tr_tokens r = tpl_tokens t" "tr_total_count r = 1"
      "tr_head_only r = tpl_head_only t"
    by (auto simp: noted_def)
  with mir minted(3) add t' show ?thesis by (auto simp: drain_mirror_def intro: list_all2_appendI)
qed

end
