(* ===== verification/Pipeline_Apply.thy ===== *)
theory Pipeline_Apply
  imports Pipeline_Inv
begin

text \<open>
  What \<^verbatim>\<open>apply_in\<close> does to an open batch: on consistent tables, for events whose records and banners
  name stored lines, no step can fail; every record event becomes one record row with the lines
  the framer gave it, the template table follows the miner, a reset moves the tail of the
  session to its new epoch, and the books of every epoch stay balanced.
\<close>

section \<open>The lines a record spans\<close>

type_synonym extent = "int \<times> int \<times> int"

definition event_extents :: "FramerEvent list \<Rightarrow> extent list" where
  "event_extents es = List.map_filter (\<lambda>e. case e of Record r \<Rightarrow> Some (fr_first_line_id r, fr_last_line_id r, fr_line_count r)
     | Stage t \<Rightarrow> None) es"

definition row_extents :: "RecordRow list \<Rightarrow> extent list" where
  "row_extents rs = map (\<lambda>r. (rr_first_line_id r, rr_last_line_id r, rr_line_count r)) rs"

lemma extents_simps [simp]:
  "event_extents [] = []" "event_extents (Stage t # es) = event_extents es"
  "event_extents (Record r # es) = (fr_first_line_id r, fr_last_line_id r, fr_line_count r) # event_extents es"
  "event_extents (es @ es') = event_extents es @ event_extents es'" "row_extents [] = []"
  "row_extents (rs @ rs') = row_extents rs @ row_extents rs'"
  by (simp_all add: event_extents_def row_extents_def map_filter_def)

text \<open>Consecutive segments of lines, one per record, and what is left over.\<close>

fun extents_tile :: "int list \<Rightarrow> extent list \<Rightarrow> int list \<Rightarrow> bool" where
  "extents_tile ids [] rest \<longleftrightarrow> ids = rest"
| "extents_tile ids ((first, last_id, n) # xs) rest \<longleftrightarrow>
     0 < n \<and> n \<le> int (length ids) \<and> first = hd ids \<and> last_id = ids ! (nat n - 1) \<and> extents_tile (drop (nat n) ids) xs rest"

lemma tiles_extents: "tiles ids es rest \<Longrightarrow> extents_tile ids (event_extents es) rest"
proof (induction rule: tiles.induct)
  case (tiles_Record r seg ids es rest)
  then have "seg \<noteq> []" and r: "fr_first_line_id r = hd seg" "fr_last_line_id r = last seg" "fr_line_count r = int (length seg)"
    by (simp_all add: record_covers_def)
  moreover from this have "last seg = (seg @ ids) ! (length seg - 1)" by (simp add: last_conv_nth nth_append)
  ultimately show ?case using tiles_Record.IH by simp
qed simp_all

lemma extents_tile_append:
  "extents_tile ids xs rest \<Longrightarrow> extents_tile (rest @ more_ids) ys rest' \<Longrightarrow> extents_tile (ids @ more_ids) (xs @ ys) rest'"
proof (induction ids xs rest rule: extents_tile.induct)
  case (2 ids first last_id n xs rest)
  then show ?case by (auto simp: nth_append hd_append)
qed simp

lemma extents_covered: "extents_tile ids xs rest \<Longrightarrow> length ids = nat (sum_list (map (\<lambda>(f, l, n). n) xs)) + length rest"
proof (induction ids xs rest rule: extents_tile.induct)
  case (2 ids first last_id n xs rest)
  have "0 \<le> sum_list (map (\<lambda>(f, l, n). n) xs)" if "extents_tile ids' xs rest" for ids'
    using that by (induction ids' xs rest rule: extents_tile.induct) auto
  with 2 show ?case by (auto simp: nat_add_distrib)
qed simp

section \<open>The state of apply\<close>

text \<open>From line \<open>k\<close> on, every stored line belongs to the running session and to the current epoch.\<close>

definition apply_ok :: "ApplyCtx \<Rightarrow> Apply \<Rightarrow> int \<Rightarrow> bool" where
  "apply_ok c a k \<longleftrightarrow>
     batch_ok (ap_batch a) \<and> has_session (ba_db (ap_batch a)) (ac_session_id c) \<and>
     opt_all (has_boot (ba_db (ap_batch a))) (ap_boot_id a) \<and> opt_all (has_boot (ba_db (ap_batch a))) (ap_last_boot a) \<and>
     tree_inv (ap_drain a) \<and> ids_inv (ap_drain a) \<and> drain_mirror (ap_drain a) (tb_templates (ba_db (ap_batch a))) \<and>
     (\<forall>l\<in>set (tb_raw_lines (ba_db (ap_batch a))). k \<le> lr_id l \<longrightarrow> lr_session_id l = ac_session_id c \<and> lr_boot_id l = ap_boot_id a)"

text \<open>A step that succeeds: it keeps the batch and adds the record rows of its event.\<close>

definition applied :: "ApplyCtx \<Rightarrow> Apply \<Rightarrow> Apply \<Rightarrow> int \<Rightarrow> extent list \<Rightarrow> bool" where
  "applied c a a' k xs \<longleftrightarrow> apply_ok c a' k \<and> keeps (ap_batch a) (ap_batch a') \<and>
     row_extents (tb_records (ba_db (ap_batch a'))) = row_extents (tb_records (ba_db (ap_batch a))) @ xs"

lemma apply_ok_mono: "apply_ok c a k \<Longrightarrow> k \<le> k' \<Longrightarrow> apply_ok c a k'"
  by (auto simp: apply_ok_def)

lemma applied_trans: "applied c a1 a2 k xs \<Longrightarrow> applied c a2 a3 k' ys \<Longrightarrow> applied c a1 a3 k' (xs @ ys)"
  by (auto simp: applied_def intro: keeps_trans)

lemma applied_refl: "apply_ok c a k \<Longrightarrow> applied c a a k []"
  by (simp add: applied_def apply_ok_def keeps_refl)

text \<open>An operation on the batch that leaves lines and templates alone.\<close>

lemma apply_ok_batch:
  assumes "apply_ok c a k" and "keeps (ap_batch a) b" and "tb_templates (ba_db b) = tb_templates (ba_db (ap_batch a))"
    and "tb_raw_lines (ba_db b) = tb_raw_lines (ba_db (ap_batch a))"
  shows "apply_ok c (a\<lparr> ap_batch := b \<rparr>) k"
  using assms keeps_session [OF assms(2)] by (auto simp: apply_ok_def keeps_def opt_all_subset)

lemma applied_outcome [simp]:
  "apply_ok c (a\<lparr> ap_out := x \<rparr>) k = apply_ok c a k" "apply_ok c (a\<lparr> ap_stage_id := y \<rparr>) k = apply_ok c a k"
  "applied c a (a'\<lparr> ap_out := x \<rparr>) k xs = applied c a a' k xs" "applied c a (a'\<lparr> ap_stage_id := y \<rparr>) k xs = applied c a a' k xs"
  by (simp_all add: apply_ok_def applied_def)

section \<open>Stages and resets\<close>

lemma apply_reset_ok:
  assumes ok: "apply_ok c a k" and line: "st_banner_line_id t \<in> line_ids (ba_db (ap_batch a))" "k \<le> st_banner_line_id t"
  shows "\<exists>a'. apply_reset c a t = (a', None) \<and> applied c a a' (st_banner_line_id t) []"
proof -
  let ?i = "st_banner_line_id t" and ?se = "ac_session_id c" and ?prev = "ap_boot_id a"
  define b1 where "b1 = (case ?prev of
      Some prev \<Rightarrow> Batch_set_boot_summary (ap_batch a) prev (Some (fingerprint_of (ac_env c) (ap_batch a) prev)) None
    | None \<Rightarrow> ap_batch a)"
  define off where "off = (case offset_of_line b1 ?i of Inr o1 \<Rightarrow> Some o1 | Inl _ \<Rightarrow> None)"
  note a = ok [unfolded apply_ok_def]
  have b1: "keeps (ap_batch a) b1" "tb_templates (ba_db b1) = tb_templates (ba_db (ap_batch a))"
    "tb_raw_lines (ba_db b1) = tb_raw_lines (ba_db (ap_batch a))" "tb_records (ba_db b1) = tb_records (ba_db (ap_batch a))"
    using set_boot_summary_keeps a by (simp_all add: b1_def keeps_refl split: option.split)
  then have ok1: "batch_ok b1" "has_session (ba_db b1) ?se" "opt_all (has_boot (ba_db b1)) ?prev"
    using a keeps_session [OF b1(1)] by (auto simp: keeps_def opt_all_subset)
  obtain n b2 where op: "open_boot_after b1 ''reset'' None (st_at t) (Some ?se) ?prev off False = Inr (n, b2)"
    using open_boot_after_total [of "''reset''" b1 "Some ?se" None "st_at t" ?prev off False] ok1 by (auto simp: OPENED_BY_def)
  note k2 = open_boot_after_keeps [OF ok1(1) op] and same2 = open_boot_after_unclaimed [OF op]
  then have ok2: "batch_ok b2" "opt_all (has_boot (ba_db b2)) ?prev" "has_boot (ba_db b2) n"
    using ok1 by (auto simp: keeps_def opt_all_subset)
  have "has_line (ba_db b2) ?i" using line(1) same2 b1(3) by (simp add: has_defs)
  then obtain o1 where "offset_of_line b2 ?i = Inr o1" using offset_of_line_total by blast
  then obtain moved b3 where re: "reassign_tail_to_boot b2 ?se ?i ?prev n = Inr (moved, b3)"
    by (simp add: reassign_tail_to_boot_def Let_def)
  have tail: "lr_session_id l = ?se \<and> lr_boot_id l = ?prev" if "l \<in> set (tb_raw_lines (ba_db b2))" "?i \<le> lr_id l" for l
    using that a line(2) same2 b1(3) by auto
  have k3: "keeps b2 b3" "tb_templates (ba_db b3) = tb_templates (ba_db b2)" "tb_boots (ba_db b3) = tb_boots (ba_db b2)"
    "tb_records (ba_db b3) = tb_records (ba_db b2)" "\<And>l. l \<in> set (tb_raw_lines (ba_db b3)) \<Longrightarrow> ?i \<le> lr_id l \<Longrightarrow> lr_boot_id l = Some n"
    using reassign_keeps [OF ok2(1) re ok2(3,2) tail] by simp_all
  have k: "keeps (ap_batch a) b3" using keeps_trans [OF keeps_trans [OF b1(1)] k3(1)] k2 by blast
  define a' where "a' = a\<lparr> ap_batch := b3, ap_boot_id := Some n, ap_last_boot := Some n, ap_stage_id := None,
     ap_out := (ap_out a)\<lparr> fo_boots_opened := fo_boots_opened (ap_out a) @ [n] \<rparr> \<rparr>"
  have "apply_reset c a t = (a', None)"
    using op re by (simp add: apply_reset_def Let_def a'_def flip: b1_def off_def)
  moreover have "lr_session_id l = ?se" if "l \<in> set (tb_raw_lines (ba_db b3))" "?i \<le> lr_id l" for l
  proof -
    define g :: "LineRow \<Rightarrow> int \<times> int" where "g = (\<lambda>l. (lr_id l, lr_session_id l))"
    have "map g (tb_raw_lines (ba_db b3)) = map g (tb_raw_lines (ba_db b2))"
      by (rule core_map) (use k3(1) in \<open>simp_all add: keeps_def g_def\<close>)
    then have "g ` set (tb_raw_lines (ba_db b3)) = g ` set (tb_raw_lines (ba_db b2))" by (simp only: set_map [symmetric])
    then have "g l \<in> g ` set (tb_raw_lines (ba_db b2))" using imageI [OF that(1), of g] by (simp only:)
    then obtain l2 where "l2 \<in> set (tb_raw_lines (ba_db b2))" "lr_id l2 = lr_id l" "lr_session_id l2 = lr_session_id l"
      by (auto simp: g_def)
    with that(2) tail [of l2] show ?thesis by simp
  qed
  moreover have "keeps b2 b3 \<Longrightarrow> batch_ok b3" by (simp add: keeps_def)
  moreover have "has_boot (ba_db b3) n" using ok2(3) k3(3) by (simp add: has_defs)
  ultimately show ?thesis
    using a k k3 k2 b1 same2 keeps_session [OF k] by (simp add: applied_def apply_ok_def a'_def)
qed

lemma apply_stage_ok:
  assumes ok: "apply_ok c a k" and line: "st_banner_line_id t \<in> line_ids (ba_db (ap_batch a))" "k \<le> st_banner_line_id t"
  shows "\<exists>a'. apply_stage c a t = (a', None) \<and> applied c a a' (st_banner_line_id t) []"
proof -
  let ?i = "st_banner_line_id t"
  obtain a1 where a1: "(if st_is_reset t then apply_reset c a t else (a, None)) = (a1, None)" "applied c a a1 ?i []"
    using apply_reset_ok [OF assms] applied_refl [OF apply_ok_mono [OF ok line(2)]] by (cases "st_is_reset t") auto
  then have ok1: "apply_ok c a1 ?i" and k1: "keeps (ap_batch a) (ap_batch a1)" by (simp_all add: applied_def)
  have "has_line (ba_db (ap_batch a1)) ?i" using line(1) keeps_has_line [OF k1] by (simp add: has_defs)
  then obtain i b where ap: "append_stage_after (ap_batch a1) (ac_session_id c) (ap_boot_id a1) (st_name t) (st_profile t) (st_at t)
      (Some ?i) (ap_stage_id a1) = Inr (i, b)"
    using append_stage_total [of "ap_batch a1" "ac_session_id c" "Some ?i"] ok1 by (fastforce simp: apply_ok_def)
  note k2 = append_stage_keeps [OF _ ap]
  have k2': "keeps (ap_batch a1) b" "tb_templates (ba_db b) = tb_templates (ba_db (ap_batch a1))"
    "tb_raw_lines (ba_db b) = tb_raw_lines (ba_db (ap_batch a1))" "tb_records (ba_db b) = tb_records (ba_db (ap_batch a1))"
    using k2 ok1 by (simp_all add: apply_ok_def)
  have "applied c a1 (a1\<lparr> ap_batch := b \<rparr>) ?i []"
    using apply_ok_batch [OF ok1 k2'(1,2,3)] k2' by (simp add: applied_def)
  from applied_trans [OF a1(2) this] have "applied c a (a1\<lparr> ap_batch := b \<rparr>) ?i []" by simp
  with a1 ap show ?thesis by (auto simp: apply_stage_def split: prod.splits)
qed

section \<open>Records\<close>

lemma note_versions_ok:
  assumes ok: "apply_ok c a k"
  shows "\<exists>b. note_versions c a r = Inr b \<and> applied c a (a\<lparr> ap_batch := b \<rparr>) k []"
proof (cases "case ap_boot_id a of Some x \<Rightarrow> Some x | None \<Rightarrow> ap_last_boot a")
  case None
  then show ?thesis using applied_refl [OF ok] by (simp add: note_versions_def)
next
  case (Some e)
  define I where "I b \<longleftrightarrow> keeps (ap_batch a) b \<and> tb_templates (ba_db b) = tb_templates (ba_db (ap_batch a)) \<and>
    tb_raw_lines (ba_db b) = tb_raw_lines (ba_db (ap_batch a)) \<and> tb_records (ba_db b) = tb_records (ba_db (ap_batch a))" for b
  have e: "has_boot (ba_db (ap_batch a)) e" using ok Some by (auto simp: apply_ok_def split: option.splits)
  have step: "\<exists>b'. note_version b e cmp v d l ts = Inr b' \<and> I b'" if "I b" for b cmp v d l ts
  proof -
    from that e have b: "has_boot (ba_db b) e" "batch_ok b" "keeps (ap_batch a) b" by (simp_all add: I_def keeps_def)
    then obtain b' where b': "note_version b e cmp v d l ts = Inr b'" using note_version_total by blast
    with note_version_keeps [OF b(2) b'] keeps_trans [OF b(3)] that show ?thesis by (auto simp: I_def)
  qed
  have "I (ap_batch a)" using ok by (simp add: I_def keeps_refl apply_ok_def)
  moreover define f where "f = (\<lambda>b (cmp, v, d). note_version b e cmp v d (Some (fr_first_line_id r)) (ac_now c))"
  have "\<exists>b'. f b x = Inr b' \<and> I b'" if "I b" for b x using step [OF that] by (cases x) (simp add: f_def)
  ultimately obtain b where b: "for_each f (ap_batch a) (versions_found c (fr_text r)) = Inr b" "I b"
    using for_each_total [of I "ap_batch a" "versions_found c (fr_text r)" f] by blast
  then have "applied c a (a\<lparr> ap_batch := b \<rparr>) k []"
    using apply_ok_batch [OF ok, of b] by (simp add: I_def applied_def)
  with b(1) Some show ?thesis by (simp add: note_versions_def f_def)
qed

lemma mine_record_ok:
  assumes ok: "apply_ok c a k"
  shows "\<exists>t a'. mine_record c a r = (Inr t, a') \<and> applied c a a' k [] \<and> opt_all (has_template (ba_db (ap_batch a'))) t \<and>
    ap_boot_id a' = ap_boot_id a"
proof (cases "fr_mine_key r")
  case None
  then show ?thesis using applied_refl [OF ok] by (simp add: mine_record_def)
next
  case (Some key)
  define tokens where "tokens = tokenize (case ProfileSet_get (ac_profiles c) (fr_profile r) of Some p \<Rightarrow> pf_tokenizer p | None \<Rightarrow> TokenizerRules_default) key"
  note a = ok [unfolded apply_ok_def]
  obtain m d where add: "add_tokens (ap_drain a) tokens = (m, d)" by fastforce
  have inv: "tree_inv (ap_drain a)" "ids_inv (ap_drain a)" "drain_mirror (ap_drain a) (tb_templates (ba_db (ap_batch a)))"
    using a by simp_all
  from mined_template [OF this add] obtain t where t: "Drain_template d (dm_template_id m) = Some t"
    "dm_created m \<longleftrightarrow> int (tpl_id t) \<notin> template_ids (ba_db (ap_batch a))" by blast
  obtain b where b: "Batch_note_template (ap_batch a) t (dm_created m) (dm_generalized m) (ac_session_id c) (ap_boot_id a)
      (ac_now c) (fr_stage r) (fr_profile r) (fr_severity r) = Inr b"
    using note_template_total [of "ap_batch a" "ac_session_id c" "dm_created m" t] a t(2) by (fastforce simp: has_defs)
  have k: "keeps (ap_batch a) b" "noted t (dm_created m) (dm_generalized m) (tb_templates (ba_db (ap_batch a))) (tb_templates (ba_db b))"
    "has_template (ba_db b) (int (tpl_id t))" "tb_raw_lines (ba_db b) = tb_raw_lines (ba_db (ap_batch a))"
    "tb_records (ba_db b) = tb_records (ba_db (ap_batch a))"
    using note_template_keeps [OF _ b] a by simp_all
  have d: "tree_inv d" "ids_inv d" "drain_mirror d (tb_templates (ba_db b))"
    using tree_inv_add [OF inv(1), of tokens] ids_inv_add [OF inv(1,2), of tokens] mirror_step [OF inv add t(1) k(2)] add by simp_all
  have "apply_ok c (a\<lparr> ap_drain := d, ap_batch := b \<rparr>) k"
    using a d k(1,4) keeps_session [OF k(1)] by (auto simp: apply_ok_def keeps_def opt_all_subset)
  then have "applied c a (a\<lparr> ap_drain := d, ap_batch := b \<rparr>) k []" using k(1,5) by (simp add: applied_def)
  then show ?thesis
    using Some add t(1) b k(3) applied_refl [OF ok] by (auto simp: mine_record_def Let_def simp flip: tokens_def)
qed

lemma apply_record_ok:
  assumes ok: "apply_ok c a k" and lines: "fr_first_line_id r \<in> line_ids (ba_db (ap_batch a))" "fr_last_line_id r \<in> line_ids (ba_db (ap_batch a))"
  shows "\<exists>a'. apply_record c a r = (a', None) \<and> applied c a a' k [(fr_first_line_id r, fr_last_line_id r, fr_line_count r)]"
proof -
  from note_versions_ok [OF ok, of r] obtain b1 where b1: "note_versions c a r = Inr b1" "applied c a (a\<lparr> ap_batch := b1 \<rparr>) k []" by blast
  then have ok1: "apply_ok c (a\<lparr> ap_batch := b1 \<rparr>) k" by (simp add: applied_def)
  from mine_record_ok [OF ok1, of r] obtain t a2 where a2: "mine_record c (a\<lparr> ap_batch := b1 \<rparr>) r = (Inr t, a2)"
    "applied c (a\<lparr> ap_batch := b1 \<rparr>) a2 k []" "opt_all (has_template (ba_db (ap_batch a2))) t" by blast
  from applied_trans [OF b1(2) a2(2)] have ap2: "applied c a a2 k []" by simp
  then have ok2: "apply_ok c a2 k" and k2: "keeps (ap_batch a) (ap_batch a2)" by (simp_all add: applied_def)
  have "has_line (ba_db (ap_batch a2)) (fr_first_line_id r)" "has_line (ba_db (ap_batch a2)) (fr_last_line_id r)"
    using lines keeps_has_line [OF k2] by (simp_all add: has_defs)
  then obtain i b3 where b3: "Batch_append_record (ap_batch a2) (pending_record c a2 r t) = Inr (i, b3)"
    using append_record_total [of "ap_batch a2" "pending_record c a2 r t"] ok2 a2(3) by (auto simp: pending_record_def apply_ok_def)
  have k3: "keeps (ap_batch a2) b3" "tb_templates (ba_db b3) = tb_templates (ba_db (ap_batch a2))"
    "tb_raw_lines (ba_db b3) = tb_raw_lines (ba_db (ap_batch a2))"
    "tb_records (ba_db b3) = tb_records (ba_db (ap_batch a2)) @ [record_of i (pending_record c a2 r t)]"
    using append_record_keeps [OF _ b3] ok2 by (simp_all add: apply_ok_def)
  have "row_extents [record_of i (pending_record c a2 r t)] = [(fr_first_line_id r, fr_last_line_id r, fr_line_count r)]"
    by (simp add: row_extents_def record_of_def pending_record_def)
  then have "applied c a2 (a2\<lparr> ap_batch := b3 \<rparr>) k [(fr_first_line_id r, fr_last_line_id r, fr_line_count r)]"
    using apply_ok_batch [OF ok2 k3(1,2,3)] k3(1,4) by (simp add: applied_def)
  from applied_trans [OF ap2 this] show ?thesis
    using b1(1) a2(1) b3 by (auto simp: apply_record_def)
qed

text \<open>The whole loop: the banners of the events ascend from \<open>k\<close> on and every line named is stored.\<close>

lemma apply_in_ok:
  assumes "apply_ok c a k" and "records_within (line_ids (ba_db (ap_batch a))) es"
    and "set (stage_ids es) \<subseteq> line_ids (ba_db (ap_batch a))" and "sorted (k # stage_ids es)"
  shows "\<exists>a' k'. apply_in c a es = (a', None) \<and> applied c a a' k' (event_extents es)"
  using assms
proof (induction es arbitrary: a k)
  case Nil
  then show ?case using applied_refl by auto
next
  case (Cons e es)
  have "\<exists>a1 k1. apply_event c a e = (a1, None) \<and> applied c a a1 k1 (event_extents [e]) \<and> sorted (k1 # stage_ids es)"
  proof (cases e)
    case (Stage t)
    then show ?thesis using apply_stage_ok [OF Cons.prems(1), of t] Cons.prems(3,4) by (auto intro!: exI [of _ "st_banner_line_id t"])
  next
    case (Record r)
    then show ?thesis using apply_record_ok [OF Cons.prems(1), of r] Cons.prems(2,4) by (auto simp: records_within_def intro!: exI [of _ k])
  qed
  then obtain a1 k1 where a1: "apply_event c a e = (a1, None)" "applied c a a1 k1 (event_extents [e])" "sorted (k1 # stage_ids es)" by blast
  then have k1: "apply_ok c a1 k1" "keeps (ap_batch a) (ap_batch a1)" by (simp_all add: applied_def)
  have ids: "line_ids (ba_db (ap_batch a1)) = line_ids (ba_db (ap_batch a))"
    using keeps_has_line [OF k1(2)] by (auto simp: has_defs)
  have "records_within (line_ids (ba_db (ap_batch a))) es" using Cons.prems(2) by (simp add: records_within_def)
  moreover have "set (stage_ids es) \<subseteq> line_ids (ba_db (ap_batch a))" using Cons.prems(3) by (cases e) simp_all
  ultimately obtain a' k' where "apply_in c a1 es = (a', None)" "applied c a1 a' k' (event_extents es)"
    using Cons.IH [OF k1(1)] a1(3) ids by auto
  moreover have "event_extents (e # es) = event_extents [e] @ event_extents es" by (cases e) simp_all
  ultimately show ?case using applied_trans [OF a1(2)] a1(1) by fastforce
qed

end
