(* ===== verification/Pipeline_Run.thy ===== *)
theory Pipeline_Run
  imports Pipeline_Apply
begin

text \<open>
  The running pipeline: its invariant, that \<^verbatim>\<open>feed\<close>, \<^verbatim>\<open>tick\<close> and \<^verbatim>\<open>finish\<close> succeed under it and
  keep it, and that together they store the fed bytes, every line in exactly one record.
\<close>

section \<open>The invariant\<close>

text \<open>\<open>P\<close> are the lines the framer was offered and has not reported yet.\<close>

definition pipe_ok :: "Pipeline \<Rightarrow> int list \<Rightarrow> bool" where
  "pipe_ok p P \<longleftrightarrow>
     store_ok (pl_store p) \<and> has_session (ds_db (pl_store p)) (pl_session_id p) \<and>
     opt_all (has_boot (ds_db (pl_store p))) (pl_boot_id p) \<and> opt_all (has_boot (ds_db (pl_store p))) (pl_last_boot p) \<and>
     framer_inv P (pl_framer p) \<and> set P \<subseteq> line_ids (ds_db (pl_store p)) \<and>
     tree_inv (pl_drain p) \<and> ids_inv (pl_drain p) \<and> drain_mirror (pl_drain p) (tb_templates (ds_db (pl_store p))) \<and>
     ls_out (pl_splitter p) = []"

text \<open>What a step that succeeds does to the store: the bytes it stores, the ids of the new lines, the
  extents of the new records, and the books of the epochs as they were.\<close>

definition advances :: "DeviceStore \<Rightarrow> DeviceStore \<Rightarrow> byte list \<Rightarrow> int list \<Rightarrow> extent list \<Rightarrow> bool" where
  "advances s s' new ids xs \<longleftrightarrow>
     stored_stream (ds_db s') = stored_stream (ds_db s) @ new \<and> ds_stream_offset s' = ds_stream_offset s + length new \<and>
     map lr_id (tb_raw_lines (ds_db s')) = map lr_id (tb_raw_lines (ds_db s)) @ ids \<and>
     row_extents (tb_records (ds_db s')) = row_extents (tb_records (ds_db s)) @ xs \<and>
     (\<forall>e. surplus (ds_db s') e = surplus (ds_db s) e)"

lemma advances_refl: "advances s s [] [] []"
  by (simp add: advances_def)

lemma advances_trans: "advances s1 s2 x ids xs \<Longrightarrow> advances s2 s3 y ids' ys \<Longrightarrow> advances s1 s3 (x @ y) (ids @ ids') (xs @ ys)"
  by (simp add: advances_def)

section \<open>The store operations around a batch\<close>

lemma commit_columns:
  assumes "batch_ok b"
  shows "session_ids (snd (Batch_commit b)) = session_ids (ba_db b)" "boot_ids (snd (Batch_commit b)) = boot_ids (ba_db b)"
  using assms by (simp_all add: Batch_commit_def Let_def set_commit_sessions commit_boots_columns batch_ok_def)

text \<open>Committing a batch that only grew by operations that keep it.\<close>

lemma finish_keeps:
  assumes s: "store_ok s" and k: "keeps (plain_batch s) b"
  shows "store_ok (finish_batch s b) \<and> advances s (finish_batch s b) [] [] [] = (row_extents (tb_records (ba_db b)) = row_extents (tb_records (ds_db s)))"
proof -
  have lines: "map line_core (tb_raw_lines (ba_db b)) = map line_core (tb_raw_lines (ds_db s))" and off: "ba_offset b = ds_stream_offset s"
    and bal: "\<And>e. balance b e = surplus (ds_db s) e"
    using k plain_balance by (simp_all add: keeps_def plain_batch_def)
  have offs: "map lr_stream_offset (tb_raw_lines (ba_db b)) = map lr_stream_offset (tb_raw_lines (ds_db s))"
    and ids: "map lr_id (tb_raw_lines (ba_db b)) = map lr_id (tb_raw_lines (ds_db s))"
    by (rule core_map [OF lines]; simp)+
  have low: "ds_pruned_before s \<le> lr_stream_offset l" if "l \<in> set (tb_raw_lines (ba_db b))" for l
  proof -
    have "lr_stream_offset l \<in> lr_stream_offset ` set (tb_raw_lines (ds_db s))"
      using imageI [OF that, of lr_stream_offset] offs by (simp only: set_map [symmetric])
    then show ?thesis using s by (auto simp: store_ok_def)
  qed
  have "store_ok (finish_batch s b) \<and> (\<forall>e. surplus (ds_db (finish_batch s b)) e = surplus (ds_db s) e)"
    by (rule finish_batch_ok [OF _ bal s]) (use k off low in \<open>simp_all add: keeps_def\<close>)
  moreover have "stored_stream (ba_db b) = stored_stream (ds_db s)" using keeps_stream [OF k] by (simp add: plain_batch_def)
  ultimately show ?thesis
    using off ids by (simp add: advances_def finish_batch_db commit_lines stored_stream_def)
qed

lemma set_boot_summary_advances:
  assumes "store_ok s"
  shows "store_ok (set_boot_summary s e fp oc) \<and> advances s (set_boot_summary s e fp oc) [] [] [] \<and>
    session_ids (ds_db (set_boot_summary s e fp oc)) = session_ids (ds_db s) \<and> boot_ids (ds_db (set_boot_summary s e fp oc)) = boot_ids (ds_db s) \<and>
    tb_templates (ds_db (set_boot_summary s e fp oc)) = tb_templates (ds_db s) \<and>
    line_ids (ds_db (set_boot_summary s e fp oc)) = line_ids (ds_db s)"
proof -
  let ?b = "Batch_set_boot_summary (plain_batch s) e fp oc"
  note k = set_boot_summary_keeps [OF plain_batch_ok [OF assms], of e fp oc]
  have b: "batch_ok ?b" using k by (simp add: keeps_def)
  have eq: "set_boot_summary s e fp oc = finish_batch s ?b" by (simp add: set_boot_summary_def begin_batch_ok [OF assms])
  have cols: "session_ids (ba_db ?b) = session_ids (ds_db s)" "boot_ids (ba_db ?b) = boot_ids (ds_db s)"
    by (simp_all add: Batch_set_boot_summary_def Let_def plain_batch_def image_update_where)
  have db: "ba_db (plain_batch s) = ds_db s" by (simp add: plain_batch_def)
  have "store_ok (finish_batch s ?b)" "advances s (finish_batch s ?b) [] [] []"
    using finish_keeps [OF assms, of ?b] k db by simp_all
  with k cols db show ?thesis by (simp add: eq finish_batch_db commit_columns [OF b] commit_lines)
qed

lemma open_boot_advances:
  assumes "store_ok s" and "opened_by \<in> set OPENED_BY" and "opt_all (has_session (ds_db s)) se"
  shows "\<exists>row s'. open_boot s opened_by label at1 se = (Inr row, s') \<and> store_ok s' \<and> advances s s' [] [] [] \<and>
    session_ids (ds_db s') = session_ids (ds_db s) \<and> insert (ep_id row) (boot_ids (ds_db s)) \<subseteq> boot_ids (ds_db s') \<and>
    tb_templates (ds_db s') = tb_templates (ds_db s) \<and> line_ids (ds_db s') = line_ids (ds_db s)"
proof -
  let ?b = "plain_batch s"
  have ok: "batch_ok ?b" by (rule plain_batch_ok [OF assms(1)])
  have db: "ba_db ?b = ds_db s" by (simp add: plain_batch_def)
  obtain n b' where op: "open_boot_after ?b opened_by label at1 se None None True = Inr (n, b')"
    using open_boot_after_total [of opened_by ?b se label at1 None None True] assms(2,3) db by auto
  note k = open_boot_after_keeps [OF ok op]
  obtain P where b': "b' = ?b\<lparr> ba_db := (ba_db ?b)\<lparr> tb_boots := close_boots P at1 (tb_boots (ba_db ?b)) @
       [boot_of n (next_seq (ba_db ?b)) opened_by label at1 se (ba_offset ?b)] \<rparr> \<rparr>"
    by (rule open_boot_after_eq [OF op]) simp
  have okb: "batch_ok b'" using k by (simp add: keeps_def)
  have same: "tb_records (ba_db b') = tb_records (ds_db s)" "line_ids (ba_db b') = line_ids (ds_db s)"
    "session_ids (ba_db b') = session_ids (ds_db s)" "boot_ids (ba_db b') = insert n (boot_ids (ds_db s))"
    by (simp_all add: b' db)
  let ?s = "finish_batch s b'"
  have fin: "store_ok ?s" "advances s ?s [] [] []" using finish_keeps [OF assms(1), of b'] k same by simp_all
  have boots: "boot_ids (ds_db ?s) = insert n (boot_ids (ds_db s))" by (simp add: finish_batch_db commit_columns [OF okb] same)
  then obtain row where row: "row \<in> set (tb_boots (ds_db ?s))" "ep_id row = n" by (metis imageE insertI1)
  have "keys_ok (ds_db ?s)" using fin(1) by (simp add: store_ok_def tables_ok_def)
  then have "boot ?s n = Inr row" using find_key_unique [OF distinct_boots row(1)] row(2) by (simp add: boot_def)
  then have "open_boot s opened_by label at1 se = (Inr row, ?s)"
    by (simp add: open_boot_def open_boot_at_def in_batch_def begin_batch_ok [OF assms(1)] op)
  with fin boots row k same show ?thesis
    by (intro exI [of _ row] exI [of _ ?s]) (simp add: finish_batch_db commit_columns [OF okb] commit_lines db)
qed

text \<open>Updates of tables the invariant does not read.\<close>

lemma pending_tail_advances [simp]:
  "store_ok (set_pending_tail s txt ts) = store_ok s" "advances s (set_pending_tail s txt ts) [] [] []"
  "tb_sessions (ds_db (set_pending_tail s txt ts)) = tb_sessions (ds_db s)" "tb_boots (ds_db (set_pending_tail s txt ts)) = tb_boots (ds_db s)"
  "tb_templates (ds_db (set_pending_tail s txt ts)) = tb_templates (ds_db s)" "tb_raw_lines (ds_db (set_pending_tail s txt ts)) = tb_raw_lines (ds_db s)"
  by (simp_all add: set_pending_tail_def Let_def advances_def store_ok_def tables_ok_def stream_ok_def refs_ok_def keys_ok_def
      surplus_def booked_def attributed_def stored_stream_def)

text \<open>Sessions may be added and changed as long as their ids stay ascending.\<close>

lemma store_ok_sessions:
  assumes "store_ok s" and "sorted_wrt (<) (map se_id ss)" and "session_ids (ds_db s) \<subseteq> se_id ` set ss"
  shows "store_ok (s\<lparr> ds_db := (ds_db s)\<lparr> tb_sessions := ss \<rparr> \<rparr>) \<and> advances s (s\<lparr> ds_db := (ds_db s)\<lparr> tb_sessions := ss \<rparr> \<rparr>) [] [] []"
proof -
  have "refs_ok ((ds_db s)\<lparr> tb_sessions := ss \<rparr>)"
    using assms(1) order_trans [OF _ assms(3)] by (simp add: store_ok_def tables_ok_def refs_ok_def)
  with assms(1,2) show ?thesis
    by (simp add: store_ok_def tables_ok_def stream_ok_def keys_ok_def surplus_def booked_def attributed_def advances_def stored_stream_def)
qed

lemma begin_session_advances:
  assumes s: "store_ok s" and op: "begin_session s src now label sha path = (i, s')"
  shows "store_ok s' \<and> advances s s' [] [] [] \<and> session_ids (ds_db s') = insert i (session_ids (ds_db s)) \<and>
    tb_boots (ds_db s') = tb_boots (ds_db s) \<and> tb_templates (ds_db s') = tb_templates (ds_db s) \<and> tb_raw_lines (ds_db s') = tb_raw_lines (ds_db s)"
proof -
  define row where "row = last (tb_sessions (ds_db s'))"
  from op have i: "i = next_id (map se_id (tb_sessions (ds_db s)))" "se_id row = i"
    and s': "s' = s\<lparr> ds_db := (ds_db s)\<lparr> tb_sessions := tb_sessions (ds_db s) @ [row] \<rparr> \<rparr>"
    by (auto simp: begin_session_def Let_def row_def)
  have "sorted_wrt (<) (map se_id (tb_sessions (ds_db s) @ [row]))"
    using s sorted_next_id [of "map se_id (tb_sessions (ds_db s))"] i by (simp add: store_ok_def tables_ok_def keys_ok_def)
  from store_ok_sessions [OF s this] i s' show ?thesis by auto
qed

lemma end_session_advances:
  assumes s: "store_ok s" and se: "has_session (ds_db s) i"
  shows "\<exists>s'. end_session s i now = (Inr (), s') \<and> store_ok s' \<and> advances s s' [] [] [] \<and> session_ids (ds_db s') = session_ids (ds_db s) \<and>
    tb_boots (ds_db s') = tb_boots (ds_db s) \<and> tb_templates (ds_db s') = tb_templates (ds_db s) \<and> tb_raw_lines (ds_db s') = tb_raw_lines (ds_db s)"
proof -
  let ?ss = "update_where (\<lambda>r. se_id r = i \<and> se_ended_at r = None) (\<lambda>r. r\<lparr> se_ended_at := Some now \<rparr>) (tb_sessions (ds_db s))"
  let ?s = "s\<lparr> ds_db := (ds_db s)\<lparr> tb_sessions := ?ss \<rparr> \<rparr>"
  have ids: "map se_id ?ss = map se_id (tb_sessions (ds_db s))" "se_id ` set ?ss = session_ids (ds_db s)"
    by (rule map_update_where image_update_where; simp)+
  have "session s i \<noteq> Inl UnknownSession"
    using se by (auto simp: session_def ok_or_def has_defs find_None_iff split: option.split)
  then have "end_session s i now = (Inr (), ?s)" by (simp add: end_session_def Let_def)
  with store_ok_sessions [OF s, of ?ss] ids s show ?thesis
    by (intro exI [of _ ?s]) (simp add: store_ok_def tables_ok_def keys_ok_def)
qed

section \<open>Committing what apply did\<close>

lemma apply_done_fields [simp]:
  "pl_splitter (snd (apply_done p r)) = pl_splitter p" "pl_framer (snd (apply_done p r)) = pl_framer p"
  "pl_session_id (snd (apply_done p r)) = pl_session_id p" "pl_sampled_out (snd (apply_done p r)) = pl_sampled_out p"
  by (simp_all add: apply_done_def split_beta Let_def split: option.split)

lemma apply_done_ok:
  assumes s: "store_ok (pl_store p)" and a: "apply_ok c a k" and se: "ac_session_id c = pl_session_id p"
    and bal: "\<And>e. balance (ap_batch a) e = surplus (ds_db (pl_store p)) e" and off: "ds_stream_offset (pl_store p) \<le> ba_offset (ap_batch a)"
    and low: "\<And>l. l \<in> set (tb_raw_lines (ba_db (ap_batch a))) \<Longrightarrow> ds_pruned_before (pl_store p) \<le> lr_stream_offset l"
    and fr: "framer_inv P (pl_framer p)" "set P \<subseteq> line_ids (ba_db (ap_batch a))" "ls_out (pl_splitter p) = []"
  shows "apply_done p (a, None) = (Inr (ap_out a), snd (apply_done p (a, None))) \<and> pipe_ok (snd (apply_done p (a, None))) P \<and>
    pl_store (snd (apply_done p (a, None))) = finish_batch (pl_store p) (ap_batch a) \<and>
    (\<forall>e. surplus (ds_db (finish_batch (pl_store p) (ap_batch a))) e = surplus (ds_db (pl_store p)) e)"
proof -
  note a' = a [unfolded apply_ok_def]
  then have b: "batch_ok (ap_batch a)" by simp
  have fin: "store_ok (finish_batch (pl_store p) (ap_batch a))"
    "\<And>e. surplus (ds_db (finish_batch (pl_store p) (ap_batch a))) e = surplus (ds_db (pl_store p)) e"
    using finish_batch_ok [OF b bal s off low] by simp_all
  have "pipe_ok (snd (apply_done p (a, None))) P"
    using a' fin(1) fr se
    by (simp add: pipe_ok_def apply_done_def Let_def finish_batch_db commit_lines has_defs commit_columns [OF b])
  with fin(2) show ?thesis by (simp add: apply_done_def Let_def)
qed

text \<open>The invariant seen from an open batch.\<close>

lemma apply_state_ok:
  assumes p: "pipe_ok p P" and b: "batch_ok b" "session_ids (ba_db b) = session_ids (ds_db (pl_store p))"
      "boot_ids (ba_db b) = boot_ids (ds_db (pl_store p))" "tb_templates (ba_db b) = tb_templates (ds_db (pl_store p))"
    and new: "\<And>l. l \<in> set (tb_raw_lines (ba_db b)) \<Longrightarrow> k \<le> lr_id l \<Longrightarrow> lr_session_id l = pl_session_id p \<and> lr_boot_id l = pl_boot_id p"
  shows "apply_ok (apply_ctx env p now) (apply_state p b) k"
  using assms by (simp add: apply_ok_def apply_ctx_def apply_state_def pipe_ok_def has_defs)

section \<open>Consuming lines\<close>

definition pending_of :: "Pipeline \<Rightarrow> int \<Rightarrow> int \<Rightarrow> Line list \<Rightarrow> PendingLine list" where
  "pending_of p now ns lines = map (\<lambda>l. (PendingLine_from_line l ns now)\<lparr> pe_stage_id := pl_stage_id p \<rparr>) lines"

lemma pending_of_facts:
  "length (pending_of p now ns lines) = length lines"
  "concat (map pending_raw (pending_of p now ns lines)) = reassemble lines"
  "sum_list (map PendingLine_consumed (pending_of p now ns lines)) = length (reassemble lines)"
  "list_all (\<lambda>l. Line_consumed l > 0) lines \<Longrightarrow> list_all (\<lambda>l. PendingLine_consumed l > 0) (pending_of p now ns lines)"
  by (induction lines) (simp_all add: pending_of_def pending_raw_def PendingLine_from_line_def PendingLine_consumed_def Line_consumed_def)

text \<open>The lines appended: consistent tables, ids from \<open>k\<close> on, the current session and epoch.\<close>

definition appended :: "Pipeline \<Rightarrow> Batch \<Rightarrow> PendingLine list \<Rightarrow> LineRow list \<Rightarrow> bool" where
  "appended p b pls rows \<longleftrightarrow> batch_ok b \<and> (\<forall>e. balance b e = surplus (ds_db (pl_store p)) e) \<and>
     ba_db b = (ds_db (pl_store p))\<lparr> tb_raw_lines := tb_raw_lines (ds_db (pl_store p)) @ rows \<rparr> \<and>
     ba_offset b = ds_stream_offset (pl_store p) + length (concat (map pending_raw pls)) \<and>
     map LineRow_raw rows = map pending_raw pls \<and> sorted_wrt (<) (map lr_id rows) \<and>
     (\<forall>l\<in>set rows. next_id (map lr_id (tb_raw_lines (ds_db (pl_store p)))) \<le> lr_id l \<and> lr_session_id l = pl_session_id p \<and>
        lr_boot_id l = pl_boot_id p \<and> ds_stream_offset (pl_store p) \<le> lr_stream_offset l)"

lemma consume_appends:
  assumes p: "pipe_ok p P" and pos: "list_all (\<lambda>l. PendingLine_consumed l > 0) pls"
  shows "\<exists>rows b. Batch_append_lines (plain_batch (pl_store p)) (pl_session_id p) (pl_boot_id p) pls = Inr (map row_ref rows, b) \<and>
    length rows = length pls \<and> appended p b pls rows"
proof -
  let ?b = "plain_batch (pl_store p)"
  have s: "store_ok (pl_store p)" and ids: "has_session (ds_db (pl_store p)) (pl_session_id p)" "opt_all (has_boot (ds_db (pl_store p))) (pl_boot_id p)"
    using p by (simp_all add: pipe_ok_def)
  have ok: "batch_ok ?b" by (rule plain_batch_ok [OF s])
  have db: "ba_db ?b = ds_db (pl_store p)" "ba_offset ?b = ds_stream_offset (pl_store p)" by (simp_all add: plain_batch_def)
  define rows where "rows = add_rows ?b (pl_session_id p) (pl_boot_id p) pls"
  from Batch_append_lines_eq [OF batch_stream [OF ok] _ pos, of "pl_session_id p" "pl_boot_id p"] ids db obtain b where
    b: "Batch_append_lines ?b (pl_session_id p) (pl_boot_id p) pls = Inr (map row_ref rows, b)"
      "ba_db b = ba_db (with_rows ?b rows)" "ba_offset b = ba_offset (with_rows ?b rows)" by (auto simp: rows_def)
  have k: "batch_ok b" "\<And>e. balance b e = surplus (ds_db (pl_store p)) e"
    using batch_ok_with_rows [OF ok _ _ pos b(1)] ids db by (simp_all add: plain_balance)
  have fields: "lr_session_id l = pl_session_id p \<and> lr_boot_id l = pl_boot_id p \<and> next_id (map lr_id (tb_raw_lines (ds_db (pl_store p)))) \<le> lr_id l"
    if "l \<in> set rows" for l
    using new_rows_fields [of l] that by (auto simp: rows_def add_rows_def db)
  have offs: "ds_stream_offset (pl_store p) \<le> lr_stream_offset l" if "l \<in> set rows" for l
    using contiguous_bounds [OF new_rows_contiguous [OF pos]] that by (simp add: rows_def add_rows_def db)
  have "sum_list (map LineRow_consumed rows) = length (concat (map pending_raw pls))"
    by (simp add: rows_def add_rows_def new_rows_consumed length_concat comp_def)
  moreover have "map LineRow_raw rows = map pending_raw pls" by (simp add: rows_def add_rows_def new_rows_raw)
  moreover have "sorted_wrt (<) (map lr_id rows)" by (simp add: rows_def add_rows_def new_rows_ids)
  moreover have "length rows = length pls" by (simp add: rows_def add_rows_def)
  ultimately show ?thesis
    using b k fields offs by (intro exI [of _ rows] exI [of _ b]) (simp add: appended_def with_rows_def db)
qed

text \<open>The framing of the block: the events name stored lines, banners ascend from the first new line,
  and unless lines were left out the records tile what was pending and the new lines.\<close>

definition block :: "Line list \<Rightarrow> LineRow list \<Rightarrow> (nat \<times> Line \<times> LineRef) list" where
  "block lines rows = zip [0..<length lines] (zip lines (map row_ref rows))"

lemma block_ids: "length rows = length lines \<Longrightarrow> map (\<lambda>x. ref_id (snd (snd x))) (block lines rows) = map lr_id rows"
  by (intro nth_equalityI) (simp_all add: block_def row_ref_def)

lemma sorted_sublist: "sorted_wrt (<) (map f xs) \<Longrightarrow> sorted_wrt (<) (map f (filter Q xs))"
  by (induction xs) auto

lemma framed_block:
  assumes inv: "framer_inv P (fg_framer g)" and g: "fg_events g = []" and len: "length rows = length lines"
    and sorted: "sorted_wrt (<) (map lr_id rows)" and h: "h = foldl (frame_line env binary over ts_wall ts_mono) g (block lines rows)"
  shows "\<exists>P'. framer_inv P' (fg_framer h) \<and> set P' \<subseteq> set P \<union> lr_id ` set rows \<and>
    records_within (set P \<union> lr_id ` set rows) (fg_events h) \<and> sorted (stage_ids (fg_events h)) \<and>
    set (stage_ids (fg_events h)) \<subseteq> lr_id ` set rows \<and> fg_sampled_out g \<le> fg_sampled_out h \<and>
    (fg_sampled_out h = fg_sampled_out g \<longrightarrow> extents_tile (P @ map lr_id rows) (event_extents (fg_events h)) P')"
proof -
  let ?keep = "filter (\<lambda>x. \<not> (over \<and> fst x mod 16 \<noteq> 0)) (block lines rows)"
  obtain ins where ins: "map fi_line_id ins = map (\<lambda>x. ref_id (snd (snd x))) ?keep"
    "fg_events h = fst (framer_run (env_generic env) (fg_framer g) (map Inl ins))"
    "fg_framer h = snd (framer_run (env_generic env) (fg_framer g) (map Inl ins))"
    "fg_sampled_out h = fg_sampled_out g + length (filter (\<lambda>x. over \<and> fst x mod 16 \<noteq> 0) (block lines rows))"
    using framing_loop [of over "block lines rows" env binary ts_wall ts_mono g] g unfolding h by auto
  have off: "framer.offered (map Inl ins) = map fi_line_id ins" by (induction ins) simp_all
  obtain P' where P': "framer_inv P' (fg_framer h)" "tiles (P @ map fi_line_id ins) (fg_events h) P'"
    using framer.run_tiles [OF inv, of "env_generic env" "map Inl ins"] ins(2,3) off by (auto simp: framer_run_eq)
  have all: "map (\<lambda>x. ref_id (snd (snd x))) (block lines rows) = map lr_id rows" by (rule block_ids [OF len])
  have sub: "set (map fi_line_id ins) \<subseteq> lr_id ` set rows"
  proof -
    have "set (map fi_line_id ins) \<subseteq> set (map (\<lambda>x. ref_id (snd (snd x))) (block lines rows))" by (auto simp: ins(1))
    then show ?thesis by (simp add: all del: set_map) simp
  qed
  have srt: "sorted_wrt (<) (map fi_line_id ins)"
    unfolding ins(1) using sorted_sublist [where f = "\<lambda>x. ref_id (snd (snd x))" and xs = "block lines rows"] sorted all by simp
  note st = stage_ids_run [OF srt, of "env_generic env" "fg_framer g"]
  have within: "records_within (set P \<union> lr_id ` set rows) (fg_events h)" "set P' \<subseteq> set P \<union> lr_id ` set rows"
  proof -
    have up: "set (P @ map fi_line_id ins) \<subseteq> set P \<union> lr_id ` set rows" using sub by auto
    show "records_within (set P \<union> lr_id ` set rows) (fg_events h)" "set P' \<subseteq> set P \<union> lr_id ` set rows"
      using tiles_within [OF P'(2)] records_within_mono [OF _ up] order_trans [OF _ up] by blast+
  qed
  have "extents_tile (P @ map lr_id rows) (event_extents (fg_events h)) P'" if "fg_sampled_out h = fg_sampled_out g"
  proof -
    have "filter (\<lambda>x. over \<and> fst x mod 16 \<noteq> 0) (block lines rows) = []" using that ins(4) by simp
    then have "?keep = block lines rows" by (auto simp: filter_empty_conv filter_id_conv)
    then have "map fi_line_id ins = map lr_id rows" using ins(1) all by simp
    with tiles_extents [OF P'(2)] show ?thesis by simp
  qed
  moreover have "sorted (stage_ids (fg_events h))" "set (stage_ids (fg_events h)) \<subseteq> lr_id ` set rows"
    using st sub ins(2) by auto
  ultimately show ?thesis using P'(1) within ins(4) by auto
qed

text \<open>Committing the block after operations that keep it.\<close>

lemma committed_block:
  assumes s: "store_ok (pl_store p)" and b: "appended p b pls rows" and k: "keeps b b'"
    and recs: "row_extents (tb_records (ba_db b')) = row_extents (tb_records (ds_db (pl_store p))) @ xs"
  shows "ds_stream_offset (pl_store p) \<le> ba_offset b' \<and> (\<forall>e. balance b' e = surplus (ds_db (pl_store p)) e) \<and>
    (\<forall>l\<in>set (tb_raw_lines (ba_db b')). ds_pruned_before (pl_store p) \<le> lr_stream_offset l) \<and>
    advances (pl_store p) (finish_batch (pl_store p) b') (concat (map pending_raw pls)) (map lr_id rows) xs"
proof -
  let ?db = "ds_db (pl_store p)"
  note b' = b [unfolded appended_def]
  have core: "map line_core (tb_raw_lines (ba_db b')) = map line_core (tb_raw_lines ?db @ rows)"
    using k b' by (simp add: keeps_def)
  have ids: "map lr_id (tb_raw_lines (ba_db b')) = map lr_id (tb_raw_lines ?db) @ map lr_id rows"
    and offs: "map lr_stream_offset (tb_raw_lines (ba_db b')) = map lr_stream_offset (tb_raw_lines ?db @ rows)"
    and raws: "map LineRow_raw (tb_raw_lines (ba_db b')) = map LineRow_raw (tb_raw_lines ?db) @ map pending_raw pls"
    using core_map [OF core, of lr_id] core_map [OF core, of lr_stream_offset] core_map [OF core, of LineRow_raw] b' by simp_all
  have low: "ds_pruned_before (pl_store p) \<le> lr_stream_offset l" if "l \<in> set (tb_raw_lines (ba_db b'))" for l
  proof -
    have "lr_stream_offset l \<in> lr_stream_offset ` set (tb_raw_lines ?db @ rows)"
      using imageI [OF that, of lr_stream_offset] offs by (simp only: set_map [symmetric])
    then show ?thesis using s b' by (fastforce simp: store_ok_def)
  qed
  have off: "ba_offset b' = ds_stream_offset (pl_store p) + length (concat (map pending_raw pls))" using k b' by (simp add: keeps_def)
  have bal: "\<And>e. balance b' e = surplus ?db e" and ok: "batch_ok b'" using k b' by (simp_all add: keeps_def)
  have "surplus (ds_db (finish_batch (pl_store p) b')) e = surplus ?db e" for e
    using finish_batch_ok [OF ok bal s _ low] off by simp
  with low off bal ids raws recs show ?thesis by (simp add: advances_def finish_batch_db commit_lines stored_stream_def)
qed

definition framing_start :: "Pipeline \<Rightarrow> Framing" where
  "framing_start p = \<lparr> fg_garbage = pl_garbage p, fg_framer = pl_framer p, fg_events = [], fg_garbage_lines = 0,
     fg_sampled_out = pl_sampled_out p \<rparr>"

text \<open>\<^verbatim>\<open>consume\<close> with its intermediate results named.\<close>

lemma consume_eq:
  assumes "lines \<noteq> []" and "store_ok (pl_store p)"
    and "Batch_append_lines (plain_batch (pl_store p)) (pl_session_id p) (pl_boot_id p) (pending_of p now ns lines) = Inr (map row_ref rows, b)"
    and "h = foldl (frame_line env (pl_binary p) (length rows > pl_sample_above p) now ns) (framing_start p) (block lines rows)"
    and "q = p\<lparr> pl_degraded := length rows > pl_sample_above p, pl_garbage := fg_garbage h, pl_framer := fg_framer h, pl_sampled_out := fg_sampled_out h \<rparr>"
    and "apply_in (apply_ctx env q now) (apply_state q b) (fg_events h) = (a, None)"
  shows "\<exists>out. consume env p now ns lines = (Inr out, snd (apply_done q (a, None)))"
  using assms(1) begin_batch_ok [OF assms(2)] assms(3,6)
  by (simp add: consume_def Let_def flip: pending_of_def block_def framing_start_def)
     (simp add: assms(4,5) apply_done_def Let_def)

lemma consume_ok:
  assumes p: "pipe_ok p P" and pos: "list_all (\<lambda>l. Line_consumed l > 0) lines"
  shows "\<exists>out p' P' ids xs. consume env p now ns lines = (Inr out, p') \<and> pipe_ok p' P' \<and>
    advances (pl_store p) (pl_store p') (reassemble lines) ids xs \<and> pl_splitter p' = pl_splitter p \<and> pl_session_id p' = pl_session_id p \<and>
    pl_sampled_out p \<le> pl_sampled_out p' \<and> (pl_sampled_out p' = pl_sampled_out p \<longrightarrow> extents_tile (P @ ids) xs P')"
proof (cases "lines = []")
  case True
  have "consume env p now ns lines = (Inr FeedOutcome_default, p)" "advances (pl_store p) (pl_store p) (reassemble lines) [] []"
    "extents_tile (P @ []) [] P"
    using True by (simp_all add: consume_def advances_refl)
  with p show ?thesis by blast
next
  case False
  let ?pls = "pending_of p now ns lines" and ?db = "ds_db (pl_store p)"
  note pf = pending_of_facts [where p = p and now = now and ns = ns and lines = lines]
  have s: "store_ok (pl_store p)" and fr: "framer_inv P (pl_framer p)" "set P \<subseteq> line_ids ?db" using p by (simp_all add: pipe_ok_def)
  obtain rows b where ap: "Batch_append_lines (plain_batch (pl_store p)) (pl_session_id p) (pl_boot_id p) ?pls = Inr (map row_ref rows, b)"
    and len: "length rows = length lines" and b: "appended p b ?pls rows"
    using consume_appends [OF p pf(4) [OF pos]] pf(1) by auto
  note b' = b [unfolded appended_def]
  define h where "h = foldl (frame_line env (pl_binary p) (length rows > pl_sample_above p) now ns) (framing_start p) (block lines rows)"
  define q where "q = p\<lparr> pl_degraded := length rows > pl_sample_above p, pl_garbage := fg_garbage h, pl_framer := fg_framer h, pl_sampled_out := fg_sampled_out h \<rparr>"
  have srt: "sorted_wrt (<) (map lr_id rows)" using b' by simp
  obtain P' where P': "framer_inv P' (fg_framer h)" "set P' \<subseteq> set P \<union> lr_id ` set rows" "records_within (set P \<union> lr_id ` set rows) (fg_events h)"
    "sorted (stage_ids (fg_events h))" "set (stage_ids (fg_events h)) \<subseteq> lr_id ` set rows" "pl_sampled_out p \<le> fg_sampled_out h"
    "fg_sampled_out h = pl_sampled_out p \<Longrightarrow> extents_tile (P @ map lr_id rows) (event_extents (fg_events h)) P'"
    using framed_block [where g = "framing_start p" and P = P, OF _ _ len srt h_def] fr(1) by (auto simp: framing_start_def)
  let ?k = "next_id (map lr_id (tb_raw_lines ?db))"
  have lines: "line_ids (ba_db b) = line_ids ?db \<union> lr_id ` set rows" using b' by (simp add: image_Un)
  have new: "lr_session_id l = pl_session_id p \<and> lr_boot_id l = pl_boot_id p" if "l \<in> set (tb_raw_lines (ba_db b))" "?k \<le> lr_id l" for l
    using that b' next_id_fresh [of "lr_id l" "map lr_id (tb_raw_lines ?db)"] by auto
  have a0: "apply_ok (apply_ctx env q now) (apply_state q b) ?k"
    using apply_state_ok [OF p, of b ?k] b' new by (simp add: apply_ctx_def apply_state_def q_def)
  have sub: "set P \<union> lr_id ` set rows \<subseteq> line_ids (ba_db b)" using fr(2) lines by auto
  have "sorted (?k # stage_ids (fg_events h))"
  proof -
    have "?k \<le> i" if "i \<in> set (stage_ids (fg_events h))" for i using that P'(5) b' by auto
    then show ?thesis using P'(4) by simp
  qed
  moreover have "set (stage_ids (fg_events h)) \<subseteq> line_ids (ba_db b)" using P'(5) sub by blast
  moreover have "records_within (line_ids (ba_db b)) (fg_events h)" by (rule records_within_mono [OF P'(3) sub])
  ultimately obtain a k' where a: "apply_in (apply_ctx env q now) (apply_state q b) (fg_events h) = (a, None)"
    "applied (apply_ctx env q now) (apply_state q b) a k' (event_extents (fg_events h))"
    using apply_in_ok [OF a0, of "fg_events h"] by (auto simp: apply_state_def)
  then have aok: "apply_ok (apply_ctx env q now) a k'" and keep: "keeps b (ap_batch a)"
    and recs: "row_extents (tb_records (ba_db (ap_batch a))) = row_extents (tb_records ?db) @ event_extents (fg_events h)"
    using b' by (simp_all add: applied_def apply_state_def)
  note com = committed_block [OF s b keep recs]
  have inP: "set P' \<subseteq> line_ids (ba_db (ap_batch a))"
    using order_trans [OF P'(2) sub] keeps_has_line [OF keep] by (simp add: has_defs subset_iff)
  have qf: "pl_store q = pl_store p" "pl_framer q = fg_framer h" "ls_out (pl_splitter q) = []" "ac_session_id (apply_ctx env q now) = pl_session_id q"
    using p by (simp_all add: q_def apply_ctx_def pipe_ok_def)
  let ?p' = "snd (apply_done q (a, None))"
  have done1: "pipe_ok ?p' P'" "pl_store ?p' = finish_batch (pl_store p) (ap_batch a)"
    using apply_done_ok [where p = q and P = P', OF _ aok] s com P'(1) inP qf by simp_all
  have "advances (pl_store p) (pl_store ?p') (reassemble lines) (map lr_id rows) (event_extents (fg_events h))"
    using com pf(2) done1(2) by simp
  moreover obtain out where "consume env p now ns lines = (Inr out, ?p')"
    using consume_eq [OF False s ap h_def q_def a(1)] by blast
  ultimately show ?thesis
    using done1(1) P'(6,7) by (intro exI [of _ out] exI [of _ ?p'] exI [of _ P'] exI [of _ "map lr_id rows"] exI [of _ "event_extents (fg_events h)"])
      (simp add: q_def)
qed

section \<open>Feeding, ticking and finishing\<close>

text \<open>One step of the pipeline: it succeeds, keeps the invariant, stores \<open>new\<close> and adds records that
  tile the pending lines unless lines were sampled out.\<close>

definition good_step :: "Pipeline \<Rightarrow> int list \<Rightarrow> Pipeline \<Rightarrow> int list \<Rightarrow> byte list \<Rightarrow> int list \<Rightarrow> extent list \<Rightarrow> bool" where
  "good_step p P p' P' new ids xs \<longleftrightarrow> pipe_ok p' P' \<and> advances (pl_store p) (pl_store p') new ids xs \<and>
     pl_session_id p' = pl_session_id p \<and> pl_sampled_out p \<le> pl_sampled_out p' \<and>
     (pl_sampled_out p' = pl_sampled_out p \<longrightarrow> extents_tile (P @ ids) xs P')"

lemma good_step_trans:
  assumes "good_step p P q Q x ids xs" and "good_step q Q r R y ids' ys"
  shows "good_step p P r R (x @ y) (ids @ ids') (xs @ ys)"
proof -
  have "extents_tile (P @ ids @ ids') (xs @ ys) R" if "pl_sampled_out r = pl_sampled_out p"
    using that assms extents_tile_append [of "P @ ids" xs Q ids' ys R] by (auto simp: good_step_def)
  with assms advances_trans show ?thesis unfolding good_step_def by force
qed

lemma good_step_refl: "pipe_ok p P \<Longrightarrow> good_step p P p P [] [] []"
  by (simp add: good_step_def advances_refl)

text \<open>Events of a tick or a flush: no lines, only records of what was pending.\<close>

lemma apply_events_ok:
  assumes p: "pipe_ok p P" and f: "framer_inv P' f" "tiles P es P'" "stage_ids es = []"
  shows "\<exists>out p'. apply_events env (p\<lparr> pl_framer := f \<rparr>) now es = (Inr out, p') \<and> good_step p P p' P' [] [] (event_extents es) \<and>
    pl_splitter p' = pl_splitter p"
proof (cases "es = []")
  case True
  with f(2) have "P' = P" by (auto elim: tiles.cases)
  with True p f(1) show ?thesis by (auto simp: apply_events_def good_step_def pipe_ok_def advances_refl)
next
  case False
  let ?q = "p\<lparr> pl_framer := f \<rparr>" and ?b = "plain_batch (pl_store p)"
  have s: "store_ok (pl_store p)" and P: "set P \<subseteq> line_ids (ds_db (pl_store p))" using p by (simp_all add: pipe_ok_def)
  have ok: "batch_ok ?b" by (rule plain_batch_ok [OF s])
  have db: "ba_db ?b = ds_db (pl_store p)" by (simp add: plain_batch_def)
  let ?k = "next_id (map lr_id (tb_raw_lines (ds_db (pl_store p))))"
  have a0: "apply_ok (apply_ctx env ?q now) (apply_state ?q ?b) ?k"
    using apply_state_ok [OF p ok, of ?k] db next_id_fresh [of _ "map lr_id (tb_raw_lines (ds_db (pl_store p)))"]
    by (fastforce simp: apply_ctx_def apply_state_def)
  have "records_within (line_ids (ba_db ?b)) es" using tiles_within [OF f(2)] records_within_mono [OF _ P] db by simp
  then obtain a k' where a: "apply_in (apply_ctx env ?q now) (apply_state ?q ?b) es = (a, None)"
    "applied (apply_ctx env ?q now) (apply_state ?q ?b) a k' (event_extents es)"
    using apply_in_ok [OF a0, of es] f(3) by (auto simp: apply_state_def)
  have app: "appended p ?b [] []" using ok by (simp add: appended_def db plain_balance) (simp add: plain_batch_def)
  have aok: "apply_ok (apply_ctx env ?q now) a k'" and keep: "keeps ?b (ap_batch a)"
    and recs: "row_extents (tb_records (ba_db (ap_batch a))) = row_extents (tb_records (ds_db (pl_store p))) @ event_extents es"
    using a(2) by (simp_all add: applied_def apply_state_def db)
  note com = committed_block [OF s app keep recs]
  have "set P' \<subseteq> line_ids (ba_db (ap_batch a))"
    using order_trans [OF conjunct2 [OF tiles_within [OF f(2)]] P] keeps_has_line [OF keep] db by (simp add: has_defs subset_iff)
  moreover have qf: "pl_store ?q = pl_store p" "pl_framer ?q = f" "ls_out (pl_splitter ?q) = []" "ac_session_id (apply_ctx env ?q now) = pl_session_id ?q"
    using p by (simp_all add: apply_ctx_def pipe_ok_def)
  ultimately have d: "apply_done ?q (a, None) = (Inr (ap_out a), snd (apply_done ?q (a, None)))" "pipe_ok (snd (apply_done ?q (a, None))) P'"
    "pl_store (snd (apply_done ?q (a, None))) = finish_batch (pl_store p) (ap_batch a)"
    using apply_done_ok [where p = ?q and P = P', OF _ aok] s com f(1) qf by simp_all
  have "apply_events env ?q now es = apply_done ?q (a, None)"
    using False begin_batch_ok [OF s] a(1) by (simp add: apply_events_def)
  with d com tiles_extents [OF f(2)] show ?thesis
    by (intro exI [of _ "ap_out a"] exI [of _ "snd (apply_done ?q (a, None))"]) (simp add: good_step_def)
qed

lemma feed_ok:
  assumes p: "pipe_ok p P"
  shows "\<exists>out p' P' new ids xs. feed env p now ns chunk = (Inr out, p') \<and> good_step p P p' P' new ids xs \<and>
    new @ consumed_stream (pl_splitter p') = consumed_stream (pl_splitter p) @ chunk"
proof -
  obtain lines sp where push: "LineSplitter_push (pl_splitter p) chunk = (lines, sp)" by fastforce
  have out: "ls_out (pl_splitter p) = []" using p by (simp add: pipe_ok_def)
  define q where "q = (if chunk \<noteq> [] then p\<lparr> pl_saw_bytes := True, pl_last_byte_at := now \<rparr> else p)\<lparr> pl_splitter := sp, pl_last_rx_ms := now \<rparr>"
  have q: "pipe_ok q P" "pl_store q = pl_store p" "pl_session_id q = pl_session_id p" "pl_sampled_out q = pl_sampled_out p" "pl_splitter q = sp"
    using p stream_push(2) [OF push out] by (simp_all add: q_def pipe_ok_def)
  have "feed env p now ns chunk = consume env q now ns lines" using push by (cases "chunk = []") (simp_all add: feed_def q_def)
  with consume_ok [OF q(1) consuming_push [OF push out], of env now ns] q stream_push(1) [OF push out] show ?thesis
    unfolding good_step_def by fastforce
qed

lemma publish_ok: "pipe_ok p P \<Longrightarrow> good_step p P (publish_pending_tail env p) P [] [] [] \<and> pl_splitter (publish_pending_tail env p) = pl_splitter p"
  by (simp add: publish_pending_tail_def Let_def good_step_def pipe_ok_def advances_refl has_defs)

lemma tick_ok:
  assumes p: "pipe_ok p P"
  shows "\<exists>out p' P' xs. tick env p now = (Inr out, p') \<and> good_step p P p' P' [] [] xs \<and> pl_splitter p' = pl_splitter p"
proof -
  obtain es f where t: "ProfileFramer_tick (env_generic env) (pl_framer p) now = (es, f)" by fastforce
  have "framer_inv P (pl_framer p)" using p by (simp add: pipe_ok_def)
  from framer.tick_tiles [OF this, of "env_generic env" now] t obtain P' where f: "framer_inv P' f" "tiles P es P'" by auto
  moreover have "stage_ids es = []" using stage_ids_tick [of "env_generic env" "pl_framer p" now] t by simp
  ultimately obtain out q where q: "apply_events env (p\<lparr> pl_framer := f \<rparr>) now es = (Inr out, q)"
    "good_step p P q P' [] [] (event_extents es)" "pl_splitter q = pl_splitter p"
    using apply_events_ok [OF p] by metis
  then have "pipe_ok q P'" by (simp add: good_step_def)
  from publish_ok [OF this, of env] good_step_trans [OF q(2)] q t show ?thesis
    by (intro exI [of _ out] exI [of _ "publish_pending_tail env q"] exI [of _ P'] exI [of _ "event_extents es"]) (fastforce simp: tick_def)
qed

lemma finalize_ok: "pipe_ok p P \<Longrightarrow> good_step p P (finalize_boot env p) P [] [] [] \<and> pl_splitter (finalize_boot env p) = pl_splitter p"
  using set_boot_summary_advances [of "pl_store p"]
  by (auto simp: finalize_boot_def good_step_def pipe_ok_def advances_refl has_defs split: option.split)

lemma finish_ok:
  assumes p: "pipe_ok p P"
  shows "\<exists>out p' ids xs. Pipeline_finish env p now ns = (Inr out, p') \<and> good_step p P p' [] (consumed_stream (pl_splitter p)) ids xs \<and>
    consumed_stream (pl_splitter p') = []"
proof -
  obtain lines sp where fl: "LineSplitter_flush (pl_splitter p) = (lines, sp)" by fastforce
  have out: "ls_out (pl_splitter p) = []" using p by (simp add: pipe_ok_def)
  note sf = stream_flush [OF fl out]
  define p1 where "p1 = p\<lparr> pl_splitter := sp, pl_store := set_pending_tail (pl_store p) [] 0, pl_published_tail := [], pl_seen_tail := [] \<rparr>"
  have g1: "good_step p P p1 P [] [] []" using p sf(3) by (simp add: p1_def good_step_def pipe_ok_def has_defs)
  then have ok1: "pipe_ok p1 P" by (simp add: good_step_def)
  obtain o2 p2 P2 ids xs where c: "consume env p1 now ns lines = (Inr o2, p2)" and g2: "good_step p1 P p2 P2 (reassemble lines) ids xs" "pl_splitter p2 = pl_splitter p1"
    using consume_ok [OF ok1 consuming_flush [OF fl out], of env now ns] unfolding good_step_def by blast
  obtain es f where t: "ProfileFramer_flush (env_generic env) (pl_framer p2) = (es, f)" by fastforce
  have ok2: "pipe_ok p2 P2" using g2(1) by (simp add: good_step_def)
  then have inv2: "framer_inv P2 (pl_framer p2)" by (simp add: pipe_ok_def)
  have f: "framer_inv [] f" "tiles P2 es []" "stage_ids es = []"
    using framer.flush_tiles [OF inv2, of "env_generic env"] stage_ids_flush [of "env_generic env" "pl_framer p2"] t by simp_all
  from apply_events_ok [OF ok2 f, of env now] obtain o3 p3 where e: "apply_events env (p2\<lparr> pl_framer := f \<rparr>) now es = (Inr o3, p3)"
    "good_step p2 P2 p3 [] [] [] (event_extents es)" "pl_splitter p3 = pl_splitter p2" by blast
  then have ok3: "pipe_ok p3 []" by (simp add: good_step_def)
  let ?p4 = "finalize_boot env p3"
  note g4 = finalize_ok [OF ok3, of env]
  then have ok4: "pipe_ok ?p4 []" by (simp add: good_step_def)
  then obtain s where s: "end_session (pl_store ?p4) (pl_session_id ?p4) now = (Inr (), s)" "store_ok s" "advances (pl_store ?p4) s [] [] []"
    "session_ids (ds_db s) = session_ids (ds_db (pl_store ?p4))" "tb_boots (ds_db s) = tb_boots (ds_db (pl_store ?p4))"
    "tb_templates (ds_db s) = tb_templates (ds_db (pl_store ?p4))" "tb_raw_lines (ds_db s) = tb_raw_lines (ds_db (pl_store ?p4))"
    using end_session_advances [of "pl_store ?p4" "pl_session_id ?p4" now] by (auto simp: pipe_ok_def)
  define p5 where "p5 = (if pl_session_id ?p4 \<noteq> 0 then ?p4\<lparr> pl_store := s \<rparr> else ?p4)"
  have g5: "good_step ?p4 [] p5 [] [] [] []"
    using good_step_refl [OF ok4] ok4 s unfolding p5_def
    by (cases "pl_session_id ?p4 = 0") (simp, simp add: good_step_def pipe_ok_def has_defs)
  from good_step_trans [OF good_step_trans [OF good_step_trans [OF good_step_trans [OF g1 g2(1)] e(2)] conjunct1 [OF g4]] g5]
  have "good_step p P p5 [] (reassemble lines) ids (xs @ event_extents es)" by simp
  moreover have "\<exists>out. Pipeline_finish env p now ns = (Inr out, p5)"
    using fl c t e s(1) by (simp add: Pipeline_finish_def Let_def split_beta p5_def flip: p1_def)
  moreover have "pl_splitter p5 = sp" using g4 e(3) g2(2) by (simp add: p1_def p5_def)
  ultimately show ?thesis using sf by auto
qed

end
