(* ===== verification/Pipeline_Session.thy ===== *)
theory Pipeline_Session
  imports Pipeline_Run
begin

text \<open>
  A capture as a sequence of steps: a pipeline opened on a store, a session begun, chunks, clock
  ticks and epoch changes in any order, and the finish. Whatever the interleaving, nothing fails,
  the store holds the fed bytes, every line is in exactly one record, and a pipeline opened on
  the resulting store mines on with the same templates.
\<close>

section \<open>Opening a pipeline on a store\<close>

definition templates_ok :: "TemplateRow list \<Rightarrow> bool" where
  "templates_ok rows \<longleftrightarrow> sorted_wrt (<) (map tr_id rows) \<and> list_all (\<lambda>r. 0 \<le> tr_id r \<and> 0 \<le> tr_total_count r) rows"

lemma mirrored_templates_ok:
  assumes "drain_mirror d rows" and "ids_inv d"
  shows "templates_ok rows"
proof -
  have len: "length rows = length (dr_templates d)" by (rule mirror_length [OF assms(1)])
  have ids: "map tr_id rows = map (\<lambda>t. int (tpl_id t)) (dr_templates d)"
    using mirror_nth [OF assms(1)] len by (intro nth_equalityI) simp_all
  have "sorted_wrt (<) (map int (map tpl_id (dr_templates d)))" using assms(2) by (simp add: ids_inv_def sorted_wrt_map)
  with ids have "sorted_wrt (<) (map tr_id rows)" by (simp add: comp_def)
  moreover have "0 \<le> tr_id r \<and> 0 \<le> tr_total_count r" if "r \<in> set rows" for r
    using that len mirror_nth [OF assms(1)] by (force simp: in_set_conv_nth)
  ultimately show ?thesis by (simp add: templates_ok_def list_all_iff)
qed

text \<open>The miner a pipeline starts with is the one the template table describes.\<close>

lemma load_drain_mirror:
  assumes "templates_ok (tb_templates (ds_db s))"
  shows "drain_mirror (load_drain s cfg rules) (tb_templates (ds_db s)) \<and> tree_inv (load_drain s cfg rules) \<and> ids_inv (load_drain s cfg rules) \<and>
    map tpl_head_only (dr_templates (load_drain s cfg rules)) = map tr_head_only (tb_templates (ds_db s))"
proof -
  let ?rows = "tb_templates (ds_db s)"
  define ts where "ts = map (\<lambda>t. \<lparr> tpl_id = nat (tr_id t), tpl_tokens = tr_tokens t, tpl_count = nat (tr_total_count t), tpl_head_only = tr_head_only t \<rparr>) ?rows"
  have rows: "sorted_wrt (<) (map tr_id ?rows)" "\<And>r. r \<in> set ?rows \<Longrightarrow> 0 \<le> tr_id r \<and> 0 \<le> tr_total_count r"
    using assms by (simp_all add: templates_ok_def list_all_iff)
  have strict: "sorted_wrt (<) (map (\<lambda>t. nat (tr_id t)) rs)" if "sorted_wrt (<) (map tr_id rs)" "\<And>r. r \<in> set rs \<Longrightarrow> 0 \<le> tr_id r" for rs
    using that by (induction rs) force+
  have "sorted_wrt (<) (map tpl_id ts)" using strict [OF rows(1)] rows(2) by (simp add: ts_def comp_def)
  then have sorted: "sorted (map tpl_id ts)" by (rule strict_sorted_imp_sorted)
  have ld: "load_drain s cfg rules = foldl restore_one (with_rules cfg rules) ts"
    using sort_key_id_if_sorted [OF sorted] by (simp add: load_drain_def order_by_strict [OF rows(1)] from_templates_fold ts_def)
  have next_ge: "tpl_id t < foldl (\<lambda>n t. max n (Suc (tpl_id t))) n us" if "t \<in> set us" for t n us
    using that by (induction us rule: rev_induct) auto
  have "tree_inv (load_drain s cfg rules)" using restore_inv [OF new_inv(1,2)] by (simp add: ld)
  moreover have "ids_inv (load_drain s cfg rules)"
    using \<open>sorted_wrt (<) (map tpl_id ts)\<close> by (auto simp: ids_inv_def ld restore_fields list_all_iff intro: next_ge)
  moreover have "drain_mirror (load_drain s cfg rules) ?rows"
    using rows(2) by (simp add: drain_mirror_def ld restore_fields ts_def list_all2_conv_all_nth)
  moreover have "map tpl_head_only (dr_templates (load_drain s cfg rules)) = map tr_head_only ?rows" by (simp add: ld restore_fields ts_def)
  ultimately show ?thesis by blast
qed

text \<open>A pipeline without a session.\<close>

definition idle_ok :: "Pipeline \<Rightarrow> bool" where
  "idle_ok p \<longleftrightarrow> store_ok (pl_store p) \<and> framer_inv [] (pl_framer p) \<and> tree_inv (pl_drain p) \<and> ids_inv (pl_drain p) \<and>
     drain_mirror (pl_drain p) (tb_templates (ds_db (pl_store p))) \<and> consumed_stream (pl_splitter p) = [] \<and> ls_out (pl_splitter p) = []"

lemma Pipeline_new_ok:
  assumes "Pipeline_new env (Inr ()) s profiles mode max_line probe mine fcfg pinned = Inr p"
    and "store_ok (reload_counters s)" and "templates_ok (tb_templates (ds_db s))"
  shows "idle_ok p \<and> pl_store p = reload_counters s \<and> pl_sampled_out p = 0"
proof -
  have db: "ds_db (reload_counters s) = ds_db s" by (simp add: reload_counters_def)
  have "consumed_stream (LineSplitter_new mode max_line probe) = []" "ls_out (LineSplitter_new mode max_line probe) = []"
    by (simp_all add: LineSplitter_new_def consumed_stream_def Let_def)
  with assms load_drain_mirror [of "reload_counters s" mine TokenizerRules_default] new_framer_inv db show ?thesis
    by (auto simp: Pipeline_new_def idle_ok_def Let_def)
qed

lemma begin_session_ok:
  assumes p: "idle_ok p"
  shows "\<exists>i p'. Pipeline_begin_session p now src label sha path = (Inr i, p') \<and> pipe_ok p' [] \<and> advances (pl_store p) (pl_store p') [] [] [] \<and>
    pl_session_id p' = i \<and> pl_sampled_out p' = pl_sampled_out p \<and> pl_splitter p' = pl_splitter p"
proof -
  obtain i s1 where b: "begin_session (pl_store p) src now label sha path = (i, s1)" by fastforce
  have s: "store_ok (pl_store p)" using p by (simp add: idle_ok_def)
  note b1 = begin_session_advances [OF s b]
  let ?by = "if src = Live then ''session'' else ''ingest''"
  have "opt_all (has_session (ds_db s1)) (Some i)" "?by \<in> set OPENED_BY" using b1 by (simp_all add: has_defs OPENED_BY_def)
  then obtain row s2 where o2: "open_boot s1 ?by label now (Some i) = (Inr row, s2)" "store_ok s2" "advances s1 s2 [] [] []"
    "session_ids (ds_db s2) = session_ids (ds_db s1)" "insert (ep_id row) (boot_ids (ds_db s1)) \<subseteq> boot_ids (ds_db s2)"
    "tb_templates (ds_db s2) = tb_templates (ds_db s1)"
    using open_boot_advances [of s1 ?by "Some i" label now] b1 by blast
  let ?p = "adopt (p\<lparr> pl_store := s2, pl_session_id := i \<rparr>) (ep_id row)"
  have "Pipeline_begin_session p now src label sha path = (Inr i, ?p)"
    using b o2(1) by (simp add: Pipeline_begin_session_def Let_def adopt_def)
  moreover have "pipe_ok ?p []" using p o2 b1 by (simp add: pipe_ok_def idle_ok_def adopt_def has_defs)
  moreover have "advances (pl_store p) s2 [] [] []" using advances_trans [of "pl_store p" s1 "[]" "[]" "[]" s2] b1 o2(3) by simp
  ultimately show ?thesis by (auto simp: adopt_def)
qed

section \<open>Epoch changes while capturing\<close>

lemma adopt_ok:
  assumes "pipe_ok p P" and "has_boot (ds_db (pl_store p)) i"
  shows "good_step p P (adopt p i) P [] [] [] \<and> pl_splitter (adopt p i) = pl_splitter p"
  using assms by (simp add: adopt_def good_step_def pipe_ok_def advances_refl)

lemma open_boot_ok:
  assumes p: "pipe_ok p P" and by1: "opened_by \<in> set OPENED_BY"
  shows "\<exists>i p'. Pipeline_open_boot env p now opened_by label = (Inr i, p') \<and> good_step p P p' P [] [] [] \<and> pl_splitter p' = pl_splitter p"
proof -
  let ?q = "finalize_boot env p"
  note g = finalize_ok [OF p, of env]
  then have q: "pipe_ok ?q P" by (simp add: good_step_def)
  then have s: "store_ok (pl_store ?q)" "opt_all (has_session (ds_db (pl_store ?q))) (Some (pl_session_id ?q))" by (simp_all add: pipe_ok_def)
  from open_boot_advances [OF s(1) by1 s(2), of label now] obtain row s where
    o2: "open_boot (pl_store ?q) opened_by label now (Some (pl_session_id ?q)) = (Inr row, s)" "store_ok s"
    "advances (pl_store ?q) s [] [] []" "session_ids (ds_db s) = session_ids (ds_db (pl_store ?q))"
    "insert (ep_id row) (boot_ids (ds_db (pl_store ?q))) \<subseteq> boot_ids (ds_db s)" "tb_templates (ds_db s) = tb_templates (ds_db (pl_store ?q))"
    "line_ids (ds_db s) = line_ids (ds_db (pl_store ?q))"
    by (elim exE conjE) (rule that)
  have "good_step ?q P (adopt (?q\<lparr> pl_store := s \<rparr>) (ep_id row)) P [] [] []"
    using q o2 by (simp add: good_step_def pipe_ok_def adopt_def has_defs)
  with good_step_trans [OF conjunct1 [OF g], of "adopt (?q\<lparr> pl_store := s \<rparr>) (ep_id row)" P "[]" "[]" "[]"] g o2(1) show ?thesis
    by (simp add: Pipeline_open_boot_def) (simp add: adopt_def)
qed

lemma close_epoch_ok: "pipe_ok p P \<Longrightarrow> good_step p P (close_epoch env p) P [] [] [] \<and> pl_splitter (close_epoch env p) = pl_splitter p"
  using finalize_ok [of p P env] by (auto simp: close_epoch_def good_step_def pipe_ok_def)

lemma latest_boot_known: "latest_boot s = Some row \<Longrightarrow> has_boot (ds_db s) (ep_id row)"
  by (auto simp: latest_boot_def boots_by_seq_def newest_def has_defs order_by_def split: list.splits if_splits dest!: arg_cong [where f = set])

lemma adopt_external_ok:
  assumes p: "pipe_ok p P"
  shows "good_step p P (snd (adopt_external_boot env p)) P [] [] [] \<and> pl_splitter (snd (adopt_external_boot env p)) = pl_splitter p"
proof (cases "latest_boot (pl_store p)")
  case None
  then show ?thesis using good_step_refl [OF p] by (simp add: adopt_external_boot_def)
next
  case (Some row)
  let ?q = "if pl_boot_id p \<noteq> None then finalize_boot env p else p"
  have g: "good_step p P ?q P [] [] []" "pl_splitter ?q = pl_splitter p" using finalize_ok [OF p] good_step_refl [OF p] by auto
  then have q: "pipe_ok ?q P" by (simp add: good_step_def)
  have "has_boot (ds_db (pl_store ?q)) (ep_id row)"
    using latest_boot_known [OF Some] set_boot_summary_advances [of "pl_store p"] p
    by (auto simp: finalize_boot_def pipe_ok_def has_defs split: option.split)
  with adopt_ok [OF q, of "ep_id row"] good_step_trans [OF g(1)] g(2) good_step_refl [OF p] Some show ?thesis
    by (auto simp: adopt_external_boot_def)
qed

section \<open>Captures\<close>

datatype PipeOp =
    Feed int int "byte list"
  | Tick int
  | OpenBoot int string "string option"
  | CloseEpoch
  | AdoptExternal

fun pipe_op :: "PipeEnv \<Rightarrow> Pipeline \<Rightarrow> PipeOp \<Rightarrow> unit res \<times> Pipeline" where
  "pipe_op env p (Feed now ns chunk) = (let (r, p') = feed env p now ns chunk in (map_ok (\<lambda>_. ()) r, p'))"
| "pipe_op env p (Tick now) = (let (r, p') = tick env p now in (map_ok (\<lambda>_. ()) r, p'))"
| "pipe_op env p (OpenBoot now opened_by label) = (let (r, p') = Pipeline_open_boot env p now opened_by label in (map_ok (\<lambda>_. ()) r, p'))"
| "pipe_op env p CloseEpoch = (Inr (), close_epoch env p)"
| "pipe_op env p AdoptExternal = (Inr (), snd (adopt_external_boot env p))"

fun op_bytes :: "PipeOp \<Rightarrow> byte list" where
  "op_bytes (Feed now ns chunk) = chunk"
| "op_bytes _ = []"

text \<open>The causes of an epoch the schema accepts.\<close>

fun op_allowed :: "PipeOp \<Rightarrow> bool" where
  "op_allowed (OpenBoot now opened_by label) \<longleftrightarrow> opened_by \<in> set OPENED_BY"
| "op_allowed _ \<longleftrightarrow> True"

fun pipe_run :: "PipeEnv \<Rightarrow> Pipeline \<Rightarrow> PipeOp list \<Rightarrow> unit res \<times> Pipeline" where
  "pipe_run env p [] = (Inr (), p)"
| "pipe_run env p (x # xs) = (case pipe_op env p x of (Inl e, p') \<Rightarrow> (Inl e, p') | (Inr _, p') \<Rightarrow> pipe_run env p' xs)"

lemma pipe_op_ok:
  assumes p: "pipe_ok p P" and x: "op_allowed x"
  shows "\<exists>p' P' new ids xs. pipe_op env p x = (Inr (), p') \<and> good_step p P p' P' new ids xs \<and>
    new @ consumed_stream (pl_splitter p') = consumed_stream (pl_splitter p) @ op_bytes x"
proof (cases x)
  case (Feed now ns chunk)
  from feed_ok [OF p, of env now ns chunk] obtain out p' P' new ids xs where
    f: "feed env p now ns chunk = (Inr out, p')" "good_step p P p' P' new ids xs"
      "new @ consumed_stream (pl_splitter p') = consumed_stream (pl_splitter p) @ chunk" by blast
  then have "pipe_op env p x = (Inr (), p')" using Feed by (simp add: map_ok_def)
  with f(2,3) Feed show ?thesis by fastforce
next
  case (Tick now)
  then show ?thesis using tick_ok [OF p, of env now] by (fastforce simp: map_ok_def)
next
  case (OpenBoot now by1 label)
  then show ?thesis using open_boot_ok [OF p, of by1 env now label] x by (fastforce simp: map_ok_def)
next
  case CloseEpoch
  then show ?thesis using close_epoch_ok [OF p, of env] by fastforce
next
  case AdoptExternal
  then show ?thesis using adopt_external_ok [OF p, of env] by fastforce
qed

lemma pipe_run_ok:
  assumes "pipe_ok p P" and "list_all op_allowed ops"
  shows "\<exists>p' P' new ids xs. pipe_run env p ops = (Inr (), p') \<and> good_step p P p' P' new ids xs \<and>
    new @ consumed_stream (pl_splitter p') = consumed_stream (pl_splitter p) @ concat (map op_bytes ops)"
  using assms
proof (induction ops arbitrary: p P)
  case Nil
  then show ?case using good_step_refl by fastforce
next
  case (Cons x ops)
  then obtain q Q new ids xs where q: "pipe_op env p x = (Inr (), q)" "good_step p P q Q new ids xs"
    "new @ consumed_stream (pl_splitter q) = consumed_stream (pl_splitter p) @ op_bytes x"
    using pipe_op_ok [of p P x env] by auto
  then have "pipe_ok q Q" by (simp add: good_step_def)
  with Cons obtain r R new' ids' ys where r: "pipe_run env q ops = (Inr (), r)" "good_step q Q r R new' ids' ys"
    "new' @ consumed_stream (pl_splitter r) = consumed_stream (pl_splitter q) @ concat (map op_bytes ops)" by fastforce
  have "(new @ new') @ consumed_stream (pl_splitter r) = consumed_stream (pl_splitter p) @ concat (map op_bytes (x # ops))"
    using q(3) r(3) append_assoc [of new "consumed_stream (pl_splitter q)"] by simp
  with good_step_trans [OF q(2) r(2)] q(1) r(1) show ?case by fastforce
qed

text \<open>A whole capture: session, steps, finish.\<close>

definition capture ::
    "PipeEnv \<Rightarrow> Pipeline \<Rightarrow> int \<Rightarrow> SessionSource \<Rightarrow> string option \<Rightarrow> string option \<Rightarrow> string option \<Rightarrow> PipeOp list \<Rightarrow> int \<Rightarrow> int \<Rightarrow>
     unit res \<times> Pipeline" where
  "capture env p now src label sha path ops end_now end_ns =
     (case Pipeline_begin_session p now src label sha path of
        (Inl e, p) \<Rightarrow> (Inl e, p)
      | (Inr _, p) \<Rightarrow> (case pipe_run env p ops of
            (Inl e, p) \<Rightarrow> (Inl e, p)
          | (Inr _, p) \<Rightarrow> (let (r, p) = Pipeline_finish env p end_now end_ns in (map_ok (\<lambda>_. ()) r, p))))"

lemma capture_ok:
  assumes p: "idle_ok p" and ops: "list_all op_allowed ops"
  shows "\<exists>p' ids xs. capture env p now src label sha path ops end_now end_ns = (Inr (), p') \<and> pipe_ok p' [] \<and>
    advances (pl_store p) (pl_store p') (concat (map op_bytes ops)) ids xs \<and>
    (pl_sampled_out p' = pl_sampled_out p \<longrightarrow> extents_tile ids xs [])"
proof -
  from begin_session_ok [OF p] obtain i p1 where b: "Pipeline_begin_session p now src label sha path = (Inr i, p1)" "pipe_ok p1 []"
    "advances (pl_store p) (pl_store p1) [] [] []" "pl_sampled_out p1 = pl_sampled_out p" "pl_splitter p1 = pl_splitter p" by blast
  from pipe_run_ok [OF b(2) ops] obtain p2 P2 new ids xs where r: "pipe_run env p1 ops = (Inr (), p2)" "good_step p1 [] p2 P2 new ids xs"
    "new @ consumed_stream (pl_splitter p2) = consumed_stream (pl_splitter p1) @ concat (map op_bytes ops)" by blast
  then have "pipe_ok p2 P2" by (simp add: good_step_def)
  from finish_ok [OF this, of env end_now end_ns] obtain out p3 ids' ys where f: "Pipeline_finish env p2 end_now end_ns = (Inr out, p3)"
    "good_step p2 P2 p3 [] (consumed_stream (pl_splitter p2)) ids' ys" by blast
  have bytes: "new @ consumed_stream (pl_splitter p2) = concat (map op_bytes ops)" using r(3) b(5) p by (simp add: idle_ok_def)
  have g: "good_step p1 [] p3 [] (concat (map op_bytes ops)) (ids @ ids') (xs @ ys)" using good_step_trans [OF r(2) f(2)] bytes by simp
  have "capture env p now src label sha path ops end_now end_ns = (Inr (), p3)"
    using b(1) r(1) f(1) by (simp add: capture_def map_ok_def)
  with g b(3,4) advances_trans [OF b(3)] show ?thesis
    by (intro exI [of _ p3] exI [of _ "ids @ ids'"] exI [of _ "xs @ ys"]) (fastforce simp: good_step_def)
qed

section \<open>Properties\<close>

text \<open>Feeding never fails and loses no byte: from every state the pipeline can be in, a chunk of any
  bytes is accepted, what is stored plus what the splitter holds grows by exactly the chunk,
  the store stays consistent with every epoch's books balanced as before, the template table
  keeps mirroring the miner, and the framer only holds stored lines.\<close>

theorem feed_extends_the_stream:
  assumes "pipe_ok p P"
  shows "\<exists>out p' P'. feed env p now ns chunk = (Inr out, p') \<and> pipe_ok p' P' \<and>
    stored_stream (ds_db (pl_store p')) @ consumed_stream (pl_splitter p') =
      stored_stream (ds_db (pl_store p)) @ consumed_stream (pl_splitter p) @ chunk \<and>
    (\<forall>e. surplus (ds_db (pl_store p')) e = surplus (ds_db (pl_store p)) e)"
proof -
  from feed_ok [OF assms, of env now ns chunk] obtain out p' P' new ids xs where
    f: "feed env p now ns chunk = (Inr out, p')" "good_step p P p' P' new ids xs"
      "new @ consumed_stream (pl_splitter p') = consumed_stream (pl_splitter p) @ chunk" by blast
  then show ?thesis by (intro exI [of _ out] exI [of _ p'] exI [of _ P']) (simp add: good_step_def advances_def)
qed

text \<open>C1. A capture stores every byte once, in order: a pipeline opened on a consistent store, a
  session, any sequence of chunks, ticks, opened, closed and adopted epochs, and the finish
  all succeed, and the stored stream is what the store held followed by the chunks; the store
  is consistent afterwards and no epoch gained or lost bytes it does not own.\<close>

theorem capture_stores_every_byte:
  assumes "Pipeline_new env (Inr ()) s profiles mode max_line probe mine fcfg pinned = Inr p"
    and "store_ok (reload_counters s)" and "templates_ok (tb_templates (ds_db s))" and "list_all op_allowed ops"
  shows "\<exists>p'. capture env p now src label sha path ops end_now end_ns = (Inr (), p') \<and>
    stored_stream (ds_db (pl_store p')) = stored_stream (ds_db s) @ concat (map op_bytes ops) \<and>
    store_ok (pl_store p') \<and> (\<forall>e. surplus (ds_db (pl_store p')) e = surplus (ds_db s) e)"
proof -
  have p: "idle_ok p" "pl_store p = reload_counters s" using Pipeline_new_ok [OF assms(1-3)] by simp_all
  have "ds_db (reload_counters s) = ds_db s" by (simp add: reload_counters_def)
  with capture_ok [OF p(1) assms(4)] p(2) show ?thesis by (fastforce simp: advances_def pipe_ok_def)
qed

text \<open>C3. Stored records partition the stored lines: over a whole capture the new records cover the
  new lines in order, without gap or overlap, each record naming the first and the last line
  and the number of lines it covers, unless lines were sampled out, which the pipeline counts.\<close>

theorem capture_records_partition_lines:
  assumes "Pipeline_new env (Inr ()) s profiles mode max_line probe mine fcfg pinned = Inr p"
    and "store_ok (reload_counters s)" and "templates_ok (tb_templates (ds_db s))" and "list_all op_allowed ops"
  shows "\<exists>p' ids xs. capture env p now src label sha path ops end_now end_ns = (Inr (), p') \<and>
    map lr_id (tb_raw_lines (ds_db (pl_store p'))) = map lr_id (tb_raw_lines (ds_db s)) @ ids \<and>
    row_extents (tb_records (ds_db (pl_store p'))) = row_extents (tb_records (ds_db s)) @ xs \<and>
    (pl_sampled_out p' = 0 \<longrightarrow> extents_tile ids xs [])"
proof -
  have p: "idle_ok p" "pl_store p = reload_counters s" "pl_sampled_out p = 0" using Pipeline_new_ok [OF assms(1-3)] by simp_all
  have "ds_db (reload_counters s) = ds_db s" by (simp add: reload_counters_def)
  with capture_ok [OF p(1) assms(4)] p(2,3) show ?thesis by (fastforce simp: advances_def)
qed

text \<open>C13. A restart mines on where the last run stopped: a pipeline opened on the store a capture left
  starts with as many templates as the capture's miner ended with, in the same order, with the
  same ids, tokens and counts. The fourth field of a template, its head-only flag, is the one
  thing a restart may change, and only one way: the miner starts with the stored flag, which is
  set only for a template that had it, but need not be set for every one that had it.\<close>

theorem restart_resumes_mining:
  assumes "Pipeline_new env (Inr ()) s profiles mode max_line probe mine fcfg pinned = Inr p"
    and "store_ok (reload_counters s)" and "templates_ok (tb_templates (ds_db s))" and "list_all op_allowed ops"
    and "capture env p now src label sha path ops end_now end_ns = (Inr (), p')"
    and "Pipeline_new env2 (Inr ()) (pl_store p') profiles2 mode2 max_line2 probe2 mine2 fcfg2 pinned2 = Inr q"
  shows "map (\<lambda>t. (tpl_id t, tpl_tokens t, tpl_count t)) (dr_templates (pl_drain q)) =
    map (\<lambda>t. (tpl_id t, tpl_tokens t, tpl_count t)) (dr_templates (pl_drain p')) \<and>
    map tpl_head_only (dr_templates (pl_drain q)) = map tr_head_only (tb_templates (ds_db (pl_store p'))) \<and>
    list_all2 (\<lambda>t u. tpl_head_only t \<longrightarrow> tpl_head_only u) (dr_templates (pl_drain q)) (dr_templates (pl_drain p'))"
proof -
  have p: "idle_ok p" using Pipeline_new_ok [OF assms(1-3)] by simp
  have p': "pipe_ok p' []"
    using capture_ok [OF p assms(4), of env now src label sha path end_now end_ns] assms(5) by auto
  let ?rows = "tb_templates (ds_db (pl_store p'))"
  have a: "drain_mirror (pl_drain p') ?rows" "ids_inv (pl_drain p')" using p' by (simp_all add: pipe_ok_def)
  have "pl_drain q = load_drain (reload_counters (pl_store p')) mine2 TokenizerRules_default"
    using assms(6) by (auto simp: Pipeline_new_def Let_def)
  moreover have "ds_db (reload_counters (pl_store p')) = ds_db (pl_store p')" by (simp add: reload_counters_def)
  ultimately have b: "drain_mirror (pl_drain q) ?rows" and heads: "map tpl_head_only (dr_templates (pl_drain q)) = map tr_head_only ?rows"
    using load_drain_mirror [of "reload_counters (pl_store p')" mine2 TokenizerRules_default] mirrored_templates_ok [OF a] by simp_all
  have len: "length (dr_templates (pl_drain q)) = length (dr_templates (pl_drain p'))"
    using mirror_length [OF a(1)] mirror_length [OF b] by simp
  have "map (\<lambda>t. (tpl_id t, tpl_tokens t, tpl_count t)) (dr_templates (pl_drain q)) =
      map (\<lambda>t. (tpl_id t, tpl_tokens t, tpl_count t)) (dr_templates (pl_drain p'))"
    using mirror_nth [OF a(1)] mirror_nth [OF b] len by (intro nth_equalityI) (simp, fastforce)
  moreover have "tpl_head_only (dr_templates (pl_drain q) ! j) = tr_head_only (?rows ! j)" if "j < length (dr_templates (pl_drain q))" for j
    using that heads len mirror_length [OF a(1)] by (metis nth_map)
  then have "list_all2 (\<lambda>t u. tpl_head_only t \<longrightarrow> tpl_head_only u) (dr_templates (pl_drain q)) (dr_templates (pl_drain p'))"
    using mirror_nth [OF a(1)] len by (simp add: list_all2_conv_all_nth)
  ultimately show ?thesis using heads by blast
qed

section \<open>Examples\<close>

definition sample_env :: PipeEnv where
  "sample_env = \<lparr> env_generic = sample_generic, env_lossy = map (\<lambda>b. char_of (unat b)), env_regex_set = (\<lambda>_. None), env_sha256 = (\<lambda>_. []) \<rparr>"

definition sample_pipeline :: Pipeline where
  "sample_pipeline = projr (Pipeline_new sample_env (Inr ()) sample_store sample_set Auto 256 8 DrainConfig_default sample_config None)"

lemma sample_pipeline_new:
  "Pipeline_new sample_env (Inr ()) sample_store sample_set Auto 256 8 DrainConfig_default sample_config None = Inr sample_pipeline"
  by (simp add: sample_pipeline_def Pipeline_new_def sample_framer_new Let_def)

lemma sample_store_reloaded: "store_ok (reload_counters sample_store)" "templates_ok (tb_templates (ds_db sample_store))"
  "stored_stream (ds_db sample_store) = []"
proof -
  have "tb_stream_offset (ds_db sample_store) = 0" "tb_pruned_before (ds_db sample_store) = 0"
    by (simp_all add: sample_store_def open_inner_def empty_tables_def begin_session_def Let_def)
  then show "store_ok (reload_counters sample_store)"
    using sample_store_ok by (simp add: reload_counters_def store_ok_def sample_store_fields)
  show "templates_ok (tb_templates (ds_db sample_store))" "stored_stream (ds_db sample_store) = []"
    by (simp_all add: templates_ok_def stored_stream_def sample_store_fields)
qed

definition sample_ops :: "PipeOp list" where
  "sample_ops = [Feed 1 1 [65, 10, 66], Tick 2, OpenBoot 3 ''power'' None, Feed 4 4 [67, 10]]"

lemma sample_ops_allowed: "list_all op_allowed sample_ops" "concat (map op_bytes sample_ops) = [65, 10, 66, 67, 10]"
  by (simp_all add: sample_ops_def OPENED_BY_def)

theorem capture_stores_every_byte_witness:
  "\<exists>p'. capture sample_env sample_pipeline 0 Live None None None sample_ops 9 9 = (Inr (), p') \<and>
    stored_stream (ds_db (pl_store p')) = [65, 10, 66, 67, 10]"
  using capture_stores_every_byte [OF sample_pipeline_new sample_store_reloaded(1,2) sample_ops_allowed(1), of 0 Live None None None 9 9]
  by (simp only: sample_ops_allowed(2) sample_store_reloaded(3) append_Nil) blast

theorem capture_records_partition_lines_witness:
  "\<exists>p' ids xs. capture sample_env sample_pipeline 0 Live None None None sample_ops 9 9 = (Inr (), p') \<and>
    map lr_id (tb_raw_lines (ds_db (pl_store p'))) = ids \<and> row_extents (tb_records (ds_db (pl_store p'))) = xs \<and>
    (pl_sampled_out p' = 0 \<longrightarrow> extents_tile ids xs [])"
proof -
  have none: "tb_raw_lines (ds_db sample_store) = []" "tb_records (ds_db sample_store) = []" by (simp_all add: sample_store_fields)
  show ?thesis
    using capture_records_partition_lines [OF sample_pipeline_new sample_store_reloaded(1,2) sample_ops_allowed(1), of 0 Live None None None 9 9]
    by (simp only: none list.map append_Nil extents_simps)
qed

lemma sample_session: "\<exists>i p'. Pipeline_begin_session sample_pipeline 0 Live None None None = (Inr i, p') \<and> pipe_ok p' []"
  using begin_session_ok [of sample_pipeline 0 Live None None None] Pipeline_new_ok [OF sample_pipeline_new sample_store_reloaded(1,2)] by blast

theorem feed_extends_the_stream_witness:
  "\<exists>i p out p' P'. Pipeline_begin_session sample_pipeline 0 Live None None None = (Inr i, p) \<and>
    feed sample_env p 1 1 [65, 10] = (Inr out, p') \<and> pipe_ok p' P'"
proof -
  obtain i p where "Pipeline_begin_session sample_pipeline 0 Live None None None = (Inr i, p)" "pipe_ok p []" using sample_session by blast
  with feed_extends_the_stream [of p "[]" sample_env 1 1 "[65, 10]"] show ?thesis by blast
qed

theorem restart_resumes_mining_witness:
  "\<exists>p' q. capture sample_env sample_pipeline 0 Live None None None sample_ops 9 9 = (Inr (), p') \<and>
    Pipeline_new sample_env (Inr ()) (pl_store p') sample_set Auto 256 8 DrainConfig_default sample_config None = Inr q \<and>
    map (\<lambda>t. (tpl_id t, tpl_tokens t, tpl_count t)) (dr_templates (pl_drain q)) =
    map (\<lambda>t. (tpl_id t, tpl_tokens t, tpl_count t)) (dr_templates (pl_drain p'))"
proof -
  obtain p' where p': "capture sample_env sample_pipeline 0 Live None None None sample_ops 9 9 = (Inr (), p')"
    using capture_ok [of sample_pipeline sample_ops sample_env 0 Live None None None 9 9]
      Pipeline_new_ok [OF sample_pipeline_new sample_store_reloaded(1,2)] sample_ops_allowed(1) by blast
  obtain q where q: "Pipeline_new sample_env (Inr ()) (pl_store p') sample_set Auto 256 8 DrainConfig_default sample_config None = Inr q"
    by (simp add: Pipeline_new_def sample_framer_new Let_def)
  from restart_resumes_mining [OF sample_pipeline_new sample_store_reloaded(1,2) sample_ops_allowed(1) p' q] p' q show ?thesis by blast
qed

end
