(* ===== verification/Device_Registry.thy ===== *)
theory Device_Registry
  imports Device_Store
begin

text \<open>
  The device registry (\<^verbatim>\<open>store/registry.rs\<close>): devices with their stable identity, nicknames, tags,
  port assignments, leases and exclusive claims, and the resolution of selectors. The tables are
  lists of rows; the UNIQUE columns and the foreign keys (with their cascades) are written out.
  The digest of \<^verbatim>\<open>db_stem\<close> is an argument; what \<^verbatim>\<open>serde_json\<close> writes it reads back.
\<close>

section \<open>Rows\<close>

datatype IdentityKind = ById | Positional

fun IdentityKind_as_str :: "IdentityKind \<Rightarrow> string" where
  "IdentityKind_as_str ById = ''by_id''"
| "IdentityKind_as_str Positional = ''positional''"

definition IdentityKind_parse :: "string \<Rightarrow> IdentityKind" where
  "IdentityKind_parse s = (if s = ''positional'' then Positional else ById)"

datatype DeviceKind = Local_device | File_device | Derived_device | Remote_device

definition DeviceKind_of :: "string \<Rightarrow> DeviceKind" where
  "DeviceKind_of canonical =
     (if starts_with ''peer:'' canonical then Remote_device
      else if starts_with ''file:'' canonical then File_device
      else if CHR 0x23 \<in> set canonical then Derived_device
      else Local_device)"

definition is_remote :: "DeviceKind \<Rightarrow> bool" where
  "is_remote k \<longleftrightarrow> k = Remote_device"

definition is_locally_mined :: "DeviceKind \<Rightarrow> bool" where
  "is_locally_mined k \<longleftrightarrow> k = Local_device \<or> k = File_device \<or> k = Derived_device"

fun DeviceKind_as_str :: "DeviceKind \<Rightarrow> string" where
  "DeviceKind_as_str Local_device = ''local''"
| "DeviceKind_as_str File_device = ''file''"
| "DeviceKind_as_str Derived_device = ''derived''"
| "DeviceKind_as_str Remote_device = ''remote''"

text \<open>\<^verbatim>\<open>config::LineConfig\<close> with its defaults.\<close>

datatype Parity = No_parity | Even_parity | Odd_parity | Mark_parity | Space_parity

datatype FlowControl = No_flow | RtsCts | XonXoff

record LineConfig =
  lc_baud :: nat
  lc_data_bits :: nat
  lc_parity :: Parity
  lc_stop_bits :: nat
  lc_flow :: FlowControl
  lc_tx_line_ending :: string
  lc_auto_baud :: bool
  lc_auto_baud_rates :: "nat list"

definition LineConfig_default :: LineConfig where
  "LineConfig_default =
     \<lparr> lc_baud = 115200, lc_data_bits = 8, lc_parity = No_parity, lc_stop_bits = 1, lc_flow = No_flow,
       lc_tx_line_ending = [CHR 0x0A], lc_auto_baud = False,
       lc_auto_baud_rates = [115200, 921600, 1500000, 9600, 38400, 57600, 230400, 460800] \<rparr>"

record DeviceRow =
  dv_id :: int
  dv_kind :: DeviceKind
  dv_node :: "string option"
  dv_node_host :: "string option"
  dv_remote_canonical :: "string option"
  dv_remote_port :: "int option"
  dv_via :: "string option"
  dv_hops :: int
  dv_remote_controls :: "json option"
  dv_canonical :: string
  dv_by_path :: "string option"
  dv_identity :: IdentityKind
  dv_tty :: "string option"
  dv_nickname :: "string option"
  dv_pinned_profile :: "string option"
  dv_ser2net_port :: "int option"
  dv_line :: LineConfig
  dv_target :: "string option"
  dv_state :: string
  dv_capture_state :: "string option"
  dv_ignored :: bool
  dv_first_seen :: int
  dv_last_seen :: int
  dv_observed :: json
  dv_tags :: "(string, string) btree"
  dv_db_file :: string

definition display_name :: "DeviceRow \<Rightarrow> string" where
  "display_name d = dv_canonical d"

definition device_label :: "DeviceRow \<Rightarrow> string option" where
  "device_label d = dv_nickname d"

definition is_present :: "DeviceRow \<Rightarrow> bool" where
  "is_present d \<longleftrightarrow> dv_state d \<noteq> ''gone''"

definition present_on_this_host :: "DeviceRow list \<Rightarrow> (string \<times> string option) list" where
  "present_on_this_host rows = map (\<lambda>d. (dv_canonical d, dv_by_path d)) (filter (\<lambda>d. dv_node d = None \<and> is_present d) rows)"

record Lease =
  le_device_id :: int
  le_holder :: string
  le_token :: string
  le_acquired_at :: int
  le_expires_at :: int
  le_stolen_from :: "string option"

record Claim =
  cl_device_id :: int
  cl_holder :: string
  cl_protocol :: "string option"
  cl_claimed_at :: int

text \<open>The tables. A device row is stored without its tags; the port is stored as an \<^verbatim>\<open>i64\<close>.\<close>

record Registry =
  rg_devices :: "DeviceRow list"
  rg_tags :: "(int \<times> string \<times> string) list"
  rg_leases :: "Lease list"
  rg_claims :: "Claim list"

definition Registry_empty :: Registry where
  "Registry_empty = \<lparr> rg_devices = [], rg_tags = [], rg_leases = [], rg_claims = [] \<rparr>"

definition has_device :: "Registry \<Rightarrow> int \<Rightarrow> bool" where
  "has_device g i \<longleftrightarrow> i \<in> dv_id ` set (rg_devices g)"

section \<open>Reading\<close>

text \<open>\<^verbatim>\<open>map_device\<close>: the casts of the port and of the hop count.\<close>

definition map_device :: "DeviceRow \<Rightarrow> DeviceRow" where
  "map_device d =
     d\<lparr> dv_ser2net_port := map_option (\<lambda>p. p mod 65536) (dv_ser2net_port d), dv_hops := max 1 (dv_hops d) mod 256 \<rparr>"

definition attach_tags :: "Registry \<Rightarrow> DeviceRow list \<Rightarrow> DeviceRow list" where
  "attach_tags g rows =
     map (\<lambda>d. foldl (\<lambda>d (i, k, v). if i = dv_id d then d\<lparr> dv_tags := bt_insert k v (dv_tags d) \<rparr> else d) d
       (sort_key (\<lambda>(i, k, v). k) (rg_tags g))) rows"

definition all_devices :: "Registry \<Rightarrow> DeviceRow list" where
  "all_devices g = attach_tags g (map map_device (order_by dv_id (rg_devices g)))"

definition device :: "Registry \<Rightarrow> int \<Rightarrow> DeviceRow res" where
  "device g i = and_then (ok_or UnknownDevice (find (\<lambda>d. dv_id d = i) (rg_devices g)))
     (\<lambda>d. Inr (hd (attach_tags g [map_device d])))"

definition device_by_canonical :: "Registry \<Rightarrow> string \<Rightarrow> DeviceRow option" where
  "device_by_canonical g canonical =
     map_option (\<lambda>d. hd (attach_tags g [map_device d])) (find (\<lambda>d. dv_canonical d = canonical) (rg_devices g))"

definition devices_where :: "Registry \<Rightarrow> (DeviceRow \<Rightarrow> bool) \<Rightarrow> DeviceRow list" where
  "devices_where g P = map map_device (order_by dv_canonical (filter P (rg_devices g)))"

definition remote_devices :: "Registry \<Rightarrow> DeviceRow list" where
  "remote_devices g = devices_where g (\<lambda>d. dv_node d \<noteq> None)"

definition devices_for_node :: "Registry \<Rightarrow> string \<Rightarrow> DeviceRow list" where
  "devices_for_node g node = devices_where g (\<lambda>d. dv_node d = Some node)"

definition devices_learned_via :: "Registry \<Rightarrow> string \<Rightarrow> DeviceRow list" where
  "devices_learned_via g peer = devices_where g (\<lambda>d. dv_via d = Some peer \<or> dv_via d = None \<and> dv_node d = Some peer)"

section \<open>Writing\<close>

definition update_device :: "Registry \<Rightarrow> int \<Rightarrow> (DeviceRow \<Rightarrow> DeviceRow) \<Rightarrow> Registry" where
  "update_device g i f = g\<lparr> rg_devices := update_where (\<lambda>d. dv_id d = i) f (rg_devices g) \<rparr>"

definition db_stem :: "(string \<Rightarrow> byte list) \<Rightarrow> string \<Rightarrow> string" where
  "db_stem sha256 canonical =
     take 48 (map (\<lambda>c. if is_ascii_alphanumeric c \<or> c = CHR 0x2D \<or> c = CHR 0x5F then c else CHR 0x5F) canonical) @
     ''-'' @ hex_encode (take 4 (sha256 canonical))"

definition coalesce :: "'a option \<Rightarrow> 'a option \<Rightarrow> 'a option" where
  "coalesce x y = (case x of Some v \<Rightarrow> Some v | None \<Rightarrow> y)"

definition device_of :: "int \<Rightarrow> string \<Rightarrow> string option \<Rightarrow> IdentityKind \<Rightarrow> string option \<Rightarrow> int \<Rightarrow> string \<Rightarrow> DeviceRow" where
  "device_of i canonical by_path identity tty now db_file =
     \<lparr> dv_id = i, dv_kind = DeviceKind_of canonical, dv_node = None, dv_node_host = None, dv_remote_canonical = None,
       dv_remote_port = None, dv_via = None, dv_hops = 1, dv_remote_controls = None, dv_canonical = canonical,
       dv_by_path = by_path, dv_identity = identity, dv_tty = tty, dv_nickname = None, dv_pinned_profile = None,
       dv_ser2net_port = None, dv_line = LineConfig_default, dv_target = None, dv_state = ''unknown'', dv_capture_state = None,
       dv_ignored = False, dv_first_seen = now, dv_last_seen = now, dv_observed = JObj [], dv_tags = [], dv_db_file = db_file \<rparr>"

definition upsert_device ::
    "(string \<Rightarrow> byte list) \<Rightarrow> Registry \<Rightarrow> string \<Rightarrow> string option \<Rightarrow> IdentityKind \<Rightarrow> string option \<Rightarrow> int \<Rightarrow> DeviceRow res \<times> Registry" where
  "upsert_device sha256 g canonical by_path identity tty now =
     (let devs = rg_devices g;
          g = (if canonical \<in> dv_canonical ` set devs
               then g\<lparr> rg_devices := update_where (\<lambda>d. dv_canonical d = canonical)
                        (\<lambda>d. d\<lparr> dv_by_path := coalesce by_path (dv_by_path d), dv_tty := coalesce tty (dv_tty d), dv_last_seen := now \<rparr>) devs \<rparr>
               else g\<lparr> rg_devices := devs @ [device_of (next_id (map dv_id devs)) canonical by_path identity tty now
                        (''dev-'' @ db_stem sha256 canonical @ ''.db'')] \<rparr>)
      in (ok_or Internal (device_by_canonical g canonical), g))"

definition set_remote_route ::
    "Registry \<Rightarrow> int \<Rightarrow> string \<Rightarrow> string option \<Rightarrow> string \<Rightarrow> int option \<Rightarrow> string option \<Rightarrow> int \<Rightarrow> Registry" where
  "set_remote_route g i node node_host remote_canonical remote_port via hops =
     update_device g i (\<lambda>d. d\<lparr> dv_node := Some node, dv_node_host := node_host, dv_remote_canonical := Some remote_canonical,
       dv_remote_port := remote_port, dv_via := via, dv_hops := hops \<rparr>)"

definition set_remote_origin :: "Registry \<Rightarrow> int \<Rightarrow> string \<Rightarrow> string option \<Rightarrow> string \<Rightarrow> int option \<Rightarrow> Registry" where
  "set_remote_origin g i node node_host remote_canonical remote_port =
     set_remote_route g i node node_host remote_canonical remote_port None 1"

definition set_remote_controls :: "Registry \<Rightarrow> int \<Rightarrow> json option \<Rightarrow> Registry" where
  "set_remote_controls g i controls = update_device g i (\<lambda>d. d\<lparr> dv_remote_controls := controls \<rparr>)"

text \<open>The loop of \<^verbatim>\<open>assign_port\<close>: every turn moves past one of the finitely many used ports.\<close>

function free_port :: "int list \<Rightarrow> int \<Rightarrow> int" where
  "free_port used port = (if port \<in> set used then free_port used (port + 1) else port)"
  by pat_completeness auto
termination
proof (relation "measure (\<lambda>(used, port). card {p \<in> set used. port \<le> p})")
  fix used :: "int list" and port :: int
  assume "port \<in> set used"
  then have "{p \<in> set used. port + 1 \<le> p} \<subset> {p \<in> set used. port \<le> p}" by force
  then show "((used, port + 1), used, port) \<in> measure (\<lambda>(used, port). card {p \<in> set used. port \<le> p})"
    by (simp add: psubset_card_mono)
qed simp

declare free_port.simps [simp del]

definition used_ports :: "Registry \<Rightarrow> int list" where
  "used_ports g = List.map_filter dv_ser2net_port (rg_devices g)"

definition assign_port :: "Registry \<Rightarrow> int \<Rightarrow> int \<Rightarrow> int \<times> Registry" where
  "assign_port g i base =
     (case map_option dv_ser2net_port (find (\<lambda>d. dv_id d = i) (rg_devices g)) of
        Some (Some p) \<Rightarrow> (p mod 65536, g)
      | _ \<Rightarrow> let port = free_port (used_ports g) base
             in (port mod 65536, update_device g i (\<lambda>d. d\<lparr> dv_ser2net_port := Some port \<rparr>)))"

definition set_nickname :: "Registry \<Rightarrow> int \<Rightarrow> string \<Rightarrow> unit res \<times> Registry" where
  "set_nickname g i nickname =
     (if trim nickname = [] then (Inr (), update_device g i (\<lambda>d. d\<lparr> dv_nickname := None \<rparr>))
      else if CHR 0x3A \<in> set nickname \<or> CHR 0x3D \<in> set nickname \<or> CHR 0x20 \<in> set nickname then (Inl InvalidArgument, g)
      else case find (\<lambda>d. dv_nickname d = Some nickname) (rg_devices g) of
             Some d \<Rightarrow> if dv_id d \<noteq> i then (Inl NicknameTaken, g)
                       else (Inr (), update_device g i (\<lambda>d. d\<lparr> dv_nickname := Some nickname \<rparr>))
           | None \<Rightarrow> (Inr (), update_device g i (\<lambda>d. d\<lparr> dv_nickname := Some nickname \<rparr>)))"

definition remove_tag :: "Registry \<Rightarrow> int \<Rightarrow> string \<Rightarrow> Registry" where
  "remove_tag g i key = g\<lparr> rg_tags := filter (\<lambda>(j, k, v). \<not> (j = i \<and> k = key)) (rg_tags g) \<rparr>"

definition remove_tags :: "Registry \<Rightarrow> int \<Rightarrow> string list \<Rightarrow> Registry" where
  "remove_tags g i keys = foldl (\<lambda>g k. remove_tag g i k) g keys"

definition upsert_tag :: "int \<Rightarrow> string \<Rightarrow> string \<Rightarrow> (int \<times> string \<times> string) list \<Rightarrow> (int \<times> string \<times> string) list" where
  "upsert_tag i k v ts =
     (if (i, k) \<in> (\<lambda>(j, k, v). (j, k)) ` set ts then map (\<lambda>(j, k', v'). if j = i \<and> k' = k then (j, k', v) else (j, k', v')) ts
      else ts @ [(i, k, v)])"

definition set_tags :: "Registry \<Rightarrow> int \<Rightarrow> (string, string) btree \<Rightarrow> unit res \<times> Registry" where
  "set_tags g i tags =
     (if tags \<noteq> [] \<and> \<not> has_device g i then (Inl Internal, g)
      else (Inr (), g\<lparr> rg_tags := foldl (\<lambda>ts (k, v). upsert_tag i k v ts) (rg_tags g) tags \<rparr>))"

definition set_pinned_profile :: "Registry \<Rightarrow> int \<Rightarrow> string option \<Rightarrow> Registry" where
  "set_pinned_profile g i profile = update_device g i (\<lambda>d. d\<lparr> dv_pinned_profile := profile \<rparr>)"

definition set_line :: "Registry \<Rightarrow> int \<Rightarrow> LineConfig \<Rightarrow> Registry" where
  "set_line g i l = update_device g i (\<lambda>d. d\<lparr> dv_line := l \<rparr>)"

definition set_state :: "Registry \<Rightarrow> int \<Rightarrow> string \<Rightarrow> Registry" where
  "set_state g i state = update_device g i (\<lambda>d. d\<lparr> dv_state := state \<rparr>)"

definition capture_state :: "Registry \<Rightarrow> int \<Rightarrow> string option" where
  "capture_state g i = (case find (\<lambda>d. dv_id d = i) (rg_devices g) of Some d \<Rightarrow> dv_capture_state d | None \<Rightarrow> None)"

definition set_capture_state :: "Registry \<Rightarrow> int \<Rightarrow> string \<Rightarrow> Registry" where
  "set_capture_state g i state = update_device g i (\<lambda>d. d\<lparr> dv_capture_state := Some state \<rparr>)"

definition set_ignored :: "Registry \<Rightarrow> int \<Rightarrow> bool \<Rightarrow> Registry" where
  "set_ignored g i ignored = update_device g i (\<lambda>d. d\<lparr> dv_ignored := ignored \<rparr>)"

definition set_target :: "Registry \<Rightarrow> int \<Rightarrow> string option \<Rightarrow> Registry" where
  "set_target g i target = update_device g i (\<lambda>d. d\<lparr> dv_target := target \<rparr>)"

definition merge_observed :: "Registry \<Rightarrow> int \<Rightarrow> json \<Rightarrow> unit res \<times> Registry" where
  "merge_observed g i seen =
     (case find (\<lambda>d. dv_id d = i) (rg_devices g) of
        None \<Rightarrow> (Inl Internal, g)
      | Some d \<Rightarrow>
          let obj = (case dv_observed d of JObj m \<Rightarrow> m | _ \<Rightarrow> []);
              obj = (case seen of JObj m \<Rightarrow> jm_extend obj m | _ \<Rightarrow> obj)
          in (Inr (), update_device g i (\<lambda>d. d\<lparr> dv_observed := JObj obj \<rparr>)))"

text \<open>Forgetting a device cascades to its tags, its lease and its claim.\<close>

definition forget_device :: "Registry \<Rightarrow> int \<Rightarrow> Registry" where
  "forget_device g i =
     (if has_device g i
      then g\<lparr> rg_devices := filter (\<lambda>d. dv_id d \<noteq> i) (rg_devices g), rg_tags := filter (\<lambda>(j, k, v). j \<noteq> i) (rg_tags g),
              rg_leases := filter (\<lambda>l. le_device_id l \<noteq> i) (rg_leases g), rg_claims := filter (\<lambda>c. cl_device_id c \<noteq> i) (rg_claims g) \<rparr>
      else g)"

section \<open>Selectors\<close>

fun tag_terms :: "string list \<Rightarrow> (string \<times> string) list option" where
  "tag_terms [] = Some []"
| "tag_terms (part # parts) =
     (case strip_prefix ''tag:'' (trim part) of
        None \<Rightarrow> None
      | Some body \<Rightarrow> (case split_once (CHR 0x3D) body of
            None \<Rightarrow> None
          | Some (k, v) \<Rightarrow> if k = [] then None else map_option (Cons (k, v)) (tag_terms parts)))"

definition parse_tag_query :: "string \<Rightarrow> (string \<times> string) list option" where
  "parse_tag_query sel = (if starts_with ''tag:'' sel then tag_terms (split_str '' AND '' sel) else None)"

text \<open>\<^verbatim>\<open>char::to_lowercase\<close> on code points below 256, and the spelling-insensitive form of a name.\<close>

definition to_lowercase :: "char \<Rightarrow> char" where
  "to_lowercase c =
     (let n = of_char c :: nat
      in if 65 \<le> n \<and> n \<le> 90 \<or> 0xC0 \<le> n \<and> n \<le> 0xDE \<and> n \<noteq> 0xD7 then char_of (n + 32) else c)"

definition squash :: "string \<Rightarrow> string" where
  "squash t = map to_lowercase (filter is_alphanumeric t)"

definition opt_any :: "('a \<Rightarrow> bool) \<Rightarrow> 'a option \<Rightarrow> bool" where
  "opt_any P x = (case x of Some v \<Rightarrow> P v | None \<Rightarrow> False)"

text \<open>A name matches through the canonical id, the nickname or the port path; derived stores only
  compete when the selector names one.\<close>

definition competes :: "string \<Rightarrow> DeviceRow \<Rightarrow> bool" where
  "competes sel d \<longleftrightarrow> CHR 0x23 \<in> set sel \<or> CHR 0x23 \<notin> set (dv_canonical d)"

definition named_by :: "(string \<Rightarrow> bool) \<Rightarrow> DeviceRow \<Rightarrow> bool" where
  "named_by P d \<longleftrightarrow> P (dv_canonical d) \<or> opt_any P (dv_nickname d) \<or> opt_any P (dv_by_path d)"

definition has_tags :: "(string \<times> string) list \<Rightarrow> DeviceRow \<Rightarrow> bool" where
  "has_tags terms d \<longleftrightarrow> list_all (\<lambda>(k, v). bt_get (dv_tags d) k = Some v) terms"

definition resolve_all :: "Registry \<Rightarrow> string \<Rightarrow> DeviceRow list res" where
  "resolve_all g selector =
     (let sel = trim selector; devices = all_devices g
      in if sel = [] then Inl InvalidArgument
         else let hit = filter (\<lambda>d. dv_nickname d = Some sel) devices
         in if hit \<noteq> [] then Inr hit
         else let hit = filter (\<lambda>d. dv_canonical d = sel) devices
         in if hit \<noteq> [] then Inr hit
         else case parse_tag_query sel of
                Some terms \<Rightarrow> Inr (filter (has_tags terms) devices)
              | None \<Rightarrow>
                  let hit = filter (\<lambda>d. competes sel d \<and> named_by (str_contains sel) d) devices
                  in if hit \<noteq> [] then Inr hit
                  else let want = squash sel
                  in if want = [] then Inr []
                  else Inr (filter (\<lambda>d. competes sel d \<and> named_by (\<lambda>t. str_contains want (squash t)) d) devices))"

definition resolve :: "Registry \<Rightarrow> string \<Rightarrow> DeviceRow res" where
  "resolve g selector =
     and_then (resolve_all g selector)
       (\<lambda>hits. case hits of
          [d] \<Rightarrow> Inr d
        | [] \<Rightarrow> Inl UnknownDevice
        | _ \<Rightarrow> Inl (if parse_tag_query (trim selector) \<noteq> None then GroupSelectorNotAllowed else AmbiguousDevice))"

definition resolve_group :: "Registry \<Rightarrow> string \<Rightarrow> DeviceRow list res" where
  "resolve_group g selector = and_then (resolve_all g selector) (\<lambda>hits. if hits = [] then Inl UnknownDevice else Inr hits)"

section \<open>Leases\<close>

definition lease :: "Registry \<Rightarrow> int \<Rightarrow> Lease option" where
  "lease g i = find (\<lambda>l. le_device_id l = i) (rg_leases g)"

definition set_lease_expiry :: "Registry \<Rightarrow> int \<Rightarrow> int \<Rightarrow> Registry" where
  "set_lease_expiry g i expires_at =
     g\<lparr> rg_leases := update_where (\<lambda>l. le_device_id l = i) (\<lambda>l. l\<lparr> le_expires_at := expires_at \<rparr>) (rg_leases g) \<rparr>"

text \<open>The statements of \<^verbatim>\<open>acquire_lease\<close>: the check on the lease that was read, and the upsert.\<close>

definition lease_blocks :: "Lease option \<Rightarrow> string \<Rightarrow> int \<Rightarrow> bool" where
  "lease_blocks current holder now = opt_any (\<lambda>l. le_expires_at l > now \<and> le_holder l \<noteq> holder) current"

definition put_lease :: "Registry \<Rightarrow> Lease \<Rightarrow> Registry" where
  "put_lease g l =
     g\<lparr> rg_leases := (if le_device_id l \<in> le_device_id ` set (rg_leases g)
          then update_where (\<lambda>x. le_device_id x = le_device_id l) (\<lambda>_. l) (rg_leases g) else rg_leases g @ [l]) \<rparr>"

definition lease_token :: "int \<Rightarrow> int \<Rightarrow> string \<Rightarrow> string" where
  "lease_token i now holder = int_str i @ ''-'' @ int_str now @ ''-'' @ digits_of 10 (str_len holder)"

definition write_lease :: "Registry \<Rightarrow> int \<Rightarrow> string \<Rightarrow> int \<Rightarrow> int \<Rightarrow> Lease option \<Rightarrow> Lease res \<times> Registry" where
  "write_lease g i holder now ttl current =
     (let l = \<lparr> le_device_id = i, le_holder = holder, le_token = lease_token i now holder, le_acquired_at = now,
                le_expires_at = now + ttl * 1000,
                le_stolen_from = (if lease_blocks current holder now then map_option le_holder current else None) \<rparr>
      in if \<not> has_device g i then (Inl Internal, g)
         else let g = put_lease g l in (ok_or Internal (lease g i), g))"

text \<open>\<^verbatim>\<open>i64::clamp\<close> panics when the maximum is below one: no value.\<close>

definition acquire_lease :: "Registry \<Rightarrow> int \<Rightarrow> string \<Rightarrow> int \<Rightarrow> int \<Rightarrow> int \<Rightarrow> bool \<Rightarrow> (Lease res \<times> Registry) option" where
  "acquire_lease g i holder now ttl_s max_s steal =
     (if max_s < 1 then None
      else let ttl = max 1 (min max_s ttl_s); current = lease g i
           in if lease_blocks current holder now \<and> \<not> steal then Some (Inl LeaseHeld, g)
              else Some (write_lease g i holder now ttl current))"

definition force_release_lease :: "Registry \<Rightarrow> int \<Rightarrow> bool \<times> Registry" where
  "force_release_lease g i =
     (lease g i \<noteq> None, g\<lparr> rg_leases := filter (\<lambda>l. le_device_id l \<noteq> i) (rg_leases g) \<rparr>)"

definition release_lease :: "Registry \<Rightarrow> int \<Rightarrow> string \<Rightarrow> unit res \<times> Registry" where
  "release_lease g i holder =
     (let mine = (\<lambda>l. le_device_id l = i \<and> le_holder l = holder)
      in if list_ex mine (rg_leases g) then (Inr (), g\<lparr> rg_leases := filter (\<lambda>l. \<not> mine l) (rg_leases g) \<rparr>)
         else (Inl LeaseHeld, g))"

definition require_lease :: "Registry \<Rightarrow> int \<Rightarrow> string \<Rightarrow> int \<Rightarrow> unit res" where
  "require_lease g i holder now =
     (case lease g i of
        Some l \<Rightarrow> if le_holder l = holder \<and> le_expires_at l > now then Inr ()
                  else if le_expires_at l > now then Inl LeaseHeld else Inl LeaseRequired
      | None \<Rightarrow> Inl LeaseRequired)"

section \<open>Exclusive claims\<close>

definition exclusive_claim :: "Registry \<Rightarrow> int \<Rightarrow> (string \<times> string option) option" where
  "exclusive_claim g i = map_option (\<lambda>c. (cl_holder c, cl_protocol c)) (find (\<lambda>c. cl_device_id c = i) (rg_claims g))"

definition put_claim :: "Registry \<Rightarrow> Claim \<Rightarrow> Registry" where
  "put_claim g c =
     g\<lparr> rg_claims := (if cl_device_id c \<in> cl_device_id ` set (rg_claims g)
          then update_where (\<lambda>x. cl_device_id x = cl_device_id c) (\<lambda>_. c) (rg_claims g) else rg_claims g @ [c]) \<rparr>"

definition claim_exclusive :: "Registry \<Rightarrow> int \<Rightarrow> string \<Rightarrow> string option \<Rightarrow> int \<Rightarrow> unit res \<times> Registry" where
  "claim_exclusive g i holder protocol now =
     (if opt_any (\<lambda>(h, _). h \<noteq> holder) (exclusive_claim g i) then (Inl ExclusiveClaimed, g)
      else if \<not> has_device g i then (Inl Internal, g)
      else (Inr (), put_claim g \<lparr> cl_device_id = i, cl_holder = holder, cl_protocol = protocol, cl_claimed_at = now \<rparr>))"

definition release_exclusive :: "Registry \<Rightarrow> int \<Rightarrow> Registry" where
  "release_exclusive g i = g\<lparr> rg_claims := filter (\<lambda>c. cl_device_id c \<noteq> i) (rg_claims g) \<rparr>"

end
