(* ===== verification/Registry_Laws.thy ===== *)
theory Registry_Laws
  imports Device_Registry Store_Inv
begin

text \<open>
  What the registry promises over any sequence of its operations: unique identities, nicknames
  and ports, one lease and one claim per known device, a lease nobody loses without force, a
  port that is the least free one and stays, and a nickname that always finds its device.
\<close>

section \<open>Operations\<close>

datatype RegOp =
    Upsert string "string option" IdentityKind "string option" int
  | SetRoute int string "string option" string "int option" "string option" int
  | SetControls int "json option"
  | AssignPort int int
  | SetNickname int string
  | SetTags int "(string, string) btree"
  | RemoveTags int "string list"
  | SetProfile int "string option"
  | SetLine int LineConfig
  | SetState int string
  | SetCapture int string
  | SetIgnored int bool
  | SetTarget int "string option"
  | MergeObserved int json
  | Forget int
  | SetExpiry int int
  | Acquire int string int int int bool
  | ForceRelease int
  | Release int string
  | ClaimPort int string "string option" int
  | ReleaseClaim int

text \<open>The registry an operation leaves; one that panics leaves it as it was.\<close>

fun reg_apply :: "(string \<Rightarrow> byte list) \<Rightarrow> Registry \<Rightarrow> RegOp \<Rightarrow> Registry" where
  "reg_apply sha g (Upsert c b k t now) = snd (upsert_device sha g c b k t now)"
| "reg_apply sha g (SetRoute i n h rc rp via hops) = set_remote_route g i n h rc rp via hops"
| "reg_apply sha g (SetControls i c) = set_remote_controls g i c"
| "reg_apply sha g (AssignPort i base) = snd (assign_port g i base)"
| "reg_apply sha g (SetNickname i n) = snd (set_nickname g i n)"
| "reg_apply sha g (SetTags i ts) = snd (set_tags g i ts)"
| "reg_apply sha g (RemoveTags i ks) = remove_tags g i ks"
| "reg_apply sha g (SetProfile i p) = set_pinned_profile g i p"
| "reg_apply sha g (SetLine i l) = set_line g i l"
| "reg_apply sha g (SetState i s) = set_state g i s"
| "reg_apply sha g (SetCapture i s) = set_capture_state g i s"
| "reg_apply sha g (SetIgnored i b) = set_ignored g i b"
| "reg_apply sha g (SetTarget i t) = set_target g i t"
| "reg_apply sha g (MergeObserved i j) = snd (merge_observed g i j)"
| "reg_apply sha g (Forget i) = forget_device g i"
| "reg_apply sha g (SetExpiry i t) = set_lease_expiry g i t"
| "reg_apply sha g (Acquire i h now ttl m steal) = (case acquire_lease g i h now ttl m steal of Some (_, g') \<Rightarrow> g' | None \<Rightarrow> g)"
| "reg_apply sha g (ForceRelease i) = snd (force_release_lease g i)"
| "reg_apply sha g (Release i h) = snd (release_lease g i h)"
| "reg_apply sha g (ClaimPort i h p now) = snd (claim_exclusive g i h p now)"
| "reg_apply sha g (ReleaseClaim i) = release_exclusive g i"

definition reg_run :: "(string \<Rightarrow> byte list) \<Rightarrow> Registry \<Rightarrow> RegOp list \<Rightarrow> Registry" where
  "reg_run sha g ops = foldl (reg_apply sha) g ops"

section \<open>The invariant\<close>

abbreviation device_ids :: "Registry \<Rightarrow> int set" where "device_ids g \<equiv> dv_id ` set (rg_devices g)"

definition nicknames :: "DeviceRow list \<Rightarrow> string list" where
  "nicknames ds = List.map_filter dv_nickname ds"

definition ports :: "DeviceRow list \<Rightarrow> int list" where
  "ports ds = List.map_filter dv_ser2net_port ds"

text \<open>The devices alone: ascending ids, the UNIQUE columns, the kind that goes with the id.\<close>

definition devices_ok :: "DeviceRow list \<Rightarrow> bool" where
  "devices_ok ds \<longleftrightarrow> sorted_wrt (<) (map dv_id ds) \<and> distinct (map dv_canonical ds) \<and> distinct (nicknames ds) \<and> distinct (ports ds) \<and>
     list_all (\<lambda>d. dv_kind d = DeviceKind_of (dv_canonical d) \<and> dv_tags d = []) ds"

definition registry_ok :: "Registry \<Rightarrow> bool" where
  "registry_ok g \<longleftrightarrow> devices_ok (rg_devices g) \<and>
     distinct (map (\<lambda>(i, k, v). (i, k)) (rg_tags g)) \<and> fst ` set (rg_tags g) \<subseteq> device_ids g \<and>
     distinct (map le_device_id (rg_leases g)) \<and> le_device_id ` set (rg_leases g) \<subseteq> device_ids g \<and>
     distinct (map cl_device_id (rg_claims g)) \<and> cl_device_id ` set (rg_claims g) \<subseteq> device_ids g"

lemma map_filter_simps [simp]:
  "List.map_filter f [] = []" "List.map_filter f (x # xs) = (case f x of Some y \<Rightarrow> y # List.map_filter f xs | None \<Rightarrow> List.map_filter f xs)"
  "List.map_filter f (xs @ ys) = List.map_filter f xs @ List.map_filter f ys"
  by (simp_all add: map_filter_def split: option.split)

lemma set_map_filter: "set (List.map_filter f xs) = {y. \<exists>x\<in>set xs. f x = Some y}"
  by (induction xs) (auto split: option.split)

lemma map_filter_cong: "(\<And>x. x \<in> set xs \<Longrightarrow> f (h x) = f x) \<Longrightarrow> List.map_filter f (map h xs) = List.map_filter f xs"
  by (induction xs) (simp_all split: option.split)

lemma distinct_map_filter_filter: "distinct (List.map_filter f xs) \<Longrightarrow> distinct (List.map_filter f (filter P xs))"
  by (induction xs) (auto simp: set_map_filter split: option.splits)

text \<open>Updating one device: the id stays and the unique columns may only change to fresh values.\<close>

lemma update_rows_ok:
  assumes ok: "devices_ok ds"
    and same: "\<And>d. dv_id (f d) = dv_id d \<and> dv_canonical (f d) = dv_canonical d \<and> dv_kind (f d) = dv_kind d \<and> dv_tags (f d) = dv_tags d"
    and nick: "\<And>d. d \<in> set ds \<Longrightarrow> P d \<Longrightarrow> dv_nickname (f d) = dv_nickname d"
    and port: "\<And>d. d \<in> set ds \<Longrightarrow> P d \<Longrightarrow> dv_ser2net_port (f d) = dv_ser2net_port d"
  shows "devices_ok (update_where P f ds)"
proof -
  have maps: "map dv_id (update_where P f ds) = map dv_id ds" "map dv_canonical (update_where P f ds) = map dv_canonical ds"
    by (simp_all add: update_where_def same)
  have "nicknames (update_where P f ds) = nicknames ds" "ports (update_where P f ds) = ports ds"
    unfolding nicknames_def ports_def update_where_def by (rule map_filter_cong, use nick port in simp)+
  moreover have "list_all (\<lambda>d. dv_kind d = DeviceKind_of (dv_canonical d) \<and> dv_tags d = []) (update_where P f ds)"
    using ok by (auto simp: devices_ok_def list_all_iff update_where_def same)
  ultimately show ?thesis using ok by (simp add: devices_ok_def maps)
qed

lemma device_ids_update: "(\<And>d. dv_id (f d) = dv_id d) \<Longrightarrow> device_ids (update_device g i f) = device_ids g"
  by (simp add: update_device_def image_update_where)

lemma update_device_fields [simp]:
  "rg_tags (update_device g i f) = rg_tags g" "rg_leases (update_device g i f) = rg_leases g" "rg_claims (update_device g i f) = rg_claims g"
  "rg_devices (update_device g i f) = update_where (\<lambda>d. dv_id d = i) f (rg_devices g)"
  by (simp_all add: update_device_def)

lemma registry_ok_devices:
  assumes "registry_ok g" and "devices_ok ds" and "device_ids g \<subseteq> dv_id ` set ds"
  shows "registry_ok (g\<lparr> rg_devices := ds \<rparr>)"
  using assms order_trans [OF _ assms(3)] by (simp add: registry_ok_def)

lemma update_device_ok:
  assumes "registry_ok g" and "devices_ok (update_where (\<lambda>d. dv_id d = i) f (rg_devices g))" and "\<And>d. dv_id (f d) = dv_id d"
  shows "registry_ok (update_device g i f)"
  using registry_ok_devices [OF assms(1,2)] assms(3) by (simp add: update_device_def image_update_where)

text \<open>Updates of a column that is neither an identity nor unique.\<close>

lemma update_plain_ok:
  assumes "registry_ok g"
    and "\<And>d. dv_id (f d) = dv_id d \<and> dv_canonical (f d) = dv_canonical d \<and> dv_kind (f d) = dv_kind d \<and> dv_tags (f d) = dv_tags d"
    and "\<And>d. dv_nickname (f d) = dv_nickname d" and "\<And>d. dv_ser2net_port (f d) = dv_ser2net_port d"
  shows "registry_ok (update_device g i f)"
  by (rule update_device_ok [OF assms(1) update_rows_ok]) (use assms in \<open>simp_all add: registry_ok_def\<close>)

text \<open>A unique column set on one device to a value no other device has.\<close>

lemma distinct_unique_column:
  assumes "distinct (map dv_id ds)" and "distinct (List.map_filter c ds)"
    and "\<And>d. d \<in> set ds \<Longrightarrow> dv_id d \<noteq> i \<Longrightarrow> c d \<noteq> Some v" and "\<And>d. c (f d) = Some v"
  shows "distinct (List.map_filter c (update_where (\<lambda>d. dv_id d = i) f ds))"
  using assms
proof (induction ds)
  case (Cons d ds)
  show ?case
  proof (cases "dv_id d = i")
    case True
    with Cons.prems(1) have other: "dv_id e \<noteq> i" if "e \<in> set ds" for e using that True by (auto simp: image_iff)
    then have "update_where (\<lambda>d. dv_id d = i) f ds = ds" by (auto simp: update_where_def intro: map_idI)
    with Cons.prems True other show ?thesis by (auto simp: update_where_def set_map_filter split: option.splits)
  next
    case False
    have ih: "distinct (List.map_filter c (update_where (\<lambda>d. dv_id d = i) f ds))" using Cons by (auto split: option.splits)
    have "w \<notin> set (List.map_filter c (update_where (\<lambda>d. dv_id d = i) f ds))" if "c d = Some w" for w
    proof -
      have "w \<noteq> v" using Cons.prems(3) [of d] False that by simp
      moreover have "w \<notin> set (List.map_filter c ds)" using Cons.prems(2) that by simp
      ultimately show ?thesis using Cons.prems(4) by (auto simp: set_map_filter update_where_def)
    qed
    with ih False show ?thesis by (auto simp: update_where_def split: option.split)
  qed
qed simp

lemma ids_distinct: "devices_ok ds \<Longrightarrow> distinct (map dv_id ds)"
  by (simp add: devices_ok_def strict_sorted_iff)

lemma columns_other:
  assumes "\<And>d. dv_nickname (f d) = dv_nickname d"
  shows "nicknames (update_where P f ds) = nicknames ds"
  unfolding nicknames_def update_where_def by (rule map_filter_cong) (simp add: assms)

lemma set_port_ok:
  assumes g: "registry_ok g" and fresh: "port \<notin> set (used_ports g)"
  shows "registry_ok (update_device g i (\<lambda>d. d\<lparr> dv_ser2net_port := Some port \<rparr>))"
proof (rule update_device_ok [OF g])
  let ?ds = "rg_devices g" and ?f = "\<lambda>d. d\<lparr> dv_ser2net_port := Some port \<rparr>"
  have ok: "devices_ok ?ds" using g by (simp add: registry_ok_def)
  have "distinct (ports (update_where (\<lambda>d. dv_id d = i) ?f ?ds))"
    unfolding ports_def using ids_distinct [OF ok] ok fresh
    by (intro distinct_unique_column) (auto simp: devices_ok_def ports_def used_ports_def set_map_filter)
  then show "devices_ok (update_where (\<lambda>d. dv_id d = i) ?f ?ds)"
    using ok columns_other [of ?f] by (simp add: devices_ok_def map_update_where) (auto simp: list_all_iff update_where_def)
qed simp

lemma ports_other:
  assumes "\<And>d. dv_ser2net_port (f d) = dv_ser2net_port d"
  shows "ports (update_where P f ds) = ports ds"
  unfolding ports_def update_where_def by (rule map_filter_cong) (simp add: assms)

lemma set_nick_ok:
  assumes g: "registry_ok g" and fresh: "\<And>d v. nick = Some v \<Longrightarrow> d \<in> set (rg_devices g) \<Longrightarrow> dv_id d \<noteq> i \<Longrightarrow> dv_nickname d \<noteq> Some v"
  shows "registry_ok (update_device g i (\<lambda>d. d\<lparr> dv_nickname := nick \<rparr>))"
proof (rule update_device_ok [OF g])
  let ?ds = "rg_devices g" and ?f = "\<lambda>d. d\<lparr> dv_nickname := nick \<rparr>"
  have ok: "devices_ok ?ds" using g by (simp add: registry_ok_def)
  have "distinct (nicknames (update_where (\<lambda>d. dv_id d = i) ?f ?ds))"
  proof (cases nick)
    case None
    have sub: "List.map_filter dv_nickname (update_where (\<lambda>d. dv_id d = i) (\<lambda>d. d\<lparr> dv_nickname := None \<rparr>) xs) =
        List.map_filter dv_nickname (filter (\<lambda>d. dv_id d \<noteq> i) xs)" for xs :: "DeviceRow list"
      by (induction xs) (simp_all add: update_where_def split: option.split)
    then show ?thesis using None ok distinct_map_filter_filter [of dv_nickname ?ds] by (simp add: nicknames_def devices_ok_def)
  next
    case (Some v)
    then show ?thesis unfolding nicknames_def using ids_distinct [OF ok] ok fresh
      by (intro distinct_unique_column) (auto simp: devices_ok_def nicknames_def)
  qed
  then show "devices_ok (update_where (\<lambda>d. dv_id d = i) ?f ?ds)"
    using ok ports_other [of ?f] by (simp add: devices_ok_def map_update_where) (auto simp: list_all_iff update_where_def)
qed simp

section \<open>Every operation keeps the invariant\<close>

lemma upsert_ok:
  assumes g: "registry_ok g"
  shows "registry_ok (snd (upsert_device sha g c b k t now))"
proof (cases "c \<in> dv_canonical ` set (rg_devices g)")
  case True
  let ?f = "\<lambda>d. d\<lparr> dv_by_path := coalesce b (dv_by_path d), dv_tty := coalesce t (dv_tty d), dv_last_seen := now \<rparr>"
  have "devices_ok (update_where (\<lambda>d. dv_canonical d = c) ?f (rg_devices g))"
    by (rule update_rows_ok) (use g in \<open>simp_all add: registry_ok_def\<close>)
  with True registry_ok_devices [OF g this] show ?thesis by (simp add: upsert_device_def Let_def image_update_where)
next
  case False
  let ?d = "device_of (next_id (map dv_id (rg_devices g))) c b k t now (''dev-'' @ db_stem sha c @ ''.db'')"
  have "devices_ok (rg_devices g @ [?d])"
    using g False sorted_next_id [of "map dv_id (rg_devices g)"]
    by (auto simp: registry_ok_def devices_ok_def device_of_def nicknames_def ports_def)
  from registry_ok_devices [OF g this] False show ?thesis by (simp add: upsert_device_def Let_def image_Un subset_insertI2)
qed

lemma free_port_props: "base \<le> free_port used base \<and> free_port used base \<notin> set used \<and> (\<forall>p. base \<le> p \<longrightarrow> p < free_port used base \<longrightarrow> p \<in> set used)"
proof (induction used base rule: free_port.induct)
  case (1 used port)
  show ?case
  proof (cases "port \<in> set used")
    case True
    have "free_port used port = free_port used (port + 1)" by (subst free_port.simps) (simp add: True)
    moreover have "p \<in> set used" if "port \<le> p" "p < free_port used (port + 1)" for p
      using that 1 [OF True] True by (cases "p = port") auto
    ultimately show ?thesis using 1 [OF True] by auto
  next
    case False
    have "free_port used port = port" by (subst free_port.simps) (simp add: False)
    with False show ?thesis by auto
  qed
qed

lemma assign_port_ok: "registry_ok g \<Longrightarrow> registry_ok (snd (assign_port g i base))"
  using set_port_ok free_port_props by (auto simp: assign_port_def Let_def split: option.split)

lemma set_nickname_ok:
  assumes "registry_ok g"
  shows "registry_ok (snd (set_nickname g i n))"
proof -
  have fresh: "dv_nickname d \<noteq> Some n" if "find (\<lambda>d. dv_nickname d = Some n) (rg_devices g) = None" "d \<in> set (rg_devices g)" for d
    using that by (auto simp: find_None_iff)
  have own: "dv_nickname d \<noteq> Some n"
    if f: "find (\<lambda>d. dv_nickname d = Some n) (rg_devices g) = Some e" and e: "dv_id e = i" and d: "d \<in> set (rg_devices g)" "dv_id d \<noteq> i" for d e
  proof
    assume n: "dv_nickname d = Some n"
    have e': "e \<in> set (rg_devices g)" "dv_nickname e = Some n" using f by (auto simp: find_Some_iff)
    have "distinct (List.map_filter dv_nickname xs) \<Longrightarrow> x \<in> set xs \<Longrightarrow> y \<in> set xs \<Longrightarrow> dv_nickname x = Some n \<Longrightarrow> dv_nickname y = Some n \<Longrightarrow> x = y"
      for xs x y by (induction xs) (auto simp: set_map_filter split: option.splits)
    from this [of "rg_devices g" d e] assms n d e' have "d = e" by (simp add: registry_ok_def devices_ok_def nicknames_def)
    with e d(2) show False by simp
  qed
  have none: "registry_ok (update_device g i (\<lambda>d. d\<lparr> dv_nickname := None \<rparr>))" by (rule set_nick_ok [OF assms]) simp
  have some1: "registry_ok (update_device g i (\<lambda>d. d\<lparr> dv_nickname := Some n \<rparr>))"
    if "find (\<lambda>d. dv_nickname d = Some n) (rg_devices g) = None" by (rule set_nick_ok [OF assms]) (use fresh [OF that] in simp)
  have some2: "registry_ok (update_device g i (\<lambda>d. d\<lparr> dv_nickname := Some n \<rparr>))"
    if "find (\<lambda>d. dv_nickname d = Some n) (rg_devices g) = Some e" "dv_id e = i" for e
    by (rule set_nick_ok [OF assms]) (use own [OF that] in simp)
  show ?thesis using none some1 some2 assms by (simp add: set_nickname_def split: option.split)
qed

lemma remove_tags_ok: "registry_ok g \<Longrightarrow> registry_ok (remove_tags g i ks)"
  unfolding remove_tags_def
proof (induction ks arbitrary: g)
  case (Cons k ks)
  have "registry_ok (remove_tag g i k)"
    using Cons.prems by (auto simp: registry_ok_def remove_tag_def distinct_map_filter)
  with Cons.IH show ?case by simp
qed simp

lemma upsert_tag_keys:
  "map (\<lambda>(j, k, v). (j, k)) (upsert_tag i k v ts) =
     (if (i, k) \<in> (\<lambda>(j, k, v). (j, k)) ` set ts then map (\<lambda>(j, k, v). (j, k)) ts else map (\<lambda>(j, k, v). (j, k)) ts @ [(i, k)])"
  by (auto simp: upsert_tag_def)

lemma set_tags_ok:
  assumes "registry_ok g"
  shows "registry_ok (snd (set_tags g i tags))"
proof (cases "tags \<noteq> [] \<and> \<not> has_device g i")
  case True
  then show ?thesis using assms by (simp add: set_tags_def)
next
  case False
  define keys where "keys = (\<lambda>ts :: (int \<times> string \<times> string) list. map (\<lambda>(j, k, v). (j, k)) ts)"
  have fst_keys: "fst ` set ts = fst ` set (keys ts)" for ts by (force simp: keys_def image_iff)
  have "distinct (keys (foldl (\<lambda>ts (k, v). upsert_tag i k v ts) ts kvs)) \<and>
      fst ` set (keys (foldl (\<lambda>ts (k, v). upsert_tag i k v ts) ts kvs)) \<subseteq> fst ` set (keys ts) \<union> (if kvs = [] then {} else {i})"
    if "distinct (keys ts)" for ts kvs
    using that
  proof (induction kvs arbitrary: ts)
    case (Cons kv kvs)
    obtain k v where kv: "kv = (k, v)" by fastforce
    have "keys (upsert_tag i k v ts) = (if (i, k) \<in> set (keys ts) then keys ts else keys ts @ [(i, k)])"
      by (simp add: keys_def upsert_tag_keys)
    then have "distinct (keys (upsert_tag i k v ts))" "fst ` set (keys (upsert_tag i k v ts)) \<subseteq> insert i (fst ` set (keys ts))"
      using Cons.prems by (simp_all add: subset_insertI)
    moreover from this(2) have "fst ` set (keys (upsert_tag i k v ts)) \<union> (if kvs = [] then {} else {i}) \<subseteq> insert i (fst ` set (keys ts))"
      by simp
    ultimately show ?case using Cons.IH [of "upsert_tag i k v ts"] order_trans by (simp add: kv) blast
  qed simp
  moreover have "fst ` set (keys (rg_tags g)) \<union> (if tags = [] then {} else {i}) \<subseteq> device_ids g" "distinct (keys (rg_tags g))"
    using assms False by (auto simp: registry_ok_def has_device_def fst_keys simp flip: keys_def)
  ultimately have "distinct (keys (foldl (\<lambda>ts (k, v). upsert_tag i k v ts) (rg_tags g) tags)) \<and>
      fst ` set (keys (foldl (\<lambda>ts (k, v). upsert_tag i k v ts) (rg_tags g) tags)) \<subseteq> device_ids g" by (meson order_trans)
  with assms False show ?thesis by (simp add: set_tags_def registry_ok_def fst_keys flip: keys_def)
qed

lemma image_filter_other: "f ` set (filter (\<lambda>x. f x \<noteq> i) xs) = f ` set xs - {i}"
  by auto

lemma forget_ok: "registry_ok g \<Longrightarrow> registry_ok (forget_device g i)"
proof -
  assume g: "registry_ok g"
  have "devices_ok (filter (\<lambda>d. dv_id d \<noteq> i) (rg_devices g))"
    using g sorted_filter_key [of dv_id "rg_devices g"]
    by (auto simp: registry_ok_def devices_ok_def nicknames_def ports_def distinct_map_filter distinct_map_filter_filter list_all_iff)
  moreover have "(\<lambda>(j, k, v). j \<noteq> i) = (\<lambda>x :: int \<times> string \<times> string. fst x \<noteq> i)" by auto
  ultimately show ?thesis
    using g by (simp add: registry_ok_def forget_device_def distinct_map_filter image_filter_other Diff_mono del: set_filter)
qed

lemma put_lease_ok:
  assumes "registry_ok g" and "has_device g (le_device_id l)"
  shows "registry_ok (put_lease g l)"
proof -
  have "map le_device_id (update_where (\<lambda>x. le_device_id x = le_device_id l) (\<lambda>_. l) ls) = map le_device_id ls" for ls
    by (simp add: update_where_def)
  then show ?thesis using assms by (auto simp: registry_ok_def put_lease_def has_device_def set_update_where)
qed

lemma put_claim_ok:
  assumes "registry_ok g" and "has_device g (cl_device_id c)"
  shows "registry_ok (put_claim g c)"
proof -
  have "map cl_device_id (update_where (\<lambda>x. cl_device_id x = cl_device_id c) (\<lambda>_. c) ls) = map cl_device_id ls" for ls
    by (simp add: update_where_def)
  then show ?thesis using assms by (auto simp: registry_ok_def put_claim_def has_device_def set_update_where)
qed

lemma acquire_ok: "registry_ok g \<Longrightarrow> acquire_lease g i h now ttl m steal = Some (r, g') \<Longrightarrow> registry_ok g'"
  using put_lease_ok by (auto simp: acquire_lease_def write_lease_def Let_def split: if_splits)

lemma lease_rows_ok:
  assumes "registry_ok g" and "map le_device_id ls = map le_device_id (rg_leases g) \<or> (\<exists>P. ls = filter P (rg_leases g))"
  shows "registry_ok (g\<lparr> rg_leases := ls \<rparr>)"
proof -
  have "distinct (map le_device_id ls) \<and> le_device_id ` set ls \<subseteq> le_device_id ` set (rg_leases g)"
    using assms(2)
  proof
    assume "map le_device_id ls = map le_device_id (rg_leases g)"
    then show ?thesis using assms(1) by (metis registry_ok_def set_map subset_refl)
  next
    assume "\<exists>P. ls = filter P (rg_leases g)"
    then show ?thesis using assms(1) by (auto simp: registry_ok_def distinct_map_filter)
  qed
  with assms(1) order_trans show ?thesis by (simp add: registry_ok_def) blast
qed

lemma claim_rows_ok: "registry_ok g \<Longrightarrow> registry_ok (g\<lparr> rg_claims := filter P (rg_claims g) \<rparr>)"
  by (auto simp: registry_ok_def distinct_map_filter)

lemma reg_apply_ok: "registry_ok g \<Longrightarrow> registry_ok (reg_apply sha g x)"
proof (cases x)
  case (Acquire i h now ttl m steal)
  assume "registry_ok g"
  then show ?thesis using Acquire acquire_ok by (auto split: option.split)
qed (auto simp: upsert_ok assign_port_ok set_nickname_ok set_tags_ok remove_tags_ok forget_ok set_remote_route_def set_remote_controls_def
    set_pinned_profile_def set_line_def set_state_def set_capture_state_def set_ignored_def set_target_def merge_observed_def Let_def
    set_lease_expiry_def force_release_lease_def release_lease_def claim_exclusive_def release_exclusive_def map_update_where
    intro!: update_plain_ok put_claim_ok lease_rows_ok claim_rows_ok split: option.split)

lemma reg_run_ok: "registry_ok g \<Longrightarrow> registry_ok (reg_run sha g ops)"
  unfolding reg_run_def by (induction ops arbitrary: g) (simp_all add: reg_apply_ok)

lemma registry_empty_ok: "registry_ok Registry_empty"
  by (simp add: registry_ok_def Registry_empty_def devices_ok_def nicknames_def ports_def)

section \<open>Leases\<close>

text \<open>An operation that may not touch the lease a holder has on a device: no theft, no forced release, no
  change of its expiry, no forgetting of the device, and the holder itself leaves it alone.\<close>

fun spares :: "int \<Rightarrow> Lease \<Rightarrow> RegOp \<Rightarrow> bool" where
  "spares i l (Acquire j h now ttl m steal) \<longleftrightarrow> j \<noteq> i \<or> h \<noteq> le_holder l \<and> \<not> steal \<and> now < le_expires_at l"
| "spares i l (ForceRelease j) \<longleftrightarrow> j \<noteq> i"
| "spares i l (Release j h) \<longleftrightarrow> j \<noteq> i \<or> h \<noteq> le_holder l"
| "spares i l (SetExpiry j t) \<longleftrightarrow> j \<noteq> i"
| "spares i l (Forget j) \<longleftrightarrow> j \<noteq> i"
| "spares i l _ \<longleftrightarrow> True"

lemma put_lease_other: "le_device_id x \<noteq> i \<Longrightarrow> lease (put_lease g x) i = lease g i"
proof -
  assume x: "le_device_id x \<noteq> i"
  have "find (\<lambda>l. le_device_id l = i) (update_where (\<lambda>y. le_device_id y = le_device_id x) (\<lambda>_. x) ls) = find (\<lambda>l. le_device_id l = i) ls" for ls
    using x by (induction ls) (auto simp: update_where_def)
  moreover have "find (\<lambda>l. le_device_id l = i) (ls @ [x]) = find (\<lambda>l. le_device_id l = i) ls" for ls
    using x by (induction ls) auto
  ultimately show ?thesis by (simp add: lease_def put_lease_def)
qed

lemma put_lease_same: "registry_ok g \<Longrightarrow> lease (put_lease g x) (le_device_id x) = Some x"
proof -
  have a: "find (\<lambda>l. le_device_id l = le_device_id x) (update_where (\<lambda>y. le_device_id y = le_device_id x) (\<lambda>_. x) ls) = Some x"
    if "le_device_id x \<in> le_device_id ` set ls" for ls
    using that by (induction ls) (auto simp: update_where_def)
  have b: "find (\<lambda>l. le_device_id l = le_device_id x) (ls @ [x]) = Some x" if "le_device_id x \<notin> le_device_id ` set ls" for ls
    using that by (induction ls) auto
  show ?thesis using a b by (simp add: lease_def put_lease_def)
qed

lemma filter_spares:
  "find (\<lambda>l. le_device_id l = i) ls = Some l \<Longrightarrow> j \<noteq> i \<Longrightarrow> find (\<lambda>l. le_device_id l = i) (filter (\<lambda>l. le_device_id l \<noteq> j) ls) = Some l"
  for ls :: "Lease list"
  by (induction ls) (auto split: if_splits)

lemma update_spares:
  "find (\<lambda>l. le_device_id l = i) ls = Some l \<Longrightarrow> j \<noteq> i \<Longrightarrow>
   find (\<lambda>l. le_device_id l = i) (update_where (\<lambda>l. le_device_id l = j) (\<lambda>l. l\<lparr> le_expires_at := t \<rparr>) ls) = Some l"
  for ls :: "Lease list"
  by (induction ls) (auto simp: update_where_def split: if_splits)

lemma lease_kept:
  assumes "lease g i = Some l" and "spares i l x"
  shows "lease (reg_apply sha g x) i = Some l"
proof -
  have dev: "lease (update_device g j f) i = Some l" for j f using assms(1) by (simp add: lease_def)
  show ?thesis
  proof (cases x)
    case (Acquire j h now ttl m steal)
    show ?thesis
    proof (cases "j = i")
      case True
      then show ?thesis using assms Acquire by (auto simp: acquire_lease_def lease_blocks_def opt_any_def Let_def)
    next
      case False
      then show ?thesis using assms Acquire put_lease_other by (simp add: acquire_lease_def write_lease_def Let_def)
    qed
  next
    case (ForceRelease j)
    then show ?thesis using assms filter_spares [of i "rg_leases g" l j] by (simp add: force_release_lease_def lease_def)
  next
    case (Release j h)
    have "le_holder l = le_holder l" "find (\<lambda>y. le_device_id y = i) (filter (\<lambda>y. \<not> (le_device_id y = j \<and> le_holder y = h)) ls) = Some l"
      if "find (\<lambda>y. le_device_id y = i) ls = Some l" for ls
      using that assms(2) Release by (induction ls) (auto split: if_splits)
    then show ?thesis using assms Release by (simp add: release_lease_def lease_def Let_def)
  next
    case (SetExpiry j t)
    then show ?thesis using assms update_spares [of i "rg_leases g" l j] by (simp add: set_lease_expiry_def lease_def)
  next
    case (Forget j)
    then show ?thesis using assms filter_spares [of i "rg_leases g" l j] by (simp add: forget_device_def lease_def)
  next
    case (Upsert c b k t now)
    then show ?thesis using assms(1) by (simp add: upsert_device_def Let_def lease_def)
  next
    case (RemoveTags j ks)
    have "rg_leases (remove_tags h j ks) = rg_leases h" for h
      unfolding remove_tags_def by (induction ks arbitrary: h) (simp_all add: remove_tag_def)
    then show ?thesis using assms(1) RemoveTags by (simp add: lease_def)
  next
    case (SetNickname j n)
    then show ?thesis using assms(1) dev by (simp add: set_nickname_def split: option.split)
  next
    case (ClaimPort j h p now)
    then show ?thesis using assms(1) by (simp add: claim_exclusive_def put_claim_def lease_def)
  qed (use assms(1) dev in \<open>auto simp: set_remote_route_def set_remote_controls_def assign_port_def set_tags_def set_pinned_profile_def set_line_def
      set_state_def set_capture_state_def set_ignored_def set_target_def merge_observed_def release_exclusive_def lease_def Let_def split: option.split\<close>)
qed

section \<open>Properties\<close>

text \<open>C14. The registry stays well formed: whatever sequence of operations is run from an empty registry,
  device ids ascend, canonical ids, nicknames and ports are unique, every row's kind is the one
  its canonical id says, and tags, leases and claims are keyed uniquely and name existing devices.\<close>

theorem registry_stays_consistent: "registry_ok (reg_run sha Registry_empty ops)"
  by (rule reg_run_ok [OF registry_empty_ok])

text \<open>C15. A lease protects its holder: once acquired, and as long as nobody steals it, forces it, moves
  its expiry or forgets the device, every other operation by anybody leaves it in place; at
  every moment before it expires the holder passes the check, everybody else is refused with
  LEASE_HELD, both by the check and when trying to acquire.\<close>

theorem lease_protects_holder:
  assumes "registry_ok g" and "acquire_lease g i h now ttl m steal = Some (Inr l, g')" and "list_all (spares i l) ops"
    and "t < le_expires_at l" and "h2 \<noteq> h" and "1 \<le> m2"
  shows "let g2 = reg_run sha g' ops in
    require_lease g2 i h t = Inr () \<and> require_lease g2 i h2 t = Inl LeaseHeld \<and> acquire_lease g2 i h2 t ttl2 m2 False = Some (Inl LeaseHeld, g2)"
proof -
  have l: "le_device_id l = i" "le_holder l = h" "lease g' i = Some l"
  proof -
    define x where "x = \<lparr> le_device_id = i, le_holder = h, le_token = lease_token i now h, le_acquired_at = now,
        le_expires_at = now + max 1 (min m ttl) * 1000, le_stolen_from = (if lease_blocks (lease g i) h now then map_option le_holder (lease g i) else None) \<rparr>"
    have "g' = put_lease g x" "lease (put_lease g x) i = Some l"
      using assms(2) by (auto simp: acquire_lease_def write_lease_def Let_def x_def split: if_splits)
    moreover from this put_lease_same [OF assms(1), of x] have "l = x" by (simp add: x_def)
    ultimately show "le_device_id l = i" "le_holder l = h" "lease g' i = Some l" by (simp_all add: x_def)
  qed
  have "lease (reg_run sha g' ops) i = Some l"
    using assms(3) l(3) unfolding reg_run_def
  proof (induction ops arbitrary: g')
    case (Cons x ops)
    then show ?case using lease_kept [of g' i l x sha] by simp
  qed simp
  with l assms(4-6) show ?thesis
    by (simp add: Let_def require_lease_def acquire_lease_def lease_blocks_def opt_any_def)
qed

lemma find_id: "distinct (map dv_id ds) \<Longrightarrow> d \<in> set ds \<Longrightarrow> find (\<lambda>e. dv_id e = dv_id d) ds = Some d"
  by (induction ds) (auto simp: image_iff)

text \<open>A device row as every query reads it: the casts of \<^verbatim>\<open>map_device\<close> and the tags.\<close>

definition read_row :: "Registry \<Rightarrow> DeviceRow \<Rightarrow> DeviceRow" where
  "read_row g d = hd (attach_tags g [map_device d])"

lemma attach_tags_columns:
  "dv_nickname (read_row g d) = dv_nickname d \<and> dv_canonical (read_row g d) = dv_canonical d \<and> dv_id (read_row g d) = dv_id d"
proof -
  have "dv_nickname (foldl (\<lambda>d (i, k, v). if i = dv_id d then d\<lparr> dv_tags := bt_insert k v (dv_tags d) \<rparr> else d) d ts) = dv_nickname d \<and>
    dv_canonical (foldl (\<lambda>d (i, k, v). if i = dv_id d then d\<lparr> dv_tags := bt_insert k v (dv_tags d) \<rparr> else d) d ts) = dv_canonical d \<and>
    dv_id (foldl (\<lambda>d (i, k, v). if i = dv_id d then d\<lparr> dv_tags := bt_insert k v (dv_tags d) \<rparr> else d) d ts) = dv_id d"
    for ts :: "(int \<times> string \<times> string) list" and d :: DeviceRow
    by (induction ts arbitrary: d) auto
  then show ?thesis by (simp add: read_row_def attach_tags_def map_device_def)
qed

lemma all_devices_rows: "registry_ok g \<Longrightarrow> all_devices g = map (read_row g) (rg_devices g)"
  by (simp add: all_devices_def read_row_def attach_tags_def registry_ok_def devices_ok_def order_by_strict)

lemma device_read: "registry_ok g \<Longrightarrow> d \<in> set (rg_devices g) \<Longrightarrow> device g (dv_id d) = Inr (read_row g d)"
  by (simp add: device_def read_row_def find_id ids_distinct registry_ok_def)

text \<open>The ports the queries report are the columns cut to 16 bits.\<close>

lemma read_row_port: "dv_ser2net_port (read_row g d) = map_option (\<lambda>p. p mod 65536) (dv_ser2net_port d)"
proof -
  have "dv_ser2net_port (foldl (\<lambda>d (i, k, v). if i = dv_id d then d\<lparr> dv_tags := bt_insert k v (dv_tags d) \<rparr> else d) d ts) = dv_ser2net_port d"
    for ts :: "(int \<times> string \<times> string) list" and d :: DeviceRow
    by (induction ts arbitrary: d) auto
  then show ?thesis by (simp add: read_row_def attach_tags_def map_device_def)
qed

lemma ports_read: "registry_ok g \<Longrightarrow> ports (all_devices g) = map (\<lambda>p. p mod 65536) (ports (rg_devices g))"
proof -
  assume "registry_ok g"
  moreover have "ports (map (read_row g) ds) = map (\<lambda>p. p mod 65536) (ports ds)" for ds
    by (induction ds) (auto simp: ports_def read_row_port List.map_filter_simps split: option.split)
  ultimately show ?thesis by (simp add: all_devices_rows)
qed

lemma ports_read_distinct:
  assumes "registry_ok g" and "\<forall>q\<in>set (ports (rg_devices g)). 0 \<le> q \<and> q < 65536"
  shows "distinct (ports (all_devices g))"
proof -
  have "map (\<lambda>p. p mod 65536) (ports (rg_devices g)) = ports (rg_devices g)" using assms(2) by (auto intro: map_idI)
  then show ?thesis using assms(1) ports_read [OF assms(1)] by (simp add: registry_ok_def devices_ok_def)
qed

text \<open>C16. Port assignment ends and is stable, and the assigned columns are never shared: a known device
  keeps the column it has, and one without gets the least number at or after the base that is in
  no device's column; the port returned is that number cut to 16 bits, so the number itself while
  it is at most 65535. Asking again returns the same port and changes nothing. No two devices
  have the same column, and as long as every column is a 16-bit number no two devices report the
  same port.\<close>

theorem ports_stable_and_distinct:
  assumes "registry_ok g" and "d \<in> set (rg_devices g)" and "assign_port g (dv_id d) base = (p, g')"
  shows "assign_port g' (dv_id d) base2 = (p, g') \<and> distinct (ports (rg_devices g')) \<and>
    ((\<forall>q\<in>set (ports (rg_devices g')). 0 \<le> q \<and> q < 65536) \<longrightarrow> distinct (ports (all_devices g'))) \<and>
    (case dv_ser2net_port d of
       Some q \<Rightarrow> p = q mod 65536 \<and> g' = g
     | None \<Rightarrow> \<exists>q. base \<le> q \<and> q \<notin> set (used_ports g) \<and> (\<forall>r. base \<le> r \<longrightarrow> r < q \<longrightarrow> r \<in> set (used_ports g)) \<and>
         p = q mod 65536 \<and> g' = update_device g (dv_id d) (\<lambda>d. d\<lparr> dv_ser2net_port := Some q \<rparr>) \<and>
         (0 \<le> base \<and> q < 65536 \<longrightarrow> p = q))"
proof -
  have ok: "devices_ok (rg_devices g)" using assms(1) by (simp add: registry_ok_def)
  have f: "find (\<lambda>e. dv_id e = dv_id d) (rg_devices g) = Some d"
    by (rule find_id [OF ids_distinct [OF ok] assms(2)])
  have ok': "registry_ok g'" using assign_port_ok [OF assms(1), of "dv_id d" base] assms(3) by simp
  have dist: "distinct (ports (rg_devices g'))" using ok' by (simp add: registry_ok_def devices_ok_def)
  note shown = ports_read_distinct [OF ok']
  show ?thesis
  proof (cases "dv_ser2net_port d")
    case (Some q)
    with f assms(3) dist shown show ?thesis by (simp add: assign_port_def)
  next
    case None
    let ?q = "free_port (used_ports g) base"
    have p: "p = ?q mod 65536" "g' = update_device g (dv_id d) (\<lambda>d. d\<lparr> dv_ser2net_port := Some ?q \<rparr>)"
      using None f assms(3) by (simp_all add: assign_port_def Let_def)
    have "find (\<lambda>e. dv_id e = dv_id d) (update_where (\<lambda>e. dv_id e = dv_id d) (\<lambda>d. d\<lparr> dv_ser2net_port := Some ?q \<rparr>) ds) =
        map_option (\<lambda>d. d\<lparr> dv_ser2net_port := Some ?q \<rparr>) (find (\<lambda>e. dv_id e = dv_id d) ds)" for ds :: "DeviceRow list"
      by (induction ds) (auto simp: update_where_def)
    with f have "find (\<lambda>e. dv_id e = dv_id d) (rg_devices g') = Some (d\<lparr> dv_ser2net_port := Some ?q \<rparr>)" by (simp add: p)
    then have again: "assign_port g' (dv_id d) base2 = (p, g')" by (simp add: assign_port_def p)
    note least = free_port_props [of base "used_ports g"]
    have "0 \<le> base \<and> ?q < 65536 \<longrightarrow> p = ?q" using least by (auto simp: p(1))
    with least p have "\<exists>q. base \<le> q \<and> q \<notin> set (used_ports g) \<and> (\<forall>r. base \<le> r \<longrightarrow> r < q \<longrightarrow> r \<in> set (used_ports g)) \<and>
        p = q mod 65536 \<and> g' = update_device g (dv_id d) (\<lambda>d. d\<lparr> dv_ser2net_port := Some q \<rparr>) \<and> (0 \<le> base \<and> q < 65536 \<longrightarrow> p = q)"
      by (intro exI [of _ ?q]) blast
    with again dist shown None show ?thesis by (simp only: option.case) blast
  qed
qed

lemma unique_column_filter:
  "distinct (List.map_filter f ds) \<Longrightarrow> d \<in> set ds \<Longrightarrow> f d = Some n \<Longrightarrow> filter (\<lambda>e. f e = Some n) ds = [d]"
proof (induction ds)
  case (Cons e es)
  show ?case
  proof (cases "f e = Some n")
    case True
    with Cons.prems have "filter (\<lambda>e. f e = Some n) es = []" by (auto simp: set_map_filter filter_empty_conv)
    with True Cons.prems show ?thesis by (auto simp: set_map_filter)
  next
    case False
    with Cons show ?thesis by (auto split: option.splits)
  qed
qed simp

text \<open>Names address devices: in a consistent registry a nickname resolves to the one device that has
  it, and a canonical id that nobody uses as a nickname to the device with that id - the same
  row a read by id gives, whatever else the selector might match loosely.\<close>

theorem names_address_devices:
  assumes "registry_ok g" and "d \<in> set (rg_devices g)" and "trim n = n" and "n \<noteq> []"
    and "dv_nickname d = Some n \<or> n \<notin> set (nicknames (rg_devices g)) \<and> dv_canonical d = n"
  shows "resolve g n = device g (dv_id d)"
proof -
  have nick: "filter (\<lambda>e. dv_nickname e = Some n) (all_devices g) = map (read_row g) (filter (\<lambda>e. dv_nickname e = Some n) (rg_devices g))"
    and canon: "filter (\<lambda>e. dv_canonical e = n) (all_devices g) = map (read_row g) (filter (\<lambda>e. dv_canonical e = n) (rg_devices g))"
    by (simp_all add: all_devices_rows [OF assms(1)] filter_map o_def attach_tags_columns)
  have none: "filter (\<lambda>e. dv_nickname e = Some n) (rg_devices g) = []" if "n \<notin> set (nicknames (rg_devices g))"
    using that by (auto simp: nicknames_def set_map_filter filter_empty_conv)
  have one: "filter (\<lambda>e. dv_nickname e = Some n) (rg_devices g) = [d]" if "dv_nickname d = Some n"
    using assms(1,2) that by (intro unique_column_filter) (simp_all add: registry_ok_def devices_ok_def nicknames_def)
  have canon_one: "filter (\<lambda>e. dv_canonical e = n) (rg_devices g) = [d]" if "dv_canonical d = n"
    using unique_column_filter [of "\<lambda>e. Some (dv_canonical e)" "rg_devices g" d n] assms(1,2) that
    by (simp add: registry_ok_def devices_ok_def map_filter_def o_def)
  from assms(5) have "resolve_all g n = Inr [read_row g d]"
  proof
    assume "dv_nickname d = Some n"
    then show ?thesis using assms(3,4) nick one by (simp add: resolve_all_def Let_def)
  next
    assume "n \<notin> set (nicknames (rg_devices g)) \<and> dv_canonical d = n"
    then show ?thesis using assms(3,4) nick none canon canon_one by (simp add: resolve_all_def Let_def)
  qed
  then show ?thesis using assms(1,2) by (simp add: resolve_def device_read)
qed

text \<open>Two clients that both read the lease before either writes it: the second write wins without
  having asked to steal, and does not record from whom.\<close>

lemma racing_acquires_both_succeed:
  assumes "registry_ok g" and "has_device g i" and "lease g i = None" and "h \<noteq> h2" and "0 < ttl"
  shows "\<exists>l l2 g1 g2. write_lease g i h now ttl (lease g i) = (Inr l, g1) \<and> write_lease g1 i h2 now ttl (lease g i) = (Inr l2, g2) \<and>
    now < le_expires_at l \<and> le_holder l = h \<and> le_holder l2 = h2 \<and> le_stolen_from l2 = None \<and> require_lease g2 i h now = Inl LeaseHeld"
proof -
  define x y where "x = \<lparr> le_device_id = i, le_holder = h, le_token = lease_token i now h, le_acquired_at = now, le_expires_at = now + ttl * 1000, le_stolen_from = None \<rparr>"
    and "y = \<lparr> le_device_id = i, le_holder = h2, le_token = lease_token i now h2, le_acquired_at = now, le_expires_at = now + ttl * 1000, le_stolen_from = None \<rparr>"
  have g1: "registry_ok (put_lease g x)" using put_lease_ok [OF assms(1), of x] assms(2) by (simp add: x_def)
  have "lease (put_lease g x) i = Some x" "lease (put_lease (put_lease g x) y) i = Some y"
    using put_lease_same [OF assms(1), of x] put_lease_same [OF g1, of y] by (simp_all add: x_def y_def)
  moreover have "has_device (put_lease g x) i" using assms(2) by (simp add: has_device_def put_lease_def)
  ultimately show ?thesis using assms(2-5)
    by (intro exI [of _ x] exI [of _ y] exI [of _ "put_lease g x"] exI [of _ "put_lease (put_lease g x) y"])
      (simp add: write_lease_def x_def [symmetric] y_def [symmetric] lease_blocks_def opt_any_def require_lease_def, simp add: x_def y_def)
qed

section \<open>Witnesses\<close>

text \<open>A registry two devices were discovered into, one of them named.\<close>

definition two_devices :: Registry where
  "two_devices = reg_run (\<lambda>_. []) Registry_empty [Upsert ''usb-a'' None ById None 0, Upsert ''usb-b'' None ById None 0, SetNickname 2 ''rack'']"

lemma two_devices_ok: "registry_ok two_devices"
  unfolding two_devices_def by (rule reg_run_ok [OF registry_empty_ok])

definition seen :: "int \<Rightarrow> string \<Rightarrow> DeviceRow" where
  "seen i c = device_of i c None ById None 0 (''dev-'' @ db_stem (\<lambda>_. []) c @ ''.db'')"

lemma seen_columns [simp]: "dv_id (seen i c) = i" "dv_canonical (seen i c) = c" "dv_nickname (seen i c) = None" "dv_ser2net_port (seen i c) = None"
  by (simp_all add: seen_def device_of_def)

lemma upsert_new: "c \<notin> dv_canonical ` set ds \<Longrightarrow> ds \<noteq> [] \<or> i = 1 \<Longrightarrow> ds = [] \<or> i = Max (dv_id ` set ds) + 1 \<Longrightarrow>
    reg_apply (\<lambda>_. []) (g\<lparr> rg_devices := ds \<rparr>) (Upsert c None ById None 0) = g\<lparr> rg_devices := ds @ [seen i c] \<rparr>"
  by (auto simp: upsert_device_def next_id_def Let_def seen_def)

lemma two_devices_eq: "two_devices = Registry_empty\<lparr> rg_devices := [seen 1 ''usb-a'', (seen 2 ''usb-b'')\<lparr> dv_nickname := Some ''rack'' \<rparr>] \<rparr>"
proof -
  have t: "trim ''rack'' = ''rack''" by code_simp
  have a: "reg_apply (\<lambda>_. []) Registry_empty (Upsert ''usb-a'' None ById None 0) = Registry_empty\<lparr> rg_devices := [seen 1 ''usb-a''] \<rparr>"
    using upsert_new [of "''usb-a''" "[]" 1 Registry_empty] by (simp add: Registry_empty_def)
  have b: "reg_apply (\<lambda>_. []) (Registry_empty\<lparr> rg_devices := [seen 1 ''usb-a''] \<rparr>) (Upsert ''usb-b'' None ById None 0) =
      Registry_empty\<lparr> rg_devices := [seen 1 ''usb-a'', seen 2 ''usb-b''] \<rparr>"
    using upsert_new [of "''usb-b''" "[seen 1 ''usb-a'']" 2 Registry_empty] by simp
  show ?thesis unfolding two_devices_def reg_run_def foldl_Cons foldl_Nil a b
    by (simp add: set_nickname_def t update_device_def update_where_def)
qed

text \<open>Witness: a script holds the board for a minute; another one is refused.\<close>

theorem lease_protects_holder_witness:
  "\<exists>l g. acquire_lease two_devices 1 ''ci'' 0 60 3600 False = Some (Inr l, g) \<and>
    require_lease (reg_run (\<lambda>_. []) g [Release 1 ''me'', Acquire 1 ''me'' 5 60 3600 False, SetState 1 ''gone'']) 1 ''ci'' 10 = Inr ()"
proof -
  define l where "l = \<lparr> le_device_id = 1, le_holder = ''ci'', le_token = lease_token 1 0 ''ci'', le_acquired_at = 0, le_expires_at = 60000, le_stolen_from = None \<rparr>"
  have a: "acquire_lease two_devices 1 ''ci'' 0 60 3600 False = Some (Inr l, put_lease two_devices l)"
    by (simp add: acquire_lease_def write_lease_def two_devices_eq Registry_empty_def lease_def lease_blocks_def opt_any_def has_device_def put_lease_def l_def Let_def)
  have s: "list_all (spares 1 l) [Release 1 ''me'', Acquire 1 ''me'' 5 60 3600 False, SetState 1 ''gone'']" by (simp add: l_def)
  have "10 < le_expires_at l" by (simp add: l_def)
  from lease_protects_holder [OF two_devices_ok a s this, of "''me''" 1 "\<lambda>_. []" 60] a show ?thesis by (auto simp: Let_def)
qed

text \<open>Witness: the first port is the base.\<close>

theorem ports_stable_and_distinct_witness:
  "let g = snd (assign_port two_devices 1 3000) in assign_port two_devices 1 3000 = (3000, g) \<and> assign_port g 1 4000 = (3000, g)"
proof -
  have d: "seen 1 ''usb-a'' \<in> set (rg_devices two_devices)" by (simp add: two_devices_eq)
  have a: "assign_port two_devices (dv_id (seen 1 ''usb-a'')) 3000 = (3000, snd (assign_port two_devices 1 3000))"
    by (simp add: assign_port_def two_devices_eq used_ports_def free_port.simps [of "[]"])
  from ports_stable_and_distinct [OF two_devices_ok d a, of 4000] a show ?thesis by (simp add: Let_def)
qed

text \<open>Witness: the nickname finds the second device.\<close>

theorem names_address_devices_witness: "resolve two_devices ''rack'' = device two_devices 2"
proof -
  have "trim ''rack'' = ''rack''" by code_simp
  with names_address_devices [OF two_devices_ok, of "(seen 2 ''usb-b'')\<lparr> dv_nickname := Some ''rack'' \<rparr>" "''rack''"]
  show ?thesis by (simp add: two_devices_eq)
qed

end
