(* ===== verification/Telnet.thy ===== *)
theory Telnet
  imports Rust_Str
begin

text \<open>
  The telnet layer under a console (\<^verbatim>\<open>crates/conminer-core/src/runner.rs\<close>, second part): stripping
  negotiation from a complete buffer and from a stream cut anywhere, answering it, and
  recognising the banner of a failed open. What the stream means is given by \<open>TelnetItem\<close>: data,
  options, subnegotiations and commands, and how a server writes them.
\<close>

section \<open>The functions of the code\<close>

text \<open>A byte of the class WILL, WONT, DO, DONT.\<close>

definition is_option_command :: "byte \<Rightarrow> bool" where
  "is_option_command b \<longleftrightarrow> 251 \<le> b \<and> b \<le> 254"

fun telnet_refusals :: "byte list \<Rightarrow> byte list" where
  "telnet_refusals (a # cmd # opt # rest) =
     (if a = 255 then
        (if cmd = 253 then [255, 252, opt] else if cmd = 251 then [255, 254, opt] else []) @
        (if is_option_command cmd then telnet_refusals rest else telnet_refusals (cmd # opt # rest))
      else telnet_refusals (cmd # opt # rest))"
| "telnet_refusals _ = []"

text \<open>The rest of the input after a subnegotiation, which runs to IAC SE or to the end.\<close>

fun skip_sub :: "byte list \<Rightarrow> byte list" where
  "skip_sub (a # b # rest) = (if a = 255 \<and> b = 240 then rest else skip_sub (b # rest))"
| "skip_sub _ = []"

lemma skip_sub_length: "length (skip_sub bs) \<le> length bs"
  by (induction bs rule: skip_sub.induct) auto

function strip_telnet :: "byte list \<Rightarrow> byte list" where
  "strip_telnet [] = []"
| "strip_telnet [b] = (if b \<noteq> 255 then [b] else [])"
| "strip_telnet (b # c # rest) =
     (if b \<noteq> 255 then b # strip_telnet (c # rest)
      else if c = 255 then 255 # strip_telnet rest
      else if is_option_command c then strip_telnet (drop 1 rest)
      else if c = 250 then strip_telnet (skip_sub rest)
      else strip_telnet rest)"
  by pat_completeness auto
termination
  by (relation "measure length") (use skip_sub_length in \<open>auto simp: le_imp_less_Suc le_SucI\<close>)

definition is_open_failure_banner :: "(byte list \<Rightarrow> string) \<Rightarrow> byte list \<Rightarrow> bool" where
  "is_open_failure_banner lossy input =
     (let text = trim (map to_ascii_lower (lossy (strip_telnet input)))
      in if text = [] then False
         else str_contains ''device open failure'' text \<or>
              str_contains ''open failure'' text \<and> str_contains ''already in use'' text)"

datatype TelnetState = Telnet_Data | Telnet_Iac | Telnet_Opt | Telnet_Sub | Telnet_SubIac

record TelnetFilter =
  tf_state :: TelnetState

definition TelnetFilter_default :: TelnetFilter where
  "TelnetFilter_default = \<lparr> tf_state = Telnet_Data \<rparr>"

text \<open>The body of the loop of \<^verbatim>\<open>push\<close>: what a byte adds to the output, and the next state.\<close>

fun telnet_byte :: "TelnetState \<Rightarrow> byte \<Rightarrow> byte list \<times> TelnetState" where
  "telnet_byte Telnet_Data b = (if b = 255 then ([], Telnet_Iac) else ([b], Telnet_Data))"
| "telnet_byte Telnet_Iac b =
     (if b = 255 then ([255], Telnet_Data)
      else if b = 250 then ([], Telnet_Sub)
      else if is_option_command b then ([], Telnet_Opt)
      else ([], Telnet_Data))"
| "telnet_byte Telnet_Opt b = ([], Telnet_Data)"
| "telnet_byte Telnet_Sub b = ([], if b = 255 then Telnet_SubIac else Telnet_Sub)"
| "telnet_byte Telnet_SubIac b = ([], if b = 240 then Telnet_Data else Telnet_Sub)"

definition TelnetFilter_push :: "TelnetFilter \<Rightarrow> byte list \<Rightarrow> byte list \<times> TelnetFilter" where
  "TelnetFilter_push f input =
     (let (out, st) = foldl (\<lambda>(out, st) b. let (bs, st) = telnet_byte st b in (out @ bs, st)) ([], tf_state f) input
      in (out, f\<lparr> tf_state := st \<rparr>))"

definition mid_sequence :: "TelnetFilter \<Rightarrow> bool" where
  "mid_sequence f \<longleftrightarrow> tf_state f \<noteq> Telnet_Data"

section \<open>What a telnet stream says\<close>

datatype TelnetItem = Byte byte | Negotiate byte byte | Subnegotiate "byte list" | Command byte

text \<open>Any bytes may be the payload of a subnegotiation; a two-byte command is one that begins none of
  the other items.\<close>

fun item_ok :: "TelnetItem \<Rightarrow> bool" where
  "item_ok (Byte b) \<longleftrightarrow> True"
| "item_ok (Negotiate c opt) \<longleftrightarrow> is_option_command c"
| "item_ok (Subnegotiate bs) \<longleftrightarrow> True"
| "item_ok (Command c) \<longleftrightarrow> c \<noteq> 255 \<and> c \<noteq> 250 \<and> \<not> is_option_command c"

text \<open>A 0xFF of the console and of a payload is sent twice.\<close>

definition escape_iac :: "byte list \<Rightarrow> byte list" where
  "escape_iac bs = concat (map (\<lambda>b. if b = 255 then [255, 255] else [b]) bs)"

fun encode_item :: "TelnetItem \<Rightarrow> byte list" where
  "encode_item (Byte b) = escape_iac [b]"
| "encode_item (Negotiate c opt) = [255, c, opt]"
| "encode_item (Subnegotiate bs) = [255, 250] @ escape_iac bs @ [255, 240]"
| "encode_item (Command c) = [255, c]"

fun item_data :: "TelnetItem \<Rightarrow> byte list" where
  "item_data (Byte b) = [b]"
| "item_data _ = []"

definition telnet_encode :: "TelnetItem list \<Rightarrow> byte list" where
  "telnet_encode items = concat (map encode_item items)"

definition telnet_data :: "TelnetItem list \<Rightarrow> byte list" where
  "telnet_data items = concat (map item_data items)"

text \<open>A payload in which the byte after a 0xFF is 240: written out, it holds the end mark.\<close>

fun holds_end_mark :: "byte list \<Rightarrow> bool" where
  "holds_end_mark (a # b # bs) \<longleftrightarrow> a = 255 \<and> b = 240 \<or> holds_end_mark (b # bs)"
| "holds_end_mark _ \<longleftrightarrow> False"

fun buffer_safe :: "TelnetItem \<Rightarrow> bool" where
  "buffer_safe (Subnegotiate bs) \<longleftrightarrow> \<not> holds_end_mark bs"
| "buffer_safe _ \<longleftrightarrow> True"

lemma escape_iac_simps [simp]: "escape_iac [] = []" "escape_iac (b # bs) = (if b = 255 then 255 # 255 # escape_iac bs else b # escape_iac bs)"
  by (simp_all add: escape_iac_def)

section \<open>The stream filter\<close>

text \<open>The filter with its output buffer is a reader that may be fed in any chunks.\<close>

definition telnet_feed :: "TelnetState \<times> byte list \<Rightarrow> byte \<Rightarrow> TelnetState \<times> byte list" where
  "telnet_feed s b = (let (bs, st) = telnet_byte (fst s) b in (st, snd s @ bs))"

interpretation telnet: chunked_reader telnet_feed snd "\<lambda>s out. (fst s, out)" "\<lambda>_ s. s"
  by unfold_locales (auto simp: telnet_feed_def split: prod.splits)

lemma telnet_feed_all:
  "foldl (\<lambda>(out, st) b. let (bs, st) = telnet_byte st b in (out @ bs, st)) (out, st) bs = prod.swap (telnet.feed_all (st, out) bs)"
  by (induction bs arbitrary: out st) (simp_all add: telnet.feed_all_def telnet_feed_def split: prod.splits)

lemma push_telnet: "TelnetFilter_push f bs = (let (out, s) = telnet.push (tf_state f, []) bs in (out, \<lparr> tf_state = fst s \<rparr>))"
  unfolding TelnetFilter_push_def telnet_feed_all telnet.push_def by (cases f) (simp add: Let_def split_beta)

fun push_all :: "TelnetFilter \<Rightarrow> byte list list \<Rightarrow> byte list \<times> TelnetFilter" where
  "push_all f [] = ([], f)"
| "push_all f (c # cs) = (let (out, f) = TelnetFilter_push f c; (out', f) = push_all f cs in (out @ out', f))"

lemma push_all_concat: "push_all f cs = TelnetFilter_push f (concat cs)"
proof -
  have "push_all f cs = (let (out, s) = telnet.push_chunks (tf_state f, []) cs in (out, \<lparr> tf_state = fst s \<rparr>))" for f
  proof (induction cs arbitrary: f)
    case (Cons c cs)
    obtain out st rest where p: "telnet.push (tf_state f, []) c = (out, st, rest)" by (metis surj_pair)
    moreover from telnet.push_emptied [OF p] have "rest = []" by simp
    ultimately show ?case by (simp add: push_telnet Cons.IH split: prod.splits)
  qed simp
  then show ?thesis by (simp add: push_telnet telnet.push_chunks_concat)
qed

lemma telnet_feed_pair: "telnet_feed (st, out) b = (snd (telnet_byte st b), out @ fst (telnet_byte st b))"
  by (simp add: telnet_feed_def split_beta)

lemma feed_sub: "foldl telnet_feed (Telnet_Sub, out) (escape_iac bs) = (Telnet_Sub, out)"
  by (induction bs) (simp_all add: telnet_feed_pair)

lemma feed_item: "item_ok i \<Longrightarrow> telnet.feed_all (Telnet_Data, out) (encode_item i) = (Telnet_Data, out @ item_data i)"
proof (cases i)
  case (Subnegotiate bs)
  then show ?thesis by (simp add: telnet.feed_all_def telnet_feed_pair feed_sub)
qed (auto simp: telnet.feed_all_def telnet_feed_def is_option_command_def)

lemma feed_items: "list_all item_ok items \<Longrightarrow> telnet.feed_all (Telnet_Data, out) (telnet_encode items) = (Telnet_Data, out @ telnet_data items)"
  by (induction items arbitrary: out) (simp_all add: telnet_encode_def telnet_data_def telnet.feed_all_append feed_item, simp add: telnet.feed_all_def)

lemma skip_sub_payload: "\<not> holds_end_mark bs \<Longrightarrow> skip_sub (escape_iac bs @ 255 # 240 # rest) = rest"
proof (induction bs)
  case (Cons b bs)
  then show ?case by (cases bs) auto
qed simp

lemma strip_item: "item_ok i \<Longrightarrow> buffer_safe i \<Longrightarrow> strip_telnet (encode_item i @ rest) = item_data i @ strip_telnet rest"
  by (cases i; cases rest) (auto simp: skip_sub_payload is_option_command_def)

lemma strip_items: "list_all item_ok items \<Longrightarrow> list_all buffer_safe items \<Longrightarrow> strip_telnet (telnet_encode items @ rest) = telnet_data items @ strip_telnet rest"
  by (induction items) (simp_all add: telnet_encode_def telnet_data_def strip_item)

section \<open>Properties\<close>

text \<open>C19. Whatever a server interleaves with the console - option negotiation, commands,
  subnegotiations with any payload, escaped 0xFF bytes - and however the network cuts the stream,
  the filter of the capture path gives back exactly the bytes the board sent and ends outside a
  sequence. The buffer version of the runner agrees with it on whole streams in which no
  subnegotiation payload has a 0xFF followed by the byte 240.\<close>

theorem telnet_filter_recovers_console:
  assumes "list_all item_ok items" and "concat cs = telnet_encode items"
  shows "push_all TelnetFilter_default cs = (telnet_data items, TelnetFilter_default) \<and>
    \<not> mid_sequence TelnetFilter_default \<and>
    (list_all buffer_safe items \<longrightarrow> strip_telnet (concat cs) = telnet_data items)"
  using assms feed_items [of items "[]"] strip_items [of items "[]"]
  by (simp add: push_all_concat push_telnet TelnetFilter_default_def telnet.push_def mid_sequence_def)

text \<open>Witness: an offer cut inside its three bytes, a subnegotiation whose payload has an escaped 0xFF,
  then a 0xFF of the console and a letter.\<close>

theorem telnet_filter_recovers_console_witness:
  "push_all TelnetFilter_default [[255], [251, 3, 255], [250, 9, 255, 255, 7, 255, 240], [255, 255, 65]] = ([255, 65], TelnetFilter_default)"
  using telnet_filter_recovers_console [of "[Negotiate 251 3, Subnegotiate [9, 255, 7], Byte 255, Byte 65]"
      "[[255], [251, 3, 255], [250, 9, 255, 255, 7, 255, 240], [255, 255, 65]]"]
  by (simp add: telnet_encode_def telnet_data_def is_option_command_def)

text \<open>The answer to a negotiation reads the bytes one by one, so an escaped 0xFF followed by console
  bytes of the command range is answered as if the server had asked.\<close>

lemma refusals_misread_escapes:
  "telnet_refusals (telnet_encode [Byte 255, Byte 253, Byte 1]) = [255, 252, 1] \<and>
   strip_telnet (telnet_encode [Byte 255, Byte 253, Byte 1]) = [255, 253, 1]"
  by (simp add: telnet_encode_def is_option_command_def)

text \<open>An escaped 0xFF inside a subnegotiation, followed by the byte 240: the buffer version ends the
  subnegotiation there and takes the rest of it for console bytes, the stream version does not.\<close>

lemma strippers_disagree_in_subnegotiation:
  "strip_telnet (telnet_encode [Subnegotiate [1, 255, 240, 65]]) = [65] \<and>
   fst (TelnetFilter_push TelnetFilter_default (telnet_encode [Subnegotiate [1, 255, 240, 65]])) = []"
  by (simp add: TelnetFilter_push_def TelnetFilter_default_def is_option_command_def telnet_encode_def)

end
