(* ===== verification/Command_Runner.thy ===== *)
theory Command_Runner
  imports Telnet Profile Drain_Token Rust_Result
begin

text \<open>
  The command runner (\<^verbatim>\<open>crates/conminer-core/src/runner.rs\<close>, first and third part): recognising the
  prompt a console sits at, and a command as a transaction - wait for quiet, make sure of a
  prompt, type with echo verification, capture until the prompt returns, climb the recovery
  ladder. The transport is a record of two functions on its state; a read or a write says how
  many nanoseconds it took, a read at least one. A slice inside a character or a truncation
  there panics, which is \<open>None\<close>. The evidence texts of \<^verbatim>\<open>detail\<close> are left out except for the bytes read
  and the endpoint.
\<close>

section \<open>Outcomes\<close>

datatype Outcome = Outcome_Ok | Outcome_EchoMismatch | Outcome_NoPrompt | Outcome_LoginRequired | Outcome_UnknownPrompt | Outcome_Hung

fun Outcome_as_str :: "Outcome \<Rightarrow> string" where
  "Outcome_as_str Outcome_Ok = ''ok''"
| "Outcome_as_str Outcome_EchoMismatch = ''echo_mismatch''"
| "Outcome_as_str Outcome_NoPrompt = ''no_prompt''"
| "Outcome_as_str Outcome_LoginRequired = ''login_required''"
| "Outcome_as_str Outcome_UnknownPrompt = ''unknown_prompt''"
| "Outcome_as_str Outcome_Hung = ''hung''"

fun Outcome_error_code :: "Outcome \<Rightarrow> ErrorCode option" where
  "Outcome_error_code Outcome_Ok = None"
| "Outcome_error_code Outcome_EchoMismatch = Some EchoMismatch"
| "Outcome_error_code Outcome_NoPrompt = Some NoPrompt"
| "Outcome_error_code Outcome_LoginRequired = Some LoginRequired"
| "Outcome_error_code Outcome_UnknownPrompt = Some UnknownPrompt"
| "Outcome_error_code Outcome_Hung = Some Hung"

record Rung =
  ru_name :: string
  ru_sent :: string
  ru_recovered :: bool

record Transaction =
  tx_status :: Outcome
  tx_command :: string
  tx_output :: string
  tx_output_capped :: bool
  tx_duration_ms :: nat
  tx_prompt_matched :: "string option"
  tx_rungs :: "Rung list"
  tx_preamble :: string
  tx_io :: "(nat \<times> string) option"

definition with_io :: "Transaction \<Rightarrow> nat \<Rightarrow> string \<Rightarrow> Transaction" where
  "with_io t bytes_read endpoint = t\<lparr> tx_io := Some (bytes_read, endpoint) \<rparr>"

definition Transaction_failed :: "Outcome \<Rightarrow> string \<Rightarrow> string \<Rightarrow> Transaction" where
  "Transaction_failed status command tail =
     \<lparr> tx_status = status, tx_command = command, tx_output = [], tx_output_capped = False, tx_duration_ms = 0,
       tx_prompt_matched = None, tx_rungs = [], tx_preamble = tail, tx_io = None \<rparr>"

definition Transaction_as_error :: "Transaction \<Rightarrow> ErrorCode option" where
  "Transaction_as_error t = Outcome_error_code (tx_status t)"

section \<open>Prompts\<close>

definition is_async_kernel_line :: "string \<Rightarrow> bool" where
  "is_async_kernel_line line =
     (case strip_prefix ''['' (trim_start line) of
        None \<Rightarrow> False
      | Some rest \<Rightarrow> (case split_once (CHR '']'') rest of
            None \<Rightarrow> False
          | Some (inside, _) \<Rightarrow> (case split_once (CHR ''.'') (trim inside) of
                Some (sec, fr) \<Rightarrow> sec \<noteq> [] \<and> fr \<noteq> [] \<and> list_all is_ascii_digit sec \<and> list_all is_ascii_digit fr
              | None \<Rightarrow> False)))"

text \<open>The part of a line before the first kernel message that does not start it.\<close>

fun before_noise :: "string \<Rightarrow> string" where
  "before_noise [] = []"
| "before_noise (c # cs) = (if c = CHR ''['' \<and> is_async_kernel_line (c # cs) then [] else c # before_noise cs)"

fun strip_trailing_kernel_noise :: "string \<Rightarrow> string" where
  "strip_trailing_kernel_noise [] = []"
| "strip_trailing_kernel_noise (c # cs) = c # before_noise cs"

text \<open>\<^verbatim>\<open>char::is_control\<close>; the replacement character is outside the range of the model.\<close>

definition is_control :: "char \<Rightarrow> bool" where
  "is_control c \<longleftrightarrow> (of_char c :: nat) < 32 \<or> 127 \<le> (of_char c :: nat) \<and> (of_char c :: nat) < 160"

definition is_line_noise :: "string \<Rightarrow> bool" where
  "is_line_noise line =
     (let bad = length (filter (\<lambda>c. is_control c \<and> c \<noteq> CHR 0x09) line) in 0 < length line \<and> length line \<le> bad * 3)"

record Prompt =
  pt_re :: Regex
  pt_raw :: string
  pt_kind :: PromptKind

type_synonym Prompts = "Prompt list"

definition rfind :: "('a \<Rightarrow> bool) \<Rightarrow> 'a list \<Rightarrow> 'a option" where
  "rfind P xs = find P (rev xs)"

fun find_map :: "('a \<Rightarrow> 'b option) \<Rightarrow> 'a list \<Rightarrow> 'b option" where
  "find_map f [] = None"
| "find_map f (x # xs) = (case f x of Some y \<Rightarrow> Some y | None \<Rightarrow> find_map f xs)"

definition nonblank :: "string \<Rightarrow> bool" where
  "nonblank l \<longleftrightarrow> trim l \<noteq> []"

definition last_line :: "string \<Rightarrow> string option" where
  "last_line tail =
     (case rfind (\<lambda>l. nonblank l \<and> \<not> is_async_kernel_line l \<and> \<not> is_line_noise l) (str_lines tail) of
        Some l \<Rightarrow> Some l | None \<Rightarrow> rfind nonblank (str_lines tail))"

definition Prompts_classify :: "Prompts \<Rightarrow> string \<Rightarrow> Prompt option" where
  "Prompts_classify ps tail =
     (case last_line tail of
        None \<Rightarrow> None
      | Some l \<Rightarrow>
          let trimmed = strip_trailing_kernel_noise l
          in case find (\<lambda>p. re_is_match (pt_re p) l \<or> re_is_match (pt_re p) trimmed \<or> re_is_match (pt_re p) tail) ps of
               Some p \<Rightarrow> Some p
             | None \<Rightarrow> find_map (\<lambda>l. if \<not> nonblank l then None
                  else let t = strip_trailing_kernel_noise l in find (\<lambda>p. re_is_match (pt_re p) l \<or> re_is_match (pt_re p) t) ps)
                  (rev (str_lines tail)))"

definition Prompts_commandable :: "Prompts \<Rightarrow> string \<Rightarrow> Prompt option" where
  "Prompts_commandable ps tail =
     (case Prompts_classify ps tail of Some p \<Rightarrow> if is_commandable (pt_kind p) then Some p else None | None \<Rightarrow> None)"

section \<open>The runner\<close>

record RunnerConfig =
  rc_char_delay_ms :: nat
  rc_echo_timeout_ms :: nat
  rc_command_timeout_s :: nat
  rc_settle_quiet_ms :: nat
  rc_escape_set :: "string list"
  rc_allow_raw_send :: bool

definition RunnerConfig_default :: RunnerConfig where
  "RunnerConfig_default =
     \<lparr> rc_char_delay_ms = 10, rc_echo_timeout_ms = 200, rc_command_timeout_s = 30, rc_settle_quiet_ms = 500,
       rc_escape_set = [''C-c'', ''C-'' @ [CHR 0x5C], ''C-d''], rc_allow_raw_send = False \<rparr>"

text \<open>Of the line settings the runner reads the line ending only.\<close>

record CommandOptions =
  co_cfg :: RunnerConfig
  co_tx_line_ending :: string
  co_echo :: bool
  co_timeout_s :: nat
  co_max_output_bytes :: nat
  co_force :: bool

definition CommandOptions_new :: "RunnerConfig \<Rightarrow> string \<Rightarrow> CommandOptions" where
  "CommandOptions_new cfg ending =
     \<lparr> co_cfg = cfg, co_tx_line_ending = ending, co_echo = True, co_timeout_s = rc_command_timeout_s cfg,
       co_max_output_bytes = 64 * 1024, co_force = False \<rparr>"

record 'io Transport =
  tr_write :: "'io \<Rightarrow> byte list \<Rightarrow> unit res \<times> nat \<times> 'io"
  tr_read :: "'io \<Rightarrow> nat \<Rightarrow> byte list option res \<times> nat \<times> 'io"

record 'io Runner =
  rn_io :: 'io
  rn_now :: nat
  rn_prompts :: Prompts
  rn_opts :: CommandOptions
  rn_buf :: string
  rn_bytes_read :: nat
  rn_endpoint :: string

definition from_millis :: "nat \<Rightarrow> nat" where "from_millis n = n * 1000000"
definition from_secs :: "nat \<Rightarrow> nat" where "from_secs n = n * 1000000000"

definition Runner_new :: "'io \<Rightarrow> nat \<Rightarrow> Prompts \<Rightarrow> CommandOptions \<Rightarrow> 'io Runner" where
  "Runner_new io now prompts opts =
     \<lparr> rn_io = io, rn_now = now, rn_prompts = prompts, rn_opts = opts, rn_buf = [], rn_bytes_read = 0, rn_endpoint = [] \<rparr>"

definition Runner_at :: "'io Runner \<Rightarrow> string \<Rightarrow> 'io Runner" where
  "Runner_at rn endpoint = rn\<lparr> rn_endpoint := endpoint \<rparr>"

definition write_all :: "'io Transport \<Rightarrow> string \<Rightarrow> 'io Runner \<Rightarrow> unit res \<times> 'io Runner" where
  "write_all T s rn = (let (r, dt, io) = tr_write T (rn_io rn) (as_bytes s) in (r, rn\<lparr> rn_io := io, rn_now := rn_now rn + dt \<rparr>))"

text \<open>One read of the transport: the bytes are decoded onto the buffer.\<close>

definition read_some :: "(byte list \<Rightarrow> string) \<Rightarrow> 'io Transport \<Rightarrow> nat \<Rightarrow> 'io Runner \<Rightarrow> bool res \<times> 'io Runner" where
  "read_some lossy T d rn =
     (let (r, dt, io) = tr_read T (rn_io rn) d; rn = rn\<lparr> rn_io := io, rn_now := rn_now rn + max 1 dt \<rparr>
      in case r of
           Inl e \<Rightarrow> (Inl e, rn)
         | Inr None \<Rightarrow> (Inr False, rn)
         | Inr (Some bs) \<Rightarrow> (Inr True, rn\<lparr> rn_bytes_read := rn_bytes_read rn + length bs, rn_buf := rn_buf rn @ lossy bs \<rparr>))"

lemma read_some_now: "rn_now rn < rn_now (snd (read_some lossy T d rn))"
  by (simp add: read_some_def Let_def split_beta less_max_iff_disj split: sum.split option.split)

function soak_until :: "(byte list \<Rightarrow> string) \<Rightarrow> 'io Transport \<Rightarrow> nat \<Rightarrow> 'io Runner \<Rightarrow> unit res \<times> 'io Runner" where
  "soak_until lossy T deadline rn =
     (let left = deadline - rn_now rn
      in if left = 0 then (Inr (), rn)
         else let p = read_some lossy T left rn
         in case fst p of
              Inl e \<Rightarrow> (Inl e, snd p)
            | Inr got \<Rightarrow> if got then soak_until lossy T deadline (snd p) else (Inr (), snd p))"
  by pat_completeness auto
termination
  by (relation "measure (\<lambda>(lossy, T, deadline, rn). deadline - rn_now rn)") (simp_all add: diff_less_mono2 read_some_now)

declare soak_until.simps [simp del]

definition soak :: "(byte list \<Rightarrow> string) \<Rightarrow> 'io Transport \<Rightarrow> nat \<Rightarrow> 'io Runner \<Rightarrow> unit res \<times> 'io Runner" where
  "soak lossy T d rn = soak_until lossy T (rn_now rn + d) rn"

lemma soak_until_mono: "rn_now rn \<le> rn_now (snd (soak_until lossy T deadline rn))"
proof (induction lossy T deadline rn rule: soak_until.induct)
  case (1 lossy T deadline rn)
  let ?p = "read_some lossy T (deadline - rn_now rn) rn"
  have "rn_now rn < rn_now (snd ?p)" by (rule read_some_now)
  with 1 [OF refl _ refl] show ?case
    by (subst soak_until.simps) (auto simp: Let_def split: sum.split intro: order_trans less_imp_le)
qed

lemma soak_until_now: "rn_now rn < deadline \<Longrightarrow> rn_now rn < rn_now (snd (soak_until lossy T deadline rn))"
  using read_some_now [of rn lossy T "deadline - rn_now rn"] soak_until_mono [of "snd (read_some lossy T (deadline - rn_now rn) rn)" lossy T deadline]
  by (subst soak_until.simps) (auto simp: Let_def split: sum.split)

lemma soak_now: "0 < d \<Longrightarrow> rn_now rn < rn_now (snd (soak lossy T d rn))"
  by (simp add: soak_def soak_until_now)

text \<open>Waiting for quiet, at most twenty times the quiet period.\<close>

function settle_until :: "(byte list \<Rightarrow> string) \<Rightarrow> 'io Transport \<Rightarrow> nat \<Rightarrow> nat \<Rightarrow> 'io Runner \<Rightarrow> unit res \<times> 'io Runner" where
  "settle_until lossy T quiet deadline rn =
     (if rn_now rn \<ge> deadline then (Inr (), rn)
      else let p = read_some lossy T quiet rn
      in case fst p of
           Inl e \<Rightarrow> (Inl e, snd p)
         | Inr got \<Rightarrow> if got then settle_until lossy T quiet deadline (snd p) else (Inr (), snd p))"
  by pat_completeness auto
termination
  by (relation "measure (\<lambda>(lossy, T, quiet, deadline, rn). deadline - rn_now rn)") (simp_all add: diff_less_mono2 read_some_now)

declare settle_until.simps [simp del]

definition settle :: "(byte list \<Rightarrow> string) \<Rightarrow> 'io Transport \<Rightarrow> 'io Runner \<Rightarrow> unit res \<times> 'io Runner" where
  "settle lossy T rn =
     (let quiet = from_millis (max 1 (rc_settle_quiet_ms (co_cfg (rn_opts rn)))) in settle_until lossy T quiet (rn_now rn + quiet * 20) rn)"

definition Runner_tail :: "'io Runner \<Rightarrow> string option" where
  "Runner_tail rn = slice_from (str_len (rn_buf rn) - 2048) (rn_buf rn)"

lemma probe_step: "rn_now rn < rn_now (snd (soak lossy T (from_millis (max quiet_ms 200)) rn))"
  by (rule soak_now) (simp add: from_millis_def less_max_iff_disj)

lemma probe_measure:
  "\<not> deadline \<le> rn_now (snd (soak lossy T (from_millis (max quiet_ms 200)) rn)) \<Longrightarrow>
   deadline - rn_now (snd (soak lossy T (from_millis (max quiet_ms 200)) rn)) < deadline - rn_now rn"
  using probe_step [of rn lossy T quiet_ms] by linarith

text \<open>The wait for an answer to the newline probe.\<close>

function probe_loop :: "(byte list \<Rightarrow> string) \<Rightarrow> 'io Transport \<Rightarrow> nat \<Rightarrow> nat \<Rightarrow> 'io Runner \<Rightarrow> 'io Runner option" where
  "probe_loop lossy T quiet_ms deadline rn =
     (let rn' = snd (soak lossy T (from_millis (max quiet_ms 200)) rn)
      in case Runner_tail rn' of
           None \<Rightarrow> None
         | Some tail \<Rightarrow>
             if Prompts_classify (rn_prompts rn') tail \<noteq> None then Some rn'
             else if rn_now rn' \<ge> deadline then Some rn'
             else probe_loop lossy T quiet_ms deadline rn')"
  by pat_completeness auto
termination
  by (relation "measure (\<lambda>(lossy, T, quiet_ms, deadline, rn). deadline - rn_now rn)") (simp_all add: probe_measure)

declare probe_loop.simps [simp del]

text \<open>The question put to a console whose buffer shows no prompt.\<close>

definition probe :: "(byte list \<Rightarrow> string) \<Rightarrow> 'io Transport \<Rightarrow> 'io Runner \<Rightarrow> 'io Runner option" where
  "probe lossy T rn =
     (let (r, rn) = write_all T (co_tx_line_ending (rn_opts rn)) rn
      in case r of
           Inl e \<Rightarrow> Some rn
         | Inr _ \<Rightarrow> probe_loop lossy T (rc_settle_quiet_ms (co_cfg (rn_opts rn)))
                     (rn_now rn + from_secs (max 1 (co_timeout_s (rn_opts rn)))) rn)"

definition idle_verdict :: "'io Runner \<Rightarrow> string \<Rightarrow> Transaction + string" where
  "idle_verdict rn tail =
     (case Prompts_classify (rn_prompts rn) tail of
        Some p \<Rightarrow>
          if is_commandable (pt_kind p) then Inr (pt_raw p)
          else if pt_kind p = CredentialGate then Inl (Transaction_failed Outcome_LoginRequired [] tail)
          else Inl (Transaction_failed Outcome_UnknownPrompt [] tail)
      | None \<Rightarrow>
          if co_force (rn_opts rn) then Inr []
          else if trim (rn_buf rn) \<noteq> [] then Inl (Transaction_failed Outcome_UnknownPrompt [] tail)
          else Inl (Transaction_failed Outcome_NoPrompt [] tail))"

definition assert_idle :: "(byte list \<Rightarrow> string) \<Rightarrow> 'io Transport \<Rightarrow> 'io Runner \<Rightarrow> ((Transaction + string) \<times> 'io Runner) option" where
  "assert_idle lossy T rn =
     (let (r, rn) = settle lossy T rn
      in case Runner_tail rn of
           None \<Rightarrow> None
         | Some tail \<Rightarrow> (case r of
               Inl e \<Rightarrow> Some (Inl (Transaction_failed Outcome_NoPrompt [] tail), rn)
             | Inr _ \<Rightarrow>
                 (case (if Prompts_classify (rn_prompts rn) tail = None then probe lossy T rn else Some rn) of
                    None \<Rightarrow> None
                  | Some rn \<Rightarrow> (case Runner_tail rn of None \<Rightarrow> None | Some tail \<Rightarrow> Some (idle_verdict rn tail, rn)))))"

text \<open>One attempt at a character: \<open>Inr True\<close> when it was sent and seen (or echo is off).\<close>

definition try_char :: "(byte list \<Rightarrow> string) \<Rightarrow> 'io Transport \<Rightarrow> char \<Rightarrow> 'io Runner \<Rightarrow> (bool res \<times> 'io Runner) option" where
  "try_char lossy T ch rn =
     (let (r, rn) = write_all T [ch] rn
      in case r of
           Inl e \<Rightarrow> Some (Inl e, rn)
         | Inr _ \<Rightarrow>
             if \<not> co_echo (rn_opts rn) then Some (Inr True, rn)
             else let before = str_len (rn_buf rn);
                      rn = snd (soak lossy T (from_millis (max 1 (rc_echo_timeout_ms (co_cfg (rn_opts rn))))) rn)
             in map_option (\<lambda>news. (Inr (ch \<in> set news), rn)) (slice_from before (rn_buf rn)))"

definition mismatch :: "string \<Rightarrow> 'io Runner \<Rightarrow> ((Transaction + unit) \<times> 'io Runner) option" where
  "mismatch cmd rn = map_option (\<lambda>tail. (Inl (Transaction_failed Outcome_EchoMismatch cmd tail), rn)) (Runner_tail rn)"

text \<open>A character is tried twice before the command is given up.\<close>

definition send_char :: "(byte list \<Rightarrow> string) \<Rightarrow> 'io Transport \<Rightarrow> string \<Rightarrow> char \<Rightarrow> 'io Runner \<Rightarrow> ((Transaction + unit) \<times> 'io Runner) option" where
  "send_char lossy T cmd ch rn =
     (case try_char lossy T ch rn of
        None \<Rightarrow> None
      | Some (Inl e, rn) \<Rightarrow> mismatch cmd rn
      | Some (Inr sent, rn) \<Rightarrow>
          if sent then Some (Inr (), rn)
          else (case try_char lossy T ch rn of
             None \<Rightarrow> None
           | Some (Inl e, rn) \<Rightarrow> mismatch cmd rn
           | Some (Inr sent, rn) \<Rightarrow> if sent then Some (Inr (), rn) else mismatch cmd rn))"

fun send_chars :: "(byte list \<Rightarrow> string) \<Rightarrow> 'io Transport \<Rightarrow> string \<Rightarrow> string \<Rightarrow> 'io Runner \<Rightarrow> ((Transaction + unit) \<times> 'io Runner) option" where
  "send_chars lossy T cmd [] rn = Some (Inr (), rn)"
| "send_chars lossy T cmd (ch # chs) rn =
     (case send_char lossy T cmd ch rn of
        None \<Rightarrow> None
      | Some (Inl t, rn) \<Rightarrow> Some (Inl t, rn)
      | Some (Inr _, rn) \<Rightarrow>
          send_chars lossy T cmd chs (rn\<lparr> rn_now := rn_now rn + from_millis (rc_char_delay_ms (co_cfg (rn_opts rn))) \<rparr>))"

definition send_command :: "(byte list \<Rightarrow> string) \<Rightarrow> 'io Transport \<Rightarrow> string \<Rightarrow> 'io Runner \<Rightarrow> ((Transaction + unit) \<times> 'io Runner) option" where
  "send_command lossy T cmd rn = send_chars lossy T cmd cmd rn"

text \<open>Capturing until a prompt returns, the time is up or the buffer is far too long.\<close>

function capture_loop :: "(byte list \<Rightarrow> string) \<Rightarrow> 'io Transport \<Rightarrow> nat \<Rightarrow> 'io Runner \<Rightarrow> string option res \<times> 'io Runner" where
  "capture_loop lossy T deadline rn =
     (if \<not> rn_now rn < deadline then (Inr None, rn)
      else let p = soak lossy T (from_millis 100) rn
      in case fst p of
           Inl e \<Rightarrow> (Inl e, snd p)
         | Inr _ \<Rightarrow> (case Prompts_commandable (rn_prompts (snd p)) (rn_buf (snd p)) of
               Some q \<Rightarrow> (Inr (Some (pt_raw q)), snd p)
             | None \<Rightarrow> if str_len (rn_buf (snd p)) > co_max_output_bytes (rn_opts (snd p)) * 4 then (Inr None, snd p)
                       else capture_loop lossy T deadline (snd p)))"
  by pat_completeness auto
termination
  by (relation "measure (\<lambda>(lossy, T, deadline, rn). deadline - rn_now rn)") (simp_all add: diff_less_mono2 soak_now from_millis_def)

declare capture_loop.simps [simp del]

section \<open>The output of a command\<close>

lemma csi_skip_shorter [termination_simp]: "length (csi_skip (drop n s)) < Suc (length s)"
  using csi_skip_length [of "drop n s"] by simp

fun strip_modes :: "string \<Rightarrow> string" where
  "strip_modes s =
     (case s of
        [] \<Rightarrow> []
      | c # cs \<Rightarrow> if starts_with [ESC, CHR ''['', CHR 0x3F] s then strip_modes (csi_skip (drop 3 s)) else c # strip_modes cs)"

declare strip_modes.simps [simp del]

definition strip_dec_private_modes_impl :: "string \<Rightarrow> string" where
  "strip_dec_private_modes_impl s = (if \<not> str_contains [ESC, CHR ''['', CHR 0x3F] s then s else strip_modes s)"

text \<open>The loop of \<^verbatim>\<open>echo_end_interleaved\<close>: the rest of the body after the last character of the command.\<close>

fun after_echo :: "string \<Rightarrow> string \<Rightarrow> string option" where
  "after_echo want [] = None"
| "after_echo want (c # cs) =
     (case want of
        [] \<Rightarrow> None
      | nxt # rest \<Rightarrow> if c = nxt then (if rest = [] then Some cs else after_echo rest cs) else after_echo want cs)"

definition echo_end_interleaved :: "string \<Rightarrow> string \<Rightarrow> string option" where
  "echo_end_interleaved body cmd = (if trim cmd = [] then None else after_echo (trim cmd) body)"

definition trim_newlines :: "string \<Rightarrow> string" where
  "trim_newlines s = dropWhile (\<lambda>c. c = CHR 0x0D \<or> c = CHR 0x0A) s"

definition strip_echo :: "string \<Rightarrow> string \<Rightarrow> string" where
  "strip_echo cmd body =
     (case strip_prefix cmd body of
        Some rest \<Rightarrow> trim_newlines rest
      | None \<Rightarrow> (case str_find cmd body of
          Some idx \<Rightarrow> trim_newlines (drop (idx + length cmd) body)
        | None \<Rightarrow> (case echo_end_interleaved body cmd of Some rest \<Rightarrow> trim_newlines rest | None \<Rightarrow> body)))"

text \<open>The notice appended to a capped output; its ellipsis is outside the range of the model and stands as 0x85.\<close>

definition CAP_NOTICE :: string where
  "CAP_NOTICE = [CHR 0x0A, CHR 0x85] @ '' output capped; use get_records/get_context for the rest''"

definition take_output :: "string \<Rightarrow> 'io Runner \<Rightarrow> ((string \<times> bool) \<times> 'io Runner) option" where
  "take_output cmd rn =
     (let body = strip_echo cmd (strip_dec_private_modes_impl (rn_buf rn));
          lines = split_on (CHR 0x0A) body;
          lines = (if Prompts_commandable (rn_prompts rn) (last lines) \<noteq> None then butlast lines else lines);
          out = join_with [CHR 0x0A] lines;
          capped = str_len out > co_max_output_bytes (rn_opts rn);
          rn = rn\<lparr> rn_buf := [] \<rparr>
      in if capped then map_option (\<lambda>o1. ((trim_end (o1 @ CAP_NOTICE), True), rn)) (slice_to (co_max_output_bytes (rn_opts rn)) out)
         else Some ((trim_end out, False), rn))"

section \<open>Recovery\<close>

text \<open>\<^verbatim>\<open>str::escape_debug\<close> on code points below 256.\<close>

definition escape_debug :: "char \<Rightarrow> string" where
  "escape_debug c =
     (let n = of_char c :: nat; bs = CHR 0x5C
      in if n = 0 then [bs, CHR ''0'']
         else if n = 9 then [bs, CHR ''t''] else if n = 13 then [bs, CHR ''r''] else if n = 10 then [bs, CHR ''n'']
         else if n \<in> {0x22, 0x27, 0x5C} then [bs, c]
         else if n < 32 \<or> 127 \<le> n \<and> n < 161 \<or> n = 0xAD then [bs] @ ''u{'' @ digits_of 16 n @ ''}''
         else [c])"

definition escape_bytes :: "string \<Rightarrow> string" where
  "escape_bytes name =
     (case strip_prefix ''C-'' name of
        Some (c # _) \<Rightarrow>
          let up = (let n = of_char c :: nat in if 97 \<le> n \<and> n \<le> 122 then n - 32 else n)
          in if 0x40 \<le> up \<and> up \<le> 0x5F then [char_of (up - 0x40)] else name
      | _ \<Rightarrow> name)"

definition ladder :: "CommandOptions \<Rightarrow> (string \<times> string) list" where
  "ladder opts = (''newline_probe'', co_tx_line_ending opts) # map (\<lambda>e. (e, escape_bytes e)) (rc_escape_set (co_cfg opts))"

fun climb :: "(byte list \<Rightarrow> string) \<Rightarrow> 'io Transport \<Rightarrow> string \<Rightarrow> Rung list \<Rightarrow> (string \<times> string) list \<Rightarrow> 'io Runner \<Rightarrow> (Transaction \<times> 'io Runner) option" where
  "climb lossy T cmd rungs [] rn =
     map_option (\<lambda>tail. (\<lparr> tx_status = Outcome_Hung, tx_command = cmd, tx_output = tail, tx_output_capped = False, tx_duration_ms = 0,
        tx_prompt_matched = None, tx_rungs = rungs, tx_preamble = [], tx_io = None \<rparr>, rn)) (Runner_tail rn)"
| "climb lossy T cmd rungs ((name, sq) # more_rungs) rn =
     (let rn = snd (write_all T sq rn);
          rn = snd (soak lossy T (from_millis (max 300 (rc_settle_quiet_ms (co_cfg (rn_opts rn))))) rn);
          recovered = (Prompts_commandable (rn_prompts rn) (rn_buf rn) \<noteq> None);
          rungs = rungs @ [\<lparr> ru_name = name, ru_sent = concat (map escape_debug sq), ru_recovered = recovered \<rparr>]
      in if recovered
         then map_option (\<lambda>((output, capped), rn). (\<lparr> tx_status = Outcome_Ok, tx_command = cmd, tx_output = output, tx_output_capped = capped,
                tx_duration_ms = 0, tx_prompt_matched = map_option pt_raw (Prompts_commandable (rn_prompts rn) []), tx_rungs = rungs,
                tx_preamble = [], tx_io = None \<rparr>, rn)) (take_output cmd rn)
         else climb lossy T cmd rungs more_rungs rn)"

definition recover :: "(byte list \<Rightarrow> string) \<Rightarrow> 'io Transport \<Rightarrow> string \<Rightarrow> 'io Runner \<Rightarrow> (Transaction \<times> 'io Runner) option" where
  "recover lossy T cmd rn = climb lossy T cmd [] (ladder (rn_opts rn)) rn"

section \<open>A transaction\<close>

definition elapsed_ms :: "nat \<Rightarrow> 'io Runner \<Rightarrow> nat" where
  "elapsed_ms started rn = (rn_now rn - started) div 1000000"

text \<open>From the typed command on.\<close>

definition run_typed :: "(byte list \<Rightarrow> string) \<Rightarrow> 'io Transport \<Rightarrow> string \<Rightarrow> nat \<Rightarrow> string \<Rightarrow> string \<Rightarrow> 'io Runner \<Rightarrow> (Transaction res \<times> 'io Runner) option" where
  "run_typed lossy T cmd started prompt preamble rn =
     (let (r, rn) = write_all T (co_tx_line_ending (rn_opts rn)) rn
      in case r of
           Inl e \<Rightarrow> Some (Inl e, rn)
         | Inr _ \<Rightarrow>
             (let (m, rn) = capture_loop lossy T (rn_now rn + from_secs (co_timeout_s (rn_opts rn))) rn
              in case m of
                   Inl e \<Rightarrow> Some (Inl e, rn)
                 | Inr None \<Rightarrow>
                     map_option (\<lambda>(t, rn). (Inr (t\<lparr> tx_duration_ms := elapsed_ms started rn, tx_preamble := preamble \<rparr>), rn)) (recover lossy T cmd rn)
                 | Inr (Some matched) \<Rightarrow>
                     map_option (\<lambda>((output, capped), rn). (Inr \<lparr> tx_status = Outcome_Ok, tx_command = cmd, tx_output = output,
                         tx_output_capped = capped, tx_duration_ms = elapsed_ms started rn, tx_prompt_matched = Some matched, tx_rungs = [],
                         tx_preamble = preamble, tx_io = None \<rparr>, rn)) (take_output cmd rn)))"

definition Runner_run :: "(byte list \<Rightarrow> string) \<Rightarrow> 'io Transport \<Rightarrow> string \<Rightarrow> 'io Runner \<Rightarrow> (Transaction res \<times> 'io Runner) option" where
  "Runner_run lossy T cmd rn =
     (let started = rn_now rn
      in case assert_idle lossy T rn of
           None \<Rightarrow> None
         | Some (Inl t, rn) \<Rightarrow>
             Some (Inr (with_io (t\<lparr> tx_command := cmd, tx_duration_ms := elapsed_ms started rn \<rparr>) (rn_bytes_read rn) (rn_endpoint rn)), rn)
         | Some (Inr prompt, rn) \<Rightarrow>
             (case Runner_tail rn of
                None \<Rightarrow> None
              | Some preamble \<Rightarrow>
                  (case send_command lossy T cmd (rn\<lparr> rn_buf := [] \<rparr>) of
                     None \<Rightarrow> None
                   | Some (Inl t, rn) \<Rightarrow>
                       Some (Inr (with_io (t\<lparr> tx_duration_ms := elapsed_ms started rn, tx_preamble := preamble \<rparr>) (rn_bytes_read rn) (rn_endpoint rn)), rn)
                   | Some (Inr _, rn) \<Rightarrow> run_typed lossy T cmd started prompt preamble rn)))"

end
