(* ===== verification/Runner_Laws.thy ===== *)
theory Runner_Laws
  imports Command_Runner
begin

text \<open>
  What a transaction guarantees: nothing is typed unless the console sits at a prompt (or the
  caller forces it), the recovery ladder is climbed rung by rung and reported as it was, and the
  output of a well-behaved console is returned exactly.
\<close>

section \<open>What is written\<close>

text \<open>A transport that remembers what was written to it.\<close>

definition logged :: "'io Transport \<Rightarrow> ('io \<times> byte list list) Transport" where
  "logged T =
     \<lparr> tr_write = (\<lambda>(io, ws) bs. let (r, dt, io) = tr_write T io bs in (r, dt, io, ws @ [bs])),
       tr_read = (\<lambda>(io, ws) d. let (r, dt, io) = tr_read T io d in (r, dt, io, ws)) \<rparr>"

abbreviation written :: "('io \<times> byte list list) Runner \<Rightarrow> byte list list" where
  "written rn \<equiv> snd (rn_io rn)"

text \<open>A step that only reads.\<close>

definition only_reads :: "('io \<times> byte list list) Runner \<Rightarrow> ('io \<times> byte list list) Runner \<Rightarrow> bool" where
  "only_reads rn rn' \<longleftrightarrow> written rn' = written rn \<and> rn_opts rn' = rn_opts rn \<and> rn_prompts rn' = rn_prompts rn"

lemma only_reads_refl [simp]: "only_reads rn rn"
  by (simp add: only_reads_def)

lemma only_reads_trans [trans]: "only_reads a b \<Longrightarrow> only_reads b c \<Longrightarrow> only_reads a c"
  by (simp add: only_reads_def)

lemma read_some_reads: "only_reads rn (snd (read_some lossy (logged T) d rn))"
  by (cases "rn_io rn") (simp add: only_reads_def read_some_def logged_def Let_def split_beta split: sum.split option.split)

lemma soak_until_reads: "only_reads rn (snd (soak_until lossy (logged T) deadline rn))"
proof (induction lossy "logged T" deadline rn rule: soak_until.induct)
  case (1 lossy deadline rn)
  let ?p = "read_some lossy (logged T) (deadline - rn_now rn) rn"
  have "only_reads rn (snd ?p)" by (rule read_some_reads)
  with 1 [OF refl _ refl] show ?case
    by (subst soak_until.simps) (auto simp: Let_def split: sum.split intro: only_reads_trans)
qed

lemma soak_reads: "only_reads rn (snd (soak lossy (logged T) d rn))"
  by (simp add: soak_def soak_until_reads)

lemma settle_until_reads: "only_reads rn (snd (settle_until lossy (logged T) quiet deadline rn))"
proof (induction lossy "logged T" quiet deadline rn rule: settle_until.induct)
  case (1 lossy quiet deadline rn)
  let ?p = "read_some lossy (logged T) quiet rn"
  have "only_reads rn (snd ?p)" by (rule read_some_reads)
  with 1 [OF _ refl] show ?case
    by (subst settle_until.simps) (auto simp: Let_def split: sum.split intro: only_reads_trans)
qed

lemma settle_reads: "only_reads rn (snd (settle lossy (logged T) rn))"
  by (simp add: settle_def Let_def settle_until_reads)

lemma probe_loop_reads: "probe_loop lossy (logged T) q deadline rn = Some rn' \<Longrightarrow> only_reads rn rn'"
proof (induction lossy "logged T" q deadline rn arbitrary: rn' rule: probe_loop.induct)
  case (1 lossy q deadline rn)
  let ?s = "snd (soak lossy (logged T) (from_millis (max q 200)) rn)"
  have s: "only_reads rn ?s" by (rule soak_reads)
  obtain tail where t: "Runner_tail ?s = Some tail"
    using 1(2) by (subst (asm) probe_loop.simps) (auto simp: Let_def split: option.splits)
  show ?case
  proof (cases "Prompts_classify (rn_prompts ?s) tail \<noteq> None \<or> rn_now ?s \<ge> deadline")
    case True
    then have "rn' = ?s" using 1(2) t by (subst (asm) probe_loop.simps) (auto simp: Let_def split: if_splits)
    with s show ?thesis by simp
  next
    case False
    then have "probe_loop lossy (logged T) q deadline ?s = Some rn'"
      using 1(2) t by (subst (asm) probe_loop.simps) (auto simp: Let_def)
    with 1(1) [OF refl t] False s show ?thesis using only_reads_trans by blast
  qed
qed

lemma write_all_log: "write_all (logged T) s rn = (r, rn') \<Longrightarrow>
    written rn' = written rn @ [as_bytes s] \<and> rn_opts rn' = rn_opts rn \<and> rn_prompts rn' = rn_prompts rn"
  by (cases "rn_io rn") (auto simp: write_all_def logged_def split_beta Let_def)

lemma probe_log: "probe lossy (logged T) rn = Some rn' \<Longrightarrow>
    written rn' = written rn @ [as_bytes (co_tx_line_ending (rn_opts rn))] \<and> rn_opts rn' = rn_opts rn \<and> rn_prompts rn' = rn_prompts rn"
  using write_all_log [of T "co_tx_line_ending (rn_opts rn)" rn] probe_loop_reads
  by (fastforce simp: probe_def only_reads_def split: prod.splits sum.splits)

text \<open>Up to the verdict on the console, at most the newline of the probe is written.\<close>

lemma assert_idle_log:
  assumes "assert_idle lossy (logged T) rn = Some (v, rn')"
  shows "written rn' \<in> {written rn, written rn @ [as_bytes (co_tx_line_ending (rn_opts rn))]} \<and>
    rn_opts rn' = rn_opts rn \<and> rn_prompts rn' = rn_prompts rn \<and>
    (\<exists>tail. Runner_tail rn' = Some tail \<and> (v = idle_verdict rn' tail \<or> v = Inl (Transaction_failed Outcome_NoPrompt [] tail)))"
proof -
  obtain r rn1 where s: "settle lossy (logged T) rn = (r, rn1)" by fastforce
  then have o: "only_reads rn rn1" using settle_reads [of rn lossy T] by simp
  from assms s show ?thesis
    using o probe_log [of lossy T rn1]
    by (auto simp: assert_idle_def only_reads_def split: option.splits sum.splits if_splits)
qed

lemma idle_verdict_typed: "idle_verdict rn tail = Inr p \<Longrightarrow>
    (\<exists>q. Prompts_commandable (rn_prompts rn) tail = Some q \<and> p = pt_raw q) \<or> co_force (rn_opts rn) \<and> Prompts_classify (rn_prompts rn) tail = None"
  by (auto simp: idle_verdict_def Prompts_commandable_def split: option.splits if_splits)

lemma idle_verdict_refused: "idle_verdict rn tail = Inl t \<Longrightarrow> tx_status t \<in> {Outcome_NoPrompt, Outcome_LoginRequired, Outcome_UnknownPrompt}"
  by (auto simp: idle_verdict_def Transaction_failed_def split: option.splits if_splits)

text \<open>C17. A command is only ever typed at a prompt: whatever the transport does, a transaction either
  ends as a refusal with at most the newline of the probe written, or it started typing when
  the tail of the console was at a commandable prompt - or, with force, at a line that matched
  no prompt at all, so never at a credential gate.\<close>

theorem typed_only_at_prompt:
  assumes "Runner_run lossy (logged T) cmd (Runner_new (io, []) now ps opts) = Some (r, rn)"
  shows "(\<exists>t. r = Inr t \<and> tx_status t \<in> {Outcome_NoPrompt, Outcome_LoginRequired, Outcome_UnknownPrompt} \<and>
       written rn \<in> {[], [as_bytes (co_tx_line_ending opts)]}) \<or>
    (\<exists>prm rn1 tail. assert_idle lossy (logged T) (Runner_new (io, []) now ps opts) = Some (Inr prm, rn1) \<and>
       written rn1 \<in> {[], [as_bytes (co_tx_line_ending opts)]} \<and> Runner_tail rn1 = Some tail \<and>
       ((\<exists>p. Prompts_commandable ps tail = Some p \<and> prm = pt_raw p) \<or> co_force opts \<and> Prompts_classify ps tail = None))"
proof -
  let ?rn = "Runner_new (io, []) now ps opts"
  obtain v rn1 where a: "assert_idle lossy (logged T) ?rn = Some (v, rn1)"
    using assms by (cases "assert_idle lossy (logged T) ?rn") (auto simp: Runner_run_def Let_def)
  obtain tail where f: "written rn1 \<in> {[], [as_bytes (co_tx_line_ending opts)]}" "rn_opts rn1 = opts" "rn_prompts rn1 = ps"
    "Runner_tail rn1 = Some tail" "v = idle_verdict rn1 tail \<or> v = Inl (Transaction_failed Outcome_NoPrompt [] tail)"
    using assert_idle_log [OF a] by (auto simp: Runner_new_def)
  show ?thesis
  proof (cases v)
    case (Inl t)
    then have "tx_status t \<in> {Outcome_NoPrompt, Outcome_LoginRequired, Outcome_UnknownPrompt}"
      using f(5) idle_verdict_refused [of rn1 tail t] by (auto simp: Transaction_failed_def)
    with assms a Inl f(1) show ?thesis by (auto simp: Runner_run_def with_io_def)
  next
    case (Inr prm)
    with f(5) have "idle_verdict rn1 tail = Inr prm" by auto
    from idle_verdict_typed [OF this] a [unfolded Inr] f(1-4) show ?thesis by (intro disjI2, intro exI [of _ prm] exI [of _ rn1] exI [of _ tail]) simp
  qed
qed

section \<open>The ladder\<close>


text \<open>The console after each rung: the keys of the rung are written, then everything that arrives until
  the console is quiet is read.\<close>

fun rung_consoles :: "(byte list \<Rightarrow> string) \<Rightarrow> 'io Transport \<Rightarrow> string list \<Rightarrow> 'io Runner \<Rightarrow> 'io Runner list" where
  "rung_consoles lossy T [] rn = []"
| "rung_consoles lossy T (sq # sqs) rn =
     (let rn1 = snd (soak lossy T (from_millis (max 300 (rc_settle_quiet_ms (co_cfg (rn_opts rn))))) (snd (write_all T sq rn)))
      in rn1 # rung_consoles lossy T sqs rn1)"

definition at_prompt :: "Prompt list \<Rightarrow> 'io Runner \<Rightarrow> bool" where
  "at_prompt ps rn \<longleftrightarrow> Prompts_commandable ps (rn_buf rn) \<noteq> None"

lemma take_output_io: "take_output cmd rn = Some (r, rn') \<Longrightarrow> rn_io rn' = rn_io rn"
  by (auto simp: take_output_def Let_def split: if_splits)

lemma rung_written:
  "only_reads (snd (write_all (logged T) sq rn)) (snd (soak lossy (logged T) d (snd (write_all (logged T) sq rn)))) \<and>
   written (snd (write_all (logged T) sq rn)) = written rn @ [as_bytes sq] \<and>
   rn_opts (snd (write_all (logged T) sq rn)) = rn_opts rn \<and> rn_prompts (snd (write_all (logged T) sq rn)) = rn_prompts rn"
  using write_all_log [of T sq rn] soak_reads by (metis prod.collapse)

lemma climb_rungs:
  assumes "climb lossy (logged T) cmd rungs steps rn = Some (t, rn')"
  shows "\<exists>rs. tx_rungs t = rungs @ rs \<and> length rs \<le> length steps \<and> (steps \<noteq> [] \<longrightarrow> rs \<noteq> []) \<and>
    map ru_name rs = take (length rs) (map fst steps) \<and>
    written rn' = written rn @ map as_bytes (take (length rs) (map snd steps)) \<and>
    map ru_recovered rs = map (at_prompt (rn_prompts rn)) (rung_consoles lossy (logged T) (take (length rs) (map snd steps)) rn) \<and>
    (if tx_status t = Outcome_Ok then rs \<noteq> [] \<and> map ru_recovered rs = replicate (length rs - 1) False @ [True]
     else tx_status t = Outcome_Hung \<and> length rs = length steps \<and> map ru_recovered rs = replicate (length rs) False)"
  using assms
proof (induction steps arbitrary: rungs rn)
  case Nil
  then show ?case by auto
next
  case (Cons s steps)
  obtain name sq where s: "s = (name, sq)" by fastforce
  let ?w = "snd (write_all (logged T) sq rn)"
  define rn1 where "rn1 = snd (soak lossy (logged T) (from_millis (max 300 (rc_settle_quiet_ms (co_cfg (rn_opts ?w))))) ?w)"
  define r where "r = \<lparr> ru_name = name, ru_sent = concat (map escape_debug sq), ru_recovered = at_prompt (rn_prompts rn1) rn1 \<rparr>"
  have w: "written rn1 = written rn @ [as_bytes sq]" "rn_opts ?w = rn_opts rn" "rn_prompts rn1 = rn_prompts rn"
    using rung_written [of T sq rn lossy] by (auto simp: rn1_def only_reads_def)
  have rn1: "rung_consoles lossy (logged T) (sq # sqs) rn = rn1 # rung_consoles lossy (logged T) sqs rn1" for sqs
    by (simp add: rn1_def w(2) Let_def)
  show ?case
  proof (cases "at_prompt (rn_prompts rn1) rn1")
    case True
    then have "tx_rungs t = rungs @ [r]" "tx_status t = Outcome_Ok" "rn_io rn' = rn_io rn1"
      using Cons.prems take_output_io by (auto simp: s Let_def rn1_def [symmetric] r_def at_prompt_def)
    with True w show ?thesis by (intro exI [of _ "[r]"]) (simp add: s r_def rn1 del: rung_consoles.simps(2))
  next
    case False
    then have "climb lossy (logged T) cmd (rungs @ [r]) steps rn1 = Some (t, rn')"
      using Cons.prems by (simp add: s Let_def rn1_def [symmetric] r_def at_prompt_def)
    from Cons.IH [OF this] obtain rs where rs: "tx_rungs t = rungs @ [r] @ rs" "length rs \<le> length steps"
        "map ru_name rs = take (length rs) (map fst steps)"
        "written rn' = written rn1 @ map as_bytes (take (length rs) (map snd steps))"
        "map ru_recovered rs = map (at_prompt (rn_prompts rn1)) (rung_consoles lossy (logged T) (take (length rs) (map snd steps)) rn1)"
        "if tx_status t = Outcome_Ok then rs \<noteq> [] \<and> map ru_recovered rs = replicate (length rs - 1) False @ [True]
         else tx_status t = Outcome_Hung \<and> length rs = length steps \<and> map ru_recovered rs = replicate (length rs) False"
      by auto
    have "if tx_status t = Outcome_Ok then map ru_recovered (r # rs) = replicate (length rs) False @ [True]
        else tx_status t = Outcome_Hung \<and> length rs = length steps \<and> map ru_recovered (r # rs) = replicate (Suc (length rs)) False"
      using rs(6) False by (cases rs) (auto simp: r_def split: if_splits)
    with rs(1-5) False w show ?thesis
      by (intro exI [of _ "r # rs"]) (auto simp: s r_def rn1 simp del: rung_consoles.simps(2) split: if_splits)
  qed
qed

text \<open>C18. The recovery ladder does what it reports: over a transport that keeps a log, the bytes
  written are the line ending and then the keys of the configured escapes, in their order, one
  for every rung reported and no more; the report names exactly these rungs, and a rung counts as
  recovered exactly when what the console showed after its keys ends in a prompt that takes
  commands. The climb stops at the first rung that recovers and ends \<open>ok\<close>; \<open>hung\<close> is reported only
  when every rung was tried and none recovered. No other outcome is possible.\<close>

theorem ladder_climbed_in_order:
  assumes "recover lossy (logged T) cmd rn = Some (t, rn')"
  shows "let names = ''newline_probe'' # rc_escape_set (co_cfg (rn_opts rn));
             sqs = co_tx_line_ending (rn_opts rn) # map escape_bytes (rc_escape_set (co_cfg (rn_opts rn)));
             n = length (tx_rungs t); recovered = map ru_recovered (tx_rungs t)
         in 0 < n \<and> n \<le> length names \<and> map ru_name (tx_rungs t) = take n names \<and>
            written rn' = written rn @ map as_bytes (take n sqs) \<and>
            recovered = map (at_prompt (rn_prompts rn)) (rung_consoles lossy (logged T) (take n sqs) rn) \<and>
            (if tx_status t = Outcome_Ok then recovered = replicate (n - 1) False @ [True]
             else tx_status t = Outcome_Hung \<and> n = length names \<and> recovered = replicate n False)"
proof -
  have l: "map fst (ladder (rn_opts rn)) = ''newline_probe'' # rc_escape_set (co_cfg (rn_opts rn))"
    "map snd (ladder (rn_opts rn)) = co_tx_line_ending (rn_opts rn) # map escape_bytes (rc_escape_set (co_cfg (rn_opts rn)))"
    "length (ladder (rn_opts rn)) = Suc (length (rc_escape_set (co_cfg (rn_opts rn))))" "ladder (rn_opts rn) \<noteq> []"
    by (simp_all add: ladder_def o_def)
  from climb_rungs [OF assms [unfolded recover_def]] l(3,4) show ?thesis unfolding l(1,2) Let_def by (auto split: if_splits)
qed

section \<open>The output\<close>

lemma split_on_last: "sep \<notin> set b \<Longrightarrow> split_on sep (a @ sep # b) = split_on sep a @ [b]"
proof (induction a)
  case (Cons x a)
  then show ?case using split_on_nonempty [of sep a] by (auto split: list.splits)
qed (simp add: split_on_no_sep)

text \<open>A console that echoes the command, prints its output and then the prompt gives back exactly
  that output: the echo, the line break after it and the prompt line are gone, nothing else is
  (up to trailing white space), and the output is not marked as capped.\<close>

theorem take_output_exact:
  assumes "rn_buf rn = cmd @ [CHR 0x0D, CHR 0x0A] @ out @ [CHR 0x0A] @ prm" and "ESC \<notin> set (rn_buf rn)"
    and "out \<noteq> []" and "hd out \<noteq> CHR 0x0D" and "hd out \<noteq> CHR 0x0A" and "CHR 0x0A \<notin> set prm"
    and "Prompts_commandable (rn_prompts rn) prm \<noteq> None" and "str_len out \<le> co_max_output_bytes (rn_opts rn)"
  shows "take_output cmd rn = Some ((trim_end out, False), rn\<lparr> rn_buf := [] \<rparr>)"
proof -
  have "\<not> str_contains [ESC, CHR ''['', CHR 0x3F] s" if "ESC \<notin> set s" for s
    using that
  proof (induction s)
    case Nil
    then show ?case by (simp add: str_contains_def starts_with_def str_find.simps)
  next
    case (Cons c s)
    then show ?case by (auto simp: str_contains_def starts_with_def str_find.simps [of _ "c # s"])
  qed
  then have strip: "strip_dec_private_modes_impl (rn_buf rn) = rn_buf rn" using assms(2) by (simp add: strip_dec_private_modes_impl_def)
  have "strip_echo cmd (rn_buf rn) = out @ [CHR 0x0A] @ prm"
    using assms(3-5) by (cases out) (simp_all add: strip_echo_def assms(1) strip_prefix_def trim_newlines_def)
  then show ?thesis using assms(6-8)
    by (simp add: take_output_def strip Let_def split_on_last butlast_append)
qed

section \<open>Scripted consoles\<close>

text \<open>A transport that plays a script of reads and accepts every write; a chunk takes a millisecond,
  silence the whole time waited for.\<close>

definition script :: "byte list option list Transport" where
  "script = \<lparr> tr_write = (\<lambda>rs bs. (Inr (), 0, rs)),
     tr_read = (\<lambda>rs d. case rs of [] \<Rightarrow> (Inr None, d, []) | None # rs \<Rightarrow> (Inr None, d, rs) | Some bs # rs \<Rightarrow> (Inr (Some bs), 1000000, rs)) \<rparr>"

definition ascii_text :: "byte list \<Rightarrow> string" where
  "ascii_text bs = map (\<lambda>b. char_of (unat b)) bs"

definition hash_prompt :: Prompt where
  "hash_prompt = \<lparr> pt_re = (sample_regex [])\<lparr> re_is_match := (\<lambda>s. s = ''# '') \<rparr>, pt_raw = ''^# $'', pt_kind = Shell \<rparr>"

definition quick_opts :: CommandOptions where
  "quick_opts = (CommandOptions_new RunnerConfig_default [CHR 0x0A])\<lparr> co_timeout_s := 1 \<rparr>"

lemmas run_defs = Runner_run_def assert_idle_def settle_def probe_def write_all_def soak_def read_some_def Runner_tail_def idle_verdict_def
  logged_def script_def Runner_new_def quick_opts_def CommandOptions_new_def RunnerConfig_default_def from_millis_def from_secs_def
  Prompts_classify_def last_line_def rfind_def str_lines_def Let_def

lemma find_map_None: "(\<And>x. x \<in> set xs \<Longrightarrow> f x = None) \<Longrightarrow> find_map f xs = None"
  by (induction xs) simp_all

text \<open>Witness: a silent console is probed and refused; only the newline was sent.\<close>

lemma silent_console: "\<exists>t rn. Runner_run ascii_text (logged script) ''ls'' (Runner_new ([], []) 0 [] quick_opts) = Some (Inr t, rn)"
  by (simp add: run_defs settle_until.simps probe_loop.simps soak_until.simps)

theorem typed_only_at_prompt_witness:
  "\<exists>t rn. Runner_run ascii_text (logged script) ''ls'' (Runner_new ([], []) 0 [] quick_opts) = Some (Inr t, rn) \<and>
     tx_status t \<in> {Outcome_NoPrompt, Outcome_LoginRequired, Outcome_UnknownPrompt} \<and> written rn \<in> {[], [as_bytes [CHR 0x0A]]}"
proof -
  obtain t rn where r: "Runner_run ascii_text (logged script) ''ls'' (Runner_new ([], []) 0 [] quick_opts) = Some (Inr t, rn)"
    using silent_console by blast
  have "Prompts_commandable [] tail = None" for tail
    by (simp add: Prompts_commandable_def Prompts_classify_def find_map_None Let_def split: option.split)
  with typed_only_at_prompt [OF r] r show ?thesis by (auto simp: quick_opts_def CommandOptions_new_def)
qed

text \<open>The console at a shell prompt, and what its prompt matches.\<close>

lemma hash_commandable: "Prompts_commandable [hash_prompt] ''# '' = Some hash_prompt" "Prompts_commandable [hash_prompt] [] = None"
proof -
  have "last_line ''# '' = Some ''# ''" "last_line [] = None" by code_simp+
  then show "Prompts_commandable [hash_prompt] ''# '' = Some hash_prompt" "Prompts_commandable [hash_prompt] [] = None"
    by (simp_all add: Prompts_commandable_def Prompts_classify_def hash_prompt_def)
qed

definition at_shell :: "byte list option list \<Rightarrow> byte list option list Runner" where
  "at_shell rs = Runner_new rs 0 [hash_prompt] quick_opts"

text \<open>Witness: the newline brings the prompt back, so the ladder stops at its first rung.\<close>

theorem ladder_climbed_in_order_witness:
  "\<exists>t rn. recover ascii_text (logged script) ''ls'' (Runner_new ([Some [35, 32]], []) 0 [hash_prompt] quick_opts) = Some (t, rn) \<and>
     tx_status t = Outcome_Ok \<and> map ru_name (tx_rungs t) = [''newline_probe''] \<and> written rn = [[10]]"
proof -
  have buf: "ascii_text [35, 32] = ''# ''" "strip_dec_private_modes_impl ''# '' = ''# ''" "strip_echo ''ls'' ''# '' = ''# ''" by code_simp+
  have "as_bytes [CHR 0x0A] = [10]" by code_simp
  then have line: "as_bytes (co_tx_line_ending quick_opts) = [10]" by (simp add: quick_opts_def CommandOptions_new_def)
  let ?rn = "Runner_new ([Some [35, 32]], []) 0 [hash_prompt] quick_opts"
  have opts: "rn_opts ?rn = quick_opts" "written ?rn = []" by (simp_all add: Runner_new_def)
  obtain t rn where r: "recover ascii_text (logged script) ''ls'' ?rn = Some (t, rn)" "tx_status t = Outcome_Ok" "length (tx_rungs t) = 1"
    by (simp add: recover_def ladder_def run_defs soak_until.simps buf hash_commandable take_output_def)
  with ladder_climbed_in_order [OF r(1)] line show ?thesis by (simp add: Let_def opts)
qed

text \<open>Witness: \<^verbatim>\<open>uname\<close> answered with one line.\<close>

theorem take_output_exact_witness:
  "take_output ''uname'' ((at_shell [])\<lparr> rn_buf := ''uname'' @ [CHR 0x0D, CHR 0x0A] @ ''Linux'' @ [CHR 0x0A] @ ''# '' \<rparr>) =
     Some ((''Linux'', False), at_shell [])"
proof -
  have t: "trim_end ''Linux'' = ''Linux''" by code_simp
  let ?rn = "(at_shell [])\<lparr> rn_buf := ''uname'' @ [CHR 0x0D, CHR 0x0A] @ ''Linux'' @ [CHR 0x0A] @ ''# '' \<rparr>"
  have "take_output ''uname'' ?rn = Some ((trim_end ''Linux'', False), ?rn\<lparr> rn_buf := [] \<rparr>)"
    by (rule take_output_exact [of ?rn "''uname''" "''Linux''" "''# ''"]) (simp_all add: at_shell_def Runner_new_def ESC_def hash_commandable quick_opts_def CommandOptions_new_def len_utf8_def)
  then show ?thesis by (simp add: t at_shell_def Runner_new_def)
qed

section \<open>Where it goes wrong\<close>

text \<open>A console whose echo is slower than the time allowed per character: the character is sent a
  second time, the late echo of the first counts for it, and the command is typed wrong.\<close>

lemma late_echo_types_twice:
  "\<exists>rn. send_command ascii_text (logged script) ''x'' (Runner_new ([None, Some [120]], []) 0 [hash_prompt] quick_opts) = Some (Inr (), rn) \<and>
     written rn = [[120], [120]]"
proof -
  have [simp]: "ascii_text [120] = ''x''" "as_bytes ''x'' = [120]" by code_simp+
  show ?thesis
    by (simp add: send_command_def send_char_def try_char_def run_defs soak_until.simps)
qed

text \<open>A console that does not echo: letters of the output that spell the command in order are taken for
  an interleaved echo and everything before them is dropped.\<close>

lemma unechoed_output_is_cut:
  "take_output ''ls'' ((at_shell [])\<lparr> rn_buf := ''lib'' @ [CHR 0x0A] @ ''src'' @ [CHR 0x0A] @ ''# '' \<rparr>) = Some ((''rc'', False), at_shell [])"
proof -
  let ?buf = "''lib'' @ [CHR 0x0A] @ ''src'' @ [CHR 0x0A] @ ''# ''"
  have "strip_echo ''ls'' (strip_dec_private_modes_impl ?buf) = ''rc'' @ [CHR 0x0A] @ ''# ''" "trim_end ''rc'' = ''rc''" by code_simp+
  then show ?thesis
    by (simp add: take_output_def Let_def at_shell_def Runner_new_def hash_commandable quick_opts_def CommandOptions_new_def len_utf8_def)
qed

text \<open>A tail that starts inside a two-byte character: slicing it panics.\<close>

lemma tail_can_panic: "Runner_tail ((at_shell [])\<lparr> rn_buf := CHR 0xE9 # replicate 2047 (CHR ''a'') \<rparr>) = None"
proof -
  have "str_len (replicate n (CHR ''a'')) = n" for n by (induction n) (simp_all add: len_utf8_def)
  then show ?thesis by (simp add: Runner_tail_def at_shell_def Runner_new_def len_utf8_def)
qed

text \<open>After a recovery the transaction never says which prompt came back.\<close>

lemma recovered_prompt_is_lost: "climb lossy T cmd rungs steps rn = Some (t, rn') \<Longrightarrow> tx_prompt_matched t = None"
proof (induction steps arbitrary: rungs rn)
  case (Cons s steps)
  have "Prompts_commandable ps [] = None" for ps
    by (simp add: Prompts_commandable_def Prompts_classify_def last_line_def rfind_def str_lines_def)
  with Cons show ?case by (cases s) (auto simp: Let_def split: if_splits)
qed auto

end
