(* ===== verification/Console_State.thy ===== *)
theory Console_State
  imports Store_Queries Command_Runner
begin

text \<open>
  Perceived console state (\<^verbatim>\<open>crates/conminer-core/src/console.rs\<close>): what a console is doing, derived
  from the device store, the prompt registry and a live observation. The lossy decoder and the
  compiled expressions are arguments. Database errors are not modelled.
\<close>

section \<open>States\<close>

text \<open>\<^verbatim>\<open>live::CaptureState\<close>.\<close>

datatype CaptureState = Capture_NotListening | Capture_Listening | Capture_Streaming | Capture_Garbage | Capture_OpenFailed | Capture_AwayInEdl

fun CaptureState_as_str :: "CaptureState \<Rightarrow> string" where
  "CaptureState_as_str Capture_NotListening = ''not_listening''"
| "CaptureState_as_str Capture_Listening = ''listening''"
| "CaptureState_as_str Capture_Streaming = ''streaming''"
| "CaptureState_as_str Capture_Garbage = ''garbage''"
| "CaptureState_as_str Capture_OpenFailed = ''open_failed''"
| "CaptureState_as_str Capture_AwayInEdl = ''away_in_edl''"

datatype LoopKind = Loop_Stable | Loop_Crash | Loop_StageCapped | Loop_Watchdog | Loop_Flapping

fun LoopKind_as_str :: "LoopKind \<Rightarrow> string" where
  "LoopKind_as_str Loop_Stable = ''stable''"
| "LoopKind_as_str Loop_Crash = ''crash''"
| "LoopKind_as_str Loop_StageCapped = ''stage_capped''"
| "LoopKind_as_str Loop_Watchdog = ''watchdog''"
| "LoopKind_as_str Loop_Flapping = ''flapping''"

datatype ConsoleState =
    Console_NoSignal
  | Console_Garbage rat
  | Console_Booting string
  | Console_AtPrompt string string string
  | Console_AtPromptWithTraffic string string string int
  | Console_LoginWait string
  | Console_AtUnknownPrompt string
  | Console_InCommand string
  | Console_Actuating string string string
  | Console_Streaming
  | Console_Quiet int
  | Console_Hung string int
  | Console_BootLooping LoopKind nat string
  | Console_Unstable nat
  | Console_AwayInEdl
  | Console_Unknown

fun ConsoleState_name :: "ConsoleState \<Rightarrow> string" where
  "ConsoleState_name Console_NoSignal = ''no_signal''"
| "ConsoleState_name (Console_Garbage _) = ''garbage''"
| "ConsoleState_name (Console_Booting _) = ''booting''"
| "ConsoleState_name (Console_AtPrompt _ _ _) = ''at_prompt''"
| "ConsoleState_name (Console_AtPromptWithTraffic _ _ _ _) = ''at_prompt_with_traffic''"
| "ConsoleState_name (Console_LoginWait _) = ''login_wait''"
| "ConsoleState_name (Console_AtUnknownPrompt _) = ''at_unknown_prompt''"
| "ConsoleState_name (Console_InCommand _) = ''in_command''"
| "ConsoleState_name (Console_Actuating _ _ _) = ''actuating''"
| "ConsoleState_name Console_Streaming = ''streaming''"
| "ConsoleState_name (Console_Quiet _) = ''quiet''"
| "ConsoleState_name (Console_Hung _ _) = ''hung''"
| "ConsoleState_name (Console_BootLooping _ _ _) = ''boot_looping''"
| "ConsoleState_name (Console_Unstable _) = ''unstable''"
| "ConsoleState_name Console_AwayInEdl = ''away_in_edl''"
| "ConsoleState_name Console_Unknown = ''unknown''"

fun commandable :: "ConsoleState \<Rightarrow> bool" where
  "commandable (Console_AtPrompt _ _ _) \<longleftrightarrow> True"
| "commandable (Console_AtPromptWithTraffic _ _ _ _) \<longleftrightarrow> True"
| "commandable _ \<longleftrightarrow> False"

text \<open>Why no command can be sent now; nothing when one can.\<close>

fun not_commandable_because :: "ConsoleState \<Rightarrow> string option" where
  "not_commandable_because (Console_AtPrompt _ _ _) = None"
| "not_commandable_because (Console_AtPromptWithTraffic _ _ _ _) = None"
| "not_commandable_because (Console_LoginWait _) =
     Some ''credential_gate: the board is up and waiting for a login, not for a command''"
| "not_commandable_because (Console_AtUnknownPrompt _) =
     Some ''unknown_prompt: something is waiting for input and conminer does not recognise                  it -- teach it with classify_prompt''"
| "not_commandable_because (Console_InCommand _) =
     Some ''in_command: a transaction is already running''"
| "not_commandable_because (Console_Actuating _ _ _) =
     Some ''actuating: a power/boot_mode workflow is running on this console; what the buffer shows was printed before it. Poll actuation_status until it is free''"
| "not_commandable_because (Console_Booting _) =
     Some ''no_prompt_yet: the board is still producing output''"
| "not_commandable_because Console_Streaming =
     Some ''no_prompt_yet: the board is still producing output''"
| "not_commandable_because (Console_Quiet _) =
     Some ''no_prompt_yet: the board has gone quiet without reaching a prompt, and has not been silent long enough to call hung''"
| "not_commandable_because (Console_Hung _ _) =
     Some ''hung: no output and no prompt''"
| "not_commandable_because Console_NoSignal =
     Some ''no_signal: the port is open and nothing has arrived''"
| "not_commandable_because (Console_Garbage _) =
     Some ''garbage: output is not decodable at this baud''"
| "not_commandable_because (Console_BootLooping _ _ _) =
     Some ''boot_looping: the board never reaches a prompt''"
| "not_commandable_because (Console_Unstable _) =
     Some ''no_prompt: nothing recognisable at the tail''"
| "not_commandable_because Console_AwayInEdl =
     Some ''away_in_edl: the board is in EDL and its UART is gone by design; there is nothing here to type at until it leaves''"
| "not_commandable_because Console_Unknown =
     Some ''unknown: no live capture attestation''"

definition TALKING_MS :: int where "TALKING_MS = 2000"
definition TRAFFIC_LINES_PER_MIN :: int where "TRAFFIC_LINES_PER_MIN = 10"
definition PROMPT_LOOKBACK :: nat where "PROMPT_LOOKBACK = 400"
definition PROMPT_SCAN :: nat where "PROMPT_SCAN = 40"
definition BOOT_SCAN :: nat where "BOOT_SCAN = 200"

record Observation =
  ob_capture :: CaptureState
  ob_now_ms :: int
  ob_hung_after_ms :: int
  ob_loop_min_epochs :: nat
  ob_active_txn :: "string option"

section \<open>Silence and the line the cursor rests on\<close>

text \<open>\<^verbatim>\<open>Option::max\<close>: none is below every value.\<close>

fun opt_max :: "int option \<Rightarrow> int option \<Rightarrow> int option" where
  "opt_max None y = y"
| "opt_max x None = x"
| "opt_max (Some x) (Some y) = Some (max x y)"

definition silence_ms :: "DeviceStore \<Rightarrow> int \<Rightarrow> int option" where
  "silence_ms s now_ms =
     (let last_ts = (case recent_lines s 1 of [] \<Rightarrow> None | l # _ \<Rightarrow> Some (lr_ts_wall l));
          pending = (case pending_tail s of Some (_, ts) \<Rightarrow> if now_ms - ts \<le> 60000 then Some ts else None | None \<Rightarrow> None)
      in map_option (\<lambda>ts. max 0 (now_ms - ts)) (opt_max last_ts pending))"

definition looks_like_a_gate :: "string \<Rightarrow> bool" where
  "looks_like_a_gate l \<longleftrightarrow> trim_end l \<noteq> [] \<and> last (trim_end l) \<in> set ''>#$:?%''"

definition is_actuation :: "BootRow \<Rightarrow> bool" where
  "is_actuation b \<longleftrightarrow> ep_opened_by b \<in> {''power'', ''reset'', ''boot_mode'', ''flash''}"

text \<open>An epoch opened after the partial was seen that makes it stale.\<close>

definition moved_on :: "DeviceStore \<Rightarrow> int \<Rightarrow> BootRow \<Rightarrow> bool" where
  "moved_on s seen_at b \<longleftrightarrow>
     is_actuation b \<and> ep_bytes b = 0 \<or>
     (case boot_first_line_ts s (ep_id b) of Some t \<Rightarrow> t > seen_at + 1000 | None \<Rightarrow> False)"

definition pending_partial :: "DeviceStore \<Rightarrow> string option" where
  "pending_partial s =
     (case pending_tail s of
        None \<Rightarrow> None
      | Some (partial, seen_at) \<Rightarrow>
          if trim partial = [] then None
          else if list_ex (\<lambda>b. \<not> ep_opened_at b \<le> seen_at \<and> moved_on s seen_at b) (list_boots s BOOT_SCAN) then None
          else Some partial)"

definition boot_floor :: "DeviceStore \<Rightarrow> int option" where
  "boot_floor s =
     (let boots = list_boots s BOOT_SCAN
      in case find is_actuation boots of
           Some b \<Rightarrow> Some (ep_id b)
         | None \<Rightarrow> if boots = [] then None else Some (ep_id (last boots)))"

definition tail_text :: "(byte list \<Rightarrow> string) \<Rightarrow> DeviceStore \<Rightarrow> int option \<Rightarrow> nat \<Rightarrow> string" where
  "tail_text lossy s since_boot n =
     (let rows = (case since_boot of Some i \<Rightarrow> rev (tail_since_boot s i n) | None \<Rightarrow> recent_lines s n);
          tail = join_with [CHR 0x0A] (map (LineRow_lossy lossy) rows);
          tail = (case pending_partial s of
                    Some partial \<Rightarrow> (if tail \<noteq> [] then tail @ [CHR 0x0A] else tail) @ partial
                  | None \<Rightarrow> tail)
      in strip_ansi tail)"

definition console_tail :: "(byte list \<Rightarrow> string) \<Rightarrow> DeviceStore \<Rightarrow> nat \<Rightarrow> string" where
  "console_tail lossy s n = tail_text lossy s None n"

section \<open>Prompts\<close>

definition prompt_at_tail_in_boot :: "(byte list \<Rightarrow> string) \<Rightarrow> DeviceStore \<Rightarrow> Prompts \<Rightarrow> int option \<Rightarrow> Prompt option" where
  "prompt_at_tail_in_boot lossy s prompts since_boot =
     (case Prompts_classify prompts (tail_text lossy s since_boot 8) of
        Some p \<Rightarrow> Some p
      | None \<Rightarrow> Prompts_classify prompts (tail_text lossy s since_boot PROMPT_LOOKBACK))"

definition prompt_at_tail :: "(byte list \<Rightarrow> string) \<Rightarrow> DeviceStore \<Rightarrow> Prompts \<Rightarrow> Prompt option" where
  "prompt_at_tail lossy s prompts = prompt_at_tail_in_boot lossy s prompts None"

definition prompt_reached_in_boot :: "(byte list \<Rightarrow> string) \<Rightarrow> DeviceStore \<Rightarrow> Prompts \<Rightarrow> int \<Rightarrow> Prompt option" where
  "prompt_reached_in_boot lossy s prompts boot_id =
     find_map (\<lambda>l. Prompts_commandable prompts (LineRow_lossy lossy l)) (tail_of_boot s boot_id PROMPT_SCAN)"

datatype PromptSource = Recorded | LiveTail

definition is_unterminated :: "PromptSource \<Rightarrow> bool" where
  "is_unterminated p \<longleftrightarrow> p = LiveTail"

definition prompt_for_boot :: "(byte list \<Rightarrow> string) \<Rightarrow> DeviceStore \<Rightarrow> Prompts \<Rightarrow> int \<Rightarrow> bool \<Rightarrow> (Prompt \<times> PromptSource) option" where
  "prompt_for_boot lossy s prompts boot_id boot_is_open =
     (case prompt_reached_in_boot lossy s prompts boot_id of
        Some p \<Rightarrow> Some (p, Recorded)
      | None \<Rightarrow>
          let live = (boot_is_open \<and> (case boot_floor s of Some fl \<Rightarrow> boot_id \<ge> fl | None \<Rightarrow> False))
          in if \<not> live then None
             else case prompt_at_tail_in_boot lossy s prompts (Some boot_id) of
                    Some p \<Rightarrow> if is_commandable (pt_kind p) then Some (p, LiveTail) else None
                  | None \<Rightarrow> None)"

section \<open>Loops\<close>

definition is_boot_attempt :: "BootRow \<Rightarrow> bool" where
  "is_boot_attempt b \<longleftrightarrow> ep_opened_by b \<notin> {''session'', ''mark''} \<and> ep_bytes b > 0"

text \<open>The three observations of the loop over the epochs of a run.\<close>

definition boot_crashed :: "DeviceStore \<Rightarrow> BootRow \<Rightarrow> bool" where
  "boot_crashed s b \<longleftrightarrow> records_in_boot s (ep_id b) (Some Crash) 5 \<noteq> []"

definition boot_watchdog :: "GenericRe \<Rightarrow> (byte list \<Rightarrow> string) \<Rightarrow> DeviceStore \<Rightarrow> BootRow \<Rightarrow> bool" where
  "boot_watchdog G lossy s b \<longleftrightarrow>
     list_ex (\<lambda>r. is_watchdog G (case record_text lossy s (rr_id r) of Inr t \<Rightarrow> t | Inl _ \<Rightarrow> [])) (records_in_boot s (ep_id b) None 200)"

definition deepest_stage :: "DeviceStore \<Rightarrow> BootRow \<Rightarrow> string option" where
  "deepest_stage s b = map_option sg_name (newest (stages s None (Some (ep_id b))))"

definition loop_kind :: "GenericRe \<Rightarrow> (byte list \<Rightarrow> string) \<Rightarrow> DeviceStore \<Rightarrow> nat \<Rightarrow> BootRow list \<Rightarrow> LoopKind" where
  "loop_kind G lossy s distinct_fps bs =
     (let run = length bs; crashed = length (filter (boot_crashed s) bs); watchdog = length (filter (boot_watchdog G lossy s) bs);
          deepest = List.map_filter (deepest_stage s) bs
      in if watchdog * 2 \<ge> run then Loop_Watchdog
         else if crashed * 2 \<ge> run then Loop_Crash
         else if distinct_fps > 2 then Loop_Flapping
         else if list_all (\<lambda>n. n \<notin> {''userspace'', ''android''}) deepest then Loop_StageCapped
         else Loop_Stable)"

text \<open>The outer option is a panic: with a minimum of no epochs the first of no fingerprints is read.\<close>

definition loop_state :: "GenericRe \<Rightarrow> (byte list \<Rightarrow> string) \<Rightarrow> DeviceStore \<Rightarrow> BootRow list \<Rightarrow> Observation \<Rightarrow> ConsoleState option option" where
  "loop_state G lossy s boots obs =
     (let boots = filter is_boot_attempt boots
      in if length boots < ob_loop_min_epochs obs then Some None
         else let fingerprints = List.map_filter ep_fingerprint boots
         in if length fingerprints < ob_loop_min_epochs obs then Some None
         else if fingerprints = [] then None
         else let fp = hd fingerprints;
                  run = length (takeWhile (\<lambda>f. f = fp) fingerprints);
                  distinct_fps = card (set fingerprints)
         in if run < ob_loop_min_epochs obs
            then Some (if distinct_fps > 2 then Some (Console_Unstable distinct_fps) else None)
            else Some (Some (Console_BootLooping (loop_kind G lossy s distinct_fps (take run boots)) run fp)))"

section \<open>The verdict\<close>

definition stage_now :: "DeviceStore \<Rightarrow> BootRow option \<Rightarrow> string" where
  "stage_now s latest = (case newest (stages s None (map_option ep_id latest)) of Some g \<Rightarrow> sg_name g | None \<Rightarrow> ''unknown'')"

definition lines_since :: "DeviceStore \<Rightarrow> int \<Rightarrow> int" where
  "lines_since s ts = int (length (filter (\<lambda>l. lr_ts_wall l \<ge> ts) (tb_raw_lines (ds_db s))))"

definition prompt_state :: "Prompt \<Rightarrow> string \<Rightarrow> int \<Rightarrow> ConsoleState" where
  "prompt_state p stage lines_per_min =
     (if pt_kind p = CredentialGate then Console_LoginWait (pt_raw p)
      else if pt_kind p = Ignore then Console_Streaming
      else if lines_per_min \<ge> TRAFFIC_LINES_PER_MIN
      then Console_AtPromptWithTraffic (PromptKind_as_str (pt_kind p)) (pt_raw p) stage lines_per_min
      else Console_AtPrompt (PromptKind_as_str (pt_kind p)) (pt_raw p) stage)"

text \<open>What an idle console whose prompt is not recognised is waiting at.\<close>

definition idle_line :: "DeviceStore \<Rightarrow> string \<Rightarrow> string" where
  "idle_line s tail =
     (case pending_partial s of
        Some p \<Rightarrow> rev (dropWhile (\<lambda>c. c = CHR 0x0A) (rev (strip_ansi p)))
      | None \<Rightarrow> let l = (case rfind nonblank (str_lines tail) of Some l \<Rightarrow> l | None \<Rightarrow> []) in if looks_like_a_gate l then l else [])"

definition quiet_state :: "DeviceStore \<Rightarrow> string \<Rightarrow> string \<Rightarrow> int \<Rightarrow> ConsoleState" where
  "quiet_state s tail stage ms =
     (let idle = idle_line s tail
      in if trim idle \<noteq> [] \<and> stage \<notin> {''userspace'', ''android''} then Console_AtUnknownPrompt idle else Console_Hung stage ms)"

text \<open>The last branches: nothing at the tail and no loop.\<close>

definition steady_state :: "DeviceStore \<Rightarrow> string \<Rightarrow> string \<Rightarrow> int option \<Rightarrow> Observation \<Rightarrow> ConsoleState" where
  "steady_state s tail stage silent obs =
     (case silent of
        Some ms \<Rightarrow>
          if ms \<ge> ob_hung_after_ms obs then quiet_state s tail stage ms
          else if stage = ''unknown'' then (if ms > TALKING_MS then Console_Quiet ms else Console_Streaming)
          else Console_Booting stage
      | None \<Rightarrow> if stage = ''unknown'' then Console_Streaming else Console_Booting stage)"

fun is_unstable :: "ConsoleState \<Rightarrow> bool" where
  "is_unstable (Console_Unstable _) \<longleftrightarrow> True"
| "is_unstable _ \<longleftrightarrow> False"

definition derive :: "GenericRe \<Rightarrow> (byte list \<Rightarrow> string) \<Rightarrow> DeviceStore \<Rightarrow> Prompts \<Rightarrow> Observation \<Rightarrow> ConsoleState option" where
  "derive G lossy s prompts obs =
     (case ob_active_txn obs of
        Some txn \<Rightarrow> Some (Console_InCommand txn)
      | None \<Rightarrow>
          if ob_capture obs = Capture_NotListening then Some Console_Unknown
          else let boots = list_boots s (max (ob_loop_min_epochs obs) 3 * 4);
                   latest = (case boots of b # _ \<Rightarrow> Some b | [] \<Rightarrow> None);
                   bytes_this_boot = (case latest of Some b \<Rightarrow> ep_bytes b | None \<Rightarrow> 0)
          in if bytes_this_boot = 0 \<and> line_count s = 0 then Some Console_NoSignal
          else if ob_capture obs = Capture_Garbage then Some (Console_Garbage 0)
          else if ob_capture obs = Capture_AwayInEdl then Some Console_AwayInEdl
          else let tail = console_tail lossy s 8; stage = stage_now s latest
          in case prompt_at_tail lossy s prompts of
               Some p \<Rightarrow> Some (prompt_state p stage (lines_since s (ob_now_ms obs - 60000)))
             | None \<Rightarrow>
                 let silent = silence_ms s (ob_now_ms obs);
                     talking_now = (case silent of Some ms \<Rightarrow> ms < max (ob_hung_after_ms obs) TALKING_MS | None \<Rightarrow> False)
                 in map_option (\<lambda>looped. case looped of
                        Some st \<Rightarrow> if talking_now \<and> is_unstable st then steady_state s tail stage silent obs else st
                      | None \<Rightarrow> steady_state s tail stage silent obs)
                    (loop_state G lossy s boots obs))"

end
