(* ===== verification/Console_Laws.thy ===== *)
theory Console_Laws
  imports Console_State Pipeline_Run
begin

text \<open>
  What the perceived state of a console rests on: every state is backed by the evidence it
  claims, and an actuation makes the line the cursor was resting on worthless.
\<close>

section \<open>Evidence\<close>

text \<open>The evidence behind each state.\<close>

fun warranted :: "(byte list \<Rightarrow> string) \<Rightarrow> DeviceStore \<Rightarrow> Prompts \<Rightarrow> Observation \<Rightarrow> ConsoleState \<Rightarrow> bool" where
  "warranted lossy s ps obs (Console_InCommand t) \<longleftrightarrow> ob_active_txn obs = Some t"
| "warranted lossy s ps obs Console_Unknown \<longleftrightarrow> ob_capture obs = Capture_NotListening"
| "warranted lossy s ps obs Console_NoSignal \<longleftrightarrow> ob_capture obs \<noteq> Capture_NotListening \<and> tb_raw_lines (ds_db s) = []"
| "warranted lossy s ps obs (Console_Garbage _) \<longleftrightarrow> ob_capture obs = Capture_Garbage"
| "warranted lossy s ps obs Console_AwayInEdl \<longleftrightarrow> ob_capture obs = Capture_AwayInEdl"
| "warranted lossy s ps obs (Console_AtPrompt k raw g) \<longleftrightarrow>
     (\<exists>p. prompt_at_tail lossy s ps = Some p \<and> is_commandable (pt_kind p) \<and> raw = pt_raw p) \<and> ob_active_txn obs = None \<and>
     ob_capture obs \<notin> {Capture_NotListening, Capture_Garbage, Capture_AwayInEdl} \<and> lines_since s (ob_now_ms obs - 60000) < 10"
| "warranted lossy s ps obs (Console_AtPromptWithTraffic k raw g n) \<longleftrightarrow>
     (\<exists>p. prompt_at_tail lossy s ps = Some p \<and> is_commandable (pt_kind p) \<and> raw = pt_raw p) \<and> ob_active_txn obs = None \<and>
     ob_capture obs \<notin> {Capture_NotListening, Capture_Garbage, Capture_AwayInEdl} \<and> lines_since s (ob_now_ms obs - 60000) = n \<and> 10 \<le> n"
| "warranted lossy s ps obs (Console_LoginWait raw) \<longleftrightarrow> (\<exists>p. prompt_at_tail lossy s ps = Some p \<and> pt_kind p = CredentialGate \<and> raw = pt_raw p)"
| "warranted lossy s ps obs (Console_AtUnknownPrompt l) \<longleftrightarrow>
     prompt_at_tail lossy s ps = None \<and> trim l \<noteq> [] \<and> (\<exists>ms. silence_ms s (ob_now_ms obs) = Some ms \<and> ob_hung_after_ms obs \<le> ms)"
| "warranted lossy s ps obs (Console_Hung g ms) \<longleftrightarrow>
     prompt_at_tail lossy s ps = None \<and> silence_ms s (ob_now_ms obs) = Some ms \<and> ob_hung_after_ms obs \<le> ms"
| "warranted lossy s ps obs (Console_Quiet ms) \<longleftrightarrow>
     prompt_at_tail lossy s ps = None \<and> silence_ms s (ob_now_ms obs) = Some ms \<and> 2000 < ms \<and> ms < ob_hung_after_ms obs"
| "warranted lossy s ps obs Console_Streaming \<longleftrightarrow>
     (case prompt_at_tail lossy s ps of Some p \<Rightarrow> pt_kind p = Ignore | None \<Rightarrow> \<forall>ms. silence_ms s (ob_now_ms obs) = Some ms \<longrightarrow> ms \<le> 2000)"
| "warranted lossy s ps obs (Console_Booting g) \<longleftrightarrow>
     prompt_at_tail lossy s ps = None \<and> g \<noteq> ''unknown'' \<and> (\<forall>ms. silence_ms s (ob_now_ms obs) = Some ms \<longrightarrow> ms < ob_hung_after_ms obs)"
| "warranted lossy s ps obs (Console_BootLooping k n fp) \<longleftrightarrow>
     prompt_at_tail lossy s ps = None \<and> ob_loop_min_epochs obs \<le> n \<and>
     take n (List.map_filter ep_fingerprint (filter is_boot_attempt (list_boots s (max (ob_loop_min_epochs obs) 3 * 4)))) = replicate n fp"
| "warranted lossy s ps obs (Console_Unstable n) \<longleftrightarrow>
     prompt_at_tail lossy s ps = None \<and> 2 < n \<and>
     n = card (set (List.map_filter ep_fingerprint (filter is_boot_attempt (list_boots s (max (ob_loop_min_epochs obs) 3 * 4))))) \<and>
     (\<forall>ms. silence_ms s (ob_now_ms obs) = Some ms \<longrightarrow> ob_hung_after_ms obs \<le> ms)"
| "warranted lossy s ps obs (Console_Actuating _ _ _) \<longleftrightarrow> False"

lemma run_replicate: "take (length (takeWhile (\<lambda>f. f = x) xs)) xs = replicate (length (takeWhile (\<lambda>f. f = x) xs)) x"
  by (induction xs) auto

lemma loop_state_warranted:
  assumes "loop_state G lossy s (list_boots s (max (ob_loop_min_epochs obs) 3 * 4)) obs = Some (Some st)" and "prompt_at_tail lossy s ps = None"
    and "\<And>ms. is_unstable st \<Longrightarrow> silence_ms s (ob_now_ms obs) = Some ms \<Longrightarrow> ob_hung_after_ms obs \<le> ms"
  shows "warranted lossy s ps obs st"
  using assms run_replicate [where xs = "List.map_filter ep_fingerprint (filter is_boot_attempt (list_boots s (max (ob_loop_min_epochs obs) 3 * 4)))"]
  by (auto simp: loop_state_def Let_def split: if_splits)

lemma steady_state_warranted:
  assumes "prompt_at_tail lossy s ps = None"
  shows "warranted lossy s ps obs (steady_state s tail stage (silence_ms s (ob_now_ms obs)) obs)"
  using assms by (cases "silence_ms s (ob_now_ms obs)") (auto simp: steady_state_def quiet_state_def Let_def TALKING_MS_def)

lemma prompt_state_warranted:
  assumes "prompt_at_tail lossy s ps = Some p" and "ob_active_txn obs = None" and "ob_capture obs \<notin> {Capture_NotListening, Capture_Garbage, Capture_AwayInEdl}"
  shows "warranted lossy s ps obs (prompt_state p stage (lines_since s (ob_now_ms obs - 60000)))"
  using assms by (cases "pt_kind p") (auto simp: prompt_state_def TRAFFIC_LINES_PER_MIN_def)

text \<open>C20. No state is claimed without its evidence: silence is only called \<open>no_signal\<close> on an attested
  port that never stored a line, a console is only commandable when a commandable prompt is at
  its tail, nobody else is typing and the port is neither garbled nor in EDL, \<open>hung\<close> needs
  the configured silence and no prompt, and a boot loop the required number of boots with the
  same fingerprint.\<close>

theorem console_state_has_evidence:
  assumes "derive G lossy s ps obs = Some st"
  shows "warranted lossy s ps obs st"
proof (cases "ob_active_txn obs")
  case None
  let ?boots = "list_boots s (max (ob_loop_min_epochs obs) 3 * 4)"
  let ?latest = "case ?boots of b # _ \<Rightarrow> Some b | [] \<Rightarrow> None"
  let ?silent = "silence_ms s (ob_now_ms obs)"
  have lines: "line_count s = 0 \<Longrightarrow> tb_raw_lines (ds_db s) = []" by (simp add: line_count_def)
  show ?thesis
  proof (cases "ob_capture obs \<in> {Capture_NotListening, Capture_Garbage, Capture_AwayInEdl}")
    case True
    with assms None lines show ?thesis by (auto simp: derive_def Let_def split: if_splits)
  next
    case up: False
    show ?thesis
    proof (cases "prompt_at_tail lossy s ps")
      case (Some p)
      with assms None up lines prompt_state_warranted [OF Some None up, of "stage_now s ?latest"] show ?thesis
        by (auto simp: derive_def Let_def split: if_splits)
    next
      case quiet: None
      note steady = steady_state_warranted [OF quiet, of obs "console_tail lossy s 8" "stage_now s ?latest"]
      let ?talking = "case ?silent of Some ms \<Rightarrow> ms < max (ob_hung_after_ms obs) TALKING_MS | None \<Rightarrow> False"
      consider "st = Console_NoSignal" "line_count s = 0"
        | l where "loop_state G lossy s ?boots obs = Some l"
          "st = (case l of Some st \<Rightarrow> if ?talking \<and> is_unstable st then steady_state s (console_tail lossy s 8) (stage_now s ?latest) ?silent obs else st
             | None \<Rightarrow> steady_state s (console_tail lossy s 8) (stage_now s ?latest) ?silent obs)"
        using assms None up quiet by (auto simp: derive_def Let_def split: if_splits)
      then show ?thesis
      proof cases
        case 1
        with up lines show ?thesis by simp
      next
        case (2 l)
        then show ?thesis
          using steady loop_state_warranted [OF _ quiet, of G obs st] by (cases l) (auto split: if_splits option.splits)
      qed
    qed
  qed
qed (use assms in \<open>auto simp: derive_def\<close>)

section \<open>Actuations\<close>

text \<open>Opening an epoch appends a row with the highest sequence number and no bytes.\<close>

lemma open_boot_rows:
  assumes "store_ok s" and "open_boot s opened_by label at1 se = (Inr row, s')"
  shows "\<exists>es. tb_boots (ds_db s') = es @ [row] \<and> ep_opened_by row = opened_by \<and> ep_opened_at row = at1 \<and> ep_bytes row = 0 \<and>
    (\<forall>e\<in>set es. ep_seq e < ep_seq row \<and> ep_id e < ep_id row) \<and> ep_id ` set es = boot_ids (ds_db s) \<and> sorted_wrt (<) (map ep_seq es) \<and> tb_pending_tail (ds_db s') = tb_pending_tail (ds_db s) \<and>
    tb_raw_lines (ds_db s') = tb_raw_lines (ds_db s)"
proof -
  let ?b = "plain_batch s"
  have ok: "batch_ok ?b" by (rule plain_batch_ok [OF assms(1)])
  have db: "ba_db ?b = ds_db s" by (simp add: plain_batch_def)
  obtain n b' where op: "open_boot_after ?b opened_by label at1 se None None True = Inr (n, b')" and s': "s' = finish_batch s b'" "boot s' n = Inr row"
    using assms(2) by (auto simp: open_boot_def open_boot_at_def in_batch_def begin_batch_ok [OF assms(1)] split: sum.splits prod.splits)
  obtain P where b': "b' = ?b\<lparr> ba_db := (ba_db ?b)\<lparr> tb_boots := close_boots P at1 (tb_boots (ba_db ?b)) @
       [boot_of n (next_seq (ba_db ?b)) opened_by label at1 se (ba_offset ?b)] \<rparr> \<rparr>"
    and n: "n = next_id (map ep_id (tb_boots (ba_db ?b)))"
    by (rule open_boot_after_eq [OF op]) simp
  let ?es = "close_boots P at1 (tb_boots (ds_db s))" and ?row = "boot_of n (next_seq (ds_db s)) opened_by label at1 se (ds_stream_offset s)"
  have boots: "tb_boots (ds_db s') = ?es @ [?row]"
    by (simp add: s' finish_batch_db Batch_commit_def b' plain_batch_def commit_boots_def)
  have seqs: "map ep_seq ?es = map ep_seq (tb_boots (ds_db s))" and ids: "map ep_id ?es = map ep_id (tb_boots (ds_db s))"
    by (simp_all add: close_boots_def update_where_def)
  have idset: "ep_id ` set ?es = boot_ids (ds_db s)" using arg_cong [OF ids, of set] by simp
  have lower: "ep_id e < n" if "e \<in> set ?es" for e
  proof -
    have "ep_id e \<in> boot_ids (ds_db s)" using that idset by (metis imageI)
    with next_id_fresh [of "ep_id e" "map ep_id (tb_boots (ds_db s))"] n db show ?thesis by simp
  qed
  have "find (\<lambda>e. ep_id e = n) (es @ [?row]) = Some ?row" if "\<forall>e\<in>set es. ep_id e < n" for es
    using that by (induction es) auto
  with lower boots s'(2) have "row = ?row" by (simp add: boot_def)
  moreover have "ep_seq e < next_seq (ds_db s)" if "e \<in> set ?es" for e
    using that next_seq_fresh seqs by (metis (no_types, lifting) image_eqI image_set imageE)
  moreover note lower idset
  moreover have "sorted_wrt (<) (map ep_seq ?es)" using seqs assms(1) by (simp add: store_ok_def tables_ok_def keys_ok_def)
  ultimately show ?thesis using boots
    by (intro exI [of _ ?es]) (simp add: boot_of_def s' finish_batch_db Batch_commit_def b' plain_batch_def)
qed

text \<open>An actuation makes the screen unknown: once a power, reset or flash epoch has been opened
  after the moment the unterminated line was seen, and the board has said nothing since, that
  line is no longer part of the console - a prompt from before the power cycle cannot be taken
  for one the board is sitting at.\<close>

theorem actuation_invalidates_partial:
  assumes "store_ok s" and "open_boot s opened_by label at1 se = (Inr row, s')" and "opened_by \<in> {''power'', ''reset'', ''flash''}"
    and "pending_tail s = Some (partial, seen_at)" and "seen_at < at1"
  shows "pending_partial s' = None \<and> tail_text lossy s' (Some (ep_id row)) n = []"
proof -
  obtain es where es: "tb_boots (ds_db s') = es @ [row]" "ep_opened_by row = opened_by" "ep_opened_at row = at1" "ep_bytes row = 0"
    "\<forall>e\<in>set es. ep_seq e < ep_seq row \<and> ep_id e < ep_id row" "sorted_wrt (<) (map ep_seq es)" "tb_pending_tail (ds_db s') = tb_pending_tail (ds_db s)"
    "ep_id ` set es = boot_ids (ds_db s)" "tb_raw_lines (ds_db s') = tb_raw_lines (ds_db s)"
    using open_boot_rows [OF assms(1,2)] by blast
  have "sorted_wrt (<) (map ep_seq (es @ [row]))" using es(5,6) by (auto simp: sorted_wrt_append)
  then have "list_boots s' BOOT_SCAN = take BOOT_SCAN (row # rev es)"
    using es(1) by (simp add: list_boots_def boots_by_seq_def order_by_strict)
  then have "row \<in> set (list_boots s' BOOT_SCAN)" by (simp add: BOOT_SCAN_def take_Cons')
  moreover have "moved_on s' seen_at row" using es(2,4) assms(3) by (auto simp: moved_on_def is_actuation_def)
  moreover have "pending_tail s' = Some (partial, seen_at)" using assms(4) es(7) by (simp add: pending_tail_def)
  ultimately have part: "pending_partial s' = None" using es(3) assms(5) by (auto simp: pending_partial_def list_ex_iff)
  have "i < ep_id row" if "l \<in> set (tb_raw_lines (ds_db s'))" "lr_boot_id l = Some i" for l i
  proof -
    have "refs_ok (ds_db s)" using assms(1) by (simp add: store_ok_def tables_ok_def)
    then have "i \<in> ep_id ` set es" using line_boot_known [of "ds_db s" l i] that es(8,9) by simp
    then show ?thesis using es(5) by blast
  qed
  then have "filter (\<lambda>l. case lr_boot_id l of Some b \<Rightarrow> b \<ge> ep_id row | None \<Rightarrow> False) (tb_raw_lines (ds_db s')) = []"
    by (auto simp: filter_empty_conv not_le split: option.split)
  then have "tail_since_boot s' (ep_id row) n = []" by (simp add: tail_since_boot_def lines_by_id_def order_by_def)
  with part show ?thesis by (simp add: tail_text_def strip_ansi_def)
qed

section \<open>Witnesses\<close>

definition sample_obs :: Observation where
  "sample_obs = \<lparr> ob_capture = Capture_Listening, ob_now_ms = 60000, ob_hung_after_ms = 30000, ob_loop_min_epochs = 3, ob_active_txn = None \<rparr>"

text \<open>Witness: a port that is listened to and never said anything.\<close>

theorem console_state_has_evidence_witness:
  "\<forall>G lossy. derive G lossy sample_store [] sample_obs = Some Console_NoSignal \<and> warranted lossy sample_store [] sample_obs Console_NoSignal"
proof (intro allI)
  fix G lossy
  have "derive G lossy sample_store [] sample_obs = Some Console_NoSignal"
    by (simp add: derive_def sample_obs_def list_boots_def boots_by_seq_def order_by_def line_count_def sample_store_fields Let_def)
  with console_state_has_evidence [OF this]
  show "derive G lossy sample_store [] sample_obs = Some Console_NoSignal \<and> warranted lossy sample_store [] sample_obs Console_NoSignal" by simp
qed

text \<open>Witness: a shell prompt seen at 5, the power cycled at 10.\<close>

theorem actuation_invalidates_partial_witness:
  "\<exists>row s'. open_boot (set_pending_tail sample_store ''# '' 5) ''power'' None 10 None = (Inr row, s') \<and> pending_partial s' = None"
proof -
  let ?s = "set_pending_tail sample_store ''# '' 5"
  have ok: "store_ok ?s" using sample_store_ok by simp
  have p: "pending_tail ?s = Some (''# '', 5)" by (simp add: pending_tail_def set_pending_tail_def Let_def)
  obtain row s' where o: "open_boot ?s ''power'' None 10 None = (Inr row, s')"
    using open_boot_advances [OF ok, of "''power''" None None 10] by (auto simp: OPENED_BY_def opt_all_def)
  from actuation_invalidates_partial [OF ok o _ p] o show ?thesis by auto
qed

section \<open>Where it goes wrong\<close>

text \<open>Only the unterminated line is given up at an actuation: a prompt that was stored as a line before
  the power cycle is still found at the tail of the console.\<close>

lemma stored_prompt_survives_power_cycle:
  assumes "store_ok s" and "open_boot s ''power'' label at1 se = (Inr row, s')" and "pending_tail s = None"
  shows "prompt_at_tail lossy s' ps = prompt_at_tail lossy s ps"
proof -
  have "tb_raw_lines (ds_db s') = tb_raw_lines (ds_db s)" "tb_pending_tail (ds_db s') = tb_pending_tail (ds_db s)"
    using open_boot_rows [OF assms(1,2)] by auto
  moreover from this have "pending_tail s' = None" using assms(3) by (simp add: pending_tail_def)
  ultimately have "tail_text lossy s' None n = tail_text lossy s None n" for n
    using assms(3) by (simp add: tail_text_def pending_partial_def recent_lines_def lines_by_id_def)
  then show ?thesis by (simp only: prompt_at_tail_def prompt_at_tail_in_boot_def)
qed

text \<open>With a configured minimum of no epochs a console without fingerprints panics.\<close>

lemma loop_minimum_zero_panics: "ob_loop_min_epochs obs = 0 \<Longrightarrow> loop_state G lossy s [] obs = None"
  by (simp add: loop_state_def)

text \<open>The running boot has no fingerprint yet; it is judged in place of the oldest boot of the run.\<close>

lemma loop_judged_on_other_boots:
  assumes "list_all is_boot_attempt (b # bs)" and "ep_fingerprint b = None" and "list_all (\<lambda>x. ep_fingerprint x = Some fp) bs"
    and "ob_loop_min_epochs obs \<le> length bs" and "bs \<noteq> []"
  shows "loop_state G lossy s (b # bs) obs = Some (Some (Console_BootLooping (loop_kind G lossy s 1 (b # butlast bs)) (length bs) fp))"
proof -
  have att: "filter is_boot_attempt (b # bs) = b # bs" using assms(1) by (simp add: list_all_iff filter_id_conv)
  have fps: "List.map_filter ep_fingerprint (b # bs) = replicate (length bs) fp"
    using assms(2,3) by (induction bs) (auto simp: map_filter_def)
  have "takeWhile (\<lambda>f. f = fp) (replicate n fp) = replicate n fp" for n by (induction n) simp_all
  moreover have "hd (replicate (length bs) fp) = fp" "set (replicate (length bs) fp) = {fp}" "replicate (length bs) fp \<noteq> []"
    using assms(5) by (simp_all add: set_replicate_conv_if)
  moreover have "take (length bs) (b # bs) = b # butlast bs" using assms(5) by (cases bs rule: rev_cases) simp_all
  ultimately show ?thesis using assms(4) unfolding loop_state_def att Let_def fps by simp
qed

end
