(* ===== verification/Ingest.thy ===== *)
theory Ingest
  imports Pipeline_Session Store_Retention Codec
begin

text \<open>
  Post-hoc ingestion (\<^verbatim>\<open>crates/conminer-core/src/ingest.rs\<close>): a file or any reader is fed block by
  block through the pipeline; an archive header is stripped, a wrapper is decided on the first
  block and removed from every block, the cap is checked after every read, and the content
  digest finds duplicates. The reader is the sequence of its reads, each with the clock values
  of the feed it leads to; the file system, the decompressor and the JSON parser are arguments.
  The times of the report are left out.
\<close>

section \<open>Counts over the store\<close>

record Stats =
  st_sessions :: nat
  st_lines :: nat
  st_records :: nat
  st_templates :: nat
  st_bytes :: nat
  st_compression_ratio :: rat
  st_fragmentation_ratio :: rat
  st_stream_offset :: nat
  st_pruned_before_offset :: nat
  st_db_bytes :: int

definition of_session :: "int option \<Rightarrow> int \<Rightarrow> bool" where
  "of_session session_id i \<longleftrightarrow> (case session_id of None \<Rightarrow> True | Some s \<Rightarrow> i = s)"

text \<open>\<^verbatim>\<open>stats\<close>; the size of the database file is the engine's.\<close>

definition stats :: "DeviceStore \<Rightarrow> int \<Rightarrow> int option \<Rightarrow> Stats" where
  "stats s db_bytes session_id =
     (let db = ds_db s;
          ls = filter (\<lambda>l. of_session session_id (lr_session_id l)) (tb_raw_lines db);
          templates = (case session_id of
              Some i \<Rightarrow> card (set (map oc_template_id (filter (\<lambda>o1. oc_session_id o1 = i) (tb_occurrences db))))
            | None \<Rightarrow> length (tb_templates db))
      in \<lparr> st_sessions = length (tb_sessions db), st_lines = length ls,
           st_records = length (filter (\<lambda>r. of_session session_id (rr_session_id r)) (tb_records db)),
           st_templates = templates, st_bytes = sum_list (map (\<lambda>l. length (lr_bytes l)) ls),
           st_compression_ratio = (if templates > 0 then of_nat (length ls) / of_nat templates else 0),
           st_fragmentation_ratio = fragmentation_ratio (load_drain s DrainConfig_default TokenizerRules_default),
           st_stream_offset = ds_stream_offset s, st_pruned_before_offset = ds_pruned_before s,
           st_db_bytes = db_bytes \<rparr>)"

section \<open>Options and report\<close>

definition BLOCK :: nat where
  "BLOCK = 2 ^ 20"

datatype FileCodec = Plain | Gzip

fun FileCodec_as_str :: "FileCodec \<Rightarrow> string" where
  "FileCodec_as_str Plain = ''plain''"
| "FileCodec_as_str Gzip = ''gzip''"

record IngestOptions =
  io_label :: "string option"
  io_gzip :: "string option"
  io_max_bytes :: "nat option"
  io_source :: SessionSource

definition IngestOptions_default :: IngestOptions where
  "IngestOptions_default = \<lparr> io_label = None, io_gzip = Some ''auto'', io_max_bytes = None, io_source = File_source \<rparr>"

text \<open>\<^verbatim>\<open>from_config\<close>; the conversion of a float to \<^verbatim>\<open>u64\<close> truncates and clamps below at 0.\<close>

definition IngestOptions_from_config :: "string \<Rightarrow> rat \<Rightarrow> IngestOptions" where
  "IngestOptions_from_config gzip max_gb =
     \<lparr> io_label = None, io_gzip = Some gzip, io_max_bytes = Some (nat (min (\<lfloor>max_gb * 1024 * 1024 * 1024\<rfloor>) (2 ^ 64 - 1))), io_source = File_source \<rparr>"

record IngestReport =
  ir_session_id :: int
  ir_bytes :: nat
  ir_lines :: nat
  ir_records :: nat
  ir_templates :: nat
  ir_new_templates :: nat
  ir_stage_transitions :: "string list"
  ir_boots :: nat
  ir_crash_records :: nat
  ir_garbage_lines :: nat
  ir_codec :: FileCodec
  ir_wrapper :: Wrapper
  ir_content_sha :: string
  ir_duplicate_of :: "int option"
  ir_exported_from :: "json option"
  ir_compression_ratio :: rat

section \<open>Reading\<close>

text \<open>One call of \<^verbatim>\<open>read\<close>: the bytes, with the clock of the feed that follows, or a failure.\<close>

datatype Read = Read int int "byte list" | ReadFailed

record IngestState =
  in_pipe :: Pipeline
  in_hashed :: "byte list"
  in_totals :: FeedOutcome
  in_cap_used :: nat
  in_header_checked :: bool
  in_exported_from :: "json option"
  in_wrapper :: "Wrapper option"

record IngestEnv =
  ie_pipe :: PipeEnv
  ie_from_json :: "string \<Rightarrow> json option"

definition begins_with :: "byte list \<Rightarrow> byte list \<Rightarrow> bool" where
  "begins_with m bs \<longleftrightarrow> take (length m) bs = m"

text \<open>The archive header of the first block: recorded and cut off, when its line ends in the block.\<close>

definition strip_header :: "IngestEnv \<Rightarrow> IngestState \<Rightarrow> byte list \<Rightarrow> byte list \<times> IngestState" where
  "strip_header E st blk =
     (if in_header_checked st then (blk, st)
      else
        let st = st\<lparr> in_header_checked := True \<rparr>
        in if begins_with (as_bytes EXPORT_MAGIC) blk \<and> 10 \<in> set blk
           then
             let line = env_lossy (ie_pipe E) (takeWhile (\<lambda>b. b \<noteq> 10) blk);
                 js = (case split_once (CHR '' '') line of Some (_, j) \<Rightarrow> j | None \<Rightarrow> ''{}'')
             in (tl (dropWhile (\<lambda>b. b \<noteq> 10) blk), st\<lparr> in_exported_from := ie_from_json E js \<rparr>)
           else (blk, st))"

text \<open>\<^verbatim>\<open>merge\<close> of the totals.\<close>

definition merge_totals :: "FeedOutcome \<Rightarrow> FeedOutcome \<Rightarrow> FeedOutcome" where
  "merge_totals a b = a\<lparr> fo_bytes := fo_bytes a + fo_bytes b, fo_lines := fo_lines a + fo_lines b,
     fo_records := fo_records a + fo_records b, fo_new_templates := fo_new_templates a @ fo_new_templates b,
     fo_stage_transitions := fo_stage_transitions a @ fo_stage_transitions b,
     fo_boots_opened := fo_boots_opened a @ fo_boots_opened b, fo_crash_records := fo_crash_records a @ fo_crash_records b,
     fo_garbage_lines := fo_garbage_lines a + fo_garbage_lines b \<rparr>"

text \<open>The wrapper is decided once; a block without one is passed on as it is.\<close>

definition wrapper_for :: "IngestEnv \<Rightarrow> Wrapper option \<Rightarrow> byte list \<Rightarrow> Wrapper" where
  "wrapper_for E wrapper blk = (case wrapper of Some w \<Rightarrow> w | None \<Rightarrow> detect (env_lossy (ie_pipe E)) blk)"

definition block_payload :: "IngestEnv \<Rightarrow> Wrapper \<Rightarrow> byte list \<Rightarrow> byte list res" where
  "block_payload E wrapper blk =
     (if wrapper = NoWrapper then Inr blk else unwrap_all (env_lossy (ie_pipe E)) blk wrapper)"

definition over_cap :: "nat option \<Rightarrow> nat \<Rightarrow> bool" where
  "over_cap max_bytes used \<longleftrightarrow> (case max_bytes of Some cap \<Rightarrow> used > cap | None \<Rightarrow> False)"

text \<open>The body of the loop after a read of at least one byte.\<close>

definition ingest_block :: "IngestEnv \<Rightarrow> nat option \<Rightarrow> IngestState \<Rightarrow> int \<Rightarrow> int \<Rightarrow> byte list \<Rightarrow> unit res \<times> IngestState" where
  "ingest_block E max_bytes st now ns buf =
     (let (blk, st) = strip_header E st buf;
          st = st\<lparr> in_hashed := in_hashed st @ blk, in_cap_used := in_cap_used st + length buf \<rparr>;
          wrapper = wrapper_for E (in_wrapper st) blk;
          st = st\<lparr> in_wrapper := Some wrapper \<rparr>
      in if over_cap max_bytes (in_cap_used st) then (Inl IngestTooLarge, st)
         else case block_payload E wrapper blk of
                Inl e \<Rightarrow> (Inl e, st)
              | Inr payload \<Rightarrow>
                  let (r, p) = feed (ie_pipe E) (in_pipe st) now ns payload;
                      st = st\<lparr> in_pipe := p \<rparr>
                  in case r of Inl e \<Rightarrow> (Inl e, st)
                       | Inr out \<Rightarrow> (Inr (), st\<lparr> in_totals := merge_totals (in_totals st) out \<rparr>))"

fun ingest_loop :: "IngestEnv \<Rightarrow> nat option \<Rightarrow> IngestState \<Rightarrow> Read list \<Rightarrow> unit res \<times> IngestState" where
  "ingest_loop E max_bytes st [] = (Inr (), st)"
| "ingest_loop E max_bytes st (ReadFailed # rs) = (Inl IngestFailed, st)"
| "ingest_loop E max_bytes st (Read now ns buf # rs) =
     (if buf = [] then (Inr (), st)
      else case ingest_block E max_bytes st now ns buf of
             (Inl e, st) \<Rightarrow> (Inl e, st)
           | (Inr _, st) \<Rightarrow> ingest_loop E max_bytes st rs)"

text \<open>What follows the loop: finish, digest, duplicates, report.\<close>

definition ingest_finish :: "IngestEnv \<Rightarrow> FileCodec \<Rightarrow> int \<Rightarrow> IngestState \<Rightarrow> int \<Rightarrow> int \<Rightarrow> IngestReport res \<times> Pipeline" where
  "ingest_finish E codec session_id st now ns =
     (let (r, p) = Pipeline_finish (ie_pipe E) (in_pipe st) now ns
      in case r of
           Inl e \<Rightarrow> (Inl e, p)
         | Inr out \<Rightarrow>
             let totals = merge_totals (in_totals st) out;
                 sha = hex_encode (env_sha256 (ie_pipe E) (in_hashed st));
                 dup = (case session_with_sha (pl_store p) sha of
                          Some s \<Rightarrow> if se_id s \<noteq> session_id then Some (se_id s) else None
                        | None \<Rightarrow> None);
                 p = p\<lparr> pl_store := set_session_content_sha (pl_store p) session_id sha \<rparr>;
                 sts = stats (pl_store p) 0 (Some session_id)
             in (Inr \<lparr> ir_session_id = session_id, ir_bytes = fo_bytes totals, ir_lines = fo_lines totals, ir_records = fo_records totals,
                       ir_templates = st_templates sts, ir_new_templates = length (fo_new_templates totals),
                       ir_stage_transitions = fo_stage_transitions totals, ir_boots = length (fo_boots_opened totals) + 1,
                       ir_crash_records = length (fo_crash_records totals), ir_garbage_lines = fo_garbage_lines totals,
                       ir_codec = codec, ir_wrapper = (case in_wrapper st of Some w \<Rightarrow> w | None \<Rightarrow> NoWrapper),
                       ir_content_sha = sha, ir_duplicate_of = dup, ir_exported_from = in_exported_from st,
                       ir_compression_ratio = st_compression_ratio sts \<rparr>, p))"

definition ingest_start :: "Pipeline \<Rightarrow> IngestState" where
  "ingest_start p =
     \<lparr> in_pipe = p, in_hashed = [], in_totals = FeedOutcome_default, in_cap_used = 0, in_header_checked = False,
       in_exported_from = None, in_wrapper = None \<rparr>"

definition ingest_reader ::
    "IngestEnv \<Rightarrow> Pipeline \<Rightarrow> int \<Rightarrow> Read list \<Rightarrow> FileCodec \<Rightarrow> IngestOptions \<Rightarrow> string option \<Rightarrow> int \<Rightarrow> int \<Rightarrow>
     IngestReport res \<times> Pipeline" where
  "ingest_reader E p now reads codec opts path end_now end_ns =
     (case Pipeline_begin_session p now (io_source opts) (io_label opts) None path of
        (Inl e, p) \<Rightarrow> (Inl e, p)
      | (Inr session_id, p) \<Rightarrow>
          (case ingest_loop E (io_max_bytes opts) (ingest_start p) reads of
             (Inl e, st) \<Rightarrow> (Inl e, in_pipe st)
           | (Inr _, st) \<Rightarrow> ingest_finish E codec session_id st end_now end_ns))"

section \<open>Files\<close>

record FileView =
  fv_metadata :: "IoErrorKind + bool \<times> nat"  \<comment> \<open>is it a directory, and its length\<close>
  fv_open :: "IoErrorKind + unit"
  fv_magic :: "IoErrorKind + byte list"  \<comment> \<open>what a read of two bytes returns\<close>
  fv_reads :: "Read list"
  fv_gunzip :: "Read list"  \<comment> \<open>the reads of the decompressor on top of the file\<close>

definition metadata_error :: "IoErrorKind \<Rightarrow> ErrorCode" where
  "metadata_error k = (case k of NotFound \<Rightarrow> NoSuchPath | Io_PermissionDenied \<Rightarrow> PermissionDenied | _ \<Rightarrow> te_code (from_io k []))"

definition detect_codec :: "FileView \<Rightarrow> IngestOptions \<Rightarrow> FileCodec res" where
  "detect_codec f opts =
     (let mode = (case io_gzip opts of Some g \<Rightarrow> g | None \<Rightarrow> ''auto'')
      in if mode = ''on'' then Inr Gzip
         else if mode = ''off'' then Inr Plain
         else if mode \<noteq> ''auto'' then Inl InvalidArgument
         else case fv_open f of
                Inl k \<Rightarrow> Inl (te_code (from_io k []))
              | Inr _ \<Rightarrow> (case fv_magic f of
                    Inl k \<Rightarrow> Inl (te_code (from_io k []))
                  | Inr m \<Rightarrow> Inr (if m = [0x1f, 0x8b] then Gzip else Plain)))"

definition ingest_file ::
    "IngestEnv \<Rightarrow> Pipeline \<Rightarrow> int \<Rightarrow> FileView \<Rightarrow> string \<Rightarrow> IngestOptions \<Rightarrow> int \<Rightarrow> int \<Rightarrow> IngestReport res \<times> Pipeline" where
  "ingest_file E p now f path opts end_now end_ns =
     (case fv_metadata f of
        Inl k \<Rightarrow> (Inl (metadata_error k), p)
      | Inr (is_dir, len) \<Rightarrow>
          if is_dir then (Inl NoSuchPath, p)
          else if over_cap (io_max_bytes opts) len then (Inl IngestTooLarge, p)
          else case fv_open f of
                 Inl k \<Rightarrow> (Inl (te_code (from_io k [])), p)
               | Inr _ \<Rightarrow> (case detect_codec f opts of
                     Inl e \<Rightarrow> (Inl e, p)
                   | Inr codec \<Rightarrow>
                       ingest_reader E p now (case codec of Plain \<Rightarrow> fv_reads f | Gzip \<Rightarrow> fv_gunzip f) codec opts (Some path)
                         end_now end_ns))"

section \<open>What an ingest stores\<close>

text \<open>The content of a stream of blocks: the archive header of the first one is not part of it.\<close>

definition archive_body :: "byte list \<Rightarrow> byte list" where
  "archive_body b =
     (if begins_with (as_bytes EXPORT_MAGIC) b \<and> 10 \<in> set b then tl (dropWhile (\<lambda>x. x \<noteq> 10) b) else b)"

fun contents :: "byte list list \<Rightarrow> byte list list" where
  "contents [] = []"
| "contents (b # bs) = archive_body b # bs"

definition wrapper_of :: "IngestEnv \<Rightarrow> byte list list \<Rightarrow> Wrapper" where
  "wrapper_of E bs = (case contents bs of [] \<Rightarrow> NoWrapper | c # _ \<Rightarrow> detect (env_lossy (ie_pipe E)) c)"

definition read_of :: "int \<times> int \<times> byte list \<Rightarrow> Read" where
  "read_of x = (case x of (now, ns, b) \<Rightarrow> Read now ns b)"

definition block_of :: "int \<times> int \<times> byte list \<Rightarrow> byte list" where
  "block_of x = snd (snd x)"

lemma read_simps [simp]: "read_of (now, ns, b) = Read now ns b" "block_of (now, ns, b) = b"
  by (simp_all add: read_of_def block_of_def)

lemma payload_plain: "block_payload E NoWrapper b = Inr b"
  by (simp add: block_payload_def)

lemma strip_header_eq:
  "fst (strip_header E st b) = (if in_header_checked st then b else archive_body b)"
  "in_header_checked (snd (strip_header E st b))"
  "in_pipe (snd (strip_header E st b)) = in_pipe st" "in_hashed (snd (strip_header E st b)) = in_hashed st"
  "in_cap_used (snd (strip_header E st b)) = in_cap_used st" "in_wrapper (snd (strip_header E st b)) = in_wrapper st"
  "in_header_checked st \<Longrightarrow> snd (strip_header E st b) = st"
  by (simp_all add: strip_header_def archive_body_def Let_def)

lemma ingest_block_ok:
  assumes p: "pipe_ok (in_pipe st) P" and cap: "\<not> over_cap m (in_cap_used st + length b)"
    and q: "block_payload E (wrapper_for E (in_wrapper st) (fst (strip_header E st b))) (fst (strip_header E st b)) = Inr q"
  shows "\<exists>st' P' new ids xs. ingest_block E m st now ns b = (Inr (), st') \<and> good_step (in_pipe st) P (in_pipe st') P' new ids xs \<and>
    new @ consumed_stream (pl_splitter (in_pipe st')) = consumed_stream (pl_splitter (in_pipe st)) @ q \<and>
    in_hashed st' = in_hashed st @ fst (strip_header E st b) \<and> in_cap_used st' = in_cap_used st + length b \<and>
    in_wrapper st' = Some (wrapper_for E (in_wrapper st) (fst (strip_header E st b))) \<and> in_header_checked st' \<and>
    in_exported_from st' = in_exported_from (snd (strip_header E st b))"
proof -
  obtain c st1 where s: "strip_header E st b = (c, st1)" by fastforce
  note h = strip_header_eq [where E = E and st = st and b = b, unfolded s, simplified]
  from feed_ok [OF p, of "ie_pipe E" now ns q] obtain out p' P' new ids xs where
    f: "feed (ie_pipe E) (in_pipe st) now ns q = (Inr out, p')" "good_step (in_pipe st) P p' P' new ids xs"
       "new @ consumed_stream (pl_splitter p') = consumed_stream (pl_splitter (in_pipe st)) @ q" by blast
  define w where "w = wrapper_for E (in_wrapper st) c"
  have c: "\<not> over_cap m (in_cap_used st1 + length b)" "block_payload E w c = Inr q" using cap q h(5) by (simp_all add: s w_def)
  define st2 where "st2 = st1\<lparr> in_hashed := in_hashed st1 @ c, in_cap_used := in_cap_used st1 + length b, in_wrapper := Some w,
     in_pipe := p', in_totals := merge_totals (in_totals st1) out \<rparr>"
  have "ingest_block E m st now ns b = (Inr (), st2)"
    using f(1) h(2-6) c by (simp add: ingest_block_def s st2_def Let_def flip: w_def)
  then show ?thesis using f(2,3) h
    by (intro exI [of _ st2] exI [of _ P'] exI [of _ new] exI [of _ ids] exI [of _ xs]) (simp add: st2_def s w_def)
qed

text \<open>Once the wrapper is known every block adds its unwrapped bytes.\<close>

lemma ingest_loop_ok:
  assumes "pipe_ok (in_pipe st) P" and "in_header_checked st" and "in_wrapper st = Some w"
    and "\<not> over_cap m (in_cap_used st + length (concat (map block_of bs)))"
    and "\<And>x. x \<in> set bs \<Longrightarrow> block_of x \<noteq> [] \<and> block_payload E w (block_of x) = Inr (q (block_of x))"
  shows "\<exists>st' P' new ids xs. ingest_loop E m st (map read_of bs) = (Inr (), st') \<and> good_step (in_pipe st) P (in_pipe st') P' new ids xs \<and>
    new @ consumed_stream (pl_splitter (in_pipe st')) = consumed_stream (pl_splitter (in_pipe st)) @ concat (map (\<lambda>x. q (block_of x)) bs) \<and>
    in_hashed st' = in_hashed st @ concat (map block_of bs) \<and> in_wrapper st' = Some w \<and> in_exported_from st' = in_exported_from st"
  using assms
proof (induction bs arbitrary: st P)
  case Nil
  then show ?case using good_step_refl by fastforce
next
  case (Cons x bs)
  obtain now ns b where x: "x = (now, ns, b)" by (cases x) auto
  have b: "b \<noteq> []" "block_payload E w b = Inr (q b)" using Cons.prems(5) [of x] by (simp_all add: x)
  have st: "wrapper_for E (in_wrapper st) (fst (strip_header E st b)) = w" "fst (strip_header E st b) = b" "snd (strip_header E st b) = st"
    using Cons.prems(2,3) by (simp_all add: wrapper_for_def strip_header_eq)
  have cap: "\<not> over_cap m (in_cap_used st + length b)"
    using Cons.prems(4) by (auto simp: over_cap_def x split: option.splits)
  from ingest_block_ok [OF Cons.prems(1) cap, of E "q b" now ns] b(2) st obtain st1 P1 new ids xs where
    s1: "ingest_block E m st now ns b = (Inr (), st1)" "good_step (in_pipe st) P (in_pipe st1) P1 new ids xs"
      "new @ consumed_stream (pl_splitter (in_pipe st1)) = consumed_stream (pl_splitter (in_pipe st)) @ q b"
      "in_hashed st1 = in_hashed st @ b" "in_cap_used st1 = in_cap_used st + length b" "in_wrapper st1 = Some w"
      "in_header_checked st1" "in_exported_from st1 = in_exported_from st" by auto
  have p1: "pipe_ok (in_pipe st1) P1" using s1(2) by (simp add: good_step_def)
  have "\<not> over_cap m (in_cap_used st1 + length (concat (map block_of bs)))"
    using Cons.prems(4) s1(5) by (simp add: x add.assoc)
  from Cons.IH [OF p1 s1(7) s1(6) this] Cons.prems(5) obtain st2 P2 new' ids' ys where
    s2: "ingest_loop E m st1 (map read_of bs) = (Inr (), st2)" "good_step (in_pipe st1) P1 (in_pipe st2) P2 new' ids' ys"
      "new' @ consumed_stream (pl_splitter (in_pipe st2)) = consumed_stream (pl_splitter (in_pipe st1)) @ concat (map (\<lambda>x. q (block_of x)) bs)"
      "in_hashed st2 = in_hashed st1 @ concat (map block_of bs)" "in_wrapper st2 = Some w" "in_exported_from st2 = in_exported_from st1"
    by auto
  have "(new @ new') @ consumed_stream (pl_splitter (in_pipe st2)) =
      consumed_stream (pl_splitter (in_pipe st)) @ concat (map (\<lambda>x. q (block_of x)) (x # bs))"
    using s1(3) s2(3) append_assoc [of new "consumed_stream (pl_splitter (in_pipe st1))"] by (simp add: x)
  moreover have "ingest_loop E m st (map read_of (x # bs)) = (Inr (), st2)"
    using b(1) s1(1) s2(1) by (simp add: x)
  ultimately show ?case using good_step_trans [OF s1(2) s2(2)] s1(4,8) s2(4-6)
    by (intro exI [of _ st2] exI [of _ P2] exI [of _ "new @ new'"] exI [of _ "ids @ ids'"] exI [of _ "xs @ ys"]) (simp add: x)
qed

text \<open>A whole ingest, from the first block on.\<close>

lemma ingest_blocks_ok:
  assumes p: "pipe_ok p P" and bs: "list_all (\<lambda>b. b \<noteq> []) (map block_of bs)"
    and cap: "\<not> over_cap m (length (concat (map block_of bs)))"
    and q: "\<And>c. c \<in> set (contents (map block_of bs)) \<Longrightarrow> block_payload E (wrapper_of E (map block_of bs)) c = Inr (q c)"
  shows "\<exists>st' P' new ids xs. ingest_loop E m (ingest_start p) (map read_of bs) = (Inr (), st') \<and> good_step p P (in_pipe st') P' new ids xs \<and>
    new @ consumed_stream (pl_splitter (in_pipe st')) = consumed_stream (pl_splitter p) @ concat (map q (contents (map block_of bs))) \<and>
    in_hashed st' = concat (contents (map block_of bs)) \<and>
    (case in_wrapper st' of Some w \<Rightarrow> w | None \<Rightarrow> NoWrapper) = wrapper_of E (map block_of bs)"
proof (cases bs)
  case Nil
  then show ?thesis using good_step_refl [OF p] by (fastforce simp: ingest_start_def wrapper_of_def)
next
  case (Cons x xs1)
  obtain now ns b where x: "x = (now, ns, b)" by (cases x) auto
  have bl: "map block_of bs = b # map block_of xs1" by (simp add: Cons x)
  let ?w = "wrapper_of E (map block_of bs)"
  have w: "wrapper_for E (in_wrapper (ingest_start p)) (archive_body b) = ?w" "fst (strip_header E (ingest_start p) b) = archive_body b"
    by (simp_all add: wrapper_for_def wrapper_of_def bl strip_header_eq ingest_start_def)
  have c1: "\<not> over_cap m (in_cap_used (ingest_start p) + length b)"
    using cap by (auto simp: over_cap_def bl ingest_start_def split: option.splits)
  have "pipe_ok (in_pipe (ingest_start p)) P" using p by (simp add: ingest_start_def)
  from ingest_block_ok [OF this c1, of E "q (archive_body b)" now ns] q [of "archive_body b"] w obtain st1 P1 new ids ys where
    s1: "ingest_block E m (ingest_start p) now ns b = (Inr (), st1)" "good_step p P (in_pipe st1) P1 new ids ys"
      "new @ consumed_stream (pl_splitter (in_pipe st1)) = consumed_stream (pl_splitter p) @ q (archive_body b)"
      "in_hashed st1 = archive_body b" "in_cap_used st1 = length b" "in_wrapper st1 = Some ?w" "in_header_checked st1"
    by (auto simp: bl ingest_start_def)
  have p1: "pipe_ok (in_pipe st1) P1" using s1(2) by (simp add: good_step_def)
  have c2: "\<not> over_cap m (in_cap_used st1 + length (concat (map block_of xs1)))" using cap by (simp add: bl s1(5))
  have q2: "block_of x \<noteq> [] \<and> block_payload E ?w (block_of x) = Inr (q (block_of x))" if "x \<in> set xs1" for x
    using that bs q [of "block_of x"] by (auto simp: bl list_all_iff)
  from ingest_loop_ok [OF p1 s1(7,6) c2 q2] obtain st2 P2 new' ids' zs where
    s2: "ingest_loop E m st1 (map read_of xs1) = (Inr (), st2)" "good_step (in_pipe st1) P1 (in_pipe st2) P2 new' ids' zs"
      "new' @ consumed_stream (pl_splitter (in_pipe st2)) = consumed_stream (pl_splitter (in_pipe st1)) @ concat (map (\<lambda>x. q (block_of x)) xs1)"
      "in_hashed st2 = in_hashed st1 @ concat (map block_of xs1)" "in_wrapper st2 = Some ?w" by auto
  have "(new @ new') @ consumed_stream (pl_splitter (in_pipe st2)) = consumed_stream (pl_splitter p) @ concat (map q (contents (map block_of bs)))"
    using s1(3) s2(3) append_assoc [of new "consumed_stream (pl_splitter (in_pipe st1))"] by (simp add: bl comp_def)
  moreover have "ingest_loop E m (ingest_start p) (map read_of bs) = (Inr (), st2)"
    using bs s1(1) s2(1) by (simp add: Cons x)
  ultimately show ?thesis using good_step_trans [OF s1(2) s2(2)] s1(4) s2(4,5)
    by (intro exI [of _ st2] exI [of _ P2] exI [of _ "new @ new'"] exI [of _ "ids @ ids'"] exI [of _ "ys @ zs"]) (simp add: bl)
qed

lemma set_sha_ok:
  assumes "store_ok s"
  shows "store_ok (set_session_content_sha s i sha) \<and> advances s (set_session_content_sha s i sha) [] [] []"
proof -
  let ?ss = "update_where (\<lambda>r. se_id r = i) (\<lambda>r. r\<lparr> se_content_sha := Some sha \<rparr>) (tb_sessions (ds_db s))"
  have ids: "map se_id ?ss = map se_id (tb_sessions (ds_db s))" "se_id ` set ?ss = session_ids (ds_db s)"
    by (rule map_update_where image_update_where; simp)+
  then show ?thesis using store_ok_sessions [OF assms, of ?ss] assms
    by (simp add: set_session_content_sha_def Let_def store_ok_def tables_ok_def keys_ok_def)
qed

text \<open>The report of an ingest names the digest and the wrapper, and a duplicate is another session
  that carries the same digest.\<close>

lemma ingest_reader_ok:
  assumes p: "idle_ok p" and bs: "list_all (\<lambda>b. b \<noteq> []) (map block_of bs)"
    and cap: "\<not> over_cap (io_max_bytes opts) (length (concat (map block_of bs)))"
    and q: "\<And>c. c \<in> set (contents (map block_of bs)) \<Longrightarrow> block_payload E (wrapper_of E (map block_of bs)) c = Inr (q c)"
  shows "\<exists>rep p'. ingest_reader E p now (map read_of bs) codec opts path end_now end_ns = (Inr rep, p') \<and> store_ok (pl_store p') \<and>
    stored_stream (ds_db (pl_store p')) = stored_stream (ds_db (pl_store p)) @ concat (map q (contents (map block_of bs))) \<and>
    ir_wrapper rep = wrapper_of E (map block_of bs) \<and>
    ir_content_sha rep = hex_encode (env_sha256 (ie_pipe E) (concat (contents (map block_of bs)))) \<and>
    (\<forall>e. surplus (ds_db (pl_store p')) e = surplus (ds_db (pl_store p)) e)"
proof -
  from begin_session_ok [OF p, of now "io_source opts" "io_label opts" None path] obtain i p1 where
    b: "Pipeline_begin_session p now (io_source opts) (io_label opts) None path = (Inr i, p1)" "pipe_ok p1 []"
       "advances (pl_store p) (pl_store p1) [] [] []" "pl_splitter p1 = pl_splitter p" by blast
  have sp: "consumed_stream (pl_splitter p1) = []" using p b(4) by (simp add: idle_ok_def)
  from ingest_blocks_ok [OF b(2) bs cap q] obtain st P2 new ids xs where
    l: "ingest_loop E (io_max_bytes opts) (ingest_start p1) (map read_of bs) = (Inr (), st)" "good_step p1 [] (in_pipe st) P2 new ids xs"
      "new @ consumed_stream (pl_splitter (in_pipe st)) = concat (map q (contents (map block_of bs)))"
      "in_hashed st = concat (contents (map block_of bs))"
      "(case in_wrapper st of Some w \<Rightarrow> w | None \<Rightarrow> NoWrapper) = wrapper_of E (map block_of bs)" using sp by auto
  then have "pipe_ok (in_pipe st) P2" by (simp add: good_step_def)
  from finish_ok [OF this, of "ie_pipe E" end_now end_ns] obtain out p3 ids' ys where
    f: "Pipeline_finish (ie_pipe E) (in_pipe st) end_now end_ns = (Inr out, p3)"
      "good_step (in_pipe st) P2 p3 [] (consumed_stream (pl_splitter (in_pipe st))) ids' ys" by blast
  have g: "good_step p1 [] p3 [] (concat (map q (contents (map block_of bs)))) (ids @ ids') (xs @ ys)"
    using good_step_trans [OF l(2) f(2)] l(3) by simp
  define sha where "sha = hex_encode (env_sha256 (ie_pipe E) (concat (contents (map block_of bs))))"
  define p4 where "p4 = p3\<lparr> pl_store := set_session_content_sha (pl_store p3) i sha \<rparr>"
  have s4: "store_ok (pl_store p4)" "advances (pl_store p3) (pl_store p4) [] [] []"
    using g set_sha_ok [of "pl_store p3" i sha] by (simp_all add: p4_def good_step_def pipe_ok_def)
  have "\<exists>rep. ingest_reader E p now (map read_of bs) codec opts path end_now end_ns = (Inr rep, p4) \<and>
      ir_wrapper rep = wrapper_of E (map block_of bs) \<and> ir_content_sha rep = sha"
    using b(1) l(1,4,5) f(1) by (simp add: ingest_reader_def ingest_finish_def Let_def p4_def sha_def)
  with g s4 b(3) show ?thesis by (fastforce simp: good_step_def advances_def sha_def)
qed

section \<open>Properties\<close>

text \<open>C21. An ingest stores its content: for every blocking of a stream within the cap whose blocks
  unwrap, the call succeeds, the stored stream grows by exactly the unwrapped blocks (a plain
  stream byte for byte, without the archive header), the report names the wrapper and the digest
  of the content, and the store stays consistent with its epochs balanced.\<close>

theorem ingest_stores_content:
  assumes "Pipeline_new (ie_pipe E) (Inr ()) s profiles mode max_line probe mine fcfg pinned = Inr p"
    and "store_ok (reload_counters s)" and "templates_ok (tb_templates (ds_db s))"
    and "list_all (\<lambda>b. b \<noteq> []) (map block_of bs)" and "\<not> over_cap (io_max_bytes opts) (length (concat (map block_of bs)))"
    and "\<And>c. c \<in> set (contents (map block_of bs)) \<Longrightarrow> block_payload E (wrapper_of E (map block_of bs)) c = Inr (q c)"
  shows "\<exists>rep p'. ingest_reader E p now (map read_of bs) codec opts path end_now end_ns = (Inr rep, p') \<and> store_ok (pl_store p') \<and>
    stored_stream (ds_db (pl_store p')) = stored_stream (ds_db s) @ concat (map q (contents (map block_of bs))) \<and>
    ir_wrapper rep = wrapper_of E (map block_of bs) \<and>
    ir_content_sha rep = hex_encode (env_sha256 (ie_pipe E) (concat (contents (map block_of bs)))) \<and>
    (\<forall>e. surplus (ds_db (pl_store p')) e = surplus (ds_db s) e)"
proof -
  have p: "idle_ok p" "pl_store p = reload_counters s" using Pipeline_new_ok [OF assms(1-3)] by simp_all
  have "ds_db (reload_counters s) = ds_db s" by (simp add: reload_counters_def)
  with ingest_reader_ok [OF p(1) assms(4,5), of E q now codec path end_now end_ns] assms(6) p(2) show ?thesis by simp
qed

text \<open>The archive of a session: the exporter's header line, then the bytes of its lines.\<close>

lemma archive_body_export:
  assumes "10 \<notin> set h" and "length (as_bytes EXPORT_MAGIC @ h) < length b" and "b @ rest = as_bytes EXPORT_MAGIC @ h @ [10] @ cs"
  shows "archive_body b @ rest = cs"
proof -
  let ?m = "as_bytes EXPORT_MAGIC"
  have m10: "10 \<notin> set ?m" by (simp add: as_bytes_def EXPORT_MAGIC_def)
  have tk: "take (length (?m @ h @ [10])) b = ?m @ h @ [10]"
    using assms(2) arg_cong [OF assms(3), of "take (length (?m @ h @ [10]))"] by simp
  then obtain r where r: "b = (?m @ h) @ 10 # r" using append_take_drop_id [of "length (?m @ h @ [10])" b] by (metis append.assoc append_Cons append_Nil)
  have "begins_with ?m b" by (simp add: begins_with_def r)
  moreover have "dropWhile (\<lambda>x. x \<noteq> 10) b = 10 # r" using m10 assms(1) by (subst r, subst dropWhile_append2) auto
  ultimately have "archive_body b = r" by (simp add: archive_body_def r)
  with assms(3) r show ?thesis by simp
qed

text \<open>C22. A session exported from one device and ingested on another arrives byte for byte: the
  exporter counts its bytes, and for every blocking of the archive (its header line inside the
  first block) that does not look like a wrapped log, the importing store grows by exactly the
  raw bytes of the exported session.\<close>

theorem export_ingest_round_trip:
  assumes "export_session to_bytes as_bytes header src i = Inr (archive, n)" and "session src i = Inr row" and "\<And>j. 10 \<notin> set (to_bytes j)"
    and "concat (map block_of bs) = archive" and "list_all (\<lambda>b. b \<noteq> []) (map block_of bs)"
    and "length (as_bytes EXPORT_MAGIC @ as_bytes '' '' @ to_bytes (header row (ds_canonical src))) < length (hd (map block_of bs))"
    and "wrapper_of E (map block_of bs) = NoWrapper" and "\<not> over_cap (io_max_bytes opts) (length archive)"
    and "Pipeline_new (ie_pipe E) (Inr ()) s profiles mode max_line probe mine fcfg pinned = Inr p"
    and "store_ok (reload_counters s)" and "templates_ok (tb_templates (ds_db s))"
  shows "\<exists>rep p'. ingest_reader E p now (map read_of bs) codec opts path end_now end_ns = (Inr rep, p') \<and> store_ok (pl_store p') \<and>
    stored_stream (ds_db (pl_store p')) = stored_stream (ds_db s) @ concat (map LineRow_raw (lines_for_session src i)) \<and>
    n = length (concat (map LineRow_raw (lines_for_session src i)))"
proof -
  have p: "idle_ok p" "pl_store p = reload_counters s" using Pipeline_new_ok [OF assms(9-11)] by simp_all
  have db: "ds_db (reload_counters s) = ds_db s" by (simp add: reload_counters_def)
  let ?c = "concat (map LineRow_raw (lines_for_session src i))"
  have ar: "archive = as_bytes EXPORT_MAGIC @ (as_bytes '' '' @ to_bytes (header row (ds_canonical src))) @ [10] @ ?c" "n = length ?c"
    using assms(1,2) by (simp_all add: export_session_def Let_def LineRow_raw_def [abs_def] LineRow_consumed_def [abs_def] length_concat comp_def)
  have "bs \<noteq> []" using assms(4) ar(1) by auto
  then obtain b rest where b: "map block_of bs = b # rest" by (cases bs) auto
  have nl: "10 \<notin> set (as_bytes '' '' @ to_bytes (header row (ds_canonical src)))" using assms(3) by (simp add: as_bytes_def)
  have "archive_body b @ concat rest = ?c"
    using archive_body_export [OF nl, of b "concat rest" ?c] assms(4,6) by (simp add: b ar(1))
  then have "concat (contents (map block_of bs)) = ?c" by (simp add: b)
  moreover have "\<not> over_cap (io_max_bytes opts) (length (concat (map block_of bs)))" using assms(4,8) by simp
  ultimately show ?thesis
    using ingest_reader_ok [OF p(1) assms(5), of opts E "\<lambda>c. c" now codec path end_now end_ns] assms(7) p(2) ar(2) db
    by (auto simp: payload_plain)
qed

lemma ingest_loop_append:
  "list_all (\<lambda>x. block_of x \<noteq> []) bs \<Longrightarrow> ingest_loop E m st (map read_of bs) = (Inr (), st') \<Longrightarrow>
    ingest_loop E m st (map read_of bs @ rs) = ingest_loop E m st' rs"
proof (induction bs arbitrary: st)
  case (Cons x bs)
  then show ?case by (cases x) (auto split: prod.splits sum.splits)
qed simp

lemma used_after:
  "list_all (\<lambda>x. block_of x \<noteq> []) bs \<Longrightarrow> ingest_loop E m st (map read_of bs) = (Inr (), st') \<Longrightarrow>
    in_cap_used st' = in_cap_used st + length (concat (map block_of bs))"
proof (induction bs arbitrary: st)
  case (Cons x bs)
  obtain now ns b where x: "x = (now, ns, b)" by (cases x) auto
  with Cons.prems obtain st1 where st1: "ingest_block E m st now ns b = (Inr (), st1)" "ingest_loop E m st1 (map read_of bs) = (Inr (), st')"
    by (auto split: prod.splits sum.splits)
  have "in_cap_used st1 = in_cap_used st + length b"
    using st1(1) strip_header_eq(5) [of E st b]
    by (auto simp: ingest_block_def Let_def split_beta split: if_splits sum.splits)
  with Cons st1(2) show ?case by (simp add: x)
qed simp

text \<open>A stream that turns out too large is refused with \<^const>\<open>IngestTooLarge\<close> at the first block
  past the cap, and what came before it stays: the session, and every byte of the earlier
  blocks, stored or still held by the splitter.\<close>

theorem ingest_over_cap_keeps_prefix:
  assumes "idle_ok p" and "list_all (\<lambda>x. block_of x \<noteq> []) bs" and "b \<noteq> []"
    and "\<not> over_cap (io_max_bytes opts) (length (concat (map block_of bs)))"
    and "over_cap (io_max_bytes opts) (length (concat (map block_of bs)) + length b)"
    and "\<And>c. c \<in> set (contents (map block_of bs)) \<Longrightarrow> block_payload E (wrapper_of E (map block_of bs)) c = Inr (q c)"
  shows "\<exists>i p'. ingest_reader E p now (map read_of bs @ Read now' ns' b # rs) codec opts path end_now end_ns = (Inl IngestTooLarge, p') \<and>
    i \<in> session_ids (ds_db (pl_store p')) \<and> pl_session_id p' = i \<and> store_ok (pl_store p') \<and>
    stored_stream (ds_db (pl_store p')) @ consumed_stream (pl_splitter p') =
      stored_stream (ds_db (pl_store p)) @ concat (map q (contents (map block_of bs)))"
proof -
  from begin_session_ok [OF assms(1), of now "io_source opts" "io_label opts" None path] obtain i p1 where
    b: "Pipeline_begin_session p now (io_source opts) (io_label opts) None path = (Inr i, p1)" "pipe_ok p1 []"
       "advances (pl_store p) (pl_store p1) [] [] []" "pl_splitter p1 = pl_splitter p" by blast
  have sp: "consumed_stream (pl_splitter p1) = []" using assms(1) b(4) by (simp add: idle_ok_def)
  have bs: "list_all (\<lambda>b. b \<noteq> []) (map block_of bs)" using assms(2) by (simp add: list_all_iff)
  from ingest_blocks_ok [OF b(2) bs assms(4,6)] obtain st P2 new ids xs where
    l: "ingest_loop E (io_max_bytes opts) (ingest_start p1) (map read_of bs) = (Inr (), st)" "good_step p1 [] (in_pipe st) P2 new ids xs"
      "new @ consumed_stream (pl_splitter (in_pipe st)) = concat (map q (contents (map block_of bs)))" using sp by auto
  have used: "in_cap_used st = length (concat (map block_of bs))"
    using used_after [OF assms(2) l(1)] by (simp add: ingest_start_def)
  have "\<exists>st'. ingest_block E (io_max_bytes opts) st now' ns' b = (Inl IngestTooLarge, st') \<and> in_pipe st' = in_pipe st"
    using assms(5) used strip_header_eq(3,5) [of E st b] by (simp add: ingest_block_def Let_def split_beta)
  then obtain st' where st': "ingest_block E (io_max_bytes opts) st now' ns' b = (Inl IngestTooLarge, st')" "in_pipe st' = in_pipe st" by blast
  have "ingest_reader E p now (map read_of bs @ Read now' ns' b # rs) codec opts path end_now end_ns = (Inl IngestTooLarge, in_pipe st)"
    using b(1) st' assms(3) by (simp add: ingest_reader_def ingest_loop_append [OF assms(2) l(1)])
  with l(2,3) b(3) show ?thesis
    by (intro exI [of _ "pl_session_id (in_pipe st)"] exI [of _ "in_pipe st"]) (auto simp: good_step_def pipe_ok_def has_defs advances_def)
qed

section \<open>Examples\<close>

definition sample_ingest_env :: IngestEnv where
  "sample_ingest_env = \<lparr> ie_pipe = sample_env, ie_from_json = (\<lambda>_. None) \<rparr>"

definition sample_blocks :: "(int \<times> int \<times> byte list) list" where
  "sample_blocks = [(1, 1, as_bytes ''ab''), (2, 2, [10, 99])]"

lemma sample_ingest_new:
  "Pipeline_new (ie_pipe sample_ingest_env) (Inr ()) sample_store sample_set Auto 256 8 DrainConfig_default sample_config None = Inr sample_pipeline"
  by (simp add: sample_ingest_env_def sample_pipeline_new)

lemma sample_pipeline_idle: "idle_ok sample_pipeline"
  using Pipeline_new_ok [OF sample_ingest_new sample_store_reloaded(1,2)] by simp

lemma sample_blocks_plain:
  "wrapper_of sample_ingest_env (map block_of sample_blocks) = NoWrapper" "list_all (\<lambda>b. b \<noteq> []) (map block_of sample_blocks)"
  "contents (map block_of sample_blocks) = [[97, 98], [10, 99]]"
  "\<not> over_cap (io_max_bytes IngestOptions_default) n"
  by (code_simp, code_simp, code_simp, simp add: over_cap_def IngestOptions_default_def)

theorem ingest_stores_content_witness:
  "\<exists>rep p'. ingest_reader sample_ingest_env sample_pipeline 0 (map read_of sample_blocks) Plain IngestOptions_default None 9 9 = (Inr rep, p') \<and>
    stored_stream (ds_db (pl_store p')) = [97, 98, 10, 99]"
proof -
  have "\<exists>rep p'. ingest_reader sample_ingest_env sample_pipeline 0 (map read_of sample_blocks) Plain IngestOptions_default None 9 9 = (Inr rep, p') \<and>
      store_ok (pl_store p') \<and> stored_stream (ds_db (pl_store p')) = stored_stream (ds_db sample_store) @ concat (map (\<lambda>c. c) (contents (map block_of sample_blocks))) \<and>
      ir_wrapper rep = wrapper_of sample_ingest_env (map block_of sample_blocks) \<and>
      ir_content_sha rep = hex_encode (env_sha256 (ie_pipe sample_ingest_env) (concat (contents (map block_of sample_blocks)))) \<and>
      (\<forall>e. surplus (ds_db (pl_store p')) e = surplus (ds_db sample_store) e)"
    by (rule ingest_stores_content [OF sample_ingest_new sample_store_reloaded(1,2) sample_blocks_plain(2,4)])
      (simp add: sample_blocks_plain(1) payload_plain)
  then show ?thesis by (simp add: sample_store_reloaded(3) sample_blocks_plain(3)) blast
qed

definition sample_archive :: "(int \<times> int \<times> byte list) list" where
  "sample_archive = [(1, 1, as_bytes EXPORT_MAGIC @ as_bytes '' '' @ [10, 65]), (2, 2, [10, 66, 10])]"

lemma sample_archive_facts:
  "export_session (\<lambda>_. []) as_bytes (\<lambda>_ _. JNull) sample_filled 1 = Inr (concat (map block_of sample_archive), 4)"
  "wrapper_of sample_ingest_env (map block_of sample_archive) = NoWrapper" "list_all (\<lambda>b. b \<noteq> []) (map block_of sample_archive)"
  "length (as_bytes EXPORT_MAGIC @ as_bytes '' '' @ []) < length (hd (map block_of sample_archive))"
  "session sample_filled 1 = Inr (hd (tb_sessions (ds_db sample_filled)))"
  "concat (map LineRow_raw (lines_for_session sample_filled 1)) = [65, 10, 66, 10]"
  by code_simp+

theorem export_ingest_round_trip_witness:
  "\<exists>rep p'. ingest_reader sample_ingest_env sample_pipeline 0 (map read_of sample_archive) Gzip IngestOptions_default None 9 9 = (Inr rep, p') \<and>
    stored_stream (ds_db (pl_store p')) = [65, 10, 66, 10]"
proof -
  have "\<exists>rep p'. ingest_reader sample_ingest_env sample_pipeline 0 (map read_of sample_archive) Gzip IngestOptions_default None 9 9 = (Inr rep, p') \<and>
      store_ok (pl_store p') \<and>
      stored_stream (ds_db (pl_store p')) = stored_stream (ds_db sample_store) @ concat (map LineRow_raw (lines_for_session sample_filled 1)) \<and>
      (4::nat) = length (concat (map LineRow_raw (lines_for_session sample_filled 1)))"
    by (rule export_ingest_round_trip [OF sample_archive_facts(1,5) _ _ sample_archive_facts(3,4,2) sample_blocks_plain(4) sample_ingest_new
          sample_store_reloaded(1,2)]) simp_all
  then show ?thesis by (simp only: sample_store_reloaded(3) sample_archive_facts(6) append_Nil) blast
qed

theorem ingest_over_cap_keeps_prefix_witness:
  "\<exists>p'. ingest_reader sample_ingest_env sample_pipeline 0 (map read_of sample_blocks @ [Read 3 3 [65]]) Plain
      (IngestOptions_default\<lparr> io_max_bytes := Some 4 \<rparr>) None 9 9 = (Inl IngestTooLarge, p') \<and>
    stored_stream (ds_db (pl_store p')) @ consumed_stream (pl_splitter p') = [97, 98, 10, 99]"
proof -
  let ?o = "IngestOptions_default\<lparr> io_max_bytes := Some 4 \<rparr>"
  have c: "list_all (\<lambda>x. block_of x \<noteq> []) sample_blocks" "\<not> over_cap (io_max_bytes ?o) (length (concat (map block_of sample_blocks)))"
    "over_cap (io_max_bytes ?o) (length (concat (map block_of sample_blocks)) + length [65 :: byte])" by code_simp+
  have "\<exists>i p'. ingest_reader sample_ingest_env sample_pipeline 0 (map read_of sample_blocks @ Read 3 3 [65] # []) Plain ?o None 9 9 = (Inl IngestTooLarge, p') \<and>
      i \<in> session_ids (ds_db (pl_store p')) \<and> pl_session_id p' = i \<and> store_ok (pl_store p') \<and>
      stored_stream (ds_db (pl_store p')) @ consumed_stream (pl_splitter p') =
        stored_stream (ds_db (pl_store sample_pipeline)) @ concat (map (\<lambda>c. c) (contents (map block_of sample_blocks)))"
    by (rule ingest_over_cap_keeps_prefix [OF sample_pipeline_idle c(1) _ c(2,3)]) (simp_all add: sample_blocks_plain(1) payload_plain)
  moreover have "ds_db (pl_store sample_pipeline) = ds_db sample_store"
    using Pipeline_new_ok [OF sample_ingest_new sample_store_reloaded(1,2)] by (simp add: reload_counters_def)
  ultimately show ?thesis by (simp add: sample_store_reloaded(3) sample_blocks_plain(3)) blast
qed

section \<open>Where blocks cut\<close>

text \<open>A wrapper is removed block by block: a log entry that straddles the end of a block is torn.
  Its first part is read as a shorter message, and a block that holds nothing but its rest has no
  text and is refused, although the whole log unwraps.\<close>

lemma entry_torn_at_block_end:
  "lava_text (''- msg: '' @ [CHR 0x22] @ ''hello'' @ [CHR 0x22]) = ''hello'' @ [CHR 0x0A]"
  "lava_text (''- msg: '' @ [CHR 0x22] @ ''hel'') = ''hel'' @ [CHR 0x0A]"
  "unwrap_all (map (\<lambda>b. char_of (unat b))) (as_bytes (''lo'' @ [CHR 0x22])) Lava = Inl IngestFailed"
  by code_simp+

end
