(* ===== verification/Store_Watches.thy ===== *)
theory Store_Watches
  imports Store_Queries
begin

text \<open>
  Durable watches (\<^verbatim>\<open>store/device.rs\<close>, tables \<^verbatim>\<open>watches\<close> and \<^verbatim>\<open>watch_hits\<close>): a watch remembers how
  far the stream was scanned for it, its firings are stored, a poll consumes them in order, and a
  push receiver has a high-water mark of its own. A JSON value is stored as its text and read
  back as the same value.
\<close>

section \<open>Tables\<close>

record WatchHit =
  wh_at :: int
  wh_stream_offset :: nat
  wh_matched :: string
  wh_evidence :: json

record HitRow =
  hr_id :: int
  hr_watch_id :: int
  hr_hit :: WatchHit
  hr_delivered :: bool

record Watch =
  wa_id :: int
  wa_name :: string
  wa_predicate :: json
  wa_created_at :: int
  wa_scanned_to :: nat
  wa_last_polled :: "int option"
  wa_active :: bool
  wa_notify_url :: "string option"
  wa_notify_secret :: "string option"
  wa_notify_min_interval_s :: int
  wa_delivered :: int
  wa_delivery_failed :: int
  wa_last_status :: "nat option"
  wa_last_delivery_at :: "int option"
  wa_delivered_to :: int
  wa_delivery_fail_streak :: int

record WatchTables =
  wt_watches :: "Watch list"
  wt_hits :: "HitRow list"

section \<open>Operations\<close>

definition create_watch :: "WatchTables \<Rightarrow> string \<Rightarrow> json \<Rightarrow> nat \<Rightarrow> int \<Rightarrow> int option \<times> WatchTables" where
  "create_watch wt name predicate from_offset now =
     (let ws = (if name \<in> wa_name ` set (wt_watches wt)
                then update_where (\<lambda>w. wa_name w = name)
                       (\<lambda>w. w\<lparr> wa_predicate := predicate, wa_created_at := now, wa_scanned_to := from_offset, wa_active := True \<rparr>)
                       (wt_watches wt)
                else wt_watches wt @
                  [\<lparr> wa_id = next_id (map wa_id (wt_watches wt)), wa_name = name, wa_predicate = predicate, wa_created_at = now,
                     wa_scanned_to = from_offset, wa_last_polled = None, wa_active = True, wa_notify_url = None,
                     wa_notify_secret = None, wa_notify_min_interval_s = 60, wa_delivered = 0, wa_delivery_failed = 0,
                     wa_last_status = None, wa_last_delivery_at = None, wa_delivered_to = 0, wa_delivery_fail_streak = 0 \<rparr>])
      in (map_option wa_id (find (\<lambda>w. wa_name w = name) ws), wt\<lparr> wt_watches := ws \<rparr>))"

definition set_watch_notify :: "WatchTables \<Rightarrow> string \<Rightarrow> string option \<Rightarrow> string option \<Rightarrow> int \<Rightarrow> WatchTables" where
  "set_watch_notify wt name url secret min_interval_s =
     wt\<lparr> wt_watches := update_where (\<lambda>w. wa_name w = name)
       (\<lambda>w. w\<lparr> wa_notify_url := url, wa_notify_secret := secret, wa_notify_min_interval_s := min_interval_s \<rparr>) (wt_watches wt) \<rparr>"

record ArmedWatch =
  aw_name :: string
  aw_url :: string
  aw_secret :: "string option"
  aw_min_interval_s :: int
  aw_last_delivery_at :: int
  aw_failed_streak :: int

definition watches_to_deliver :: "WatchTables \<Rightarrow> ArmedWatch list" where
  "watches_to_deliver wt =
     List.map_filter (\<lambda>w. case wa_notify_url w of
         Some url \<Rightarrow> if wa_active w
           then Some \<lparr> aw_name = wa_name w, aw_url = url, aw_secret = wa_notify_secret w,
                       aw_min_interval_s = wa_notify_min_interval_s w,
                       aw_last_delivery_at = (case wa_last_delivery_at w of Some t \<Rightarrow> t | None \<Rightarrow> 0),
                       aw_failed_streak = wa_delivery_fail_streak w \<rparr>
           else None
       | None \<Rightarrow> None) (wt_watches wt)"

text \<open>\<^verbatim>\<open>undelivered_hits\<close>: the firings past the push receiver's mark.\<close>

definition push_queue :: "WatchTables \<Rightarrow> string \<Rightarrow> HitRow list" where
  "push_queue wt name =
     order_by hr_id (filter (\<lambda>h. \<exists>w\<in>set (wt_watches wt). wa_id w = hr_watch_id h \<and> wa_name w = name \<and> hr_id h > wa_delivered_to w)
       (wt_hits wt))"

definition hit_json :: "HitRow \<Rightarrow> json" where
  "hit_json h = JObj [(''id'', JInt (hr_id h)), (''at'', JInt (wh_at (hr_hit h))), (''matched'', JStr (wh_matched (hr_hit h))),
     (''evidence'', wh_evidence (hr_hit h))]"

definition undelivered_hits :: "WatchTables \<Rightarrow> string \<Rightarrow> nat \<Rightarrow> json list" where
  "undelivered_hits wt name limit = map hit_json (take limit (push_queue wt name))"

definition is_2xx :: "nat option \<Rightarrow> bool" where
  "is_2xx status \<longleftrightarrow> (case status of Some s \<Rightarrow> 200 \<le> s \<and> s < 300 | None \<Rightarrow> False)"

definition note_delivery :: "WatchTables \<Rightarrow> string \<Rightarrow> nat option \<Rightarrow> int option \<Rightarrow> int \<Rightarrow> WatchTables" where
  "note_delivery wt name status up_to_hit now =
     wt\<lparr> wt_watches := update_where (\<lambda>w. wa_name w = name)
       (\<lambda>w. if is_2xx status
            then w\<lparr> wa_delivered := wa_delivered w + 1, wa_last_status := status, wa_last_delivery_at := Some now,
                    wa_delivered_to := max (wa_delivered_to w) (case up_to_hit of Some i \<Rightarrow> i | None \<Rightarrow> 0),
                    wa_delivery_fail_streak := 0 \<rparr>
            else w\<lparr> wa_delivery_failed := wa_delivery_failed w + 1, wa_last_status := status, wa_last_delivery_at := Some now,
                    wa_delivery_fail_streak := wa_delivery_fail_streak w + 1 \<rparr>) (wt_watches wt) \<rparr>"

text \<open>\<^verbatim>\<open>map_watch\<close>: the row as it is shown; the secret itself is never part of it.\<close>

record WatchRow =
  wr_id :: int
  wr_name :: string
  wr_predicate :: json
  wr_created_at :: int
  wr_scanned_to :: nat
  wr_last_polled :: "int option"
  wr_active :: bool
  wr_notify :: "json option"
  wr_delivery :: json

definition opt_int :: "int option \<Rightarrow> json" where
  "opt_int x = (case x of Some i \<Rightarrow> JInt i | None \<Rightarrow> JNull)"

definition map_watch :: "Watch \<Rightarrow> WatchRow" where
  "map_watch w =
     \<lparr> wr_id = wa_id w, wr_name = wa_name w, wr_predicate = wa_predicate w, wr_created_at = wa_created_at w,
       wr_scanned_to = wa_scanned_to w, wr_last_polled = wa_last_polled w, wr_active = wa_active w,
       wr_notify = map_option (\<lambda>url. JObj [(''url'', JStr url), (''signed'', JBool (wa_notify_secret w \<noteq> None)),
         (''min_interval_s'', JInt (wa_notify_min_interval_s w))]) (wa_notify_url w),
       wr_delivery = JObj [(''delivered'', JInt (wa_delivered w)), (''failed'', JInt (wa_delivery_failed w)),
         (''last_status'', opt_int (map_option int (wa_last_status w))), (''last_at'', opt_int (wa_last_delivery_at w))] \<rparr>"

definition watch :: "WatchTables \<Rightarrow> string \<Rightarrow> WatchRow res" where
  "watch wt name = ok_or UnknownWatch (map_option map_watch (find (\<lambda>w. wa_name w = name) (wt_watches wt)))"

definition watches :: "WatchTables \<Rightarrow> WatchRow list" where
  "watches wt = map map_watch (order_by wa_id (wt_watches wt))"

definition delete_watch :: "WatchTables \<Rightarrow> string \<Rightarrow> bool \<times> WatchTables" where
  "delete_watch wt name =
     (case find (\<lambda>w. wa_name w = name) (wt_watches wt) of
        None \<Rightarrow> (False, wt)
      | Some w \<Rightarrow> (True, wt\<lparr> wt_hits := filter (\<lambda>h. hr_watch_id h \<noteq> wa_id w) (wt_hits wt),
                             wt_watches := filter (\<lambda>v. wa_id v \<noteq> wa_id w) (wt_watches wt) \<rparr>))"

definition insert_hit :: "int \<Rightarrow> HitRow list \<Rightarrow> WatchHit \<Rightarrow> HitRow list" where
  "insert_hit watch_id rows h =
     rows @ [\<lparr> hr_id = next_id (map hr_id rows), hr_watch_id = watch_id, hr_hit = h, hr_delivered = False \<rparr>]"

text \<open>\<^verbatim>\<open>record_watch_hits\<close>, one transaction: a firing of an unknown watch violates the foreign key.\<close>

definition record_watch_hits :: "WatchTables \<Rightarrow> int \<Rightarrow> WatchHit list \<Rightarrow> nat \<Rightarrow> int \<Rightarrow> unit res \<times> WatchTables" where
  "record_watch_hits wt watch_id hits scanned_to now =
     (if hits \<noteq> [] \<and> watch_id \<notin> wa_id ` set (wt_watches wt) then (Inl Internal, wt)
      else (Inr (), wt\<lparr> wt_hits := foldl (insert_hit watch_id) (wt_hits wt) hits,
              wt_watches := update_where (\<lambda>w. wa_id w = watch_id)
                (\<lambda>w. w\<lparr> wa_scanned_to := scanned_to, wa_last_polled := Some now \<rparr>) (wt_watches wt) \<rparr>))"

definition watch_fired_total :: "WatchTables \<Rightarrow> int \<Rightarrow> nat" where
  "watch_fired_total wt watch_id = length (filter (\<lambda>h. hr_watch_id h = watch_id) (wt_hits wt))"

definition pending_rows :: "WatchTables \<Rightarrow> int \<Rightarrow> HitRow list" where
  "pending_rows wt watch_id = order_by hr_id (filter (\<lambda>h. hr_watch_id h = watch_id \<and> \<not> hr_delivered h) (wt_hits wt))"

definition peek_watch_hits :: "WatchTables \<Rightarrow> string \<Rightarrow> nat \<Rightarrow> WatchHit list" where
  "peek_watch_hits wt name limit =
     (case find (\<lambda>w. wa_name w = name) (wt_watches wt) of
        None \<Rightarrow> []
      | Some w \<Rightarrow> map hr_hit (take limit (pending_rows wt (wa_id w))))"

definition take_watch_hits :: "WatchTables \<Rightarrow> int \<Rightarrow> nat \<Rightarrow> bool \<Rightarrow> (WatchHit list \<times> nat) \<times> WatchTables" where
  "take_watch_hits wt watch_id limit mark =
     (let pending = length (filter (\<lambda>h. hr_watch_id h = watch_id \<and> \<not> hr_delivered h) (wt_hits wt));
          rows = take limit (pending_rows wt watch_id);
          hits = (if mark then update_where (\<lambda>h. hr_id h \<in> hr_id ` set rows) (\<lambda>h. h\<lparr> hr_delivered := True \<rparr>) (wt_hits wt)
                  else wt_hits wt)
      in ((map hr_hit rows, pending - length rows), wt\<lparr> wt_hits := hits \<rparr>))"

section \<open>Any sequence of operations\<close>

datatype WatchOp =
    CreateWatch string json nat int
  | SetNotify string "string option" "string option" int
  | DeleteWatch string
  | RecordHits int "WatchHit list" nat int
  | TakeHits int nat bool
  | NoteDelivery string "nat option" "int option" int

text \<open>The firings an operation hands to a consuming reader of watch \<open>i\<close>, and those it records for it.\<close>

fun watch_op :: "WatchTables \<Rightarrow> WatchOp \<Rightarrow> WatchTables" where
  "watch_op wt (CreateWatch name p from now) = snd (create_watch wt name p from now)"
| "watch_op wt (SetNotify name url secret m) = set_watch_notify wt name url secret m"
| "watch_op wt (DeleteWatch name) = snd (delete_watch wt name)"
| "watch_op wt (RecordHits j hits to now) = snd (record_watch_hits wt j hits to now)"
| "watch_op wt (TakeHits j limit mark) = snd (take_watch_hits wt j limit mark)"
| "watch_op wt (NoteDelivery name status up now) = note_delivery wt name status up now"

fun handed_out :: "int \<Rightarrow> WatchTables \<Rightarrow> WatchOp \<Rightarrow> WatchHit list" where
  "handed_out i wt (TakeHits j limit mark) = (if j = i \<and> mark then fst (fst (take_watch_hits wt j limit mark)) else [])"
| "handed_out i wt _ = []"

fun recorded :: "int \<Rightarrow> WatchOp \<Rightarrow> WatchHit list" where
  "recorded i (RecordHits j hits to now) = (if j = i then hits else [])"
| "recorded i _ = []"

fun watch_run :: "WatchTables \<Rightarrow> WatchOp list \<Rightarrow> WatchTables" where
  "watch_run wt [] = wt"
| "watch_run wt (x # xs) = watch_run (watch_op wt x) xs"

fun all_handed_out :: "int \<Rightarrow> WatchTables \<Rightarrow> WatchOp list \<Rightarrow> WatchHit list" where
  "all_handed_out i wt [] = []"
| "all_handed_out i wt (x # xs) = handed_out i wt x @ all_handed_out i (watch_op wt x) xs"

definition watches_ok :: "WatchTables \<Rightarrow> bool" where
  "watches_ok wt \<longleftrightarrow> sorted_wrt (<) (map wa_id (wt_watches wt)) \<and> distinct (map wa_name (wt_watches wt)) \<and>
     sorted_wrt (<) (map hr_id (wt_hits wt)) \<and> hr_watch_id ` set (wt_hits wt) \<subseteq> wa_id ` set (wt_watches wt)"

definition pending_hits :: "WatchTables \<Rightarrow> int \<Rightarrow> WatchHit list" where
  "pending_hits wt i = map hr_hit (filter (\<lambda>h. hr_watch_id h = i \<and> \<not> hr_delivered h) (wt_hits wt))"

end
