(* ===== verification/Watch_Laws.thy ===== *)
theory Watch_Laws
  imports Store_Watches Store_Inv
begin

text \<open>
  What durable watches promise: in every sequence of operations each recorded firing is handed to
  a consuming poll exactly once and in order, and pushing to a receiver and polling never take
  work from each other.
\<close>

section \<open>Consistency\<close>

lemma insert_hits:
  "foldl (insert_hit j) rows hits = rows @ drop (length rows) (foldl (insert_hit j) rows hits) \<and>
   map hr_hit (drop (length rows) (foldl (insert_hit j) rows hits)) = hits \<and>
   (\<forall>h\<in>set (drop (length rows) (foldl (insert_hit j) rows hits)). hr_watch_id h = j \<and> \<not> hr_delivered h) \<and>
   (sorted_wrt (<) (map hr_id rows) \<longrightarrow> sorted_wrt (<) (map hr_id (foldl (insert_hit j) rows hits)))"
proof (induction hits arbitrary: rows)
  case (Cons h hits)
  let ?r = "insert_hit j rows h"
  have r: "?r = rows @ [\<lparr> hr_id = next_id (map hr_id rows), hr_watch_id = j, hr_hit = h, hr_delivered = False \<rparr>]"
    by (simp add: insert_hit_def)
  have s: "sorted_wrt (<) (map hr_id rows) \<longrightarrow> sorted_wrt (<) (map hr_id ?r)"
    using sorted_next_id [of "map hr_id rows"] by (simp add: r)
  obtain new where new: "foldl (insert_hit j) ?r hits = ?r @ new" using conjunct1 [OF Cons.IH [of ?r]] by blast
  have "map hr_hit new = hits" "\<forall>h\<in>set new. hr_watch_id h = j \<and> \<not> hr_delivered h"
    "sorted_wrt (<) (map hr_id ?r) \<longrightarrow> sorted_wrt (<) (map hr_id (?r @ new))"
    using Cons.IH [of ?r] by (simp_all add: new)
  then show ?case using s by (simp add: new) (simp add: r)
qed simp

text \<open>The rows an insertion adds.\<close>

lemma insert_hits_new:
  obtains new where "foldl (insert_hit j) rows hits = rows @ new" and "map hr_hit new = hits"
    and "\<And>h. h \<in> set new \<Longrightarrow> hr_watch_id h = j \<and> \<not> hr_delivered h"
    and "sorted_wrt (<) (map hr_id rows) \<Longrightarrow> sorted_wrt (<) (map hr_id (rows @ new))"
proof (rule that)
  let ?new = "drop (length rows) (foldl (insert_hit j) rows hits)"
  show eq: "foldl (insert_hit j) rows hits = rows @ ?new" and "map hr_hit ?new = hits"
    and "\<And>h. h \<in> set ?new \<Longrightarrow> hr_watch_id h = j \<and> \<not> hr_delivered h"
    using insert_hits [of j rows hits] by blast+
  show "sorted_wrt (<) (map hr_id (rows @ ?new))" if "sorted_wrt (<) (map hr_id rows)"
    using insert_hits [of j rows hits] that eq by metis
qed

lemma update_watch_columns:
  assumes "\<And>w. P w \<Longrightarrow> wa_id (f w) = wa_id w \<and> wa_name (f w) = wa_name w"
  shows "map wa_id (update_where P f ws) = map wa_id ws" "map wa_name (update_where P f ws) = map wa_name ws"
    "wa_id ` set (update_where P f ws) = wa_id ` set ws"
    "map (\<lambda>w. (wa_id w, wa_name w)) (update_where P f ws) = map (\<lambda>w. (wa_id w, wa_name w)) ws"
  by (rule map_update_where image_update_where; simp add: assms)+

lemma watches_ok_update:
  assumes "watches_ok wt" and "\<And>w. P w \<Longrightarrow> wa_id (f w) = wa_id w \<and> wa_name (f w) = wa_name w"
  shows "watches_ok (wt\<lparr> wt_watches := update_where P f (wt_watches wt) \<rparr>)"
  using assms(1) by (simp add: watches_ok_def update_watch_columns [OF assms(2)])

lemma create_watch_ok:
  assumes "watches_ok wt"
  shows "watches_ok (snd (create_watch wt name p from now))"
proof (cases "name \<in> wa_name ` set (wt_watches wt)")
  case True
  then show ?thesis using assms by (simp add: create_watch_def Let_def watches_ok_def update_watch_columns)
next
  case False
  then show ?thesis using assms sorted_next_id [of "map wa_id (wt_watches wt)"]
    by (auto simp: create_watch_def Let_def watches_ok_def)
qed

lemma record_hits_ok:
  assumes "watches_ok wt"
  shows "watches_ok (snd (record_watch_hits wt j hits to now))"
proof -
  obtain new where new: "foldl (insert_hit j) (wt_hits wt) hits = wt_hits wt @ new" "map hr_hit new = hits"
    "\<And>h. h \<in> set new \<Longrightarrow> hr_watch_id h = j \<and> \<not> hr_delivered h"
    "sorted_wrt (<) (map hr_id (wt_hits wt)) \<Longrightarrow> sorted_wrt (<) (map hr_id (wt_hits wt @ new))" using insert_hits_new [of j "wt_hits wt" hits] by blast
  have "hr_watch_id ` set new \<subseteq> (if hits = [] then {} else {j})" using new(2,3) by auto
  then show ?thesis using assms new
    by (cases "hits = []") (auto simp: record_watch_hits_def watches_ok_def update_watch_columns)
qed

lemma take_hits_ok:
  assumes "watches_ok wt"
  shows "watches_ok (snd (take_watch_hits wt j limit mark))"
proof -
  have "map hr_id (update_where P (\<lambda>h. h\<lparr> hr_delivered := True \<rparr>) hs) = map hr_id hs"
    "hr_watch_id ` set (update_where P (\<lambda>h. h\<lparr> hr_delivered := True \<rparr>) hs) = hr_watch_id ` set hs" for P and hs :: "HitRow list"
    by (rule map_update_where image_update_where; simp)+
  then show ?thesis using assms by (simp add: take_watch_hits_def Let_def watches_ok_def)
qed

lemma delete_watch_ok:
  assumes "watches_ok wt"
  shows "watches_ok (snd (delete_watch wt name))"
proof -
  have "hr_watch_id ` set (filter (\<lambda>h. hr_watch_id h \<noteq> k) (wt_hits wt)) \<subseteq> wa_id ` set (filter (\<lambda>w. wa_id w \<noteq> k) (wt_watches wt))" for k
  proof
    fix j
    assume "j \<in> hr_watch_id ` set (filter (\<lambda>h. hr_watch_id h \<noteq> k) (wt_hits wt))"
    then have "j \<noteq> k" "j \<in> wa_id ` set (wt_watches wt)" using assms by (auto simp: watches_ok_def)
    then show "j \<in> wa_id ` set (filter (\<lambda>w. wa_id w \<noteq> k) (wt_watches wt))" by auto
  qed
  then show ?thesis using assms
    by (simp add: delete_watch_def watches_ok_def sorted_filter_key distinct_map_filter split: option.split)
qed

lemma watch_op_ok: "watches_ok wt \<Longrightarrow> watches_ok (watch_op wt x)"
  by (cases x)
    (simp_all add: create_watch_ok record_hits_ok take_hits_ok delete_watch_ok set_watch_notify_def note_delivery_def watches_ok_update)

section \<open>The queue of a watch\<close>

lemma filter_not_taken:
  "distinct (map f ys) \<Longrightarrow> filter (\<lambda>y. f y \<notin> f ` set (take n ys)) ys = drop n ys"
proof (induction ys arbitrary: n)
  case (Cons y ys)
  show ?case
  proof (cases n)
    case (Suc m)
    have "filter (\<lambda>z. f z \<notin> insert (f y) (f ` set (take m ys))) ys = filter (\<lambda>z. f z \<notin> f ` set (take m ys)) ys"
      using Cons.prems by (intro filter_cong) (auto simp: image_iff)
    with Cons Suc show ?thesis by simp
  qed simp
qed simp

lemma pending_rows_eq:
  "watches_ok wt \<Longrightarrow> pending_rows wt i = filter (\<lambda>h. hr_watch_id h = i \<and> \<not> hr_delivered h) (wt_hits wt)"
  by (simp add: pending_rows_def order_by_filter watches_ok_def)

lemma pending_taken:
  assumes ok: "watches_ok wt"
  shows "fst (fst (take_watch_hits wt i n mark)) = take n (pending_hits wt i)"
    "pending_hits (snd (take_watch_hits wt i n True)) i = drop n (pending_hits wt i)"
    "snd (fst (take_watch_hits wt i n mark)) = length (pending_hits wt i) - n"
proof -
  let ?P = "\<lambda>h. hr_watch_id h = i \<and> \<not> hr_delivered h"
  let ?ys = "filter ?P (wt_hits wt)"
  have rows: "pending_rows wt i = ?ys" by (rule pending_rows_eq [OF ok])
  show "fst (fst (take_watch_hits wt i n mark)) = take n (pending_hits wt i)"
    by (simp add: take_watch_hits_def Let_def rows pending_hits_def take_map)
  show "snd (fst (take_watch_hits wt i n mark)) = length (pending_hits wt i) - n"
    by (simp add: take_watch_hits_def Let_def rows pending_hits_def)
  have d: "distinct (map hr_id ?ys)"
    using ok sorted_filter_key [of hr_id "wt_hits wt" ?P] by (simp add: watches_ok_def strict_sorted_iff)
  have marked: "filter ?P (update_where (\<lambda>h. hr_id h \<in> I) (\<lambda>h. h\<lparr> hr_delivered := True \<rparr>) hs) = filter (\<lambda>h. hr_id h \<notin> I) (filter ?P hs)"
    for hs :: "HitRow list" and I
    by (induction hs) (auto simp: update_where_def)
  have "filter ?P (wt_hits (snd (take_watch_hits wt i n True))) = drop n ?ys"
  proof -
    have "wt_hits (snd (take_watch_hits wt i n True)) =
        update_where (\<lambda>h. hr_id h \<in> hr_id ` set (take n ?ys)) (\<lambda>h. h\<lparr> hr_delivered := True \<rparr>) (wt_hits wt)"
      by (simp add: take_watch_hits_def Let_def rows)
    then show ?thesis by (simp only: marked filter_not_taken [OF d])
  qed
  then show "pending_hits (snd (take_watch_hits wt i n True)) i = drop n (pending_hits wt i)"
    by (simp add: pending_hits_def drop_map)
qed

lemma pending_other_taken:
  assumes ok: "watches_ok wt" and j: "j \<noteq> i"
  shows "pending_hits (snd (take_watch_hits wt j n mark)) i = pending_hits wt i"
proof -
  have d: "inj_on hr_id (set (wt_hits wt))"
    using ok by (simp add: watches_ok_def strict_sorted_iff distinct_map)
  have own: "hr_watch_id h = j" if "h \<in> set (wt_hits wt)" "hr_id h \<in> hr_id ` set (take n (pending_rows wt j))" for h
  proof -
    from that(2) obtain g where g: "hr_id h = hr_id g" "g \<in> set (take n (pending_rows wt j))" by auto
    then have "g \<in> set (pending_rows wt j)" by (auto dest: in_set_takeD)
    then have gj: "g \<in> set (wt_hits wt)" "hr_watch_id g = j" by (simp_all add: pending_rows_eq [OF ok])
    have "h = g" by (rule inj_onD [OF d g(1) that(1) gj(1)])
    with gj show ?thesis by simp
  qed
  have gen: "map hr_hit (filter (\<lambda>h. hr_watch_id h = i \<and> \<not> hr_delivered h) (update_where (\<lambda>h. hr_id h \<in> S) (\<lambda>h. h\<lparr> hr_delivered := True \<rparr>) hs)) =
      map hr_hit (filter (\<lambda>h. hr_watch_id h = i \<and> \<not> hr_delivered h) hs)"
    if "\<And>h. h \<in> set hs \<Longrightarrow> hr_id h \<in> S \<Longrightarrow> hr_watch_id h \<noteq> i" for hs :: "HitRow list" and S
    using that by (induction hs) (auto simp: update_where_def)
  have "map hr_hit (filter (\<lambda>h. hr_watch_id h = i \<and> \<not> hr_delivered h)
        (update_where (\<lambda>h. hr_id h \<in> hr_id ` set (take n (pending_rows wt j))) (\<lambda>h. h\<lparr> hr_delivered := True \<rparr>) (wt_hits wt))) = pending_hits wt i"
    unfolding pending_hits_def using own j by (intro gen) blast
  then show ?thesis by (simp add: take_watch_hits_def Let_def pending_hits_def)
qed

lemma pending_recorded:
  assumes "i \<in> wa_id ` set (wt_watches wt)"
  shows "pending_hits (snd (record_watch_hits wt j hits to now)) i = pending_hits wt i @ (if j = i then hits else [])"
proof -
  obtain new where new: "foldl (insert_hit j) (wt_hits wt) hits = wt_hits wt @ new" "map hr_hit new = hits"
    "\<And>h. h \<in> set new \<Longrightarrow> hr_watch_id h = j \<and> \<not> hr_delivered h"
    "sorted_wrt (<) (map hr_id (wt_hits wt)) \<Longrightarrow> sorted_wrt (<) (map hr_id (wt_hits wt @ new))" using insert_hits_new [of j "wt_hits wt" hits] by blast
  have "filter (\<lambda>h. hr_watch_id h = i \<and> \<not> hr_delivered h) new = (if j = i then new else [])"
    using new(3) by (auto simp: filter_id_conv filter_empty_conv)
  with new(1,2) assms show ?thesis by (auto simp: record_watch_hits_def pending_hits_def)
qed

text \<open>The watch is still there, under its name, unless it is deleted.\<close>

definition named :: "WatchTables \<Rightarrow> int \<Rightarrow> string \<Rightarrow> bool" where
  "named wt i name \<longleftrightarrow> (i, name) \<in> set (map (\<lambda>w. (wa_id w, wa_name w)) (wt_watches wt))"

lemma named_id: "named wt i name \<Longrightarrow> i \<in> wa_id ` set (wt_watches wt)"
  by (force simp: named_def)

lemma named_update:
  assumes "\<And>w. P w \<Longrightarrow> wa_id (f w) = wa_id w \<and> wa_name (f w) = wa_name w" and "wt_watches wt' = update_where P f (wt_watches wt)"
  shows "named wt' i name = named wt i name"
  using update_watch_columns(4) [OF assms(1), of P "wt_watches wt"] by (simp add: named_def assms(2))

lemma find_hit: "find P xs = Some x \<Longrightarrow> x \<in> set xs \<and> P x"
  by (induction xs) (auto split: if_splits)

lemma named_op:
  assumes ok: "watches_ok wt" and n: "named wt i name" and x: "x \<noteq> DeleteWatch name"
  shows "named (watch_op wt x) i name"
proof (cases x)
  case (CreateWatch nm p off now)
  show ?thesis
  proof (cases "nm \<in> wa_name ` set (wt_watches wt)")
    case True
    then show ?thesis using n CreateWatch by (simp add: create_watch_def Let_def named_def update_watch_columns del: set_map)
  next
    case False
    then show ?thesis using n CreateWatch by (auto simp: create_watch_def Let_def named_def)
  qed
next
  case (DeleteWatch nm)
  have "wa_id w \<noteq> i" if "w \<in> set (wt_watches wt)" "wa_name w = nm" for w
  proof
    assume "wa_id w = i"
    moreover obtain v where "v \<in> set (wt_watches wt)" "wa_id v = i" "wa_name v = name" using n by (auto simp: named_def)
    moreover have "inj_on wa_id (set (wt_watches wt))" using ok by (simp add: watches_ok_def strict_sorted_iff distinct_map)
    ultimately have "w = v" using that(1) by (auto dest: inj_onD)
    with \<open>wa_name v = name\<close> that(2) x DeleteWatch show False by simp
  qed
  then have "wa_id w \<noteq> i" if "find (\<lambda>w. wa_name w = nm) (wt_watches wt) = Some w" for w
    using find_hit [OF that] by blast
  then show ?thesis using n DeleteWatch
    by (auto simp: delete_watch_def named_def image_iff split: option.split)
next
  case (RecordHits j hits to now)
  then show ?thesis using n update_watch_columns(4) [of "\<lambda>w. wa_id w = j" "\<lambda>w. w\<lparr> wa_scanned_to := to, wa_last_polled := Some now \<rparr>" "wt_watches wt"]
    by (simp add: record_watch_hits_def named_def del: set_map)
qed (use n in \<open>simp_all add: take_watch_hits_def Let_def named_def set_watch_notify_def note_delivery_def update_watch_columns del: set_map\<close>)

lemma queue_step:
  assumes ok: "watches_ok wt" and n: "named wt i name" and x: "x \<noteq> DeleteWatch name"
  shows "handed_out i wt x @ pending_hits (watch_op wt x) i = pending_hits wt i @ recorded i x"
proof (cases x)
  case (RecordHits j hits to now)
  then show ?thesis using pending_recorded [OF named_id [OF n]] by simp
next
  case (TakeHits j k mark)
  show ?thesis
  proof (cases "j = i")
    case True
    show ?thesis using TakeHits True pending_taken [OF ok]
      by (cases mark) (simp_all add: take_watch_hits_def Let_def pending_hits_def)
  next
    case False
    then show ?thesis using TakeHits pending_other_taken [OF ok False] by simp
  qed
next
  case (DeleteWatch nm)
  have "i \<noteq> wa_id w" if "find (\<lambda>w. wa_name w = nm) (wt_watches wt) = Some w" for w
    using named_op [OF ok n x] named_id [of "watch_op wt x" i name] that DeleteWatch by (auto simp: delete_watch_def)
  then show ?thesis using DeleteWatch
    by (auto simp: delete_watch_def pending_hits_def intro!: arg_cong [of _ _ "map hr_hit"] filter_cong split: option.split)
qed (simp_all add: create_watch_def set_watch_notify_def note_delivery_def pending_hits_def Let_def)

section \<open>Properties\<close>

text \<open>C23. No firing is lost and none is delivered twice: over any sequence of operations on the watch
  tables that does not delete the watch, what consuming polls of the watch were handed, followed by
  what is still pending, is what was pending at the start followed by what was recorded, in order;
  the tables stay consistent throughout.\<close>

theorem watch_hits_delivered_once:
  assumes "watches_ok wt" and "named wt i name" and "DeleteWatch name \<notin> set ops"
  shows "all_handed_out i wt ops @ pending_hits (watch_run wt ops) i = pending_hits wt i @ concat (map (recorded i) ops) \<and>
    watches_ok (watch_run wt ops)"
  using assms
proof (induction ops arbitrary: wt)
  case (Cons x ops)
  have x: "x \<noteq> DeleteWatch name" using Cons.prems(3) by auto
  have "all_handed_out i (watch_op wt x) ops @ pending_hits (watch_run (watch_op wt x) ops) i =
      pending_hits (watch_op wt x) i @ concat (map (recorded i) ops)" "watches_ok (watch_run (watch_op wt x) ops)"
    using Cons.IH [OF watch_op_ok [OF Cons.prems(1)] named_op [OF Cons.prems(1,2) x]] Cons.prems(3) by simp_all
  moreover from this(1) have "handed_out i wt x @ all_handed_out i (watch_op wt x) ops @ pending_hits (watch_run (watch_op wt x) ops) i =
      (pending_hits wt i @ recorded i x) @ concat (map (recorded i) ops)"
    by (simp only: append_assoc queue_step [OF Cons.prems(1,2) x, symmetric])
  ultimately show ?case by simp
qed simp

section \<open>Polling and pushing\<close>

definition in_push_queue :: "WatchTables \<Rightarrow> string \<Rightarrow> HitRow \<Rightarrow> bool" where
  "in_push_queue wt name h \<longleftrightarrow>
     (\<exists>w\<in>set (wt_watches wt). wa_id w = hr_watch_id h \<and> wa_name w = name \<and> hr_id h > wa_delivered_to w)"

lemma push_queue_eq: "watches_ok wt \<Longrightarrow> push_queue wt name = filter (in_push_queue wt name) (wt_hits wt)"
  by (simp add: push_queue_def in_push_queue_def [abs_def] order_by_filter watches_ok_def)

lemma push_queue_taken:
  assumes "watches_ok wt"
  shows "map hit_json (push_queue (snd (take_watch_hits wt j n mark)) name) = map hit_json (push_queue wt name)"
proof -
  have "map hit_json (filter P (update_where Q (\<lambda>h. h\<lparr> hr_delivered := True \<rparr>) hs)) = map hit_json (filter P hs)"
    if "\<And>h. P (h\<lparr> hr_delivered := True \<rparr>) = P h" for P Q and hs :: "HitRow list"
    using that by (induction hs) (simp_all add: update_where_def hit_json_def)
  moreover have "in_push_queue wt name (h\<lparr> hr_delivered := True \<rparr>) = in_push_queue wt name h" for h by (simp add: in_push_queue_def)
  moreover have "in_push_queue (snd (take_watch_hits wt j n mark)) name = in_push_queue wt name"
    by (simp add: take_watch_hits_def Let_def in_push_queue_def [abs_def])
  ultimately show ?thesis
    by (simp add: push_queue_eq [OF take_hits_ok [OF assms]] push_queue_eq [OF assms]) (simp add: take_watch_hits_def Let_def)
qed

lemma in_push_queue_delivery:
  "in_push_queue (note_delivery wt name status up now) name h \<longleftrightarrow>
    in_push_queue wt name h \<and> \<not> (is_2xx status \<and> hr_id h \<le> (case up of Some k \<Rightarrow> k | None \<Rightarrow> 0))"
proof -
  define u where "u = (case up of Some k \<Rightarrow> k | None \<Rightarrow> 0)"
  define g where "g w = (if wa_name w = name then if is_2xx status
            then w\<lparr> wa_delivered := wa_delivered w + 1, wa_last_status := status, wa_last_delivery_at := Some now,
                    wa_delivered_to := max (wa_delivered_to w) u, wa_delivery_fail_streak := 0 \<rparr>
            else w\<lparr> wa_delivery_failed := wa_delivery_failed w + 1, wa_last_status := status, wa_last_delivery_at := Some now,
                    wa_delivery_fail_streak := wa_delivery_fail_streak w + 1 \<rparr> else w)" for w :: Watch
  have g: "wa_id (g w) = wa_id w" "wa_name (g w) = wa_name w"
    "wa_delivered_to (g w) = (if wa_name w = name \<and> is_2xx status then max (wa_delivered_to w) u else wa_delivered_to w)" for w
    by (simp_all add: g_def)
  have "wt_watches (note_delivery wt name status up now) = map g (wt_watches wt)"
    by (simp add: note_delivery_def update_where_def g_def [abs_def] u_def)
  then have "in_push_queue (note_delivery wt name status up now) name h \<longleftrightarrow>
      (\<exists>w\<in>set (wt_watches wt). wa_id w = hr_watch_id h \<and> wa_name w = name \<and> hr_id h > wa_delivered_to (g w))"
    by (simp add: in_push_queue_def g)
  also have "\<dots> \<longleftrightarrow> in_push_queue wt name h \<and> \<not> (is_2xx status \<and> hr_id h \<le> u)"
    unfolding in_push_queue_def g by (cases "is_2xx status") auto
  finally show ?thesis by (simp add: u_def)
qed

text \<open>Push and poll do not take work from each other: a poll, consuming or not, leaves what the
  push receiver is still owed as it was; a delivery attempt leaves what a poller will be handed as
  it was; an attempt without a 2xx answer keeps every firing queued, and one with it removes
  exactly the firings up to the one that was acknowledged.\<close>

theorem push_never_consumes:
  assumes "watches_ok wt"
  shows "undelivered_hits (snd (take_watch_hits wt j n mark)) name limit = undelivered_hits wt name limit \<and>
    pending_hits (note_delivery wt name status up now) i = pending_hits wt i \<and>
    (\<not> is_2xx status \<longrightarrow> push_queue (note_delivery wt name status up now) name = push_queue wt name) \<and>
    (is_2xx status \<longrightarrow> push_queue (note_delivery wt name status (Some k) now) name = filter (\<lambda>h. hr_id h > k) (push_queue wt name))"
proof -
  have ok: "watches_ok (note_delivery wt name status u now)" for u
    using watch_op_ok [OF assms, of "NoteDelivery name status u now"] by simp
  have hits: "wt_hits (note_delivery wt name status u now) = wt_hits wt" for u by (simp add: note_delivery_def)
  have q: "push_queue (note_delivery wt name status u now) name =
      filter (\<lambda>h. in_push_queue wt name h \<and> \<not> (is_2xx status \<and> hr_id h \<le> (case u of Some k \<Rightarrow> k | None \<Rightarrow> 0))) (wt_hits wt)" for u
    by (simp add: push_queue_eq [OF ok] hits in_push_queue_delivery cong: filter_cong)
  have "undelivered_hits (snd (take_watch_hits wt j n mark)) name limit = undelivered_hits wt name limit"
    by (simp only: undelivered_hits_def take_map [symmetric] push_queue_taken [OF assms])
  then show ?thesis
    by (auto simp: q push_queue_eq [OF assms] pending_hits_def hits not_le conj_commute intro!: filter_cong)
qed

section \<open>Examples\<close>

definition sample_hit :: "int \<Rightarrow> WatchHit" where
  "sample_hit t = \<lparr> wh_at = t, wh_stream_offset = nat t, wh_matched = ''reset'', wh_evidence = JNull \<rparr>"

definition sample_watches :: WatchTables where
  "sample_watches = snd (create_watch \<lparr> wt_watches = [], wt_hits = [] \<rparr> ''w'' JNull 0 1)"

definition sample_watch_ops :: "WatchOp list" where
  "sample_watch_ops = [RecordHits 1 [sample_hit 5, sample_hit 6] 10 7, TakeHits 1 1 True, RecordHits 1 [sample_hit 8] 12 9,
     TakeHits 1 9 False, NoteDelivery ''w'' (Some 200) (Some 2) 10, TakeHits 1 1 True]"

lemma sample_watches_ok: "watches_ok sample_watches" "named sample_watches 1 ''w''"
  by code_simp+

theorem watch_hits_delivered_once_witness:
  "all_handed_out 1 sample_watches sample_watch_ops @ pending_hits (watch_run sample_watches sample_watch_ops) 1 =
     [sample_hit 5, sample_hit 6, sample_hit 8]"
proof -
  have "DeleteWatch ''w'' \<notin> set sample_watch_ops" by (simp add: sample_watch_ops_def)
  moreover have "pending_hits sample_watches 1 @ concat (map (recorded 1) sample_watch_ops) = [sample_hit 5, sample_hit 6, sample_hit 8]"
    by code_simp
  ultimately show ?thesis using watch_hits_delivered_once [OF sample_watches_ok] by simp
qed

theorem push_never_consumes_witness:
  "\<forall>st. undelivered_hits (snd (take_watch_hits sample_watches 1 3 True)) ''w'' 9 = undelivered_hits sample_watches ''w'' 9 \<and>
     pending_hits (note_delivery sample_watches ''w'' st None 3) 1 = pending_hits sample_watches 1"
  using push_never_consumes [OF sample_watches_ok(1)] by blast

end
