(* ===== verification/Follow.thy ===== *)
theory Follow
  imports Console_State Store_Watches
begin

text \<open>
  Incremental consumption (\<^verbatim>\<open>crates/conminer-core/src/follow.rs\<close>): predicates, the increment since a
  cursor with its trimming to a response budget, and the replay of a predicate over the stored
  stream for a durable watch. The size of a serialised increment is the serialiser's and an
  argument; so are \<^verbatim>\<open>Regex::new\<close> and the lossy decoder. The watch tables belong to the same
  database as the store.
\<close>

section \<open>Predicates\<close>

definition SCAN_LIMIT :: nat where
  "SCAN_LIMIT = 50000"

datatype Predicate =
    Pattern string
  | TemplateNew
  | OnStage string
  | OnPrompt
  | QuietMs int
  | OnReset
  | OnWatch string
  | AnyOf "Predicate list"

fun watch_names :: "Predicate \<Rightarrow> string list" where
  "watch_names (OnWatch w) = [w]"
| "watch_names (AnyOf ps) = concat (map watch_names ps)"
| "watch_names _ = []"

text \<open>\<^verbatim>\<open>Value::get\<close> on an object.\<close>

fun jget :: "json \<Rightarrow> string \<Rightarrow> json option" where
  "jget (JObj m) k = map_of m k"
| "jget _ k = None"

definition as_str :: "json option \<Rightarrow> string option" where
  "as_str v = (case v of Some (JStr s) \<Rightarrow> Some s | _ \<Rightarrow> None)"

definition as_i64 :: "json option \<Rightarrow> int option" where
  "as_i64 v = (case v of Some (JInt i) \<Rightarrow> Some i | _ \<Rightarrow> None)"

definition parse_leaf :: "(string \<Rightarrow> Regex option) \<Rightarrow> json \<Rightarrow> Predicate res" where
  "parse_leaf compile v =
     (case as_str (jget v ''pattern'') of
        Some p \<Rightarrow> if compile p = None then Inl InvalidArgument else Inr (Pattern p)
      | None \<Rightarrow> (case as_str (jget v ''template'') of
            Some t \<Rightarrow> if t \<noteq> ''new'' then Inl InvalidArgument else Inr TemplateNew
          | None \<Rightarrow> (case as_str (jget v ''stage'') of
                Some s \<Rightarrow> Inr (OnStage s)
              | None \<Rightarrow>
                  if jget v ''prompt'' = Some (JBool True) then Inr OnPrompt
                  else case as_i64 (jget v ''quiet'') of
                         Some q \<Rightarrow> Inr (QuietMs q)
                       | None \<Rightarrow>
                           if jget v ''reset'' = Some (JBool True) then Inr OnReset
                           else case as_str (jget v ''watch'') of
                                  Some w \<Rightarrow> Inr (OnWatch w)
                                | None \<Rightarrow> Inl InvalidArgument)))"

lemma jget_smaller: "jget v k = Some (JArr list) \<Longrightarrow> size_list size list < size v"
proof (cases v)
  case (JObj m)
  assume "jget v k = Some (JArr list)"
  then have "(k, JArr list) \<in> set m" using JObj by (simp add: map_of_SomeD)
  then have "Suc (Suc (size_list size list)) \<le> size_list (size_prod (\<lambda>_. 0) size) m"
    using size_list_estimation' [of "(k, JArr list)" m _ "size_prod (\<lambda>_. 0) size"] by simp
  then show ?thesis using JObj by simp
qed simp_all

function (sequential) Predicate_parse :: "(string \<Rightarrow> Regex option) \<Rightarrow> json \<Rightarrow> Predicate res"
  and parse_all :: "(string \<Rightarrow> Regex option) \<Rightarrow> json list \<Rightarrow> Predicate list res" where
  "Predicate_parse compile v =
     (case jget v ''any'' of
        Some (JArr list) \<Rightarrow> and_then (parse_all compile list) (\<lambda>ps. Inr (AnyOf ps))
      | _ \<Rightarrow> parse_leaf compile v)"
| "parse_all compile [] = Inr []"
| "parse_all compile (v # vs) =
     and_then (Predicate_parse compile v) (\<lambda>p. and_then (parse_all compile vs) (\<lambda>ps. Inr (p # ps)))"
  by pat_completeness auto
termination
  by (relation "measure (case_sum (\<lambda>(c, v). size v) (\<lambda>(c, vs). size_list size vs))") (auto dest: jget_smaller)

fun Predicate_label :: "Predicate \<Rightarrow> string" where
  "Predicate_label (Pattern p) = ''pattern:'' @ p"
| "Predicate_label TemplateNew = ''template:new''"
| "Predicate_label (OnStage s) = ''stage:'' @ s"
| "Predicate_label OnPrompt = ''prompt''"
| "Predicate_label (QuietMs ms) = ''quiet:'' @ int_str ms"
| "Predicate_label OnReset = ''reset''"
| "Predicate_label (OnWatch w) = ''watch:'' @ w"
| "Predicate_label (AnyOf _) = ''any''"

section \<open>Rendering rows\<close>

fun Severity_json :: "Severity \<Rightarrow> json" where
  "Severity_json Emerg = JStr ''emerg''"
| "Severity_json Alert = JStr ''alert''"
| "Severity_json Crit = JStr ''crit''"
| "Severity_json Err = JStr ''err''"
| "Severity_json Warn = JStr ''warn''"
| "Severity_json Notice = JStr ''notice''"
| "Severity_json Info = JStr ''info''"
| "Severity_json Debug = JStr ''debug''"
| "Severity_json Unknown = JStr ''unknown''"

definition stage_json :: "StageRow \<Rightarrow> json" where
  "stage_json s = JObj [(''stage_id'', JInt (sg_id s)), (''name'', JStr (sg_name s)), (''profile'', JStr (sg_profile s)),
     (''entered_ts'', JInt (sg_entered_ts s)), (''banner_line_id'', opt_int (sg_banner_line_id s)), (''boot_id'', opt_int (sg_boot_id s))]"

definition stages_after_line :: "DeviceStore \<Rightarrow> int \<Rightarrow> StageRow list" where
  "stages_after_line s from_line_id =
     order_by sg_id (filter (\<lambda>g. case sg_banner_line_id g of Some i \<Rightarrow> i \<ge> from_line_id | None \<Rightarrow> False) (tb_stages (ds_db s)))"

definition i64_max :: int where
  "i64_max = 2 ^ 63 - 1"

definition first_line_of :: "LineRow list \<Rightarrow> int" where
  "first_line_of lines = (case lines of [] \<Rightarrow> i64_max | l # _ \<Rightarrow> lr_id l)"

definition text_evidence :: "(byte list \<Rightarrow> string) \<Rightarrow> LineRow \<Rightarrow> json" where
  "text_evidence lossy l = JObj [(''line_id'', JInt (lr_id l)), (''text'', JStr (LineRow_lossy lossy l))]"

definition template_json :: "TemplateRow \<Rightarrow> int \<Rightarrow> json" where
  "template_json t n = JObj [(''template_id'', JInt (tr_id t)), (''text'', JStr (tr_text t)), (''severity'', Severity_json (tr_severity t)),
     (''count'', JInt n)]"

definition count_json :: "TemplateRow \<Rightarrow> int \<Rightarrow> json" where
  "count_json t n = JObj [(''template_id'', JInt (tr_id t)), (''count'', JInt n)]"

section \<open>The increment\<close>

record Increment =
  ic_matched :: "string option"
  ic_evidence :: "json option"
  ic_lines :: nat
  ic_bytes :: nat
  ic_tail :: "json list"
  ic_new_templates :: "json list"
  ic_template_deltas :: "json list"
  ic_deltas_omitted :: nat
  ic_delta_text_dropped :: nat
  ic_tail_omitted :: nat
  ic_novel_text_dropped :: nat
  ic_novel_omitted :: nat
  ic_stages :: "json list"
  ic_boots_opened :: "int list"
  ic_crash_records :: "int list"
  ic_cursor :: string
  ic_idle_ms :: "int option"
  ic_scan_truncated :: bool

text \<open>\<^verbatim>\<open>counts\<close> and the two kinds of templates of the span: novel ones and repeats, a repeat with a flag
  that says whether it is at warn or worse.\<close>

definition template_counts :: "RecordRow list \<Rightarrow> (int, int) btree" where
  "template_counts records =
     foldl (\<lambda>m r. case rr_template_id r of Some t \<Rightarrow> bump t 1 m | None \<Rightarrow> m) [] records"

definition is_novel :: "DeviceStore \<Rightarrow> int \<Rightarrow> int \<Rightarrow> bool" where
  "is_novel s tid first_id \<longleftrightarrow>
     (case records_for_template s tid None None 1 0 of [] \<Rightarrow> False | r # _ \<Rightarrow> rr_first_line_id r \<ge> first_id)"

definition sort_template ::
    "DeviceStore \<Rightarrow> int \<Rightarrow> json list \<times> (bool \<times> json) list \<Rightarrow> int \<times> int \<Rightarrow> (json list \<times> (bool \<times> json) list) res" where
  "sort_template s first_id acc x =
     and_then (template_row s (fst x)) (\<lambda>t.
       if is_novel s (fst x) first_id then Inr (fst acc @ [template_json t (snd x)], snd acc)
       else let severe = tr_severity t \<le> Warn
            in Inr (fst acc, snd acc @ [(severe, if severe then template_json t (snd x) else count_json t (snd x))]))"

definition MAX_DELTAS :: nat where
  "MAX_DELTAS = 200"

text \<open>\<^verbatim>\<open>evaluate\<close>: the label of the predicate that fired, and the evidence.\<close>

definition fired :: "Predicate \<Rightarrow> json \<Rightarrow> (string \<times> json) option" where
  "fired p e = Some (Predicate_label p, e)"

record Span =
  sp_lines :: "LineRow list"
  sp_new_templates :: "json list"
  sp_stages :: "StageRow list"
  sp_boots :: "int list"
  sp_idle_ms :: "int option"

record FollowEnv =
  fe_lossy :: "byte list \<Rightarrow> string"
  fe_compile :: "string \<Rightarrow> Regex option"

definition prompt_evidence :: "Prompt \<Rightarrow> PromptSource \<Rightarrow> int \<Rightarrow> json" where
  "prompt_evidence p src fl = JObj [(''text'', JStr (pt_raw p)), (''boot_id'', JInt fl), (''unterminated'', JBool (is_unterminated src)),
     (''note'', JStr ''the console is at this prompt; the same answer console_state and boot_report give'')]"

definition watch_evidence :: "string \<Rightarrow> WatchHit \<Rightarrow> json" where
  "watch_evidence name h = JObj [(''watch'', JStr name), (''at'', JInt (wh_at h)), (''offset'', JInt (int (wh_stream_offset h))),
     (''matched'', JStr (wh_matched h)), (''evidence'', wh_evidence h)]"

fun evaluate :: "FollowEnv \<Rightarrow> DeviceStore \<Rightarrow> WatchTables \<Rightarrow> Prompts \<Rightarrow> Span \<Rightarrow> Predicate \<Rightarrow> (string \<times> json) option" where
  "evaluate E s wt prompts sp (OnWatch name) =
     (case peek_watch_hits wt name 1 of [] \<Rightarrow> None | h # _ \<Rightarrow> fired (OnWatch name) (watch_evidence name h))"
| "evaluate E s wt prompts sp (AnyOf ps) = find_map (\<lambda>x. x) (map (evaluate E s wt prompts sp) ps)"
| "evaluate E s wt prompts sp (Pattern p) =
     (case fe_compile E p of
        None \<Rightarrow> None
      | Some re \<Rightarrow> (case find (\<lambda>l. re_is_match re (LineRow_lossy (fe_lossy E) l)) (sp_lines sp) of
            Some l \<Rightarrow> fired (Pattern p) (text_evidence (fe_lossy E) l)
          | None \<Rightarrow> None))"
| "evaluate E s wt prompts sp TemplateNew =
     (case sp_new_templates sp of [] \<Rightarrow> None | t # _ \<Rightarrow> fired TemplateNew t)"
| "evaluate E s wt prompts sp (OnStage want) =
     (case find (\<lambda>g. sg_name g = want) (sp_stages sp) of Some g \<Rightarrow> fired (OnStage want) (stage_json g) | None \<Rightarrow> None)"
| "evaluate E s wt prompts sp OnPrompt =
     (if prompts = [] then None
      else case boot_floor s of
             None \<Rightarrow> None
           | Some fl \<Rightarrow> (case prompt_for_boot (fe_lossy E) s prompts fl True of
                 Some (p, src) \<Rightarrow> fired OnPrompt (prompt_evidence p src fl)
               | None \<Rightarrow> None))"
| "evaluate E s wt prompts sp (QuietMs want) =
     (case sp_idle_ms sp of
        Some ms \<Rightarrow> if ms \<ge> want then fired (QuietMs want) (JObj [(''idle_ms'', JInt ms), (''required_ms'', JInt want)]) else None
      | None \<Rightarrow> None)"
| "evaluate E s wt prompts sp OnReset =
     (case sp_boots sp of [] \<Rightarrow> None | b # _ \<Rightarrow> fired OnReset (JObj [(''boot_id'', JInt b)]))"

section \<open>Trimming to the budget\<close>

definition RESPONSE_BUDGET :: nat where
  "RESPONSE_BUDGET = 20000"

definition ENVELOPE_ALLOWANCE :: nat where
  "ENVELOPE_ALLOWANCE = 3000"

definition TAIL_FLOOR :: nat where
  "TAIL_FLOOR = 30"

definition NOVEL_TEXT_KEPT :: nat where
  "NOVEL_TEXT_KEPT = 20"

definition over :: "(Increment \<Rightarrow> nat) \<Rightarrow> Increment \<Rightarrow> bool" where
  "over sz inc \<longleftrightarrow> sz inc > RESPONSE_BUDGET - ENVELOPE_ALLOWANCE"

definition has_text :: "json \<Rightarrow> bool" where
  "has_text d \<longleftrightarrow> jget d ''text'' \<noteq> None"

function trim_deltas :: "(Increment \<Rightarrow> nat) \<Rightarrow> Increment \<Rightarrow> Increment" where
  "trim_deltas sz inc =
     (if over sz inc \<and> ic_template_deltas inc \<noteq> [] \<and> \<not> has_text (last (ic_template_deltas inc))
      then let drop1 = max (length (ic_template_deltas inc) div 10) 1
           in trim_deltas sz (inc\<lparr> ic_template_deltas := take (length (ic_template_deltas inc) - drop1) (ic_template_deltas inc),
                                   ic_deltas_omitted := ic_deltas_omitted inc + drop1 \<rparr>)
      else inc)"
  by pat_completeness auto
termination
  by (relation "measure (\<lambda>(sz, inc). length (ic_template_deltas inc))") (auto simp: Let_def)

function trim_tail :: "(Increment \<Rightarrow> nat) \<Rightarrow> Increment \<Rightarrow> Increment" where
  "trim_tail sz inc =
     (if over sz inc \<and> length (ic_tail inc) > TAIL_FLOOR
      then let drop1 = max ((length (ic_tail inc) - TAIL_FLOOR) div 2) 1
           in trim_tail sz (inc\<lparr> ic_tail := drop drop1 (ic_tail inc), ic_tail_omitted := ic_tail_omitted inc + drop1 \<rparr>)
      else inc)"
  by pat_completeness auto
termination
  by (relation "measure (\<lambda>(sz, inc). length (ic_tail inc))") (auto simp: Let_def)

text \<open>\<^verbatim>\<open>Map::remove\<close> of an ordered map: the last entry takes the place of the removed one.\<close>

fun swap_remove :: "string \<Rightarrow> json_map \<Rightarrow> json_map" where
  "swap_remove k [] = []"
| "swap_remove k ((k', v) # m) =
     (if k' = k then (if m = [] then [] else last m # butlast m) else (k', v) # swap_remove k m)"

fun drop_text :: "json \<Rightarrow> json" where
  "drop_text (JObj m) = (if has_text (JObj m) then JObj (swap_remove ''text'' m) else JObj m)"
| "drop_text v = v"

definition degrade_deltas :: "(Increment \<Rightarrow> nat) \<Rightarrow> Increment \<Rightarrow> Increment" where
  "degrade_deltas sz inc =
     (if over sz inc
      then inc\<lparr> ic_template_deltas := map drop_text (ic_template_deltas inc),
                ic_delta_text_dropped := ic_delta_text_dropped inc + length (filter has_text (ic_template_deltas inc)) \<rparr>
      else inc)"

definition degrade_novel :: "(Increment \<Rightarrow> nat) \<Rightarrow> Increment \<Rightarrow> Increment" where
  "degrade_novel sz inc =
     (if over sz inc
      then inc\<lparr> ic_new_templates := take NOVEL_TEXT_KEPT (ic_new_templates inc) @ map drop_text (drop NOVEL_TEXT_KEPT (ic_new_templates inc)),
                ic_novel_text_dropped := ic_novel_text_dropped inc + length (filter has_text (drop NOVEL_TEXT_KEPT (ic_new_templates inc))) \<rparr>
      else inc)"

function trim_novel :: "(Increment \<Rightarrow> nat) \<Rightarrow> Increment \<Rightarrow> Increment" where
  "trim_novel sz inc =
     (if over sz inc \<and> length (ic_new_templates inc) > 1
      then let drop1 = max (length (ic_new_templates inc) div 10) 1
           in trim_novel sz (inc\<lparr> ic_new_templates := take (length (ic_new_templates inc) - drop1) (ic_new_templates inc),
                                  ic_novel_omitted := ic_novel_omitted inc + drop1 \<rparr>)
      else inc)"
  by pat_completeness auto
termination
  by (relation "measure (\<lambda>(sz, inc). length (ic_new_templates inc))") (auto simp: Let_def)

declare trim_deltas.simps [simp del] trim_tail.simps [simp del] trim_novel.simps [simp del]

definition trim_increment :: "(Increment \<Rightarrow> nat) \<Rightarrow> Increment \<Rightarrow> Increment" where
  "trim_increment sz inc = trim_novel sz (degrade_novel sz (degrade_deltas sz (trim_tail sz (trim_deltas sz inc))))"

section \<open>The call\<close>

definition idle_since :: "DeviceStore \<Rightarrow> LineRow list \<Rightarrow> int \<Rightarrow> int option" where
  "idle_since s lines now_ms =
     map_option (\<lambda>t. max (now_ms - t) 0)
       (if lines \<noteq> [] then Some (lr_ts_wall (last lines))
        else case recent_lines s 1 of [] \<Rightarrow> None | l # _ \<Rightarrow> Some (lr_ts_wall l))"

definition tail_json :: "(byte list \<Rightarrow> string) \<Rightarrow> LineRow \<Rightarrow> json" where
  "tail_json lossy l = JObj [(''line_id'', JInt (lr_id l)), (''offset'', JInt (int (lr_stream_offset l))), (''ts_wall'', JInt (lr_ts_wall l)),
     (''boot_id'', opt_int (lr_boot_id l)), (''text'', JStr (LineRow_lossy lossy l))]"

definition newest_n :: "nat \<Rightarrow> 'a list \<Rightarrow> 'a list" where
  "newest_n n xs = rev (take n (rev xs))"

text \<open>The untrimmed answer.\<close>

definition gather ::
    "FollowEnv \<Rightarrow> DeviceStore \<Rightarrow> WatchTables \<Rightarrow> nat \<Rightarrow> Predicate \<Rightarrow> nat \<Rightarrow> Prompts \<Rightarrow> int \<Rightarrow> Increment res" where
  "gather E s wt start until max_lines prompts now_ms =
     (let lines = lines_after s start SCAN_LIMIT;
          first_id = first_line_of lines;
          records = records_after_line s first_id SCAN_LIMIT
      in and_then (for_each (sort_template s first_id) ([], []) (template_counts records)) (\<lambda>(new_templates, repeats).
           let repeats = sort_key (\<lambda>x. \<not> fst x) repeats;
               stages = stages_after_line s first_id;
               boots = boots_after_offset s start;
               idle = idle_since s lines now_ms;
               verdict = evaluate E s wt prompts
                 \<lparr> sp_lines = lines, sp_new_templates = new_templates, sp_stages = stages, sp_boots = boots, sp_idle_ms = idle \<rparr> until
           in Inr \<lparr> ic_matched = map_option fst verdict, ic_evidence = map_option snd verdict, ic_lines = length lines,
                    ic_bytes = sum_list (map LineRow_consumed lines), ic_tail = map (tail_json (fe_lossy E)) (newest_n max_lines lines),
                    ic_new_templates = new_templates, ic_template_deltas = map snd (take MAX_DELTAS repeats),
                    ic_deltas_omitted = length repeats - MAX_DELTAS, ic_delta_text_dropped = 0, ic_tail_omitted = 0,
                    ic_novel_text_dropped = 0, ic_novel_omitted = 0, ic_stages = map stage_json stages, ic_boots_opened = boots,
                    ic_crash_records = map rr_id (filter (\<lambda>r. rr_kind r = Crash) records),
                    ic_cursor = Cursor_encode (head_cursor s), ic_idle_ms = idle, ic_scan_truncated = (length lines \<ge> SCAN_LIMIT) \<rparr>))"

definition increment ::
    "FollowEnv \<Rightarrow> (Increment \<Rightarrow> nat) \<Rightarrow> DeviceStore \<Rightarrow> WatchTables \<Rightarrow> Cursor \<Rightarrow> Predicate \<Rightarrow> nat \<Rightarrow> Prompts \<Rightarrow> int \<Rightarrow> Increment res" where
  "increment E sz s wt from until max_lines prompts now_ms =
     and_then (resolve_cursor s from) (\<lambda>start.
       and_then (gather E s wt start until max_lines prompts now_ms) (\<lambda>inc. Inr (trim_increment sz inc)))"

section \<open>Replaying a predicate\<close>

definition line_hit :: "(byte list \<Rightarrow> string) \<Rightarrow> string \<Rightarrow> LineRow \<Rightarrow> WatchHit" where
  "line_hit lossy label l =
     \<lparr> wh_at = lr_ts_wall l, wh_stream_offset = lr_stream_offset l, wh_matched = label, wh_evidence = text_evidence lossy l \<rparr>"

definition novel_evidence :: "TemplateRow \<Rightarrow> RecordRow \<Rightarrow> json" where
  "novel_evidence t r = JObj [(''template_id'', JInt (tr_id t)), (''text'', JStr (tr_text t)), (''severity'', Severity_json (tr_severity t)),
     (''record_id'', JInt (rr_id r))]"

fun novel_hits :: "DeviceStore \<Rightarrow> int \<Rightarrow> int list \<Rightarrow> RecordRow list \<Rightarrow> WatchHit list res" where
  "novel_hits s first_id seen [] = Inr []"
| "novel_hits s first_id seen (r # rs) =
     (case rr_template_id r of
        None \<Rightarrow> novel_hits s first_id seen rs
      | Some tid \<Rightarrow>
          if tid \<in> set seen then novel_hits s first_id seen rs
          else if \<not> is_novel s tid first_id then novel_hits s first_id (tid # seen) rs
          else and_then (template_row s tid) (\<lambda>t. and_then (line_row s (rr_first_line_id r)) (\<lambda>l.
                 and_then (novel_hits s first_id (tid # seen) rs) (\<lambda>hs.
                   Inr (\<lparr> wh_at = lr_ts_wall l, wh_stream_offset = lr_stream_offset l, wh_matched = Predicate_label TemplateNew,
                          wh_evidence = novel_evidence t r \<rparr> # hs)))))"

definition stage_hit :: "DeviceStore \<Rightarrow> nat \<Rightarrow> string \<Rightarrow> StageRow \<Rightarrow> WatchHit" where
  "stage_hit s from_offset label g =
     \<lparr> wh_at = sg_entered_ts g,
       wh_stream_offset = (case sg_banner_line_id g of
           Some i \<Rightarrow> (case line_row s i of Inr l \<Rightarrow> lr_stream_offset l | Inl _ \<Rightarrow> from_offset)
         | None \<Rightarrow> from_offset),
       wh_matched = label, wh_evidence = stage_json g \<rparr>"

text \<open>The gaps between the lines of the scan, and the gap up to now.\<close>

definition gap_hit :: "string \<Rightarrow> int \<Rightarrow> LineRow \<times> LineRow \<Rightarrow> WatchHit option" where
  "gap_hit label want pair =
     (let gap = lr_ts_wall (snd pair) - lr_ts_wall (fst pair)
      in if gap \<ge> want
         then Some \<lparr> wh_at = lr_ts_wall (fst pair) + gap, wh_stream_offset = lr_stream_offset (snd pair), wh_matched = label,
                     wh_evidence = JObj [(''idle_ms'', JInt gap), (''required_ms'', JInt want),
                       (''before_line_id'', JInt (lr_id (fst pair))), (''after_line_id'', JInt (lr_id (snd pair)))] \<rparr>
         else None)"

definition trailing_hit :: "string \<Rightarrow> int \<Rightarrow> int \<Rightarrow> LineRow list \<Rightarrow> WatchHit list" where
  "trailing_hit label want now_ms lines =
     (if lines = [] then []
      else let l = last lines; gap = now_ms - lr_ts_wall l
           in if gap \<ge> want
              then [\<lparr> wh_at = now_ms, wh_stream_offset = end_offset l, wh_matched = label,
                      wh_evidence = JObj [(''idle_ms'', JInt gap), (''required_ms'', JInt want),
                        (''before_line_id'', JInt (lr_id l)), (''still_silent'', JBool True)] \<rparr>]
              else [])"

definition reset_hit :: "BootRow \<Rightarrow> WatchHit" where
  "reset_hit e = \<lparr> wh_at = ep_opened_at e, wh_stream_offset = ep_opened_offset e, wh_matched = Predicate_label OnReset,
     wh_evidence = JObj [(''boot_id'', JInt (ep_id e)), (''seq'', JInt (ep_seq e)), (''opened_by'', JStr (ep_opened_by e))] \<rparr>"

fun concat_ok :: "'a list res list \<Rightarrow> 'a list res" where
  "concat_ok [] = Inr []"
| "concat_ok (r # rs) = and_then r (\<lambda>xs. and_then (concat_ok rs) (\<lambda>ys. Inr (xs @ ys)))"

fun collect_hits :: "FollowEnv \<Rightarrow> DeviceStore \<Rightarrow> Prompts \<Rightarrow> LineRow list \<Rightarrow> nat \<Rightarrow> int \<Rightarrow> Predicate \<Rightarrow> WatchHit list res" where
  "collect_hits E s prompts lines from_offset now_ms (OnWatch w) = Inr []"
| "collect_hits E s prompts lines from_offset now_ms (AnyOf ps) = concat_ok (map (collect_hits E s prompts lines from_offset now_ms) ps)"
| "collect_hits E s prompts lines from_offset now_ms (Pattern p) =
     (case fe_compile E p of
        None \<Rightarrow> Inl InvalidArgument
      | Some re \<Rightarrow> Inr (map (line_hit (fe_lossy E) (Predicate_label (Pattern p)))
                          (filter (\<lambda>l. re_is_match re (LineRow_lossy (fe_lossy E) l)) lines)))"
| "collect_hits E s prompts lines from_offset now_ms TemplateNew =
     (let first_id = first_line_of lines in novel_hits s first_id [] (records_after_line s first_id SCAN_LIMIT))"
| "collect_hits E s prompts lines from_offset now_ms (OnStage want) =
     Inr (map (stage_hit s from_offset (Predicate_label (OnStage want)))
            (filter (\<lambda>g. sg_name g = want) (stages_after_line s (first_line_of lines))))"
| "collect_hits E s prompts lines from_offset now_ms OnPrompt =
     Inr (map (line_hit (fe_lossy E) (Predicate_label OnPrompt))
            (filter (\<lambda>l. Prompts_commandable prompts (LineRow_lossy (fe_lossy E) l) \<noteq> None) lines))"
| "collect_hits E s prompts lines from_offset now_ms (QuietMs want) =
     Inr (List.map_filter (gap_hit (Predicate_label (QuietMs want)) want) (zip lines (tl lines)) @
          trailing_hit (Predicate_label (QuietMs want)) want now_ms lines)"
| "collect_hits E s prompts lines from_offset now_ms OnReset =
     concat_ok (map (\<lambda>b. and_then (boot s b) (\<lambda>e. Inr [reset_hit e])) (boots_after_offset s from_offset))"

definition scanned_end :: "LineRow list \<Rightarrow> nat \<Rightarrow> nat" where
  "scanned_end lines from_offset = max (if lines = [] then from_offset else end_offset (last lines)) from_offset"

definition scan_hits ::
    "FollowEnv \<Rightarrow> DeviceStore \<Rightarrow> nat \<Rightarrow> Predicate \<Rightarrow> nat \<Rightarrow> Prompts \<Rightarrow> int \<Rightarrow> (WatchHit list \<times> nat) res" where
  "scan_hits E s from_offset until max_hits prompts now_ms =
     (let lines = lines_after s from_offset SCAN_LIMIT
      in and_then (collect_hits E s prompts lines from_offset now_ms until) (\<lambda>hits.
           Inr (take max_hits (sort_key (\<lambda>h. (wh_stream_offset h, wh_at h)) hits), scanned_end lines from_offset)))"

definition clamp_timeout :: "int option \<Rightarrow> nat \<Rightarrow> nat \<Rightarrow> int res" where
  "clamp_timeout requested default_s max_s =
     (let t = (case requested of Some r \<Rightarrow> r | None \<Rightarrow> int default_s)
      in if t \<le> 0 then Inl InvalidArgument else Inr (min t (int max_s)))"

end
