(* ===== verification/Follow_Laws.thy ===== *)
theory Follow_Laws
  imports Follow Store_Retention
begin

text \<open>
  What following a console promises: an answer trimmed to its budget accounts for everything it
  leaves out, and a watch replayed over the stored stream in any number of polls sees every
  matching line exactly once.
\<close>

section \<open>Trimming\<close>


















section \<open>Replaying a watch\<close>

text \<open>A predicate on single lines, as a test.\<close>

fun line_test :: "FollowEnv \<Rightarrow> Prompts \<Rightarrow> Predicate \<Rightarrow> (LineRow \<Rightarrow> bool) option" where
  "line_test E prompts (Pattern p) = map_option (\<lambda>re l. re_is_match re (LineRow_lossy (fe_lossy E) l)) (fe_compile E p)"
| "line_test E prompts OnPrompt = Some (\<lambda>l. Prompts_commandable prompts (LineRow_lossy (fe_lossy E) l) \<noteq> None)"
| "line_test E prompts _ = None"

lemma collect_line_hits:
  "line_test E prompts until = Some T \<Longrightarrow>
    collect_hits E s prompts ls n now until = Inr (map (line_hit (fe_lossy E) (Predicate_label until)) (filter T ls))"
  by (cases until) (auto split: option.splits)

lemma hits_in_order:
  assumes "sorted_wrt (<) (map lr_stream_offset ls)"
  shows "sort_key (\<lambda>h. (wh_stream_offset h, wh_at h)) (map (line_hit lossy label) (filter T ls)) = map (line_hit lossy label) (filter T ls)"
proof (rule sort_key_id_if_sorted)
  show "sorted (map (\<lambda>h. (wh_stream_offset h, wh_at h)) (map (line_hit lossy label) (filter T ls)))"
    using assms by (induction ls) (auto simp: line_hit_def less_eq_prod_def)
qed

text \<open>The firings of a whole stretch of the stream.\<close>

definition hits_between :: "FollowEnv \<Rightarrow> Predicate \<Rightarrow> (LineRow \<Rightarrow> bool) \<Rightarrow> DeviceStore \<Rightarrow> nat \<Rightarrow> nat \<Rightarrow> WatchHit list" where
  "hits_between E until T s a b =
     map (line_hit (fe_lossy E) (Predicate_label until))
       (filter T (filter (\<lambda>l. a \<le> lr_stream_offset l \<and> lr_stream_offset l < b) (tb_raw_lines (ds_db s))))"

lemma contiguous_last: "contiguous a xs m \<Longrightarrow> xs \<noteq> [] \<Longrightarrow> m = end_offset (last xs)"
  by (induction xs arbitrary: a) auto

lemma contiguous_upto:
  assumes "contiguous a (xs @ ys) z" and "xs \<noteq> []"
  shows "filter (\<lambda>l. lr_stream_offset l < end_offset (last xs)) (xs @ ys) = xs"
proof -
  obtain m where m: "contiguous a xs m" "contiguous m ys z" using assms(1) by (auto simp: contiguous_append)
  have "lr_stream_offset l < m" if "l \<in> set xs" for l
    using contiguous_bounds [OF m(1) that] contiguous_consumes [OF m(1) that] by (simp add: end_offset_eq)
  moreover have "\<not> lr_stream_offset l < m" if "l \<in> set ys" for l using contiguous_bounds [OF m(2) that] by simp
  ultimately show ?thesis using contiguous_last [OF m(1) assms(2)] by (simp add: filter_id_conv filter_empty_conv)
qed

lemma scan_line_hits:
  assumes s: "store_ok s" and T: "line_test E prompts until = Some T"
    and cap: "length (filter T (lines_after s a SCAN_LIMIT)) \<le> max_hits"
  defines "b \<equiv> scanned_end (lines_after s a SCAN_LIMIT) a"
  shows "scan_hits E s a until max_hits prompts now = Inr (hits_between E until T s a b, b)" "a \<le> b" "b = a \<or> b \<le> ds_stream_offset s"
proof -
  let ?ls = "tb_raw_lines (ds_db s)" and ?from = "filter (\<lambda>l. a \<le> lr_stream_offset l) (tb_raw_lines (ds_db s))"
  let ?page = "lines_after s a SCAN_LIMIT"
  have page: "?page = take SCAN_LIMIT ?from" by (rule lines_after_eq [OF store_stream [OF s]])
  from s obtain c where c: "contiguous c ?ls (ds_stream_offset s)" by (auto simp: store_ok_def tables_ok_def stream_ok_def)
  obtain c' where c': "contiguous c' ?from (ds_stream_offset s)" using contiguous_from [OF c, of a] by (auto simp: not_less)
  have upto: "filter (\<lambda>l. lr_stream_offset l < b) ?from = ?page"
  proof (cases "?page = []")
    case True
    moreover have "SCAN_LIMIT \<noteq> 0" by (simp add: SCAN_LIMIT_def)
    ultimately have "?from = []" unfolding page take_eq_Nil by blast
    then show ?thesis using True by simp
  next
    case False
    have b: "b = end_offset (last ?page)"
    proof -
      have "last ?page \<in> set ?from" using last_in_set [OF False] unfolding page by (rule in_set_takeD)
      then show ?thesis using False by (simp add: b_def scanned_end_def end_offset_eq)
    qed
    have split: "?page @ drop SCAN_LIMIT ?from = ?from" by (simp add: page)
    show ?thesis using contiguous_upto [of c' ?page "drop SCAN_LIMIT ?from" "ds_stream_offset s", unfolded split, OF c' False] by (simp only: b)
  qed
  have "sorted_wrt (<) (map lr_stream_offset ?page)"
    using sorted_filter_key [OF stream_offsets [OF store_stream [OF s]]] by (simp add: page sorted_wrt_take flip: take_map)
  then have "scan_hits E s a until max_hits prompts now = Inr (map (line_hit (fe_lossy E) (Predicate_label until)) (filter T ?page), b)"
    using cap by (simp add: scan_hits_def collect_line_hits [OF T] hits_in_order b_def Let_def)
  moreover have "hits_between E until T s a b = map (line_hit (fe_lossy E) (Predicate_label until)) (filter T ?page)"
    unfolding hits_between_def upto [symmetric] by (simp add: conj_commute)
  ultimately show "scan_hits E s a until max_hits prompts now = Inr (hits_between E until T s a b, b)" by simp
  show "a \<le> b" by (simp add: b_def scanned_end_def)
  have "end_offset l \<le> ds_stream_offset s" if "l \<in> set ?page" for l
    using that contiguous_bounds [OF c'] by (auto simp: page dest: in_set_takeD)
  then show "b = a \<or> b \<le> ds_stream_offset s" by (auto simp: b_def scanned_end_def max_def)
qed

text \<open>A watch polled at a sequence of moments, each with the store as it is then.\<close>

fun polls :: "FollowEnv \<Rightarrow> Prompts \<Rightarrow> Predicate \<Rightarrow> nat \<Rightarrow> nat \<Rightarrow> (DeviceStore \<times> int) list \<Rightarrow> (WatchHit list \<times> nat) res" where
  "polls E prompts until max_hits a [] = Inr ([], a)"
| "polls E prompts until max_hits a ((s, now) # ss) =
     and_then (scan_hits E s a until max_hits prompts now) (\<lambda>(h, b).
       and_then (polls E prompts until max_hits b ss) (\<lambda>(hs, e). Inr (h @ hs, e)))"

text \<open>No poll meets more firings than it may return.\<close>

fun polls_fit :: "(LineRow \<Rightarrow> bool) \<Rightarrow> nat \<Rightarrow> nat \<Rightarrow> (DeviceStore \<times> int) list \<Rightarrow> bool" where
  "polls_fit T max_hits a [] \<longleftrightarrow> True"
| "polls_fit T max_hits a ((s, now) # ss) \<longleftrightarrow>
     length (filter T (lines_after s a SCAN_LIMIT)) \<le> max_hits \<and>
     polls_fit T max_hits (scanned_end (lines_after s a SCAN_LIMIT) a) ss"

text \<open>What capture does to the lines between two polls: it appends at the end of the stream.\<close>

definition extends_lines :: "DeviceStore \<Rightarrow> DeviceStore \<Rightarrow> bool" where
  "extends_lines s s' \<longleftrightarrow> (\<exists>new. tb_raw_lines (ds_db s') = tb_raw_lines (ds_db s) @ new \<and>
     (\<forall>l\<in>set new. ds_stream_offset s \<le> lr_stream_offset l)) \<and> ds_stream_offset s \<le> ds_stream_offset s'"

lemma extends_trans:
  assumes "extends_lines s t" and "extends_lines t u"
  shows "extends_lines s u"
  using assms unfolding extends_lines_def by fastforce

lemma hits_between_split:
  assumes "store_ok s" and "a \<le> b" and "b \<le> c"
  shows "hits_between E until T s a b @ hits_between E until T s b c = hits_between E until T s a c"
proof -
  have "filter (\<lambda>l. a \<le> lr_stream_offset l \<and> lr_stream_offset l < b) ls @ filter (\<lambda>l. b \<le> lr_stream_offset l \<and> lr_stream_offset l < c) ls =
      filter (\<lambda>l. a \<le> lr_stream_offset l \<and> lr_stream_offset l < c) ls" if "sorted_wrt (<) (map lr_stream_offset ls)" for ls
    using that assms(2,3)
  proof (induction ls)
    case (Cons l ls)
    show ?case
    proof (cases "lr_stream_offset l < b")
      case False
      then have "filter (\<lambda>l. a \<le> lr_stream_offset l \<and> lr_stream_offset l < b) ls = []" using Cons.prems(1) by (auto simp: filter_empty_conv)
      with Cons False show ?thesis by auto
    qed (use Cons in auto)
  qed simp
  from this [OF stream_offsets [OF store_stream [OF assms(1)]]] show ?thesis
    unfolding hits_between_def by (metis filter_append map_append)
qed

lemma hits_between_extended:
  assumes "extends_lines s s'" and "b = a \<or> b \<le> ds_stream_offset s"
  shows "hits_between E until T s' a b = hits_between E until T s a b"
proof -
  from assms(1) obtain new where new: "tb_raw_lines (ds_db s') = tb_raw_lines (ds_db s) @ new"
    "\<forall>l\<in>set new. ds_stream_offset s \<le> lr_stream_offset l" by (auto simp: extends_lines_def)
  then have "filter (\<lambda>l. a \<le> lr_stream_offset l \<and> lr_stream_offset l < b) new = []"
    using assms(2) by (auto simp: filter_empty_conv)
  then show ?thesis by (simp add: hits_between_def new(1) del: filter_filter)
qed

text \<open>The scan of a chain of growing stores.\<close>

lemma polls_chain:
  assumes "line_test E prompts until = Some T" and "polls_fit T max_hits a ss" and "list_all (\<lambda>x. store_ok (fst x)) ss"
    and "sorted_wrt (\<lambda>x y. extends_lines (fst x) (fst y)) ss" and "ss \<noteq> []"
  shows "\<exists>e. polls E prompts until max_hits a ss = Inr (hits_between E until T (fst (last ss)) a e, e) \<and> a \<le> e"
  using assms(2-)
proof (induction ss arbitrary: a)
  case (Cons x ss)
  obtain s now where x: "x = (s, now)" by fastforce
  define b where "b = scanned_end (lines_after s a SCAN_LIMIT) a"
  have s: "store_ok s" "length (filter T (lines_after s a SCAN_LIMIT)) \<le> max_hits" using Cons.prems by (simp_all add: x)
  note scan = scan_line_hits [OF s(1) assms(1) s(2), folded b_def]
  show ?case
  proof (cases "ss = []")
    case True
    then show ?thesis using scan by (simp add: x)
  next
    case False
    with Cons obtain e where e: "polls E prompts until max_hits b ss = Inr (hits_between E until T (fst (last ss)) b e, e)" "b \<le> e"
      by (auto simp: x b_def)
    have l: "extends_lines s (fst (last ss))" "store_ok (fst (last ss))" using Cons.prems(2,3) False by (simp_all add: x list_all_iff)
    have "hits_between E until T s a b @ hits_between E until T (fst (last ss)) b e = hits_between E until T (fst (last ss)) a e"
      using hits_between_extended [OF l(1) scan(3)] hits_between_split [OF l(2) scan(2) e(2)] by simp
    with scan e False show ?thesis by (auto simp: x)
  qed
qed simp

text \<open>C24. A watch on lines misses nothing and repeats nothing: polled at any moments while capture
  appends to the stream, with no poll over its cap of firings, the firings of all polls together
  are exactly the matching lines between the watch's start and where it has scanned to, each once
  and in stream order.\<close>

theorem polled_watch_sees_each_line_once:
  assumes "line_test E prompts until = Some T" and "polls_fit T max_hits a ss" and "list_all (\<lambda>x. store_ok (fst x)) ss"
    and "sorted_wrt (\<lambda>x y. extends_lines (fst x) (fst y)) ss" and "ss \<noteq> []"
  shows "\<exists>e\<ge>a. polls E prompts until max_hits a ss =
    Inr (map (line_hit (fe_lossy E) (Predicate_label until))
           (filter T (filter (\<lambda>l. a \<le> lr_stream_offset l \<and> lr_stream_offset l < e) (tb_raw_lines (ds_db (fst (last ss)))))), e)"
  using polls_chain [OF assms] unfolding hits_between_def by blast

section \<open>Examples\<close>

definition match_all :: Regex where
  "match_all = \<lparr> re_is_match = (\<lambda>_. True), re_find = (\<lambda>_. None), re_count = (\<lambda>_. 0), re_captures = (\<lambda>_. None), re_capture_names = [],
     re_replace_all = (\<lambda>s _. s) \<rparr>"

definition sample_follow :: FollowEnv where
  "sample_follow = \<lparr> fe_lossy = map (\<lambda>b. char_of (unat b)), fe_compile = (\<lambda>_. Some match_all) \<rparr>"

lemma sample_follow_lines:
  "lines_after sample_filled 0 SCAN_LIMIT = tb_raw_lines (ds_db sample_filled)" "lines_after sample_filled 4 SCAN_LIMIT = []"
  by (simp_all add: lines_after_def order_by_def sample_filled_fields SCAN_LIMIT_def)

theorem polled_watch_sees_each_line_once_witness:
  "\<exists>e\<ge>0. polls sample_follow [] (Pattern ''x'') 10 0 [(sample_filled, 8), (sample_filled, 9)] =
    Inr (map (line_hit (fe_lossy sample_follow) ''pattern:x'')
           (filter (\<lambda>l. 0 \<le> lr_stream_offset l \<and> lr_stream_offset l < e) (tb_raw_lines (ds_db sample_filled))), e)"
proof -
  have T: "line_test sample_follow [] (Pattern ''x'') = Some (\<lambda>l. True)" by (simp add: sample_follow_def match_all_def fun_eq_iff)
  have "polls_fit (\<lambda>l. True) 10 0 [(sample_filled, 8), (sample_filled, 9)]"
    by (simp add: sample_follow_lines sample_filled_fields scanned_end_def end_offset_def)
  from polled_watch_sees_each_line_once [OF T this] show ?thesis by (simp add: sample_filled_ok extends_lines_def)
qed


section \<open>Firings a watch can lose or repeat\<close>

text \<open>A scan that meets more firings than it may return drops the rest but still moves past them.\<close>

lemma capped_scan_loses_firings:
  "\<exists>h. scan_hits sample_follow sample_filled 0 (Pattern ''x'') 1 [] 9 = Inr ([h], 4) \<and>
     scan_hits sample_follow sample_filled 4 (Pattern ''x'') 1 [] 9 = Inr ([], 4) \<and> length (tb_raw_lines (ds_db sample_filled)) = 2"
  by (simp add: scan_hits_def Let_def sample_follow_lines sample_follow_def match_all_def sample_filled_fields scanned_end_def end_offset_def
      line_hit_def)

text \<open>A silence that begins before a poll and ends after it is seen by no poll: the first looks too
  early, the next has no line before the gap.\<close>

lemma silence_across_polls_is_lost:
  "scan_hits sample_follow sample_filled 0 (QuietMs 50) 9 [] 8 = Inr ([], 4)"
  "scan_hits sample_follow sample_filled 4 (QuietMs 50) 9 [] 1000000 = Inr ([], 4)"
  by (simp_all add: scan_hits_def Let_def sample_follow_lines sample_filled_fields scanned_end_def end_offset_def gap_hit_def trailing_hit_def
      List.map_filter_def)

text \<open>An epoch that opened at the end of the stream is reported by every poll until a line arrives.\<close>

lemma reset_at_head_fires_again:
  assumes "lines_after s a SCAN_LIMIT = []" and "scan_hits E s a OnReset max_hits prompts now = Inr (hits, b)"
  shows "b = a \<and> scan_hits E s b OnReset max_hits prompts now' = Inr (hits, b)"
  using assms by (auto simp: scan_hits_def Let_def scanned_end_def)

text \<open>A novel template fires only for records that begin in the scanned lines: a record stored after
  its first line was scanned (the framer holds lines back) is never reported.\<close>

lemma late_record_never_fires:
  assumes "\<forall>r\<in>set (tb_records (ds_db s)). rr_first_line_id r < first_line_of (lines_after s a SCAN_LIMIT)"
  shows "\<exists>b. scan_hits E s a TemplateNew max_hits prompts now = Inr ([], b)"
proof -
  have "records_after_line s (first_line_of (lines_after s a SCAN_LIMIT)) SCAN_LIMIT = []"
  proof -
    have "filter (\<lambda>r. rr_first_line_id r \<ge> first_line_of (lines_after s a SCAN_LIMIT)) (tb_records (ds_db s)) = []"
      using assms by (auto simp: filter_empty_conv not_le)
    then show ?thesis by (simp add: records_after_line_def records_by_id_def order_by_def)
  qed
  then show ?thesis by (simp add: scan_hits_def Let_def)
qed

text \<open>Trimming takes repeats from the end in tenths, so a severe repeat can go with the ordinary ones
  although the order is meant to protect it.\<close>

lemma severe_repeat_can_be_dropped:
  assumes "length severe = 19" and "list_all has_text severe" and "\<not> has_text d"
    and "over sz inc" and "\<not> over sz (inc\<lparr> ic_template_deltas := butlast severe, ic_deltas_omitted := ic_deltas_omitted inc + 2 \<rparr>)"
    and "ic_template_deltas inc = severe @ [d]"
  shows "ic_template_deltas (trim_deltas sz inc) = butlast severe"
proof -
  let ?next = "inc\<lparr> ic_template_deltas := butlast severe, ic_deltas_omitted := ic_deltas_omitted inc + 2 \<rparr>"
  have "over sz inc \<and> ic_template_deltas inc \<noteq> [] \<and> \<not> has_text (last (ic_template_deltas inc))" using assms by simp
  moreover have "max (length (ic_template_deltas inc) div 10) 1 = 2" "length (ic_template_deltas inc) - 2 = 18" "take 18 (ic_template_deltas inc) = butlast severe"
    using assms(1,6) by (simp_all add: butlast_conv_take)
  ultimately have "trim_deltas sz inc = trim_deltas sz ?next" by (simp only: trim_deltas.simps [of sz inc] if_True simp_thms Let_def)
  also have "\<dots> = ?next" by (subst trim_deltas.simps) (simp only: assms(5) simp_thms if_False)
  finally show ?thesis by simp
qed

end
