(* ===== verification/Store_Notes.thy ===== *)
theory Store_Notes
  imports Store_Queries Bisect
begin

text \<open>
  What the device store remembers besides the console (\<^verbatim>\<open>store/device.rs\<close>): learned prompts,
  verdicts on templates, pinned metrics, images, timeline events, bisects and their results, and
  the learned expectations of a boot. The tables stand in a record of their own beside the
  store, with the constraints of \<^verbatim>\<open>store/schema.rs\<close> as error branches. In a unique index SQLite takes
  two NULLs for different, so a row with a NULL column conflicts with no row.
\<close>

section \<open>Tables\<close>

record PromptRow =
  pp_id :: int
  pp_pattern :: string
  pp_kind :: string
  pp_provenance :: string
  pp_stage :: "string option"
  pp_observations :: int
  pp_last_seen :: "int option"
  pp_last_boot_id :: "int option"

datatype Verdict = Benign | KnownBad | Investigating | Interesting

fun Verdict_as_str :: "Verdict \<Rightarrow> string" where
  "Verdict_as_str Benign = ''benign''"
| "Verdict_as_str KnownBad = ''known_bad''"
| "Verdict_as_str Investigating = ''investigating''"
| "Verdict_as_str Interesting = ''interesting''"

definition Verdict_parse :: "string \<Rightarrow> Verdict res" where
  "Verdict_parse s =
     (if s = ''benign'' then Inr Benign else if s = ''known_bad'' then Inr KnownBad
      else if s = ''investigating'' then Inr Investigating else if s = ''interesting'' then Inr Interesting
      else Inl InvalidArgument)"

record VerdictRow =
  vd_template_id :: int
  vd_verdict :: Verdict
  vd_note :: "string option"
  vd_ticket :: "string option"
  vd_author :: "string option"
  vd_updated_at :: int

record MetricRow =
  mt_name :: string
  mt_template_id :: int
  mt_slot :: int
  mt_agg :: string
  mt_unit :: "string option"
  mt_pinned_at :: int

record ImageRow =
  im_id :: int
  im_name :: "string option"
  im_git_sha :: "string option"
  im_image_hash :: "string option"
  im_source :: string
  im_meta :: json
  im_bound_at :: int

record EventRow =
  evt_id :: int
  evt_session_id :: "int option"
  evt_boot_id :: "int option"
  evt_at :: int
  evt_stream_offset :: nat
  evt_kind :: string
  evt_data :: json

record BisectRow =
  bw_id :: int
  bw_name :: string
  bw_candidates :: "string list"
  bw_predicate :: json
  bw_started_at :: int
  bw_finished_at :: "int option"
  bw_culprit :: "string option"
  bw_state :: string

record ResultRow =
  rw_bisect_id :: int
  rw_result :: BisectResult

record ExpectationRow =
  xr_template_id :: int
  xr_stage :: "string option"
  xr_seen_in :: int
  xr_reference_boots :: int
  xr_median_offset_ms :: "int option"
  xr_learned_at :: int

record Notes =
  nt_prompts :: "PromptRow list"
  nt_verdicts :: "VerdictRow list"
  nt_metrics :: "MetricRow list"
  nt_images :: "ImageRow list"
  nt_events :: "EventRow list"
  nt_bisects :: "BisectRow list"
  nt_bisect_results :: "ResultRow list"
  nt_expectations :: "ExpectationRow list"

definition empty_notes :: Notes where
  "empty_notes = \<lparr> nt_prompts = [], nt_verdicts = [], nt_metrics = [], nt_images = [], nt_events = [], nt_bisects = [],
     nt_bisect_results = [], nt_expectations = [] \<rparr>"

text \<open>\<^verbatim>\<open>INSERT .. ON CONFLICT .. DO UPDATE\<close>: the rows that conflict with the new one are updated,
  and without any the new row is inserted.\<close>

definition upsert :: "('a \<Rightarrow> bool) \<Rightarrow> ('a \<Rightarrow> 'a) \<Rightarrow> 'a \<Rightarrow> 'a list \<Rightarrow> 'a list" where
  "upsert P f row rows = (if list_ex P rows then update_where P f rows else rows @ [row])"

section \<open>Prompts\<close>

definition PROMPT_KINDS :: "string list" where
  "PROMPT_KINDS = [''shell'', ''bootloader'', ''rtos_shell'', ''monitor'', ''credential_gate'', ''ignore'']"

definition PROVENANCES :: "string list" where
  "PROVENANCES = [''profile'', ''configured'', ''learned'']"

definition learn_prompt :: "Notes \<Rightarrow> string \<Rightarrow> string \<Rightarrow> string \<Rightarrow> string option \<Rightarrow> int \<Rightarrow> unit res \<times> Notes" where
  "learn_prompt n pattern kind provenance stage now =
     (if kind \<notin> set PROMPT_KINDS \<or> provenance \<notin> set PROVENANCES then (Inl Internal, n)
      else (Inr (), n\<lparr> nt_prompts :=
        upsert (\<lambda>p. pp_pattern p = pattern \<and> stage \<noteq> None \<and> pp_stage p = stage)
          (\<lambda>p. p\<lparr> pp_kind := kind, pp_provenance := provenance, pp_observations := pp_observations p + 1, pp_last_seen := Some now \<rparr>)
          \<lparr> pp_id = next_id (map pp_id (nt_prompts n)), pp_pattern = pattern, pp_kind = kind, pp_provenance = provenance,
            pp_stage = stage, pp_observations = 1, pp_last_seen = Some now, pp_last_boot_id = None \<rparr>
          (nt_prompts n) \<rparr>))"

definition observe_prompt :: "Notes \<Rightarrow> string \<Rightarrow> string \<Rightarrow> string option \<Rightarrow> int \<Rightarrow> int option \<Rightarrow> unit res \<times> Notes" where
  "observe_prompt n pattern kind stage at1 boot_id =
     (let same = (\<lambda>p. pp_pattern p = pattern \<and> pp_stage p = stage)
      in if list_ex same (nt_prompts n)
         then (Inr (), n\<lparr> nt_prompts := update_where same
                (\<lambda>p. p\<lparr> pp_observations := pp_observations p + 1, pp_last_seen := Some at1, pp_last_boot_id := boot_id \<rparr>)
                (nt_prompts n) \<rparr>)
         else if kind \<notin> set PROMPT_KINDS then (Inl Internal, n)
         else (Inr (), n\<lparr> nt_prompts := nt_prompts n @
                [\<lparr> pp_id = next_id (map pp_id (nt_prompts n)), pp_pattern = pattern, pp_kind = kind, pp_provenance = ''learned'',
                   pp_stage = stage, pp_observations = 1, pp_last_seen = Some at1, pp_last_boot_id = boot_id \<rparr>] \<rparr>))"

definition prompts :: "Notes \<Rightarrow> string option \<Rightarrow> PromptRow list" where
  "prompts n stage =
     order_by (\<lambda>p. - pp_observations p) (order_by pp_id
       (filter (\<lambda>p. stage = None \<or> pp_stage p = stage \<or> pp_stage p = None) (nt_prompts n)))"

section \<open>Verdicts\<close>

definition set_verdict ::
    "DeviceStore \<Rightarrow> Notes \<Rightarrow> int \<Rightarrow> Verdict option \<Rightarrow> string option \<Rightarrow> string option \<Rightarrow> string option \<Rightarrow> int \<Rightarrow> unit res \<times> Notes" where
  "set_verdict s n template_id v note ticket author now =
     (case template_row s template_id of
        Inl e \<Rightarrow> (Inl e, n)
      | Inr _ \<Rightarrow>
          (Inr (), n\<lparr> nt_verdicts := (case v of
             None \<Rightarrow> filter (\<lambda>r. vd_template_id r \<noteq> template_id) (nt_verdicts n)
           | Some w \<Rightarrow>
               let row = \<lparr> vd_template_id = template_id, vd_verdict = w, vd_note = note, vd_ticket = ticket,
                           vd_author = author, vd_updated_at = now \<rparr>
               in upsert (\<lambda>r. vd_template_id r = template_id) (\<lambda>_. row) row (nt_verdicts n)) \<rparr>))"

definition verdict :: "Notes \<Rightarrow> int \<Rightarrow> VerdictRow option" where
  "verdict n template_id = find (\<lambda>r. vd_template_id r = template_id) (nt_verdicts n)"

definition verdicts :: "Notes \<Rightarrow> Verdict option \<Rightarrow> VerdictRow list" where
  "verdicts n only =
     order_by (\<lambda>r. - vd_updated_at r) (order_by vd_template_id (filter (\<lambda>r. or_any only (vd_verdict r)) (nt_verdicts n)))"

definition templates_with_verdict :: "Notes \<Rightarrow> Verdict \<Rightarrow> int set" where
  "templates_with_verdict n v = vd_template_id ` {r \<in> set (nt_verdicts n). vd_verdict r = v}"

text \<open>\<^verbatim>\<open>muted_templates\<close> states no order; the table is stored by its key.\<close>

definition muted_templates :: "Notes \<Rightarrow> int list" where
  "muted_templates n = sort (map vd_template_id (filter (\<lambda>r. vd_verdict r = Benign) (nt_verdicts n)))"

definition template_of_line :: "DeviceStore \<Rightarrow> int \<Rightarrow> int option" where
  "template_of_line s line_id =
     (case records_by_id s (\<lambda>r. rr_first_line_id r \<le> line_id \<and> line_id \<le> rr_last_line_id r) of
        [] \<Rightarrow> None | r # _ \<Rightarrow> rr_template_id r)"

section \<open>Metrics\<close>

definition AGGS :: "string list" where
  "AGGS = [''last'', ''first'', ''min'', ''max'']"

definition pin_metric :: "DeviceStore \<Rightarrow> Notes \<Rightarrow> string \<Rightarrow> int \<Rightarrow> int \<Rightarrow> string \<Rightarrow> string option \<Rightarrow> int \<Rightarrow> unit res \<times> Notes" where
  "pin_metric s n name template_id slot agg unit1 at1 =
     (if \<not> has_template (ds_db s) template_id \<or> agg \<notin> set AGGS then (Inl Internal, n)
      else let row = \<lparr> mt_name = name, mt_template_id = template_id, mt_slot = slot, mt_agg = agg, mt_unit = unit1, mt_pinned_at = at1 \<rparr>
           in (Inr (), n\<lparr> nt_metrics := upsert (\<lambda>m. mt_name m = name) (\<lambda>_. row) row (nt_metrics n) \<rparr>))"

definition unpin_metric :: "Notes \<Rightarrow> string \<Rightarrow> bool \<times> Notes" where
  "unpin_metric n name =
     (list_ex (\<lambda>m. mt_name m = name) (nt_metrics n), n\<lparr> nt_metrics := filter (\<lambda>m. mt_name m \<noteq> name) (nt_metrics n) \<rparr>)"

definition metrics :: "Notes \<Rightarrow> (string \<times> int \<times> int \<times> string \<times> string option \<times> int) list" where
  "metrics n = map (\<lambda>m. (mt_name m, mt_template_id m, mt_slot m, mt_agg m, mt_unit m, mt_pinned_at m)) (order_by mt_name (nt_metrics n))"

definition metric :: "Notes \<Rightarrow> string \<Rightarrow> (int \<times> int \<times> string \<times> string option) option" where
  "metric n name =
     map_option (\<lambda>m. (mt_template_id m, mt_slot m, mt_agg m, mt_unit m)) (find (\<lambda>m. mt_name m = name) (nt_metrics n))"

section \<open>Images\<close>

definition IMAGE_SOURCES :: "string list" where
  "IMAGE_SOURCES = [''explicit'', ''flash_hook'', ''banner'']"

definition conflicts :: "'a option \<Rightarrow> 'a option \<Rightarrow> bool" where
  "conflicts x y \<longleftrightarrow> x \<noteq> None \<and> x = y"

definition bind_image ::
    "Notes \<Rightarrow> string option \<Rightarrow> string option \<Rightarrow> string option \<Rightarrow> string \<Rightarrow> json \<Rightarrow> int \<Rightarrow> int res \<times> Notes" where
  "bind_image n name git_sha image_hash source meta now =
     (if source \<notin> set IMAGE_SOURCES then (Inl Internal, n)
      else let imgs = upsert (\<lambda>i. conflicts name (im_name i) \<and> conflicts git_sha (im_git_sha i) \<and> conflicts image_hash (im_image_hash i))
                        (\<lambda>i. i\<lparr> im_bound_at := now \<rparr>)
                        \<lparr> im_id = next_id (map im_id (nt_images n)), im_name = name, im_git_sha = git_sha, im_image_hash = image_hash,
                          im_source = source, im_meta = meta, im_bound_at = now \<rparr> (nt_images n)
           in (ok_or Internal (map_option im_id (find (\<lambda>i. im_name i = name \<and> im_git_sha i = git_sha \<and> im_image_hash i = image_hash) imgs)),
               n\<lparr> nt_images := imgs \<rparr>))"

definition set_boot_image :: "DeviceStore \<Rightarrow> int \<Rightarrow> int \<Rightarrow> DeviceStore" where
  "set_boot_image s boot_id image_id =
     (let db = ds_db s
      in s\<lparr> ds_db := db\<lparr> tb_boots := update_where (\<lambda>e. ep_id e = boot_id) (\<lambda>e. e\<lparr> ep_image_id := Some image_id \<rparr>) (tb_boots db) \<rparr> \<rparr>)"

text \<open>SQLite's \<^verbatim>\<open>LIKE\<close>: a percent sign stands for any text, an underscore for one character, and ASCII
  letters compare without case.\<close>

fun sql_like :: "string \<Rightarrow> string \<Rightarrow> bool" where
  "sql_like [] t = (t = [])"
| "sql_like (p # ps) t =
     (if p = CHR ''%'' then sql_like ps t \<or> (case t of [] \<Rightarrow> False | _ # t' \<Rightarrow> sql_like (p # ps) t')
      else case t of [] \<Rightarrow> False | c # t' \<Rightarrow> (p = CHR ''_'' \<or> to_ascii_lower p = to_ascii_lower c) \<and> sql_like ps t')"

definition like_prefix :: "string \<Rightarrow> string option \<Rightarrow> bool" where
  "like_prefix p x = (case x of None \<Rightarrow> False | Some t \<Rightarrow> sql_like (p @ ''%'') t)"

definition image_matches :: "string \<Rightarrow> ImageRow \<Rightarrow> bool" where
  "image_matches reference i \<longleftrightarrow> im_name i = Some reference \<or> im_git_sha i = Some reference \<or>
     im_image_hash i = Some reference \<or> like_prefix reference (im_git_sha i)"

definition boots_for_image :: "DeviceStore \<Rightarrow> Notes \<Rightarrow> string \<Rightarrow> int list" where
  "boots_for_image s n reference =
     map ep_id (boots_by_seq s (\<lambda>e. list_ex (\<lambda>i. ep_image_id e = Some (im_id i) \<and> image_matches reference i) (nt_images n)))"

definition opt_str :: "string option \<Rightarrow> json" where
  "opt_str x = (case x of None \<Rightarrow> JNull | Some t \<Rightarrow> JStr t)"

definition image :: "Notes \<Rightarrow> int \<Rightarrow> json res" where
  "image n i = ok_or UnknownArgument (map_option
     (\<lambda>r. JObj [(''id'', JInt (im_id r)), (''name'', opt_str (im_name r)), (''git_sha'', opt_str (im_git_sha r)),
                (''image_hash'', opt_str (im_image_hash r)), (''source'', JStr (im_source r)), (''meta'', im_meta r),
                (''bound_at'', JInt (im_bound_at r))])
     (find (\<lambda>r. im_id r = i) (nt_images n)))"

text \<open>\<^verbatim>\<open>intended_image\<close>: the newest claim of a flash hook or a binding; the hook wins a tie.\<close>

definition last_flash :: "Notes \<Rightarrow> EventRow option" where
  "last_flash n = newest (order_by evt_at (order_by evt_id (filter (\<lambda>e. evt_kind e = ''flash'') (nt_events n))))"

definition last_binding :: "Notes \<Rightarrow> ImageRow option" where
  "last_binding n = newest (order_by im_bound_at (order_by im_id (nt_images n)))"

definition obj_str :: "string \<Rightarrow> json \<Rightarrow> string option" where
  "obj_str k v = (case v of JObj m \<Rightarrow> (case map_of m k of Some (JStr t) \<Rightarrow> Some t | _ \<Rightarrow> None) | _ \<Rightarrow> None)"

definition obj_int :: "string \<Rightarrow> json \<Rightarrow> int option" where
  "obj_int k v = (case v of JObj m \<Rightarrow> (case map_of m k of Some (JInt i) \<Rightarrow> Some i | _ \<Rightarrow> None) | _ \<Rightarrow> None)"

definition or_else :: "'a option \<Rightarrow> 'a option \<Rightarrow> 'a option" where
  "or_else x y = (case x of None \<Rightarrow> y | Some _ \<Rightarrow> x)"

definition hook_claim :: "EventRow \<Rightarrow> json" where
  "hook_claim e = JObj [(''via'', JStr ''flash_hook''), (''ref'', opt_str (obj_str ''image'' (evt_data e))),
     (''at'', JInt (evt_at e)), (''event_id'', JInt (evt_id e)), (''detail'', evt_data e)]"

definition bound_claim :: "ImageRow \<Rightarrow> json" where
  "bound_claim i = JObj [(''via'', JStr ''set_image''),
     (''ref'', opt_str (or_else (im_name i) (or_else (im_git_sha i) (im_image_hash i)))),
     (''at'', JInt (im_bound_at i)), (''image_id'', JInt (im_id i)),
     (''detail'', JObj [(''name'', opt_str (im_name i)), (''git_sha'', opt_str (im_git_sha i)), (''image_hash'', opt_str (im_image_hash i))])]"

definition intended_image :: "Notes \<Rightarrow> json option" where
  "intended_image n =
     (case (last_flash n, last_binding n) of
        (None, None) \<Rightarrow> None
      | (Some e, None) \<Rightarrow> Some (hook_claim e)
      | (Some e, Some i) \<Rightarrow> if evt_at e \<ge> im_bound_at i then Some (hook_claim e) else Some (bound_claim i)
      | (None, Some i) \<Rightarrow> Some (bound_claim i))"

section \<open>Events and evidence\<close>

definition append_event :: "DeviceStore \<Rightarrow> Notes \<Rightarrow> int option \<Rightarrow> int option \<Rightarrow> int \<Rightarrow> string \<Rightarrow> json \<Rightarrow> int res \<times> Notes" where
  "append_event s n session_id boot_id at1 kind data =
     (if \<not> opt_all (has_session (ds_db s)) session_id \<or> \<not> opt_all (\<lambda>b. b \<in> ep_id ` set (tb_boots (ds_db s))) boot_id
      then (Inl Internal, n)
      else let i = next_id (map evt_id (nt_events n))
           in (Inr i, n\<lparr> nt_events := nt_events n @
                [\<lparr> evt_id = i, evt_session_id = session_id, evt_boot_id = boot_id, evt_at = at1,
                   evt_stream_offset = ds_stream_offset s, evt_kind = kind, evt_data = data \<rparr>] \<rparr>))"

definition events :: "Notes \<Rightarrow> int option \<Rightarrow> string option \<Rightarrow> nat \<Rightarrow> EventRow list" where
  "events n boot_id kind limit =
     take limit (rev (order_by evt_id
       (filter (\<lambda>e. (boot_id = None \<or> evt_boot_id e = boot_id) \<and> or_any kind (evt_kind e)) (nt_events n))))"

definition timeline_events :: "Notes \<Rightarrow> int option \<Rightarrow> string option \<Rightarrow> nat \<Rightarrow> EventRow list" where
  "timeline_events n boot_id kind_prefix limit =
     take limit (order_by evt_at (order_by evt_id
       (filter (\<lambda>e. (boot_id = None \<or> evt_boot_id e = boot_id) \<and> opt_all (\<lambda>p. sql_like (p @ ''%'') (evt_kind e)) kind_prefix)
         (nt_events n))))"

text \<open>The epoch whose span contains a moment. Two epochs that opened at the same moment tie; the
  statement leaves the choice open, the model takes the later row.\<close>

definition boot_at :: "DeviceStore \<Rightarrow> int \<Rightarrow> BootRow option" where
  "boot_at s at1 =
     newest (order_by ep_opened_at (filter (\<lambda>e. ep_opened_at e \<le> at1 \<and> opt_all (\<lambda>c. c \<ge> at1) (ep_closed_at e)) (tb_boots (ds_db s))))"

definition templates_in_boot :: "DeviceStore \<Rightarrow> int \<Rightarrow> int set" where
  "templates_in_boot s boot_id = oc_template_id ` {r \<in> set (tb_occurrences (ds_db s)). oc_boot_id r = boot_id}"

definition add_count :: "(int, string \<times> int) btree \<Rightarrow> int \<times> string \<times> int \<Rightarrow> (int, string \<times> int) btree" where
  "add_count m = (\<lambda>(i, txt, k). case bt_get m i of None \<Rightarrow> bt_insert i (txt, k) m | Some (t, c) \<Rightarrow> bt_insert i (t, c + k) m)"

definition counted_rows :: "DeviceStore \<Rightarrow> int \<Rightarrow> (int \<times> string \<times> int) list" where
  "counted_rows s b =
     List.map_filter (\<lambda>r. if oc_boot_id r = b
         then map_option (\<lambda>t. (tr_id t, tr_text t, oc_count r)) (find (\<lambda>t. tr_id t = oc_template_id r) (tb_templates (ds_db s)))
         else None) (tb_occurrences (ds_db s))"

definition template_counts_for_boots :: "DeviceStore \<Rightarrow> int list \<Rightarrow> (int, string \<times> int) btree" where
  "template_counts_for_boots s boots = foldl (\<lambda>m b. foldl add_count m (counted_rows s b)) [] boots"

section \<open>Bisects\<close>

definition create_bisect :: "Notes \<Rightarrow> string \<Rightarrow> string list \<Rightarrow> json \<Rightarrow> int \<Rightarrow> int res \<times> Notes" where
  "create_bisect n name candidates predicate now =
     (let rows = upsert (\<lambda>b. bw_name b = name)
            (\<lambda>b. b\<lparr> bw_candidates := candidates, bw_predicate := predicate, bw_started_at := now, bw_finished_at := None,
                     bw_culprit := None, bw_state := ''running'' \<rparr>)
            \<lparr> bw_id = next_id (map bw_id (nt_bisects n)), bw_name = name, bw_candidates = candidates, bw_predicate = predicate,
              bw_started_at = now, bw_finished_at = None, bw_culprit = None, bw_state = ''running'' \<rparr> (nt_bisects n)
      in case find (\<lambda>b. bw_name b = name) rows of
           None \<Rightarrow> (Inl Internal, n\<lparr> nt_bisects := rows \<rparr>)
         | Some b \<Rightarrow> (Inr (bw_id b), n\<lparr> nt_bisects := rows,
             nt_bisect_results := filter (\<lambda>r. rw_bisect_id r \<noteq> bw_id b) (nt_bisect_results n) \<rparr>))"

definition bisect_results :: "Notes \<Rightarrow> int \<Rightarrow> BisectResult list" where
  "bisect_results n i = order_by br_idx (map rw_result (filter (\<lambda>r. rw_bisect_id r = i) (nt_bisect_results n)))"

definition bisect_of :: "BisectRow \<Rightarrow> BisectResult list \<Rightarrow> Bisect" where
  "bisect_of b rs = \<lparr> bi_id = bw_id b, bi_name = bw_name b, bi_candidates = bw_candidates b, bi_predicate = bw_predicate b,
     bi_started_at = bw_started_at b, bi_finished_at = bw_finished_at b, bi_culprit = bw_culprit b, bi_state = bw_state b,
     bi_results = rs \<rparr>"

definition bisect :: "Notes \<Rightarrow> string \<Rightarrow> Bisect res" where
  "bisect n name =
     and_then (ok_or UnknownBisect (find (\<lambda>b. bw_name b = name) (nt_bisects n)))
       (\<lambda>b. Inr (bisect_of b (bisect_results n (bw_id b))))"

definition bisects :: "Notes \<Rightarrow> string list" where
  "bisects n = map bw_name (order_by (\<lambda>b. - bw_started_at b) (nt_bisects n))"

definition VERDICTS :: "string list" where
  "VERDICTS = [''good'', ''bad'', ''skip'']"

definition record_bisect_result ::
    "Notes \<Rightarrow> int \<Rightarrow> nat \<Rightarrow> string \<Rightarrow> int option \<Rightarrow> string option \<Rightarrow> int \<Rightarrow> unit res \<times> Notes" where
  "record_bisect_result n i idx v boot_id note now =
     (if i \<notin> bw_id ` set (nt_bisects n) \<or> v \<notin> set VERDICTS then (Inl Internal, n)
      else let row = \<lparr> rw_bisect_id = i, rw_result = \<lparr> br_idx = idx, br_verdict = v, br_boot_id = boot_id, br_at = now, br_note = note \<rparr> \<rparr>
           in (Inr (), n\<lparr> nt_bisect_results :=
                 upsert (\<lambda>r. rw_bisect_id r = i \<and> br_idx (rw_result r) = idx) (\<lambda>_. row) row (nt_bisect_results n) \<rparr>))"

definition BISECT_STATES :: "string list" where
  "BISECT_STATES = [''running'', ''done'', ''aborted'', ''inconclusive'']"

definition finish_bisect :: "Notes \<Rightarrow> int \<Rightarrow> string \<Rightarrow> string option \<Rightarrow> int \<Rightarrow> unit res \<times> Notes" where
  "finish_bisect n i state culprit now =
     (if i \<in> bw_id ` set (nt_bisects n) \<and> state \<notin> set BISECT_STATES then (Inl Internal, n)
      else (Inr (), n\<lparr> nt_bisects := update_where (\<lambda>b. bw_id b = i)
             (\<lambda>b. b\<lparr> bw_state := state, bw_culprit := culprit, bw_finished_at := Some now \<rparr>) (nt_bisects n) \<rparr>))"

section \<open>Expectations\<close>

text \<open>\<^verbatim>\<open>template_first_ts_in_boot\<close>: one row per template, by its id.\<close>

definition boot_occurrences :: "DeviceStore \<Rightarrow> int \<Rightarrow> OccurrenceRow list" where
  "boot_occurrences s boot_id = filter (\<lambda>r. oc_boot_id r = boot_id) (tb_occurrences (ds_db s))"

definition template_first_ts_in_boot :: "DeviceStore \<Rightarrow> int \<Rightarrow> (int \<times> int) list" where
  "template_first_ts_in_boot s boot_id =
     (let rows = boot_occurrences s boot_id
      in map (\<lambda>t. (t, Min (oc_first_ts ` {r \<in> set rows. oc_template_id r = t}))) (sorted_list_of_set (oc_template_id ` set rows)))"

definition replace_expectations :: "DeviceStore \<Rightarrow> Notes \<Rightarrow> (int \<times> int \<times> int option) list \<Rightarrow> int \<Rightarrow> int \<Rightarrow> unit res \<times> Notes" where
  "replace_expectations s n rows reference_boots now =
     (let fit = List.map_filter (\<lambda>(tid, seen_in, median).
            map_option (\<lambda>t. \<lparr> xr_template_id = tid, xr_stage = tr_stage t, xr_seen_in = seen_in, xr_reference_boots = reference_boots,
                              xr_median_offset_ms = median, xr_learned_at = now \<rparr>)
              (find (\<lambda>t. tr_id t = tid) (tb_templates (ds_db s)))) rows
      in if distinct (map xr_template_id fit) then (Inr (), n\<lparr> nt_expectations := fit \<rparr>) else (Inl Internal, n))"

record Expectation =
  xp_template_id :: int
  xp_text :: string
  xp_stage :: "string option"
  xp_seen_in :: int
  xp_reference_boots :: int
  xp_reliability :: rat
  xp_median_offset_ms :: "int option"

definition expectation_of :: "ExpectationRow \<Rightarrow> TemplateRow \<Rightarrow> Expectation" where
  "expectation_of r t = \<lparr> xp_template_id = xr_template_id r, xp_text = tr_text t, xp_stage = xr_stage r, xp_seen_in = xr_seen_in r,
     xp_reference_boots = xr_reference_boots r,
     xp_reliability = (if xr_reference_boots r > 0 then of_int (xr_seen_in r) / of_int (xr_reference_boots r) else 0),
     xp_median_offset_ms = xr_median_offset_ms r \<rparr>"

definition expectations :: "DeviceStore \<Rightarrow> Notes \<Rightarrow> Expectation list" where
  "expectations s n =
     order_by (\<lambda>e. - xp_seen_in e) (order_by xp_template_id
       (List.map_filter (\<lambda>r. map_option (expectation_of r) (find (\<lambda>t. tr_id t = xr_template_id r) (tb_templates (ds_db s))))
         (nt_expectations n)))"

section \<open>Keys with missing columns\<close>

text \<open>A prompt that belongs to no stage is stored again each time it is learned, and never counted
  beyond one observation.\<close>

lemma stageless_prompt_duplicates:
  "map pp_observations (nt_prompts (snd (learn_prompt (snd (learn_prompt empty_notes ''=> '' ''bootloader'' ''configured'' None 1))
     ''=> '' ''bootloader'' ''configured'' None 2))) = [1, 1]"
  by code_simp

text \<open>Binding the same build again with a column left out adds a row, and answers with the old one.\<close>

lemma partial_image_duplicates:
  "let n = snd (bind_image empty_notes (Some ''v1'') None None ''explicit'' JNull 1)
   in fst (bind_image n (Some ''v1'') None None ''explicit'' JNull 2) = Inr 1 \<and>
      map im_bound_at (nt_images (snd (bind_image n (Some ''v1'') None None ''explicit'' JNull 2))) = [1, 2]"
  by code_simp

text \<open>A reference that is a prefix of two builds resolves to the epochs of both.\<close>

lemma ambiguous_reference_matches_both:
  "image_matches ''ab'' \<lparr> im_id = 1, im_name = None, im_git_sha = Some ''abc1'', im_image_hash = None, im_source = ''explicit'', im_meta = JNull, im_bound_at = 0 \<rparr> \<and>
   image_matches ''ab'' \<lparr> im_id = 2, im_name = None, im_git_sha = Some ''abd2'', im_image_hash = None, im_source = ''explicit'', im_meta = JNull, im_bound_at = 0 \<rparr>"
  by code_simp

end
