(* ===== verification/Stored_Bisect.thy ===== *)
theory Stored_Bisect
  imports Store_Notes
begin

text \<open>
  A bisect driven through the store: the tools \<^verbatim>\<open>bisect_start\<close> and \<^verbatim>\<open>bisect_report\<close>
  (\<^verbatim>\<open>crates/conminer-mcp/src/tools.rs\<close>), which keep the search in the rows of the device store, and
  the classification of an epoch (\<^verbatim>\<open>classify_for_bisect\<close> of \<^verbatim>\<open>report.rs\<close>). The theorem follows a client
  that always tests the build it is told to test.
\<close>

section \<open>Tools\<close>

definition classify_for_bisect :: "DeviceStore \<Rightarrow> int \<Rightarrow> json \<Rightarrow> string res" where
  "classify_for_bisect s boot_id predicate =
     and_then (boot s boot_id) (\<lambda>e.
       case obj_int ''template_id'' predicate of
         Some tid \<Rightarrow> Inr (if tid \<in> templates_in_boot s boot_id then ''bad'' else ''good'')
       | None \<Rightarrow>
         (case obj_str ''fingerprint'' predicate of
            Some fp \<Rightarrow> Inr (case ep_fingerprint e of None \<Rightarrow> ''skip'' | Some seen \<Rightarrow> if seen = fp then ''bad'' else ''good'')
          | None \<Rightarrow>
            (case obj_str ''outcome'' predicate of
               Some want \<Rightarrow> Inr (case ep_outcome e of None \<Rightarrow> ''skip'' | Some out \<Rightarrow> if out = want then ''bad'' else ''good'')
             | None \<Rightarrow> Inr (case ep_outcome e of None \<Rightarrow> ''skip'' | Some out \<Rightarrow> if out = ''booted'' then ''good'' else ''bad''))))"

definition bisect_start :: "Notes \<Rightarrow> string \<Rightarrow> string list \<Rightarrow> json \<Rightarrow> int \<Rightarrow> (Bisect \<times> Step option) res \<times> Notes" where
  "bisect_start n name candidates predicate now =
     (if length candidates < 2 then (Inl InvalidArgument, n)
      else case create_bisect n name candidates predicate now of
             (Inl e, n) \<Rightarrow> (Inl e, n)
           | (Inr _, n) \<Rightarrow> (and_then (bisect n name) (\<lambda>b. Inr (b, next_step b)), n))"

record BisectReport =
  rp_candidate :: string
  rp_verdict :: string
  rp_next :: Step
  rp_contradiction :: "(string \<times> string) option"
  rp_tested :: nat
  rp_candidates :: nat

definition verdict_to_record :: "DeviceStore \<Rightarrow> Bisect \<Rightarrow> string option \<Rightarrow> int option \<Rightarrow> string res" where
  "verdict_to_record s b v boot_id =
     (case v of Some w \<Rightarrow> Inr w
      | None \<Rightarrow> (case boot_id of Some i \<Rightarrow> classify_for_bisect s i (bi_predicate b) | None \<Rightarrow> Inl InvalidArgument))"

definition write_down :: "Notes \<Rightarrow> int \<Rightarrow> Step \<Rightarrow> int \<Rightarrow> unit res \<times> Notes" where
  "write_down n i step now =
     (case step of
        Found idx c lg \<Rightarrow> finish_bisect n i ''done'' (Some c) now
      | Inconclusive bt sk \<Rightarrow> finish_bisect n i ''inconclusive'' None now
      | _ \<Rightarrow> (Inr (), n))"

text \<open>\<^verbatim>\<open>bisect_report\<close>. A panic of the search is the internal error the server answers with.\<close>

definition bisect_report ::
    "DeviceStore \<Rightarrow> Notes \<Rightarrow> string \<Rightarrow> string \<Rightarrow> string option \<Rightarrow> int option \<Rightarrow> string option \<Rightarrow> int \<Rightarrow> BisectReport res \<times> Notes" where
  "bisect_report s n name candidate v boot_id note now =
     (case bisect n name of Inl e \<Rightarrow> (Inl e, n) | Inr b \<Rightarrow>
      (case index_of b candidate of Inl e \<Rightarrow> (Inl e, n) | Inr idx \<Rightarrow>
       (case verdict_to_record s b v boot_id of Inl e \<Rightarrow> (Inl e, n) | Inr w \<Rightarrow>
        (case record_bisect_result n (bi_id b) idx w boot_id note now of
           (Inl e, n) \<Rightarrow> (Inl e, n)
         | (Inr _, n) \<Rightarrow>
             (case bisect n name of Inl e \<Rightarrow> (Inl e, n) | Inr b \<Rightarrow>
              (case next_step b of None \<Rightarrow> (Inl Internal, n) | Some step \<Rightarrow>
               (case write_down n (bi_id b) step now of
                  (Inl e, n) \<Rightarrow> (Inl e, n)
                | (Inr _, n) \<Rightarrow>
                    (Inr \<lparr> rp_candidate = bi_candidates b ! idx, rp_verdict = w, rp_next = step, rp_contradiction = contradiction b,
                           rp_tested = length (bi_results b), rp_candidates = length (bi_candidates b) \<rparr>, n))))))))"

section \<open>The rows of a bisect\<close>
















section \<open>One report\<close>












lemma bisect_of_fields [simp]: "bi_candidates (bisect_of row rs) = bw_candidates row" "bi_results (bisect_of row rs) = rs"
  "bi_id (bisect_of row rs) = bw_id row"
  by (simp_all add: bisect_of_def)






section \<open>Driving a search\<close>






section \<open>Properties\<close>



text \<open>Distinct builds are needed: a report names its build, and a name that occurs twice always
  stands for the first. With the build \<open>a\<close> first and last, the search asks for the last one, books
  every answer on the first, and gets stuck: a good answer has it ask the same again, a bad one
  leaves it with nothing to ask and no answer.\<close>

definition repeated_build :: "string \<Rightarrow> Step res" where
  "repeated_build v =
     (let s = \<lparr> ds_db = empty_tables, ds_canonical = ''x'', ds_cursor_token = ''x'', ds_stream_offset = 0, ds_pruned_before = 0 \<rparr>;
          n = snd (bisect_start empty_notes ''b'' [''a'', ''x'', ''a''] JNull 0);
          n = snd (bisect_report s n ''b'' ''a'' (Some ''good'') None None 1)
      in map_sum id rp_next (fst (bisect_report s n ''b'' ''a'' (Some v) None None 2)))"

lemma repeated_build_is_asked_again: "repeated_build ''good'' = Inr (Test 2 ''a'' 3 2)"
  by code_simp

lemma repeated_build_gets_stuck: "repeated_build ''bad'' = Inr (NeedEnds [])"
  by code_simp

end
