(* ===== verification/Absence.thy ===== *)
theory Absence
  imports Store_Notes
begin

text \<open>
  Absence detection (\<^verbatim>\<open>crates/conminer-core/src/absence.rs\<close>): the skeleton of a normal boot, learned
  from reference epochs, and what an epoch lacks of it. Reliabilities, the threshold and the
  lateness factor are rationals.
\<close>

section \<open>Operations\<close>

definition seen_here :: "DeviceStore \<Rightarrow> int \<Rightarrow> BootRow \<Rightarrow> (int, int) btree" where
  "seen_here s b e =
     foldl (\<lambda>m (tid, first_ts). bt_insert tid (max 0 (first_ts - ep_opened_at e)) m) [] (template_first_ts_in_boot s b)"

definition count_one :: "(int, int \<times> int list) btree \<Rightarrow> int \<times> int \<Rightarrow> (int, int \<times> int list) btree" where
  "count_one m = (\<lambda>(tid, offset).
     let (c, os) = (case bt_get m tid of None \<Rightarrow> (0, []) | Some e \<Rightarrow> e) in bt_insert tid (c + 1, os @ [offset]) m)"

definition learn_boot :: "DeviceStore \<Rightarrow> (int, int \<times> int list) btree \<Rightarrow> int \<Rightarrow> (int, int \<times> int list) btree res" where
  "learn_boot s m b = and_then (boot s b) (\<lambda>e. Inr (foldl count_one m (seen_here s b e)))"

definition learned_row :: "int \<times> int \<times> int list \<Rightarrow> int \<times> int \<times> int option" where
  "learned_row = (\<lambda>(tid, c, os). (tid, c, nth_opt (sort os) (length os div 2)))"

definition learn :: "DeviceStore \<Rightarrow> Notes \<Rightarrow> int list \<Rightarrow> int \<Rightarrow> nat res \<times> Notes" where
  "learn s n boots now =
     (case for_each (learn_boot s) [] boots of
        Inl e \<Rightarrow> (Inl e, n)
      | Inr per_template \<Rightarrow>
          let rows = map learned_row per_template
          in (case replace_expectations s n rows (int (length boots)) now of
                (Inl e, n) \<Rightarrow> (Inl e, n)
              | (Inr _, n) \<Rightarrow> (Inr (length rows), n)))"

record MissingEntry =
  me_template_id :: int
  me_text :: string
  me_stage :: "string option"
  me_reliability :: rat
  me_seen_in :: int
  me_reference_boots :: int

record LateEntry =
  le_template_id :: int
  le_text :: string
  le_expected_offset_ms :: int
  le_actual_offset_ms :: int
  le_later_by_ms :: int

record AbsenceReport =
  ab_learned :: bool
  ab_boot_id :: "int option"
  ab_reference_boots :: int
  ab_expectations :: nat
  ab_missing :: "MissingEntry list"
  ab_late :: "LateEntry list"
  ab_flaky :: "MissingEntry list"

definition missing_entry :: "Expectation \<Rightarrow> MissingEntry" where
  "missing_entry e = \<lparr> me_template_id = xp_template_id e, me_text = xp_text e, me_stage = xp_stage e,
     me_reliability = xp_reliability e, me_seen_in = xp_seen_in e, me_reference_boots = xp_reference_boots e \<rparr>"

definition late_entry :: "rat \<Rightarrow> Expectation \<Rightarrow> int \<Rightarrow> LateEntry option" where
  "late_entry late_factor e offset =
     (case xp_median_offset_ms e of
        Some expected \<Rightarrow>
          if expected > 0 \<and> of_int offset > of_int expected * late_factor
          then Some \<lparr> le_template_id = xp_template_id e, le_text = xp_text e, le_expected_offset_ms = expected,
                      le_actual_offset_ms = offset, le_later_by_ms = offset - expected \<rparr>
          else None
      | None \<Rightarrow> None)"

text \<open>The turn of the loop for one expectation, on the lists of missing, flaky and late.\<close>

definition judge :: "(int, int) btree \<Rightarrow> rat \<Rightarrow> rat \<Rightarrow> MissingEntry list \<times> MissingEntry list \<times> LateEntry list \<Rightarrow> Expectation \<Rightarrow>
    MissingEntry list \<times> MissingEntry list \<times> LateEntry list" where
  "judge present min_reliability late_factor = (\<lambda>(missing, flaky, late) e.
     case bt_get present (xp_template_id e) of
       None \<Rightarrow> if xp_reliability e \<ge> min_reliability then (missing @ [missing_entry e], flaky, late)
               else (missing, flaky @ [missing_entry e], late)
     | Some offset \<Rightarrow> (case late_entry late_factor e offset of
         None \<Rightarrow> (missing, flaky, late) | Some l \<Rightarrow> (missing, flaky, late @ [l])))"

definition missing_in :: "DeviceStore \<Rightarrow> Notes \<Rightarrow> int \<Rightarrow> rat \<Rightarrow> rat \<Rightarrow> AbsenceReport res" where
  "missing_in s n b min_reliability late_factor =
     (let es = expectations s n
      in if es = [] then Inr \<lparr> ab_learned = False, ab_boot_id = None, ab_reference_boots = 0, ab_expectations = 0,
                              ab_missing = [], ab_late = [], ab_flaky = [] \<rparr>
         else and_then (boot s b) (\<lambda>e.
           let (missing, flaky, late) = foldl (judge (seen_here s b e) min_reliability late_factor) ([], [], []) es
           in Inr \<lparr> ab_learned = True, ab_boot_id = Some b, ab_reference_boots = xp_reference_boots (hd es),
                    ab_expectations = length es, ab_missing = order_by (\<lambda>m. - me_reliability m) missing,
                    ab_late = order_by (\<lambda>l. - le_later_by_ms l) late, ab_flaky = flaky \<rparr>))"

section \<open>What is learned\<close>

text \<open>When a template first printed after the epoch opened.\<close>

definition offset_in :: "DeviceStore \<Rightarrow> int \<Rightarrow> int \<Rightarrow> int" where
  "offset_in s t b =
     (case boot s b of Inl e \<Rightarrow> 0
      | Inr e \<Rightarrow> max 0 (Min (oc_first_ts ` {r \<in> set (boot_occurrences s b). oc_template_id r = t}) - ep_opened_at e))"

lemma templates_in_boot_rows: "templates_in_boot s b = oc_template_id ` set (boot_occurrences s b)"
  by (auto simp: templates_in_boot_def boot_occurrences_def)

lemma finite_templates_in_boot: "finite (templates_in_boot s b)"
  by (simp add: templates_in_boot_rows)

lemma foldl_insert_all: "foldl (\<lambda>m (k, v). bt_insert k (f v) m) m xs = bt.insert_all (map (\<lambda>(k, v). (k, f v)) xs) m"
  by (induction xs arbitrary: m) (auto simp: bt.insert_all_def)

lemma map_of_rev_graph: "map_of (rev (map (\<lambda>t. (t, g t)) ts)) t = (if t \<in> set ts then Some (g t) else None)"
  by (induction ts) (auto simp: map_add_def)

lemma seen_here_get:
  assumes "boot s b = Inr e"
  shows "bt_get (seen_here s b e) t = (if t \<in> templates_in_boot s b then Some (offset_in s t b) else None)"
    and "bt_wf (seen_here s b e)"
proof -
  let ?ts = "sorted_list_of_set (oc_template_id ` set (boot_occurrences s b))"
  have eq: "seen_here s b e = bt.insert_all (map (\<lambda>t. (t, offset_in s t b)) ?ts) []"
    using assms by (simp add: seen_here_def foldl_insert_all template_first_ts_in_boot_def Let_def comp_def offset_in_def)
  show "bt_wf (seen_here s b e)" unfolding eq by (rule bt.wf_insert_all) simp
  show "bt_get (seen_here s b e) t = (if t \<in> templates_in_boot s b then Some (offset_in s t b) else None)"
    unfolding eq bt.get_insert_all by (simp add: map_of_rev_graph templates_in_boot_rows)
qed

definition tally :: "(int \<times> int list) option \<Rightarrow> int list \<Rightarrow> (int \<times> int list) option" where
  "tally x offs = (if offs = [] then x else
     Some (let (c, os) = (case x of None \<Rightarrow> (0, []) | Some e \<Rightarrow> e) in (c + int (length offs), os @ offs)))"

lemma tally_simps: "tally x [] = x" "tally (tally x [y]) ys = tally x (y # ys)"
  by (simp_all add: tally_def split: option.split prod.split)

lemma count_one_get: "bt_get (count_one m (k, v)) t = (if t = k then tally (bt_get m k) [v] else bt_get m t)"
  by (simp add: count_one_def tally_def split: option.split prod.split)

lemma count_one_wf: "bt_wf m \<Longrightarrow> bt_wf (count_one m kv)"
  by (cases kv) (simp add: count_one_def split: prod.split)

lemma count_all_get:
  "distinct (map fst kvs) \<Longrightarrow> bt_get (foldl count_one m kvs) t = (case map_of kvs t of None \<Rightarrow> bt_get m t | Some v \<Rightarrow> tally (bt_get m t) [v])"
proof (induction kvs arbitrary: m)
  case (Cons kv kvs)
  obtain k v where kv: "kv = (k, v)" by (cases kv)
  with Cons.prems have "map_of kvs k = None" by (auto simp: map_of_eq_None_iff)
  with Cons kv show ?case by (auto simp: count_one_get split: option.split)
qed simp

lemma count_all_wf: "bt_wf m \<Longrightarrow> bt_wf (foldl count_one m kvs)"
  by (induction kvs arbitrary: m) (simp_all add: count_one_wf)

lemma learn_boot_get:
  assumes "boot s b = Inr e" and "bt_wf m"
  shows "\<exists>m'. learn_boot s m b = Inr m' \<and> bt_wf m' \<and>
    (\<forall>t. bt_get m' t = (if t \<in> templates_in_boot s b then tally (bt_get m t) [offset_in s t b] else bt_get m t))"
proof -
  note h = seen_here_get [OF assms(1)]
  have d: "distinct (map fst (seen_here s b e))" using h(2) by (rule bt_wf_distinct)
  have "map_of (seen_here s b e) t = bt_get (seen_here s b e) t" for t
    using bt.entries_get [OF h(2)] d by (metis map_of_eq_Some_iff not_None_eq)
  then show ?thesis using assms d
    by (auto simp: learn_boot_def count_all_get count_all_wf h(1) split: option.split)
qed

lemma learn_all_get:
  assumes "\<forall>b \<in> set boots. \<exists>e. boot s b = Inr e" and "bt_wf m"
  shows "\<exists>m'. for_each (learn_boot s) m boots = Inr m' \<and> bt_wf m' \<and>
    (\<forall>t. bt_get m' t = tally (bt_get m t) (map (offset_in s t) (filter (\<lambda>b. t \<in> templates_in_boot s b) boots)))"
  using assms
proof (induction boots arbitrary: m)
  case (Cons b boots)
  then obtain e where "boot s b = Inr e" by auto
  from learn_boot_get [OF this Cons.prems(2)] obtain m1 where m1: "learn_boot s m b = Inr m1" "bt_wf m1"
    "\<And>t. bt_get m1 t = (if t \<in> templates_in_boot s b then tally (bt_get m t) [offset_in s t b] else bt_get m t)" by blast
  from Cons.IH [OF _ m1(2)] Cons.prems(1) obtain m2 where "for_each (learn_boot s) m1 boots = Inr m2" "bt_wf m2"
    "\<And>t. bt_get m2 t = tally (bt_get m1 t) (map (offset_in s t) (filter (\<lambda>b. t \<in> templates_in_boot s b) boots))" by auto
  then show ?case using m1 by (intro exI [of _ m2]) (simp add: tally_simps)
qed (simp add: tally_simps)

section \<open>What is reported\<close>

text \<open>The reference reading: in how many reference boots a template printed, and its usual offset.\<close>

definition seen_in :: "DeviceStore \<Rightarrow> int list \<Rightarrow> int \<Rightarrow> nat" where
  "seen_in s boots t = length (filter (\<lambda>b. t \<in> templates_in_boot s b) boots)"

definition usual_offset :: "DeviceStore \<Rightarrow> int list \<Rightarrow> int \<Rightarrow> int" where
  "usual_offset s boots t =
     (let os = sort (map (offset_in s t) (filter (\<lambda>b. t \<in> templates_in_boot s b) boots)) in os ! (length os div 2))"

definition known_templates :: "DeviceStore \<Rightarrow> bool" where
  "known_templates s \<longleftrightarrow> distinct (map tr_id (tb_templates (ds_db s))) \<and>
     (\<forall>r \<in> set (tb_occurrences (ds_db s)). has_template (ds_db s) (oc_template_id r))"

definition expected :: "DeviceStore \<Rightarrow> int list \<Rightarrow> int \<Rightarrow> int \<Rightarrow> ExpectationRow \<Rightarrow> bool" where
  "expected s boots now t r \<longleftrightarrow> xr_template_id r = t \<and> xr_seen_in r = int (seen_in s boots t) \<and>
     xr_reference_boots r = int (length boots) \<and> xr_median_offset_ms r = Some (usual_offset s boots t)"

lemma in_map_filter: "y \<in> set (List.map_filter f xs) \<longleftrightarrow> (\<exists>x \<in> set xs. f x = Some y)"
  by (induction xs) (auto simp: List.map_filter_simps split: option.split)

lemma map_filter_keys:
  assumes "distinct (map fst xs)" and "\<And>x y. f x = Some y \<Longrightarrow> k y = fst x"
  shows "distinct (map k (List.map_filter f xs))"
proof -
  have "set (map k (List.map_filter f ys)) \<subseteq> fst ` set ys" for ys
    using assms(2) by (force simp: in_map_filter)
  then show ?thesis using assms(1) by (induction xs) (force simp: List.map_filter_simps assms(2) split: option.split)+
qed

lemma seen_has_template:
  assumes "known_templates s" and "seen_in s boots t > 0"
  shows "\<exists>r. find (\<lambda>r. tr_id r = t) (tb_templates (ds_db s)) = Some r"
proof -
  from assms(2) obtain b where "t \<in> templates_in_boot s b" by (auto simp: seen_in_def filter_empty_conv)
  then have "has_template (ds_db s) t" using assms(1) by (auto simp: known_templates_def templates_in_boot_def)
  then have "find (\<lambda>r. tr_id r = t) (tb_templates (ds_db s)) \<noteq> None" by (auto simp: has_template_def find_None_iff)
  then show ?thesis by auto
qed

lemma learn_rows:
  assumes "known_templates s" and "\<forall>b \<in> set boots. \<exists>e. boot s b = Inr e"
  obtains c n' where "learn s n boots now = (Inr c, n')"
    "\<And>r. r \<in> set (nt_expectations n') \<Longrightarrow> seen_in s boots (xr_template_id r) > 0 \<and> expected s boots now (xr_template_id r) r"
    "\<And>t. seen_in s boots t > 0 \<Longrightarrow> \<exists>r \<in> set (nt_expectations n'). xr_template_id r = t"
proof -
  obtain m where m: "for_each (learn_boot s) [] boots = Inr m" "bt_wf m"
    "\<And>t. bt_get m t = tally None (map (offset_in s t) (filter (\<lambda>b. t \<in> templates_in_boot s b) boots))"
    using learn_all_get [OF assms(2), of "[]"] by auto
  let ?row = "\<lambda>(tid, k, med). map_option (\<lambda>t. \<lparr> xr_template_id = tid, xr_stage = tr_stage t, xr_seen_in = k,
      xr_reference_boots = int (length boots), xr_median_offset_ms = med, xr_learned_at = now \<rparr>)
    (find (\<lambda>t. tr_id t = tid) (tb_templates (ds_db s)))"
  let ?fit = "List.map_filter ?row (map learned_row m)"
  have "distinct (map fst (map learned_row m))"
    using bt_wf_distinct [OF m(2)] by (simp add: comp_def learned_row_def case_prod_beta)
  then have "distinct (map xr_template_id ?fit)" by (rule map_filter_keys) auto
  then have "replace_expectations s n (map learned_row m) (int (length boots)) now = (Inr (), n\<lparr> nt_expectations := ?fit \<rparr>)"
    by (simp add: replace_expectations_def Let_def)
  then have learn: "learn s n boots now = (Inr (length m), n\<lparr> nt_expectations := ?fit \<rparr>)"
    using m(1) by (simp add: learn_def Let_def)
  have mem: "(t, c, os) \<in> set m \<longleftrightarrow> seen_in s boots t > 0 \<and> c = int (seen_in s boots t) \<and>
      os = map (offset_in s t) (filter (\<lambda>b. t \<in> templates_in_boot s b) boots)" for t c os
    using bt.entries_get [OF m(2), of t "(c, os)"] by (auto simp: m(3) tally_def seen_in_def)
  show thesis
  proof (rule that [OF learn])
    fix r assume "r \<in> set (nt_expectations (n\<lparr> nt_expectations := ?fit \<rparr>))"
    then obtain x where "x \<in> set m" "?row (learned_row x) = Some r" by (auto simp: in_map_filter)
    moreover obtain t c os where "x = (t, c, os)" by (cases x)
    ultimately have "(t, c, os) \<in> set m" and "?row (learned_row (t, c, os)) = Some r" by simp_all
    then show "seen_in s boots (xr_template_id r) > 0 \<and> expected s boots now (xr_template_id r) r"
      unfolding mem by (auto simp: learned_row_def expected_def usual_offset_def Let_def nth_opt_def seen_in_def)
  next
    fix t assume t: "seen_in s boots t > 0"
    then obtain c os where "(t, c, os) \<in> set m" using mem by blast
    with seen_has_template [OF assms(1) t] show "\<exists>r \<in> set (nt_expectations (n\<lparr> nt_expectations := ?fit \<rparr>)). xr_template_id r = t"
      by (force simp: in_map_filter learned_row_def)
  qed
qed

lemma judge_fold:
  "foldl (judge p r f) (a, b, c) es =
     (a @ map missing_entry (filter (\<lambda>e. bt_get p (xp_template_id e) = None \<and> xp_reliability e \<ge> r) es),
      b @ map missing_entry (filter (\<lambda>e. bt_get p (xp_template_id e) = None \<and> xp_reliability e < r) es),
      c @ List.map_filter (\<lambda>e. case bt_get p (xp_template_id e) of None \<Rightarrow> None | Some off \<Rightarrow> late_entry f e off) es)"
  by (induction es arbitrary: a b c) (auto simp: judge_def List.map_filter_simps split: option.split)

lemma expectations_set:
  "e \<in> set (expectations s n) \<longleftrightarrow>
    (\<exists>r \<in> set (nt_expectations n). \<exists>t. find (\<lambda>t. tr_id t = xr_template_id r) (tb_templates (ds_db s)) = Some t \<and> e = expectation_of r t)"
  by (auto simp: expectations_def order_by_def in_map_filter)

section \<open>Properties\<close>

lemma expectation_known:
  assumes "known_templates s"
    and "\<forall>r \<in> set (nt_expectations n). seen_in s boots (xr_template_id r) > 0 \<and> expected s boots now (xr_template_id r) r"
    and "\<forall>t. seen_in s boots t > 0 \<longrightarrow> (\<exists>r \<in> set (nt_expectations n). xr_template_id r = t)"
  shows "e \<in> set (expectations s n) \<Longrightarrow> seen_in s boots (xp_template_id e) > 0 \<and>
      xp_reliability e = of_nat (seen_in s boots (xp_template_id e)) / of_nat (length boots) \<and>
      xp_median_offset_ms e = Some (usual_offset s boots (xp_template_id e))"
    and "seen_in s boots t > 0 \<Longrightarrow> \<exists>e \<in> set (expectations s n). xp_template_id e = t"
proof -
  assume "e \<in> set (expectations s n)"
  then obtain r t where r: "r \<in> set (nt_expectations n)" "e = expectation_of r t" by (auto simp: expectations_set)
  have "seen_in s boots (xr_template_id r) \<le> length boots" by (simp add: seen_in_def)
  with r(2) bspec [OF assms(2) r(1)] show "seen_in s boots (xp_template_id e) > 0 \<and>
      xp_reliability e = of_nat (seen_in s boots (xp_template_id e)) / of_nat (length boots) \<and>
      xp_median_offset_ms e = Some (usual_offset s boots (xp_template_id e))"
    by (simp add: expectation_of_def expected_def)
next
  assume t: "seen_in s boots t > 0"
  from assms(3) t obtain r where r: "r \<in> set (nt_expectations n)" "xr_template_id r = t" by blast
  moreover from seen_has_template [OF assms(1) t] obtain u where "find (\<lambda>r. tr_id r = t) (tb_templates (ds_db s)) = Some u" by blast
  ultimately have "expectation_of r u \<in> set (expectations s n)" by (auto simp: expectations_set)
  moreover have "xp_template_id (expectation_of r u) = t" using r(2) by (simp add: expectation_of_def)
  ultimately show "\<exists>e \<in> set (expectations s n). xp_template_id e = t" by blast
qed

text \<open>The lists of a report over given expectations.\<close>

lemma missing_in_lists:
  assumes "boot s b = Inr e"
  obtains rep where "missing_in s n b r f = Inr rep"
    "set (ab_missing rep) = missing_entry ` {x \<in> set (expectations s n). xp_template_id x \<notin> templates_in_boot s b \<and> xp_reliability x \<ge> r}"
    "set (ab_flaky rep) = missing_entry ` {x \<in> set (expectations s n). xp_template_id x \<notin> templates_in_boot s b \<and> xp_reliability x < r}"
    "\<And>l. l \<in> set (ab_late rep) \<longleftrightarrow> (\<exists>x \<in> set (expectations s n). xp_template_id x \<in> templates_in_boot s b \<and>
        late_entry f x (offset_in s (xp_template_id x) b) = Some l)"
    "sorted (map (\<lambda>m. - me_reliability m) (ab_missing rep))"
proof (cases "expectations s n = []")
  case True
  show ?thesis by (rule that, simp add: missing_in_def True, simp_all add: True)
next
  case False
  note look = seen_here_get(1) [OF assms]
  show ?thesis
  proof (rule that)
    show "missing_in s n b r f = Inr \<lparr> ab_learned = True, ab_boot_id = Some b, ab_reference_boots = xp_reference_boots (hd (expectations s n)),
        ab_expectations = length (expectations s n),
        ab_missing = order_by (\<lambda>m. - me_reliability m) (map missing_entry (filter (\<lambda>x. xp_template_id x \<notin> templates_in_boot s b \<and> xp_reliability x \<ge> r) (expectations s n))),
        ab_late = order_by (\<lambda>l. - le_later_by_ms l) (List.map_filter (\<lambda>x. if xp_template_id x \<in> templates_in_boot s b
          then late_entry f x (offset_in s (xp_template_id x) b) else None) (expectations s n)),
        ab_flaky = map missing_entry (filter (\<lambda>x. xp_template_id x \<notin> templates_in_boot s b \<and> xp_reliability x < r) (expectations s n)) \<rparr>"
      by (simp add: missing_in_def Let_def False assms judge_fold look if_distrib [where f = "case_option _ _"] cong: if_cong conj_cong)
  qed (auto simp: order_by_def in_map_filter split: if_splits)
qed

text \<open>The identifiers a report lists, when the expectations are those learned from the boots.\<close>

definition learned_from :: "DeviceStore \<Rightarrow> int list \<Rightarrow> Notes \<Rightarrow> bool" where
  "learned_from s boots n \<longleftrightarrow>
     (\<forall>e \<in> set (expectations s n). seen_in s boots (xp_template_id e) > 0 \<and>
        xp_reliability e = of_nat (seen_in s boots (xp_template_id e)) / of_nat (length boots) \<and>
        xp_median_offset_ms e = Some (usual_offset s boots (xp_template_id e))) \<and>
     (\<forall>t. seen_in s boots t > 0 \<longrightarrow> (\<exists>e \<in> set (expectations s n). xp_template_id e = t))"

lemma absent_ids:
  assumes "learned_from s boots n"
  shows "t \<in> me_template_id ` missing_entry ` {x \<in> set (expectations s n). xp_template_id x \<notin> T \<and> Q (xp_reliability x)} \<longleftrightarrow>
      seen_in s boots t > 0 \<and> t \<notin> T \<and> Q (of_nat (seen_in s boots t) / of_nat (length boots))"
proof -
  have id: "me_template_id (missing_entry x) = xp_template_id x" for x by (simp add: missing_entry_def)
  show ?thesis unfolding image_image id
  proof
    assume t: "seen_in s boots t > 0 \<and> t \<notin> T \<and> Q (of_nat (seen_in s boots t) / of_nat (length boots))"
    with assms obtain x where "x \<in> set (expectations s n)" "xp_template_id x = t" by (auto simp: learned_from_def)
    with assms t show "t \<in> (\<lambda>x. xp_template_id x) ` {x \<in> set (expectations s n). xp_template_id x \<notin> T \<and> Q (xp_reliability x)}"
      by (force simp: learned_from_def)
  qed (use assms in \<open>force simp: learned_from_def\<close>)
qed

lemma late_ids:
  assumes "learned_from s boots n"
  shows "(\<exists>l. (\<exists>x \<in> set (expectations s n). xp_template_id x \<in> T \<and> late_entry f x (off (xp_template_id x)) = Some l) \<and> le_template_id l = t) \<longleftrightarrow>
      seen_in s boots t > 0 \<and> t \<in> T \<and> usual_offset s boots t > 0 \<and> of_int (off t) > of_int (usual_offset s boots t) * f"
proof
  assume "\<exists>l. (\<exists>x \<in> set (expectations s n). xp_template_id x \<in> T \<and> late_entry f x (off (xp_template_id x)) = Some l) \<and> le_template_id l = t"
  then obtain l x where x: "x \<in> set (expectations s n)" "xp_template_id x \<in> T" "late_entry f x (off (xp_template_id x)) = Some l"
    "le_template_id l = t" by blast
  with assms show "seen_in s boots t > 0 \<and> t \<in> T \<and> usual_offset s boots t > 0 \<and> of_int (off t) > of_int (usual_offset s boots t) * f"
    by (auto simp: learned_from_def late_entry_def split: if_splits)
next
  assume t: "seen_in s boots t > 0 \<and> t \<in> T \<and> usual_offset s boots t > 0 \<and> of_int (off t) > of_int (usual_offset s boots t) * f"
  with assms obtain x where x: "x \<in> set (expectations s n)" "xp_template_id x = t" by (auto simp: learned_from_def)
  with assms t show "\<exists>l. (\<exists>x \<in> set (expectations s n). xp_template_id x \<in> T \<and> late_entry f x (off (xp_template_id x)) = Some l) \<and> le_template_id l = t"
    by (intro exI conjI bexI [OF _ x(1)]) (auto simp: learned_from_def late_entry_def)
qed

text \<open>C27. An absence report is exact. After learning from any list of existing epochs, which never
  fails, a template is reported missing from an epoch if and only if it printed in some
  reference epoch, did not print in this one, and the share of reference epochs with it reaches
  the threshold; it is reported as flaky and absent in the same case below the threshold; and it
  is reported late if and only if it did print, but later after the opening of the epoch than the
  median of the reference epochs times the factor, with a positive median. Missing templates are
  listed by falling reliability.\<close>

theorem absence_report_exact:
  assumes "known_templates s" and "\<forall>b \<in> set boots. \<exists>e. boot s b = Inr e" and "boot s b = Inr e"
  shows "\<exists>c n' rep. learn s n boots now = (Inr c, n') \<and> missing_in s n' b r f = Inr rep \<and>
    (\<forall>t. t \<in> me_template_id ` set (ab_missing rep) \<longleftrightarrow>
       seen_in s boots t > 0 \<and> t \<notin> templates_in_boot s b \<and> of_nat (seen_in s boots t) / of_nat (length boots) \<ge> r) \<and>
    (\<forall>t. t \<in> me_template_id ` set (ab_flaky rep) \<longleftrightarrow>
       seen_in s boots t > 0 \<and> t \<notin> templates_in_boot s b \<and> of_nat (seen_in s boots t) / of_nat (length boots) < r) \<and>
    (\<forall>t. t \<in> le_template_id ` set (ab_late rep) \<longleftrightarrow>
       seen_in s boots t > 0 \<and> t \<in> templates_in_boot s b \<and> usual_offset s boots t > 0 \<and>
       of_int (offset_in s t b) > of_int (usual_offset s boots t) * f) \<and>
    sorted (map (\<lambda>m. - me_reliability m) (ab_missing rep))"
  (is "\<exists>c n' rep. _ \<and> _ \<and> ?P rep")
proof -
  obtain c n' where learn: "learn s n boots now = (Inr c, n')"
    and rows: "\<forall>r \<in> set (nt_expectations n'). seen_in s boots (xr_template_id r) > 0 \<and> expected s boots now (xr_template_id r) r"
      "\<forall>t. seen_in s boots t > 0 \<longrightarrow> (\<exists>r \<in> set (nt_expectations n'). xr_template_id r = t)"
    by (rule learn_rows [OF assms(1,2)]) blast
  have known: "learned_from s boots n'" using expectation_known [OF assms(1) rows] by (simp add: learned_from_def)
  obtain rep where rep: "missing_in s n' b r f = Inr rep"
    and lists: "set (ab_missing rep) = missing_entry ` {x \<in> set (expectations s n'). xp_template_id x \<notin> templates_in_boot s b \<and> xp_reliability x \<ge> r}"
      "set (ab_flaky rep) = missing_entry ` {x \<in> set (expectations s n'). xp_template_id x \<notin> templates_in_boot s b \<and> xp_reliability x < r}"
      "\<And>l. l \<in> set (ab_late rep) \<longleftrightarrow> (\<exists>x \<in> set (expectations s n'). xp_template_id x \<in> templates_in_boot s b \<and>
        late_entry f x (offset_in s (xp_template_id x) b) = Some l)"
    and sorted: "sorted (map (\<lambda>m. - me_reliability m) (ab_missing rep))"
    by (rule missing_in_lists [OF assms(3)]) blast
  have "(t \<in> le_template_id ` set (ab_late rep)) = (\<exists>l. l \<in> set (ab_late rep) \<and> le_template_id l = t)" for t by auto
  then have late: "(t \<in> le_template_id ` set (ab_late rep)) =
      (seen_in s boots t > 0 \<and> t \<in> templates_in_boot s b \<and> usual_offset s boots t > 0 \<and>
       of_int (offset_in s t b) > of_int (usual_offset s boots t) * f)" for t
    unfolding lists(3) using late_ids [OF known, where T = "templates_in_boot s b" and off = "\<lambda>t. offset_in s t b" and f = f] by simp
  have P: "?P rep" unfolding lists(1,2) late
    by (intro conjI allI sorted absent_ids [OF known, where Q = "\<lambda>q. q \<ge> r"] absent_ids [OF known, where Q = "\<lambda>q. q < r"]) (rule refl)
  show ?thesis by (rule exI, rule exI, rule exI, rule conjI [OF learn conjI [OF rep P]])
qed

definition absence_sample :: DeviceStore where
  "absence_sample =
     (let tpl = (\<lambda>i. \<lparr> tr_id = i, tr_stage = None, tr_profile = ''generic'', tr_text = ''t'', tr_tokens = [''t''], tr_head_only = False,
                   tr_severity = Unknown, tr_first_seen_session = 1, tr_first_seen_boot = None, tr_first_seen_ts = 0, tr_total_count = 1 \<rparr>);
          occ = (\<lambda>t b ts. \<lparr> oc_template_id = t, oc_session_id = 1, oc_boot_id = b, oc_count = 1, oc_first_ts = ts, oc_last_ts = ts \<rparr>)
      in \<lparr> ds_db = empty_tables\<lparr> tb_templates := [tpl 1, tpl 2, tpl 3],
               tb_boots := [boot_of 1 1 ''mark'' None 0 None 0, boot_of 2 2 ''mark'' None 100 None 0, boot_of 3 3 ''mark'' None 200 None 0],
               tb_occurrences := [occ 1 1 5, occ 2 1 10, occ 3 1 20, occ 1 2 105, occ 2 2 110, occ 2 3 290] \<rparr>,
           ds_canonical = ''x'', ds_cursor_token = ''x'', ds_stream_offset = 0, ds_pruned_before = 0 \<rparr>)"

theorem absence_report_exact_witness:
  "\<exists>c n' rep. learn absence_sample empty_notes [1, 2] 300 = (Inr c, n') \<and> missing_in absence_sample n' 3 (3 / 4) 3 = Inr rep \<and>
    (\<forall>t. t \<in> me_template_id ` set (ab_missing rep) \<longleftrightarrow> seen_in absence_sample [1, 2] t > 0 \<and> t \<notin> templates_in_boot absence_sample 3 \<and>
       of_nat (seen_in absence_sample [1, 2] t) / of_nat (length [1::int, 2]) \<ge> (3 / 4 :: rat)) \<and>
    (\<forall>t. t \<in> me_template_id ` set (ab_flaky rep) \<longleftrightarrow> seen_in absence_sample [1, 2] t > 0 \<and> t \<notin> templates_in_boot absence_sample 3 \<and>
       of_nat (seen_in absence_sample [1, 2] t) / of_nat (length [1::int, 2]) < (3 / 4 :: rat)) \<and>
    (\<forall>t. t \<in> le_template_id ` set (ab_late rep) \<longleftrightarrow> seen_in absence_sample [1, 2] t > 0 \<and> t \<in> templates_in_boot absence_sample 3 \<and>
       usual_offset absence_sample [1, 2] t > 0 \<and> of_int (offset_in absence_sample t 3) > of_int (usual_offset absence_sample [1, 2] t) * (3 :: rat)) \<and>
    sorted (map (\<lambda>m. - me_reliability m) (ab_missing rep))"
  by (rule absence_report_exact [of absence_sample "[1, 2]" 3])
    (simp_all add: absence_sample_def known_templates_def has_template_def boot_def boot_of_def ok_or_def Let_def)

lemma sample_report:
  "map_sum id (\<lambda>rep. (map me_template_id (ab_missing rep), map me_template_id (ab_flaky rep), map le_later_by_ms (ab_late rep)))
     (missing_in absence_sample (snd (learn absence_sample empty_notes [1, 2] 300)) 3 (3 / 4) 3) = Inr ([1], [3], [80])"
  by code_simp

end
