(* ===== verification/Slot_Values.thy ===== *)
theory Slot_Values
  imports Store_Queries Profile Bisect
begin

text \<open>
  Values behind the wildcards of a template (\<^verbatim>\<open>crates/conminer-core/src/values.rs\<close>): the stored
  lines of its records are tokenized again and read by position, and each slot is summarised.
  Numbers are rationals; the rounding of \<^verbatim>\<open>f64\<close> is left out, its special values are not.
\<close>

section \<open>Numbers\<close>

definition trim_matches :: "(char \<Rightarrow> bool) \<Rightarrow> string \<Rightarrow> string" where
  "trim_matches P s = rev (dropWhile P (rev (dropWhile P s)))"

definition trim_end_matches :: "(char \<Rightarrow> bool) \<Rightarrow> string \<Rightarrow> string" where
  "trim_end_matches P s = rev (dropWhile P (rev s))"

definition is_unit :: "char \<Rightarrow> bool" where
  "is_unit c \<longleftrightarrow> is_ascii_alphabetic c \<or> c = CHR ''%'' \<or> c = CHR ''/''"

definition is_punct :: "char \<Rightarrow> bool" where
  "is_punct c \<longleftrightarrow> c \<in> {CHR '','', CHR '';'', CHR '':'', CHR '')'', CHR '']'', CHR 0x22, CHR 0x27}"

text \<open>The value of a run of decimal digits, and of a literal with at most one point; the parser of
  \<^verbatim>\<open>f64\<close> wants a digit somewhere.\<close>

definition decimal :: "string \<Rightarrow> nat" where
  "decimal ds = foldl (\<lambda>n d. 10 * n + (of_char d - 48)) 0 ds"

definition decimal_literal :: "string \<Rightarrow> rat option" where
  "decimal_literal s =
     (let whole = takeWhile is_ascii_digit s; rest = dropWhile is_ascii_digit s;
          part = (case rest of [] \<Rightarrow> [] | c # cs \<Rightarrow> cs)
      in if (rest \<noteq> [] \<and> hd rest \<noteq> CHR ''.'') \<or> \<not> list_all is_ascii_digit part \<or> whole @ part = [] then None
         else Some (of_nat (decimal (whole @ part)) / 10 ^ length part))"

definition with_sign :: "bool \<Rightarrow> rat \<Rightarrow> rat" where
  "with_sign neg v = (if neg then - v else v)"

definition hex_prefix :: "string \<Rightarrow> string option" where
  "hex_prefix t = (case strip_prefix ''0x'' t of Some h \<Rightarrow> Some h | None \<Rightarrow> strip_prefix ''0X'' t)"

definition parse_number :: "string \<Rightarrow> rat option" where
  "parse_number s =
     (let t = trim_matches is_punct s;
          neg = starts_with ''-'' t;
          t2 = (case t of c # cs \<Rightarrow> if c = CHR ''-'' \<or> c = CHR ''+'' then cs else t | [] \<Rightarrow> t)
      in case hex_prefix t2 of
           Some hex \<Rightarrow>
             let digits = takeWhile is_ascii_hexdigit hex
             in if digits = [] \<or> length digits \<noteq> str_len (trim_end_matches is_unit hex) then None
                else map_option (\<lambda>n. with_sign neg (of_nat n)) (from_str_radix (2 ^ 64) 16 digits)
         | None \<Rightarrow>
             let numeric = takeWhile (\<lambda>c. is_ascii_digit c \<or> c = CHR ''.'') t2; rest = drop (length numeric) t2
             in if numeric = [] then None
                else if \<not> list_all is_unit rest \<or> length (filter (\<lambda>c. c = CHR ''.'') numeric) > 1 then None
                else map_option (with_sign neg) (decimal_literal numeric))"

text \<open>\<^verbatim>\<open>str::parse::<f64>\<close>: a sign, then an infinity, a NaN in any case, or a decimal with an optional
  exponent.\<close>

datatype f64 = Finite rat | Infinite bool | NaN

definition exponent :: "string \<Rightarrow> int option" where
  "exponent s =
     (let neg = starts_with ''-'' s;
          ds = (case s of c # cs \<Rightarrow> if c = CHR ''-'' \<or> c = CHR ''+'' then cs else s | [] \<Rightarrow> s)
      in if ds = [] \<or> \<not> list_all is_ascii_digit ds then None else Some (if neg then - int (decimal ds) else int (decimal ds)))"

definition scale :: "int \<Rightarrow> rat \<Rightarrow> rat" where
  "scale e v = (if e \<ge> 0 then v * 10 ^ nat e else v / 10 ^ nat (- e))"

definition f64_parse :: "string \<Rightarrow> f64 option" where
  "f64_parse s =
     (let neg = starts_with ''-'' s;
          body = (case s of c # cs \<Rightarrow> if c = CHR ''-'' \<or> c = CHR ''+'' then cs else s | [] \<Rightarrow> s);
          lower = map to_ascii_lower body;
          mant = takeWhile (\<lambda>c. c \<noteq> CHR ''e'' \<and> c \<noteq> CHR ''E'') body; tail = drop (length mant) body
      in if lower = ''inf'' \<or> lower = ''infinity'' then Some (Infinite neg)
         else if lower = ''nan'' then Some NaN
         else case decimal_literal mant of
                None \<Rightarrow> None
              | Some v \<Rightarrow> (case tail of [] \<Rightarrow> Some (Finite (with_sign neg v))
                          | c # ex \<Rightarrow> map_option (\<lambda>e. Finite (with_sign neg (scale e v))) (exponent ex)))"

section \<open>Summaries\<close>

record Sample =
  sa_record_id :: int
  sa_boot_id :: "int option"
  sa_ts :: int
  sa_value :: string

record Numeric =
  nu_min :: rat
  nu_max :: rat
  nu_mean :: rat
  nu_first :: rat
  nu_last :: rat

record TopValue =
  tv_value :: string
  tv_count :: nat

record Slot =
  sl_slot :: nat
  sl_before :: "string option"
  sl_after :: "string option"
  sl_distinct :: nat
  sl_numeric :: "Numeric option"
  sl_top :: "TopValue list"
  sl_samples :: "Sample list"

definition all_some :: "'a option list \<Rightarrow> 'a list option" where
  "all_some xs = (if None \<in> set xs then None else Some (map the xs))"

definition numeric_of :: "rat list \<Rightarrow> Numeric" where
  "numeric_of v = \<lparr> nu_min = Min (set v), nu_max = Max (set v), nu_mean = sum_list v / of_nat (length v), nu_first = hd v, nu_last = last v \<rparr>"

definition top_values :: "Sample list \<Rightarrow> TopValue list" where
  "top_values samples =
     (let vs = map sa_value samples
      in sort_key (\<lambda>t. (- int (tv_count t), tv_value t))
           (map (\<lambda>v. \<lparr> tv_value = v, tv_count = count_list vs v \<rparr>) (remdups vs)))"

definition literal_token :: "string list \<Rightarrow> nat \<Rightarrow> string option" where
  "literal_token tokens i = (case nth_opt tokens i of Some t \<Rightarrow> if t \<noteq> WILDCARD then Some t else None | None \<Rightarrow> None)"

definition summarise :: "string list \<Rightarrow> nat \<Rightarrow> Sample list \<Rightarrow> nat \<Rightarrow> Slot" where
  "summarise tokens idx samples max_samples =
     (let top = top_values samples
      in \<lparr> sl_slot = idx, sl_before = (if idx = 0 then None else literal_token tokens (idx - 1)), sl_after = literal_token tokens (idx + 1),
           sl_distinct = length top,
           sl_numeric = (case all_some (map (\<lambda>x. parse_number (sa_value x)) samples) of
                           Some v \<Rightarrow> if v \<noteq> [] then Some (numeric_of v) else None
                         | None \<Rightarrow> None),
           sl_top = take 10 top,
           sl_samples = drop (length samples - max_samples) samples \<rparr>)"

section \<open>Queries\<close>

record TemplateValues =
  vs_slots :: "Slot list"
  vs_records_examined :: nat
  vs_unaligned :: nat

text \<open>The tokens of a record's first line under the record's own profile. No line at all is not an
  alignment failure; a profile that is gone is.\<close>

datatype aligned = No_line | Unaligned | Aligned LineRow "string list"

definition align :: "(byte list \<Rightarrow> string) \<Rightarrow> GenericRe \<Rightarrow> DeviceStore \<Rightarrow> ProfileSet \<Rightarrow> nat \<Rightarrow> RecordRow \<Rightarrow> aligned res" where
  "align lossy G s profiles width r =
     and_then (record_lines s (rr_id r)) (\<lambda>ls.
       Inr (case ls of
              [] \<Rightarrow> No_line
            | head # _ \<Rightarrow>
                (case ProfileSet_get profiles (rr_profile r) of
                   None \<Rightarrow> Unaligned
                 | Some p \<Rightarrow> let tokens = tokenize_values (pf_tokenizer p) (mine_key G p (LineRow_lossy lossy head))
                             in if length tokens \<noteq> width then Unaligned else Aligned head tokens)))"

definition sample_at :: "RecordRow \<Rightarrow> LineRow \<Rightarrow> string list \<Rightarrow> nat \<Rightarrow> Sample" where
  "sample_at r head tokens idx = \<lparr> sa_record_id = rr_id r, sa_boot_id = rr_boot_id r, sa_ts = lr_ts_wall head, sa_value = tokens ! idx \<rparr>"

definition add_record ::
    "(byte list \<Rightarrow> string) \<Rightarrow> GenericRe \<Rightarrow> DeviceStore \<Rightarrow> ProfileSet \<Rightarrow> nat \<Rightarrow> nat list \<Rightarrow> Sample list list \<times> nat \<Rightarrow> RecordRow \<Rightarrow>
     (Sample list list \<times> nat) res" where
  "add_record lossy G s profiles width wanted = (\<lambda>(series, unaligned) r.
     and_then (align lossy G s profiles width r) (\<lambda>a. Inr (case a of
         No_line \<Rightarrow> (series, unaligned)
       | Unaligned \<Rightarrow> (series, unaligned + 1)
       | Aligned head tokens \<Rightarrow> (map2 (\<lambda>out idx. out @ [sample_at r head tokens idx]) series wanted, unaligned))))"

definition wildcards :: "string list \<Rightarrow> nat list" where
  "wildcards tokens = filter (\<lambda>i. tokens ! i = WILDCARD) [0..<length tokens]"

definition template_values ::
    "(byte list \<Rightarrow> string) \<Rightarrow> GenericRe \<Rightarrow> DeviceStore \<Rightarrow> ProfileSet \<Rightarrow> int \<Rightarrow> nat option \<Rightarrow> int option \<Rightarrow> int option \<Rightarrow> nat \<Rightarrow> nat \<Rightarrow>
     TemplateValues res" where
  "template_values lossy G s profiles template_id slot session_id boot_id max_records max_samples =
     and_then (template_row s template_id) (\<lambda>t.
       let wild = wildcards (tr_tokens t);
           wanted = (case slot of Some i \<Rightarrow> [i] | None \<Rightarrow> wild)
       in and_then (require InvalidArgument (opt_all (\<lambda>i. i \<in> set wild) slot)) (\<lambda>_.
            if wanted = [] then Inr \<lparr> vs_slots = [], vs_records_examined = 0, vs_unaligned = 0 \<rparr>
            else
              let records = records_for_template s template_id session_id boot_id max_records 0
              in and_then (for_each (add_record lossy G s profiles (length (tr_tokens t)) wanted) (replicate (length wanted) [], 0) records)
                   (\<lambda>(series, unaligned).
                      Inr \<lparr> vs_slots = map2 (\<lambda>idx samples. summarise (tr_tokens t) idx samples max_samples) wanted series,
                            vs_records_examined = length records, vs_unaligned = unaligned \<rparr>)))"

definition slot_numbers :: "(byte list \<Rightarrow> string) \<Rightarrow> GenericRe \<Rightarrow> DeviceStore \<Rightarrow> ProfileSet \<Rightarrow> int \<Rightarrow> nat \<Rightarrow> int \<Rightarrow> f64 list res" where
  "slot_numbers lossy G s profiles template_id slot boot_id =
     and_then (template_row s template_id) (\<lambda>t.
       for_each (\<lambda>out r. and_then (align lossy G s profiles (length (tr_tokens t)) r) (\<lambda>a. Inr (case a of
           Aligned head tokens \<Rightarrow>
             if slot \<ge> length tokens then out
             else (case f64_parse (trim (tokens ! slot)) of Some v \<Rightarrow> out @ [v] | None \<Rightarrow> out)
         | _ \<Rightarrow> out)))
         [] (records_for_template s template_id None (Some boot_id) 500 0))"

section \<open>What a query reads\<close>

definition aligned_record ::
    "(byte list \<Rightarrow> string) \<Rightarrow> GenericRe \<Rightarrow> DeviceStore \<Rightarrow> ProfileSet \<Rightarrow> nat \<Rightarrow> RecordRow \<Rightarrow> (RecordRow \<times> LineRow \<times> string list) option" where
  "aligned_record lossy G s profiles width r =
     (case align lossy G s profiles width r of Inr (Aligned head tokens) \<Rightarrow> Some (r, head, tokens) | _ \<Rightarrow> None)"

definition unaligned :: "(byte list \<Rightarrow> string) \<Rightarrow> GenericRe \<Rightarrow> DeviceStore \<Rightarrow> ProfileSet \<Rightarrow> nat \<Rightarrow> RecordRow \<Rightarrow> bool" where
  "unaligned lossy G s profiles width r \<longleftrightarrow> align lossy G s profiles width r = Inr Unaligned"

definition series_of :: "(RecordRow \<times> LineRow \<times> string list) list \<Rightarrow> nat \<Rightarrow> Sample list" where
  "series_of al idx = map (\<lambda>(r, head, tokens). sample_at r head tokens idx) al"

lemma align_total: "r \<in> set (tb_records (ds_db s)) \<Longrightarrow> \<exists>a. align lossy G s profiles width r = Inr a"
proof -
  assume "r \<in> set (tb_records (ds_db s))"
  then have "find (\<lambda>x. rr_id x = rr_id r) (tb_records (ds_db s)) \<noteq> None" by (auto simp: find_None_iff)
  then show ?thesis by (auto simp: align_def record_lines_def record_row_def)
qed

lemma map2_compose:
  "length xs = length ws \<Longrightarrow> map2 f (map2 g xs ws) ws = map2 (\<lambda>x w. f (g x w) w) xs ws"
  by (induction xs ws rule: list_induct2) simp_all

lemma map2_left: "length xs = length ws \<Longrightarrow> map2 (\<lambda>x w. x) xs ws = xs"
  by (induction xs ws rule: list_induct2) simp_all

lemma add_records:
  assumes "set rs \<subseteq> set (tb_records (ds_db s))" and "length series = length wanted"
  shows "for_each (add_record lossy G s profiles width wanted) (series, u) rs =
    Inr (map2 (\<lambda>out idx. out @ series_of (List.map_filter (aligned_record lossy G s profiles width) rs) idx) series wanted,
         u + length (filter (unaligned lossy G s profiles width) rs))"
  using assms
proof (induction rs arbitrary: series u)
  case Nil
  then show ?case by (simp add: series_of_def List.map_filter_simps map2_left)
next
  case (Cons r rs)
  then obtain a where a: "align lossy G s profiles width r = Inr a" using align_total [of r s lossy G profiles width] by auto
  then show ?case using Cons
    by (cases a) (simp_all add: add_record_def aligned_record_def unaligned_def series_of_def List.map_filter_simps map2_compose)
qed

lemma records_for_template_in: "set (records_for_template s t ses b m o1) \<subseteq> set (tb_records (ds_db s))"
  by (auto simp: records_for_template_def records_by_id_def order_by_def dest!: in_set_takeD in_set_dropD)

lemma map2_replicate_Nil: "map2 (\<lambda>out idx. out @ f idx) (replicate (length ws) []) ws = map f ws"
  by (induction ws) simp_all

lemma map2_map_right: "map2 f ws (map g ws) = map (\<lambda>w. f w (g w)) ws"
  by (induction ws) simp_all

lemma template_values_eq:
  fixes ses b :: "int option" and max_records :: nat and lossy :: "byte list \<Rightarrow> string" and G :: GenericRe and profiles :: ProfileSet
  assumes "template_row s tid = Inr t" and "opt_all (\<lambda>i. i \<in> set (wildcards (tr_tokens t))) slot"
  defines "wanted \<equiv> (case slot of Some i \<Rightarrow> [i] | None \<Rightarrow> wildcards (tr_tokens t))"
  defines "records \<equiv> records_for_template s tid ses b max_records 0"
  defines "al \<equiv> List.map_filter (aligned_record lossy G s profiles (length (tr_tokens t))) records"
  shows "template_values lossy G s profiles tid slot ses b max_records max_samples = Inr (if wanted = []
    then \<lparr> vs_slots = [], vs_records_examined = 0, vs_unaligned = 0 \<rparr>
    else \<lparr> vs_slots = map (\<lambda>idx. summarise (tr_tokens t) idx (series_of al idx) max_samples) wanted,
           vs_records_examined = length records, vs_unaligned = length (filter (unaligned lossy G s profiles (length (tr_tokens t))) records) \<rparr>)"
  using assms(1,2) add_records [OF records_for_template_in, of "replicate (length wanted) []" wanted lossy G s profiles "length (tr_tokens t)" 0]
  by (simp add: template_values_def Let_def wanted_def [symmetric] records_def al_def map2_replicate_Nil map2_map_right)

lemma all_some_iff: "all_some (map f xs) = Some v \<longleftrightarrow> (\<forall>x \<in> set xs. f x \<noteq> None) \<and> v = map (\<lambda>x. the (f x)) xs"
proof -
  have "None \<in> set (map f xs) \<longleftrightarrow> (\<exists>x \<in> set xs. f x = None)" by (induction xs) auto
  then show ?thesis by (auto simp: all_some_def comp_def simp del: set_map)
qed

lemma mean_bounds:
  fixes v :: "rat list"
  assumes "v \<noteq> []"
  shows "Min (set v) \<le> sum_list v / of_nat (length v) \<and> sum_list v / of_nat (length v) \<le> Max (set v)"
proof -
  have "of_nat (length v) * Min (set v) \<le> sum_list v"
    using sum_list_mono [of v "\<lambda>_. Min (set v)" "\<lambda>x. x"] by (simp add: sum_list_triv)
  moreover have "sum_list v \<le> of_nat (length v) * Max (set v)"
    using sum_list_mono [of v "\<lambda>x. x" "\<lambda>_. Max (set v)"] by (simp add: sum_list_triv)
  ultimately show ?thesis using assms by (simp add: field_simps)
qed

lemma top_values_length: "length (top_values samples) = card (sa_value ` set samples)"
  by (simp add: top_values_def Let_def length_remdups_card_conv)

lemma top_values_sorted: "sorted (map (\<lambda>t. (- int (tv_count t), tv_value t)) (top_values samples))"
  by (simp add: top_values_def Let_def)

lemma top_values_set: "set (top_values samples) =
    (\<lambda>v. \<lparr> tv_value = v, tv_count = length (filter (\<lambda>x. sa_value x = v) samples) \<rparr>) ` sa_value ` set samples"
  by (simp add: top_values_def Let_def count_list_eq_length_filter filter_map comp_def eq_commute)

section \<open>Properties\<close>

text \<open>How often a value occurs, and what a summary of a series promises.\<close>

definition occurrences :: "Sample list \<Rightarrow> string \<Rightarrow> nat" where
  "occurrences series v = length (filter (\<lambda>x. sa_value x = v) series)"

definition sums_up :: "Sample list \<Rightarrow> nat \<Rightarrow> Slot \<Rightarrow> bool" where
  "sums_up series max_samples sl \<longleftrightarrow>
     sl_samples sl = drop (length series - max_samples) series \<and>
     sl_distinct sl = card (sa_value ` set series) \<and> length (sl_top sl) = min 10 (sl_distinct sl) \<and>
     (\<forall>t \<in> set (sl_top sl). tv_value t \<in> sa_value ` set series \<and> tv_count t = occurrences series (tv_value t)) \<and>
     (\<forall>t \<in> set (sl_top sl). \<forall>v \<in> sa_value ` set series - tv_value ` set (sl_top sl). occurrences series v \<le> tv_count t) \<and>
     (case sl_numeric sl of
        None \<Rightarrow> series = [] \<or> (\<exists>x \<in> set series. parse_number (sa_value x) = None)
      | Some nu \<Rightarrow> series \<noteq> [] \<and> parse_number (sa_value (hd series)) = Some (nu_first nu) \<and>
          parse_number (sa_value (last series)) = Some (nu_last nu) \<and> nu_min nu \<le> nu_mean nu \<and> nu_mean nu \<le> nu_max nu \<and>
          (\<forall>x \<in> set series. \<exists>q. parse_number (sa_value x) = Some q \<and> nu_min nu \<le> q \<and> q \<le> nu_max nu))"

lemma top_prefix:
  assumes "t \<in> set (take k (top_values series))" and "v \<in> sa_value ` set series" and "v \<notin> tv_value ` set (take k (top_values series))"
  shows "occurrences series v \<le> tv_count t"
proof -
  let ?u = "\<lparr> tv_value = v, tv_count = occurrences series v \<rparr>"
  have u: "?u \<in> set (top_values series)" using assms(2) by (simp add: top_values_set occurrences_def)
  moreover have "?u \<notin> set (take k (top_values series))" using assms(3) by force
  ultimately have "?u \<in> set (drop k (top_values series))" by (metis Un_iff append_take_drop_id set_append)
  moreover have "sorted (map (\<lambda>t. (- int (tv_count t), tv_value t)) (take k (top_values series) @ drop k (top_values series)))"
    using top_values_sorted [of series] by simp
  ultimately have "(- int (tv_count t), tv_value t) \<le> (- int (tv_count ?u), tv_value ?u)"
    using assms(1) unfolding map_append sorted_append by fastforce
  then show ?thesis by (auto simp: less_eq_prod_def)
qed

lemma summarise_sums_up: "sums_up series m (summarise tokens idx series m)"
proof -
  let ?s = "summarise tokens idx series m" and ?f = "\<lambda>x. parse_number (sa_value x)"
  have top: "sl_top ?s = take 10 (top_values series)" "sl_distinct ?s = card (sa_value ` set series)"
    "sl_samples ?s = drop (length series - m) series"
    by (simp_all add: summarise_def Let_def top_values_length)
  have listed: "tv_value t \<in> sa_value ` set series \<and> tv_count t = occurrences series (tv_value t)"
    if "t \<in> set (top_values series)" for t using that by (auto simp: top_values_set occurrences_def)
  have "case sl_numeric ?s of None \<Rightarrow> series = [] \<or> (\<exists>x \<in> set series. ?f x = None)
      | Some nu \<Rightarrow> series \<noteq> [] \<and> ?f (hd series) = Some (nu_first nu) \<and> ?f (last series) = Some (nu_last nu) \<and>
          nu_min nu \<le> nu_mean nu \<and> nu_mean nu \<le> nu_max nu \<and>
          (\<forall>x \<in> set series. \<exists>q. ?f x = Some q \<and> nu_min nu \<le> q \<and> q \<le> nu_max nu)"
  proof (cases "series \<noteq> [] \<and> (\<forall>x \<in> set series. ?f x \<noteq> None)")
    case True
    define v where "v = map (\<lambda>x. the (?f x)) series"
    have "all_some (map ?f series) = Some v" using True by (simp add: all_some_iff v_def)
    moreover have v: "v \<noteq> []" using True by (simp add: v_def)
    ultimately have "sl_numeric ?s = Some (numeric_of v)" by (simp add: summarise_def Let_def)
    moreover have "\<exists>q. ?f x = Some q \<and> Min (set v) \<le> q \<and> q \<le> Max (set v)" if "x \<in> set series" for x
    proof -
      have "the (?f x) \<in> set v" using that by (simp add: v_def)
      moreover have "?f x = Some (the (?f x))" using True that by auto
      ultimately show ?thesis using Min_le [of "set v" "the (?f x)"] Max_ge [of "set v" "the (?f x)"] by auto
    qed
    moreover have "?f (hd series) = Some (hd v)" "?f (last series) = Some (last v)"
      using True hd_in_set [of series] last_in_set [of series] by (auto simp: v_def hd_map last_map)
    ultimately show ?thesis using True mean_bounds [OF v] by (simp add: numeric_of_def)
  next
    case False
    then have "\<nexists>v. all_some (map ?f series) = Some v \<and> v \<noteq> []" by (auto simp: all_some_iff)
    then have "sl_numeric ?s = None" by (auto simp: summarise_def Let_def split: option.split)
    with False show ?thesis by auto
  qed
  then show ?thesis unfolding sums_up_def top
    using listed top_prefix [of _ 10 series] by (auto simp: top_values_length dest!: in_set_takeD)
qed

text \<open>The values a template query reports are what the stored lines say. For a known template and a
  slot that is one of its wildcards (or none given), the query succeeds; it answers for exactly
  the wildcards asked for. The series of a slot has one value for every examined record whose
  first line, tokenized under the record's own profile, has exactly as many tokens as the
  template, namely the token at the slot; records that do not align are counted, none is
  guessed at. The summary is exact: the newest samples are kept, the number of different values
  is right, the values listed as most common are, with their counts, and statistics are given
  if and only if every value is a number, with the mean between minimum and maximum.\<close>

theorem slot_values_exact:
  assumes "template_row s tid = Inr t" and "opt_all (\<lambda>i. i \<in> set (wildcards (tr_tokens t))) slot"
  shows "\<exists>v. template_values lossy G s profiles tid slot ses b max_records max_samples = Inr v \<and>
    map sl_slot (vs_slots v) = (case slot of Some i \<Rightarrow> [i] | None \<Rightarrow> wildcards (tr_tokens t)) \<and>
    (let recs = records_for_template s tid ses b max_records 0;
         al = List.map_filter (aligned_record lossy G s profiles (length (tr_tokens t))) recs
     in (\<forall>(r, head, tokens) \<in> set al. r \<in> set recs \<and> length tokens = length (tr_tokens t)) \<and>
        (\<forall>sl \<in> set (vs_slots v). sums_up (series_of al (sl_slot sl)) max_samples sl \<and>
           map sa_value (series_of al (sl_slot sl)) = map (\<lambda>(r, head, tokens). tokens ! sl_slot sl) al) \<and>
        (vs_slots v \<noteq> [] \<longrightarrow> vs_unaligned v = length (filter (unaligned lossy G s profiles (length (tr_tokens t))) recs)))"
proof -
  define recs where "recs = records_for_template s tid ses b max_records 0"
  define al where "al = List.map_filter (aligned_record lossy G s profiles (length (tr_tokens t))) recs"
  have "length tokens = length (tr_tokens t)" if "aligned_record lossy G s profiles (length (tr_tokens t)) x = Some (r, head, tokens)" for x r head tokens
    using that by (auto simp: aligned_record_def align_def Let_def split: sum.splits aligned.splits list.splits option.splits if_splits)
  moreover have "r = x" if "aligned_record lossy G s profiles (length (tr_tokens t)) x = Some (r, head, tokens)" for x r head tokens
    using that by (auto simp: aligned_record_def split: sum.splits aligned.splits)
  ultimately have "\<forall>(r, head, tokens) \<in> set al. r \<in> set recs \<and> length tokens = length (tr_tokens t)"
    unfolding al_def by (auto simp: List.map_filter_def) metis
  moreover have "map sa_value (series_of al i) = map (\<lambda>(r, head, tokens). tokens ! i) al" for i
    by (simp add: series_of_def sample_at_def case_prod_beta)
  moreover have "sl_slot (summarise ts i x m) = i" for ts i x m by (simp add: summarise_def Let_def)
  ultimately show ?thesis
    using template_values_eq [OF assms, of lossy G profiles ses b max_records max_samples]
    unfolding recs_def [symmetric] al_def [symmetric] Let_def
    by (auto simp: summarise_sums_up comp_def)
qed

definition sample_template :: TemplateRow where
  "sample_template = \<lparr> tr_id = 1, tr_stage = None, tr_profile = ''raw'', tr_text = ''took <*> ms'', tr_tokens = [''took'', ''<*>'', ''ms''],
     tr_head_only = False, tr_severity = Unknown, tr_first_seen_session = 1, tr_first_seen_boot = None, tr_first_seen_ts = 0,
     tr_total_count = 1 \<rparr>"

definition values_sample :: DeviceStore where
  "values_sample = \<lparr> ds_db = empty_tables\<lparr> tb_templates := [sample_template],
     tb_raw_lines := [\<lparr> lr_id = 1, lr_session_id = 1, lr_boot_id = None, lr_stream_offset = 0, lr_ts_mono = 0, lr_ts_wall = 7, lr_stage_id = None,
        lr_bytes = map (\<lambda>c. of_nat (of_char c)) ''took 42 ms'', lr_terminator = Lf, lr_truncated = False, lr_continuation = False \<rparr>],
     tb_records := [\<lparr> rr_id = 1, rr_session_id = 1, rr_boot_id = None, rr_first_line_id = 1, rr_last_line_id = 1, rr_line_count = 1,
        rr_stage_id = None, rr_profile = ''raw'', rr_severity = Unknown, rr_kind = Line_kind, rr_template_id = Some 1, rr_truncated = False,
        rr_fields = JNull \<rparr>] \<rparr>,
     ds_canonical = ''x'', ds_cursor_token = ''x'', ds_stream_offset = 0, ds_pruned_before = 0 \<rparr>"

theorem slot_values_exact_witness:
  "\<forall>G. \<exists>v. template_values (map (\<lambda>x. char_of (unat x))) G values_sample [sample_profile ''raw'' 5 []] 1 (Some 1) None None 10 10 = Inr v \<and>
    map sl_slot (vs_slots v) = [1] \<and>
    (let recs = records_for_template values_sample 1 None None 10 0;
         al = List.map_filter (aligned_record (map (\<lambda>x. char_of (unat x))) G values_sample [sample_profile ''raw'' 5 []] 3) recs
     in (\<forall>(r, head, tokens) \<in> set al. r \<in> set recs \<and> length tokens = 3) \<and>
        (\<forall>sl \<in> set (vs_slots v). sums_up (series_of al (sl_slot sl)) 10 sl \<and>
           map sa_value (series_of al (sl_slot sl)) = map (\<lambda>(r, head, tokens). tokens ! sl_slot sl) al) \<and>
        (vs_slots v \<noteq> [] \<longrightarrow> vs_unaligned v =
           length (filter (unaligned (map (\<lambda>x. char_of (unat x))) G values_sample [sample_profile ''raw'' 5 []] 3) recs)))"
  (is "\<forall>G. ?P G")
proof (rule allI)
  fix G
  have row: "template_row values_sample 1 = Inr sample_template" "opt_all (\<lambda>i. i \<in> set (wildcards (tr_tokens sample_template))) (Some 1)"
    by (simp_all add: template_row_def values_sample_def sample_template_def wildcards_def WILDCARD_def opt_all_def)
  have len: "length (tr_tokens sample_template) = 3" by (simp add: sample_template_def)
  note slot_values_exact [OF row, unfolded option.case len]
  then show "?P G" .
qed

text \<open>A hexadecimal value whose last digit is a letter is not read as a number: the letters at its
  end are taken for a unit.\<close>

lemma hex_ending_in_letter_rejected:
  "parse_number ''0x1f'' = None" "parse_number ''0xdeadbeef'' = None"
  by code_simp+

lemma hex_ending_in_digit_read: "parse_number ''0x1f0'' = Some 496"
  by (simp add: parse_number_def trim_matches_def is_punct_def starts_with_def hex_prefix_def strip_prefix_def Let_def
        trim_end_matches_def is_unit_def str_len_def len_utf8_def is_ascii_hexdigit_def is_ascii_digit_def is_ascii_alphabetic_def
        from_str_radix_def digit_val_def with_sign_def)

text \<open>A pinned metric reads a slot differently from the query: a value with a unit is a number to
  the query and nothing to the metric, and the words for infinity and NaN are numbers to the
  metric only.\<close>

lemma metric_and_query_disagree:
  "parse_number ''12ms'' = Some 12" "f64_parse ''12ms'' = None"
  "parse_number ''nan'' = None" "f64_parse ''nan'' = Some NaN" "f64_parse ''inf'' = Some (Infinite False)"
  by code_simp+

end
