(* ===== verification/Search.thy ===== *)
theory Search
  imports Store_Queries Device_Registry
begin

text \<open>
  Searching a capture (\<^verbatim>\<open>crates/conminer-core/src/search.rs\<close>): the indexed tier, regular expressions
  narrowed by the index, the honest scan, and the sliding window. The full-text engine and the
  regex engine are arguments: what a query matches in a text, or that the query is refused. The
  index holds the texts of the stored rows. Highlights are byte ranges.
\<close>

section \<open>Queries and results\<close>

datatype SearchMode = Terms | Phrase | Regex_mode | Raw

datatype ScopeKind = Line_scope | Record_scope | Window_scope

record SearchScope =
  sc_kind :: ScopeKind
  sc_window :: nat

definition SearchScope_default :: SearchScope where
  "SearchScope_default = \<lparr> sc_kind = Line_scope, sc_window = 20 \<rparr>"

record SearchQuery =
  q_query :: string
  q_mode :: SearchMode
  q_scope :: SearchScope
  q_session_id :: "int option"
  q_boot_id :: "int option"
  q_max_results :: nat
  q_after_offset :: "nat option"

definition SearchQuery_default :: SearchQuery where
  "SearchQuery_default = \<lparr> q_query = [], q_mode = Terms, q_scope = SearchScope_default, q_session_id = None, q_boot_id = None,
     q_max_results = 100, q_after_offset = None \<rparr>"

record SearchHit =
  sh_kind :: string
  sh_id :: int
  sh_line_id :: int
  sh_stream_offset :: nat
  sh_session_id :: int
  sh_text :: string
  sh_highlights :: "(nat \<times> nat) list"

record SearchResult =
  sr_hits :: "SearchHit list"
  sr_tier :: string
  sr_scan :: bool
  sr_rows_scanned :: nat
  sr_bytes_scanned :: nat
  sr_capped :: bool
  sr_next_offset :: "nat option"

text \<open>The engines: \<open>en_fts\<close> says whether the device is indexed, \<open>en_match\<close> what an index expression
  matches, \<open>en_regex\<close> the matches of a pattern in a text.\<close>

record SearchEnv =
  en_lossy :: "byte list \<Rightarrow> string"
  en_fts :: bool
  en_match :: "string \<Rightarrow> (string \<Rightarrow> bool) option"
  en_regex :: "string \<Rightarrow> (string \<Rightarrow> (nat \<times> nat) list) option"

section \<open>Matching\<close>

definition lower :: "string \<Rightarrow> string" where
  "lower s = map to_lowercase s"

datatype Matcher = M_terms "string list" | M_phrase string | M_regex "string \<Rightarrow> (nat \<times> nat) list"

definition Matcher_new :: "SearchEnv \<Rightarrow> SearchQuery \<Rightarrow> Matcher res" where
  "Matcher_new e q =
     (case q_mode q of
        Terms \<Rightarrow> Inr (M_terms (map lower (split_whitespace (q_query q))))
      | Regex_mode \<Rightarrow> (case en_regex e (q_query q) of None \<Rightarrow> Inl InvalidArgument | Some re \<Rightarrow> Inr (M_regex re))
      | _ \<Rightarrow> Inr (M_phrase (lower (trim (q_query q)))))"

text \<open>The non-overlapping occurrences of a text, as byte ranges. A search never has an empty term.\<close>

function occurrences_from :: "string \<Rightarrow> string \<Rightarrow> nat \<Rightarrow> (nat \<times> nat) list" where
  "occurrences_from p hay at1 =
     (if p = [] then []
      else case str_find p hay of
             None \<Rightarrow> []
           | Some i \<Rightarrow>
               let start = at1 + str_len (take i hay)
               in (start, start + str_len p) # occurrences_from p (drop (i + length p) hay) (start + str_len p))"
  by pat_completeness auto

termination
proof (relation "measure (\<lambda>(p, hay, k). length hay)")
  fix p hay :: string and k i start :: nat
  assume "p \<noteq> []" and "str_find p hay = Some i"
  then have "0 < length p" "i + length p \<le> length hay" by (simp_all add: str_find_le)
  then have "length hay - (i + length p) < length hay" by linarith
  then show "((p, drop (i + length p) hay, start + str_len p), p, hay, k) \<in> measure (\<lambda>(p, hay, k). length hay)" by simp
qed simp

declare occurrences_from.simps [simp del]

fun Matcher_find :: "Matcher \<Rightarrow> string \<Rightarrow> (nat \<times> nat) list" where
  "Matcher_find (M_regex re) txt = re txt"
| "Matcher_find (M_phrase p) txt = occurrences_from p (lower txt) 0"
| "Matcher_find (M_terms terms) txt =
     (let hay = lower txt
      in if \<not> list_all (\<lambda>t. str_contains t hay) terms then []
         else sort (concat (map (\<lambda>t. occurrences_from t hay 0) terms)))"

definition highlight :: "SearchEnv \<Rightarrow> string \<Rightarrow> SearchQuery \<Rightarrow> (nat \<times> nat) list" where
  "highlight e txt q = (case Matcher_new e q of Inr m \<Rightarrow> Matcher_find m txt | Inl _ \<Rightarrow> [])"

section \<open>Rows\<close>

text \<open>Id, anchor line, offset and session of a row in scope, in the order of ids.\<close>

type_synonym row = "int \<times> int \<times> nat \<times> int"

definition in_scope :: "SearchQuery \<Rightarrow> int \<Rightarrow> int option \<Rightarrow> nat \<Rightarrow> bool" where
  "in_scope q session_id boot_id offset \<longleftrightarrow>
     or_any (q_session_id q) session_id \<and> (q_boot_id q = None \<or> boot_id = q_boot_id q) \<and> opt_all (\<lambda>o1. offset \<ge> o1) (q_after_offset q)"

definition record_rows :: "DeviceStore \<Rightarrow> SearchQuery \<Rightarrow> row list" where
  "record_rows s q =
     List.map_filter (\<lambda>r. case find (\<lambda>l. lr_id l = rr_first_line_id r) (tb_raw_lines (ds_db s)) of
         None \<Rightarrow> None
       | Some l \<Rightarrow> if in_scope q (rr_session_id r) (rr_boot_id r) (lr_stream_offset l)
                   then Some (rr_id r, rr_first_line_id r, lr_stream_offset l, rr_session_id r) else None)
       (records_by_id s (\<lambda>_. True))"

definition scan_rows :: "DeviceStore \<Rightarrow> SearchQuery \<Rightarrow> LineRow list" where
  "scan_rows s q = lines_by_id s (\<lambda>l. in_scope q (lr_session_id l) (lr_boot_id l) (lr_stream_offset l))"

definition search_rows :: "DeviceStore \<Rightarrow> SearchQuery \<Rightarrow> row list" where
  "search_rows s q =
     (if sc_kind (q_scope q) = Record_scope then record_rows s q
      else map (\<lambda>l. (lr_id l, lr_id l, lr_stream_offset l, lr_session_id l)) (scan_rows s q))"

definition row_text :: "SearchEnv \<Rightarrow> DeviceStore \<Rightarrow> SearchQuery \<Rightarrow> row \<Rightarrow> string res" where
  "row_text e s q = (\<lambda>(i, line_id, offset, session_id).
     if sc_kind (q_scope q) = Record_scope then record_text (en_lossy e) s i
     else and_then (line_row s line_id) (\<lambda>l. Inr (LineRow_lossy (en_lossy e) l)))"

definition scope_name :: "SearchQuery \<Rightarrow> string" where
  "scope_name q = (if sc_kind (q_scope q) = Record_scope then ''record'' else ''line'')"

definition hit_of :: "SearchQuery \<Rightarrow> row \<Rightarrow> string \<Rightarrow> (nat \<times> nat) list \<Rightarrow> SearchHit" where
  "hit_of q = (\<lambda>(i, line_id, offset, session_id) txt hl.
     \<lparr> sh_kind = scope_name q, sh_id = i, sh_line_id = line_id, sh_stream_offset = offset, sh_session_id = session_id,
       sh_text = txt, sh_highlights = hl \<rparr>)"

section \<open>The scan\<close>

text \<open>The loop over the rows: hits, the counters, and where to go on when the cap was reached. What a
  scanned line counts is its raw bytes, a record its text.\<close>

fun scan_loop ::
    "SearchQuery \<Rightarrow> Matcher \<Rightarrow> SearchHit list \<Rightarrow> nat \<Rightarrow> nat \<Rightarrow> (row \<times> string \<times> nat) list \<Rightarrow>
     SearchHit list \<times> nat \<times> nat \<times> nat option" where
  "scan_loop q m hits rows bytes [] = (hits, rows, bytes, None)"
| "scan_loop q m hits rows bytes ((r, txt, sz) # rest) =
     (let h = Matcher_find m txt; rows = rows + 1; bytes = bytes + sz
      in if h \<noteq> [] then
           (if length hits \<ge> q_max_results q then (hits, rows, bytes, Some (fst (snd (snd r))))
            else scan_loop q m (hits @ [hit_of q r txt h]) rows bytes rest)
         else scan_loop q m hits rows bytes rest)"

definition sized_rows :: "SearchEnv \<Rightarrow> DeviceStore \<Rightarrow> SearchQuery \<Rightarrow> (row \<times> string \<times> nat) list res" where
  "sized_rows e s q =
     (if sc_kind (q_scope q) = Record_scope
      then for_each (\<lambda>out r. and_then (row_text e s q r) (\<lambda>t. Inr (out @ [(r, t, str_len t)]))) [] (record_rows s q)
      else Inr (map (\<lambda>l. ((lr_id l, lr_id l, lr_stream_offset l, lr_session_id l), LineRow_lossy (en_lossy e) l, length (lr_bytes l)))
                  (scan_rows s q)))"

definition degraded_scan :: "SearchEnv \<Rightarrow> DeviceStore \<Rightarrow> SearchQuery \<Rightarrow> SearchResult res" where
  "degraded_scan e s q =
     and_then (Matcher_new e q) (\<lambda>m. and_then (sized_rows e s q) (\<lambda>rs.
       let (hits, rows, bytes, next1) = scan_loop q m [] 0 0 rs
       in Inr \<lparr> sr_hits = hits, sr_tier = ''scan'', sr_scan = True, sr_rows_scanned = rows, sr_bytes_scanned = bytes,
                sr_capped = (next1 \<noteq> None), sr_next_offset = next1 \<rparr>))"

section \<open>The index\<close>

definition fts_quote :: "string \<Rightarrow> string" where
  "fts_quote s = [CHR 0x22] @ str_replace [CHR 0x22] [CHR 0x22, CHR 0x22] s @ [CHR 0x22]"

text \<open>A pattern never reaches the index as it is; the code panics there.\<close>

definition fts_expression :: "SearchQuery \<Rightarrow> string option" where
  "fts_expression q =
     (case q_mode q of
        Terms \<Rightarrow> Some (join_with '' '' (map fts_quote (split_whitespace (q_query q))))
      | Phrase \<Rightarrow> Some (fts_quote (trim (q_query q)))
      | Raw \<Rightarrow> Some (q_query q)
      | Regex_mode \<Rightarrow> None)"

definition indexed_rows :: "SearchEnv \<Rightarrow> DeviceStore \<Rightarrow> SearchQuery \<Rightarrow> (string \<Rightarrow> bool) \<Rightarrow> row list" where
  "indexed_rows e s q matches =
     filter (\<lambda>r. case row_text e s q r of Inr t \<Rightarrow> matches t | Inl _ \<Rightarrow> False) (search_rows s q)"

definition fts_hits :: "SearchEnv \<Rightarrow> DeviceStore \<Rightarrow> SearchQuery \<Rightarrow> row list \<Rightarrow> SearchHit list res" where
  "fts_hits e s q rows =
     for_each (\<lambda>hits r. and_then (row_text e s q r) (\<lambda>t.
       let h = highlight e t q in Inr (if q_mode q = Phrase \<and> h = [] then hits else hits @ [hit_of q r t h]))) [] rows"

definition fts_search :: "SearchEnv \<Rightarrow> DeviceStore \<Rightarrow> SearchQuery \<Rightarrow> SearchResult res" where
  "fts_search e s q =
     (if \<not> en_fts e then and_then (degraded_scan e s q) (\<lambda>r. Inr (r\<lparr> sr_tier := ''scan (index=off)'' \<rparr>))
      else and_then (ok_or Internal (fts_expression q)) (\<lambda>expr.
           and_then (ok_or InvalidArgument (en_match e expr)) (\<lambda>matches.
           let raw = take (q_max_results q + 1) (indexed_rows e s q matches);
               capped = length raw > q_max_results q
           in and_then (fts_hits e s q (take (q_max_results q) raw)) (\<lambda>hits.
                Inr \<lparr> sr_hits = hits, sr_tier = ''fts'', sr_scan = False, sr_rows_scanned = 0, sr_bytes_scanned = 0, sr_capped = capped,
                      sr_next_offset = (if capped \<and> hits \<noteq> [] then Some (sh_stream_offset (last hits) + 1) else None) \<rparr>))))"

section \<open>Patterns\<close>

text \<open>\<^verbatim>\<open>extract_literals\<close>: fragments a pattern is taken to require at the start of a token.\<close>

record LitState =
  lt_out :: "string list"
  lt_cur :: string
  lt_anchored :: bool
  lt_in_class :: bool
  lt_alternation :: bool
  lt_at_boundary :: bool

definition lit_flush :: "bool \<Rightarrow> LitState \<Rightarrow> LitState" where
  "lit_flush boundary st =
     st\<lparr> lt_out := (if lt_anchored st \<and> length (lt_cur st) \<ge> 3 then lt_out st @ [lt_cur st] else lt_out st),
         lt_cur := [], lt_anchored := False, lt_at_boundary := boundary \<rparr>"

definition escape_boundary :: "char \<Rightarrow> bool" where
  "escape_boundary c \<longleftrightarrow> c \<in> set ''sbWSntr'' \<or> \<not> (is_alphanumeric c \<or> c = CHR ''_'')"

definition word_char :: "char \<Rightarrow> bool" where
  "word_char c \<longleftrightarrow> is_alphanumeric c \<or> c = CHR ''_'' \<or> c = CHR ''-''"

definition lit_char :: "char \<Rightarrow> LitState \<Rightarrow> LitState" where
  "lit_char c st =
     (if c = CHR ''['' then lit_flush False (st\<lparr> lt_in_class := True \<rparr>)
      else if c = CHR '']'' then st\<lparr> lt_in_class := False, lt_at_boundary := False \<rparr>
      else if c = CHR ''|'' then lit_flush True (st\<lparr> lt_alternation := True \<rparr>)
      else if c = CHR ''('' \<or> c = CHR '')'' then lit_flush (lt_at_boundary st) st
      else if c = CHR ''^'' then lit_flush True st
      else if c = CHR ''$'' \<or> c = CHR ''.'' then lit_flush False st
      else if c = CHR ''?'' \<or> c = CHR ''*'' then lit_flush False (st\<lparr> lt_cur := butlast (lt_cur st) \<rparr>)
      else if c = CHR ''+'' \<or> c = CHR ''{'' \<or> c = CHR ''}'' then lit_flush False st
      else if lt_in_class st then st
      else if word_char c
      then st\<lparr> lt_anchored := (if lt_cur st = [] then lt_at_boundary st else lt_anchored st), lt_cur := lt_cur st @ [c] \<rparr>
      else lit_flush True st)"

fun lit_loop :: "LitState \<Rightarrow> string \<Rightarrow> LitState" where
  "lit_loop st [] = st"
| "lit_loop st (c # cs) =
     (if c = CHR 0x5C
      then (case cs of [] \<Rightarrow> lit_flush (escape_boundary (CHR '' '')) st
            | x # rest \<Rightarrow> lit_loop (lit_flush (escape_boundary x) st) rest)
      else lit_loop (lit_char c st) cs)"

definition lit_start :: LitState where
  "lit_start = \<lparr> lt_out = [], lt_cur = [], lt_anchored = False, lt_in_class = False, lt_alternation = False, lt_at_boundary = True \<rparr>"

definition extract_literals :: "string \<Rightarrow> string list" where
  "extract_literals pattern =
     (let st = lit_loop lit_start pattern;
          out = (if lt_anchored st \<and> length (lt_cur st) \<ge> 3 then lt_out st @ [lt_cur st] else lt_out st)
      in if lt_alternation st then []
         else take 3 (sort_key (\<lambda>l. - int (str_len l)) (filter (\<lambda>l. length l \<ge> 3) out)))"

definition narrow_expression :: "string list \<Rightarrow> string" where
  "narrow_expression literals = join_with '' '' (map (\<lambda>l. fts_quote l @ ''*'') literals)"

definition regex_search :: "SearchEnv \<Rightarrow> DeviceStore \<Rightarrow> SearchQuery \<Rightarrow> SearchResult res" where
  "regex_search e s q =
     and_then (ok_or InvalidArgument (en_regex e (q_query q))) (\<lambda>re.
       let literals = extract_literals (q_query q)
       in if en_fts e \<and> literals \<noteq> [] then
            and_then (fts_search e s (q\<lparr> q_query := narrow_expression literals, q_mode := Raw, q_max_results := max (q_max_results q * 20) 200 \<rparr>)) (\<lambda>cand.
              let kept = filter (\<lambda>h. re (sh_text h) \<noteq> []) (sr_hits cand);
                  capped = length kept > q_max_results q;
                  hits = map (\<lambda>h. h\<lparr> sh_highlights := re (sh_text h), sh_kind := scope_name q \<rparr>) (take (q_max_results q) kept)
              in Inr (cand\<lparr> sr_hits := hits, sr_tier := ''fts+regex'', sr_capped := capped \<rparr>))
          else and_then (degraded_scan e s q) (\<lambda>r. Inr (r\<lparr> sr_tier := ''scan'' \<rparr>)))"

section \<open>Windows\<close>

fun line_index_loop :: "nat \<Rightarrow> nat \<Rightarrow> nat \<Rightarrow> nat list \<Rightarrow> nat option" where
  "line_index_loop acc i offset [] = None"
| "line_index_loop acc i offset (n # ns) =
     (let acc = acc + n + 1 in if offset < acc then Some i else line_index_loop acc (i + 1) offset ns)"

definition line_index_of :: "SearchEnv \<Rightarrow> LineRow list \<Rightarrow> nat \<Rightarrow> nat" where
  "line_index_of e lines offset =
     (case line_index_loop 0 0 offset (map (\<lambda>l. str_len (LineRow_lossy (en_lossy e) l)) lines) of
        Some i \<Rightarrow> i | None \<Rightarrow> length lines - 1)"

text \<open>The loop over window starts; \<open>reported\<close> are the anchors that have a hit.\<close>

definition window_text :: "SearchEnv \<Rightarrow> LineRow list \<Rightarrow> string" where
  "window_text e ls = join_with [CHR 0x0A] (map (LineRow_lossy (en_lossy e)) ls)"

definition window_hit :: "LineRow \<Rightarrow> string \<Rightarrow> (nat \<times> nat) list \<Rightarrow> SearchHit" where
  "window_hit l txt h = \<lparr> sh_kind = ''window'', sh_id = lr_id l, sh_line_id = lr_id l, sh_stream_offset = lr_stream_offset l,
     sh_session_id = lr_session_id l, sh_text = txt, sh_highlights = h \<rparr>"

fun window_loop :: "SearchEnv \<Rightarrow> SearchQuery \<Rightarrow> Matcher \<Rightarrow> nat \<Rightarrow> int list \<Rightarrow> SearchHit list \<Rightarrow> nat \<Rightarrow> LineRow list \<Rightarrow>
    SearchHit list \<times> nat \<times> nat option" where
  "window_loop e q m n reported hits bytes [] = (hits, bytes, None)"
| "window_loop e q m n reported hits bytes (l # ls) =
     (let win = take n (l # ls); txt = window_text e win; bytes = bytes + str_len txt; h = Matcher_find m txt
      in if h = [] then window_loop e q m n reported hits bytes ls
         else
           let anchor = win ! line_index_of e win (fst (hd h))
           in if lr_id anchor \<in> set reported then window_loop e q m n reported hits bytes ls
              else if length hits \<ge> q_max_results q then (hits, bytes, Some (lr_stream_offset anchor))
              else window_loop e q m n (reported @ [lr_id anchor]) (hits @ [window_hit anchor txt h]) bytes ls)"

definition window_scan :: "SearchEnv \<Rightarrow> DeviceStore \<Rightarrow> SearchQuery \<Rightarrow> SearchResult res" where
  "window_scan e s q =
     (let n = max (sc_window (q_scope q)) 2; lines = scan_rows s q
      in and_then (Matcher_new e q) (\<lambda>m.
           let (hits, bytes, next1) = window_loop e q m n [] [] 0 lines
           in Inr \<lparr> sr_hits = hits, sr_tier = ''window('' @ int_str (int n) @ '')'', sr_scan = True, sr_rows_scanned = length lines,
                    sr_bytes_scanned = bytes, sr_capped = (next1 \<noteq> None), sr_next_offset = next1 \<rparr>))"

definition search :: "SearchEnv \<Rightarrow> DeviceStore \<Rightarrow> SearchQuery \<Rightarrow> SearchResult res" where
  "search e s q =
     (if trim (q_query q) = [] then Inl InvalidArgument
      else if sc_kind (q_scope q) = Window_scope then window_scan e s q
      else if q_mode q = Regex_mode then regex_search e s q
      else fts_search e s q)"

end
