(* ===== verification/Search_Laws.thy ===== *)
theory Search_Laws
  imports Search Store_Retention
begin

text \<open>
  What holds of searches: a client that follows the resume offset sees every hit of the scanning
  tier and of the word search once, and which matches the narrowing of a pattern by the index
  may rely on, with the patterns that break it.
\<close>

section \<open>Paging\<close>

text \<open>What a client that pages relies on: a page is the first hits from an offset on, and there is an
  offset to go on from exactly if there are more, which separates the page from the rest.\<close>

locale paged_reader =
  fixes ok :: "'s \<Rightarrow> bool"
    and page :: "'s \<Rightarrow> nat option \<Rightarrow> nat \<Rightarrow> 'h list \<times> nat option"
    and pos :: "'h \<Rightarrow> nat"
    and all :: "'s \<Rightarrow> 'h list"
  assumes page_take: "ok s \<Longrightarrow> k > 0 \<Longrightarrow> fst (page s a k) = take k (filter (\<lambda>h. opt_all (\<lambda>o1. pos h \<ge> o1) a) (all s))"
    and page_last: "ok s \<Longrightarrow> k > 0 \<Longrightarrow> snd (page s a k) = None \<longleftrightarrow> length (filter (\<lambda>h. opt_all (\<lambda>o1. pos h \<ge> o1) a) (all s)) \<le> k"
    and page_next: "ok s \<Longrightarrow> k > 0 \<Longrightarrow> snd (page s a k) = Some n \<Longrightarrow> opt_all (\<lambda>o1. o1 \<le> n) a \<and>
        (\<forall>h \<in> set (take k (filter (\<lambda>h. opt_all (\<lambda>o1. pos h \<ge> o1) a) (all s))). pos h < n) \<and>
        (\<forall>h \<in> set (drop k (filter (\<lambda>h. opt_all (\<lambda>o1. pos h \<ge> o1) a) (all s))). n \<le> pos h)"
begin

definition remaining :: "'s \<Rightarrow> nat option \<Rightarrow> 'h list" where
  "remaining s a = filter (\<lambda>h. opt_all (\<lambda>o1. pos h \<ge> o1) a) (all s)"

lemma remaining_next:
  assumes "ok s" and "k > 0" and "snd (page s a k) = Some n"
  shows "remaining s (Some n) = drop k (remaining s a)"
proof -
  note p = page_next [OF assms, folded remaining_def]
  have "remaining s (Some n) = filter (\<lambda>h. n \<le> pos h) (remaining s a)"
    unfolding remaining_def filter_filter by (rule filter_cong) (use p in \<open>auto simp: opt_all_def split: option.split\<close>)
  also have "\<dots> = filter (\<lambda>h. n \<le> pos h) (take k (remaining s a)) @ filter (\<lambda>h. n \<le> pos h) (drop k (remaining s a))"
    by (metis append_take_drop_id filter_append)
  also have "\<dots> = drop k (remaining s a)" using p by (auto simp: filter_empty_conv filter_id_conv)
  finally show ?thesis .
qed

fun collect :: "nat \<Rightarrow> 's \<Rightarrow> nat option \<Rightarrow> nat \<Rightarrow> 'h list" where
  "collect fuel s a k =
     (case page s a k of
        (hs, None) \<Rightarrow> hs
      | (hs, Some n) \<Rightarrow> hs @ (case fuel of 0 \<Rightarrow> [] | Suc f \<Rightarrow> collect f s (Some n) k))"

declare collect.simps [simp del]

lemma collect_remaining:
  assumes "ok s" and "k > 0"
  shows "length (remaining s a) \<le> fuel \<Longrightarrow> collect fuel s a k = remaining s a"
proof (induction fuel arbitrary: a)
  case 0
  then have "snd (page s a k) = None" using page_last [OF assms, of a] by (simp add: remaining_def)
  with page_take [OF assms, of a] 0 show ?case
    by (cases "page s a k") (simp add: collect.simps [of 0] remaining_def)
next
  case (Suc fuel)
  show ?case
  proof (cases "snd (page s a k)")
    case None
    with page_take [OF assms, of a] page_last [OF assms, of a] show ?thesis
      by (cases "page s a k") (simp add: collect.simps [of "Suc fuel"] remaining_def)
  next
    case (Some n)
    then have len: "length (remaining s a) > k" using page_last [OF assms, of a] by (simp add: remaining_def)
    have next1: "remaining s (Some n) = drop k (remaining s a)" by (rule remaining_next [OF assms Some])
    then have "collect fuel s (Some n) k = remaining s (Some n)" using Suc assms(2) len by (intro Suc.IH) simp
    with Some page_take [OF assms, of a] show ?thesis
      by (cases "page s a k") (simp add: collect.simps [of "Suc fuel"] next1 remaining_def [symmetric])
  qed
qed

text \<open>All pages together are all hits, each once and in order.\<close>

lemma collect_all: "ok s \<Longrightarrow> k > 0 \<Longrightarrow> length (all s) \<le> fuel \<Longrightarrow> collect fuel s None k = all s"
  using collect_remaining [of s k None fuel] by (simp add: remaining_def opt_all_def)

end

section \<open>The scan as a reader of pages\<close>

definition page_query :: "SearchQuery \<Rightarrow> nat option \<Rightarrow> nat \<Rightarrow> SearchQuery" where
  "page_query q a k = q\<lparr> q_after_offset := a, q_max_results := k \<rparr>"

lemma page_query_simps [simp]:
  "q_query (page_query q a k) = q_query q" "q_mode (page_query q a k) = q_mode q" "q_scope (page_query q a k) = q_scope q"
  "q_max_results (page_query q a k) = k" "Matcher_new e (page_query q a k) = Matcher_new e q"
  "scope_name (page_query q a k) = scope_name q" "hit_of (page_query q a k) = hit_of q" "highlight e t (page_query q a k) = highlight e t q"
  "row_text e s (page_query q a k) = row_text e s q" "fts_expression (page_query q a k) = fts_expression q"
  by (simp_all add: page_query_def Matcher_new_def scope_name_def hit_of_def highlight_def row_text_def fts_expression_def fun_eq_iff split_def
      cong: SearchMode.case_cong)

lemma page_query_scope:
  "q_after_offset q = None \<Longrightarrow> in_scope (page_query q a k) x y o1 \<longleftrightarrow> in_scope q x y o1 \<and> opt_all (\<lambda>n. o1 \<ge> n) a"
  by (auto simp: in_scope_def page_query_def opt_all_def split: option.split)

definition search_page :: "SearchEnv \<times> DeviceStore \<times> SearchQuery \<Rightarrow> nat option \<Rightarrow> nat \<Rightarrow> SearchHit list \<times> nat option" where
  "search_page = (\<lambda>(e, s, q) a k. case search e s (page_query q a k) of Inr r \<Rightarrow> (sr_hits r, sr_next_offset r) | Inl _ \<Rightarrow> ([], None))"

definition scan_hits :: "SearchQuery \<Rightarrow> Matcher \<Rightarrow> (row \<times> string \<times> nat) list \<Rightarrow> SearchHit list" where
  "scan_hits q m rs =
     List.map_filter (\<lambda>(r, txt, sz). if Matcher_find m txt = [] then None else Some (hit_of q r txt (Matcher_find m txt))) rs"

lemma scan_loop_hits:
  assumes "length hits \<le> q_max_results q"
  shows "fst (scan_loop q m hits rows bytes rs) = hits @ take (q_max_results q - length hits) (scan_hits q m rs)"
    and "snd (snd (snd (scan_loop q m hits rows bytes rs))) =
      (if length (scan_hits q m rs) > q_max_results q - length hits then Some (sh_stream_offset (scan_hits q m rs ! (q_max_results q - length hits))) else None)"
proof -
  have "fst (scan_loop q m hits rows bytes rs) = hits @ take (q_max_results q - length hits) (scan_hits q m rs) \<and>
    snd (snd (snd (scan_loop q m hits rows bytes rs))) =
      (if length (scan_hits q m rs) > q_max_results q - length hits then Some (sh_stream_offset (scan_hits q m rs ! (q_max_results q - length hits))) else None)"
    using assms(1)
  proof (induction rs arbitrary: hits rows bytes)
    case (Cons x rs)
    obtain r tx sz where x: "x = (r, tx, sz)" by (cases x)
    show ?case
    proof (cases "Matcher_find m tx = []")
      case True
      then have "scan_hits q m (x # rs) = scan_hits q m rs" by (simp add: scan_hits_def x List.map_filter_simps)
      with True Cons show ?thesis by (simp add: x Let_def)
    next
      case False
      then have h: "scan_hits q m (x # rs) = hit_of q r tx (Matcher_find m tx) # scan_hits q m rs" by (simp add: scan_hits_def x List.map_filter_simps)
      show ?thesis
      proof (cases "length hits \<ge> q_max_results q")
        case True
        with False h Cons.prems show ?thesis by (simp add: x Let_def hit_of_def case_prod_beta)
      next
        case room: False
        then obtain d where "q_max_results q - length hits = Suc d" by (metis Suc_diff_Suc not_le)
        moreover from this have "q_max_results q - Suc (length hits) = d" by simp
        ultimately show ?thesis using False h room Cons.IH [of "hits @ [hit_of q r tx (Matcher_find m tx)]" "rows + 1" "bytes + sz"]
          by (simp add: x Let_def)
      qed
    qed
  qed (simp add: scan_hits_def List.map_filter_simps)
  then show "fst (scan_loop q m hits rows bytes rs) = hits @ take (q_max_results q - length hits) (scan_hits q m rs)"
    "snd (snd (snd (scan_loop q m hits rows bytes rs))) =
      (if length (scan_hits q m rs) > q_max_results q - length hits then Some (sh_stream_offset (scan_hits q m rs ! (q_max_results q - length hits))) else None)"
    by simp_all
qed

definition line_text :: "SearchEnv \<Rightarrow> LineRow \<Rightarrow> string" where
  "line_text e l = LineRow_lossy (en_lossy e) l"

definition hit_line :: "SearchQuery \<Rightarrow> SearchEnv \<Rightarrow> (string \<Rightarrow> (nat \<times> nat) list) \<Rightarrow> LineRow \<Rightarrow> SearchHit" where
  "hit_line q e hl l = hit_of q (lr_id l, lr_id l, lr_stream_offset l, lr_session_id l) (line_text e l) (hl (line_text e l))"

lemma hit_line_offset [simp]: "sh_stream_offset (hit_line q e hl l) = lr_stream_offset l"
  by (simp add: hit_line_def hit_of_def)

text \<open>The lines a search is about, in a consistent store.\<close>

lemma scan_rows_page:
  assumes "store_ok s" and "q_after_offset q = None"
  shows "scan_rows s (page_query q a k) = filter (\<lambda>l. opt_all (\<lambda>n. lr_stream_offset l \<ge> n) a) (scan_rows s q)"
  using assms by (simp add: scan_rows_def lines_by_id_eq [OF store_stream] page_query_scope conj_commute)

lemma scan_rows_sorted: "store_ok s \<Longrightarrow> sorted_wrt (<) (map lr_stream_offset (scan_rows s q))"
  using stream_offsets [OF store_stream] by (simp add: scan_rows_def lines_by_id_eq [OF store_stream] sorted_filter_key)

lemma filter_hits:
  "filter (\<lambda>h. opt_all (\<lambda>n. sh_stream_offset h \<ge> n) a) (map (hit_line q e hl) (filter P ls)) =
   map (hit_line q e hl) (filter P (filter (\<lambda>l. opt_all (\<lambda>n. lr_stream_offset l \<ge> n) a) ls))"
  by (induction ls) auto

lemma map_filter_of_map: "List.map_filter f (map g xs) = List.map_filter (\<lambda>x. f (g x)) xs"
  by (induction xs) (simp_all add: List.map_filter_simps split: option.split)

text \<open>The element at a position of a strictly ascending list separates it.\<close>

lemma split_at_sorted:
  assumes "sorted_wrt (<) (map f xs)" and "k < length xs"
  shows "(\<forall>x \<in> set (take k xs). f x < (f (xs ! k) :: nat)) \<and> (\<forall>x \<in> set (drop k xs). f (xs ! k) \<le> f x)"
proof -
  have "xs = take k xs @ xs ! k # drop (Suc k) xs" using assms(2) by (simp add: id_take_nth_drop)
  then have "sorted_wrt (<) (map f (take k xs @ xs ! k # drop (Suc k) xs))" using assms(1) by simp
  moreover have "drop k xs = xs ! k # drop (Suc k) xs" using assms(2) by (simp add: Cons_nth_drop_Suc)
  ultimately show ?thesis by (auto simp: sorted_wrt_append dest: less_imp_le)
qed

lemma split_after_sorted:
  assumes "sorted_wrt (<) (map f xs)" and "k > 0" and "k < length xs"
  shows "(\<forall>x \<in> set (take k xs). f x < (f (xs ! (k - 1)) :: nat) + 1) \<and> (\<forall>x \<in> set (drop k xs). f (xs ! (k - 1)) + 1 \<le> f x)"
proof -
  have "take k xs = take (k - 1) xs @ [xs ! (k - 1)]" using assms take_Suc_conv_app_nth [of "k - 1" xs] by simp
  then have "xs = (take (k - 1) xs @ [xs ! (k - 1)]) @ drop k xs" by (metis append_take_drop_id)
  then have "sorted_wrt (<) (map f ((take (k - 1) xs @ [xs ! (k - 1)]) @ drop k xs))" using assms(1) by simp
  then show ?thesis using \<open>take k xs = _\<close> by (auto simp: sorted_wrt_append intro: less_imp_le less_SucI)
qed

lemma map_filter_if: "List.map_filter (\<lambda>x. if P x then None else Some (f x)) xs = map f (filter (\<lambda>x. \<not> P x) xs)"
  by (induction xs) (simp_all add: List.map_filter_simps)

definition scan_mode :: "SearchEnv \<times> DeviceStore \<times> SearchQuery \<Rightarrow> bool" where
  "scan_mode = (\<lambda>(e, s, q). store_ok s \<and> sc_kind (q_scope q) = Line_scope \<and> trim (q_query q) \<noteq> [] \<and> q_after_offset q = None \<and>
     \<not> en_fts e \<and> (\<exists>m. Matcher_new e q = Inr m))"

definition scan_all :: "SearchEnv \<times> DeviceStore \<times> SearchQuery \<Rightarrow> SearchHit list" where
  "scan_all = (\<lambda>(e, s, q). case Matcher_new e q of
     Inr m \<Rightarrow> map (hit_line q e (Matcher_find m)) (filter (\<lambda>l. Matcher_find m (line_text e l) \<noteq> []) (scan_rows s q))
   | Inl _ \<Rightarrow> [])"

text \<open>The scan of lines finds the matching lines in order, up to the cap.\<close>

lemma degraded_hits:
  fixes e :: SearchEnv and s :: DeviceStore and q :: SearchQuery and m :: Matcher
  assumes "sc_kind (q_scope q) = Line_scope" and "Matcher_new e q = Inr m"
  defines "H \<equiv> map (hit_line q e (Matcher_find m)) (filter (\<lambda>l. Matcher_find m (line_text e l) \<noteq> []) (scan_rows s q))"
  shows "\<exists>rows bytes. degraded_scan e s q = Inr \<lparr> sr_hits = take (q_max_results q) H, sr_tier = ''scan'', sr_scan = True,
      sr_rows_scanned = rows, sr_bytes_scanned = bytes, sr_capped = (length H > q_max_results q),
      sr_next_offset = (if length H > q_max_results q then Some (sh_stream_offset (H ! q_max_results q)) else None) \<rparr>"
proof -
  let ?rs = "map (\<lambda>l. ((lr_id l, lr_id l, lr_stream_offset l, lr_session_id l), LineRow_lossy (en_lossy e) l, length (lr_bytes l))) (scan_rows s q)"
  have "scan_hits q m ?rs = H"
    by (simp add: H_def scan_hits_def map_filter_of_map map_filter_if hit_line_def [abs_def] line_text_def)
  with scan_loop_hits [of "[]" q m 0 0 ?rs] assms(1,2) show ?thesis
    by (simp add: degraded_scan_def sized_rows_def Let_def split_def)
qed

lemma scan_page:
  fixes a :: "nat option" and e :: SearchEnv and s :: DeviceStore and q :: SearchQuery
  assumes "scan_mode (e, s, q)"
  defines "H \<equiv> filter (\<lambda>h. opt_all (\<lambda>n. sh_stream_offset h \<ge> n) a) (scan_all (e, s, q))"
  shows "search_page (e, s, q) a k = (take k H, if length H > k then Some (sh_stream_offset (H ! k)) else None)"
proof -
  obtain m where m: "Matcher_new e q = Inr m" using assms(1) by (auto simp: scan_mode_def)
  let ?q = "page_query q a k"
  have kind: "sc_kind (q_scope q) = Line_scope" "trim (q_query q) \<noteq> []" "\<not> en_fts e" "store_ok s" "q_after_offset q = None"
    using assms(1) by (simp_all add: scan_mode_def)
  have "H = map (hit_line q e (Matcher_find m)) (filter (\<lambda>l. Matcher_find m (line_text e l) \<noteq> []) (scan_rows s ?q))"
    by (simp add: H_def scan_all_def m filter_hits scan_rows_page [OF kind(4,5)] del: filter_filter)
  then have H: "H = map (hit_line ?q e (Matcher_find m)) (filter (\<lambda>l. Matcher_find m (line_text e l) \<noteq> []) (scan_rows s ?q))"
    by (simp add: hit_line_def [abs_def])
  obtain rows bytes where deg: "degraded_scan e s ?q = Inr \<lparr> sr_hits = take k H, sr_tier = ''scan'', sr_scan = True,
      sr_rows_scanned = rows, sr_bytes_scanned = bytes, sr_capped = (length H > k),
      sr_next_offset = (if length H > k then Some (sh_stream_offset (H ! k)) else None) \<rparr>"
    using degraded_hits [of ?q e m s, folded H] kind(1) m by auto
  have "\<exists>r. search e s ?q = Inr r \<and> sr_hits r = take k H \<and> sr_next_offset r = (if length H > k then Some (sh_stream_offset (H ! k)) else None)"
  proof (cases "q_mode q = Regex_mode")
    case True
    with m obtain re where "en_regex e (q_query q) = Some re" by (auto simp: Matcher_new_def split: option.splits)
    with True kind show ?thesis by (simp add: search_def regex_search_def deg)
  next
    case False
    with kind show ?thesis by (simp add: search_def fts_search_def deg)
  qed
  then show ?thesis by (auto simp: search_page_def)
qed

interpretation scan: paged_reader scan_mode search_page sh_stream_offset scan_all
proof (unfold_locales, goal_cases)
  case (1 s k a)
  then show ?case by (cases s) (simp add: scan_page)
next
  case (2 s k a)
  then show ?case by (cases s) (simp add: scan_page not_less)
next
  case (3 s k a n)
  obtain e st q where s: "s = (e, st, q)" by (cases s)
  let ?H = "filter (\<lambda>h. opt_all (\<lambda>n. sh_stream_offset h \<ge> n) a) (scan_all (e, st, q))"
  have n: "length ?H > k" "n = sh_stream_offset (?H ! k)" using 3 by (auto simp: s scan_page split: if_splits)
  have "sorted_wrt (<) (map sh_stream_offset (scan_all (e, st, q)))"
    using scan_rows_sorted [of st q] 3(1) by (auto simp: s scan_mode_def scan_all_def comp_def sorted_filter_key)
  then have sorted: "sorted_wrt (<) (map sh_stream_offset ?H)" by (rule sorted_filter_key)
  show ?case unfolding s using split_at_sorted [OF sorted n(1)] n nth_mem [OF n(1)] by (auto simp: opt_all_def split: option.splits)
qed

section \<open>The word search as a reader of pages\<close>

definition row_of :: "LineRow \<Rightarrow> row" where
  "row_of l = (lr_id l, lr_id l, lr_stream_offset l, lr_session_id l)"

lemma row_text_line:
  assumes "store_ok s" and "sc_kind (q_scope q) = Line_scope" and "l \<in> set (scan_rows s q')"
  shows "row_text e s q (row_of l) = Inr (line_text e l)"
proof -
  have l: "l \<in> set (tb_raw_lines (ds_db s))" using assms(3) by (auto simp: scan_rows_def lines_by_id_def order_by_def)
  have "distinct (map lr_id (tb_raw_lines (ds_db s)))"
    using store_stream [OF assms(1)] by (auto simp: stream_ok_def strict_sorted_iff)
  with l have "line_row s (lr_id l) = Inr l" by (simp add: line_row_def find_key_unique)
  then show ?thesis using assms(2) by (simp add: row_text_def row_of_def line_text_def)
qed

lemma fts_hits_lines:
  assumes "store_ok s" and "sc_kind (q_scope q) = Line_scope" and "q_mode q \<noteq> Phrase" and "set ls \<subseteq> set (scan_rows s q')"
  shows "fts_hits e s q (map row_of ls) = Inr (map (hit_line q e (\<lambda>t. highlight e t q)) ls)"
proof -
  have "for_each (\<lambda>hits r. and_then (row_text e s q r) (\<lambda>t.
       let h = highlight e t q in Inr (if q_mode q = Phrase \<and> h = [] then hits else hits @ [hit_of q r t h]))) hits (map row_of ls) =
      Inr (hits @ map (hit_line q e (\<lambda>t. highlight e t q)) ls)" for hits
    using assms(4)
    by (induction ls arbitrary: hits)
      (simp_all add: row_text_line [OF assms(1,2), of _ q'] assms(3) hit_line_def row_of_def [symmetric] Let_def)
  then show ?thesis by (simp add: fts_hits_def)
qed

definition indexed_mode :: "SearchEnv \<times> DeviceStore \<times> SearchQuery \<Rightarrow> bool" where
  "indexed_mode = (\<lambda>(e, s, q). store_ok s \<and> sc_kind (q_scope q) = Line_scope \<and> trim (q_query q) \<noteq> [] \<and> q_after_offset q = None \<and>
     en_fts e \<and> q_mode q = Terms \<and> (\<exists>mt. en_match e (the (fts_expression q)) = Some mt))"

definition indexed_all :: "SearchEnv \<times> DeviceStore \<times> SearchQuery \<Rightarrow> SearchHit list" where
  "indexed_all = (\<lambda>(e, s, q). case en_match e (the (fts_expression q)) of
     Some mt \<Rightarrow> map (hit_line q e (\<lambda>t. highlight e t q)) (filter (\<lambda>l. mt (line_text e l)) (scan_rows s q))
   | None \<Rightarrow> [])"

lemma indexed_page:
  fixes a :: "nat option" and e :: SearchEnv and s :: DeviceStore and q :: SearchQuery
  assumes "indexed_mode (e, s, q)" and "k > 0"
  defines "H \<equiv> filter (\<lambda>h. opt_all (\<lambda>n. sh_stream_offset h \<ge> n) a) (indexed_all (e, s, q))"
  shows "search_page (e, s, q) a k = (take k H, if length H > k then Some (sh_stream_offset (H ! (k - 1)) + 1) else None)"
proof -
  let ?q = "page_query q a k"
  obtain expr mt where x: "fts_expression q = Some expr" "en_match e expr = Some mt"
    using assms(1) by (auto simp: indexed_mode_def fts_expression_def)
  have kind: "sc_kind (q_scope q) = Line_scope" "trim (q_query q) \<noteq> []" "en_fts e" "store_ok s" "q_after_offset q = None" "q_mode q = Terms"
    using assms(1) by (simp_all add: indexed_mode_def)
  let ?ls = "filter (\<lambda>l. mt (line_text e l)) (scan_rows s ?q)"
  have H: "H = map (hit_line q e (\<lambda>t. highlight e t q)) ?ls"
    by (simp add: H_def indexed_all_def x filter_hits scan_rows_page [OF kind(4,5)] del: filter_filter)
  have rows: "indexed_rows e s ?q mt = map row_of ?ls"
    using kind(1) row_text_line [OF kind(4,1), of _ ?q e]
    by (simp add: indexed_rows_def search_rows_def filter_map comp_def row_of_def [symmetric] cong: filter_cong)
  have hits: "fts_hits e s ?q (take k (map row_of ?ls)) = Inr (take k H)"
  proof -
    have "set (take k ?ls) \<subseteq> set (scan_rows s ?q)" using set_take_subset [of k ?ls] by auto
    from fts_hits_lines [of s ?q "take k ?ls" ?q e, OF _ _ _ this] kind show ?thesis
      by (simp add: take_map H hit_line_def [abs_def])
  qed
  have "length H > k \<Longrightarrow> last (take k H) = H ! (k - 1)"
    using assms(2) by (subst last_conv_nth) auto
  then show ?thesis using assms(2)
    by (auto simp: search_page_def search_def fts_search_def kind x rows hits Let_def H min_def)
qed

interpretation indexed: paged_reader indexed_mode search_page sh_stream_offset indexed_all
proof (unfold_locales, goal_cases)
  case (1 s k a)
  then show ?case by (cases s) (simp add: indexed_page)
next
  case (2 s k a)
  then show ?case by (cases s) (simp add: indexed_page not_less)
next
  case (3 s k a n)
  obtain e st q where s: "s = (e, st, q)" by (cases s)
  let ?H = "filter (\<lambda>h. opt_all (\<lambda>n. sh_stream_offset h \<ge> n) a) (indexed_all (e, st, q))"
  have n: "length ?H > k" "n = sh_stream_offset (?H ! (k - 1)) + 1" using 3 by (auto simp: s indexed_page split: if_splits)
  have "sorted_wrt (<) (map sh_stream_offset (indexed_all (e, st, q)))"
    using scan_rows_sorted [of st q] 3(1) by (auto simp: s indexed_mode_def indexed_all_def comp_def sorted_filter_key split: option.split)
  then have sorted: "sorted_wrt (<) (map sh_stream_offset ?H)" by (rule sorted_filter_key)
  have k: "k - 1 < length ?H" using n(1) by simp
  show ?case unfolding s using split_after_sorted [OF sorted 3(2)] n nth_mem [OF k] by (auto simp: opt_all_def split: option.splits)
qed

section \<open>Nothing is lost between the pages\<close>

lemma highlight_matcher: "Matcher_new e q = Inr m \<Longrightarrow> highlight e t q = Matcher_find m t"
  by (simp add: highlight_def)

text \<open>C28. A client that repeats a line search with the resume offset of the last answer, for any page
  size, gets every line in scope that matches, once and in stream order, with its highlights, and
  nothing else. This holds for a search for words on an indexed device and for any search on a
  device without an index; a pattern search on an indexed device is left out, for a capped answer
  to one may have no resume offset.\<close>

theorem search_pages_complete:
  fixes e :: SearchEnv and s :: DeviceStore and q :: SearchQuery
  assumes "store_ok s" and "sc_kind (q_scope q) = Line_scope" and "trim (q_query q) \<noteq> []" and "q_after_offset q = None"
    and "Matcher_new e q = Inr m"
    and "en_fts e \<Longrightarrow> q_mode q = Terms \<and> en_match e (the (fts_expression q)) = Some mt"
    and "k > 0" and "length (scan_rows s q) \<le> fuel"
  shows "paged_reader.collect search_page fuel (e, s, q) None k =
    map (hit_line q e (Matcher_find m))
      (filter (\<lambda>l. if en_fts e then mt (line_text e l) else Matcher_find m (line_text e l) \<noteq> []) (scan_rows s q))"
proof (cases "en_fts e")
  case True
  with assms have mode: "indexed_mode (e, s, q)" by (auto simp: indexed_mode_def)
  have all: "indexed_all (e, s, q) = map (hit_line q e (Matcher_find m)) (filter (\<lambda>l. mt (line_text e l)) (scan_rows s q))"
    using assms(5) assms(6) [OF True] by (simp add: indexed_all_def highlight_matcher)
  with indexed.collect_all [OF mode assms(7), of fuel] True assms(8) show ?thesis
    by (simp add: le_trans [OF length_filter_le])
next
  case False
  with assms have mode: "scan_mode (e, s, q)" by (auto simp: scan_mode_def)
  have all: "scan_all (e, s, q) = map (hit_line q e (Matcher_find m)) (filter (\<lambda>l. Matcher_find m (line_text e l) \<noteq> []) (scan_rows s q))"
    using assms(5) by (simp add: scan_all_def)
  with scan.collect_all [OF mode assms(7), of fuel] False assms(8) show ?thesis
    by (simp add: le_trans [OF length_filter_le])
qed

definition sample_env :: "bool \<Rightarrow> SearchEnv" where
  "sample_env indexed1 = \<lparr> en_lossy = map (\<lambda>b. char_of (unat b)), en_fts = indexed1, en_match = (\<lambda>_. Some (\<lambda>_. True)),
     en_regex = (\<lambda>_. Some (\<lambda>t. [(0, str_len t)])) \<rparr>"

definition sample_query :: "SearchMode \<Rightarrow> string \<Rightarrow> SearchQuery" where
  "sample_query m t = SearchQuery_default\<lparr> q_query := t, q_mode := m \<rparr>"

lemma sample_scan_rows: "scan_rows sample_filled (sample_query m t) = tb_raw_lines (ds_db sample_filled)"
  by (simp add: scan_rows_def lines_by_id_eq [OF store_stream [OF sample_filled_ok]] sample_filled_fields in_scope_def
      sample_query_def SearchQuery_default_def or_any_def opt_all_def)

lemma sample_query_simps [simp]:
  "q_query (sample_query m t) = t" "q_mode (sample_query m t) = m" "q_after_offset (sample_query m t) = None"
  "sc_kind (q_scope (sample_query m t)) = Line_scope" "q_max_results (sample_query m t) = 100"
  by (simp_all add: sample_query_def SearchQuery_default_def SearchScope_default_def)

theorem search_pages_complete_witness:
  "map sh_text (paged_reader.collect search_page 2 (sample_env False, sample_filled, sample_query Terms ''b'') None 1) = [''B'']"
proof -
  have m: "Matcher_new (sample_env False) (sample_query Terms ''b'') = Inr (M_terms [''b''])"
  proof -
    have "map lower (split_whitespace ''b'') = [''b'']" by code_simp
    then show ?thesis by (simp add: Matcher_new_def)
  qed
  have "trim ''b'' \<noteq> []" by code_simp
  then have t: "trim (q_query (sample_query Terms ''b'')) \<noteq> []" by simp
  have f: "Matcher_find (M_terms [''b'']) ''A'' = []" "Matcher_find (M_terms [''b'']) ''B'' \<noteq> []" by code_simp+
  have l: "\<not> en_fts (sample_env False)" "line_text (sample_env False) (tb_raw_lines (ds_db sample_filled) ! 0) = ''A''"
    "line_text (sample_env False) (tb_raw_lines (ds_db sample_filled) ! Suc 0) = ''B''"
    by (simp_all add: sample_env_def line_text_def LineRow_lossy_def sample_filled_fields) code_simp+
  have ls: "tb_raw_lines (ds_db sample_filled) = [tb_raw_lines (ds_db sample_filled) ! 0, tb_raw_lines (ds_db sample_filled) ! Suc 0]"
    by (simp add: sample_filled_fields)
  have "length (scan_rows sample_filled (sample_query Terms ''b'')) \<le> 2"
    unfolding sample_scan_rows by (simp add: sample_filled_fields)
  from search_pages_complete [OF sample_filled_ok _ t _ m _ _ this, of _ 1]
  have "paged_reader.collect search_page 2 (sample_env False, sample_filled, sample_query Terms ''b'') None 1 =
    map (hit_line (sample_query Terms ''b'') (sample_env False) (Matcher_find (M_terms [''b''])))
      (filter (\<lambda>l. Matcher_find (M_terms [''b'']) (line_text (sample_env False) l) \<noteq> []) (tb_raw_lines (ds_db sample_filled)))"
    using l(1) by (simp add: sample_scan_rows)
  also have "\<dots> = [hit_line (sample_query Terms ''b'') (sample_env False) (Matcher_find (M_terms [''b''])) (tb_raw_lines (ds_db sample_filled) ! Suc 0)]"
    by (subst ls) (simp add: l f del: Matcher_find.simps)
  finally show ?thesis by (simp add: hit_line_def hit_of_def l)
qed

end
