(* ===== verification/Search_Narrowing.thy ===== *)
theory Search_Narrowing
  imports Search_Laws
begin

text \<open>
  The soundness of narrowing a pattern by the index (\<^verbatim>\<open>extract_literals\<close> of \<^verbatim>\<open>search.rs\<close>): for
  concatenations of characters, classes and escapes with the usual repetition signs, every
  fragment it takes occurs at the start of a token wherever the pattern matches from a token
  boundary on. The patterns beyond this, and matches that begin inside a token, break it.
\<close>

section \<open>Patterns and their matches\<close>

text \<open>The pieces of a pattern: a word character, another literal character, an escape, any character;
  once or with a repetition sign.\<close>

datatype piece = P_word char | P_sep char | P_esc char | P_any

datatype rep = Once | Optional | Many | Some_more

type_synonym pattern = "(piece \<times> rep) list"

fun print_piece :: "piece \<Rightarrow> string" where
  "print_piece (P_word c) = [c]"
| "print_piece (P_sep c) = [c]"
| "print_piece (P_esc c) = [CHR 0x5C, c]"
| "print_piece P_any = ''.''"

fun print_rep :: "rep \<Rightarrow> string" where
  "print_rep Once = []"
| "print_rep Optional = ''?''"
| "print_rep Many = ''*''"
| "print_rep Some_more = ''+''"

definition print_pattern :: "pattern \<Rightarrow> string" where
  "print_pattern ps = concat (map (\<lambda>(p, r). print_piece p @ print_rep r) ps)"

definition META :: string where
  "META = [CHR 0x5C] @ ''[]|()^$.?*+{}''"

fun piece_ok :: "piece \<Rightarrow> bool" where
  "piece_ok (P_word c) \<longleftrightarrow> word_char c"
| "piece_ok (P_sep c) \<longleftrightarrow> \<not> word_char c \<and> c \<notin> set META"
| "piece_ok (P_esc c) \<longleftrightarrow> c \<noteq> CHR ''S''"
| "piece_ok P_any \<longleftrightarrow> True"

definition pattern_ok :: "pattern \<Rightarrow> bool" where
  "pattern_ok ps \<longleftrightarrow> list_all (\<lambda>(p, r). piece_ok p) ps"

text \<open>What a text matches between what is left and right of it; the escapes are the engine's.\<close>

type_synonym escapes = "char \<Rightarrow> string \<Rightarrow> string \<Rightarrow> string \<Rightarrow> bool"

fun piece_match :: "escapes \<Rightarrow> piece \<Rightarrow> string \<Rightarrow> string \<Rightarrow> string \<Rightarrow> bool" where
  "piece_match esc (P_word c) l s r \<longleftrightarrow> s = [c]"
| "piece_match esc (P_sep c) l s r \<longleftrightarrow> s = [c]"
| "piece_match esc (P_esc c) l s r \<longleftrightarrow> esc c l s r"
| "piece_match esc P_any l s r \<longleftrightarrow> length s = 1"

inductive repeats :: "escapes \<Rightarrow> piece \<Rightarrow> string \<Rightarrow> string \<Rightarrow> string \<Rightarrow> bool" for esc p where
  none: "repeats esc p l [] r"
| more: "piece_match esc p l s (t @ r) \<Longrightarrow> repeats esc p (l @ s) t r \<Longrightarrow> repeats esc p l (s @ t) r"

fun rep_match :: "escapes \<Rightarrow> piece \<Rightarrow> rep \<Rightarrow> string \<Rightarrow> string \<Rightarrow> string \<Rightarrow> bool" where
  "rep_match esc p Once l s r \<longleftrightarrow> piece_match esc p l s r"
| "rep_match esc p Optional l s r \<longleftrightarrow> s = [] \<or> piece_match esc p l s r"
| "rep_match esc p Many l s r \<longleftrightarrow> repeats esc p l s r"
| "rep_match esc p Some_more l s r \<longleftrightarrow> (\<exists>t u. s = t @ u \<and> piece_match esc p l t (u @ r) \<and> repeats esc p (l @ t) u r)"

fun matches_at :: "escapes \<Rightarrow> pattern \<Rightarrow> string \<Rightarrow> string \<Rightarrow> string \<Rightarrow> bool" where
  "matches_at esc [] l m r \<longleftrightarrow> m = []"
| "matches_at esc ((p, q) # ps) l m r \<longleftrightarrow>
     (\<exists>s t. m = s @ t \<and> rep_match esc p q l s (t @ r) \<and> matches_at esc ps (l @ s) t r)"

text \<open>The tokens of the index are runs of letters and digits. \<open>token_start l r\<close>: no token runs across
  the position between \<open>l\<close> and \<open>r\<close>. A fragment that occurs at such a position is found by a
  prefix query of the index.\<close>

definition token_start :: "string \<Rightarrow> string \<Rightarrow> bool" where
  "token_start l r \<longleftrightarrow> l = [] \<or> r = [] \<or> \<not> is_alphanumeric (last l) \<or> \<not> is_alphanumeric (hd r)"

definition occurs_at_token :: "string \<Rightarrow> string \<Rightarrow> bool" where
  "occurs_at_token lit txt \<longleftrightarrow> (\<exists>a b. txt = a @ lit @ b \<and> token_start a (lit @ b))"

text \<open>The documented meaning of the escapes the extraction takes for a boundary: blanks, non-word
  characters and escaped punctuation are no token characters, and \<^verbatim>\<open>\\b\<close> holds at the edge of a word.\<close>

definition escape_law :: "escapes \<Rightarrow> bool" where
  "escape_law esc \<longleftrightarrow> (\<forall>c l s r. escape_boundary c \<longrightarrow> c \<noteq> CHR ''S'' \<longrightarrow> esc c l s r \<longrightarrow> token_start (l @ s) r)"

section \<open>The extraction along a match\<close>

text \<open>The state after a part of the pattern that matched up to \<open>left\<close>, in a text \<open>left @ right\<close>.\<close>

definition lit_inv :: "LitState \<Rightarrow> string \<Rightarrow> string \<Rightarrow> bool" where
  "lit_inv st left right \<longleftrightarrow> \<not> lt_in_class st \<and> \<not> lt_alternation st \<and>
     (\<forall>l \<in> set (lt_out st). occurs_at_token l (left @ right)) \<and>
     (if lt_cur st = [] then lt_at_boundary st \<longrightarrow> token_start left right
      else \<exists>a. left = a @ lt_cur st \<and> (lt_anchored st \<longrightarrow> token_start a (lt_cur st @ right)))"

definition cur_occurs :: "LitState \<Rightarrow> string \<Rightarrow> bool" where
  "cur_occurs st txt \<longleftrightarrow> (lt_anchored st \<and> lt_cur st \<noteq> [] \<longrightarrow> occurs_at_token (lt_cur st) txt)"

lemma lit_inv_cur: "lit_inv st left right \<Longrightarrow> cur_occurs st (left @ right)"
  by (fastforce simp: lit_inv_def cur_occurs_def occurs_at_token_def)

text \<open>Ending a fragment, at a position further on.\<close>

lemma flush_inv:
  assumes "\<not> lt_in_class st" and "\<not> lt_alternation st" and "\<forall>l \<in> set (lt_out st). occurs_at_token l (left @ right)"
    and "cur_occurs st (left @ right)" and "b \<longrightarrow> token_start left right"
  shows "lit_inv (lit_flush b st) left right"
  using assms by (auto simp: lit_inv_def lit_flush_def cur_occurs_def)

lemma meta_not_word: "list_all (\<lambda>c. \<not> word_char c) META"
  by code_simp

lemma word_not_meta: "word_char c \<Longrightarrow> c \<notin> set META"
  using meta_not_word by (auto simp: list_all_iff)

lemma not_meta: "c \<notin> set META \<Longrightarrow> c \<noteq> CHR 0x5C \<and> c \<noteq> CHR ''['' \<and> c \<noteq> CHR '']'' \<and> c \<noteq> CHR ''|'' \<and> c \<noteq> CHR ''('' \<and>
    c \<noteq> CHR '')'' \<and> c \<noteq> CHR ''^'' \<and> c \<noteq> CHR ''$'' \<and> c \<noteq> CHR ''.'' \<and> c \<noteq> CHR ''?'' \<and> c \<noteq> CHR ''*'' \<and> c \<noteq> CHR ''+'' \<and>
    c \<noteq> CHR ''{'' \<and> c \<noteq> CHR ''}''"
  by (simp add: META_def)

definition lit_word :: "char \<Rightarrow> LitState \<Rightarrow> LitState" where
  "lit_word c st = st\<lparr> lt_anchored := (if lt_cur st = [] then lt_at_boundary st else lt_anchored st), lt_cur := lt_cur st @ [c] \<rparr>"

fun lit_piece :: "piece \<Rightarrow> LitState \<Rightarrow> LitState" where
  "lit_piece (P_word c) st = lit_word c st"
| "lit_piece (P_sep c) st = lit_flush True st"
| "lit_piece (P_esc c) st = lit_flush (escape_boundary c) st"
| "lit_piece P_any st = lit_flush False st"

fun lit_rep :: "rep \<Rightarrow> LitState \<Rightarrow> LitState" where
  "lit_rep Once st = st"
| "lit_rep Some_more st = lit_flush False st"
| "lit_rep Optional st = lit_flush False (st\<lparr> lt_cur := butlast (lt_cur st) \<rparr>)"
| "lit_rep Many st = lit_flush False (st\<lparr> lt_cur := butlast (lt_cur st) \<rparr>)"

lemma lit_loop_rep: "lit_loop st (print_rep q @ rest) = lit_loop (lit_rep q st) rest"
  by (cases q) (simp_all add: lit_char_def)

lemma lit_loop_piece:
  assumes "piece_ok p" and "\<not> lt_in_class st"
  shows "lit_loop st (print_piece p @ rest) = lit_loop (lit_piece p st) rest"
proof (cases p)
  case (P_word c)
  then have "word_char c" using assms(1) by simp
  with not_meta [OF word_not_meta [OF this]] assms(2) show ?thesis by (simp add: P_word lit_char_def lit_word_def)
next
  case (P_sep c)
  then have "\<not> word_char c" "c \<notin> set META" using assms(1) by simp_all
  with not_meta [OF this(2)] assms(2) show ?thesis by (simp add: P_sep lit_char_def)
qed (simp_all add: lit_char_def)

text \<open>A fragment that occurs stays where it is when the match goes on.\<close>

lemma cur_occurs_butlast:
  assumes "cur_occurs st txt"
  shows "cur_occurs (st\<lparr> lt_cur := butlast (lt_cur st) \<rparr>) txt"
proof -
  have "occurs_at_token (butlast l) txt" if occ: "occurs_at_token l txt" and ne: "butlast l \<noteq> []" for l
  proof -
    obtain a b where ab: "txt = a @ l @ b" "token_start a (l @ b)" using occ unfolding occurs_at_token_def by blast
    have "l \<noteq> []" using ne by auto
    then have l: "l = butlast l @ [last l]" by simp
    then have "txt = a @ butlast l @ (last l # b)" using ab(1) by (metis append.assoc append_Cons append_Nil)
    moreover have "hd (butlast l @ last l # b) = hd (l @ b)" using ne l by (metis append.assoc append_Cons append_Nil)
    then have "token_start a (butlast l @ last l # b)" using ab(2) \<open>l \<noteq> []\<close> by (auto simp: token_start_def)
    ultimately show ?thesis by (auto simp: occurs_at_token_def)
  qed
  then show ?thesis using assms by (auto simp: cur_occurs_def)
qed

lemma repeats_start: "repeats esc p l s r \<Longrightarrow> p = P_word c \<Longrightarrow> set s \<subseteq> {c}"
  by (induction rule: repeats.induct) auto

lemma lit_inv_parts:
  "lit_inv st left right \<Longrightarrow> \<not> lt_in_class st \<and> \<not> lt_alternation st \<and> (\<forall>l \<in> set (lt_out st). occurs_at_token l (left @ right))"
  by (simp add: lit_inv_def)

text \<open>One piece, matched once.\<close>

lemma piece_once_inv:
  assumes "lit_inv st left (s @ right)" and "piece_ok p" and "escape_law esc" and "piece_match esc p left s right"
  shows "lit_inv (lit_piece p st) (left @ s) right"
proof (cases p)
  case (P_word c)
  then have s: "s = [c]" using assms(4) by simp
  show ?thesis
  proof (cases "lt_cur st = []")
    case True
    with assms(1) s show ?thesis by (auto simp: P_word lit_inv_def lit_word_def)
  next
    case False
    with assms(1) s show ?thesis by (auto simp: P_word lit_inv_def lit_word_def)
  qed
next
  case (P_sep c)
  then have "token_start (left @ s) right" using assms(2,4) by (simp add: token_start_def word_char_def)
  with lit_inv_parts [OF assms(1)] lit_inv_cur [OF assms(1)] show ?thesis by (simp add: P_sep flush_inv)
next
  case (P_esc c)
  then have "escape_boundary c \<longrightarrow> token_start (left @ s) right" using assms(2-4) by (simp add: escape_law_def)
  with lit_inv_parts [OF assms(1)] lit_inv_cur [OF assms(1)] show ?thesis by (simp add: P_esc flush_inv)
next
  case P_any
  with lit_inv_parts [OF assms(1)] lit_inv_cur [OF assms(1)] show ?thesis by (simp add: flush_inv)
qed

text \<open>A flush after a repetition sign keeps what was fixed before the repeated piece.\<close>

lemma lit_rep_out: "q \<noteq> Once \<Longrightarrow> \<not> lt_in_class st \<Longrightarrow> \<not> lt_alternation st \<Longrightarrow>
    (\<forall>l \<in> set (lt_out st). occurs_at_token l (left @ right)) \<Longrightarrow>
    cur_occurs (if q = Some_more then st else st\<lparr> lt_cur := butlast (lt_cur st) \<rparr>) (left @ right) \<Longrightarrow>
    lit_inv (lit_rep q st) left right"
  by (cases q) (auto intro: flush_inv)

lemma rep_inv:
  assumes "lit_inv st left (s @ right)" and "piece_ok p" and "escape_law esc" and "rep_match esc p q left s right"
  shows "lit_inv (lit_rep q (lit_piece p st)) (left @ s) right"
proof (cases "q = Once")
  case True
  with piece_once_inv [OF assms(1-3)] assms(4) show ?thesis by simp
next
  case False
  note parts = lit_inv_parts [OF assms(1)] and cur = lit_inv_cur [OF assms(1)]
  have keep: "\<not> lt_in_class (lit_piece p st) \<and> \<not> lt_alternation (lit_piece p st) \<and>
      (\<forall>l \<in> set (lt_out (lit_piece p st)). occurs_at_token l (left @ s @ right))"
    using parts cur by (cases p) (auto simp: lit_word_def lit_flush_def cur_occurs_def)
  have "cur_occurs (if q = Some_more then lit_piece p st else (lit_piece p st)\<lparr> lt_cur := butlast (lt_cur (lit_piece p st)) \<rparr>) (left @ s @ right)"
  proof (cases p)
    case (P_word c)
    show ?thesis
    proof (cases "q = Some_more")
      case True
      with assms(4) P_word obtain t where t: "s = [c] @ t" by auto
      then have "lit_inv st left ([c] @ t @ right)" using assms(1) by simp
      from piece_once_inv [OF this assms(2,3)] P_word have "lit_inv (lit_piece p st) (left @ [c]) (t @ right)" by simp
      from lit_inv_cur [OF this] t True show ?thesis by simp
    next
      case more: False
      have "cur_occurs ((lit_piece p st)\<lparr> lt_cur := lt_cur st \<rparr>) (left @ s @ right)"
        using cur by (auto simp: P_word lit_word_def cur_occurs_def)
      with more show ?thesis by (simp add: P_word lit_word_def)
    qed
  qed (simp_all add: lit_flush_def cur_occurs_def)
  with keep False show ?thesis by (intro lit_rep_out) (simp_all del: lit_rep.simps lit_piece.simps)
qed

lemma lit_loop_inv:
  assumes "lit_inv st left (m @ right)" and "pattern_ok ps" and "escape_law esc" and "matches_at esc ps left m right"
  shows "lit_inv (lit_loop st (print_pattern ps)) (left @ m) right"
  using assms(1,2,4)
proof (induction ps arbitrary: st left m)
  case (Cons x ps)
  obtain p q where x: "x = (p, q)" by (cases x)
  with Cons.prems(3) obtain s t where st: "m = s @ t" "rep_match esc p q left s (t @ right)" "matches_at esc ps (left @ s) t right" by auto
  have ok: "piece_ok p" "pattern_ok ps" using Cons.prems(2) by (simp_all add: x pattern_ok_def)
  have "lit_inv st left (s @ t @ right)" using Cons.prems(1) st(1) by simp
  from rep_inv [OF this ok(1) assms(3) st(2)] have "lit_inv (lit_rep q (lit_piece p st)) (left @ s) (t @ right)" .
  from Cons.IH [OF this ok(2) st(3)]
  have "lit_inv (lit_loop (lit_rep q (lit_piece p st)) (print_pattern ps)) (left @ m) right" by (simp add: st(1))
  moreover have "\<not> lt_in_class st" using Cons.prems(1) by (simp add: lit_inv_def)
  ultimately show ?case by (simp add: print_pattern_def x lit_loop_piece [OF ok(1)] lit_loop_rep)
qed (simp add: print_pattern_def)

text \<open>Every fragment taken from a pattern occurs at the start of a token.\<close>

lemma literals_occur:
  assumes "pattern_ok ps" and "escape_law esc" and "matches_at esc ps left m right" and "token_start left (m @ right)"
    and "l \<in> set (extract_literals (print_pattern ps))"
  shows "occurs_at_token l (left @ m @ right)"
proof -
  have "lit_inv lit_start left (m @ right)" using assms(4) by (simp add: lit_inv_def lit_start_def)
  from lit_loop_inv [OF this assms(1-3)] have inv: "lit_inv (lit_loop lit_start (print_pattern ps)) (left @ m) right" .
  from lit_inv_parts [OF inv] lit_inv_cur [OF inv] assms(5) show ?thesis
    by (auto simp: extract_literals_def Let_def cur_occurs_def split: if_splits dest!: in_set_takeD)
qed

section \<open>The narrowed search\<close>

definition narrowed_query :: "SearchQuery \<Rightarrow> SearchQuery" where
  "narrowed_query q = q\<lparr> q_query := narrow_expression (extract_literals (q_query q)), q_mode := Raw,
     q_max_results := max (q_max_results q * 20) 200 \<rparr>"

lemma narrowed_query_simps [simp]:
  "q_mode (narrowed_query q) = Raw" "q_query (narrowed_query q) = narrow_expression (extract_literals (q_query q))"
  "q_scope (narrowed_query q) = q_scope q" "q_max_results (narrowed_query q) = max (q_max_results q * 20) 200"
  "scan_rows s (narrowed_query q) = scan_rows s q"
  by (simp_all add: narrowed_query_def scan_rows_def in_scope_def)

lemma narrowed_hit [simp]:
  "(hit_line (narrowed_query q) e hl l)\<lparr> sh_highlights := re (line_text e l), sh_kind := scope_name q \<rparr> =
   hit_line q e re l"
  "sh_text (hit_line (narrowed_query q) e hl l) = line_text e l"
  by (simp_all add: hit_line_def hit_of_def)

lemma narrowed_candidates:
  fixes e :: SearchEnv and s :: DeviceStore and q :: SearchQuery
  assumes "store_ok s" and "sc_kind (q_scope q) = Line_scope" and "en_fts e"
    and "en_match e (narrow_expression (extract_literals (q_query q))) = Some mt"
    and "length (scan_rows s q) \<le> max (q_max_results q * 20) 200"
  shows "\<exists>r. fts_search e s (narrowed_query q) = Inr r \<and> sr_next_offset r = None \<and>
    sr_hits r = map (hit_line (narrowed_query q) e (\<lambda>t. highlight e t (narrowed_query q))) (filter (\<lambda>l. mt (line_text e l)) (scan_rows s q))"
proof -
  let ?ls = "filter (\<lambda>l. mt (line_text e l)) (scan_rows s q)"
  have kind: "sc_kind (q_scope (narrowed_query q)) = Line_scope" using assms(2) by simp
  have rows: "indexed_rows e s (narrowed_query q) mt = map row_of ?ls"
    using kind row_text_line [OF assms(1) kind, of _ q e]
    by (simp add: indexed_rows_def search_rows_def filter_map comp_def row_of_def [symmetric] cong: filter_cong)
  have short: "length ?ls \<le> max (q_max_results q * 20) 200" using assms(5) le_trans [OF length_filter_le] by blast
  have hits: "fts_hits e s (narrowed_query q) (map row_of ?ls) =
      Inr (map (hit_line (narrowed_query q) e (\<lambda>t. highlight e t (narrowed_query q))) ?ls)"
    by (rule fts_hits_lines [OF assms(1) kind]) auto
  then show ?thesis
    using assms(3,4) short by (simp add: fts_search_def fts_expression_def rows Let_def)
qed

text \<open>What a pattern search on lines answers, whether or not the index narrowed it.\<close>

lemma regex_search_lines:
  fixes e :: SearchEnv and s :: DeviceStore and q :: SearchQuery
  assumes "store_ok s" and "sc_kind (q_scope q) = Line_scope" and "q_mode q = Regex_mode" and "en_regex e (q_query q) = Some re"
    and "en_fts e \<and> extract_literals (q_query q) \<noteq> [] \<Longrightarrow> en_match e (narrow_expression (extract_literals (q_query q))) = Some mt"
    and "length (scan_rows s q) \<le> max (q_max_results q * 20) 200"
  shows "\<exists>r. regex_search e s q = Inr r \<and>
    (let H = map (hit_line q e re) (filter (\<lambda>l. (en_fts e \<and> extract_literals (q_query q) \<noteq> [] \<longrightarrow> mt (line_text e l)) \<and> re (line_text e l) \<noteq> []) (scan_rows s q))
     in sr_hits r = take (q_max_results q) H \<and> sr_capped r = (length H > q_max_results q) \<and>
        (en_fts e \<and> extract_literals (q_query q) \<noteq> [] \<longrightarrow> sr_next_offset r = None))"
proof (cases "en_fts e \<and> extract_literals (q_query q) \<noteq> []")
  case True
  from narrowed_candidates [OF assms(1,2) _ assms(5) [OF True] assms(6)] True obtain c
    where c: "fts_search e s (narrowed_query q) = Inr c" "sr_next_offset c = None"
      "sr_hits c = map (hit_line (narrowed_query q) e (\<lambda>t. highlight e t (narrowed_query q))) (filter (\<lambda>l. mt (line_text e l)) (scan_rows s q))"
    by blast
  have kept: "filter (\<lambda>h. re (sh_text h) \<noteq> []) (sr_hits c) = map (hit_line (narrowed_query q) e (\<lambda>t. highlight e t (narrowed_query q)))
      (filter (\<lambda>l. mt (line_text e l) \<and> re (line_text e l) \<noteq> []) (scan_rows s q))"
    by (simp add: c(3) filter_map comp_def conj_commute)
  have "regex_search e s q = Inr (c\<lparr> sr_hits := map (hit_line q e re) (take (q_max_results q) (filter (\<lambda>l. mt (line_text e l) \<and> re (line_text e l) \<noteq> []) (scan_rows s q))),
      sr_tier := ''fts+regex'', sr_capped := length (filter (\<lambda>l. mt (line_text e l) \<and> re (line_text e l) \<noteq> []) (scan_rows s q)) > q_max_results q \<rparr>)"
    using True c(1) by (simp add: regex_search_def assms(4) narrowed_query_def [symmetric] kept Let_def take_map comp_def)
  with True c(2) show ?thesis by (simp add: Let_def take_map)
next
  case False
  have matcher: "Matcher_find (M_regex re) = re" by (rule ext) simp
  have "Matcher_new e q = Inr (M_regex re)" using assms(3,4) by (simp add: Matcher_new_def)
  from degraded_hits [OF assms(2) this, of s] obtain r where "degraded_scan e s q = Inr r"
    "sr_hits r = take (q_max_results q) (map (hit_line q e re) (filter (\<lambda>l. re (line_text e l) \<noteq> []) (scan_rows s q)))"
    "sr_capped r = (length (filter (\<lambda>l. re (line_text e l) \<noteq> []) (scan_rows s q)) > q_max_results q)"
    by (auto simp: matcher)
  with False show ?thesis by (auto simp: regex_search_def assms(4) Let_def)
qed

text \<open>A narrowed answer that was cut has no offset to go on from.\<close>

lemma narrowed_cap_has_no_resume:
  fixes e :: SearchEnv and s :: DeviceStore and q :: SearchQuery
  assumes "store_ok s" and "sc_kind (q_scope q) = Line_scope" and "q_mode q = Regex_mode" and "en_regex e (q_query q) = Some re"
    and "en_fts e" and "extract_literals (q_query q) \<noteq> []" and "en_match e (narrow_expression (extract_literals (q_query q))) = Some mt"
    and "length (scan_rows s q) \<le> max (q_max_results q * 20) 200"
    and "length (filter (\<lambda>l. mt (line_text e l) \<and> re (line_text e l) \<noteq> []) (scan_rows s q)) > q_max_results q"
  shows "\<exists>r. regex_search e s q = Inr r \<and> sr_capped r \<and> sr_next_offset r = None"
  using regex_search_lines [OF assms(1-4,7,8)] assms(5,6,9) by (auto simp: Let_def)

text \<open>C29. On a line search for a pattern of plain characters, dots and escapes, each once or with one of
  the signs ?, * and +, every hit matches, and, when the answer is not capped, every line in scope
  on which the pattern matches from the boundary of a token on is a hit: narrowing by the index
  loses none of them. Groups, character classes, alternatives, counts in braces and the escape of
  non-blanks are left out; every fragment that narrowing requires must hold a token character, and
  the lines in scope must not be more than the candidates that are read. The index is assumed to
  return a text in which every fragment starts at a token; the regex engine to report a text that
  the pattern matches.\<close>

theorem narrowing_keeps_token_matches:
  fixes e :: SearchEnv and s :: DeviceStore and q :: SearchQuery
  assumes "store_ok s" and "sc_kind (q_scope q) = Line_scope" and "q_mode q = Regex_mode" and "q_query q = print_pattern ps"
    and "pattern_ok ps" and "escape_law esc" and "trim (print_pattern ps) \<noteq> []"
    and "en_regex e (print_pattern ps) = Some re" and "\<And>a m b. matches_at esc ps a m b \<Longrightarrow> re (a @ m @ b) \<noteq> []"
    and "en_fts e \<Longrightarrow> en_match e (narrow_expression (extract_literals (print_pattern ps))) = Some mt"
    and "\<And>t. \<forall>l \<in> set (extract_literals (print_pattern ps)). list_ex is_alphanumeric l \<and> occurs_at_token l t \<Longrightarrow> mt t"
    and "list_all (list_ex is_alphanumeric) (extract_literals (print_pattern ps))"
    and "length (scan_rows s q) \<le> max (q_max_results q * 20) 200"
  shows "\<exists>r. search e s q = Inr r \<and>
    (\<forall>h \<in> set (sr_hits r). \<exists>l \<in> set (scan_rows s q). h = hit_line q e re l \<and> re (line_text e l) \<noteq> []) \<and>
    (\<not> sr_capped r \<longrightarrow> (\<forall>l \<in> set (scan_rows s q). \<forall>a m b.
       line_text e l = a @ m @ b \<and> matches_at esc ps a m b \<and> token_start a (m @ b) \<longrightarrow> hit_line q e re l \<in> set (sr_hits r)))"
proof -
  let ?P = "\<lambda>l. (en_fts e \<and> extract_literals (q_query q) \<noteq> [] \<longrightarrow> mt (line_text e l)) \<and> re (line_text e l) \<noteq> []"
  obtain r where r: "regex_search e s q = Inr r"
      "sr_hits r = take (q_max_results q) (map (hit_line q e re) (filter ?P (scan_rows s q)))"
      "sr_capped r = (length (map (hit_line q e re) (filter ?P (scan_rows s q))) > q_max_results q)"
    using regex_search_lines [of s q e re mt] assms(1-4,8,10,13) by (auto simp: Let_def)
  have "search e s q = Inr r" using assms(2-4,7) r(1) by (simp add: search_def)
  moreover have "\<exists>l \<in> set (scan_rows s q). h = hit_line q e re l \<and> re (line_text e l) \<noteq> []" if "h \<in> set (sr_hits r)" for h
    using in_set_takeD [OF that [unfolded r(2)]] by auto
  moreover have "hit_line q e re l \<in> set (sr_hits r)"
    if "\<not> sr_capped r" "l \<in> set (scan_rows s q)" "line_text e l = a @ m @ b" "matches_at esc ps a m b" "token_start a (m @ b)" for l a m b
  proof -
    have "mt (line_text e l)"
      by (rule assms(11)) (use literals_occur [OF assms(5,6) that(4,5)] assms(12) that(3) in \<open>auto simp: list_all_iff\<close>)
    then have "?P l" using assms(9) [OF that(4)] that(3) by simp
    then show ?thesis using that(1,2) r(2,3) by simp
  qed
  ultimately show ?thesis by blast
qed

definition sample_panic :: pattern where
  "sample_panic = map (\<lambda>c. (P_word c, Once)) ''panic'' @ [(P_any, Many)]"

definition no_escapes :: escapes where
  "no_escapes c l s r \<longleftrightarrow> False"

lemma str_find_occurs: "str_find p (a @ p @ b) \<noteq> None"
proof (induction a)
  case Nil
  have "starts_with p (p @ b)" by (simp add: starts_with_def)
  then show ?case by (subst str_find.simps) simp
next
  case (Cons c cs)
  then show ?case by (subst str_find.simps) simp
qed

definition panic_re :: "string \<Rightarrow> (nat \<times> nat) list" where
  "panic_re t = (case str_find ''panic'' t of None \<Rightarrow> [] | Some i \<Rightarrow> [(i, str_len t)])"

definition panic_env :: SearchEnv where
  "panic_env = \<lparr> en_lossy = (\<lambda>bs. if bs = [66] then ''kernel panic: fatal'' else ''ok''), en_fts = True,
     en_match = (\<lambda>_. Some (str_contains ''panic'')), en_regex = (\<lambda>_. Some panic_re) \<rparr>"

lemma panic_fields: "en_fts panic_env" "en_match panic_env x = Some (str_contains ''panic'')" "en_regex panic_env p = Some panic_re"
  by (simp_all add: panic_env_def)

lemma panic_literals: "extract_literals (print_pattern sample_panic) = [''panic'']"
  by code_simp

theorem narrowing_keeps_token_matches_witness:
  "\<exists>r. search panic_env sample_filled (sample_query Regex_mode (print_pattern sample_panic)) = Inr r \<and>
     (\<forall>h \<in> set (sr_hits r). sh_text h = ''kernel panic: fatal'') \<and>
     (\<not> sr_capped r \<longrightarrow> (\<exists>h \<in> set (sr_hits r). sh_text h = ''kernel panic: fatal'' \<and> sh_stream_offset h = 2))"
proof -
  let ?q = "sample_query Regex_mode (print_pattern sample_panic)" and ?ls = "tb_raw_lines (ds_db sample_filled)"
  have ok: "pattern_ok sample_panic" "escape_law no_escapes" "trim (print_pattern sample_panic) \<noteq> []" "list_ex is_alphanumeric ''panic''"
    by (simp add: escape_law_def no_escapes_def | code_simp)+
  have short: "length (scan_rows sample_filled ?q) \<le> max (q_max_results ?q * 20) 200"
    unfolding sample_scan_rows by (simp add: sample_filled_fields)
  have engine: "panic_re (a @ m @ b) \<noteq> []" if "matches_at no_escapes sample_panic a m b" for a m b
    using that str_find_occurs [of "''panic''" a "drop 5 m @ b"] by (auto simp: panic_re_def sample_panic_def)
  have index: "str_contains ''panic'' t"
    if "\<forall>l \<in> set (extract_literals (print_pattern sample_panic)). list_ex is_alphanumeric l \<and> occurs_at_token l t" for t
    using that str_find_occurs [of "''panic''"] by (auto simp: panic_literals occurs_at_token_def str_contains_def)
  obtain r where r: "search panic_env sample_filled ?q = Inr r"
      "\<forall>h \<in> set (sr_hits r). \<exists>l \<in> set ?ls. h = hit_line ?q panic_env panic_re l \<and> panic_re (line_text panic_env l) \<noteq> []"
      "\<not> sr_capped r \<longrightarrow> (\<forall>l \<in> set ?ls. \<forall>a m b.
       line_text panic_env l = a @ m @ b \<and> matches_at no_escapes sample_panic a m b \<and> token_start a (m @ b) \<longrightarrow>
       hit_line ?q panic_env panic_re l \<in> set (sr_hits r))"
    using narrowing_keeps_token_matches [where e = panic_env and re = panic_re and mt = "str_contains ''panic''" and s = sample_filled
        and q = ?q and ps = sample_panic and esc = no_escapes, OF sample_filled_ok _ _ _ ok(1-3) _ engine _ index _ short] ok(4) panic_fields
    by (simp add: panic_literals sample_scan_rows) blast
  have texts: "line_text panic_env (?ls ! 0) = ''ok''" "line_text panic_env (?ls ! Suc 0) = ''kernel '' @ ''panic: fatal'' @ []"
    by (simp_all add: sample_filled_fields line_text_def LineRow_lossy_def panic_env_def)
  have ls: "set ?ls = {?ls ! 0, ?ls ! Suc 0}" by (simp add: sample_filled_fields)
  have "panic_re ''ok'' = []" by code_simp
  then have hits: "sh_text h = ''kernel panic: fatal''" if "h \<in> set (sr_hits r)" for h
    using r(2) that texts by (fastforce simp: ls hit_line_def hit_of_def)
  have "repeats no_escapes P_any l s x" for l s x
  proof (induction s arbitrary: l)
    case (Cons c s)
    have "repeats no_escapes P_any l ([c] @ s) x" by (rule repeats.more) (simp_all add: Cons)
    then show ?case by simp
  qed (rule repeats.none)
  then have found: "matches_at no_escapes sample_panic ''kernel '' ''panic: fatal'' []" by (simp add: sample_panic_def)
  have start: "token_start ''kernel '' (''panic: fatal'' @ [])" by code_simp
  let ?h = "hit_line ?q panic_env panic_re (?ls ! Suc 0)"
  have "?h \<in> set (sr_hits r)" if "\<not> sr_capped r"
  proof -
    have "?ls ! Suc 0 \<in> set ?ls" by (simp only: ls) simp
    with r(3) that texts(2) found start show ?thesis by blast
  qed
  moreover have "sh_text ?h = ''kernel panic: fatal'' \<and> sh_stream_offset ?h = 2"
    using texts(2) by (simp add: hit_line_def hit_of_def sample_filled_fields)
  ultimately show ?thesis using r(1) hits by blast
qed

section \<open>Where narrowing loses matches\<close>

text \<open>Fragments the extraction takes that a match need not have at the start of a token: the name of a
  group, an optional group, a piece repeated no times, text after a negated escape, a bracket that
  opened nothing, and any fragment when the match begins inside a token; and a fragment without a
  token in it.\<close>

lemma group_name_taken: "extract_literals ''(?P<code>[0-9]+)'' = [''code'']"
  by code_simp

lemma optional_group_taken: "extract_literals ''(abc)?d'' = [''abc'']"
  by code_simp

lemma repeated_zero_times_taken: "extract_literals ''foo a{0}'' = [''foo'']" "extract_literals ''foo abc{0}'' = [''foo'', ''abc'']"
  by code_simp+

lemma after_nonblank_taken: "extract_literals ([CHR 0x5C] @ ''Sabc'') = [''abc'']"
  by code_simp

lemma dashes_taken: "extract_literals ''-----'' = [''-----''] \<and> \<not> list_ex is_alphanumeric ''-----''"
  by code_simp

lemma inside_token_lost:
  "extract_literals ''anic'' = [''anic'']" "\<not> occurs_at_token ''anic'' ''panic''" "str_find ''anic'' ''panic'' \<noteq> None"
proof -
  have "\<not> token_start a (''anic'' @ b)" if "''panic'' = a @ ''anic'' @ b" for a b
  proof -
    have "length a + length b = 1" using arg_cong [OF that, of length] by simp
    then have "a = ''p'' \<and> b = [] \<or> a = [] \<and> length b = 1" using that by (cases a) auto
    moreover have "is_alphanumeric (CHR ''p'')" "is_alphanumeric (CHR ''a'')" by code_simp+
    ultimately show ?thesis using that by (auto simp: token_start_def)
  qed
  then show "\<not> occurs_at_token ''anic'' ''panic''" by (auto simp: occurs_at_token_def)
qed code_simp+

end
