(* ===== verification/Relay.thy ===== *)
theory Relay
  imports Follow Device_Registry "HOL-Library.AList"
begin

text \<open>
  The reverse call channel between nodes (\<^verbatim>\<open>peers/relay.rs\<close>): calls queued for a node that
  cannot be dialled, collected by its worker and answered through a rendezvous. Every definition
  is what one thread does while it holds the lock; the waiting in between is a step of another
  thread. The hash maps are association lists.
\<close>

section \<open>Calls\<close>

definition MAX_IN_FLIGHT :: nat where "MAX_IN_FLIGHT = 64"

definition POLLER_TTL_MS :: int where "POLLER_TTL_MS = 90000"

record RelayCall =
  rc_id :: nat
  rc_node :: string
  rc_tool :: string
  rc_args :: json
  rc_origin :: string
  rc_path :: "string list"

definition RelayCall_to_json :: "RelayCall \<Rightarrow> json" where
  "RelayCall_to_json c = JObj [(''id'', JInt (int (rc_id c))), (''tool'', JStr (rc_tool c)), (''args'', rc_args c),
     (''origin'', JStr (rc_origin c)), (''path'', JArr (map JStr (rc_path c)))]"

record Outgoing =
  og_node :: string
  og_tool :: string
  og_args :: json
  og_origin :: string
  og_path :: "string list"

datatype RelayError = NoPoller | Busy | Relay_timeout bool

fun RelayError_code :: "RelayError \<Rightarrow> ErrorCode" where
  "RelayError_code NoPoller = UnknownPeer"
| "RelayError_code Busy = Internal"
| "RelayError_code (Relay_timeout taken) = HookTimeout"

record RelaySlot =
  sl_node :: string
  sl_taken :: bool
  sl_result :: "json option"

record RelayQueue =
  rq_next_id :: nat
  rq_queue :: "RelayCall list"
  rq_slots :: "(nat \<times> RelaySlot) list"
  rq_pollers :: "(string \<times> int) list"

definition RelayQueue_new :: RelayQueue where
  "RelayQueue_new = \<lparr> rq_next_id = 0, rq_queue = [], rq_slots = [], rq_pollers = [] \<rparr>"

section \<open>The rendezvous\<close>

text \<open>\<^verbatim>\<open>i64::saturating_sub\<close>.\<close>

definition saturating_sub_i64 :: "int \<Rightarrow> int \<Rightarrow> int" where
  "saturating_sub_i64 a b = max (- (2 ^ 63)) (min (2 ^ 63 - 1) (a - b))"

definition has_poller :: "RelayQueue \<Rightarrow> string \<Rightarrow> int \<Rightarrow> bool" where
  "has_poller q node now \<longleftrightarrow> opt_any (\<lambda>last1. saturating_sub_i64 now last1 < POLLER_TTL_MS) (map_of (rq_pollers q) node)"

text \<open>\<^verbatim>\<open>submit\<close>: queueing the call, and one turn of the loop that waits for its answer. \<open>late\<close> says that
  nothing is left of the budget.\<close>

definition submit_queue :: "RelayQueue \<Rightarrow> Outgoing \<Rightarrow> int \<Rightarrow> RelayError + nat \<times> RelayQueue" where
  "submit_queue q out now =
     (if \<not> has_poller q (og_node out) now then Inl NoPoller
      else if length (rq_slots q) \<ge> MAX_IN_FLIGHT then Inl Busy
      else let i = rq_next_id q + 1
           in Inr (i, q\<lparr> rq_next_id := i,
                rq_slots := AList.update i \<lparr> sl_node = og_node out, sl_taken = False, sl_result = None \<rparr> (rq_slots q),
                rq_queue := rq_queue q @ [\<lparr> rc_id = i, rc_node = og_node out, rc_tool = og_tool out, rc_args = og_args out,
                  rc_origin = og_origin out, rc_path = og_path out \<rparr>] \<rparr>))"

definition submit_poll :: "RelayQueue \<Rightarrow> nat \<Rightarrow> bool \<Rightarrow> (RelayError + json) option \<times> RelayQueue" where
  "submit_poll q i late =
     (case Option.bind (map_of (rq_slots q) i) sl_result of
        Some v \<Rightarrow> (Some (Inr v), q\<lparr> rq_slots := AList.delete i (rq_slots q) \<rparr>)
      | None \<Rightarrow>
          if late then (Some (Inl (Relay_timeout (opt_any sl_taken (map_of (rq_slots q) i)))),
                        q\<lparr> rq_slots := AList.delete i (rq_slots q), rq_queue := filter (\<lambda>c. rc_id c \<noteq> i) (rq_queue q) \<rparr>)
          else (None, q))"

text \<open>\<^verbatim>\<open>take\<close>: noting the poll, and one turn of its loop.\<close>

definition take_note :: "RelayQueue \<Rightarrow> string \<Rightarrow> int \<Rightarrow> RelayQueue" where
  "take_note q node now = q\<lparr> rq_pollers := AList.update node now (rq_pollers q) \<rparr>"

fun position :: "('a \<Rightarrow> bool) \<Rightarrow> 'a list \<Rightarrow> nat option" where
  "position P [] = None"
| "position P (x # xs) = (if P x then Some 0 else map_option Suc (position P xs))"

definition update_slot :: "nat \<Rightarrow> (RelaySlot \<Rightarrow> RelaySlot) \<Rightarrow> (nat \<times> RelaySlot) list \<Rightarrow> (nat \<times> RelaySlot) list" where
  "update_slot i f slots = map (\<lambda>(j, sl). (j, if j = i then f sl else sl)) slots"

definition take_poll :: "RelayQueue \<Rightarrow> string \<Rightarrow> RelayCall option \<times> RelayQueue" where
  "take_poll q node =
     (case position (\<lambda>c. rc_node c = node) (rq_queue q) of
        None \<Rightarrow> (None, q)
      | Some pos \<Rightarrow>
          let c = rq_queue q ! pos
          in (Some c, q\<lparr> rq_queue := take pos (rq_queue q) @ drop (pos + 1) (rq_queue q),
                rq_slots := update_slot (rc_id c) (\<lambda>sl. sl\<lparr> sl_taken := True \<rparr>) (rq_slots q) \<rparr>))"

definition complete :: "RelayQueue \<Rightarrow> nat \<Rightarrow> string \<Rightarrow> json \<Rightarrow> bool \<times> RelayQueue" where
  "complete q i node result =
     (if opt_any (\<lambda>sl. sl_node sl = node) (map_of (rq_slots q) i)
      then (True, q\<lparr> rq_slots := update_slot i (\<lambda>sl. sl\<lparr> sl_result := Some result \<rparr>) (rq_slots q) \<rparr>)
      else (False, q))"

definition stats :: "RelayQueue \<Rightarrow> int \<Rightarrow> json" where
  "stats q now = JObj [(''queued'', JInt (int (length (rq_queue q)))), (''in_flight'', JInt (int (length (rq_slots q)))),
     (''listening'', JArr (map (\<lambda>(n, last1). JStr n) (filter (\<lambda>(n, last1). saturating_sub_i64 now last1 < POLLER_TTL_MS) (rq_pollers q))))]"

section \<open>The worker\<close>

definition as_u64 :: "json option \<Rightarrow> nat option" where
  "as_u64 v = (case v of Some (JInt n) \<Rightarrow> if 0 \<le> n \<and> n < 2 ^ 64 then Some (nat n) else None | _ \<Rightarrow> None)"

text \<open>\<^verbatim>\<open>s + 15\<close> and \<^verbatim>\<open>s + 20\<close> on \<^verbatim>\<open>u64\<close> wrap in a release build.\<close>

definition asked_budget :: "nat \<Rightarrow> json \<Rightarrow> nat" where
  "asked_budget extra args = (case as_u64 (jget args ''timeout_s'') of Some s \<Rightarrow> (s + extra) mod 2 ^ 64 | None \<Rightarrow> 0)"

definition budget_floor :: "nat \<Rightarrow> string \<Rightarrow> nat" where
  "budget_floor other tool =
     (if tool = ''power'' \<or> tool = ''boot_mode'' then 300
      else if tool \<in> set [''flash'', ''selftest'', ''transfer_file'', ''push_file'', ''pull_file''] then 900
      else other)"

definition hop_budget :: "string \<Rightarrow> json \<Rightarrow> nat" where
  "hop_budget tool args = max (asked_budget 20 args) (budget_floor 45 tool)"

definition unwrap_or :: "'a \<Rightarrow> 'a option \<Rightarrow> 'a" where
  "unwrap_or d x = (case x of Some v \<Rightarrow> v | None \<Rightarrow> d)"

definition error_answer :: json where
  "error_answer = JObj [(''isError'', JBool True), (''structuredContent'', JObj [(''error'', JObj [(''code'', JStr ''INTERNAL'')])])]"

definition str_or_empty :: "json option \<Rightarrow> string" where
  "str_or_empty v = (case as_str v of Some s \<Rightarrow> s | None \<Rightarrow> [])"

definition path_of :: "json option \<Rightarrow> string list" where
  "path_of v = (case v of Some (JArr xs) \<Rightarrow> List.map_filter (\<lambda>x. as_str (Some x)) xs | _ \<Rightarrow> [])"

text \<open>One round: what the peer answered to the poll, running the call on the own node, and posting the
  answer. The texts of error answers are left out.\<close>

definition serve_once ::
    "json res \<Rightarrow> (string \<Rightarrow> json \<Rightarrow> nat \<Rightarrow> string \<Rightarrow> string \<Rightarrow> json res) \<Rightarrow> (json \<Rightarrow> json res) \<Rightarrow> string \<Rightarrow> bool res \<times> json list" where
  "serve_once polled own post my_node =
     (case polled of Inl e \<Rightarrow> (Inl e, [])
      | Inr reply \<Rightarrow>
          (case jget (unwrap_or JNull (jget (unwrap_or JNull (jget reply ''result'')) ''structuredContent'')) ''call'' of
             Some (JObj call1) \<Rightarrow>
               let c = JObj call1; i = unwrap_or 0 (as_u64 (jget c ''id'')); tool = str_or_empty (jget c ''tool'');
                   args = unwrap_or (JObj []) (jget c ''args''); origin = str_or_empty (jget c ''origin''); path = path_of (jget c ''path'')
               in if tool = [] then (Inr False, [])
                  else let result = (case own tool args (hop_budget tool args) origin (join_with '','' path) of
                                       Inr r \<Rightarrow> unwrap_or error_answer (jget r ''result'') | Inl e \<Rightarrow> error_answer);
                           msg = JObj [(''id'', JInt (int i)), (''node'', JStr my_node), (''result'', result)]
                       in (and_then (post msg) (\<lambda>_. Inr True), [msg])
           | _ \<Rightarrow> (Inr False, [])))"

end
