(* ===== verification/Relay_Laws.thy ===== *)
theory Relay_Laws
  imports Relay Store_Inv
begin

text \<open>
  The relay under any interleaving of callers and workers: a step of the system is what one
  thread does under the lock, and anyone may post any answer. Callers get the answer last posted
  for their own call in the name of the node they addressed, or learn whether it was collected; a
  call is collected once, by a worker of its own node.
\<close>

section \<open>Callers and workers\<close>

text \<open>The queue with what happened around it: the calls that were queued, the callers still waiting, the
  answers callers went away with, the calls handed out with the node that polled for them, and the
  answers that were accepted with the node they were posted for.\<close>

record RelayNet =
  rn_queue :: RelayQueue
  rn_calls :: "RelayCall list"
  rn_waiting :: "nat list"
  rn_answered :: "(nat \<times> (RelayError + json)) list"
  rn_taken :: "(string \<times> RelayCall) list"
  rn_posted :: "(nat \<times> string \<times> json) list"

definition RelayNet_new :: RelayNet where
  "RelayNet_new = \<lparr> rn_queue = RelayQueue_new, rn_calls = [], rn_waiting = [], rn_answered = [], rn_taken = [], rn_posted = [] \<rparr>"

definition call_of :: "nat \<Rightarrow> Outgoing \<Rightarrow> RelayCall" where
  "call_of i out = \<lparr> rc_id = i, rc_node = og_node out, rc_tool = og_tool out, rc_args = og_args out, rc_origin = og_origin out,
     rc_path = og_path out \<rparr>"

text \<open>Anybody may post anything under any number and any name, as the tool \<^verbatim>\<open>peer_result\<close> lets them.\<close>

inductive rstep :: "RelayNet \<Rightarrow> RelayNet \<Rightarrow> bool" where
  submit: "submit_queue (rn_queue s) out now = Inr (i, q) \<Longrightarrow>
    rstep s (s\<lparr> rn_queue := q, rn_calls := rn_calls s @ [call_of i out], rn_waiting := rn_waiting s @ [i] \<rparr>)"
| wake: "i \<in> set (rn_waiting s) \<Longrightarrow> submit_poll (rn_queue s) i late = (Some a, q) \<Longrightarrow>
    rstep s (s\<lparr> rn_queue := q, rn_waiting := remove1 i (rn_waiting s), rn_answered := rn_answered s @ [(i, a)] \<rparr>)"
| poll: "rstep s (s\<lparr> rn_queue := take_note (rn_queue s) node now \<rparr>)"
| collect: "take_poll (rn_queue s) node = (Some c, q) \<Longrightarrow> rstep s (s\<lparr> rn_queue := q, rn_taken := rn_taken s @ [(node, c)] \<rparr>)"
| post: "complete (rn_queue s) i node v = (b, q) \<Longrightarrow>
    rstep s (s\<lparr> rn_queue := q, rn_posted := (if b then rn_posted s @ [(i, node, v)] else rn_posted s) \<rparr>)"

inductive_cases rstep_cases: "rstep s t"

definition relay_reachable :: "RelayNet \<Rightarrow> bool" where
  "relay_reachable s \<longleftrightarrow> rstep\<^sup>*\<^sup>* RelayNet_new s"

section \<open>The invariant\<close>

text \<open>A slot belongs to a queued call, which is collected or still in the queue, and holds the answer
  last accepted for it.\<close>

definition slot_ok :: "RelayNet \<Rightarrow> nat \<Rightarrow> RelaySlot \<Rightarrow> bool" where
  "slot_ok s i sl \<longleftrightarrow>
     (\<exists>c \<in> set (rn_calls s). rc_id c = i \<and> rc_node c = sl_node sl \<and> (sl_taken sl \<longleftrightarrow> c \<in> snd ` set (rn_taken s)) \<and>
        (sl_taken sl \<or> c \<in> set (rq_queue (rn_queue s)))) \<and>
     map_of (rev (rn_posted s)) i = map_option (\<lambda>v. (sl_node sl, v)) (sl_result sl)"

definition slots_ok :: "RelayNet \<Rightarrow> bool" where
  "slots_ok s \<longleftrightarrow> distinct (map fst (rq_slots (rn_queue s))) \<and> set (rn_waiting s) = fst ` set (rq_slots (rn_queue s)) \<and>
     distinct (rn_waiting s) \<and> length (rq_slots (rn_queue s)) \<le> MAX_IN_FLIGHT \<and>
     (\<forall>i sl. (i, sl) \<in> set (rq_slots (rn_queue s)) \<longrightarrow> slot_ok s i sl)"

definition calls_ok :: "RelayNet \<Rightarrow> bool" where
  "calls_ok s \<longleftrightarrow> map rc_id (rn_calls s) = [1..<Suc (rq_next_id (rn_queue s))] \<and>
     sorted_wrt (<) (map rc_id (rq_queue (rn_queue s))) \<and> set (rq_queue (rn_queue s)) \<subseteq> set (rn_calls s) - snd ` set (rn_taken s) \<and>
     distinct (map snd (rn_taken s)) \<and> (\<forall>n c. (n, c) \<in> set (rn_taken s) \<longrightarrow> c \<in> set (rn_calls s) \<and> rc_node c = n)"

text \<open>A call in the queue is waited for, unless it was answered before anybody collected it.\<close>

definition queue_ok :: "RelayNet \<Rightarrow> bool" where
  "queue_ok s \<longleftrightarrow> (\<forall>c \<in> set (rq_queue (rn_queue s)). rc_id c \<in> set (rn_waiting s) \<or> (\<exists>v. (rc_id c, Inr v) \<in> set (rn_answered s)))"

text \<open>What a caller went away with.\<close>

definition answer_ok :: "RelayNet \<Rightarrow> nat \<Rightarrow> RelayError + json \<Rightarrow> bool" where
  "answer_ok s i a \<longleftrightarrow>
     (\<forall>v. a = Inr v \<longrightarrow> (\<exists>c \<in> set (rn_calls s). rc_id c = i \<and> map_of (rev (rn_posted s)) i = Some (rc_node c, v))) \<and>
     (\<forall>e. a = Inl e \<longrightarrow> e = Relay_timeout (i \<in> rc_id ` snd ` set (rn_taken s)) \<and> i \<notin> fst ` set (rn_posted s))"

definition answers_ok :: "RelayNet \<Rightarrow> bool" where
  "answers_ok s \<longleftrightarrow> distinct (map fst (rn_answered s)) \<and> fst ` set (rn_answered s) \<inter> set (rn_waiting s) = {} \<and>
     fst ` set (rn_answered s) \<union> set (rn_waiting s) = rc_id ` set (rn_calls s) \<and>
     (\<forall>i n v. (i, n, v) \<in> set (rn_posted s) \<longrightarrow> (\<exists>c \<in> set (rn_calls s). rc_id c = i \<and> rc_node c = n)) \<and>
     (\<forall>i a. (i, a) \<in> set (rn_answered s) \<longrightarrow> answer_ok s i a)"

definition relay_inv :: "RelayNet \<Rightarrow> bool" where
  "relay_inv s \<longleftrightarrow> slots_ok s \<and> calls_ok s \<and> queue_ok s \<and> answers_ok s"

lemma relay_inv_new: "relay_inv RelayNet_new"
  by (simp add: relay_inv_def slots_ok_def calls_ok_def queue_ok_def answers_ok_def RelayNet_new_def RelayQueue_new_def)

section \<open>Lists and maps\<close>

lemma position_Some: "position P xs = Some n \<Longrightarrow> n < length xs \<and> P (xs ! n) \<and> (\<forall>x \<in> set (take n xs). \<not> P x)"
  by (induction xs arbitrary: n) (auto split: if_splits)

lemma position_None: "position P xs = None \<longleftrightarrow> (\<forall>x \<in> set xs. \<not> P x)"
  by (induction xs) auto

lemma update_slot_simps [simp]:
  "map fst (update_slot i f slots) = map fst slots" "length (update_slot i f slots) = length slots"
  by (simp_all add: update_slot_def split_def comp_def)

lemma update_slot_mem: "(j, sl) \<in> set (update_slot i f slots) \<longleftrightarrow> (\<exists>sl0. (j, sl0) \<in> set slots \<and> sl = (if j = i then f sl0 else sl0))"
  by (induction slots) (auto simp: update_slot_def)

lemma update_slot_keys [simp]: "fst ` set (update_slot i f slots) = fst ` set slots"
  by (simp flip: set_map)

lemma update_fresh: "i \<notin> fst ` set xs \<Longrightarrow> AList.update i v xs = xs @ [(i, v)]"
  by (induction xs) (auto simp: image_iff)

lemma delete_mem: "(j, x) \<in> set (AList.delete i xs) \<longleftrightarrow> (j, x) \<in> set xs \<and> j \<noteq> i"
  by (auto simp: AList.delete_eq)

lemma delete_keys: "fst ` set (AList.delete i xs) = fst ` set xs - {i}"
  by (force simp: AList.delete_eq)

lemma distinct_delete: "distinct (map fst xs) \<Longrightarrow> distinct (map fst (AList.delete i xs))"
  by (simp add: AList.delete_eq distinct_map_filter)

lemma call_ids:
  assumes "calls_ok s"
  shows "inj_on rc_id (set (rn_calls s))" "rc_id ` set (rn_calls s) = {1..rq_next_id (rn_queue s)}"
proof -
  have "distinct (map rc_id (rn_calls s))" using assms by (simp add: calls_ok_def)
  then show "inj_on rc_id (set (rn_calls s))" by (simp add: distinct_map)
  have "set (map rc_id (rn_calls s)) = {1..rq_next_id (rn_queue s)}" using assms by (auto simp: calls_ok_def)
  then show "rc_id ` set (rn_calls s) = {1..rq_next_id (rn_queue s)}" by simp
qed

lemma posted_call: "answers_ok s \<Longrightarrow> (i, n, v) \<in> set (rn_posted s) \<Longrightarrow> \<exists>x \<in> set (rn_calls s). rc_id x = i \<and> rc_node x = n"
  unfolding answers_ok_def by blast

lemma posted_known: "answers_ok s \<Longrightarrow> i \<in> fst ` set (rn_posted s) \<Longrightarrow> i \<in> rc_id ` set (rn_calls s)"
  using posted_call by fastforce

lemma never_posted: "map_of (rev ps) i = None \<longleftrightarrow> i \<notin> fst ` set ps"
  by (simp add: map_of_eq_None_iff)

lemma slot_ok_mono:
  assumes "slot_ok s i sl" and "set (rn_calls s) \<subseteq> set (rn_calls t)" and "rn_taken t = rn_taken s" and "rn_posted t = rn_posted s"
    and "\<And>c. c \<in> set (rq_queue (rn_queue s)) \<Longrightarrow> rc_id c = i \<Longrightarrow> c \<in> set (rq_queue (rn_queue t))"
  shows "slot_ok t i sl"
proof -
  obtain c where c: "c \<in> set (rn_calls s)" "rc_id c = i" "rc_node c = sl_node sl" "sl_taken sl \<longleftrightarrow> c \<in> snd ` set (rn_taken s)"
      "sl_taken sl \<or> c \<in> set (rq_queue (rn_queue s))"
    using assms(1) unfolding slot_ok_def by blast
  have "\<exists>c \<in> set (rn_calls t). rc_id c = i \<and> rc_node c = sl_node sl \<and> (sl_taken sl \<longleftrightarrow> c \<in> snd ` set (rn_taken t)) \<and>
      (sl_taken sl \<or> c \<in> set (rq_queue (rn_queue t)))"
    by (rule bexI [of _ c]) (use c assms(2,3,5) in auto)
  with assms(1,4) show ?thesis unfolding slot_ok_def by simp
qed

lemma answer_ok_mono:
  assumes "answer_ok s i a" and "set (rn_calls s) \<subseteq> set (rn_calls t)" and "rn_posted t = rn_posted s"
    and "i \<in> rc_id ` snd ` set (rn_taken t) \<longleftrightarrow> i \<in> rc_id ` snd ` set (rn_taken s)"
  shows "answer_ok t i a"
  using assms unfolding answer_ok_def by (cases a) auto

section \<open>Every step keeps it\<close>

lemma submit_inv:
  assumes inv: "relay_inv s" and sub: "submit_queue (rn_queue s) out now = Inr (i, q)"
  shows "relay_inv (s\<lparr> rn_queue := q, rn_calls := rn_calls s @ [call_of i out], rn_waiting := rn_waiting s @ [i] \<rparr>)"
proof -
  let ?Q = "rn_queue s" and ?c = "call_of i out"
  let ?sl = "\<lparr> sl_node = og_node out, sl_taken = False, sl_result = None \<rparr>"
  have ok: "slots_ok s" "calls_ok s" "answers_ok s" "queue_ok s" using inv by (simp_all add: relay_inv_def)
  have i: "i = Suc (rq_next_id ?Q)" and room: "length (rq_slots ?Q) < MAX_IN_FLIGHT"
    and q: "q = ?Q\<lparr> rq_next_id := i, rq_slots := AList.update i ?sl (rq_slots ?Q), rq_queue := rq_queue ?Q @ [?c] \<rparr>"
    using sub by (auto simp: submit_queue_def Let_def call_of_def split: if_splits)
  note ids = call_ids [OF ok(2)]
  have waiting: "set (rn_waiting s) = fst ` set (rq_slots ?Q)" using ok(1) by (simp add: slots_ok_def)
  have known: "rc_id c < i" if "c \<in> set (rn_calls s)" for c
  proof -
    have "rc_id c \<in> {1..rq_next_id ?Q}" using that ids(2) by blast
    then show ?thesis using i by simp
  qed
  have wait: "j < i" if "j \<in> set (rn_waiting s)" for j
  proof -
    have "j \<in> rc_id ` set (rn_calls s)" using that ok(3) by (auto simp: answers_ok_def)
    with known show ?thesis by blast
  qed
  have fresh: "i \<notin> fst ` set (rq_slots ?Q)" "i \<notin> set (rn_waiting s)" using wait waiting by blast+
  have c: "rc_id ?c = i" "rc_node ?c = og_node out" by (simp_all add: call_of_def)
  have taken: "?c \<notin> snd ` set (rn_taken s)" using ok(2) known [of ?c] c by (fastforce simp: calls_ok_def)
  have new_id: "i \<notin> rc_id ` set (rn_calls s)" using known by blast
  then have posted: "map_of (rev (rn_posted s)) i = None" using posted_known [OF ok(3), of i] unfolding never_posted by blast
  let ?s = "s\<lparr> rn_queue := q, rn_calls := rn_calls s @ [?c], rn_waiting := rn_waiting s @ [i] \<rparr>"
  have keep: "slot_ok ?s j sl" if "slot_ok s j sl" for j sl
    by (rule slot_ok_mono [OF that]) (simp_all add: q subset_insertI)
  have new: "slot_ok ?s i ?sl" using taken posted c by (simp add: slot_ok_def q)
  have "slots_ok ?s"
    unfolding slots_ok_def
  proof (intro conjI allI impI)
    fix j sl assume "(j, sl) \<in> set (rq_slots (rn_queue ?s))"
    then have "(j, sl) \<in> set (rq_slots ?Q) \<or> j = i \<and> sl = ?sl" using fresh(1) by (auto simp: q update_fresh)
    then show "slot_ok ?s j sl" using ok(1) keep new unfolding slots_ok_def by blast
  qed (use ok(1) fresh room waiting in \<open>simp_all add: slots_ok_def q update_fresh\<close>)
  moreover have "calls_ok ?s"
    using ok(2) known taken c i by (auto simp: calls_ok_def q sorted_wrt_append)
  moreover have "queue_ok ?s" using ok(4) c by (auto simp: queue_ok_def q)
  moreover have out: "i \<notin> fst ` set (rn_answered s)" using ok(3) new_id by (auto simp: answers_ok_def)
  moreover have "answer_ok ?s j a" if "answer_ok s j a" for j a
    by (rule answer_ok_mono [OF that]) (simp_all add: subset_insertI)
  then have "answers_ok ?s"
    using ok(3) c fresh(2) out by (auto simp: answers_ok_def q)
  ultimately show ?thesis by (simp add: relay_inv_def)
qed

text \<open>The slot of a waiting caller, and its call.\<close>

lemma slot_of_waiting:
  assumes "relay_inv s" and "i \<in> set (rn_waiting s)"
  shows "\<exists>sl c. map_of (rq_slots (rn_queue s)) i = Some sl \<and> slot_ok s i sl \<and> c \<in> set (rn_calls s) \<and> rc_id c = i \<and> rc_node c = sl_node sl \<and>
    (sl_taken sl \<longleftrightarrow> c \<in> snd ` set (rn_taken s))"
proof -
  have ok: "slots_ok s" using assms(1) by (simp add: relay_inv_def)
  then have "i \<in> fst ` set (rq_slots (rn_queue s))" using assms(2) by (simp add: slots_ok_def)
  then obtain sl where sl: "map_of (rq_slots (rn_queue s)) i = Some sl" by (meson map_of_eq_None_iff not_Some_eq)
  with ok have "slot_ok s i sl" unfolding slots_ok_def by (blast dest: map_of_SomeD)
  then obtain c where "c \<in> set (rn_calls s)" "rc_id c = i" "rc_node c = sl_node sl" "sl_taken sl \<longleftrightarrow> c \<in> snd ` set (rn_taken s)"
    unfolding slot_ok_def by blast
  with sl \<open>slot_ok s i sl\<close> show ?thesis by blast
qed

lemma call_unique:
  assumes "relay_inv s" and "c \<in> set (rn_calls s)" and "d \<in> set (rn_calls s)" and "rc_id c = rc_id d"
  shows "c = d"
  using call_ids(1) [of s] assms unfolding relay_inv_def inj_on_def by blast

lemma taken_calls: "relay_inv s \<Longrightarrow> snd ` set (rn_taken s) \<subseteq> set (rn_calls s)"
  by (auto simp: relay_inv_def calls_ok_def)

lemma queue_calls: "relay_inv s \<Longrightarrow> c \<in> set (rq_queue (rn_queue s)) \<Longrightarrow> c \<in> set (rn_calls s) \<and> c \<notin> snd ` set (rn_taken s)"
  unfolding relay_inv_def calls_ok_def by blast

text \<open>A caller that leaves takes its slot along, and its place in the queue if it got no answer.\<close>

lemma leave_inv:
  assumes inv: "relay_inv s" and i: "i \<in> set (rn_waiting s)" and a: "answer_ok s i a"
    and q: "rq_slots q = AList.delete i (rq_slots (rn_queue s))"
      "rq_queue q = (case a of Inl e \<Rightarrow> filter (\<lambda>c. rc_id c \<noteq> i) (rq_queue (rn_queue s)) | Inr v \<Rightarrow> rq_queue (rn_queue s))"
      "rq_next_id q = rq_next_id (rn_queue s)"
  shows "relay_inv (s\<lparr> rn_queue := q, rn_waiting := remove1 i (rn_waiting s), rn_answered := rn_answered s @ [(i, a)] \<rparr>)"
proof -
  let ?s = "s\<lparr> rn_queue := q, rn_waiting := remove1 i (rn_waiting s), rn_answered := rn_answered s @ [(i, a)] \<rparr>"
  have ok: "slots_ok s" "calls_ok s" "answers_ok s" "queue_ok s" using inv by (simp_all add: relay_inv_def)
  have w: "set (remove1 i (rn_waiting s)) = set (rn_waiting s) - {i}" using ok(1) by (simp add: slots_ok_def)
  have "slot_ok ?s j sl" if "slot_ok s j sl" "j \<noteq> i" for j sl
    by (rule slot_ok_mono [OF that(1)]) (use that(2) in \<open>auto simp: q split: sum.split\<close>)
  then have "slots_ok ?s"
    using ok(1) unfolding slots_ok_def by (simp add: q w delete_mem delete_keys distinct_delete le_trans [OF length_delete_le])
  moreover have "calls_ok ?s" using ok(2) unfolding calls_ok_def by (auto simp: q sorted_filter_key split: sum.split)
  moreover have "queue_ok ?s" using ok(4) unfolding queue_ok_def by (auto simp: q w split: sum.split)
  moreover have "answer_ok ?s j b" if "answer_ok s j b" for j b by (rule answer_ok_mono [OF that]) auto
  then have "answers_ok ?s" using ok(3) i a unfolding answers_ok_def by (auto simp: w)
  ultimately show ?thesis by (simp add: relay_inv_def)
qed

lemma wake_inv:
  assumes inv: "relay_inv s" and i: "i \<in> set (rn_waiting s)" and poll: "submit_poll (rn_queue s) i late = (Some a, q)"
  shows "relay_inv (s\<lparr> rn_queue := q, rn_waiting := remove1 i (rn_waiting s), rn_answered := rn_answered s @ [(i, a)] \<rparr>)"
proof -
  obtain sl c where sl: "map_of (rq_slots (rn_queue s)) i = Some sl" "slot_ok s i sl"
    and c: "c \<in> set (rn_calls s)" "rc_id c = i" "rc_node c = sl_node sl" "sl_taken sl \<longleftrightarrow> c \<in> snd ` set (rn_taken s)"
    using slot_of_waiting [OF inv i] by blast
  have mine: "i \<in> rc_id ` snd ` set (rn_taken s) \<longleftrightarrow> c \<in> snd ` set (rn_taken s)"
    using call_unique [OF inv c(1)] taken_calls [OF inv] c(2) by blast
  show ?thesis
  proof (cases "sl_result sl")
    case None
    with poll sl(1) have p: "late" "a = Inl (Relay_timeout (sl_taken sl))"
      "q = (rn_queue s)\<lparr> rq_slots := AList.delete i (rq_slots (rn_queue s)), rq_queue := filter (\<lambda>c. rc_id c \<noteq> i) (rq_queue (rn_queue s)) \<rparr>"
      by (auto simp: submit_poll_def opt_any_def split: if_splits)
    have "answer_ok s i a" using p(2) mine c(4) None sl(2) by (simp add: answer_ok_def slot_ok_def flip: never_posted)
    from leave_inv [OF inv i this] p(2,3) show ?thesis by simp
  next
    case (Some v)
    with poll sl(1) have p: "a = Inr v" "q = (rn_queue s)\<lparr> rq_slots := AList.delete i (rq_slots (rn_queue s)) \<rparr>"
      by (auto simp: submit_poll_def)
    have "map_of (rev (rn_posted s)) i = Some (rc_node c, v)" using sl(2) Some c(3) by (simp add: slot_ok_def)
    with c(1,2) p(1) have "answer_ok s i a" by (auto simp: answer_ok_def)
    from leave_inv [OF inv i this] p show ?thesis by simp
  qed
qed

lemma poll_inv: "relay_inv (s\<lparr> rn_queue := take_note (rn_queue s) node now \<rparr>) \<longleftrightarrow> relay_inv s"
  by (simp add: relay_inv_def slots_ok_def slot_ok_def calls_ok_def queue_ok_def answers_ok_def answer_ok_def take_note_def)

lemma without_nth: "distinct xs \<Longrightarrow> n < length xs \<Longrightarrow> take n xs @ drop (n + 1) xs = filter (\<lambda>x. x \<noteq> xs ! n) xs"
proof (induction xs arbitrary: n)
  case (Cons x xs)
  then show ?case
  proof (cases n)
    case 0
    with Cons.prems have "filter (\<lambda>y. y \<noteq> x) xs = xs" by (auto simp: filter_id_conv)
    with 0 show ?thesis by simp
  next
    case (Suc m)
    with Cons show ?thesis by (auto simp: nth_mem)
  qed
qed simp

text \<open>What a poll is handed: the oldest call for the node, not collected before.\<close>

lemma collected:
  assumes inv: "relay_inv s" and poll: "take_poll (rn_queue s) node = (Some c, q)"
  shows "c \<in> set (rq_queue (rn_queue s))" and "rc_node c = node"
    and "\<And>d. d \<in> set (rq_queue (rn_queue s)) \<Longrightarrow> rc_node d = node \<Longrightarrow> rc_id c \<le> rc_id d"
    and "q = (rn_queue s)\<lparr> rq_queue := filter (\<lambda>d. d \<noteq> c) (rq_queue (rn_queue s)),
           rq_slots := update_slot (rc_id c) (\<lambda>sl. sl\<lparr> sl_taken := True \<rparr>) (rq_slots (rn_queue s)) \<rparr>"
proof -
  let ?Q = "rq_queue (rn_queue s)"
  have sorted: "sorted_wrt (<) (map rc_id ?Q)" using inv by (simp add: relay_inv_def calls_ok_def)
  obtain n where n: "position (\<lambda>c. rc_node c = node) ?Q = Some n" "c = ?Q ! n"
    "q = (rn_queue s)\<lparr> rq_queue := take n ?Q @ drop (n + 1) ?Q, rq_slots := update_slot (rc_id c) (\<lambda>sl. sl\<lparr> sl_taken := True \<rparr>) (rq_slots (rn_queue s)) \<rparr>"
    using poll by (auto simp: take_poll_def Let_def split: option.splits)
  note p = position_Some [OF n(1)]
  show "c \<in> set ?Q" "rc_node c = node" using p n(2) by auto
  have "distinct ?Q" using sorted by (simp add: strict_sorted_iff distinct_map)
  from without_nth [OF this, of n] p n show "q = (rn_queue s)\<lparr> rq_queue := filter (\<lambda>d. d \<noteq> c) ?Q,
      rq_slots := update_slot (rc_id c) (\<lambda>sl. sl\<lparr> sl_taken := True \<rparr>) (rq_slots (rn_queue s)) \<rparr>" by simp
  show "rc_id c \<le> rc_id d" if dq: "d \<in> set ?Q" and dn: "rc_node d = node" for d
  proof -
    obtain m where m: "m < length ?Q" "d = ?Q ! m" using dq by (auto simp: in_set_conv_nth)
    have "m < n \<Longrightarrow> d \<in> set (take n ?Q)" using m by (auto simp: in_set_conv_nth intro!: exI [of _ m])
    then have "\<not> m < n" using p dn by blast
    then show ?thesis using sorted_wrt_nth_less [OF sorted, of n m] m n(2) by (cases "n = m") simp_all
  qed
qed

lemma collect_inv:
  assumes inv: "relay_inv s" and poll: "take_poll (rn_queue s) node = (Some c, q)"
  shows "relay_inv (s\<lparr> rn_queue := q, rn_taken := rn_taken s @ [(node, c)] \<rparr>)"
proof -
  let ?s = "s\<lparr> rn_queue := q, rn_taken := rn_taken s @ [(node, c)] \<rparr>"
  have ok: "slots_ok s" "calls_ok s" "answers_ok s" "queue_ok s" using inv by (simp_all add: relay_inv_def)
  note col = collected [OF inv poll]
  note c = queue_calls [OF inv col(1)]
  have slot: "slot_ok ?s j (if j = rc_id c then sl\<lparr> sl_taken := True \<rparr> else sl)" if sl: "slot_ok s j sl" for j sl
  proof -
    obtain d where d: "d \<in> set (rn_calls s)" "rc_id d = j" "rc_node d = sl_node sl" "sl_taken sl \<longleftrightarrow> d \<in> snd ` set (rn_taken s)"
        "sl_taken sl \<or> d \<in> set (rq_queue (rn_queue s))" using sl unfolding slot_ok_def by blast
    have dc: "d = c \<longleftrightarrow> j = rc_id c" using call_unique [OF inv d(1), of c] c d(2) by blast
    have "\<exists>x \<in> set (rn_calls ?s). rc_id x = j \<and> rc_node x = sl_node (if j = rc_id c then sl\<lparr> sl_taken := True \<rparr> else sl) \<and>
        (sl_taken (if j = rc_id c then sl\<lparr> sl_taken := True \<rparr> else sl) \<longleftrightarrow> x \<in> snd ` set (rn_taken ?s)) \<and>
        (sl_taken (if j = rc_id c then sl\<lparr> sl_taken := True \<rparr> else sl) \<or> x \<in> set (rq_queue (rn_queue ?s)))"
      by (rule bexI [of _ d]) (use d dc in \<open>auto simp: col(4)\<close>)
    with sl show ?thesis unfolding slot_ok_def by (cases "j = rc_id c") simp_all
  qed
  have "slots_ok ?s"
    unfolding slots_ok_def
  proof (intro conjI allI impI)
    fix j sl assume "(j, sl) \<in> set (rq_slots (rn_queue ?s))"
    then obtain sl0 where "(j, sl0) \<in> set (rq_slots (rn_queue s))" "sl = (if j = rc_id c then sl0\<lparr> sl_taken := True \<rparr> else sl0)"
      by (auto simp: col(4) update_slot_mem)
    with slot ok(1) show "slot_ok ?s j sl" unfolding slots_ok_def by blast
  qed (use ok(1) in \<open>simp_all add: slots_ok_def col(4)\<close>)
  moreover have "calls_ok ?s"
    using ok(2) c col(2) unfolding calls_ok_def by (auto simp: col(4) sorted_filter_key)
  moreover have "queue_ok ?s" using ok(4) by (simp add: queue_ok_def col(4))
  moreover have "answer_ok ?s j a" if j: "(j, a) \<in> set (rn_answered s)" for j a
  proof -
    have a: "answer_ok s j a" using j ok(3) unfolding answers_ok_def by blast
    show ?thesis
    proof (cases a)
      case (Inr v)
      with a show ?thesis by (simp add: answer_ok_def)
    next
      case (Inl e)
      have "distinct (map fst (rn_answered s))" using ok(3) by (simp add: answers_ok_def)
      then have "(j, Inr v) \<notin> set (rn_answered s)" for v using j Inl by (metis Inl_Inr_False eq_key_imp_eq_value)
      moreover have "j \<notin> set (rn_waiting s)" using ok(3) j unfolding answers_ok_def by force
      ultimately have "j \<noteq> rc_id c" using ok(4) col(1) unfolding queue_ok_def by blast
      then show ?thesis by (intro answer_ok_mono [OF a]) auto
    qed
  qed
  then have "answers_ok ?s" using ok(3) unfolding answers_ok_def by simp
  ultimately show ?thesis by (simp add: relay_inv_def)
qed

lemma post_inv:
  assumes inv: "relay_inv s" and comp: "complete (rn_queue s) i node v = (b, q)"
  shows "relay_inv (s\<lparr> rn_queue := q, rn_posted := (if b then rn_posted s @ [(i, node, v)] else rn_posted s) \<rparr>)"
proof (cases b)
  case False
  then have "q = rn_queue s" using comp by (simp add: complete_def split: if_splits)
  with False inv show ?thesis by simp
next
  case True
  let ?f = "\<lambda>sl. sl\<lparr> sl_result := Some v \<rparr>"
  let ?s = "s\<lparr> rn_queue := q, rn_posted := rn_posted s @ [(i, node, v)] \<rparr>"
  have ok: "slots_ok s" "calls_ok s" "answers_ok s" "queue_ok s" using inv by (simp_all add: relay_inv_def)
  obtain sl where sl: "map_of (rq_slots (rn_queue s)) i = Some sl" "sl_node sl = node"
      and q: "q = (rn_queue s)\<lparr> rq_slots := update_slot i ?f (rq_slots (rn_queue s)) \<rparr>"
    using comp True by (auto simp: complete_def opt_any_def split: if_splits option.splits)
  have waits: "i \<in> set (rn_waiting s)" using ok(1) map_of_SomeD [OF sl(1)] by (force simp: slots_ok_def)
  then obtain c where c: "c \<in> set (rn_calls s)" "rc_id c = i" "rc_node c = node"
    using slot_of_waiting [OF inv] sl by fastforce
  have slot: "slot_ok ?s j (if j = i then ?f x else x)" if x: "(j, x) \<in> set (rq_slots (rn_queue s))" for j x
  proof -
    have s: "slot_ok s j x" using ok(1) x unfolding slots_ok_def by blast
    show ?thesis
    proof (cases "j = i")
      case True
      have "x = sl" using ok(1) x sl(1) True by (auto simp: slots_ok_def dest: map_of_is_SomeI)
      with s True sl(2) show ?thesis by (simp add: slot_ok_def q)
    next
      case False
      with s show ?thesis by (simp add: slot_ok_def q)
    qed
  qed
  have "slots_ok ?s"
    unfolding slots_ok_def
  proof (intro conjI allI impI)
    fix j y assume "(j, y) \<in> set (rq_slots (rn_queue ?s))"
    then obtain x where "(j, x) \<in> set (rq_slots (rn_queue s))" "y = (if j = i then ?f x else x)"
      by (auto simp: q update_slot_mem)
    with slot show "slot_ok ?s j y" by blast
  qed (use ok(1) in \<open>simp_all add: slots_ok_def q\<close>)
  moreover have "calls_ok ?s" "queue_ok ?s" using ok(2,4) by (simp_all add: calls_ok_def queue_ok_def q)
  moreover have "answer_ok ?s j a" if "(j, a) \<in> set (rn_answered s)" for j a
  proof -
    have "j \<noteq> i" using ok(3) waits that unfolding answers_ok_def by force
    moreover have "answer_ok s j a" using that ok(3) unfolding answers_ok_def by blast
    ultimately show ?thesis unfolding answer_ok_def by (cases a) auto
  qed
  moreover have "\<exists>d \<in> set (rn_calls s). rc_id d = j \<and> rc_node d = n" if "(j, n, w) \<in> set (rn_posted ?s)" for j n w
    using that c posted_call [OF ok(3), of j n w] by auto
  ultimately have "slots_ok ?s" "calls_ok ?s" "queue_ok ?s" "answers_ok ?s" using ok(3) unfolding answers_ok_def by simp_all
  then show ?thesis using True by (simp add: relay_inv_def)
qed

lemma rstep_inv: "rstep s t \<Longrightarrow> relay_inv s \<Longrightarrow> relay_inv t"
  by (erule rstep_cases) (simp_all only: submit_inv wake_inv poll_inv collect_inv post_inv)

lemma reachable_inv: "relay_reachable s \<Longrightarrow> relay_inv s"
  unfolding relay_reachable_def
  by (induction rule: rtranclp_induct) (auto intro: relay_inv_new rstep_inv)

section \<open>What callers and workers can rely on\<close>

lemmas relay_defs = slots_ok_def calls_ok_def answers_ok_def


text \<open>The reply to a poll that hands out a call, and what a worker posts.\<close>

definition poll_reply :: "RelayCall option \<Rightarrow> json" where
  "poll_reply c = JObj [(''result'', JObj [(''structuredContent'',
     JObj [(''call'', case c of Some c \<Rightarrow> RelayCall_to_json c | None \<Rightarrow> JNull)])])]"

definition result_post :: "nat \<Rightarrow> string \<Rightarrow> json \<Rightarrow> json" where
  "result_post i node r = JObj [(''id'', JInt (int i)), (''node'', JStr node), (''result'', r)]"

lemma path_of_strs: "path_of (Some (JArr (map JStr ss))) = ss"
  unfolding path_of_def by (induction ss) (simp_all add: List.map_filter_simps as_str_def)

lemma serve_once_call:
  assumes "rc_tool c \<noteq> []" and "rc_id c < 2 ^ 64"
  shows "serve_once (Inr (poll_reply (Some c))) own post node =
    (let r = (case own (rc_tool c) (rc_args c) (hop_budget (rc_tool c) (rc_args c)) (rc_origin c) (join_with '','' (rc_path c)) of
                Inr r \<Rightarrow> unwrap_or error_answer (jget r ''result'') | Inl e \<Rightarrow> error_answer);
         msg = result_post (rc_id c) node r
     in (and_then (post msg) (\<lambda>_. Inr True), [msg]))"
proof -
  have "int (rc_id c) < 2 ^ 64" using assms(2) by (metis of_nat_less_iff of_nat_numeral of_nat_power)
  then show ?thesis
    using assms(1)
    by (simp add: serve_once_def poll_reply_def RelayCall_to_json_def unwrap_or_def str_or_empty_def as_str_def as_u64_def
        path_of_strs Let_def result_post_def cong: sum.case_cong)
qed

text \<open>C31. A call queued when nothing else is queued for its node is what that node's next poll is handed; its
  worker runs exactly that tool with those arguments, identity and path, its answer is accepted,
  and the caller goes away with it, even when its budget ran out meanwhile; a caller whose budget
  ran out never stays.\<close>

theorem relay_round_trip:
  assumes "relay_reachable s" and "submit_queue (rn_queue s) out now = Inr (i, q)" and "\<forall>c \<in> set (rq_queue (rn_queue s)). rc_node c \<noteq> og_node out"
    and "og_tool out \<noteq> []" and "i < 2 ^ 64"
    and "own (og_tool out) (og_args out) (hop_budget (og_tool out) (og_args out)) (og_origin out) (join_with '','' (og_path out)) =
      Inr (JObj [(''result'', v)])"
    and "post (result_post i (og_node out) v) = Inr w"
  shows "\<exists>q2 q3. take_poll q (og_node out) = (Some (call_of i out), q2) \<and>
    serve_once (Inr (poll_reply (Some (call_of i out)))) own post (og_node out) = (Inr True, [result_post i (og_node out) v]) \<and>
    complete q2 i (og_node out) v = (True, q3) \<and> (\<exists>q4. submit_poll q3 i late = (Some (Inr v), q4)) \<and>
    (\<exists>q4. submit_poll q i True = (Some (Inl (Relay_timeout False)), q4)) \<and> (\<exists>q4. submit_poll q2 i True = (Some (Inl (Relay_timeout True)), q4))"
proof -
  let ?Q = "rn_queue s" and ?sl = "\<lparr> sl_node = og_node out, sl_taken = False, sl_result = None \<rparr>"
  note inv = reachable_inv [OF assms(1)]
  have ok: "slots_ok s" "calls_ok s" "answers_ok s" "queue_ok s" using inv by (simp_all add: relay_inv_def)
  have i: "i = rq_next_id ?Q + 1" and q: "q = ?Q\<lparr> rq_next_id := i, rq_slots := AList.update i ?sl (rq_slots ?Q), rq_queue := rq_queue ?Q @ [call_of i out] \<rparr>"
    using assms(2) by (auto simp: submit_queue_def Let_def call_of_def split: if_splits)
  have "fst ` set (rq_slots ?Q) \<subseteq> {1..rq_next_id ?Q}"
  proof -
    have "fst ` set (rq_slots ?Q) = set (rn_waiting s)" using ok(1) by (simp add: slots_ok_def)
    moreover have "set (rn_waiting s) \<subseteq> rc_id ` set (rn_calls s)" using ok(3) by (auto simp: answers_ok_def)
    ultimately show ?thesis using call_ids(2) [OF ok(2)] by simp
  qed
  then have fresh: "i \<notin> fst ` set (rq_slots ?Q)" using i by auto
  have pos: "position (\<lambda>c. rc_node c = og_node out) (xs @ [call_of i out]) = Some (length xs)" if "\<forall>c \<in> set xs. rc_node c \<noteq> og_node out" for xs
    using that by (induction xs) (simp_all add: call_of_def)
  have c: "rc_id (call_of i out) = i" "rc_tool (call_of i out) = og_tool out" "rc_args (call_of i out) = og_args out"
    "rc_origin (call_of i out) = og_origin out" "rc_path (call_of i out) = og_path out" by (simp_all add: call_of_def)
  define q2 where "q2 = q\<lparr> rq_queue := rq_queue ?Q, rq_slots := update_slot i (\<lambda>sl. sl\<lparr> sl_taken := True \<rparr>) (rq_slots q) \<rparr>"
  have poll: "take_poll q (og_node out) = (Some (call_of i out), q2)"
    using pos [OF assms(3)] by (simp add: take_poll_def q q2_def c Let_def)
  have slots: "rq_slots q = rq_slots ?Q @ [(i, ?sl)]" using fresh by (simp add: q update_fresh)
  have upd: "map_of (update_slot i f xs) i = map_option f (map_of xs i)" for f xs by (induction xs) (auto simp: update_slot_def)
  have look: "map_of (rq_slots q) i = Some ?sl" using fresh by (simp add: slots map_add_dom_app_simps dom_map_of_conv_image_fst)
  then have look2: "map_of (rq_slots q2) i = Some (?sl\<lparr> sl_taken := True \<rparr>)" by (simp add: q2_def upd)
  define q3 where "q3 = q2\<lparr> rq_slots := update_slot i (\<lambda>sl. sl\<lparr> sl_result := Some v \<rparr>) (rq_slots q2) \<rparr>"
  have accepted: "complete q2 i (og_node out) v = (True, q3)" by (simp add: complete_def look2 opt_any_def q3_def)
  have "map_of (rq_slots q3) i = Some (?sl\<lparr> sl_taken := True, sl_result := Some v \<rparr>)" by (simp add: q3_def upd look2)
  then have answer: "\<exists>q4. submit_poll q3 i late = (Some (Inr v), q4)" by (simp add: submit_poll_def)
  have "serve_once (Inr (poll_reply (Some (call_of i out)))) own post (og_node out) = (Inr True, [result_post i (og_node out) v])"
    using serve_once_call [of "call_of i out" own post] assms(4-7) by (simp add: c Let_def unwrap_or_def)
  with poll accepted answer show ?thesis by (simp add: submit_poll_def look look2 opt_any_def)
qed

section \<open>A run\<close>

definition sample_out :: Outgoing where
  "sample_out = \<lparr> og_node = ''b'', og_tool = ''power'', og_args = JObj [], og_origin = ''a/x'', og_path = [''a''] \<rparr>"

definition sample_net :: RelayNet where
  "sample_net = RelayNet_new\<lparr> rn_queue := take_note RelayQueue_new ''b'' 5 \<rparr>"

lemma sample_net_reachable: "relay_reachable sample_net"
  unfolding relay_reachable_def sample_net_def
  using rstep.poll [of RelayNet_new "''b''" 5] by (simp add: RelayNet_new_def)

definition sample_call :: RelayCall where
  "sample_call = call_of 1 sample_out"




theorem relay_round_trip_witness:
  "\<exists>q2. take_poll (snd (projr (submit_queue (rn_queue sample_net) sample_out 6))) ''b'' = (Some sample_call, q2) \<and>
     (\<exists>q4. submit_poll (snd (complete q2 1 ''b'' (JBool True))) 1 False = (Some (Inr (JBool True)), q4))"
proof -
  let ?own = "\<lambda>tool args budget origin path. Inr (JObj [(''result'', JBool True)])" and ?post = "\<lambda>_. Inr JNull"
  have sub: "submit_queue (rn_queue sample_net) sample_out 6 = Inr (1, snd (projr (submit_queue (rn_queue sample_net) sample_out 6)))"
    by (simp add: sample_net_def submit_queue_def has_poller_def take_note_def RelayQueue_new_def sample_out_def opt_any_def
        saturating_sub_i64_def POLLER_TTL_MS_def MAX_IN_FLIGHT_def)
  show ?thesis
    using relay_round_trip [OF sample_net_reachable sub, where own = ?own and post = ?post and v = "JBool True" and w = JNull and late = False]
    by (fastforce simp: sample_net_def take_note_def RelayQueue_new_def sample_out_def sample_call_def)
qed

text \<open>An answer posted for a call that was not collected is accepted, and the call stays in the queue after
  its caller went away: a later poll would run it for nobody.\<close>

lemma early_answer_leaves_the_call:
  "let q = snd (projr (submit_queue (rn_queue sample_net) sample_out 6)); (b, q) = complete q 1 ''b'' JNull; (a, q) = submit_poll q 1 False
   in b \<and> a = Some (Inr JNull) \<and> rq_slots q = [] \<and> fst (take_poll q ''b'') = Some sample_call"
  by (simp add: sample_net_def submit_queue_def has_poller_def take_note_def RelayQueue_new_def sample_out_def opt_any_def
      saturating_sub_i64_def POLLER_TTL_MS_def MAX_IN_FLIGHT_def complete_def submit_poll_def take_poll_def update_slot_def sample_call_def call_of_def)

end
