(* ===== verification/Peer_Table.thy ===== *)
theory Peer_Table
  imports Relay Store_Notes Btree_Map
begin

text \<open>
  Names of nodes and the fleet table (\<^verbatim>\<open>peers/mod.rs\<close>, \<^verbatim>\<open>peers/registry.rs\<close>): who is out there,
  how that is known and how stale it is. The table is a list of rows; \<^verbatim>\<open>LIKE\<close> ignores the case of
  letters.
\<close>

section \<open>Names\<close>

definition valid_node_name :: "string \<Rightarrow> bool" where
  "valid_node_name name \<longleftrightarrow> name \<noteq> [] \<and> str_len name \<le> 64 \<and> CHR ''/'' \<notin> set name \<and> CHR '':'' \<notin> set name \<and>
     \<not> list_ex is_ws name"

definition remote_canonical :: "string \<Rightarrow> string \<Rightarrow> string" where
  "remote_canonical node remote = ''peer:'' @ node @ ''/'' @ remote"

definition split_remote :: "string \<Rightarrow> (string \<times> string) option" where
  "split_remote canonical =
     (case strip_prefix ''peer:'' canonical of None \<Rightarrow> None
      | Some rest \<Rightarrow>
          (case split_once (CHR ''/'') rest of None \<Rightarrow> None
           | Some (node, remote) \<Rightarrow> if node = [] \<or> remote = [] then None else Some (node, remote)))"

definition remote_target :: "string \<Rightarrow> string \<Rightarrow> string" where
  "remote_target node target = node @ '':'' @ target"

definition split_remote_target :: "string \<Rightarrow> (string \<times> string) option" where
  "split_remote_target name =
     (case split_once (CHR '':'') name of None \<Rightarrow> None
      | Some (node, target) \<Rightarrow> if node = [] \<or> target = [] \<or> CHR ''/'' \<in> set node then None else Some (node, target))"

section \<open>Rows\<close>

datatype PeerSource = Beacon | Mdns | Static_peer | Push_peer

fun PeerSource_as_str :: "PeerSource \<Rightarrow> string" where
  "PeerSource_as_str Beacon = ''beacon''"
| "PeerSource_as_str Mdns = ''mdns''"
| "PeerSource_as_str Static_peer = ''static''"
| "PeerSource_as_str Push_peer = ''push''"

definition PeerSource_parse :: "string \<Rightarrow> PeerSource" where
  "PeerSource_parse s =
     (if s = ''mdns'' then Mdns else if s = ''static'' then Static_peer else if s = ''push'' then Push_peer else Beacon)"

definition never_expires :: "PeerSource \<Rightarrow> bool" where
  "never_expires s \<longleftrightarrow> s = Static_peer"

definition is_push :: "PeerSource \<Rightarrow> bool" where
  "is_push s \<longleftrightarrow> s = Push_peer"

record PeerRow =
  pr_instance_id :: string
  pr_name :: string
  pr_host :: "string option"
  pr_mcp_url :: string
  pr_dash_url :: "string option"
  pr_ser2net_host :: "string option"
  pr_version :: "string option"
  pr_source :: PeerSource
  pr_ok :: bool
  pr_last_seen :: int
  pr_last_error :: "string option"
  pr_advert_count :: int
  pr_last_poll :: "int option"

definition is_live :: "PeerRow \<Rightarrow> int \<Rightarrow> int \<Rightarrow> bool" where
  "is_live p now ttl_s \<longleftrightarrow> never_expires (pr_source p) \<or> now - pr_last_seen p \<le> ttl_s * 1000"

definition age_ms :: "PeerRow \<Rightarrow> int \<Rightarrow> int" where
  "age_ms p now = max 0 (now - pr_last_seen p)"

record Advert =
  ad_instance_id :: string
  ad_name :: string
  ad_version :: string
  ad_mcp_url :: string
  ad_dash_url :: string
  ad_ser2net_host :: string
  ad_ser2net_ports :: "int list"

type_synonym peers = "PeerRow list"

text \<open>The row an advert inserts, and what it updates in a row that is there.\<close>

definition advert_row :: "Advert \<Rightarrow> PeerSource \<Rightarrow> bool \<Rightarrow> string option \<Rightarrow> int \<Rightarrow> PeerRow" where
  "advert_row a source ok host now =
     \<lparr> pr_instance_id = ad_instance_id a, pr_name = ad_name a, pr_host = host, pr_mcp_url = ad_mcp_url a,
       pr_dash_url = Some (ad_dash_url a), pr_ser2net_host = Some (ad_ser2net_host a), pr_version = Some (ad_version a),
       pr_source = source, pr_ok = ok, pr_last_seen = now, pr_last_error = None, pr_advert_count = 1, pr_last_poll = None \<rparr>"

definition advert_update :: "Advert \<Rightarrow> PeerSource \<Rightarrow> string option \<Rightarrow> int \<Rightarrow> PeerRow \<Rightarrow> PeerRow" where
  "advert_update a source host now p =
     p\<lparr> pr_name := ad_name a, pr_host := host, pr_mcp_url := ad_mcp_url a, pr_dash_url := Some (ad_dash_url a),
        pr_ser2net_host := Some (ad_ser2net_host a), pr_version := Some (ad_version a), pr_source := source, pr_last_seen := now,
        pr_advert_count := pr_advert_count p + 1 \<rparr>"

definition upsert_row :: "string \<Rightarrow> PeerRow \<Rightarrow> (PeerRow \<Rightarrow> PeerRow) \<Rightarrow> peers \<Rightarrow> peers" where
  "upsert_row i new f ps =
     (if i \<in> pr_instance_id ` set ps then update_where (\<lambda>p. pr_instance_id p = i) f ps else ps @ [new])"

section \<open>Writing\<close>

definition upsert_advert :: "peers \<Rightarrow> Advert \<Rightarrow> PeerSource \<Rightarrow> string option \<Rightarrow> int \<Rightarrow> peers" where
  "upsert_advert ps a source host now =
     upsert_row (ad_instance_id a) (advert_row a source (\<not> is_push source) host now)
       (\<lambda>p. advert_update a (if pr_source p = Static_peer then Static_peer else source) host now p) ps"

text \<open>A stand-in for a peer that is only a configured address so far.\<close>

definition is_placeholder :: "PeerRow \<Rightarrow> bool" where
  "is_placeholder p \<longleftrightarrow> sql_like ''static:%'' (pr_instance_id p) \<or> sql_like ''static-id:%'' (pr_instance_id p)"

definition upsert_static :: "peers \<Rightarrow> string \<Rightarrow> int \<Rightarrow> peers" where
  "upsert_static ps url now =
     (if list_ex (\<lambda>p. pr_mcp_url p = url \<and> \<not> is_placeholder p) ps
      then filter (\<lambda>p. \<not> (pr_mcp_url p = url \<and> is_placeholder p)) ps
      else upsert_row (''static:'' @ url)
        \<lparr> pr_instance_id = ''static:'' @ url, pr_name = url, pr_host = None, pr_mcp_url = url, pr_dash_url = None, pr_ser2net_host = None,
          pr_version = None, pr_source = Static_peer, pr_ok = False, pr_last_seen = now, pr_last_error = None, pr_advert_count = 0,
          pr_last_poll = None \<rparr>
        (\<lambda>p. p\<lparr> pr_mcp_url := url, pr_source := Static_peer, pr_ok := False \<rparr>) ps)"

definition drop_placeholders :: "peers \<Rightarrow> string \<Rightarrow> string \<Rightarrow> peers" where
  "drop_placeholders ps url name =
     filter (\<lambda>p. \<not> (pr_instance_id p = ''static:'' @ url \<or> is_placeholder p \<and> (pr_mcp_url p = url \<or> pr_name p = name))) ps"

definition adopt_announcement :: "peers \<Rightarrow> string \<Rightarrow> string \<Rightarrow> nat \<times> peers" where
  "adopt_announcement ps url name =
     (if url = [] then (0, ps)
      else let ps' = drop_placeholders ps url name in (length ps - length ps', ps'))"

definition note_poll :: "peers \<Rightarrow> string \<Rightarrow> int \<Rightarrow> peers" where
  "note_poll ps name now = update_where (\<lambda>p. pr_name p = name) (\<lambda>p. p\<lparr> pr_last_poll := Some now \<rparr>) ps"

definition adopt_identity :: "peers \<Rightarrow> string \<Rightarrow> Advert \<Rightarrow> string option \<Rightarrow> int \<Rightarrow> peers" where
  "adopt_identity ps url a host now =
     upsert_row (ad_instance_id a) (advert_row a Static_peer True host now) (advert_update a Static_peer host now)
       (drop_placeholders ps url (ad_name a))"

definition mark_failed :: "peers \<Rightarrow> string \<Rightarrow> string \<Rightarrow> int \<Rightarrow> peers" where
  "mark_failed ps i why now =
     update_where (\<lambda>p. pr_instance_id p = i)
       (\<lambda>p. p\<lparr> pr_ok := False, pr_last_error := Some why,
               pr_last_seen := (if pr_source p = Static_peer then now else pr_last_seen p) \<rparr>) ps"

definition mark_ok :: "peers \<Rightarrow> string \<Rightarrow> int \<Rightarrow> peers" where
  "mark_ok ps i now =
     update_where (\<lambda>p. pr_instance_id p = i) (\<lambda>p. p\<lparr> pr_ok := True, pr_last_error := None, pr_last_seen := now \<rparr>) ps"

definition forget_peer :: "peers \<Rightarrow> string \<Rightarrow> peers" where
  "forget_peer ps i = filter (\<lambda>p. pr_instance_id p \<noteq> i) ps"

section \<open>Reading\<close>

definition all_peers :: "peers \<Rightarrow> PeerRow list" where
  "all_peers ps = order_by pr_name ps"

definition live_peers :: "peers \<Rightarrow> int \<Rightarrow> int \<Rightarrow> PeerRow list" where
  "live_peers ps now ttl_s = filter (\<lambda>p. is_live p now ttl_s) (all_peers ps)"

definition by_name :: "peers \<Rightarrow> string \<Rightarrow> PeerRow option res" where
  "by_name ps name =
     (let matches = filter (\<lambda>p. pr_name p = name) (all_peers ps)
      in if length matches > 1 then Inl AmbiguousPeer
         else Inr (case matches of [] \<Rightarrow> None | p # _ \<Rightarrow> Some p))"

definition name_collisions_of :: "PeerRow list \<Rightarrow> (string \<times> string list) list" where
  "name_collisions_of rows =
     filter (\<lambda>(n, ids). length ids > 1)
       (foldl (\<lambda>m p. bt_insert (pr_name p) ((case bt_get m (pr_name p) of Some ids \<Rightarrow> ids | None \<Rightarrow> []) @ [pr_instance_id p]) m) [] rows)"

definition name_collisions :: "peers \<Rightarrow> (string \<times> string list) list" where
  "name_collisions ps = name_collisions_of (all_peers ps)"

definition expire :: "peers \<Rightarrow> int \<Rightarrow> int \<Rightarrow> int \<Rightarrow> string list \<times> peers" where
  "expire ps now ttl_s grace_multiple =
     (let cutoff = now - ttl_s * 1000 * grace_multiple;
          doomed = map pr_instance_id (filter (\<lambda>p. \<not> never_expires (pr_source p) \<and> pr_last_seen p < cutoff) (all_peers ps))
      in (doomed, foldl forget_peer ps doomed))"

end
