(* ===== verification/Targets.thy ===== *)
theory Targets
  imports Registry_Laws Store_Queries Peer_Table
begin

text \<open>
  Several consoles of one board (\<^verbatim>\<open>target.rs\<close>, with \<^verbatim>\<open>topology_group\<close> of \<^verbatim>\<open>config.rs\<close>): which
  target a device belongs to, finding and renaming targets, and reading or marking all consoles of
  one. The stores of the devices are a function of their file name.
\<close>

section \<open>Targets\<close>

record Target =
  tg_name :: string
  tg_members :: "string list"

text \<open>The part of a port path that names the hub: \<^verbatim>\<open>split(..).nth(1)\<close> is the second part, if there is one.\<close>

definition second :: "'a list \<Rightarrow> 'a option" where
  "second xs = (case xs of _ # y # _ \<Rightarrow> Some y | _ \<Rightarrow> None)"

definition topology_group :: "string option \<Rightarrow> string option" where
  "topology_group by_path =
     Option.bind by_path (\<lambda>p.
     Option.bind (case second (split_str ''-usb-0:'' p) of Some a \<Rightarrow> Some a | None \<Rightarrow> second (split_str ''-usbv2-0:'' p)) (\<lambda>after.
     let chain = takeWhile (\<lambda>c. c \<noteq> CHR '':'') after
     in if chain = [] then None
        else case rsplit_once (CHR ''.'') chain of
               Some (parent, _) \<Rightarrow> if CHR ''.'' \<in> set parent then Some parent else Some chain
             | None \<Rightarrow> Some chain))"

definition target_of :: "DeviceRow \<Rightarrow> string option" where
  "target_of d = (case dv_target d of Some t \<Rightarrow> Some t | None \<Rightarrow> topology_group (dv_by_path d))"

definition targets :: "Registry \<Rightarrow> Target list" where
  "targets g =
     map (\<lambda>(n, ms). \<lparr> tg_name = n, tg_members = ms \<rparr>)
       (foldl (\<lambda>m d. case target_of d of
            Some t \<Rightarrow> bt_insert t ((case bt_get m t of Some ms \<Rightarrow> ms | None \<Rightarrow> []) @ [display_name d]) m
          | None \<Rightarrow> m) [] (all_devices g))"

definition resolve_name :: "Registry \<Rightarrow> string \<Rightarrow> string res" where
  "resolve_name g sel =
     (let names = map tg_name (targets g)
      in if sel \<in> set names then Inr sel
         else let want = squash sel
         in if want = [] then Inr sel
         else case filter (\<lambda>n. squash n = want) names of
                [n] \<Rightarrow> Inr n
              | [] \<Rightarrow> Inr sel
              | _ \<Rightarrow> Inl AmbiguousDevice)"

definition members :: "Registry \<Rightarrow> string \<Rightarrow> DeviceRow list res" where
  "members g target =
     and_then (resolve_name g target) (\<lambda>t.
       let out = filter (\<lambda>d. target_of d = Some t) (all_devices g)
       in if out = [] then Inl UnknownDevice else Inr (order_by dv_canonical out))"

text \<open>The checks on a new name are on the trimmed name; what is stored is the name as given.\<close>

definition rename_check :: "Registry \<Rightarrow> string \<Rightarrow> string \<Rightarrow> unit res" where
  "rename_check g target name =
     (let n = trim name
      in if n = [] then Inl InvalidArgument
         else if CHR ''/'' \<in> set n \<or> starts_with ''peer:'' n then Inl InvalidArgument
         else case members g n of
                Inr existing \<Rightarrow> if list_ex (\<lambda>d. target_of d \<noteq> Some target) existing then Inl InvalidArgument else Inr ()
              | Inl _ \<Rightarrow> Inr ())"

definition rename :: "Registry \<Rightarrow> string \<Rightarrow> string option \<Rightarrow> string list res \<times> Registry" where
  "rename g target name =
     (case (case name of Some n \<Rightarrow> rename_check g target n | None \<Rightarrow> Inr ()) of
        Inl e \<Rightarrow> (Inl e, g)
      | Inr _ \<Rightarrow>
          (case members g target of
             Inl e \<Rightarrow> (Inl e, g)
           | Inr ds \<Rightarrow> (Inr (map display_name ds), foldl (\<lambda>g d. set_target g (dv_id d) name) g ds)))"

definition console_members :: "Registry \<Rightarrow> string \<Rightarrow> (DeviceRow list \<times> string list) res" where
  "console_members g target =
     and_then (members g target) (\<lambda>ds.
       let consoles = filter (\<lambda>d. \<not> dv_ignored d) ds; left_out = filter dv_ignored ds
       in if consoles = [] then Inl UnknownDevice else Inr (consoles, map display_name left_out))"

section \<open>All consoles of a target\<close>

record TargetLine =
  tl_device :: string
  tl_line_id :: int
  tl_ts_wall :: int
  tl_boot_id :: "int option"
  tl_text :: string

definition target_line :: "(byte list \<Rightarrow> string) \<Rightarrow> DeviceRow \<Rightarrow> LineRow \<Rightarrow> TargetLine" where
  "target_line lossy d l = \<lparr> tl_device = display_name d, tl_line_id = lr_id l, tl_ts_wall = lr_ts_wall l, tl_boot_id = lr_boot_id l,
     tl_text = LineRow_lossy lossy l \<rparr>"

definition interleave ::
    "(byte list \<Rightarrow> string) \<Rightarrow> Registry \<Rightarrow> (string \<Rightarrow> DeviceStore) \<Rightarrow> string \<Rightarrow> int \<Rightarrow> int \<Rightarrow> nat \<Rightarrow> TargetLine list res" where
  "interleave lossy g stores target around_ts window_ms per_device_cap =
     and_then (members g target) (\<lambda>ds.
       let merged = concat (map (\<lambda>d. map (target_line lossy d)
              (lines_between (stores (dv_db_file d)) (around_ts - window_ms) (around_ts + window_ms) per_device_cap)) ds)
       in Inr (order_by tl_ts_wall (order_by tl_device (order_by tl_line_id merged))))"

record Opened =
  op_device :: string
  op_boot_id :: int
  op_boot_seq :: int
  op_cursor :: string

text \<open>A store that refuses ends the loop; the epochs opened before stay.\<close>

fun open_each :: "string \<Rightarrow> string option \<Rightarrow> int \<Rightarrow> DeviceRow list \<Rightarrow> (string \<Rightarrow> DeviceStore) \<Rightarrow> Opened list res \<times> (string \<Rightarrow> DeviceStore)" where
  "open_each opened_by label now [] stores = (Inr [], stores)"
| "open_each opened_by label now (d # ds) stores =
     (let s = stores (dv_db_file d); session = map_option se_id (latest_session s)
      in case open_boot s opened_by label now session of
           (Inl e, s) \<Rightarrow> (Inl e, stores(dv_db_file d := s))
         | (Inr b, s) \<Rightarrow>
             let stores = stores(dv_db_file d := s);
                 o1 = \<lparr> op_device = display_name d, op_boot_id = ep_id b, op_boot_seq = ep_seq b, op_cursor = Cursor_encode (head_cursor s) \<rparr>
             in case open_each opened_by label now ds stores of
                  (Inl e, stores) \<Rightarrow> (Inl e, stores)
                | (Inr os, stores) \<Rightarrow> (Inr (o1 # os), stores))"

definition open_epoch_on_all ::
    "Registry \<Rightarrow> (string \<Rightarrow> DeviceStore) \<Rightarrow> string \<Rightarrow> string \<Rightarrow> string option \<Rightarrow> int \<Rightarrow> (Opened list \<times> string list) res \<times> (string \<Rightarrow> DeviceStore)" where
  "open_epoch_on_all g stores target opened_by label now =
     (case console_members g target of
        Inl e \<Rightarrow> (Inl e, stores)
      | Inr (consoles, left_out) \<Rightarrow>
          (case open_each opened_by label now consoles stores of
             (Inl e, stores) \<Rightarrow> (Inl e, stores)
           | (Inr opened, stores) \<Rightarrow> (Inr (opened, left_out), stores)))"

section \<open>Renaming\<close>

lemma attached_ids: "map dv_id (all_devices g) = map dv_id (order_by dv_id (rg_devices g))"
proof -
  have "dv_id (foldl (\<lambda>d (i, k, v). if i = dv_id d then d\<lparr> dv_tags := bt_insert k v (dv_tags d) \<rparr> else d) d ts) = dv_id d"
    for d :: DeviceRow and ts :: "(int \<times> string \<times> string) list"
    by (induction ts arbitrary: d) auto
  then show ?thesis by (simp add: all_devices_def attach_tags_def map_device_def)
qed

lemma all_ids_distinct:
  assumes "registry_ok g"
  shows "distinct (map dv_id (all_devices g))"
proof -
  have "distinct (map dv_id (rg_devices g))" using assms ids_distinct by (simp add: registry_ok_def)
  then show ?thesis unfolding attached_ids by (simp add: order_by_def distinct_map)
qed

text \<open>The rows after a change of the target of some devices.\<close>

definition retarget :: "int set \<Rightarrow> string option \<Rightarrow> DeviceRow \<Rightarrow> DeviceRow" where
  "retarget I t d = (if dv_id d \<in> I then d\<lparr> dv_target := t \<rparr> else d)"

lemma retarget_fields [simp]:
  "dv_id (retarget I t d) = dv_id d" "dv_canonical (retarget I t d) = dv_canonical d"
  by (simp_all add: retarget_def)

lemma sort_key_map_same: "(\<And>x. f (U x) = f x) \<Longrightarrow> sort_key f (map U xs) = map U (sort_key f xs)"
proof (induction xs)
  case (Cons x xs)
  have "insort_key f (U x) (map U ys) = map U (insort_key f x ys)" for ys using Cons.prems by (induction ys) auto
  with Cons show ?case by simp
qed simp

lemma all_devices_retarget:
  assumes "rg_devices g' = map (retarget I t) (rg_devices g)" and "rg_tags g' = rg_tags g"
  shows "all_devices g' = map (retarget I t) (all_devices g)"
proof -
  let ?step = "\<lambda>d (i, k, v). if i = dv_id d then d\<lparr> dv_tags := bt_insert k v (dv_tags d) \<rparr> else d"
  have step: "foldl ?step (retarget I t d) ts = retarget I t (foldl ?step d ts)" for d :: DeviceRow and ts :: "(int \<times> string \<times> string) list"
  proof (induction ts arbitrary: d)
    case (Cons x ts)
    obtain i k v where x: "x = (i, k, v)" by (rule prod_cases3)
    have "?step (retarget I t d) x = retarget I t (?step d x)" by (simp add: x retarget_def)
    with Cons show ?case by simp
  qed simp
  have dev: "map_device (retarget I t d) = retarget I t (map_device d)" for d by (simp add: map_device_def retarget_def)
  have sorted: "order_by dv_id (map (retarget I t) ds) = map (retarget I t) (order_by dv_id ds)" for ds
    unfolding order_by_def by (rule sort_key_map_same) simp
  show ?thesis
    by (simp add: all_devices_def attach_tags_def assms sorted dev comp_def step)
qed

lemma fold_set_target:
  "rg_devices (foldl (\<lambda>g d. set_target g (dv_id d) t) g ds) = map (retarget (dv_id ` set ds) t) (rg_devices g) \<and>
   rg_tags (foldl (\<lambda>g d. set_target g (dv_id d) t) g ds) = rg_tags g"
proof (induction ds arbitrary: g)
  case Nil
  then show ?case by (simp add: retarget_def)
next
  case (Cons d ds)
  have "retarget (dv_id ` set ds) t (if dv_id x = dv_id d then x\<lparr> dv_target := t \<rparr> else x) = retarget (dv_id ` set (d # ds)) t x" for x
    by (auto simp: retarget_def)
  with Cons [of "set_target g (dv_id d) t"] show ?case by (simp add: set_target_def update_where_def comp_def)
qed

text \<open>The names of the targets.\<close>

lemma target_keys:
  "set (bt_keys (foldl (\<lambda>m d. case target_of d of Some t \<Rightarrow> bt_insert t ((case bt_get m t of Some ms \<Rightarrow> ms | None \<Rightarrow> []) @ [display_name d]) m
      | None \<Rightarrow> m) m ds)) = set (bt_keys m) \<union> {t. \<exists>d \<in> set ds. target_of d = Some t}"
  for m :: "(string, string list) btree"
  by (induction ds arbitrary: m) (auto split: option.split)

lemma target_names: "t \<in> set (map tg_name (targets g)) \<longleftrightarrow> (\<exists>d \<in> set (all_devices g). target_of d = Some t)"
  using target_keys [of "[]" "all_devices g"] by (auto simp: targets_def split_def bt_keys_def)

text \<open>A name some device has means just that target.\<close>

lemma members_exact:
  assumes "d \<in> set (all_devices g)" and "target_of d = Some t"
  shows "members g t = Inr (order_by dv_canonical (filter (\<lambda>d. target_of d = Some t) (all_devices g)))"
proof -
  have "t \<in> set (map tg_name (targets g))" using target_names assms by blast
  then have "resolve_name g t = Inr t" by (simp add: resolve_name_def)
  moreover have "filter (\<lambda>d. target_of d = Some t) (all_devices g) \<noteq> []" using assms by (auto simp: filter_empty_conv)
  ultimately show ?thesis by (simp add: members_def Let_def)
qed

lemma members_of:
  assumes "members g t = Inr ds"
  shows "\<exists>t0. resolve_name g t = Inr t0 \<and> ds = order_by dv_canonical (filter (\<lambda>d. target_of d = Some t0) (all_devices g)) \<and> ds \<noteq> []"
proof -
  have "order_by dv_canonical xs = [] \<longleftrightarrow> xs = []" for xs by (metis length_0_conv length_sort order_by_def)
  then show ?thesis using assms by (auto simp: members_def Let_def split: if_splits)
qed

text \<open>C34. Naming a target does not change who belongs to it: after a rename that was accepted, the new name
  means exactly the devices the old selector meant, in the same order, and every other device is in
  the target it was in.\<close>

theorem renaming_keeps_membership:
  assumes "registry_ok g" and "rename g t (Some n) = (Inr names, g')" and "trim n = n"
  shows "\<exists>ds ds'. members g t = Inr ds \<and> names = map display_name ds \<and> members g' n = Inr ds' \<and> map dv_id ds' = map dv_id ds \<and>
    (\<forall>d \<in> set (all_devices g). dv_id d \<notin> dv_id ` set ds \<longrightarrow> d \<in> set (all_devices g') \<and> target_of d \<noteq> Some n)"
proof -
  obtain ds where ds: "members g t = Inr ds" "names = map display_name ds" "g' = foldl (\<lambda>g d. set_target g (dv_id d) (Some n)) g ds"
    and check: "rename_check g t n = Inr ()"
    using assms(2) by (auto simp: rename_def split: sum.splits)
  obtain t0 where t0: "resolve_name g t = Inr t0" "ds = order_by dv_canonical (filter (\<lambda>d. target_of d = Some t0) (all_devices g))" "ds \<noteq> []"
    using members_of [OF ds(1)] by blast
  let ?I = "dv_id ` set ds" and ?A = "all_devices g"
  have all: "all_devices g' = map (retarget ?I (Some n)) ?A"
    by (rule all_devices_retarget) (use fold_set_target [of "Some n" g ds] ds(3) in simp_all)
  have other: "target_of d \<noteq> Some n" if d: "d \<in> set ?A" "dv_id d \<notin> ?I" for d
  proof
    assume n: "target_of d = Some n"
    have "members g n = Inr (order_by dv_canonical (filter (\<lambda>d. target_of d = Some n) ?A))" by (rule members_exact [OF d(1) n])
    then have "\<not> list_ex (\<lambda>d. target_of d \<noteq> Some t) (order_by dv_canonical (filter (\<lambda>d. target_of d = Some n) ?A))"
      using check assms(3) by (simp add: rename_check_def Let_def split: if_splits)
    then have "t = n" using d(1) n by (auto simp: list_ex_iff order_by_def)
    with n have "t0 = n" using target_names [of t g] d(1) t0(1) by (auto simp: resolve_name_def split: if_splits)
    with d n show False by (simp add: t0(2) order_by_def)
  qed
  have mine: "target_of (retarget ?I (Some n) d) = Some n \<longleftrightarrow> dv_id d \<in> ?I" if "d \<in> set ?A" for d
    using other [OF that] by (auto simp: retarget_def target_of_def)
  have ids: "dv_id d \<in> ?I \<longleftrightarrow> target_of d = Some t0" if d: "d \<in> set ?A" for d
  proof
    assume "dv_id d \<in> ?I"
    then obtain e where "e \<in> set ?A" "target_of e = Some t0" "dv_id d = dv_id e" by (auto simp: t0(2) order_by_def)
    with d all_ids_distinct [OF assms(1)] have "d = e" by (auto simp: distinct_map inj_on_def)
    with \<open>target_of e = Some t0\<close> show "target_of d = Some t0" by simp
  qed (use d in \<open>simp add: t0(2) order_by_def\<close>)
  have "filter (\<lambda>d. target_of d = Some n) (all_devices g') = map (retarget ?I (Some n)) (filter (\<lambda>d. target_of d = Some t0) ?A)"
    using mine ids by (simp add: all filter_map comp_def cong: filter_cong)
  then have new: "order_by dv_canonical (filter (\<lambda>d. target_of d = Some n) (all_devices g')) = map (retarget ?I (Some n)) ds"
    unfolding t0(2) order_by_def by (simp add: sort_key_map_same)
  obtain d where d: "d \<in> set ds" using t0(3) by (cases ds) auto
  then have dA: "d \<in> set ?A" by (simp add: t0(2) order_by_def)
  then have "retarget ?I (Some n) d \<in> set (all_devices g')" "target_of (retarget ?I (Some n) d) = Some n"
    using mine [OF dA] d by (simp_all add: all)
  from members_exact [OF this] new have "members g' n = Inr (map (retarget ?I (Some n)) ds)" by simp
  moreover have "d \<in> set (all_devices g')" if "d \<in> set ?A" "dv_id d \<notin> ?I" for d
    unfolding all using that by (auto simp: retarget_def image_iff intro: bexI [of _ d])
  ultimately show ?thesis using ds(1,2) other by (intro exI [of _ ds] exI [of _ "map (retarget ?I (Some n)) ds"]) (simp add: comp_def)
qed

section \<open>A board with two consoles\<close>

definition sample_rig :: Registry where
  "sample_rig = Registry_empty\<lparr> rg_devices :=
     [device_of 1 ''/dev/ttyUSB1'' (Some ''pci-usb-0:2.1.3:1.0'') ById None 5 ''a.db'',
      device_of 2 ''/dev/ttyUSB0'' (Some ''pci-usb-0:2.1.4:1.0'') ById None 5 ''b.db'',
      device_of 3 ''/dev/ttyUSB2'' (Some ''pci-usb-0:2.2.1:1.0'') ById None 5 ''c.db''] \<rparr>"

lemma sample_rig_ok: "registry_ok sample_rig"
  by (simp add: registry_ok_def devices_ok_def sample_rig_def Registry_empty_def device_of_def nicknames_def ports_def)

lemma sample_rows: "all_devices sample_rig = rg_devices sample_rig"
  by (simp add: all_devices_def attach_tags_def order_by_def sample_rig_def Registry_empty_def device_of_def map_device_def)

lemma sample_targets:
  "map target_of (rg_devices sample_rig) = [Some ''2.1'', Some ''2.1'', Some ''2.2'']"
proof -
  have "topology_group (Some ''pci-usb-0:2.1.3:1.0'') = Some ''2.1''" "topology_group (Some ''pci-usb-0:2.1.4:1.0'') = Some ''2.1''"
    "topology_group (Some ''pci-usb-0:2.2.1:1.0'') = Some ''2.2''" by code_simp+
  then show ?thesis by (simp add: sample_rig_def Registry_empty_def device_of_def target_of_def)
qed

lemma sample_names: "map tg_name (targets sample_rig) = [''2.1'', ''2.2'']"
proof -
  have "(''2.1'' :: string) < ''2.2''" by code_simp
  with sample_targets show ?thesis
    by (simp add: targets_def sample_rows) (simp add: sample_rig_def Registry_empty_def)
qed

lemma sample_members: "members sample_rig ''2.1'' = Inr (rev (take 2 (rg_devices sample_rig)))"
proof -
  obtain a b c where rows: "rg_devices sample_rig = [a, b, c]" "dv_canonical a = ''/dev/ttyUSB1''" "dv_canonical b = ''/dev/ttyUSB0''"
    by (simp add: sample_rig_def Registry_empty_def device_of_def)
  have "\<not> (''/dev/ttyUSB1'' :: string) \<le> ''/dev/ttyUSB0''" by code_simp
  with rows sample_targets members_exact [of a sample_rig "''2.1''"] show ?thesis
    by (simp add: sample_rows order_by_def)
qed

lemma sample_rename_ok: "rename_check sample_rig ''2.1'' n = Inr ()" if "n \<in> {''bench'', '' bench'', ''alpha:x''}"
proof -
  have words: "trim ''bench'' = ''bench''" "trim '' bench'' = ''bench''" "trim ''alpha:x'' = ''alpha:x''"
    "\<not> starts_with ''peer:'' ''bench''" "\<not> starts_with ''peer:'' ''alpha:x''"
    "squash ''bench'' = ''bench''" "squash ''alpha:x'' = ''alphax''" "squash ''2.1'' = ''21''" "squash ''2.2'' = ''22''" by code_simp+
  have "resolve_name sample_rig ''bench'' = Inr ''bench''" "resolve_name sample_rig ''alpha:x'' = Inr ''alpha:x''"
    by (simp_all add: resolve_name_def sample_names words)
  moreover have "target_of d \<in> {Some ''2.1'', Some ''2.2''}" if "d \<in> set (rg_devices sample_rig)" for d
    using that sample_targets by (metis (no_types, lifting) insert_iff list.set_map imageI list.simps(15) set_ConsD empty_iff empty_set)
  ultimately have "members sample_rig ''bench'' = Inl UnknownDevice" "members sample_rig ''alpha:x'' = Inl UnknownDevice"
    by (fastforce simp: members_def sample_rows filter_empty_conv)+
  with that show ?thesis by (auto simp: rename_check_def words)
qed

theorem renaming_keeps_membership_witness:
  "\<exists>g' ds'. rename sample_rig ''2.1'' (Some ''bench'') = (Inr [''/dev/ttyUSB0'', ''/dev/ttyUSB1''], g') \<and>
     members g' ''bench'' = Inr ds' \<and> map dv_id ds' = [2, 1]"
proof -
  have ids: "map dv_id (rev (take 2 (rg_devices sample_rig))) = [2, 1]"
    and names: "map display_name (rev (take 2 (rg_devices sample_rig))) = [''/dev/ttyUSB0'', ''/dev/ttyUSB1'']"
    by (simp_all add: sample_rig_def Registry_empty_def device_of_def display_name_def)
  obtain g' where rename: "rename sample_rig ''2.1'' (Some ''bench'') = (Inr [''/dev/ttyUSB0'', ''/dev/ttyUSB1''], g')"
    using names by (simp add: rename_def sample_rename_ok sample_members)
  have "trim ''bench'' = ''bench''" by code_simp
  from renaming_keeps_membership [OF sample_rig_ok rename this] rename sample_members ids show ?thesis by auto
qed

text \<open>The checks trim the name and the store does not: the stored name still has its blanks.\<close>

lemma rename_stores_blanks:
  "\<exists>g'. rename sample_rig ''2.1'' (Some '' bench'') = (Inr [''/dev/ttyUSB0'', ''/dev/ttyUSB1''], g') \<and>
     map dv_target (rg_devices g') = [Some '' bench'', Some '' bench'', None]"
  by (simp add: rename_def sample_rename_ok sample_members)
    (simp add: sample_rig_def Registry_empty_def device_of_def display_name_def set_target_def update_where_def)

text \<open>A name of the shape of another node's target is accepted for one of this node.\<close>

lemma rename_takes_remote_shape:
  "rename_check sample_rig ''2.1'' (remote_target ''alpha'' ''x'') = Inr ()" "split_remote_target (remote_target ''alpha'' ''x'') = Some (''alpha'', ''x'')"
  by (simp add: remote_target_def sample_rename_ok) code_simp

end
