(* ===== verification/Route.thy ===== *)
theory Route
  imports Peer_Table Targets
begin

text \<open>
  Where a tool call runs (\<^verbatim>\<open>route.rs\<close> of \<^verbatim>\<open>conminer-mcp\<close>, with the call path of \<^verbatim>\<open>tools.rs\<close>): here, on
  a node that can be dialled, or over the reverse channel. What the router reads of the server
  state is a record; running the tool, the HTTP client and the wait of the rendezvous are
  parameters.
\<close>

section \<open>The view of a node\<close>

record NodeCtx =
  nc_name :: string
  nc_holder :: string
  nc_origin :: string
  nc_path :: "string list"
  nc_registry :: Registry
  nc_peers :: peers
  nc_relay :: RelayQueue
  nc_now :: int

definition holder :: "NodeCtx \<Rightarrow> string" where
  "holder v = (if nc_origin v \<noteq> [] then nc_origin v else nc_holder v)"

definition set_call_path :: "NodeCtx \<Rightarrow> string \<Rightarrow> NodeCtx" where
  "set_call_path v path = v\<lparr> nc_path := filter (\<lambda>p. p \<noteq> []) (map trim (split_on (CHR '','') path)) \<rparr>"

definition SELECTORS :: "string list" where "SELECTORS = [''device'', ''target'']"

definition NEVER_FEDERATED :: "string list" where
  "NEVER_FEDERATED = [''ingest_file'', ''peers'', ''list_profiles'', ''peer_announce'', ''peer_poll'', ''peer_result'']"

datatype CallRoute = Local | Remote string string json_map | Reverse string json_map

record Hop =
  hp_node :: string
  hp_url :: "string option"
  hp_selector :: "string option"

section \<open>The owner of what a selector names\<close>

definition known_node :: "NodeCtx \<Rightarrow> string \<Rightarrow> bool res" where
  "known_node v node = and_then (by_name (nc_peers v) node) (\<lambda>p. Inr (p \<noteq> None))"

text \<open>The explicit forms \<^verbatim>\<open>node/selector\<close> and, for a target, \<^verbatim>\<open>node:target\<close>.\<close>

definition scoped_selector :: "NodeCtx \<Rightarrow> string \<Rightarrow> (string \<times> string) option res" where
  "scoped_selector v selector =
     (case split_once (CHR ''/'') selector of
        Some (node, rest) \<Rightarrow>
          if node \<noteq> [] \<and> rest \<noteq> [] \<and> \<not> starts_with ''/'' selector
          then and_then (known_node v node) (\<lambda>k. Inr (if k then Some (node, rest) else None))
          else Inr None
      | None \<Rightarrow> Inr None)"

definition scoped_target :: "NodeCtx \<Rightarrow> string \<Rightarrow> string \<Rightarrow> (string \<times> string) option res" where
  "scoped_target v key selector =
     (if key = ''target'' then
        (case split_remote_target selector of
           Some (node, target) \<Rightarrow> and_then (known_node v node) (\<lambda>k. Inr (if k then Some (node, target) else None))
         | None \<Rightarrow> Inr None)
      else Inr None)"

definition selected_rows :: "NodeCtx \<Rightarrow> string \<Rightarrow> string \<Rightarrow> DeviceRow list" where
  "selected_rows v key selector =
     (case (if key = ''target'' then members (nc_registry v) selector else resolve_all (nc_registry v) selector) of
        Inr rows \<Rightarrow> rows | Inl _ \<Rightarrow> [])"

definition remote_selector :: "string \<Rightarrow> string \<Rightarrow> DeviceRow \<Rightarrow> string" where
  "remote_selector key selector row =
     (if key = ''target'' then (case split_remote_target selector of Some (_, t) \<Rightarrow> t | None \<Rightarrow> selector)
      else case dv_remote_canonical row of Some c \<Rightarrow> c
      | None \<Rightarrow> (case split_remote (dv_canonical row) of Some (_, c) \<Rightarrow> c | None \<Rightarrow> dv_canonical row))"

definition owner_of_rows :: "string \<Rightarrow> string \<Rightarrow> DeviceRow list \<Rightarrow> (string \<times> string) option res" where
  "owner_of_rows key selector rows =
     (let remote = filter (\<lambda>r. dv_kind r = Remote_device) rows
      in if remote = [] then Inr None
         else if length remote < length rows then Inl AmbiguousDevice
         else if length remote > 1 \<and> length (remdups (List.map_filter dv_node remote)) > 1 then Inl AmbiguousDevice
         else Inr (Some (unwrap_or [] (dv_node (hd remote)), remote_selector key selector (hd remote))))"

definition owner_of :: "NodeCtx \<Rightarrow> string \<Rightarrow> string \<Rightarrow> (string \<times> string) option res" where
  "owner_of v key selector =
     and_then (scoped_selector v selector) (\<lambda>found. case found of Some x \<Rightarrow> Inr (Some x) | None \<Rightarrow>
     and_then (scoped_target v key selector) (\<lambda>found. case found of Some x \<Rightarrow> Inr (Some x) | None \<Rightarrow>
     owner_of_rows key selector (selected_rows v key selector)))"

section \<open>The next hop\<close>

definition dial :: "NodeCtx \<Rightarrow> PeerRow \<Rightarrow> string option \<Rightarrow> Hop res" where
  "dial v p selector =
     (if \<not> pr_ok p \<and> has_poller (nc_relay v) (pr_name p) (nc_now v)
      then Inr \<lparr> hp_node = pr_name p, hp_url = None, hp_selector = selector \<rparr>
      else if pr_mcp_url p = [] then Inl UnknownPeer
      else if \<not> pr_ok p \<and> is_push (pr_source p) then Inl UnknownPeer
      else Inr \<lparr> hp_node = pr_name p, hp_url = Some (pr_mcp_url p), hp_selector = selector \<rparr>)"

definition next_hop :: "NodeCtx \<Rightarrow> string \<Rightarrow> string \<Rightarrow> string \<Rightarrow> Hop res" where
  "next_hop v owner key selector =
     and_then (by_name (nc_peers v) owner) (\<lambda>direct.
       case direct of Some p \<Rightarrow> dial v p None
       | None \<Rightarrow>
           let own = filter (\<lambda>r. dv_node r = Some owner) (selected_rows v key selector)
           in case List.map_filter dv_via own of
                [] \<Rightarrow> Inl UnknownPeer
              | via # _ \<Rightarrow>
                  and_then (by_name (nc_peers v) via) (\<lambda>relay1.
                    case relay1 of None \<Rightarrow> Inl UnknownPeer
                    | Some p \<Rightarrow>
                        let inner = (case own of r # _ \<Rightarrow> unwrap_or selector (dv_remote_canonical r) | [] \<Rightarrow> selector)
                        in dial v p (Some (owner @ ''/'' @ inner))))"

text \<open>The loop over the selectors: the first one that names something of another node decides.\<close>

fun plan_keys :: "NodeCtx \<Rightarrow> json_map \<Rightarrow> string list \<Rightarrow> CallRoute res" where
  "plan_keys v args [] = Inr Local"
| "plan_keys v args (key # keys) =
     (case as_str (jget (JObj args) key) of
        None \<Rightarrow> plan_keys v args keys
      | Some sel \<Rightarrow>
          and_then (owner_of v key sel) (\<lambda>found.
            case found of None \<Rightarrow> plan_keys v args keys
            | Some (node, remote_sel) \<Rightarrow>
                and_then (next_hop v node key sel) (\<lambda>hop.
                  let out = jm_insert key (JStr (unwrap_or remote_sel (hp_selector hop))) args
                  in Inr (case hp_url hop of Some url \<Rightarrow> Remote (hp_node hop) url out | None \<Rightarrow> Reverse (hp_node hop) out))))"

definition plan :: "NodeCtx \<Rightarrow> string \<Rightarrow> json_map \<Rightarrow> CallRoute res" where
  "plan v tool args = (if tool \<in> set NEVER_FEDERATED then Inr Local else plan_keys v args SELECTORS)"

section \<open>Forwarding\<close>

definition call_budget :: "string \<Rightarrow> json_map \<Rightarrow> nat" where
  "call_budget tool args = max (asked_budget 15 (JObj args)) (budget_floor 30 tool)"

text \<open>The loop check and the path that travels with the call.\<close>

definition next_path :: "NodeCtx \<Rightarrow> string \<Rightarrow> string list res" where
  "next_path v node = (if node \<in> set (nc_path v) then Inl Internal else Inr (nc_path v @ [nc_name v]))"

definition parse_code :: "string \<Rightarrow> ErrorCode" where
  "parse_code code =
     (case map_of
        [(''UNKNOWN_DEVICE'', UnknownDevice),
         (''AMBIGUOUS_DEVICE'', AmbiguousDevice),
         (''DEVICE_GONE'', DeviceGone),
         (''LEASE_REQUIRED'', LeaseRequired),
         (''LEASE_HELD'', LeaseHeld),
         (''INVALID_ARGUMENT'', InvalidArgument),
         (''HOOK_FAILED'', HookFailed),
         (''HOOK_TIMEOUT'', HookTimeout),
         (''ACTUATION_IN_FLIGHT'', ActuationInFlight),
         (''AWAY_IN_EDL'', AwayInEdl),
         (''NORMAL_BOOT_ABORTED'', NormalBootAborted)] code of
        Some c \<Rightarrow> c | None \<Rightarrow> Internal)"

text \<open>The answer of the owner; the text, the hint and the details of an error are left out.\<close>

definition unwrap_reply :: "string \<Rightarrow> json \<Rightarrow> nat \<Rightarrow> json res" where
  "unwrap_reply node result rtt =
     (if jget result ''isError'' = Some (JBool True)
      then let detail = unwrap_or JNull (Option.bind (jget result ''structuredContent'') (\<lambda>c. jget c ''error''))
           in Inl (parse_code (unwrap_or ''INTERNAL'' (as_str (jget detail ''code''))))
      else Inr (case unwrap_or JNull (jget result ''structuredContent'') of
                  JObj o1 \<Rightarrow> JObj (jm_insert ''via'' (JObj [(''node'', JStr node), (''rtt_ms'', JInt (int rtt))]) o1)
                | content1 \<Rightarrow> content1))"

definition forward ::
    "NodeCtx \<Rightarrow> (string \<Rightarrow> string \<Rightarrow> json \<Rightarrow> nat \<Rightarrow> string \<Rightarrow> string \<Rightarrow> (json \<times> nat) res) \<Rightarrow> string \<Rightarrow> string \<Rightarrow> string \<Rightarrow> json_map \<Rightarrow> json res" where
  "forward v call_tool_via tool node url args =
     and_then (next_path v node) (\<lambda>hops.
     and_then (call_tool_via url tool (JObj args) (call_budget tool args) (nc_name v @ ''/'' @ holder v) (join_with '','' hops)) (\<lambda>(reply, rtt).
     unwrap_reply node (unwrap_or reply (jget reply ''result'')) rtt))"

definition relay ::
    "NodeCtx \<Rightarrow> (Outgoing \<Rightarrow> nat \<Rightarrow> int \<Rightarrow> RelayError + json \<times> nat) \<Rightarrow> string \<Rightarrow> string \<Rightarrow> json_map \<Rightarrow> json res" where
  "relay v submit tool node args =
     and_then (next_path v node) (\<lambda>hops.
       case submit \<lparr> og_node = node, og_tool = tool, og_args = JObj args, og_origin = nc_name v @ ''/'' @ holder v, og_path = hops \<rparr>
              (call_budget tool args) (nc_now v) of
         Inl e \<Rightarrow> Inl (RelayError_code e)
       | Inr (result, elapsed) \<Rightarrow> unwrap_reply node result elapsed)"

definition route_or_call ::
    "NodeCtx \<Rightarrow> (string \<Rightarrow> json_map \<Rightarrow> json res) \<Rightarrow> (string \<Rightarrow> string \<Rightarrow> json \<Rightarrow> nat \<Rightarrow> string \<Rightarrow> string \<Rightarrow> (json \<times> nat) res) \<Rightarrow>
     (Outgoing \<Rightarrow> nat \<Rightarrow> int \<Rightarrow> RelayError + json \<times> nat) \<Rightarrow> string \<Rightarrow> json_map \<Rightarrow> json res" where
  "route_or_call v own call_tool_via submit tool args =
     and_then (plan v tool args) (\<lambda>r.
       case r of Local \<Rightarrow> own tool args
       | Remote node url out \<Rightarrow> forward v call_tool_via tool node url out
       | Reverse node out \<Rightarrow> relay v submit tool node out)"

end
