(* ===== verification/Peer_Inventory.thy ===== *)
theory Peer_Inventory
  imports Peer_Table Registry_Laws
begin

text \<open>
  Turning the device list of a peer into rows of this node's registry (\<^verbatim>\<open>peers/inventory.rs\<close>):
  what is taken over from an announced list, how rows that are no longer listed fade, and the
  round over all peers. The call to a peer is an argument; the message of a failed call is its
  error code. The fleet table stands beside the registry.
\<close>

section \<open>What is taken over\<close>

definition GRACE_MS :: int where "GRACE_MS = 10 * 60 * 1000"

definition MAX_HOPS :: nat where "MAX_HOPS = 3"

text \<open>A listed device that passes the guards: its owner, what the owner calls it, whether it came through
  a relay, how far it is and the console the owner serves.\<close>

record Offer =
  of_owner :: string
  of_owner_id :: string
  of_relayed :: bool
  of_hops :: nat
  of_endpoint :: string

definition as_bool :: "json option \<Rightarrow> bool option" where
  "as_bool v = (case v of Some (JBool b) \<Rightarrow> Some b | _ \<Rightarrow> None)"

definition offer_of :: "PeerRow \<Rightarrow> string \<Rightarrow> json \<Rightarrow> Offer option" where
  "offer_of peer this_node d =
     (case as_str (jget d ''device'') of None \<Rightarrow> None
      | Some remote_id \<Rightarrow>
          let (owner, owner_id, relayed) = (case split_remote remote_id of
                Some (owner, inner) \<Rightarrow> (owner, inner, True)
              | None \<Rightarrow> (pr_name peer, remote_id, False))
          in if owner = this_node then None
             else if \<not> valid_node_name owner then None
             else let hops = min (min (unwrap_or 0 (as_u64 (jget d ''hops'')) + 1) (2 ^ 64 - 1)) 255
             in if relayed \<and> hops > MAX_HOPS then None
             else if DeviceKind_of owner_id \<noteq> Local_device then None
             else let endpoint = str_or_empty (jget d ''endpoint'')
             in if endpoint = [] \<or> as_bool (jget d ''ignored'') = Some True then None
             else Some \<lparr> of_owner = owner, of_owner_id = owner_id, of_relayed = relayed, of_hops = hops, of_endpoint = endpoint \<rparr>)"

definition endpoint_port :: "string \<Rightarrow> int option" where
  "endpoint_port endpoint =
     map_option int (from_str_radix (2 ^ 16) 10 (case rsplit_once (CHR '':'') endpoint of Some (_, p) \<Rightarrow> p | None \<Rightarrow> endpoint))"

section \<open>Importing\<close>

record Import =
  im_reg :: Registry
  im_added :: nat
  im_updated :: nat
  im_seen :: "string list"

text \<open>A device that is already known over a shorter path stays as it is.\<close>

definition nearer :: "Registry \<Rightarrow> string \<Rightarrow> nat \<Rightarrow> bool" where
  "nearer g canonical hops \<longleftrightarrow> opt_any (\<lambda>d. dv_hops d < int hops \<and> dv_state d \<noteq> ''gone'') (device_by_canonical g canonical)"

definition import_row :: "(string \<Rightarrow> byte list) \<Rightarrow> PeerRow \<Rightarrow> int \<Rightarrow> int \<Rightarrow> json \<Rightarrow> Offer \<Rightarrow> Registry \<Rightarrow> unit res \<times> Registry" where
  "import_row sha256 peer base_port now d f g =
     (case upsert_device sha256 g (remote_canonical (of_owner f) (of_owner_id f)) None ById None now of
        (Inl e, g) \<Rightarrow> (Inl e, g)
      | (Inr row, g) \<Rightarrow>
          let i = dv_id row;
              g = set_remote_route g i (of_owner f) (case pr_host peer of Some h \<Rightarrow> Some h | None \<Rightarrow> pr_ser2net_host peer)
                    (of_owner_id f) (endpoint_port (of_endpoint f)) (if of_relayed f then Some (pr_name peer) else None) (int (of_hops f));
              g = snd (assign_port g i base_port);
              g = (case as_str (jget d ''label'') of Some nick \<Rightarrow> snd (set_nickname g i (pr_name peer @ ''/'' @ nick)) | None \<Rightarrow> g);
              g = (case as_str (jget d ''target'') of Some t \<Rightarrow> set_target g i (Some (remote_target (pr_name peer) t)) | None \<Rightarrow> g);
              g = (case jget d ''controls'' of Some controls \<Rightarrow> set_remote_controls g i (Some controls) | None \<Rightarrow> g)
          in (Inr (), set_state g i (unwrap_or ''listening'' (as_str (jget d ''state'')))))"

definition import_device :: "(string \<Rightarrow> byte list) \<Rightarrow> PeerRow \<Rightarrow> int \<Rightarrow> int \<Rightarrow> string \<Rightarrow> json \<Rightarrow> Import \<Rightarrow> unit res \<times> Import" where
  "import_device sha256 peer base_port now this_node d m =
     (case offer_of peer this_node d of None \<Rightarrow> (Inr (), m)
      | Some f \<Rightarrow>
          let canonical = remote_canonical (of_owner f) (of_owner_id f); m = m\<lparr> im_seen := im_seen m @ [canonical] \<rparr>
          in if nearer (im_reg m) canonical (of_hops f) then (Inr (), m)
             else let existed = (device_by_canonical (im_reg m) canonical \<noteq> None)
             in (case import_row sha256 peer base_port now d f (im_reg m) of
                   (Inl e, g) \<Rightarrow> (Inl e, m\<lparr> im_reg := g \<rparr>)
                 | (Inr _, g) \<Rightarrow> (Inr (), if existed then m\<lparr> im_reg := g, im_updated := im_updated m + 1 \<rparr>
                                           else m\<lparr> im_reg := g, im_added := im_added m + 1 \<rparr>)))"

fun import_loop :: "(string \<Rightarrow> byte list) \<Rightarrow> PeerRow \<Rightarrow> int \<Rightarrow> int \<Rightarrow> string \<Rightarrow> json list \<Rightarrow> Import \<Rightarrow> unit res \<times> Import" where
  "import_loop sha256 peer base_port now this_node [] m = (Inr (), m)"
| "import_loop sha256 peer base_port now this_node (d # ds) m =
     (case import_device sha256 peer base_port now this_node d m of
        (Inl e, m) \<Rightarrow> (Inl e, m)
      | (Inr _, m) \<Rightarrow> import_loop sha256 peer base_port now this_node ds m)"

text \<open>Devices the peer no longer lists are marked, not deleted.\<close>

definition mark_unlisted :: "PeerRow \<Rightarrow> string list \<Rightarrow> Registry \<Rightarrow> Registry" where
  "mark_unlisted peer listed g =
     foldl (\<lambda>g row. if dv_canonical row \<notin> set listed \<and> dv_state row \<noteq> ''gone'' then set_state g (dv_id row) ''gone'' else g) g
       (devices_learned_via g (pr_name peer))"

definition import_devices ::
    "(string \<Rightarrow> byte list) \<Rightarrow> Registry \<Rightarrow> PeerRow \<Rightarrow> json list \<Rightarrow> int \<Rightarrow> int \<Rightarrow> string \<Rightarrow> (nat \<times> nat) res \<times> Registry" where
  "import_devices sha256 g peer devices base_port now this_node =
     (case import_loop sha256 peer base_port now this_node devices \<lparr> im_reg = g, im_added = 0, im_updated = 0, im_seen = [] \<rparr> of
        (Inl e, m) \<Rightarrow> (Inl e, im_reg m)
      | (Inr _, m) \<Rightarrow> (Inr (im_added m, im_updated m), mark_unlisted peer (im_seen m) (im_reg m)))"

section \<open>The round over the peers\<close>

definition extract_devices :: "json \<Rightarrow> json list" where
  "extract_devices reply =
     (let content = (case jget (unwrap_or JNull (jget reply ''result'')) ''structuredContent'' of
            Some c \<Rightarrow> c | None \<Rightarrow> unwrap_or JNull (jget reply ''structuredContent''))
      in case jget content ''devices'' of Some (JArr ds) \<Rightarrow> ds | _ \<Rightarrow> [])"

definition sync_one ::
    "(string \<Rightarrow> byte list) \<Rightarrow> (string \<Rightarrow> json res) \<Rightarrow> Registry \<Rightarrow> PeerRow \<Rightarrow> int \<Rightarrow> int \<Rightarrow> string \<Rightarrow> (nat \<times> nat) res \<times> Registry" where
  "sync_one sha256 list_devices g peer base_port now this_node =
     (case list_devices (pr_mcp_url peer) of
        Inl e \<Rightarrow> (Inl e, g)
      | Inr reply \<Rightarrow> import_devices sha256 g peer (extract_devices reply) base_port now this_node)"

text \<open>One row of \<^verbatim>\<open>sweep_stale\<close>: nobody can be asked about it, or it has been gone for long.\<close>

definition stale :: "peers \<Rightarrow> int \<Rightarrow> DeviceRow \<Rightarrow> bool" where
  "stale ps now row \<longleftrightarrow>
     opt_any (\<lambda>n. \<not> valid_node_name n) (dv_node row) \<or>
     opt_any (\<lambda>n. n \<notin> pr_name ` set (all_peers ps)) (case dv_via row of Some v \<Rightarrow> Some v | None \<Rightarrow> dv_node row) \<or>
     dv_state row = ''gone'' \<and> now - dv_last_seen row > GRACE_MS"

definition sweep_stale :: "Registry \<Rightarrow> peers \<Rightarrow> int \<Rightarrow> nat \<times> Registry" where
  "sweep_stale g ps now =
     foldl (\<lambda>(n, g) row. if stale ps now row then (n + 1, forget_device g (dv_id row)) else (n, g)) (0, g) (remote_devices g)"

record SyncReport =
  sy_peers_ok :: nat
  sy_peers_failed :: nat
  sy_rows_added :: nat
  sy_rows_updated :: nat
  sy_rows_gone :: nat
  sy_errors :: "string list"

definition sync_peer ::
    "(string \<Rightarrow> byte list) \<Rightarrow> (string \<Rightarrow> json res) \<Rightarrow> int \<Rightarrow> int \<Rightarrow> string \<Rightarrow> SyncReport \<times> Registry \<times> peers \<Rightarrow> PeerRow \<Rightarrow>
     SyncReport \<times> Registry \<times> peers" where
  "sync_peer sha256 list_devices base_port now this_node = (\<lambda>(report, g, ps) peer.
     if starts_with ''static:'' (pr_instance_id peer) \<or> starts_with ''static-id:'' (pr_instance_id peer) then (report, g, ps)
     else case sync_one sha256 list_devices g peer base_port now this_node of
            (Inr (added, updated), g) \<Rightarrow>
              (report\<lparr> sy_peers_ok := sy_peers_ok report + 1, sy_rows_added := sy_rows_added report + added,
                       sy_rows_updated := sy_rows_updated report + updated \<rparr>, g, mark_ok ps (pr_instance_id peer) now)
          | (Inl e, g) \<Rightarrow>
              (report\<lparr> sy_peers_failed := sy_peers_failed report + 1,
                       sy_errors := sy_errors report @ [pr_name peer @ '': '' @ ErrorCode_as_str e] \<rparr>, g,
               mark_failed ps (pr_instance_id peer) (ErrorCode_as_str e) now))"

definition sync_all_as ::
    "(string \<Rightarrow> byte list) \<Rightarrow> (string \<Rightarrow> json res) \<Rightarrow> Registry \<Rightarrow> peers \<Rightarrow> PeerRow list \<Rightarrow> int \<Rightarrow> int \<Rightarrow> string \<Rightarrow>
     SyncReport \<times> Registry \<times> peers" where
  "sync_all_as sha256 list_devices g ps peers1 base_port now this_node =
     (let (report, g, ps) = foldl (sync_peer sha256 list_devices base_port now this_node)
            (\<lparr> sy_peers_ok = 0, sy_peers_failed = 0, sy_rows_added = 0, sy_rows_updated = 0, sy_rows_gone = 0, sy_errors = [] \<rparr>, g, ps) peers1;
          (gone, g) = sweep_stale g ps now
      in (report\<lparr> sy_rows_gone := gone \<rparr>, g, ps))"

definition sync_all ::
    "(string \<Rightarrow> byte list) \<Rightarrow> (string \<Rightarrow> json res) \<Rightarrow> Registry \<Rightarrow> peers \<Rightarrow> PeerRow list \<Rightarrow> int \<Rightarrow> int \<Rightarrow> SyncReport \<times> Registry \<times> peers" where
  "sync_all sha256 list_devices g ps peers1 base_port now = sync_all_as sha256 list_devices g ps peers1 base_port now []"

end
