(* ===== verification/Inventory_Laws.thy ===== *)
theory Inventory_Laws
  imports Peer_Inventory
begin

text \<open>
  What peering does to the registry: rows of peers are well formed and never about this node's own
  boards, local rows are left alone, and after an import the registry says what the peer listed.
\<close>

section \<open>Names\<close>

lemma strip_prefix_append: "strip_prefix p (p @ s) = Some s"
  by (simp add: strip_prefix_def starts_with_def)

text \<open>A remote id can be taken apart into the node and what the node calls the device exactly as it
  was put together, whatever the device is called; the same holds for the names of targets.\<close>

theorem remote_names_round_trip:
  assumes "valid_node_name node" and "remote \<noteq> []"
  shows "split_remote (remote_canonical node remote) = Some (node, remote) \<and>
    split_remote_target (remote_target node remote) = Some (node, remote) \<and> DeviceKind_of (remote_canonical node remote) = Remote_device"
proof -
  have n: "node \<noteq> []" "CHR ''/'' \<notin> set node" "CHR '':'' \<notin> set node" using assms(1) by (simp_all add: valid_node_name_def)
  have "split_once (CHR ''/'') (node @ CHR ''/'' # remote) = Some (node, remote)" by (rule split_once_append [OF n(2)])
  with n(1) assms(2) strip_prefix_append [of "''peer:''"] have a: "split_remote (remote_canonical node remote) = Some (node, remote)"
    by (simp add: split_remote_def remote_canonical_def)
  have "split_once (CHR '':'') (node @ CHR '':'' # remote) = Some (node, remote)" by (rule split_once_append [OF n(3)])
  with n assms(2) have b: "split_remote_target (remote_target node remote) = Some (node, remote)"
    by (simp add: split_remote_target_def remote_target_def)
  have "DeviceKind_of (remote_canonical node remote) = Remote_device" by (simp add: DeviceKind_of_def remote_canonical_def starts_with_def)
  with a b show ?thesis by simp
qed

theorem remote_names_round_trip_witness:
  "split_remote (remote_canonical ''alpha'' ''/dev/ttyUSB0'') = Some (''alpha'', ''/dev/ttyUSB0'')"
proof -
  have "valid_node_name ''alpha''" by code_simp
  from remote_names_round_trip [OF this, of "''/dev/ttyUSB0''"] show ?thesis by simp
qed

section \<open>Rows of peers\<close>

text \<open>A row that belongs to a peer names it, is keyed by it, is a device of its own there and within the
  hop limit if it came through a relay; a row of this node says nothing about peers.\<close>

definition row_ok :: "string \<Rightarrow> DeviceRow \<Rightarrow> bool" where
  "row_ok this d \<longleftrightarrow>
     (case dv_node d of
        None \<Rightarrow> dv_via d = None \<and> dv_kind d \<noteq> Remote_device
      | Some n \<Rightarrow> n \<noteq> this \<and> valid_node_name n \<and>
          (\<exists>r. dv_remote_canonical d = Some r \<and> DeviceKind_of r = Local_device \<and> dv_canonical d = remote_canonical n r) \<and>
          1 \<le> dv_hops d \<and> dv_hops d \<le> 255 \<and> (dv_via d \<noteq> None \<longrightarrow> dv_hops d \<le> int MAX_HOPS))"

definition fleet_ok :: "string \<Rightarrow> Registry \<Rightarrow> bool" where
  "fleet_ok this g \<longleftrightarrow> registry_ok g \<and> list_all (row_ok this) (rg_devices g)"

definition local_rows :: "Registry \<Rightarrow> DeviceRow list" where
  "local_rows g = filter (\<lambda>d. dv_node d = None) (rg_devices g)"

text \<open>What an offer says about its row.\<close>

definition offered :: "PeerRow \<Rightarrow> Offer \<Rightarrow> DeviceRow \<Rightarrow> bool" where
  "offered peer f d \<longleftrightarrow> dv_node d = Some (of_owner f) \<and> dv_remote_canonical d = Some (of_owner_id f) \<and> dv_hops d = int (of_hops f) \<and>
     dv_via d = (if of_relayed f then Some (pr_name peer) else None)"

lemma offer_of_ok:
  assumes "offer_of peer this d = Some f"
  shows "of_owner f \<noteq> this" "valid_node_name (of_owner f)" "DeviceKind_of (of_owner_id f) = Local_device" "1 \<le> of_hops f" "of_hops f \<le> 255"
    "of_relayed f \<longrightarrow> of_hops f \<le> MAX_HOPS"
proof -
  obtain remote_id where r: "as_str (jget d ''device'') = Some remote_id" using assms by (auto simp: offer_of_def split: option.splits)
  obtain owner owner_id relayed where o1: "(case split_remote remote_id of Some (owner, inner) \<Rightarrow> (owner, inner, True) | None \<Rightarrow> (pr_name peer, remote_id, False)) =
      (owner, owner_id, relayed)" by (rule prod_cases3)
  show "of_owner f \<noteq> this" "valid_node_name (of_owner f)" "DeviceKind_of (of_owner_id f) = Local_device" "1 \<le> of_hops f" "of_hops f \<le> 255"
    "of_relayed f \<longrightarrow> of_hops f \<le> MAX_HOPS"
    using assms by (auto simp: offer_of_def r o1 Let_def split: if_splits)
qed

lemma offered_row_ok: "offer_of peer this d = Some f \<Longrightarrow> offered peer f r \<Longrightarrow> dv_canonical r = remote_canonical (of_owner f) (of_owner_id f) \<Longrightarrow> row_ok this r"
  using offer_of_ok [of peer this d f] by (auto simp: row_ok_def offered_def)

section \<open>Editing one row\<close>

text \<open>An edit of the row with an id that leaves its identity and where it comes from alone.\<close>

definition keeps :: "(DeviceRow \<Rightarrow> DeviceRow) \<Rightarrow> bool" where
  "keeps f \<longleftrightarrow> (\<forall>d. dv_id (f d) = dv_id d \<and> dv_canonical (f d) = dv_canonical d \<and> dv_kind (f d) = dv_kind d \<and> dv_node (f d) = dv_node d \<and>
     dv_via (f d) = dv_via d \<and> dv_remote_canonical (f d) = dv_remote_canonical d \<and> dv_hops (f d) = dv_hops d)"

definition edits :: "int \<Rightarrow> Registry \<Rightarrow> Registry \<Rightarrow> bool" where
  "edits i g g' \<longleftrightarrow> (\<exists>f. keeps f \<and> rg_devices g' = update_where (\<lambda>d. dv_id d = i) f (rg_devices g))"

lemma edits_refl: "edits i g g"
  unfolding edits_def by (rule exI [of _ "\<lambda>d. d"]) (simp add: keeps_def update_where_def)

lemma edits_trans:
  assumes "edits i g1 g2" and "edits i g2 g3"
  shows "edits i g1 g3"
proof -
  obtain f h where f: "keeps f" "rg_devices g2 = update_where (\<lambda>d. dv_id d = i) f (rg_devices g1)"
    and h: "keeps h" "rg_devices g3 = update_where (\<lambda>d. dv_id d = i) h (rg_devices g2)" using assms unfolding edits_def by blast
  have "rg_devices g3 = update_where (\<lambda>d. dv_id d = i) (h \<circ> f) (rg_devices g1)"
    using f by (simp add: h(2) update_where_def keeps_def)
  moreover have "keeps (h \<circ> f)" using f(1) h(1) by (simp add: keeps_def)
  ultimately show ?thesis unfolding edits_def by blast
qed

lemma edits_update: "keeps f \<Longrightarrow> edits i g (update_device g i f)"
  unfolding edits_def by auto

lemma edits_ops:
  "edits i g (snd (assign_port g i b))" "edits i g (snd (set_nickname g i n))" "edits i g (set_target g i t)"
  "edits i g (set_remote_controls g i c)" "edits i g (set_state g i s)"
  by (auto simp: assign_port_def set_nickname_def set_target_def set_remote_controls_def set_state_def Let_def keeps_def
      intro!: edits_refl edits_update split: option.split)

section \<open>Importing one device\<close>

lemma upsert_device_row:
  assumes "registry_ok g"
  shows "\<exists>row g'. upsert_device sha g c None ById None now = (Inr row, g') \<and> registry_ok g' \<and>
    (\<exists>d \<in> set (rg_devices g'). dv_canonical d = c \<and> dv_id row = dv_id d) \<and>
    filter (\<lambda>d. dv_canonical d \<noteq> c) (rg_devices g') = filter (\<lambda>d. dv_canonical d \<noteq> c) (rg_devices g) \<and>
    (\<forall>d \<in> set (rg_devices g'). dv_canonical d = c \<longrightarrow> dv_kind d = DeviceKind_of c)"
proof -
  obtain r g' where u: "upsert_device sha g c None ById None now = (r, g')" by (cases "upsert_device sha g c None ById None now")
  have ok: "registry_ok g'" using upsert_ok [OF assms, of sha c None ById None now] u by simp
  have rest: "filter (\<lambda>d. dv_canonical d \<noteq> c) (rg_devices g') = filter (\<lambda>d. dv_canonical d \<noteq> c) (rg_devices g)"
    and known: "c \<in> dv_canonical ` set (rg_devices g')"
  proof -
    have upd: "filter (\<lambda>d. dv_canonical d \<noteq> c) (update_where (\<lambda>d. dv_canonical d = c) f ds) = filter (\<lambda>d. dv_canonical d \<noteq> c) ds"
      if "\<And>d. dv_canonical (f d) = dv_canonical d" for f ds
      using that by (induction ds) (auto simp: update_where_def)
    show "filter (\<lambda>d. dv_canonical d \<noteq> c) (rg_devices g') = filter (\<lambda>d. dv_canonical d \<noteq> c) (rg_devices g)"
    proof (cases "c \<in> dv_canonical ` set (rg_devices g)")
      case True
      with u have "rg_devices g' = update_where (\<lambda>d. dv_canonical d = c)
          (\<lambda>d. d\<lparr> dv_by_path := coalesce None (dv_by_path d), dv_tty := coalesce None (dv_tty d), dv_last_seen := now \<rparr>) (rg_devices g)"
        by (auto simp: upsert_device_def Let_def)
      then show ?thesis by (simp add: upd)
    next
      case False
      with u show ?thesis by (auto simp: upsert_device_def Let_def device_of_def)
    qed
    show "c \<in> dv_canonical ` set (rg_devices g')"
      using u by (auto simp: upsert_device_def Let_def device_of_def image_update_where split: if_splits)
  qed
  have "r = ok_or Internal (device_by_canonical g' c)" using u by (auto simp: upsert_device_def Let_def)
  moreover obtain d where d: "find (\<lambda>d. dv_canonical d = c) (rg_devices g') = Some d"
    using known by (cases "find (\<lambda>d. dv_canonical d = c) (rg_devices g')") (auto simp: find_None_iff)
  ultimately have row: "r = Inr (hd (attach_tags g' [map_device d]))" by (simp add: device_by_canonical_def)
  have "dv_id (foldl (\<lambda>d (i, k, v). if i = dv_id d then d\<lparr> dv_tags := bt_insert k v (dv_tags d) \<rparr> else d) x ts) = dv_id x" for x :: DeviceRow and ts :: "(int \<times> string \<times> string) list"
    by (induction ts arbitrary: x) auto
  then have id: "dv_id (hd (attach_tags g' [map_device d])) = dv_id d" by (simp add: attach_tags_def map_device_def)
  have mem: "d \<in> set (rg_devices g')" "dv_canonical d = c" using d by (auto simp: find_Some_iff)
  have "dv_kind d = DeviceKind_of c" if "d \<in> set (rg_devices g')" "dv_canonical d = c" for d
    using ok that by (auto simp: registry_ok_def devices_ok_def list_all_iff)
  with u row id mem ok rest show ?thesis by auto
qed

lemma canonical_unique: "registry_ok g \<Longrightarrow> d \<in> set (rg_devices g) \<Longrightarrow> e \<in> set (rg_devices g) \<Longrightarrow> dv_canonical d = dv_canonical e \<Longrightarrow> d = e"
  by (auto simp: registry_ok_def devices_ok_def distinct_map inj_on_def)

lemma id_unique: "registry_ok g \<Longrightarrow> d \<in> set (rg_devices g) \<Longrightarrow> e \<in> set (rg_devices g) \<Longrightarrow> dv_id d = dv_id e \<Longrightarrow> d = e"
  using ids_distinct [of "rg_devices g"] by (auto simp: registry_ok_def distinct_map inj_on_def)

lemma route_ok: "registry_ok g \<Longrightarrow> registry_ok (set_remote_route g i n h r p v k)"
  unfolding set_remote_route_def by (rule update_plain_ok) simp_all

lemma plain_ops_ok:
  "registry_ok g \<Longrightarrow> registry_ok (set_target g i t)" "registry_ok g \<Longrightarrow> registry_ok (set_remote_controls g i c)" "registry_ok g \<Longrightarrow> registry_ok (set_state g i s)"
  unfolding set_target_def set_remote_controls_def set_state_def by (rule update_plain_ok; simp)+

text \<open>The rows after an import: the row of the offer, and everything else as it was.\<close>

lemma import_row_effect:
  assumes ok: "registry_ok g" and imp: "import_row sha peer base now d f g = (r, g')"
  defines "c \<equiv> remote_canonical (of_owner f) (of_owner_id f)"
  shows "r = Inr () \<and> registry_ok g' \<and> filter (\<lambda>x. dv_canonical x \<noteq> c) (rg_devices g') = filter (\<lambda>x. dv_canonical x \<noteq> c) (rg_devices g) \<and>
    (\<exists>x \<in> set (rg_devices g'). dv_canonical x = c) \<and> (\<forall>x \<in> set (rg_devices g'). dv_canonical x = c \<longrightarrow> offered peer f x)"
proof -
  obtain row g0 x0 where u: "upsert_device sha g c None ById None now = (Inr row, g0)" and g0: "registry_ok g0"
    and x0: "x0 \<in> set (rg_devices g0)" "dv_canonical x0 = c" "dv_id row = dv_id x0"
    and rest: "filter (\<lambda>d. dv_canonical d \<noteq> c) (rg_devices g0) = filter (\<lambda>d. dv_canonical d \<noteq> c) (rg_devices g)"
    using upsert_device_row [OF ok, of sha c now] by blast
  let ?i = "dv_id row"
  define g1 where "g1 = set_remote_route g0 ?i (of_owner f) (case pr_host peer of Some h \<Rightarrow> Some h | None \<Rightarrow> pr_ser2net_host peer)
      (of_owner_id f) (endpoint_port (of_endpoint f)) (if of_relayed f then Some (pr_name peer) else None) (int (of_hops f))"
  define g2 where "g2 = snd (assign_port g1 ?i base)"
  define g3 where "g3 = (case as_str (jget d ''label'') of Some nick \<Rightarrow> snd (set_nickname g2 ?i (pr_name peer @ ''/'' @ nick)) | None \<Rightarrow> g2)"
  define g4 where "g4 = (case as_str (jget d ''target'') of Some t \<Rightarrow> set_target g3 ?i (Some (remote_target (pr_name peer) t)) | None \<Rightarrow> g3)"
  define g5 where "g5 = (case jget d ''controls'' of Some controls \<Rightarrow> set_remote_controls g4 ?i (Some controls) | None \<Rightarrow> g4)"
  have g': "r = Inr ()" "g' = set_state g5 ?i (unwrap_or ''listening'' (as_str (jget d ''state'')))"
  proof -
    have "import_row sha peer base now d f g = (Inr (), set_state g5 ?i (unwrap_or ''listening'' (as_str (jget d ''state''))))"
      unfolding import_row_def c_def [symmetric] u g5_def g4_def g3_def g2_def g1_def by (simp only: prod.case sum.case Let_def)
    with imp show "r = Inr ()" "g' = set_state g5 ?i (unwrap_or ''listening'' (as_str (jget d ''state'')))" by simp_all
  qed
  have oks: "registry_ok g1" "registry_ok g2" "registry_ok g3" "registry_ok g4" "registry_ok g5" "registry_ok g'"
  proof -
    show 1: "registry_ok g1" using route_ok [OF g0] by (simp add: g1_def)
    show 2: "registry_ok g2" using assign_port_ok [OF 1] by (simp add: g2_def)
    show 3: "registry_ok g3" using set_nickname_ok [OF 2] 2 by (simp add: g3_def split: option.split)
    show 4: "registry_ok g4" using plain_ops_ok(1) [OF 3] 3 by (simp add: g4_def split: option.split)
    show 5: "registry_ok g5" using plain_ops_ok(2) [OF 4] 4 by (simp add: g5_def split: option.split)
    show "registry_ok g'" using plain_ops_ok(3) [OF 5] by (simp add: g')
  qed
  have "edits ?i g1 g2" "edits ?i g2 g3" "edits ?i g3 g4" "edits ?i g4 g5" "edits ?i g5 g'"
    by (simp_all add: g2_def g3_def g4_def g5_def g' edits_ops edits_refl split: option.split)
  then have "edits ?i g1 g'" by (meson edits_trans)
  then obtain F where F: "keeps F" "rg_devices g' = update_where (\<lambda>d. dv_id d = ?i) F (rg_devices g1)" unfolding edits_def by blast
  let ?R = "\<lambda>d. d\<lparr> dv_node := Some (of_owner f), dv_node_host := (case pr_host peer of Some h \<Rightarrow> Some h | None \<Rightarrow> pr_ser2net_host peer),
      dv_remote_canonical := Some (of_owner_id f), dv_remote_port := endpoint_port (of_endpoint f),
      dv_via := (if of_relayed f then Some (pr_name peer) else None), dv_hops := int (of_hops f) \<rparr>"
  have all: "rg_devices g' = map (\<lambda>d. if dv_id d = ?i then F (?R d) else d) (rg_devices g0)"
    by (simp add: F(2) g1_def set_remote_route_def update_where_def)
  have same: "dv_id d = ?i \<longleftrightarrow> dv_canonical d = c" if "d \<in> set (rg_devices g0)" for d
    using canonical_unique [OF g0 that x0(1)] id_unique [OF g0 that x0(1)] x0 by auto
  have F': "dv_canonical (F (?R d)) = dv_canonical d" "dv_node (F (?R d)) = Some (of_owner f)" "dv_hops (F (?R d)) = int (of_hops f)"
    "dv_remote_canonical (F (?R d)) = Some (of_owner_id f)" "dv_via (F (?R d)) = (if of_relayed f then Some (pr_name peer) else None)" for d
    using F(1) by (simp_all add: keeps_def)
  have "filter (\<lambda>x. dv_canonical x \<noteq> c) (map (\<lambda>d. if dv_id d = ?i then F (?R d) else d) ds) = filter (\<lambda>x. dv_canonical x \<noteq> c) ds"
    if "\<And>d. d \<in> set ds \<Longrightarrow> dv_id d = ?i \<longleftrightarrow> dv_canonical d = c" for ds
    using that by (induction ds) (auto simp: F' simp del: select_convs)
  from this [of "rg_devices g0"] same have "filter (\<lambda>x. dv_canonical x \<noteq> c) (rg_devices g') = filter (\<lambda>x. dv_canonical x \<noteq> c) (rg_devices g0)"
    unfolding all by blast
  moreover have "offered peer f x" if x: "x \<in> set (rg_devices g')" and xc: "dv_canonical x = c" for x
  proof -
    obtain d where d: "d \<in> set (rg_devices g0)" "x = (if dv_id d = ?i then F (?R d) else d)" using x unfolding all set_map by blast
    then have "dv_id d = ?i" using same [OF d(1)] xc by (auto split: if_splits)
    with d(2) show ?thesis by (simp add: offered_def F')
  qed
  moreover have "F (?R x0) \<in> set (rg_devices g')" using x0 by (force simp: all)
  ultimately show ?thesis using g'(1) oks(6) rest F'(1) [of x0] x0(2) by auto
qed

section \<open>Rows of this node are left alone\<close>

definition guarded :: "string \<Rightarrow> Registry \<Rightarrow> Registry \<Rightarrow> bool" where
  "guarded this g g' \<longleftrightarrow> (fleet_ok this g \<longrightarrow> fleet_ok this g' \<and> local_rows g' = local_rows g)"

lemma guarded_refl [simp]: "guarded this g g"
  by (simp add: guarded_def)

lemma guarded_trans: "guarded this g1 g2 \<Longrightarrow> guarded this g2 g3 \<Longrightarrow> guarded this g1 g3"
  by (simp add: guarded_def)

lemma local_kind:
  assumes "fleet_ok this g" and "d \<in> set (rg_devices g)" and "dv_node d = None"
  shows "DeviceKind_of (dv_canonical d) \<noteq> Remote_device"
  using assms by (auto simp: fleet_ok_def row_ok_def registry_ok_def devices_ok_def list_all_iff)

lemma import_row_guarded:
  assumes "offer_of peer this d = Some f" and "import_row sha peer base now d f g = (r, g')"
  shows "r = Inr () \<or> \<not> fleet_ok this g" and "guarded this g g'"
proof -
  have "r = Inr () \<and> fleet_ok this g' \<and> local_rows g' = local_rows g" if ok: "fleet_ok this g"
  proof -
    let ?c = "remote_canonical (of_owner f) (of_owner_id f)"
    have reg: "registry_ok g" using ok by (simp add: fleet_ok_def)
    have eff: "r = Inr ()" "registry_ok g'" "filter (\<lambda>x. dv_canonical x \<noteq> ?c) (rg_devices g') = filter (\<lambda>x. dv_canonical x \<noteq> ?c) (rg_devices g)"
        "\<And>x. x \<in> set (rg_devices g') \<Longrightarrow> dv_canonical x = ?c \<Longrightarrow> offered peer f x"
      using import_row_effect [OF reg assms(2)] by auto
    have rows: "row_ok this x" if x: "x \<in> set (rg_devices g')" for x
    proof (cases "dv_canonical x = ?c")
      case True
      with offered_row_ok [OF assms(1) eff(4) [OF x True]] show ?thesis .
    next
      case False
      then have "x \<in> set (filter (\<lambda>x. dv_canonical x \<noteq> ?c) (rg_devices g))" using x by (simp flip: eff(3))
      with ok show ?thesis by (simp add: fleet_ok_def list_all_iff)
    qed
    then have "fleet_ok this g'" using eff(2) by (simp add: fleet_ok_def list_all_iff)
    moreover have "local_rows g' = local_rows g"
    proof -
      have "DeviceKind_of ?c = Remote_device" by (simp add: DeviceKind_of_def remote_canonical_def starts_with_def)
      then have "dv_canonical x \<noteq> ?c" if "x \<in> set (rg_devices g)" "dv_node x = None" for x using local_kind [OF ok that] by auto
      moreover have "dv_canonical x \<noteq> ?c" if "x \<in> set (rg_devices g')" "dv_node x = None" for x
        using eff(4) [OF that(1)] that(2) by (auto simp: offered_def)
      ultimately have "local_rows h = filter (\<lambda>x. dv_node x = None) (filter (\<lambda>x. dv_canonical x \<noteq> ?c) (rg_devices h))" if "h = g \<or> h = g'" for h
        using that unfolding local_rows_def filter_filter by (intro filter_cong refl) blast
      from this [of g] this [of g'] show ?thesis by (simp only: eff(3) simp_thms)
    qed
    ultimately show ?thesis using eff(1) by blast
  qed
  then show "r = Inr () \<or> \<not> fleet_ok this g" "guarded this g g'" by (auto simp: guarded_def)
qed

lemma import_device_guarded: "import_device sha peer base now this d m = (r, m') \<Longrightarrow> guarded this (im_reg m) (im_reg m')"
  by (auto simp: import_device_def Let_def dest: import_row_guarded(2) split: option.splits if_splits prod.splits sum.splits)

lemma import_loop_guarded: "import_loop sha peer base now this ds m = (r, m') \<Longrightarrow> guarded this (im_reg m) (im_reg m')"
proof (induction ds arbitrary: m)
  case (Cons d ds)
  obtain r1 m1 where d: "import_device sha peer base now this d m = (r1, m1)" by (cases "import_device sha peer base now this d m")
  from import_device_guarded [OF d] Cons d show ?case by (cases r1) (auto intro: guarded_trans)
qed simp

text \<open>Changes to rows that are not local.\<close>

lemma edit_guarded:
  assumes "i \<notin> dv_id ` set (local_rows g)" and "registry_ok g \<Longrightarrow> registry_ok g'" and "edits i g g'"
  shows "guarded this g g'"
proof -
  obtain f where f: "keeps f" "rg_devices g' = update_where (\<lambda>d. dv_id d = i) f (rg_devices g)" using assms(3) unfolding edits_def by blast
  have "row_ok this (f d) \<longleftrightarrow> row_ok this d" for d using f(1) by (simp add: keeps_def row_ok_def cong: option.case_cong)
  then have rows: "list_all (row_ok this) (rg_devices g') \<longleftrightarrow> list_all (row_ok this) (rg_devices g)"
    by (simp add: f(2) update_where_def list_all_length)
  have "filter (\<lambda>d. dv_node d = None) (update_where (\<lambda>d. dv_id d = i) f ds) = filter (\<lambda>d. dv_node d = None) ds"
    if "\<forall>d \<in> set ds. dv_node d = None \<longrightarrow> dv_id d \<noteq> i" for ds
    using that f(1) by (induction ds) (auto simp: update_where_def keeps_def)
  moreover have "\<forall>d \<in> set (rg_devices g). dv_node d = None \<longrightarrow> dv_id d \<noteq> i" using assms(1) by (force simp: local_rows_def)
  ultimately show ?thesis using assms(2) rows by (simp add: guarded_def fleet_ok_def local_rows_def f(2))
qed

lemma forget_guarded:
  assumes "i \<notin> dv_id ` set (local_rows g)"
  shows "guarded this g (forget_device g i)"
proof -
  have "filter (\<lambda>d. dv_node d = None) (filter (\<lambda>d. dv_id d \<noteq> i) (rg_devices g)) = local_rows g"
    unfolding local_rows_def filter_filter using assms by (intro filter_cong) (auto simp: local_rows_def)
  then have "local_rows (forget_device g i) = local_rows g" by (simp add: forget_device_def local_rows_def)
  moreover have "fleet_ok this g \<Longrightarrow> fleet_ok this (forget_device g i)"
    using forget_ok [of g i] by (auto simp: fleet_ok_def list_all_iff forget_device_def)
  ultimately show ?thesis by (simp add: guarded_def)
qed

text \<open>A loop over rows that are not local.\<close>

lemma fold_guarded:
  assumes "\<And>g row. fleet_ok this g \<Longrightarrow> dv_id row \<notin> dv_id ` set (local_rows g) \<Longrightarrow> guarded this g (f g row)"
    and "fleet_ok this g" and "\<forall>row \<in> set rows. dv_id row \<notin> dv_id ` set (local_rows g)"
  shows "guarded this g (foldl f g rows)"
  using assms(2,3)
proof (induction rows arbitrary: g)
  case (Cons row rows)
  have "guarded this g (f g row)" using assms(1) Cons.prems by simp
  with Cons show ?case by (auto simp: guarded_def)
qed simp

lemma remote_id_not_local:
  assumes "fleet_ok this g" and "d \<in> set (rg_devices g)" and "dv_node d \<noteq> None"
  shows "dv_id d \<notin> dv_id ` set (local_rows g)"
proof
  assume "dv_id d \<in> dv_id ` set (local_rows g)"
  then obtain e where e: "e \<in> set (rg_devices g)" "dv_node e = None" "dv_id e = dv_id d" by (auto simp: local_rows_def)
  with id_unique [of g d e] assms show False by (auto simp: fleet_ok_def)
qed

lemma devices_where_rows: "row \<in> set (devices_where g P) \<Longrightarrow> \<exists>d \<in> set (rg_devices g). P d \<and> row = map_device d"
  by (auto simp: devices_where_def order_by_def)

lemma mark_unlisted_guarded: "guarded this g (mark_unlisted peer listed g)"
proof (cases "fleet_ok this g")
  case True
  have "dv_id row \<notin> dv_id ` set (local_rows g)" if "row \<in> set (devices_learned_via g (pr_name peer))" for row
  proof -
    from that obtain d where d: "d \<in> set (rg_devices g)" "dv_via d = Some (pr_name peer) \<or> dv_via d = None \<and> dv_node d = Some (pr_name peer)"
      "row = map_device d" unfolding devices_learned_via_def by (blast dest: devices_where_rows)
    have "row_ok this d" using True d(1) by (simp add: fleet_ok_def list_all_iff)
    then have "dv_node d \<noteq> None" using d(2) by (auto simp: row_ok_def split: option.splits)
    from remote_id_not_local [OF True d(1) this] show ?thesis by (simp add: d(3) map_device_def)
  qed
  then show ?thesis unfolding mark_unlisted_def
    by (intro fold_guarded [OF _ True]) (auto intro: edit_guarded plain_ops_ok edits_ops)
qed (simp add: guarded_def)

lemma import_devices_guarded: "import_devices sha g peer ds base now this = (r, g') \<Longrightarrow> guarded this g g'"
  using import_loop_guarded [of sha peer base now this ds "\<lparr> im_reg = g, im_added = 0, im_updated = 0, im_seen = [] \<rparr>"]
  by (auto simp: import_devices_def intro: guarded_trans mark_unlisted_guarded split: prod.splits sum.splits)

lemma sweep_guarded: "sweep_stale g ps now = (n, g') \<Longrightarrow> guarded this g g'"
proof (cases "fleet_ok this g")
  case True
  have fst: "snd (foldl (\<lambda>(n, g) row. if stale ps now row then (n + 1, forget_device g (dv_id row)) else (n, g)) (k, h) rows) =
      foldl (\<lambda>g row. if stale ps now row then forget_device g (dv_id row) else g) h rows" for k :: nat and h rows
    by (induction rows arbitrary: k h) auto
  have "dv_id row \<notin> dv_id ` set (local_rows g)" if "row \<in> set (remote_devices g)" for row
  proof -
    from that obtain d where d: "d \<in> set (rg_devices g)" "dv_node d \<noteq> None" "row = map_device d"
      unfolding remote_devices_def by (blast dest: devices_where_rows)
    from remote_id_not_local [OF True d(1,2)] show ?thesis by (simp add: d(3) map_device_def)
  qed
  then have "guarded this g (foldl (\<lambda>g row. if stale ps now row then forget_device g (dv_id row) else g) g (remote_devices g))"
    by (intro fold_guarded [OF _ True]) (auto intro: forget_guarded)
  moreover assume "sweep_stale g ps now = (n, g')"
  ultimately show ?thesis using fst [of 0 g "remote_devices g"] by (simp add: sweep_stale_def)
qed (simp add: guarded_def)

lemma sync_peer_guarded: "sync_peer sha client base now this (rep, g, ps) peer = (rep', g', ps') \<Longrightarrow> guarded this g g'"
  by (auto simp: sync_peer_def sync_one_def dest: import_devices_guarded split: if_splits prod.splits sum.splits)

text \<open>C32. A round over the peers, whatever they answer, keeps the registry consistent, keeps every row of a
  peer well formed (it names a valid node that is not this one, is keyed by that node's own
  device, and is within the hop limit if relayed), and changes no row of this node at all.\<close>

theorem peering_leaves_own_boards_alone:
  assumes "fleet_ok this g" and "sync_all_as sha client g ps peers1 base now this = (rep, g', ps')"
  shows "fleet_ok this g' \<and> local_rows g' = local_rows g"
proof -
  have loop: "guarded this h h'" if "foldl (sync_peer sha client base now this) (r0, h, p0) peers1 = (r1, h', p1)" for r0 h p0 r1 h' p1
    using that
  proof (induction peers1 arbitrary: r0 h p0)
    case (Cons peer peers1)
    obtain r2 h2 p2 where one: "sync_peer sha client base now this (r0, h, p0) peer = (r2, h2, p2)" by (rule prod_cases3)
    from sync_peer_guarded [OF one] Cons one show ?case by (auto intro: guarded_trans)
  qed simp
  have "guarded this g g'"
    using assms(2) by (auto simp: sync_all_as_def Let_def split: prod.splits intro: guarded_trans [OF loop sweep_guarded])
  with assms(1) show ?thesis by (simp add: guarded_def)
qed

section \<open>The registry says what the peer listed\<close>

definition offers :: "PeerRow \<Rightarrow> string \<Rightarrow> json list \<Rightarrow> Offer list" where
  "offers peer this ds = List.map_filter (offer_of peer this) ds"

definition offer_id :: "Offer \<Rightarrow> string" where
  "offer_id f = remote_canonical (of_owner f) (of_owner_id f)"

definition learned_from :: "PeerRow \<Rightarrow> DeviceRow \<Rightarrow> bool" where
  "learned_from peer d \<longleftrightarrow> dv_via d = Some (pr_name peer) \<or> dv_via d = None \<and> dv_node d = Some (pr_name peer)"

lemma remote_canonical_inj:
  assumes "remote_canonical n r = remote_canonical m s" and "CHR ''/'' \<notin> set n" and "CHR ''/'' \<notin> set m"
  shows "n = m \<and> r = s"
proof -
  have "split_once (CHR ''/'') (n @ CHR ''/'' # r) = split_once (CHR ''/'') (m @ CHR ''/'' # s)" using assms(1) by (simp add: remote_canonical_def)
  then show ?thesis using assms(2,3) by (simp add: split_once_append)
qed

text \<open>A row with the id of an offer is a row of its owner.\<close>

lemma offer_id_row:
  assumes "fleet_ok this g" and "x \<in> set (rg_devices g)" and "dv_canonical x = offer_id f" and "offer_of peer this d = Some f"
  shows "dv_node x = Some (of_owner f) \<and> dv_remote_canonical x = Some (of_owner_id f)"
proof -
  have ok: "row_ok this x" using assms(1,2) by (simp add: fleet_ok_def list_all_iff)
  have "DeviceKind_of (dv_canonical x) = Remote_device" using assms(3) by (simp add: offer_id_def DeviceKind_of_def remote_canonical_def starts_with_def)
  with local_kind [OF assms(1,2)] obtain n where n: "dv_node x = Some n" by (cases "dv_node x") auto
  with ok obtain r where r: "dv_remote_canonical x = Some r" "dv_canonical x = remote_canonical n r" "valid_node_name n" by (auto simp: row_ok_def)
  have "n = of_owner f \<and> r = of_owner_id f"
    by (rule remote_canonical_inj) (use assms(3) r offer_of_ok(2) [OF assms(4)] in \<open>simp_all add: offer_id_def valid_node_name_def\<close>)
  with n r show ?thesis by simp
qed

lemma known_row: "device_by_canonical g c \<noteq> None \<longleftrightarrow> c \<in> dv_canonical ` set (rg_devices g)"
  by (auto simp: device_by_canonical_def find_None_iff image_iff)

lemma nearer_known: "nearer g c k \<Longrightarrow> c \<in> dv_canonical ` set (rg_devices g)"
  using known_row [of g c] by (auto simp: nearer_def opt_any_def split: option.splits)

definition outside :: "string set \<Rightarrow> Registry \<Rightarrow> DeviceRow list" where
  "outside C g = filter (\<lambda>x. dv_canonical x \<notin> C) (rg_devices g)"

lemma outside_mono: "outside C g = outside C g' \<Longrightarrow> C \<subseteq> D \<Longrightarrow> outside D g = outside D g'"
proof -
  assume a: "outside C g = outside C g'" "C \<subseteq> D"
  have "outside D h = filter (\<lambda>x. dv_canonical x \<notin> D) (outside C h)" for h
    unfolding outside_def filter_filter using a(2) by (intro filter_cong) auto
  with a(1) show ?thesis by simp
qed

lemma import_device_effect:
  assumes "fleet_ok this (im_reg m)" and "import_device sha peer base now this d m = (r, m')"
  shows "r = Inr () \<and> im_seen m' = im_seen m @ map offer_id (offers peer this [d]) \<and>
    dv_canonical ` set (rg_devices (im_reg m)) \<union> offer_id ` set (offers peer this [d]) \<subseteq> dv_canonical ` set (rg_devices (im_reg m')) \<and>
    outside (offer_id ` set (offers peer this [d])) (im_reg m') = outside (offer_id ` set (offers peer this [d])) (im_reg m)"
proof (cases "offer_of peer this d")
  case None
  with assms(2) show ?thesis by (simp add: import_device_def offers_def)
next
  case (Some f)
  have one: "offers peer this [d] = [f]" by (simp add: offers_def Some)
  show ?thesis
  proof (cases "nearer (im_reg m) (offer_id f) (of_hops f)")
    case True
    with assms(2) Some nearer_known [OF True] show ?thesis by (auto simp: import_device_def one offer_id_def)
  next
    case False
    obtain r1 g where row: "import_row sha peer base now d f (im_reg m) = (r1, g)" by (cases "import_row sha peer base now d f (im_reg m)")
    have reg: "registry_ok (im_reg m)" using assms(1) by (simp add: fleet_ok_def)
    have eff: "r1 = Inr ()" "outside {offer_id f} g = outside {offer_id f} (im_reg m)" "\<exists>x \<in> set (rg_devices g). dv_canonical x = offer_id f"
      using import_row_effect [OF reg row] by (simp_all add: outside_def offer_id_def)
    have m': "r = Inr ()" "im_reg m' = g" "im_seen m' = im_seen m @ [offer_id f]"
      using assms(2) False row eff(1) by (auto simp: import_device_def Some offer_id_def Let_def split: if_splits)
    have "dv_canonical x \<in> dv_canonical ` set (rg_devices g)" if x: "x \<in> set (rg_devices (im_reg m))" for x
    proof (cases "dv_canonical x = offer_id f")
      case True
      with eff(3) show ?thesis by force
    next
      case False
      with x have "x \<in> set (outside {offer_id f} (im_reg m))" by (simp add: outside_def)
      then have "x \<in> set (outside {offer_id f} g)" by (simp only: eff(2))
      then show ?thesis by (simp add: outside_def)
    qed
    then have "dv_canonical ` set (rg_devices (im_reg m)) \<subseteq> dv_canonical ` set (rg_devices g)" by blast
    moreover have "offer_id f \<in> dv_canonical ` set (rg_devices g)" using eff(3) by force
    ultimately show ?thesis using eff(2) m' by (simp add: one)
  qed
qed

lemma offers_Cons: "offers peer this (d # ds) = offers peer this [d] @ offers peer this ds"
  by (simp add: offers_def split: option.split)

lemma import_loop_effect:
  assumes "fleet_ok this (im_reg m)" and "import_loop sha peer base now this ds m = (r, m')"
  shows "r = Inr () \<and> im_seen m' = im_seen m @ map offer_id (offers peer this ds) \<and>
    dv_canonical ` set (rg_devices (im_reg m)) \<union> offer_id ` set (offers peer this ds) \<subseteq> dv_canonical ` set (rg_devices (im_reg m')) \<and>
    outside (offer_id ` set (offers peer this ds)) (im_reg m') = outside (offer_id ` set (offers peer this ds)) (im_reg m)"
  using assms
proof (induction ds arbitrary: m)
  case Nil
  then show ?case by (simp add: offers_def)
next
  case (Cons d ds)
  let ?A = "offer_id ` set (offers peer this [d])" and ?B = "offer_id ` set (offers peer this ds)"
  obtain r1 m1 where d: "import_device sha peer base now this d m = (r1, m1)" by (cases "import_device sha peer base now this d m")
  note e1 = import_device_effect [OF Cons.prems(1) d]
  have ok1: "fleet_ok this (im_reg m1)" using import_device_guarded [OF d] Cons.prems(1) by (simp add: guarded_def)
  have "import_loop sha peer base now this ds m1 = (r, m')" using Cons.prems(2) d e1 by simp
  note e2 = Cons.IH [OF ok1 this]
  have "outside (?A \<union> ?B) (im_reg m') = outside (?A \<union> ?B) (im_reg m1)" by (rule outside_mono [of ?B]) (use e2 in auto)
  also have "\<dots> = outside (?A \<union> ?B) (im_reg m)" by (rule outside_mono [of ?A]) (use e1 in auto)
  finally have same: "outside (?A \<union> ?B) (im_reg m') = outside (?A \<union> ?B) (im_reg m)" .
  have "dv_canonical ` set (rg_devices (im_reg m)) \<union> ?A \<subseteq> dv_canonical ` set (rg_devices (im_reg m'))"
    by (rule subset_trans [of _ "dv_canonical ` set (rg_devices (im_reg m1))"]) (use e1 e2 in simp_all)
  with same e1 e2 show ?case by (simp add: offers_Cons [of peer this d ds] image_Un)
qed

text \<open>Marking rows: those of the peer it did not list.\<close>

lemma map_if_twice:
  assumes "\<And>x. E (S x) \<longleftrightarrow> E x" and "\<And>x. S (S x) = S x"
  shows "map (\<lambda>x. if E x then S x else x) (map (\<lambda>x. if P x then S x else x) xs) = map (\<lambda>x. if P x \<or> E x then S x else x) xs"
  using assms by (induction xs) auto

lemma fold_set_state:
  "rg_devices (foldl (\<lambda>g row. if C row then set_state g (dv_id row) v else g) g rows) =
     map (\<lambda>d. if \<exists>row \<in> set rows. C row \<and> dv_id d = dv_id row then d\<lparr> dv_state := v \<rparr> else d) (rg_devices g)"
proof (induction rows arbitrary: g)
  case (Cons row rows)
  show ?case
  proof (cases "C row")
    case True
    let ?E = "\<lambda>d. \<exists>row \<in> set rows. C row \<and> dv_id d = dv_id row" and ?S = "\<lambda>d. d\<lparr> dv_state := v \<rparr>"
    have "rg_devices (foldl (\<lambda>g row. if C row then set_state g (dv_id row) v else g) g (row # rows)) =
        map (\<lambda>d. if ?E d then ?S d else d) (map (\<lambda>d. if dv_id d = dv_id row then ?S d else d) (rg_devices g))"
      unfolding foldl_Cons Cons.IH if_P [OF True] by (simp only: set_state_def update_device_fields update_where_def)
    also have "\<dots> = map (\<lambda>d. if dv_id d = dv_id row \<or> ?E d then ?S d else d) (rg_devices g)"
      by (rule map_if_twice) simp_all
    finally show ?thesis using True by simp
  qed (simp add: Cons.IH)
qed simp

lemma mark_unlisted_rows:
  assumes "registry_ok g"
  shows "rg_devices (mark_unlisted peer listed g) =
    map (\<lambda>d. if learned_from peer d \<and> dv_canonical d \<notin> set listed then d\<lparr> dv_state := ''gone'' \<rparr> else d) (rg_devices g)"
proof -
  let ?C = "\<lambda>row. dv_canonical row \<notin> set listed \<and> dv_state row \<noteq> ''gone''"
  have rows: "(\<exists>row \<in> set (devices_learned_via g (pr_name peer)). ?C row \<and> dv_id d = dv_id row) \<longleftrightarrow> learned_from peer d \<and> ?C d"
    if d: "d \<in> set (rg_devices g)" for d
  proof -
    have "set (devices_learned_via g (pr_name peer)) = map_device ` {e \<in> set (rg_devices g). learned_from peer e}"
      by (auto simp: devices_learned_via_def devices_where_def order_by_def learned_from_def)
    moreover have "dv_id d = dv_id e \<longleftrightarrow> e = d" if "e \<in> set (rg_devices g)" for e using id_unique [OF assms d that] by auto
    moreover have "dv_id (map_device e) = dv_id e" "dv_canonical (map_device e) = dv_canonical e" "dv_state (map_device e) = dv_state e" for e
      by (simp_all add: map_device_def)
    ultimately show ?thesis using d by auto
  qed
  have "d\<lparr> dv_state := ''gone'' \<rparr> = d" if "dv_state d = ''gone''" for d :: DeviceRow using that by simp
  then show ?thesis unfolding mark_unlisted_def fold_set_state using rows by (intro map_cong refl) auto
qed

text \<open>C33. An import from a peer never fails on a consistent registry. Afterwards every device it offers has a
  row under its owner's name and the owner's id, every row learned from this peer that it no longer
  offers is marked gone, and no row that is neither offered nor learned from it has changed.\<close>

theorem import_reflects_the_list:
  fixes peer :: PeerRow and this :: string
  assumes "fleet_ok this g" and "import_devices sha g peer ds base now this = (r, g')"
  shows "(\<exists>n. r = Inr n) \<and>
    (\<forall>f \<in> set (offers peer this ds). \<exists>x \<in> set (rg_devices g').
       dv_canonical x = offer_id f \<and> dv_node x = Some (of_owner f) \<and> dv_remote_canonical x = Some (of_owner_id f)) \<and>
    (\<forall>x \<in> set (rg_devices g'). learned_from peer x \<and> dv_canonical x \<notin> offer_id ` set (offers peer this ds) \<longrightarrow> dv_state x = ''gone'') \<and>
    filter (\<lambda>x. dv_canonical x \<notin> offer_id ` set (offers peer this ds) \<and> \<not> learned_from peer x) (rg_devices g') =
    filter (\<lambda>x. dv_canonical x \<notin> offer_id ` set (offers peer this ds) \<and> \<not> learned_from peer x) (rg_devices g)"
proof -
  let ?C = "offer_id ` set (offers peer this ds)"
  let ?m = "\<lparr> im_reg = g, im_added = 0, im_updated = 0, im_seen = [] \<rparr>"
  obtain r1 m where loop: "import_loop sha peer base now this ds ?m = (r1, m)" by (cases "import_loop sha peer base now this ds ?m")
  have e: "r1 = Inr ()" "set (im_seen m) = ?C" "?C \<subseteq> dv_canonical ` set (rg_devices (im_reg m))" "outside ?C (im_reg m) = outside ?C g"
    using import_loop_effect [OF _ loop] assms(1) by auto
  have okm: "fleet_ok this (im_reg m)" using import_loop_guarded [OF loop] assms(1) by (simp add: guarded_def)
  have r: "r = Inr (im_added m, im_updated m)" "g' = mark_unlisted peer (im_seen m) (im_reg m)"
    using assms(2) loop e(1) by (simp_all add: import_devices_def)
  have reg: "registry_ok (im_reg m)" using okm by (simp add: fleet_ok_def)
  have rows: "rg_devices g' = map (\<lambda>d. if learned_from peer d \<and> dv_canonical d \<notin> ?C then d\<lparr> dv_state := ''gone'' \<rparr> else d) (rg_devices (im_reg m))"
    by (simp add: r(2) mark_unlisted_rows [OF reg] e(2))
  have ok': "fleet_ok this g'" using mark_unlisted_guarded [of this "im_reg m" peer] okm by (simp add: guarded_def r(2))
  have there: "\<exists>x \<in> set (rg_devices g'). dv_canonical x = offer_id f \<and> dv_node x = Some (of_owner f) \<and> dv_remote_canonical x = Some (of_owner_id f)"
    if f: "f \<in> set (offers peer this ds)" for f
  proof -
    obtain d where d: "offer_of peer this d = Some f" using f by (auto simp: offers_def set_map_filter)
    have "offer_id f \<in> dv_canonical ` set (rg_devices (im_reg m))" using e(3) f by blast
    moreover have "map dv_canonical (rg_devices g') = map dv_canonical (rg_devices (im_reg m))" by (simp add: rows)
    then have "dv_canonical ` set (rg_devices g') = dv_canonical ` set (rg_devices (im_reg m))" by (metis set_map)
    ultimately have "offer_id f \<in> dv_canonical ` set (rg_devices g')" by simp
    then obtain x where "x \<in> set (rg_devices g')" "dv_canonical x = offer_id f" by (metis imageE)
    with offer_id_row [OF ok' this d] show ?thesis by blast
  qed
  have gone: "dv_state x = ''gone''" if "x \<in> set (rg_devices g')" "learned_from peer x" "dv_canonical x \<notin> ?C" for x
    using that by (auto simp: rows learned_from_def split: if_splits)
  have "filter (\<lambda>x. dv_canonical x \<notin> ?C \<and> \<not> learned_from peer x)
      (map (\<lambda>d. if learned_from peer d \<and> dv_canonical d \<notin> ?C then d\<lparr> dv_state := ''gone'' \<rparr> else d) xs) =
    filter (\<lambda>x. \<not> learned_from peer x) (filter (\<lambda>x. dv_canonical x \<notin> ?C) xs)" for xs
    by (induction xs) (auto simp: learned_from_def)
  then have "filter (\<lambda>x. dv_canonical x \<notin> ?C \<and> \<not> learned_from peer x) (rg_devices g') =
      filter (\<lambda>x. \<not> learned_from peer x) (outside ?C (im_reg m))" by (simp only: rows outside_def)
  also have "\<dots> = filter (\<lambda>x. dv_canonical x \<notin> ?C \<and> \<not> learned_from peer x) (rg_devices g)"
    by (simp only: e(4)) (simp add: outside_def conj_commute)
  finally show ?thesis using r(1) there gone by blast
qed

section \<open>A fleet of two\<close>

definition sample_registry :: Registry where
  "sample_registry = Registry_empty\<lparr> rg_devices := [device_of 1 ''/dev/ttyUSB0'' None ById None 5 ''dev.db''] \<rparr>"

definition sample_peer :: PeerRow where
  "sample_peer = advert_row \<lparr> ad_instance_id = ''i'', ad_name = ''alpha'', ad_version = ''1'', ad_mcp_url = ''u'', ad_dash_url = ''d'',
     ad_ser2net_host = ''h'', ad_ser2net_ports = [] \<rparr> Beacon True None 5"

definition sample_list :: "json list" where
  "sample_list = [JObj [(''device'', JStr ''/dev/ttyACM0''), (''endpoint'', JStr ''tcp://0.0.0.0:5001'')]]"

lemma sample_registry_ok: "fleet_ok ''bravo'' sample_registry"
proof -
  have "DeviceKind_of ''/dev/ttyUSB0'' = Local_device" by code_simp
  then show ?thesis
    by (simp add: fleet_ok_def registry_ok_def devices_ok_def sample_registry_def Registry_empty_def device_of_def nicknames_def ports_def row_ok_def)
qed

lemma sample_offers: "offers sample_peer ''bravo'' sample_list =
    [\<lparr> of_owner = ''alpha'', of_owner_id = ''/dev/ttyACM0'', of_relayed = False, of_hops = 1, of_endpoint = ''tcp://0.0.0.0:5001'' \<rparr>]"
proof -
  have "split_remote ''/dev/ttyACM0'' = None" "valid_node_name ''alpha''" "DeviceKind_of ''/dev/ttyACM0'' = Local_device" by code_simp+
  then show ?thesis
    by (simp add: offers_def sample_list_def offer_of_def sample_peer_def advert_row_def as_str_def as_u64_def as_bool_def unwrap_or_def str_or_empty_def)
qed

theorem import_reflects_the_list_witness:
  "\<exists>r g'. import_devices (\<lambda>_. []) sample_registry sample_peer sample_list 5000 9 ''bravo'' = (Inr r, g') \<and>
     (\<exists>x \<in> set (rg_devices g'). dv_canonical x = ''peer:alpha//dev/ttyACM0'' \<and> dv_node x = Some ''alpha'')"
proof -
  obtain r g' where i: "import_devices (\<lambda>_. []) sample_registry sample_peer sample_list 5000 9 ''bravo'' = (r, g')"
    by (cases "import_devices (\<lambda>_. []) sample_registry sample_peer sample_list 5000 9 ''bravo''")
  from import_reflects_the_list [OF sample_registry_ok i] obtain n x where "r = Inr n" "x \<in> set (rg_devices g')"
    "dv_canonical x = ''peer:alpha//dev/ttyACM0''" "dv_node x = Some ''alpha''"
    by (auto simp: sample_offers offer_id_def remote_canonical_def)
  with i show ?thesis by auto
qed

definition sample_reply :: "string \<Rightarrow> json res" where
  "sample_reply url = Inr (JObj [(''structuredContent'', JObj [(''devices'', JArr sample_list)])])"

theorem peering_leaves_own_boards_alone_witness:
  "\<exists>rep g' ps'. sync_all_as (\<lambda>_. []) sample_reply sample_registry [sample_peer] [sample_peer] 5000 9 ''bravo'' = (rep, g', ps') \<and>
     local_rows g' = rg_devices sample_registry"
proof -
  obtain rep g' ps' where s: "sync_all_as (\<lambda>_. []) sample_reply sample_registry [sample_peer] [sample_peer] 5000 9 ''bravo'' = (rep, g', ps')"
    by (rule prod_cases3)
  have "local_rows sample_registry = rg_devices sample_registry" by (simp add: local_rows_def sample_registry_def Registry_empty_def device_of_def)
  with peering_leaves_own_boards_alone [OF sample_registry_ok s] s show ?thesis by auto
qed

text \<open>A configured peer that comes back under a new identity is a second row with the same name that never
  expires: from then on the name is ambiguous.\<close>

lemma reinstalled_peer_is_ambiguous:
  "let a = \<lparr> ad_instance_id = ''i1'', ad_name = ''alpha'', ad_version = ''1'', ad_mcp_url = ''u'', ad_dash_url = ''d'', ad_ser2net_host = ''h'', ad_ser2net_ports = [] \<rparr>;
       ps = adopt_identity (adopt_identity [] ''u'' a None 1) ''u'' (a\<lparr> ad_instance_id := ''i2'' \<rparr>) None 2;
       (doomed, ps) = expire ps 1000000000 60 4
   in doomed = [] \<and> by_name ps ''alpha'' = Inl AmbiguousPeer"
  by code_simp

end
