(* ===== verification/Route_Laws.thy ===== *)
theory Route_Laws
  imports Route Inventory_Laws
begin

text \<open>
  What routing promises: a call stops after at most two visits of every node, whatever the tables of
  the nodes say while it travels, and a call that names a peer's device arrives at that device.
\<close>

section \<open>The path header\<close>

definition plain_name :: "string \<Rightarrow> bool" where
  "plain_name n \<longleftrightarrow> n \<noteq> [] \<and> CHR '','' \<notin> set n \<and> trim n = n"

lemma split_on_none: "c \<notin> set s \<Longrightarrow> split_on c s = [s]"
  by (induction s) auto

lemma path_header_round_trip: "list_all plain_name ps \<Longrightarrow> nc_path (set_call_path v (join_with '','' ps)) = ps"
proof (induction ps rule: induct_list012)
  case (3 p q ps)
  then show ?case by (simp add: set_call_path_def plain_name_def split_on_append)
qed (auto simp: set_call_path_def plain_name_def split_on_none trim_def trim_start_def trim_end_def)

section \<open>Where a call may go\<close>

lemma dial_node: "dial v p s = Inr h \<Longrightarrow> hp_node h = pr_name p \<and> hp_selector h = s"
  by (auto simp: dial_def split: if_splits)

lemma by_name_name:
  assumes "by_name ps n = Inr (Some p)"
  shows "p \<in> set ps \<and> pr_name p = n"
proof -
  let ?m = "filter (\<lambda>p. pr_name p = n) (all_peers ps)"
  have "?m \<noteq> [] \<and> p = hd ?m" using assms by (cases ?m) (auto simp: by_name_def Let_def split: if_splits)
  then have "p \<in> set ?m" using hd_in_set by blast
  then show ?thesis by (simp add: all_peers_def order_by_def)
qed

section \<open>A call on its way\<close>

text \<open>A call is at a node with the path header it arrived with. The node routes it with the name and the
  tables it has at that moment, one of those \<open>views\<close> allows it; \<open>reaches p m q\<close> says that what \<open>p\<close> has
  under the name \<open>m\<close>, an address or a worker polling under it, leads to the node \<open>q\<close>.\<close>

inductive passes :: "('n \<Rightarrow> NodeCtx \<Rightarrow> bool) \<Rightarrow> ('n \<Rightarrow> string \<Rightarrow> 'n \<Rightarrow> bool) \<Rightarrow> string \<Rightarrow> 'n \<times> string \<times> json_map \<Rightarrow> 'n \<times> string \<times> json_map \<Rightarrow> bool"
  for views :: "'n \<Rightarrow> NodeCtx \<Rightarrow> bool" and reaches :: "'n \<Rightarrow> string \<Rightarrow> 'n \<Rightarrow> bool" and tool :: string where
  passes_on: "views p v \<Longrightarrow> w = set_call_path v header \<Longrightarrow>
     plan w tool args = Inr (Remote m url out) \<or> plan w tool args = Inr (Reverse m out) \<Longrightarrow> next_path w m = Inr hops \<Longrightarrow> reaches p m q \<Longrightarrow>
     passes views reaches tool (p, header, args) (q, join_with '','' hops, out)"

inductive_cases passesE: "passes views reaches tool (p, header, args) s"

text \<open>No name is on a path more than twice, and the name of the node the call is at at most once.\<close>

definition path_ok :: "string set \<Rightarrow> string list \<Rightarrow> string \<Rightarrow> bool" where
  "path_ok nodes path n \<longleftrightarrow> n \<in> nodes \<and> set path \<subseteq> nodes \<and> (\<forall>x. count_list path x \<le> 2) \<and> count_list path n \<le> 1"

lemma path_ok_bound:
  assumes "finite nodes" and "path_ok nodes path n"
  shows "length path \<le> 2 * card nodes"
proof -
  have "length path = (\<Sum>x\<in>nodes. count_list path x)" using assms sum_count_set [of path nodes] by (simp add: path_ok_def)
  also have "\<dots> \<le> (\<Sum>x\<in>nodes. 2)" using assms(2) by (intro sum_mono) (simp add: path_ok_def)
  finally show ?thesis by simp
qed

lemma path_ok_step:
  assumes "path_ok nodes path n" and "m \<in> nodes" and "m \<notin> set path"
  shows "path_ok nodes (path @ [n]) m"
proof -
  have "count_list path m = 0" using assms(3) by (simp add: count_list_0_iff)
  with assms show ?thesis by (auto simp: path_ok_def)
qed

lemma passes_path:
  assumes "passes views reaches tool (p, header, args) (q, header', out)"
    and "\<And>v. views p v \<Longrightarrow> nc_name v = own p" and "\<And>m. reaches p m q \<Longrightarrow> m = own q" and "own q \<in> names"
    and "\<forall>x \<in> names. plain_name x" and "header = join_with '','' path" and "path_ok names path (own p)"
  shows "header' = join_with '','' (path @ [own p]) \<and> path_ok names (path @ [own p]) (own q)"
proof -
  obtain v m hops where v: "views p v" "header' = join_with '','' hops" "next_path (set_call_path v header) m = Inr hops" "reaches p m q"
    using assms(1) by (auto elim: passesE)
  have "list_all plain_name path" using assms(5,7) by (auto simp: path_ok_def list_all_iff)
  then have path: "nc_path (set_call_path v header) = path" by (simp add: assms(6) path_header_round_trip)
  have "own q \<notin> set path" "hops = path @ [own p]"
    using assms(2) [OF v(1)] assms(3) [OF v(4)] v(3) path by (auto simp: next_path_def set_call_path_def split: if_splits)
  then show ?thesis using path_ok_step [OF assms(7,4)] v(2) by simp
qed

text \<open>C36. Forwarding ends: however the tables of the nodes disagree and change while the call is on its way,
  it is sent on at most twice per name in the fleet. This rests on two assumptions about names:
  every node keeps one name of its own, without a comma or blanks at its ends, while the call
  travels, and a call sent to a name reaches only a node of the fleet with that own name. Without
  the second a call may go back and forth for ever, and a comma in a name breaks the path header;
  both are shown below.\<close>

theorem forwarding_ends:
  assumes "finite fleet" and "p \<in> fleet" and "\<forall>x \<in> fleet. plain_name (own x)"
    and "\<forall>x \<in> fleet. \<forall>v. views x v \<longrightarrow> nc_name v = own x"
    and "\<forall>x \<in> fleet. \<forall>m y. reaches x m y \<longrightarrow> y \<in> fleet \<and> m = own y"
    and "(passes views reaches tool ^^ k) (p, [], args) s"
  shows "k \<le> 2 * card (own ` fleet)"
proof -
  have "\<exists>path q out. s = (q, join_with '','' path, out) \<and> length path = k \<and> q \<in> fleet \<and> path_ok (own ` fleet) path (own q)"
    if "(passes views reaches tool ^^ k) (p, [], args) s" for k s
    using that
  proof (induction k arbitrary: s)
    case 0
    then show ?case using assms(2) by (auto simp: path_ok_def intro!: exI [of _ p])
  next
    case (Suc k)
    then obtain s1 where s1: "(passes views reaches tool ^^ k) (p, [], args) s1" "passes views reaches tool s1 s" by auto
    from Suc.IH [OF s1(1)] obtain path q out where at1: "s1 = (q, join_with '','' path, out)" "length path = k" "q \<in> fleet" "path_ok (own ` fleet) path (own q)"
      by blast
    obtain q' h' out' where s: "s = (q', h', out')" by (rule prod_cases3)
    have q': "q' \<in> fleet" using s1(2) at1(1,3) s assms(5) by (auto elim: passesE)
    have "h' = join_with '','' (path @ [own q]) \<and> path_ok (own ` fleet) (path @ [own q]) (own q')"
      by (rule passes_path [of views reaches tool q "join_with '','' path" out]) (use s1(2) at1 s q' assms(3-5) in auto)
    with at1 s q' show ?case by (intro exI [of _ "path @ [own q]"]) simp
  qed
  with assms(6) path_ok_bound [of "own ` fleet"] assms(1) show ?thesis by blast
qed

section \<open>What arrives\<close>

text \<open>A selector that starts with a slash names no node.\<close>

lemma slash_not_scoped: "c = CHR ''/'' # r \<Longrightarrow> scoped_selector v c = Inr None"
  by (simp add: scoped_selector_def split_once_def)

lemma plan_device:
  assumes "tool \<notin> set NEVER_FEDERATED" and "map_of args ''device'' = Some (JStr sel)" and "owner_of v ''device'' sel = Inr (Some (b, c))"
    and "next_hop v b ''device'' sel = Inr h"
  shows "plan v tool args = Inr (case hp_url h of Some url \<Rightarrow> Remote (hp_node h) url (jm_insert ''device'' (JStr (unwrap_or c (hp_selector h))) args)
    | None \<Rightarrow> Reverse (hp_node h) (jm_insert ''device'' (JStr (unwrap_or c (hp_selector h))) args))"
  using assms by (simp add: plan_def SELECTORS_def as_str_def and_then_def Let_def)

text \<open>A call leaves with these arguments for that node, over either wire.\<close>

definition leaves :: "NodeCtx \<Rightarrow> string \<Rightarrow> json_map \<Rightarrow> string \<Rightarrow> json_map \<Rightarrow> bool" where
  "leaves v tool args m out \<longleftrightarrow> (case plan v tool args of Inr (Remote n url o1) \<Rightarrow> n = m \<and> o1 = out | Inr (Reverse n o1) \<Rightarrow> n = m \<and> o1 = out | _ \<Rightarrow> False)"

lemma leaves_device:
  assumes "tool \<notin> set NEVER_FEDERATED" and "map_of args ''device'' = Some (JStr sel)" and "owner_of v ''device'' sel = Inr (Some (b, c))"
    and "next_hop v b ''device'' sel = Inr h"
  shows "leaves v tool args (hp_node h) (jm_insert ''device'' (JStr (unwrap_or c (hp_selector h))) args)"
  using plan_device [OF assms] by (simp add: leaves_def split: option.split)

text \<open>At the owner the call is local, and its selector is exactly the device with that id.\<close>

lemma resolve_one: "resolve g s = Inr d \<Longrightarrow> resolve_all g s = Inr [d]"
  by (auto simp: resolve_def and_then_def split: sum.splits list.splits)

lemma read_row_kind: "dv_kind (read_row g d) = dv_kind d"
proof -
  have "dv_kind (foldl (\<lambda>d (i, k, v). if i = dv_id d then d\<lparr> dv_tags := bt_insert k v (dv_tags d) \<rparr> else d) d ts) = dv_kind d"
    for ts :: "(int \<times> string \<times> string) list" and d :: DeviceRow
    by (induction ts arbitrary: d) auto
  then show ?thesis by (simp add: read_row_def attach_tags_def map_device_def)
qed

definition owns :: "NodeCtx \<Rightarrow> DeviceRow \<Rightarrow> string \<Rightarrow> bool" where
  "owns w d c \<longleftrightarrow> registry_ok (nc_registry w) \<and> d \<in> set (rg_devices (nc_registry w)) \<and> dv_canonical d = c \<and> starts_with ''/'' c \<and> trim c = c \<and>
     c \<notin> set (nicknames (rg_devices (nc_registry w)))"

lemma owner_runs_it:
  assumes "owns w d c" and args: "map_of args ''device'' = Some (JStr c)" "map_of args ''target'' = None"
  shows "plan w tool args = Inr Local \<and> resolve (nc_registry w) c = device (nc_registry w) (dv_id d)"
proof -
  let ?g = "nc_registry w"
  have d: "registry_ok ?g" "d \<in> set (rg_devices ?g)" "dv_canonical d = c" "trim c = c" "c \<notin> set (nicknames (rg_devices ?g))"
    using assms(1) by (simp_all add: owns_def)
  obtain r where c: "c = CHR ''/'' # r" using assms(1) by (cases c) (auto simp: owns_def starts_with_def)
  have found: "resolve ?g c = device ?g (dv_id d)" using names_address_devices [OF d(1,2,4)] d(3,5) c by simp
  then have rows: "resolve_all ?g c = Inr [read_row ?g d]" using device_read [OF d(1,2)] resolve_one by simp
  have "dv_kind d = DeviceKind_of c" using d(1-3) by (auto simp: registry_ok_def devices_ok_def list_all_iff)
  then have "dv_kind (read_row ?g d) \<noteq> Remote_device" by (simp add: read_row_kind c DeviceKind_of_def starts_with_def)
  then have "owner_of w ''device'' c = Inr None"
    by (simp add: owner_of_def slash_not_scoped [OF c] scoped_target_def selected_rows_def rows owner_of_rows_def and_then_def)
  then have "plan w tool args = Inr Local" using args by (simp add: plan_def SELECTORS_def as_str_def and_then_def)
  with found show ?thesis by simp
qed

text \<open>A selector that finds one row, and that row is a peer's.\<close>

definition names_remote :: "NodeCtx \<Rightarrow> string \<Rightarrow> DeviceRow \<Rightarrow> string \<Rightarrow> string \<Rightarrow> bool" where
  "names_remote v sel r b c \<longleftrightarrow> scoped_selector v sel = Inr None \<and> resolve_all (nc_registry v) sel = Inr [r] \<and> dv_kind r = Remote_device \<and>
     dv_node r = Some b \<and> dv_remote_canonical r = Some c"

lemma remote_owner: "names_remote v sel r b c \<Longrightarrow> owner_of v ''device'' sel = Inr (Some (b, c))"
  by (simp add: names_remote_def owner_of_def scoped_target_def selected_rows_def owner_of_rows_def remote_selector_def unwrap_or_def and_then_def)

definition only_device :: "string \<Rightarrow> json_map \<Rightarrow> string \<Rightarrow> bool" where
  "only_device tool args sel \<longleftrightarrow> tool \<notin> set NEVER_FEDERATED \<and> map_of args ''device'' = Some (JStr sel) \<and> map_of args ''target'' = None"

lemma only_device_insert: "only_device tool args sel \<Longrightarrow> only_device tool (jm_insert ''device'' (JStr s) args) s"
  by (simp add: only_device_def map_of_jm_insert)

text \<open>C35. A call that names a peer's board arrives there: when the selector means one row and it is a
  directly peered node's, the call leaves for that node with the board's own id and otherwise the
  same arguments, the node runs it itself, and the id means that board there.\<close>

theorem call_reaches_the_board:
  assumes "only_device tool args sel" and "names_remote v sel r b c" and "by_name (nc_peers v) b = Inr (Some p)" and "dial v p None = Inr h"
    and "owns w d c"
  shows "\<exists>out. leaves v tool args b out \<and> map_of out = (map_of args)(''device'' \<mapsto> JStr c) \<and> plan w tool out = Inr Local \<and>
    resolve (nc_registry w) c = device (nc_registry w) (dv_id d)"
proof -
  let ?out = "jm_insert ''device'' (JStr c) args"
  have h: "next_hop v b ''device'' sel = Inr h" "hp_node h = b" "hp_selector h = None"
    using assms(3,4) dial_node [OF assms(4)] by_name_name [OF assms(3)] by (simp_all add: next_hop_def and_then_def)
  have "leaves v tool args b ?out"
    using leaves_device [OF _ _ remote_owner [OF assms(2)] h(1)] assms(1) h(2,3) by (simp add: only_device_def unwrap_or_def)
  moreover have "only_device tool ?out c" using only_device_insert assms(1) by blast
  ultimately show ?thesis using owner_runs_it [OF assms(5), of ?out tool] by (auto simp: only_device_def map_of_jm_insert)
qed

text \<open>The same through a relay: the neighbour the board was learned from gets a selector that names the
  owner, passes the call on to it with the board's own id, and the owner runs it on that board.\<close>

theorem relayed_call_reaches_the_board:
  assumes "only_device tool args sel" and "names_remote v sel r b c" and "by_name (nc_peers v) b = Inr None" and "dv_via r = Some t"
    and "by_name (nc_peers v) t = Inr (Some p)" and "dial v p (Some (b @ ''/'' @ c)) = Inr h"
    and "valid_node_name b" and "by_name (nc_peers u) b = Inr (Some q)" and "dial u q None = Inr k" and "owns w d c"
  shows "\<exists>mid out. leaves v tool args t mid \<and> leaves u tool mid b out \<and> map_of out = (map_of args)(''device'' \<mapsto> JStr c) \<and>
    plan w tool out = Inr Local \<and> resolve (nc_registry w) c = device (nc_registry w) (dv_id d)"
proof -
  let ?mid = "jm_insert ''device'' (JStr (b @ ''/'' @ c)) args" and ?out = "jm_insert ''device'' (JStr c) (jm_insert ''device'' (JStr (b @ ''/'' @ c)) args)"
  have h: "next_hop v b ''device'' sel = Inr h" "hp_node h = t" "hp_selector h = Some (b @ ''/'' @ c)"
    using assms(2-6) dial_node [OF assms(6)] by_name_name [OF assms(5)]
    by (simp_all add: next_hop_def names_remote_def selected_rows_def unwrap_or_def and_then_def)
  have mid: "leaves v tool args t ?mid"
    using leaves_device [OF _ _ remote_owner [OF assms(2)] h(1)] assms(1) h(2,3) by (simp add: only_device_def unwrap_or_def)
  have only: "only_device tool ?mid (b @ ''/'' @ c)" "only_device tool ?out c" using only_device_insert assms(1) by blast+
  have b: "CHR ''/'' \<notin> set b" "b \<noteq> []" using assms(7) by (simp_all add: valid_node_name_def)
  have c: "c \<noteq> []" using assms(10) by (auto simp: owns_def starts_with_def)
  have "\<not> starts_with ''/'' (b @ ''/'' @ c)" using b by (cases b) (auto simp: starts_with_def)
  then have "owner_of u ''device'' (b @ ''/'' @ c) = Inr (Some (b, c))"
    using b c assms(8) split_once_append [of "CHR ''/''" b c] by (simp add: owner_of_def scoped_selector_def known_node_def and_then_def)
  moreover have "next_hop u b ''device'' (b @ ''/'' @ c) = Inr k" "hp_node k = b" "hp_selector k = None"
    using assms(8,9) dial_node [OF assms(9)] by_name_name [OF assms(8)] by (simp_all add: next_hop_def and_then_def)
  ultimately have "leaves u tool ?mid b ?out"
    using leaves_device [of tool ?mid "b @ ''/'' @ c" u b c k] only(1) by (simp add: only_device_def unwrap_or_def)
  with mid only(2) owner_runs_it [OF assms(10), of ?out tool] show ?thesis
    by (intro exI [of _ ?mid] exI [of _ ?out]) (simp add: only_device_def map_of_jm_insert)
qed

section \<open>A fleet of three\<close>

definition node_ctx :: "string \<Rightarrow> DeviceRow list \<Rightarrow> string list \<Rightarrow> NodeCtx" where
  "node_ctx n ds ps = \<lparr> nc_name = n, nc_holder = ''mcp'', nc_origin = [], nc_path = [], nc_registry = Registry_empty\<lparr> rg_devices := ds \<rparr>,
     nc_peers = map (\<lambda>p. advert_row \<lparr> ad_instance_id = p, ad_name = p, ad_version = ''1'', ad_mcp_url = p, ad_dash_url = [], ad_ser2net_host = [],
       ad_ser2net_ports = [] \<rparr> Beacon True None 5) ps,
     nc_relay = RelayQueue_new, nc_now = 9 \<rparr>"

definition alpha_board :: DeviceRow where
  "alpha_board = device_of 1 ''/dev/ttyACM0'' None ById None 5 ''a.db''"

definition remote_board :: "string option \<Rightarrow> DeviceRow" where
  "remote_board via = (device_of 1 ''peer:alpha//dev/ttyACM0'' None ById None 5 ''p.db'')\<lparr> dv_node := Some ''alpha'',
     dv_remote_canonical := Some ''/dev/ttyACM0'', dv_via := via, dv_nickname := Some ''ventuno'' \<rparr>"

lemma node_ctx_fields [simp]:
  "nc_name (node_ctx n ds ps) = n" "nc_path (node_ctx n ds ps) = []" "rg_devices (nc_registry (node_ctx n ds ps)) = ds"
  "nc_relay (node_ctx n ds ps) = RelayQueue_new"
  by (simp_all add: node_ctx_def Registry_empty_def)

lemma one_device_ok: "dv_kind d = DeviceKind_of (dv_canonical d) \<Longrightarrow> dv_tags d = [] \<Longrightarrow> registry_ok (nc_registry (node_ctx n [d] ps))"
  by (simp add: node_ctx_def Registry_empty_def registry_ok_def devices_ok_def nicknames_def ports_def split: option.split)

lemma alpha_owns: "owns (node_ctx ''alpha'' [alpha_board] ps) alpha_board ''/dev/ttyACM0''"
proof -
  have "starts_with ''/'' ''/dev/ttyACM0''" "trim ''/dev/ttyACM0'' = ''/dev/ttyACM0''" by code_simp+
  then show ?thesis by (simp add: owns_def one_device_ok alpha_board_def device_of_def nicknames_def)
qed

lemma ventuno_is_remote:
  "names_remote (node_ctx n [remote_board via] ps) ''ventuno'' (read_row (nc_registry (node_ctx n [remote_board via] ps)) (remote_board via)) ''alpha'' ''/dev/ttyACM0''"
proof -
  let ?g = "nc_registry (node_ctx n [remote_board via] ps)"
  have kind: "DeviceKind_of ''peer:alpha//dev/ttyACM0'' = Remote_device" and trim: "trim ''ventuno'' = ''ventuno''" by code_simp+
  have ok: "registry_ok ?g" by (rule one_device_ok) (simp_all add: remote_board_def device_of_def)
  have "resolve ?g ''ventuno'' = device ?g (dv_id (remote_board via))"
    by (rule names_address_devices [OF ok]) (simp_all add: trim, simp add: remote_board_def)
  then have rows: "resolve_all ?g ''ventuno'' = Inr [read_row ?g (remote_board via)]" using device_read [OF ok, of "remote_board via"] resolve_one by simp
  show ?thesis
    by (simp only: names_remote_def rows)
      (simp add: scoped_selector_def split_once_def read_row_kind, simp add: remote_board_def device_of_def kind read_row_def attach_tags_def map_device_def
        node_ctx_def Registry_empty_def)
qed

theorem call_reaches_the_board_witness:
  "\<exists>out. leaves (node_ctx ''bravo'' [remote_board None] [''alpha'']) ''power'' [(''device'', JStr ''ventuno''), (''action'', JStr ''on'')] ''alpha'' out \<and>
     map_of out = [''device'' \<mapsto> JStr ''/dev/ttyACM0'', ''action'' \<mapsto> JStr ''on'']"
proof -
  let ?v = "node_ctx ''bravo'' [remote_board None] [''alpha'']" and ?args = "[(''device'', JStr ''ventuno''), (''action'', JStr ''on'')]"
  have only: "only_device ''power'' ?args ''ventuno''" by (simp add: only_device_def NEVER_FEDERATED_def)
  obtain p where p: "by_name (nc_peers ?v) ''alpha'' = Inr (Some p)" "pr_ok p" "pr_mcp_url p = ''alpha''"
    by (simp add: node_ctx_def by_name_def all_peers_def order_by_def advert_row_def)
  then obtain h where h: "dial ?v p None = Inr h" by (simp add: dial_def)
  from call_reaches_the_board [OF only ventuno_is_remote p(1) h alpha_owns [of "[]"]] show ?thesis
    by (auto simp: fun_upd_twist)
qed

theorem relayed_call_reaches_the_board_witness:
  "\<exists>mid out. leaves (node_ctx ''carol'' [remote_board (Some ''bravo'')] [''bravo'']) ''power'' [(''device'', JStr ''ventuno'')] ''bravo'' mid \<and>
     leaves (node_ctx ''bravo'' [] [''alpha'', ''carol'']) ''power'' mid ''alpha'' out \<and> map_of out = [''device'' \<mapsto> JStr ''/dev/ttyACM0'']"
proof -
  let ?v = "node_ctx ''carol'' [remote_board (Some ''bravo'')] [''bravo'']" and ?u = "node_ctx ''bravo'' [] [''alpha'', ''carol'']"
  have only: "only_device ''power'' [(''device'', JStr ''ventuno'')] ''ventuno''" by (simp add: only_device_def NEVER_FEDERATED_def)
  have via: "dv_via (read_row (nc_registry ?v) (remote_board (Some ''bravo''))) = Some ''bravo''"
    by (simp add: read_row_def attach_tags_def map_device_def node_ctx_def Registry_empty_def remote_board_def)
  have none: "by_name (nc_peers ?v) ''alpha'' = Inr None"
    by (simp add: node_ctx_def by_name_def all_peers_def order_by_def advert_row_def)
  obtain p where p: "by_name (nc_peers ?v) ''bravo'' = Inr (Some p)" "pr_ok p" "pr_mcp_url p = ''bravo''"
    by (simp add: node_ctx_def by_name_def all_peers_def order_by_def advert_row_def)
  then obtain h where h: "dial ?v p (Some (''alpha'' @ ''/'' @ ''/dev/ttyACM0'')) = Inr h" by (simp add: dial_def)
  have "(''alpha'' :: string) \<le> ''carol''" by code_simp
  then obtain q where q: "by_name (nc_peers ?u) ''alpha'' = Inr (Some q)" "pr_ok q" "pr_mcp_url q = ''alpha''"
    by (simp add: node_ctx_def by_name_def all_peers_def order_by_def advert_row_def)
  then obtain k where k: "dial ?u q None = Inr k" by (simp add: dial_def)
  have "valid_node_name ''alpha''" by code_simp
  from relayed_call_reaches_the_board [OF only ventuno_is_remote none via p(1) h this q(1) k alpha_owns [of "[]"]] show ?thesis
    by auto
qed

theorem forwarding_ends_witness:
  "\<exists>s. (passes (\<lambda>n v. v = node_ctx ''bravo'' [remote_board None] [''alpha''] \<and> n = ''bravo'') (\<lambda>n m q. m = ''alpha'' \<and> q = ''alpha'') ''power'' ^^ 1)
       (''bravo'', [], [(''device'', JStr ''ventuno'')]) s \<and> (1 :: nat) \<le> 2 * card {''alpha'', ''bravo''}"
proof -
  let ?v = "node_ctx ''bravo'' [remote_board None] [''alpha'']" and ?args = "[(''device'', JStr ''ventuno'')]"
  let ?views = "\<lambda>n v. v = ?v \<and> n = ''bravo''" and ?reaches = "\<lambda>n m q. m = ''alpha'' \<and> q = ''alpha''"
  have only: "only_device ''power'' ?args ''ventuno''" by (simp add: only_device_def NEVER_FEDERATED_def)
  obtain p where p: "by_name (nc_peers ?v) ''alpha'' = Inr (Some p)" "pr_ok p" "pr_mcp_url p = ''alpha''" "pr_name p = ''alpha''"
    by (simp add: node_ctx_def by_name_def all_peers_def order_by_def advert_row_def)
  have "next_hop ?v ''alpha'' ''device'' ''ventuno'' = Inr \<lparr> hp_node = ''alpha'', hp_url = Some ''alpha'', hp_selector = None \<rparr>"
    using p by (simp add: next_hop_def and_then_def dial_def)
  from plan_device [OF _ _ remote_owner [OF ventuno_is_remote] this, of "''power''" ?args] only
  have "plan ?v ''power'' ?args = Inr (Remote ''alpha'' ''alpha'' [(''device'', JStr ''/dev/ttyACM0'')])"
    by (simp add: only_device_def unwrap_or_def)
  moreover have "set_call_path ?v [] = ?v" by (simp add: set_call_path_def trim_def trim_start_def trim_end_def node_ctx_def)
  moreover have "next_path ?v ''alpha'' = Inr [''bravo'']" by (simp add: next_path_def)
  ultimately have "passes ?views ?reaches ''power'' (''bravo'', [], ?args) (''alpha'', ''bravo'', [(''device'', JStr ''/dev/ttyACM0'')])"
    using passes_on [of ?views "''bravo''" ?v ?v "[]" "''power''" ?args "''alpha''" "''alpha''" "[(''device'', JStr ''/dev/ttyACM0'')]" "[''bravo'']" ?reaches "''alpha''"]
    by simp
  then have step: "(passes ?views ?reaches ''power'' ^^ 1) (''bravo'', [], ?args) (''alpha'', ''bravo'', [(''device'', JStr ''/dev/ttyACM0'')])"
    by (simp add: eq_OO)
  have own: "nc_name ?v = ''bravo''" by (simp add: node_ctx_def)
  have plain: "plain_name ''alpha''" "plain_name ''bravo''" by code_simp+
  have "(1 :: nat) \<le> 2 * card (id ` {''alpha'', ''bravo''})"
  proof (rule forwarding_ends [OF _ _ _ _ _ step])
    show "\<forall>x \<in> {''alpha'', ''bravo''}. \<forall>v. ?views x v \<longrightarrow> nc_name v = id x" using own by simp
    show "\<forall>x \<in> {''alpha'', ''bravo''}. plain_name (id x)" using plain by simp
  qed simp_all
  then have "(1 :: nat) \<le> 2 * card {''alpha'', ''bravo''}" by (simp only: image_id id_apply)
  with step show ?thesis by blast
qed

section \<open>Where the code and its comments part\<close>

text \<open>The loop check asks for the name about to be called, not for the own one: a node that is on the path
  already sends the call on. Two renamed nodes whose rows still have the old names of each other
  hand a call back and forth for ever.\<close>

lemma own_name_not_checked: "m \<notin> set (nc_path v) \<Longrightarrow> next_path v m = Inr (nc_path v @ [nc_name v])"
  by (simp add: next_path_def)

lemma renamed_nodes_never_refuse:
  assumes "set path \<subseteq> {''alpha2'', ''bravo2''}"
  shows "next_path ((node_ctx ''alpha2'' ds [''bravo''])\<lparr> nc_path := path \<rparr>) ''bravo'' = Inr (path @ [''alpha2''])"
    "next_path ((node_ctx ''bravo2'' ds [''alpha''])\<lparr> nc_path := path \<rparr>) ''alpha'' = Inr (path @ [''bravo2''])"
  using assms by (auto simp: next_path_def)

text \<open>A comma is allowed in the name of a node and separates the names of a path.\<close>

lemma comma_splits_the_path:
  "valid_node_name ''a,b''" "nc_path (set_call_path v (join_with '','' [''a,b''])) = [''a'', ''b'']"
proof -
  show "valid_node_name ''a,b''" by code_simp
  have "filter (\<lambda>p. p \<noteq> []) (map trim (split_on (CHR '','') (join_with '','' [''a,b'']))) = [''a'', ''b'']" by code_simp
  then show "nc_path (set_call_path v (join_with '','' [''a,b''])) = [''a'', ''b'']" by (simp add: set_call_path_def)
qed

text \<open>An error of the owner keeps its code for eleven codes and is an internal error for the others.\<close>

lemma owner_codes:
  "parse_code (ErrorCode_as_str c) = (if c \<in> {UnknownDevice, AmbiguousDevice, DeviceGone, LeaseRequired, LeaseHeld, InvalidArgument, HookFailed, HookTimeout,
     ActuationInFlight, AwayInEdl, NormalBootAborted} then c else Internal)"
  by (cases c) (simp_all add: parse_code_def)

text \<open>Without a wish of the caller a call waits 30 seconds at the caller and 45 at a worker.\<close>

lemma hop_budgets_differ: "call_budget ''status'' [] = 30" "hop_budget ''status'' (JObj []) = 45"
  by (simp_all add: call_budget_def hop_budget_def asked_budget_def budget_floor_def as_u64_def)

end
