(* ===== verification/Hooks.thy ===== *)
theory Hooks
  imports Rust_Result
begin

text \<open>
  External command hooks (\<^verbatim>\<open>hooks.rs\<close>): how a template becomes an argument vector, and the lock and
  the shared answer of a controller. Starting the process is a parameter; each definition of the
  controller part is what a caller does while it holds the controller's lock.
\<close>

section \<open>Commands\<close>

datatype PowerAction = On | Off | Cycle | Reset

fun PowerAction_as_str :: "PowerAction \<Rightarrow> string" where
  "PowerAction_as_str On = ''on''"
| "PowerAction_as_str Off = ''off''"
| "PowerAction_as_str Cycle = ''cycle''"
| "PowerAction_as_str Reset = ''reset''"

definition PowerAction_parse :: "string \<Rightarrow> PowerAction res" where
  "PowerAction_parse s =
     (if s = ''on'' then Inr On else if s = ''off'' then Inr Off else if s = ''cycle'' then Inr Cycle
      else if s = ''reset'' then Inr Reset else Inl InvalidArgument)"

record HookResult =
  hr_command :: string
  hr_exit_code :: "int option"
  hr_stdout :: string
  hr_stderr :: string
  hr_duration_ms :: nat

text \<open>\<^verbatim>\<open>shell_split\<close>: the pieces found, the one being read, and the quote that is open.\<close>

record SplitState =
  ss_out :: "string list"
  ss_cur :: string
  ss_quote :: "char option"

definition split_char :: "SplitState \<Rightarrow> char \<Rightarrow> SplitState" where
  "split_char st c =
     (if (c = CHR 0x27 \<or> c = CHR 0x22) \<and> ss_quote st = None then st\<lparr> ss_quote := Some c \<rparr>
      else if ss_quote st = Some c then st\<lparr> ss_quote := None \<rparr>
      else if is_ws c \<and> ss_quote st = None
           then if ss_cur st = [] then st else st\<lparr> ss_out := ss_out st @ [ss_cur st], ss_cur := [] \<rparr>
      else st\<lparr> ss_cur := ss_cur st @ [c] \<rparr>)"

definition shell_split :: "string \<Rightarrow> string list" where
  "shell_split s =
     (let st = foldl split_char \<lparr> ss_out = [], ss_cur = [], ss_quote = None \<rparr> s
      in if ss_cur st = [] then ss_out st else ss_out st @ [ss_cur st])"

type_synonym substitutions = "(string \<times> string) list"

definition render :: "string \<Rightarrow> substitutions \<Rightarrow> string list" where
  "render template subs =
     map (\<lambda>tok. foldl (\<lambda>t (k, v). str_replace (''{'' @ k @ ''}'') v t) tok subs) (shell_split template)"

definition lock_key :: "substitutions \<Rightarrow> string option" where
  "lock_key subs =
     map_option snd (case find (\<lambda>(k, v). k = ''controller'' \<and> v \<noteq> []) subs of
        Some kv \<Rightarrow> Some kv | None \<Rightarrow> find (\<lambda>(k, v). k = ''device'' \<and> v \<noteq> []) subs)"

section \<open>The process\<close>

text \<open>How starting and waiting for the process ended.\<close>

datatype Spawned = Cannot_run | Wait_failed | Not_finished | Exited "int option" string string nat

definition spawn_hook :: "(string list \<Rightarrow> Spawned) \<Rightarrow> string \<Rightarrow> substitutions \<Rightarrow> HookResult res" where
  "spawn_hook run template subs =
     (let argv = render template subs
      in if argv = [] then Inl HookNotConfigured
         else case run argv of
                Cannot_run \<Rightarrow> Inl HookFailed
              | Wait_failed \<Rightarrow> Inl HookFailed
              | Not_finished \<Rightarrow> Inl HookTimeout
              | Exited code out err ms \<Rightarrow>
                  if code = Some 0
                  then Inr \<lparr> hr_command = join_with '' '' argv, hr_exit_code = code, hr_stdout = out, hr_stderr = err, hr_duration_ms = ms \<rparr>
                  else Inl HookFailed)"

section \<open>One controller\<close>

text \<open>What is kept under the lock of a controller: the last answer of a probe and when it was there.\<close>

type_synonym Controller = "(int \<times> HookResult) option"

text \<open>A probe that has the lock: the answer to share, if there is one.\<close>

definition probe_shared :: "Controller \<Rightarrow> int \<Rightarrow> string \<Rightarrow> HookResult option" where
  "probe_shared slot arrived question =
     (case slot of Some (done_at, result) \<Rightarrow> if done_at \<ge> arrived \<and> hr_command result = question then Some result else None
      | None \<Rightarrow> None)"

definition probe_question :: "string \<Rightarrow> substitutions \<Rightarrow> string" where
  "probe_question template subs = join_with '' '' (render template subs)"

text \<open>What a probe leaves in the slot after running its hook, and an actuation before running its own.\<close>

definition probe_store :: "Controller \<Rightarrow> HookResult res \<Rightarrow> int \<Rightarrow> Controller" where
  "probe_store slot result now = (case result of Inr r \<Rightarrow> Some (now, r) | Inl _ \<Rightarrow> slot)"

definition run_clear :: "Controller \<Rightarrow> Controller" where
  "run_clear slot = None"

text \<open>A call of the hook from one thread, with nobody else at the controller: the lock is taken, the slot
  is consulted or cleared, and the process runs. Without a key there is no lock.\<close>

definition probe_alone ::
    "(string list \<Rightarrow> Spawned) \<Rightarrow> Controller \<Rightarrow> string \<Rightarrow> substitutions \<Rightarrow> int \<Rightarrow> int \<Rightarrow> HookResult res \<times> Controller" where
  "probe_alone run slot template subs arrived done_at =
     (if lock_key subs = None then (spawn_hook run template subs, slot)
      else case probe_shared slot arrived (probe_question template subs) of
             Some result \<Rightarrow> (Inr result, slot)
           | None \<Rightarrow> let result = spawn_hook run template subs in (result, probe_store slot result done_at))"

definition run_alone :: "(string list \<Rightarrow> Spawned) \<Rightarrow> Controller \<Rightarrow> string \<Rightarrow> substitutions \<Rightarrow> HookResult res \<times> Controller" where
  "run_alone run slot template subs =
     (spawn_hook run template subs, if lock_key subs = None then slot else run_clear slot)"

end
