(* ===== verification/Hook_Laws.thy ===== *)
theory Hook_Laws
  imports Hooks
begin

text \<open>
  What the lock of a controller promises (\<^verbatim>\<open>hooks.rs\<close>): its hooks never overlap, and the answer a probe
  gets is of a hook that began after every actuation in sight. The threads are the steps of a
  relation that keeps a log of what happened, newest first.
\<close>

section \<open>The threads at one controller\<close>

record HookCall =
  hc_probe :: bool
  hc_template :: string
  hc_subs :: substitutions
  hc_arrived :: int

definition question_of :: "HookCall \<Rightarrow> string" where
  "question_of c = probe_question (hc_template c) (hc_subs c)"

datatype HookEvent = Began nat HookCall | Ended nat HookCall "HookResult res" int | Answered nat HookCall "HookResult res"

record HookNet =
  hn_clock :: int
  hn_slot :: Controller
  hn_busy :: "(nat \<times> HookCall) option"
  hn_waiting :: "(nat \<times> HookCall) set"
  hn_log :: "HookEvent list"

definition hook_start :: "int \<Rightarrow> HookNet" where
  "hook_start t = \<lparr> hn_clock = t, hn_slot = None, hn_busy = None, hn_waiting = {}, hn_log = [] \<rparr>"

text \<open>A call arrives; when it gets the lock it shares an answer or begins its hook, an actuation after
  clearing the slot; the hook ends somehow, which releases the lock.\<close>

inductive hstep :: "HookNet \<Rightarrow> HookNet \<Rightarrow> bool" where
  clock: "t \<ge> hn_clock n \<Longrightarrow> hstep n (n\<lparr> hn_clock := t \<rparr>)"
| arrive: "hc_arrived c = hn_clock n \<Longrightarrow> lock_key (hc_subs c) \<noteq> None \<Longrightarrow> hstep n (n\<lparr> hn_waiting := insert (i, c) (hn_waiting n) \<rparr>)"
| share: "hn_busy n = None \<Longrightarrow> (i, c) \<in> hn_waiting n \<Longrightarrow> hc_probe c \<Longrightarrow> probe_shared (hn_slot n) (hc_arrived c) (question_of c) = Some r \<Longrightarrow>
     hstep n (n\<lparr> hn_waiting := hn_waiting n - {(i, c)}, hn_log := Answered i c (Inr r) # hn_log n \<rparr>)"
| begin_probe: "hn_busy n = None \<Longrightarrow> (i, c) \<in> hn_waiting n \<Longrightarrow> hc_probe c \<Longrightarrow> probe_shared (hn_slot n) (hc_arrived c) (question_of c) = None \<Longrightarrow>
     hstep n (n\<lparr> hn_waiting := hn_waiting n - {(i, c)}, hn_busy := Some (i, c), hn_log := Began i c # hn_log n \<rparr>)"
| begin_run: "hn_busy n = None \<Longrightarrow> (i, c) \<in> hn_waiting n \<Longrightarrow> \<not> hc_probe c \<Longrightarrow>
     hstep n (n\<lparr> hn_waiting := hn_waiting n - {(i, c)}, hn_busy := Some (i, c), hn_slot := run_clear (hn_slot n), hn_log := Began i c # hn_log n \<rparr>)"
| finish: "hn_busy n = Some (i, c) \<Longrightarrow> r = spawn_hook process (hc_template c) (hc_subs c) \<Longrightarrow>
     hstep n (n\<lparr> hn_busy := None, hn_slot := (if hc_probe c then probe_store (hn_slot n) r (hn_clock n) else hn_slot n),
       hn_log := Answered i c r # Ended i c r (hn_clock n) # hn_log n \<rparr>)"

inductive_cases hstepE: "hstep n m"

definition hook_reachable :: "HookNet \<Rightarrow> bool" where
  "hook_reachable n \<longleftrightarrow> (\<exists>t. hstep\<^sup>*\<^sup>* (hook_start t) n)"

section \<open>Order\<close>

fun hook_event :: "HookEvent \<Rightarrow> bool" where
  "hook_event (Began i c) = True"
| "hook_event (Ended i c r t) = True"
| "hook_event (Answered i c r) = False"

fun actuation_event :: "HookEvent \<Rightarrow> bool" where
  "actuation_event (Began i c) = (\<not> hc_probe c)"
| "actuation_event (Ended i c r t) = (\<not> hc_probe c)"
| "actuation_event (Answered i c r) = False"

text \<open>Hooks do not overlap: read from the newest event, every end has its own begin right before it
  among the events of hooks.\<close>

fun alternates :: "(nat \<times> HookCall) option \<Rightarrow> HookEvent list \<Rightarrow> bool" where
  "alternates b [] = (b = None)"
| "alternates b (Began i c # log) = (b = Some (i, c) \<and> alternates None log)"
| "alternates b (Ended i c r t # log) = (b = None \<and> alternates (Some (i, c)) log)"
| "alternates b (Answered i c r # log) = alternates b log"

lemma alternates_begun:
  "alternates (Some (i, c)) log \<Longrightarrow> \<exists>mid pre. log = mid @ Began i c # pre \<and> (\<forall>e \<in> set mid. \<not> hook_event e)"
proof (induction "Some (i, c)" log rule: alternates.induct)
  case (2 i' c' log)
  then show ?case by (intro exI [of _ "[]"] exI [of _ log]) simp
next
  case (4 i' c' r log)
  then obtain mid pre where "log = mid @ Began i c # pre" "\<forall>e \<in> set mid. \<not> hook_event e" by auto
  then show ?case by (intro exI [of _ "Answered i' c' r # mid"] exI [of _ pre]) simp
qed simp_all

lemma actuation_is_hook: "\<not> hook_event e \<Longrightarrow> \<not> actuation_event e"
  by (cases e) simp_all

text \<open>A result is that of a probe's hook for this question, which ended no earlier than the time given
  and began after every actuation that is in the log.\<close>

definition served :: "string \<Rightarrow> int \<Rightarrow> HookResult \<Rightarrow> HookEvent list \<Rightarrow> bool" where
  "served question since r log \<longleftrightarrow> (\<exists>post mid pre j d t. log = post @ Ended j d (Inr r) t # mid @ Began j d # pre \<and> since \<le> t \<and> hc_probe d \<and>
     hr_command r = question \<and> (\<forall>e \<in> set mid. \<not> hook_event e) \<and> (\<forall>e \<in> set post. \<not> actuation_event e))"

lemma served_later: "served q since r log \<Longrightarrow> \<not> actuation_event e \<Longrightarrow> served q since r (e # log)"
proof -
  assume "served q since r log" "\<not> actuation_event e"
  then obtain post mid pre j d t where "log = post @ Ended j d (Inr r) t # mid @ Began j d # pre" "since \<le> t" "hc_probe d" "hr_command r = q"
    "\<forall>e \<in> set mid. \<not> hook_event e" "\<forall>e \<in> set post. \<not> actuation_event e" unfolding served_def by blast
  with \<open>\<not> actuation_event e\<close> show ?thesis unfolding served_def
    by (intro exI [of _ "e # post"] exI [of _ mid] exI [of _ pre] exI [of _ j] exI [of _ d] exI [of _ t]) simp
qed

lemma served_now:
  assumes "alternates (Some (i, c)) log" and "hc_probe c" and "since \<le> t" and "hr_command r = q"
  shows "served q since r (Ended i c (Inr r) t # log)"
proof -
  obtain mid pre where "log = mid @ Began i c # pre" "\<forall>e \<in> set mid. \<not> hook_event e" using alternates_begun [OF assms(1)] by blast
  with assms(2-4) show ?thesis unfolding served_def
    by (intro exI [of _ "[]"] exI [of _ mid] exI [of _ pre] exI [of _ i] exI [of _ c] exI [of _ t]) simp
qed

lemma served_since: "served q since r log \<Longrightarrow> since' \<le> since \<Longrightarrow> served q since' r log"
proof -
  assume "served q since r log" "since' \<le> since"
  then obtain post mid pre j d t where "log = post @ Ended j d (Inr r) t # mid @ Began j d # pre" "since' \<le> t" "hc_probe d" "hr_command r = q"
    "\<forall>e \<in> set mid. \<not> hook_event e" "\<forall>e \<in> set post. \<not> actuation_event e" unfolding served_def using order_trans by blast
  then show ?thesis unfolding served_def
    by (intro exI [of _ post] exI [of _ mid] exI [of _ pre] exI [of _ j] exI [of _ d] exI [of _ t]) simp
qed

lemma spawned_command: "spawn_hook process (hc_template c) (hc_subs c) = Inr r \<Longrightarrow> hr_command r = question_of c"
  by (auto simp: spawn_hook_def question_of_def probe_question_def Let_def split: if_splits Spawned.splits)

section \<open>The invariant\<close>

fun answered_well :: "HookEvent list \<Rightarrow> bool" where
  "answered_well [] = True"
| "answered_well (Answered i c r # log) = ((\<forall>x. r = Inr x \<longrightarrow> hc_probe c \<longrightarrow> served (question_of c) (hc_arrived c) x log) \<and> answered_well log)"
| "answered_well (_ # log) = answered_well log"

definition hook_inv :: "HookNet \<Rightarrow> bool" where
  "hook_inv n \<longleftrightarrow> alternates (hn_busy n) (hn_log n) \<and> answered_well (hn_log n) \<and>
     (\<forall>(i, c) \<in> hn_waiting n. hc_arrived c \<le> hn_clock n) \<and>
     (\<forall>i c. hn_busy n = Some (i, c) \<longrightarrow> hc_arrived c \<le> hn_clock n \<and> (\<not> hc_probe c \<longrightarrow> hn_slot n = None)) \<and>
     (\<forall>t r. hn_slot n = Some (t, r) \<longrightarrow> served (hr_command r) t r (hn_log n))"

lemma hook_inv_step: "hstep n m \<Longrightarrow> hook_inv n \<Longrightarrow> hook_inv m"
proof (induction rule: hstep.induct)
  case (clock n t)
  then show ?case by (fastforce simp: hook_inv_def)
next
  case (arrive c n i)
  then show ?case by (auto simp: hook_inv_def)
next
  case (share n i c r)
  from share(4) obtain t where t: "hn_slot n = Some (t, r)" "hc_arrived c \<le> t" "hr_command r = question_of c"
    by (auto simp: probe_shared_def split: option.splits if_splits)
  have "served (question_of c) (hc_arrived c) r (hn_log n)" using share(5) t served_since by (fastforce simp: hook_inv_def)
  with share(1,5) show ?case by (auto simp: hook_inv_def intro: served_later)
next
  case (begin_probe n i c)
  then show ?case by (auto simp: hook_inv_def intro: served_later)
next
  case (begin_run n i c)
  then show ?case by (auto simp: hook_inv_def run_clear_def)
next
  case (finish n i c r process)
  have alt: "alternates (Some (i, c)) (hn_log n)" and busy: "hc_arrived c \<le> hn_clock n" "\<not> hc_probe c \<Longrightarrow> hn_slot n = None"
    using finish(1,3) by (auto simp: hook_inv_def)
  let ?log = "Ended i c r (hn_clock n) # hn_log n"
  have new: "served (question_of c) (hn_clock n) x ?log" if "r = Inr x" "hc_probe c" for x
    using served_now [OF alt that(2)] spawned_command that(1) finish(2) by auto
  have "answered_well (Answered i c r # ?log)" using finish(3) new served_since [OF new busy(1)] by (simp add: hook_inv_def)
  moreover have "served (hr_command x) t x (Answered i c r # ?log)"
    if slot: "(if hc_probe c then probe_store (hn_slot n) r (hn_clock n) else hn_slot n) = Some (t, x)" for t x
  proof (cases "hc_probe c \<and> (\<exists>y. r = Inr y)")
    case True
    then have "t = hn_clock n" "r = Inr x" using slot by (auto simp: probe_store_def)
    with new [of x] True spawned_command finish(2) show ?thesis by (auto intro: served_later)
  next
    case False
    then have old: "hn_slot n = Some (t, x)" "hc_probe c" using slot busy(2) by (auto simp: probe_store_def split: sum.splits if_splits)
    with finish(3) have "served (hr_command x) t x (hn_log n)" by (simp add: hook_inv_def)
    with old(2) show ?thesis by (intro served_later) simp_all
  qed
  ultimately show ?case using finish(1,3) alt by (simp add: hook_inv_def)
qed

lemma hook_reachable_inv: "hook_reachable n \<Longrightarrow> hook_inv n"
proof -
  assume "hook_reachable n"
  then obtain t where "hstep\<^sup>*\<^sup>* (hook_start t) n" by (auto simp: hook_reachable_def)
  then show ?thesis
  proof induction
    case base
    then show ?case by (simp add: hook_inv_def hook_start_def)
  next
    case (step m n)
    then show ?case using hook_inv_step by blast
  qed
qed

lemma answered_well_split: "answered_well (post @ Answered i c (Inr r) # log) \<Longrightarrow> hc_probe c \<Longrightarrow> served (question_of c) (hc_arrived c) r log"
  by (induction post rule: answered_well.induct) auto

text \<open>C37. One controller, one hook at a time, and exact probes: in every interleaving of probes and
  actuations hooks never overlap, and a probe that is answered is answered by a hook that was run
  for its own question, ended after the probe arrived, and began after every actuation that had
  even begun by the time of the answer.\<close>

theorem probes_are_exact:
  assumes "hook_reachable n"
  shows "alternates (hn_busy n) (hn_log n) \<and>
    (\<forall>later i c r log. hn_log n = later @ Answered i c (Inr r) # log \<longrightarrow> hc_probe c \<longrightarrow> served (question_of c) (hc_arrived c) r log)"
  using hook_reachable_inv [OF assms] answered_well_split by (auto simp: hook_inv_def)

section \<open>Two dashboards ask\<close>

definition sample_probe :: HookCall where
  "sample_probe = \<lparr> hc_probe = True, hc_template = ''ctl state'', hc_subs = [(''controller'', ''c1'')], hc_arrived = 0 \<rparr>"

definition sample_answer :: HookResult where
  "sample_answer = \<lparr> hr_command = ''ctl state'', hr_exit_code = Some 0, hr_stdout = ''on'', hr_stderr = [], hr_duration_ms = 5 \<rparr>"

definition sample_log :: "HookEvent list" where
  "sample_log = [Answered 1 sample_probe (Inr sample_answer), Ended 1 sample_probe (Inr sample_answer) 0, Began 1 sample_probe]"

lemma sample_spawn: "spawn_hook (\<lambda>_. Exited (Some 0) ''on'' [] 5) (hc_template sample_probe) (hc_subs sample_probe) = Inr sample_answer"
  by code_simp

lemma sample_question: "question_of sample_probe = hr_command sample_answer"
  by code_simp

lemma sample_shared: "hook_reachable \<lparr> hn_clock = 0, hn_slot = Some (0, sample_answer), hn_busy = None, hn_waiting = {},
    hn_log = Answered 2 sample_probe (Inr sample_answer) # sample_log \<rparr>"
proof -
  have key: "lock_key (hc_subs sample_probe) \<noteq> None" by (simp add: lock_key_def sample_probe_def)
  let ?c = sample_probe and ?a = sample_answer
  have probe: "hc_probe ?c" by (simp add: sample_probe_def)
  have s1: "hstep (hook_start 0) (hook_start 0\<lparr> hn_waiting := {(1, ?c)} \<rparr>)"
    using hstep.arrive [of ?c "hook_start 0" 1] key by (simp add: sample_probe_def hook_start_def)
  have s2: "hstep (hook_start 0\<lparr> hn_waiting := {(1, ?c)} \<rparr>) (hook_start 0\<lparr> hn_waiting := {(1, ?c), (2, ?c)} \<rparr>)"
    using hstep.arrive [of ?c "hook_start 0\<lparr> hn_waiting := {(1, ?c)} \<rparr>" 2] key by (simp add: sample_probe_def hook_start_def insert_commute)
  have s3: "hstep (hook_start 0\<lparr> hn_waiting := {(1, ?c), (2, ?c)} \<rparr>)
      (hook_start 0\<lparr> hn_waiting := {(2, ?c)}, hn_busy := Some (1, ?c), hn_log := [Began 1 ?c] \<rparr>)"
    using hstep.begin_probe [of "hook_start 0\<lparr> hn_waiting := {(1, ?c), (2, ?c)} \<rparr>" 1 ?c]
    by (simp add: sample_probe_def hook_start_def probe_shared_def)
  have s4: "hstep (hook_start 0\<lparr> hn_waiting := {(2, ?c)}, hn_busy := Some (1, ?c), hn_log := [Began 1 ?c] \<rparr>)
      (hook_start 0\<lparr> hn_waiting := {(2, ?c)}, hn_slot := Some (0, ?a), hn_log := sample_log \<rparr>)"
    using hstep.finish [of "hook_start 0\<lparr> hn_waiting := {(2, ?c)}, hn_busy := Some (1, ?c), hn_log := [Began 1 ?c] \<rparr>" 1 ?c "Inr ?a"
      "\<lambda>_. Exited (Some 0) ''on'' [] 5"] sample_spawn
    by (simp add: hook_start_def probe_store_def sample_log_def probe)
  have s5: "hstep (hook_start 0\<lparr> hn_waiting := {(2, ?c)}, hn_slot := Some (0, ?a), hn_log := sample_log \<rparr>)
      (hook_start 0\<lparr> hn_slot := Some (0, ?a), hn_log := Answered 2 ?c (Inr ?a) # sample_log \<rparr>)"
    using hstep.share [of "hook_start 0\<lparr> hn_waiting := {(2, ?c)}, hn_slot := Some (0, ?a), hn_log := sample_log \<rparr>" 2 ?c ?a]
    by (simp add: hook_start_def probe_shared_def sample_question) (simp add: sample_probe_def)
  have "hstep\<^sup>*\<^sup>* (hook_start 0) (hook_start 0\<lparr> hn_slot := Some (0, ?a), hn_log := Answered 2 ?c (Inr ?a) # sample_log \<rparr>)"
    using rtranclp.rtrancl_into_rtrancl [OF rtranclp.rtrancl_into_rtrancl [OF rtranclp.rtrancl_into_rtrancl [OF
      rtranclp.rtrancl_into_rtrancl [OF r_into_rtranclp [of hstep, OF s1] s2] s3] s4] s5] by simp
  then show ?thesis unfolding hook_reachable_def by (auto simp: hook_start_def intro: exI [of _ 0])
qed

theorem probes_are_exact_witness:
  "served (question_of sample_probe) 0 sample_answer sample_log"
proof -
  have "hc_probe sample_probe" "hc_arrived sample_probe = 0" by (simp_all add: sample_probe_def)
  with probes_are_exact [OF sample_shared] show ?thesis by fastforce
qed

section \<open>Values in a command\<close>

text \<open>How many arguments a command has depends on the template alone.\<close>

lemma values_add_no_arguments: "length (render template subs) = length (shell_split template)"
  by (simp add: render_def)

text \<open>A value that contains the name of a later substitution is itself substituted.\<close>

lemma value_is_substituted_again:
  "render ''flash {image} {device}'' [(''image'', ''{device}.img''), (''device'', ''/dev/x'')] = [''flash'', ''/dev/x.img'', ''/dev/x'']"
  by code_simp

text \<open>An empty quoted argument of a template is lost.\<close>

lemma empty_argument_lost: "shell_split [CHR ''a'', CHR '' '', CHR 0x22, CHR 0x22, CHR '' '', CHR ''b''] = [''a'', ''b'']"
  by code_simp

end
