(* ===== verification/Controllers.thy ===== *)
theory Controllers
  imports Targets Relay
begin

text \<open>
  Which controller drives a board, and which command does it (\<^verbatim>\<open>config.rs\<close>, with \<^verbatim>\<open>controls_for\<close> of
  \<^verbatim>\<open>peers/inventory.rs\<close>). Glob matching is a parameter, as is the recognition of the GPIO channels of
  a TAC; \<^verbatim>\<open>off_settle_s\<close> is kept as the text it is rendered to.
\<close>

section \<open>Configuration\<close>

record DeviceHooks =
  dh_power :: "string option"
  dh_flash :: "string option"
  dh_reset :: "string option"
  dh_boot_mode :: "string option"

text \<open>The part of \<^verbatim>\<open>DeviceOverride\<close> that concerns controllers.\<close>

record DeviceOverride =
  do_hooks :: DeviceHooks
  do_boot_modes :: "string list"
  do_usb_ports :: "string list"

record ControllerProfile =
  cp_name :: string
  cp_match_glob :: string
  cp_controls :: string
  cp_power :: "string option"
  cp_boot_mode :: "string option"
  cp_boot_mode_release :: "string option"
  cp_power_state :: "string option"
  cp_boot_overrides :: "string option"
  cp_flash :: "string option"
  cp_boot_modes :: "string list"
  cp_power_timeout_s :: "nat option"
  cp_off_settle_s :: string
  cp_exclude_from_discovery :: bool
  cp_mode_enters_immediately :: bool

record ResolvedHook =
  rh_power_timeout_s :: "nat option"
  rh_template :: string
  rh_controller :: "string option"
  rh_off_settle_s :: string
  rh_source :: string

record HookConfig =
  cf_devices :: "(string \<times> DeviceOverride) list"
  cf_controllers :: "ControllerProfile list"
  cf_include :: "string list"
  cf_exclude :: "string list"
  cf_power_timeout_s :: nat

type_synonym glob = "string \<Rightarrow> string \<Rightarrow> bool"

type_synonym presence = "(string \<times> string option) list"

definition d_off_settle :: string where "d_off_settle = ''6''"

section \<open>Which profile\<close>

text \<open>\<^verbatim>\<open>Iterator::max_by_key\<close>: the last of the largest.\<close>

definition max_by_key :: "('a \<Rightarrow> nat) \<Rightarrow> 'a list \<Rightarrow> 'a option" where
  "max_by_key key xs = foldl (\<lambda>best x. case best of None \<Rightarrow> Some x | Some b \<Rightarrow> if key b \<le> key x then Some x else Some b) None xs"

definition specificity :: "ControllerProfile \<Rightarrow> nat" where
  "specificity c = length (filter (\<lambda>ch. ch \<noteq> CHR ''*'') (cp_controls c))"

definition controller_for :: "glob \<Rightarrow> HookConfig \<Rightarrow> string \<Rightarrow> ControllerProfile option" where
  "controller_for glob cfg canonical = max_by_key specificity (filter (\<lambda>c. glob (cp_controls c) canonical) (cf_controllers cfg))"

definition controller_profile_of :: "glob \<Rightarrow> HookConfig \<Rightarrow> string \<Rightarrow> ControllerProfile option" where
  "controller_profile_of glob cfg canonical = find (\<lambda>c. glob (cp_match_glob c) canonical) (cf_controllers cfg)"

definition is_excluded_controller :: "glob \<Rightarrow> HookConfig \<Rightarrow> string \<Rightarrow> bool" where
  "is_excluded_controller glob cfg canonical \<longleftrightarrow>
     list_ex (\<lambda>c. cp_exclude_from_discovery c \<and> glob (cp_match_glob c) canonical) (cf_controllers cfg)"

definition device_included :: "glob \<Rightarrow> (string \<Rightarrow> bool) \<Rightarrow> HookConfig \<Rightarrow> string \<Rightarrow> bool" where
  "device_included glob gpio_channel cfg name \<longleftrightarrow>
     list_ex (\<lambda>p. glob p name) (cf_include cfg) \<and> \<not> list_ex (\<lambda>p. glob p name) (cf_exclude cfg) \<and>
     \<not> is_excluded_controller glob cfg name \<and> \<not> gpio_channel name"

section \<open>Which controller\<close>

definition controller_port :: "glob \<Rightarrow> HookConfig \<Rightarrow> string \<Rightarrow> string list \<Rightarrow> string option" where
  "controller_port glob cfg canonical present =
     Option.bind (controller_for glob cfg canonical) (\<lambda>c. find (\<lambda>name. glob (cp_match_glob c) name) present)"

definition controller_port_for :: "glob \<Rightarrow> HookConfig \<Rightarrow> string \<Rightarrow> string option \<Rightarrow> presence \<Rightarrow> string option" where
  "controller_port_for glob cfg canonical by_path present =
     Option.bind (controller_for glob cfg canonical) (\<lambda>c.
       let mine = topology_group by_path; anywhere = map_option fst (find (\<lambda>(name, bp). glob (cp_match_glob c) name) present)
       in if mine = None then anywhere
          else case find (\<lambda>(name, bp). glob (cp_match_glob c) name \<and> topology_group bp = mine) present of
                 Some (name, _) \<Rightarrow> Some name
               | None \<Rightarrow>
                   if list_ex (\<lambda>(name, bp). glob (cp_match_glob c) name \<and> topology_group bp \<noteq> None) present then None
                   else anywhere)"

section \<open>Which command\<close>

definition template_can_run :: "string \<Rightarrow> string option \<Rightarrow> bool \<Rightarrow> bool" where
  "template_can_run template controller self_present \<longleftrightarrow>
     (if str_contains ''{controller}'' template then controller \<noteq> None
      else if str_contains ''{device}'' template then self_present else True)"

definition self_present :: "string \<Rightarrow> presence \<Rightarrow> bool" where
  "self_present canonical present \<longleftrightarrow> list_ex (\<lambda>(n, _). n = canonical) present"

definition device_hook :: "(DeviceHooks \<Rightarrow> string option) \<Rightarrow> HookConfig \<Rightarrow> string \<Rightarrow> ResolvedHook option" where
  "device_hook which cfg selector =
     map_option (\<lambda>t. \<lparr> rh_power_timeout_s = None, rh_template = t, rh_controller = None, rh_off_settle_s = d_off_settle, rh_source = ''device'' \<rparr>)
       (Option.bind (map_of (cf_devices cfg) selector) (\<lambda>d. which (do_hooks d)))"

definition resolved :: "ControllerProfile \<Rightarrow> string \<Rightarrow> string option \<Rightarrow> ResolvedHook" where
  "resolved c template controller =
     \<lparr> rh_power_timeout_s = cp_power_timeout_s c, rh_template = template, rh_controller = controller,
       rh_off_settle_s = cp_off_settle_s c, rh_source = cp_name c \<rparr>"

text \<open>The common part of the resolvers: the profile's template, if it can run here and now.\<close>

definition profile_hook ::
    "(ControllerProfile \<Rightarrow> string option) \<Rightarrow> glob \<Rightarrow> HookConfig \<Rightarrow> string \<Rightarrow> string option \<Rightarrow> presence \<Rightarrow> ResolvedHook option" where
  "profile_hook which glob cfg canonical by_path present =
     Option.bind (controller_for glob cfg canonical) (\<lambda>c.
     Option.bind (which c) (\<lambda>template.
       let controller = controller_port_for glob cfg canonical by_path present
       in if template_can_run template controller (self_present canonical present) then Some (resolved c template controller) else None))"

definition power_hook_for_at :: "glob \<Rightarrow> HookConfig \<Rightarrow> string \<Rightarrow> string \<Rightarrow> string option \<Rightarrow> presence \<Rightarrow> ResolvedHook option" where
  "power_hook_for_at glob cfg selector canonical by_path present =
     (case device_hook dh_power cfg selector of Some h \<Rightarrow> Some h
      | None \<Rightarrow> profile_hook cp_power glob cfg canonical by_path present)"

definition power_state_hook_for_at :: "glob \<Rightarrow> HookConfig \<Rightarrow> string \<Rightarrow> string option \<Rightarrow> presence \<Rightarrow> ResolvedHook option" where
  "power_state_hook_for_at glob cfg canonical by_path present = profile_hook cp_power_state glob cfg canonical by_path present"

definition boot_overrides_hook_for_at :: "glob \<Rightarrow> HookConfig \<Rightarrow> string \<Rightarrow> string option \<Rightarrow> presence \<Rightarrow> ResolvedHook option" where
  "boot_overrides_hook_for_at glob cfg canonical by_path present = profile_hook cp_boot_overrides glob cfg canonical by_path present"

definition boot_mode_release_hook_for_at :: "glob \<Rightarrow> HookConfig \<Rightarrow> string \<Rightarrow> string option \<Rightarrow> presence \<Rightarrow> ResolvedHook option" where
  "boot_mode_release_hook_for_at glob cfg canonical by_path present = profile_hook cp_boot_mode_release glob cfg canonical by_path present"

definition boot_mode_hook_for_at :: "glob \<Rightarrow> HookConfig \<Rightarrow> string \<Rightarrow> string \<Rightarrow> string option \<Rightarrow> presence \<Rightarrow> ResolvedHook option" where
  "boot_mode_hook_for_at glob cfg selector canonical by_path present =
     (case device_hook dh_boot_mode cfg selector of Some h \<Rightarrow> Some h
      | None \<Rightarrow> profile_hook cp_boot_mode glob cfg canonical by_path present)"

text \<open>The resolvers that know names only.\<close>

definition power_hook_for :: "glob \<Rightarrow> HookConfig \<Rightarrow> string \<Rightarrow> string \<Rightarrow> string list \<Rightarrow> ResolvedHook option" where
  "power_hook_for glob cfg selector canonical present =
     (case device_hook dh_power cfg selector of Some h \<Rightarrow> Some h
      | None \<Rightarrow> Option.bind (controller_for glob cfg canonical) (\<lambda>c.
          map_option (\<lambda>t. resolved c t (controller_port glob cfg canonical present)) (cp_power c)))"

definition boot_mode_hook_for :: "glob \<Rightarrow> HookConfig \<Rightarrow> string \<Rightarrow> string \<Rightarrow> string list \<Rightarrow> ResolvedHook option" where
  "boot_mode_hook_for glob cfg selector canonical present =
     (case device_hook dh_boot_mode cfg selector of Some h \<Rightarrow> Some h
      | None \<Rightarrow> Option.bind (controller_for glob cfg canonical) (\<lambda>c.
          map_option (\<lambda>t. resolved c t (controller_port glob cfg canonical present)) (cp_boot_mode c)))"

section \<open>What is published\<close>

definition controller_for_at :: "glob \<Rightarrow> HookConfig \<Rightarrow> string \<Rightarrow> string option \<Rightarrow> presence \<Rightarrow> ControllerProfile option" where
  "controller_for_at glob cfg canonical by_path present =
     Option.bind (controller_for glob cfg canonical) (\<lambda>c.
       if controller_port_for glob cfg canonical by_path present \<noteq> None then Some c
       else if list_ex (\<lambda>t. template_can_run t None (self_present canonical present))
                 (List.map_filter (\<lambda>t. t) [cp_power c, cp_boot_mode c, cp_power_state c])
            then Some c else None)"

definition own_boot_modes :: "HookConfig \<Rightarrow> string \<Rightarrow> string list" where
  "own_boot_modes cfg selector = (case map_of (cf_devices cfg) selector of Some d \<Rightarrow> do_boot_modes d | None \<Rightarrow> [])"

definition boot_modes_for_at :: "glob \<Rightarrow> HookConfig \<Rightarrow> string \<Rightarrow> string \<Rightarrow> string option \<Rightarrow> presence \<Rightarrow> string list" where
  "boot_modes_for_at glob cfg selector canonical by_path present =
     (if own_boot_modes cfg selector \<noteq> [] then own_boot_modes cfg selector
      else case controller_for glob cfg canonical of None \<Rightarrow> []
      | Some c \<Rightarrow>
          (case cp_boot_mode c of None \<Rightarrow> []
           | Some template \<Rightarrow>
               if template_can_run template (controller_port_for glob cfg canonical by_path present) (self_present canonical present)
               then cp_boot_modes c else []))"

definition boot_modes_for :: "glob \<Rightarrow> HookConfig \<Rightarrow> string \<Rightarrow> string \<Rightarrow> string list" where
  "boot_modes_for glob cfg selector canonical =
     (if own_boot_modes cfg selector \<noteq> [] then own_boot_modes cfg selector
      else case controller_for glob cfg canonical of None \<Rightarrow> [] | Some c \<Rightarrow> cp_boot_modes c)"

text \<open>\<^verbatim>\<open>device_override\<close>: the first of the names that has an entry.\<close>

definition device_override :: "HookConfig \<Rightarrow> string list \<Rightarrow> DeviceOverride option" where
  "device_override cfg keys =
     (case List.map_filter (map_of (cf_devices cfg)) (filter (\<lambda>k. k \<noteq> []) keys) of d # _ \<Rightarrow> Some d | [] \<Rightarrow> None)"

definition usb_ports_for :: "HookConfig \<Rightarrow> string list \<Rightarrow> string list" where
  "usb_ports_for cfg keys = (case device_override cfg keys of Some d \<Rightarrow> do_usb_ports d | None \<Rightarrow> [])"

definition opt_json :: "string option \<Rightarrow> json" where
  "opt_json v = (case v of Some s \<Rightarrow> JStr s | None \<Rightarrow> JNull)"

definition controls_for :: "glob \<Rightarrow> HookConfig \<Rightarrow> DeviceRow \<Rightarrow> DeviceRow list \<Rightarrow> presence \<Rightarrow> json" where
  "controls_for glob cfg d all_rows present =
     (let port = controller_port_for glob cfg (dv_canonical d) (dv_by_path d) present;
          label = Option.bind port (\<lambda>p. Option.bind (find (\<lambda>c. dv_canonical c = p) all_rows) dv_nickname)
      in JObj [(''controller'', opt_json (map_option cp_name (controller_for_at glob cfg (dv_canonical d) (dv_by_path d) present))),
               (''boot_modes'', JArr (map JStr (boot_modes_for_at glob cfg (display_name d) (dv_canonical d) (dv_by_path d) present))),
               (''controller_port'', opt_json port),
               (''controller_label'', opt_json label),
               (''has_power_hook'', JBool (power_hook_for_at glob cfg (display_name d) (dv_canonical d) (dv_by_path d) present \<noteq> None))])"

section \<open>The board of a console\<close>

lemma max_by_key_max: "max_by_key key xs = Some m \<Longrightarrow> m \<in> set xs \<and> (\<forall>x \<in> set xs. key x \<le> key m)"
proof (induction xs arbitrary: m rule: rev_induct)
  case (snoc x xs)
  show ?case
  proof (cases "max_by_key key xs")
    case None
    then have "xs = []" by (induction xs rule: rev_induct) (auto simp: max_by_key_def split: option.splits if_splits)
    with snoc.prems show ?thesis by (simp add: max_by_key_def)
  next
    case (Some b)
    with snoc show ?thesis by (fastforce simp: max_by_key_def split: if_splits)
  qed
qed (simp add: max_by_key_def)

lemma most_specific_profile:
  "controller_for glob cfg canonical = Some c \<Longrightarrow> c \<in> set (cf_controllers cfg) \<and> glob (cp_controls c) canonical \<and>
    (\<forall>x \<in> set (cf_controllers cfg). glob (cp_controls x) canonical \<longrightarrow> specificity x \<le> specificity c)"
  using max_by_key_max unfolding controller_for_def by fastforce

text \<open>A controller is the board's own: it is on the console's USB branch; or the branch of no matching
  controller is known.\<close>

definition own_controller :: "glob \<Rightarrow> HookConfig \<Rightarrow> string \<Rightarrow> string option \<Rightarrow> presence \<Rightarrow> string \<Rightarrow> bool" where
  "own_controller glob cfg canonical by_path present port \<longleftrightarrow>
     (\<exists>c bp. controller_for glob cfg canonical = Some c \<and> (port, bp) \<in> set present \<and> glob (cp_match_glob c) port \<and>
       (topology_group bp = topology_group by_path \<or> topology_group by_path = None \<or>
        (\<forall>(name, bp) \<in> set present. glob (cp_match_glob c) name \<longrightarrow> topology_group bp = None)))"

lemma controller_port_own: "controller_port_for glob cfg canonical by_path present = Some port \<Longrightarrow> own_controller glob cfg canonical by_path present port"
proof -
  assume port: "controller_port_for glob cfg canonical by_path present = Some port"
  then obtain c where c: "controller_for glob cfg canonical = Some c" by (auto simp: controller_port_for_def bind_eq_Some_conv)
  let ?near = "find (\<lambda>(name, bp). glob (cp_match_glob c) name \<and> topology_group bp = topology_group by_path) present"
    and ?any = "find (\<lambda>(name, bp). glob (cp_match_glob c) name) present"
  have found: "(n, bp) \<in> set present \<and> P (n, bp)" if "find P present = Some (n, bp)" for P n bp
    using that by (auto simp: find_Some_iff)
  show ?thesis
  proof (cases "topology_group by_path = None \<or> ?near = None")
    case True
    then have any: "map_option fst ?any = Some port" and lonely: "topology_group by_path = None \<or> (\<forall>(name, bp) \<in> set present. glob (cp_match_glob c) name \<longrightarrow> topology_group bp = None)"
      using port c by (auto simp: controller_port_for_def Let_def list_ex_iff split: if_splits option.splits)
    then obtain bp where "?any = Some (port, bp)" by auto
    from found [OF this] lonely c show ?thesis unfolding own_controller_def by fast
  next
    case False
    then obtain n bp where near: "?near = Some (n, bp)" by auto
    with False port c have "n = port" by (auto simp: controller_port_for_def Let_def)
    with found [OF near] c show ?thesis unfolding own_controller_def by fast
  qed
qed

text \<open>A hook that drives the board of the console: its controller is the board's own, and a command that
  names the controller has one, and one that names only the console is for a console that is there.\<close>

definition board_hook :: "glob \<Rightarrow> HookConfig \<Rightarrow> string \<Rightarrow> string option \<Rightarrow> presence \<Rightarrow> ResolvedHook \<Rightarrow> bool" where
  "board_hook glob cfg canonical by_path present h \<longleftrightarrow>
     (\<forall>p. rh_controller h = Some p \<longrightarrow> own_controller glob cfg canonical by_path present p) \<and>
     (if str_contains ''{controller}'' (rh_template h) then rh_controller h \<noteq> None
      else str_contains ''{device}'' (rh_template h) \<longrightarrow> canonical \<in> fst ` set present)"

lemma profile_hook_own:
  assumes "profile_hook which glob cfg canonical by_path present = Some h"
  shows "board_hook glob cfg canonical by_path present h"
proof -
  obtain c template where c: "controller_for glob cfg canonical = Some c" "which c = Some template"
    "h = resolved c template (controller_port_for glob cfg canonical by_path present)"
    "template_can_run template (controller_port_for glob cfg canonical by_path present) (self_present canonical present)"
    using assms by (auto simp: profile_hook_def bind_eq_Some_conv Let_def split: if_splits)
  moreover have "self_present canonical present \<longleftrightarrow> canonical \<in> fst ` set present"
    by (force simp: self_present_def list_ex_iff)
  ultimately show ?thesis using controller_port_own by (auto simp: board_hook_def resolved_def template_can_run_def split: if_splits)
qed

text \<open>What the operator wrote for a console, under its own name.\<close>

definition written_hook :: "(DeviceHooks \<Rightarrow> string option) \<Rightarrow> HookConfig \<Rightarrow> string \<Rightarrow> string option" where
  "written_hook which cfg sel = (case map_of (cf_devices cfg) sel of Some d \<Rightarrow> which (do_hooks d) | None \<Rightarrow> None)"

lemma device_hook_written: "map_option (\<lambda>h. (rh_template h, rh_controller h)) (device_hook which cfg sel) = map_option (\<lambda>t. (t, None)) (written_hook which cfg sel)"
  by (auto simp: device_hook_def written_hook_def option.map_comp comp_def split: option.split)

text \<open>C38. A command of a controller profile never drives another board: a hook that is resolved for a
  console is one the operator wrote for that very console, or its controller is on the console's
  USB branch, or the branch of the console or of every matching controller is unknown; and then
  a command that names its controller is only resolved with one, and a command that names only
  the console only when that is plugged in. What the operator wrote for the console - for power and
  boot mode - comes before every profile and is taken as written, without controller and unchecked.\<close>

theorem hooks_stay_on_the_board:
  "(\<forall>h. power_hook_for_at glob cfg sel canonical by_path present = Some h \<longrightarrow>
      (case written_hook dh_power cfg sel of Some t \<Rightarrow> rh_template h = t \<and> rh_controller h = None
       | None \<Rightarrow> board_hook glob cfg canonical by_path present h)) \<and>
   (\<forall>h. boot_mode_hook_for_at glob cfg sel canonical by_path present = Some h \<longrightarrow>
      (case written_hook dh_boot_mode cfg sel of Some t \<Rightarrow> rh_template h = t \<and> rh_controller h = None
       | None \<Rightarrow> board_hook glob cfg canonical by_path present h)) \<and>
   (\<forall>h. h \<in> set [power_state_hook_for_at glob cfg canonical by_path present, boot_overrides_hook_for_at glob cfg canonical by_path present,
        boot_mode_release_hook_for_at glob cfg canonical by_path present] \<longrightarrow>
      (case h of Some h \<Rightarrow> board_hook glob cfg canonical by_path present h | None \<Rightarrow> True))"
proof -
  have "case written_hook which cfg sel of Some t \<Rightarrow> rh_template h = t \<and> rh_controller h = None | None \<Rightarrow> board_hook glob cfg canonical by_path present h"
    if "(case device_hook which cfg sel of Some h \<Rightarrow> Some h | None \<Rightarrow> profile_hook pr glob cfg canonical by_path present) = Some h" for which pr h
    using that device_hook_written [of which cfg sel] profile_hook_own [of pr glob cfg canonical by_path present h]
    by (auto split: option.splits)
  moreover have "case h of Some h \<Rightarrow> board_hook glob cfg canonical by_path present h | None \<Rightarrow> True"
    if "h = profile_hook pr glob cfg canonical by_path present" for pr h
    using that profile_hook_own by (auto split: option.split)
  ultimately show ?thesis
    unfolding power_hook_for_at_def boot_mode_hook_for_at_def power_state_hook_for_at_def boot_overrides_hook_for_at_def
      boot_mode_release_hook_for_at_def by auto
qed

text \<open>A hook the operator wrote is resolved although it asks for a controller and none is there.\<close>

lemma written_hook_unchecked:
  assumes "written_hook dh_power cfg sel = Some ''p {controller}''"
  shows "\<exists>h. power_hook_for_at glob cfg sel canonical by_path [] = Some h \<and> rh_template h = ''p {controller}'' \<and> rh_controller h = None"
  using assms device_hook_written [of dh_power cfg sel] by (auto simp: power_hook_for_at_def)

section \<open>A bench with two boards of one family\<close>

definition bantam :: ControllerProfile where
  "bantam = \<lparr> cp_name = ''bantam'', cp_match_glob = ''Bantam'', cp_controls = ''*'', cp_power = Some ''p {controller}'', cp_boot_mode = None,
     cp_boot_mode_release = None, cp_power_state = None, cp_boot_overrides = None, cp_flash = None, cp_boot_modes = [],
     cp_power_timeout_s = None, cp_off_settle_s = ''6'', cp_exclude_from_discovery = True, cp_mode_enters_immediately = False \<rparr>"

definition bench_config :: HookConfig where
  "bench_config = \<lparr> cf_devices = [], cf_controllers = [bantam], cf_include = [''*''], cf_exclude = [], cf_power_timeout_s = 30 \<rparr>"

definition sample_glob :: glob where
  "sample_glob p n \<longleftrightarrow> p = ''*'' \<or> str_contains p n"

definition bench_present :: presence where
  "bench_present = [(''Bantam-a'', Some ''pci-usb-0:1.1:1.0''), (''Bantam-b'', Some ''pci-usb-0:2.1:1.0''), (''uart'', Some ''pci-usb-0:2.1:1.0'')]"

lemma bench_hook: "power_hook_for_at sample_glob bench_config ''uart'' ''uart'' (Some ''pci-usb-0:2.1:1.0'') bench_present =
    Some \<lparr> rh_power_timeout_s = None, rh_template = ''p {controller}'', rh_controller = Some ''Bantam-b'', rh_off_settle_s = ''6'', rh_source = ''bantam'' \<rparr>"
  by code_simp

theorem hooks_stay_on_the_board_witness:
  "own_controller sample_glob bench_config ''uart'' (Some ''pci-usb-0:2.1:1.0'') bench_present ''Bantam-b''"
proof -
  have "written_hook dh_power bench_config ''uart'' = None" by (simp add: bench_config_def written_hook_def)
  with hooks_stay_on_the_board [of sample_glob bench_config "''uart''" "''uart''" "Some ''pci-usb-0:2.1:1.0''" bench_present]
  show ?thesis by (simp add: bench_hook board_hook_def)
qed

text \<open>What the operator wrote for a console under its nickname is not found: the hooks are looked up by the
  port path alone.\<close>

lemma nickname_hook_ignored:
  "device_override (bench_config\<lparr> cf_devices := [(''adp'', d)] \<rparr>) [''uart'', ''adp''] = Some d"
  "device_hook dh_power (bench_config\<lparr> cf_devices := [(''adp'', d)] \<rparr>) ''uart'' = None"
  by (simp_all add: device_override_def device_hook_def map_filter_def)

end
