(* ===== verification/Actuation.thy ===== *)
theory Actuation
  imports Hooks Overrides Relay Store_Queries
begin

text \<open>
  What the server keeps about actuations (\<^verbatim>\<open>state.rs\<close> of \<^verbatim>\<open>conminer-mcp\<close>): which consoles are being
  actuated and how the last actuation of each ended, the last readings of the boot-mode overrides,
  and the checks of tools that transmit. Every definition is what one thread does under a lock; the
  hash maps are association lists. The second half are the threads themselves and what the claims
  of consoles promise.
\<close>

section \<open>State\<close>

record InFlight =
  if_tool :: string
  if_action :: string
  if_holder :: string
  if_since_ms :: int
  if_phase :: string

record OverridesReading =
  or_overrides :: BootOverrides
  or_read_at_ms :: int
  or_error :: "string option"
  or_controller :: "string option"
  or_controller_port :: "string option"
  or_release_one :: bool

record Actuations =
  ac_in_flight :: "(int \<times> InFlight) list"
  ac_outcomes :: "(int \<times> json) list"
  ac_overrides :: "(string \<times> OverridesReading) list"

definition Actuations_empty :: Actuations where
  "Actuations_empty = \<lparr> ac_in_flight = [], ac_outcomes = [], ac_overrides = [] \<rparr>"

section \<open>Claims\<close>

definition actuation_in_flight :: "Actuations \<Rightarrow> int \<Rightarrow> InFlight option" where
  "actuation_in_flight a i = map_of (ac_in_flight a) i"

text \<open>All consoles of an actuation or none; the guard is the list of their ids.\<close>

definition begin_actuation :: "Actuations \<Rightarrow> string \<Rightarrow> string \<Rightarrow> string \<Rightarrow> int \<Rightarrow> int list \<Rightarrow> int list res \<times> Actuations" where
  "begin_actuation a tool action holder now consoles =
     (if list_ex (\<lambda>i. actuation_in_flight a i \<noteq> None) consoles then (Inl ActuationInFlight, a)
      else let f = \<lparr> if_tool = tool, if_action = action, if_holder = holder, if_since_ms = now, if_phase = ''hook'' \<rparr>
           in (Inr consoles, a\<lparr> ac_in_flight := foldl (\<lambda>m i. AList.update i f m) (ac_in_flight a) consoles \<rparr>))"

definition set_actuation_phase :: "Actuations \<Rightarrow> int list \<Rightarrow> string \<Rightarrow> Actuations" where
  "set_actuation_phase a ids phase =
     a\<lparr> ac_in_flight := foldl (\<lambda>m i. map (\<lambda>(j, f). (j, if j = i then f\<lparr> if_phase := phase \<rparr> else f)) m) (ac_in_flight a) ids \<rparr>"

text \<open>The guard goes out of scope.\<close>

definition drop_guard :: "Actuations \<Rightarrow> int list \<Rightarrow> Actuations" where
  "drop_guard a ids = a\<lparr> ac_in_flight := foldl (\<lambda>m i. AList.delete i m) (ac_in_flight a) ids \<rparr>"

definition record_actuation_outcome :: "Actuations \<Rightarrow> int list \<Rightarrow> json \<Rightarrow> Actuations" where
  "record_actuation_outcome a ids outcome = a\<lparr> ac_outcomes := foldl (\<lambda>m i. AList.update i outcome m) (ac_outcomes a) ids \<rparr>"

definition last_actuation_outcome :: "Actuations \<Rightarrow> int \<Rightarrow> json option" where
  "last_actuation_outcome a i = map_of (ac_outcomes a) i"

definition InFlight_to_json :: "InFlight \<Rightarrow> int \<Rightarrow> json" where
  "InFlight_to_json f now = JObj [(''tool'', JStr (if_tool f)), (''action'', JStr (if_action f)), (''holder'', JStr (if_holder f)),
     (''phase'', JStr (if_phase f)), (''since_ms'', JInt (if_since_ms f)), (''running_for_ms'', JInt (saturating_sub_i64 now (if_since_ms f)))]"

section \<open>Readings of the overrides\<close>

definition cached_overrides :: "Actuations \<Rightarrow> string \<Rightarrow> OverridesReading option" where
  "cached_overrides a key = map_of (ac_overrides a) key"

definition store_overrides :: "Actuations \<Rightarrow> string \<Rightarrow> OverridesReading \<Rightarrow> Actuations" where
  "store_overrides a key r = a\<lparr> ac_overrides := AList.update key r (ac_overrides a) \<rparr>"

section \<open>Checks of tools that transmit\<close>

definition require_no_actuation :: "Actuations \<Rightarrow> DeviceRow \<Rightarrow> unit res" where
  "require_no_actuation a d = (if actuation_in_flight a (dv_id d) = None then Inr () else Inl ActuationInFlight)"

text \<open>The health of the capture: the column now, unless the registry is busy, else what the row says.\<close>

definition capture_health :: "Registry \<Rightarrow> bool \<Rightarrow> DeviceRow \<Rightarrow> string" where
  "capture_health g busy d =
     (case (if busy then None else capture_state g (dv_id d)) of Some s \<Rightarrow> s
      | None \<Rightarrow> (case dv_capture_state d of Some s \<Rightarrow> s | None \<Rightarrow> dv_state d))"

definition require_console_deliverable :: "Registry \<Rightarrow> bool \<Rightarrow> DeviceRow \<Rightarrow> unit res" where
  "require_console_deliverable g busy d = (if capture_health g busy d = ''away_in_edl'' then Inl AwayInEdl else Inr ())"

section \<open>Devices and stores\<close>

definition device_or_only :: "Registry \<Rightarrow> string option \<Rightarrow> DeviceRow res" where
  "device_or_only g selector =
     (case selector of Some s \<Rightarrow> resolve g s
      | None \<Rightarrow> (case all_devices g of [d] \<Rightarrow> Inr d | [] \<Rightarrow> Inl UnknownDevice | _ \<Rightarrow> Inl AmbiguousDevice))"

text \<open>A store is opened for devices of this node only, and its counters are read again on every use.\<close>

definition with_store :: "(string \<Rightarrow> DeviceStore) \<Rightarrow> DeviceRow \<Rightarrow> (DeviceStore \<Rightarrow> 'a res \<times> DeviceStore) \<Rightarrow> 'a res \<times> (string \<Rightarrow> DeviceStore)" where
  "with_store stores d f =
     (if dv_kind d = Remote_device then (Inl Internal, stores)
      else case f (reload_counters (stores (dv_db_file d))) of (r, s) \<Rightarrow> (r, stores(dv_db_file d := s)))"

definition forget_store :: "(int \<times> 'h) list \<Rightarrow> int \<Rightarrow> (int \<times> 'h) list" where
  "forget_store handles i = AList.delete i handles"

record Freshness =
  fn_idle_ms :: "int option"
  fn_boot_id :: "int option"
  fn_opened_by :: "string option"
  fn_bytes_this_boot :: int
  fn_capture_state :: string
  fn_cursor :: string

definition freshness :: "Registry \<Rightarrow> bool \<Rightarrow> (string \<Rightarrow> DeviceStore) \<Rightarrow> int \<Rightarrow> DeviceRow \<Rightarrow> Freshness res" where
  "freshness g busy stores now d =
     fst (with_store stores d (\<lambda>s.
       let boot1 = latest_boot s; last1 = (case recent_lines s 1 of l # _ \<Rightarrow> Some l | [] \<Rightarrow> None)
       in (Inr \<lparr> fn_idle_ms = map_option (\<lambda>l. max 0 (now - lr_ts_wall l)) last1,
                 fn_boot_id = map_option ep_id boot1, fn_opened_by = map_option ep_opened_by boot1,
                 fn_bytes_this_boot = (case boot1 of Some b \<Rightarrow> ep_bytes b | None \<Rightarrow> 0),
                 fn_capture_state = capture_health g busy d, fn_cursor = Cursor_encode (head_cursor s) \<rparr>, s)))"

end
