(* ===== verification/Power_Scope.thy ===== *)
theory Power_Scope
  imports Actuation Controllers Store_Notes
begin

text \<open>
  What an actuation covers (\<^verbatim>\<open>tools.rs\<close> of \<^verbatim>\<open>conminer-mcp\<close>): the server with its registry, stores and
  claims, the bench it drives, the consoles of a board, where their streams stand before a press and
  the epochs that are opened there. One call reads the clock once for its own stamps. Texts of
  answers are left out.
\<close>

section \<open>The server and its bench\<close>

text \<open>The commands of the hooks are logged; what the device stores hold besides lines is in \<^verbatim>\<open>sv_notes\<close>.\<close>

record Server =
  sv_registry :: Registry
  sv_stores :: "string \<Rightarrow> DeviceStore"
  sv_notes :: "string \<Rightarrow> Notes"
  sv_act :: Actuations
  sv_log :: "string list list"

text \<open>The configuration, and what the tools meet: how the process of a hook ends after the commands so far;
  what the capture daemon makes of the stores meanwhile, and the time then, at each moment after them;
  how often a watch looks; what the USB bus shows; and the answer to a poke.\<close>

record Bench =
  bn_glob :: glob
  bn_config :: HookConfig
  bn_holder :: string
  bn_allow_tx :: bool
  bn_envelope :: bool
  bn_now :: int
  bn_process :: "string list list \<Rightarrow> string list \<Rightarrow> Spawned"
  bn_capture :: "string list list \<Rightarrow> nat \<Rightarrow> (string \<Rightarrow> DeviceStore) \<Rightarrow> string \<Rightarrow> DeviceStore"
  bn_time :: "string list list \<Rightarrow> nat \<Rightarrow> int"
  bn_polls :: "string list list \<Rightarrow> nat"
  bn_port_before :: "string list list \<Rightarrow> string list \<Rightarrow> bool"
  bn_port_leaves :: "string list list \<Rightarrow> string list \<Rightarrow> bool"
  bn_in_edl :: "string list list \<Rightarrow> nat \<Rightarrow> string list \<Rightarrow> bool"
  bn_poke :: "string list list \<Rightarrow> bool res"

text \<open>Time passes, and the daemon goes on storing what the consoles say.\<close>

definition wait_at :: "Bench \<Rightarrow> nat \<Rightarrow> Server \<Rightarrow> Server" where
  "wait_at bn k sv = sv\<lparr> sv_stores := bn_capture bn (sv_log sv) k (sv_stores sv) \<rparr>"

text \<open>A hook is run, as an actuation or a probe (for shared answers see theory Hook_Laws).\<close>

definition run_hook :: "Bench \<Rightarrow> string \<Rightarrow> substitutions \<Rightarrow> Server \<Rightarrow> HookResult res \<times> Server" where
  "run_hook bn template subs sv =
     (spawn_hook (bn_process bn (sv_log sv)) template subs,
      if render template subs = [] then sv else wait_at bn 0 (sv\<lparr> sv_log := sv_log sv @ [render template subs] \<rparr>))"

definition present_with_topology :: "Server \<Rightarrow> presence" where
  "present_with_topology sv = present_on_this_host (all_devices (sv_registry sv))"

text \<open>\<^verbatim>\<open>declared_usb_ports\<close>: from the configuration and from the tag a self-test writes.\<close>

definition declared_usb_ports :: "Bench \<Rightarrow> DeviceRow \<Rightarrow> string list" where
  "declared_usb_ports bn d =
     (let configured = usb_ports_for (bn_config bn) [dv_canonical d, display_name d, case device_label d of Some l \<Rightarrow> l | None \<Rightarrow> []];
          tagged = (case bt_get (dv_tags d) ''usb_ports'' of Some t \<Rightarrow> filter (\<lambda>p. p \<noteq> []) (map trim (split_str '','' t)) | None \<Rightarrow> [])
      in remdups_adj (order_by (\<lambda>p. p) (configured @ tagged)))"

section \<open>Scope\<close>

record ActuationScope =
  sc_primary :: DeviceRow
  sc_consoles :: "DeviceRow list"
  sc_watched :: "DeviceRow list"
  sc_target :: "string option"
  sc_exempt :: "string list"
  sc_lease_missing :: "string list"
  sc_lease_held :: "string list"

definition board_siblings :: "Bench \<Rightarrow> Server \<Rightarrow> DeviceRow \<Rightarrow> DeviceRow list" where
  "board_siblings bn sv d =
     (let present = present_with_topology sv;
          port_of = (\<lambda>c. controller_port_for (bn_glob bn) (bn_config bn) (dv_canonical c) (dv_by_path c) present)
      in case port_of d of None \<Rightarrow> [d]
         | Some mine \<Rightarrow>
             let out = filter (\<lambda>c. dv_node c = None \<and> \<not> dv_ignored c \<and> dv_ser2net_port c \<noteq> None \<and> port_of c = Some mine)
                   (all_devices (sv_registry sv))
             in if list_ex (\<lambda>c. dv_id c = dv_id d) out then out else out @ [d])"

definition leased :: "Bench \<Rightarrow> Server \<Rightarrow> DeviceRow \<Rightarrow> bool" where
  "leased bn sv c \<longleftrightarrow> require_lease (sv_registry sv) (dv_id c) (bn_holder bn) (bn_now bn) = Inr ()"

definition arg_str :: "json_map \<Rightarrow> string \<Rightarrow> string option" where
  "arg_str args k = as_str (jget (JObj args) k)"

definition arg_flag :: "json_map \<Rightarrow> string \<Rightarrow> bool" where
  "arg_flag args k = (jget (JObj args) k = Some (JBool True))"

definition device_scope :: "Bench \<Rightarrow> Server \<Rightarrow> bool \<Rightarrow> string option \<Rightarrow> ActuationScope res" where
  "device_scope bn sv planning dev =
     and_then (device_or_only (sv_registry sv) dev) (\<lambda>d.
       case require_lease (sv_registry sv) (dv_id d) (bn_holder bn) (bn_now bn) of
         Inl e \<Rightarrow> if planning then Inr \<lparr> sc_primary = d, sc_consoles = [d], sc_watched = board_siblings bn sv d, sc_target = None, sc_exempt = [],
                     sc_lease_missing = [display_name d], sc_lease_held = [] \<rparr> else Inl e
       | Inr _ \<Rightarrow> Inr \<lparr> sc_primary = d, sc_consoles = [d], sc_watched = board_siblings bn sv d, sc_target = None, sc_exempt = [],
                     sc_lease_missing = [], sc_lease_held = [display_name d] \<rparr>)"

definition target_scope :: "Bench \<Rightarrow> Server \<Rightarrow> bool \<Rightarrow> string \<Rightarrow> ActuationScope res" where
  "target_scope bn sv planning t =
     and_then (console_members (sv_registry sv) t) (\<lambda>(consoles, exempt).
       let missing = map display_name (filter (\<lambda>c. \<not> leased bn sv c) consoles); held = map display_name (filter (leased bn sv) consoles)
       in if missing \<noteq> [] \<and> \<not> planning then Inl LeaseRequired
          else let primary = (case find (\<lambda>c. power_hook_for_at (bn_glob bn) (bn_config bn) (display_name c) (dv_canonical c) (dv_by_path c) [] \<noteq> None)
                     consoles of Some c \<Rightarrow> c | None \<Rightarrow> hd consoles)
               in Inr \<lparr> sc_primary = primary, sc_consoles = consoles, sc_watched = consoles, sc_target = Some t, sc_exempt = exempt,
                        sc_lease_missing = missing, sc_lease_held = held \<rparr>)"

definition actuation_scope :: "Bench \<Rightarrow> Server \<Rightarrow> json_map \<Rightarrow> ActuationScope res" where
  "actuation_scope bn sv args =
     (let tgt = arg_str args ''target''; dev = arg_str args ''device''; planning = arg_flag args ''dry_run''
      in if tgt \<noteq> None \<and> dev \<noteq> None then Inl InvalidArgument
         else case tgt of None \<Rightarrow> device_scope bn sv planning dev | Some t \<Rightarrow> target_scope bn sv planning t)"

section \<open>Epochs\<close>

text \<open>Where every console stands before the action runs.\<close>

definition stream_marks :: "Server \<Rightarrow> ActuationScope \<Rightarrow> (int \<times> nat) list" where
  "stream_marks sv scope =
     map (\<lambda>c. (dv_id c, unat (cur_offset (head_cursor (reload_counters (sv_stores sv (dv_db_file c)))))))
       (filter (\<lambda>c. dv_kind c \<noteq> Remote_device) (sc_consoles scope))"

record ActuationEpoch =
  ae_device :: string
  ae_boot_id :: int
  ae_boot_seq :: int
  ae_group_id :: "string option"
  ae_cursor :: string

definition epoch_group :: "Bench \<Rightarrow> ActuationScope \<Rightarrow> string" where
  "epoch_group bn scope = ''g'' @ int_str (bn_now bn) @ ''-'' @ int_str (dv_id (sc_primary scope))"

text \<open>One console: the epoch at its mark, the tie to the others, and the event.\<close>

definition open_actuation_epoch ::
    "Bench \<Rightarrow> ActuationScope \<Rightarrow> string \<Rightarrow> string option \<Rightarrow> string \<Rightarrow> json \<Rightarrow> (int \<times> nat) list \<Rightarrow> DeviceRow \<Rightarrow> Server \<Rightarrow> ActuationEpoch res \<times> Server" where
  "open_actuation_epoch bn scope opened_by label event payload marks c sv =
     (if dv_kind c = Remote_device then (Inl Internal, sv)
      else let file = dv_db_file c; s = reload_counters (sv_stores sv file); session = map_option se_id (latest_session s);
               multi = length (sc_consoles scope) > 1; group1 = epoch_group bn scope
           in case open_boot_at s opened_by label (bn_now bn) session (map_of marks (dv_id c)) of
                (Inl e, s) \<Rightarrow> (Inl e, sv\<lparr> sv_stores := (sv_stores sv)(file := s) \<rparr>)
              | (Inr b, s) \<Rightarrow>
                  let s = (if multi then set_boot_group s (ep_id b) group1 else s)
                  in case append_event s (sv_notes sv file) session (Some (ep_id b)) (bn_now bn) event payload of
                       (Inl e, n) \<Rightarrow> (Inl e, sv\<lparr> sv_stores := (sv_stores sv)(file := s), sv_notes := (sv_notes sv)(file := n) \<rparr>)
                     | (Inr _, n) \<Rightarrow>
                         (Inr \<lparr> ae_device = display_name c, ae_boot_id = ep_id b, ae_boot_seq = ep_seq b,
                                ae_group_id = (if multi then Some group1 else None), ae_cursor = Cursor_encode (cursor_at s (ep_opened_offset b)) \<rparr>,
                          sv\<lparr> sv_stores := (sv_stores sv)(file := s), sv_notes := (sv_notes sv)(file := n) \<rparr>))"

fun open_epochs ::
    "Bench \<Rightarrow> ActuationScope \<Rightarrow> string \<Rightarrow> string option \<Rightarrow> string \<Rightarrow> json \<Rightarrow> (int \<times> nat) list \<Rightarrow> DeviceRow list \<Rightarrow> Server \<Rightarrow> ActuationEpoch list res \<times> Server" where
  "open_epochs bn scope opened_by label event payload marks [] sv = (Inr [], sv)"
| "open_epochs bn scope opened_by label event payload marks (c # cs) sv =
     (case open_actuation_epoch bn scope opened_by label event payload marks c sv of
        (Inl e, sv) \<Rightarrow> (Inl e, sv)
      | (Inr o1, sv) \<Rightarrow>
          (case open_epochs bn scope opened_by label event payload marks cs sv of
             (Inl e, sv) \<Rightarrow> (Inl e, sv)
           | (Inr os, sv) \<Rightarrow> (Inr (o1 # os), sv)))"

definition open_actuation_epochs ::
    "Bench \<Rightarrow> ActuationScope \<Rightarrow> string \<Rightarrow> string option \<Rightarrow> string \<Rightarrow> json \<Rightarrow> (int \<times> nat) list \<Rightarrow> Server \<Rightarrow> ActuationEpoch list res \<times> Server" where
  "open_actuation_epochs bn scope opened_by label event payload marks sv =
     open_epochs bn scope opened_by label event payload marks (sc_consoles scope) sv"

end
