(* ===== verification/Power_Tools.thy ===== *)
theory Power_Tools
  imports Power_Scope
begin

text \<open>
  The tools that actuate a board (\<^verbatim>\<open>tools.rs\<close> of \<^verbatim>\<open>conminer-mcp\<close>): \<^verbatim>\<open>power\<close> with what can be said
  of its effect, \<^verbatim>\<open>boot_mode\<close>, \<^verbatim>\<open>boot_overrides\<close>, \<^verbatim>\<open>normal_boot\<close>, \<^verbatim>\<open>actuation_status\<close> and \<^verbatim>\<open>flash\<close>. An
  answer is a record of what the response says; the reasons it gives are a datatype. USB scans are
  numbered by the moment they are taken at; what a sweep of dead USB entries clears is left out.
\<close>

section \<open>Pressing\<close>

record PowerPlan =
  pp_hook :: ResolvedHook
  pp_timeout :: nat
  pp_device :: string
  pp_settle :: string
  pp_controller :: string

definition or_empty :: "string option \<Rightarrow> string" where
  "or_empty x = (case x of Some s \<Rightarrow> s | None \<Rightarrow> [])"

definition PowerPlan_resolve :: "Bench \<Rightarrow> Server \<Rightarrow> DeviceRow \<Rightarrow> PowerPlan res" where
  "PowerPlan_resolve bn sv d =
     (case power_hook_for_at (bn_glob bn) (bn_config bn) (display_name d) (dv_canonical d) (dv_by_path d) (present_with_topology sv) of
        None \<Rightarrow> Inl HookNotConfigured
      | Some h \<Rightarrow> Inr \<lparr> pp_hook = h, pp_timeout = (case rh_power_timeout_s h of Some t \<Rightarrow> t | None \<Rightarrow> cf_power_timeout_s (bn_config bn)),
          pp_device = dv_canonical d, pp_settle = rh_off_settle_s h, pp_controller = or_empty (rh_controller h) \<rparr>)"

definition plan_args :: "PowerPlan \<Rightarrow> string \<Rightarrow> substitutions" where
  "plan_args plan action =
     [(''action'', action), (''device'', pp_device plan), (''controller'', pp_controller plan), (''off_settle'', pp_settle plan)]"

definition press :: "Bench \<Rightarrow> PowerPlan \<Rightarrow> string \<Rightarrow> Server \<Rightarrow> HookResult res \<times> Server" where
  "press bn plan action sv = run_hook bn (rh_template (pp_hook plan)) (plan_args plan action) sv"

definition poke_console :: "Bench \<Rightarrow> Server \<Rightarrow> bool res" where
  "poke_console bn sv = (if bn_allow_tx bn then bn_poke bn (sv_log sv) else Inl SendDisabled)"

section \<open>The effect\<close>

datatype OffEvidence = WatchUsb | WatchConsole | Impossible

definition off_evidence :: "bool \<Rightarrow> bool \<Rightarrow> bool \<Rightarrow> OffEvidence" where
  "off_evidence was_talking has_ports port_before =
     (if has_ports \<and> port_before then WatchUsb else if was_talking then WatchConsole else Impossible)"

text \<open>The bytes of the current epochs, and how long the freshest console has been silent; sums of byte
  counts do not reach the width of an \<^verbatim>\<open>u64\<close>.\<close>

definition watched_bytes :: "Server \<Rightarrow> int \<Rightarrow> DeviceRow list \<Rightarrow> nat \<times> nat" where
  "watched_bytes sv now ds =
     (let (total, idle) = foldl (\<lambda>(total, idle) d.
            case freshness (sv_registry sv) False (sv_stores sv) now d of Inl _ \<Rightarrow> (total, idle)
            | Inr f \<Rightarrow> (total + nat (fn_bytes_this_boot f),
                case fn_idle_ms f of None \<Rightarrow> idle | Some i \<Rightarrow> Some (case idle of None \<Rightarrow> nat i | Some j \<Rightarrow> min j (nat i)))) (0, None) ds
      in (total, case idle of None \<Rightarrow> 0 | Some i \<Rightarrow> i))"

definition bytes_at :: "Bench \<Rightarrow> nat \<Rightarrow> DeviceRow list \<Rightarrow> Server \<Rightarrow> nat \<times> nat" where
  "bytes_at bn k ds sv = watched_bytes sv (bn_time bn (sv_log sv) k) ds"

text \<open>Watching the console after an \<^verbatim>\<open>off\<close>, to the end of the window: what the last look says.\<close>

fun watch_off :: "Bench \<Rightarrow> DeviceRow list \<Rightarrow> bool \<Rightarrow> nat list \<Rightarrow> bool \<Rightarrow> nat \<times> nat \<Rightarrow> Server \<Rightarrow> bool \<times> Server" where
  "watch_off bn ds was_talking [] ok last1 sv = (ok, sv)"
| "watch_off bn ds was_talking (k # ks) ok last1 sv =
     (let sv = wait_at bn k sv; now = bytes_at bn k ds sv
      in watch_off bn ds was_talking ks (was_talking \<and> snd now > snd last1 \<and> fst now \<le> fst last1) now sv)"

text \<open>Watching for a board to come back: whether it said something, and whether it is in EDL. Every fourth
  look, counted from one, scans the bus.\<close>

fun watch_boot :: "Bench \<Rightarrow> DeviceRow list \<Rightarrow> string list \<Rightarrow> nat \<Rightarrow> nat list \<Rightarrow> Server \<Rightarrow> (bool \<times> bool) \<times> Server" where
  "watch_boot bn ds uports polls [] sv = ((False, False), sv)"
| "watch_boot bn ds uports polls (k # ks) sv =
     (let sv = wait_at bn k sv
      in if fst (bytes_at bn k ds sv) > 0 then ((True, False), sv)
         else if (polls + 1) mod 4 = 0 \<and> bn_in_edl bn (sv_log sv) k uports then ((False, True), sv)
         else watch_boot bn ds uports (polls + 1) ks sv)"

datatype PowerEffect = Port_left | Silent_before | Went_to_edl | Confirmed | Leaving_edl | Already_silent | Expected_edl
  | Not_done | Recovered PowerAction | Unresponsive PowerAction

text \<open>\<^verbatim>\<open>verified\<close> of the answer; \<^verbatim>\<open>null\<close> while an escalation runs.\<close>

fun verified :: "PowerEffect \<Rightarrow> bool option" where
  "verified Leaving_edl = None"
| "verified Port_left = Some True"
| "verified Confirmed = Some True"
| "verified Expected_edl = Some True"
| "verified (Recovered _) = Some True"
| "verified _ = Some False"

fun escalated_to :: "PowerEffect \<Rightarrow> PowerAction option" where
  "escalated_to (Recovered a) = Some a"
| "escalated_to (Unresponsive a) = Some a"
| "escalated_to _ = None"

definition effect_json :: "PowerAction \<Rightarrow> PowerEffect \<Rightarrow> json" where
  "effect_json action v =
     JObj ([(''verified'', case verified v of None \<Rightarrow> JNull | Some b \<Rightarrow> JBool b), (''action'', JStr (PowerAction_as_str action)),
            (''escalated'', JBool (v = Leaving_edl \<or> escalated_to v \<noteq> None))] @
           (case escalated_to v of Some a \<Rightarrow> [(''escalated_to'', JStr (PowerAction_as_str a))] | None \<Rightarrow> []))"

fun escalation :: "PowerAction \<Rightarrow> PowerAction option" where
  "escalation Reset = Some Cycle"
| "escalation On = Some Cycle"
| "escalation Off = Some Off"
| "escalation Cycle = None"

text \<open>The last part of \<^verbatim>\<open>verify_power_effect\<close>: one more press, whose own failure is ignored.\<close>

definition escalate_once :: "Bench \<Rightarrow> DeviceRow list \<Rightarrow> PowerAction \<Rightarrow> PowerPlan \<Rightarrow> Server \<Rightarrow> PowerEffect \<times> Server" where
  "escalate_once bn ds action plan sv =
     (case escalation action of None \<Rightarrow> (Not_done, sv)
      | Some esc \<Rightarrow>
          let sv = wait_at bn 1 (snd (press bn plan (PowerAction_as_str esc) sv)); after = bytes_at bn 1 ds sv;
              recovered = (if action = Off then snd after > 3000 else fst after > 0)
          in (if recovered then Recovered esc else Unresponsive esc, sv))"

text \<open>The moments after the press: 0 when the hook returns, 1 when the board has settled, then the looks,
  the probe for EDL after them, and one more scan.\<close>

definition watch_effect :: "Bench \<Rightarrow> DeviceRow list \<Rightarrow> string list \<Rightarrow> PowerAction \<Rightarrow> bool \<Rightarrow> Server \<Rightarrow> (bool \<times> bool) \<times> Server" where
  "watch_effect bn watched uports action was_talking sv =
     (let looks = [2..<bn_polls bn (sv_log sv) + 2]
      in if action = Off
         then map_prod (\<lambda>ok. (ok, False)) id (watch_off bn watched was_talking looks False (bytes_at bn 1 watched sv) sv)
         else watch_boot bn watched uports 0 looks sv)"

definition judge_effect ::
    "Bench \<Rightarrow> DeviceRow list \<Rightarrow> string list \<Rightarrow> PowerAction \<Rightarrow> PowerPlan \<Rightarrow> bool \<Rightarrow> (bool \<times> bool) \<times> Server \<Rightarrow> PowerEffect \<times> Server" where
  "judge_effect bn watched uports action plan was_talking watched1 =
     (let ((ok, edl_during_watch), sv) = watched1; lg = sv_log sv; n = bn_polls bn lg;
          edl = (edl_during_watch \<or> bn_in_edl bn lg (n + 2) uports)
      in if ok \<and> action = Off \<and> edl then (Went_to_edl, sv)
         else if ok then (Confirmed, sv)
         else if action = Off \<and> edl then (Leaving_edl, sv)
         else if action = Off \<and> \<not> was_talking then (Already_silent, sv)
         else if bn_in_edl bn lg (n + 3) uports then (Expected_edl, sv)
         else escalate_once bn watched action plan sv)"

definition verify_power_effect ::
    "Bench \<Rightarrow> DeviceRow \<Rightarrow> DeviceRow list \<Rightarrow> PowerAction \<Rightarrow> PowerPlan \<Rightarrow> bool option \<Rightarrow> Server \<Rightarrow> PowerEffect \<times> Server" where
  "verify_power_effect bn d watched action plan poked_alive sv =
     (let lg = sv_log sv; uports = declared_usb_ports bn d; before = bytes_at bn 0 watched sv;
          was_talking = (case poked_alive of Some p \<Rightarrow> p | None \<Rightarrow> fst before > 0 \<and> snd before < 5000);
          evidence = off_evidence was_talking (uports \<noteq> []) (bn_port_before bn lg uports); sv = wait_at bn 1 sv
      in if action = Off \<and> evidence = WatchUsb \<and> bn_port_leaves bn lg uports then (Port_left, sv)
         else if action = Off \<and> evidence = Impossible then (Silent_before, sv)
         else judge_effect bn watched uports action plan was_talking (watch_effect bn watched uports action was_talking sv))"

section \<open>Power\<close>

definition with_act :: "(Actuations \<Rightarrow> Actuations) \<Rightarrow> Server \<Rightarrow> Server" where
  "with_act f sv = sv\<lparr> sv_act := f (sv_act sv) \<rparr>"

definition HookResult_json :: "HookResult \<Rightarrow> json" where
  "HookResult_json r = JObj [(''command'', JStr (hr_command r)), (''exit_code'', case hr_exit_code r of Some i \<Rightarrow> JInt i | None \<Rightarrow> JNull),
     (''stdout'', JStr (hr_stdout r)), (''stderr'', JStr (hr_stderr r)), (''duration_ms'', JInt (int (hr_duration_ms r)))]"

record PowerAnswer =
  pa_opened :: "ActuationEpoch list"
  pa_hook :: HookResult
  pa_verdict :: PowerEffect

definition power_outcome :: "Bench \<Rightarrow> ActuationScope \<Rightarrow> DeviceRow \<Rightarrow> PowerAction \<Rightarrow> ActuationEpoch list \<Rightarrow> json \<Rightarrow> json" where
  "power_outcome bn sc d action opened effect =
     JObj [(''tool'', JStr ''power''), (''action'', JStr (PowerAction_as_str action)), (''target'', opt_json (sc_target sc)),
           (''device'', JStr (display_name d)), (''boot_id'', case opened of ep # _ \<Rightarrow> JInt (ae_boot_id ep) | [] \<Rightarrow> JNull),
           (''started_ms'', JInt (bn_now bn)), (''effect'', effect), (''finished_ms'', JInt (bn_now bn))]"

text \<open>\<^verbatim>\<open>run_power\<close>, with the guard as the ids of the consoles; it is dropped on every way out but one, where
  the thread of the escalation takes it. First the part after the press.\<close>

definition settle_power ::
    "Bench \<Rightarrow> ActuationScope \<Rightarrow> DeviceRow \<Rightarrow> PowerAction \<Rightarrow> PowerPlan \<Rightarrow> string option \<Rightarrow> int list \<Rightarrow> bool option \<Rightarrow> (int \<times> nat) list \<Rightarrow> HookResult \<Rightarrow> Server \<Rightarrow>
      PowerAnswer res \<times> Server" where
  "settle_power bn sc d action plan label guard1 poked marks result sv =
     (let release = with_act (\<lambda>a. drop_guard a guard1); sv = with_act (\<lambda>a. set_actuation_phase a guard1 ''verify'') sv;
          (v, sv) = verify_power_effect bn d (sc_watched sc) action plan poked sv;
          event = JObj [(''action'', JStr (PowerAction_as_str action)), (''hook'', HookResult_json result), (''effect'', effect_json action v)]
      in case open_actuation_epochs bn sc ''power'' label ''power'' event marks sv of
           (Inl e, sv) \<Rightarrow> (Inl e, release sv)
         | (Inr opened, sv) \<Rightarrow>
             (Inr \<lparr> pa_opened = opened, pa_hook = result, pa_verdict = v \<rparr>,
              if v = Leaving_edl then sv
              else release (with_act (\<lambda>a. record_actuation_outcome a (map dv_id (sc_consoles sc))
                     (power_outcome bn sc d action opened (effect_json action v))) sv)))"

definition run_power ::
    "Bench \<Rightarrow> ActuationScope \<Rightarrow> DeviceRow \<Rightarrow> PowerAction \<Rightarrow> PowerPlan \<Rightarrow> string option \<Rightarrow> bool \<Rightarrow> int list \<Rightarrow> Server \<Rightarrow> PowerAnswer res \<times> Server" where
  "run_power bn sc d action plan label poke guard1 sv =
     (let release = with_act (\<lambda>a. drop_guard a guard1)
      in case (if action = Off \<and> poke then map_sum id Some (poke_console bn sv) else Inr None) of
           Inl e \<Rightarrow> (Inl e, release sv)
         | Inr poked \<Rightarrow>
             let marks = stream_marks sv sc
             in case press bn plan (PowerAction_as_str action) sv of
                  (Inl e, sv) \<Rightarrow> (Inl e, release sv)
                | (Inr result, sv) \<Rightarrow> settle_power bn sc d action plan label guard1 poked marks result sv)"

text \<open>The thread of the escalation: a reset, a pause, an \<^verbatim>\<open>off\<close>; what it found goes to every console.\<close>

definition note_escalation :: "Bench \<Rightarrow> json \<Rightarrow> Server \<Rightarrow> DeviceRow \<Rightarrow> Server" where
  "note_escalation bn event sv c =
     (if dv_kind c = Remote_device then sv
      else let file = dv_db_file c; s = reload_counters (sv_stores sv file)
           in sv\<lparr> sv_stores := (sv_stores sv)(file := s),
                 sv_notes := (sv_notes sv)(file := snd (append_event s (sv_notes sv file) (map_option se_id (latest_session s))
                   (map_option ep_id (latest_boot s)) (bn_now bn) ''power'' event)) \<rparr>)"

definition escalate :: "Bench \<Rightarrow> ActuationScope \<Rightarrow> DeviceRow \<Rightarrow> PowerAction \<Rightarrow> PowerPlan \<Rightarrow> ActuationEpoch list \<Rightarrow> int list \<Rightarrow> Server \<Rightarrow> Server" where
  "escalate bn sc d action plan opened guard1 sv =
     (let sv = snd (press bn plan ''reset'' (with_act (\<lambda>a. set_actuation_phase a guard1 ''escalation: reset (leaving EDL)'') sv));
          sv = wait_at bn 1 (with_act (\<lambda>a. set_actuation_phase a guard1 ''escalation: waiting past early boot (25 s)'') sv);
          sv = snd (press bn plan ''off'' (with_act (\<lambda>a. set_actuation_phase a guard1 ''escalation: off'') sv));
          sv = wait_at bn 1 (with_act (\<lambda>a. set_actuation_phase a guard1 ''escalation: settling (8 s)'') sv);
          still_edl = bn_in_edl bn (sv_log sv) 1 (declared_usb_ports bn d);
          effect = JObj [(''verified'', JBool (\<not> still_edl)), (''action'', JStr (PowerAction_as_str action)), (''escalated'', JBool True)];
          event = JObj [(''action'', JStr (PowerAction_as_str action)), (''effect'', effect),
            (''escalation_of'', case opened of ep # _ \<Rightarrow> JInt (ae_boot_id ep) | [] \<Rightarrow> JNull), (''source'', JStr ''escalation'')];
          sv = foldl (note_escalation bn event) sv (sc_consoles sc)
      in with_act (\<lambda>a. drop_guard (record_actuation_outcome a guard1 (power_outcome bn sc d action opened effect)) guard1) sv)"

end
