(* ===== verification/Actuation_Tools.thy ===== *)
theory Actuation_Tools
  imports Power_Tools
begin

text \<open>
  The handlers of the tools that actuate a board (\<^verbatim>\<open>tools.rs\<close> of \<^verbatim>\<open>conminer-mcp\<close>): \<^verbatim>\<open>power\<close>,
  \<^verbatim>\<open>boot_mode\<close>, \<^verbatim>\<open>boot_overrides\<close>, \<^verbatim>\<open>normal_boot\<close>, \<^verbatim>\<open>actuation_status\<close>, \<^verbatim>\<open>flash\<close> and \<^verbatim>\<open>mark\<close>. A
  planning call answers with the commands it would run.
\<close>

section \<open>Arguments and the envelope\<close>

definition req_str :: "json_map \<Rightarrow> string \<Rightarrow> string res" where
  "req_str args k = ok_or InvalidArgument (arg_str args k)"

text \<open>\<^verbatim>\<open>fresh\<close>: the answer goes out with the freshness of the device, unless that was not asked for.\<close>

definition fresh :: "Bench \<Rightarrow> DeviceRow \<Rightarrow> 'a \<Rightarrow> Server \<Rightarrow> 'a res \<times> Server" where
  "fresh bn d x sv =
     (if bn_envelope bn then map_sum id (\<lambda>_. x) (freshness (sv_registry sv) False (sv_stores sv) (bn_now bn) d) else Inr x, sv)"

section \<open>Power\<close>

datatype PowerReply = Plan_only "string list list" | Pressed PowerAnswer

definition claim :: "Bench \<Rightarrow> string \<Rightarrow> string \<Rightarrow> ActuationScope \<Rightarrow> Server \<Rightarrow> int list res \<times> Server" where
  "claim bn tool action sc sv =
     (let (r, a) = begin_actuation (sv_act sv) tool action (bn_holder bn) (bn_now bn) (map dv_id (sc_consoles sc)) in (r, sv\<lparr> sv_act := a \<rparr>))"

definition power_tool :: "Bench \<Rightarrow> json_map \<Rightarrow> Server \<Rightarrow> PowerReply res \<times> Server" where
  "power_tool bn args sv =
     (case actuation_scope bn sv args of Inl e \<Rightarrow> (Inl e, sv)
      | Inr sc \<Rightarrow> let d = sc_primary sc in
     case and_then (req_str args ''action'') PowerAction_parse of Inl e \<Rightarrow> (Inl e, sv)
      | Inr action \<Rightarrow>
     case PowerPlan_resolve bn sv d of Inl e \<Rightarrow> (Inl e, sv)
      | Inr plan \<Rightarrow>
     if arg_flag args ''dry_run''
     then fresh bn d (Plan_only [render (rh_template (pp_hook plan)) (plan_args plan (PowerAction_as_str action))]) sv
     else case claim bn ''power'' (PowerAction_as_str action) sc sv of (Inl e, sv) \<Rightarrow> (Inl e, sv)
      | (Inr g, sv) \<Rightarrow>
     case run_power bn sc d action plan (arg_str args ''label'') (arg_str args ''verify'' = Some ''poke'') g sv of (Inl e, sv) \<Rightarrow> (Inl e, sv)
      | (Inr x, sv) \<Rightarrow> fresh bn d (Pressed x) sv)"

section \<open>Reading the overrides\<close>

definition OVERRIDES_DEFAULT_MAX_AGE_MS :: int where
  "OVERRIDES_DEFAULT_MAX_AGE_MS = 20000"

definition read_args :: "DeviceRow \<Rightarrow> ResolvedHook \<Rightarrow> substitutions" where
  "read_args d h = [(''device'', dv_canonical d), (''controller'', or_empty (rh_controller h)), (''mode'', []), (''action'', [])]"

definition overrides_hook :: "Bench \<Rightarrow> Server \<Rightarrow> DeviceRow \<Rightarrow> ResolvedHook option" where
  "overrides_hook bn sv d = boot_overrides_hook_for_at (bn_glob bn) (bn_config bn) (dv_canonical d) (dv_by_path d) (present_with_topology sv)"

definition read_boot_overrides :: "Bench \<Rightarrow> DeviceRow \<Rightarrow> int \<Rightarrow> Server \<Rightarrow> (OverridesReading \<times> string) option \<times> Server" where
  "read_boot_overrides bn d max_age_ms sv =
     (case overrides_hook bn sv d of None \<Rightarrow> (None, sv)
      | Some h \<Rightarrow>
          let key = (case rh_controller h of Some c \<Rightarrow> c | None \<Rightarrow> dv_canonical d);
              usable = (if max_age_ms > 0 then
                 (case cached_overrides (sv_act sv) key of
                    Some r \<Rightarrow> if saturating_sub_i64 (bn_now bn) (or_read_at_ms r) \<le> max_age_ms then Some r else None
                  | None \<Rightarrow> None) else None)
          in case usable of Some r \<Rightarrow> (Some (r, ''cached_controller_read''), sv)
             | None \<Rightarrow>
                 let (res1, sv) = run_hook bn (rh_template h) (read_args d h) sv;
                     (ovr, err) = (case res1 of
                        Inr r \<Rightarrow> (let ovr = BootOverrides_parse (hr_stdout r)
                           in (ovr, if signals ovr = [] then Some ''the read hook ran but reported no override lines'' else None))
                      | Inl e \<Rightarrow> (unreadable, Some ''the read hook failed''));
                     reading = \<lparr> or_overrides = ovr, or_read_at_ms = bn_now bn, or_error = err, or_controller = Some (rh_source h),
                       or_controller_port = rh_controller h,
                       or_release_one = (boot_mode_release_hook_for_at (bn_glob bn) (bn_config bn) (dv_canonical d) (dv_by_path d)
                         (present_with_topology sv) \<noteq> None) \<rparr>
                 in (Some (reading, ''controller_read''), with_act (\<lambda>a. store_overrides a key reading) sv))"

text \<open>What of an answer is decided by the reading.\<close>

definition overrides_state :: "(OverridesReading \<times> string) option \<Rightarrow> string" where
  "overrides_state r = (case r of None \<Rightarrow> ''unsupported'' | Some (r, _) \<Rightarrow> Summary_as_str (summary (or_overrides r)))"

definition overrides_json :: "Bench \<Rightarrow> (OverridesReading \<times> string) option \<Rightarrow> json" where
  "overrides_json bn reading =
     (case reading of None \<Rightarrow> JObj [(''supported'', JBool False), (''state'', JStr ''unsupported'')]
      | Some (r, source) \<Rightarrow>
          JObj ([(''supported'', JBool True), (''state'', JStr (overrides_state reading)),
             (''overrides'', JObj (levels_json (or_overrides r))), (''asserted'', JArr (map JStr (asserted (or_overrides r)))),
             (''unknown'', JArr (map JStr (unknown (or_overrides r)))), (''modes'', JObj (modes_json (or_overrides r))),
             (''release'', JStr (if or_release_one r then ''per_mode'' else ''all_only'')), (''read_at_ms'', JInt (or_read_at_ms r)),
             (''age_ms'', JInt (saturating_sub_i64 (bn_now bn) (or_read_at_ms r))), (''source'', JStr source),
             (''controller'', opt_json (or_controller r)), (''controller_port'', opt_json (or_controller_port r))]
            @ (case or_error r of Some e \<Rightarrow> [(''error'', JStr e)] | None \<Rightarrow> [])))"

definition boot_overrides_tool :: "Bench \<Rightarrow> json_map \<Rightarrow> Server \<Rightarrow> json res \<times> Server" where
  "boot_overrides_tool bn args sv =
     (let tgt = arg_str args ''target''; dev = arg_str args ''device''
      in if tgt \<noteq> None \<and> dev \<noteq> None then (Inl InvalidArgument, sv)
         else case (case tgt of
             Some t \<Rightarrow> and_then (console_members (sv_registry sv) t) (\<lambda>(cs, _). case cs of c # _ \<Rightarrow> Inr c | [] \<Rightarrow> Inl UnknownDevice)
           | None \<Rightarrow> device_or_only (sv_registry sv) dev) of
         Inl e \<Rightarrow> (Inl e, sv)
       | Inr d \<Rightarrow>
           let max_age = (case as_i64 (jget (JObj args) ''max_age_s'') of
                 Some s \<Rightarrow> min (max s 0 * 1000) (2 ^ 63 - 1) | None \<Rightarrow> OVERRIDES_DEFAULT_MAX_AGE_MS);
               (reading, sv) = read_boot_overrides bn d max_age sv
           in fresh bn d (JObj [(''boot_overrides'', overrides_json bn reading)]) sv)"

section \<open>Boot modes\<close>

definition clear_word :: "string \<Rightarrow> bool" where
  "clear_word m \<longleftrightarrow> map to_ascii_lower m \<in> {''clear'', ''none'', ''normal''}"

datatype ModeWarning = Several_held "string list" | Still_held "string list" | Not_released

record ModeAnswer =
  ma_mode :: string
  ma_released :: bool
  ma_entered :: bool
  ma_hook :: HookResult
  ma_opened :: "ActuationEpoch list"
  ma_overrides :: "json option"
  ma_warning :: "ModeWarning option"

datatype ModeReply = Mode_plan "string list list" | Mode_set ModeAnswer

definition mode_args :: "DeviceRow \<Rightarrow> ResolvedHook \<Rightarrow> string \<Rightarrow> substitutions" where
  "mode_args d h mode = [(''mode'', mode), (''device'', dv_canonical d), (''controller'', or_empty (rh_controller h))]"

definition mode_hook :: "Bench \<Rightarrow> Server \<Rightarrow> DeviceRow \<Rightarrow> bool \<Rightarrow> ResolvedHook res" where
  "mode_hook bn sv d releasing =
     ok_or HookNotConfigured
       (if releasing then boot_mode_release_hook_for_at (bn_glob bn) (bn_config bn) (dv_canonical d) (dv_by_path d) (present_with_topology sv)
        else boot_mode_hook_for_at (bn_glob bn) (bn_config bn) (display_name d) (dv_canonical d) (dv_by_path d) (present_with_topology sv))"

text \<open>The checks of the mode: the word for the hook, and whether it is a release of all or of one.\<close>

definition mode_request :: "Bench \<Rightarrow> DeviceRow \<Rightarrow> json_map \<Rightarrow> (string \<times> bool \<times> bool) res" where
  "mode_request bn d args =
     and_then (req_str args ''mode'') (\<lambda>mode.
       let clearing = clear_word mode; releasing = arg_flag args ''release''
       in if \<not> clearing \<and> mode \<notin> set (boot_modes_for (bn_glob bn) (bn_config bn) (display_name d) (dv_canonical d)) then Inl InvalidArgument
          else if releasing \<and> clearing then Inl InvalidArgument
          else Inr (if clearing then ''clear'' else mode, clearing, releasing))"

definition enters_immediately :: "Bench \<Rightarrow> DeviceRow \<Rightarrow> bool" where
  "enters_immediately bn d =
     (case controller_for (bn_glob bn) (bn_config bn) (dv_canonical d) of Some c \<Rightarrow> cp_mode_enters_immediately c | None \<Rightarrow> False)"

text \<open>What the readback makes the answer warn of; a later warning replaces an earlier one.\<close>

definition mode_warning :: "BootOverrides \<Rightarrow> string \<Rightarrow> bool \<Rightarrow> bool \<Rightarrow> ModeWarning option" where
  "mode_warning ovr mode clearing releasing =
     (if releasing \<and> mode_level ovr mode \<noteq> Some Released then Some Not_released
      else if clearing \<and> asserted ovr \<noteq> [] then Some (Still_held (asserted ovr))
      else if length (asserted ovr) > 1 then Some (Several_held (asserted ovr)) else None)"

text \<open>\<^verbatim>\<open>publish_capture_state\<close> after an entry into EDL.\<close>

definition publish_edl :: "Bench \<Rightarrow> DeviceRow \<Rightarrow> string \<Rightarrow> bool \<Rightarrow> bool \<Rightarrow> Server \<Rightarrow> Server" where
  "publish_edl bn d mode clearing releasing sv =
     (if enters_immediately bn d \<and> \<not> clearing \<and> \<not> releasing \<and> map to_ascii_lower mode = ''edl''
      then sv\<lparr> sv_registry := set_capture_state (sv_registry sv) (dv_id d) ''away_in_edl'' \<rparr> else sv)"

definition run_boot_mode ::
    "Bench \<Rightarrow> ActuationScope \<Rightarrow> DeviceRow \<Rightarrow> ResolvedHook \<Rightarrow> string \<Rightarrow> bool \<Rightarrow> bool \<Rightarrow> string option \<Rightarrow> int list \<Rightarrow> Server \<Rightarrow> ModeReply res \<times> Server" where
  "run_boot_mode bn sc d h mode clearing releasing label guard1 sv =
     (let marks = stream_marks sv sc; action = (if releasing then ''release '' @ mode else mode);
          release = with_act (\<lambda>a. drop_guard a guard1)
      in case run_hook bn (rh_template h) (mode_args d h mode) sv of (Inl e, sv) \<Rightarrow> (Inl e, release sv)
       | (Inr result, sv) \<Rightarrow>
      let label = (case label of Some l \<Rightarrow> l | None \<Rightarrow> ''boot_mode '' @ action);
          event = JObj [(''mode'', JStr mode), (''release'', JBool releasing), (''hook'', HookResult_json result)]
      in case open_actuation_epochs bn sc ''power'' (Some label) ''boot_mode'' event marks sv of (Inl e, sv) \<Rightarrow> (Inl e, release sv)
       | (Inr opened, sv) \<Rightarrow>
      let (reading, sv) = read_boot_overrides bn d 0 sv;
          sv = publish_edl bn d mode clearing releasing sv;
          (r, sv) = fresh bn d (Mode_set \<lparr> ma_mode = mode, ma_released = releasing,
            ma_entered = (enters_immediately bn d \<and> \<not> clearing \<and> \<not> releasing), ma_hook = result, ma_opened = opened,
            ma_overrides = map_option (\<lambda>_. overrides_json bn reading) reading,
            ma_warning = Option.bind reading (\<lambda>(r, _). mode_warning (or_overrides r) mode clearing releasing) \<rparr>) sv
      in (r, release sv))"

definition boot_mode_tool :: "Bench \<Rightarrow> json_map \<Rightarrow> Server \<Rightarrow> ModeReply res \<times> Server" where
  "boot_mode_tool bn args sv =
     (case actuation_scope bn sv args of Inl e \<Rightarrow> (Inl e, sv)
      | Inr sc \<Rightarrow> let d = sc_primary sc in
     case mode_request bn d args of Inl e \<Rightarrow> (Inl e, sv)
      | Inr (mode, clearing, releasing) \<Rightarrow>
     case mode_hook bn sv d releasing of Inl e \<Rightarrow> (Inl e, sv)
      | Inr h \<Rightarrow>
     if arg_flag args ''dry_run'' then fresh bn d (Mode_plan [render (rh_template h) (mode_args d h mode)]) sv
     else case claim bn ''boot_mode'' (if releasing then ''release '' @ mode else mode) sc sv of (Inl e, sv) \<Rightarrow> (Inl e, sv)
      | (Inr g, sv) \<Rightarrow> run_boot_mode bn sc d h mode clearing releasing (arg_str args ''label'') g sv)"

section \<open>A normal boot\<close>

datatype NormalReply = Normal_plan "string list list" | Normal_booted HookResult json PowerAnswer

definition abort_outcome :: "Bench \<Rightarrow> ActuationScope \<Rightarrow> DeviceRow \<Rightarrow> string \<Rightarrow> json" where
  "abort_outcome bn sc d step =
     JObj [(''tool'', JStr ''normal_boot''), (''action'', JStr ''clear+cycle''), (''target'', opt_json (sc_target sc)),
           (''device'', JStr (display_name d)), (''aborted_at'', JStr step), (''power_cycled'', JBool False), (''finished_ms'', JInt (bn_now bn))]"

text \<open>Stopping before the cycle: the outcome is kept, the guard dropped.\<close>

definition abort :: "Bench \<Rightarrow> ActuationScope \<Rightarrow> DeviceRow \<Rightarrow> string \<Rightarrow> int list \<Rightarrow> Server \<Rightarrow> NormalReply res \<times> Server" where
  "abort bn sc d step guard1 sv =
     (Inl NormalBootAborted, with_act (\<lambda>a. drop_guard (record_actuation_outcome a (map dv_id (sc_consoles sc)) (abort_outcome bn sc d step)) guard1) sv)"

text \<open>The readback: what it shows if that lets the boot go on.\<close>

definition prove_released :: "Bench \<Rightarrow> DeviceRow \<Rightarrow> bool \<Rightarrow> Server \<Rightarrow> json option \<times> Server" where
  "prove_released bn d readable sv =
     (if \<not> readable then (Some (JObj [(''supported'', JBool False), (''state'', JStr ''not_latching'')]), sv)
      else let (reading, sv) = read_boot_overrides bn d 0 sv
           in (case reading of Some (r, _) \<Rightarrow> if all_released (or_overrides r) then Some (overrides_json bn reading) else None | None \<Rightarrow> None, sv))"

definition run_normal_boot ::
    "Bench \<Rightarrow> ActuationScope \<Rightarrow> DeviceRow \<Rightarrow> ResolvedHook \<Rightarrow> bool \<Rightarrow> PowerPlan \<Rightarrow> string option \<Rightarrow> int list \<Rightarrow> Server \<Rightarrow> NormalReply res \<times> Server" where
  "run_normal_boot bn sc d clear_hook readable plan label guard1 sv =
     (case run_hook bn (rh_template clear_hook) (mode_args d clear_hook ''clear'')
             (with_act (\<lambda>a. set_actuation_phase a guard1 ''clear_overrides'') sv) of
        (Inl e, sv) \<Rightarrow> abort bn sc d ''clear_overrides'' guard1 (snd (read_boot_overrides bn d 0 sv))
      | (Inr cleared, sv) \<Rightarrow>
     case prove_released bn d readable (with_act (\<lambda>a. set_actuation_phase a guard1 ''verify_overrides'') sv) of
        (None, sv) \<Rightarrow> abort bn sc d ''verify_overrides'' guard1 sv
      | (Some proof1, sv) \<Rightarrow>
     let label = (case label of Some l \<Rightarrow> l | None \<Rightarrow> ''normal_boot (overrides released and verified)'')
     in case run_power bn sc d Cycle plan (Some label) False guard1 (with_act (\<lambda>a. set_actuation_phase a guard1 ''hook'') sv) of
        (Inl e, sv) \<Rightarrow> (Inl e, sv)
      | (Inr x, sv) \<Rightarrow> fresh bn d (Normal_booted cleared proof1 x) sv)"

definition normal_boot_tool :: "Bench \<Rightarrow> json_map \<Rightarrow> Server \<Rightarrow> NormalReply res \<times> Server" where
  "normal_boot_tool bn args sv =
     (case actuation_scope bn sv args of Inl e \<Rightarrow> (Inl e, sv)
      | Inr sc \<Rightarrow> let d = sc_primary sc in
     case mode_hook bn sv d False of Inl e \<Rightarrow> (Inl e, sv)
      | Inr clear_hook \<Rightarrow>
     case PowerPlan_resolve bn sv d of Inl e \<Rightarrow> (Inl e, sv)
      | Inr plan \<Rightarrow> let readable = (overrides_hook bn sv d \<noteq> None) in
     if \<not> readable \<and> \<not> enters_immediately bn d then (Inl HookNotConfigured, sv)
     else if arg_flag args ''dry_run''
     then fresh bn d (Normal_plan ([render (rh_template clear_hook) (mode_args d clear_hook ''clear'')] @
            (case overrides_hook bn sv d of Some h \<Rightarrow> [render (rh_template h) (read_args d h)] | None \<Rightarrow> []) @
            [render (rh_template (pp_hook plan)) (plan_args plan ''cycle'')])) sv
     else case claim bn ''normal_boot'' ''clear+cycle'' sc sv of (Inl e, sv) \<Rightarrow> (Inl e, sv)
      | (Inr g, sv) \<Rightarrow> run_normal_boot bn sc d clear_hook readable plan (arg_str args ''label'') g sv)"

section \<open>What is running\<close>

record StatusAnswer =
  sa_board_free :: bool
  sa_in_flight :: "json option"
  sa_last :: "json option"
  sa_consoles :: "(string \<times> json option \<times> json option) list"

definition finished_ms :: "json \<Rightarrow> int option" where
  "finished_ms j = as_i64 (jget j ''finished_ms'')"

text \<open>The newest outcome so far and the next.\<close>

definition newer_outcome :: "json option \<Rightarrow> json option \<Rightarrow> json option" where
  "newer_outcome best l =
     (case l of None \<Rightarrow> best
      | Some x \<Rightarrow> (case Option.bind best finished_ms of None \<Rightarrow> Some x
          | Some p \<Rightarrow> if (case finished_ms x of Some t \<Rightarrow> t | None \<Rightarrow> 0) > p then Some x else best))"

definition status_of :: "Bench \<Rightarrow> Server \<Rightarrow> DeviceRow list \<Rightarrow> StatusAnswer" where
  "status_of bn sv cs =
     (let flight = (\<lambda>c. map_option (\<lambda>f. InFlight_to_json f (bn_now bn)) (actuation_in_flight (sv_act sv) (dv_id c)));
          ended = (\<lambda>c. last_actuation_outcome (sv_act sv) (dv_id c));
          running = (case List.map_filter flight cs of f # _ \<Rightarrow> Some f | [] \<Rightarrow> None)
      in \<lparr> sa_board_free = (running = None), sa_in_flight = running, sa_last = foldl (\<lambda>best c. newer_outcome best (ended c)) None cs,
           sa_consoles = map (\<lambda>c. (display_name c, flight c, ended c)) cs \<rparr>)"

definition actuation_status_tool :: "Bench \<Rightarrow> json_map \<Rightarrow> Server \<Rightarrow> StatusAnswer res \<times> Server" where
  "actuation_status_tool bn args sv =
     (let tgt = arg_str args ''target''; dev = arg_str args ''device''
      in if tgt \<noteq> None \<and> dev \<noteq> None then (Inl InvalidArgument, sv)
         else case (case tgt of Some t \<Rightarrow> map_sum id fst (console_members (sv_registry sv) t)
                    | None \<Rightarrow> map_sum id (\<lambda>d. [d]) (device_or_only (sv_registry sv) dev)) of
           Inl e \<Rightarrow> (Inl e, sv)
         | Inr cs \<Rightarrow> fresh bn (hd cs) (status_of bn sv cs) sv)"

section \<open>Flashing and marking\<close>

record FlashAnswer =
  fa_image_id :: int
  fa_boot_id :: int
  fa_cursor :: string
  fa_hook :: HookResult

datatype FlashReply = Flash_plan "string list list" bool | Flashed FlashAnswer

definition flash_args :: "string \<Rightarrow> DeviceRow \<Rightarrow> substitutions" where
  "flash_args img d = [(''image'', img), (''device'', dv_canonical d)]"

text \<open>The span in the store of the device, once the hook has run.\<close>

definition bind_flash :: "Bench \<Rightarrow> DeviceRow \<Rightarrow> json_map \<Rightarrow> string \<Rightarrow> HookResult \<Rightarrow> Server \<Rightarrow> FlashAnswer res \<times> Server" where
  "bind_flash bn d args img result sv =
     (if dv_kind d = Remote_device then (Inl Internal, sv)
      else let file = dv_db_file d; s = reload_counters (sv_stores sv file); n = sv_notes sv file;
               name = (case arg_str args ''name'' of Some x \<Rightarrow> x | None \<Rightarrow> img);
               meta = JObj [(''name'', JStr name), (''git_sha'', opt_json (arg_str args ''git_sha'')), (''image_hash'', opt_json (arg_str args ''image_hash''))];
               keep = (\<lambda>s n. sv\<lparr> sv_stores := (sv_stores sv)(file := s), sv_notes := (sv_notes sv)(file := n) \<rparr>)
           in case bind_image n (Some name) (arg_str args ''git_sha'') (arg_str args ''image_hash'') ''flash_hook'' meta (bn_now bn) of
                (Inl e, n) \<Rightarrow> (Inl e, keep s n)
              | (Inr image_id, n) \<Rightarrow>
           let session = map_option se_id (latest_session s)
           in case open_boot s ''flash'' (Some img) (bn_now bn) session of
                (Inl e, s) \<Rightarrow> (Inl e, keep s n)
              | (Inr b, s) \<Rightarrow>
           let s = set_boot_image s (ep_id b) image_id
           in case append_event s n session (Some (ep_id b)) (bn_now bn) ''flash''
                     (JObj [(''image'', JStr img), (''image_id'', JInt image_id), (''hook'', HookResult_json result)]) of
                (Inl e, n) \<Rightarrow> (Inl e, keep s n)
              | (Inr _, n) \<Rightarrow> (Inr \<lparr> fa_image_id = image_id, fa_boot_id = ep_id b, fa_cursor = Cursor_encode (head_cursor s), fa_hook = result \<rparr>, keep s n))"

definition flash_tool :: "Bench \<Rightarrow> json_map \<Rightarrow> Server \<Rightarrow> FlashReply res \<times> Server" where
  "flash_tool bn args sv =
     (case device_or_only (sv_registry sv) (arg_str args ''device'') of Inl e \<Rightarrow> (Inl e, sv)
      | Inr d \<Rightarrow>
     case (if leased bn sv d \<or> arg_flag args ''dry_run'' then Inr () else require_lease (sv_registry sv) (dv_id d) (bn_holder bn) (bn_now bn)) of
        Inl e \<Rightarrow> (Inl e, sv)
      | Inr _ \<Rightarrow>
     case req_str args ''image'' of Inl e \<Rightarrow> (Inl e, sv)
      | Inr img \<Rightarrow>
     case Option.bind (map_of (cf_devices (bn_config bn)) (display_name d)) (\<lambda>x. dh_flash (do_hooks x)) of None \<Rightarrow> (Inl HookNotConfigured, sv)
      | Some template \<Rightarrow>
     if arg_flag args ''dry_run'' then fresh bn d (Flash_plan [render template (flash_args img d)] (leased bn sv d)) sv
     else case run_hook bn template (flash_args img d) sv of (Inl e, sv) \<Rightarrow> (Inl e, sv)
      | (Inr result, sv) \<Rightarrow>
     case bind_flash bn d args img result sv of (Inl e, sv) \<Rightarrow> (Inl e, sv)
      | (Inr x, sv) \<Rightarrow> fresh bn d (Flashed x) sv)"

definition mark_tool :: "Bench \<Rightarrow> json_map \<Rightarrow> Server \<Rightarrow> (int \<times> int \<times> string) res \<times> Server" where
  "mark_tool bn args sv =
     (case device_or_only (sv_registry sv) (arg_str args ''device'') of Inl e \<Rightarrow> (Inl e, sv)
      | Inr d \<Rightarrow>
     case require_lease (sv_registry sv) (dv_id d) (bn_holder bn) (bn_now bn) of Inl e \<Rightarrow> (Inl e, sv)
      | Inr _ \<Rightarrow>
     case with_store (sv_stores sv) d (\<lambda>s.
            case open_boot s ''mark'' (arg_str args ''label'') (bn_now bn) (map_option se_id (latest_session s)) of
              (Inl e, s) \<Rightarrow> (Inl e, s)
            | (Inr b, s) \<Rightarrow> (Inr (ep_id b, ep_seq b, Cursor_encode (head_cursor s)), s)) of
        (Inl e, st) \<Rightarrow> (Inl e, sv\<lparr> sv_stores := st \<rparr>)
      | (Inr x, st) \<Rightarrow> fresh bn d x (sv\<lparr> sv_stores := st \<rparr>))"

end
