(* ===== verification/Actuation_Laws.thy ===== *)
theory Actuation_Laws
  imports Actuation
begin

text \<open>
  The claims of consoles under concurrent calls: who holds what, for as long as its guard lives, and
  what the server says of it.
\<close>

section \<open>Maps\<close>

lemma map_of_update_all: "map_of (foldl (\<lambda>m i. AList.update i f m) m ids) j = (if j \<in> set ids then Some f else map_of m j)"
  by (induction ids arbitrary: m) (auto simp: update_conv)

lemma map_of_delete_all: "map_of (foldl (\<lambda>m i. AList.delete i m) m ids) j = (if j \<in> set ids then None else map_of m j)"
  by (induction ids arbitrary: m) (auto simp: delete_conv)

lemma map_of_map_at: "map_of (map (\<lambda>(j, x). (j, if j = i then F x else x)) m) k = (if k = i then map_option F (map_of m k) else map_of m k)"
  by (induction m) auto

lemma map_of_phase_all:
  "map_of (foldl (\<lambda>m i. map (\<lambda>(j, f). (j, if j = i then f\<lparr> if_phase := p \<rparr> else f)) m) m ids) j =
     (if j \<in> set ids then map_option (\<lambda>f. f\<lparr> if_phase := p \<rparr>) (map_of m j) else map_of m j)"
proof (induction ids arbitrary: m)
  case (Cons i ids)
  have "map_of (map (\<lambda>(j, f). (j, if j = i then f\<lparr> if_phase := p \<rparr> else f)) m) j =
      (if j = i then map_option (\<lambda>f. f\<lparr> if_phase := p \<rparr>) (map_of m j) else map_of m j)"
    using map_of_map_at [of i "\<lambda>f. f\<lparr> if_phase := p \<rparr>" m j] by simp
  with Cons show ?case by (cases "map_of m j") auto
qed simp

lemma in_flight_ops [simp]:
  "actuation_in_flight (set_actuation_phase a ids p) j =
     (if j \<in> set ids then map_option (\<lambda>f. f\<lparr> if_phase := p \<rparr>) (actuation_in_flight a j) else actuation_in_flight a j)"
  "actuation_in_flight (drop_guard a ids) j = (if j \<in> set ids then None else actuation_in_flight a j)"
  "actuation_in_flight (record_actuation_outcome a ids v) j = actuation_in_flight a j"
  "actuation_in_flight (store_overrides a key r) j = actuation_in_flight a j"
  by (simp_all add: actuation_in_flight_def set_actuation_phase_def drop_guard_def record_actuation_outcome_def store_overrides_def
      map_of_phase_all map_of_delete_all)

lemma begin_cases:
  "begin_actuation a tool action holder now consoles = (r, a') \<Longrightarrow>
     (\<exists>i \<in> set consoles. actuation_in_flight a i \<noteq> None) \<and> r = Inl ActuationInFlight \<and> a' = a \<or>
     (\<forall>i \<in> set consoles. actuation_in_flight a i = None) \<and> r = Inr consoles \<and>
     (\<forall>j. actuation_in_flight a' j = (if j \<in> set consoles
        then Some \<lparr> if_tool = tool, if_action = action, if_holder = holder, if_since_ms = now, if_phase = ''hook'' \<rparr>
        else actuation_in_flight a j))"
  by (auto simp: begin_actuation_def Let_def list_ex_iff actuation_in_flight_def map_of_update_all split: if_splits)

section \<open>Calls\<close>

record Guard =
  gd_tool :: string
  gd_action :: string
  gd_ids :: "int list"
  gd_phase :: string

record ActNet =
  an_act :: Actuations
  an_guards :: "nat \<Rightarrow> Guard option"

text \<open>A call claims its consoles or is refused; the call that holds a guard moves to another phase, leaves
  an outcome, or ends, however it ends; readings are stored by anybody.\<close>

inductive astep :: "ActNet \<Rightarrow> ActNet \<Rightarrow> bool" where
  claim: "an_guards n k = None \<Longrightarrow> begin_actuation (an_act n) tool action holder now consoles = (Inr ids, a) \<Longrightarrow>
     astep n \<lparr> an_act = a, an_guards = (an_guards n)(k := Some \<lparr> gd_tool = tool, gd_action = action, gd_ids = ids, gd_phase = ''hook'' \<rparr>) \<rparr>"
| refused: "begin_actuation (an_act n) tool action holder now consoles = (Inl e, a) \<Longrightarrow> astep n (n\<lparr> an_act := a \<rparr>)"
| phase: "an_guards n k = Some g \<Longrightarrow>
     astep n \<lparr> an_act = set_actuation_phase (an_act n) (gd_ids g) p, an_guards = (an_guards n)(k := Some (g\<lparr> gd_phase := p \<rparr>)) \<rparr>"
| outcome: "an_guards n k = Some g \<Longrightarrow> astep n (n\<lparr> an_act := record_actuation_outcome (an_act n) (gd_ids g) v \<rparr>)"
| reading: "astep n (n\<lparr> an_act := store_overrides (an_act n) key r \<rparr>)"
| ends: "an_guards n k = Some g \<Longrightarrow> astep n \<lparr> an_act = drop_guard (an_act n) (gd_ids g), an_guards = (an_guards n)(k := None) \<rparr>"

definition act_reachable :: "ActNet \<Rightarrow> bool" where
  "act_reachable n \<longleftrightarrow> astep\<^sup>*\<^sup>* \<lparr> an_act = Actuations_empty, an_guards = (\<lambda>_. None) \<rparr> n"

section \<open>Exclusion\<close>

definition shows_guard :: "InFlight option \<Rightarrow> Guard \<Rightarrow> bool" where
  "shows_guard f g \<longleftrightarrow> (\<exists>x. f = Some x \<and> if_tool x = gd_tool g \<and> if_action x = gd_action g \<and> if_phase x = gd_phase g)"

definition act_inv :: "ActNet \<Rightarrow> bool" where
  "act_inv n \<longleftrightarrow>
     (\<forall>k l g h i. an_guards n k = Some g \<longrightarrow> an_guards n l = Some h \<longrightarrow> i \<in> set (gd_ids g) \<longrightarrow> i \<in> set (gd_ids h) \<longrightarrow> k = l) \<and>
     (\<forall>k g i. an_guards n k = Some g \<longrightarrow> i \<in> set (gd_ids g) \<longrightarrow> shows_guard (actuation_in_flight (an_act n) i) g) \<and>
     (\<forall>i. actuation_in_flight (an_act n) i \<noteq> None \<longrightarrow> (\<exists>k g. an_guards n k = Some g \<and> i \<in> set (gd_ids g)))"

lemma shows_phase: "shows_guard f g \<Longrightarrow> shows_guard (map_option (\<lambda>f. f\<lparr> if_phase := p \<rparr>) f) (g\<lparr> gd_phase := p \<rparr>)"
  by (auto simp: shows_guard_def)

lemma act_inv_step: "astep n m \<Longrightarrow> act_inv n \<Longrightarrow> act_inv m"
proof (induction rule: astep.induct)
  case (claim n k tool action holder now consoles ids a)
  let ?f = "\<lparr> if_tool = tool, if_action = action, if_holder = holder, if_since_ms = now, if_phase = ''hook'' \<rparr>"
  let ?n = "\<lparr> an_act = a, an_guards = (an_guards n)(k := Some \<lparr> gd_tool = tool, gd_action = action, gd_ids = ids, gd_phase = ''hook'' \<rparr>) \<rparr>"
  have free: "\<forall>i \<in> set consoles. actuation_in_flight (an_act n) i = None" and ids: "ids = consoles"
    and now: "\<And>j. actuation_in_flight a j = (if j \<in> set consoles then Some ?f else actuation_in_flight (an_act n) j)"
    using begin_cases [OF claim(2)] by auto
  have one: "\<And>l l' h h' i. an_guards n l = Some h \<Longrightarrow> an_guards n l' = Some h' \<Longrightarrow> i \<in> set (gd_ids h) \<Longrightarrow> i \<in> set (gd_ids h') \<Longrightarrow> l = l'"
    and shown: "\<And>l h i. an_guards n l = Some h \<Longrightarrow> i \<in> set (gd_ids h) \<Longrightarrow> shows_guard (actuation_in_flight (an_act n) i) h"
    and held: "\<And>i. actuation_in_flight (an_act n) i \<noteq> None \<Longrightarrow> \<exists>l h. an_guards n l = Some h \<and> i \<in> set (gd_ids h)"
    using claim(3) unfolding act_inv_def by blast+
  have apart: "i \<notin> set consoles" if "an_guards n l = Some h" "i \<in> set (gd_ids h)" for l h i
    using shown [OF that] free by (auto simp: shows_guard_def)
  show ?case unfolding act_inv_def
  proof (intro conjI allI impI)
    fix l l' h h' i
    assume "an_guards ?n l = Some h"
      "an_guards ?n l' = Some h'"
      "i \<in> set (gd_ids h)" "i \<in> set (gd_ids h')"
    then show "l = l'" using one apart ids by (auto split: if_splits)
  next
    fix l h i
    assume "an_guards ?n l = Some h"
      "i \<in> set (gd_ids h)"
    then show "shows_guard (actuation_in_flight (an_act ?n) i) h"
      using shown [of l h i] apart [of l h i] ids by (auto simp: now shows_guard_def split: if_splits)
  next
    fix i
    assume "actuation_in_flight (an_act ?n) i \<noteq> None"
    then have "i \<in> set consoles \<or> actuation_in_flight (an_act n) i \<noteq> None" by (auto simp: now split: if_splits)
    then consider "i \<in> set consoles" | l h where "an_guards n l = Some h" "i \<in> set (gd_ids h)" using held by blast
    then show "\<exists>l h. an_guards ?n l = Some h \<and> i \<in> set (gd_ids h)"
    proof cases
      case 1
      then show ?thesis using ids by (intro exI [of _ k]) simp
    next
      case (2 l h)
      then have "l \<noteq> k" using claim(1) by auto
      with 2 show ?thesis by (intro exI [of _ l]) simp
    qed
  qed
next
  case (refused n tool action holder now consoles e a)
  then show ?case using begin_cases [OF refused(1)] by auto
next
  case (phase n k g p)
  let ?guards = "(an_guards n)(k := Some (g\<lparr> gd_phase := p \<rparr>))"
  have kept: "\<exists>l h. ?guards l = Some h \<and> i \<in> set (gd_ids h)" if "an_guards n l = Some h" "i \<in> set (gd_ids h)" for l h i
    using that phase(1) by (cases "l = k") (auto intro!: exI [of _ l])
  have "\<exists>l h. ?guards l = Some h \<and> i \<in> set (gd_ids h)" if "actuation_in_flight (set_actuation_phase (an_act n) (gd_ids g) p) i \<noteq> None" for i
  proof -
    have "actuation_in_flight (an_act n) i \<noteq> None" using that by (auto split: if_splits)
    then show ?thesis using phase(2) kept unfolding act_inv_def by blast
  qed
  with phase show ?case unfolding act_inv_def by (auto intro: shows_phase split: if_splits)
next
  case (outcome n k g v)
  then show ?case by (simp add: act_inv_def)
next
  case (reading n key r)
  then show ?case by (simp add: act_inv_def)
next
  case (ends n k g)
  have "\<exists>l h. ((an_guards n)(k := None)) l = Some h \<and> i \<in> set (gd_ids h)"
    if f: "actuation_in_flight (drop_guard (an_act n) (gd_ids g)) i \<noteq> None" for i
  proof -
    have i: "i \<notin> set (gd_ids g)" "actuation_in_flight (an_act n) i \<noteq> None" using f by (auto split: if_splits)
    then obtain l h where "an_guards n l = Some h" "i \<in> set (gd_ids h)" using ends(2) unfolding act_inv_def by blast
    with i(1) ends(1) show ?thesis by (cases "l = k") (auto intro!: exI [of _ l])
  qed
  with ends show ?case unfolding act_inv_def by (auto split: if_splits)
qed

lemma act_reachable_inv: "act_reachable n \<Longrightarrow> act_inv n"
  unfolding act_reachable_def
proof (induction rule: rtranclp_induct)
  case base
  then show ?case by (simp add: act_inv_def actuation_in_flight_def Actuations_empty_def)
next
  case (step m n)
  then show ?case using act_inv_step by blast
qed

text \<open>C39. One actuation per console: in every interleaving of calls no console is held by two of them, what
  the server says is in flight on a console is the call that holds it, in the phase that call is in,
  and a call is refused exactly if one of its consoles is held - so a claim never outlives its call.\<close>

theorem actuations_exclusive:
  assumes "act_reachable n"
  shows "(\<forall>k l g h i. an_guards n k = Some g \<longrightarrow> an_guards n l = Some h \<longrightarrow> i \<in> set (gd_ids g) \<longrightarrow> i \<in> set (gd_ids h) \<longrightarrow> k = l) \<and>
    (\<forall>k g i. an_guards n k = Some g \<longrightarrow> i \<in> set (gd_ids g) \<longrightarrow> shows_guard (actuation_in_flight (an_act n) i) g) \<and>
    (\<forall>tool action holder now consoles. fst (begin_actuation (an_act n) tool action holder now consoles) = Inl ActuationInFlight \<longleftrightarrow>
      (\<exists>k g. an_guards n k = Some g \<and> set (gd_ids g) \<inter> set consoles \<noteq> {}))"
proof -
  have inv: "act_inv n" by (rule act_reachable_inv [OF assms])
  have held: "actuation_in_flight (an_act n) i \<noteq> None \<longleftrightarrow> (\<exists>k g. an_guards n k = Some g \<and> i \<in> set (gd_ids g))" for i
    using inv unfolding act_inv_def shows_guard_def by blast
  have "fst (begin_actuation (an_act n) tool action holder now consoles) = Inl ActuationInFlight \<longleftrightarrow>
      (\<exists>i \<in> set consoles. actuation_in_flight (an_act n) i \<noteq> None)" for tool action holder now consoles
  proof -
    obtain r a where b: "begin_actuation (an_act n) tool action holder now consoles = (r, a)" by (rule prod.exhaust)
    from begin_cases [OF b] b show ?thesis by auto
  qed
  then have "fst (begin_actuation (an_act n) tool action holder now consoles) = Inl ActuationInFlight \<longleftrightarrow>
      (\<exists>k g. an_guards n k = Some g \<and> set (gd_ids g) \<inter> set consoles \<noteq> {})" for tool action holder now consoles
    unfolding held by blast
  with inv show ?thesis unfolding act_inv_def by blast
qed

section \<open>Two calls\<close>

definition claimed_net :: ActNet where
  "claimed_net = \<lparr> an_act = snd (begin_actuation Actuations_empty ''power'' ''on'' ''mcp'' 5 [1, 2]),
     an_guards = (\<lambda>_. None)(7 := Some \<lparr> gd_tool = ''power'', gd_action = ''on'', gd_ids = [1, 2], gd_phase = ''hook'' \<rparr>) \<rparr>"

lemma claimed_reachable: "act_reachable claimed_net"
proof -
  have "fst (begin_actuation Actuations_empty ''power'' ''on'' ''mcp'' 5 [1, 2]) = Inr [1, 2]" by code_simp
  then have "begin_actuation Actuations_empty ''power'' ''on'' ''mcp'' 5 [1, 2] = (Inr [1, 2], an_act claimed_net)"
    by (simp add: claimed_net_def prod_eq_iff)
  then have "astep \<lparr> an_act = Actuations_empty, an_guards = (\<lambda>_. None) \<rparr> claimed_net"
    using astep.claim [of "\<lparr> an_act = Actuations_empty, an_guards = (\<lambda>_. None) \<rparr>" 7 "''power''" "''on''" "''mcp''" 5 "[1, 2]" "[1, 2]"]
    by (simp add: claimed_net_def)
  then show ?thesis by (simp add: act_reachable_def)
qed

theorem actuations_exclusive_witness:
  "fst (begin_actuation (an_act claimed_net) ''boot_mode'' ''edl'' ''other'' 6 [2, 3]) = Inl ActuationInFlight \<and>
   fst (begin_actuation (an_act claimed_net) ''boot_mode'' ''edl'' ''other'' 6 [3]) \<noteq> Inl ActuationInFlight"
proof -
  have "(\<exists>k g. an_guards claimed_net k = Some g \<and> set (gd_ids g) \<inter> set [2, 3] \<noteq> {})"
    "\<not> (\<exists>k g. an_guards claimed_net k = Some g \<and> set (gd_ids g) \<inter> set [3] \<noteq> {})" by (auto simp: claimed_net_def)
  with actuations_exclusive [OF claimed_reachable] show ?thesis by blast
qed

end
