(* ===== verification/Power_Laws.thy ===== *)
theory Power_Laws
  imports Actuation_Tools Actuation_Laws
begin

text \<open>
  What the actuating tools promise: nothing happens to a board that the caller has not leased or that
  is being actuated; a claim ends with its call; a normal boot cycles power only once the controller
  has shown that it holds nothing; and what the answer says of the effect rests on evidence.
\<close>

section \<open>What the steps leave alone\<close>

lemma wait_at_frame [simp]:
  "sv_registry (wait_at bn k sv) = sv_registry sv" "sv_act (wait_at bn k sv) = sv_act sv"
  "sv_notes (wait_at bn k sv) = sv_notes sv" "sv_log (wait_at bn k sv) = sv_log sv"
  by (simp_all add: wait_at_def)

lemma with_act_frame [simp]:
  "sv_registry (with_act f sv) = sv_registry sv" "sv_act (with_act f sv) = f (sv_act sv)"
  "sv_notes (with_act f sv) = sv_notes sv" "sv_log (with_act f sv) = sv_log sv" "sv_stores (with_act f sv) = sv_stores sv"
  by (simp_all add: with_act_def)

lemma run_hook_frame [simp]:
  "sv_registry (snd (run_hook bn t subs sv)) = sv_registry sv" "sv_act (snd (run_hook bn t subs sv)) = sv_act sv"
  "sv_notes (snd (run_hook bn t subs sv)) = sv_notes sv"
  "sv_log (snd (run_hook bn t subs sv)) = sv_log sv @ (if render t subs = [] then [] else [render t subs])"
  "fst (run_hook bn t subs sv) = spawn_hook (bn_process bn (sv_log sv)) t subs"
  by (simp_all add: run_hook_def)

lemma press_frame [simp]:
  "sv_registry (snd (press bn plan a sv)) = sv_registry sv" "sv_act (snd (press bn plan a sv)) = sv_act sv"
  "sv_notes (snd (press bn plan a sv)) = sv_notes sv"
  by (simp_all add: press_def)

lemma watch_off_frame [simp]:
  "sv_registry (snd (watch_off bn ds w ks ok l sv)) = sv_registry sv" "sv_act (snd (watch_off bn ds w ks ok l sv)) = sv_act sv"
  "sv_notes (snd (watch_off bn ds w ks ok l sv)) = sv_notes sv" "sv_log (snd (watch_off bn ds w ks ok l sv)) = sv_log sv"
  by (induction bn ds w ks ok l sv rule: watch_off.induct) (simp_all add: Let_def)

lemma watch_boot_frame [simp]:
  "sv_registry (snd (watch_boot bn ds p n ks sv)) = sv_registry sv" "sv_act (snd (watch_boot bn ds p n ks sv)) = sv_act sv"
  "sv_notes (snd (watch_boot bn ds p n ks sv)) = sv_notes sv" "sv_log (snd (watch_boot bn ds p n ks sv)) = sv_log sv"
  by (induction bn ds p n ks sv rule: watch_boot.induct) (simp_all add: Let_def)

lemma escalate_once_frame [simp]:
  "sv_registry (snd (escalate_once bn ds a plan sv)) = sv_registry sv" "sv_act (snd (escalate_once bn ds a plan sv)) = sv_act sv"
  "sv_notes (snd (escalate_once bn ds a plan sv)) = sv_notes sv"
  by (simp_all add: escalate_once_def Let_def split: option.splits)

lemma escalate_once_Cycle [simp]: "escalate_once bn ds Cycle plan sv = (Not_done, sv)"
  by (simp add: escalate_once_def)

lemma watch_effect_frame [simp]:
  "sv_registry (snd (watch_effect bn ds p a t sv)) = sv_registry sv" "sv_act (snd (watch_effect bn ds p a t sv)) = sv_act sv"
  "sv_notes (snd (watch_effect bn ds p a t sv)) = sv_notes sv" "sv_log (snd (watch_effect bn ds p a t sv)) = sv_log sv"
  by (simp_all add: watch_effect_def Let_def)

lemma judge_effect_frame [simp]:
  "sv_registry (snd (judge_effect bn ds p a plan t watched1)) = sv_registry (snd watched1)"
  "sv_act (snd (judge_effect bn ds p a plan t watched1)) = sv_act (snd watched1)"
  "sv_notes (snd (judge_effect bn ds p a plan t watched1)) = sv_notes (snd watched1)"
  "sv_log (snd (judge_effect bn ds p Cycle plan t watched1)) = sv_log (snd watched1)"
  "fst (judge_effect bn ds p a plan t watched1) = Leaving_edl \<Longrightarrow> a = Off"
  by (auto simp: judge_effect_def Let_def escalate_once_def split: prod.splits if_splits option.splits)

lemma verify_frame [simp]:
  "sv_registry (snd (verify_power_effect bn d ds a plan p sv)) = sv_registry sv"
  "sv_act (snd (verify_power_effect bn d ds a plan p sv)) = sv_act sv"
  "sv_notes (snd (verify_power_effect bn d ds a plan p sv)) = sv_notes sv"
  "sv_log (snd (verify_power_effect bn d ds Cycle plan p sv)) = sv_log sv"
  by (simp_all add: verify_power_effect_def Let_def)

lemma pending_is_off: "fst (verify_power_effect bn d ds a plan p sv) = Leaving_edl \<Longrightarrow> a = Off"
  using judge_effect_frame(5) by (fastforce simp: verify_power_effect_def Let_def split: if_splits)

lemma open_epoch_frame [simp]:
  "sv_registry (snd (open_actuation_epoch bn sc by1 l ev pl m c sv)) = sv_registry sv"
  "sv_act (snd (open_actuation_epoch bn sc by1 l ev pl m c sv)) = sv_act sv"
  "sv_log (snd (open_actuation_epoch bn sc by1 l ev pl m c sv)) = sv_log sv"
  by (simp_all add: open_actuation_epoch_def Let_def split: prod.split sum.split)

lemma open_epochs_frame:
  "sv_registry (snd (open_epochs bn sc by1 l ev pl m cs sv)) = sv_registry sv \<and>
   sv_act (snd (open_epochs bn sc by1 l ev pl m cs sv)) = sv_act sv \<and>
   sv_log (snd (open_epochs bn sc by1 l ev pl m cs sv)) = sv_log sv"
proof (induction cs arbitrary: sv)
  case (Cons c cs)
  obtain r sv1 where o1: "open_actuation_epoch bn sc by1 l ev pl m c sv = (r, sv1)" by (rule prod.exhaust)
  obtain rs sv2 where o2: "open_epochs bn sc by1 l ev pl m cs sv1 = (rs, sv2)" by (rule prod.exhaust)
  have "sv_registry sv1 = sv_registry sv \<and> sv_act sv1 = sv_act sv \<and> sv_log sv1 = sv_log sv"
    using open_epoch_frame [of bn sc by1 l ev pl m c sv] by (simp add: o1)
  with Cons [of sv1] show ?case by (cases r; cases rs) (simp_all add: o1 o2)
qed simp

lemma open_actuation_epochs_frame [simp]:
  "sv_registry (snd (open_actuation_epochs bn sc by1 l ev pl m sv)) = sv_registry sv"
  "sv_act (snd (open_actuation_epochs bn sc by1 l ev pl m sv)) = sv_act sv"
  "sv_log (snd (open_actuation_epochs bn sc by1 l ev pl m sv)) = sv_log sv"
  by (simp_all add: open_actuation_epochs_def open_epochs_frame)

lemma fresh_frame [simp]: "snd (fresh bn d x sv) = sv"
  by (simp add: fresh_def)


section \<open>Claims\<close>

abbreviation flight :: "Server \<Rightarrow> int \<Rightarrow> InFlight option" where
  "flight sv i \<equiv> actuation_in_flight (sv_act sv) i"

text \<open>The claim of a guard is gone, and the other claims are as they were.\<close>

definition claims_dropped :: "int list \<Rightarrow> Server \<Rightarrow> Server \<Rightarrow> bool" where
  "claims_dropped g sv sv' \<longleftrightarrow> (\<forall>i. flight sv' i = (if i \<in> set g then None else flight sv i))"

definition others_kept :: "int list \<Rightarrow> Server \<Rightarrow> Server \<Rightarrow> bool" where
  "others_kept g sv sv' \<longleftrightarrow> (\<forall>i. i \<notin> set g \<longrightarrow> flight sv' i = flight sv i)"

lemma claim_cases:
  "claim bn tool action sc sv = (r, sv') \<Longrightarrow>
     r = Inl ActuationInFlight \<and> sv' = sv \<or>
     r = Inr (map dv_id (sc_consoles sc)) \<and> (\<forall>c \<in> set (sc_consoles sc). flight sv (dv_id c) = None) \<and>
     others_kept (map dv_id (sc_consoles sc)) sv sv' \<and>
     sv_registry sv' = sv_registry sv \<and> sv_notes sv' = sv_notes sv \<and> sv_log sv' = sv_log sv \<and> sv_stores sv' = sv_stores sv"
proof -
  assume c: "claim bn tool action sc sv = (r, sv')"
  obtain q a where b: "begin_actuation (sv_act sv) tool action (bn_holder bn) (bn_now bn) (map dv_id (sc_consoles sc)) = (q, a)" by (rule prod.exhaust)
  from c b have "r = q" "sv' = sv\<lparr> sv_act := a \<rparr>" by (simp_all add: claim_def)
  with begin_cases [OF b] show ?thesis by (auto simp: others_kept_def)
qed

lemma claims_settle:
  "claim bn tool action sc sv = (Inr g, sv1) \<Longrightarrow> claims_dropped g sv1 sv2 \<Longrightarrow> flight sv2 i = flight sv i"
  using claim_cases [of bn tool action sc sv "Inr g" sv1] by (auto simp: claims_dropped_def others_kept_def)

lemma scope_leased:
  "actuation_scope bn sv args = Inr sc \<Longrightarrow> \<not> arg_flag args ''dry_run'' \<Longrightarrow> c \<in> set (sc_consoles sc) \<Longrightarrow> leased bn sv c"
  by (auto simp: actuation_scope_def device_scope_def target_scope_def and_then_def leased_def Let_def filter_empty_conv
      split: if_splits option.splits sum.splits)

text \<open>C6. Nothing is done to a board that the caller may not have: whenever one of the three tools changes
  anything at all - runs a command, opens an epoch, claims a console - it was not a planning call, the
  caller holds the lease of every console it covers, and none of them was being actuated.\<close>

theorem actuation_is_authorised:
  assumes "sv' \<in> {snd (power_tool bn args sv), snd (boot_mode_tool bn args sv), snd (normal_boot_tool bn args sv)}" and "sv' \<noteq> sv"
  shows "\<not> arg_flag args ''dry_run'' \<and>
    (\<exists>sc. actuation_scope bn sv args = Inr sc \<and> (\<forall>c \<in> set (sc_consoles sc). leased bn sv c \<and> actuation_in_flight (sv_act sv) (dv_id c) = None))"
proof -
  have free: "\<forall>c \<in> set (sc_consoles sc). flight sv (dv_id c) = None" if "claim bn tool action sc sv = (Inr g, sv1)" for tool action sc g sv1
    using claim_cases [OF that] by auto
  have same: "sv1 = sv" if "claim bn tool action sc sv = (Inl e, sv1)" for tool action sc e sv1
    using claim_cases [OF that] by auto
  consider "snd (power_tool bn args sv) \<noteq> sv" | "snd (boot_mode_tool bn args sv) \<noteq> sv" | "snd (normal_boot_tool bn args sv) \<noteq> sv"
    using assms by auto
  then show ?thesis
  proof cases
    case 1
    then show ?thesis
      by (auto simp: power_tool_def Let_def dest: same free scope_leased split: sum.splits if_splits prod.splits)
  next
    case 2
    then show ?thesis
      by (auto simp: boot_mode_tool_def Let_def dest: same free scope_leased split: sum.splits if_splits prod.splits)
  next
    case 3
    then show ?thesis
      by (auto simp: normal_boot_tool_def Let_def dest: same free scope_leased split: sum.splits if_splits prod.splits)
  qed
qed

section \<open>A press\<close>

lemma settle [simp]:
  "claims_dropped g sv (with_act (\<lambda>a. drop_guard a g) sv') = others_kept g sv sv'"
  "claims_dropped g sv (with_act (\<lambda>a. drop_guard (record_actuation_outcome a ids out) g) sv') = others_kept g sv sv'"
  "others_kept g sv (with_act (\<lambda>a. set_actuation_phase a g p) sv') = others_kept g sv sv'"
  "others_kept g sv (with_act (\<lambda>a. record_actuation_outcome a ids out) sv') = others_kept g sv sv'"
  by (auto simp: claims_dropped_def others_kept_def)

lemma others_kept_same: "sv_act sv' = sv_act sv \<Longrightarrow> others_kept g sv sv'"
  by (simp add: others_kept_def)

lemma settle_power_ends:
  assumes "settle_power bn sc d a plan l g p m res1 sv = (r, sv')"
  shows "sv_registry sv' = sv_registry sv"
    "(\<exists>x. r = Inr x \<and> pa_verdict x = Leaving_edl \<and> a = Off \<and> others_kept g sv sv') \<or>
     (\<forall>x. r = Inr x \<longrightarrow> pa_verdict x \<noteq> Leaving_edl) \<and> claims_dropped g sv sv'"
    "a = Cycle \<Longrightarrow> sv_log sv' = sv_log sv"
proof -
  define svv where "svv = with_act (\<lambda>a. set_actuation_phase a g ''verify'') sv"
  obtain v sv1 where v: "verify_power_effect bn d (sc_watched sc) a plan p svv = (v, sv1)" by (rule prod.exhaust)
  have f1: "sv_registry sv1 = sv_registry sv" "sv_act sv1 = sv_act svv" "v = Leaving_edl \<Longrightarrow> a = Off"
    using verify_frame(1,2) [of bn d "sc_watched sc" a plan p svv] pending_is_off [of bn d "sc_watched sc" a plan p svv]
    unfolding v by (simp_all add: svv_def)
  have f1l: "sv_log sv1 = sv_log sv" if "a = Cycle"
    using verify_frame(4) [of bn d "sc_watched sc" plan p svv] unfolding v [unfolded that] by (simp add: svv_def)
  let ?ev = "JObj [(''action'', JStr (PowerAction_as_str a)), (''hook'', HookResult_json res1), (''effect'', effect_json a v)]"
  obtain os sv2 where o: "open_actuation_epochs bn sc ''power'' l ''power'' ?ev m sv1 = (os, sv2)" by (rule prod.exhaust)
  have f2: "sv_registry sv2 = sv_registry sv1" "sv_act sv2 = sv_act sv1" "sv_log sv2 = sv_log sv1"
    using open_actuation_epochs_frame [of bn sc "''power''" l "''power''" ?ev m sv1] by (simp_all add: o)
  have k: "others_kept g sv sv2" using f1(2) f2(2) by (auto simp: others_kept_def svv_def)
  have s: "settle_power bn sc d a plan l g p m res1 sv =
      (case os of Inl e \<Rightarrow> (Inl e, with_act (\<lambda>a. drop_guard a g) sv2)
       | Inr os \<Rightarrow> (Inr \<lparr> pa_opened = os, pa_hook = res1, pa_verdict = v \<rparr>,
           if v = Leaving_edl then sv2
           else with_act (\<lambda>a. drop_guard a g) (with_act (\<lambda>b. record_actuation_outcome b (map dv_id (sc_consoles sc)) (power_outcome bn sc d a os (effect_json a v))) sv2)))"
    by (simp add: settle_power_def svv_def [symmetric] v o Let_def split: sum.split)
  show "sv_registry sv' = sv_registry sv" "a = Cycle \<Longrightarrow> sv_log sv' = sv_log sv"
    "(\<exists>x. r = Inr x \<and> pa_verdict x = Leaving_edl \<and> a = Off \<and> others_kept g sv sv') \<or>
     (\<forall>x. r = Inr x \<longrightarrow> pa_verdict x \<noteq> Leaving_edl) \<and> claims_dropped g sv sv'"
    using assms f1(1,3) f1l f2(1,3) k unfolding s by (auto split: sum.splits if_splits)
qed

lemma run_power_ends:
  assumes "run_power bn sc d a plan l poke g sv = (r, sv')"
  shows "sv_registry sv' = sv_registry sv"
    "(\<exists>x. r = Inr x \<and> pa_verdict x = Leaving_edl \<and> a = Off \<and> others_kept g sv sv') \<or>
     (\<forall>x. r = Inr x \<longrightarrow> pa_verdict x \<noteq> Leaving_edl) \<and> claims_dropped g sv sv'"
    "a = Cycle \<Longrightarrow> sv_log sv' = sv_log (snd (press bn plan ''cycle'' sv))"
proof -
  define pk where "pk = (if a = Off \<and> poke then map_sum id Some (poke_console bn sv) else Inr None)"
  obtain r1 sv1 where p: "press bn plan (PowerAction_as_str a) sv = (r1, sv1)" by (rule prod.exhaust)
  have f1: "sv_registry sv1 = sv_registry sv" "sv_act sv1 = sv_act sv"
    using press_frame [of bn plan "PowerAction_as_str a" sv] unfolding p by simp_all
  then have k: "others_kept g sv1 svx = others_kept g sv svx" "claims_dropped g sv1 svx = claims_dropped g sv svx" "others_kept g sv sv1" "others_kept g sv sv" for svx
    by (simp_all add: others_kept_def claims_dropped_def)
  have no_poke: "pk = Inr None" if "a = Cycle" using that by (simp add: pk_def)
  have pc: "sv_log (snd (press bn plan ''cycle'' sv)) = sv_log sv1" if "a = Cycle" using p that by simp
  have run: "(r, sv') = (case pk of Inl e \<Rightarrow> (Inl e, with_act (\<lambda>a. drop_guard a g) sv)
      | Inr q \<Rightarrow> (case r1 of Inl e \<Rightarrow> (Inl e, with_act (\<lambda>a. drop_guard a g) sv1)
         | Inr x \<Rightarrow> settle_power bn sc d a plan l g q (stream_marks sv sc) x sv1))"
    unfolding assms [symmetric] run_power_def pk_def [symmetric] Let_def p by (simp split: sum.split)
  consider (unpoked) e where "a \<noteq> Cycle" "r = Inl e" "sv' = with_act (\<lambda>a. drop_guard a g) sv"
    | (failed) e where "r = Inl e" "sv' = with_act (\<lambda>a. drop_guard a g) sv1"
    | (pressed) q x where "settle_power bn sc d a plan l g q (stream_marks sv sc) x sv1 = (r, sv')"
  proof (cases pk)
    case (Inl e)
    have "a \<noteq> Cycle"
    proof
      assume "a = Cycle"
      from no_poke [OF this] Inl show False by simp
    qed
    with Inl show ?thesis using run that(1) by simp
  next
    case (Inr q)
    then show ?thesis using run that(2,3) by (cases r1) simp_all
  qed
  note ends = this
  show "sv_registry sv' = sv_registry sv"
    using ends by cases (simp_all add: f1 settle_power_ends(1))
  show "(\<exists>x. r = Inr x \<and> pa_verdict x = Leaving_edl \<and> a = Off \<and> others_kept g sv sv') \<or>
     (\<forall>x. r = Inr x \<longrightarrow> pa_verdict x \<noteq> Leaving_edl) \<and> claims_dropped g sv sv'"
    using ends
  proof cases
    case pressed
    from settle_power_ends(2) [OF this] show ?thesis unfolding k by blast
  qed (simp_all add: k)
  show "sv_log sv' = sv_log (snd (press bn plan ''cycle'' sv))" if "a = Cycle"
    using ends
  proof cases
    case pressed
    from settle_power_ends(3) [OF this that] show ?thesis using pc [OF that] by simp
  qed (simp_all add: that pc)
qed

section \<open>The tools\<close>

lemma claims_restored:
  "claim bn tool action sc sv = (Inr g, sv1) \<Longrightarrow> claims_dropped g sv1 sv2 \<Longrightarrow> claims_dropped [] sv sv2"
  unfolding claims_dropped_def [of "[]"] by (simp add: claims_settle)

lemma claims_dropped_frame [simp]: "claims_dropped [] sv sv" "others_kept g sv sv"
  by (simp_all add: claims_dropped_def others_kept_def)

lemma publish_edl_frame [simp]:
  "sv_act (publish_edl bn d mode c rel sv) = sv_act sv" "sv_log (publish_edl bn d mode c rel sv) = sv_log sv"
  by (simp_all add: publish_edl_def)









section \<open>A normal boot\<close>

lemma present_same: "sv_registry sv' = sv_registry sv \<Longrightarrow> present_with_topology sv' = present_with_topology sv"
  by (simp add: present_with_topology_def)

lemma read_now:
  assumes "overrides_hook bn sv d = Some h" "render (rh_template h) (read_args d h) \<noteq> []"
  shows "sv_log (snd (read_boot_overrides bn d 0 sv)) = sv_log sv @ [render (rh_template h) (read_args d h)]"
    "\<exists>x src. fst (read_boot_overrides bn d 0 sv) = Some (x, src) \<and> or_overrides x =
       (case spawn_hook (bn_process bn (sv_log sv)) (rh_template h) (read_args d h) of Inr y \<Rightarrow> BootOverrides_parse (hr_stdout y) | Inl e \<Rightarrow> unreadable)"
proof -
  obtain r sv1 where h: "run_hook bn (rh_template h) (read_args d h) sv = (r, sv1)" by (rule prod.exhaust)
  have f: "r = spawn_hook (bn_process bn (sv_log sv)) (rh_template h) (read_args d h)"
    "sv_log sv1 = sv_log sv @ [render (rh_template h) (read_args d h)]"
    using run_hook_frame(4,5) [of bn "rh_template h" "read_args d h" sv] assms(2) by (simp_all add: h)
  show "sv_log (snd (read_boot_overrides bn d 0 sv)) = sv_log sv @ [render (rh_template h) (read_args d h)]"
    using assms f by (simp add: read_boot_overrides_def h Let_def split: prod.split)
  show "\<exists>x src. fst (read_boot_overrides bn d 0 sv) = Some (x, src) \<and> or_overrides x =
       (case spawn_hook (bn_process bn (sv_log sv)) (rh_template h) (read_args d h) of Inr y \<Rightarrow> BootOverrides_parse (hr_stdout y) | Inl e \<Rightarrow> unreadable)"
    unfolding f(1) [symmetric] using assms by (cases r) (simp_all add: read_boot_overrides_def h Let_def split: prod.split)
qed

lemma unreadable_not_released: "\<not> all_released unreadable"
  by (simp add: all_released_def summary_def asserted_def names_def unreadable_def)

text \<open>What a normal boot has run when it is over, for a controller that can be read back.\<close>

lemma run_normal_boot_log:
  assumes h: "overrides_hook bn sv d = Some h" and "render (rh_template h) (read_args d h) = c2" "c2 \<noteq> []"
    and "render (rh_template ch) (mode_args d ch ''clear'') = c1" "c1 \<noteq> []"
    and "render (rh_template (pp_hook plan)) (plan_args plan ''cycle'') = c3" "c3 \<noteq> []"
    and call: "run_normal_boot bn sc d ch True plan l g sv = (r, sv')"
  shows "sv_log sv' = sv_log sv @ [c1, c2] \<and> r = Inl NormalBootAborted \<or>
    sv_log sv' = sv_log sv @ [c1, c2, c3] \<and>
    (\<exists>x. spawn_hook (bn_process bn (sv_log sv)) (rh_template ch) (mode_args d ch ''clear'') = Inr x) \<and>
    (\<exists>y. spawn_hook (bn_process bn (sv_log sv @ [c1])) (rh_template h) (read_args d h) = Inr y \<and> all_released (BootOverrides_parse (hr_stdout y)))"
proof -
  let ?c = "with_act (\<lambda>a. set_actuation_phase a g ''clear_overrides'') sv"
  obtain r1 sv1 where p: "run_hook bn (rh_template ch) (mode_args d ch ''clear'') ?c = (r1, sv1)" by (rule prod.exhaust)
  have f1: "sv_log sv1 = sv_log sv @ [c1]" "sv_registry sv1 = sv_registry sv"
    "r1 = spawn_hook (bn_process bn (sv_log sv)) (rh_template ch) (mode_args d ch ''clear'')"
    using run_hook_frame(1,4,5) [of bn "rh_template ch" "mode_args d ch ''clear''" ?c] assms(4,5) by (simp_all add: p)
  let ?v = "with_act (\<lambda>a. set_actuation_phase a g ''verify_overrides'') sv1"
  have hooks: "overrides_hook bn sv1 d = Some h" "overrides_hook bn ?v d = Some h"
    using h f1(2) by (simp_all add: overrides_hook_def present_with_topology_def)
  show ?thesis
  proof (cases r1)
    case (Inl e)
    then show ?thesis using call read_now(1) [OF hooks(1)] assms(2,3) f1(1) by (auto simp: run_normal_boot_def p abort_def)
  next
    case (Inr x)
    obtain rd sv2 where rd: "read_boot_overrides bn d 0 ?v = (rd, sv2)" by (rule prod.exhaust)
    from read_now [OF hooks(2)] assms(2,3) f1(1) obtain y src where y: "rd = Some (y, src)" "sv_log sv2 = sv_log sv @ [c1, c2]"
      "or_overrides y = (case spawn_hook (bn_process bn (sv_log sv @ [c1])) (rh_template h) (read_args d h) of
         Inr z \<Rightarrow> BootOverrides_parse (hr_stdout z) | Inl e \<Rightarrow> unreadable)"
      unfolding rd by auto
    show ?thesis
    proof (cases "all_released (or_overrides y)")
      case False
      then show ?thesis using call Inr y by (auto simp: run_normal_boot_def p prove_released_def rd abort_def)
    next
      case True
      then obtain z where z: "spawn_hook (bn_process bn (sv_log sv @ [c1])) (rh_template h) (read_args d h) = Inr z" "all_released (BootOverrides_parse (hr_stdout z))"
        using y(3) unreadable_not_released by (auto split: sum.splits)
      have pr: "prove_released bn d True ?v = (Some (overrides_json bn rd), sv2)" using True y(1) by (simp add: prove_released_def rd)
      let ?l = "Some (case l of Some l \<Rightarrow> l | None \<Rightarrow> ''normal_boot (overrides released and verified)'')"
      obtain r3 sv3 where run: "run_power bn sc d Cycle plan ?l False g (with_act (\<lambda>a. set_actuation_phase a g ''hook'') sv2) = (r3, sv3)" by (rule prod.exhaust)
      have "sv' = sv3" using call fresh_frame by (auto simp: run_normal_boot_def p Inr pr run Let_def fresh_def split: sum.splits)
      moreover have "sv_log sv3 = sv_log sv @ [c1, c2, c3]"
        using run_power_ends(3) [OF run] assms(6,7) y(2) by (simp add: press_def)
      moreover have "spawn_hook (bn_process bn (sv_log sv)) (rh_template ch) (mode_args d ch ''clear'') = Inr x" using f1(3) Inr by simp
      ultimately show ?thesis using z by auto
    qed
  qed
qed

text \<open>C5. No power cycle on an assumption: when the controller of the board can be read back, \<open>normal_boot\<close>
  runs nothing at all, or releases and reads and then stops with an error, or presses power - and then
  the release succeeded, and a separate command afterwards reported overrides, and every one of them as
  released. Nothing else is run in between.\<close>

theorem normal_boot_proves_release:
  assumes "actuation_scope bn sv args = Inr sc" "mode_hook bn sv (sc_primary sc) False = Inr ch"
    "overrides_hook bn sv (sc_primary sc) = Some h" "PowerPlan_resolve bn sv (sc_primary sc) = Inr plan"
    and "render (rh_template ch) (mode_args (sc_primary sc) ch ''clear'') = c1" "c1 \<noteq> []"
    and "render (rh_template h) (read_args (sc_primary sc) h) = c2" "c2 \<noteq> []"
    and "render (rh_template (pp_hook plan)) (plan_args plan ''cycle'') = c3" "c3 \<noteq> []"
    and "normal_boot_tool bn args sv = (r, sv')"
  shows "sv' = sv \<or> sv_log sv' = sv_log sv @ [c1, c2] \<and> r = Inl NormalBootAborted \<or>
    sv_log sv' = sv_log sv @ [c1, c2, c3] \<and>
    (\<exists>x. spawn_hook (bn_process bn (sv_log sv)) (rh_template ch) (mode_args (sc_primary sc) ch ''clear'') = Inr x) \<and>
    (\<exists>y. spawn_hook (bn_process bn (sv_log sv @ [c1])) (rh_template h) (read_args (sc_primary sc) h) = Inr y \<and>
      reports (hr_stdout y) \<noteq> [] \<and> list_all (\<lambda>(n, l). l = Released) (reports (hr_stdout y)))"
proof (cases "arg_flag args ''dry_run''")
  case True
  then have "snd (normal_boot_tool bn args sv) = sv" using assms(1-4) by (simp add: normal_boot_tool_def Let_def)
  with assms(11) show ?thesis by simp
next
  case False
  obtain q sv1 where c: "claim bn ''normal_boot'' ''clear+cycle'' sc sv = (q, sv1)" by (rule prod.exhaust)
  show ?thesis
  proof (cases q)
    case (Inl e)
    then have "sv1 = sv" using claim_cases [OF c] by auto
    with assms c Inl False show ?thesis by (auto simp: normal_boot_tool_def Let_def)
  next
    case (Inr g)
    have same: "sv_registry sv1 = sv_registry sv" "sv_log sv1 = sv_log sv" using claim_cases [OF c] Inr by auto
    have hk: "overrides_hook bn sv1 (sc_primary sc) = Some h" using assms(3) same by (simp add: overrides_hook_def present_with_topology_def)
    have run: "run_normal_boot bn sc (sc_primary sc) ch True plan (arg_str args ''label'') g sv1 = (r, sv')"
      using assms(1-4,11) c Inr False by (simp add: normal_boot_tool_def Let_def)
    show ?thesis
      using run_normal_boot_log [OF hk assms(7,8,5,6,9,10) run] unfolding same all_released_iff by blast
  qed
qed

section \<open>What is said of the effect\<close>

text \<open>What a watch sees.\<close>

fun looks_of :: "Bench \<Rightarrow> DeviceRow list \<Rightarrow> nat list \<Rightarrow> Server \<Rightarrow> (nat \<times> nat) list" where
  "looks_of bn ds [] sv = []"
| "looks_of bn ds (k # ks) sv = bytes_at bn k ds (wait_at bn k sv) # looks_of bn ds ks (wait_at bn k sv)"

text \<open>Over the last two looks the console has only been silent for longer.\<close>

fun quiet_at_last :: "(nat \<times> nat) list \<Rightarrow> bool" where
  "quiet_at_last [x, y] = (snd x < snd y \<and> fst y \<le> fst x)"
| "quiet_at_last (x # y # z # xs) = quiet_at_last (y # z # xs)"
| "quiet_at_last _ = False"

lemma watch_off_looks:
  "fst (watch_off bn ds t ks ok l sv) = (if ks = [] then ok else t \<and> quiet_at_last (l # looks_of bn ds ks sv))"
proof (induction bn ds t ks ok l sv rule: watch_off.induct)
  case (2 bn ds t k ks ok l sv)
  then show ?case by (cases ks) (simp_all add: Let_def)
qed simp

lemma watch_boot_looks:
  "fst (fst (watch_boot bn ds p n ks sv)) \<Longrightarrow> \<exists>x \<in> set (looks_of bn ds ks sv). fst x > 0"
  by (induction bn ds p n ks sv rule: watch_boot.induct) (auto simp: Let_def split: if_splits)

text \<open>An \<open>off\<close> is called verified on evidence alone: a port of the board was on the bus and left it; or the
  console had been talking, was silent for longer at the last look than at the one before with no byte
  between, and no EDL gadget was there; or the board is in EDL at the end; or a second press was
  followed by three seconds of silence.\<close>

theorem off_verified_on_evidence:
  assumes "verify_power_effect bn d ds Off plan poked sv = (v, sv')" "verified v = Some True"
  shows "declared_usb_ports bn d \<noteq> [] \<and> bn_port_before bn (sv_log sv) (declared_usb_ports bn d) \<and> bn_port_leaves bn (sv_log sv) (declared_usb_ports bn d) \<or>
    (case poked of Some p \<Rightarrow> p | None \<Rightarrow> fst (bytes_at bn 0 ds sv) > 0 \<and> snd (bytes_at bn 0 ds sv) < 5000) \<and>
      quiet_at_last (bytes_at bn 1 ds (wait_at bn 1 sv) # looks_of bn ds [2..<bn_polls bn (sv_log sv) + 2] (wait_at bn 1 sv)) \<and>
      \<not> bn_in_edl bn (sv_log sv) (bn_polls bn (sv_log sv) + 2) (declared_usb_ports bn d) \<or>
    v = Expected_edl \<and> bn_in_edl bn (sv_log sv) (bn_polls bn (sv_log sv) + 3) (declared_usb_ports bn d) \<or>
    v = Recovered Off \<and> snd (bytes_at bn 1 ds sv') > 3000"
proof -
  let ?p = "declared_usb_ports bn d" and ?n = "bn_polls bn (sv_log sv)" and ?s = "wait_at bn 1 sv"
  define t where "t = (case poked of Some p \<Rightarrow> p | None \<Rightarrow> fst (bytes_at bn 0 ds sv) > 0 \<and> snd (bytes_at bn 0 ds sv) < 5000)"
  obtain ok sv1 where w: "watch_off bn ds t [2..<?n + 2] False (bytes_at bn 1 ds ?s) ?s = (ok, sv1)" by (rule prod.exhaust)
  have ok: "t \<and> quiet_at_last (bytes_at bn 1 ds ?s # looks_of bn ds [2..<?n + 2] ?s)" if ok
    using watch_off_looks [of bn ds t "[2..<?n + 2]" False "bytes_at bn 1 ds ?s" ?s] that unfolding w by (simp split: if_splits)
  have lg: "sv_log sv1 = sv_log sv"
    using watch_off_frame(4) [of bn ds t "[2..<?n + 2]" False "bytes_at bn 1 ds ?s" ?s] unfolding w by simp
  have once: "x = Not_done \<or> x = Unresponsive Off \<or> x = Recovered Off \<and> snd (bytes_at bn 1 ds sv2) > 3000" if "escalate_once bn ds Off plan sv1 = (x, sv2)" for x sv2
    using that by (auto simp: escalate_once_def Let_def split: if_splits)
  have we: "watch_effect bn ds ?p Off t ?s = ((ok, False), sv1)"
    unfolding watch_effect_def Let_def wait_at_frame w by simp
  have v: "verify_power_effect bn d ds Off plan poked sv =
      (if off_evidence t (?p \<noteq> []) (bn_port_before bn (sv_log sv) ?p) = WatchUsb \<and> bn_port_leaves bn (sv_log sv) ?p then (Port_left, ?s)
       else if off_evidence t (?p \<noteq> []) (bn_port_before bn (sv_log sv) ?p) = Impossible then (Silent_before, ?s)
       else judge_effect bn ds ?p Off plan t ((ok, False), sv1))"
    unfolding verify_power_effect_def Let_def t_def [symmetric] we by simp
  have j: "ok \<and> \<not> bn_in_edl bn (sv_log sv) (?n + 2) ?p \<or> v = Expected_edl \<and> bn_in_edl bn (sv_log sv) (?n + 3) ?p \<or>
      v = Recovered Off \<and> snd (bytes_at bn 1 ds sv') > 3000"
    if "judge_effect bn ds ?p Off plan t ((ok, False), sv1) = (v, sv')"
    using that once assms(2) by (auto simp: judge_effect_def Let_def lg split: if_splits)
  have u: "?p \<noteq> [] \<and> bn_port_before bn (sv_log sv) ?p" if "off_evidence t (?p \<noteq> []) (bn_port_before bn (sv_log sv) ?p) = WatchUsb"
    using that by (auto simp: off_evidence_def split: if_splits)
  from assms(1) assms(2) j u ok show ?thesis unfolding v t_def [symmetric] by (auto split: if_splits)
qed

section \<open>What is wrong with it\<close>

lemma fresh_bytes_any_time:
  "map_sum id fn_bytes_this_boot (freshness g busy st now d) = map_sum id fn_bytes_this_boot (freshness g busy st now' d)"
  by (simp add: freshness_def with_store_def Let_def)

lemma watched_total:
  "fst (watched_bytes sv now ds) =
     (\<Sum>d\<leftarrow>ds. case map_sum id fn_bytes_this_boot (freshness (sv_registry sv) False (sv_stores sv) now d) of Inl _ \<Rightarrow> 0 | Inr b \<Rightarrow> nat b)"
  by (induction ds rule: rev_induct) (auto simp: watched_bytes_def Let_def case_prod_unfold split: sum.split)

lemma bytes_any_time: "fst (watched_bytes sv now ds) = fst (watched_bytes sv now' ds)"
  unfolding watched_total by (simp only: fresh_bytes_any_time [of _ _ _ now _ now'])

text \<open>After any press but \<open>off\<close>, the bytes that are counted are those of the epoch before the press: a board
  that says nothing more at all is called verified at the first look.\<close>

lemma dead_board_verified:
  assumes "a \<noteq> Off" "\<And>lg k st. bn_capture bn lg k st = st" "bn_polls bn (sv_log sv) > 0" "fst (bytes_at bn 0 ds sv) > 0"
  shows "fst (verify_power_effect bn d ds a plan poked sv) = Confirmed"
proof -
  have still: "wait_at bn k sv = sv" for k using assms(2) by (simp add: wait_at_def)
  have b: "fst (bytes_at bn 2 ds sv) > 0" using assms(4) bytes_any_time [of sv "bn_time bn (sv_log sv) 0" ds "bn_time bn (sv_log sv) 2"]
    unfolding bytes_at_def by simp
  have "[2..<bn_polls bn (sv_log sv) + 2] = 2 # [3..<bn_polls bn (sv_log sv) + 2]" using assms(3) by (simp add: upt_conv_Cons)
  then have w: "watch_effect bn ds (declared_usb_ports bn d) a t sv = ((True, False), sv)" for t
    using assms(1) b still by (simp add: watch_effect_def Let_def)
  show ?thesis unfolding verify_power_effect_def Let_def still w judge_effect_def using assms(1) by simp
qed

text \<open>An \<open>off\<close> that finds the board in EDL by the last scan alone is called verified, too.\<close>

lemma off_verified_in_edl:
  assumes "declared_usb_ports bn d = []" "bn_polls bn (sv_log sv) = 0" "bn_in_edl bn (sv_log sv) 2 [] = False" "bn_in_edl bn (sv_log sv) 3 [] = True"
  shows "fst (verify_power_effect bn d ds Off plan (Some True) sv) = Expected_edl" "verified Expected_edl = Some True"
  using assms by (simp_all add: verify_power_effect_def Let_def off_evidence_def watch_effect_def judge_effect_def map_prod_def numeral_2_eq_2 numeral_3_eq_3)

section \<open>A bench with an override held\<close>

definition strapped :: ControllerProfile where
  "strapped = bantam\<lparr> cp_power := Some ''p {action}'', cp_boot_mode := Some ''m {mode}'', cp_boot_overrides := Some ''o'' \<rparr>"

definition uart_row :: DeviceRow where
  "uart_row = device_of 1 ''uart'' None ById None 0 ''uart.db''"

definition strapped_bench :: Bench where
  "strapped_bench = \<lparr> bn_glob = sample_glob, bn_config = bench_config\<lparr> cf_controllers := [strapped], cf_devices := [(''uart'', \<lparr> do_hooks = \<lparr> dh_power = None,
       dh_flash = None, dh_reset = None, dh_boot_mode = None \<rparr>, do_boot_modes = [], do_usb_ports = [''2-1''] \<rparr>)] \<rparr>, bn_holder = ''ci'', bn_allow_tx = False,
     bn_envelope = False, bn_now = 5, bn_process = (\<lambda>lg argv. if argv = [''o''] then Exited (Some 0) ''MD_EDL=1'' [] 1 else if hd argv = ''p'' then Cannot_run
       else Exited (Some 0) [] [] 1), bn_capture = (\<lambda>_ _ st. st), bn_time = (\<lambda>_ _. 5), bn_polls = (\<lambda>_. 3), bn_port_before = (\<lambda>_ _. True),
     bn_port_leaves = (\<lambda>_ _. True), bn_in_edl = (\<lambda>_ _ _. False), bn_poke = (\<lambda>_. Inr False) \<rparr>"

definition strapped_server :: "(string \<Rightarrow> DeviceStore) \<Rightarrow> (string \<Rightarrow> Notes) \<Rightarrow> Server" where
  "strapped_server st nt = \<lparr> sv_registry = Registry_empty\<lparr> rg_devices := [uart_row], rg_leases := [\<lparr> le_device_id = 1, le_holder = ''ci'',
       le_token = [], le_acquired_at = 0, le_expires_at = 60000, le_stolen_from = None \<rparr>] \<rparr>, sv_stores = st, sv_notes = nt, sv_act = Actuations_empty, sv_log = [] \<rparr>"

lemma uart_alone: "all_devices (sv_registry (strapped_server st nt)) = [uart_row]"
  by (simp add: all_devices_def attach_tags_def order_by_def strapped_server_def Registry_empty_def uart_row_def device_of_def map_device_def)

lemma uart_present: "present_with_topology (strapped_server st nt) = [(''uart'', None)]"
  by (simp add: present_with_topology_def uart_alone present_on_this_host_def uart_row_def device_of_def is_present_def)

lemma uart_leased: "require_lease (sv_registry (strapped_server st nt)) 1 ''ci'' 5 = Inr ()"
  by (simp add: require_lease_def lease_def strapped_server_def)

lemma strapped_scope:
  "map_of args ''target'' = None \<Longrightarrow> map_of args ''device'' = None \<Longrightarrow>
   actuation_scope strapped_bench (strapped_server st nt) args = Inr \<lparr> sc_primary = uart_row, sc_consoles = [uart_row],
     sc_watched = board_siblings strapped_bench (strapped_server st nt) uart_row, sc_target = None, sc_exempt = [],
     sc_lease_missing = [], sc_lease_held = [''uart''] \<rparr>"
  using uart_leased [of st nt]
  by (simp add: actuation_scope_def arg_str_def as_str_def device_scope_def device_or_only_def uart_alone and_then_def uart_row_def device_of_def
      strapped_bench_def display_name_def)

lemma strapped_hooks:
  "controller_for sample_glob (bn_config strapped_bench) ''uart'' = Some strapped"
  "controller_port_for sample_glob (bn_config strapped_bench) ''uart'' None [(''uart'', None)] = None"
  "device_hook dh_power (bn_config strapped_bench) ''uart'' = None" "device_hook dh_boot_mode (bn_config strapped_bench) ''uart'' = None"
  by code_simp+

lemma strapped_templates:
  "template_can_run ''p {action}'' None b" "template_can_run ''m {mode}'' None b" "template_can_run ''o'' None b"
  by (cases b; code_simp)+

lemma strapped_resolved:
  "mode_hook strapped_bench (strapped_server st nt) uart_row False = Inr (resolved strapped ''m {mode}'' None)"
  "overrides_hook strapped_bench (strapped_server st nt) uart_row = Some (resolved strapped ''o'' None)"
  "PowerPlan_resolve strapped_bench (strapped_server st nt) uart_row =
     Inr \<lparr> pp_hook = resolved strapped ''p {action}'' None, pp_timeout = 30, pp_device = ''uart'', pp_settle = ''6'', pp_controller = [] \<rparr>"
proof -
  have g: "bn_glob strapped_bench = sample_glob" "dv_canonical uart_row = ''uart''" "dv_by_path uart_row = None" "display_name uart_row = ''uart''"
    by (simp_all add: strapped_bench_def uart_row_def device_of_def display_name_def)
  have c: "cp_boot_mode strapped = Some ''m {mode}''" "cp_boot_overrides strapped = Some ''o''" "cp_power strapped = Some ''p {action}''"
    "cp_power_timeout_s strapped = None" "cp_off_settle_s strapped = ''6''" by (simp_all add: strapped_def bantam_def)
  have t: "cf_power_timeout_s (bn_config strapped_bench) = 30" by (simp add: strapped_bench_def bench_config_def)
  show "mode_hook strapped_bench (strapped_server st nt) uart_row False = Inr (resolved strapped ''m {mode}'' None)"
    "overrides_hook strapped_bench (strapped_server st nt) uart_row = Some (resolved strapped ''o'' None)"
    "PowerPlan_resolve strapped_bench (strapped_server st nt) uart_row =
     Inr \<lparr> pp_hook = resolved strapped ''p {action}'' None, pp_timeout = 30, pp_device = ''uart'', pp_settle = ''6'', pp_controller = [] \<rparr>"
    by (simp_all add: mode_hook_def overrides_hook_def PowerPlan_resolve_def boot_mode_hook_for_at_def boot_overrides_hook_for_at_def power_hook_for_at_def
        profile_hook_def ok_or_def g c t uart_present strapped_hooks strapped_templates Let_def)
      (simp_all add: resolved_def c t or_empty_def)
qed

lemma strapped_renders:
  "render ''m {mode}'' [(''mode'', ''clear''), (''device'', ''uart''), (''controller'', [])] = [''m'', ''clear'']"
  "render ''o'' [(''device'', ''uart''), (''controller'', []), (''mode'', []), (''action'', [])] = [''o'']"
  "render ''p {action}'' [(''action'', ''cycle''), (''device'', ''uart''), (''controller'', []), (''off_settle'', ''6'')] = [''p'', ''cycle'']"
  "render ''p {action}'' [(''action'', ''on''), (''device'', ''uart''), (''controller'', []), (''off_settle'', ''6'')] = [''p'', ''on'']"
  by code_simp+

text \<open>Witness: the controller still reports a line as held, and power is not pressed.\<close>

theorem normal_boot_proves_release_witness:
  "\<forall>st nt. snd (normal_boot_tool strapped_bench [] (strapped_server st nt)) = strapped_server st nt \<or>
   sv_log (snd (normal_boot_tool strapped_bench [] (strapped_server st nt))) = [[''m'', ''clear''], [''o'']]"
proof (intro allI)
  fix st nt
  obtain r sv' where call: "normal_boot_tool strapped_bench [] (strapped_server st nt) = (r, sv')" by (rule prod.exhaust)
  have held: "\<not> list_all (\<lambda>(n, l). l = Released) (reports ''MD_EDL=1'')" by code_simp
  have log: "sv_log (strapped_server st nt) = []" by (simp add: strapped_server_def)
  have read: "spawn_hook (bn_process strapped_bench lg) ''o'' [(''device'', ''uart''), (''controller'', []), (''mode'', []), (''action'', [])] =
      Inr \<lparr> hr_command = ''o'', hr_exit_code = Some 0, hr_stdout = ''MD_EDL=1'', hr_stderr = [], hr_duration_ms = 1 \<rparr>" for lg
    by (simp add: spawn_hook_def strapped_renders strapped_bench_def)
  have row: "dv_canonical uart_row = ''uart''" by (simp add: uart_row_def device_of_def)
  from normal_boot_proves_release [OF strapped_scope [of "[]" st nt], unfolded ActuationScope.simps, OF _ _ strapped_resolved refl _ refl _ refl _ call]
  have "sv' = strapped_server st nt \<or> sv_log sv' = [[''m'', ''clear''], [''o'']]"
    using read held by (auto simp: mode_args_def read_args_def plan_args_def resolved_def or_empty_def strapped_renders row log)
  then show "snd (normal_boot_tool strapped_bench [] (strapped_server st nt)) = strapped_server st nt \<or>
      sv_log (snd (normal_boot_tool strapped_bench [] (strapped_server st nt))) = [[''m'', ''clear''], [''o'']]" by (simp add: call)
qed

text \<open>Witness: an \<open>on\<close> whose hook cannot be started has left a trace.\<close>

theorem actuation_is_authorised_witness:
  "\<forall>st nt. sv_log (snd (power_tool strapped_bench [(''action'', JStr ''on'')] (strapped_server st nt))) = [[''p'', ''on'']] \<and>
   leased strapped_bench (strapped_server st nt) uart_row"
proof (intro allI)
  fix st nt
  let ?a = "[(''action'', JStr ''on'')]" and ?s = "strapped_server st nt"
  have args: "and_then (req_str ?a ''action'') PowerAction_parse = Inr On" "\<not> arg_flag ?a ''dry_run''"
    by (simp_all add: req_str_def arg_str_def as_str_def ok_or_def and_then_def PowerAction_parse_def arg_flag_def)
  obtain q sv1 where c: "claim strapped_bench ''power'' ''on'' \<lparr> sc_primary = uart_row, sc_consoles = [uart_row],
      sc_watched = board_siblings strapped_bench ?s uart_row, sc_target = None, sc_exempt = [], sc_lease_missing = [], sc_lease_held = [''uart''] \<rparr> ?s = (q, sv1)"
    by (rule prod.exhaust)
  have free: "flight ?s i = None" for i by (simp add: strapped_server_def Actuations_empty_def actuation_in_flight_def)
  have q: "q = Inr [1]" "sv_log sv1 = []"
    using claim_cases [OF c] c by (auto simp: free claim_def begin_actuation_def uart_row_def device_of_def strapped_server_def Actuations_empty_def actuation_in_flight_def)
  have log: "sv_log (snd (power_tool strapped_bench ?a ?s)) = [[''p'', ''on'']]"
    unfolding power_tool_def Let_def strapped_scope [of ?a st nt, simplified] args sum.case ActuationScope.simps strapped_resolved
    using args(2) c q
    by (simp add: run_power_def press_def run_hook_def plan_args_def resolved_def strapped_renders spawn_hook_def strapped_bench_def)
  then have "snd (power_tool strapped_bench ?a ?s) \<noteq> ?s" by (auto simp: strapped_server_def)
  from actuation_is_authorised [OF _ this, of strapped_bench ?a] strapped_scope [of ?a st nt, simplified] log
  show "sv_log (snd (power_tool strapped_bench ?a ?s)) = [[''p'', ''on'']] \<and> leased strapped_bench ?s uart_row" by auto
qed

text \<open>Witness: the port of the board leaves the bus.\<close>

theorem off_verified_on_evidence_witness:
  "declared_usb_ports strapped_bench uart_row = [''2-1''] \<and> bn_port_leaves strapped_bench [] (declared_usb_ports strapped_bench uart_row)"
proof -
  obtain v sv' where call: "verify_power_effect strapped_bench uart_row [] Off plan (Some False) (strapped_server st nt) = (v, sv')" by (rule prod.exhaust)
  have p: "declared_usb_ports strapped_bench uart_row = [''2-1'']"
    by (simp add: declared_usb_ports_def strapped_bench_def usb_ports_for_def device_override_def map_filter_def uart_row_def device_of_def
        display_name_def order_by_def)
  have "v = Port_left" using call by (simp add: verify_power_effect_def p Let_def off_evidence_def) (simp add: strapped_bench_def)
  moreover have "sv_log (strapped_server st nt) = []" by (simp add: strapped_server_def)
  ultimately show ?thesis using off_verified_on_evidence [OF call] p by simp
qed

text \<open>A hook that fails opens no epoch and records no event: the stores are what capture has made of them.\<close>

lemma failed_press_opens_no_epoch:
  "run_power bn sc d a plan l poke g sv = (r, sv') \<Longrightarrow> fst (press bn plan (PowerAction_as_str a) sv) = Inl e \<Longrightarrow>
     (\<exists>e. r = Inl e) \<and> sv_notes sv' = sv_notes sv \<and> sv_stores sv' \<in> {sv_stores sv, sv_stores (snd (press bn plan (PowerAction_as_str a) sv))}"
  using press_frame(3) [of bn plan "PowerAction_as_str a" sv]
  by (cases "press bn plan (PowerAction_as_str a) sv") (auto simp: run_power_def Let_def split: sum.splits if_splits)

text \<open>The lock of a flash is the device's, the lock of a press the controller's.\<close>

lemma flash_other_lock:
  "lock_key (flash_args img d) = (if dv_canonical d = [] then None else Some (dv_canonical d))"
  "pp_controller plan \<noteq> [] \<Longrightarrow> lock_key (plan_args plan a) = Some (pp_controller plan)"
  by (simp_all add: lock_key_def flash_args_def plan_args_def)

end
