(* ===== verification/Spec2Isabelle.thy ===== *)
theory Spec2Isabelle
  imports Linesplit Drain_Mining Profile_Framer Bisect Overrides Codec File_Transfer Migrate Store_Retention Pipeline_Session Registry_Laws Runner_Laws Console_Laws Ingest Watch_Laws Follow_Laws Stored_Bisect Absence Slot_Values Search_Narrowing Relay_Laws Targets Route_Laws Hook_Laws Controllers Power_Laws
begin

text \<open>
  \<^bold>\<open>The program.\<close> conminer keeps the serial consoles of a board farm. Bytes read from a
  console run through an ingest pipeline (\<^verbatim>\<open>pipeline.rs\<close>): a line splitter cuts them into lines
  (\<^verbatim>\<open>linesplit.rs\<close>), the lines are stored raw in the device store (\<^verbatim>\<open>store/device.rs\<close>), a framer
  driven by a declarative profile groups them into records and follows the boot stages
  (\<^verbatim>\<open>framer/*.rs\<close>), and a template miner turns record texts into templates (\<^verbatim>\<open>drain.rs\<close>).
  Around the pipeline stand the device registry with names, ports, leases and claims
  (\<^verbatim>\<open>store/registry.rs\<close>), schema migration (\<^verbatim>\<open>store/mod.rs\<close>), the perceived state of a console
  (\<^verbatim>\<open>console.rs\<close>), the transaction runner that types a command and captures its output
  (\<^verbatim>\<open>runner.rs\<close>), file transfer over the console (\<^verbatim>\<open>transfer.rs\<close>), bisecting over builds
  (\<^verbatim>\<open>bisect.rs\<close>), boot-mode overrides (\<^verbatim>\<open>overrides.rs\<close>) and the input codecs
  (\<^verbatim>\<open>codec.rs\<close>). All paths below are under \<^verbatim>\<open>src/crates/conminer-core/src\<close> unless they say
  otherwise.

  \<^bold>\<open>Foundations.\<close>
  \<^item> \<open>Conminer_Prelude\<close>: machine types, named collections of rewrite rules, slices and
    \<^verbatim>\<open>slice::split\<close>, and the locale \<open>chunked_reader\<close>, the contract of a consumer that is
    fed in chunks; it is interpreted on the line splitter and on the telnet filter.
  \<^item> \<open>Rust_Str\<close>: the string operations of the Rust standard library the sources use.
  \<^item> \<open>Btree_Map\<close>: the ordered map, with the locale \<open>ordered_map\<close> and its interpretation.
  \<^item> \<open>Rust_Result\<close>: \<^verbatim>\<open>Result\<close> with its early return \<^verbatim>\<open>?\<close>.
  \<^item> \<open>Store_Types\<close>: error taxonomy (\<^verbatim>\<open>error.rs\<close>), severities, record kinds, cursors.

  \<^bold>\<open>Components, in the order the bytes take.\<close>
  \<^item> \<open>Linesplit\<close> (\<^verbatim>\<open>linesplit.rs\<close>): the splitter as a record, \<^verbatim>\<open>push\<close>, \<^verbatim>\<open>finish\<close> and the
    idle flush. Reassembling the lines gives the input; the result does not depend on the
    chunking; lines respect the bound.
  \<^item> \<open>Generic\<close>, \<open>Framer_Types\<close>, \<open>Profile\<close>, \<open>Stage\<close>, \<open>Profile_Framer\<close> (\<^verbatim>\<open>framer/\<close>): pattern
    classes and garbage detector, record events and the conservation assertion, profile parsing,
    validation, inheritance and compilation, the stage machine, and the framer with look-back,
    multi-line blocks and garbage runs. The detector refines a window over the byte verdicts;
    the records tile the offered lines (locale \<open>framer_contract\<close>).
  \<^item> \<open>Drain_Token\<close>, \<open>Drain\<close>, \<open>Drain_Mining\<close> (\<^verbatim>\<open>drain.rs\<close>): tokenizer, parse tree and
    template operations. A template is the position-wise agreement of the lines assigned to it.
  \<^item> \<open>Device_Store\<close>, \<open>Store_Queries\<close>, \<open>Store_Inv\<close>, \<open>Store_Epochs\<close>, \<open>Store_Retention\<close>
    (\<^verbatim>\<open>store/device.rs\<close>): tables as lists of rows in one record; every write is a function
    from the store to a result and a store. The invariant says that the lines are a contiguous
    stretch of the stream, references resolve, and the bytes booked on an epoch are the bytes of
    its lines. Epoch boundaries, paging, pruning and the size cap rest on it.
  \<^item> \<open>Pipeline\<close>, \<open>Pipeline_Inv\<close>, \<open>Pipeline_Apply\<close>, \<open>Pipeline_Run\<close>, \<open>Pipeline_Session\<close>
    (\<^verbatim>\<open>pipeline.rs\<close>): the composition of the above, including the rate limiter, backfilling of
    early epochs and template persistence. A capture is a sequence of chunks, ticks and epoch
    changes; it never fails on a consistent store, and it stores every byte once.
  \<^item> \<open>Migrate\<close> (\<^verbatim>\<open>migrate\<close> of \<^verbatim>\<open>store/mod.rs\<close>): several openers of one database as a step
    relation with faults.
  \<^item> \<open>Device_Registry\<close>, \<open>Registry_Laws\<close> (\<^verbatim>\<open>store/registry.rs\<close>): devices, nicknames, tags,
    ports, leases and claims, and what holds after any sequence of operations.
  \<^item> \<open>Console_State\<close>, \<open>Console_Laws\<close> (\<^verbatim>\<open>console.rs\<close>): the state derived from the store, with
    the evidence for each state.
  \<^item> \<open>Telnet\<close>, \<open>Command_Runner\<close>, \<open>Runner_Laws\<close> (\<^verbatim>\<open>runner.rs\<close>): the telnet layer, prompt
    recognition, and the transaction with its recovery ladder over an arbitrary transport.
  \<^item> \<open>File_Transfer\<close> (\<^verbatim>\<open>transfer.rs\<close>), \<open>Bisect\<close> (\<^verbatim>\<open>bisect.rs\<close>), \<open>Overrides\<close>
    (\<^verbatim>\<open>overrides.rs\<close>), \<open>Codec\<close> (\<^verbatim>\<open>codec.rs\<close>).
  \<^item> \<open>Ingest\<close> (\<^verbatim>\<open>ingest.rs\<close>): reading a file or a saved capture into the store, and exporting a
    session. A stream whose blocks all unwrap is stored however it is blocked; an exported session
    is read back, if its header line is inside the first block and it does not look wrapped.

  \<^bold>\<open>What is asked of a capture afterwards.\<close>
  \<^item> \<open>Store_Watches\<close>, \<open>Watch_Laws\<close> (watches of \<^verbatim>\<open>store/device.rs\<close>): registered watches, their queue
    of firings, the two readers (polls and pushes). A firing is handed out once to each.
  \<^item> \<open>Follow\<close>, \<open>Follow_Laws\<close> (\<^verbatim>\<open>follow.rs\<close>): cursors, condition scans, increments under a token
    budget. A watch polled while capture appends sees each matching line once; what an answer
    leaves out is counted.
  \<^item> \<open>Store_Notes\<close> (\<^verbatim>\<open>store/device.rs\<close>): the side tables (prompts, verdicts, metrics, images,
    events, bisects, expectations). \<open>Stored_Bisect\<close> (bisect tools of \<^verbatim>\<open>conminer-mcp\<close>): a bisect that
    lives in these tables, over distinct builds, ends with the culprit or says what was skipped.
  \<^item> \<open>Absence\<close> (\<^verbatim>\<open>absence.rs\<close>): what a boot should have printed; the report is exact.
  \<^item> \<open>Slot_Values\<close> (\<^verbatim>\<open>values.rs\<close>): numbers and their summaries behind the wildcards of a template.
  \<^item> \<open>Search\<close>, \<open>Search_Laws\<close>, \<open>Search_Narrowing\<close> (\<^verbatim>\<open>search.rs\<close>): the tiers of a search. The
    locale \<open>paged_reader\<close> says what resuming needs; it is interpreted on the scan and on the word
    search. Narrowing a pattern by the index keeps every match that starts at a token, for the
    patterns the theory describes; counterexamples show where it does not.

  \<^bold>\<open>The fleet.\<close>
  \<^item> \<open>Peer_Table\<close> (\<^verbatim>\<open>peers/mod.rs\<close>, \<^verbatim>\<open>peers/registry.rs\<close>): names of nodes and the table of peers.
    \<open>Peer_Inventory\<close>, \<open>Inventory_Laws\<close> (\<^verbatim>\<open>peers/inventory.rs\<close>): the devices a peer announces. A round
    over the peers leaves the node's own rows alone; an import reflects the list.
  \<^item> \<open>Relay\<close>, \<open>Relay_Laws\<close> (\<^verbatim>\<open>peers/relay.rs\<close>): calls that a node behind a firewall collects. Each
    definition is a critical section; callers, polls and posts of anybody interleave as an inductive step
    relation. A call is handed out once, to its own node, and answered by what was last posted for it
    in the name of that node.
  \<^item> \<open>Targets\<close> (\<^verbatim>\<open>target.rs\<close>): boards of several consoles, renaming them, their joint epochs.
  \<^item> \<open>Route\<close>, \<open>Route_Laws\<close> (\<^verbatim>\<open>route.rs\<close>): where a tool call runs. A call reaches the board it names,
    and forwarding ends as long as names lead to the nodes that bear them.

  \<^bold>\<open>Actuating a board.\<close>
  \<^item> \<open>Hooks\<close>, \<open>Hook_Laws\<close> (\<^verbatim>\<open>hooks.rs\<close>): commands of the lab, one at a time per controller, and probes
    that share an answer. In every interleaving an answer is recent enough.
  \<^item> \<open>Controllers\<close> (\<^verbatim>\<open>config.rs\<close>): which controller and which command. A profile's
    command is never another board's; a hook the operator wrote for a console is not checked.
  \<^item> \<open>Actuation\<close>, \<open>Actuation_Laws\<close> (\<^verbatim>\<open>state.rs\<close>): the claim an actuation holds on its consoles, with
    its invariant over all interleavings.
  \<^item> \<open>Power_Scope\<close>, \<open>Power_Tools\<close>, \<open>Actuation_Tools\<close>, \<open>Power_Laws\<close> (\<^verbatim>\<open>tools.rs\<close>): the handlers of the
    actuating tools over the registry, the stores and the claims. The bench - processes, capture,
    USB, time - is a parameter by the commands run so far. Nothing happens without lease and claim,
    claims end with their call or with the escalation it leaves, and a normal boot presses power only on proof.

  \<^bold>\<open>Modelling decisions.\<close>
  \<^item> A Rust \<^verbatim>\<open>String\<close> is a list of characters below 256, one per byte of a Latin-1 reading;
    where the source measures bytes of UTF-8 the model does too (\<open>str_len\<close>, \<open>as_bytes\<close>). The
    decoding of raw bytes (\<^verbatim>\<open>from_utf8_lossy\<close>) is a parameter where it matters. Fixed texts that
    contain a character above 255 (the ellipsis, the replacement character) are written with an
    ASCII stand-in.
  \<^item> \<^verbatim>\<open>f64\<close> ratios and thresholds are rationals. Counters and row ids are \<open>nat\<close> or \<open>int\<close>
    without a bound, except where the source wraps or saturates; bytes and base64 groups are
    words.
  \<^item> Regular expressions, TOML, JSON values, SHA-256 and the database engine are not code of the
    repository: regex matching and digests are parameters of the definitions that use them, and a
    SQL statement is modelled by what it selects or changes. A failed statement of a transaction
    leaves the store as it was.
  \<^item> The clock is an argument: one reading per call of an operation that the source stamps. A
    read of a transport takes at least a nanosecond, so loops with a deadline end.
  \<^item> A panic is \<open>None\<close>; errors are values with the source's error code. Message texts of errors
    are left out unless the code inspects them.
  \<^item> Loops over input are structural recursion or have a termination proof. Fuel stands only
    for the client in a loop over calls: \<open>Bisect.search\<close> and \<open>Stored_Bisect.drive\<close>, where as many
    tests as there are candidates are proved to be enough, and \<open>paged_reader.collect\<close>, where as many
    pages as there are hits are.
  \<^item> Lines the rate limiter samples out are stored and counted but not part of a record; the
    theorem on the partition of lines into records says so in its hypothesis.

  \<^bold>\<open>Not modelled.\<close> Sockets, serial ports, USB and child processes (\<^verbatim>\<open>broker.rs\<close>, \<^verbatim>\<open>live.rs\<close>,
  \<^verbatim>\<open>discovery.rs\<close>, \<^verbatim>\<open>usb.rs\<close>, \<^verbatim>\<open>ftdi.rs\<close>, \<^verbatim>\<open>tac.rs\<close>), the identity file, beacon and HTTP client of the
  peers, the transport of the MCP server with its reports, self-test and push sessions, the command
  line and the dashboard, which are I/O and rendering around the code modelled here; the schema and
  the range checks of the configuration; JSON rendering of most results; decoding of registers and
  symbols; the file lock of the writer, which is the operating system's. The manifest lists every
  part with its reason.
\<close>

end
